(* ===== verification/Prelude.thy ===== *)
theory Prelude
  imports Main "HOL-Library.Word" "HOL-Library.Stream" "HOL-Library.Multiset"
begin

text \<open>
  Shared vocabulary of the development: the C integer types, the random number source of the
  C library, loops over an index range, and the list lemmas the components rely on.

  The fixed-width unsigned types of the sources are words. A C \<open>int\<close> is a HOL \<open>int\<close>: signed
  overflow is undefined behaviour in C, and the counters that are \<open>int\<close> in the sources grow by at
  most a few units per tick.

  The C library's \<open>rand()\<close> is a stream: the numbers that the successive calls return. Every
  function that calls \<open>rand()\<close> takes the stream and hands back what is left of it.
\<close>

type_synonym u8 = "8 word"
type_synonym u16 = "16 word"
type_synonym u32 = "32 word"

type_synonym rng = "nat stream"

definition rand :: "rng \<Rightarrow> nat \<times> rng" where
  "rand r = (shd r, stl r)"

named_theorems wf_intros \<open>preservation of the components' well-formedness invariants\<close>
named_theorems board_simps \<open>rewriting of board and piece accessors\<close>

subsection \<open>Loops that write consecutive slots of an array\<close>

text \<open>
  \<open>for (i = 0; i < n; i++) a[i] = f(i)\<close> where \<open>f\<close> does not read the slots already written.
\<close>

lemma fold_list_update_length [simp]:
  "length (fold (\<lambda>i a. a[g i := f i]) is a) = length a"
  by (induction "is" arbitrary: a) simp_all

lemma fold_update_upt:
  "n \<le> length a \<Longrightarrow> fold (\<lambda>i a. a[i := f i]) [0..<n] a = map f [0..<n] @ drop n a"
proof (induction n)
  case (Suc n)
  then have "n < length a" by simp
  with Suc show ?case
    by (simp add: list_update_append Cons_nth_drop_Suc [symmetric])
qed simp

text \<open>
  \<open>for (i = 0; i < n; i++) a[i] = a[i + k]\<close>: an in-place move towards the front, where each read
  is ahead of every write made so far.
\<close>

lemma fold_shift_down:
  "n + k \<le> length a \<Longrightarrow>
   fold (\<lambda>i a. a[i := a ! (i + k)]) [0..<n] a = take n (drop k a) @ drop n a"
proof (induction n)
  case (Suc n)
  have IH: "fold (\<lambda>i a. a[i := a ! (i + k)]) [0..<n] a = take n (drop k a) @ drop n a"
    using Suc by simp
  have len: "length (take n (drop k a)) = n" using Suc.prems by simp
  have rd: "(take n (drop k a) @ drop n a) ! (n + k) = a ! (n + k)"
    using Suc.prems len by (simp add: nth_append)
  have dr: "drop n a = a ! n # drop (Suc n) a"
    using Suc.prems by (simp add: Cons_nth_drop_Suc)
  have tk: "take (Suc n) (drop k a) = take n (drop k a) @ [a ! (n + k)]"
    using Suc.prems by (simp add: take_Suc_conv_app_nth add.commute)
  show ?case using IH rd len by (simp add: list_update_append dr tk)
qed simp

subsection \<open>Words read as C integers\<close>

lemma sint_u32_small: "unat (w :: u32) < 2147483648 \<Longrightarrow> sint w = int (unat w)"
proof -
  assume a: "unat w < 2147483648"
  have e: "uint w = int (unat w)" by (rule uint_nat)
  have g: "signed_take_bit 31 (int n) = int n" if "n < 2147483648" for n
    using that by (intro signed_take_bit_int_eq_self) simp_all
  have "sint w = signed_take_bit 31 (uint w)" by (simp add: sint_uint)
  then show ?thesis unfolding e g [OF a] .
qed

lemma unat_word_of_int_u32: "0 \<le> n \<Longrightarrow> n < 2 ^ 32 \<Longrightarrow> unat (word_of_int n :: u32) = nat n"
  by (simp add: unat_eq_nat_uint uint_word_of_int)

lemma unat_of_nat_u32: "n < 2 ^ 32 \<Longrightarrow> unat (of_nat n :: u32) = n"
  by (simp add: unat_of_nat)

subsection \<open>Loops and lists\<close>

text \<open>Nested loops over index ranges are one loop over the pairs they visit.\<close>

lemma fold_concat_map:
  "fold (\<lambda>x s. fold (f x) (g x) s) xs s = fold (\<lambda>(x, y). f x y) (concat (map (\<lambda>x. map (Pair x) (g x)) xs)) s"
  by (induction xs arbitrary: s) (simp_all add: fold_map comp_def)

lemma fold_if_filter:
  "fold (\<lambda>x s. if P x then f x s else s) xs s = fold f (filter P xs) s"
  by (induction xs arbitrary: s) simp_all

lemma nth_mem_set_concat: "i < length b \<Longrightarrow> j < length (b ! i) \<Longrightarrow> b ! i ! j \<in> set (concat b)"
  by (auto simp: in_set_conv_nth intro!: bexI [of _ "b ! i"])

subsection \<open>Codecs\<close>

text \<open>
  A codec: \<open>dec\<close> reads back what \<open>enc\<close> wrote, for every value in the domain and whatever the
  target held before. Its lemmas are what the users of a codec rely on.
\<close>

locale codec =
  fixes enc :: "'a \<Rightarrow> 'w list" and dec :: "'w list \<Rightarrow> 'a \<Rightarrow> 'a" and dom_ok :: "'a \<Rightarrow> bool"
  assumes dec_enc: "dom_ok x \<Longrightarrow> dec (enc x) y = x"
begin

lemma enc_inj: "dom_ok x \<Longrightarrow> dom_ok y \<Longrightarrow> enc x = enc y \<Longrightarrow> x = y"
  using dec_enc by metis

lemma dec_indep: "dom_ok x \<Longrightarrow> dec (enc x) y = dec (enc x) z"
  by (simp add: dec_enc)

text \<open>A relay that decodes and encodes again sends on the same text.\<close>

lemma relay: "dom_ok x \<Longrightarrow> enc (dec (enc x) y) = enc x"
  by (simp add: dec_enc)

end

end
