(* ===== verification/Tetris_State.thy ===== *)
theory Tetris_State
  imports Prelude
begin

text \<open>
  The data of \<open>libtetrisbrain\<close>: the board (\<open>board.h\<close>), the active piece and its tables
  (\<open>piece.h\<close>, \<open>board_control.c\<close>) and the whole game state of one player (\<open>state.h\<close>).

  The C enums \<open>PieceType\<close> and \<open>Rotation\<close> take part in arithmetic and are filled from plain
  integers (the bag, the hold slot, the wire), so they are integers here, with the enumerators as
  names. \<open>TargetingMode\<close> is a datatype; \<open>TARGET_OTHER\<close> stands for a value outside the enumerators,
  which a cast from the wire can produce.
\<close>

section \<open>Board and pieces\<close>

abbreviation (input) BOARD_WIDTH :: nat where "BOARD_WIDTH \<equiv> 10"
abbreviation (input) BOARD_HEIGHT :: nat where "BOARD_HEIGHT \<equiv> 20"

text \<open>The playfield: a list of \<open>BOARD_HEIGHT\<close> rows of \<open>BOARD_WIDTH\<close> cells, row 0 on top.\<close>

record Board =
  cells :: "u8 list list"

type_synonym PieceType = int

abbreviation (input) PIECE_NONE :: PieceType where "PIECE_NONE \<equiv> 0"
abbreviation (input) PIECE_I :: PieceType where "PIECE_I \<equiv> 1"
abbreviation (input) PIECE_O :: PieceType where "PIECE_O \<equiv> 2"
abbreviation (input) PIECE_T :: PieceType where "PIECE_T \<equiv> 3"
abbreviation (input) PIECE_S :: PieceType where "PIECE_S \<equiv> 4"
abbreviation (input) PIECE_Z :: PieceType where "PIECE_Z \<equiv> 5"
abbreviation (input) PIECE_J :: PieceType where "PIECE_J \<equiv> 6"
abbreviation (input) PIECE_L :: PieceType where "PIECE_L \<equiv> 7"

type_synonym Rotation = int

abbreviation (input) ROT_0 :: Rotation where "ROT_0 \<equiv> 0"
abbreviation (input) ROT_1 :: Rotation where "ROT_1 \<equiv> 1"
abbreviation (input) ROT_2 :: Rotation where "ROT_2 \<equiv> 2"
abbreviation (input) ROT_3 :: Rotation where "ROT_3 \<equiv> 3"

record Piece =
  p_type :: PieceType
  p_rot :: Rotation
  p_x :: int
  p_y :: int

definition TETROMINOES :: "int list list" where
  "TETROMINOES =
    [[0, 0, 0, 0, 1, 1, 1, 1, 0, 0, 0, 0, 0, 0, 0, 0],
     [0, 0, 0, 0, 0, 1, 1, 0, 0, 1, 1, 0, 0, 0, 0, 0],
     [0, 0, 0, 0, 0, 1, 0, 0, 1, 1, 1, 0, 0, 0, 0, 0],
     [0, 0, 0, 0, 0, 0, 1, 1, 0, 1, 1, 0, 0, 0, 0, 0],
     [0, 0, 0, 0, 1, 1, 0, 0, 0, 1, 1, 0, 0, 0, 0, 0],
     [0, 0, 0, 0, 0, 0, 0, 1, 0, 1, 1, 1, 0, 0, 0, 0],
     [0, 0, 0, 0, 1, 0, 0, 0, 1, 1, 1, 0, 0, 0, 0, 0]]"

section \<open>Game state\<close>

datatype TargetingMode = TARGET_MANUAL | TARGET_RANDOM | TARGET_KO | TARGET_OTHER u32

text \<open>The enumerators' integer values, as the casts between the enum and integers see them.\<close>

fun u32_of_target_mode :: "TargetingMode \<Rightarrow> u32" where
  "u32_of_target_mode TARGET_MANUAL = 0"
| "u32_of_target_mode TARGET_RANDOM = 1"
| "u32_of_target_mode TARGET_KO = 2"
| "u32_of_target_mode (TARGET_OTHER w) = w"

definition target_mode_of_u32 :: "u32 \<Rightarrow> TargetingMode" where
  "target_mode_of_u32 w =
     (if w = 0 then TARGET_MANUAL else if w = 1 then TARGET_RANDOM
      else if w = 2 then TARGET_KO else TARGET_OTHER w)"

lemma u32_of_target_mode_of_u32 [simp]: "u32_of_target_mode (target_mode_of_u32 w) = w"
  by (simp add: target_mode_of_u32_def)

record GameState =
  board :: Board
  current :: Piece
  next_piece :: Piece
  target_mode :: TargetingMode
  gs_player_id :: u32
  target_player_id :: u32
  gravity_timer :: int
  lock_timer :: int
  held_type :: int
  has_held :: bool
  bag :: "int list"
  bag_index :: int
  pieces_placed :: int
  tetrises :: int
  t_spins :: int
  last_action_rotation :: bool
  pending_garbage :: u32
  outgoing_garbage :: u32
  last_attacker_id :: u32
  score :: int
  lines_cleared :: int
  combo :: int
  b2b :: bool
  level :: int
  game_over :: int
  gs_winner_id :: u32

text \<open>The state after \<open>memset(state, 0, sizeof(GameState))\<close>.\<close>

definition zero_piece :: Piece where
  "zero_piece = \<lparr>p_type = 0, p_rot = 0, p_x = 0, p_y = 0\<rparr>"

definition zero_cells :: "u8 list list" where
  "zero_cells = replicate BOARD_HEIGHT (replicate BOARD_WIDTH 0)"

definition zero_state :: GameState where
  "zero_state =
    \<lparr>board = \<lparr>cells = zero_cells\<rparr>, current = zero_piece, next_piece = zero_piece,
     target_mode = TARGET_MANUAL, gs_player_id = 0, target_player_id = 0, gravity_timer = 0,
     lock_timer = 0, held_type = 0, has_held = False, bag = replicate 14 0, bag_index = 0,
     pieces_placed = 0, tetrises = 0, t_spins = 0, last_action_rotation = False,
     pending_garbage = 0, outgoing_garbage = 0, last_attacker_id = 0, score = 0,
     lines_cleared = 0, combo = 0, b2b = False, level = 0, game_over = 0, gs_winner_id = 0\<rparr>"

abbreviation set_cells :: "GameState \<Rightarrow> u8 list list \<Rightarrow> GameState" where
  "set_cells s b \<equiv> s\<lparr>board := (board s)\<lparr>cells := b\<rparr>\<rparr>"

abbreviation grid :: "GameState \<Rightarrow> u8 list list" where
  "grid s \<equiv> cells (board s)"

section \<open>Well-formedness\<close>

text \<open>The dimensions of the C array, which no operation may change.\<close>

definition grid_wf :: "u8 list list \<Rightarrow> bool" where
  "grid_wf b \<longleftrightarrow> length b = BOARD_HEIGHT \<and> (\<forall>r \<in> set b. length r = BOARD_WIDTH)"

definition piece_type_ok :: "int \<Rightarrow> bool" where
  "piece_type_ok t \<longleftrightarrow> 1 \<le> t \<and> t \<le> 7"

definition rotation_ok :: "int \<Rightarrow> bool" where
  "rotation_ok r \<longleftrightarrow> 0 \<le> r \<and> r \<le> 3"

text \<open>The active piece is one of the seven in one of the four rotations.\<close>

definition piece_wf :: "Piece \<Rightarrow> bool" where
  "piece_wf p \<longleftrightarrow> piece_type_ok (p_type p) \<and> rotation_ok (p_rot p)"

text \<open>Both halves of the bag are permutations of the seven pieces and the draw index is in the first half.\<close>

abbreviation seven :: "int list" where
  "seven \<equiv> [1, 2, 3, 4, 5, 6, 7]"

definition bag_wf :: "int list \<Rightarrow> int \<Rightarrow> bool" where
  "bag_wf bg i \<longleftrightarrow> length bg = 14 \<and> mset (take 7 bg) = mset seven \<and> mset (drop 7 bg) = mset seven
     \<and> 0 \<le> i \<and> i < 7"

definition state_wf :: "GameState \<Rightarrow> bool" where
  "state_wf s \<longleftrightarrow> grid_wf (grid s) \<and> piece_wf (current s) \<and> bag_wf (bag s) (bag_index s)
     \<and> (held_type s = 0 \<or> piece_type_ok (held_type s)) \<and> pending_garbage s \<le> 20
     \<and> -1 \<le> combo s \<and> 0 \<le> lines_cleared s \<and> 0 \<le> score s"

lemma grid_wf_zero [simp]: "grid_wf zero_cells"
  by (simp add: grid_wf_def zero_cells_def)

lemma grid_wf_row: "grid_wf b \<Longrightarrow> y < BOARD_HEIGHT \<Longrightarrow> length (b ! y) = BOARD_WIDTH"
  by (auto simp: grid_wf_def)

lemma grid_wf_update:
  "grid_wf b \<Longrightarrow> length r = BOARD_WIDTH \<Longrightarrow> grid_wf (b[y := r])"
  by (auto simp: grid_wf_def dest: set_update_subset_insert [THEN subsetD])

lemma bag_wf_nth: "bag_wf bg i \<Longrightarrow> 0 \<le> k \<Longrightarrow> k < 14 \<Longrightarrow> piece_type_ok (bg ! nat k)"
proof -
  assume wf: "bag_wf bg i" and k: "0 \<le> k" "k < 14"
  then have "bg ! nat k \<in> set (take 7 bg @ drop 7 bg)" by (simp add: bag_wf_def)
  moreover have "set (take 7 bg) = set seven" "set (drop 7 bg) = set seven"
    using wf unfolding bag_wf_def by (metis mset_eq_setD)+
  moreover have "set bg = set (take 7 bg) \<union> set (drop 7 bg)"
    by (metis append_take_drop_id set_append)
  ultimately show ?thesis by (auto simp: piece_type_ok_def)
qed

end
