(* ===== verification/Board_Control.thy ===== *)
theory Board_Control
  imports Tetris_State
begin

text \<open>
  \<open>board_control.c\<close> and \<open>movement.c\<close> of \<open>libtetrisbrain\<close>: the rotated 4x4 box of a piece, the
  collision test, the wall kicks of the rotation system, locking a piece into the board, clearing
  full rows, and the four moves. The lemmas give each operation a declarative reading: the set of
  cells a piece covers, the board as a list of rows from which the full ones are removed.
\<close>

section \<open>Piece control\<close>

definition get_rotation_index :: "int \<Rightarrow> int \<Rightarrow> Rotation \<Rightarrow> int" where
  "get_rotation_index x y rot =
     (if rot = ROT_0 then x + y * 4
      else if rot = ROT_1 then 12 + y - x * 4
      else if rot = ROT_2 then 15 - y * 4 - x
      else if rot = ROT_3 then 3 - y + x * 4
      else 0)"

definition get_transition_index :: "Rotation \<Rightarrow> Rotation \<Rightarrow> nat" where
  "get_transition_index current_rot next_rot =
     (if current_rot = ROT_0 \<and> next_rot = ROT_1 then 0
      else if current_rot = ROT_1 \<and> next_rot = ROT_0 then 1
      else if current_rot = ROT_1 \<and> next_rot = ROT_2 then 2
      else if current_rot = ROT_2 \<and> next_rot = ROT_1 then 3
      else if current_rot = ROT_2 \<and> next_rot = ROT_3 then 4
      else if current_rot = ROT_3 \<and> next_rot = ROT_2 then 5
      else if current_rot = ROT_3 \<and> next_rot = ROT_0 then 6
      else if current_rot = ROT_0 \<and> next_rot = ROT_3 then 7
      else 0)"

text \<open>
  The table read \<open>TETROMINOES[shape_index][cell_index]\<close>. A read outside the table is undefined
  behaviour in C; here it is an empty cell, and \<open>tetromino_access_in_range\<close> shows that a
  well-formed piece never makes one.
\<close>

definition tetromino_cell :: "int \<Rightarrow> int \<Rightarrow> int" where
  "tetromino_cell shape_index cell_index =
     (if 0 \<le> shape_index \<and> shape_index < 7 \<and> 0 \<le> cell_index \<and> cell_index < 16
      then TETROMINOES ! nat shape_index ! nat cell_index else 0)"

text \<open>The index range of the loops over the 4x4 box.\<close>

definition box4 :: "int list" where
  "box4 = [0, 1, 2, 3]"

section \<open>Board control\<close>

text \<open>The two tests of \<open>is_valid_pos\<close> on one solid cell of the piece.\<close>

definition cell_blocked :: "GameState \<Rightarrow> int \<Rightarrow> int \<Rightarrow> bool" where
  "cell_blocked s board_x board_y \<longleftrightarrow>
     board_x < 0 \<or> board_x \<ge> int BOARD_WIDTH \<or> board_y \<ge> int BOARD_HEIGHT
     \<or> (board_y \<ge> 0 \<and> grid s ! nat board_y ! nat board_x \<noteq> 0)"

definition is_valid_pos :: "GameState \<Rightarrow> PieceType \<Rightarrow> Rotation \<Rightarrow> int \<Rightarrow> int \<Rightarrow> bool" where
  "is_valid_pos s type rot pos_x pos_y =
     list_all (\<lambda>px. list_all (\<lambda>py.
         tetromino_cell (type - 1) (get_rotation_index px py rot) = 0
         \<or> \<not> cell_blocked s (pos_x + px) (pos_y + py)) box4) box4"

definition set_cell :: "u8 list list \<Rightarrow> int \<Rightarrow> int \<Rightarrow> u8 \<Rightarrow> u8 list list" where
  "set_cell b x y v = b[nat y := (b ! nat y)[nat x := v]]"

text \<open>The guarded write of \<open>lock_piece\<close>.\<close>

definition lock_cell :: "int \<Rightarrow> int \<Rightarrow> u8 \<Rightarrow> u8 list list \<Rightarrow> u8 list list" where
  "lock_cell board_x board_y v b =
     (if board_y \<ge> 0 \<and> board_y < int BOARD_HEIGHT
      then (if board_x \<ge> 0 \<and> board_x < int BOARD_WIDTH then set_cell b board_x board_y v else b)
      else b)"

definition lock_piece :: "GameState \<Rightarrow> GameState" where
  "lock_piece s =
     (let p = current s in
      set_cells s
        (fold (\<lambda>px b. fold (\<lambda>py b.
            if tetromino_cell (p_type p - 1) (get_rotation_index px py (p_rot p)) \<noteq> 0
            then lock_cell (p_x p + px) (p_y p + py) (word_of_int (p_type p)) b
            else b) box4 b) box4 (grid s)))"

subsection \<open>Clearing rows\<close>

definition row_is_full :: "u8 list \<Rightarrow> bool" where
  "row_is_full r = list_all (\<lambda>c. c \<noteq> 0) r"

text \<open>The shift loop \<open>for (yy = y; yy > 0; yy--)\<close>, copying each row from the row above it.\<close>

primrec shift_rows_down :: "nat \<Rightarrow> u8 list list \<Rightarrow> u8 list list" where
  "shift_rows_down 0 b = b"
| "shift_rows_down (Suc yy) b = shift_rows_down yy (b[Suc yy := b ! yy])"

definition empty_row :: "u8 list" where
  "empty_row = replicate BOARD_WIDTH 0"

definition drop_row :: "nat \<Rightarrow> u8 list list \<Rightarrow> u8 list list" where
  "drop_row y b = (shift_rows_down y b)[0 := empty_row]"

lemma shift_rows_down_eq:
  "y < length b \<Longrightarrow> shift_rows_down y b = b ! 0 # take y b @ drop (Suc y) b"
proof (induction y arbitrary: b)
  case 0
  then show ?case by (cases b) simp_all
next
  case (Suc y)
  have "take (Suc y) b = take y b @ [b ! y]"
    using Suc.prems by (simp add: take_Suc_conv_app_nth)
  moreover have "drop (Suc y) (b[Suc y := b ! y]) = b ! y # drop (Suc (Suc y)) b"
    using Suc.prems by (metis Cons_nth_drop_Suc drop_update_cancel length_list_update lessI nth_list_update_eq)
  ultimately show ?case using Suc by simp
qed

lemma drop_row_eq: "y < length b \<Longrightarrow> drop_row y b = empty_row # take y b @ drop (Suc y) b"
  by (simp add: drop_row_def shift_rows_down_eq)

lemma empty_row_not_full [simp]: "\<not> row_is_full empty_row"
  by (simp add: row_is_full_def empty_row_def list_all_iff)

text \<open>
  The outer loop of \<open>clear_lines\<close>: \<open>n\<close> is \<open>y + 1\<close>. A full row is removed and the same row is
  examined again (the \<open>y++\<close> of the source), so the loop ends because every removal uses up one
  of the full rows among the first \<open>n\<close>. The bound on \<open>y\<close> is the array bound.
\<close>

function clear_loop :: "nat \<Rightarrow> u8 list list \<Rightarrow> nat \<Rightarrow> u8 list list \<times> nat" where
  "clear_loop 0 b cleared = (b, cleared)"
| "clear_loop (Suc y) b cleared =
     (if y < length b \<and> row_is_full (b ! y)
      then clear_loop (Suc y) (drop_row y b) (cleared + 1)
      else clear_loop y b cleared)"
  by pat_completeness auto
termination
  by (relation "measures [\<lambda>(n, b, c). n, \<lambda>(n, b, c). length (filter row_is_full (take n b))]")
     (auto simp: drop_row_eq take_Suc_conv_app_nth)

definition clear_lines :: "GameState \<Rightarrow> nat \<times> GameState" where
  "clear_lines s =
     (let (b, n) = clear_loop BOARD_HEIGHT (grid s) 0;
          s1 = set_cells s b
      in (n, if n > 0
             then let l = lines_cleared s1 + int n
                  in s1\<lparr>lines_cleared := l, level := l div 10 + 1, score := score s1 + int n * 100\<rparr>
             else s1))"

section \<open>Rotation\<close>

definition KICKS_JLSTZ :: "(int \<times> int) list list" where
  "KICKS_JLSTZ =
    [[(0, 0), (-1, 0), (-1, -1), (0, 2), (-1, 2)],
     [(0, 0), (1, 0), (1, 1), (0, -2), (1, -2)],
     [(0, 0), (1, 0), (1, 1), (0, -2), (1, -2)],
     [(0, 0), (-1, 0), (-1, -1), (0, 2), (-1, 2)],
     [(0, 0), (1, 0), (1, -1), (0, 2), (1, 2)],
     [(0, 0), (-1, 0), (-1, 1), (0, -2), (-1, -2)],
     [(0, 0), (-1, 0), (-1, 1), (0, -2), (-1, -2)],
     [(0, 0), (1, 0), (1, -1), (0, 2), (1, 2)]]"

definition KICKS_I :: "(int \<times> int) list list" where
  "KICKS_I =
    [[(0, 0), (-2, 0), (1, 0), (-2, 1), (1, -2)],
     [(0, 0), (2, 0), (-1, 0), (2, -1), (-1, 2)],
     [(0, 0), (-1, 0), (2, 0), (-1, -2), (2, 1)],
     [(0, 0), (1, 0), (-2, 0), (1, 2), (-2, -1)],
     [(0, 0), (2, 0), (-1, 0), (2, -1), (-1, 2)],
     [(0, 0), (-2, 0), (1, 0), (-2, 1), (1, -2)],
     [(0, 0), (1, 0), (-2, 0), (1, 2), (-2, -1)],
     [(0, 0), (-1, 0), (2, 0), (-1, -2), (2, 1)]]"

definition kick_offset :: "PieceType \<Rightarrow> nat \<Rightarrow> nat \<Rightarrow> int \<times> int" where
  "kick_offset type trans_index i =
     (if type = 1 then KICKS_I ! trans_index ! i
      else if type = 2 then (0, 0)
      else KICKS_JLSTZ ! trans_index ! i)"

text \<open>The loop over the kick tests: the first offset that fits is taken.\<close>

fun try_kicks :: "GameState \<Rightarrow> Rotation \<Rightarrow> (int \<times> int) list \<Rightarrow> bool \<times> GameState" where
  "try_kicks s next_rot [] = (False, s)"
| "try_kicks s next_rot ((offset_x, offset_y) # ks) =
     (let nx = p_x (current s) + offset_x; ny = p_y (current s) + offset_y
      in if is_valid_pos s (p_type (current s)) next_rot nx ny
         then (True, s\<lparr>current := (current s)\<lparr>p_x := nx, p_y := ny, p_rot := next_rot\<rparr>,
                       last_action_rotation := True\<rparr>)
         else try_kicks s next_rot ks)"

definition test_rotate :: "GameState \<Rightarrow> Rotation \<Rightarrow> bool \<times> GameState" where
  "test_rotate s next_rot =
     (let trans_index = get_transition_index (p_rot (current s)) next_rot;
          type = p_type (current s)
      in try_kicks s next_rot (map (kick_offset type trans_index) [0..<5]))"

definition rotate_current_piece :: "GameState \<Rightarrow> GameState" where
  "rotate_current_piece s = snd (test_rotate s ((p_rot (current s) + 1) mod 4))"

definition rotate_counter_clockwise :: "GameState \<Rightarrow> GameState" where
  "rotate_counter_clockwise s = snd (test_rotate s ((p_rot (current s) + 3) mod 4))"

section \<open>Movement\<close>

abbreviation valid_at :: "GameState \<Rightarrow> int \<Rightarrow> int \<Rightarrow> bool" where
  "valid_at s x y \<equiv> is_valid_pos s (p_type (current s)) (p_rot (current s)) x y"

abbreviation move_to :: "GameState \<Rightarrow> int \<Rightarrow> int \<Rightarrow> GameState" where
  "move_to s x y \<equiv> s\<lparr>current := (current s)\<lparr>p_x := x, p_y := y\<rparr>\<rparr>"

definition move_left :: "GameState \<Rightarrow> bool \<times> GameState" where
  "move_left s =
     (if valid_at s (p_x (current s) - 1) (p_y (current s))
      then (True, (move_to s (p_x (current s) - 1) (p_y (current s)))\<lparr>last_action_rotation := False\<rparr>)
      else (False, s))"

definition move_right :: "GameState \<Rightarrow> bool \<times> GameState" where
  "move_right s =
     (if valid_at s (p_x (current s) + 1) (p_y (current s))
      then (True, (move_to s (p_x (current s) + 1) (p_y (current s)))\<lparr>last_action_rotation := False\<rparr>)
      else (False, s))"

definition soft_drop :: "GameState \<Rightarrow> bool \<times> GameState" where
  "soft_drop s =
     (if valid_at s (p_x (current s)) (p_y (current s) + 1)
      then (True, (move_to s (p_x (current s)) (p_y (current s) + 1))\<lparr>last_action_rotation := False\<rparr>)
      else (False, s))"

text \<open>
  \<open>while (is_valid_pos(..., y + 1)) { y++; rows++; }\<close>. The bound on \<open>y\<close> gives the termination
  measure; \<open>valid_below_bound\<close> shows that it is implied by the source's own condition for every
  well-formed piece, so \<open>hard_drop_loop_unfold\<close> is the loop of the source.
\<close>

function hard_drop_loop :: "GameState \<Rightarrow> int \<Rightarrow> int \<times> GameState" where
  "hard_drop_loop s rows =
     (if valid_at s (p_x (current s)) (p_y (current s) + 1) \<and> p_y (current s) < int BOARD_HEIGHT
      then hard_drop_loop (move_to s (p_x (current s)) (p_y (current s) + 1)) (rows + 1)
      else (rows, s))"
  by pat_completeness auto
termination
  by (relation "measure (\<lambda>(s, rows). nat (int BOARD_HEIGHT - p_y (current s)))") auto

declare hard_drop_loop.simps [simp del]

definition hard_drop :: "GameState \<Rightarrow> int \<times> GameState" where
  "hard_drop s = hard_drop_loop s 0"

section \<open>The cells a piece covers\<close>

definition piece_cells :: "PieceType \<Rightarrow> Rotation \<Rightarrow> int \<Rightarrow> int \<Rightarrow> (int \<times> int) list" where
  "piece_cells type rot x y =
     map (\<lambda>(px, py). (x + px, y + py))
       (filter (\<lambda>(px, py). tetromino_cell (type - 1) (get_rotation_index px py rot) \<noteq> 0)
         (List.product box4 box4))"

lemma piece_type_cases:
  assumes "piece_type_ok t"
  obtains "t = 1" | "t = 2" | "t = 3" | "t = 4" | "t = 5" | "t = 6" | "t = 7"
proof -
  have "t = 1 \<or> t = 2 \<or> t = 3 \<or> t = 4 \<or> t = 5 \<or> t = 6 \<or> t = 7"
    using assms unfolding piece_type_ok_def by presburger
  then show thesis using that by blast
qed

lemma rotation_cases:
  assumes "rotation_ok r"
  obtains "r = 0" | "r = 1" | "r = 2" | "r = 3"
proof -
  have "r = 0 \<or> r = 1 \<or> r = 2 \<or> r = 3" using assms unfolding rotation_ok_def by presburger
  then show thesis using that by blast
qed

text \<open>Within the box the index of the rotated cell stays in the table.\<close>

lemma tetromino_access_in_range:
  assumes "piece_wf p" and "px \<in> set box4" and "py \<in> set box4"
  shows "0 \<le> p_type p - 1 \<and> p_type p - 1 < int (length TETROMINOES)
       \<and> 0 \<le> get_rotation_index px py (p_rot p) \<and> get_rotation_index px py (p_rot p) < 16"
proof -
  have r: "rotation_ok (p_rot p)" and t: "piece_type_ok (p_type p)" using assms(1) by (auto simp: piece_wf_def)
  have "0 \<le> get_rotation_index px py (p_rot p) \<and> get_rotation_index px py (p_rot p) < 16"
    using r assms(2,3) by (elim rotation_cases) (auto simp: get_rotation_index_def box4_def)
  then show ?thesis using t by (simp add: piece_type_ok_def TETROMINOES_def)
qed

lemma is_valid_pos_cells:
  "is_valid_pos s t r x y = list_all (\<lambda>(bx, by). \<not> cell_blocked s bx by) (piece_cells t r x y)"
  by (auto simp: is_valid_pos_def piece_cells_def list_all_iff)

lemma lock_piece_cells:
  "lock_piece s =
     set_cells s (fold (\<lambda>(bx, by). lock_cell bx by (word_of_int (p_type (current s))))
                    (piece_cells (p_type (current s)) (p_rot (current s)) (p_x (current s)) (p_y (current s)))
                    (grid s))"
proof -
  let ?p = "current s"
  let ?solid = "\<lambda>px py. tetromino_cell (p_type ?p - 1) (get_rotation_index px py (p_rot ?p)) \<noteq> 0"
  let ?w = "\<lambda>px py. lock_cell (p_x ?p + px) (p_y ?p + py) (word_of_int (p_type ?p))"
  have "fold (\<lambda>px b. fold (\<lambda>py b. if ?solid px py then ?w px py b else b) box4 b) box4 (grid s)
        = fold (\<lambda>(px, py) b. if ?solid px py then ?w px py b else b) (List.product box4 box4) (grid s)"
    by (simp add: fold_concat_map product_concat_map)
  also have "\<dots> = fold (\<lambda>q. ?w (fst q) (snd q)) (filter (\<lambda>(px, py). ?solid px py) (List.product box4 box4)) (grid s)"
    unfolding case_prod_unfold by (rule fold_if_filter)
  finally show ?thesis
    by (simp add: lock_piece_def Let_def piece_cells_def fold_map case_prod_beta comp_def)
qed

subsection \<open>Collision test\<close>

lemma piece_cells_shift:
  "piece_cells t r x y = map (\<lambda>(px, py). (x + px, y + py)) (piece_cells t r 0 0)"
  by (simp add: piece_cells_def case_prod_beta)

text \<open>Every rotation of every tetromino covers four distinct cells of the 4x4 box.\<close>

lemma piece_cells_origin:
  assumes "piece_type_ok t" and "rotation_ok r"
  shows "length (piece_cells t r 0 0) = 4 \<and> distinct (piece_cells t r 0 0)
       \<and> list_all (\<lambda>(px, py). 0 \<le> px \<and> px < 4 \<and> 0 \<le> py \<and> py < 4) (piece_cells t r 0 0)"
  using assms
  by (elim piece_type_cases rotation_cases; hypsubst)
     (simp add: piece_cells_def box4_def get_rotation_index_def tetromino_cell_def TETROMINOES_def)+

lemma piece_cells_four:
  assumes "piece_type_ok t" and "rotation_ok r"
  shows "length (piece_cells t r x y) = 4" and "distinct (piece_cells t r x y)"
    and "\<And>cx cy. (cx, cy) \<in> set (piece_cells t r x y) \<Longrightarrow> x \<le> cx \<and> cx < x + 4 \<and> y \<le> cy \<and> cy < y + 4"
proof -
  note o = piece_cells_origin [OF assms]
  show "length (piece_cells t r x y) = 4" using o by (simp add: piece_cells_shift [of t r x y])
  have "inj (\<lambda>(px, py). (x + px, y + py))" by (auto simp: inj_def)
  then show "distinct (piece_cells t r x y)"
    using o by (auto simp: piece_cells_shift [of t r x y] distinct_map intro: inj_on_subset [OF _ subset_UNIV])
  fix cx cy assume "(cx, cy) \<in> set (piece_cells t r x y)"
  then show "x \<le> cx \<and> cx < x + 4 \<and> y \<le> cy \<and> cy < y + 4"
    using o by (auto simp: piece_cells_shift [of t r x y] list_all_iff)
qed

text \<open>The collision test reads the board only.\<close>

lemma is_valid_pos_cong: "grid s = grid s' \<Longrightarrow> is_valid_pos s = is_valid_pos s'"
  by (intro ext) (simp add: is_valid_pos_cells cell_blocked_def [abs_def])

lemma is_valid_pos_frame [simp]:
  "is_valid_pos (s\<lparr>current := v0\<rparr>) = is_valid_pos s"
  "is_valid_pos (s\<lparr>next_piece := v1\<rparr>) = is_valid_pos s"
  "is_valid_pos (s\<lparr>target_mode := v2\<rparr>) = is_valid_pos s"
  "is_valid_pos (s\<lparr>gs_player_id := v3\<rparr>) = is_valid_pos s"
  "is_valid_pos (s\<lparr>target_player_id := v4\<rparr>) = is_valid_pos s"
  "is_valid_pos (s\<lparr>gravity_timer := v5\<rparr>) = is_valid_pos s"
  "is_valid_pos (s\<lparr>lock_timer := v6\<rparr>) = is_valid_pos s"
  "is_valid_pos (s\<lparr>held_type := v7\<rparr>) = is_valid_pos s"
  "is_valid_pos (s\<lparr>has_held := v8\<rparr>) = is_valid_pos s"
  "is_valid_pos (s\<lparr>bag := v9\<rparr>) = is_valid_pos s"
  "is_valid_pos (s\<lparr>bag_index := v10\<rparr>) = is_valid_pos s"
  "is_valid_pos (s\<lparr>pieces_placed := v11\<rparr>) = is_valid_pos s"
  "is_valid_pos (s\<lparr>tetrises := v12\<rparr>) = is_valid_pos s"
  "is_valid_pos (s\<lparr>t_spins := v13\<rparr>) = is_valid_pos s"
  "is_valid_pos (s\<lparr>last_action_rotation := v14\<rparr>) = is_valid_pos s"
  "is_valid_pos (s\<lparr>pending_garbage := v15\<rparr>) = is_valid_pos s"
  "is_valid_pos (s\<lparr>outgoing_garbage := v16\<rparr>) = is_valid_pos s"
  "is_valid_pos (s\<lparr>last_attacker_id := v17\<rparr>) = is_valid_pos s"
  "is_valid_pos (s\<lparr>score := v18\<rparr>) = is_valid_pos s"
  "is_valid_pos (s\<lparr>lines_cleared := v19\<rparr>) = is_valid_pos s"
  "is_valid_pos (s\<lparr>combo := v20\<rparr>) = is_valid_pos s"
  "is_valid_pos (s\<lparr>b2b := v21\<rparr>) = is_valid_pos s"
  "is_valid_pos (s\<lparr>level := v22\<rparr>) = is_valid_pos s"
  "is_valid_pos (s\<lparr>game_over := v23\<rparr>) = is_valid_pos s"
  "is_valid_pos (s\<lparr>gs_winner_id := v24\<rparr>) = is_valid_pos s"
  by (rule is_valid_pos_cong, simp)+

lemma valid_below_bound:
  assumes "piece_wf (current s)" and "valid_at s x (y + 1)"
  shows "y + 1 < int BOARD_HEIGHT"
proof -
  let ?c = "piece_cells (p_type (current s)) (p_rot (current s)) x (y + 1)"
  have ok: "piece_type_ok (p_type (current s))" "rotation_ok (p_rot (current s))"
    using assms(1) by (auto simp: piece_wf_def)
  then have "?c \<noteq> []" using piece_cells_four(1) [OF ok, of x "y + 1"] by auto
  then obtain cx cy where c: "(cx, cy) \<in> set ?c" by (cases ?c) auto
  then have "\<not> cell_blocked s cx cy" using assms(2) by (auto simp: is_valid_pos_cells list_all_iff)
  with piece_cells_four(3) [OF ok c] show ?thesis by (auto simp: cell_blocked_def)
qed

subsection \<open>Hard drop\<close>

lemma hard_drop_loop_unfold:
  assumes "piece_wf (current s)"
  shows "hard_drop_loop s rows =
     (if valid_at s (p_x (current s)) (p_y (current s) + 1)
      then hard_drop_loop (move_to s (p_x (current s)) (p_y (current s) + 1)) (rows + 1)
      else (rows, s))"
  using valid_below_bound [OF assms, of "p_x (current s)" "p_y (current s)"]
  by (subst hard_drop_loop.simps) auto

lemma hard_drop_loop_lands:
  assumes "piece_wf (current s)"
  shows "\<exists>k. hard_drop_loop s rows = (rows + int k, move_to s (p_x (current s)) (p_y (current s) + int k))
           \<and> (\<forall>j. 0 < j \<and> j \<le> k \<longrightarrow> valid_at s (p_x (current s)) (p_y (current s) + int j))
           \<and> \<not> valid_at s (p_x (current s)) (p_y (current s) + int k + 1)"
  using assms
proof (induction s rows rule: hard_drop_loop.induct)
  case (1 s rows)
  let ?x = "p_x (current s)" and ?y = "p_y (current s)"
  show ?case
  proof (cases "valid_at s ?x (?y + 1)")
    case False
    then show ?thesis using "1.prems"
      by (intro exI [of _ 0]) (simp add: hard_drop_loop_unfold)
  next
    case True
    let ?s' = "move_to s ?x (?y + 1)"
    have "?y < int BOARD_HEIGHT" using valid_below_bound [OF "1.prems" True] by simp
    moreover have "piece_wf (current ?s')" using "1.prems" by (simp add: piece_wf_def)
    ultimately obtain k where k: "hard_drop_loop ?s' (rows + 1) = (rows + 1 + int k, move_to ?s' ?x (?y + 1 + int k))"
        "\<forall>j. 0 < j \<and> j \<le> k \<longrightarrow> valid_at s ?x (?y + 1 + int j)"
        "\<not> valid_at s ?x (?y + 1 + int k + 1)"
      using "1.IH" True by auto
    have "valid_at s ?x (?y + int j)" if "0 < j" "j \<le> Suc k" for j
    proof (cases j)
      case (Suc i)
      then show ?thesis using k(2) True that by (cases "i = 0") (auto simp: algebra_simps)
    qed (use that in simp)
    then show ?thesis using k(1,3) True "1.prems"
      by (intro exI [of _ "Suc k"]) (simp add: hard_drop_loop_unfold [of s] algebra_simps)
  qed
qed

subsection \<open>Locking\<close>

lemma set_cell_wf: "grid_wf b \<Longrightarrow> grid_wf (set_cell b x y v)"
proof (cases "nat y < length b")
  case True
  assume wf: "grid_wf b"
  with True have "length (b ! nat y) = BOARD_WIDTH" by (simp add: grid_wf_def)
  then show ?thesis using wf by (simp add: set_cell_def grid_wf_update)
next
  case False
  assume "grid_wf b"
  with False show ?thesis by (simp add: set_cell_def list_update_beyond)
qed

lemma lock_cell_wf: "grid_wf b \<Longrightarrow> grid_wf (lock_cell x y v b)"
  by (simp add: lock_cell_def set_cell_wf)

lemma lock_cells_wf: "grid_wf b \<Longrightarrow> grid_wf (fold (\<lambda>(bx, by). lock_cell bx by v) cs b)"
  by (induction cs arbitrary: b) (auto simp: lock_cell_wf)

lemma lock_piece_grid_wf: "grid_wf (grid s) \<Longrightarrow> grid_wf (grid (lock_piece s))"
  by (simp add: lock_piece_cells lock_cells_wf)

lemma lock_cell_nth:
  assumes "grid_wf b" and "x < BOARD_WIDTH" and "y < BOARD_HEIGHT"
  shows "lock_cell bx by v b ! y ! x = (if bx = int x \<and> by = int y then v else b ! y ! x)"
  using assms grid_wf_row [OF assms(1,3)] grid_wf_row [OF assms(1), of "nat by"]
  by (auto simp: lock_cell_def set_cell_def grid_wf_def nth_list_update)

lemma lock_cells_nth:
  assumes "grid_wf b" and "x < BOARD_WIDTH" and "y < BOARD_HEIGHT"
  shows "fold (\<lambda>(bx, by). lock_cell bx by v) cs b ! y ! x
         = (if (int x, int y) \<in> set cs then v else b ! y ! x)"
  using assms(1)
proof (induction cs arbitrary: b)
  case (Cons c cs)
  obtain bx "by" where c: "c = (bx, by)" by (cases c)
  show ?case
    using Cons.IH [OF lock_cell_wf [OF Cons.prems]] lock_cell_nth [OF Cons.prems assms(2,3)]
    by (auto simp: c)
qed simp

subsection \<open>Counting occupied cells\<close>

definition occupied :: "u8 list list \<Rightarrow> nat" where
  "occupied b = length (filter (\<lambda>c. c \<noteq> 0) (concat b))"

lemma occupied_append [simp]: "occupied (a @ b) = occupied a + occupied b"
  by (simp add: occupied_def)

lemma occupied_Cons: "occupied (r # b) = length (filter (\<lambda>c. c \<noteq> 0) r) + occupied b"
  by (simp add: occupied_def)

lemma occupied_Nil [simp]: "occupied [] = 0"
  by (simp add: occupied_def)

lemma length_filter_update:
  "i < length xs \<Longrightarrow> \<not> P (xs ! i) \<Longrightarrow> P v \<Longrightarrow>
   length (filter P (xs[i := v])) = Suc (length (filter P xs))"
  by (induction xs arbitrary: i) (auto split: nat.splits)

lemma occupied_update:
  "i < length b \<Longrightarrow> occupied (b[i := r]) + length (filter (\<lambda>c. c \<noteq> 0) (b ! i))
     = occupied b + length (filter (\<lambda>c. c \<noteq> 0) r)"
  by (induction b arbitrary: i) (auto simp: occupied_Cons split: nat.splits)

lemma occupied_set_cell:
  assumes "grid_wf b" and "0 \<le> x" "x < int BOARD_WIDTH" "0 \<le> y" "y < int BOARD_HEIGHT"
    and "b ! nat y ! nat x = 0" and "v \<noteq> 0"
  shows "occupied (set_cell b x y v) = Suc (occupied b)"
proof -
  have y: "nat y < length b" and x: "nat x < length (b ! nat y)"
    using assms by (auto simp: grid_wf_def)
  show ?thesis
    using occupied_update [OF y, of "(b ! nat y)[nat x := v]"]
      length_filter_update [OF x, of "\<lambda>c. c \<noteq> 0" v] assms(6,7)
    by (simp add: set_cell_def)
qed

lemma occupied_lock_cells:
  assumes "grid_wf b" and "distinct cs" and "v \<noteq> 0"
    and "\<forall>(x, y) \<in> set cs. 0 \<le> x \<and> x < int BOARD_WIDTH \<and> 0 \<le> y \<and> y < int BOARD_HEIGHT
           \<and> b ! nat y ! nat x = 0"
  shows "occupied (fold (\<lambda>(bx, by). lock_cell bx by v) cs b) = occupied b + length cs"
  using assms
proof (induction cs arbitrary: b)
  case (Cons c cs)
  obtain x y where c: "c = (x, y)" by (cases c)
  have in_range: "0 \<le> x" "x < int BOARD_WIDTH" "0 \<le> y" "y < int BOARD_HEIGHT" "b ! nat y ! nat x = 0"
    using Cons.prems(4) by (auto simp: c)
  have lc: "lock_cell x y v b = set_cell b x y v" using in_range by (simp add: lock_cell_def)
  have "\<forall>(x', y') \<in> set cs. 0 \<le> x' \<and> x' < int BOARD_WIDTH \<and> 0 \<le> y' \<and> y' < int BOARD_HEIGHT
           \<and> lock_cell x y v b ! nat y' ! nat x' = 0"
    using Cons.prems(1,2,4) by (auto simp: c lock_cell_nth)
  then have "occupied (fold (\<lambda>(bx, by). lock_cell bx by v) cs (lock_cell x y v b))
        = occupied (lock_cell x y v b) + length cs"
    using Cons.prems by (intro Cons.IH) (auto simp: lock_cell_wf)
  then show ?case using occupied_set_cell [OF Cons.prems(1) in_range Cons.prems(3)] by (simp add: c lc)
qed simp

lemma piece_word_nonzero: "piece_type_ok t \<Longrightarrow> (word_of_int t :: u8) \<noteq> 0"
  by (elim piece_type_cases) simp_all

text \<open>Locking a piece that fits, with all of it below the top edge, adds exactly four cells.\<close>

lemma lock_piece_occupied:
  assumes "grid_wf (grid s)" and "piece_wf (current s)"
    and "valid_at s (p_x (current s)) (p_y (current s))" and "0 \<le> p_y (current s)"
  shows "occupied (grid (lock_piece s)) = occupied (grid s) + 4"
proof -
  let ?p = "current s"
  have ok: "piece_type_ok (p_type ?p)" "rotation_ok (p_rot ?p)" using assms(2) by (auto simp: piece_wf_def)
  note four = piece_cells_four [OF ok, where x = "p_x ?p" and y = "p_y ?p"]
  have "\<forall>(x, y) \<in> set (piece_cells (p_type ?p) (p_rot ?p) (p_x ?p) (p_y ?p)).
          0 \<le> x \<and> x < int BOARD_WIDTH \<and> 0 \<le> y \<and> y < int BOARD_HEIGHT \<and> grid s ! nat y ! nat x = 0"
  proof (clarify)
    fix x y assume c: "(x, y) \<in> set (piece_cells (p_type ?p) (p_rot ?p) (p_x ?p) (p_y ?p))"
    then have "\<not> cell_blocked s x y" using assms(3) by (auto simp: is_valid_pos_cells list_all_iff)
    then show "0 \<le> x \<and> x < int BOARD_WIDTH \<and> 0 \<le> y \<and> y < int BOARD_HEIGHT \<and> grid s ! nat y ! nat x = 0"
      using four(3) [OF c] assms(4) by (auto simp: cell_blocked_def)
  qed
  then show ?thesis
    using occupied_lock_cells [OF assms(1) four(2) piece_word_nonzero [OF ok(1)]] four(1)
    by (simp add: lock_piece_cells)
qed

subsection \<open>Clearing\<close>

text \<open>
  What \<open>clear_lines\<close> computes: the rows that are not full, in order, with as many empty rows on
  top as full rows were removed.
\<close>

definition collapse_rows :: "u8 list list \<Rightarrow> u8 list list" where
  "collapse_rows b =
     replicate (length (filter row_is_full b)) empty_row @ filter (\<lambda>r. \<not> row_is_full r) b"

declare clear_loop.simps [simp del]

lemma clear_loop_spec:
  "n \<le> length b \<Longrightarrow>
   clear_loop n b c = (collapse_rows (take n b) @ drop n b, c + length (filter row_is_full (take n b)))"
proof (induction n b c rule: clear_loop.induct)
  case (1 b cleared)
  then show ?case by (simp add: clear_loop.simps collapse_rows_def)
next
  case (2 y b cleared)
  then have y: "y < length b" by simp
  have tk: "take (Suc y) b = take y b @ [b ! y]" using y by (simp add: take_Suc_conv_app_nth)
  have dr: "drop y b = b ! y # drop (Suc y) b" using y by (simp add: Cons_nth_drop_Suc)
  show ?case
  proof (cases "row_is_full (b ! y)")
    case True
    have d: "drop_row y b = empty_row # take y b @ drop (Suc y) b" using y by (rule drop_row_eq)
    have "clear_loop (Suc y) (drop_row y b) (cleared + 1)
        = (collapse_rows (empty_row # take y b) @ drop (Suc y) b,
           cleared + 1 + length (filter row_is_full (take y b)))"
      using "2.IH"(1) True y by (simp add: d)
    moreover have "collapse_rows (empty_row # take y b) = collapse_rows (take (Suc y) b)"
      using True by (simp add: collapse_rows_def tk replicate_app_Cons_same [symmetric])
    ultimately show ?thesis using True y by (simp add: clear_loop.simps tk)
  next
    case False
    then have "clear_loop (Suc y) b cleared = clear_loop y b cleared" by (simp add: clear_loop.simps)
    also have "\<dots> = (collapse_rows (take y b) @ drop y b, cleared + length (filter row_is_full (take y b)))"
      using "2.IH"(2) False y by simp
    finally show ?thesis using False by (simp add: tk dr collapse_rows_def)
  qed
qed

lemma clear_lines_grid:
  assumes "grid_wf (grid s)"
  shows "grid (snd (clear_lines s)) = collapse_rows (grid s)"
    and "fst (clear_lines s) = length (filter row_is_full (grid s))"
  using assms clear_loop_spec [of BOARD_HEIGHT "grid s" 0]
  by (auto simp: clear_lines_def Let_def grid_wf_def split: prod.splits)

lemma collapse_rows_wf: "grid_wf b \<Longrightarrow> grid_wf (collapse_rows b)"
  using sum_length_filter_compl [of row_is_full b]
  by (auto simp: grid_wf_def collapse_rows_def empty_row_def)

lemma clear_lines_grid_wf: "grid_wf (grid s) \<Longrightarrow> grid_wf (grid (snd (clear_lines s)))"
  by (simp add: clear_lines_grid collapse_rows_wf)

lemma occupied_collapse:
  "(\<forall>r \<in> set b. length r = BOARD_WIDTH) \<Longrightarrow>
   occupied b = occupied (collapse_rows b) + 10 * length (filter row_is_full b)"
proof -
  assume w: "\<forall>r \<in> set b. length r = BOARD_WIDTH"
  have z: "occupied (replicate k empty_row) = 0" for k
    by (induction k) (simp_all add: occupied_Cons empty_row_def)
  have "occupied b = occupied (filter (\<lambda>r. \<not> row_is_full r) b) + 10 * length (filter row_is_full b)"
    using w
  proof (induction b)
    case (Cons r b)
    then show ?case by (auto simp: occupied_Cons row_is_full_def list_all_iff)
  qed simp
  then show ?thesis by (simp add: collapse_rows_def z)
qed

end
