(* ===== verification/Bag.thy ===== *)
theory Bag
  imports Board_Control
begin

text \<open>
  \<open>bag.c\<close>, \<open>hold.c\<close> and \<open>state.c\<close> of \<open>libtetrisbrain\<close>: the shuffled bag of fourteen pieces,
  drawing from it, the hold slot, and the initial state of a game. The bag invariant says that both
  halves are permutations of the seven pieces; the shuffle is shown to keep the multiset and to be
  able to produce every ordering.
\<close>

section \<open>Shuffle\<close>

text \<open>\<open>for (i = size - 1; i > 0; i--)\<close>: swap slot \<open>i\<close> with a random slot \<open>j \<le> i\<close>.\<close>

primrec shuffle_loop :: "nat \<Rightarrow> int list \<Rightarrow> rng \<Rightarrow> int list \<times> rng" where
  "shuffle_loop 0 a r = (a, r)"
| "shuffle_loop (Suc k) a r =
     (let (v, r') = rand r;
          j = v mod (Suc k + 1);
          temp = a ! Suc k
      in shuffle_loop k (a[Suc k := a ! j, j := temp]) r')"

definition shuffle_array :: "int list \<Rightarrow> nat \<Rightarrow> rng \<Rightarrow> int list \<times> rng" where
  "shuffle_array a n r = shuffle_loop (n - 1) a r"

section \<open>Bag\<close>

definition refill_bag :: "GameState \<Rightarrow> rng \<Rightarrow> GameState \<times> rng" where
  "refill_bag s r =
     (let b1 = fold (\<lambda>i b. b[i := b ! (i + 7)]) [0..<7] (bag s);
          (new_bag, r') = shuffle_array [1, 2, 3, 4, 5, 6, 7] 7 r;
          b2 = fold (\<lambda>i b. b[i + 7 := new_bag ! i]) [0..<7] b1
      in (s\<lparr>bag := b2, bag_index := 0\<rparr>, r'))"

definition spawn_new_piece :: "GameState \<Rightarrow> rng \<Rightarrow> GameState \<times> rng" where
  "spawn_new_piece s r =
     (let s1 = s\<lparr>current := (current s)\<lparr>p_type := bag s ! nat (bag_index s)\<rparr>,
                 bag_index := bag_index s + 1\<rparr>;
          (s2, r') = (if bag_index s1 \<ge> 7 then refill_bag s1 r else (s1, r))
      in (s2\<lparr>current := (current s2)\<lparr>p_rot := ROT_0, p_x := int BOARD_WIDTH div 2 - 2, p_y := -2\<rparr>,
             has_held := False\<rparr>, r'))"

section \<open>Hold\<close>

definition hold_piece :: "GameState \<Rightarrow> rng \<Rightarrow> GameState \<times> rng" where
  "hold_piece s r =
     (if has_held s then (s, r)
      else let (s1, r1) =
             (if held_type s = 0
              then spawn_new_piece (s\<lparr>held_type := p_type (current s)\<rparr>) r
              else (s\<lparr>current := (current s)\<lparr>p_type := held_type s, p_y := -2,
                                    p_x := int BOARD_WIDTH div 2 - 2, p_rot := 0\<rparr>,
                      held_type := p_type (current s)\<rparr>, r))
           in (s1\<lparr>has_held := True\<rparr>, r1))"

section \<open>Starting a game\<close>

text \<open>
  \<open>start_game\<close> reseeds the random numbers: \<open>prng seed\<close> is the sequence that \<open>rand()\<close> yields after
  \<open>srand(seed)\<close>, \<open>now\<close> is \<open>time(NULL)\<close> at the call. Whatever was left of the previous sequence is
  dropped.
\<close>

definition srand :: "(u32 \<Rightarrow> rng) \<Rightarrow> u32 \<Rightarrow> rng \<Rightarrow> rng" where
  "srand prng seed r = prng seed"

definition start_game :: "(u32 \<Rightarrow> rng) \<Rightarrow> u32 \<Rightarrow> GameState \<Rightarrow> rng \<Rightarrow> GameState \<times> rng" where
  "start_game prng now s r0 =
     (let s0 = zero_state;
          r = srand prng now r0;
          s1 = s0\<lparr>held_type := 0, t_spins := 0, tetrises := 0, last_action_rotation := False,
                  score := 0, game_over := 0, lines_cleared := 0, combo := -1, b2b := False,
                  level := 1, pending_garbage := 0, outgoing_garbage := 0, gs_winner_id := 0\<rparr>;
          (bag1, r1) = shuffle_array [1, 2, 3, 4, 5, 6, 7] 7 r;
          (bag2, r2) = shuffle_array [1, 2, 3, 4, 5, 6, 7] 7 r1;
          b1 = fold (\<lambda>i b. b[i := bag1 ! i]) [0..<7] (bag s1);
          b2 = fold (\<lambda>i b. b[i + 7 := bag2 ! i]) [0..<7] b1;
          s2 = s1\<lparr>bag := b2, bag_index := 0\<rparr>
      in spawn_new_piece s2 r2)"

section \<open>The shuffle keeps the multiset\<close>

lemma shuffle_loop_length [simp]: "length (fst (shuffle_loop k a r)) = length a"
  by (induction k arbitrary: a r) (auto simp: Let_def split: prod.splits)

lemma shuffle_loop_mset: "k < length a \<Longrightarrow> mset (fst (shuffle_loop k a r)) = mset a"
proof (induction k arbitrary: a r)
  case (Suc k)
  obtain v r' where vr: "rand r = (v, r')" by (cases "rand r")
  let ?j = "v mod (Suc k + 1)"
  have j: "?j < length a" using mod_less_divisor [of "Suc k + 1" v] Suc.prems by linarith
  have "mset (a[Suc k := a ! ?j, ?j := a ! Suc k]) = mset a"
    using mset_swap [OF j Suc.prems] by simp
  then show ?case using Suc by (simp add: vr Let_def)
qed simp

lemma shuffle_array_mset: "n = length a \<Longrightarrow> mset (fst (shuffle_array a n r)) = mset a"
  by (cases a) (simp_all add: shuffle_array_def shuffle_loop_mset)

lemma shuffle_array_length [simp]: "length (fst (shuffle_array a n r)) = length a"
  by (simp add: shuffle_array_def)

text \<open>Slots above \<open>k\<close> are not touched, and with the right numbers every order comes out.\<close>

lemma mset_take_swap:
  assumes "j \<le> k" and "k < length a"
  shows "mset (take k (a[k := a ! j, j := a ! k])) + {#a ! j#} = mset (take (Suc k) a)"
proof -
  let ?b = "a[k := a ! j, j := a ! k]"
  have len: "k < length ?b" using assms by simp
  have "take (Suc k) ?b = (take (Suc k) a)[k := take (Suc k) a ! j, j := take (Suc k) a ! k]"
    using assms by (simp add: take_update_swap)
  then have "mset (take (Suc k) ?b) = mset (take (Suc k) a)"
    using assms mset_swap [of j "take (Suc k) a" k] by simp
  moreover have "take (Suc k) ?b = take k ?b @ [?b ! k]"
    using len by (rule take_Suc_conv_app_nth)
  moreover have "?b ! k = a ! j" using assms by (cases "j = k") simp_all
  ultimately show ?thesis by simp
qed

lemma shuffle_loop_any:
  assumes "k < length a" and "length b = length a"
    and "mset (take (Suc k) b) = mset (take (Suc k) a)" and "drop (Suc k) b = drop (Suc k) a"
  shows "\<exists>r. fst (shuffle_loop k a r) = b"
  using assms
proof (induction k arbitrary: a b)
  case 0
  then have "take 1 b = take 1 a" by (cases a; cases b) auto
  with 0 have "b = a" by (metis One_nat_def append_take_drop_id)
  then show ?case by simp
next
  case (Suc k)
  have "b ! Suc k \<in> set (take (Suc (Suc k)) b)"
    using Suc.prems(1,2) by (simp add: take_Suc_conv_app_nth)
  then have "b ! Suc k \<in> set (take (Suc (Suc k)) a)"
    using mset_eq_setD [OF Suc.prems(3)] by simp
  then obtain j where j: "j \<le> Suc k" "a ! j = b ! Suc k"
    using Suc.prems(1) by (auto simp: in_set_conv_nth less_Suc_eq_le)
  let ?a = "a[Suc k := a ! j, j := a ! Suc k]"
  have "mset (take (Suc k) ?a) + {#b ! Suc k#} = mset (take (Suc k) b) + {#b ! Suc k#}"
    using mset_take_swap [OF j(1) Suc.prems(1)] Suc.prems(2,3) j(2) Suc.prems(1)
    by (simp add: take_Suc_conv_app_nth [of "Suc k" b])
  then have m: "mset (take (Suc k) b) = mset (take (Suc k) ?a)" by simp
  have "?a ! Suc k = b ! Suc k" using j Suc.prems(1) by (cases "j = Suc k") simp_all
  then have d: "drop (Suc k) b = drop (Suc k) ?a"
    using Suc.prems(1,2,4) j(1) by (simp add: Cons_nth_drop_Suc [symmetric, of "Suc k"] drop_update_cancel)
  obtain r where r: "fst (shuffle_loop k ?a r) = b"
    using Suc.IH [of ?a b] m d Suc.prems(1,2) by auto
  have "fst (shuffle_loop (Suc k) a (j ## r)) = b"
    using r j(1) by (simp add: rand_def Let_def)
  then show ?case by blast
qed

lemma fold_update_offset:
  "n + m \<le> length a \<Longrightarrow>
   fold (\<lambda>i b. b[i + n := f i]) [0..<m] a = take n a @ map f [0..<m] @ drop (n + m) a"
proof (induction m)
  case (Suc m)
  then have "drop (n + m) a = a ! (n + m) # drop (Suc (n + m)) a" by (simp add: Cons_nth_drop_Suc)
  with Suc show ?case by (simp add: list_update_append add.commute)
qed simp

section \<open>The bag invariant\<close>

lemma refill_bag_eq:
  assumes "length (bag s) = 14"
  shows "refill_bag s r = (s\<lparr>bag := drop 7 (bag s) @ fst (shuffle_array seven 7 r), bag_index := 0\<rparr>,
                           snd (shuffle_array seven 7 r))"
proof -
  obtain nb r' where nb: "shuffle_array seven 7 r = (nb, r')" by (cases "shuffle_array seven 7 r")
  then have len: "length nb = 7" using shuffle_array_length [of seven 7 r] by simp
  have b1: "fold (\<lambda>i b. b[i := b ! (i + 7)]) [0..<7] (bag s) = take 7 (drop 7 (bag s)) @ drop 7 (bag s)"
    using assms by (intro fold_shift_down) simp
  have "fold (\<lambda>i b. b[i + 7 := nb ! i]) [0..<7] (take 7 (drop 7 (bag s)) @ drop 7 (bag s))
        = drop 7 (bag s) @ nb"
    using assms len map_nth [of nb] by (subst fold_update_offset) auto
  then show ?thesis by (simp add: refill_bag_def nb b1)
qed

lemma refill_bag_wf:
  assumes "length (bag s) = 14" and "mset (drop 7 (bag s)) = mset seven"
  shows "bag_wf (bag (fst (refill_bag s r))) (bag_index (fst (refill_bag s r)))"
  using assms shuffle_array_mset [of 7 seven r]
  by (simp add: refill_bag_eq bag_wf_def)

text \<open>What a draw does to the bag: the front piece is taken and the bag is topped up after the seventh.\<close>

lemma spawn_new_piece_bag:
  assumes "bag_wf (bag s) (bag_index s)"
  shows "bag_wf (bag (fst (spawn_new_piece s r))) (bag_index (fst (spawn_new_piece s r)))"
    and "p_type (current (fst (spawn_new_piece s r))) = bag s ! nat (bag_index s)"
  using assms refill_bag_wf [of "s\<lparr>current := (current s)\<lparr>p_type := bag s ! nat (bag_index s)\<rparr>,
                 bag_index := bag_index s + 1\<rparr>" r]
  by (auto simp: spawn_new_piece_def Let_def bag_wf_def refill_bag_eq split: prod.splits)

lemma spawn_new_piece_frame:
  assumes "length (bag s) = 14"
  shows "fst (spawn_new_piece s r) =
     s\<lparr>current := \<lparr>p_type = bag s ! nat (bag_index s), p_rot = 0, p_x = 3, p_y = -2\<rparr>,
       has_held := False, bag := bag (fst (spawn_new_piece s r)),
       bag_index := bag_index (fst (spawn_new_piece s r))\<rparr>"
  using assms by (auto simp: spawn_new_piece_def Let_def refill_bag_eq split: prod.splits)

end
