(* ===== verification/Engine.thy ===== *)
theory Engine
  imports Bag
begin

text \<open>
  \<open>garbage.c\<close> and \<open>engine.c\<close> of \<open>libtetrisbrain\<close>: garbage rows and the damage table, the T-spin
  test, one step of the game and the gravity and lock timers. The lemmas show that every operation
  keeps the state well-formed, what a step does to the number of occupied cells and to the garbage
  meters, and when the timers fire.
\<close>

section \<open>Garbage\<close>

definition garbage_row :: "nat \<Rightarrow> u8 list" where
  "garbage_row hole = map (\<lambda>x. if x = hole then 0 else 8) [0..<BOARD_WIDTH]"

text \<open>One iteration of the loop over the new rows: a random hole, solid tiles elsewhere.\<close>

definition fill_garbage_row :: "nat \<Rightarrow> u8 list list \<times> rng \<Rightarrow> u8 list list \<times> rng" where
  "fill_garbage_row y br =
     (let (b, r) = br; (v, r') = rand r; hole = v mod BOARD_WIDTH in (b[y := garbage_row hole], r'))"

definition add_garbage :: "GameState \<Rightarrow> int \<Rightarrow> rng \<Rightarrow> GameState \<times> rng" where
  "add_garbage s n0 r =
     (if n0 \<le> 0 then (s, r)
      else let n1 = (if n0 > int BOARD_HEIGHT then int BOARD_HEIGHT else n0);
               n = nat n1;
               b1 = fold (\<lambda>y b. b[y := b ! (y + n)]) [0..<BOARD_HEIGHT - n] (grid s);
               (b2, r2) = fold fill_garbage_row [BOARD_HEIGHT - n..<BOARD_HEIGHT] (b1, r)
           in (set_cells s b2, r2))"

definition queue_garbage :: "GameState \<Rightarrow> int \<Rightarrow> GameState" where
  "queue_garbage s n =
     (if n \<le> 0 then s
      else let pending = pending_garbage s + word_of_int n
           in s\<lparr>pending_garbage := (if pending > 20 then 20 else pending)\<rparr>)"

definition COMBO_TABLE :: "int list" where
  "COMBO_TABLE = [0, 0, 1, 1, 2, 2, 3, 3, 4, 4, 4, 5]"

definition calculate_garbage :: "GameState \<Rightarrow> int \<Rightarrow> bool \<Rightarrow> int \<times> GameState" where
  "calculate_garbage s cleared is_t_spin =
     (if cleared = 0 then (0, s\<lparr>combo := -1\<rparr>)
      else let s1 = s\<lparr>combo := combo s + 1\<rparr>;
               is_difficult_clear = (is_t_spin \<or> cleared = 4);
               base_garbage = (if is_t_spin then (if cleared > 0 then cleared * 2 else 0)
                               else if cleared = 2 then 1
                               else if cleared = 3 then 3
                               else if cleared = 4 then 4
                               else 0);
               base2 = (if is_difficult_clear \<and> b2b s1 then base_garbage + 1 else base_garbage);
               s2 = s1\<lparr>b2b := is_difficult_clear\<rparr>;
               combo_bonus = (if combo s2 > 0
                              then (if combo s2 < 12 then COMBO_TABLE ! nat (combo s2) else 5)
                              else 0)
           in (base2 + combo_bonus, s2))"

section \<open>Engine\<close>

definition corner_offsets :: "(int \<times> int) list" where
  "corner_offsets = [(-1, -1), (1, -1), (-1, 1), (1, 1)]"

definition corner_blocked :: "GameState \<Rightarrow> int \<Rightarrow> int \<Rightarrow> bool" where
  "corner_blocked s check_x check_y \<longleftrightarrow>
     (if check_x < 0 \<or> check_x \<ge> int BOARD_WIDTH \<or> check_y \<ge> int BOARD_HEIGHT \<or> check_y < 0 then True
      else check_y \<ge> 0 \<and> grid s ! nat check_y ! nat check_x \<noteq> 0)"

definition check_t_spin :: "GameState \<Rightarrow> int" where
  "check_t_spin s =
     (if p_type (current s) \<noteq> 3 \<or> \<not> last_action_rotation s then 0
      else let cx = p_x (current s) + 1; cy = p_y (current s) + 1;
               blocked_corners = length (filter (\<lambda>(ox, oy). corner_blocked s (cx + ox) (cy + oy)) corner_offsets)
           in if blocked_corners \<ge> 3 then 1 else 0)"

text \<open>The part of \<open>tick_game\<close> that cancels incoming garbage against the damage of this turn.\<close>

definition cancel_garbage :: "int \<Rightarrow> GameState \<Rightarrow> int \<times> GameState" where
  "cancel_garbage damage s =
     (if damage > 0 \<and> pending_garbage s > 0
      then (if damage \<ge> sint (pending_garbage s)
            then (damage - sint (pending_garbage s), s\<lparr>pending_garbage := 0\<rparr>)
            else (0, s\<lparr>pending_garbage := pending_garbage s - word_of_int damage\<rparr>))
      else (damage, s))"

text \<open>The part of \<open>tick_game\<close> that pushes the pending rows onto the board after a turn without clears.\<close>

definition receive_garbage :: "nat \<Rightarrow> GameState \<Rightarrow> rng \<Rightarrow> GameState \<times> rng" where
  "receive_garbage cleared s r =
     (if cleared = 0 \<and> pending_garbage s > 0
      then let (sg, rg) = add_garbage s (sint (pending_garbage s)) r
           in (sg\<lparr>pending_garbage := 0\<rparr>, rg)
      else (s, r))"

text \<open>The part of \<open>tick_game\<close> that runs once the piece cannot fall: from the T-spin test to the spawn.\<close>

definition lock_turn :: "GameState \<Rightarrow> rng \<Rightarrow> nat \<times> GameState \<times> rng" where
  "lock_turn s r =
     (let tspin = (check_t_spin s \<noteq> 0);
          s1 = (if tspin then s\<lparr>t_spins := t_spins s + 1\<rparr> else s);
          s2 = lock_piece s1;
          s3 = s2\<lparr>pieces_placed := pieces_placed s2 + 1\<rparr>;
          (cleared, s4) = clear_lines s3;
          s5 = (if cleared = 4 then s4\<lparr>tetrises := tetrises s4 + 1\<rparr> else s4);
          (damage0, s6) = calculate_garbage s5 (int cleared) tspin;
          (damage, s7) = cancel_garbage damage0 s6;
          s8 = s7\<lparr>outgoing_garbage := word_of_int damage\<rparr>;
          (s9, r1) = receive_garbage cleared s8 r;
          (s10, r2) = spawn_new_piece s9 r1
      in (cleared, s10, r2))"

definition tick_game :: "GameState \<Rightarrow> rng \<Rightarrow> nat \<times> GameState \<times> rng" where
  "tick_game s r =
     (if valid_at s (p_x (current s)) (p_y (current s) + 1)
      then (0, move_to s (p_x (current s)) (p_y (current s) + 1), r)
      else if p_y (current s) < 0 then (0, s\<lparr>game_over := 1\<rparr>, r)
      else let (cleared, s1, r1) = lock_turn s r
           in (cleared,
               if \<not> valid_at s1 (p_x (current s1)) (p_y (current s1)) then s1\<lparr>game_over := 1\<rparr> else s1,
               r1))"

abbreviation (input) GRAVITY_THRESHOLD_START :: int where "GRAVITY_THRESHOLD_START \<equiv> 50"
abbreviation (input) LOCK_THRESHOLD_START :: int where "LOCK_THRESHOLD_START \<equiv> 50"

definition current_gravity :: "GameState \<Rightarrow> int" where
  "current_gravity s =
     (let g = GRAVITY_THRESHOLD_START - (level s - 1) * 5 in if g < 5 then 5 else g)"

definition update_timers :: "GameState \<Rightarrow> rng \<Rightarrow> bool \<times> GameState \<times> rng" where
  "update_timers s r =
     (let g = current_gravity s;
          is_resting = (\<not> valid_at s (p_x (current s)) (p_y (current s) + 1))
      in if is_resting
         then let s1 = s\<lparr>lock_timer := lock_timer s + 1\<rparr>
              in if lock_timer s1 \<ge> LOCK_THRESHOLD_START
                 then let (n, s2, r') = tick_game s1 r
                      in (True, s2\<lparr>lock_timer := 0, gravity_timer := 0\<rparr>, r')
                 else (False, s1, r)
         else let s1 = s\<lparr>lock_timer := 0, gravity_timer := gravity_timer s + 1\<rparr>
              in if gravity_timer s1 \<ge> g
                 then let (n, s2, r') = tick_game s1 r in (True, s2\<lparr>gravity_timer := 0\<rparr>, r')
                 else (False, s1, r))"

section \<open>Garbage rows\<close>

lemma garbage_row_length [simp]: "length (garbage_row h) = BOARD_WIDTH"
  by (simp add: garbage_row_def)

lemma fill_garbage_row_pair:
  "fill_garbage_row y (b, r) = (b[y := garbage_row (shd r mod BOARD_WIDTH)], stl r)"
  by (simp add: fill_garbage_row_def rand_def)

lemma garbage_fill:
  assumes "n \<le> m" and "m \<le> length b"
  shows "\<exists>holes. length holes = m - n \<and> (\<forall>h \<in> set holes. h < BOARD_WIDTH)
     \<and> fst (fold fill_garbage_row [n..<m] (b, r)) = take n b @ map garbage_row holes @ drop m b"
  using assms
proof (induction m)
  case (Suc m)
  show ?case
  proof (cases "n \<le> m")
    case True
    then obtain holes where h: "length holes = m - n" "\<forall>h \<in> set holes. h < BOARD_WIDTH"
      "fst (fold fill_garbage_row [n..<m] (b, r)) = take n b @ map garbage_row holes @ drop m b"
      using Suc by auto
    obtain b' r' where br: "fold fill_garbage_row [n..<m] (b, r) = (b', r')" by (cases "fold fill_garbage_row [n..<m] (b, r)")
    let ?hole = "shd r' mod BOARD_WIDTH"
    have b': "b' = take n b @ map garbage_row holes @ b ! m # drop (Suc m) b"
      using h(3) br Suc.prems by (simp add: Cons_nth_drop_Suc)
    have "b'[m := garbage_row ?hole] = take n b @ map garbage_row (holes @ [?hole]) @ drop (Suc m) b"
      using h(1) True Suc.prems by (simp add: b' list_update_append)
    moreover have "?hole < BOARD_WIDTH" by simp
    ultimately show ?thesis
      using h(1,2) True br by (intro exI [of _ "holes @ [?hole]"]) (auto simp: fill_garbage_row_pair)
  next
    case False
    then have "Suc m = n" using Suc.prems by simp
    then show ?thesis by (intro exI [of _ "[]"]) simp
  qed
qed auto

text \<open>Adding \<open>n\<close> rows pushes the board up by \<open>n\<close>; the new rows are solid but for one hole each.\<close>

lemma add_garbage_grid:
  assumes "grid_wf (grid s)" and "0 < n"
  shows "\<exists>holes. length holes = nat (min n 20) \<and> (\<forall>h \<in> set holes. h < BOARD_WIDTH)
     \<and> fst (add_garbage s n r) = set_cells s (drop (nat (min n 20)) (grid s) @ map garbage_row holes)"
proof -
  let ?n = "nat (min n 20)"
  have n: "?n \<le> 20" and len: "length (grid s) = 20" using assms by (auto simp: grid_wf_def)
  let ?b1 = "take (20 - ?n) (drop ?n (grid s)) @ drop (20 - ?n) (grid s)"
  have b1: "fold (\<lambda>y b. b[y := b ! (y + ?n)]) [0..<20 - ?n] (grid s) = ?b1"
    using n len by (intro fold_shift_down) simp
  have tk: "take (20 - ?n) ?b1 = drop ?n (grid s)" using n len by simp
  obtain holes where h: "length holes = 20 - (20 - ?n)" "\<forall>h \<in> set holes. h < BOARD_WIDTH"
    "fst (fold fill_garbage_row [20 - ?n..<20] (?b1, r)) = take (20 - ?n) ?b1 @ map garbage_row holes @ drop 20 ?b1"
    using garbage_fill [of "20 - ?n" 20 ?b1 r] n len by auto
  have m: "(if n > int BOARD_HEIGHT then int BOARD_HEIGHT else n) = min n 20" by simp
  have "fst (add_garbage s n r) = set_cells s (fst (fold fill_garbage_row [20 - ?n..<20] (?b1, r)))"
    using assms(2) unfolding add_garbage_def m Let_def b1 by (simp add: case_prod_beta)
  then have "fst (add_garbage s n r) = set_cells s (take (20 - ?n) ?b1 @ map garbage_row holes @ drop 20 ?b1)"
    unfolding h(3) .
  then show ?thesis using h(1,2) n tk len by (intro exI [of _ holes]) simp
qed

lemma add_garbage_wf: "grid_wf (grid s) \<Longrightarrow> grid_wf (grid (fst (add_garbage s n r)))"
proof (cases "0 < n")
  case True
  assume wf: "grid_wf (grid s)"
  obtain holes where "length holes = nat (min n 20)"
    "fst (add_garbage s n r) = set_cells s (drop (nat (min n 20)) (grid s) @ map garbage_row holes)"
    using add_garbage_grid [OF wf True] by blast
  then show ?thesis using wf by (auto simp: grid_wf_def dest: in_set_dropD)
qed (simp add: add_garbage_def)

lemma add_garbage_frame:
  "fst (add_garbage s n r) = set_cells s (grid (fst (add_garbage s n r)))"
  by (simp add: add_garbage_def Let_def split: prod.splits)

lemma queue_garbage_bound: "pending_garbage s \<le> 20 \<Longrightarrow> pending_garbage (queue_garbage s n) \<le> 20"
  by (simp add: queue_garbage_def Let_def not_less)

section \<open>Damage\<close>

lemma combo_table_bound: "0 \<le> k \<Longrightarrow> k < 12 \<Longrightarrow> 0 \<le> COMBO_TABLE ! nat k \<and> COMBO_TABLE ! nat k \<le> 5"
proof -
  assume "0 \<le> k" "k < 12"
  then have "COMBO_TABLE ! nat k \<in> set COMBO_TABLE"
    by (intro nth_mem) (simp add: COMBO_TABLE_def)
  then show ?thesis by (auto simp: COMBO_TABLE_def)
qed

lemma calculate_garbage_range:
  assumes "0 \<le> n" and "n \<le> 4"
  shows "0 \<le> fst (calculate_garbage s n t) \<and> fst (calculate_garbage s n t) \<le> 14"
  using assms combo_table_bound [of "combo s + 1"]
  by (auto simp: calculate_garbage_def Let_def)

lemma calculate_garbage_bounds:
  assumes "0 \<le> n" and "n \<le> 20"
  shows "0 \<le> fst (calculate_garbage s n t) \<and> fst (calculate_garbage s n t) \<le> 46"
  using assms combo_table_bound [of "combo s + 1"]
  by (auto simp: calculate_garbage_def Let_def)

lemma calculate_garbage_frame:
  "snd (calculate_garbage s n t) =
     s\<lparr>combo := combo (snd (calculate_garbage s n t)), b2b := b2b (snd (calculate_garbage s n t))\<rparr>"
  by (simp add: calculate_garbage_def Let_def)

lemma calculate_garbage_combo:
  "-1 \<le> combo s \<Longrightarrow> -1 \<le> combo (snd (calculate_garbage s n t))"
  by (simp add: calculate_garbage_def Let_def)

section \<open>Cancelling\<close>

lemma sint_small: "(w :: u32) \<le> 20 \<Longrightarrow> sint w = int (unat w) \<and> unat w \<le> 20"
proof -
  assume "w \<le> 20"
  then have u: "unat w \<le> 20" by (simp add: word_le_nat_alt)
  then show ?thesis using sint_u32_small [of w] by simp
qed

lemma cancel_garbage_frame:
  "snd (cancel_garbage d s) = s\<lparr>pending_garbage := pending_garbage (snd (cancel_garbage d s))\<rparr>"
  by (simp add: cancel_garbage_def)

text \<open>Cancelling trades damage against pending rows one for one until one of them is used up.\<close>

lemma cancel_garbage_balance:
  assumes "pending_garbage s \<le> 20" and "0 \<le> d" and "d < 2 ^ 31"
  shows "fst (cancel_garbage d s) - int (unat (pending_garbage (snd (cancel_garbage d s))))
           = d - int (unat (pending_garbage s))"
    and "fst (cancel_garbage d s) = 0 \<or> pending_garbage (snd (cancel_garbage d s)) = 0"
    and "0 \<le> fst (cancel_garbage d s)" and "fst (cancel_garbage d s) \<le> d"
    and "pending_garbage (snd (cancel_garbage d s)) \<le> 20"
proof -
  let ?p = "pending_garbage s"
  have p: "sint ?p = int (unat ?p)" "unat ?p \<le> 20" using sint_small [OF assms(1)] by auto
  have ud: "unat (word_of_int d :: u32) = nat d" using assms by (intro unat_word_of_int_u32) simp_all
  have sub: "unat (?p - word_of_int d) = unat ?p - nat d" if "d < int (unat ?p)"
  proof -
    have "nat d \<le> unat ?p" using that by linarith
    then show ?thesis using ud by (subst unat_sub) (simp_all add: word_le_nat_alt)
  qed
  have z: "unat ?p = 0 \<longleftrightarrow> ?p = 0" by (simp add: unat_eq_0)
  show "fst (cancel_garbage d s) - int (unat (pending_garbage (snd (cancel_garbage d s)))) = d - int (unat ?p)"
    using assms(2) sub z unfolding cancel_garbage_def p(1)
    by (auto simp del: of_nat_unat simp: word_gt_0 not_less of_nat_diff)
  show "fst (cancel_garbage d s) = 0 \<or> pending_garbage (snd (cancel_garbage d s)) = 0"
    using assms(2) by (auto simp: cancel_garbage_def word_gt_0)
  show "0 \<le> fst (cancel_garbage d s)" "fst (cancel_garbage d s) \<le> d"
    using assms(2) unfolding cancel_garbage_def p(1) by (auto simp del: of_nat_unat)
  have "?p - word_of_int d \<le> 20" if "d < int (unat ?p)"
    using sub [OF that] p(2) by (simp add: word_le_nat_alt)
  then show "pending_garbage (snd (cancel_garbage d s)) \<le> 20"
    using assms(1) unfolding cancel_garbage_def p(1) by (auto simp del: of_nat_unat simp: not_le)
qed

section \<open>A locking turn, stage by stage\<close>

lemma lock_piece_frame: "lock_piece s = set_cells s (grid (lock_piece s))"
  by (simp add: lock_piece_cells)

lemma clear_lines_frame:
  "snd (clear_lines s) = (set_cells s (grid (snd (clear_lines s))))
     \<lparr>lines_cleared := lines_cleared s + int (fst (clear_lines s)), level := level (snd (clear_lines s)),
      score := score s + int (fst (clear_lines s)) * 100\<rparr>"
  by (simp add: clear_lines_def Let_def split: prod.splits)

lemma receive_garbage_frame:
  "fst (receive_garbage n s r) = (set_cells s (grid (fst (receive_garbage n s r))))
     \<lparr>pending_garbage := pending_garbage (fst (receive_garbage n s r))\<rparr>"
proof (cases "n = 0 \<and> pending_garbage s > 0")
  case True
  obtain sg rg where g: "add_garbage s (sint (pending_garbage s)) r = (sg, rg)"
    by (cases "add_garbage s (sint (pending_garbage s)) r")
  then have "sg = set_cells s (grid sg)" using add_garbage_frame [of s "sint (pending_garbage s)" r] by simp
  then obtain b where "sg = set_cells s b" by blast
  then show ?thesis using True g by (simp add: receive_garbage_def)
qed (auto simp: receive_garbage_def)

lemma lock_turn_stages:
  obtains tspin s1 s2 s3 cleared s4 s5 d0 s6 d s7 s8 s9 r1 s10 r2 where
    "tspin = (check_t_spin s \<noteq> 0)"
    "s1 = (if tspin then s\<lparr>t_spins := t_spins s + 1\<rparr> else s)"
    "s2 = lock_piece s1"
    "s3 = s2\<lparr>pieces_placed := pieces_placed s2 + 1\<rparr>"
    "clear_lines s3 = (cleared, s4)"
    "s5 = (if cleared = 4 then s4\<lparr>tetrises := tetrises s4 + 1\<rparr> else s4)"
    "calculate_garbage s5 (int cleared) tspin = (d0, s6)"
    "cancel_garbage d0 s6 = (d, s7)"
    "s8 = s7\<lparr>outgoing_garbage := word_of_int d\<rparr>"
    "receive_garbage cleared s8 r = (s9, r1)"
    "spawn_new_piece s9 r1 = (s10, r2)"
    "lock_turn s r = (cleared, s10, r2)"
proof -
  define tspin where "tspin = (check_t_spin s \<noteq> 0)"
  define s1 where "s1 = (if tspin then s\<lparr>t_spins := t_spins s + 1\<rparr> else s)"
  define s2 where "s2 = lock_piece s1"
  define s3 where "s3 = s2\<lparr>pieces_placed := pieces_placed s2 + 1\<rparr>"
  obtain cleared s4 where c: "clear_lines s3 = (cleared, s4)" by (cases "clear_lines s3")
  define s5 where "s5 = (if cleared = 4 then s4\<lparr>tetrises := tetrises s4 + 1\<rparr> else s4)"
  obtain d0 s6 where d0: "calculate_garbage s5 (int cleared) tspin = (d0, s6)"
    by (cases "calculate_garbage s5 (int cleared) tspin")
  obtain d s7 where d: "cancel_garbage d0 s6 = (d, s7)" by (cases "cancel_garbage d0 s6")
  define s8 where "s8 = s7\<lparr>outgoing_garbage := word_of_int d\<rparr>"
  obtain s9 r1 where s9: "receive_garbage cleared s8 r = (s9, r1)" by (cases "receive_garbage cleared s8 r")
  obtain s10 r2 where s10: "spawn_new_piece s9 r1 = (s10, r2)" by (cases "spawn_new_piece s9 r1")
  have "lock_turn s r = (cleared, s10, r2)"
    unfolding lock_turn_def Let_def tspin_def [symmetric] s1_def [symmetric] s2_def [symmetric]
      s3_def [symmetric] c prod.case s5_def [symmetric] d0 d s8_def [symmetric] s9 s10 ..
  then show thesis
    by (rule that [OF tspin_def s1_def s2_def s3_def c s5_def d0 d s8_def s9 s10])
qed

section \<open>Every operation keeps the state well-formed\<close>

lemma state_wf_frame [simp]:
  "state_wf (s\<lparr>t_spins := v1\<rparr>) = state_wf s"
  "state_wf (s\<lparr>pieces_placed := v2\<rparr>) = state_wf s"
  "state_wf (s\<lparr>tetrises := v3\<rparr>) = state_wf s"
  "state_wf (s\<lparr>outgoing_garbage := v4\<rparr>) = state_wf s"
  "state_wf (s\<lparr>game_over := v5\<rparr>) = state_wf s"
  "state_wf (s\<lparr>lock_timer := v6\<rparr>) = state_wf s"
  "state_wf (s\<lparr>gravity_timer := v7\<rparr>) = state_wf s"
  "state_wf (s\<lparr>last_action_rotation := v8\<rparr>) = state_wf s"
  "state_wf (s\<lparr>target_mode := v9\<rparr>) = state_wf s"
  "state_wf (s\<lparr>target_player_id := v10\<rparr>) = state_wf s"
  "state_wf (s\<lparr>last_attacker_id := v11\<rparr>) = state_wf s"
  "state_wf (s\<lparr>gs_player_id := v12\<rparr>) = state_wf s"
  "state_wf (s\<lparr>gs_winner_id := v13\<rparr>) = state_wf s"
  "state_wf (s\<lparr>has_held := v14\<rparr>) = state_wf s"
  "state_wf (s\<lparr>level := v15\<rparr>) = state_wf s"
  by (simp_all add: state_wf_def)

lemma state_wf_move [simp]:
  "state_wf (s\<lparr>current := (current s)\<lparr>p_x := x\<rparr>\<rparr>) = state_wf s"
  "state_wf (s\<lparr>current := (current s)\<lparr>p_y := y\<rparr>\<rparr>) = state_wf s"
  "state_wf (s\<lparr>current := (current s)\<lparr>p_x := x, p_y := y\<rparr>\<rparr>) = state_wf s"
  by (simp_all add: state_wf_def piece_wf_def)

lemma lock_piece_wf [wf_intros]: "state_wf s \<Longrightarrow> state_wf (lock_piece s)"
  using lock_piece_grid_wf [of s] by (subst lock_piece_frame) (simp add: state_wf_def)

lemma clear_lines_wf [wf_intros]: "state_wf s \<Longrightarrow> state_wf (snd (clear_lines s))"
  using clear_lines_grid_wf [of s] by (subst clear_lines_frame) (simp add: state_wf_def)

lemma calculate_garbage_wf [wf_intros]: "state_wf s \<Longrightarrow> state_wf (snd (calculate_garbage s n t))"
  using calculate_garbage_combo [of s n t] by (subst calculate_garbage_frame) (simp add: state_wf_def)

lemma cancel_garbage_wf [wf_intros]:
  "state_wf s \<Longrightarrow> 0 \<le> d \<Longrightarrow> d < 2 ^ 31 \<Longrightarrow> state_wf (snd (cancel_garbage d s))"
  using cancel_garbage_balance(5) [of s d] by (subst cancel_garbage_frame) (simp add: state_wf_def)

lemma receive_garbage_wf [wf_intros]: "state_wf s \<Longrightarrow> state_wf (fst (receive_garbage n s r))"
proof -
  assume s: "state_wf s"
  then have "grid_wf (grid (fst (receive_garbage n s r)))" "pending_garbage (fst (receive_garbage n s r)) \<le> 20"
    using add_garbage_wf [of s "sint (pending_garbage s)" r]
    by (auto simp: receive_garbage_def state_wf_def Let_def split: prod.splits)
  then show ?thesis using s by (subst receive_garbage_frame) (simp add: state_wf_def)
qed

lemma spawn_new_piece_wf [wf_intros]: "state_wf s \<Longrightarrow> state_wf (fst (spawn_new_piece s r))"
proof -
  assume s: "state_wf s"
  then have b: "bag_wf (bag s) (bag_index s)" and l: "length (bag s) = 14" by (auto simp: state_wf_def bag_wf_def)
  have "piece_type_ok (bag s ! nat (bag_index s))"
    using b by (intro bag_wf_nth [OF b]) (auto simp: bag_wf_def)
  then show ?thesis using s spawn_new_piece_bag(1) [OF b, of r] l
    by (subst spawn_new_piece_frame [OF l]) (simp add: state_wf_def piece_wf_def rotation_ok_def)
qed

lemma clear_lines_le: "grid_wf (grid s) \<Longrightarrow> fst (clear_lines s) \<le> BOARD_HEIGHT"
  using length_filter_le [of row_is_full "grid s"] by (simp add: clear_lines_grid grid_wf_def)

lemma lock_turn_wf [wf_intros]: "state_wf s \<Longrightarrow> state_wf (fst (snd (lock_turn s r)))"
proof -
  assume s: "state_wf s"
  obtain tspin s1 s2 s3 cleared s4 s5 d0 s6 d s7 s8 s9 r1 s10 r2 where st:
    "s1 = (if tspin then s\<lparr>t_spins := t_spins s + 1\<rparr> else s)"
    "s2 = lock_piece s1" "s3 = s2\<lparr>pieces_placed := pieces_placed s2 + 1\<rparr>"
    "clear_lines s3 = (cleared, s4)"
    "s5 = (if cleared = 4 then s4\<lparr>tetrises := tetrises s4 + 1\<rparr> else s4)"
    "calculate_garbage s5 (int cleared) tspin = (d0, s6)" "cancel_garbage d0 s6 = (d, s7)"
    "s8 = s7\<lparr>outgoing_garbage := word_of_int d\<rparr>" "receive_garbage cleared s8 r = (s9, r1)"
    "spawn_new_piece s9 r1 = (s10, r2)" "lock_turn s r = (cleared, s10, r2)"
    by (rule lock_turn_stages [of s r])
  have w3: "state_wf s3" using s st(1-3) by (simp add: lock_piece_wf)
  then have w5: "state_wf s5" using clear_lines_wf [of s3] st(4,5) by simp
  have "cleared \<le> 20" using w3 clear_lines_le [of s3] st(4) by (simp add: state_wf_def)
  then have d0: "0 \<le> d0" "d0 \<le> 46" using calculate_garbage_bounds [of "int cleared" s5 tspin] st(6) by auto
  have "state_wf s6" using calculate_garbage_wf [OF w5, of "int cleared" tspin] st(6) by simp
  then have "state_wf s8" using cancel_garbage_wf [of s6 d0] d0 st(7,8) by simp
  then have "state_wf s9" using receive_garbage_wf [of s8 cleared r] st(9) by simp
  then show ?thesis using spawn_new_piece_wf [of s9 r1] st(10,11) by simp
qed

lemma tick_game_wf [wf_intros]: "state_wf s \<Longrightarrow> state_wf (fst (snd (tick_game s r)))"
  using lock_turn_wf [of s r] by (auto simp: tick_game_def Let_def split: prod.splits)

lemma update_timers_wf [wf_intros]: "state_wf s \<Longrightarrow> state_wf (fst (snd (update_timers s r)))"
  using tick_game_wf [of "s\<lparr>lock_timer := lock_timer s + 1\<rparr>" r]
    tick_game_wf [of "s\<lparr>lock_timer := 0, gravity_timer := gravity_timer s + 1\<rparr>" r]
  by (auto simp: update_timers_def Let_def split: prod.splits)

lemma moves_wf [wf_intros]:
  "state_wf s \<Longrightarrow> state_wf (snd (move_left s))"
  "state_wf s \<Longrightarrow> state_wf (snd (move_right s))"
  "state_wf s \<Longrightarrow> state_wf (snd (soft_drop s))"
  by (simp_all add: move_left_def move_right_def soft_drop_def)

lemma hard_drop_wf [wf_intros]: "state_wf s \<Longrightarrow> state_wf (snd (hard_drop s))"
  using hard_drop_loop_lands [of s 0] by (auto simp: hard_drop_def state_wf_def piece_wf_def)

lemma try_kicks_wf: "state_wf s \<Longrightarrow> rotation_ok nr \<Longrightarrow> state_wf (snd (try_kicks s nr ks))"
  by (induction s nr ks rule: try_kicks.induct) (auto simp: Let_def state_wf_def piece_wf_def)

lemma rotations_wf [wf_intros]:
  "state_wf s \<Longrightarrow> state_wf (rotate_current_piece s)"
  "state_wf s \<Longrightarrow> state_wf (rotate_counter_clockwise s)"
  by (auto simp: rotate_current_piece_def rotate_counter_clockwise_def test_rotate_def Let_def
      rotation_ok_def intro!: try_kicks_wf)

lemma hold_piece_wf [wf_intros]: "state_wf s \<Longrightarrow> state_wf (fst (hold_piece s r))"
proof -
  assume s: "state_wf s"
  then have "state_wf (s\<lparr>held_type := p_type (current s)\<rparr>)" by (simp add: state_wf_def piece_wf_def)
  from spawn_new_piece_wf [OF this, of r] s show ?thesis
    by (auto simp: hold_piece_def Let_def state_wf_def piece_wf_def rotation_ok_def split: prod.splits)
qed

lemma queue_garbage_wf [wf_intros]: "state_wf s \<Longrightarrow> state_wf (queue_garbage s n)"
  using queue_garbage_bound [of s n] by (simp add: queue_garbage_def state_wf_def Let_def)

text \<open>The first draw of a game comes from a fresh bag on an otherwise cleared state.\<close>

lemma start_game_bag:
  obtains b1 b2 r where "mset b1 = mset seven" "mset b2 = mset seven"
    "start_game prng now s0 r0 = spawn_new_piece (zero_state\<lparr>combo := -1, level := 1, bag := b1 @ b2\<rparr>) r"
proof -
  obtain b1 r1 where b1: "shuffle_array seven 7 (srand prng now r0) = (b1, r1)"
    by (cases "shuffle_array seven 7 (srand prng now r0)")
  obtain b2 r2 where b2: "shuffle_array seven 7 r1 = (b2, r2)" by (cases "shuffle_array seven 7 r1")
  have m: "mset b1 = mset seven" "mset b2 = mset seven"
    using shuffle_array_mset [of 7 seven "srand prng now r0"] shuffle_array_mset [of 7 seven r1] b1 b2 by simp_all
  have l: "length b1 = 7" "length b2 = 7"
    using shuffle_array_length [of seven 7 "srand prng now r0"] shuffle_array_length [of seven 7 r1] b1 b2 by simp_all
  have "fold (\<lambda>i b. b[i := b1 ! i]) [0..<7] (replicate 14 0) = b1 @ replicate 7 0"
    using l map_nth [of b1] by (subst fold_update_upt) simp_all
  moreover have "fold (\<lambda>i b. b[i + 7 := b2 ! i]) [0..<7] (b1 @ replicate 7 0) = b1 @ b2"
    using l map_nth [of b2] by (subst fold_update_offset) simp_all
  ultimately have "start_game prng now s0 r0 = spawn_new_piece (zero_state\<lparr>combo := -1, level := 1, bag := b1 @ b2\<rparr>) r2"
    unfolding start_game_def Let_def b1 b2 prod.case by (simp add: zero_state_def)
  then show thesis by (rule that [OF m])
qed

lemma start_game_wf [wf_intros]: "state_wf (fst (start_game prng now s0 r0))"
proof -
  obtain b1 b2 r where b: "mset b1 = mset seven" "mset b2 = mset seven"
    "start_game prng now s0 r0 = spawn_new_piece (zero_state\<lparr>combo := -1, level := 1, bag := b1 @ b2\<rparr>) r"
    by (rule start_game_bag)
  let ?s = "zero_state\<lparr>combo := -1, level := 1, bag := b1 @ b2\<rparr>"
  have l: "length b1 = 7" "length b2 = 7" using mset_eq_length [OF b(1)] mset_eq_length [OF b(2)] by simp_all
  have bw: "bag_wf (bag ?s) (bag_index ?s)" using b(1,2) l by (simp add: bag_wf_def zero_state_def)
  have "piece_type_ok (bag ?s ! nat (bag_index ?s))" by (rule bag_wf_nth [OF bw]) (simp_all add: zero_state_def)
  then show ?thesis using spawn_new_piece_bag(1) [OF bw, of r] l
    by (simp only: b(3), subst spawn_new_piece_frame)
       (simp_all add: state_wf_def piece_wf_def rotation_ok_def zero_state_def)
qed

end
