(* ===== verification/Engine_Props.thy ===== *)
theory Engine_Props
  imports Engine
begin

text \<open>
  What one step of the Tetris engine does, over the operations of \<open>engine.c\<close>, \<open>garbage.c\<close>,
  \<open>board_control.c\<close> and \<open>bag.c\<close>: the board after a lock, the number of rows a lock can clear, the
  accounts of the garbage meters, the timers, and the properties of the moves and of the bag.
\<close>

section \<open>Full rows\<close>

definition no_full_rows :: "u8 list list \<Rightarrow> bool" where
  "no_full_rows b \<longleftrightarrow> list_all (\<lambda>r. \<not> row_is_full r) b"

lemma no_full_rows_collapse: "no_full_rows (collapse_rows b)"
  by (auto simp: no_full_rows_def collapse_rows_def list_all_iff)

lemma garbage_row_not_full: "h < BOARD_WIDTH \<Longrightarrow> \<not> row_is_full (garbage_row h)"
  by (auto simp: garbage_row_def row_is_full_def list_all_iff)

lemma no_full_rows_garbage:
  assumes "grid_wf (grid s)" and "no_full_rows (grid s)"
  shows "no_full_rows (grid (fst (add_garbage s n r)))"
proof (cases "0 < n")
  case True
  obtain holes where "\<forall>h \<in> set holes. h < BOARD_WIDTH"
    "fst (add_garbage s n r) = set_cells s (drop (nat (min n 20)) (grid s) @ map garbage_row holes)"
    using add_garbage_grid [OF assms(1) True] by blast
  then show ?thesis using assms(2) garbage_row_not_full
    by (auto simp: no_full_rows_def list_all_iff dest: in_set_dropD)
qed (use assms in \<open>simp add: add_garbage_def\<close>)

lemma lock_piece_rows:
  assumes "grid_wf (grid s)" and "piece_wf (current s)" and "y < BOARD_HEIGHT"
    and "\<not> (p_y (current s) \<le> int y \<and> int y < p_y (current s) + 4)"
  shows "grid (lock_piece s) ! y = grid s ! y"
proof (rule nth_equalityI)
  let ?p = "current s"
  have w: "grid_wf (grid (lock_piece s))" using assms(1) by (rule lock_piece_grid_wf)
  then show len: "length (grid (lock_piece s) ! y) = length (grid s ! y)"
    using assms(1,3) by (simp add: grid_wf_row)
  fix x assume "x < length (grid (lock_piece s) ! y)"
  then have x: "x < BOARD_WIDTH" using w assms(3) by (simp add: grid_wf_row)
  have "(int x, int y) \<notin> set (piece_cells (p_type ?p) (p_rot ?p) (p_x ?p) (p_y ?p))"
    using piece_cells_four(3) [of "p_type ?p" "p_rot ?p" "int x" "int y" "p_x ?p" "p_y ?p"] assms(2,4)
    by (auto simp: piece_wf_def)
  then show "grid (lock_piece s) ! y ! x = grid s ! y ! x"
    using lock_cells_nth [OF assms(1) x assms(3)] by (simp add: lock_piece_cells)
qed

lemma lock_piece_full_rows:
  assumes "grid_wf (grid s)" and "piece_wf (current s)" and "no_full_rows (grid s)"
  shows "length (filter row_is_full (grid (lock_piece s))) \<le> 4"
proof -
  let ?b = "grid (lock_piece s)" and ?y = "p_y (current s)"
  have len: "length ?b = 20" "length (grid s) = 20" using assms(1) lock_piece_grid_wf [of s] by (auto simp: grid_wf_def)
  have "{i. i < length ?b \<and> row_is_full (?b ! i)} \<subseteq> nat ` {?y..<?y + 4}"
  proof
    fix i assume "i \<in> {i. i < length ?b \<and> row_is_full (?b ! i)}"
    then have i: "i < 20" "row_is_full (?b ! i)" using len by auto
    have "\<not> row_is_full (grid s ! i)" using assms(3) i len by (simp add: no_full_rows_def list_all_length)
    then have "?y \<le> int i \<and> int i < ?y + 4" using lock_piece_rows [OF assms(1,2) i(1)] i(2) by metis
    then show "i \<in> nat ` {?y..<?y + 4}" by (intro image_eqI [of _ _ "int i"]) auto
  qed
  then have "card {i. i < length ?b \<and> row_is_full (?b ! i)} \<le> card (nat ` {?y..<?y + 4})"
    by (intro card_mono) auto
  also have "\<dots> \<le> card {?y..<?y + 4}" by (intro card_image_le) simp
  finally show ?thesis by (simp add: length_filter_conv_card)
qed

lemma no_full_rows_receive:
  "grid_wf (grid s) \<Longrightarrow> no_full_rows (grid s) \<Longrightarrow> no_full_rows (grid (fst (receive_garbage n s r)))"
  using no_full_rows_garbage [of s "sint (pending_garbage s)" r]
  by (auto simp: receive_garbage_def Let_def split: prod.splits)

section \<open>The effect of a locking turn\<close>

lemma lock_piece_cong: "current s = current s' \<Longrightarrow> grid s = grid s' \<Longrightarrow> grid (lock_piece s) = grid (lock_piece s')"
  by (simp add: lock_piece_cells)

lemma calculate_garbage_cong:
  "combo s = combo s' \<Longrightarrow> b2b s = b2b s' \<Longrightarrow> fst (calculate_garbage s n t) = fst (calculate_garbage s' n t)"
  by (simp add: calculate_garbage_def Let_def)

lemma cancel_garbage_cong:
  "pending_garbage s = pending_garbage s' \<Longrightarrow>
   fst (cancel_garbage d s) = fst (cancel_garbage d s')
   \<and> pending_garbage (snd (cancel_garbage d s)) = pending_garbage (snd (cancel_garbage d s'))"
  by (simp add: cancel_garbage_def)

lemma add_garbage_cong: "grid s = grid s' \<Longrightarrow> grid (fst (add_garbage s n r)) = grid (fst (add_garbage s' n r))"
  by (simp add: add_garbage_def Let_def split: prod.splits)

definition turn_rows :: "GameState \<Rightarrow> nat" where
  "turn_rows s = length (filter row_is_full (grid (lock_piece s)))"

definition turn_damage :: "GameState \<Rightarrow> int" where
  "turn_damage s = fst (calculate_garbage s (int (turn_rows s)) (check_t_spin s \<noteq> 0))"

lemma stage_keeps [simp]:
  "combo (lock_piece s) = combo s" "b2b (lock_piece s) = b2b s"
  "pending_garbage (lock_piece s) = pending_garbage s" "bag (lock_piece s) = bag s"
  "combo (snd (clear_lines s)) = combo s" "b2b (snd (clear_lines s)) = b2b s"
  "pending_garbage (snd (clear_lines s)) = pending_garbage s" "bag (snd (clear_lines s)) = bag s"
  "board (snd (calculate_garbage s n t)) = board s" "bag (snd (calculate_garbage s n t)) = bag s"
  "pending_garbage (snd (calculate_garbage s n t)) = pending_garbage s"
  "board (snd (cancel_garbage d s)) = board s" "bag (snd (cancel_garbage d s)) = bag s"
  by (simp_all add: lock_piece_def clear_lines_def calculate_garbage_def cancel_garbage_def Let_def
      split: prod.splits)

lemma receive_garbage_keeps [simp]:
  "bag (fst (receive_garbage n s r)) = bag s"
  "outgoing_garbage (fst (receive_garbage n s r)) = outgoing_garbage s"
  by (subst receive_garbage_frame, simp)+

lemma spawn_new_piece_keeps:
  assumes "length (bag s) = 14"
  shows "board (fst (spawn_new_piece s r)) = board s"
    and "pending_garbage (fst (spawn_new_piece s r)) = pending_garbage s"
    and "outgoing_garbage (fst (spawn_new_piece s r)) = outgoing_garbage s"
  by (subst spawn_new_piece_frame [OF assms], simp)+

lemma calculate_garbage_none: "fst (calculate_garbage s 0 t) = 0"
  by (simp add: calculate_garbage_def)

lemma cancel_garbage_none: "cancel_garbage 0 s = (0, s)"
  by (simp add: cancel_garbage_def)

lemma lock_turn_effect:
  fixes s r
  assumes "state_wf s"
  defines "s' \<equiv> fst (snd (lock_turn s r))" and "g \<equiv> collapse_rows (grid (lock_piece s))"
  shows "fst (lock_turn s r) = turn_rows s"
    and "outgoing_garbage s' = word_of_int (fst (cancel_garbage (turn_damage s) s))"
    and "pending_garbage s' = (if turn_rows s = 0 then 0 else pending_garbage (snd (cancel_garbage (turn_damage s) s)))"
    and "grid s' = (if turn_rows s = 0 \<and> pending_garbage s > 0
                    then grid (fst (add_garbage (set_cells s g) (sint (pending_garbage s)) r)) else g)"
proof -
  obtain tspin s1 s2 s3 cleared s4 s5 d0 s6 d s7 s8 s9 r1 s10 r2 where st:
    "tspin = (check_t_spin s \<noteq> 0)" "s1 = (if tspin then s\<lparr>t_spins := t_spins s + 1\<rparr> else s)"
    "s2 = lock_piece s1" "s3 = s2\<lparr>pieces_placed := pieces_placed s2 + 1\<rparr>"
    "clear_lines s3 = (cleared, s4)"
    "s5 = (if cleared = 4 then s4\<lparr>tetrises := tetrises s4 + 1\<rparr> else s4)"
    "calculate_garbage s5 (int cleared) tspin = (d0, s6)" "cancel_garbage d0 s6 = (d, s7)"
    "s8 = s7\<lparr>outgoing_garbage := word_of_int d\<rparr>" "receive_garbage cleared s8 r = (s9, r1)"
    "spawn_new_piece s9 r1 = (s10, r2)" "lock_turn s r = (cleared, s10, r2)"
    by (rule lock_turn_stages [of s r])
  have k1: "current s1 = current s" "grid s1 = grid s" "combo s1 = combo s" "b2b s1 = b2b s"
      "pending_garbage s1 = pending_garbage s" "bag s1 = bag s"
    unfolding st(2) by simp_all
  have k3: "grid s3 = grid (lock_piece s)" "combo s3 = combo s" "b2b s3 = b2b s"
      "pending_garbage s3 = pending_garbage s" "bag s3 = bag s"
    unfolding st(3,4) using k1 by (simp_all add: lock_piece_cong [of s1 s])
  note gl = k3(1)
  have w3: "grid_wf (grid s3)" using assms(1) lock_piece_grid_wf [of s] by (simp add: gl state_wf_def)
  have c: "cleared = turn_rows s" and g4: "grid s4 = g"
    using clear_lines_grid [OF w3] st(5) gl by (simp_all add: turn_rows_def g_def)
  have k5: "combo s5 = combo s" "b2b s5 = b2b s" "pending_garbage s5 = pending_garbage s" "bag s5 = bag s" "grid s5 = g"
    unfolding st(6) using k3 st(5) g4 stage_keeps(5-8) [of s3] by simp_all
  have d0: "d0 = turn_damage s"
    unfolding turn_damage_def c [symmetric] st(1) [symmetric]
    using calculate_garbage_cong [OF k5(1,2), of "int cleared" tspin] st(7) by simp
  have k6: "pending_garbage s6 = pending_garbage s" "bag s6 = bag s" "grid s6 = g"
    using k5 st(7) stage_keeps(9-11) [of s5 "int cleared" tspin] by auto
  have k8: "outgoing_garbage s8 = word_of_int (fst (cancel_garbage (turn_damage s) s))" "bag s8 = bag s" "grid s8 = g"
    and p8: "pending_garbage s8 = pending_garbage (snd (cancel_garbage (turn_damage s) s))"
    unfolding st(9) using k6 st(8) stage_keeps(12,13) [of d0 s6] cancel_garbage_cong [OF k6(1), of d0] d0 by simp_all
  have p0: "pending_garbage s8 = pending_garbage s" if "turn_rows s = 0"
    using that p8 by (simp add: turn_damage_def calculate_garbage_none cancel_garbage_none)
  have s': "s' = fst (spawn_new_piece s9 r1)" using st(11,12) by (simp add: s'_def)
  have l9: "length (bag s9) = 14" "outgoing_garbage s9 = outgoing_garbage s8"
    using receive_garbage_keeps [of cleared s8 r] st(10) k8(2) assms(1) by (auto simp: state_wf_def bag_wf_def)
  note sp = spawn_new_piece_keeps [OF l9(1), of r1, folded s']
  show "fst (lock_turn s r) = turn_rows s" using st(12) c by simp
  show "outgoing_garbage s' = word_of_int (fst (cancel_garbage (turn_damage s) s))" using sp(3) l9(2) k8(1) by simp
  show "pending_garbage s' = (if turn_rows s = 0 then 0 else pending_garbage (snd (cancel_garbage (turn_damage s) s)))"
    using sp(2) p8 st(10) c
    by (auto simp: receive_garbage_def Let_def word_gt_0 split: if_splits prod.splits)
  show "grid s' = (if turn_rows s = 0 \<and> pending_garbage s > 0
                    then grid (fst (add_garbage (set_cells s g) (sint (pending_garbage s)) r)) else g)"
  proof (cases "turn_rows s = 0 \<and> pending_garbage s > 0")
    case True
    then have "grid s9 = grid (fst (add_garbage s8 (sint (pending_garbage s)) r))"
      using st(10) c p0 by (auto simp: receive_garbage_def Let_def split: prod.splits)
    also have "\<dots> = grid (fst (add_garbage (set_cells s g) (sint (pending_garbage s)) r))"
      using k8(3) by (intro add_garbage_cong) simp
    finally show ?thesis using sp(1) True by simp
  next
    case False
    then show ?thesis using sp(1) st(10) c p0 k8(3) by (auto simp: receive_garbage_def split: if_splits)
  qed
qed

section \<open>Idle play: the timers alone\<close>

text \<open>A player who sends no input for \<open>n\<close> ticks: \<open>update_timers\<close> runs, and reports whether it stepped.\<close>

primrec idle_ticks :: "nat \<Rightarrow> GameState \<Rightarrow> rng \<Rightarrow> bool list \<times> GameState \<times> rng" where
  "idle_ticks 0 s r = ([], s, r)"
| "idle_ticks (Suc n) s r =
     (let (f, s1, r1) = update_timers s r; (fs, s2, r2) = idle_ticks n s1 r1 in (f # fs, s2, r2))"

abbreviation resting :: "GameState \<Rightarrow> bool" where
  "resting s \<equiv> \<not> valid_at s (p_x (current s)) (p_y (current s) + 1)"

lemma update_timers_resting:
  "resting s \<Longrightarrow> lock_timer s + 1 < 50 \<Longrightarrow> update_timers s r = (False, s\<lparr>lock_timer := lock_timer s + 1\<rparr>, r)"
  by (simp add: update_timers_def Let_def)

lemma update_timers_lock:
  "resting s \<Longrightarrow> lock_timer s = 49 \<Longrightarrow> update_timers s r =
     (True, (fst (snd (tick_game (s\<lparr>lock_timer := 50\<rparr>) r)))\<lparr>lock_timer := 0, gravity_timer := 0\<rparr>,
      snd (snd (tick_game (s\<lparr>lock_timer := 50\<rparr>) r)))"
  by (simp add: update_timers_def Let_def case_prod_beta)

lemma idle_resting:
  "resting s \<Longrightarrow> lock_timer s = 49 - int k \<Longrightarrow>
   idle_ticks (Suc k) s r =
     (replicate k False @ [True],
      (fst (snd (tick_game (s\<lparr>lock_timer := 50\<rparr>) r)))\<lparr>lock_timer := 0, gravity_timer := 0\<rparr>,
      snd (snd (tick_game (s\<lparr>lock_timer := 50\<rparr>) r)))"
proof (induction k arbitrary: s)
  case 0
  then show ?case by (simp add: update_timers_lock)
next
  case (Suc k)
  have "idle_ticks (Suc k) (s\<lparr>lock_timer := lock_timer s + 1\<rparr>) r =
     (replicate k False @ [True],
      (fst (snd (tick_game (s\<lparr>lock_timer := 50\<rparr>) r)))\<lparr>lock_timer := 0, gravity_timer := 0\<rparr>,
      snd (snd (tick_game (s\<lparr>lock_timer := 50\<rparr>) r)))"
    using Suc.IH [of "s\<lparr>lock_timer := lock_timer s + 1\<rparr>"] Suc.prems by simp
  then show ?case
    using update_timers_resting [of s r] Suc.prems by (simp del: idle_ticks.simps(2) add: idle_ticks.simps(2) [of "Suc k"])
qed

lemma current_gravity_range: "5 \<le> current_gravity s" "1 \<le> level s \<Longrightarrow> current_gravity s \<le> 50"
  by (auto simp: current_gravity_def Let_def)

lemma current_gravity_cong: "level s = level s' \<Longrightarrow> current_gravity s = current_gravity s'"
  by (simp add: current_gravity_def)

lemma idle_falling:
  "\<not> resting s \<Longrightarrow> gravity_timer s = current_gravity s - 1 - int k \<Longrightarrow>
   idle_ticks (Suc k) s r =
     (replicate k False @ [True],
      (move_to s (p_x (current s)) (p_y (current s) + 1))\<lparr>lock_timer := 0, gravity_timer := 0\<rparr>, r)"
proof (induction k arbitrary: s)
  case 0
  then show ?case by (simp add: update_timers_def Let_def tick_game_def)
next
  case (Suc k)
  let ?s = "s\<lparr>lock_timer := 0, gravity_timer := gravity_timer s + 1\<rparr>"
  have c: "current_gravity ?s = current_gravity s" by (rule current_gravity_cong) simp
  have "idle_ticks (Suc k) ?s r =
     (replicate k False @ [True],
      (move_to s (p_x (current s)) (p_y (current s) + 1))\<lparr>lock_timer := 0, gravity_timer := 0\<rparr>, r)"
    using Suc.IH [of ?s] Suc.prems c by simp
  moreover have "update_timers s r = (False, ?s, r)"
    using Suc.prems by (simp add: update_timers_def Let_def)
  ultimately show ?case by (simp del: idle_ticks.simps(2) add: idle_ticks.simps(2) [of "Suc k"])
qed

section \<open>A concrete position\<close>

text \<open>An I piece resting in the last gap of the bottom row, with two rows of garbage announced.\<close>

definition demo_state :: GameState where
  "demo_state = zero_state
     \<lparr>board := \<lparr>cells = replicate 19 empty_row @ [[1, 1, 1, 0, 0, 0, 0, 1, 1, 1]]\<rparr>,
      current := \<lparr>p_type = 1, p_rot = 0, p_x = 3, p_y = 18\<rparr>, gs_player_id := 1,
      bag := seven @ seven, combo := -1, level := 1, pending_garbage := 2\<rparr>"

lemma demo_state_wf: "state_wf demo_state"
  by (simp add: demo_state_def state_wf_def grid_wf_def empty_row_def piece_wf_def piece_type_ok_def
      rotation_ok_def bag_wf_def zero_state_def)

lemma demo_state_no_full: "no_full_rows (grid demo_state)"
  by (simp add: demo_state_def no_full_rows_def row_is_full_def empty_row_def list_all_iff)

lemmas demo_cells = demo_state_def zero_state_def is_valid_pos_cells piece_cells_def box4_def
  get_rotation_index_def tetromino_cell_def TETROMINOES_def cell_blocked_def nth_append

lemma demo_state_resting: "resting demo_state" "valid_at demo_state 3 18" "p_y (current demo_state) = 18"
    "p_x (current demo_state) = 3" "lock_timer demo_state = 0" "gravity_timer demo_state = 0"
  by (simp_all add: demo_cells)

section \<open>Properties\<close>

text \<open>
  Lemma (tick_game_row_limit): on a well-formed board without full rows, one call of \<open>tick_game\<close> clears
  at most four rows, sends at most fourteen rows of garbage when it locks, and leaves a well-formed board without
  full rows, whatever garbage it takes in.
\<close>

theorem tick_game_row_limit:
  assumes "state_wf s" and "no_full_rows (grid s)"
  shows "fst (tick_game s r) \<le> 4
       \<and> no_full_rows (grid (fst (snd (tick_game s r)))) \<and> state_wf (fst (snd (tick_game s r)))
       \<and> (resting s \<and> 0 \<le> p_y (current s) \<longrightarrow> outgoing_garbage (fst (snd (tick_game s r))) \<le> 14)"
proof -
  note e = lock_turn_effect [OF assms(1), of r]
  have w: "grid_wf (grid s)" "piece_wf (current s)" "pending_garbage s \<le> 20" using assms(1) by (auto simp: state_wf_def)
  have n: "turn_rows s \<le> 4" using lock_piece_full_rows [OF w(1,2) assms(2)] by (simp add: turn_rows_def)
  have d: "0 \<le> turn_damage s" "turn_damage s \<le> 14"
    using calculate_garbage_range [of "int (turn_rows s)" s] n by (auto simp: turn_damage_def)
  have c: "0 \<le> fst (cancel_garbage (turn_damage s) s)" "fst (cancel_garbage (turn_damage s) s) \<le> 14"
    using cancel_garbage_balance(3,4) [OF w(3) d(1)] d by auto
  have o: "outgoing_garbage (fst (snd (lock_turn s r))) \<le> 14"
    unfolding e(2) word_le_nat_alt using c by (subst unat_word_of_int_u32) auto
  have g: "no_full_rows (grid (fst (snd (lock_turn s r))))"
    using no_full_rows_garbage [of "set_cells s (collapse_rows (grid (lock_piece s)))"]
      collapse_rows_wf [OF lock_piece_grid_wf [OF w(1)]]
    by (simp add: e(4) no_full_rows_collapse)
  show ?thesis
    using assms n o g e(1) tick_game_wf [OF assms(1), of r]
    by (auto simp: tick_game_def Let_def split: prod.splits)
qed

theorem tick_game_row_limit_witness:
  "state_wf demo_state \<and> no_full_rows (grid demo_state)
   \<and> fst (tick_game demo_state (sconst 0)) \<le> 4 \<and> outgoing_garbage (fst (snd (tick_game demo_state (sconst 0)))) \<le> 14"
  using tick_game_row_limit [OF demo_state_wf demo_state_no_full, of "sconst 0"] demo_state_wf demo_state_no_full
    demo_state_resting by simp

text \<open>
  Lemma (tick_game_locks): the board after a piece that fits and cannot fall is locked. The piece adds
  four cells, every cleared row takes ten away, and what remains are the other rows in order below
  as many empty rows; when garbage is announced and nothing was cleared, the announced number of
  rows, each solid but for one hole, enters from below and pushes the board up.
\<close>

theorem tick_game_locks:
  assumes "state_wf s" and "resting s" and "valid_at s (p_x (current s)) (p_y (current s))" and "0 \<le> p_y (current s)"
  shows "\<exists>n g holes.
           fst (tick_game s r) = n
         \<and> g = collapse_rows (grid (lock_piece s))
         \<and> occupied g + 10 * n = occupied (grid s) + 4
         \<and> length holes = (if n = 0 then unat (pending_garbage s) else 0) \<and> (\<forall>h \<in> set holes. h < BOARD_WIDTH)
         \<and> grid (fst (snd (tick_game s r))) = drop (length holes) g @ map garbage_row holes"
proof -
  note e = lock_turn_effect [OF assms(1), of r]
  let ?g = "collapse_rows (grid (lock_piece s))" and ?n = "turn_rows s" and ?p = "pending_garbage s"
  have w: "grid_wf (grid s)" "piece_wf (current s)" "?p \<le> 20" using assms(1) by (auto simp: state_wf_def)
  have gl: "grid_wf (grid (lock_piece s))" using w(1) by (rule lock_piece_grid_wf)
  have t: "fst (tick_game s r) = ?n" "grid (fst (snd (tick_game s r))) = grid (fst (snd (lock_turn s r)))"
    using assms(2,4) e(1) by (auto simp: tick_game_def Let_def split: prod.splits)
  have occ: "occupied ?g + 10 * ?n = occupied (grid s) + 4"
    using occupied_collapse [of "grid (lock_piece s)"] gl lock_piece_occupied [OF w(1,2) assms(3,4)]
    by (simp add: turn_rows_def grid_wf_def)
  have "\<exists>holes. length holes = (if ?n = 0 then unat ?p else 0) \<and> (\<forall>h \<in> set holes. h < BOARD_WIDTH)
      \<and> grid (fst (snd (lock_turn s r))) = drop (length holes) ?g @ map garbage_row holes"
  proof (cases "?n = 0 \<and> ?p > 0")
    case True
    have p: "sint ?p = int (unat ?p)" "unat ?p \<le> 20" "0 < unat ?p"
      using sint_small [OF w(3)] True by (auto simp: word_gt_0 unat_gt_0)
    have m: "nat (min (sint ?p) 20) = unat ?p" using p by (simp add: min_def del: of_nat_unat)
    obtain holes where h: "length holes = unat ?p" "\<forall>h \<in> set holes. h < BOARD_WIDTH"
      "fst (add_garbage (set_cells s ?g) (sint ?p) r)
         = set_cells (set_cells s ?g) (drop (unat ?p) ?g @ map garbage_row holes)"
      using add_garbage_grid [of "set_cells s ?g" "sint ?p" r] collapse_rows_wf [OF gl] p(1,3) m
      by (auto simp del: of_nat_unat)
    then show ?thesis using True e(4) by (intro exI [of _ holes]) simp
  next
    case False
    then show ?thesis using e(4) by (intro exI [of _ "[]"]) (auto simp: word_gt_0)
  qed
  then show ?thesis using t occ by auto
qed

theorem tick_game_locks_witness:
  "\<exists>n g holes. fst (tick_game demo_state (sconst 0)) = n
     \<and> occupied g + 10 * n = occupied (grid demo_state) + 4
     \<and> grid (fst (snd (tick_game demo_state (sconst 0)))) = drop (length holes) g @ map garbage_row holes"
  using tick_game_locks [OF demo_state_wf, of "sconst 0"] demo_state_resting by auto

text \<open>
  C26 (tick_game_garbage_account): the garbage meters over a locking turn. A turn that clears rows
  cancels its damage against the announced rows one for one until one of the two is used up: what
  is sent minus what stays announced is the damage minus what was announced. A turn without clears
  sends nothing and takes in everything announced.
\<close>

theorem tick_game_garbage_account:
  assumes "state_wf s" and "resting s" and "0 \<le> p_y (current s)"
  shows "let s' = fst (snd (tick_game s r)); sent = int (unat (outgoing_garbage s')); left = int (unat (pending_garbage s'))
         in (if turn_rows s = 0 then sent = 0 \<and> left = 0
             else sent - left = turn_damage s - int (unat (pending_garbage s)) \<and> (sent = 0 \<or> left = 0))"
proof -
  note e = lock_turn_effect [OF assms(1), of r]
  have w: "grid_wf (grid s)" "pending_garbage s \<le> 20" using assms(1) by (auto simp: state_wf_def)
  have t: "outgoing_garbage (fst (snd (tick_game s r))) = outgoing_garbage (fst (snd (lock_turn s r)))"
    "pending_garbage (fst (snd (tick_game s r))) = pending_garbage (fst (snd (lock_turn s r)))"
    using assms(2,3) by (auto simp: tick_game_def Let_def split: prod.splits)
  have "turn_rows s \<le> 20"
    using length_filter_le [of row_is_full "grid (lock_piece s)"] lock_piece_grid_wf [OF w(1)]
    unfolding turn_rows_def grid_wf_def by linarith
  then have d: "0 \<le> turn_damage s" "turn_damage s \<le> 46"
    using calculate_garbage_bounds [of "int (turn_rows s)" s] by (auto simp: turn_damage_def)
  note b = cancel_garbage_balance [OF w(2) d(1)]
  have o: "int (unat (outgoing_garbage (fst (snd (lock_turn s r))))) = fst (cancel_garbage (turn_damage s) s)"
    unfolding e(2) using b(3,4) d by (subst unat_word_of_int_u32) auto
  show ?thesis
  proof (cases "turn_rows s = 0")
    case True
    then have "turn_damage s = 0" by (simp add: turn_damage_def calculate_garbage_none)
    then show ?thesis unfolding Let_def t o e(3) using True by (simp add: cancel_garbage_none)
  next
    case False
    then show ?thesis unfolding Let_def t o e(3) using b(1,2) d by (auto simp del: of_nat_unat)
  qed
qed

theorem tick_game_garbage_account_witness:
  "let s' = fst (snd (tick_game demo_state (sconst 0))); sent = int (unat (outgoing_garbage s')); left = int (unat (pending_garbage s'))
   in (if turn_rows demo_state = 0 then sent = 0 \<and> left = 0
       else sent - left = turn_damage demo_state - int (unat (pending_garbage demo_state)) \<and> (sent = 0 \<or> left = 0))"
  using tick_game_garbage_account [OF demo_state_wf, of "sconst 0"] demo_state_resting by simp

text \<open>
  Lemma (idle_piece_locks): a piece that cannot fall and receives no input is locked by the lock timer.
  With the timer at \<open>t\<close>, the next \<open>49 - t\<close> calls of \<open>update_timers\<close> report no step, the call after
  them runs \<open>tick_game\<close>, and both timers are zero afterwards.
\<close>

theorem idle_piece_locks:
  assumes "resting s" and "0 \<le> lock_timer s" and "lock_timer s < 50"
  shows "fst (idle_ticks (nat (50 - lock_timer s)) s r) = replicate (nat (49 - lock_timer s)) False @ [True]
       \<and> fst (snd (idle_ticks (nat (50 - lock_timer s)) s r))
           = (fst (snd (tick_game (s\<lparr>lock_timer := 50\<rparr>) r)))\<lparr>lock_timer := 0, gravity_timer := 0\<rparr>"
proof -
  have n: "nat (50 - lock_timer s) = Suc (nat (49 - lock_timer s))" using assms by simp
  show ?thesis unfolding n using idle_resting [of s "nat (49 - lock_timer s)" r] assms by simp
qed

theorem idle_piece_locks_witness:
  "fst (idle_ticks 50 demo_state (sconst 0)) = replicate 49 False @ [True]"
  using idle_piece_locks [of demo_state "sconst 0"] demo_state_resting by simp

text \<open>
  Lemma (idle_piece_falls): a piece that can fall and receives no input falls by gravity. With the
  gravity timer at \<open>g\<close>, it is exactly one row lower, with both timers reset and the rest of the state
  unchanged, after \<open>current_gravity - g\<close> calls of \<open>update_timers\<close>, of which only the last reports a
  step; at any level from 1 up that is between 5 and 50 ticks from a fresh timer.
\<close>

theorem idle_piece_falls:
  assumes "\<not> resting s" and "0 \<le> gravity_timer s" and "gravity_timer s < current_gravity s"
  shows "let k = nat (current_gravity s - gravity_timer s)
         in idle_ticks k s r =
              (replicate (k - 1) False @ [True],
               (move_to s (p_x (current s)) (p_y (current s) + 1))\<lparr>lock_timer := 0, gravity_timer := 0\<rparr>, r)
          \<and> 5 \<le> current_gravity s \<and> (1 \<le> level s \<longrightarrow> current_gravity s \<le> 50)"
proof -
  have n: "nat (current_gravity s - gravity_timer s) = Suc (nat (current_gravity s - 1 - gravity_timer s))"
    using assms by simp
  show ?thesis
    unfolding n Let_def using idle_falling [of s "nat (current_gravity s - 1 - gravity_timer s)" r] assms
      current_gravity_range [of s] by simp
qed

theorem idle_piece_falls_witness:
  "let s = demo_state\<lparr>current := \<lparr>p_type = 1, p_rot = 0, p_x = 3, p_y = 4\<rparr>\<rparr>
   in fst (snd (idle_ticks 50 s (sconst 0))) = (move_to s 3 5)\<lparr>lock_timer := 0, gravity_timer := 0\<rparr>"
proof -
  let ?s = "demo_state\<lparr>current := \<lparr>p_type = 1, p_rot = 0, p_x = 3, p_y = 4\<rparr>\<rparr>"
  have f: "valid_at ?s (p_x (current ?s)) (p_y (current ?s) + 1)"
    by (simp add: demo_cells empty_row_def eval_nat_numeral)
  have g: "current_gravity ?s = 50" "gravity_timer ?s = 0"
    by (simp_all add: demo_state_def zero_state_def current_gravity_def)
  show ?thesis using idle_piece_falls [of ?s "sconst 0"] f g by (simp add: Let_def)
qed

section \<open>Moves and rotation\<close>

lemma try_kicks_spec:
  "try_kicks s nr ks =
     (case filter (\<lambda>(ox, oy). is_valid_pos s (p_type (current s)) nr (p_x (current s) + ox) (p_y (current s) + oy)) ks of
        [] \<Rightarrow> (False, s)
      | (ox, oy) # _ \<Rightarrow> (True, s\<lparr>current := (current s)\<lparr>p_x := p_x (current s) + ox, p_y := p_y (current s) + oy,
                                                    p_rot := nr\<rparr>, last_action_rotation := True\<rparr>))"
  by (induction ks) (auto simp: Let_def)

text \<open>
  Lemma (test_rotate_first_kick): a rotation tries the five kicks of the piece's table in order. It
  succeeds exactly when one of them fits; it then applies the first one that fits, so the piece is
  in a valid position in the new rotation; otherwise the state is unchanged.
\<close>

theorem test_rotate_first_kick:
  "let kicks = map (kick_offset (p_type (current s)) (get_transition_index (p_rot (current s)) nr)) [0..<5];
       fits = (\<lambda>k. is_valid_pos s (p_type (current s)) nr (p_x (current s) + fst k) (p_y (current s) + snd k));
       (ok, s') = test_rotate s nr
   in ok = list_ex fits kicks
    \<and> (if ok then (\<exists>i < 5. fits (kicks ! i) \<and> list_all (\<lambda>k. \<not> fits k) (take i kicks)
                    \<and> p_x (current s') = p_x (current s) + fst (kicks ! i)
                    \<and> p_y (current s') = p_y (current s) + snd (kicks ! i))
                  \<and> p_rot (current s') = nr \<and> p_type (current s') = p_type (current s)
                  \<and> valid_at s' (p_x (current s')) (p_y (current s'))
       else s' = s)"
proof -
  define kicks where "kicks = map (kick_offset (p_type (current s)) (get_transition_index (p_rot (current s)) nr)) [0..<5]"
  define fits where "fits = (\<lambda>k. is_valid_pos s (p_type (current s)) nr (p_x (current s) + fst k) (p_y (current s) + snd k))"
  have len: "length kicks = 5" by (simp add: kicks_def)
  have t: "test_rotate s nr = (case filter fits kicks of [] \<Rightarrow> (False, s)
      | k # _ \<Rightarrow> (True, s\<lparr>current := (current s)\<lparr>p_x := p_x (current s) + fst k, p_y := p_y (current s) + snd k,
                                                    p_rot := nr\<rparr>, last_action_rotation := True\<rparr>))"
    unfolding test_rotate_def Let_def kicks_def [symmetric] try_kicks_spec fits_def
    by (simp add: case_prod_beta' split: list.splits)
  show ?thesis
  proof (cases "filter fits kicks")
    case Nil
    then have "\<not> list_ex fits kicks" by (auto simp: list_ex_iff filter_empty_conv)
    then show ?thesis unfolding kicks_def [symmetric] fits_def [symmetric] Let_def t Nil by simp
  next
    case (Cons k ks)
    obtain us vs where d: "kicks = us @ k # vs" "\<forall>u \<in> set us. \<not> fits u" "fits k"
      using Cons by (auto simp: filter_eq_Cons_iff)
    then have "length us < 5" "kicks ! length us = k" "take (length us) kicks = us" using len by auto
    then have ex: "\<exists>i < 5. fits (kicks ! i) \<and> list_all (\<lambda>k. \<not> fits k) (take i kicks) \<and> kicks ! i = k"
      using d by (intro exI [of _ "length us"]) (simp add: list_all_iff)
    have "list_ex fits kicks" using d by simp
    with ex d(3) show ?thesis
      unfolding kicks_def [symmetric] fits_def [symmetric] Let_def t Cons by (auto simp: fits_def)
  qed
qed

text \<open>
  Lemma (hard_drop_lands): a hard drop lowers a well-formed piece by some number \<open>k\<close> of rows and returns
  \<open>k\<close>: all positions on the way are valid, the next one is not, and nothing but the row changes.
\<close>

theorem hard_drop_lands:
  assumes "piece_wf (current s)"
  shows "\<exists>k. hard_drop s = (int k, move_to s (p_x (current s)) (p_y (current s) + int k))
           \<and> (\<forall>j \<in> {1..k}. valid_at s (p_x (current s)) (p_y (current s) + int j))
           \<and> \<not> valid_at s (p_x (current s)) (p_y (current s) + int k + 1)"
  using hard_drop_loop_lands [OF assms, of 0] unfolding hard_drop_def by fastforce

theorem hard_drop_lands_witness:
  "\<exists>k. hard_drop demo_state = (int k, move_to demo_state 3 (18 + int k)) \<and> \<not> valid_at demo_state 3 (18 + int k + 1)"
  using hard_drop_lands [of demo_state] demo_state_wf demo_state_resting(3,4) by (auto simp: state_wf_def)

text \<open>
  Lemma (t_spin_never_flat): an unrotated T piece that fits is never counted as a T-spin, however it got
  there: two of the four corners that \<open>check_t_spin\<close> tests around \<open>(x + 1, y + 1)\<close> are cells of the
  piece itself, whose centre is at \<open>(x + 1, y + 2)\<close> in that rotation.
\<close>

theorem t_spin_never_flat:
  assumes "p_type (current s) = PIECE_T" and "p_rot (current s) = ROT_0"
    and "valid_at s (p_x (current s)) (p_y (current s))" and "0 \<le> p_y (current s)"
  shows "check_t_spin s = 0"
proof -
  let ?x = "p_x (current s)" and ?y = "p_y (current s)"
  have "set (piece_cells 3 0 ?x ?y) = {(?x + 1, ?y + 1), (?x, ?y + 2), (?x + 1, ?y + 2), (?x + 2, ?y + 2)}"
    by (auto simp: piece_cells_def box4_def get_rotation_index_def tetromino_cell_def TETROMINOES_def)
  then have "\<not> cell_blocked s ?x (?y + 2)" "\<not> cell_blocked s (?x + 2) (?y + 2)"
    using assms(1-3) by (auto simp: is_valid_pos_cells list_all_iff)
  then have "\<not> corner_blocked s ?x (2 + ?y)" "\<not> corner_blocked s (2 + ?x) (2 + ?y)"
    using assms(4) by (auto simp: cell_blocked_def corner_blocked_def add.commute)
  then show ?thesis by (simp add: check_t_spin_def corner_offsets_def Let_def)
qed

theorem t_spin_never_flat_witness:
  "check_t_spin (demo_state\<lparr>current := \<lparr>p_type = 3, p_rot = 0, p_x = 3, p_y = 16\<rparr>, last_action_rotation := True\<rparr>) = 0"
  by (rule t_spin_never_flat) (simp_all add: demo_cells empty_row_def eval_nat_numeral)

section \<open>The bag\<close>

text \<open>
  Lemma (shuffle_array_exact): the shuffle is a permutation of the array for every sequence of random
  numbers, and every ordering of the array is the result for some sequence.
\<close>

theorem shuffle_array_exact:
  "mset (fst (shuffle_array a (length a) r)) = mset a
   \<and> (mset b = mset a \<longrightarrow> (\<exists>r'. fst (shuffle_array a (length a) r') = b))"
proof -
  have "\<exists>r'. fst (shuffle_array a (length a) r') = b" if "mset b = mset a"
  proof (cases a)
    case Nil
    then show ?thesis using that by (simp add: shuffle_array_def)
  next
    case (Cons x xs)
    have l: "length b = length a" using that by (rule mset_eq_length)
    have "\<exists>r'. fst (shuffle_loop (length a - 1) a r') = b"
      using that l Cons by (intro shuffle_loop_any) simp_all
    then show ?thesis by (simp add: shuffle_array_def)
  qed
  then show ?thesis using shuffle_array_mset [of "length a" a r] by simp
qed

theorem shuffle_array_exact_witness: "\<exists>r'. fst (shuffle_array [1, 2, 3] 3 r') = [3, 1, 2]"
  using shuffle_array_exact [of "[1, 2, 3]" "sconst 0" "[3, 1, 2]"] by (simp add: eval_nat_numeral)

text \<open>The pieces that \<open>n\<close> successive spawns bring into play.\<close>

primrec draws :: "nat \<Rightarrow> GameState \<Rightarrow> rng \<Rightarrow> int list \<times> GameState \<times> rng" where
  "draws 0 s r = ([], s, r)"
| "draws (Suc n) s r =
     (let (s1, r1) = spawn_new_piece s r; (ts, s2, r2) = draws n s1 r1 in (p_type (current s1) # ts, s2, r2))"

lemma draws_add:
  "draws (n + m) s r =
     (let (ts, s1, r1) = draws n s r; (us, s2, r2) = draws m s1 r1 in (ts @ us, s2, r2))"
  by (induction n arbitrary: s r) (auto simp: Let_def split: prod.splits)

lemma spawn_type: "p_type (current (fst (spawn_new_piece s r))) = bag s ! nat (bag_index s)" if "length (bag s) = 14"
  by (subst spawn_new_piece_frame [OF that]) simp

lemma spawn_index:
  assumes "length (bag s) = 14"
  shows "bag_index (fst (spawn_new_piece s r)) = (if bag_index s + 1 \<ge> 7 then 0 else bag_index s + 1)"
    and "bag_index s + 1 < 7 \<Longrightarrow> bag (fst (spawn_new_piece s r)) = bag s"
  using assms by (auto simp: spawn_new_piece_def Let_def refill_bag_eq)

lemma draws_block:
  assumes "bag_wf (bag s) (bag_index s)" and "bag_index s + int n \<le> 7"
  shows "fst (draws n s r) = take n (drop (nat (bag_index s)) (bag s))
       \<and> bag_wf (bag (fst (snd (draws n s r)))) (bag_index (fst (snd (draws n s r))))
       \<and> bag_index (fst (snd (draws n s r))) = (bag_index s + int n) mod 7"
  using assms
proof (induction n arbitrary: s r)
  case (Suc n)
  let ?i = "nat (bag_index s)"
  obtain s' r' where sp: "spawn_new_piece s r = (s', r')" by (cases "spawn_new_piece s r")
  have l: "length (bag s) = 14" and i: "0 \<le> bag_index s" using Suc.prems(1) by (auto simp: bag_wf_def)
  have tk: "take (Suc n) (drop ?i (bag s)) = bag s ! ?i # take n (drop (Suc ?i) (bag s))"
    using l Suc.prems by (simp add: Cons_nth_drop_Suc [symmetric])
  have t: "p_type (current s') = bag s ! ?i" "bag_wf (bag s') (bag_index s')"
    using spawn_type [OF l, of r] spawn_new_piece_bag(1) [OF Suc.prems(1), of r] sp by auto
  note x = spawn_index [OF l, of r, unfolded sp fst_conv]
  show ?case
  proof (cases "bag_index s + 1 < 7")
    case True
    then have s': "bag s' = bag s" "bag_index s' = bag_index s + 1" using x by auto
    moreover have "nat (bag_index s + 1) = Suc ?i" using i by simp
    ultimately show ?thesis using Suc.IH [of s' r'] t Suc.prems(2) sp tk by (auto simp: case_prod_beta Let_def add.assoc)
  next
    case False
    then have "bag_index s = 6" "n = 0" "bag_index s' = 0" using Suc.prems x by (auto simp: bag_wf_def)
    then show ?thesis using t sp tk by simp
  qed
qed (auto simp: bag_wf_def)

lemma draws_length [simp]: "length (fst (draws n s r)) = n"
  by (induction n arbitrary: s r) (simp_all add: Let_def case_prod_beta)

text \<open>
  C23 (seven_bag): from the start of a bag, the pieces come in blocks of seven: whatever the random
  numbers, each block of seven successive spawns contains every piece exactly once.
\<close>

theorem seven_bag:
  assumes "bag_wf (bag s) (bag_index s)" and "bag_index s = 0" and "k < m"
  shows "mset (take 7 (drop (7 * k) (fst (draws (7 * m) s r)))) = mset seven"
  using assms
proof (induction m arbitrary: k s r)
  case (Suc m)
  obtain ts s1 r1 where d: "draws 7 s r = (ts, s1, r1)" by (cases "draws 7 s r")
  have b: "ts = take 7 (bag s)" "bag_wf (bag s1) (bag_index s1)" "bag_index s1 = 0"
    using draws_block [of s 7 r] Suc.prems(1,2) d by auto
  have l: "length ts = 7" using draws_length [of 7 s r] d by simp
  have e: "fst (draws (7 * Suc m) s r) = ts @ fst (draws (7 * m) s1 r1)"
    using draws_add [of 7 "7 * m" s r] d by (simp add: case_prod_beta Let_def)
  show ?case
  proof (cases k)
    case 0
    then show ?thesis using e b(1) l Suc.prems(1) by (simp add: bag_wf_def)
  next
    case (Suc j)
    then show ?thesis using e l Suc.IH [OF b(2,3), of j r1] Suc.prems(3) by simp
  qed
qed simp

theorem seven_bag_witness:
  "mset (take 7 (drop (7 * 2) (fst (draws (7 * 3) demo_state (sconst 5))))) = mset seven"
  by (rule seven_bag) (use demo_state_wf in \<open>simp_all add: state_wf_def demo_state_def zero_state_def\<close>)

end
