(* ===== verification/Targeting.thy ===== *)
theory Targeting
  imports Tetris_State
begin

text \<open>
  \<open>targeting.c\<close> and \<open>killfeed.c\<close> of \<open>libtetrisbrain\<close>: choosing whom an attack hits, and the ring of
  the last four attacks. A roster is well-formed when its count does not exceed its arrays; reads past
  them are undefined behaviour in C.
\<close>

section \<open>Roster\<close>

abbreviation (input) MAX_LOBBY_PLAYERS :: nat where "MAX_LOBBY_PLAYERS \<equiv> 2"

record Roster =
  ro_ids :: "u32 list"
  ro_eliminated :: "bool list"
  ro_count :: nat

definition roster_wf :: "Roster \<Rightarrow> bool" where
  "roster_wf ro \<longleftrightarrow> length (ro_ids ro) = MAX_LOBBY_PLAYERS \<and> length (ro_eliminated ro) = MAX_LOBBY_PLAYERS
     \<and> ro_count ro \<le> MAX_LOBBY_PLAYERS"

section \<open>Targeting\<close>

text \<open>The enum is incremented as an integer modulo \<open>TARGET_MODE_COUNT\<close>.\<close>

definition cycle_target_mode :: "GameState \<Rightarrow> GameState" where
  "cycle_target_mode s = s\<lparr>target_mode := target_mode_of_u32 ((u32_of_target_mode (target_mode s) + 1) mod 3)\<rparr>"

text \<open>The slot of the locked target, or -1.\<close>

definition target_index :: "u32 \<Rightarrow> Roster \<Rightarrow> int" where
  "target_index t ro =
     (case List.find (\<lambda>i. ro_ids ro ! i = t) [0..<ro_count ro] of None \<Rightarrow> -1 | Some i \<Rightarrow> int i)"

definition targetable :: "u32 \<Rightarrow> Roster \<Rightarrow> nat \<Rightarrow> bool" where
  "targetable me ro i \<longleftrightarrow> ro_ids ro ! i \<noteq> me \<and> \<not> ro_eliminated ro ! i"

definition cycle_manual_target :: "GameState \<Rightarrow> Roster \<Rightarrow> GameState" where
  "cycle_manual_target s ro =
     (if ro_count ro \<le> 1 then s
      else let current_index = target_index (target_player_id s) ro;
               index = (\<lambda>step. nat ((current_index + int step + int (ro_count ro)) mod int (ro_count ro)))
           in case List.find (\<lambda>step. targetable (gs_player_id s) ro (index step)) [1..<ro_count ro + 1] of
                None \<Rightarrow> s
              | Some step \<Rightarrow> s\<lparr>target_player_id := ro_ids ro ! index step\<rparr>)"

definition random_candidates :: "u32 \<Rightarrow> Roster \<Rightarrow> u32 list" where
  "random_candidates me ro = map (\<lambda>i. ro_ids ro ! i) (filter (targetable me ro) [0..<ro_count ro])"

definition resolve_target_id :: "GameState \<Rightarrow> Roster \<Rightarrow> rng \<Rightarrow> u32 \<times> rng" where
  "resolve_target_id s ro r =
     (case target_mode s of
        TARGET_RANDOM \<Rightarrow>
          (let candidates = random_candidates (gs_player_id s) ro; count = length candidates
           in if count = 0 then (target_player_id s, r)
              else let (v, r') = rand r in (candidates ! (v mod count), r'))
      | TARGET_KO \<Rightarrow>
          (if last_attacker_id s \<noteq> 0 \<and> last_attacker_id s \<noteq> gs_player_id s
              \<and> list_ex (\<lambda>i. ro_ids ro ! i = last_attacker_id s \<and> \<not> ro_eliminated ro ! i) [0..<ro_count ro]
           then (last_attacker_id s, r)
           else (target_player_id s, r))
      | _ \<Rightarrow> (target_player_id s, r))"

section \<open>Kill feed\<close>

abbreviation (input) KILL_FEED_MAX :: nat where "KILL_FEED_MAX \<equiv> 4"

record KillFeedEntry =
  kf_source :: u32
  kf_target :: u32
  kf_lines :: u32

record KillFeed =
  feed :: "KillFeedEntry list"
  feed_head :: nat
  feed_count :: nat

definition add_kill_feed :: "u32 \<Rightarrow> u32 \<Rightarrow> u32 \<Rightarrow> KillFeed \<Rightarrow> KillFeed" where
  "add_kill_feed source target lines f =
     (let f1 = f\<lparr>feed := (feed f)[feed_head f := \<lparr>kf_source = source, kf_target = target, kf_lines = lines\<rparr>],
                  feed_head := (feed_head f + 1) mod KILL_FEED_MAX\<rparr>
      in if feed_count f1 < KILL_FEED_MAX then f1\<lparr>feed_count := feed_count f1 + 1\<rparr> else f1)"

text \<open>The entries in the order \<open>draw_kill_feed\<close> prints them.\<close>

definition draw_kill_feed :: "KillFeed \<Rightarrow> KillFeedEntry list" where
  "draw_kill_feed f =
     map (\<lambda>i. feed f ! nat ((int (feed_head f) - int (feed_count f) + int i + int KILL_FEED_MAX) mod int KILL_FEED_MAX))
       [0..<feed_count f]"

definition zero_feed :: KillFeed where
  "zero_feed = \<lparr>feed = replicate KILL_FEED_MAX \<lparr>kf_source = 0, kf_target = 0, kf_lines = 0\<rparr>,
                feed_head = 0, feed_count = 0\<rparr>"

section \<open>Targeting never picks oneself or the eliminated\<close>

lemma find_upt_range: "List.find P [m..<n] = Some i \<Longrightarrow> m \<le> i \<and> i < n \<and> P i"
  by (auto simp: find_Some_iff)

definition alive_in :: "Roster \<Rightarrow> u32 \<Rightarrow> bool" where
  "alive_in ro p \<longleftrightarrow> list_ex (\<lambda>i. ro_ids ro ! i = p \<and> \<not> ro_eliminated ro ! i) [0..<ro_count ro]"

lemma alive_inI: "i < ro_count ro \<Longrightarrow> targetable me ro i \<Longrightarrow> alive_in ro (ro_ids ro ! i) \<and> ro_ids ro ! i \<noteq> me"
  by (auto simp: alive_in_def targetable_def list_ex_iff)

lemma index_range: "0 < n \<Longrightarrow> nat ((c + int k + int n) mod int n) < n"
  by (simp add: nat_less_iff)

text \<open>Every slot is visited by some step, so a full turn finds a living opponent when there is one.\<close>

lemma index_surj:
  assumes "0 < n" and "j < n"
  shows "\<exists>step \<in> {1..<n + 1}. nat ((c + int step + int n) mod int n) = j"
proof -
  define k where "k = nat ((int j - c - 1) mod int n) + 1"
  have m: "0 \<le> (int j - c - 1) mod int n" "(int j - c - 1) mod int n < int n" using assms(1) by simp_all
  then have "k \<in> {1..<n + 1}" by (auto simp: k_def nat_less_iff)
  moreover have "(c + int k + int n) mod int n = int j"
  proof -
    have "c + int k + int n = (c + 1 + (int j - c - 1) mod int n) + int n" using m by (simp add: k_def)
    then have "(c + int k + int n) mod int n = (c + 1 + (int j - c - 1) mod int n) mod int n"
      by (simp only: mod_add_self2)
    also have "\<dots> = int j mod int n" by (simp add: mod_add_right_eq)
    finally show ?thesis using assms(2) by simp
  qed
  ultimately show ?thesis by (intro bexI [of _ k]) simp
qed

text \<open>
  Lemma (cycle_manual_target_sound): cycling the manual target locks onto a living opponent of the
  roster whenever the roster has one, and otherwise leaves the state unchanged; nothing but the
  locked target ever changes.
\<close>

theorem cycle_manual_target_sound:
  "(if 1 < ro_count ro \<and> (\<exists>j < ro_count ro. targetable (gs_player_id s) ro j)
    then \<exists>j < ro_count ro. targetable (gs_player_id s) ro j
           \<and> cycle_manual_target s ro = s\<lparr>target_player_id := ro_ids ro ! j\<rparr>
    else cycle_manual_target s ro = s)"
proof -
  define n where "n = ro_count ro"
  define c where "c = target_index (target_player_id s) ro"
  define index where "index = (\<lambda>step. nat ((c + int step + int n) mod int n))"
  define f where "f = List.find (\<lambda>step. targetable (gs_player_id s) ro (index step)) [1..<n + 1]"
  have e: "cycle_manual_target s ro =
      (if n \<le> 1 then s else case f of None \<Rightarrow> s | Some step \<Rightarrow> s\<lparr>target_player_id := ro_ids ro ! index step\<rparr>)"
    unfolding cycle_manual_target_def n_def c_def index_def f_def Let_def ..
  show ?thesis
  proof (cases "1 < n \<and> (\<exists>j < n. targetable (gs_player_id s) ro j)")
    case True
    then obtain j where j: "j < n" "targetable (gs_player_id s) ro j" by blast
    obtain st where "st \<in> {1..<n + 1}" "index st = j" using index_surj [of n j c] True j by (auto simp: index_def)
    then have "f \<noteq> None" using j by (auto simp: f_def find_None_iff)
    then obtain step where st: "f = Some step" by blast
    then have "targetable (gs_player_id s) ro (index step)" using find_upt_range [OF st [unfolded f_def]] by blast
    moreover have "index step < n" unfolding index_def using True by (intro index_range) simp
    ultimately show ?thesis using True e st unfolding n_def by auto
  next
    case False
    then have "f = None" if "1 < n"
      using that index_range [of n c] by (auto simp: f_def find_None_iff index_def)
    then show ?thesis using False e unfolding n_def by auto
  qed
qed

text \<open>
  Lemma (resolve_target_living): in random mode an attack always goes to a living opponent of the roster
  when there is one; in retaliation mode it goes to the last attacker when that player is alive in the
  roster and is not oneself; in every other case the locked target is kept.
\<close>

theorem resolve_target_living:
  "let t = fst (resolve_target_id s ro r); me = gs_player_id s; last = last_attacker_id s
   in (case target_mode s of
         TARGET_RANDOM \<Rightarrow> (if \<exists>j < ro_count ro. targetable me ro j then alive_in ro t \<and> t \<noteq> me
                           else t = target_player_id s)
       | TARGET_KO \<Rightarrow> (if last \<noteq> 0 \<and> last \<noteq> me \<and> alive_in ro last then t = last else t = target_player_id s)
       | _ \<Rightarrow> t = target_player_id s)"
proof (cases "target_mode s")
  case TARGET_RANDOM
  let ?c = "random_candidates (gs_player_id s) ro"
  have c: "set ?c = (\<lambda>i. ro_ids ro ! i) ` {i. i < ro_count ro \<and> targetable (gs_player_id s) ro i}"
    by (auto simp: random_candidates_def)
  show ?thesis
  proof (cases "?c = []")
    case True
    then show ?thesis using TARGET_RANDOM c by (auto simp: resolve_target_id_def Let_def)
  next
    case False
    then have "?c ! (shd r mod length ?c) \<in> set ?c" by simp
    then obtain i where "i < ro_count ro" "targetable (gs_player_id s) ro i" "?c ! (shd r mod length ?c) = ro_ids ro ! i"
      unfolding c by auto
    then show ?thesis using TARGET_RANDOM False alive_inI [of i ro "gs_player_id s"]
      by (auto simp: resolve_target_id_def Let_def rand_def)
  qed
qed (auto simp: resolve_target_id_def Let_def alive_in_def)

section \<open>The kill feed shows the last four attacks\<close>

definition feed_wf :: "KillFeed \<Rightarrow> bool" where
  "feed_wf f \<longleftrightarrow> length (feed f) = KILL_FEED_MAX \<and> feed_head f < KILL_FEED_MAX \<and> feed_count f \<le> KILL_FEED_MAX"

definition last_n :: "nat \<Rightarrow> 'a list \<Rightarrow> 'a list" where
  "last_n n xs = drop (length xs - n) xs"

lemma nat_cases4: "(h :: nat) < 4 \<Longrightarrow> h = 0 \<or> h = 1 \<or> h = 2 \<or> h = 3"
  by arith

lemma nat_cases5: "(h :: nat) \<le> 4 \<Longrightarrow> h = 0 \<or> h = 1 \<or> h = 2 \<or> h = 3 \<or> h = 4"
  by arith

lemma add_kill_feed_draw:
  assumes "feed_wf f"
  shows "draw_kill_feed (add_kill_feed a b n f)
         = last_n 4 (draw_kill_feed f @ [\<lparr>kf_source = a, kf_target = b, kf_lines = n\<rparr>])"
    and "feed_wf (add_kill_feed a b n f)"
proof -
  obtain x0 x1 x2 x3 where x: "feed f = [x0, x1, x2, x3]"
    using assms by (auto simp: feed_wf_def length_Suc_conv eval_nat_numeral)
  have h: "feed_head f = 0 \<or> feed_head f = 1 \<or> feed_head f = 2 \<or> feed_head f = 3"
    and c: "feed_count f = 0 \<or> feed_count f = 1 \<or> feed_count f = 2 \<or> feed_count f = 3 \<or> feed_count f = 4"
    using assms nat_cases4 nat_cases5 by (auto simp: feed_wf_def)
  show "draw_kill_feed (add_kill_feed a b n f)
         = last_n 4 (draw_kill_feed f @ [\<lparr>kf_source = a, kf_target = b, kf_lines = n\<rparr>])"
    using h c by (elim disjE) (simp_all add: draw_kill_feed_def add_kill_feed_def Let_def last_n_def x upt_rec)
  show "feed_wf (add_kill_feed a b n f)" using assms by (auto simp: feed_wf_def add_kill_feed_def Let_def)
qed

text \<open>
  After any sequence of attacks the feed prints the last four of them, oldest
  first.
\<close>

lemma kill_feed_last_four:
  "draw_kill_feed (fold (\<lambda>e. add_kill_feed (kf_source e) (kf_target e) (kf_lines e)) es zero_feed) = last_n 4 es"
proof -
  have "feed_wf (fold (\<lambda>e. add_kill_feed (kf_source e) (kf_target e) (kf_lines e)) es zero_feed)
      \<and> draw_kill_feed (fold (\<lambda>e. add_kill_feed (kf_source e) (kf_target e) (kf_lines e)) es zero_feed) = last_n 4 es"
  proof (induction es rule: rev_induct)
    case Nil
    then show ?case by (simp add: feed_wf_def zero_feed_def draw_kill_feed_def last_n_def)
  next
    case (snoc e es)
    have "length es - (length es - 4 + 3) + (length es - 4) = length es - 3" by arith
    then have "last_n 4 (last_n 4 es @ [e]) = last_n 4 (es @ [e])" by (simp add: last_n_def)
    then show ?case using snoc add_kill_feed_draw by (cases e) simp
  qed
  then show ?thesis by simp
qed

end
