(* ===== verification/Game.thy ===== *)
theory Game
  imports Engine Targeting
begin

text \<open>
  \<open>tetrisd/game.c\<close>: the authoritative match of one room, that is the players' slots and the roster
  used for targeting. A \<open>PlayerSlot*\<close> is the index of the slot, NULL is \<open>None\<close>. The lemmas show
  that every operation keeps the session well-formed, that dead players stay dead, and that an
  action touches only its own player.
\<close>

section \<open>Actions\<close>

datatype PlayerAction = ACTION_NONE | ACTION_MOVE_LEFT | ACTION_MOVE_RIGHT | ACTION_ROTATE_CW
  | ACTION_ROTATE_CCW | ACTION_SOFT_DROP | ACTION_HARD_DROP | ACTION_HOLD
  | ACTION_CYCLE_TARGET_MODE | ACTION_CYCLE_TARGET | ACTION_QUIT | ACTION_OTHER u32

text \<open>The cast \<open>(PlayerAction)input.action\<close> of a number from the wire.\<close>

definition action_of_u32 :: "u32 \<Rightarrow> PlayerAction" where
  "action_of_u32 w =
     (if w = 0 then ACTION_NONE else if w = 1 then ACTION_MOVE_LEFT else if w = 2 then ACTION_MOVE_RIGHT
      else if w = 3 then ACTION_ROTATE_CW else if w = 4 then ACTION_ROTATE_CCW else if w = 5 then ACTION_SOFT_DROP
      else if w = 6 then ACTION_HARD_DROP else if w = 7 then ACTION_HOLD else if w = 8 then ACTION_CYCLE_TARGET_MODE
      else if w = 9 then ACTION_CYCLE_TARGET else if w = 10 then ACTION_QUIT else ACTION_OTHER w)"

text \<open>The numbers of the enumeration, as the client casts them.\<close>

fun u32_of_action :: "PlayerAction \<Rightarrow> u32" where
  "u32_of_action ACTION_NONE = 0"
| "u32_of_action ACTION_MOVE_LEFT = 1"
| "u32_of_action ACTION_MOVE_RIGHT = 2"
| "u32_of_action ACTION_ROTATE_CW = 3"
| "u32_of_action ACTION_ROTATE_CCW = 4"
| "u32_of_action ACTION_SOFT_DROP = 5"
| "u32_of_action ACTION_HARD_DROP = 6"
| "u32_of_action ACTION_HOLD = 7"
| "u32_of_action ACTION_CYCLE_TARGET_MODE = 8"
| "u32_of_action ACTION_CYCLE_TARGET = 9"
| "u32_of_action ACTION_QUIT = 10"
| "u32_of_action (ACTION_OTHER w) = w"

lemma action_roundtrip: "(\<And>w. a \<noteq> ACTION_OTHER w) \<Longrightarrow> action_of_u32 (u32_of_action a) = a"
  by (cases a) (simp_all add: action_of_u32_def)

section \<open>Slots and sessions\<close>

abbreviation (input) MAX_LOBBY_SIZE :: nat where "MAX_LOBBY_SIZE \<equiv> 2"

record PlayerSlot =
  sl_state :: GameState
  sl_player_id :: u32
  sl_active :: bool
  sl_dirty :: bool
  sl_elim_reported :: bool
  sl_idle_ticks :: int

record GameSession =
  ss_players :: "PlayerSlot list"
  ss_count :: nat
  ss_roster :: Roster

definition zero_slot :: PlayerSlot where
  "zero_slot = \<lparr>sl_state = zero_state, sl_player_id = 0, sl_active = False, sl_dirty = False,
                sl_elim_reported = False, sl_idle_ticks = 0\<rparr>"

definition zero_session :: GameSession where
  "zero_session =
     \<lparr>ss_players = replicate MAX_LOBBY_SIZE zero_slot, ss_count = 0,
      ss_roster = \<lparr>ro_ids = replicate MAX_LOBBY_PLAYERS 0, ro_eliminated = replicate MAX_LOBBY_PLAYERS False, ro_count = 0\<rparr>\<rparr>"

abbreviation set_slot :: "GameSession \<Rightarrow> nat \<Rightarrow> PlayerSlot \<Rightarrow> GameSession" where
  "set_slot ss i sl \<equiv> ss\<lparr>ss_players := (ss_players ss)[i := sl]\<rparr>"

text \<open>The body of the first loop of \<open>init_session\<close>; \<open>now i\<close> is the time at which slot \<open>i\<close> is started.\<close>

definition init_slot :: "(u32 \<Rightarrow> rng) \<Rightarrow> (nat \<Rightarrow> u32) \<Rightarrow> u32 list \<Rightarrow> nat \<Rightarrow> GameSession \<times> rng \<Rightarrow> GameSession \<times> rng" where
  "init_slot prng now client_ids i sr =
     (let (ss, r) = sr; sl = ss_players ss ! i; (st, r') = start_game prng (now i) (sl_state sl) r;
          sl' = sl\<lparr>sl_state := st\<lparr>gs_player_id := client_ids ! i, target_player_id := 0, last_attacker_id := 0\<rparr>,
                   sl_player_id := client_ids ! i, sl_active := True, sl_dirty := True, sl_idle_ticks := 0\<rparr>;
          ro = ss_roster ss
      in ((set_slot ss i sl')\<lparr>ss_roster := ro\<lparr>ro_ids := (ro_ids ro)[i := client_ids ! i],
                                             ro_eliminated := (ro_eliminated ro)[i := False]\<rparr>\<rparr>, r'))"

text \<open>The body of the second loop: the first other player of the roster is the starting target.\<close>

definition init_target :: "nat \<Rightarrow> GameSession \<Rightarrow> GameSession" where
  "init_target i ss =
     (let sl = ss_players ss ! i; ro = ss_roster ss
      in case List.find (\<lambda>j. ro_ids ro ! j \<noteq> sl_player_id sl) [0..<ro_count ro] of
           None \<Rightarrow> ss
         | Some j \<Rightarrow> set_slot ss i (sl\<lparr>sl_state := (sl_state sl)\<lparr>target_player_id := ro_ids ro ! j\<rparr>\<rparr>))"

definition init_session :: "(u32 \<Rightarrow> rng) \<Rightarrow> (nat \<Rightarrow> u32) \<Rightarrow> u32 list \<Rightarrow> nat \<Rightarrow> rng \<Rightarrow> GameSession \<times> rng" where
  "init_session prng now client_ids lobby_size r =
     (let s0 = zero_session\<lparr>ss_count := lobby_size, ss_roster := (ss_roster zero_session)\<lparr>ro_count := lobby_size\<rparr>\<rparr>;
          (s1, r1) = fold (init_slot prng now client_ids) [0..<min lobby_size MAX_LOBBY_SIZE] (s0, r)
      in (fold init_target [0..<ss_count s1] s1, r1))"

definition find_player :: "GameSession \<Rightarrow> u32 \<Rightarrow> nat option" where
  "find_player ss player_id =
     List.find (\<lambda>i. sl_active (ss_players ss ! i) \<and> sl_player_id (ss_players ss ! i) = player_id) [0..<ss_count ss]"

section \<open>Input\<close>

text \<open>The loop that marks a player as eliminated in the roster.\<close>

definition eliminate_in_roster :: "u32 \<Rightarrow> Roster \<Rightarrow> Roster" where
  "eliminate_in_roster player_id ro =
     ro\<lparr>ro_eliminated := fold (\<lambda>j e. if ro_ids ro ! j = player_id then e[j := True] else e)
                            [0..<ro_count ro] (ro_eliminated ro)\<rparr>"

text \<open>The cases of the switch that work on the player's own board; \<open>None\<close> is the early return.\<close>

definition board_action :: "Roster \<Rightarrow> PlayerAction \<Rightarrow> GameState \<Rightarrow> rng \<Rightarrow> (GameState \<times> rng) option" where
  "board_action ro action s r =
     (case action of
        ACTION_MOVE_LEFT \<Rightarrow> (let (ok, s1) = move_left s in Some (if ok then s1\<lparr>lock_timer := 0\<rparr> else s1, r))
      | ACTION_MOVE_RIGHT \<Rightarrow> (let (ok, s1) = move_right s in Some (if ok then s1\<lparr>lock_timer := 0\<rparr> else s1, r))
      | ACTION_ROTATE_CW \<Rightarrow> Some ((rotate_current_piece s)\<lparr>lock_timer := 0\<rparr>, r)
      | ACTION_ROTATE_CCW \<Rightarrow> Some ((rotate_counter_clockwise s)\<lparr>lock_timer := 0\<rparr>, r)
      | ACTION_SOFT_DROP \<Rightarrow> (let (ok, s1) = soft_drop s in Some (if ok then s1\<lparr>lock_timer := 0\<rparr> else s1, r))
      | ACTION_HARD_DROP \<Rightarrow>
          (let (rows, s1) = hard_drop s; (n, s2, r2) = tick_game s1 r
           in Some (s2\<lparr>gravity_timer := 0, lock_timer := 0\<rparr>, r2))
      | ACTION_HOLD \<Rightarrow>
          (if \<not> has_held s then (let (s1, r1) = hold_piece s r in Some (s1\<lparr>gravity_timer := 0\<rparr>, r1))
           else Some (s, r))
      | ACTION_CYCLE_TARGET_MODE \<Rightarrow> Some (cycle_target_mode s, r)
      | ACTION_CYCLE_TARGET \<Rightarrow> Some (cycle_manual_target s ro, r)
      | ACTION_QUIT \<Rightarrow> Some (s\<lparr>game_over := 1\<rparr>, r)
      | _ \<Rightarrow> None)"

definition apply_action :: "GameSession \<Rightarrow> nat option \<Rightarrow> PlayerAction \<Rightarrow> rng \<Rightarrow> GameSession \<times> rng" where
  "apply_action ss slot action r =
     (case slot of
        None \<Rightarrow> (ss, r)
      | Some i \<Rightarrow>
          let sl = ss_players ss ! i in
          if \<not> sl_active sl \<or> game_over (sl_state sl) \<noteq> 0 then (ss, r)
          else (case board_action (ss_roster ss) action (sl_state sl) r of
                  None \<Rightarrow> (ss, r)
                | Some (st, r') \<Rightarrow>
                    let sl1 = sl\<lparr>sl_state := st\<rparr>;
                        sl2 = (if action = ACTION_QUIT then sl1\<lparr>sl_active := False\<rparr> else sl1);
                        ro = (if action = ACTION_QUIT then eliminate_in_roster (sl_player_id sl) (ss_roster ss)
                              else ss_roster ss)
                    in ((set_slot ss i (sl2\<lparr>sl_dirty := True\<rparr>))\<lparr>ss_roster := ro\<rparr>, r')))"

section \<open>Simulation\<close>

definition tick_slot :: "nat \<Rightarrow> GameSession \<times> rng \<Rightarrow> GameSession \<times> rng" where
  "tick_slot i sr =
     (let (ss, r) = sr; sl = ss_players ss ! i in
      if \<not> sl_active sl \<or> game_over (sl_state sl) \<noteq> 0 then (ss, r)
      else let (changed, st, r') = update_timers (sl_state sl) r;
               sl1 = sl\<lparr>sl_state := st\<rparr>;
               sl2 = (if changed then sl1\<lparr>sl_dirty := True\<rparr> else sl1)
           in if game_over st \<noteq> 0
              then ((set_slot ss i (sl2\<lparr>sl_dirty := True\<rparr>))
                       \<lparr>ss_roster := eliminate_in_roster (sl_player_id sl) (ss_roster ss)\<rparr>, r')
              else (set_slot ss i sl2, r'))"

definition tick_session :: "GameSession \<Rightarrow> rng \<Rightarrow> GameSession \<times> rng" where
  "tick_session ss r = fold tick_slot [0..<ss_count ss] (ss, r)"

definition slot_alive :: "PlayerSlot \<Rightarrow> bool" where
  "slot_alive sl \<longleftrightarrow> sl_active sl \<and> game_over (sl_state sl) = 0"

definition count_alive_players :: "GameSession \<Rightarrow> nat" where
  "count_alive_players ss = length (filter (\<lambda>i. slot_alive (ss_players ss ! i)) [0..<ss_count ss])"

section \<open>The brain keeps the player's identity\<close>

lemma stage_keeps_id [simp]:
  "gs_player_id (lock_piece s) = gs_player_id s"
  "gs_player_id (snd (clear_lines s)) = gs_player_id s"
  "gs_player_id (snd (calculate_garbage s n t)) = gs_player_id s"
  "gs_player_id (snd (cancel_garbage d s)) = gs_player_id s"
  by (simp_all add: lock_piece_def clear_lines_def calculate_garbage_def cancel_garbage_def Let_def split: prod.splits)

lemma receive_garbage_keeps_id [simp]: "gs_player_id (fst (receive_garbage n s r)) = gs_player_id s"
  by (subst receive_garbage_frame) simp

lemma spawn_new_piece_keeps_id [simp]: "gs_player_id (fst (spawn_new_piece s r)) = gs_player_id s"
  by (simp add: spawn_new_piece_def refill_bag_def Let_def split: prod.splits)

lemma lock_turn_keeps_id [simp]: "gs_player_id (fst (snd (lock_turn s r))) = gs_player_id s"
  by (simp add: lock_turn_def Let_def case_prod_beta)

lemma tick_game_keeps_id [simp]: "gs_player_id (fst (snd (tick_game s r))) = gs_player_id s"
  by (simp add: tick_game_def Let_def case_prod_beta)

lemma update_timers_keeps_id [simp]: "gs_player_id (fst (snd (update_timers s r))) = gs_player_id s"
  by (simp add: update_timers_def Let_def case_prod_beta)

lemma moves_keep_id [simp]:
  "gs_player_id (snd (move_left s)) = gs_player_id s" "gs_player_id (snd (move_right s)) = gs_player_id s"
  "gs_player_id (snd (soft_drop s)) = gs_player_id s" "gs_player_id (cycle_target_mode s) = gs_player_id s"
  "gs_player_id (fst (hold_piece s r)) = gs_player_id s" "gs_player_id (queue_garbage s n) = gs_player_id s"
  by (simp_all add: move_left_def move_right_def soft_drop_def cycle_target_mode_def hold_piece_def
      queue_garbage_def Let_def case_prod_beta)

lemma try_kicks_keeps_id [simp]: "gs_player_id (snd (try_kicks s nr ks)) = gs_player_id s"
  by (induction s nr ks rule: try_kicks.induct) (simp_all add: Let_def)

lemma rotations_keep_id [simp]:
  "gs_player_id (rotate_current_piece s) = gs_player_id s" "gs_player_id (rotate_counter_clockwise s) = gs_player_id s"
  by (simp_all add: rotate_current_piece_def rotate_counter_clockwise_def test_rotate_def Let_def)

lemma hard_drop_keeps_id: "piece_wf (current s) \<Longrightarrow> gs_player_id (snd (hard_drop s)) = gs_player_id s"
  using hard_drop_loop_lands [of s 0] by (auto simp: hard_drop_def)

lemma cycle_manual_target_keeps_id [simp]: "gs_player_id (cycle_manual_target s ro) = gs_player_id s"
  by (simp add: cycle_manual_target_def Let_def split: option.splits)

lemma cycle_wf [wf_intros]:
  "state_wf s \<Longrightarrow> state_wf (cycle_target_mode s)" "state_wf s \<Longrightarrow> state_wf (cycle_manual_target s ro)"
  by (simp_all add: cycle_target_mode_def cycle_manual_target_def Let_def split: option.splits)

lemma board_action_wf:
  assumes "state_wf s" and "board_action ro a s r = Some (s', r')"
  shows "state_wf s'"
  using assms(2) assms(1) moves_wf [OF assms(1)] hold_piece_wf [OF assms(1), of r] hard_drop_wf [OF assms(1)]
    tick_game_wf [of "snd (hard_drop s)" r]
  by (cases a) (auto simp: board_action_def Let_def case_prod_beta cycle_wf rotations_wf split: if_splits)

lemma board_action_id:
  assumes "state_wf s" and "board_action ro a s r = Some (s', r')"
  shows "gs_player_id s' = gs_player_id s"
  using assms(2) hard_drop_keeps_id [of s] assms(1)
  by (cases a) (auto simp: board_action_def Let_def case_prod_beta state_wf_def split: if_splits)

section \<open>The session invariant\<close>

definition slot_wf :: "PlayerSlot \<Rightarrow> bool" where
  "slot_wf sl \<longleftrightarrow> state_wf (sl_state sl) \<and> gs_player_id (sl_state sl) = sl_player_id sl"

text \<open>
  Slots and roster agree on the identities, which are distinct, and only dead players are marked as
  eliminated.
\<close>

definition session_wf :: "GameSession \<Rightarrow> bool" where
  "session_wf ss \<longleftrightarrow> length (ss_players ss) = MAX_LOBBY_SIZE \<and> ss_count ss \<le> MAX_LOBBY_SIZE
     \<and> roster_wf (ss_roster ss) \<and> ro_count (ss_roster ss) = ss_count ss
     \<and> distinct (map sl_player_id (take (ss_count ss) (ss_players ss)))
     \<and> (\<forall>i < ss_count ss. slot_wf (ss_players ss ! i)
          \<and> ro_ids (ss_roster ss) ! i = sl_player_id (ss_players ss ! i)
          \<and> (ro_eliminated (ss_roster ss) ! i \<longrightarrow> \<not> slot_alive (ss_players ss ! i)))"

lemma eliminate_nth:
  assumes "roster_wf ro" and "i < ro_count ro"
  shows "ro_eliminated (eliminate_in_roster p ro) ! i = (ro_eliminated ro ! i \<or> ro_ids ro ! i = p)"
proof -
  have "fold (\<lambda>j e. if ro_ids ro ! j = p then e[j := True] else e) [0..<n] e ! i
        = (e ! i \<or> (i < n \<and> ro_ids ro ! i = p))" if "i < length e" "n \<le> length e" for n e
    using that
  proof (induction n)
    case (Suc n)
    have "length (fold (\<lambda>j e. if ro_ids ro ! j = p then e[j := True] else e) [0..<n] e) = length e"
      by (simp add: fold_if_filter)
    then show ?case using Suc by (auto simp: nth_list_update less_Suc_eq)
  qed simp
  then show ?thesis using assms by (simp add: eliminate_in_roster_def roster_wf_def)
qed

lemma eliminate_keeps:
  "roster_wf (eliminate_in_roster p ro) = roster_wf ro" "ro_count (eliminate_in_roster p ro) = ro_count ro"
  "ro_ids (eliminate_in_roster p ro) = ro_ids ro"
  by (simp_all add: eliminate_in_roster_def roster_wf_def fold_if_filter)

text \<open>
  The shape of every session step: one slot is replaced by a well-formed one with the same identity,
  and the roster is untouched or marks that player, who is then dead.
\<close>

lemma session_wf_set_slot:
  assumes "session_wf ss" and "i < ss_count ss" and "slot_wf sl" and "sl_player_id sl = sl_player_id (ss_players ss ! i)"
    and "ro = ss_roster ss \<and> (slot_alive sl \<longrightarrow> slot_alive (ss_players ss ! i))
         \<or> ro = eliminate_in_roster (sl_player_id sl) (ss_roster ss) \<and> \<not> slot_alive sl"
  shows "session_wf ((set_slot ss i sl)\<lparr>ss_roster := ro\<rparr>)"
proof -
  let ?ps = "ss_players ss" and ?n = "ss_count ss"
  have w: "length ?ps = 2" "?n \<le> 2" "roster_wf (ss_roster ss)" "ro_count (ss_roster ss) = ?n"
    and d: "distinct (map sl_player_id (take ?n ?ps))"
    and a: "\<And>j. j < ?n \<Longrightarrow> slot_wf (?ps ! j) \<and> ro_ids (ss_roster ss) ! j = sl_player_id (?ps ! j)
           \<and> (ro_eliminated (ss_roster ss) ! j \<longrightarrow> \<not> slot_alive (?ps ! j))"
    using assms(1) unfolding session_wf_def by auto
  have ids: "map sl_player_id (take ?n (?ps[i := sl])) = map sl_player_id (take ?n ?ps)"
    using assms(2,4) w by (intro nth_equalityI) (auto simp: nth_list_update)
  have ne: "sl_player_id (?ps ! j) \<noteq> sl_player_id (?ps ! i)" if "j < ?n" "j \<noteq> i" for j
    using d that assms(2) w by (auto simp: distinct_conv_nth)
  have "slot_wf (?ps[i := sl] ! j) \<and> ro_ids ro ! j = sl_player_id (?ps[i := sl] ! j)
      \<and> (ro_eliminated ro ! j \<longrightarrow> \<not> slot_alive (?ps[i := sl] ! j))" if "j < ?n" for j
    using a [OF that] ne [OF that] assms(2-5) w that
    by (cases "j = i") (auto simp: eliminate_keeps eliminate_nth)
  then show ?thesis using w d ids assms(5) by (auto simp: session_wf_def eliminate_keeps)
qed

lemma session_wf_slot:
  "session_wf ss \<Longrightarrow> i < ss_count ss \<Longrightarrow> slot_wf (ss_players ss ! i) \<and> i < length (ss_players ss)"
  by (auto simp: session_wf_def)

section \<open>Session steps\<close>

text \<open>What every step of a match guarantees: well-formedness, the same players, and no resurrection.\<close>

definition session_evolves :: "GameSession \<Rightarrow> GameSession \<Rightarrow> bool" where
  "session_evolves ss ss' \<longleftrightarrow> session_wf ss' \<and> ss_count ss' = ss_count ss
     \<and> (\<forall>i < ss_count ss. sl_player_id (ss_players ss' ! i) = sl_player_id (ss_players ss ! i)
          \<and> (slot_alive (ss_players ss' ! i) \<longrightarrow> slot_alive (ss_players ss ! i)))"

lemma session_evolves_refl: "session_wf ss \<Longrightarrow> session_evolves ss ss"
  by (simp add: session_evolves_def)

lemma session_evolves_trans: "session_evolves a b \<Longrightarrow> session_evolves b c \<Longrightarrow> session_evolves a c"
  by (auto simp: session_evolves_def)

lemma session_evolves_wf: "session_evolves a b \<Longrightarrow> session_wf b"
  by (simp add: session_evolves_def)

lemma session_evolves_alive:
  assumes "session_evolves a b"
  shows "count_alive_players b \<le> count_alive_players a"
proof -
  have "filter (\<lambda>i. slot_alive (ss_players b ! i)) [0..<ss_count b]
      = filter (\<lambda>i. slot_alive (ss_players b ! i)) (filter (\<lambda>i. slot_alive (ss_players a ! i)) [0..<ss_count a])"
    using assms by (auto simp: session_evolves_def intro!: filter_cong)
  then show ?thesis unfolding count_alive_players_def by (metis length_filter_le)
qed

lemma session_evolves_set_slot:
  assumes "session_wf ss" and "i < ss_count ss" and "slot_wf sl" and "sl_player_id sl = sl_player_id (ss_players ss ! i)"
    and "slot_alive sl \<longrightarrow> slot_alive (ss_players ss ! i)"
    and "ro = ss_roster ss \<or> ro = eliminate_in_roster (sl_player_id sl) (ss_roster ss) \<and> \<not> slot_alive sl"
  shows "session_evolves ss ((set_slot ss i sl)\<lparr>ss_roster := ro\<rparr>)"
proof -
  have "session_wf ((set_slot ss i sl)\<lparr>ss_roster := ro\<rparr>)"
    using assms by (intro session_wf_set_slot) auto
  then show ?thesis using assms(2,4,5) session_wf_slot [OF assms(1,2)]
    by (auto simp: session_evolves_def nth_list_update)
qed

text \<open>Folding a per-slot step over slot indices.\<close>

lemma session_evolves_fold:
  assumes step: "\<And>i ss r. session_wf ss \<Longrightarrow> i < ss_count ss \<Longrightarrow> session_evolves ss (fst (f i (ss, r)))"
    and "session_wf ss" and "\<forall>i \<in> set is. i < ss_count ss"
  shows "session_evolves ss (fst (fold f is (ss, r)))"
  using assms(2,3)
proof (induction "is" arbitrary: ss r)
  case Nil
  then show ?case by (simp add: session_evolves_refl)
next
  case (Cons i "is")
  obtain s1 r1 where f: "f i (ss, r) = (s1, r1)" by (cases "f i (ss, r)")
  have e: "session_evolves ss s1" using step [of ss i r] Cons.prems f by simp
  then have "session_evolves s1 (fst (fold f is (s1, r1)))"
    using Cons by (intro Cons.IH) (auto simp: session_evolves_def)
  then show ?case using e f by (auto intro: session_evolves_trans)
qed

primrec step_n :: "(GameSession \<Rightarrow> rng \<Rightarrow> GameSession \<times> rng) \<Rightarrow> nat \<Rightarrow> GameSession \<Rightarrow> rng \<Rightarrow> GameSession \<times> rng" where
  "step_n step 0 ss r = (ss, r)"
| "step_n step (Suc n) ss r = (let (s1, r1) = step ss r in step_n step n s1 r1)"

locale session_step =
  fixes step :: "GameSession \<Rightarrow> rng \<Rightarrow> GameSession \<times> rng"
  assumes evolves: "session_wf ss \<Longrightarrow> session_evolves ss (fst (step ss r))"
begin

lemma wf: "session_wf ss \<Longrightarrow> session_wf (fst (step ss r))"
  using evolves session_evolves_wf by blast

lemma alive: "session_wf ss \<Longrightarrow> count_alive_players (fst (step ss r)) \<le> count_alive_players ss"
  using evolves session_evolves_alive by blast

lemma run_evolves: "session_wf ss \<Longrightarrow> session_evolves ss (fst (step_n step n ss r))"
proof (induction n arbitrary: ss r)
  case (Suc n)
  obtain s1 r1 where s: "step ss r = (s1, r1)" by (cases "step ss r")
  have e: "session_evolves ss s1" using evolves [OF Suc.prems, of r] s by simp
  then show ?case using Suc.IH [OF session_evolves_wf [OF e], of r1] s by (auto intro: session_evolves_trans)
qed (simp add: session_evolves_refl)

lemma run_alive: "session_wf ss \<Longrightarrow> count_alive_players (fst (step_n step n ss r)) \<le> count_alive_players ss"
  using run_evolves session_evolves_alive by blast

end

text \<open>Two steps, one after the other, are a step.\<close>

locale two_session_steps = first: session_step step1 + second: session_step step2
  for step1 step2 :: "GameSession \<Rightarrow> rng \<Rightarrow> GameSession \<times> rng"
begin

lemma composed: "session_step (\<lambda>ss r. let (s1, r1) = step1 ss r in step2 s1 r1)"
proof
  fix ss r assume w: "session_wf ss"
  obtain s1 r1 where s: "step1 ss r = (s1, r1)" by (cases "step1 ss r")
  have e: "session_evolves ss s1" using first.evolves [OF w, of r] s by simp
  then show "session_evolves ss (fst (let (s1, r1) = step1 ss r in step2 s1 r1))"
    using second.evolves [OF session_evolves_wf [OF e], of r1] s by (auto intro: session_evolves_trans)
qed

end

lemma apply_action_evolves:
  assumes "session_wf ss" and "\<And>i. slot = Some i \<Longrightarrow> i < ss_count ss"
  shows "session_evolves ss (fst (apply_action ss slot a r))"
proof (cases slot)
  case None
  then show ?thesis using assms(1) by (simp add: apply_action_def session_evolves_refl)
next
  case (Some i)
  let ?sl = "ss_players ss ! i"
  have i: "i < ss_count ss" using assms(2) Some by simp
  have sw: "slot_wf ?sl" using session_wf_slot [OF assms(1) i] by simp
  show ?thesis
  proof (cases "slot_alive ?sl \<and> board_action (ss_roster ss) a (sl_state ?sl) r \<noteq> None")
    case True
    then obtain st r' where b: "board_action (ss_roster ss) a (sl_state ?sl) r = Some (st, r')" by auto
    let ?sl2 = "(if a = ACTION_QUIT then ?sl\<lparr>sl_state := st, sl_active := False\<rparr> else ?sl\<lparr>sl_state := st\<rparr>)\<lparr>sl_dirty := True\<rparr>"
    let ?ro = "if a = ACTION_QUIT then eliminate_in_roster (sl_player_id ?sl2) (ss_roster ss) else ss_roster ss"
    have "state_wf st" "gs_player_id st = sl_player_id ?sl"
      using board_action_wf [OF _ b] board_action_id [OF _ b] sw by (auto simp: slot_wf_def)
    then have "session_evolves ss ((set_slot ss i ?sl2)\<lparr>ss_roster := ?ro\<rparr>)"
      using True by (intro session_evolves_set_slot assms(1) i) (auto simp: slot_wf_def slot_alive_def)
    then show ?thesis using True Some b by (auto simp: apply_action_def slot_alive_def Let_def split: if_splits)
  next
    case False
    then have "fst (apply_action ss slot a r) = ss"
      using Some by (auto simp: apply_action_def slot_alive_def Let_def split: option.splits)
    then show ?thesis using assms(1) by (simp add: session_evolves_refl)
  qed
qed

lemma tick_slot_evolves:
  assumes "session_wf ss" and "i < ss_count ss"
  shows "session_evolves ss (fst (tick_slot i (ss, r)))"
proof (cases "slot_alive (ss_players ss ! i)")
  case True
  let ?sl = "ss_players ss ! i"
  have sw: "slot_wf ?sl" using session_wf_slot [OF assms] by simp
  obtain ch st r' where u: "update_timers (sl_state ?sl) r = (ch, st, r')"
    by (cases "update_timers (sl_state ?sl) r") auto
  have st: "state_wf st" "gs_player_id st = sl_player_id ?sl"
    using update_timers_wf [of "sl_state ?sl" r] update_timers_keeps_id [of "sl_state ?sl" r] u sw
    by (auto simp: slot_wf_def)
  let ?sl2 = "if ch \<or> game_over st \<noteq> 0 then ?sl\<lparr>sl_state := st, sl_dirty := True\<rparr> else ?sl\<lparr>sl_state := st\<rparr>"
  let ?ro = "if game_over st \<noteq> 0 then eliminate_in_roster (sl_player_id ?sl2) (ss_roster ss) else ss_roster ss"
  have "session_evolves ss ((set_slot ss i ?sl2)\<lparr>ss_roster := ?ro\<rparr>)"
    using True st by (intro session_evolves_set_slot assms) (auto simp: slot_wf_def slot_alive_def)
  then show ?thesis using True u by (auto simp: tick_slot_def slot_alive_def Let_def split: if_splits)
qed (use assms in \<open>auto simp: tick_slot_def slot_alive_def Let_def session_evolves_refl\<close>)

interpretation tick: session_step tick_session
  by unfold_locales (simp add: tick_session_def session_evolves_fold tick_slot_evolves)

lemma find_player_range: "find_player ss p = Some i \<Longrightarrow> i < ss_count ss \<and> sl_active (ss_players ss ! i) \<and> sl_player_id (ss_players ss ! i) = p"
  by (auto simp: find_player_def find_Some_iff)

text \<open>An input message: the sender's slot is looked up and the action applied to it.\<close>

definition handle_input :: "u32 \<Rightarrow> PlayerAction \<Rightarrow> GameSession \<Rightarrow> rng \<Rightarrow> GameSession \<times> rng" where
  "handle_input sender_id a ss r = apply_action ss (find_player ss sender_id) a r"

interpretation inp: session_step "handle_input p a"
  by unfold_locales (auto simp: handle_input_def find_player_range intro!: apply_action_evolves)

section \<open>Starting a match\<close>

lemma start_game_alive: "game_over (fst (start_game prng now s r)) = 0"
proof -
  obtain b1 b2 r' where "mset b1 = mset seven" "mset b2 = mset seven"
    "start_game prng now s r = spawn_new_piece (zero_state\<lparr>combo := -1, level := 1, bag := b1 @ b2\<rparr>) r'"
    by (rule start_game_bag)
  moreover have "length (b1 @ b2) = 14"
    using mset_eq_length [OF calculation(1)] mset_eq_length [OF calculation(2)] by simp
  ultimately show ?thesis by (simp only:, subst spawn_new_piece_frame) (simp_all add: zero_state_def)
qed

lemma start_game_discards: "start_game prng now s r = start_game prng now s' r'"
  by (simp add: start_game_def srand_def)

text \<open>One player's slot right after \<open>init_slot\<close>.\<close>

definition fresh_slot :: "(u32 \<Rightarrow> rng) \<Rightarrow> u32 \<Rightarrow> u32 \<Rightarrow> PlayerSlot" where
  "fresh_slot prng now pid =
     \<lparr>sl_state = (fst (start_game prng now zero_state (prng 0)))\<lparr>gs_player_id := pid, target_player_id := 0, last_attacker_id := 0\<rparr>,
      sl_player_id = pid, sl_active = True, sl_dirty = True, sl_elim_reported = False, sl_idle_ticks = 0\<rparr>"

lemma fresh_slot_wf [simp]: "slot_wf (fresh_slot prng now pid)" "slot_alive (fresh_slot prng now pid)"
  "sl_player_id (fresh_slot prng now pid) = pid"
  by (simp_all add: fresh_slot_def slot_wf_def slot_alive_def start_game_wf start_game_alive)

abbreviation aim :: "PlayerSlot \<Rightarrow> u32 \<Rightarrow> PlayerSlot" where
  "aim sl p \<equiv> sl\<lparr>sl_state := (sl_state sl)\<lparr>target_player_id := p\<rparr>\<rparr>"

lemma init_slot_fresh:
  assumes "ss_players ss ! i = zero_slot" and "i < length ids"
  shows "fst (init_slot prng now ids i (ss, r)) =
     (set_slot ss i (fresh_slot prng (now i) (ids ! i)))
       \<lparr>ss_roster := (ss_roster ss)\<lparr>ro_ids := (ro_ids (ss_roster ss))[i := ids ! i],
          ro_eliminated := (ro_eliminated (ss_roster ss))[i := False]\<rparr>\<rparr>"
  using assms start_game_discards [of prng "now i" zero_state r zero_state "prng 0"]
  by (simp add: init_slot_def fresh_slot_def zero_slot_def case_prod_beta Let_def)

lemma init_session_one:
  assumes "ids = [a]"
  shows "ss_players (fst (init_session prng now ids 1 r)) = [fresh_slot prng (now 0) a, zero_slot]"
    and "ss_count (fst (init_session prng now ids 1 r)) = 1"
    and "ss_roster (fst (init_session prng now ids 1 r)) = \<lparr>ro_ids = [a, 0], ro_eliminated = [False, False], ro_count = 1\<rparr>"
proof -
  let ?s0 = "zero_session\<lparr>ss_count := 1, ss_roster := (ss_roster zero_session)\<lparr>ro_count := 1\<rparr>\<rparr>"
  obtain s1 r1 where i: "init_slot prng now ids 0 (?s0, r) = (s1, r1)" by (cases "init_slot prng now ids 0 (?s0, r)")
  have s1: "s1 = \<lparr>ss_players = [fresh_slot prng (now 0) a, zero_slot], ss_count = 1,
     ss_roster = \<lparr>ro_ids = [a, 0], ro_eliminated = [False, False], ro_count = 1\<rparr>\<rparr>"
    using init_slot_fresh [of ?s0 0 ids prng now r] assms i by (simp add: zero_session_def eval_nat_numeral)
  have "fst (init_session prng now ids 1 r) = init_target 0 s1"
    using i by (simp add: init_session_def Let_def s1)
  also have "\<dots> = s1" by (simp add: init_target_def s1 Let_def)
  finally show "ss_players (fst (init_session prng now ids 1 r)) = [fresh_slot prng (now 0) a, zero_slot]"
    "ss_count (fst (init_session prng now ids 1 r)) = 1"
    "ss_roster (fst (init_session prng now ids 1 r)) = \<lparr>ro_ids = [a, 0], ro_eliminated = [False, False], ro_count = 1\<rparr>"
    by (simp_all add: s1)
qed

lemma init_session_two:
  assumes "ids = [a, b]" and "a \<noteq> b"
  shows "fst (init_session prng now ids 2 r) =
     \<lparr>ss_players = [aim (fresh_slot prng (now 0) a) b, aim (fresh_slot prng (now 1) b) a], ss_count = 2,
      ss_roster = \<lparr>ro_ids = [a, b], ro_eliminated = [False, False], ro_count = 2\<rparr>\<rparr>"
proof -
  let ?s0 = "zero_session\<lparr>ss_count := 2, ss_roster := (ss_roster zero_session)\<lparr>ro_count := 2\<rparr>\<rparr>"
  obtain s1 r1 where i: "init_slot prng now ids 0 (?s0, r) = (s1, r1)" by (cases "init_slot prng now ids 0 (?s0, r)")
  have s1: "s1 = \<lparr>ss_players = [fresh_slot prng (now 0) a, zero_slot], ss_count = 2,
     ss_roster = \<lparr>ro_ids = [a, 0], ro_eliminated = [False, False], ro_count = 2\<rparr>\<rparr>"
    using init_slot_fresh [of ?s0 0 ids prng now r] assms(1) i by (simp add: zero_session_def eval_nat_numeral)
  obtain s2 r2 where j: "init_slot prng now ids 1 (s1, r1) = (s2, r2)" by (cases "init_slot prng now ids 1 (s1, r1)")
  have s2: "s2 = \<lparr>ss_players = [fresh_slot prng (now 0) a, fresh_slot prng (now 1) b], ss_count = 2,
     ss_roster = \<lparr>ro_ids = [a, b], ro_eliminated = [False, False], ro_count = 2\<rparr>\<rparr>"
    using init_slot_fresh [of s1 1 ids prng now r1] assms(1) j s1 by simp
  have "fst (init_session prng now ids 2 r) = init_target 1 (init_target 0 s2)"
    using i j by (simp add: init_session_def Let_def s2 eval_nat_numeral)
  then show ?thesis using assms(2) by (simp add: init_target_def s2 Let_def eval_nat_numeral)
qed

section \<open>Properties of a match\<close>

text \<open>What happens in a room between two ticks and at a tick, as events.\<close>

datatype match_event = Input u32 PlayerAction | Tick

fun match_step :: "match_event \<Rightarrow> GameSession \<Rightarrow> rng \<Rightarrow> GameSession \<times> rng" where
  "match_step (Input p a) ss r = handle_input p a ss r"
| "match_step Tick ss r = tick_session ss r"

primrec run_match :: "match_event list \<Rightarrow> GameSession \<Rightarrow> rng \<Rightarrow> GameSession \<times> rng" where
  "run_match [] ss r = (ss, r)"
| "run_match (e # es) ss r = (let (s1, r1) = match_step e ss r in run_match es s1 r1)"

interpretation mstep: session_step "match_step e"
  using tick.evolves inp.evolves by unfold_locales (cases e, auto)

lemma run_match_evolves: "session_wf ss \<Longrightarrow> session_evolves ss (fst (run_match es ss r))"
proof (induction es arbitrary: ss r)
  case (Cons e es)
  obtain s1 r1 where s: "match_step e ss r = (s1, r1)" by (cases "match_step e ss r")
  have e: "session_evolves ss s1" using mstep.evolves [OF Cons.prems, of e r] s by simp
  then show ?case using Cons.IH [OF session_evolves_wf [OF e], of r1] s by (auto intro: session_evolves_trans)
qed (simp add: session_evolves_refl)

lemma fresh_session_wf:
  assumes "length ids = n" and "1 \<le> n" and "n \<le> MAX_LOBBY_SIZE" and "distinct ids"
  shows "session_wf (fst (init_session prng now ids n r))"
    and "ss_count (fst (init_session prng now ids n r)) = n"
    and "count_alive_players (fst (init_session prng now ids n r)) = n"
    and "i < n \<Longrightarrow> sl_player_id (ss_players (fst (init_session prng now ids n r)) ! i) = ids ! i"
proof -
  have al: "slot_wf (aim (fresh_slot prng nw p) q)" "slot_alive (aim (fresh_slot prng nw p) q)" for nw p q
    using fresh_slot_wf [of prng nw p] by (auto simp: slot_wf_def slot_alive_def)
  have two: "n = 1 \<or> n = 2" using assms(2,3) by auto
  then have "session_wf (fst (init_session prng now ids n r)) \<and> ss_count (fst (init_session prng now ids n r)) = n
     \<and> count_alive_players (fst (init_session prng now ids n r)) = n
     \<and> (\<forall>i < n. sl_player_id (ss_players (fst (init_session prng now ids n r)) ! i) = ids ! i)"
  proof
    assume n: "n = 1"
    then obtain a where a: "ids = [a]" using assms(1) by (auto simp: length_Suc_conv)
    note o = init_session_one [OF a, of prng now r]
    show ?thesis unfolding n session_wf_def count_alive_players_def o
      by (auto simp: a roster_wf_def)
  next
    assume n: "n = 2"
    then obtain a b where a: "ids = [a, b]" using assms(1) by (auto simp: length_Suc_conv eval_nat_numeral)
    then have ab: "a \<noteq> b" using assms(4) by simp
    show ?thesis unfolding n session_wf_def count_alive_players_def init_session_two [OF a ab]
      using al ab by (auto simp: a roster_wf_def less_Suc_eq eval_nat_numeral)
  qed
  then show "session_wf (fst (init_session prng now ids n r))" "ss_count (fst (init_session prng now ids n r)) = n"
    "count_alive_players (fst (init_session prng now ids n r)) = n"
    "i < n \<Longrightarrow> sl_player_id (ss_players (fst (init_session prng now ids n r)) ! i) = ids ! i" by auto
qed

text \<open>
  C1 (run_match_sound): whatever inputs arrive, from whomever, and however they interleave with ticks,
  a match started for one or two players with distinct ids stays well-formed: every board keeps its
  shape, every active piece, bag and hold slot stays valid, the pending garbage never exceeds 20, the
  roster agrees with the slots and marks only dead players. The players keep their ids, a dead player
  never comes back, and so the number of living players never grows.
\<close>

theorem run_match_sound:
  assumes "length ids = n" and "1 \<le> n" and "n \<le> MAX_LOBBY_SIZE" and "distinct ids"
  shows "let s0 = fst (init_session prng now ids n r0); s1 = fst (run_match es1 s0 r1); s2 = fst (run_match es2 s1 r2)
         in session_wf s2 \<and> ss_count s2 = n
          \<and> (\<forall>i < n. sl_player_id (ss_players s2 ! i) = ids ! i
                  \<and> (slot_alive (ss_players s2 ! i) \<longrightarrow> slot_alive (ss_players s1 ! i)))
          \<and> count_alive_players s2 \<le> count_alive_players s1 \<and> count_alive_players s1 \<le> n"
proof -
  define s0 where "s0 = fst (init_session prng now ids n r0)"
  define s1 where "s1 = fst (run_match es1 s0 r1)"
  note w = fresh_session_wf [OF assms, where prng = prng and now = now and r = r0, folded s0_def]
  have e1: "session_evolves s0 s1" unfolding s1_def by (rule run_match_evolves [OF w(1)])
  have e2: "session_evolves s1 (fst (run_match es2 s1 r2))"
    by (rule run_match_evolves [OF session_evolves_wf [OF e1]])
  show ?thesis unfolding Let_def s0_def [symmetric] s1_def [symmetric]
    using session_evolves_alive [OF e1] session_evolves_alive [OF e2] w e1 e2
    unfolding session_evolves_def by auto
qed

theorem run_match_sound_witness:
  "let s0 = fst (init_session (\<lambda>_. sconst 3) (\<lambda>_. 0) [1, 2] 2 (sconst 0));
       s1 = fst (run_match [Input 1 ACTION_HARD_DROP, Tick] s0 (sconst 1));
       s2 = fst (run_match [Input 2 ACTION_QUIT] s1 (sconst 1))
   in session_wf s2 \<and> count_alive_players s2 \<le> count_alive_players s1 \<and> count_alive_players s1 \<le> 2"
  using run_match_sound [of "[1, 2]" 2 _ _ _ "[Input 1 ACTION_HARD_DROP, Tick]" "sconst 1" "[Input 2 ACTION_QUIT]" "sconst 1"]
  by (simp add: Let_def)

text \<open>
  Lemma (input_isolated): an input message changes at most the slot of the player it names. Every other
  slot of the session is untouched, and a message for a player who is unknown, has left or has topped
  out changes nothing at all.
\<close>

theorem input_isolated:
  "(find_player ss p \<noteq> Some j \<longrightarrow> ss_players (fst (handle_input p a ss r)) ! j = ss_players ss ! j)
   \<and> ((\<forall>i. find_player ss p = Some i \<longrightarrow> \<not> slot_alive (ss_players ss ! i)) \<longrightarrow> handle_input p a ss r = (ss, r))"
  by (auto simp: handle_input_def apply_action_def slot_alive_def Let_def split: option.splits prod.splits)

theorem input_isolated_witness:
  "handle_input 7 ACTION_HARD_DROP zero_session (sconst 0) = (zero_session, sconst 0)"
  using input_isolated [of zero_session 7 0 ACTION_HARD_DROP "sconst 0"] by (simp add: find_player_def zero_session_def)

text \<open>
  Lemma (same_second_same_bags): two players whose boards are started in the same second play the same
  sequence of pieces: \<open>start_game\<close> reseeds the generator with the time, so the two bags and the two
  first pieces are equal, whatever the generator was seeded with before.
\<close>

theorem same_second_same_bags:
  assumes "a \<noteq> b" and "now 0 = now 1"
  shows "let ps = ss_players (fst (init_session prng now [a, b] 2 r))
         in bag (sl_state (ps ! 0)) = bag (sl_state (ps ! 1)) \<and> current (sl_state (ps ! 0)) = current (sl_state (ps ! 1))"
  using assms by (simp add: init_session_two fresh_slot_def Let_def)

theorem same_second_same_bags_witness:
  "let ps = ss_players (fst (init_session (\<lambda>seed. sconst (unat seed)) (\<lambda>_. 1000) [1, 2] 2 (sconst 0)))
   in bag (sl_state (ps ! 0)) = bag (sl_state (ps ! 1))"
  using same_second_same_bags [of 1 2 "\<lambda>_. 1000" "\<lambda>seed. sconst (unat seed)" "sconst 0"] by (simp add: Let_def)

subsection \<open>A death by hard drop is never recorded in the roster\<close>

definition unmarked_dead :: "nat \<Rightarrow> GameSession \<Rightarrow> bool" where
  "unmarked_dead i ss \<longleftrightarrow> session_wf ss \<and> i < ss_count ss \<and> \<not> slot_alive (ss_players ss ! i)
     \<and> \<not> ro_eliminated (ss_roster ss) ! i"

lemma tick_slot_unmarked:
  assumes "unmarked_dead i ss" and "j < ss_count ss"
  shows "unmarked_dead i (fst (tick_slot j (ss, r)))"
proof -
  have w: "session_wf ss" "i < ss_count ss" "\<not> slot_alive (ss_players ss ! i)" "\<not> ro_eliminated (ss_roster ss) ! i"
    using assms(1) by (auto simp: unmarked_dead_def)
  have e: "session_evolves ss (fst (tick_slot j (ss, r)))" by (rule tick_slot_evolves [OF w(1) assms(2)])
  have "\<not> ro_eliminated (ss_roster (fst (tick_slot j (ss, r)))) ! i"
  proof (cases "j = i")
    case True
    then show ?thesis using w(3,4) by (auto simp: tick_slot_def slot_alive_def Let_def)
  next
    case False
    have r: "roster_wf (ss_roster ss)" "i < ro_count (ss_roster ss)" "ro_ids (ss_roster ss) ! i = sl_player_id (ss_players ss ! i)"
      and n: "sl_player_id (ss_players ss ! i) \<noteq> sl_player_id (ss_players ss ! j)"
      using w False assms(2) by (auto simp: session_wf_def distinct_conv_nth)
    then have "\<not> ro_eliminated (eliminate_in_roster (sl_player_id (ss_players ss ! j)) (ss_roster ss)) ! i"
      using w(4) by (simp add: eliminate_nth)
    then show ?thesis using w(4) by (auto simp: tick_slot_def Let_def split: prod.splits if_splits)
  qed
  then show ?thesis using e w by (auto simp: unmarked_dead_def session_evolves_def)
qed

lemma tick_session_unmarked: "unmarked_dead i ss \<Longrightarrow> unmarked_dead i (fst (tick_session ss r))"
proof -
  have "unmarked_dead i (fst (fold tick_slot js (ss, r)))"
    if "unmarked_dead i ss" "\<forall>j \<in> set js. j < ss_count ss" for js ss r
    using that
  proof (induction js arbitrary: ss r)
    case (Cons j js)
    have e: "session_evolves ss (fst (tick_slot j (ss, r)))"
      using Cons.prems by (intro tick_slot_evolves) (auto simp: unmarked_dead_def)
    then show ?case using Cons.IH [of "fst (tick_slot j (ss, r))" "snd (tick_slot j (ss, r))"] Cons.prems
        tick_slot_unmarked [OF Cons.prems(1), of j r] by (auto simp: session_evolves_def)
  qed simp
  then show "unmarked_dead i ss \<Longrightarrow> unmarked_dead i (fst (tick_session ss r))" by (simp add: tick_session_def)
qed

text \<open>
  Lemma (hard_drop_death_unmarked): a player who tops out by a hard drop is dead, but the roster never
  learns it: the action does not mark the player, and \<open>tick_session\<close>, which marks players when it
  sees them top out, skips the dead. However many ticks follow, the player stays unmarked, and so
  remains a target for \<open>cycle_manual_target\<close> and for the local random choice.
\<close>

theorem hard_drop_death_unmarked:
  assumes "session_wf ss" and "find_player ss p = Some i" and "\<not> ro_eliminated (ss_roster ss) ! i"
    and "\<not> slot_alive (ss_players (fst (handle_input p ACTION_HARD_DROP ss r)) ! i)"
  shows "let s = fst (step_n tick_session n (fst (handle_input p ACTION_HARD_DROP ss r)) r')
         in \<not> slot_alive (ss_players s ! i) \<and> \<not> ro_eliminated (ss_roster s) ! i"
proof -
  have i: "i < ss_count ss" using find_player_range [OF assms(2)] by simp
  have e: "session_evolves ss (fst (handle_input p ACTION_HARD_DROP ss r))" by (rule inp.evolves [OF assms(1)])
  have "ss_roster (fst (handle_input p ACTION_HARD_DROP ss r)) = ss_roster ss"
    by (simp add: handle_input_def apply_action_def Let_def split: option.splits prod.splits)
  then have u: "unmarked_dead i (fst (handle_input p ACTION_HARD_DROP ss r))"
    using e i assms(3,4) by (simp add: unmarked_dead_def session_evolves_def)
  have "unmarked_dead i (fst (step_n tick_session n s q))" if "unmarked_dead i s" for s q
    using that
  proof (induction n arbitrary: s q)
    case (Suc n)
    then show ?case using tick_session_unmarked [of i s q] by (simp add: case_prod_beta Let_def)
  qed simp
  with u show ?thesis unfolding unmarked_dead_def Let_def by blast
qed

text \<open>A board filled to the top, with a fresh piece above it.\<close>

definition full_state :: GameState where
  "full_state = zero_state
     \<lparr>board := \<lparr>cells = replicate 20 [1, 1, 1, 1, 1, 1, 1, 1, 1, 0]\<rparr>, current := \<lparr>p_type = 1, p_rot = 0, p_x = 3, p_y = -2\<rparr>,
      gs_player_id := 1, bag := seven @ seven, combo := -1, level := 1\<rparr>"

definition full_session :: GameSession where
  "full_session =
     \<lparr>ss_players = [zero_slot\<lparr>sl_state := full_state, sl_player_id := 1, sl_active := True\<rparr>, zero_slot], ss_count = 1,
      ss_roster = \<lparr>ro_ids = [1, 0], ro_eliminated = [False, False], ro_count = 1\<rparr>\<rparr>"

lemma full_state_wf: "state_wf full_state"
  by (simp add: full_state_def state_wf_def grid_wf_def piece_wf_def piece_type_ok_def rotation_ok_def bag_wf_def zero_state_def)

lemma full_session_wf: "session_wf full_session"
  using full_state_wf
  by (simp add: session_wf_def full_session_def roster_wf_def slot_wf_def zero_slot_def full_state_def)

lemma full_state_blocked: "\<not> is_valid_pos full_state 1 0 3 (-1)"
  by (simp add: full_state_def zero_state_def is_valid_pos_def box4_def get_rotation_index_def tetromino_cell_def
      TETROMINOES_def cell_blocked_def)

lemma full_state_drop: "hard_drop full_state = (0, full_state)" "fst (snd (tick_game full_state r)) = full_state\<lparr>game_over := 1\<rparr>"
proof -
  have c: "p_type (current full_state) = 1" "p_rot (current full_state) = 0" "p_x (current full_state) = 3" "p_y (current full_state) = -2"
    by (simp_all add: full_state_def)
  show "hard_drop full_state = (0, full_state)"
    unfolding hard_drop_def by (subst hard_drop_loop.simps) (simp add: c full_state_blocked)
  show "fst (snd (tick_game full_state r)) = full_state\<lparr>game_over := 1\<rparr>"
    by (simp add: tick_game_def c full_state_blocked)
qed

theorem hard_drop_death_unmarked_witness:
  "let s = fst (step_n tick_session 100 (fst (handle_input 1 ACTION_HARD_DROP full_session (sconst 0))) (sconst 0))
   in \<not> slot_alive (ss_players s ! 0) \<and> \<not> ro_eliminated (ss_roster s) ! 0"
proof (rule hard_drop_death_unmarked)
  have g: "game_over full_state = 0" by (simp add: full_state_def zero_state_def)
  show f: "find_player full_session 1 = Some 0" by (simp add: find_player_def full_session_def)
  show "\<not> slot_alive (ss_players (fst (handle_input 1 ACTION_HARD_DROP full_session (sconst 0))) ! 0)"
    unfolding handle_input_def f
    by (simp add: apply_action_def board_action_def full_session_def g full_state_drop slot_alive_def Let_def case_prod_beta)
qed (simp_all add: full_session_wf, simp add: full_session_def)

end
