(* ===== verification/C_Text.thy ===== *)
theory C_Text
  imports Prelude
begin

text \<open>
  What the sources use of the C library's text functions: \<open>sprintf\<close> and \<open>sscanf\<close> with \<open>%u\<close> and
  \<open>%d\<close>, \<open>strtoul\<close>, \<open>strstr\<close>, \<open>strpbrk\<close>. A C string is the list of the characters before its NUL.
  The number conversions are those of a platform with 64-bit \<open>long\<close>: the digits are read as a
  \<open>long\<close>, clamped at its limits, and cut down to 32 bits.
\<close>

section \<open>Characters and numbers\<close>

definition code :: "char \<Rightarrow> nat" where
  "code c = of_char c"

definition is_digit :: "char \<Rightarrow> bool" where
  "is_digit c \<longleftrightarrow> 48 \<le> code c \<and> code c \<le> 57"

definition is_space :: "char \<Rightarrow> bool" where
  "is_space c \<longleftrightarrow> code c = 32 \<or> (9 \<le> code c \<and> code c \<le> 13)"

definition digit_char :: "nat \<Rightarrow> char" where
  "digit_char n = char_of (48 + n)"

fun dec_nat :: "nat \<Rightarrow> string" where
  "dec_nat n = (if n < 10 then [digit_char n] else dec_nat (n div 10) @ [digit_char (n mod 10)])"

declare dec_nat.simps [simp del]

definition dec_int :: "int \<Rightarrow> string" where
  "dec_int v = (if v < 0 then CHR ''-'' # dec_nat (nat (- v)) else dec_nat (nat v))"

definition digits_value :: "string \<Rightarrow> nat" where
  "digits_value ds = foldl (\<lambda>v c. 10 * v + (code c - 48)) 0 ds"

text \<open>White space, an optional sign, and at least one digit: sign, magnitude, rest of the input.\<close>

definition scan_number :: "string \<Rightarrow> (bool \<times> nat \<times> string) option" where
  "scan_number s0 =
     (let s1 = dropWhile is_space s0;
          neg = (s1 \<noteq> [] \<and> hd s1 = CHR ''-'');
          s2 = (if s1 \<noteq> [] \<and> (hd s1 = CHR ''-'' \<or> hd s1 = CHR ''+'') then tl s1 else s1);
          ds = takeWhile is_digit s2
      in if ds = [] then None else Some (neg, digits_value ds, dropWhile is_digit s2))"

definition to_unsigned :: "bool \<Rightarrow> nat \<Rightarrow> int" where
  "to_unsigned neg n =
     (if n > 2 ^ 64 - 1 then 2 ^ 64 - 1 else if neg then (- int n) mod 2 ^ 64 else int n) mod 2 ^ 32"

definition to_signed :: "bool \<Rightarrow> nat \<Rightarrow> int" where
  "to_signed neg n =
     (let v = (if neg then max (- (2 ^ 63)) (- int n) else min (2 ^ 63 - 1) (int n))
      in (v + 2 ^ 31) mod 2 ^ 32 - 2 ^ 31)"

definition strtoul_u32 :: "string \<Rightarrow> u32" where
  "strtoul_u32 s =
     (case scan_number s of None \<Rightarrow> 0 | Some (neg, n, _) \<Rightarrow> word_of_int (to_unsigned neg n))"

section \<open>Formats\<close>

datatype directive = D_lit char | D_u | D_d

fun parse_format :: "string \<Rightarrow> directive list" where
  "parse_format [] = []"
| "parse_format [c] = [D_lit c]"
| "parse_format (c # t # f) =
     (if c = CHR ''%'' then (if t = CHR ''u'' then D_u else D_d) # parse_format f
      else D_lit c # parse_format (t # f))"

fun print_items :: "directive list \<Rightarrow> int list \<Rightarrow> string" where
  "print_items (D_lit c # ds) vs = c # print_items ds vs"
| "print_items (D_u # ds) (v # vs) = dec_nat (nat (v mod 2 ^ 32)) @ print_items ds vs"
| "print_items (D_d # ds) (v # vs) = dec_int v @ print_items ds vs"
| "print_items _ _ = []"

text \<open>The values stored before the first mismatch; a white-space character matches any run of white space.\<close>

fun scan_items :: "directive list \<Rightarrow> string \<Rightarrow> int list" where
  "scan_items [] s = []"
| "scan_items (D_lit c # ds) s =
     (if is_space c then scan_items ds (dropWhile is_space s)
      else case s of [] \<Rightarrow> [] | x # s' \<Rightarrow> if x = c then scan_items ds s' else [])"
| "scan_items (D_u # ds) s =
     (case scan_number s of None \<Rightarrow> [] | Some (neg, n, s') \<Rightarrow> to_unsigned neg n # scan_items ds s')"
| "scan_items (D_d # ds) s =
     (case scan_number s of None \<Rightarrow> [] | Some (neg, n, s') \<Rightarrow> to_signed neg n # scan_items ds s')"

definition sprintf :: "string \<Rightarrow> int list \<Rightarrow> string" where
  "sprintf fmt vs = print_items (parse_format fmt) vs"

definition sscanf :: "string \<Rightarrow> string \<Rightarrow> int list" where
  "sscanf s fmt = scan_items (parse_format fmt) s"

section \<open>Searching\<close>

text \<open>\<open>strstr\<close>: the text before the first occurrence and the text from it on.\<close>

fun strstr_split :: "string \<Rightarrow> string \<Rightarrow> (string \<times> string) option" where
  "strstr_split s d =
     (if take (length d) s = d then Some ([], s)
      else case s of [] \<Rightarrow> None
           | c # s' \<Rightarrow> (case strstr_split s' d of None \<Rightarrow> None | Some (a, b) \<Rightarrow> Some (c # a, b)))"

declare strstr_split.simps [simp del]

text \<open>\<open>strpbrk(s, accept) != NULL\<close>\<close>

definition strpbrk_found :: "string \<Rightarrow> string \<Rightarrow> bool" where
  "strpbrk_found s accept = list_ex (\<lambda>c. c \<in> set accept) s"

section \<open>Decimal numbers read back\<close>

lemma code_digit_char [simp]: "n < 10 \<Longrightarrow> code (digit_char n) = 48 + n"
  by (simp add: code_def digit_char_def)

lemma is_digit_digit_char [simp]: "n < 10 \<Longrightarrow> is_digit (digit_char n)"
  by (simp add: is_digit_def)

lemma dec_nat_digits: "list_all is_digit (dec_nat n)"
proof (induction n rule: dec_nat.induct)
  case (1 n)
  then show ?case by (subst dec_nat.simps) simp
qed

lemma dec_nat_not_Nil [simp]: "dec_nat n \<noteq> []"
  by (subst dec_nat.simps) simp

lemma digits_value_snoc: "digits_value (ds @ [c]) = 10 * digits_value ds + (code c - 48)"
  by (simp add: digits_value_def)

lemma digits_value_dec_nat [simp]: "digits_value (dec_nat n) = n"
proof (induction n rule: dec_nat.induct)
  case (1 n)
  show ?case
  proof (cases "n < 10")
    case True
    then show ?thesis by (subst dec_nat.simps) (simp add: digits_value_def)
  next
    case False
    then show ?thesis using 1 by (subst dec_nat.simps) (simp add: digits_value_snoc)
  qed
qed

lemma digit_not_space: "is_digit c \<Longrightarrow> \<not> is_space c"
  by (auto simp: is_digit_def is_space_def)

lemma digit_not_sign: "is_digit c \<Longrightarrow> c \<noteq> CHR ''-'' \<and> c \<noteq> CHR ''+''"
  by (auto simp: is_digit_def code_def)

definition stops :: "string \<Rightarrow> bool" where
  "stops rest \<longleftrightarrow> rest = [] \<or> \<not> is_digit (hd rest)"

lemma takeWhile_dec_nat: "stops rest \<Longrightarrow> takeWhile is_digit (dec_nat n @ rest) = dec_nat n \<and> dropWhile is_digit (dec_nat n @ rest) = rest"
  using dec_nat_digits [of n] by (cases rest) (auto simp: stops_def list_all_iff takeWhile_append dropWhile_append)

lemma dec_nat_hd: "is_digit (hd (dec_nat n @ rest))"
  using dec_nat_digits [of n] by (cases "dec_nat n") auto

lemma dropWhile_space_dec: "dropWhile is_space (dec_nat n @ rest) = dec_nat n @ rest"
  using dec_nat_hd [of n rest] digit_not_space by (cases "dec_nat n @ rest") auto

lemma scan_number_dec_nat: "stops rest \<Longrightarrow> scan_number (dec_nat n @ rest) = Some (False, n, rest)"
  using dec_nat_hd [of n rest] digit_not_sign [of "hd (dec_nat n @ rest)"] takeWhile_dec_nat [of rest n]
  by (simp add: scan_number_def dropWhile_space_dec Let_def)

lemma scan_number_minus: "stops rest \<Longrightarrow> scan_number (CHR ''-'' # dec_nat n @ rest) = Some (True, n, rest)"
  using takeWhile_dec_nat [of rest n] by (simp add: scan_number_def Let_def is_space_def code_def)

lemma to_unsigned_small: "n < 2 ^ 32 \<Longrightarrow> to_unsigned False n = int n"
  by (simp add: to_unsigned_def)

lemma to_signed_small: "- (2 ^ 31) \<le> v \<Longrightarrow> v < 2 ^ 31 \<Longrightarrow> to_signed (v < 0) (nat \<bar>v\<bar>) = v"
  by (auto simp: to_signed_def Let_def min_def max_def)

lemma strtoul_dec_nat: "n < 2 ^ 32 \<Longrightarrow> strtoul_u32 (dec_nat n) = of_nat n"
  using scan_number_dec_nat [of "[]" n] by (simp add: strtoul_u32_def stops_def to_unsigned_small)

section \<open>Formats read back\<close>

text \<open>
  A format can be read back when every number is followed by a character that is not a digit, and
  its arguments fit their conversions.
\<close>

fun fmt_ok :: "directive list \<Rightarrow> string \<Rightarrow> bool" where
  "fmt_ok [] rest = True"
| "fmt_ok (D_lit c # ds) rest = fmt_ok ds rest"
| "fmt_ok (D_u # ds) rest = ((case ds of [] \<Rightarrow> stops rest | D_lit c # _ \<Rightarrow> \<not> is_digit c | _ \<Rightarrow> False) \<and> fmt_ok ds rest)"
| "fmt_ok (D_d # ds) rest = ((case ds of [] \<Rightarrow> stops rest | D_lit c # _ \<Rightarrow> \<not> is_digit c | _ \<Rightarrow> False) \<and> fmt_ok ds rest)"

fun args_ok :: "directive list \<Rightarrow> int list \<Rightarrow> bool" where
  "args_ok [] vs = (vs = [])"
| "args_ok (D_lit c # ds) vs = args_ok ds vs"
| "args_ok (D_u # ds) [] = False"
| "args_ok (D_u # ds) (v # vs) = (0 \<le> v \<and> v < 2 ^ 32 \<and> args_ok ds vs)"
| "args_ok (D_d # ds) [] = False"
| "args_ok (D_d # ds) (v # vs) = (- (2 ^ 31) \<le> v \<and> v < 2 ^ 31 \<and> args_ok ds vs)"

lemma print_items_stops:
  assumes "case ds of [] \<Rightarrow> stops rest | D_lit c # _ \<Rightarrow> \<not> is_digit c | _ \<Rightarrow> False"
  shows "stops (print_items ds vs @ rest)"
  using assms by (auto simp: stops_def split: list.splits directive.splits)

lemma scan_number_skips: "scan_number (dropWhile is_space s) = scan_number s"
  by (simp add: scan_number_def)

lemma dropWhile_idem': "dropWhile P (dropWhile P xs) = dropWhile P xs"
  by (induction xs) auto

text \<open>White space consumed by a format character may be consumed early.\<close>

lemma scan_items_skip:
  "fmt_ok ds rest \<Longrightarrow> args_ok ds vs \<Longrightarrow>
   scan_items ds (dropWhile is_space (print_items ds vs @ rest)) = scan_items ds (print_items ds vs @ rest)"
proof (cases ds)
  case (Cons d ds')
  assume "fmt_ok ds rest" "args_ok ds vs"
  then show ?thesis using Cons
    by (cases d; cases vs) (auto simp: scan_number_skips dropWhile_idem')
qed simp

lemma scan_print_items:
  "fmt_ok ds rest \<Longrightarrow> args_ok ds vs \<Longrightarrow> scan_items ds (print_items ds vs @ rest) = vs"
proof (induction ds vs rule: print_items.induct)
  case (1 c ds vs)
  then show ?case using scan_items_skip [of ds rest vs] by auto
next
  case (2 ds v vs)
  have "stops (print_items ds vs @ rest)" using 2 by (intro print_items_stops) simp
  then have "scan_number (dec_nat (nat v) @ print_items ds vs @ rest) = Some (False, nat v, print_items ds vs @ rest)"
    by (rule scan_number_dec_nat)
  then show ?case using 2 to_unsigned_small [of "nat v"] by (simp add: nat_less_iff)
next
  case (3 ds v vs)
  have st: "stops (print_items ds vs @ rest)" using 3 by (intro print_items_stops) simp
  have "scan_number (dec_int v @ print_items ds vs @ rest) = Some (v < 0, nat \<bar>v\<bar>, print_items ds vs @ rest)"
    using scan_number_dec_nat [OF st, of "nat v"] scan_number_minus [OF st, of "nat (- v)"]
    by (auto simp: dec_int_def)
  then show ?case using 3 to_signed_small [of v] by simp
qed auto

lemma sscanf_sprintf:
  "fmt_ok (parse_format fmt) rest \<Longrightarrow> args_ok (parse_format fmt) vs \<Longrightarrow> sscanf (sprintf fmt vs @ rest) fmt = vs"
  by (simp add: sscanf_def sprintf_def scan_print_items)

section \<open>Searching in a concatenation\<close>

lemma strstr_split_here: "strstr_split (d @ b) d = Some ([], d @ b)"
  by (simp add: strstr_split.simps)

lemma strstr_split_first:
  assumes "d = c # d'" and "c \<notin> set a"
  shows "strstr_split (a @ d @ b) d = Some (a, d @ b)"
  using assms(2)
proof (induction a)
  case (Cons x a)
  then show ?case using assms(1) by (subst strstr_split.simps) auto
qed (simp add: strstr_split_here)

lemma strstr_split_append: "strstr_split s d = Some (a, b) \<Longrightarrow> s = a @ b \<and> take (length d) b = d"
proof (induction s arbitrary: a)
  case (Cons x s)
  then show ?case by (subst (asm) strstr_split.simps) (auto split: if_splits option.splits)
qed (auto simp: strstr_split.simps split: if_splits)

end
