(* ===== verification/Hypertext.thy ===== *)
theory Hypertext
  imports C_Text
begin

text \<open>
  \<open>libhypertext.c\<close>: messages of three tokens, headers and a body, and their text form. The parser
  cuts the receive buffer in place by writing NUL bytes over separators; a pointer into the buffer is
  here the text from that position to the separator it will be cut at.

  Accesses that C leaves undefined are results of their own: \<open>HT_OVERRUN\<close> is a write past the header
  array or past the text buffer.
\<close>

section \<open>Messages\<close>

abbreviation (input) MAX_BUF :: nat where "MAX_BUF \<equiv> 2048"
abbreviation (input) MAX_HEADERS :: nat where "MAX_HEADERS \<equiv> 16"

definition HT_END_LINE :: string where
  "HT_END_LINE = [CHR 0x0D, CHR 0x0A]"

abbreviation (input) HT_TOKEN_SEP :: string where "HT_TOKEN_SEP \<equiv> '' ''"
abbreviation (input) HT_HEADER_SEP :: string where "HT_HEADER_SEP \<equiv> '': ''"

record HeaderHT =
  h_field :: string
  h_value :: string

record ParsedMsgHT =
  token1 :: string
  token2 :: string
  token3 :: string
  headers :: "HeaderHT list"
  body :: string

datatype ht_error = HT_FAIL | HT_OVERRUN

section \<open>Parser\<close>

text \<open>\<open>next_token\<close>: the text up to the separator, and the position after it; \<open>None\<close> is NULL.\<close>

definition next_token :: "string \<Rightarrow> string \<Rightarrow> (string \<times> string) option" where
  "next_token s delim =
     (case strstr_split s delim of None \<Rightarrow> None | Some (a, b) \<Rightarrow> Some (a, drop (length delim) b))"

text \<open>
  The loop of \<open>count_headers\<close>: \<open>ptr\<close> is the text from the pointer on, \<open>e\<close> how far the end of the
  section is ahead of it.
\<close>

function count_loop :: "string \<Rightarrow> int \<Rightarrow> nat \<Rightarrow> nat" where
  "count_loop ptr e n =
     (if 0 < e
      then (case strstr_split ptr HT_END_LINE of
              None \<Rightarrow> n
            | Some (a, b) \<Rightarrow> count_loop (drop 2 b) (e - int (length a) - 2) (n + 1))
      else n)"
  by pat_completeness auto
termination by (relation "measure (\<lambda>(ptr, e, n). nat e)") auto

declare count_loop.simps [simp del]

text \<open>Without an end of section the end pointer is NULL and the loop does not run.\<close>

definition count_headers :: "string \<Rightarrow> nat" where
  "count_headers headers_start =
     (case strstr_split headers_start (HT_END_LINE @ HT_END_LINE) of
        None \<Rightarrow> 0
      | Some (a, b) \<Rightarrow> count_loop headers_start (int (length a)) 0)"

primrec parse_headers :: "nat \<Rightarrow> nat \<Rightarrow> string \<Rightarrow> ht_error + (HeaderHT list \<times> string)" where
  "parse_headers 0 i ptr = Inr ([], ptr)"
| "parse_headers (Suc n) i ptr =
     (case next_token ptr HT_HEADER_SEP of
        None \<Rightarrow> Inl HT_FAIL
      | Some (field, ptr1) \<Rightarrow>
          (case next_token ptr1 HT_END_LINE of
             None \<Rightarrow> Inl HT_FAIL
           | Some (value, ptr2) \<Rightarrow>
               if i < MAX_HEADERS
               then (case parse_headers n (Suc i) ptr2 of
                       Inl e \<Rightarrow> Inl e
                     | Inr (hs, ptr3) \<Rightarrow> Inr (\<lparr>h_field = field, h_value = value\<rparr> # hs, ptr3))
               else Inl HT_OVERRUN))"

definition parse_hypertext :: "string \<Rightarrow> ht_error + ParsedMsgHT" where
  "parse_hypertext ht =
     (case next_token ht HT_TOKEN_SEP of
        None \<Rightarrow> Inl HT_FAIL
      | Some (t1, ptr1) \<Rightarrow>
     (case next_token ptr1 HT_TOKEN_SEP of
        None \<Rightarrow> Inl HT_FAIL
      | Some (t2, ptr2) \<Rightarrow>
     (case next_token ptr2 HT_END_LINE of
        None \<Rightarrow> Inl HT_FAIL
      | Some (t3, ptr3) \<Rightarrow>
     (case parse_headers (count_headers ptr3) 0 ptr3 of
        Inl e \<Rightarrow> Inl e
      | Inr (hs, ptr4) \<Rightarrow>
     (case next_token ptr4 HT_END_LINE of
        None \<Rightarrow> Inl HT_FAIL
      | Some (_, bdy) \<Rightarrow>
          Inr \<lparr>token1 = t1, token2 = t2, token3 = t3, headers = hs, body = bdy\<rparr>)))))"

section \<open>Builder\<close>

definition msg_init :: "ParsedMsgHT \<Rightarrow> string \<Rightarrow> string \<Rightarrow> string \<Rightarrow> ParsedMsgHT" where
  "msg_init m t1 t2 t3 = m\<lparr>token1 := t1, token2 := t2, token3 := t3\<rparr>"

definition req_init :: "ParsedMsgHT \<Rightarrow> string \<Rightarrow> string \<Rightarrow> string \<Rightarrow> ParsedMsgHT" where
  "req_init m method path ver = msg_init m method path ver"

definition res_init :: "ParsedMsgHT \<Rightarrow> string \<Rightarrow> string \<Rightarrow> string \<Rightarrow> ParsedMsgHT" where
  "res_init m ver scode reason = msg_init m ver scode reason"

definition illegal_field_chars :: string where
  "illegal_field_chars = [CHR 0x0D, CHR 0x0A, CHR '':'']"

definition illegal_value_chars :: string where
  "illegal_value_chars = [CHR 0x0D, CHR 0x0A]"

definition msg_add_header :: "ParsedMsgHT \<Rightarrow> string \<Rightarrow> string \<Rightarrow> ht_error + ParsedMsgHT" where
  "msg_add_header m field value =
     (if strpbrk_found field illegal_field_chars \<or> strpbrk_found value illegal_value_chars then Inl HT_FAIL
      else if length (headers m) < MAX_HEADERS
      then Inr (m\<lparr>headers := headers m @ [\<lparr>h_field = field, h_value = value\<rparr>]\<rparr>)
      else Inl HT_OVERRUN)"

definition msg_add_body :: "ParsedMsgHT \<Rightarrow> string \<Rightarrow> ht_error + ParsedMsgHT" where
  "msg_add_body m bdy = (if length bdy \<ge> MAX_BUF then Inl HT_FAIL else Inr (m\<lparr>body := bdy\<rparr>))"

section \<open>Conversion\<close>

text \<open>
  \<open>offset += snprintf(buf + offset, MAX_BUF - offset, ...)\<close>: what fits is written, the full length
  is added. With \<open>offset > MAX_BUF\<close> the size argument is negative, which as a \<open>size_t\<close> is no limit.
\<close>

definition snprintf_at :: "string \<times> nat \<Rightarrow> string \<Rightarrow> ht_error + (string \<times> nat)" where
  "snprintf_at bo txt =
     (let (buf, offset) = bo in
      if offset > MAX_BUF then Inl HT_OVERRUN
      else Inr (buf @ take (MAX_BUF - 1 - offset) txt, offset + length txt))"

fun convert_headers :: "HeaderHT list \<Rightarrow> string \<times> nat \<Rightarrow> ht_error + (string \<times> nat)" where
  "convert_headers [] bo = Inr bo"
| "convert_headers (h # hs) bo =
     (if snd bo < MAX_BUF
      then (case snprintf_at bo (h_field h @ '': '' @ h_value h @ HT_END_LINE) of
              Inl e \<Rightarrow> Inl e
            | Inr bo' \<Rightarrow> convert_headers hs bo')
      else Inr bo)"

text \<open>The buffer that results; \<open>HT_FAIL\<close> is the return value -1.\<close>

definition convert_to_hypertext :: "ParsedMsgHT \<Rightarrow> ht_error + string" where
  "convert_to_hypertext m =
     (case snprintf_at ([], 0) (token1 m @ '' '' @ token2 m @ '' '' @ token3 m @ HT_END_LINE) of
        Inl e \<Rightarrow> Inl e
      | Inr bo1 \<Rightarrow>
     (case convert_headers (headers m) bo1 of
        Inl e \<Rightarrow> Inl e
      | Inr bo2 \<Rightarrow>
     (case snprintf_at bo2 (HT_END_LINE @ body m) of
        Inl e \<Rightarrow> Inl e
      | Inr (buf, offset) \<Rightarrow> if offset > MAX_BUF then Inl HT_FAIL else Inr buf)))"

section \<open>The text of a message\<close>

definition header_text :: "HeaderHT \<Rightarrow> string" where
  "header_text h = h_field h @ '': '' @ h_value h"

definition headers_text :: "HeaderHT list \<Rightarrow> string" where
  "headers_text hs = concat (map (\<lambda>h. header_text h @ HT_END_LINE) hs)"

definition message_text :: "ParsedMsgHT \<Rightarrow> string" where
  "message_text m =
     token1 m @ '' '' @ token2 m @ '' '' @ token3 m @ HT_END_LINE @ headers_text (headers m) @ HT_END_LINE @ body m"

lemma end_line_length [simp]: "length HT_END_LINE = 2"
  by (simp add: HT_END_LINE_def)

lemma headers_text_simps [simp]:
  "headers_text [] = []" "headers_text (h # hs) = header_text h @ HT_END_LINE @ headers_text hs"
  by (simp_all add: headers_text_def)

lemma convert_headers_fits:
  "length buf + length (headers_text hs) < MAX_BUF \<Longrightarrow>
   convert_headers hs (buf, length buf) = Inr (buf @ headers_text hs, length buf + length (headers_text hs))"
proof (induction hs arbitrary: buf)
  case (Cons h hs)
  let ?t = "h_field h @ '': '' @ h_value h @ HT_END_LINE"
  have f: "snprintf_at (buf, length buf) ?t = Inr (buf @ ?t, length (buf @ ?t))"
    using Cons.prems by (simp add: snprintf_at_def header_text_def)
  have "convert_headers hs (buf @ ?t, length (buf @ ?t)) = Inr ((buf @ ?t) @ headers_text hs, length (buf @ ?t) + length (headers_text hs))"
    using Cons.prems by (intro Cons.IH) (simp add: header_text_def)
  then show ?case using Cons.prems f by (simp add: header_text_def)
qed simp

lemma convert_fits:
  assumes "length (message_text m) \<le> MAX_BUF"
  shows "convert_to_hypertext m = Inr (take (MAX_BUF - 1) (message_text m))"
proof -
  let ?l = "token1 m @ '' '' @ token2 m @ '' '' @ token3 m @ HT_END_LINE"
  have len: "length ?l + length (headers_text (headers m)) + 2 + length (body m) \<le> MAX_BUF"
    using assms by (simp add: message_text_def)
  have one: "snprintf_at ([], 0) ?l = Inr (?l, length ?l)" using len by (simp add: snprintf_at_def)
  have two: "convert_headers (headers m) (?l, length ?l)
      = Inr (?l @ headers_text (headers m), length ?l + length (headers_text (headers m)))"
    using len by (intro convert_headers_fits) simp
  define A where "A = ?l @ headers_text (headers m)"
  have A: "message_text m = A @ HT_END_LINE @ body m" "length A \<le> MAX_BUF - 1"
    "length A = length ?l + length (headers_text (headers m))"
    using len by (simp_all add: message_text_def A_def)
  then have tk: "take (MAX_BUF - 1) (message_text m) = A @ take (MAX_BUF - 1 - length A) (HT_END_LINE @ body m)"
    by (simp only: take_append take_all)
  have "snprintf_at (A, length A) (HT_END_LINE @ body m)
      = Inr (A @ take (MAX_BUF - 1 - length A) (HT_END_LINE @ body m), length A + length (HT_END_LINE @ body m))"
    using A(2) by (simp add: snprintf_at_def)
  then show ?thesis unfolding convert_to_hypertext_def one sum.case two A_def [symmetric] A(3) [symmetric] tk
    using len A(3) by simp
qed

section \<open>Parsing the text back\<close>

definition no_char :: "char \<Rightarrow> string \<Rightarrow> bool" where
  "no_char c s \<longleftrightarrow> c \<notin> set s"

lemma next_token_first:
  assumes "no_char c a" and "d = c # d'"
  shows "next_token (a @ d @ b) d = Some (a, b)"
  using strstr_split_first [OF assms(2), of a b] assms(1) by (simp add: next_token_def no_char_def)

definition header_legal :: "HeaderHT \<Rightarrow> bool" where
  "header_legal h \<longleftrightarrow> \<not> strpbrk_found (h_field h) illegal_field_chars \<and> \<not> strpbrk_found (h_value h) illegal_value_chars"

lemma header_legal_chars:
  assumes "header_legal h"
  shows "no_char (CHR '':'') (h_field h)" "no_char (CHR 0x0D) (h_value h)" "no_char (CHR 0x0D) (header_text h)"
  using assms unfolding header_legal_def strpbrk_found_def illegal_field_chars_def illegal_value_chars_def
  by (auto simp: no_char_def header_text_def list_ex_iff)

lemma strstr_skip_end_lines:
  assumes "no_char (CHR 0x0D) u"
  shows "strstr_split (u @ s) (HT_END_LINE @ HT_END_LINE)
         = map_option (\<lambda>(a, b). (u @ a, b)) (strstr_split s (HT_END_LINE @ HT_END_LINE))"
  using assms
proof (induction u)
  case (Cons x u)
  then show ?case
    by (subst strstr_split.simps) (auto simp: no_char_def HT_END_LINE_def option.map_comp comp_def case_prod_beta split: option.splits)
qed (simp add: option.map_id)

lemma strstr_skip_one_end_line:
  assumes "s = [] \<or> hd s \<noteq> CHR 0x0D"
  shows "strstr_split (HT_END_LINE @ s) (HT_END_LINE @ HT_END_LINE)
         = map_option (\<lambda>(a, b). (HT_END_LINE @ a, b)) (strstr_split s (HT_END_LINE @ HT_END_LINE))"
proof -
  have 1: "strstr_split (CHR 0x0A # s) (HT_END_LINE @ HT_END_LINE)
      = map_option (\<lambda>(a, b). (CHR 0x0A # a, b)) (strstr_split s (HT_END_LINE @ HT_END_LINE))"
    by (subst strstr_split.simps) (auto simp: HT_END_LINE_def split: option.splits)
  have np: "take (Suc (Suc 0)) s \<noteq> HT_END_LINE"
    using assms by (cases s) (auto simp: HT_END_LINE_def)
  show ?thesis
    using np unfolding HT_END_LINE_def append_Cons append_Nil
    by (subst strstr_split.simps)
       (use 1 in \<open>auto simp: HT_END_LINE_def eval_nat_numeral option.map_comp comp_def case_prod_beta split: option.splits\<close>)
qed

lemma headers_hd: "\<forall>h \<in> set hs. header_legal h \<Longrightarrow> hs \<noteq> [] \<Longrightarrow> headers_text hs @ t \<noteq> [] \<and> hd (headers_text hs @ t) \<noteq> CHR 0x0D"
proof (cases hs)
  case (Cons h hs')
  assume "\<forall>h \<in> set hs. header_legal h"
  then have "no_char (CHR 0x0D) (header_text h)" using header_legal_chars(3) Cons by simp
  moreover have "header_text h \<noteq> []" by (simp add: header_text_def)
  ultimately show ?thesis using Cons by (cases "header_text h") (auto simp: no_char_def)
qed simp

text \<open>The end of the header section is the end of the last header.\<close>

lemma headers_end:
  assumes "\<forall>h \<in> set hs. header_legal h" and "hs \<noteq> []"
  shows "\<exists>a b. strstr_split (headers_text hs @ HT_END_LINE @ t) (HT_END_LINE @ HT_END_LINE) = Some (a, b)
             \<and> length a + 2 = length (headers_text hs)"
  using assms
proof (induction hs)
  case (Cons h hs)
  have h: "no_char (CHR 0x0D) (header_text h)" using Cons.prems header_legal_chars(3) by simp
  show ?case
  proof (cases "hs = []")
    case True
    have "strstr_split ((HT_END_LINE @ HT_END_LINE) @ t) (HT_END_LINE @ HT_END_LINE) = Some ([], (HT_END_LINE @ HT_END_LINE) @ t)"
      by (rule strstr_split_here)
    then show ?thesis using strstr_skip_end_lines [OF h, of "HT_END_LINE @ HT_END_LINE @ t"] True by simp
  next
    case False
    obtain a b where ab: "strstr_split (headers_text hs @ HT_END_LINE @ t) (HT_END_LINE @ HT_END_LINE) = Some (a, b)"
      "length a + 2 = length (headers_text hs)" using Cons False by auto
    have "hd (headers_text hs @ HT_END_LINE @ t) \<noteq> CHR 0x0D" using headers_hd [of hs] Cons.prems False by simp
    then show ?thesis
      using strstr_skip_end_lines [OF h, of "HT_END_LINE @ headers_text hs @ HT_END_LINE @ t"]
        strstr_skip_one_end_line [of "headers_text hs @ HT_END_LINE @ t"] ab by simp
  qed
qed simp

lemma count_loop_headers:
  assumes "\<forall>h \<in> set hs. header_legal h" and "hs \<noteq> []"
  shows "count_loop (headers_text hs @ HT_END_LINE @ t) (int (length (headers_text hs)) - 2) n = n + length hs"
  using assms
proof (induction hs arbitrary: n)
  case (Cons h hs)
  have h: "no_char (CHR 0x0D) (header_text h)" using Cons.prems header_legal_chars(3) by simp
  let ?rest = "headers_text hs @ HT_END_LINE @ t"
  have sp: "strstr_split (header_text h @ HT_END_LINE @ ?rest) HT_END_LINE = Some (header_text h, HT_END_LINE @ ?rest)"
    using h by (intro strstr_split_first [of HT_END_LINE "CHR 0x0D" "[CHR 0x0A]"]) (simp_all add: HT_END_LINE_def no_char_def)
  have pos: "0 < length (header_text h)" by (simp add: header_text_def)
  have d: "drop 2 (HT_END_LINE @ ?rest) = ?rest" by (simp add: HT_END_LINE_def)
  have step: "count_loop (headers_text (h # hs) @ HT_END_LINE @ t) (int (length (headers_text (h # hs))) - 2) n
      = count_loop ?rest (int (length (headers_text hs)) - 2) (n + 1)"
  proof -
    have "0 < int (length (header_text h)) + int (length (headers_text hs))" using pos by linarith
    then show ?thesis using sp d by (subst count_loop.simps) simp
  qed
  show ?case
  proof (cases "hs = []")
    case True
    have "count_loop t' (- 2) k = k" for t' k by (subst count_loop.simps) simp
    then show ?thesis unfolding step using True by simp
  next
    case False
    then show ?thesis unfolding step using Cons.IH [of "n + 1"] Cons.prems by simp
  qed
qed simp

lemma count_headers_text:
  assumes "\<forall>h \<in> set hs. header_legal h" and "hs \<noteq> []"
  shows "count_headers (headers_text hs @ HT_END_LINE @ t) = length hs"
proof -
  obtain a b where a: "strstr_split (headers_text hs @ HT_END_LINE @ t) (HT_END_LINE @ HT_END_LINE) = Some (a, b)"
    "length a + 2 = length (headers_text hs)" using headers_end [OF assms] by blast
  then have e: "int (length a) = int (length (headers_text hs)) - 2" by linarith
  show ?thesis using count_loop_headers [OF assms, of t 0] unfolding count_headers_def a(1) option.case prod.case e by simp
qed

lemma parse_headers_text:
  "\<forall>h \<in> set hs. header_legal h \<Longrightarrow>
   parse_headers (length hs) i (headers_text hs @ t) =
     (if hs = [] \<or> i + length hs \<le> MAX_HEADERS then Inr (hs, t) else Inl HT_OVERRUN)"
proof (induction hs arbitrary: i)
  case (Cons h hs)
  have l: "no_char (CHR '':'') (h_field h)" "no_char (CHR 0x0D) (h_value h)"
    using Cons.prems header_legal_chars by simp_all
  have f: "next_token (headers_text (h # hs) @ t) HT_HEADER_SEP
      = Some (h_field h, h_value h @ HT_END_LINE @ headers_text hs @ t)"
    using next_token_first [OF l(1), of "'': ''" "'' ''" "h_value h @ HT_END_LINE @ headers_text hs @ t"]
    by (simp add: header_text_def)
  have v: "next_token (h_value h @ HT_END_LINE @ headers_text hs @ t) HT_END_LINE = Some (h_value h, headers_text hs @ t)"
    using l(2) by (intro next_token_first [of "CHR 0x0D" _ _ "[CHR 0x0A]"]) (simp_all add: HT_END_LINE_def)
  show ?case using Cons f v by (cases "i < MAX_HEADERS") auto
qed simp

text \<open>The messages the builder can produce from legal parts: no separator where the parser looks for one.\<close>

definition message_legal :: "ParsedMsgHT \<Rightarrow> bool" where
  "message_legal m \<longleftrightarrow> no_char (CHR '' '') (token1 m) \<and> no_char (CHR '' '') (token2 m) \<and> no_char (CHR 0x0D) (token3 m)
     \<and> headers m \<noteq> [] \<and> (\<forall>h \<in> set (headers m). header_legal h)"

lemma parse_message_text:
  assumes "message_legal m"
  shows "parse_hypertext (message_text m) = (if length (headers m) \<le> MAX_HEADERS then Inr m else Inl HT_OVERRUN)"
proof -
  have l: "no_char (CHR '' '') (token1 m)" "no_char (CHR '' '') (token2 m)" "no_char (CHR 0x0D) (token3 m)"
    "headers m \<noteq> []" "\<forall>h \<in> set (headers m). header_legal h" using assms by (auto simp: message_legal_def)
  let ?p3 = "headers_text (headers m) @ HT_END_LINE @ body m"
  let ?p2 = "token3 m @ HT_END_LINE @ ?p3" and ?p1 = "token2 m @ '' '' @ token3 m @ HT_END_LINE @ ?p3"
  have 1: "next_token (message_text m) HT_TOKEN_SEP = Some (token1 m, ?p1)"
    using next_token_first [OF l(1), of "'' ''" "[]" ?p1] by (simp add: message_text_def)
  have 2: "next_token ?p1 HT_TOKEN_SEP = Some (token2 m, ?p2)"
    using next_token_first [OF l(2), of "'' ''" "[]" ?p2] by simp
  have 3: "next_token ?p2 HT_END_LINE = Some (token3 m, ?p3)"
    using l(3) by (intro next_token_first [of "CHR 0x0D" _ _ "[CHR 0x0A]"]) (simp_all add: HT_END_LINE_def)
  have 4: "parse_headers (count_headers ?p3) 0 ?p3 =
      (if length (headers m) \<le> MAX_HEADERS then Inr (headers m, HT_END_LINE @ body m) else Inl HT_OVERRUN)"
    using l(4) parse_headers_text [OF l(5), of 0 "HT_END_LINE @ body m"] count_headers_text [OF l(5,4)] by simp
  have 5: "next_token (HT_END_LINE @ body m) HT_END_LINE = Some ([], body m)"
    by (simp add: next_token_def strstr_split_here)
  show ?thesis unfolding parse_hypertext_def 1 2 3 4 option.case prod.case by (simp add: 5)
qed

lemma hypertext_roundtrip:
  assumes "message_legal m" and "length (headers m) \<le> MAX_HEADERS" and "length (message_text m) < MAX_BUF"
  shows "\<exists>ht. convert_to_hypertext m = Inr ht \<and> parse_hypertext ht = Inr m"
  using assms convert_fits [of m] parse_message_text [of m] by simp

section \<open>Properties\<close>

text \<open>
  Lemma (hypertext_parse_convert): a message with one to sixteen headers that the builder accepts, tokens
  without separators and a text of at most 2047 characters is converted without error, and parsing the
  buffer gives back the message: the same tokens, headers in order, and body, whatever the body holds.
\<close>

theorem hypertext_parse_convert:
  assumes "message_legal m" and "length (headers m) \<le> MAX_HEADERS" and "length (message_text m) \<le> 2047"
  shows "\<exists>ht. convert_to_hypertext m = Inr ht \<and> length ht < MAX_BUF \<and> parse_hypertext ht = Inr m"
  using assms convert_fits [of m] parse_message_text [of m] by simp

theorem hypertext_parse_convert_witness:
  "\<exists>ht. convert_to_hypertext \<lparr>token1 = ''MOVE'', token2 = ''/room/0'', token3 = ''HTTTP/1.0'',
            headers = [\<lparr>h_field = ''Player-Id'', h_value = ''3''\<rparr>], body = ''{a: b}''\<rparr> = Inr ht
        \<and> parse_hypertext ht = Inr \<lparr>token1 = ''MOVE'', token2 = ''/room/0'', token3 = ''HTTTP/1.0'',
            headers = [\<lparr>h_field = ''Player-Id'', h_value = ''3''\<rparr>], body = ''{a: b}''\<rparr>"
  using hypertext_parse_convert [of "\<lparr>token1 = ''MOVE'', token2 = ''/room/0'', token3 = ''HTTTP/1.0'',
            headers = [\<lparr>h_field = ''Player-Id'', h_value = ''3''\<rparr>], body = ''{a: b}''\<rparr>"]
  by (auto simp: message_legal_def header_legal_def no_char_def strpbrk_found_def illegal_field_chars_def
      illegal_value_chars_def message_text_def header_text_def HT_END_LINE_def)

text \<open>
  Lemma (parse_header_overrun): the parser does not bound the number of headers. A well-formed message with
  more than sixteen headers makes it write past the header array.
\<close>

theorem parse_header_overrun:
  assumes "message_legal m" and "length (headers m) > MAX_HEADERS"
  shows "parse_hypertext (message_text m) = Inl HT_OVERRUN"
  using assms parse_message_text [of m] by simp

theorem parse_header_overrun_witness:
  "parse_hypertext (message_text \<lparr>token1 = ''A'', token2 = ''/'', token3 = ''V'',
      headers = replicate 17 \<lparr>h_field = ''F'', h_value = ''v''\<rparr>, body = []\<rparr>) = Inl HT_OVERRUN"
  by (rule parse_header_overrun)
     (simp_all add: message_legal_def header_legal_def no_char_def strpbrk_found_def illegal_field_chars_def illegal_value_chars_def)

text \<open>
  Lemma (convert_drops_last_character): a message whose text fills the buffer exactly is reported as
  converted, but its last character is missing, because the terminating NUL takes its place.
\<close>

theorem convert_drops_last_character:
  assumes "length (message_text m) = MAX_BUF"
  shows "convert_to_hypertext m = Inr (butlast (message_text m))"
  using convert_fits [of m] assms by (simp add: butlast_conv_take)

theorem convert_drops_last_character_witness:
  "convert_to_hypertext \<lparr>token1 = ''A'', token2 = ''/'', token3 = ''V'', headers = [], body = replicate 2039 (CHR ''x'')\<rparr>
   = Inr (butlast (message_text \<lparr>token1 = ''A'', token2 = ''/'', token3 = ''V'', headers = [], body = replicate 2039 (CHR ''x'')\<rparr>))"
  by (rule convert_drops_last_character) (simp add: message_text_def)

end
