(* ===== verification/Payload.thy ===== *)
theory Payload
  imports C_Text Tetris_State
begin

text \<open>
  \<open>libhtttp/payload.c\<close>: the bodies of HTTTP messages, and \<open>libtetrisprotocol/protocol.c\<close>: the
  snapshot of a game state that is sent as one. A decoder that reads into a struct takes the struct's
  previous contents, which stay where the input does not match. The roster decoder walks the text with
  pointers: \<open>None\<close> is a null pointer used by \<open>strstr\<close> arithmetic or a write past the id array.

  Every packer and unpacker is an instance of the locale \<open>codec\<close>.
\<close>

section \<open>Attack, roster and input payloads\<close>

record AttackPayload =
  ap_source :: u32
  ap_target :: u32
  ap_lines :: u32

definition payload_encode_attack :: "AttackPayload \<Rightarrow> string" where
  "payload_encode_attack p =
     sprintf ''{source-player: %u, target-player: %u, lines: %u}'' [uint (ap_source p), uint (ap_target p), uint (ap_lines p)]"

text \<open>Storing the values that \<open>sscanf\<close> converted; what it did not reach keeps its old value.\<close>

definition slot_u32 :: "int list \<Rightarrow> nat \<Rightarrow> u32 \<Rightarrow> u32" where
  "slot_u32 vs i old = (if i < length vs then word_of_int (vs ! i) else old)"

definition slot_i32 :: "int list \<Rightarrow> nat \<Rightarrow> int \<Rightarrow> int" where
  "slot_i32 vs i old = (if i < length vs then vs ! i else old)"

definition payload_decode_attack :: "string \<Rightarrow> AttackPayload \<Rightarrow> AttackPayload" where
  "payload_decode_attack buffer p =
     (let vs = sscanf buffer ''{source-player: %u, target-player: %u, lines: %u}''
      in \<lparr>ap_source = slot_u32 vs 0 (ap_source p), ap_target = slot_u32 vs 1 (ap_target p),
          ap_lines = slot_u32 vs 2 (ap_lines p)\<rparr>)"

record RosterPayload =
  rp_count :: u32
  rp_ids :: "u32 list"

definition payload_encode_roster :: "RosterPayload \<Rightarrow> string" where
  "payload_encode_roster p =
     sprintf ''{count: %u, ids: ['' [uint (rp_count p)]
     @ concat (map (\<lambda>i. sprintf ''%u '' [uint (rp_ids p ! i)]) [0..<unat (rp_count p)])
     @ sprintf '']}'' []"

text \<open>
  The loop over the ids: \<open>i\<close> is the next slot, \<open>n\<close> the number of iterations left. The array has
  the capacity of the list given.
\<close>

primrec decode_ids :: "nat \<Rightarrow> nat \<Rightarrow> string \<Rightarrow> u32 list \<Rightarrow> u32 list option" where
  "decode_ids 0 i ptr ids = Some ids"
| "decode_ids (Suc n) i ptr ids =
     (if i < length ids
      then (let ids' = ids[i := slot_u32 (sscanf ptr ''%u '') 0 (ids ! i)]
            in case strstr_split ptr '' '' of
                 None \<Rightarrow> None
               | Some (a, b) \<Rightarrow> decode_ids n (Suc i) (tl b) ids')
      else None)"

definition payload_decode_roster :: "string \<Rightarrow> RosterPayload \<Rightarrow> RosterPayload option" where
  "payload_decode_roster buffer p =
     (let count = slot_u32 (sscanf buffer ''{count: %u, ids: ['') 0 (rp_count p)
      in case strstr_split buffer ''ids: ['' of
           None \<Rightarrow> None
         | Some (a, b) \<Rightarrow>
             (case decode_ids (unat count) 0 (drop (length ''ids: ['') b) (rp_ids p) of
                None \<Rightarrow> None
              | Some ids \<Rightarrow> Some \<lparr>rp_count = count, rp_ids = ids\<rparr>))"

record InputPayload =
  ip_action :: u32

definition payload_encode_input :: "InputPayload \<Rightarrow> string" where
  "payload_encode_input p = sprintf ''{action-id: %u}'' [uint (ip_action p)]"

definition payload_decode_input :: "string \<Rightarrow> InputPayload \<Rightarrow> InputPayload" where
  "payload_decode_input buffer p =
     (let vs = sscanf buffer ''{action-id: %u}'' in \<lparr>ip_action = slot_u32 vs 0 (ip_action p)\<rparr>)"

section \<open>State payload\<close>

record StatePayload =
  sp_board :: "u8 list list"
  sp_current_type :: u32
  sp_current_rot :: u32
  sp_current_x :: int
  sp_current_y :: int
  sp_next_type :: u32
  sp_preview :: "u32 list"
  sp_held_type :: int
  sp_has_held :: u32
  sp_player_id :: u32
  sp_score :: u32
  sp_level :: u32
  sp_lines_cleared :: u32
  sp_combo :: int
  sp_b2b :: u32
  sp_t_spins :: u32
  sp_tetrises :: u32
  sp_pending_garbage :: u32
  sp_target_player_id :: u32
  sp_target_mode :: u32
  sp_game_over :: u32
  sp_winner_id :: u32

abbreviation (input) STATE_FORMAT :: string where
  "STATE_FORMAT \<equiv> '',%u,%u,%d,%d,%u,%u,%u,%u,%d,%u,%u,%u,%u,%u,%d,%u,%u,%u,%u,%u,%u,%u,%u''"

text \<open>The byte \<open>'0' + cell\<close> as a character, and back.\<close>

definition cell_char :: "u8 \<Rightarrow> char" where
  "cell_char c = char_of (48 + unat c)"

definition char_cell :: "char \<Rightarrow> u8" where
  "char_cell ch = of_nat (code ch) - 48"

definition state_fields :: "StatePayload \<Rightarrow> int list" where
  "state_fields p =
     [uint (sp_current_type p), uint (sp_current_rot p), sp_current_x p, sp_current_y p, uint (sp_next_type p),
      uint (sp_preview p ! 0), uint (sp_preview p ! 1), uint (sp_preview p ! 2),
      sp_held_type p, uint (sp_has_held p),
      uint (sp_player_id p), uint (sp_score p), uint (sp_level p), uint (sp_lines_cleared p), sp_combo p, uint (sp_b2b p),
      uint (sp_t_spins p), uint (sp_tetrises p), uint (sp_pending_garbage p),
      uint (sp_target_player_id p), uint (sp_target_mode p), uint (sp_game_over p), uint (sp_winner_id p)]"

definition payload_encode_state :: "StatePayload \<Rightarrow> string" where
  "payload_encode_state p =
     concat (map (\<lambda>row. map (\<lambda>col. cell_char (sp_board p ! row ! col)) [0..<10]) [0..<20])
     @ sprintf STATE_FORMAT (state_fields p)"

text \<open>
  The board is read by position without looking for the end of the text, and the fields are scanned from
  position 200 on: \<open>None\<close> is a text that ends before its two hundredth character, which the code reads
  past. \<open>decode_state_fields\<close> is what is stored otherwise.
\<close>

definition decode_state_fields :: "string \<Rightarrow> StatePayload \<Rightarrow> StatePayload" where
  "decode_state_fields buffer p =
     (let board = map (\<lambda>row. map (\<lambda>col. char_cell (buffer ! (row * 10 + col))) [0..<10]) [0..<20];
          vs = sscanf (drop 200 buffer) STATE_FORMAT
      in \<lparr>sp_board = board,
          sp_current_type = slot_u32 vs 0 (sp_current_type p), sp_current_rot = slot_u32 vs 1 (sp_current_rot p),
          sp_current_x = slot_i32 vs 2 (sp_current_x p), sp_current_y = slot_i32 vs 3 (sp_current_y p),
          sp_next_type = slot_u32 vs 4 (sp_next_type p),
          sp_preview = [slot_u32 vs 5 (sp_preview p ! 0), slot_u32 vs 6 (sp_preview p ! 1), slot_u32 vs 7 (sp_preview p ! 2)],
          sp_held_type = slot_i32 vs 8 (sp_held_type p), sp_has_held = slot_u32 vs 9 (sp_has_held p),
          sp_player_id = slot_u32 vs 10 (sp_player_id p), sp_score = slot_u32 vs 11 (sp_score p),
          sp_level = slot_u32 vs 12 (sp_level p), sp_lines_cleared = slot_u32 vs 13 (sp_lines_cleared p),
          sp_combo = slot_i32 vs 14 (sp_combo p), sp_b2b = slot_u32 vs 15 (sp_b2b p),
          sp_t_spins = slot_u32 vs 16 (sp_t_spins p), sp_tetrises = slot_u32 vs 17 (sp_tetrises p),
          sp_pending_garbage = slot_u32 vs 18 (sp_pending_garbage p),
          sp_target_player_id = slot_u32 vs 19 (sp_target_player_id p), sp_target_mode = slot_u32 vs 20 (sp_target_mode p),
          sp_game_over = slot_u32 vs 21 (sp_game_over p), sp_winner_id = slot_u32 vs 22 (sp_winner_id p)\<rparr>)"

definition payload_decode_state :: "string \<Rightarrow> StatePayload \<Rightarrow> StatePayload option" where
  "payload_decode_state buffer p = (if length buffer < 200 then None else Some (decode_state_fields buffer p))"

section \<open>Game state and snapshot\<close>

text \<open>
  \<open>protocol.c\<close>. The server's struct is not initialised before it is filled, and \<open>next_type\<close> is never
  assigned, so it keeps whatever the struct held. The conversions to \<open>int32_t\<close> and \<open>uint32_t\<close> of
  \<open>int\<close> fields wrap.
\<close>

definition as_i32 :: "int \<Rightarrow> int" where
  "as_i32 v = sint (word_of_int v :: u32)"

definition bool_u32 :: "bool \<Rightarrow> u32" where
  "bool_u32 b = (if b then 1 else 0)"

definition build_state_payload :: "GameState \<Rightarrow> StatePayload \<Rightarrow> StatePayload" where
  "build_state_payload s p =
     p\<lparr>sp_board := grid s,
       sp_current_type := word_of_int (p_type (current s)), sp_current_rot := word_of_int (p_rot (current s)),
       sp_current_x := as_i32 (p_x (current s)), sp_current_y := as_i32 (p_y (current s)),
       sp_preview := map (\<lambda>i. word_of_int (bag s ! nat ((bag_index s + int i) mod 14))) [0..<3],
       sp_held_type := as_i32 (held_type s), sp_has_held := bool_u32 (has_held s),
       sp_player_id := gs_player_id s, sp_score := word_of_int (score s), sp_level := word_of_int (level s),
       sp_lines_cleared := word_of_int (lines_cleared s), sp_combo := as_i32 (combo s), sp_b2b := bool_u32 (b2b s),
       sp_t_spins := word_of_int (t_spins s), sp_tetrises := word_of_int (tetrises s),
       sp_pending_garbage := pending_garbage s,
       sp_target_player_id := target_player_id s, sp_target_mode := u32_of_target_mode (target_mode s),
       sp_game_over := word_of_int (game_over s), sp_winner_id := gs_winner_id s\<rparr>"

definition apply_state_payload :: "StatePayload \<Rightarrow> GameState \<Rightarrow> GameState" where
  "apply_state_payload p s =
     (set_cells s (sp_board p))
       \<lparr>current := \<lparr>p_type = sint (sp_current_type p), p_rot = sint (sp_current_rot p),
                   p_x = sp_current_x p, p_y = sp_current_y p\<rparr>,
        bag_index := 0, bag := fold (\<lambda>i b. b[i := sint (sp_preview p ! i)]) [0..<3] (bag s),
        held_type := sp_held_type p, has_held := (sp_has_held p \<noteq> 0),
        gs_player_id := sp_player_id p, score := sint (sp_score p), level := sint (sp_level p),
        lines_cleared := sint (sp_lines_cleared p), combo := sp_combo p, b2b := (sp_b2b p \<noteq> 0),
        t_spins := sint (sp_t_spins p), tetrises := sint (sp_tetrises p), pending_garbage := sp_pending_garbage p,
        target_player_id := sp_target_player_id p, target_mode := target_mode_of_u32 (sp_target_mode p),
        game_over := sint (sp_game_over p), gs_winner_id := sp_winner_id p\<rparr>"

section \<open>Packers and unpackers\<close>

lemma uint_u32_bounds: "0 \<le> uint (w :: u32)" "uint (w :: u32) < 4294967296"
  using uint_lt2p [of w] by simp_all

lemma input_codec: "payload_decode_input (payload_encode_input p) q = p"
proof -
  have "sscanf (payload_encode_input p @ []) ''{action-id: %u}'' = [uint (ip_action p)]"
    unfolding payload_encode_input_def
    by (rule sscanf_sprintf) (simp_all add: stops_def is_digit_def code_def uint_u32_bounds)
  then show ?thesis by (cases p) (simp add: payload_decode_input_def slot_u32_def)
qed

lemma attack_codec: "payload_decode_attack (payload_encode_attack p) q = p"
proof -
  have "sscanf (payload_encode_attack p @ []) ''{source-player: %u, target-player: %u, lines: %u}''
        = [uint (ap_source p), uint (ap_target p), uint (ap_lines p)]"
    unfolding payload_encode_attack_def
    by (rule sscanf_sprintf) (simp_all add: stops_def is_digit_def code_def uint_u32_bounds)
  then show ?thesis by (cases p) (simp add: payload_decode_attack_def slot_u32_def)
qed

interpretation input: codec payload_encode_input payload_decode_input "\<lambda>_. True"
  by unfold_locales (rule input_codec)

interpretation attack: codec payload_encode_attack payload_decode_attack "\<lambda>_. True"
  by unfold_locales (rule attack_codec)

section \<open>Roster round trip\<close>

lemma print_u32: "nat (uint (x :: u32) mod 4294967296) = unat x"
proof -
  have "uint x mod 4294967296 = uint x" using uint_u32_bounds [of x] by (intro mod_pos_pos_trivial) auto
  then show ?thesis by simp
qed

lemma sprintf_id: "sprintf ''%u '' [uint (x :: u32)] = dec_nat (unat x) @ '' ''"
  by (simp add: sprintf_def print_u32)

lemma dec_nat_chars: "c \<in> set (dec_nat n) \<Longrightarrow> is_digit c"
  using dec_nat_digits [of n] by (auto simp: list_all_iff)

lemma sscanf_id: "sscanf (sprintf ''%u '' [uint x] @ rest) ''%u '' = [uint (x :: u32)]"
  by (rule sscanf_sprintf) (simp_all add: is_digit_def code_def uint_u32_bounds)

lemma decode_ids_encoded:
  "i + length xs \<le> length ids \<Longrightarrow>
   decode_ids (length xs) i (concat (map (\<lambda>x. sprintf ''%u '' [uint x]) xs) @ rest) ids
     = Some (take i ids @ xs @ drop (i + length xs) ids)"
proof (induction xs arbitrary: i ids)
  case (Cons x xs)
  let ?tail = "concat (map (\<lambda>x. sprintf ''%u '' [uint x]) xs) @ rest"
  have sp: "CHR '' '' \<notin> set (dec_nat (unat x))" using dec_nat_chars by (force simp: is_digit_def code_def)
  have "strstr_split (sprintf ''%u '' [uint x] @ ?tail) '' '' = Some (dec_nat (unat x), '' '' @ ?tail)"
    using strstr_split_first [of "'' ''" "CHR '' ''" "[]" "dec_nat (unat x)" ?tail] sp by (simp add: sprintf_id)
  moreover have "take (Suc i) (ids[i := x]) = take i ids @ [x]" using Cons.prems by (simp add: take_Suc_conv_app_nth)
  ultimately show ?case
    using Cons.IH [of "Suc i" "ids[i := x]"] Cons.prems sscanf_id [of x ?tail]
    by (simp add: slot_u32_def Let_def)
qed simp

lemma decode_ids_overflow: "length ids < i + n \<Longrightarrow> 0 < n \<Longrightarrow> decode_ids n i ptr ids = None"
proof (induction n arbitrary: i ptr ids)
  case (Suc n)
  have "decode_ids n (Suc i) q (ids[i := v]) = None" if "i < length ids" for q v
    using Suc.IH [of "ids[i := v]" "Suc i" q] Suc.prems that by (cases n) simp_all
  then show ?case by (auto simp: Let_def split: option.splits)
qed simp

lemma roster_header: "strstr_split (payload_encode_roster p) ''ids: [''
    = Some (''{count: '' @ dec_nat (unat (rp_count p)) @ '', '',
            ''ids: ['' @ concat (map (\<lambda>i. sprintf ''%u '' [uint (rp_ids p ! i)]) [0..<unat (rp_count p)]) @ '']}'')"
  (is "_ = Some (?a, ''ids: ['' @ ?b)")
proof -
  have e: "payload_encode_roster p = ?a @ ''ids: ['' @ ?b"
    unfolding payload_encode_roster_def sprintf_def [of "''{count: %u, ids: [''"] sprintf_def [of "'']}''"]
    by (simp add: print_u32)
  have "CHR ''i'' \<notin> set ?a" 
    using dec_nat_chars [of "CHR ''i''" "unat (rp_count p)"] by (auto simp: is_digit_def code_def)
  then show ?thesis unfolding e by (rule strstr_split_first [OF refl])
qed

lemma roster_count: "sscanf (payload_encode_roster p) ''{count: %u, ids: ['' = [uint (rp_count p)]"
  unfolding payload_encode_roster_def append_assoc
  by (rule sscanf_sprintf) (simp_all add: is_digit_def code_def uint_u32_bounds)

text \<open>
  A receiver whose array has room for the announced number of ids gets back
  the count and the ids, and keeps what its array held behind them. A receiver whose array is smaller
  than the announced count writes past its end: the count comes from the message and is not checked.
\<close>

lemma roster_decode:
  assumes "unat (rp_count p) \<le> length (rp_ids p)"
  shows "payload_decode_roster (payload_encode_roster p) q =
     (if unat (rp_count p) \<le> length (rp_ids q)
      then Some \<lparr>rp_count = rp_count p,
                 rp_ids = take (unat (rp_count p)) (rp_ids p) @ drop (unat (rp_count p)) (rp_ids q)\<rparr>
      else None)"
proof -
  let ?n = "unat (rp_count p)" and ?xs = "take (unat (rp_count p)) (rp_ids p)"
  have m: "map (\<lambda>i. sprintf ''%u '' [uint (rp_ids p ! i)]) [0..<?n] = map (\<lambda>x. sprintf ''%u '' [uint x]) ?xs"
    using assms by (intro nth_equalityI) auto
  have c: "slot_u32 [uint (rp_count p)] 0 (rp_count q) = rp_count p" by (simp add: slot_u32_def)
  show ?thesis
  proof (cases "?n \<le> length (rp_ids q)")
    case True
    then have "decode_ids (length ?xs) 0 (concat (map (\<lambda>x. sprintf ''%u '' [uint x]) ?xs) @ '']}'') (rp_ids q)
        = Some (take 0 (rp_ids q) @ ?xs @ drop (0 + length ?xs) (rp_ids q))"
      using assms by (intro decode_ids_encoded) simp
    then show ?thesis using True assms
      by (simp add: payload_decode_roster_def roster_header roster_count c m Let_def)
  next
    case False
    then have "decode_ids ?n 0 ptr (rp_ids q) = None" for ptr
      by (intro decode_ids_overflow) simp_all
    then show ?thesis using False
      by (simp add: payload_decode_roster_def roster_header roster_count c m Let_def)
  qed
qed

section \<open>State round trip\<close>

definition i32_ok :: "int \<Rightarrow> bool" where
  "i32_ok v \<longleftrightarrow> - (2 ^ 31) \<le> v \<and> v < 2 ^ 31"

text \<open>
  The snapshots that the text form can carry: a full board whose cells do not overflow the character
  \<open>'0' + cell\<close>, signed fields in range.
\<close>

definition state_payload_ok :: "StatePayload \<Rightarrow> bool" where
  "state_payload_ok p \<longleftrightarrow> grid_wf (sp_board p) \<and> list_all (list_all (\<lambda>c. unat c < 208)) (sp_board p)
     \<and> length (sp_preview p) = 3 \<and> i32_ok (sp_current_x p) \<and> i32_ok (sp_current_y p)
     \<and> i32_ok (sp_held_type p) \<and> i32_ok (sp_combo p)"

lemma char_cell_cell_char: "unat c < 208 \<Longrightarrow> char_cell (cell_char c) = c"
  by (simp add: char_cell_def cell_char_def code_def)

lemma nth_concat_rows:
  "r < n \<Longrightarrow> c < m \<Longrightarrow> (\<And>i. i < n \<Longrightarrow> length (f i) = m) \<Longrightarrow> (concat (map f [0..<n]) @ rest) ! (r * m + c) = f r ! c"
proof (induction n arbitrary: rest)
  case (Suc n)
  have len: "length (concat (map f [0..<k])) = k * m" if "k \<le> n" for k
    using that Suc.prems(3) by (induction k) auto
  show ?case
  proof (cases "r = n")
    case True
    then show ?thesis using Suc.prems len [of n] by (simp add: nth_append)
  next
    case False
    then show ?thesis using Suc.IH [of "f n @ rest"] Suc.prems by simp
  qed
qed simp

lemma length_board_text: "length (concat (map (\<lambda>row. map (\<lambda>col. cell_char (b ! row ! col)) [0..<10]) [0..<20])) = 200"
  by (simp add: length_concat comp_def sum_list_triv)

lemma decode_board:
  assumes "grid_wf b" and "list_all (list_all (\<lambda>c. unat c < 208)) b"
  shows "map (\<lambda>row. map (\<lambda>col. char_cell ((concat (map (\<lambda>row. map (\<lambda>col. cell_char (b ! row ! col)) [0..<10]) [0..<20]) @ rest)
            ! (row * 10 + col))) [0..<10]) [0..<20] = b"
proof (rule nth_equalityI)
  show "length (map (\<lambda>row. map (\<lambda>col. char_cell ((concat (map (\<lambda>row. map (\<lambda>col. cell_char (b ! row ! col)) [0..<10]) [0..<20]) @ rest)
            ! (row * 10 + col))) [0..<10]) [0..<20]) = length b" using assms(1) by (simp add: grid_wf_def)
  fix r assume "r < length (map (\<lambda>row. map (\<lambda>col. char_cell ((concat (map (\<lambda>row. map (\<lambda>col. cell_char (b ! row ! col)) [0..<10]) [0..<20]) @ rest)
            ! (row * 10 + col))) [0..<10]) [0..<20])"
  then have r: "r < 20" by simp
  have len: "length (b ! r) = 10" using grid_wf_row [OF assms(1) r] .
  have "char_cell ((concat (map (\<lambda>row. map (\<lambda>col. cell_char (b ! row ! col)) [0..<10]) [0..<20]) @ rest) ! (r * 10 + c)) = b ! r ! c"
    if "c < 10" for c
  proof -
    have "unat (b ! r ! c) < 208" using assms r that len by (auto simp: grid_wf_def list_all_length)
    then show ?thesis using nth_concat_rows [of r 20 c 10 "\<lambda>row. map (\<lambda>col. cell_char (b ! row ! col)) [0..<10]" rest] r that
      by (simp add: char_cell_cell_char)
  qed
  then have "map (\<lambda>col. char_cell ((concat (map (\<lambda>row. map (\<lambda>col. cell_char (b ! row ! col)) [0..<10]) [0..<20]) @ rest) ! (r * 10 + col))) [0..<10] = b ! r"
    using len by (intro nth_equalityI) simp_all
  then show "map (\<lambda>row. map (\<lambda>col. char_cell ((concat (map (\<lambda>row. map (\<lambda>col. cell_char (b ! row ! col)) [0..<10]) [0..<20]) @ rest)
            ! (row * 10 + col))) [0..<10]) [0..<20] ! r = b ! r" using r by simp
qed

lemma state_fields_scan:
  assumes "state_payload_ok p"
  shows "sscanf (sprintf STATE_FORMAT (state_fields p)) STATE_FORMAT = state_fields p"
proof -
  have "sscanf (sprintf STATE_FORMAT (state_fields p) @ []) STATE_FORMAT = state_fields p"
  proof (rule sscanf_sprintf)
    show "fmt_ok (parse_format STATE_FORMAT) []" by (simp add: stops_def is_digit_def code_def)
    show "args_ok (parse_format STATE_FORMAT) (state_fields p)"
      using assms by (simp add: state_fields_def state_payload_ok_def i32_ok_def uint_u32_bounds)
  qed
  then show ?thesis by simp
qed

lemma list_of_three: "length xs = 3 \<Longrightarrow> xs = [xs ! 0, xs ! 1, xs ! 2]"
  by (auto simp: length_Suc_conv eval_nat_numeral)

text \<open>Whatever the receiver's struct held before, it ends up holding the snapshot.\<close>

lemma state_codec:
  assumes "state_payload_ok p"
  shows "decode_state_fields (payload_encode_state p) q = p"
proof -
  let ?b = "concat (map (\<lambda>row. map (\<lambda>col. cell_char (sp_board p ! row ! col)) [0..<10]) [0..<20])"
  have d: "drop 200 (payload_encode_state p) = sprintf STATE_FORMAT (state_fields p)"
    unfolding payload_encode_state_def using length_board_text [of "sp_board p"] by simp
  have b: "map (\<lambda>row. map (\<lambda>col. char_cell (payload_encode_state p ! (row * 10 + col))) [0..<10]) [0..<20] = sp_board p"
    unfolding payload_encode_state_def using assms by (intro decode_board) (simp_all add: state_payload_ok_def)
  have pv: "sp_preview p = [sp_preview p ! 0, sp_preview p ! 1, sp_preview p ! 2]"
    using assms by (intro list_of_three) (simp add: state_payload_ok_def)
  show ?thesis
    unfolding decode_state_fields_def Let_def d b state_fields_scan [OF assms]
    using pv by (simp add: state_fields_def slot_u32_def slot_i32_def)
qed

interpretation state: codec payload_encode_state decode_state_fields state_payload_ok
  by unfold_locales (rule state_codec)

lemma state_decodes:
  assumes "state_payload_ok p"
  shows "payload_decode_state (payload_encode_state p) q = Some p"
  using state.dec_enc [OF assms] length_board_text [of "sp_board p"]
  by (simp add: payload_decode_state_def payload_encode_state_def del: upt_rec_numeral)

section \<open>The client's mirror\<close>

text \<open>The C \<open>int\<close> fields that a snapshot carries are in the range of their type, cells are below 208.\<close>

definition snapshot_ok :: "GameState \<Rightarrow> bool" where
  "snapshot_ok s \<longleftrightarrow> state_wf s \<and> list_all (list_all (\<lambda>c. unat c < 208)) (grid s)
     \<and> i32_ok (p_x (current s)) \<and> i32_ok (p_y (current s)) \<and> i32_ok (combo s)
     \<and> i32_ok (score s) \<and> i32_ok (level s) \<and> i32_ok (lines_cleared s) \<and> i32_ok (t_spins s)
     \<and> i32_ok (tetrises s) \<and> i32_ok (game_over s)"

lemma as_i32_id: "i32_ok v \<Longrightarrow> as_i32 v = v"
  by (simp add: as_i32_def i32_ok_def int_word_sint)

lemma as_i32_ok: "i32_ok (as_i32 v)"
  using sint_ge [of "word_of_int v :: u32"] sint_lt [of "word_of_int v :: u32"] by (simp add: as_i32_def i32_ok_def)

lemma small_i32_ok: "piece_type_ok t \<Longrightarrow> i32_ok t" "rotation_ok t \<Longrightarrow> i32_ok t" "t = 0 \<or> piece_type_ok t \<Longrightarrow> i32_ok t"
  by (auto simp: piece_type_ok_def rotation_ok_def i32_ok_def)

lemma build_state_payload_ok:
  assumes "snapshot_ok s"
  shows "state_payload_ok (build_state_payload s p)"
  using assms by (auto simp: state_payload_ok_def build_state_payload_def snapshot_ok_def state_wf_def as_i32_ok)

lemma target_mode_roundtrip: "target_mode_of_u32 (u32_of_target_mode m) = m" if "\<forall>w. m = TARGET_OTHER w \<longrightarrow> w \<notin> {0, 1, 2}"
  using that by (cases m) (auto simp: target_mode_of_u32_def)

lemma apply_build:
  assumes "snapshot_ok s"
  shows "let m = apply_state_payload (build_state_payload s p) c
         in grid m = grid s \<and> current m = current s \<and> held_type m = held_type s \<and> has_held m = has_held s
          \<and> score m = score s \<and> level m = level s \<and> lines_cleared m = lines_cleared s \<and> combo m = combo s
          \<and> b2b m = b2b s \<and> t_spins m = t_spins s \<and> tetrises m = tetrises s \<and> pending_garbage m = pending_garbage s
          \<and> gs_player_id m = gs_player_id s \<and> target_player_id m = target_player_id s
          \<and> game_over m = game_over s \<and> gs_winner_id m = gs_winner_id s"
proof -
  have w: "state_wf s" using assms by (simp add: snapshot_ok_def)
  have k: "as_i32 (p_type (current s)) = p_type (current s)" "as_i32 (p_rot (current s)) = p_rot (current s)"
    "as_i32 (held_type s) = held_type s"
    using w small_i32_ok by (auto simp: state_wf_def piece_wf_def as_i32_id)
  have j: "as_i32 (p_x (current s)) = p_x (current s)" "as_i32 (p_y (current s)) = p_y (current s)"
    "as_i32 (combo s) = combo s" "as_i32 (score s) = score s" "as_i32 (level s) = level s"
    "as_i32 (lines_cleared s) = lines_cleared s" "as_i32 (t_spins s) = t_spins s" "as_i32 (tetrises s) = tetrises s"
    "as_i32 (game_over s) = game_over s"
    using assms by (auto simp: snapshot_ok_def intro!: as_i32_id)
  have "current (apply_state_payload (build_state_payload s p) c) = current s"
    using k j by (simp add: apply_state_payload_def build_state_payload_def as_i32_def)
  then show ?thesis
    using k j by (simp add: apply_state_payload_def build_state_payload_def as_i32_def [symmetric] bool_u32_def Let_def)
qed

text \<open>
  The client's mirror shows the server's board. When the server flattens a
  well-formed state, encodes it as text, and the client decodes the text and applies it to its own
  state, the board, the falling piece, the hold box, every counter of the dashboard, the target and the
  outcome are those of the server, and the three preview slots hold the next three pieces of the
  server's bag; this holds whatever the client's state and the decode buffer held before.
\<close>

lemma snapshot_mirrors:
  assumes "snapshot_ok s" and "3 \<le> length (bag c)"
  shows "let m = apply_state_payload (the (payload_decode_state (payload_encode_state (build_state_payload s p)) q)) c
         in grid m = grid s \<and> current m = current s \<and> held_type m = held_type s \<and> has_held m = has_held s
          \<and> score m = score s \<and> level m = level s \<and> lines_cleared m = lines_cleared s \<and> combo m = combo s
          \<and> b2b m = b2b s \<and> t_spins m = t_spins s \<and> tetrises m = tetrises s \<and> pending_garbage m = pending_garbage s
          \<and> gs_player_id m = gs_player_id s \<and> target_player_id m = target_player_id s
          \<and> game_over m = game_over s \<and> gs_winner_id m = gs_winner_id s
          \<and> bag_index m = 0 \<and> take 3 (bag m) = map (\<lambda>i. bag s ! nat ((bag_index s + int i) mod 14)) [0..<3]"
proof -
  let ?p = "build_state_payload s p"
  have d: "the (payload_decode_state (payload_encode_state ?p) q) = ?p"
    by (simp add: state_decodes [OF build_state_payload_ok [OF assms(1)]])
  have w: "bag_wf (bag s) (bag_index s)" using assms(1) by (simp add: snapshot_ok_def state_wf_def)
  have "as_i32 (bag s ! nat ((bag_index s + int i) mod 14)) = bag s ! nat ((bag_index s + int i) mod 14)" for i
    by (intro as_i32_id small_i32_ok bag_wf_nth [OF w]) simp_all
  then have "map (\<lambda>i. sint (sp_preview ?p ! i)) [0..<3] = map (\<lambda>i. bag s ! nat ((bag_index s + int i) mod 14)) [0..<3]"
    by (simp add: build_state_payload_def as_i32_def)
  moreover have "bag (apply_state_payload ?p c) = fold (\<lambda>i b. b[i := sint (sp_preview ?p ! i)]) [0..<3] (bag c)"
    by (simp add: apply_state_payload_def)
  then have "bag (apply_state_payload ?p c) = map (\<lambda>i. sint (sp_preview ?p ! i)) [0..<3] @ drop 3 (bag c)"
    using fold_update_upt [OF assms(2)] by simp
  ultimately have "take 3 (bag (apply_state_payload ?p c)) = map (\<lambda>i. bag s ! nat ((bag_index s + int i) mod 14)) [0..<3]"
    by simp
  moreover have "bag_index (apply_state_payload ?p c) = 0" by (simp add: apply_state_payload_def)
  ultimately show ?thesis using apply_build [OF assms(1), of p c] unfolding Let_def d by blast
qed

definition sample_state :: GameState where
  "sample_state = zero_state\<lparr>current := \<lparr>p_type = 3, p_rot = 1, p_x = -1, p_y = 5\<rparr>, bag := seven @ seven, bag_index := 6,
     held_type := 7, combo := -1, level := 2, score := 300, pending_garbage := 4, gs_player_id := 9\<rparr>"

lemma sample_state_ok: "snapshot_ok sample_state"
  by (simp add: snapshot_ok_def sample_state_def state_wf_def zero_state_def zero_cells_def grid_wf_def piece_wf_def
      piece_type_ok_def rotation_ok_def bag_wf_def i32_ok_def list_all_iff)

end
