(* ===== verification/Htttp.thy ===== *)
theory Htttp
  imports Hypertext Payload
begin

text \<open>
  \<open>libhtttp.c\<close>: the HTTTP methods and header fields, the builders of the four kinds of request and the
  extraction of method, player and body from a parsed request. The date that \<open>get_date_str\<close> obtains
  from the clock is an argument, the text that \<open>strftime\<close> produced.
\<close>

section \<open>Methods and fields\<close>

datatype MethodHTTTP = UNKNOWN | REQ_MOVE | REQ_DROP | REQ_ROTATE | REQ_STATE | REQ_ATTACK | REQ_ACTION | REQ_ROSTER

definition HTTTP_METHODS :: "(string \<times> MethodHTTTP) list" where
  "HTTTP_METHODS = [(''MOVE'', REQ_MOVE), (''DROP'', REQ_DROP), (''ROTATE'', REQ_ROTATE), (''STATE'', REQ_STATE),
     (''ATTACK'', REQ_ATTACK), (''ACTION'', REQ_ACTION), (''ROSTER'', REQ_ROSTER)]"

definition htttp_headers :: "string list" where
  "htttp_headers = [''Content-Length'', ''Content-Type'', ''Player-Id'', ''Date'']"

text \<open>A NULL string is \<open>None\<close>.\<close>

definition string_to_method :: "string option \<Rightarrow> MethodHTTTP" where
  "string_to_method so =
     (case so of
        None \<Rightarrow> UNKNOWN
      | Some s \<Rightarrow> (case List.find (\<lambda>(t, m). s = t) HTTTP_METHODS of None \<Rightarrow> UNKNOWN | Some (t, m) \<Rightarrow> m))"

definition is_legal_method :: "string option \<Rightarrow> bool" where
  "is_legal_method so \<longleftrightarrow> string_to_method so \<noteq> UNKNOWN"

definition method_to_string :: "MethodHTTTP \<Rightarrow> string option" where
  "method_to_string v =
     (if v = UNKNOWN then None
      else (case List.find (\<lambda>(t, m). v = m) HTTTP_METHODS of None \<Rightarrow> None | Some (t, m) \<Rightarrow> Some t))"

definition is_legal_header_field :: "string option \<Rightarrow> bool" where
  "is_legal_header_field so = (case so of None \<Rightarrow> False | Some s \<Rightarrow> list_ex (\<lambda>h. s = h) htttp_headers)"

section \<open>Requests\<close>

abbreviation (input) CURRENT_VER :: string where "CURRENT_VER \<equiv> ''HTTTP/1.0''"

definition and_then :: "'e + 'a \<Rightarrow> ('a \<Rightarrow> 'e + 'b) \<Rightarrow> 'e + 'b" where
  "and_then r f = (case r of Inl e \<Rightarrow> Inl e | Inr x \<Rightarrow> f x)"

text \<open>The builders ignore the return value of \<open>msg_add_header\<close> and \<open>msg_add_body\<close>.\<close>

definition ignoring :: "ParsedMsgHT \<Rightarrow> ht_error + ParsedMsgHT \<Rightarrow> ht_error + ParsedMsgHT" where
  "ignoring m r = (case r of Inl HT_FAIL \<Rightarrow> Inr m | _ \<Rightarrow> r)"

text \<open>
  The body that the four builders share. A NULL method prints as \<open>(null)\<close> when it is converted.
\<close>

definition build_request :: "MethodHTTTP \<Rightarrow> string \<Rightarrow> string \<Rightarrow> u32 \<Rightarrow> string \<Rightarrow> ParsedMsgHT \<Rightarrow> ht_error + ParsedMsgHT" where
  "build_request method content_type bdy pid date m0 =
     (let m1 = m0\<lparr>token1 := (case method_to_string method of None \<Rightarrow> ''(null)'' | Some s \<Rightarrow> s),
                  token2 := sprintf ''/room/%u/player/%u'' [0, uint pid], token3 := CURRENT_VER\<rparr> in
      and_then (ignoring m1 (msg_add_header m1 ''Player-Id'' (sprintf ''%u'' [uint pid]))) (\<lambda>m2.
      and_then (ignoring m2 (msg_add_header m2 ''Content-Type'' content_type)) (\<lambda>m3.
      and_then (ignoring m3 (msg_add_header m3 ''Date'' date)) (\<lambda>m4.
      and_then (ignoring m4 (msg_add_body m4 bdy)) (\<lambda>m5.
      ignoring m5 (msg_add_header m5 ''Content-Length'' (sprintf ''%u'' [int (length bdy)])))))))"

definition req_create_action :: "u32 \<Rightarrow> MethodHTTTP \<Rightarrow> InputPayload \<Rightarrow> string \<Rightarrow> ParsedMsgHT \<Rightarrow> ht_error + ParsedMsgHT" where
  "req_create_action pid method p date m =
     build_request method ''application/input-payload'' (payload_encode_input p) pid date m"

definition req_create_state :: "u32 \<Rightarrow> StatePayload \<Rightarrow> string \<Rightarrow> ParsedMsgHT \<Rightarrow> ht_error + ParsedMsgHT" where
  "req_create_state pid p date m =
     build_request REQ_STATE ''application/state-payload'' (payload_encode_state p) pid date m"

definition req_create_attack :: "u32 \<Rightarrow> AttackPayload \<Rightarrow> string \<Rightarrow> ParsedMsgHT \<Rightarrow> ht_error + ParsedMsgHT" where
  "req_create_attack pid p date m =
     build_request REQ_ATTACK ''application/state-payload'' (payload_encode_attack p) pid date m"

definition req_create_roster :: "u32 \<Rightarrow> RosterPayload \<Rightarrow> string \<Rightarrow> ParsedMsgHT \<Rightarrow> ht_error + ParsedMsgHT" where
  "req_create_roster pid p date m =
     build_request REQ_ROSTER ''application/roster-payload'' (payload_encode_roster p) pid date m"

definition req_extract_info :: "ParsedMsgHT \<Rightarrow> MethodHTTTP \<times> u32 \<times> string" where
  "req_extract_info m =
     (string_to_method (Some (token1 m)),
      (case List.find (\<lambda>h. h_field h = ''Player-Id'') (headers m) of None \<Rightarrow> 0 | Some h \<Rightarrow> strtoul_u32 (h_value h)),
      body m)"

text \<open>A message struct after \<open>= {0}\<close>.\<close>

definition zero_msg :: ParsedMsgHT where
  "zero_msg = \<lparr>token1 = [], token2 = [], token3 = [], headers = [], body = []\<rparr>"

section \<open>Methods are read back\<close>

lemma method_roundtrip: "m \<noteq> UNKNOWN \<Longrightarrow> string_to_method (method_to_string m) = m"
  by (cases m) (simp_all add: string_to_method_def method_to_string_def HTTTP_METHODS_def)

lemma string_to_method_known:
  "string_to_method (Some s) \<noteq> UNKNOWN \<longleftrightarrow> s \<in> set (map fst HTTTP_METHODS)"
  by (auto simp: string_to_method_def HTTTP_METHODS_def)

section \<open>Length of printed numbers\<close>

lemma dec_nat_length: "n < 10 ^ k \<Longrightarrow> 0 < k \<Longrightarrow> length (dec_nat n) \<le> k"
proof (induction k arbitrary: n)
  case (Suc k)
  show ?case
  proof (cases "n < 10")
    case True
    then show ?thesis by (subst dec_nat.simps) simp
  next
    case False
    then have "0 < k" using Suc.prems by (cases k) auto
    moreover have "n div 10 < 10 ^ k" using Suc.prems by (auto simp: less_mult_imp_div_less)
    ultimately have "length (dec_nat (n div 10)) \<le> k" by (rule Suc.IH [rotated])
    then show ?thesis using False by (subst dec_nat.simps) simp
  qed
qed simp

lemma dec_u32_length: "n < 2 ^ 32 \<Longrightarrow> length (dec_nat n) \<le> 10"
  by (rule dec_nat_length) simp_all

primrec item_cost :: "directive \<Rightarrow> nat" where
  "item_cost (D_lit c) = 1"
| "item_cost D_u = 10"
| "item_cost D_d = 11"

lemma print_items_length: "args_ok ds vs \<Longrightarrow> length (print_items ds vs) \<le> sum_list (map item_cost ds)"
proof (induction ds vs rule: print_items.induct)
  case (2 ds v vs)
  have "length (dec_nat (nat (v mod 2 ^ 32))) \<le> 10" by (rule dec_u32_length) (simp add: nat_less_iff)
  then show ?case using 2 by simp
next
  case (3 ds v vs)
  have "length (dec_int v) \<le> 11"
  proof -
    have "nat v < 2 ^ 32" "nat (- v) < 2 ^ 32" using 3 by auto
    then show ?thesis using dec_u32_length [of "nat v"] dec_u32_length [of "nat (- v)"]
      unfolding dec_int_def by auto
  qed
  then show ?case using 3 by simp
qed auto

lemma sprintf_length: "args_ok (parse_format fmt) vs \<Longrightarrow> length (sprintf fmt vs) \<le> sum_list (map item_cost (parse_format fmt))"
  by (simp add: sprintf_def print_items_length)

section \<open>A request arrives as it was sent\<close>

lemma sprintf_u32: "sprintf ''%u'' [uint (x :: u32)] = dec_nat (unat x)"
  by (simp add: sprintf_def print_u32)

lemma sprintf_len: "n < 2 ^ 32 \<Longrightarrow> sprintf ''%u'' [int n] = dec_nat n"
  by (simp add: sprintf_def)

lemma dec_nat_legal: "no_char (CHR 0x0D) (dec_nat n)" "no_char (CHR 0x0A) (dec_nat n)" "no_char (CHR '' '') (dec_nat n)"
  using dec_nat_chars [of "CHR 0x0D" n] dec_nat_chars [of "CHR 0x0A" n] dec_nat_chars [of "CHR '' ''" n]
  by (auto simp: no_char_def is_digit_def code_def)

definition value_legal :: "string \<Rightarrow> bool" where
  "value_legal v \<longleftrightarrow> no_char (CHR 0x0D) v \<and> no_char (CHR 0x0A) v"

lemma value_legal_iff: "strpbrk_found v illegal_value_chars \<longleftrightarrow> \<not> value_legal v"
  by (auto simp: strpbrk_found_def illegal_value_chars_def value_legal_def no_char_def list_ex_iff)

definition request_headers :: "string \<Rightarrow> string \<Rightarrow> u32 \<Rightarrow> string \<Rightarrow> HeaderHT list" where
  "request_headers ctype bdy pid date =
     [\<lparr>h_field = ''Player-Id'', h_value = dec_nat (unat pid)\<rparr>, \<lparr>h_field = ''Content-Type'', h_value = ctype\<rparr>,
      \<lparr>h_field = ''Date'', h_value = date\<rparr>, \<lparr>h_field = ''Content-Length'', h_value = dec_nat (length bdy)\<rparr>]"

lemma and_then_Inr [simp]: "and_then (Inr x) f = f x"
  by (simp add: and_then_def)

lemma add_header_ok:
  "\<not> strpbrk_found f illegal_field_chars \<Longrightarrow> value_legal v \<Longrightarrow> length (headers m) < MAX_HEADERS \<Longrightarrow>
   ignoring m' (msg_add_header m f v) = Inr (m\<lparr>headers := headers m @ [\<lparr>h_field = f, h_value = v\<rparr>]\<rparr>)"
  by (simp add: ignoring_def msg_add_header_def value_legal_iff)

lemma add_body_ok: "length bdy < MAX_BUF \<Longrightarrow> ignoring m' (msg_add_body m bdy) = Inr (m\<lparr>body := bdy\<rparr>)"
  by (simp add: ignoring_def msg_add_body_def)

lemma build_request_eq:
  assumes "value_legal ctype" and "value_legal date" and "length bdy < MAX_BUF" and "method_to_string meth = Some ms"
  shows "build_request meth ctype bdy pid date zero_msg
     = Inr \<lparr>token1 = ms, token2 = sprintf ''/room/%u/player/%u'' [0, uint pid], token3 = CURRENT_VER,
            headers = request_headers ctype bdy pid date, body = bdy\<rparr>"
proof -
  have d: "value_legal (dec_nat n)" for n using dec_nat_legal by (simp add: value_legal_def)
  have f: "\<not> strpbrk_found ''Player-Id'' illegal_field_chars" "\<not> strpbrk_found ''Content-Type'' illegal_field_chars"
    "\<not> strpbrk_found ''Date'' illegal_field_chars" "\<not> strpbrk_found ''Content-Length'' illegal_field_chars"
    by (simp_all add: strpbrk_found_def illegal_field_chars_def)
  have l: "sprintf ''%u'' [int (length bdy)] = dec_nat (length bdy)" using assms(3) by (intro sprintf_len) simp
  show ?thesis
    unfolding build_request_def sprintf_u32 l Let_def
    using assms d f by (simp add: add_header_ok add_body_ok zero_msg_def request_headers_def)
qed

lemma method_text: "method_to_string meth = Some ms \<Longrightarrow> no_char (CHR '' '') ms \<and> length ms \<le> 6 \<and> string_to_method (Some ms) = meth"
proof -
  assume m: "method_to_string meth = Some ms"
  then have u: "meth \<noteq> UNKNOWN" by (auto simp: method_to_string_def)
  with m obtain mm where "List.find (\<lambda>(t, m). meth = m) HTTTP_METHODS = Some (ms, mm)"
    by (auto simp: method_to_string_def split: option.splits)
  then have "(ms, mm) \<in> set HTTTP_METHODS" by (metis find_Some_iff nth_mem)
  then have "ms \<in> set (map fst HTTTP_METHODS)" by force
  moreover have "\<forall>s \<in> set (map fst HTTTP_METHODS). no_char (CHR '' '') s \<and> length s \<le> 6"
    by (simp add: HTTTP_METHODS_def no_char_def)
  ultimately show ?thesis using method_roundtrip [OF u] m by auto
qed

lemma path_text:
  "no_char (CHR '' '') (sprintf ''/room/%u/player/%u'' [0, uint (pid :: u32)]) \<and> length (sprintf ''/room/%u/player/%u'' [0, uint pid]) \<le> 40"
proof
  have "sprintf ''/room/%u/player/%u'' [0, uint pid] = ''/room/'' @ dec_nat 0 @ ''/player/'' @ dec_nat (unat pid)"
    by (simp add: sprintf_def print_u32)
  then show "no_char (CHR '' '') (sprintf ''/room/%u/player/%u'' [0, uint pid])"
    using dec_nat_legal(3) by (simp add: no_char_def)
  show "length (sprintf ''/room/%u/player/%u'' [0, uint pid]) \<le> 40"
    using sprintf_length [of "''/room/%u/player/%u''" "[0, uint pid]"] by (simp add: uint_u32_bounds)
qed

text \<open>
  The chain every message takes: built, converted to text, parsed by the receiver, and taken apart.
\<close>

lemma request_roundtrip:
  assumes "value_legal ctype" and "length ctype \<le> 30" and "value_legal date" and "length date < 30"
    and "length bdy \<le> 1500" and "method_to_string meth = Some ms"
  shows "\<exists>m ht. build_request meth ctype bdy pid date zero_msg = Inr m \<and> convert_to_hypertext m = Inr ht
            \<and> parse_hypertext ht = Inr m \<and> req_extract_info m = (meth, pid, bdy)"
proof -
  let ?m = "\<lparr>token1 = ms, token2 = sprintf ''/room/%u/player/%u'' [0, uint pid], token3 = CURRENT_VER,
            headers = request_headers ctype bdy pid date, body = bdy\<rparr>"
  have b: "build_request meth ctype bdy pid date zero_msg = Inr ?m"
    using assms by (intro build_request_eq) simp_all
  have "value_legal (dec_nat n)" for n using dec_nat_legal by (simp add: value_legal_def)
  then have hs: "\<forall>h \<in> set (request_headers ctype bdy pid date). header_legal h"
    using assms(1,3) unfolding request_headers_def header_legal_def value_legal_iff
    by (simp add: strpbrk_found_def illegal_field_chars_def)
  have "request_headers ctype bdy pid date \<noteq> []" by (simp add: request_headers_def)
  then have legal: "message_legal ?m"
    using hs method_text [OF assms(6)] path_text [of pid] by (simp add: message_legal_def no_char_def)
  have u: "unat pid < 2 ^ 32" by (rule order_less_le_trans [OF unsigned_less]) simp
  have lens: "length (dec_nat (unat pid)) \<le> 10" "length (dec_nat (length bdy)) \<le> 10"
    using u assms(5) by (intro dec_u32_length, simp)+
  have "length (message_text ?m) < MAX_BUF"
    using lens assms(2,4,5) method_text [OF assms(6)] path_text [of pid]
    by (simp add: message_text_def request_headers_def header_text_def)
  then have "\<exists>ht. convert_to_hypertext ?m = Inr ht \<and> parse_hypertext ht = Inr ?m"
    using legal by (intro hypertext_roundtrip) (simp_all add: request_headers_def)
  moreover have "req_extract_info ?m = (meth, pid, bdy)"
    using method_text [OF assms(6)] strtoul_dec_nat [OF u] by (simp add: req_extract_info_def request_headers_def)
  ultimately show ?thesis using b by blast
qed

section \<open>Properties\<close>

text \<open>Bodies are short enough for the buffer.\<close>

lemma body_lengths:
  "length (payload_encode_input p) \<le> 100" "length (payload_encode_attack a) \<le> 100"
  using sprintf_length [of "''{action-id: %u}''" "[uint (ip_action p)]"]
    sprintf_length [of "''{source-player: %u, target-player: %u, lines: %u}''" "[uint (ap_source a), uint (ap_target a), uint (ap_lines a)]"]
  by (simp_all add: payload_encode_input_def payload_encode_attack_def uint_u32_bounds)

lemma state_body_length: "state_payload_ok p \<Longrightarrow> length (payload_encode_state p) \<le> 500"
  using sprintf_length [of STATE_FORMAT "state_fields p"] length_board_text [of "sp_board p"]
  by (simp add: payload_encode_state_def state_fields_def state_payload_ok_def i32_ok_def uint_u32_bounds)

lemma roster_text_length:
  assumes "unat (rp_count p) \<le> 100"
  shows "length (payload_encode_roster p) \<le> 1500"
proof -
  have "length (sprintf ''%u '' [uint (rp_ids p ! i)]) \<le> 11" for i
    using sprintf_length [of "''%u ''" "[uint (rp_ids p ! i)]"] by (simp add: uint_u32_bounds)
  then have "length (concat (map (\<lambda>i. sprintf ''%u '' [uint (rp_ids p ! i)]) xs)) \<le> 11 * length xs" for xs
    by (induction xs) (auto simp: add_mono)
  from this [of "[0..<unat (rp_count p)]"] assms show ?thesis
    using sprintf_length [of "''{count: %u, ids: [''" "[uint (rp_count p)]"] sprintf_length [of "'']}''" "[]"]
    by (simp add: payload_encode_roster_def uint_u32_bounds)
qed

lemma content_types:
  "value_legal ''application/input-payload''" "value_legal ''application/state-payload''"
  by (simp_all add: value_legal_def no_char_def)

text \<open>
  The two mappings between methods and their names are inverse to each
  other on the known methods, and every other text, as well as a missing one, maps to \<open>UNKNOWN\<close>.
\<close>

lemma method_string_roundtrip:
  "(m \<noteq> UNKNOWN \<longrightarrow> string_to_method (method_to_string m) = m)
   \<and> (\<forall>s. string_to_method (Some s) \<noteq> UNKNOWN \<longrightarrow> method_to_string (string_to_method (Some s)) = Some s)
   \<and> string_to_method None = UNKNOWN \<and> method_to_string UNKNOWN = None
   \<and> (s \<notin> set (map fst HTTTP_METHODS) \<longrightarrow> string_to_method (Some s) = UNKNOWN)"
proof -
  have "method_to_string (string_to_method (Some s)) = Some s" if "string_to_method (Some s) \<noteq> UNKNOWN" for s
  proof -
    have "s \<in> set (map fst HTTTP_METHODS)" using that string_to_method_known by blast
    then have "s \<in> {''MOVE'', ''DROP'', ''ROTATE'', ''STATE'', ''ATTACK'', ''ACTION'', ''ROSTER''}"
      unfolding HTTTP_METHODS_def by simp
    then show ?thesis by (elim insertE emptyE; hypsubst) (simp_all add: string_to_method_def method_to_string_def HTTTP_METHODS_def)
  qed
  then show ?thesis using method_roundtrip string_to_method_known [of s]
    by (auto simp: string_to_method_def method_to_string_def)
qed

text \<open>
  The four kinds of request, from the builder to the decoded payload. The date text has at most 29
  characters and no line break, as \<open>strftime\<close> yields it with the format of \<open>get_date_str\<close>.
\<close>

lemma action_message_chain:
  assumes "value_legal date" and "length date < 30"
  shows "\<exists>m ht bdy. req_create_action pid REQ_ACTION p date zero_msg = Inr m \<and> convert_to_hypertext m = Inr ht
            \<and> parse_hypertext ht = Inr m \<and> req_extract_info m = (REQ_ACTION, pid, bdy)
            \<and> (\<forall>q. payload_decode_input bdy q = p)"
proof -
  have "method_to_string REQ_ACTION = Some ''ACTION''" by (simp add: method_to_string_def HTTTP_METHODS_def)
  then obtain m ht where "build_request REQ_ACTION ''application/input-payload'' (payload_encode_input p) pid date zero_msg = Inr m"
    "convert_to_hypertext m = Inr ht" "parse_hypertext ht = Inr m" "req_extract_info m = (REQ_ACTION, pid, payload_encode_input p)"
    using request_roundtrip [of "''application/input-payload''" date "payload_encode_input p" REQ_ACTION "''ACTION''" pid]
      assms body_lengths(1) [of p] content_types by auto
  then show ?thesis using input.dec_enc [of p] by (auto simp: req_create_action_def)
qed

lemma state_message_chain:
  assumes "state_payload_ok p" and "value_legal date" and "length date < 30"
  shows "\<exists>m ht bdy. req_create_state pid p date zero_msg = Inr m \<and> convert_to_hypertext m = Inr ht
            \<and> parse_hypertext ht = Inr m \<and> req_extract_info m = (REQ_STATE, pid, bdy)
            \<and> (\<forall>q. payload_decode_state bdy q = Some p)"
proof -
  have "method_to_string REQ_STATE = Some ''STATE''" by (simp add: method_to_string_def HTTTP_METHODS_def)
  then obtain m ht where "build_request REQ_STATE ''application/state-payload'' (payload_encode_state p) pid date zero_msg = Inr m"
    "convert_to_hypertext m = Inr ht" "parse_hypertext ht = Inr m" "req_extract_info m = (REQ_STATE, pid, payload_encode_state p)"
    using request_roundtrip [of "''application/state-payload''" date "payload_encode_state p" REQ_STATE "''STATE''" pid]
      assms state_body_length [OF assms(1)] content_types by auto
  then show ?thesis using state_decodes [OF assms(1)] by (auto simp: req_create_state_def)
qed

lemma attack_message_chain:
  assumes "value_legal date" and "length date < 30"
  shows "\<exists>m ht bdy. req_create_attack pid p date zero_msg = Inr m \<and> convert_to_hypertext m = Inr ht
            \<and> parse_hypertext ht = Inr m \<and> req_extract_info m = (REQ_ATTACK, pid, bdy)
            \<and> (\<forall>q. payload_decode_attack bdy q = p)"
proof -
  have "method_to_string REQ_ATTACK = Some ''ATTACK''" by (simp add: method_to_string_def HTTTP_METHODS_def)
  then obtain m ht where "build_request REQ_ATTACK ''application/state-payload'' (payload_encode_attack p) pid date zero_msg = Inr m"
    "convert_to_hypertext m = Inr ht" "parse_hypertext ht = Inr m" "req_extract_info m = (REQ_ATTACK, pid, payload_encode_attack p)"
    using request_roundtrip [of "''application/state-payload''" date "payload_encode_attack p" REQ_ATTACK "''ATTACK''" pid]
      assms body_lengths(2) [of p] content_types by auto
  then show ?thesis using attack.dec_enc [of p] by (auto simp: req_create_attack_def)
qed

lemma roster_message_chain:
  assumes "length (payload_encode_roster p) \<le> 1500" and "value_legal date" and "length date < 30"
  shows "\<exists>m ht. req_create_roster pid p date zero_msg = Inr m \<and> convert_to_hypertext m = Inr ht
            \<and> parse_hypertext ht = Inr m \<and> req_extract_info m = (REQ_ROSTER, pid, payload_encode_roster p)"
proof -
  have "method_to_string REQ_ROSTER = Some ''ROSTER''" by (simp add: method_to_string_def HTTTP_METHODS_def)
  then obtain m ht where "build_request REQ_ROSTER ''application/roster-payload'' (payload_encode_roster p) pid date zero_msg = Inr m"
    "convert_to_hypertext m = Inr ht" "parse_hypertext ht = Inr m" "req_extract_info m = (REQ_ROSTER, pid, payload_encode_roster p)"
    using request_roundtrip [of "''application/roster-payload''" date "payload_encode_roster p" REQ_ROSTER "''ROSTER''" pid]
      assms by (auto simp: value_legal_def no_char_def)
  then show ?thesis by (auto simp: req_create_roster_def)
qed

end
