(* ===== verification/Room.thy ===== *)
theory Room
  imports Game Htttp
begin

text \<open>
  \<open>tetrisd/hub.h\<close>, \<open>hub.c\<close> and \<open>room.c\<close>: the control channel between master and workers, and the
  worker that runs one room. What a worker sends is collected in order: messages to the master, and
  texts to all its clients. The clock text of a message, the stale contents of the decode and snapshot
  structs, and the messages that arrive during a tick are arguments.
\<close>

section \<open>The hub channel\<close>

abbreviation (input) MAX_ROOMS :: nat where "MAX_ROOMS \<equiv> 32"
abbreviation (input) HUB_MAX_PLAYERS :: nat where "HUB_MAX_PLAYERS \<equiv> 64"

record HubAttack =
  ha_attacker :: u32
  ha_victim :: u32
  ha_lines :: u32

record HubRoster =
  hr_count :: nat
  hr_ids :: "u32 list"
  hr_alive :: "bool list"

datatype HubMsg = HUB_READY | HUB_JOINED u32 | HUB_ATTACK HubAttack | HUB_ELIMINATED u32 | HUB_FEED HubAttack
  | HUB_START u32 | HUB_GARBAGE HubAttack | HUB_ROSTER HubRoster | HUB_GAMEOVER u32

text \<open>The results of \<open>hub_send\<close> and \<open>hub_recv\<close> from those of \<open>send\<close> and \<open>recv\<close>.\<close>

definition hub_send_result :: "int \<Rightarrow> int \<Rightarrow> int" where
  "hub_send_result struct_size sent = (if sent = struct_size then 0 else -1)"

definition hub_recv_result :: "int \<Rightarrow> int \<Rightarrow> bool \<Rightarrow> int" where
  "hub_recv_result struct_size got would_block = (if got = struct_size then 1 else if got < 0 \<and> would_block then 0 else -1)"

section \<open>Worker state\<close>

datatype room_out = To_master HubMsg | To_clients "ht_error + string"

record RoomState =
  rm_session :: GameSession
  rm_global :: HubRoster
  rm_match_over :: bool
  rm_winner_id :: u32
  rm_out :: "room_out list"

definition emit :: "room_out list \<Rightarrow> RoomState \<Rightarrow> RoomState" where
  "emit os rs = rs\<lparr>rm_out := rm_out rs @ os\<rparr>"

text \<open>\<open>broadcast_feed\<close>: one attack for the kill feeds of this room.\<close>

definition broadcast_feed :: "string \<Rightarrow> u32 \<Rightarrow> u32 \<Rightarrow> u32 \<Rightarrow> room_out" where
  "broadcast_feed date source target lines =
     To_clients (and_then (req_create_attack source \<lparr>ap_source = source, ap_target = target, ap_lines = lines\<rparr> date zero_msg)
                   convert_to_hypertext)"

text \<open>\<open>queue_garbage\<close> on a slot, as both kinds of attack do it.\<close>

definition hit_slot :: "nat \<Rightarrow> u32 \<Rightarrow> u32 \<Rightarrow> GameSession \<Rightarrow> GameSession" where
  "hit_slot v attacker_id lines ss =
     (let sl = ss_players ss ! v
      in set_slot ss v (sl\<lparr>sl_state := (queue_garbage (sl_state sl) (sint lines))\<lparr>last_attacker_id := attacker_id\<rparr>,
                          sl_dirty := True\<rparr>))"

definition apply_remote_garbage :: "string \<Rightarrow> HubAttack \<Rightarrow> RoomState \<Rightarrow> RoomState" where
  "apply_remote_garbage date a rs =
     (let ss = rm_session rs in
      case find_player ss (ha_victim a) of
        None \<Rightarrow> rs
      | Some v \<Rightarrow>
          if game_over (sl_state (ss_players ss ! v)) \<noteq> 0 then rs
          else emit [broadcast_feed date (ha_attacker a) (ha_victim a) (ha_lines a)]
                 (rs\<lparr>rm_session := hit_slot v (ha_attacker a) (ha_lines a) ss\<rparr>))"

text \<open>Picking the victim, in the whole match for the random and retaliation modes.\<close>

definition global_candidates :: "HubRoster \<Rightarrow> u32 \<Rightarrow> u32 list" where
  "global_candidates g me =
     map (\<lambda>i. hr_ids g ! i)
       (filter (\<lambda>i. hr_ids g ! i \<noteq> me \<and> hr_alive g ! i) [0..<min (hr_count g) HUB_MAX_PLAYERS])"

definition resolve_victim :: "GameSession \<Rightarrow> PlayerSlot \<Rightarrow> HubRoster \<Rightarrow> rng \<Rightarrow> u32 \<times> rng" where
  "resolve_victim ss attacker g r =
     (let s = sl_state attacker; candidates = global_candidates g (sl_player_id attacker) in
      if hr_count g > 0 \<and> target_mode s = TARGET_RANDOM \<and> candidates \<noteq> []
      then (let (v, r') = rand r in (candidates ! (unat (of_nat v :: u32) mod length candidates), r'))
      else if hr_count g > 0 \<and> target_mode s = TARGET_KO \<and> last_attacker_id s \<noteq> 0
              \<and> last_attacker_id s \<noteq> sl_player_id attacker
              \<and> list_ex (\<lambda>i. hr_ids g ! i = last_attacker_id s \<and> hr_alive g ! i) [0..<min (hr_count g) HUB_MAX_PLAYERS]
      then (last_attacker_id s, r)
      else resolve_target_id s (ss_roster ss) r)"

section \<open>One iteration of the tick loop\<close>

text \<open>
  (1) A message from a client; \<open>stale\<close> is the uninitialised input payload. A text with more headers than the array of the parsed message holds is written past
  its end, which is undefined: \<open>None\<close>. Any other text that cannot be parsed is dropped.
\<close>

definition client_request :: "InputPayload \<Rightarrow> ParsedMsgHT \<Rightarrow> GameSession \<Rightarrow> rng \<Rightarrow> GameSession \<times> rng" where
  "client_request stale parsed ss r =
     (let (method, sender_id, bdy) = req_extract_info parsed in
      if method = REQ_ACTION
      then handle_input sender_id (action_of_u32 (ip_action (payload_decode_input bdy stale))) ss r
      else (ss, r))"

definition handle_client_msg :: "InputPayload \<Rightarrow> string \<Rightarrow> GameSession \<Rightarrow> rng \<Rightarrow> (GameSession \<times> rng) option" where
  "handle_client_msg stale buffer ss r =
     (case parse_hypertext buffer of
        Inl HT_OVERRUN \<Rightarrow> None
      | Inl HT_FAIL \<Rightarrow> Some (ss, r)
      | Inr parsed \<Rightarrow> Some (client_request stale parsed ss r))"

abbreviation (input) MAX_MSGS_PER_TICK :: nat where "MAX_MSGS_PER_TICK \<equiv> 64"

fun handle_texts :: "InputPayload \<Rightarrow> string list \<Rightarrow> GameSession \<times> rng \<Rightarrow> (GameSession \<times> rng) option" where
  "handle_texts stale [] sr = Some sr"
| "handle_texts stale (m # ms) sr =
     (case handle_client_msg stale m (fst sr) (snd sr) of None \<Rightarrow> None | Some sr' \<Rightarrow> handle_texts stale ms sr')"

definition drain_clients :: "InputPayload \<Rightarrow> string list \<Rightarrow> GameSession \<Rightarrow> rng \<Rightarrow> (GameSession \<times> rng) option" where
  "drain_clients stale msgs ss r = handle_texts stale (take MAX_MSGS_PER_TICK msgs) (ss, r)"

text \<open>(2) A message from the master.\<close>

definition handle_room_hub :: "string \<Rightarrow> HubMsg \<Rightarrow> RoomState \<Rightarrow> RoomState" where
  "handle_room_hub date msg rs =
     (case msg of
        HUB_GARBAGE a \<Rightarrow> apply_remote_garbage date a rs
      | HUB_FEED a \<Rightarrow> emit [broadcast_feed date (ha_attacker a) (ha_victim a) (ha_lines a)] rs
      | HUB_ROSTER g \<Rightarrow> rs\<lparr>rm_global := g\<rparr>
      | HUB_GAMEOVER w \<Rightarrow> rs\<lparr>rm_winner_id := w, rm_match_over := True\<rparr>
      | _ \<Rightarrow> rs)"

text \<open>(3) Eliminations are reported to the master once.\<close>

definition report_slot :: "nat \<Rightarrow> RoomState \<Rightarrow> RoomState" where
  "report_slot i rs =
     (let sl = ss_players (rm_session rs) ! i in
      if (game_over (sl_state sl) \<noteq> 0 \<or> \<not> sl_active sl) \<and> \<not> sl_elim_reported sl
      then emit [To_master (HUB_ELIMINATED (sl_player_id sl))]
             (rs\<lparr>rm_session := set_slot (rm_session rs) i (sl\<lparr>sl_elim_reported := True\<rparr>)\<rparr>)
      else rs)"

definition report_eliminations :: "RoomState \<Rightarrow> RoomState" where
  "report_eliminations rs = fold report_slot [0..<ss_count (rm_session rs)] rs"

text \<open>(4) The garbage of this tick is sent on.\<close>

definition route_slot :: "string \<Rightarrow> nat \<Rightarrow> RoomState \<times> rng \<Rightarrow> RoomState \<times> rng" where
  "route_slot date i rr =
     (let (rs, r) = rr; ss = rm_session rs; at = ss_players ss ! i; lines = outgoing_garbage (sl_state at) in
      if lines = 0 then (rs, r)
      else let at' = at\<lparr>sl_state := (sl_state at)\<lparr>outgoing_garbage := 0\<rparr>\<rparr>;
               ss1 = set_slot ss i at';
               (victim_id, r1) = resolve_victim ss1 at' (rm_global rs) r;
               attack = \<lparr>ha_attacker = sl_player_id at, ha_victim = victim_id, ha_lines = lines\<rparr>;
               feed = [broadcast_feed date (sl_player_id at) victim_id lines, To_master (HUB_FEED attack)];
               rs1 = rs\<lparr>rm_session := ss1\<rparr>
           in (case find_player ss1 victim_id of
                 Some v \<Rightarrow>
                   if v \<noteq> i \<and> game_over (sl_state (ss_players ss1 ! v)) = 0
                   then (emit feed (rs1\<lparr>rm_session := hit_slot v (sl_player_id at) lines ss1\<rparr>), r1)
                   else (rs1, r1)
               | None \<Rightarrow>
                   if victim_id \<noteq> 0 \<and> victim_id \<noteq> sl_player_id at
                   then (emit (To_master (HUB_ATTACK attack) # feed) rs1, r1)
                   else (rs1, r1)))"

definition route_garbage :: "string \<Rightarrow> RoomState \<Rightarrow> rng \<Rightarrow> RoomState \<times> rng" where
  "route_garbage date rs r = fold (route_slot date) [0..<ss_count (rm_session rs)] (rs, r)"

text \<open>(5) Snapshots of changed boards, and of every board after \<open>KEEPALIVE_TICKS\<close> quiet ticks.\<close>

abbreviation (input) KEEPALIVE_TICKS :: int where "KEEPALIVE_TICKS \<equiv> 50"

definition state_message :: "string \<Rightarrow> StatePayload \<Rightarrow> PlayerSlot \<Rightarrow> ht_error + string" where
  "state_message date stale sl =
     and_then (req_create_state (sl_player_id sl) (build_state_payload (sl_state sl) stale) date zero_msg) convert_to_hypertext"

definition push_slot :: "string \<Rightarrow> StatePayload \<Rightarrow> nat \<Rightarrow> RoomState \<Rightarrow> RoomState" where
  "push_slot date stale i rs =
     (let ss = rm_session rs; sl = ss_players ss ! i in
      if \<not> sl_dirty sl \<and> sl_idle_ticks sl < KEEPALIVE_TICKS
      then rs\<lparr>rm_session := set_slot ss i (sl\<lparr>sl_idle_ticks := sl_idle_ticks sl + 1\<rparr>)\<rparr>
      else emit [To_clients (state_message date stale sl)]
             (rs\<lparr>rm_session := set_slot ss i (sl\<lparr>sl_dirty := False, sl_idle_ticks := 0\<rparr>)\<rparr>))"

definition push_states :: "string \<Rightarrow> StatePayload \<Rightarrow> RoomState \<Rightarrow> RoomState" where
  "push_states date stale rs = fold (push_slot date stale) [0..<ss_count (rm_session rs)] rs"

text \<open>
  The rest of an iteration after the client messages: \<open>hubs\<close> are the messages of the master, \<open>gone\<close> says that the channel to it is closed.
\<close>

definition room_tick :: "string \<Rightarrow> StatePayload \<Rightarrow> HubMsg list \<Rightarrow> bool \<Rightarrow> RoomState \<Rightarrow> rng \<Rightarrow> RoomState \<times> rng" where
  "room_tick date stale_st hubs gone rs1 r1 =
     (let rs2 = fold (handle_room_hub date) hubs rs1;
          rs3 = (if gone then rs2\<lparr>rm_match_over := True\<rparr> else rs2)
      in if rm_match_over rs3 then (rs3, r1)
         else let (s4, r4) = tick_session (rm_session rs3) r1;
                  rs5 = report_eliminations (rs3\<lparr>rm_session := s4\<rparr>);
                  (rs6, r6) = route_garbage date rs5 r4
              in (push_states date stale_st rs6, r6))"

text \<open>The whole iteration: \<open>msgs\<close> are the client messages waiting.\<close>

definition room_iteration ::
  "string \<Rightarrow> InputPayload \<Rightarrow> StatePayload \<Rightarrow> string list \<Rightarrow> HubMsg list \<Rightarrow> bool \<Rightarrow> RoomState \<Rightarrow> rng \<Rightarrow> (RoomState \<times> rng) option" where
  "room_iteration date stale_in stale_st msgs hubs gone rs r =
     (case drain_clients stale_in msgs (rm_session rs) r of
        None \<Rightarrow> None
      | Some (s1, r1) \<Rightarrow> Some (room_tick date stale_st hubs gone (rs\<lparr>rm_session := s1\<rparr>) r1))"

text \<open>After the loop: every slot still active is finished and gets a last snapshot.\<close>

definition finish_slot :: "string \<Rightarrow> StatePayload \<Rightarrow> nat \<Rightarrow> RoomState \<Rightarrow> RoomState" where
  "finish_slot date stale i rs =
     (let ss = rm_session rs; sl = ss_players ss ! i in
      if \<not> sl_active sl then rs
      else let sl' = sl\<lparr>sl_state := (sl_state sl)\<lparr>game_over := 1, gs_winner_id := rm_winner_id rs\<rparr>\<rparr>
           in emit [To_clients (state_message date stale sl')] (rs\<lparr>rm_session := set_slot ss i sl'\<rparr>))"

definition room_over :: "string \<Rightarrow> StatePayload \<Rightarrow> RoomState \<Rightarrow> RoomState" where
  "room_over date stale rs = fold (finish_slot date stale) [0..<ss_count (rm_session rs)] rs"

section \<open>The lobby\<close>

record LobbyState =
  lb_reported :: nat
  lb_expected :: u32
  lb_start_ordered :: bool
  lb_order_time :: int
  lb_global :: HubRoster

definition lobby_hub :: "int \<Rightarrow> HubMsg \<Rightarrow> LobbyState \<Rightarrow> LobbyState" where
  "lobby_hub now msg lb =
     (case msg of
        HUB_START n \<Rightarrow> lb\<lparr>lb_start_ordered := True, lb_expected := n, lb_order_time := now\<rparr>
      | HUB_ROSTER g \<Rightarrow> lb\<lparr>lb_global := g\<rparr>
      | _ \<Rightarrow> lb)"

abbreviation (input) START_GRACE_SECONDS :: int where "START_GRACE_SECONDS \<equiv> 3"

text \<open>
  One iteration of the lobby loop: the reports sent to the master, the new state, and whether the loop
  ends. \<open>ids\<close> are the \<open>lobby_size\<close> clients that have joined.
\<close>

definition lobby_iteration :: "int \<Rightarrow> u32 list \<Rightarrow> HubMsg list \<Rightarrow> LobbyState \<Rightarrow> HubMsg list \<times> LobbyState \<times> bool" where
  "lobby_iteration now ids hubs lb =
     (let reports = map (\<lambda>i. HUB_JOINED (ids ! i)) [lb_reported lb..<length ids];
          lb1 = lb\<lparr>lb_reported := max (lb_reported lb) (length ids)\<rparr>;
          lb2 = fold (lobby_hub now) hubs lb1
      in (reports, lb2,
          lb_start_ordered lb2 \<and> (length ids \<ge> unat (lb_expected lb2) \<or> now - lb_order_time lb2 \<ge> START_GRACE_SECONDS)))"

text \<open>
  Between the lobby and the loop: the room gives up when nobody is there or the transport does not start;
  otherwise it announces its players to its clients and sets up their boards.
\<close>

definition room_begin ::
  "(u32 \<Rightarrow> rng) \<Rightarrow> (nat \<Rightarrow> u32) \<Rightarrow> string \<Rightarrow> u32 list \<Rightarrow> nat \<Rightarrow> bool \<Rightarrow> HubRoster \<Rightarrow> rng \<Rightarrow> (RoomState \<times> rng) option" where
  "room_begin prng now date client_ids lobby_size started g r =
     (if lobby_size = 0 \<or> \<not> started then None
      else let roster = \<lparr>rp_count = of_nat lobby_size,
                         rp_ids = map (\<lambda>i. if i < lobby_size then client_ids ! i else 0) [0..<MAX_LOBBY_SIZE]\<rparr>;
               roster_ht = and_then (req_create_roster 0 roster date zero_msg) convert_to_hypertext;
               (ss, r1) = init_session prng now client_ids lobby_size r
           in Some (\<lparr>rm_session = ss, rm_global = g, rm_match_over = False, rm_winner_id = 0, rm_out = [To_clients roster_ht]\<rparr>, r1))"


section \<open>Every step of a room is a session step\<close>

lemma session_evolves_slot:
  assumes "session_wf ss" and "i < ss_count ss" and "slot_wf sl" and "sl_player_id sl = sl_player_id (ss_players ss ! i)"
    and "slot_alive sl \<longrightarrow> slot_alive (ss_players ss ! i)"
  shows "session_evolves ss (set_slot ss i sl)"
  using session_evolves_set_slot [OF assms, of "ss_roster ss"] by simp

interpretation client: session_step "client_request stale parsed"
  using inp.evolves session_evolves_refl
  by unfold_locales (auto simp: client_request_def Let_def split: prod.splits)

text \<open>The texts that the parser handles: those that do not write past the headers.\<close>

definition text_fits :: "string \<Rightarrow> bool" where
  "text_fits m \<longleftrightarrow> parse_hypertext m \<noteq> Inl HT_OVERRUN"

lemma client_msg_fits: "handle_client_msg stale m ss r = None \<longleftrightarrow> \<not> text_fits m"
  by (auto simp: handle_client_msg_def text_fits_def split: sum.splits ht_error.splits)

lemma handle_texts_fit: "handle_texts stale ms sr = None \<longleftrightarrow> (\<exists>m \<in> set ms. \<not> text_fits m)"
proof (induction ms arbitrary: sr)
  case (Cons m ms)
  then show ?case using client_msg_fits [of stale m "fst sr" "snd sr"] by (cases "handle_client_msg stale m (fst sr) (snd sr)") auto
qed simp

lemma client_msg_evolves: "session_wf ss \<Longrightarrow> handle_client_msg stale m ss r = Some (s', r') \<Longrightarrow> session_evolves ss s'"
  using client.evolves [of ss stale _ r] session_evolves_refl [of ss]
  by (auto simp: handle_client_msg_def split: sum.splits ht_error.splits) (metis fst_conv)

lemma handle_texts_evolves: "session_wf ss \<Longrightarrow> handle_texts stale ms (ss, r) = Some (s', r') \<Longrightarrow> session_evolves ss s'"
proof (induction ms arbitrary: ss r)
  case (Cons m ms)
  obtain s1 r1 where s: "handle_client_msg stale m ss r = Some (s1, r1)" "handle_texts stale ms (s1, r1) = Some (s', r')"
    using Cons.prems(2) by (auto split: option.splits)
  have e: "session_evolves ss s1" by (rule client_msg_evolves [OF Cons.prems(1) s(1)])
  show ?case using session_evolves_trans [OF e Cons.IH [OF session_evolves_wf [OF e] s(2)]] .
qed (simp add: session_evolves_refl)

lemma hit_slot_evolves: "session_wf ss \<Longrightarrow> v < ss_count ss \<Longrightarrow> session_evolves ss (hit_slot v a n ss)"
  unfolding hit_slot_def Let_def
  using session_wf_slot [of ss v] queue_garbage_wf [of "sl_state (ss_players ss ! v)" "sint n"]
  by (intro session_evolves_slot) (auto simp: slot_wf_def slot_alive_def queue_garbage_def Let_def)

lemma remote_garbage_evolves:
  "session_wf (rm_session rs) \<Longrightarrow> session_evolves (rm_session rs) (rm_session (apply_remote_garbage date a rs))"
  using find_player_range [of "rm_session rs" "ha_victim a"]
  by (auto simp: apply_remote_garbage_def emit_def Let_def session_evolves_refl intro!: hit_slot_evolves split: option.splits)

lemma room_hub_evolves:
  "session_wf (rm_session rs) \<Longrightarrow> session_evolves (rm_session rs) (rm_session (fold (handle_room_hub date) hubs rs))"
proof (induction hubs arbitrary: rs)
  case (Cons h hubs)
  have e: "session_evolves (rm_session rs) (rm_session (handle_room_hub date h rs))"
    using Cons.prems remote_garbage_evolves [of rs date]
    by (cases h) (auto simp: handle_room_hub_def emit_def session_evolves_refl)
  then show ?case using Cons.IH [OF session_evolves_wf [OF e]] by (auto intro: session_evolves_trans)
qed (simp add: session_evolves_refl)

text \<open>Folding a per-slot step of the room over the slots.\<close>

lemma room_fold_evolves:
  assumes step: "\<And>i rs. session_wf (rm_session rs) \<Longrightarrow> i < ss_count (rm_session rs) \<Longrightarrow> session_evolves (rm_session rs) (rm_session (f i rs))"
    and "session_wf (rm_session rs)" and "\<forall>i \<in> set is. i < ss_count (rm_session rs)"
  shows "session_evolves (rm_session rs) (rm_session (fold f is rs))"
  using assms(2,3)
proof (induction "is" arbitrary: rs)
  case (Cons i "is")
  have e: "session_evolves (rm_session rs) (rm_session (f i rs))" using step [of rs i] Cons.prems by simp
  then have "session_evolves (rm_session (f i rs)) (rm_session (fold f is (f i rs)))"
    using Cons by (intro Cons.IH) (auto simp: session_evolves_def)
  then show ?case using e by (auto intro: session_evolves_trans)
qed (simp add: session_evolves_refl)

lemma report_evolves: "session_wf (rm_session rs) \<Longrightarrow> session_evolves (rm_session rs) (rm_session (report_eliminations rs))"
  unfolding report_eliminations_def
proof (rule room_fold_evolves)
  fix i and rs :: RoomState assume a: "session_wf (rm_session rs)" "i < ss_count (rm_session rs)"
  then show "session_evolves (rm_session rs) (rm_session (report_slot i rs))"
    using session_wf_slot [OF a]
    by (auto simp: report_slot_def emit_def Let_def session_evolves_refl slot_wf_def slot_alive_def intro!: session_evolves_slot)
qed auto

lemma push_evolves: "session_wf (rm_session rs) \<Longrightarrow> session_evolves (rm_session rs) (rm_session (push_states date stale rs))"
  unfolding push_states_def
proof (rule room_fold_evolves)
  fix i and rs :: RoomState assume a: "session_wf (rm_session rs)" "i < ss_count (rm_session rs)"
  then show "session_evolves (rm_session rs) (rm_session (push_slot date stale i rs))"
    using session_wf_slot [OF a]
    by (auto simp: push_slot_def emit_def Let_def slot_wf_def slot_alive_def intro!: session_evolves_slot)
qed auto

lemma route_slot_evolves:
  assumes "session_wf (rm_session rs)" and "i < ss_count (rm_session rs)"
  shows "session_evolves (rm_session rs) (rm_session (fst (route_slot date i (rs, r))))"
proof -
  let ?ss = "rm_session rs" and ?at = "ss_players (rm_session rs) ! i"
  let ?at' = "?at\<lparr>sl_state := (sl_state ?at)\<lparr>outgoing_garbage := 0\<rparr>\<rparr>"
  let ?s1 = "set_slot ?ss i ?at'"
  have e: "session_evolves ?ss ?s1"
    using session_wf_slot [OF assms] by (intro session_evolves_slot assms) (auto simp: slot_wf_def slot_alive_def)
  have h: "session_evolves ?ss (hit_slot v a n ?s1)" if "find_player ?s1 w = Some v" for v w a n
    using e that find_player_range [OF that] by (intro session_evolves_trans [OF e] hit_slot_evolves) (auto simp: session_evolves_def)
  show ?thesis using e h session_evolves_refl [OF assms(1)]
    by (auto simp: route_slot_def emit_def Let_def split: prod.splits option.splits)
qed

lemma route_evolves:
  "session_wf (rm_session rs) \<Longrightarrow> session_evolves (rm_session rs) (rm_session (fst (route_garbage date rs r)))"
proof -
  have "session_evolves (rm_session rs) (rm_session (fst (fold (route_slot date) is (rs, r))))"
    if "session_wf (rm_session rs)" "\<forall>i \<in> set is. i < ss_count (rm_session rs)" for "is" rs r
    using that
  proof (induction "is" arbitrary: rs r)
    case (Cons i "is")
    obtain rs1 r1 where s: "route_slot date i (rs, r) = (rs1, r1)" by (cases "route_slot date i (rs, r)")
    have e: "session_evolves (rm_session rs) (rm_session rs1)" using route_slot_evolves [of rs i date r] Cons.prems s by simp
    then have "session_evolves (rm_session rs1) (rm_session (fst (fold (route_slot date) is (rs1, r1))))"
      using Cons by (intro Cons.IH) (auto simp: session_evolves_def)
    then show ?case using e s by (auto intro: session_evolves_trans)
  qed (simp add: session_evolves_refl)
  then show "session_wf (rm_session rs) \<Longrightarrow> session_evolves (rm_session rs) (rm_session (fst (route_garbage date rs r)))"
    by (simp add: route_garbage_def)
qed

interpretation request_tick: two_session_steps "client_request stale parsed" tick_session
  by unfold_locales

lemma room_tick_evolves:
  assumes "session_wf (rm_session rs)"
  shows "session_evolves (rm_session rs) (rm_session (fst (room_tick date st hubs gone rs r)))"
proof -
  define rs3 where "rs3 = (if gone then (fold (handle_room_hub date) hubs rs)\<lparr>rm_match_over := True\<rparr>
                           else fold (handle_room_hub date) hubs rs)"
  have e3: "session_evolves (rm_session rs) (rm_session rs3)" using room_hub_evolves [OF assms, of date hubs] by (auto simp: rs3_def)
  obtain s4 r4 where t: "tick_session (rm_session rs3) r = (s4, r4)" by (cases "tick_session (rm_session rs3) r")
  have e4: "session_evolves (rm_session rs3) s4" using tick.evolves [OF session_evolves_wf [OF e3], of r] t by simp
  define rs5 where "rs5 = report_eliminations (rs3\<lparr>rm_session := s4\<rparr>)"
  have e5: "session_evolves s4 (rm_session rs5)"
    using report_evolves [of "rs3\<lparr>rm_session := s4\<rparr>"] session_evolves_wf [OF e4] by (simp add: rs5_def)
  obtain rs6 r6 where g: "route_garbage date rs5 r4 = (rs6, r6)" by (cases "route_garbage date rs5 r4")
  have e6: "session_evolves (rm_session rs5) (rm_session rs6)"
    using route_evolves [OF session_evolves_wf [OF e5], of date r4] g by simp
  have e7: "session_evolves (rm_session rs6) (rm_session (push_states date st rs6))"
    by (rule push_evolves [OF session_evolves_wf [OF e6]])
  have "fst (room_tick date st hubs gone rs r) = (if rm_match_over rs3 then rs3 else push_states date st rs6)"
    using t g by (simp add: room_tick_def Let_def rs3_def [symmetric] rs5_def [symmetric] del: fold_simps)
  moreover have "session_evolves (rm_session rs) (rm_session (push_states date st rs6))"
    by (rule session_evolves_trans [OF e3 session_evolves_trans [OF e4 session_evolves_trans [OF e5 session_evolves_trans [OF e6 e7]]]])
  ultimately show ?thesis using e3 by simp
qed

lemma room_iteration_cases:
  assumes "room_iteration date si st msgs hubs gone rs r = Some (rs', r')"
  obtains s1 r1 where "drain_clients si msgs (rm_session rs) r = Some (s1, r1)" and "room_tick date st hubs gone (rs\<lparr>rm_session := s1\<rparr>) r1 = (rs', r')"
  using assms by (auto simp: room_iteration_def split: option.splits)

lemma room_iteration_evolves:
  assumes "session_wf (rm_session rs)" and "room_iteration date si st msgs hubs gone rs r = Some (rs', r')"
  shows "session_evolves (rm_session rs) (rm_session rs')"
proof -
  obtain s1 r1 where d: "drain_clients si msgs (rm_session rs) r = Some (s1, r1)" "room_tick date st hubs gone (rs\<lparr>rm_session := s1\<rparr>) r1 = (rs', r')"
    using room_iteration_cases [OF assms(2)] .
  have e: "session_evolves (rm_session rs) s1" using handle_texts_evolves [OF assms(1)] d(1) by (simp add: drain_clients_def)
  show ?thesis using room_tick_evolves [of "rs\<lparr>rm_session := s1\<rparr>" date st hubs gone r1] session_evolves_wf [OF e] d(2) e by (auto intro: session_evolves_trans)
qed

section \<open>Eliminations are reported once\<close>

definition elim_count :: "u32 \<Rightarrow> room_out list \<Rightarrow> nat" where
  "elim_count p os = length (filter (\<lambda>m. m = To_master (HUB_ELIMINATED p)) os)"

lemma elim_count_append [simp]: "elim_count p (a @ b) = elim_count p a + elim_count p b"
  by (simp add: elim_count_def)

definition flag :: "GameSession \<Rightarrow> nat \<Rightarrow> bool" where
  "flag ss i = sl_elim_reported (ss_players ss ! i)"

text \<open>The reports sent so far are exactly the flags set.\<close>

definition reports_match :: "RoomState \<Rightarrow> bool" where
  "reports_match rs \<longleftrightarrow> session_wf (rm_session rs)
     \<and> (\<forall>i < ss_count (rm_session rs).
          elim_count (sl_player_id (ss_players (rm_session rs) ! i)) (rm_out rs) = (if flag (rm_session rs) i then 1 else 0))"

text \<open>A step that keeps the flags and sends no report keeps the account.\<close>

lemma reports_match_quiet:
  assumes "reports_match rs" and "session_evolves (rm_session rs) (rm_session rs')"
    and "\<And>i. flag (rm_session rs') i = flag (rm_session rs) i" and "\<And>p. elim_count p (rm_out rs') = elim_count p (rm_out rs)"
  shows "reports_match rs'"
  using assms by (auto simp: reports_match_def session_evolves_def)

lemma flag_set_slot: "sl_elim_reported sl = sl_elim_reported (ss_players ss ! i) \<Longrightarrow> flag (set_slot ss i sl) j = flag ss j"
  by (cases "i < length (ss_players ss)") (auto simp: flag_def nth_list_update list_update_beyond)

lemma flag_ss_roster [simp]: "flag (ss\<lparr>ss_roster := ro\<rparr>) j = flag ss j"
  by (simp add: flag_def)

lemma flag_apply_action [simp]: "flag (fst (apply_action ss sl a r)) j = flag ss j"
  by (auto simp: apply_action_def Let_def split: option.splits prod.splits intro!: flag_set_slot)

lemma flag_request: "flag (fst (client_request stale parsed ss r)) j = flag ss j"
  by (simp add: client_request_def handle_input_def Let_def split: prod.splits)

lemma flag_client_msg:
  assumes "handle_client_msg stale m ss r = Some (s', r')"
  shows "flag s' j = flag ss j"
proof (cases "parse_hypertext m")
  case (Inl e)
  then show ?thesis using assms by (cases e) (simp_all add: handle_client_msg_def)
next
  case (Inr parsed)
  then show ?thesis using assms flag_request [of stale parsed ss r j] by (simp add: handle_client_msg_def)
qed

lemma flag_texts: "handle_texts stale ms (ss, r) = Some (s', r') \<Longrightarrow> flag s' j = flag ss j"
proof (induction ms arbitrary: ss r)
  case (Cons m ms)
  obtain s1 r1 where s: "handle_client_msg stale m ss r = Some (s1, r1)" "handle_texts stale ms (s1, r1) = Some (s', r')"
    using Cons.prems by (auto split: option.splits)
  show ?case unfolding Cons.IH [OF s(2)] by (rule flag_client_msg [OF s(1)])
qed simp

lemma flag_tick_slot: "flag (fst (tick_slot i (ss, r))) j = flag ss j"
  by (auto simp: tick_slot_def Let_def split: prod.splits intro!: flag_set_slot)

lemma flag_tick_session: "flag (fst (tick_session ss r)) j = flag ss j"
proof -
  have "flag (fst (fold tick_slot is (ss, r))) j = flag ss j" for "is" ss r
  proof (induction "is" arbitrary: ss r)
    case (Cons i "is")
    then show ?case using flag_tick_slot [of i ss r j] by (cases "tick_slot i (ss, r)") simp
  qed simp
  then show ?thesis by (simp add: tick_session_def)
qed

lemma flag_hit_slot: "flag (hit_slot v a n ss) j = flag ss j"
  by (simp add: hit_slot_def Let_def flag_set_slot)

lemma feed_no_report: "elim_count p [broadcast_feed date a b n] = 0" "elim_count p [To_clients x] = 0"
  "elim_count p [broadcast_feed date a b n, To_master (HUB_FEED at)] = 0"
  "elim_count p [To_master (HUB_ATTACK at), broadcast_feed date a b n, To_master (HUB_FEED at)] = 0"
  by (simp_all add: elim_count_def broadcast_feed_def)

lemma room_hub_quiet:
  "flag (rm_session (handle_room_hub date h rs)) j = flag (rm_session rs) j"
  "elim_count p (rm_out (handle_room_hub date h rs)) = elim_count p (rm_out rs)"
  by (cases h; auto simp: handle_room_hub_def apply_remote_garbage_def emit_def Let_def flag_hit_slot feed_no_report
      split: option.splits)+

lemma route_slot_quiet:
  "flag (rm_session (fst (route_slot date i (rs, r)))) j = flag (rm_session rs) j"
  "elim_count p (rm_out (fst (route_slot date i (rs, r)))) = elim_count p (rm_out rs)"
  by (auto simp: route_slot_def emit_def Let_def flag_hit_slot flag_set_slot feed_no_report split: prod.splits option.splits)

lemma push_slot_quiet:
  "flag (rm_session (push_slot date st i rs)) j = flag (rm_session rs) j"
  "elim_count p (rm_out (push_slot date st i rs)) = elim_count p (rm_out rs)"
  by (auto simp: push_slot_def emit_def Let_def flag_set_slot feed_no_report)

lemma report_slot_matches:
  assumes "reports_match rs" and "i < ss_count (rm_session rs)"
  shows "reports_match (report_slot i rs)"
proof (cases "\<not> slot_alive (ss_players (rm_session rs) ! i) \<and> \<not> flag (rm_session rs) i")
  case True
  let ?ss = "rm_session rs" and ?sl = "ss_players (rm_session rs) ! i"
  have w: "session_wf ?ss" using assms(1) by (simp add: reports_match_def)
  have il: "i < length (ss_players ?ss)" using session_wf_slot [OF w assms(2)] by simp
  let ?ss' = "set_slot ?ss i (?sl\<lparr>sl_elim_reported := True\<rparr>)"
  have w': "session_wf ?ss'"
    using session_wf_slot [OF w assms(2)] by (intro session_evolves_wf [OF session_evolves_slot [OF w assms(2)]]) (auto simp: slot_wf_def slot_alive_def)
  have r: "report_slot i rs = emit [To_master (HUB_ELIMINATED (sl_player_id ?sl))] (rs\<lparr>rm_session := ?ss'\<rparr>)"
    using True by (auto simp: report_slot_def slot_alive_def flag_def Let_def)
  have "elim_count (sl_player_id (ss_players ?ss' ! j)) (rm_out rs @ [To_master (HUB_ELIMINATED (sl_player_id ?sl))])
      = (if flag ?ss' j then 1 else 0)" if "j < ss_count ?ss" for j
  proof -
    have c: "elim_count (sl_player_id (ss_players ?ss ! j)) (rm_out rs) = (if flag ?ss j then 1 else 0)"
      using assms(1) that by (simp add: reports_match_def)
    have "sl_player_id (ss_players ?ss ! j) \<noteq> sl_player_id ?sl" if "j \<noteq> i"
      using w that \<open>j < ss_count ?ss\<close> assms(2) il by (auto simp: session_wf_def distinct_conv_nth)
    then show ?thesis using c True il by (cases "j = i") (auto simp: flag_def elim_count_def)
  qed
  then show ?thesis using w' by (simp add: r reports_match_def emit_def)
next
  case False
  then have "report_slot i rs = rs" by (auto simp: report_slot_def slot_alive_def flag_def Let_def)
  then show ?thesis using assms(1) by simp
qed

lemma report_slot_flags:
  "i < length (ss_players (rm_session rs)) \<Longrightarrow>
   flag (rm_session (report_slot i rs)) j = (flag (rm_session rs) j \<or> j = i \<and> \<not> slot_alive (ss_players (rm_session rs) ! i))
   \<and> length (ss_players (rm_session (report_slot i rs))) = length (ss_players (rm_session rs))
   \<and> ss_count (rm_session (report_slot i rs)) = ss_count (rm_session rs)
   \<and> slot_alive (ss_players (rm_session (report_slot i rs)) ! j) = slot_alive (ss_players (rm_session rs) ! j)"
  by (auto simp: report_slot_def emit_def flag_def slot_alive_def Let_def nth_list_update)

lemma report_fold:
  assumes "reports_match rs" and "n \<le> ss_count (rm_session rs)"
  shows "reports_match (fold report_slot [0..<n] rs)
       \<and> ss_count (rm_session (fold report_slot [0..<n] rs)) = ss_count (rm_session rs)
       \<and> (\<forall>j < n. \<not> slot_alive (ss_players (rm_session (fold report_slot [0..<n] rs)) ! j)
                   \<longrightarrow> flag (rm_session (fold report_slot [0..<n] rs)) j)"
  using assms(2)
proof (induction n)
  case (Suc n)
  let ?rs = "fold report_slot [0..<n] rs"
  have IH: "reports_match ?rs" "ss_count (rm_session ?rs) = ss_count (rm_session rs)"
    "\<And>j. j < n \<Longrightarrow> \<not> slot_alive (ss_players (rm_session ?rs) ! j) \<Longrightarrow> flag (rm_session ?rs) j" using Suc by auto
  have n: "n < ss_count (rm_session ?rs)" using IH(2) Suc.prems by simp
  have l: "n < length (ss_players (rm_session ?rs))"
    using session_wf_slot [OF _ n] IH(1) by (simp add: reports_match_def)
  show ?case using report_slot_matches [OF IH(1) n] report_slot_flags [OF l] IH(2,3) by (auto simp: less_Suc_eq)
qed (use assms(1) in simp)

lemma report_eliminations_matches:
  assumes "reports_match rs"
  shows "reports_match (report_eliminations rs)"
    and "\<And>j. j < ss_count (rm_session rs) \<Longrightarrow> \<not> slot_alive (ss_players (rm_session (report_eliminations rs)) ! j)
          \<Longrightarrow> flag (rm_session (report_eliminations rs)) j"
  using report_fold [OF assms order.refl] by (auto simp: report_eliminations_def)

lemma room_hub_fold_quiet:
  "flag (rm_session (fold (handle_room_hub date) hs rs)) j = flag (rm_session rs) j
   \<and> elim_count p (rm_out (fold (handle_room_hub date) hs rs)) = elim_count p (rm_out rs)"
  by (induction hs arbitrary: rs) (simp_all add: room_hub_quiet)

lemma route_quiet:
  "flag (rm_session (fst (route_garbage date rs r))) j = flag (rm_session rs) j
   \<and> elim_count p (rm_out (fst (route_garbage date rs r))) = elim_count p (rm_out rs)"
proof -
  have "flag (rm_session (fst (fold (route_slot date) is (rs, r)))) j = flag (rm_session rs) j
   \<and> elim_count p (rm_out (fst (fold (route_slot date) is (rs, r)))) = elim_count p (rm_out rs)" for "is" rs r
  proof (induction "is" arbitrary: rs r)
    case (Cons i "is")
    then show ?case using route_slot_quiet [where date = date and i = i and rs = rs and r = r] by (cases "route_slot date i (rs, r)") simp
  qed simp
  then show ?thesis by (simp add: route_garbage_def)
qed

lemma push_quiet:
  "flag (rm_session (push_states date st rs)) j = flag (rm_session rs) j
   \<and> elim_count p (rm_out (push_states date st rs)) = elim_count p (rm_out rs)"
proof -
  have "flag (rm_session (fold (push_slot date st) is rs)) j = flag (rm_session rs) j
   \<and> elim_count p (rm_out (fold (push_slot date st) is rs)) = elim_count p (rm_out rs)" for "is" rs
    by (induction "is" arbitrary: rs) (simp_all add: push_slot_quiet)
  then show ?thesis by (simp add: push_states_def)
qed

lemma push_slot_alive: "slot_alive (ss_players (rm_session (push_slot date st i rs)) ! j) = slot_alive (ss_players (rm_session rs) ! j)"
  by (cases "i < length (ss_players (rm_session rs))")
     (auto simp: push_slot_def emit_def Let_def slot_alive_def nth_list_update list_update_beyond)

lemma push_alive: "slot_alive (ss_players (rm_session (push_states date st rs)) ! j) = slot_alive (ss_players (rm_session rs) ! j)"
proof -
  have "slot_alive (ss_players (rm_session (fold (push_slot date st) is rs)) ! j) = slot_alive (ss_players (rm_session rs) ! j)" for "is"
    by (induction "is" arbitrary: rs) (simp_all add: push_slot_alive)
  then show ?thesis by (simp add: push_states_def)
qed

lemma hit_slot_alive: "slot_alive (ss_players (hit_slot v a n ss) ! j) = slot_alive (ss_players ss ! j)"
  by (cases "v < length (ss_players ss)")
     (auto simp: hit_slot_def Let_def slot_alive_def queue_garbage_def nth_list_update list_update_beyond)

lemma route_slot_alive:
  "slot_alive (ss_players (rm_session (fst (route_slot date i (rs, r)))) ! j) = slot_alive (ss_players (rm_session rs) ! j)"
proof -
  let ?ss = "rm_session rs" and ?at = "ss_players (rm_session rs) ! i"
  have "slot_alive (ss_players (set_slot ?ss i (?at\<lparr>sl_state := (sl_state ?at)\<lparr>outgoing_garbage := 0\<rparr>\<rparr>)) ! j) = slot_alive (ss_players ?ss ! j)"
    by (cases "i < length (ss_players ?ss)") (auto simp: slot_alive_def nth_list_update list_update_beyond)
  then show ?thesis by (auto simp: route_slot_def emit_def Let_def hit_slot_alive split: prod.splits option.splits)
qed

lemma route_alive:
  "slot_alive (ss_players (rm_session (fst (route_garbage date rs r))) ! j) = slot_alive (ss_players (rm_session rs) ! j)"
proof -
  have "slot_alive (ss_players (rm_session (fst (fold (route_slot date) is (rs, r)))) ! j) = slot_alive (ss_players (rm_session rs) ! j)" for "is" rs r
  proof (induction "is" arbitrary: rs r)
    case (Cons i "is")
    then show ?case using route_slot_alive [of date i rs r j] by (cases "route_slot date i (rs, r)") simp
  qed simp
  then show ?thesis by (simp add: route_garbage_def)
qed

lemma room_tick_reports:
  fixes date st hubs gone rs r
  assumes "reports_match rs"
  defines "rs' \<equiv> fst (room_tick date st hubs gone rs r)"
  shows "reports_match rs'"
    and "\<not> rm_match_over rs' \<Longrightarrow> j < ss_count (rm_session rs) \<Longrightarrow> \<not> slot_alive (ss_players (rm_session rs') ! j) \<Longrightarrow> flag (rm_session rs') j"
proof -
  have w: "session_wf (rm_session rs)" using assms(1) by (simp add: reports_match_def)
  define rs2 where "rs2 = fold (handle_room_hub date) hubs rs"
  define rs3 where "rs3 = (if gone then rs2\<lparr>rm_match_over := True\<rparr> else rs2)"
  have e2: "session_evolves (rm_session rs) (rm_session rs3)" using room_hub_evolves [OF w, of date hubs] by (auto simp: rs3_def rs2_def)
  have m2: "reports_match rs2"
    using room_hub_evolves [OF w, of date hubs] room_hub_fold_quiet [of date hubs rs]
    by (intro reports_match_quiet [OF assms(1)]) (auto simp: rs2_def)
  then have m3: "reports_match rs3" by (simp add: rs3_def reports_match_def)
  obtain s4 r4 where t: "tick_session (rm_session rs3) r = (s4, r4)" by (cases "tick_session (rm_session rs3) r")
  have w3: "session_wf (rm_session rs3)" using m3 by (simp add: reports_match_def)
  have m4: "reports_match (rs3\<lparr>rm_session := s4\<rparr>)"
    using tick.evolves [OF w3, of r] t flag_tick_session [of "rm_session rs3" r]
    by (intro reports_match_quiet [OF m3]) auto
  define rs5 where "rs5 = report_eliminations (rs3\<lparr>rm_session := s4\<rparr>)"
  note m5 = report_eliminations_matches [OF m4, folded rs5_def]
  have w5: "session_wf (rm_session rs5)" using m5(1) by (simp add: reports_match_def)
  obtain rs6 r6 where g: "route_garbage date rs5 r4 = (rs6, r6)" by (cases "route_garbage date rs5 r4")
  have m6: "reports_match rs6"
    using route_evolves [OF w5, of date r4] g route_quiet [of date rs5 r4]
    by (intro reports_match_quiet [OF m5(1)]) auto
  have w6: "session_wf (rm_session rs6)" using m6 by (simp add: reports_match_def)
  have m7: "reports_match (push_states date st rs6)"
    using push_evolves [OF w6, of date st] push_quiet [of date st rs6]
    by (intro reports_match_quiet [OF m6]) auto
  have rs': "rs' = (if rm_match_over rs3 then rs3 else push_states date st rs6)"
    unfolding rs'_def room_tick_def Let_def prod.case rs2_def [symmetric] rs3_def [symmetric] t rs5_def [symmetric] g
    by simp
  show "reports_match rs'" using m3 m7 by (simp add: rs')
  have c: "ss_count s4 = ss_count (rm_session rs)" using e2 tick.evolves [OF w3, of r] t by (simp add: session_evolves_def)
  assume "\<not> rm_match_over rs'" and "j < ss_count (rm_session rs)" and "\<not> slot_alive (ss_players (rm_session rs') ! j)"
  then show "flag (rm_session rs') j"
    using m5(2) [of j] c push_quiet [of date st rs6 j] route_quiet [of date rs5 r4 j] push_alive [of date st rs6 j]
      route_alive [of date rs5 r4 j] g by (auto simp: rs' split: if_splits)
qed

lemma room_iteration_reports:
  assumes "reports_match rs" and "room_iteration date si st msgs hubs gone rs r = Some (rs', r')"
  shows "reports_match rs'"
    and "\<not> rm_match_over rs' \<Longrightarrow> j < ss_count (rm_session rs) \<Longrightarrow> \<not> slot_alive (ss_players (rm_session rs') ! j) \<Longrightarrow> flag (rm_session rs') j"
proof -
  have w: "session_wf (rm_session rs)" using assms(1) by (simp add: reports_match_def)
  obtain s1 r1 where d: "handle_texts si (take MAX_MSGS_PER_TICK msgs) (rm_session rs, r) = Some (s1, r1)"
      "room_tick date st hubs gone (rs\<lparr>rm_session := s1\<rparr>) r1 = (rs', r')"
    using room_iteration_cases [OF assms(2)] unfolding drain_clients_def .
  have e: "session_evolves (rm_session rs) s1" by (rule handle_texts_evolves [OF w d(1)])
  have m: "reports_match (rs\<lparr>rm_session := s1\<rparr>)"
    using reports_match_quiet [OF assms(1), of "rs\<lparr>rm_session := s1\<rparr>"] e flag_texts [OF d(1)] by simp
  note t = room_tick_reports [OF m, of date st hubs gone r1, unfolded d(2) fst_conv]
  show "reports_match rs'" by (rule t(1))
  show "\<not> rm_match_over rs' \<Longrightarrow> j < ss_count (rm_session rs) \<Longrightarrow> \<not> slot_alive (ss_players (rm_session rs') ! j) \<Longrightarrow> flag (rm_session rs') j"
    using t(2) [of j] e by (simp add: session_evolves_def)
qed

section \<open>Properties of a room\<close>

text \<open>The arrivals of one iteration, and a run of the loop.\<close>

type_synonym arrivals = "string list \<times> HubMsg list \<times> bool"

primrec room_run :: "string \<Rightarrow> InputPayload \<Rightarrow> StatePayload \<Rightarrow> arrivals list \<Rightarrow> RoomState \<Rightarrow> rng \<Rightarrow> (RoomState \<times> rng) option" where
  "room_run date si st [] rs r = Some (rs, r)"
| "room_run date si st (a # as) rs r =
     (let (msgs, hubs, gone) = a
      in case room_iteration date si st msgs hubs gone rs r of None \<Rightarrow> None | Some (rs1, r1) \<Rightarrow> room_run date si st as rs1 r1)"

lemma room_run_cons:
  assumes "room_run date si st ((ms, hs, gn) # as) rs r = Some (rs', r')"
  obtains rs1 r1 where "room_iteration date si st ms hs gn rs r = Some (rs1, r1)" and "room_run date si st as rs1 r1 = Some (rs', r')"
  using assms by (auto split: option.splits)

lemma room_run_evolves:
  "session_wf (rm_session rs) \<Longrightarrow> room_run date si st as rs r = Some (rs', r') \<Longrightarrow> session_evolves (rm_session rs) (rm_session rs')"
proof (induction as arbitrary: rs r)
  case (Cons a as)
  obtain ms hs gn where a: "a = (ms, hs, gn)" by (cases a)
  obtain rs1 r1 where s: "room_iteration date si st ms hs gn rs r = Some (rs1, r1)" "room_run date si st as rs1 r1 = Some (rs', r')"
    using room_run_cons [OF Cons.prems(2) [unfolded a]] .
  have e: "session_evolves (rm_session rs) (rm_session rs1)" by (rule room_iteration_evolves [OF Cons.prems(1) s(1)])
  show ?case using session_evolves_trans [OF e Cons.IH [OF session_evolves_wf [OF e] s(2)]] .
qed (simp add: session_evolves_refl)

lemma room_run_reports: "reports_match rs \<Longrightarrow> room_run date si st as rs r = Some (rs', r') \<Longrightarrow> reports_match rs'"
proof (induction as arbitrary: rs r)
  case (Cons a as)
  obtain ms hs gn where a: "a = (ms, hs, gn)" by (cases a)
  obtain rs1 r1 where s: "room_iteration date si st ms hs gn rs r = Some (rs1, r1)" "room_run date si st as rs1 r1 = Some (rs', r')"
    using room_run_cons [OF Cons.prems(2) [unfolded a]] .
  show ?case by (rule Cons.IH [OF room_iteration_reports(1) [OF Cons.prems(1) s(1)] s(2)])
qed simp

lemma room_run_append:
  "room_run date si st (as @ bs) rs r = (case room_run date si st as rs r of None \<Rightarrow> None | Some (rs1, r1) \<Rightarrow> room_run date si st bs rs1 r1)"
  by (induction as arbitrary: rs r) (auto simp: Let_def split: prod.split option.split)

text \<open>A run is defined exactly when every text that it takes fits the headers of the parsed message.\<close>

definition arrival_fits :: "arrivals \<Rightarrow> bool" where
  "arrival_fits a \<longleftrightarrow> (\<forall>m \<in> set (take MAX_MSGS_PER_TICK (fst a)). text_fits m)"

lemma room_run_defined: "room_run date si st as rs r = None \<longleftrightarrow> (\<exists>a \<in> set as. \<not> arrival_fits a)"
proof (induction as arbitrary: rs r)
  case (Cons a as)
  obtain ms hs gn where a: "a = (ms, hs, gn)" by (cases a)
  have "room_iteration date si st ms hs gn rs r = None \<longleftrightarrow> \<not> arrival_fits a"
    using handle_texts_fit [of si "take MAX_MSGS_PER_TICK ms" "(rm_session rs, r)"]
    by (auto simp: room_iteration_def drain_clients_def arrival_fits_def a split: option.splits)
  then show ?case using Cons.IH by (cases "room_iteration date si st ms hs gn rs r") (auto simp: a)
qed simp

definition fresh_room :: "GameSession \<Rightarrow> HubRoster \<Rightarrow> RoomState" where
  "fresh_room ss g = \<lparr>rm_session = ss, rm_global = g, rm_match_over = False, rm_winner_id = 0, rm_out = []\<rparr>"

lemma fresh_room_reports: "session_wf ss \<Longrightarrow> (\<And>i. i < ss_count ss \<Longrightarrow> \<not> flag ss i) \<Longrightarrow> reports_match (fresh_room ss g)"
  by (simp add: reports_match_def fresh_room_def elim_count_def)

text \<open>
  C21 (eliminations_reported_once): over any number of iterations of a room that take no text with too many headers, whatever client texts and master messages
  arrive, each player's elimination is reported to the master at most once; and when an
  iteration ends with the match still running, it has been reported exactly once for every player who
  is out.
\<close>

theorem eliminations_reported_once:
  assumes "session_wf ss" and "\<And>i. i < ss_count ss \<Longrightarrow> \<not> flag ss i" and "i < ss_count ss"
    and "\<forall>a \<in> set as. arrival_fits a" and "arrival_fits (msgs, hubs, gone)"
  shows "\<exists>rs r1 rs' r2. room_run date si st as (fresh_room ss g) r = Some (rs, r1) \<and> room_iteration date si st msgs hubs gone rs r1 = Some (rs', r2)
     \<and> (let n = elim_count (sl_player_id (ss_players ss ! i)) (rm_out rs')
        in n \<le> 1 \<and> (\<not> rm_match_over rs' \<and> \<not> slot_alive (ss_players (rm_session rs') ! i) \<longrightarrow> n = 1))"
proof -
  have "room_run date si st (as @ [(msgs, hubs, gone)]) (fresh_room ss g) r \<noteq> None" using room_run_defined assms(4,5) by auto
  then obtain rs r1 rs' r2 where rs: "room_run date si st as (fresh_room ss g) r = Some (rs, r1)" and rs': "room_iteration date si st msgs hubs gone rs r1 = Some (rs', r2)"
    by (auto simp: room_run_append split: option.splits)
  have m: "reports_match rs" by (rule room_run_reports [OF fresh_room_reports [OF assms(1,2)] rs])
  note m' = room_iteration_reports [OF m rs']
  have "session_evolves ss (rm_session rs)" using room_run_evolves [OF _ rs] assms(1) by (simp add: fresh_room_def)
  moreover have "session_evolves (rm_session rs) (rm_session rs')" using m by (intro room_iteration_evolves [OF _ rs']) (simp add: reports_match_def)
  ultimately have e: "session_evolves ss (rm_session rs')" "ss_count (rm_session rs) = ss_count ss"
    using session_evolves_trans by (auto simp: session_evolves_def)
  then have c: "elim_count (sl_player_id (ss_players ss ! i)) (rm_out rs') = (if flag (rm_session rs') i then 1 else 0)"
    using m'(1) assms(3) by (simp add: reports_match_def session_evolves_def)
  show ?thesis by (intro exI conjI, rule rs, rule rs') (use c m'(2) [of i] e(2) assms(3) in \<open>auto simp: Let_def\<close>)
qed

theorem eliminations_reported_once_witness:
  "\<exists>rs r1 rs' r2. room_run [] (\<lparr>ip_action = 0\<rparr>) undefined [([], [], False)] (fresh_room full_session (\<lparr>hr_count = 0, hr_ids = [], hr_alive = []\<rparr>)) (sconst 0) = Some (rs, r1)
     \<and> room_iteration [] (\<lparr>ip_action = 0\<rparr>) undefined [] [] False rs r1 = Some (rs', r2) \<and> elim_count 1 (rm_out rs') \<le> 1"
proof -
  have f: "\<not> flag full_session i" if "i < ss_count full_session" for i
    using that by (auto simp: flag_def full_session_def zero_slot_def)
  have "0 < ss_count full_session" "sl_player_id (ss_players full_session ! 0) = 1" by (simp_all add: full_session_def)
  moreover have "\<forall>a \<in> set [([], [], False)]. arrival_fits a" "arrival_fits ([], [], False)" by (simp_all add: arrival_fits_def)
  ultimately show ?thesis
    using eliminations_reported_once [OF full_session_wf f, where i = 0] unfolding Let_def by metis
qed

text \<open>
  C3 (room_sound): the worker of a room runs into undefined behaviour exactly when it takes a text with more headers than the parsed message holds. In every other run, under any client texts and any
  messages of the master and after any number of iterations, the authoritative match is well-formed: every player keeps the slot
  and the id it began with, and there are never more living players than began.
\<close>

theorem room_sound:
  assumes "length ids = n" and "1 \<le> n" and "n \<le> MAX_LOBBY_SIZE" and "distinct ids"
  shows "\<exists>rs0 r0'. room_begin prng now date ids n True g r0 = Some (rs0, r0')
       \<and> (room_run date si st as rs0 r = None \<longleftrightarrow> (\<exists>(msgs, hubs, gone) \<in> set as. \<exists>m \<in> set (take 64 msgs). parse_hypertext m = Inl HT_OVERRUN))
       \<and> (\<forall>rs r'. room_run date si st as rs0 r = Some (rs, r') \<longrightarrow>
            session_wf (rm_session rs) \<and> count_alive_players (rm_session rs) \<le> n
            \<and> (\<forall>i < n. sl_player_id (ss_players (rm_session rs) ! i) = ids ! i))"
proof -
  define s0 where "s0 = fst (init_session prng now ids n r0)"
  note w = fresh_session_wf [OF assms, where prng = prng and now = now and r = r0, folded s0_def]
  obtain rs0 r0' where b: "room_begin prng now date ids n True g r0 = Some (rs0, r0')" "rm_session rs0 = s0"
    using assms(2) by (cases "init_session prng now ids n r0") (simp add: room_begin_def s0_def Let_def)
  have e: "session_evolves s0 (rm_session rs)" if "room_run date si st as rs0 r = Some (rs, r')" for rs r'
    using room_run_evolves [OF _ that] w(1) b(2) by simp
  have d: "room_run date si st as rs0 r = None \<longleftrightarrow> (\<exists>(msgs, hubs, gone) \<in> set as. \<exists>m \<in> set (take 64 msgs). parse_hypertext m = Inl HT_OVERRUN)"
    unfolding room_run_defined arrival_fits_def text_fits_def case_prod_beta by blast
  show ?thesis using b(1) d session_evolves_alive [OF e] w e by (fastforce simp: session_evolves_def)
qed

theorem room_sound_witness:
  "\<exists>rs0 r0' rs r'. room_begin (\<lambda>_. sconst 3) (\<lambda>_. 0) [] [1, 2] 2 True \<lparr>hr_count = 0, hr_ids = [], hr_alive = []\<rparr> (sconst 0) = Some (rs0, r0')
   \<and> room_run [] \<lparr>ip_action = 0\<rparr> undefined [([''garbage''], [HUB_GAMEOVER 2], False)] rs0 (sconst 1) = Some (rs, r')
   \<and> session_wf (rm_session rs) \<and> count_alive_players (rm_session rs) \<le> 2"
proof -
  have p: "parse_hypertext ''garbage'' = Inl HT_FAIL" by code_simp
  show ?thesis
    using room_sound [of "[1, 2]" 2 "\<lambda>_. sconst 3" "\<lambda>_. 0" "[]" "\<lparr>hr_count = 0, hr_ids = [], hr_alive = []\<rparr>" "sconst 0"
      "\<lparr>ip_action = 0\<rparr>" undefined "[([''garbage''], [HUB_GAMEOVER 2], False)]" "sconst 1"] p
    by fastforce
qed

subsection \<open>Snapshots\<close>

definition quiet :: "PlayerSlot \<Rightarrow> bool" where
  "quiet sl \<longleftrightarrow> \<not> sl_dirty sl \<and> sl_idle_ticks sl < KEEPALIVE_TICKS"

lemma push_fold:
  assumes "n \<le> length (ss_players (rm_session rs))"
  defines "ps \<equiv> ss_players (rm_session rs)"
  shows "rm_out (fold (push_slot date st) [0..<n] rs)
           = rm_out rs @ concat (map (\<lambda>i. if quiet (ps ! i) then [] else [To_clients (state_message date st (ps ! i))]) [0..<n])"
    and "length (ss_players (rm_session (fold (push_slot date st) [0..<n] rs))) = length ps"
    and "j < length ps \<Longrightarrow> ss_players (rm_session (fold (push_slot date st) [0..<n] rs)) ! j =
           (if j < n then (if quiet (ps ! j) then (ps ! j)\<lparr>sl_idle_ticks := sl_idle_ticks (ps ! j) + 1\<rparr>
                           else (ps ! j)\<lparr>sl_dirty := False, sl_idle_ticks := 0\<rparr>)
            else ps ! j)"
proof -
  let ?P = "\<lambda>n. let q = fold (push_slot date st) [0..<n] rs in
     rm_out q = rm_out rs @ concat (map (\<lambda>i. if quiet (ps ! i) then [] else [To_clients (state_message date st (ps ! i))]) [0..<n])
     \<and> length (ss_players (rm_session q)) = length ps
     \<and> (\<forall>j < length ps. ss_players (rm_session q) ! j =
           (if j < n then (if quiet (ps ! j) then (ps ! j)\<lparr>sl_idle_ticks := sl_idle_ticks (ps ! j) + 1\<rparr>
                           else (ps ! j)\<lparr>sl_dirty := False, sl_idle_ticks := 0\<rparr>)
            else ps ! j))"
  have "?P n" using assms(1)
  proof (induction n)
    case 0
    then show ?case by (simp add: ps_def)
  next
    case (Suc n)
    let ?q = "fold (push_slot date st) [0..<n] rs"
    have q: "rm_out ?q = rm_out rs @ concat (map (\<lambda>i. if quiet (ps ! i) then [] else [To_clients (state_message date st (ps ! i))]) [0..<n])"
      "length (ss_players (rm_session ?q)) = length ps" "n < length ps"
      "\<And>j. j < length ps \<Longrightarrow> ss_players (rm_session ?q) ! j =
           (if j < n then (if quiet (ps ! j) then (ps ! j)\<lparr>sl_idle_ticks := sl_idle_ticks (ps ! j) + 1\<rparr>
                           else (ps ! j)\<lparr>sl_dirty := False, sl_idle_ticks := 0\<rparr>)
            else ps ! j)" using Suc by (auto simp: Let_def ps_def)
    have n: "ss_players (rm_session ?q) ! n = ps ! n" using q(3,4) by simp
    have s: "push_slot date st n ?q =
       (if quiet (ps ! n) then ?q\<lparr>rm_session := set_slot (rm_session ?q) n ((ps ! n)\<lparr>sl_idle_ticks := sl_idle_ticks (ps ! n) + 1\<rparr>)\<rparr>
        else emit [To_clients (state_message date st (ps ! n))]
          (?q\<lparr>rm_session := set_slot (rm_session ?q) n ((ps ! n)\<lparr>sl_dirty := False, sl_idle_ticks := 0\<rparr>)\<rparr>))"
      unfolding push_slot_def Let_def n quiet_def by simp
    show ?case unfolding Let_def upt_Suc_append [OF le0] fold_append comp_def fold_simps s
      using q by (auto simp: emit_def nth_list_update less_Suc_eq)
  qed
  then show "rm_out (fold (push_slot date st) [0..<n] rs)
           = rm_out rs @ concat (map (\<lambda>i. if quiet (ps ! i) then [] else [To_clients (state_message date st (ps ! i))]) [0..<n])"
    "length (ss_players (rm_session (fold (push_slot date st) [0..<n] rs))) = length ps"
    "j < length ps \<Longrightarrow> ss_players (rm_session (fold (push_slot date st) [0..<n] rs)) ! j =
           (if j < n then (if quiet (ps ! j) then (ps ! j)\<lparr>sl_idle_ticks := sl_idle_ticks (ps ! j) + 1\<rparr>
                           else (ps ! j)\<lparr>sl_dirty := False, sl_idle_ticks := 0\<rparr>)
            else ps ! j)" by (auto simp: Let_def)
qed

text \<open>
  Lemma (push_states_exact): the snapshots sent at the end of an iteration are, in slot order, exactly
  those of the players whose board changed or who were quiet for fifty iterations. Those players are
  marked clean with a fresh quiet counter; every other player's counter goes up by one; nothing else
  of any player changes.
\<close>

theorem push_states_exact:
  assumes "session_wf (rm_session rs)" and "j < ss_count (rm_session rs)"
  shows "let ps = ss_players (rm_session rs); rs' = push_states date st rs
         in rm_out rs' = rm_out rs @ concat (map (\<lambda>i. if quiet (ps ! i) then [] else [To_clients (state_message date st (ps ! i))])
                                             [0..<ss_count (rm_session rs)])
          \<and> ss_players (rm_session rs') ! j =
              (if quiet (ps ! j) then (ps ! j)\<lparr>sl_idle_ticks := sl_idle_ticks (ps ! j) + 1\<rparr>
               else (ps ! j)\<lparr>sl_dirty := False, sl_idle_ticks := 0\<rparr>)"
proof -
  have n: "ss_count (rm_session rs) \<le> length (ss_players (rm_session rs))" using assms(1) by (simp add: session_wf_def)
  show ?thesis unfolding Let_def push_states_def
    using push_fold(1) [OF n, of date st] push_fold(3) [OF n, of j date st] assms(2) n by simp
qed

theorem push_states_exact_witness:
  "ss_players (rm_session (push_states [] undefined (fresh_room full_session (\<lparr>hr_count = 0, hr_ids = [], hr_alive = []\<rparr>)))) ! 0
     = (ss_players full_session ! 0)\<lparr>sl_idle_ticks := 1\<rparr>"
  using push_states_exact [of "fresh_room full_session (\<lparr>hr_count = 0, hr_ids = [], hr_alive = []\<rparr>)" 0 "[]" undefined] full_session_wf
  by (simp add: Let_def fresh_room_def full_session_def quiet_def zero_slot_def)

end
