(* ===== verification/Master.thy ===== *)
theory Master
  imports Room
begin

text \<open>
  \<open>tetrisd/main.c\<close>: the master process, which deals clients into rooms, keeps the players of the whole
  match, routes garbage between rooms and decides the end of the match. A room's hub channel is named
  by its slot; what the master sends is collected in order. The results of \<open>socketpair\<close> and \<open>fork\<close>
  are an argument of \<open>spawn_room\<close>: \<open>None\<close> when one of them fails, the worker's pid otherwise.
\<close>

section \<open>State\<close>

record MRoom =
  mr_used :: bool
  mr_ready :: bool
  mr_started :: bool
  mr_pid :: int
  mr_port :: u16
  mr_redirected :: int
  mr_joined :: int
  mr_pending :: "int list"

record PlayerRec =
  pr_id :: u32
  pr_room :: nat
  pr_alive :: bool

datatype master_out = To_room nat HubMsg | Redirect int u16 | Refuse int

record MasterState =
  ms_rooms :: "MRoom list"
  ms_players :: "PlayerRec list"
  ms_room_seq :: u32
  ms_room_size :: int
  ms_any_started :: bool
  ms_match_ended :: bool
  ms_out :: "master_out list"

definition zero_mroom :: MRoom where
  "zero_mroom = \<lparr>mr_used = False, mr_ready = False, mr_started = False, mr_pid = 0, mr_port = 0,
                 mr_redirected = 0, mr_joined = 0, mr_pending = []\<rparr>"

definition master_init :: "int \<Rightarrow> MasterState" where
  "master_init room_size =
     \<lparr>ms_rooms = replicate MAX_ROOMS zero_mroom, ms_players = [], ms_room_seq = 0, ms_room_size = room_size,
      ms_any_started = False, ms_match_ended = False, ms_out = []\<rparr>"

text \<open>The room size that \<open>main\<close> takes from the environment, when it is in range.\<close>

definition configured_room_size :: "int option \<Rightarrow> int" where
  "configured_room_size parsed =
     (case parsed of None \<Rightarrow> int MAX_LOBBY_SIZE
      | Some n \<Rightarrow> if 1 \<le> n \<and> n \<le> int MAX_LOBBY_SIZE then n else int MAX_LOBBY_SIZE)"

definition msend :: "master_out list \<Rightarrow> MasterState \<Rightarrow> MasterState" where
  "msend os ms = ms\<lparr>ms_out := ms_out ms @ os\<rparr>"

abbreviation set_room :: "MasterState \<Rightarrow> nat \<Rightarrow> MRoom \<Rightarrow> MasterState" where
  "set_room ms i rm \<equiv> ms\<lparr>ms_rooms := (ms_rooms ms)[i := rm]\<rparr>"

section \<open>Rooms\<close>

abbreviation (input) ROOM_PORT_BASE :: nat where "ROOM_PORT_BASE \<equiv> 6710"
abbreviation (input) ROOM_UDP_PORT_BASE :: nat where "ROOM_UDP_PORT_BASE \<equiv> 6910"

text \<open>The first player id of the worker that is spawned next.\<close>

definition next_id_base :: "MasterState \<Rightarrow> u32" where
  "next_id_base ms = 1 + ms_room_seq ms * of_nat MAX_LOBBY_SIZE"

definition free_slot :: "MasterState \<Rightarrow> nat option" where
  "free_slot ms = List.find (\<lambda>i. \<not> mr_used (ms_rooms ms ! i)) [0..<MAX_ROOMS]"

definition spawn_room :: "int option \<Rightarrow> MasterState \<Rightarrow> nat option \<times> MasterState" where
  "spawn_room os ms =
     (case free_slot ms of
        None \<Rightarrow> (None, ms)
      | Some slot \<Rightarrow>
          (case os of
             None \<Rightarrow> (None, ms)
           | Some pid \<Rightarrow>
               (Some slot,
                (set_room ms slot (zero_mroom\<lparr>mr_used := True, mr_pid := pid, mr_port := of_nat (ROOM_PORT_BASE + slot)\<rparr>))
                  \<lparr>ms_room_seq := ms_room_seq ms + 1\<rparr>)))"

definition filling_room :: "int option \<Rightarrow> MasterState \<Rightarrow> nat option \<times> MasterState" where
  "filling_room os ms =
     (case List.find (\<lambda>i. mr_used (ms_rooms ms ! i) \<and> \<not> mr_started (ms_rooms ms ! i)
                          \<and> mr_redirected (ms_rooms ms ! i) < ms_room_size ms) [0..<MAX_ROOMS] of
        Some i \<Rightarrow> (Some i, ms)
      | None \<Rightarrow> spawn_room os ms)"

definition accept_client :: "int option \<Rightarrow> int \<Rightarrow> MasterState \<Rightarrow> MasterState" where
  "accept_client os client_fd ms =
     (if client_fd < 0 then ms
      else let (slot, ms1) = filling_room os ms in
           case slot of
             None \<Rightarrow> msend [Refuse client_fd] ms1
           | Some i \<Rightarrow>
               let room = ms_rooms ms1 ! i in
               if mr_ready room
               then msend [Redirect client_fd (mr_port room)]
                      (set_room ms1 i (room\<lparr>mr_redirected := mr_redirected room + 1\<rparr>))
               else if length (mr_pending room) < MAX_LOBBY_SIZE
               then set_room ms1 i (room\<lparr>mr_pending := mr_pending room @ [client_fd], mr_redirected := mr_redirected room + 1\<rparr>)
               else msend [Refuse client_fd] ms1)"

section \<open>Global match tracking\<close>

definition roster_msg :: "MasterState \<Rightarrow> HubRoster" where
  "roster_msg ms =
     \<lparr>hr_count = length (ms_players ms),
      hr_ids = map (\<lambda>i. if i < length (ms_players ms) then pr_id (ms_players ms ! i) else 0) [0..<HUB_MAX_PLAYERS],
      hr_alive = map (\<lambda>i. i < length (ms_players ms) \<and> pr_alive (ms_players ms ! i)) [0..<HUB_MAX_PLAYERS]\<rparr>"

text \<open>The slots of the rooms in use, and of those that are playing.\<close>

definition used_rooms :: "MasterState \<Rightarrow> nat list" where
  "used_rooms ms = filter (\<lambda>i. mr_used (ms_rooms ms ! i)) [0..<MAX_ROOMS]"

definition running_rooms :: "MasterState \<Rightarrow> nat list" where
  "running_rooms ms = filter (\<lambda>i. mr_used (ms_rooms ms ! i) \<and> mr_started (ms_rooms ms ! i)) [0..<MAX_ROOMS]"

definition broadcast_roster :: "MasterState \<Rightarrow> MasterState" where
  "broadcast_roster ms = msend (map (\<lambda>i. To_room i (HUB_ROSTER (roster_msg ms))) (running_rooms ms)) ms"

definition start_room :: "nat \<Rightarrow> MasterState \<Rightarrow> MasterState" where
  "start_room slot ms =
     (let room = ms_rooms ms ! slot in
      if \<not> mr_used room \<or> mr_started room \<or> mr_joined room < 1 then ms
      else broadcast_roster
             ((set_room (msend [To_room slot (HUB_START (word_of_int (mr_redirected room)))] ms) slot (room\<lparr>mr_started := True\<rparr>))
                \<lparr>ms_any_started := True\<rparr>))"

definition start_all_rooms :: "MasterState \<Rightarrow> MasterState" where
  "start_all_rooms ms = fold start_room [0..<MAX_ROOMS] ms"

definition alive_players :: "MasterState \<Rightarrow> PlayerRec list" where
  "alive_players ms = filter pr_alive (ms_players ms)"

definition check_global_end :: "MasterState \<Rightarrow> MasterState" where
  "check_global_end ms =
     (if ms_match_ended ms \<or> length (ms_players ms) = 0 then ms
      else let alive = length (alive_players ms);
               last_alive_id = (if alive = 0 then 0 else pr_id (last (alive_players ms)));
               over = (if length (ms_players ms) \<ge> 2 then alive \<le> 1 else alive = 0)
           in if \<not> over then ms
              else let winner_id = (if alive = 1 then last_alive_id else 0)
                   in msend (map (\<lambda>i. To_room i (HUB_GAMEOVER winner_id)) (used_rooms ms)) (ms\<lparr>ms_match_ended := True\<rparr>))"

definition close_room :: "nat \<Rightarrow> MasterState \<Rightarrow> MasterState" where
  "close_room slot ms =
     (let room = ms_rooms ms ! slot;
          ms1 = set_room (msend (map Refuse (mr_pending room)) ms) slot (room\<lparr>mr_used := False\<rparr>)
      in if ms_match_ended ms1 then ms1
         else let changed = list_ex (\<lambda>p. pr_room p = slot \<and> pr_alive p) (ms_players ms1);
                  ms2 = ms1\<lparr>ms_players := map (\<lambda>p. if pr_room p = slot \<and> pr_alive p then p\<lparr>pr_alive := False\<rparr> else p) (ms_players ms1)\<rparr>
              in if changed then check_global_end (broadcast_roster ms2) else ms2)"

section \<open>Hub traffic\<close>

definition handle_joined :: "nat \<Rightarrow> u32 \<Rightarrow> MasterState \<Rightarrow> MasterState" where
  "handle_joined slot player_id ms =
     (let ms1 = (if length (ms_players ms) < HUB_MAX_PLAYERS
                 then ms\<lparr>ms_players := ms_players ms @ [\<lparr>pr_id = player_id, pr_room = slot, pr_alive = True\<rparr>]\<rparr> else ms);
          room = ms_rooms ms1 ! slot;
          ms2 = broadcast_roster (set_room ms1 slot (room\<lparr>mr_joined := mr_joined room + 1\<rparr>))
      in if int (length (ms_players ms2)) \<ge> ms_room_size ms2 * int MAX_ROOMS then start_all_rooms ms2 else ms2)"

definition handle_attack :: "HubAttack \<Rightarrow> MasterState \<Rightarrow> MasterState" where
  "handle_attack a ms =
     (case List.find (\<lambda>p. pr_id p = ha_victim a \<and> pr_alive p) (ms_players ms) of
        None \<Rightarrow> ms
      | Some p \<Rightarrow>
          let target = ms_rooms ms ! pr_room p in
          if mr_used target \<and> mr_started target then msend [To_room (pr_room p) (HUB_GARBAGE a)] ms else ms)"

definition handle_hub_msg :: "nat \<Rightarrow> HubMsg \<Rightarrow> MasterState \<Rightarrow> MasterState" where
  "handle_hub_msg slot msg ms =
     (case msg of
        HUB_READY \<Rightarrow>
          (let room = ms_rooms ms ! slot
           in set_room (msend (map (\<lambda>fd. Redirect fd (mr_port room)) (mr_pending room)) ms) slot
                (room\<lparr>mr_ready := True, mr_pending := []\<rparr>))
      | HUB_JOINED player_id \<Rightarrow> handle_joined slot player_id ms
      | HUB_ELIMINATED player_id \<Rightarrow>
          check_global_end (broadcast_roster
            (ms\<lparr>ms_players := map (\<lambda>p. if pr_id p = player_id then p\<lparr>pr_alive := False\<rparr> else p) (ms_players ms)\<rparr>))
      | HUB_ATTACK a \<Rightarrow> handle_attack a ms
      | HUB_FEED a \<Rightarrow>
          msend (map (\<lambda>i. To_room i (HUB_FEED a)) (filter (\<lambda>i. i \<noteq> slot) (running_rooms ms))) ms
      | _ \<Rightarrow> ms)"

section \<open>Events of the main loop\<close>

text \<open>What one pass of the loop reacts to, in the order \<open>poll\<close> reports it.\<close>

datatype master_event =
  Connect "int option" int
| Enter_key
| Hub_message nat HubMsg
| Hub_closed nat

fun master_step :: "master_event \<Rightarrow> MasterState \<Rightarrow> MasterState" where
  "master_step (Connect os fd) ms = accept_client os fd ms"
| "master_step Enter_key ms = start_all_rooms ms"
| "master_step (Hub_message slot msg) ms = handle_hub_msg slot msg ms"
| "master_step (Hub_closed slot) ms = close_room slot ms"

text \<open>The loop ends once a match ran and no room is open.\<close>

definition daemon_done :: "MasterState \<Rightarrow> bool" where
  "daemon_done ms \<longleftrightarrow> ms_any_started ms \<and> used_rooms ms = []"

text \<open>The hubs whose \<open>poll\<close> entry is examined belong to rooms in use.\<close>

inductive master_reach :: "MasterState \<Rightarrow> MasterState \<Rightarrow> bool" for ms0 where
  start: "master_reach ms0 ms0"
| connect: "master_reach ms0 ms \<Longrightarrow> master_reach ms0 (master_step (Connect os fd) ms)"
| enter_key: "master_reach ms0 ms \<Longrightarrow> master_reach ms0 (master_step Enter_key ms)"
| hub_message: "master_reach ms0 ms \<Longrightarrow> slot < MAX_ROOMS \<Longrightarrow> mr_used (ms_rooms ms ! slot)
    \<Longrightarrow> master_reach ms0 (master_step (Hub_message slot msg) ms)"
| hub_closed: "master_reach ms0 ms \<Longrightarrow> slot < MAX_ROOMS \<Longrightarrow> mr_used (ms_rooms ms ! slot)
    \<Longrightarrow> master_reach ms0 (master_step (Hub_closed slot) ms)"

inductive_cases master_reach_cases: "master_reach ms0 ms"

section \<open>The invariant of the master\<close>

definition mroom_wf :: "int \<Rightarrow> MRoom \<Rightarrow> bool" where
  "mroom_wf room_size rm \<longleftrightarrow> length (mr_pending rm) \<le> MAX_LOBBY_SIZE \<and> 0 \<le> mr_redirected rm \<and> mr_redirected rm \<le> room_size"

definition gameover_to :: "nat \<Rightarrow> master_out \<Rightarrow> bool" where
  "gameover_to i m \<longleftrightarrow> (\<exists>w. m = To_room i (HUB_GAMEOVER w))"

definition gameovers :: "nat \<Rightarrow> MasterState \<Rightarrow> nat" where
  "gameovers i ms = length (filter (gameover_to i) (ms_out ms))"

definition master_wf :: "MasterState \<Rightarrow> bool" where
  "master_wf ms \<longleftrightarrow> length (ms_rooms ms) = MAX_ROOMS \<and> length (ms_players ms) \<le> HUB_MAX_PLAYERS
     \<and> 1 \<le> ms_room_size ms \<and> ms_room_size ms \<le> int MAX_LOBBY_SIZE
     \<and> (\<forall>rm \<in> set (ms_rooms ms). mroom_wf (ms_room_size ms) rm)
     \<and> (\<forall>i. gameovers i ms \<le> (if ms_match_ended ms then 1 else 0))"

lemma gameovers_send:
  "(\<And>m. m \<in> set os \<Longrightarrow> \<not> gameover_to i m) \<Longrightarrow> gameovers i (msend os ms) = gameovers i ms"
  by (simp add: gameovers_def msend_def filter_empty_conv)

text \<open>Fields that the account of game-over messages does not read.\<close>

lemma gameovers_cong: "ms_out ms = ms_out ms' \<Longrightarrow> gameovers i ms = gameovers i ms'"
  by (simp add: gameovers_def)

lemma master_wf_msend:
  assumes "master_wf ms" and "\<And>i m. m \<in> set os \<Longrightarrow> \<not> gameover_to i m"
  shows "master_wf (msend os ms)"
  using assms(1) gameovers_send [OF assms(2), where ms = ms] by (simp add: master_wf_def msend_def)

lemma master_wf_set_room:
  assumes "master_wf ms" and "mroom_wf (ms_room_size ms) rm"
  shows "master_wf (set_room ms i rm)"
  using assms gameovers_cong [of "set_room ms i rm" ms]
  by (auto simp: master_wf_def dest: set_update_subset_insert [THEN subsetD])

lemma master_wf_frame [simp]:
  "master_wf (ms\<lparr>ms_room_seq := v1\<rparr>) = master_wf ms"
  "master_wf (ms\<lparr>ms_any_started := v2\<rparr>) = master_wf ms"
  by (simp_all add: master_wf_def gameovers_def)

lemma master_wf_players:
  "master_wf ms \<Longrightarrow> length ps \<le> HUB_MAX_PLAYERS \<Longrightarrow> master_wf (ms\<lparr>ms_players := ps\<rparr>)"
  by (simp add: master_wf_def gameovers_def)

lemma master_wf_room: "master_wf ms \<Longrightarrow> i < MAX_ROOMS \<Longrightarrow> mroom_wf (ms_room_size ms) (ms_rooms ms ! i)"
  by (simp add: master_wf_def)

lemma msend_fields [simp]:
  "ms_rooms (msend os ms) = ms_rooms ms" "ms_room_size (msend os ms) = ms_room_size ms"
  "ms_players (msend os ms) = ms_players ms" "ms_match_ended (msend os ms) = ms_match_ended ms"
  by (simp_all add: msend_def)

lemma broadcast_roster_fields [simp]:
  "ms_rooms (broadcast_roster ms) = ms_rooms ms" "ms_room_size (broadcast_roster ms) = ms_room_size ms"
  "ms_players (broadcast_roster ms) = ms_players ms" "ms_match_ended (broadcast_roster ms) = ms_match_ended ms"
  by (simp_all add: broadcast_roster_def)

lemma broadcast_roster_wf [wf_intros]: "master_wf ms \<Longrightarrow> master_wf (broadcast_roster ms)"
  unfolding broadcast_roster_def by (rule master_wf_msend) (auto simp: gameover_to_def)

lemma start_room_wf: "master_wf ms \<Longrightarrow> i < MAX_ROOMS \<Longrightarrow> master_wf (start_room i ms)"
proof (cases "\<not> mr_used (ms_rooms ms ! i) \<or> mr_started (ms_rooms ms ! i) \<or> mr_joined (ms_rooms ms ! i) < 1")
  case False
  assume wf: "master_wf ms" "i < MAX_ROOMS"
  let ?rm = "ms_rooms ms ! i" and ?o = "[To_room i (HUB_START (word_of_int (mr_redirected (ms_rooms ms ! i))))]"
  have "master_wf (msend ?o ms)" using wf(1) by (rule master_wf_msend) (auto simp: gameover_to_def)
  then have "master_wf (set_room (msend ?o ms) i (?rm\<lparr>mr_started := True\<rparr>))"
    using master_wf_room [OF wf] by (intro master_wf_set_room) (simp_all add: mroom_wf_def)
  then have "master_wf ((set_room (msend ?o ms) i (?rm\<lparr>mr_started := True\<rparr>))\<lparr>ms_any_started := True\<rparr>)" by simp
  then have "master_wf (broadcast_roster ((set_room (msend ?o ms) i (?rm\<lparr>mr_started := True\<rparr>))\<lparr>ms_any_started := True\<rparr>))"
    by (rule broadcast_roster_wf)
  then show ?thesis using False by (simp add: start_room_def Let_def)
qed (simp add: start_room_def)

lemma start_all_rooms_wf [wf_intros]: "master_wf ms \<Longrightarrow> master_wf (start_all_rooms ms)"
proof -
  have "master_wf (fold start_room is ms)" if "master_wf ms" "\<forall>i \<in> set is. i < MAX_ROOMS" for "is"
    using that by (induction "is" arbitrary: ms) (simp_all add: start_room_wf)
  then show "master_wf ms \<Longrightarrow> master_wf (start_all_rooms ms)" by (simp add: start_all_rooms_def)
qed

lemma used_rooms_distinct: "distinct (used_rooms ms)"
  by (simp add: used_rooms_def)

text \<open>Deciding the match sends one message to each room in use, and only when none was sent before.\<close>

lemma check_global_end_wf [wf_intros]:
  assumes "master_wf ms"
  shows "master_wf (check_global_end ms)"
proof (cases "check_global_end ms = ms")
  case False
  then obtain w where c: "\<not> ms_match_ended ms"
    "check_global_end ms = msend (map (\<lambda>i. To_room i (HUB_GAMEOVER w)) (used_rooms ms)) (ms\<lparr>ms_match_ended := True\<rparr>)"
    by (auto simp: check_global_end_def Let_def split: if_splits)
  have "gameovers i ms = 0" for i using assms c(1) by (simp add: master_wf_def)
  moreover have "length (filter (gameover_to i) (map (\<lambda>i. To_room i (HUB_GAMEOVER w)) (used_rooms ms))) \<le> 1" for i
  proof -
    have "gameover_to i \<circ> (\<lambda>i. To_room i (HUB_GAMEOVER w)) = (\<lambda>j. j = i)" by (auto simp: gameover_to_def)
    then have "length (filter (gameover_to i) (map (\<lambda>i. To_room i (HUB_GAMEOVER w)) (used_rooms ms))) = card ({j. j = i} \<inter> set (used_rooms ms))"
      by (simp add: filter_map distinct_length_filter [OF used_rooms_distinct])
    also have "\<dots> \<le> card {i}" by (rule card_mono) auto
    finally show ?thesis by simp
  qed
  ultimately have "gameovers i (check_global_end ms) \<le> 1" for i
    unfolding c(2) by (simp add: gameovers_def msend_def)
  then show ?thesis using assms by (simp add: master_wf_def c(2) msend_def)
qed (use assms in simp)

lemma no_gameover [simp]:
  "\<not> gameover_to i (Refuse fd)" "\<not> gameover_to i (Redirect fd p)" "\<not> gameover_to i (To_room j (HUB_GARBAGE a))"
  "\<not> gameover_to i (To_room j (HUB_FEED a))"
  by (simp_all add: gameover_to_def)

lemma close_room_wf: "master_wf ms \<Longrightarrow> slot < MAX_ROOMS \<Longrightarrow> master_wf (close_room slot ms)"
proof -
  assume wf: "master_wf ms" "slot < MAX_ROOMS"
  let ?rm = "ms_rooms ms ! slot"
  define ms1 where "ms1 = set_room (msend (map Refuse (mr_pending ?rm)) ms) slot (?rm\<lparr>mr_used := False\<rparr>)"
  have "master_wf (msend (map Refuse (mr_pending ?rm)) ms)" using wf(1) by (rule master_wf_msend) auto
  then have w1: "master_wf ms1"
    unfolding ms1_def using master_wf_room [OF wf] by (intro master_wf_set_room) (simp_all add: mroom_wf_def)
  define ms2 where "ms2 = ms1\<lparr>ms_players := map (\<lambda>p. if pr_room p = slot \<and> pr_alive p then p\<lparr>pr_alive := False\<rparr> else p) (ms_players ms1)\<rparr>"
  have w2: "master_wf ms2" unfolding ms2_def using w1 by (intro master_wf_players) (simp_all add: master_wf_def)
  have "close_room slot ms = ms1 \<or> close_room slot ms = ms2 \<or> close_room slot ms = check_global_end (broadcast_roster ms2)"
    by (simp add: close_room_def Let_def ms1_def ms2_def)
  then show ?thesis using w1 w2 broadcast_roster_wf check_global_end_wf by metis
qed

lemma handle_joined_wf: "master_wf ms \<Longrightarrow> slot < MAX_ROOMS \<Longrightarrow> master_wf (handle_joined slot p ms)"
proof -
  assume wf: "master_wf ms" "slot < MAX_ROOMS"
  define ms1 where "ms1 = (if length (ms_players ms) < HUB_MAX_PLAYERS
      then ms\<lparr>ms_players := ms_players ms @ [\<lparr>pr_id = p, pr_room = slot, pr_alive = True\<rparr>]\<rparr> else ms)"
  have w1: "master_wf ms1" unfolding ms1_def using wf(1) by (auto intro: master_wf_players)
  define ms2 where "ms2 = broadcast_roster (set_room ms1 slot ((ms_rooms ms1 ! slot)\<lparr>mr_joined := mr_joined (ms_rooms ms1 ! slot) + 1\<rparr>))"
  have "master_wf ms2" unfolding ms2_def using master_wf_room [OF w1 wf(2)] w1
    by (intro broadcast_roster_wf master_wf_set_room) (simp_all add: mroom_wf_def)
  moreover have "handle_joined slot p ms = start_all_rooms ms2 \<or> handle_joined slot p ms = ms2"
    unfolding handle_joined_def Let_def ms1_def [symmetric] ms2_def [symmetric] by simp
  ultimately show ?thesis using start_all_rooms_wf by metis
qed

lemma handle_hub_msg_wf:
  assumes "master_wf ms" and "slot < MAX_ROOMS"
  shows "master_wf (handle_hub_msg slot msg ms)"
proof (cases msg)
  case HUB_READY
  have "master_wf (msend (map (\<lambda>fd. Redirect fd (mr_port (ms_rooms ms ! slot))) (mr_pending (ms_rooms ms ! slot))) ms)"
    using assms(1) by (rule master_wf_msend) auto
  then show ?thesis
    using HUB_READY master_wf_room [OF assms]
      master_wf_set_room [where i = slot and rm = "(ms_rooms ms ! slot)\<lparr>mr_ready := True, mr_pending := []\<rparr>"]
    by (force simp: handle_hub_msg_def Let_def mroom_wf_def)
next
  case (HUB_ATTACK a)
  have "master_wf (msend [To_room i (HUB_GARBAGE a)] ms)" for i using assms(1) by (rule master_wf_msend) auto
  then show ?thesis using HUB_ATTACK assms(1) by (simp add: handle_hub_msg_def handle_attack_def Let_def split: option.splits)
next
  case (HUB_FEED a)
  have "master_wf (msend (map (\<lambda>i. To_room i (HUB_FEED a)) is) ms)" for "is" using assms(1) by (rule master_wf_msend) auto
  then show ?thesis using HUB_FEED by (simp add: handle_hub_msg_def)
next
  case (HUB_ELIMINATED p)
  have "master_wf (ms\<lparr>ms_players := map f (ms_players ms)\<rparr>)" for f
    using assms(1) by (intro master_wf_players) (simp_all add: master_wf_def)
  then show ?thesis using HUB_ELIMINATED by (simp add: handle_hub_msg_def broadcast_roster_wf check_global_end_wf)
qed (use assms in \<open>simp_all add: handle_hub_msg_def handle_joined_wf\<close>)

lemma filling_room_spec:
  assumes "master_wf ms" and "filling_room os ms = (Some i, ms')"
  shows "master_wf ms'" "i < MAX_ROOMS" "mr_redirected (ms_rooms ms' ! i) < ms_room_size ms'"
proof -
  have l: "length (ms_rooms ms) = 32" using assms(1) by (simp add: master_wf_def)
  have "master_wf ms' \<and> i < MAX_ROOMS \<and> mr_redirected (ms_rooms ms' ! i) < ms_room_size ms'"
  proof (cases "List.find (\<lambda>i. mr_used (ms_rooms ms ! i) \<and> \<not> mr_started (ms_rooms ms ! i)
                          \<and> mr_redirected (ms_rooms ms ! i) < ms_room_size ms) [0..<MAX_ROOMS]")
    case (Some j)
    then have "j < 32 \<and> mr_redirected (ms_rooms ms ! j) < ms_room_size ms" using find_upt_range [OF Some] by simp
    then show ?thesis using assms Some by (simp add: filling_room_def)
  next
    case None
    then obtain pid where s: "free_slot ms = Some i" "os = Some pid"
      "ms' = (set_room ms i (zero_mroom\<lparr>mr_used := True, mr_pid := pid, mr_port := of_nat (ROOM_PORT_BASE + i)\<rparr>))
                  \<lparr>ms_room_seq := ms_room_seq ms + 1\<rparr>"
      using assms(2) by (auto simp: filling_room_def spawn_room_def split: option.splits)
    have i: "i < 32" using find_upt_range [OF s(1) [unfolded free_slot_def]] by simp
    have "mroom_wf (ms_room_size ms) (zero_mroom\<lparr>mr_used := True, mr_pid := pid, mr_port := of_nat (ROOM_PORT_BASE + i)\<rparr>)"
      using assms(1) by (simp add: mroom_wf_def zero_mroom_def master_wf_def)
    then have "master_wf ms'" unfolding s(3) using master_wf_set_room [OF assms(1)] by simp
    then show ?thesis using i l assms(1) by (simp add: s(3) zero_mroom_def master_wf_def)
  qed
  then show "master_wf ms'" "i < MAX_ROOMS" "mr_redirected (ms_rooms ms' ! i) < ms_room_size ms'" by auto
qed

lemma filling_room_none: "filling_room os ms = (None, ms') \<Longrightarrow> ms' = ms"
  by (auto simp: filling_room_def spawn_room_def split: option.splits)

lemma accept_client_wf: "master_wf ms \<Longrightarrow> master_wf (accept_client os fd ms)"
proof -
  assume wf: "master_wf ms"
  obtain so ms1 where f: "filling_room os ms = (so, ms1)" by (cases "filling_room os ms")
  show ?thesis
  proof (cases so)
    case None
    have "master_wf (msend [Refuse fd] ms)" using wf by (rule master_wf_msend) auto
    then show ?thesis using f None filling_room_none [of os ms ms1] wf by (simp add: accept_client_def)
  next
    case (Some i)
    note s = filling_room_spec [OF wf f [unfolded Some]]
    let ?rm = "ms_rooms ms1 ! i"
    have rm: "mroom_wf (ms_room_size ms1) ?rm" by (rule master_wf_room [OF s(1,2)])
    have 1: "master_wf (msend [Redirect fd (mr_port ?rm)] (set_room ms1 i (?rm\<lparr>mr_redirected := mr_redirected ?rm + 1\<rparr>)))"
      using rm s(1,3) by (intro master_wf_msend master_wf_set_room) (auto simp: mroom_wf_def)
    have 2: "master_wf (set_room ms1 i (?rm\<lparr>mr_pending := mr_pending ?rm @ [fd], mr_redirected := mr_redirected ?rm + 1\<rparr>))"
      if "length (mr_pending ?rm) < 2" using that rm s(1,3) by (intro master_wf_set_room) (auto simp: mroom_wf_def)
    have 3: "master_wf (msend [Refuse fd] ms1)" using s(1) by (rule master_wf_msend) auto
    show ?thesis using f Some wf 1 2 3 by (simp add: accept_client_def Let_def)
  qed
qed

lemma master_init_wf: "1 \<le> n \<Longrightarrow> n \<le> int MAX_LOBBY_SIZE \<Longrightarrow> master_wf (master_init n)"
  by (simp add: master_wf_def master_init_def mroom_wf_def zero_mroom_def gameovers_def)

lemma master_reach_wf: "master_reach ms0 ms \<Longrightarrow> master_wf ms0 \<Longrightarrow> master_wf ms"
  by (induction rule: master_reach.induct)
     (simp_all add: accept_client_wf start_all_rooms_wf handle_hub_msg_wf close_room_wf)

section \<open>Properties of the master\<close>

text \<open>
  C7 (master_sound): in every state the master can reach by connections, ENTER, worker messages and
  closed channels in any order, no room was dealt more clients than the room size, no more than two
  clients are parked for a room, at most 64 players are recorded, and the result of the match was sent
  at most once to each room, and not at all before the match has ended.
\<close>

theorem master_sound:
  assumes "1 \<le> n" and "n \<le> int MAX_LOBBY_SIZE" and "master_reach (master_init n) ms" and "i < MAX_ROOMS"
  shows "length (mr_pending (ms_rooms ms ! i)) \<le> MAX_LOBBY_SIZE \<and> mr_redirected (ms_rooms ms ! i) \<le> n
       \<and> length (ms_players ms) \<le> HUB_MAX_PLAYERS
       \<and> gameovers i ms \<le> 1 \<and> (\<not> ms_match_ended ms \<longrightarrow> gameovers i ms = 0)"
proof -
  have w: "master_wf ms" by (rule master_reach_wf [OF assms(3) master_init_wf [OF assms(1,2)]])
  have "ms_room_size ms = n"
    using assms(3)
  proof (induction rule: master_reach.induct)
    case (connect ms os fd)
    then show ?case by (auto simp: accept_client_def filling_room_def spawn_room_def Let_def split: option.splits prod.splits)
  next
    case (enter_key ms)
    have "ms_room_size (fold start_room is s) = ms_room_size s" for "is" s
      by (induction "is" arbitrary: s) (auto simp: start_room_def Let_def)
    then show ?case using enter_key by (simp add: start_all_rooms_def)
  next
    case (hub_message ms slot msg)
    have "ms_room_size (fold start_room is s) = ms_room_size s" for "is" s
      by (induction "is" arbitrary: s) (auto simp: start_room_def Let_def)
    then show ?case using hub_message
      by (cases msg) (auto simp: handle_hub_msg_def handle_joined_def start_all_rooms_def handle_attack_def check_global_end_def Let_def
          split: option.splits)
  next
    case (hub_closed ms slot)
    then show ?case by (auto simp: close_room_def check_global_end_def Let_def)
  qed (simp add: master_init_def)
  then show ?thesis using master_wf_room [OF w assms(4)] w
    by (auto simp: mroom_wf_def master_wf_def split: if_splits)
qed

theorem master_sound_witness:
  "gameovers 0 (master_step (Hub_message 0 (HUB_ELIMINATED 1)) (master_step (Connect (Some 77) 5) (master_init 2))) \<le> 1"
proof -
  have "master_reach (master_init 2) (master_step (Connect (Some 77) 5) (master_init 2))"
    by (rule master_reach.connect [OF master_reach.start])
  moreover have "free_slot (master_init 2) = Some 0" by (simp add: free_slot_def master_init_def zero_mroom_def upt_rec)
  moreover have "List.find (\<lambda>i. mr_used (ms_rooms (master_init 2) ! i) \<and> \<not> mr_started (ms_rooms (master_init 2) ! i)
      \<and> mr_redirected (ms_rooms (master_init 2) ! i) < ms_room_size (master_init 2)) [0..<MAX_ROOMS] = None"
    by (auto simp: find_None_iff master_init_def zero_mroom_def)
  ultimately have "master_reach (master_init 2) (master_step (Hub_message 0 (HUB_ELIMINATED 1)) (master_step (Connect (Some 77) 5) (master_init 2)))"
    by (intro master_reach.hub_message)
       (simp_all add: accept_client_def filling_room_def spawn_room_def Let_def master_init_def zero_mroom_def)
  then show ?thesis using master_sound [of 2 _ 0] by simp
qed

text \<open>
  Lemma (match_end_decided): the match is decided exactly when it has not been decided before and at most
  one of at least two players is alive, or the only player is out. Every room in use is then told the
  same result: the id of the last player alive, or 0 when there is none.
\<close>

theorem match_end_decided:
  "check_global_end ms =
     (if \<not> ms_match_ended ms \<and> (2 \<le> length (ms_players ms) \<and> length (alive_players ms) \<le> 1
                                \<or> length (ms_players ms) = 1 \<and> alive_players ms = [])
      then msend (map (\<lambda>i. To_room i (HUB_GAMEOVER (case alive_players ms of [p] \<Rightarrow> pr_id p | _ \<Rightarrow> 0))) (used_rooms ms))
             (ms\<lparr>ms_match_ended := True\<rparr>)
      else ms)"
proof (cases "alive_players ms")
  case Nil
  then show ?thesis by (cases "ms_players ms") (auto simp: check_global_end_def Let_def Suc_le_eq)
next
  case (Cons p ps)
  then have "ms_players ms \<noteq> []" by (auto simp: alive_players_def)
  then show ?thesis using Cons by (cases ps) (auto simp: check_global_end_def Let_def)
qed

text \<open>
  Lemma (garbage_routed_to_victim): an attack that a worker passes on produces at most one message. It is
  the attack itself, it goes to a room in use that is playing, and the recorded room of a living player
  with the victim's id; an attack on an unknown or dead player is dropped, and nothing but the sent
  messages changes.
\<close>

theorem garbage_routed_to_victim:
  "(\<exists>k. handle_hub_msg slot (HUB_ATTACK a) ms = msend [To_room k (HUB_GARBAGE a)] ms
       \<and> mr_used (ms_rooms ms ! k) \<and> mr_started (ms_rooms ms ! k)
       \<and> (\<exists>p \<in> set (ms_players ms). pr_id p = ha_victim a \<and> pr_alive p \<and> pr_room p = k))
   \<or> (handle_hub_msg slot (HUB_ATTACK a) ms = ms
      \<and> ((\<forall>p \<in> set (ms_players ms). pr_id p = ha_victim a \<longrightarrow> \<not> pr_alive p)
         \<or> (\<exists>p \<in> set (ms_players ms). pr_id p = ha_victim a \<and> pr_alive p
              \<and> \<not> (mr_used (ms_rooms ms ! pr_room p) \<and> mr_started (ms_rooms ms ! pr_room p)))))"
proof (cases "List.find (\<lambda>p. pr_id p = ha_victim a \<and> pr_alive p) (ms_players ms)")
  case None
  then have "\<forall>p \<in> set (ms_players ms). pr_id p = ha_victim a \<longrightarrow> \<not> pr_alive p" by (simp add: find_None_iff)
  then show ?thesis using None by (simp add: handle_hub_msg_def handle_attack_def)
next
  case (Some p)
  then have "p \<in> set (ms_players ms) \<and> pr_id p = ha_victim a \<and> pr_alive p" by (metis (mono_tags, lifting) find_Some_iff nth_mem)
  then show ?thesis using Some by (auto simp: handle_hub_msg_def handle_attack_def Let_def)
qed

theorem garbage_routed_to_victim_witness:
  "handle_hub_msg 0 (HUB_ATTACK \<lparr>ha_attacker = 1, ha_victim = 9, ha_lines = 4\<rparr>) (master_init 2) = master_init 2"
  using garbage_routed_to_victim [of 0 "\<lparr>ha_attacker = 1, ha_victim = 9, ha_lines = 4\<rparr>" "master_init 2"]
  by (simp add: master_init_def)

text \<open>
  Lemma (id_blocks_disjoint): the workers spawned as number \<open>s\<close> and number \<open>t\<close> hand out player ids from
  blocks of two that have no id in common and do not contain 0, as long as fewer than \<open>2^31 - 1\<close> workers
  are spawned, and every spawn moves on to the next block.
\<close>

theorem id_blocks_disjoint:
  assumes "ms_room_seq m1 < ms_room_seq m2" and "unat (ms_room_seq m2) < 2 ^ 31 - 1" and "i < MAX_LOBBY_SIZE" and "j < MAX_LOBBY_SIZE"
  shows "next_id_base m1 + of_nat i \<noteq> next_id_base m2 + of_nat j \<and> next_id_base m1 + of_nat i \<noteq> 0
       \<and> (fst (spawn_room os m1) \<noteq> None \<longrightarrow> ms_room_seq (snd (spawn_room os m1)) = ms_room_seq m1 + 1)"
proof -
  have u: "unat (next_id_base m + of_nat k) = 1 + 2 * unat (ms_room_seq m) + k"
    if "unat (ms_room_seq m) < 2 ^ 31 - 1" "k < 2" for m k
  proof -
    let ?s = "unat (ms_room_seq m)"
    have "next_id_base m + of_nat k = (of_nat (1 + 2 * ?s + k) :: u32)" by (simp add: next_id_base_def)
    moreover have "unat (of_nat (1 + 2 * ?s + k) :: u32) = 1 + 2 * ?s + k"
      using that by (intro unat_of_nat_u32) simp
    ultimately show ?thesis by (simp only:)
  qed
  have lt: "unat (ms_room_seq m1) < unat (ms_room_seq m2)" using assms(1) by (simp add: word_less_nat_alt)
  have 1: "unat (next_id_base m1 + of_nat i) = 1 + 2 * unat (ms_room_seq m1) + i"
    using u [of m1 i] lt assms(2,3) by simp
  have 2: "unat (next_id_base m2 + of_nat j) = 1 + 2 * unat (ms_room_seq m2) + j"
    using u [of m2 j] assms(2,4) by simp
  have "unat (next_id_base m1 + of_nat i) \<noteq> unat (next_id_base m2 + of_nat j)"
    using 1 2 lt assms(3,4) by presburger
  moreover have "next_id_base m1 + of_nat i \<noteq> 0" using 1 by (metis Suc_eq_plus1_left add_Suc nat.distinct(1) unat_0)
  ultimately show ?thesis by (auto simp: spawn_room_def split: option.splits)
qed

theorem id_blocks_disjoint_witness:
  "next_id_base (master_init 2) + of_nat 1 \<noteq> next_id_base ((master_init 2)\<lparr>ms_room_seq := 1\<rparr>) + of_nat 0"
  using id_blocks_disjoint [of "master_init 2" "(master_init 2)\<lparr>ms_room_seq := 1\<rparr>" 1 0 None]
  by (simp add: master_init_def)

end
