(* ===== verification/Master_Main.thy ===== *)
theory Master_Main
  imports Master "HOL-Library.Multiset"
begin

text \<open>
  \<open>main\<close> of \<open>tetrisd/main.c\<close> around the handlers of \<open>Master\<close>: the start, the poll loop in the order in which it looks at its descriptors, and the shut-down. The interfaces of the machine,
  the results of the system calls and what every descriptor delivers are arguments. A connection that the master accepts is answered with a redirection or closed; the
  theorems follow the connections through the run.
\<close>

section \<open>Start\<close>

text \<open>An interface of the machine: whether it has an IPv4 address, whether it is the loopback, and the text of \<open>inet_ntop\<close>.\<close>

record interface =
  if_inet :: bool
  if_loopback :: bool
  if_text :: "string option"

fun find_lan_ip :: "interface list \<Rightarrow> string" where
  "find_lan_ip [] = ''''"
| "find_lan_ip (ifa # ifs) =
     (if \<not> if_inet ifa \<or> if_loopback ifa then find_lan_ip ifs
      else case if_text ifa of None \<Rightarrow> find_lan_ip ifs | Some t \<Rightarrow> t)"

text \<open>The descriptor that listens, and the descriptors closed on the way.\<close>

definition master_listen :: "int \<Rightarrow> int \<Rightarrow> int \<Rightarrow> int \<times> int list" where
  "master_listen fd bind_r listen_r =
     (if fd < 0 then (-1, []) else if bind_r < 0 \<or> listen_r < 0 then (-1, [fd]) else (fd, []))"

definition master_start :: "int option \<Rightarrow> int \<Rightarrow> int \<Rightarrow> int \<Rightarrow> MasterState option" where
  "master_start size_env fd bind_r listen_r =
     (if fst (master_listen fd bind_r listen_r) < 0 then None else Some (master_init (configured_room_size size_env)))"

section \<open>The loop\<close>

text \<open>
  What a pass finds: the result of \<open>poll\<close>; the listening socket, what \<open>accept\<close> returns and whether a worker can be forked; the
  terminal and what \<open>read\<close> yields; for each room the messages until \<open>hub_recv\<close> is not 1, and whether it then is negative.
\<close>

record master_poll =
  mp_poll :: int
  mp_listen :: bool
  mp_accept :: int
  mp_fork :: "int option"
  mp_stdin :: bool
  mp_read :: "string option"
  mp_hub :: "nat \<Rightarrow> (HubMsg list \<times> bool) option"

definition drain_hub :: "master_poll \<Rightarrow> nat \<Rightarrow> MasterState \<Rightarrow> MasterState" where
  "drain_hub ev slot ms =
     (case mp_hub ev slot of
        None \<Rightarrow> ms
      | Some (msgs, gone) \<Rightarrow> (let ms' = fold (handle_hub_msg slot) msgs ms in if gone then close_room slot ms' else ms'))"

definition read_stdin :: "master_poll \<Rightarrow> bool \<times> MasterState \<Rightarrow> bool \<times> MasterState" where
  "read_stdin ev st =
     (if fst st \<and> mp_stdin ev
      then (case mp_read ev of
              None \<Rightarrow> (False, snd st)
            | Some input \<Rightarrow> (True, if CHR 0x0A \<in> set (take 64 input) then start_all_rooms (snd st) else snd st))
      else st)"

definition master_pass :: "master_poll \<Rightarrow> bool \<times> MasterState \<Rightarrow> bool \<times> MasterState" where
  "master_pass ev st =
     (let slots = used_rooms (snd st);
          ms1 = (if mp_listen ev then accept_client (mp_fork ev) (mp_accept ev) (snd st) else snd st);
          (stdin_open, ms2) = read_stdin ev (fst st, ms1)
      in (stdin_open, fold (drain_hub ev) slots ms2))"

text \<open>The loop yields the state in which it is left, and the passes that it did not make.\<close>

fun master_loop :: "(bool \<times> master_poll) list \<Rightarrow> bool \<times> MasterState \<Rightarrow> (bool \<times> MasterState) \<times> (bool \<times> master_poll) list" where
  "master_loop [] st = (st, [])"
| "master_loop ((stop_requested, ev) # es) st =
     (if stop_requested then (st, (stop_requested, ev) # es)
      else if mp_poll ev < 0 then master_loop es st
      else if daemon_done (snd (master_pass ev st)) then (master_pass ev st, es)
      else master_loop es (master_pass ev st))"

definition shutdown_room :: "nat \<Rightarrow> MasterState \<Rightarrow> MasterState" where
  "shutdown_room i ms = (if mr_used (ms_rooms ms ! i) then close_room i ms else ms)"

definition master_shutdown :: "MasterState \<Rightarrow> MasterState" where
  "master_shutdown ms = fold shutdown_room [0..<MAX_ROOMS] ms"

section \<open>Every state of the program is one that the handlers reach\<close>

lemma nth_update_any: "rs[i := x] ! j = (if i = j \<and> j < length rs then x else rs ! j)"
  by (induction rs arbitrary: i j) (auto split: nat.split simp: nth_Cons')

text \<open>Which rooms are in use changes only where a room is opened or closed.\<close>

lemma use_kept [simp]:
  "mr_used (ms_rooms (start_room i ms) ! j) = mr_used (ms_rooms ms ! j)"
  "mr_used (ms_rooms (start_all_rooms ms) ! j) = mr_used (ms_rooms ms ! j)"
  "mr_used (ms_rooms (check_global_end ms) ! j) = mr_used (ms_rooms ms ! j)"
  "mr_used (ms_rooms (handle_hub_msg slot msg ms) ! j) = mr_used (ms_rooms ms ! j)"
proof -
  show s: "mr_used (ms_rooms (start_room i ms) ! j) = mr_used (ms_rooms ms ! j)" for i ms
    by (simp add: start_room_def nth_update_any Let_def)
  have "mr_used (ms_rooms (fold start_room is ms) ! j) = mr_used (ms_rooms ms ! j)" for "is" ms
    by (induction "is" arbitrary: ms) (simp_all add: s)
  then show a: "mr_used (ms_rooms (start_all_rooms ms) ! j) = mr_used (ms_rooms ms ! j)" for ms by (simp add: start_all_rooms_def)
  show c: "mr_used (ms_rooms (check_global_end ms) ! j) = mr_used (ms_rooms ms ! j)" for ms by (simp add: check_global_end_def Let_def)
  have u: "mr_used ((ms_rooms ms)[slot := rm] ! j) = mr_used (ms_rooms ms ! j)" if "mr_used rm = mr_used (ms_rooms ms ! slot)" for rm
    using that by (auto simp: nth_update_any)
  show "mr_used (ms_rooms (handle_hub_msg slot msg ms) ! j) = mr_used (ms_rooms ms ! j)"
    by (cases msg) (simp_all add: handle_hub_msg_def handle_joined_def handle_attack_def a c u Let_def split: option.split)
qed

lemma close_room_use: "slot < length (ms_rooms ms) \<Longrightarrow> mr_used (ms_rooms (close_room slot ms) ! j) = (j \<noteq> slot \<and> mr_used (ms_rooms ms ! j))"
  by (cases "j = slot") (auto simp: close_room_def Let_def)

lemma accept_client_use: "mr_used (ms_rooms ms ! j) \<Longrightarrow> mr_used (ms_rooms (accept_client os fd ms) ! j)"
proof -
  have u: "mr_used (rs[i := rm] ! j)" if "mr_used (rs ! j)" "i = j \<Longrightarrow> mr_used rm" for rs i rm
    using that by (auto simp: nth_update_any)
  show "mr_used (ms_rooms ms ! j) \<Longrightarrow> mr_used (ms_rooms (accept_client os fd ms) ! j)"
    by (auto simp: accept_client_def filling_room_def spawn_room_def Let_def intro!: u split: option.split)
qed

lemma hub_messages_reach:
  assumes "master_reach ms0 ms" and "slot < MAX_ROOMS" and "mr_used (ms_rooms ms ! slot)"
  shows "master_reach ms0 (fold (handle_hub_msg slot) msgs ms) \<and> (\<forall>j. mr_used (ms_rooms (fold (handle_hub_msg slot) msgs ms) ! j) = mr_used (ms_rooms ms ! j))"
  using assms
proof (induction msgs arbitrary: ms)
  case (Cons m msgs)
  have "master_reach ms0 (handle_hub_msg slot m ms)" using master_reach.hub_message [OF Cons.prems] by simp
  then show ?case using Cons.IH [of "handle_hub_msg slot m ms"] Cons.prems by simp
qed simp

lemma rooms_of_reach: "master_reach ms0 ms \<Longrightarrow> master_wf ms0 \<Longrightarrow> length (ms_rooms ms) = MAX_ROOMS"
  using master_reach_wf by (auto simp: master_wf_def)

lemma drain_hub_reach:
  assumes "master_reach ms0 ms" and "master_wf ms0" and "slot < MAX_ROOMS" and "mr_used (ms_rooms ms ! slot)"
  shows "master_reach ms0 (drain_hub ev slot ms) \<and> (\<forall>j. j \<noteq> slot \<longrightarrow> mr_used (ms_rooms (drain_hub ev slot ms) ! j) = mr_used (ms_rooms ms ! j))"
proof (cases "mp_hub ev slot")
  case (Some mg)
  obtain msgs gone where mg: "mg = (msgs, gone)" by (cases mg)
  let ?ms = "fold (handle_hub_msg slot) msgs ms"
  have r: "master_reach ms0 ?ms" and u: "mr_used (ms_rooms ?ms ! j) = mr_used (ms_rooms ms ! j)" for j
    using hub_messages_reach [OF assms(1,3,4)] by auto
  have "master_reach ms0 (close_room slot ?ms)" using master_reach.hub_closed [OF r assms(3)] u assms(4) by simp
  then show ?thesis using r u Some mg close_room_use [of slot ?ms] rooms_of_reach [OF r assms(2)] assms(3) by (simp add: drain_hub_def Let_def)
qed (use assms in \<open>simp add: drain_hub_def\<close>)

lemma drain_hubs_reach:
  assumes "master_reach ms0 ms" and "master_wf ms0" and "distinct slots" and "\<forall>i \<in> set slots. i < MAX_ROOMS \<and> mr_used (ms_rooms ms ! i)"
  shows "master_reach ms0 (fold (drain_hub ev) slots ms)"
  using assms
proof (induction slots arbitrary: ms)
  case (Cons i slots)
  have d: "master_reach ms0 (drain_hub ev i ms)" "\<And>j. j \<noteq> i \<Longrightarrow> mr_used (ms_rooms (drain_hub ev i ms) ! j) = mr_used (ms_rooms ms ! j)"
    using drain_hub_reach [OF Cons.prems(1,2)] Cons.prems(4) by auto
  have "\<forall>j \<in> set slots. j < MAX_ROOMS \<and> mr_used (ms_rooms (drain_hub ev i ms) ! j)" using d(2) Cons.prems(3,4) by (metis distinct.simps(2) list.set_intros(2))
  then show ?case using Cons.IH [OF d(1) Cons.prems(2)] Cons.prems(3) by simp
qed simp

text \<open>The state before a pass looks at its hubs: the connection and the terminal are dealt with, the rooms that were polled are still in use.\<close>

definition before_hubs :: "master_poll \<Rightarrow> bool \<times> MasterState \<Rightarrow> bool \<times> MasterState" where
  "before_hubs ev st = read_stdin ev (fst st, if mp_listen ev then accept_client (mp_fork ev) (mp_accept ev) (snd st) else snd st)"

lemma master_pass_eq: "master_pass ev st = (fst (before_hubs ev st), fold (drain_hub ev) (used_rooms (snd st)) (snd (before_hubs ev st)))"
  by (simp add: master_pass_def before_hubs_def case_prod_beta Let_def)

lemma before_hubs_reach:
  assumes "master_reach ms0 (snd st)"
  shows "master_reach ms0 (snd (before_hubs ev st))" and "\<forall>i \<in> set (used_rooms (snd st)). i < MAX_ROOMS \<and> mr_used (ms_rooms (snd (before_hubs ev st)) ! i)"
proof -
  let ?ms = "if mp_listen ev then accept_client (mp_fork ev) (mp_accept ev) (snd st) else snd st"
  have r: "master_reach ms0 ?ms" using assms master_reach.connect [OF assms, of "mp_fork ev" "mp_accept ev"] by simp
  have "snd (before_hubs ev st) = ?ms \<or> snd (before_hubs ev st) = start_all_rooms ?ms"
    by (auto simp: before_hubs_def read_stdin_def split: option.split)
  then show "master_reach ms0 (snd (before_hubs ev st))" using r master_reach.enter_key [OF r] by auto
  have "mr_used (ms_rooms ?ms ! i)" if "mr_used (ms_rooms (snd st) ! i)" for i using that accept_client_use by simp
  then show "\<forall>i \<in> set (used_rooms (snd st)). i < MAX_ROOMS \<and> mr_used (ms_rooms (snd (before_hubs ev st)) ! i)"
    using \<open>snd (before_hubs ev st) = ?ms \<or> snd (before_hubs ev st) = start_all_rooms ?ms\<close> by (auto simp: used_rooms_def)
qed

lemma master_pass_reach:
  assumes "master_reach ms0 (snd st)" and "master_wf ms0"
  shows "master_reach ms0 (snd (master_pass ev st))"
  using drain_hubs_reach [OF before_hubs_reach(1) [OF assms(1)] assms(2) used_rooms_distinct before_hubs_reach(2) [OF assms(1)]]
  by (simp add: master_pass_eq)

lemma master_loop_reach:
  assumes "master_reach ms0 (snd st)" and "master_wf ms0"
  shows "master_reach ms0 (snd (fst (master_loop es st)))"
  using assms by (induction es st rule: master_loop.induct) (auto simp: master_pass_reach)

text \<open>Shutting down is a sequence of closed rooms.\<close>

lemma shutdown_reach:
  assumes "master_reach ms0 ms" and "master_wf ms0" and "\<forall>i \<in> set is. i < MAX_ROOMS"
  shows "master_reach ms0 (fold shutdown_room is ms) \<and> (\<forall>j. mr_used (ms_rooms (fold shutdown_room is ms) ! j) = (j \<notin> set is \<and> mr_used (ms_rooms ms ! j)))"
  using assms
proof (induction "is" arbitrary: ms)
  case (Cons i "is")
  have "master_reach ms0 (shutdown_room i ms)"
    using Cons.prems(1) master_reach.hub_closed [OF Cons.prems(1), of i] Cons.prems(3) by (auto simp: shutdown_room_def)
  moreover have "mr_used (ms_rooms (shutdown_room i ms) ! j) = (j \<noteq> i \<and> mr_used (ms_rooms ms ! j))" for j
    using close_room_use [of i ms j] rooms_of_reach [OF Cons.prems(1,2)] Cons.prems(3) by (auto simp: shutdown_room_def)
  ultimately show ?case using Cons.IH [of "shutdown_room i ms"] Cons.prems by auto
qed simp

section \<open>The account of the connections\<close>

fun answer :: "master_out \<Rightarrow> int list" where
  "answer (To_room i m) = []"
| "answer (Redirect fd port) = [fd]"
| "answer (Refuse fd) = [fd]"

definition answers :: "MasterState \<Rightarrow> int list" where
  "answers ms = concat (map answer (ms_out ms))"

definition waiting :: "MRoom \<Rightarrow> int list" where
  "waiting rm = (if mr_used rm then mr_pending rm else [])"

text \<open>The connections that the master has had: those that are answered and those that are parked for a room.\<close>

definition held :: "MasterState \<Rightarrow> int multiset" where
  "held ms = mset (answers ms) + mset (concat (map waiting (ms_rooms ms)))"

lemma mset_concat_update: "i < length xs \<Longrightarrow> mset (concat (map f (xs[i := x]))) + mset (f (xs ! i)) = mset (concat (map f xs)) + mset (f x)"
  by (induction xs arbitrary: i) (auto split: nat.split simp: nth_Cons' less_Suc_eq_0_disj)

lemma held_msend [simp]: "held (msend os ms) = held ms + mset (concat (map answer os))"
  by (simp add: held_def answers_def msend_def)

lemma held_msend_rooms [simp]: "held ((msend os ms)\<lparr>ms_rooms := rs\<rparr>) = held (ms\<lparr>ms_rooms := rs\<rparr>) + mset (concat (map answer os))"
  by (simp add: held_def answers_def msend_def)

lemma held_frame [simp]:
  "held (ms\<lparr>ms_players := ps\<rparr>) = held ms" "held (ms\<lparr>ms_any_started := b\<rparr>) = held ms" "held (ms\<lparr>ms_match_ended := b\<rparr>) = held ms"
  "held (ms\<lparr>ms_room_seq := n\<rparr>) = held ms"
  by (simp_all add: held_def answers_def)

lemma held_set_room: "i < length (ms_rooms ms) \<Longrightarrow> held (set_room ms i rm) + mset (waiting (ms_rooms ms ! i)) = held ms + mset (waiting rm)"
  using mset_concat_update [of i "ms_rooms ms" waiting rm] by (simp add: held_def answers_def)

lemma held_set_same [simp]: "waiting rm = waiting (ms_rooms ms ! i) \<Longrightarrow> held (set_room ms i rm) = held ms"
  using held_set_room [of i ms rm] by (cases "i < length (ms_rooms ms)") (auto simp: list_update_beyond)

lemma held_broadcast [simp]: "held (broadcast_roster ms) = held ms"
  by (simp add: broadcast_roster_def comp_def)

lemma held_start_room [simp]: "held (start_room i ms) = held ms"
  by (simp add: start_room_def Let_def waiting_def)

lemma held_start_all [simp]: "held (start_all_rooms ms) = held ms"
proof -
  have "held (fold start_room is ms) = held ms" for "is" by (induction "is" arbitrary: ms) simp_all
  then show ?thesis by (simp add: start_all_rooms_def)
qed

lemma held_check [simp]: "held (check_global_end ms) = held ms"
  by (simp add: check_global_end_def comp_def Let_def)

lemma held_hub_msg:
  assumes "slot < length (ms_rooms ms)" and "mr_used (ms_rooms ms ! slot)"
  shows "held (handle_hub_msg slot msg ms) = held ms"
proof (cases msg)
  case HUB_READY
  let ?rm = "ms_rooms ms ! slot"
  have "held (set_room ms slot (?rm\<lparr>mr_ready := True, mr_pending := []\<rparr>)) + mset (mr_pending ?rm) = held ms"
    using held_set_room [OF assms(1), of "?rm\<lparr>mr_ready := True, mr_pending := []\<rparr>"] assms(2) by (simp add: waiting_def)
  then show ?thesis using HUB_READY by (simp add: handle_hub_msg_def Let_def comp_def)
qed (auto simp: handle_hub_msg_def handle_joined_def handle_attack_def comp_def waiting_def Let_def split: option.split)

lemma held_close:
  assumes "slot < length (ms_rooms ms)" and "mr_used (ms_rooms ms ! slot)"
  shows "held (close_room slot ms) = held ms"
proof -
  let ?rm = "ms_rooms ms ! slot"
  have "held (set_room ms slot (?rm\<lparr>mr_used := False\<rparr>)) + mset (mr_pending ?rm) = held ms"
    using held_set_room [OF assms(1), of "?rm\<lparr>mr_used := False\<rparr>"] assms(2) by (simp add: waiting_def)
  then have "held (set_room (msend (map Refuse (mr_pending ?rm)) ms) slot (?rm\<lparr>mr_used := False\<rparr>)) = held ms"
    by (simp add: comp_def)
  then show ?thesis by (simp add: close_room_def Let_def)
qed

lemma held_filling:
  assumes "master_wf ms" and "filling_room os ms = (so, ms')"
  shows "held ms' = held ms" and "so = Some i \<Longrightarrow> i < length (ms_rooms ms') \<and> mr_used (ms_rooms ms' ! i)"
proof -
  have l: "length (ms_rooms ms) = 32" using assms(1) by (simp add: master_wf_def)
  have f: "j < 32 \<and> \<not> mr_used (ms_rooms ms ! j)" if "free_slot ms = Some j" for j
    using find_upt_range [OF that [unfolded free_slot_def]] by simp
  show "held ms' = held ms" using assms(2) f
    by (auto simp: filling_room_def spawn_room_def waiting_def zero_mroom_def split: option.splits)
  show "so = Some i \<Longrightarrow> i < length (ms_rooms ms') \<and> mr_used (ms_rooms ms' ! i)" using assms(2) f l
    by (auto simp: filling_room_def spawn_room_def zero_mroom_def split: option.splits dest!: find_upt_range)
qed

lemma held_accept:
  assumes "master_wf ms"
  shows "held (accept_client os fd ms) = held ms + (if fd < 0 then {#} else {#fd#})"
proof -
  obtain so ms1 where f: "filling_room os ms = (so, ms1)" by (cases "filling_room os ms")
  note h = held_filling [OF assms f]
  show ?thesis
  proof (cases so)
    case (Some i)
    let ?rm = "ms_rooms ms1 ! i"
    have i: "i < length (ms_rooms ms1)" "mr_used ?rm" using h(2) Some by auto
    have "held (set_room ms1 i (?rm\<lparr>mr_pending := mr_pending ?rm @ [fd], mr_redirected := mr_redirected ?rm + 1\<rparr>)) = held ms + {#fd#}"
      using held_set_room [OF i(1), of "?rm\<lparr>mr_pending := mr_pending ?rm @ [fd], mr_redirected := mr_redirected ?rm + 1\<rparr>"] i(2) h(1)
      by (simp add: waiting_def)
    then show ?thesis using f Some h(1) by (simp add: accept_client_def Let_def waiting_def)
  qed (use f h(1) in \<open>simp add: accept_client_def\<close>)
qed

text \<open>The connections that a pass takes.\<close>

definition accepted :: "master_poll \<Rightarrow> int multiset" where
  "accepted ev = (if 0 \<le> mp_poll ev \<and> mp_listen ev \<and> 0 \<le> mp_accept ev then {#mp_accept ev#} else {#})"

lemma held_drain_hub:
  assumes "master_reach ms0 ms" and "master_wf ms0" and "slot < MAX_ROOMS" and "mr_used (ms_rooms ms ! slot)"
  shows "held (drain_hub ev slot ms) = held ms"
proof -
  have "held (fold (handle_hub_msg slot) msgs ms) = held ms" for msgs using assms
  proof (induction msgs arbitrary: ms)
    case (Cons m msgs)
    have "master_reach ms0 (handle_hub_msg slot m ms)" using master_reach.hub_message [OF Cons.prems(1,3,4)] by simp
    then have "held (fold (handle_hub_msg slot) msgs (handle_hub_msg slot m ms)) = held (handle_hub_msg slot m ms)"
      by (rule Cons.IH [OF _ Cons.prems(2,3)]) (use Cons.prems(4) in simp)
    then show ?case using held_hub_msg [of slot ms m] rooms_of_reach [OF Cons.prems(1,2)] Cons.prems(3,4) by simp
  qed simp
  moreover have "slot < length (ms_rooms (fold (handle_hub_msg slot) msgs ms)) \<and> mr_used (ms_rooms (fold (handle_hub_msg slot) msgs ms) ! slot)" for msgs
    using hub_messages_reach [OF assms(1,3,4), of msgs] rooms_of_reach [OF _ assms(2)] assms(3,4) by auto
  ultimately show ?thesis using held_close by (simp add: drain_hub_def Let_def split: option.split)
qed

lemma held_drain_hubs:
  assumes "master_reach ms0 ms" and "master_wf ms0" and "distinct slots" and "\<forall>i \<in> set slots. i < MAX_ROOMS \<and> mr_used (ms_rooms ms ! i)"
  shows "held (fold (drain_hub ev) slots ms) = held ms"
  using assms
proof (induction slots arbitrary: ms)
  case (Cons i slots)
  have i: "i < MAX_ROOMS" "mr_used (ms_rooms ms ! i)" using Cons.prems(4) by auto
  have d: "master_reach ms0 (drain_hub ev i ms)" "\<And>j. j \<noteq> i \<Longrightarrow> mr_used (ms_rooms (drain_hub ev i ms) ! j) = mr_used (ms_rooms ms ! j)"
    using drain_hub_reach [OF Cons.prems(1,2) i] by auto
  have "\<forall>j \<in> set slots. j < MAX_ROOMS \<and> mr_used (ms_rooms (drain_hub ev i ms) ! j)" using d(2) Cons.prems(3,4) by (metis distinct.simps(2) list.set_intros(2))
  then show ?case using Cons.IH [OF d(1) Cons.prems(2)] Cons.prems(3) held_drain_hub [OF Cons.prems(1,2) i] by simp
qed simp

lemma held_pass:
  assumes "master_reach ms0 (snd st)" and "master_wf ms0" and "0 \<le> mp_poll ev"
  shows "held (snd (master_pass ev st)) = held (snd st) + accepted ev"
proof -
  have w: "master_wf (snd st)" by (rule master_reach_wf [OF assms(1,2)])
  have "held (snd (before_hubs ev st)) = held (snd st) + accepted ev"
    using held_accept [OF w] assms(3) by (auto simp: before_hubs_def read_stdin_def accepted_def split: option.split)
  then show ?thesis
    using held_drain_hubs [OF before_hubs_reach(1) [OF assms(1)] assms(2) used_rooms_distinct before_hubs_reach(2) [OF assms(1)]]
    by (simp add: master_pass_eq)
qed

lemma held_loop:
  assumes "master_reach ms0 (snd st)" and "master_wf ms0" and "master_loop es st = (st', rest)"
  shows "\<exists>done. es = done @ rest \<and> held (snd st') = held (snd st) + (\<Sum>e\<leftarrow>done. accepted (snd e))
     \<and> (rest = [] \<or> fst (hd rest) \<or> daemon_done (snd st'))"
  using assms
proof (induction es st rule: master_loop.induct)
  case (2 stop ev es st)
  show ?case
  proof (cases "stop")
    case True
    then show ?thesis using 2(5) by (intro exI [of _ "[]"]) auto
  next
    case False
    note run = 2(5) [simplified False, simplified]
    show ?thesis
    proof (cases "mp_poll ev < 0")
      case True
      then obtain done' where "es = done' @ rest" "held (snd st') = held (snd st) + (\<Sum>e\<leftarrow>done'. accepted (snd e))"
          "rest = [] \<or> fst (hd rest) \<or> daemon_done (snd st')" using 2(1) [OF False True 2(3,4)] run by auto
      then show ?thesis using True by (intro exI [of _ "(stop, ev) # done'"]) (simp add: accepted_def)
    next
      case p: False
      note h = held_pass [OF 2(3,4), of ev]
      show ?thesis
      proof (cases "daemon_done (snd (master_pass ev st))")
        case True
        then show ?thesis using run p h by (intro exI [of _ "[(stop, ev)]"]) auto
      next
        case d: False
        obtain done' where "es = done' @ rest" "held (snd st') = held (snd (master_pass ev st)) + (\<Sum>e\<leftarrow>done'. accepted (snd e))"
            "rest = [] \<or> fst (hd rest) \<or> daemon_done (snd st')" using 2(2) [OF False p d master_pass_reach [OF 2(3,4)] 2(4)] run p d by auto
        then show ?thesis using p h by (intro exI [of _ "(stop, ev) # done'"]) (simp add: add.assoc)
      qed
    qed
  qed
qed (auto intro!: exI [of _ "[]"])

lemma held_shutdown:
  assumes "master_reach ms0 ms" and "master_wf ms0" and "\<forall>i \<in> set is. i < MAX_ROOMS"
  shows "held (fold shutdown_room is ms) = held ms"
  using assms
proof (induction "is" arbitrary: ms)
  case (Cons i "is")
  have "master_reach ms0 (shutdown_room i ms)" using shutdown_reach [OF Cons.prems(1,2), of "[i]"] Cons.prems(3) by simp
  then have "held (fold shutdown_room is (shutdown_room i ms)) = held (shutdown_room i ms)" by (rule Cons.IH) (use Cons.prems in auto)
  moreover have "held (shutdown_room i ms) = held ms"
    using held_close [of i ms] rooms_of_reach [OF Cons.prems(1,2)] Cons.prems(3) by (simp add: shutdown_room_def)
  ultimately show ?case by simp
qed simp

section \<open>Properties\<close>

text \<open>
  C22 (every_client_answered): the master leaves nobody waiting. Whatever the kernel, the operator and the workers do, from the start of \<open>main\<close> to its end: every connection
  that was accepted has been answered exactly once, with the port of a room or by closing it; no room is left open; and the loop was left only because it was
  asked to stop or because a match has run and all its rooms have ended.
\<close>

theorem every_client_answered:
  assumes "master_start size_env fd bind_r listen_r = Some ms0" and "master_loop es (True, ms0) = (st, rest)"
  shows "\<exists>done. es = done @ rest \<and> mset (answers (master_shutdown (snd st))) = (\<Sum>e\<leftarrow>done. accepted (snd e))
     \<and> used_rooms (master_shutdown (snd st)) = [] \<and> (rest = [] \<or> fst (hd rest) \<or> daemon_done (snd st))"
proof -
  have ms0: "ms0 = master_init (configured_room_size size_env)" using assms(1) by (simp add: master_start_def split: if_splits)
  have w: "master_wf ms0" unfolding ms0 by (rule master_init_wf) (auto simp: configured_room_size_def split: option.split)
  have z: "held ms0 = {#}" by (simp add: ms0 held_def answers_def master_init_def waiting_def zero_mroom_def)
  obtain done' where d: "es = done' @ rest" "held (snd st) = (\<Sum>e\<leftarrow>done'. accepted (snd e))" "rest = [] \<or> fst (hd rest) \<or> daemon_done (snd st)"
    using held_loop [of ms0 "(True, ms0)", OF _ w assms(2)] master_reach.start z by auto
  have r: "master_reach ms0 (snd st)" using master_loop_reach [of ms0 "(True, ms0)" es] w master_reach.start assms(2) by simp
  have s: "\<And>j. mr_used (ms_rooms (master_shutdown (snd st)) ! j) = (j \<notin> set [0..<MAX_ROOMS] \<and> mr_used (ms_rooms (snd st) ! j))"
      and r': "master_reach ms0 (master_shutdown (snd st))"
    using shutdown_reach [OF r w, of "[0..<MAX_ROOMS]"] by (auto simp: master_shutdown_def)
  have "held (master_shutdown (snd st)) = held (snd st)" unfolding master_shutdown_def by (rule held_shutdown [OF r w]) simp
  moreover have "map waiting (ms_rooms (master_shutdown (snd st))) = replicate MAX_ROOMS []"
    by (rule nth_equalityI) (use s rooms_of_reach [OF r' w] in \<open>simp_all add: waiting_def\<close>)
  ultimately have "mset (answers (master_shutdown (snd st))) = held (snd st)" by (simp add: held_def)
  moreover have "used_rooms (master_shutdown (snd st)) = []" using s by (simp add: used_rooms_def filter_empty_conv del: upt_rec_numeral)
  ultimately show ?thesis using d by auto
qed

definition quiet_poll :: master_poll where
  "quiet_poll = \<lparr>mp_poll = 1, mp_listen = False, mp_accept = -1, mp_fork = None, mp_stdin = False, mp_read = None, mp_hub = (\<lambda>_. None)\<rparr>"

theorem every_client_answered_witness:
  "\<exists>ms0 st. master_start None 3 0 0 = Some ms0 \<and> master_loop [(False, quiet_poll\<lparr>mp_listen := True, mp_accept := 5, mp_fork := Some 77\<rparr>)] (True, ms0) = (st, [])
     \<and> answers (master_shutdown (snd st)) = [5]"
proof -
  let ?ev = "quiet_poll\<lparr>mp_listen := True, mp_accept := 5, mp_fork := Some 77\<rparr>"
  obtain ms0 where m: "master_start None 3 0 0 = Some ms0" by (simp add: master_start_def master_listen_def)
  obtain st where l: "master_loop [(False, ?ev)] (True, ms0) = (st, [])" by (simp add: quiet_poll_def)
  have "accepted ?ev = {#5#}" by (simp add: accepted_def quiet_poll_def)
  then have "mset (answers (master_shutdown (snd st))) = {#5#}" using every_client_answered [OF m l] by auto
  then have "answers (master_shutdown (snd st)) = [5]" by simp
  with m l show ?thesis by blast
qed

text \<open>
  Shutting down in the middle of a match is taken for a crash of the rooms, one after the other: when the first of two players' rooms is closed, the other player
  is announced as the winner.
\<close>

lemma shutdown_declares_winner:
  assumes "\<not> ms_match_ended ms" and "ms_players ms = [p, q]" and "pr_alive p" and "pr_alive q" and "pr_room p = slot" and "pr_room q \<noteq> slot"
    and "pr_room q < MAX_ROOMS" and "mr_used (ms_rooms ms ! pr_room q)" and "mr_used (ms_rooms ms ! slot)"
  shows "To_room (pr_room q) (HUB_GAMEOVER (pr_id q)) \<in> set (ms_out (shutdown_room slot ms))"
proof -
  have "pr_room q \<in> set (used_rooms (broadcast_roster ((set_room (msend (map Refuse (mr_pending (ms_rooms ms ! slot))) ms) slot ((ms_rooms ms ! slot)\<lparr>mr_used := False\<rparr>))
      \<lparr>ms_players := [p\<lparr>pr_alive := False\<rparr>, q]\<rparr>)))"
    using assms(6-8) by (simp add: used_rooms_def nth_update_any del: upt_rec_numeral)
  then show ?thesis using assms(1-6,9)
    by (simp add: shutdown_room_def close_room_def check_global_end_def alive_players_def Let_def msend_def [of "map _ (used_rooms _)"] del: upt_rec_numeral)
qed

end
