(* ===== verification/Queue.thy ===== *)
theory Queue
  imports Prelude
begin

text \<open>
  The generic queue of \<open>corestack/include/utils/queue.h\<close> (macro \<open>DEFINE_QUEUE\<close>). The array
  \<open>items[MAX_SIZE]\<close> is a list whose length is \<open>MAX_SIZE\<close>; \<open>front\<close> is the index before the first
  element and \<open>rear\<close> the index after the last one, as in the macro.

  The interface its clients rely on (the message queues of the transport, the log client's queue,
  the bomb queues) is the locale \<open>bounded_fifo\<close>; the macro's operations are interpreted in it.
\<close>

section \<open>The macro's structure and operations\<close>

record 'a queue =
  q_items :: "'a list"
  q_front :: int
  q_rear :: int

abbreviation q_max_size :: "'a queue \<Rightarrow> int" where
  "q_max_size q \<equiv> int (length (q_items q))"

definition queue_init :: "'a queue \<Rightarrow> 'a queue" where
  "queue_init q = q\<lparr>q_front := -1, q_rear := 0\<rparr>"

definition queue_empty :: "'a queue \<Rightarrow> bool" where
  "queue_empty q \<longleftrightarrow> q_front q = q_rear q - 1"

definition queue_full :: "'a queue \<Rightarrow> bool" where
  "queue_full q \<longleftrightarrow> q_rear q = q_max_size q"

definition queue_enqueue :: "'a queue \<Rightarrow> 'a \<Rightarrow> bool \<times> 'a queue" where
  "queue_enqueue q value =
     (if queue_full q then (False, q)
      else (True, q\<lparr>q_items := (q_items q)[nat (q_rear q) := value], q_rear := q_rear q + 1\<rparr>))"

definition queue_dequeue :: "'a queue \<Rightarrow> bool \<times> 'a queue" where
  "queue_dequeue q =
     (if queue_empty q then (False, q)
      else let q' = q\<lparr>q_front := q_front q + 1\<rparr>
           in (True, if q_front q' = q_rear q' - 1 then q'\<lparr>q_front := -1, q_rear := 0\<rparr> else q'))"

text \<open>\<open>peek\<close> returns a pointer to the slot, or NULL.\<close>

definition queue_peek :: "'a queue \<Rightarrow> 'a option" where
  "queue_peek q = (if queue_empty q then None else Some (q_items q ! nat (q_front q + 1)))"

section \<open>Invariant and abstraction\<close>

definition queue_wf :: "'a queue \<Rightarrow> bool" where
  "queue_wf q \<longleftrightarrow> -1 \<le> q_front q \<and> q_front q < q_rear q \<and> q_rear q \<le> q_max_size q"

definition queue_list :: "'a queue \<Rightarrow> 'a list" where
  "queue_list q = drop (nat (q_front q + 1)) (take (nat (q_rear q)) (q_items q))"

lemmas queue_ops =
  queue_init_def queue_empty_def queue_full_def queue_enqueue_def queue_dequeue_def queue_peek_def

lemma queue_list_length: "queue_wf q \<Longrightarrow> int (length (queue_list q)) = q_rear q - q_front q - 1"
  by (auto simp: queue_wf_def queue_list_def)

lemma queue_empty_iff: "queue_wf q \<Longrightarrow> queue_empty q \<longleftrightarrow> queue_list q = []"
  using queue_list_length [of q] by (auto simp: queue_empty_def queue_wf_def)

lemma queue_init_wf: "queue_wf (queue_init q)"
  by (simp add: queue_wf_def queue_init_def)

lemma queue_init_list: "queue_list (queue_init q) = []"
  by (simp add: queue_list_def queue_init_def)

lemma queue_enqueue_list:
  assumes "queue_wf q" and "queue_enqueue q v = (True, q')"
  shows "queue_list q' = queue_list q @ [v]"
proof -
  from assms have r: "0 \<le> q_rear q" "q_rear q < q_max_size q" "q_front q < q_rear q" "-1 \<le> q_front q"
    by (auto simp: queue_wf_def queue_enqueue_def queue_full_def split: if_splits)
  have q': "q' = q\<lparr>q_items := (q_items q)[nat (q_rear q) := v], q_rear := q_rear q + 1\<rparr>"
    using assms(2) by (auto simp: queue_enqueue_def split: if_splits)
  have "take (nat (q_rear q + 1)) ((q_items q)[nat (q_rear q) := v])
        = take (nat (q_rear q)) (q_items q) @ [v]"
    using r by (simp add: nat_add_distrib take_Suc_conv_app_nth)
  then show ?thesis using r by (simp add: queue_list_def q')
qed

lemma queue_enqueue_wf: "queue_wf q \<Longrightarrow> queue_wf (snd (queue_enqueue q v))"
  by (auto simp: queue_wf_def queue_enqueue_def queue_full_def)

lemma queue_dequeue_list:
  assumes "queue_wf q" and "queue_list q \<noteq> []"
  shows "queue_list (snd (queue_dequeue q)) = tl (queue_list q)" and "fst (queue_dequeue q)"
proof -
  have ne: "\<not> queue_empty q" using assms queue_empty_iff by blast
  then show "fst (queue_dequeue q)" by (simp add: queue_dequeue_def Let_def)
  have r: "-1 \<le> q_front q" "q_front q + 1 < q_rear q" "q_rear q \<le> q_max_size q"
    using assms(1) ne by (auto simp: queue_wf_def queue_empty_def)
  show "queue_list (snd (queue_dequeue q)) = tl (queue_list q)"
  proof (cases "q_front q + 1 = q_rear q - 1")
    case True
    with ne have "queue_list (snd (queue_dequeue q)) = []"
      by (simp add: queue_dequeue_def queue_list_def Let_def)
    moreover have "length (queue_list q) = 1"
      using queue_list_length [OF assms(1)] True by linarith
    ultimately show ?thesis by (cases "queue_list q") simp_all
  next
    case False
    have "nat (2 + q_front q) = Suc (nat (q_front q + 1))" using r by simp
    with False ne show ?thesis
      by (simp add: queue_dequeue_def queue_list_def Let_def drop_Suc drop_tl)
  qed
qed

lemma queue_dequeue_wf: "queue_wf q \<Longrightarrow> queue_wf (snd (queue_dequeue q))"
  by (auto simp: queue_wf_def queue_dequeue_def queue_empty_def Let_def)

lemma queue_peek_list:
  assumes "queue_wf q" and "queue_list q \<noteq> []"
  shows "queue_peek q = Some (hd (queue_list q))"
proof -
  have ne: "\<not> queue_empty q" using assms queue_empty_iff by blast
  have r: "-1 \<le> q_front q" "q_front q + 1 < q_rear q" "q_rear q \<le> q_max_size q"
    using assms(1) ne by (auto simp: queue_wf_def queue_empty_def)
  then show ?thesis using ne
    by (simp add: queue_peek_def queue_list_def hd_drop_conv_nth)
qed

section \<open>The interface of a bounded first-in first-out queue\<close>

text \<open>Clients that fill a queue and drain it, over any implementation of the operations.\<close>

fun enqueue_all :: "('q \<Rightarrow> 'a \<Rightarrow> bool \<times> 'q) \<Rightarrow> 'q \<Rightarrow> 'a list \<Rightarrow> 'q" where
  "enqueue_all enq q [] = q"
| "enqueue_all enq q (x # xs) = enqueue_all enq (snd (enq q x)) xs"

fun drain_queue :: "('q \<Rightarrow> 'a option) \<Rightarrow> ('q \<Rightarrow> bool \<times> 'q) \<Rightarrow> nat \<Rightarrow> 'q \<Rightarrow> 'a list \<times> 'q" where
  "drain_queue peek deq 0 q = ([], q)"
| "drain_queue peek deq (Suc n) q =
     (case peek q of
        None \<Rightarrow> ([], q)
      | Some x \<Rightarrow> let (xs, q') = drain_queue peek deq n (snd (deq q)) in (x # xs, q'))"

locale bounded_fifo =
  fixes is_empty :: "'q \<Rightarrow> bool"
    and enq :: "'q \<Rightarrow> 'a \<Rightarrow> bool \<times> 'q"
    and deq :: "'q \<Rightarrow> bool \<times> 'q"
    and peek :: "'q \<Rightarrow> 'a option"
    and contents :: "'q \<Rightarrow> 'a list"
    and room :: "'q \<Rightarrow> nat"
    and invar :: "'q \<Rightarrow> bool"
  assumes empty_iff: "invar q \<Longrightarrow> is_empty q \<longleftrightarrow> contents q = []"
    and enq_ok: "invar q \<Longrightarrow> 0 < room q \<Longrightarrow>
          fst (enq q x) \<and> contents (snd (enq q x)) = contents q @ [x] \<and> Suc (room (snd (enq q x))) = room q"
    and enq_full: "invar q \<Longrightarrow> room q = 0 \<Longrightarrow> enq q x = (False, q)"
    and enq_invar: "invar q \<Longrightarrow> invar (snd (enq q x))"
    and deq_ok: "invar q \<Longrightarrow> contents q \<noteq> [] \<Longrightarrow>
          fst (deq q) \<and> contents (snd (deq q)) = tl (contents q)"
    and deq_empty: "invar q \<Longrightarrow> contents q = [] \<Longrightarrow> deq q = (False, q)"
    and deq_invar: "invar q \<Longrightarrow> invar (snd (deq q))"
    and peek_ok: "invar q \<Longrightarrow> peek q = (case contents q of [] \<Rightarrow> None | x # _ \<Rightarrow> Some x)"
begin

lemma enqueue_all_invar: "invar q \<Longrightarrow> invar (enqueue_all enq q xs)"
  by (induction xs arbitrary: q) (simp_all add: enq_invar)

lemma enqueue_all_contents:
  "invar q \<Longrightarrow> contents (enqueue_all enq q xs) = contents q @ take (room q) xs"
proof (induction xs arbitrary: q)
  case (Cons x xs)
  show ?case
  proof (cases "room q")
    case 0
    with Cons show ?thesis using enq_full [of q x] by simp
  next
    case (Suc m)
    with enq_ok [OF Cons.prems] have "room (snd (enq q x)) = m"
      and "contents (snd (enq q x)) = contents q @ [x]" by auto
    with Suc Cons show ?thesis by (simp add: enq_invar)
  qed
qed simp

lemma drain_contents:
  "invar q \<Longrightarrow> fst (drain_queue peek deq n q) = take n (contents q)
             \<and> contents (snd (drain_queue peek deq n q)) = drop n (contents q)
             \<and> invar (snd (drain_queue peek deq n q))"
proof (induction n arbitrary: q)
  case (Suc n)
  show ?case
  proof (cases "contents q")
    case Nil
    with Suc.prems show ?thesis by (simp add: peek_ok)
  next
    case (Cons x xs)
    have "invar (snd (deq q))" "contents (snd (deq q)) = xs"
      using Suc.prems Cons deq_ok [of q] by (auto simp: deq_invar)
    then show ?thesis
      using Suc.IH [of "snd (deq q)"] peek_ok [OF Suc.prems] Cons by (simp add: case_prod_beta Let_def)
  qed
qed simp

lemma fill_then_drain:
  assumes "invar q" and "contents q = []" and "length xs \<le> room q" and "length xs \<le> n"
  shows "fst (drain_queue peek deq n (enqueue_all enq q xs)) = xs
       \<and> contents (snd (drain_queue peek deq n (enqueue_all enq q xs))) = []"
proof -
  have "contents (enqueue_all enq q xs) = xs"
    using enqueue_all_contents [OF assms(1)] assms(2,3) by simp
  then show ?thesis
    using drain_contents [OF enqueue_all_invar [OF assms(1), of xs], of n] assms(4) by simp
qed

end

definition queue_room :: "'a queue \<Rightarrow> nat" where
  "queue_room q = nat (q_max_size q - q_rear q)"

interpretation lq: bounded_fifo queue_empty queue_enqueue queue_dequeue queue_peek
  queue_list queue_room queue_wf
proof (unfold_locales, goal_cases)
  case (1 q) then show ?case by (rule queue_empty_iff)
next
  case (2 q x)
  then have nf: "\<not> queue_full q" by (auto simp: queue_room_def queue_full_def)
  then have e: "queue_enqueue q x = (True, snd (queue_enqueue q x))" by (simp add: queue_enqueue_def)
  have "Suc (queue_room (snd (queue_enqueue q x))) = queue_room q"
    using nf 2 by (auto simp: queue_enqueue_def queue_room_def)
  then show ?case using queue_enqueue_list [OF 2(1) e] e by (metis fst_conv)
next
  case (3 q x) then show ?case by (auto simp: queue_room_def queue_enqueue_def queue_full_def queue_wf_def)
next
  case (4 q x) then show ?case by (rule queue_enqueue_wf)
next
  case (5 q) then show ?case using queue_dequeue_list by blast
next
  case (6 q) then show ?case using queue_empty_iff [of q] by (simp add: queue_dequeue_def)
next
  case (7 q) then show ?case by (rule queue_dequeue_wf)
next
  case (8 q)
  then show ?case using queue_peek_list [of q] queue_empty_iff [of q]
    by (auto simp: queue_peek_def split: list.splits)
qed

lemma queue_init_room: "queue_room (queue_init q) = length (q_items q)"
  by (simp add: queue_room_def queue_init_def)


section \<open>Properties\<close>

text \<open>
  Lemma (queue_is_fifo): after \<open>init\<close>, whatever is enqueued comes out in the same order, up to the size of the
  array: the elements beyond it are the ones refused, never ones already stored.
\<close>

theorem queue_is_fifo:
  "fst (drain_queue queue_peek queue_dequeue n (enqueue_all queue_enqueue (queue_init q) xs))
     = take n (take (length (q_items q)) xs)"
proof -
  have w: "queue_wf (queue_init q)" by (rule queue_init_wf)
  have "queue_list (enqueue_all queue_enqueue (queue_init q) xs) = take (length (q_items q)) xs"
    using lq.enqueue_all_contents [OF w, of xs] by (simp add: queue_init_room queue_init_list)
  then show ?thesis using lq.drain_contents [OF lq.enqueue_all_invar [OF w, of xs], of n] by simp
qed

lemma queue_dequeue_keeps_rear:
  assumes "queue_wf q" and "1 < length (queue_list q)"
  shows "q_rear (snd (queue_dequeue q)) = q_rear q \<and> q_items (snd (queue_dequeue q)) = q_items q"
proof -
  have "q_rear q - q_front q - 1 > 1" using queue_list_length [OF assms(1)] assms(2) by linarith
  then show ?thesis by (simp add: queue_dequeue_def queue_empty_def Let_def)
qed

lemma queue_drain_keeps_full:
  "queue_wf q \<Longrightarrow> queue_full q \<Longrightarrow> k < length (queue_list q)
   \<Longrightarrow> queue_full (snd (drain_queue queue_peek queue_dequeue k q))"
proof (induction k arbitrary: q)
  case (Suc k)
  then have ne: "queue_list q \<noteq> []" by auto
  have kept: "q_rear (snd (queue_dequeue q)) = q_rear q" "q_items (snd (queue_dequeue q)) = q_items q"
    using queue_dequeue_keeps_rear [OF Suc.prems(1)] Suc.prems(3) by simp_all
  have "queue_full (snd (queue_dequeue q))" using Suc.prems(2) kept by (simp add: queue_full_def)
  moreover have "k < length (queue_list (snd (queue_dequeue q)))"
    using queue_dequeue_list(1) [OF Suc.prems(1) ne] Suc.prems(3) by simp
  ultimately have "queue_full (snd (drain_queue queue_peek queue_dequeue k (snd (queue_dequeue q))))"
    by (intro Suc.IH queue_dequeue_wf Suc.prems(1))
  then show ?case using queue_peek_list [OF Suc.prems(1) ne] by (simp add: case_prod_beta Let_def)
qed simp

lemma queue_drained_reset:
  assumes "queue_wf q" and "queue_list q \<noteq> []" and "queue_list (snd (drain_queue queue_peek queue_dequeue k q)) = []"
  shows "q_rear (snd (drain_queue queue_peek queue_dequeue k q)) = 0
       \<and> q_items (snd (drain_queue queue_peek queue_dequeue k q)) = q_items q"
  using assms
proof (induction k arbitrary: q)
  case (Suc k)
  let ?q = "snd (queue_dequeue q)"
  have w: "queue_wf ?q" and l: "queue_list ?q = tl (queue_list q)"
    using Suc.prems(1,2) queue_dequeue_wf queue_dequeue_list(1) by blast+
  have it: "q_items ?q = q_items q" by (simp add: queue_dequeue_def Let_def)
  have step: "drain_queue queue_peek queue_dequeue (Suc k) q
      = (hd (queue_list q) # fst (drain_queue queue_peek queue_dequeue k ?q), snd (drain_queue queue_peek queue_dequeue k ?q))"
    using queue_peek_list [OF Suc.prems(1,2)] by (simp add: case_prod_beta Let_def)
  show ?case
  proof (cases "queue_list ?q = []")
    case True
    then have "length (queue_list q) = 1" using l Suc.prems(2) by (cases "queue_list q") simp_all
    then have "q_front q + 1 = q_rear q - 1" using queue_list_length [OF Suc.prems(1)] by linarith
    then have "q_rear ?q = 0" by (simp add: queue_dequeue_def queue_empty_def Let_def)
    moreover have "queue_peek ?q = None" using queue_empty_iff [OF w] True by (simp add: queue_peek_def)
    then have "drain_queue queue_peek queue_dequeue k ?q = ([], ?q)" by (cases k) simp_all
    ultimately show ?thesis using step it by simp
  next
    case False
    then show ?thesis using Suc.IH [OF w False] Suc.prems(3) step it by simp
  qed
qed simp

text \<open>
  Lemma (full_queue_reopens_only_empty): the queue is linear, not a ring: once the last slot is written, removing
  elements frees no room until the queue is empty, and then all of it is free again.
\<close>

theorem full_queue_reopens_only_empty:
  assumes "queue_wf q" and "queue_full q" and "queue_list q \<noteq> []"
  shows "queue_room (snd (drain_queue queue_peek queue_dequeue k q))
           = (if k < length (queue_list q) then 0 else length (q_items q))"
proof (cases "k < length (queue_list q)")
  case True
  then show ?thesis using queue_drain_keeps_full [OF assms(1,2) True]
    by (simp add: queue_room_def queue_full_def)
next
  case False
  have "queue_list (snd (drain_queue queue_peek queue_dequeue k q)) = []"
    using lq.drain_contents [OF assms(1), of k] False by simp
  from queue_drained_reset [OF assms(1,3) this] show ?thesis using False by (simp add: queue_room_def)
qed

theorem full_queue_reopens_only_empty_witness:
  "queue_room (snd (drain_queue queue_peek queue_dequeue 1 \<lparr>q_items = [7, 8 :: int], q_front = -1, q_rear = 2\<rparr>)) = 0
   \<and> queue_room (snd (drain_queue queue_peek queue_dequeue 2 \<lparr>q_items = [7, 8 :: int], q_front = -1, q_rear = 2\<rparr>)) = 2"
  using full_queue_reopens_only_empty [of "\<lparr>q_items = [7, 8 :: int], q_front = -1, q_rear = 2\<rparr>" 1]
    full_queue_reopens_only_empty [of "\<lparr>q_items = [7, 8 :: int], q_front = -1, q_rear = 2\<rparr>" 2]
  by (simp add: queue_wf_def queue_full_def queue_list_def del: drain_queue.simps)

end
