(* ===== verification/Bytes.thy ===== *)
theory Bytes
  imports Prelude
begin

text \<open>
  Byte buffers: \<open>htonl\<close>/\<open>ntohl\<close> stored to and read from memory, \<open>memcpy\<close> into a buffer at an offset, and
  the lemmas with which the packed formats of the log and of the bomb game are read back.
\<close>

unbundle bit_operations_syntax

definition be32 :: "u32 \<Rightarrow> u8 list" where
  "be32 w = [ucast (drop_bit 24 w), ucast (drop_bit 16 w), ucast (drop_bit 8 w), ucast w]"

definition from_be32 :: "u8 list \<Rightarrow> u32" where
  "from_be32 bs = push_bit 24 (ucast (bs ! 0)) OR push_bit 16 (ucast (bs ! 1)) OR push_bit 8 (ucast (bs ! 2)) OR ucast (bs ! 3)"

text \<open>\<open>memcpy(buf + off, bs, sizeof bs)\<close>, and the 32-bit field at an offset.\<close>

definition mem_write :: "nat \<Rightarrow> u8 list \<Rightarrow> u8 list \<Rightarrow> u8 list" where
  "mem_write off bs buf = take off buf @ bs @ drop (off + length bs) buf"

definition net32 :: "nat \<Rightarrow> u8 list \<Rightarrow> u32" where
  "net32 off buf = from_be32 (take 4 (drop off buf))"

text \<open>A structure of 32-bit fields in network byte order.\<close>

definition be32s :: "u32 list \<Rightarrow> u8 list" where
  "be32s ws = concat (map be32 ws)"

section \<open>Lemmas\<close>

lemma from_be32_be32 [simp]: "from_be32 (be32 w) = w"
proof (rule bit_word_eqI)
  fix n assume "n < LENGTH(32)"
  then have "n < 32" by simp
  then consider "n < 8" | "8 \<le> n \<and> n < 16" | "16 \<le> n \<and> n < 24" | "24 \<le> n \<and> n < 32" by linarith
  then show "bit (from_be32 (be32 w)) n = bit w n"
    by cases (auto simp: from_be32_def be32_def bit_simps)
qed

lemma be32_length [simp]: "length (be32 w) = 4"
  by (simp add: be32_def)

lemma be32s_length [simp]: "length (be32s ws) = 4 * length ws"
  by (induction ws) (simp_all add: be32s_def)

lemma be32s_append: "be32s (a @ b) = be32s a @ be32s b"
  by (simp add: be32s_def)

lemma be32s_take_drop: "take (4 * m) (drop (4 * n) (be32s ws)) = be32s (take m (drop n ws))"
proof -
  have d: "drop (4 * n) (be32s ws) = be32s (drop n ws)" for n and ws :: "u32 list"
  proof (induction n arbitrary: ws)
    case (Suc n)
    then show ?case by (cases ws) (simp_all add: be32s_def)
  qed simp
  have "take (4 * m) (be32s ws) = be32s (take m ws)" for m and ws :: "u32 list"
  proof (induction m arbitrary: ws)
    case (Suc m)
    then show ?case by (cases ws) (simp_all add: be32s_def)
  qed (simp add: be32s_def)
  with d show ?thesis by simp
qed

lemma mem_write_length [simp]: "off + length bs \<le> length buf \<Longrightarrow> length (mem_write off bs buf) = length buf"
  by (simp add: mem_write_def)

lemma mem_write_drop: "off + length bs \<le> n \<Longrightarrow> n \<le> length buf \<Longrightarrow> drop n (mem_write off bs buf) = drop n buf"
  by (simp add: mem_write_def)

lemma mem_write_take: "n \<le> off \<Longrightarrow> off \<le> length buf \<Longrightarrow> take n (mem_write off bs buf) = take n buf"
  by (simp add: mem_write_def)

text \<open>Two copies one behind the other are one copy.\<close>

lemma mem_write_append:
  "off \<le> length buf \<Longrightarrow> mem_write (off + length a) b (mem_write off a buf) = mem_write off (a @ b) buf"
  by (simp add: mem_write_def add.commute add.left_commute)

lemma mem_write_nil [simp]: "mem_write off [] buf = buf"
  by (simp add: mem_write_def)

lemma net32_mem_write:
  assumes "off \<le> n" and "(n - off) mod 4 = 0" and "(n - off) div 4 < length ws" and "off \<le> length buf"
  shows "net32 n (mem_write off (be32s ws) buf) = ws ! ((n - off) div 4)"
proof -
  define k where "k = (n - off) div 4"
  have n: "n = off + 4 * k" using assms(1,2) by (auto simp: k_def)
  have k: "k < length ws" using assms(3) by (simp add: k_def)
  have l: "length (drop (4 * k) (be32s ws)) \<ge> 4" using k by simp
  have "take 4 (drop n (mem_write off (be32s ws) buf)) = take (4 * 1) (drop (4 * k) (be32s ws))"
    using assms(4) n l by (simp add: mem_write_def)
  also have "\<dots> = be32 (ws ! k)" unfolding be32s_take_drop using k
    by (simp add: be32s_def take_Suc_conv_app_nth hd_drop_conv_nth take_Suc)
  finally show ?thesis by (simp add: net32_def k_def)
qed

lemma net32_before:
  "n + 4 \<le> off \<Longrightarrow> off \<le> length buf \<Longrightarrow> net32 n (mem_write off bs buf) = net32 n buf"
  by (simp add: net32_def mem_write_def drop_take)

text \<open>The field of an array of equally long structures.\<close>

lemma nth_concat_map:
  assumes "\<And>x. length (f x) = m" and "i < length xs" and "k < m"
  shows "concat (map f xs) ! (m * i + k) = f (xs ! i) ! k"
  using assms(2,3)
proof (induction xs arbitrary: i)
  case (Cons x xs)
  show ?case
  proof (cases i)
    case 0
    then show ?thesis using Cons.prems assms(1) by (simp add: nth_append)
  next
    case (Suc j)
    then have "concat (map f (x # xs)) ! (m * i + k) = concat (map f xs) ! (m * j + k)"
      using assms(1) by (simp add: nth_append)
    then show ?thesis using Cons Suc by simp
  qed
qed simp

lemma length_concat_map: "(\<And>x. length (f x) = m) \<Longrightarrow> length (concat (map f xs)) = m * length xs"
  by (induction xs) simp_all

end
