(* ===== verification/Logging.thy ===== *)
theory Logging
  imports Queue Bytes C_Text "HOL-Library.Sublist"
begin

text \<open>
  \<open>libtetrislog\<close> and \<open>tetrislogd\<close>: log records and their wire form, the client with its bounded local
  queue, and the daemon's table of senders with its count of lost records. A fixed \<open>char\<close> array is a
  list of bytes of that length; text handed in as a C string is a list of bytes without NUL. The clock,
  the process id, and whether a \<open>sendto\<close> succeeds are arguments.
\<close>

unbundle bit_operations_syntax

section \<open>Records\<close>

abbreviation (input) LOG_SOURCE_LENGTH :: nat where "LOG_SOURCE_LENGTH \<equiv> 16"
abbreviation (input) LOG_MSG_LENGTH :: nat where "LOG_MSG_LENGTH \<equiv> 256"
abbreviation (input) LOG_WIRE_SIZE :: nat where "LOG_WIRE_SIZE \<equiv> 292"

datatype LogLevel = LOG_LEVEL_DEBUG | LOG_LEVEL_INFO | LOG_LEVEL_WARN | LOG_LEVEL_ERROR | LOG_LEVEL_OTHER u32

fun u32_of_level :: "LogLevel \<Rightarrow> u32" where
  "u32_of_level LOG_LEVEL_DEBUG = 0"
| "u32_of_level LOG_LEVEL_INFO = 1"
| "u32_of_level LOG_LEVEL_WARN = 2"
| "u32_of_level LOG_LEVEL_ERROR = 3"
| "u32_of_level (LOG_LEVEL_OTHER w) = w"

definition level_of_u32 :: "u32 \<Rightarrow> LogLevel" where
  "level_of_u32 w = (if w = 0 then LOG_LEVEL_DEBUG else if w = 1 then LOG_LEVEL_INFO else if w = 2 then LOG_LEVEL_WARN
     else if w = 3 then LOG_LEVEL_ERROR else LOG_LEVEL_OTHER w)"

record LogRecord =
  lr_time_sec :: u32
  lr_time_msec :: u32
  lr_level :: u32
  lr_pid :: u32
  lr_seq :: u32
  lr_source :: "u8 list"
  lr_message :: "u8 list"

text \<open>\<open>strncpy\<close> into all but the last byte, padding with NUL, and a final NUL. NULL clears the first byte only.\<close>

definition copy_fixed :: "u8 list \<Rightarrow> u8 list option \<Rightarrow> u8 list" where
  "copy_fixed dest src =
     (case src of
        None \<Rightarrow> dest[0 := 0]
      | Some s \<Rightarrow>
          let n = length dest - 1; c = take n s
          in c @ replicate (n - length c) 0 @ [0])"

definition pack_log_record :: "LogRecord \<Rightarrow> u8 list" where
  "pack_log_record r =
     be32 (lr_time_sec r) @ be32 (lr_time_msec r) @ be32 (lr_level r) @ be32 (lr_pid r) @ be32 (lr_seq r)
     @ take LOG_SOURCE_LENGTH (lr_source r) @ take LOG_MSG_LENGTH (lr_message r)"

definition unpack_log_record :: "u8 list \<Rightarrow> LogRecord" where
  "unpack_log_record b =
     \<lparr>lr_time_sec = from_be32 (take 4 b), lr_time_msec = from_be32 (take 4 (drop 4 b)),
      lr_level = from_be32 (take 4 (drop 8 b)), lr_pid = from_be32 (take 4 (drop 12 b)),
      lr_seq = from_be32 (take 4 (drop 16 b)),
      lr_source = (take LOG_SOURCE_LENGTH (drop 20 b))[LOG_SOURCE_LENGTH - 1 := 0],
      lr_message = (take LOG_MSG_LENGTH (drop 36 b))[LOG_MSG_LENGTH - 1 := 0]\<rparr>"

text \<open>\<open>next_seq\<close> is the static counter of the process; the new value is returned.\<close>

record log_env =
  le_sec :: int
  le_nsec :: int
  le_pid :: int

definition build_log_record :: "log_env \<Rightarrow> LogLevel \<Rightarrow> u8 list option \<Rightarrow> u8 list option \<Rightarrow> u32 \<Rightarrow> LogRecord \<times> u32" where
  "build_log_record env level source message next_seq =
     (\<lparr>lr_time_sec = word_of_int (le_sec env), lr_time_msec = word_of_int (le_nsec env div 1000000),
       lr_level = u32_of_level level, lr_pid = word_of_int (le_pid env), lr_seq = next_seq,
       lr_source = copy_fixed (replicate LOG_SOURCE_LENGTH 0) source,
       lr_message = copy_fixed (replicate LOG_MSG_LENGTH 0) message\<rparr>, next_seq + 1)"

definition log_level_name :: "LogLevel \<Rightarrow> string" where
  "log_level_name level =
     (case level of LOG_LEVEL_DEBUG \<Rightarrow> ''DEBUG'' | LOG_LEVEL_INFO \<Rightarrow> ''INFO'' | LOG_LEVEL_WARN \<Rightarrow> ''WARN''
      | LOG_LEVEL_ERROR \<Rightarrow> ''ERROR'' | _ \<Rightarrow> ''UNKNOWN'')"

text \<open>A byte array read as a C string, and the fields of a line. \<open>timestamp\<close> is the text of the local time.\<close>

definition c_text :: "u8 list \<Rightarrow> string" where
  "c_text bs = map (\<lambda>b. char_of (unat b)) (takeWhile (\<lambda>b. b \<noteq> 0) bs)"

definition pad_right :: "nat \<Rightarrow> string \<Rightarrow> string" where
  "pad_right n s = s @ replicate (n - length s) (CHR '' '')"

definition pad_zero :: "nat \<Rightarrow> string \<Rightarrow> string" where
  "pad_zero n s = replicate (n - length s) (CHR ''0'') @ s"

definition format_log_line :: "string option \<Rightarrow> LogRecord \<Rightarrow> nat \<Rightarrow> string" where
  "format_log_line timestamp r out_size =
     take (out_size - 1)
       ((case timestamp of Some t \<Rightarrow> t | None \<Rightarrow> ''0000-00-00 00:00:00'')
        @ ''.'' @ pad_zero 3 (dec_nat (unat (lr_time_msec r))) @ '' [''
        @ pad_right 5 (log_level_name (level_of_u32 (lr_level r))) @ ''] '' @ c_text (lr_source r)
        @ ''['' @ dec_nat (unat (lr_pid r)) @ ''] #'' @ dec_nat (unat (lr_seq r)) @ '' '' @ c_text (lr_message r) @ [CHR 0x0A])"

section \<open>The client\<close>

abbreviation (input) LOG_CLIENT_DRAIN_BATCH :: nat where "LOG_CLIENT_DRAIN_BATCH \<equiv> 16"
abbreviation (input) LOG_QUEUE_SIZE :: nat where "LOG_QUEUE_SIZE \<equiv> 256"

record LogClient =
  lc_sock :: int
  lc_dest :: string
  lc_source :: "u8 list"
  lc_queue :: "LogRecord queue"
  lc_dropped :: u32
  lc_warned :: bool

definition zero_record :: LogRecord where
  "zero_record = \<lparr>lr_time_sec = 0, lr_time_msec = 0, lr_level = 0, lr_pid = 0, lr_seq = 0,
     lr_source = replicate LOG_SOURCE_LENGTH 0, lr_message = replicate LOG_MSG_LENGTH 0\<rparr>"

definition log_client_init :: "int \<Rightarrow> string \<Rightarrow> u8 list \<Rightarrow> bool \<times> LogClient" where
  "log_client_init sock path source_name =
     (let c = \<lparr>lc_sock = sock, lc_dest = [], lc_source = copy_fixed (replicate LOG_SOURCE_LENGTH 0) (Some source_name),
               lc_queue = queue_init \<lparr>q_items = replicate LOG_QUEUE_SIZE zero_record, q_front = 0, q_rear = 0\<rparr>,
               lc_dropped = 0, lc_warned = False\<rparr>
      in if sock < 0 then (False, c) else (True, c\<lparr>lc_dest := take 107 path\<rparr>))"

definition log_client_push :: "log_env \<Rightarrow> LogLevel \<Rightarrow> u8 list \<Rightarrow> LogClient \<Rightarrow> u32 \<Rightarrow> LogClient \<times> u32" where
  "log_client_push env level message c next_seq =
     (if lc_sock c < 0 then (c, next_seq)
      else let (r, next_seq') = build_log_record env level (Some (takeWhile (\<lambda>b. b \<noteq> 0) (lc_source c))) (Some message) next_seq;
               (ok, q) = queue_enqueue (lc_queue c) r
           in (if ok then c\<lparr>lc_queue := q\<rparr> else c\<lparr>lc_queue := q, lc_dropped := lc_dropped c + 1\<rparr>, next_seq'))"

text \<open>
  The loop of \<open>log_client_drain\<close>: the datagrams that went out, and the client after. \<open>oks\<close> tells for
  each call whether \<open>sendto\<close> succeeded.
\<close>

primrec drain_records :: "nat \<Rightarrow> (nat \<Rightarrow> bool) \<Rightarrow> LogClient \<Rightarrow> u8 list list \<times> LogClient" where
  "drain_records 0 oks c = ([], c)"
| "drain_records (Suc n) oks c =
     (case queue_peek (lc_queue c) of
        None \<Rightarrow> ([], c)
      | Some r \<Rightarrow>
          let c1 = (if oks 0 then c\<lparr>lc_warned := False\<rparr> else c\<lparr>lc_warned := True, lc_dropped := lc_dropped c + 1\<rparr>);
              c2 = c1\<lparr>lc_queue := snd (queue_dequeue (lc_queue c1))\<rparr>;
              (sent, c3) = drain_records n (\<lambda>i. oks (Suc i)) c2
          in ((if oks 0 then [pack_log_record r] else []) @ sent, c3))"

definition log_client_drain :: "nat \<Rightarrow> (nat \<Rightarrow> bool) \<Rightarrow> LogClient \<Rightarrow> u8 list list \<times> LogClient" where
  "log_client_drain max_records oks c = (if lc_sock c < 0 then ([], c) else drain_records max_records oks c)"

definition log_client_get_dropped_count :: "LogClient \<Rightarrow> u32" where
  "log_client_get_dropped_count c = lc_dropped c"

definition log_client_close :: "LogClient \<Rightarrow> LogClient" where
  "log_client_close c = (if lc_sock c \<ge> 0 then c\<lparr>lc_sock := -1\<rparr> else c)"

section \<open>The daemon\<close>

abbreviation (input) MAX_TRACKED_SENDERS :: nat where "MAX_TRACKED_SENDERS \<equiv> 32"
abbreviation (input) SUMMARY_INTERVAL_SEC :: int where "SUMMARY_INTERVAL_SEC \<equiv> 30"

record SenderTracker =
  st_pid :: u32
  st_last_seq :: u32
  st_seen :: bool

text \<open>The used part of the table and the slot found or created; a new slot's \<open>last_seq\<close> is whatever was there.\<close>

definition find_tracker :: "u32 \<Rightarrow> SenderTracker list \<Rightarrow> u32 \<Rightarrow> nat option \<times> SenderTracker list" where
  "find_tracker junk ts pid =
     (case List.find (\<lambda>i. st_pid (ts ! i) = pid) [0..<length ts] of
        Some i \<Rightarrow> (Some i, ts)
      | None \<Rightarrow>
          if length ts < MAX_TRACKED_SENDERS
          then (Some (length ts), ts @ [\<lparr>st_pid = pid, st_last_seq = junk, st_seen = False\<rparr>])
          else (None, ts))"

record LogDaemon =
  ld_trackers :: "SenderTracker list"
  ld_total :: u32
  ld_period :: u32
  ld_last_summary :: int
  ld_file :: "string list"

definition track_record :: "u32 \<Rightarrow> LogRecord \<Rightarrow> LogDaemon \<Rightarrow> LogDaemon" where
  "track_record junk r d =
     (let (slot, ts) = find_tracker junk (ld_trackers d) (lr_pid r) in
      case slot of
        None \<Rightarrow> d\<lparr>ld_trackers := ts\<rparr>
      | Some i \<Rightarrow>
          let t = ts ! i;
              gap = (if st_seen t \<and> lr_seq r \<noteq> st_last_seq t + 1 \<and> lr_seq r > st_last_seq t
                     then lr_seq r - st_last_seq t - 1 else 0)
          in d\<lparr>ld_trackers := ts[i := t\<lparr>st_last_seq := lr_seq r, st_seen := True\<rparr>],
               ld_total := ld_total d + gap, ld_period := ld_period d + gap\<rparr>)"

text \<open>One datagram: wrong sizes are ignored.\<close>

definition handle_datagram :: "u32 \<Rightarrow> (LogRecord \<Rightarrow> string option) \<Rightarrow> u8 list \<Rightarrow> LogDaemon \<Rightarrow> LogDaemon" where
  "handle_datagram junk local_time buffer d =
     (if length buffer = LOG_WIRE_SIZE
      then let r = unpack_log_record buffer; d1 = track_record junk r d
           in d1\<lparr>ld_file := ld_file d1 @ [format_log_line (local_time r) r 384]\<rparr>
      else d)"

definition periodic_summary :: "int \<Rightarrow> LogDaemon \<Rightarrow> LogDaemon" where
  "periodic_summary now d =
     (if now - ld_last_summary d \<ge> SUMMARY_INTERVAL_SEC then d\<lparr>ld_period := 0, ld_last_summary := now\<rparr> else d)"

section \<open>Configuration\<close>

definition is_blank :: "char \<Rightarrow> bool" where
  "is_blank c \<longleftrightarrow> c = CHR '' '' \<or> c = CHR 0x09"

definition trim :: "string \<Rightarrow> string" where
  "trim s = rev (dropWhile is_blank (rev (dropWhile is_blank s)))"

text \<open>A line of the file: the comment and the line end are cut off, key and value are trimmed.\<close>

definition parse_config_line :: "string \<Rightarrow> (string \<times> string) option" where
  "parse_config_line line0 =
     (let line1 = takeWhile (\<lambda>c. c \<noteq> CHR ''#'') line0;
          line = takeWhile (\<lambda>c. c \<noteq> CHR 0x0D \<and> c \<noteq> CHR 0x0A) line1
      in if CHR ''='' \<in> set line
         then Some (trim (takeWhile (\<lambda>c. c \<noteq> CHR ''='') line), trim (tl (dropWhile (\<lambda>c. c \<noteq> CHR ''='') line)))
         else None)"

definition config_line :: "string \<Rightarrow> string \<times> string \<Rightarrow> string \<times> string" where
  "config_line line pi =
     (case parse_config_line line of
        None \<Rightarrow> pi
      | Some (k, v) \<Rightarrow>
          if k = ''log_path'' then (take 255 v, snd pi)
          else if k = ''log_ipc'' then (fst pi, take 255 v)
          else pi)"

text \<open>The file's lines as \<open>fgets\<close> delivers them, \<open>None\<close> when it cannot be opened.\<close>

definition load_config :: "string list option \<Rightarrow> string \<times> string" where
  "load_config lines =
     (let defaults = (''var/log/tetris.log'', ''var/run/tetrislog.sock'')
      in case lines of None \<Rightarrow> defaults | Some ls \<Rightarrow> fold config_line ls defaults)"

text \<open>The directories that \<open>ensure_parent_dir_exists\<close> creates, in order.\<close>

definition parent_dirs :: "string \<Rightarrow> string list" where
  "parent_dirs file_path =
     (let path0 = take 255 file_path in
      if CHR ''/'' \<in> set path0
      then let path = rev (tl (dropWhile (\<lambda>c. c \<noteq> CHR ''/'') (rev path0)))
           in map (\<lambda>i. take i path) (filter (\<lambda>i. path ! i = CHR ''/'') [1..<length path]) @ [path]
      else [])"

section \<open>Wire form\<close>

text \<open>A record whose arrays have their sizes and end in NUL, as \<open>build_log_record\<close> makes them.\<close>

definition log_record_ok :: "LogRecord \<Rightarrow> bool" where
  "log_record_ok r \<longleftrightarrow> length (lr_source r) = LOG_SOURCE_LENGTH \<and> length (lr_message r) = LOG_MSG_LENGTH
     \<and> last (lr_source r) = 0 \<and> last (lr_message r) = 0"

lemma copy_fixed_ok: "0 < length d \<Longrightarrow> length (copy_fixed d (Some s)) = length d \<and> last (copy_fixed d (Some s)) = 0"
  by (cases d) (auto simp: copy_fixed_def Let_def min_def)

lemma build_log_record_ok: "log_record_ok (fst (build_log_record env l (Some s) (Some m) q))"
  by (simp add: log_record_ok_def build_log_record_def copy_fixed_ok)

lemma pack_length: "log_record_ok r \<Longrightarrow> length (pack_log_record r) = LOG_WIRE_SIZE"
  by (simp add: pack_log_record_def log_record_ok_def)

lemma update_last: "length xs = Suc n \<Longrightarrow> last xs = v \<Longrightarrow> xs[n := v] = xs"
  by (metis diff_Suc_1 last_conv_nth length_0_conv list_update_id nat.distinct(1))

lemma log_record_codec: "log_record_ok r \<Longrightarrow> unpack_log_record (pack_log_record r) = r"
proof -
  assume ok: "log_record_ok r"
  have l: "length (lr_source r) = 16" "length (lr_message r) = 256" using ok by (auto simp: log_record_ok_def)
  have "(lr_source r)[15 := 0] = lr_source r" "(lr_message r)[255 := 0] = lr_message r"
    using ok update_last [of "lr_source r" 15 0] update_last [of "lr_message r" 255 0] by (auto simp: log_record_ok_def)
  then show ?thesis using l by (cases r) (simp add: unpack_log_record_def pack_log_record_def)
qed

interpretation log_wire: codec pack_log_record "\<lambda>b _. unpack_log_record b" log_record_ok
  by unfold_locales (rule log_record_codec)

section \<open>The client's queue\<close>

definition client_wf :: "LogClient \<Rightarrow> bool" where
  "client_wf c \<longleftrightarrow> queue_wf (lc_queue c) \<and> 0 \<le> lc_sock c"

text \<open>Whether the first \<open>n\<close> attempts succeed, as a selection.\<close>

definition chosen :: "(nat \<Rightarrow> bool) \<Rightarrow> 'a list \<Rightarrow> 'a list" where
  "chosen oks xs = map snd (filter (\<lambda>(i, x). oks i) (enumerate 0 xs))"

lemma chosen_Cons: "chosen oks (x # xs) = (if oks 0 then [x] else []) @ chosen (\<lambda>i. oks (Suc i)) xs"
proof -
  have "map snd (filter (\<lambda>(i, x). oks i) (enumerate 1 xs)) = map snd (filter (\<lambda>(i, x). oks (Suc i)) (enumerate 0 xs))"
    by (simp add: enumerate_Suc_eq filter_map comp_def case_prod_unfold)
  then show ?thesis by (simp add: chosen_def)
qed

lemma chosen_length: "length (chosen oks xs) \<le> length xs"
  using length_filter_le [of "\<lambda>(i, x). oks i" "enumerate 0 xs"] by (simp add: chosen_def)

lemma drain_records_spec:
  assumes "client_wf c"
  defines "q \<equiv> queue_list (lc_queue c)"
  shows "fst (drain_records n oks c) = map pack_log_record (chosen oks (take n q))
       \<and> queue_list (lc_queue (snd (drain_records n oks c))) = drop n q
       \<and> lc_dropped (snd (drain_records n oks c))
           = lc_dropped c + of_nat (length (take n q) - length (chosen oks (take n q)))
       \<and> client_wf (snd (drain_records n oks c))"
  using assms(1) unfolding q_def
proof (induction n arbitrary: oks c)
  case 0
  then show ?case by (simp add: chosen_def)
next
  case (Suc n)
  have w: "queue_wf (lc_queue c)" using Suc.prems by (simp add: client_wf_def)
  show ?case
  proof (cases "queue_list (lc_queue c)")
    case Nil
    then show ?thesis using lq.peek_ok [OF w] Suc.prems by (simp add: chosen_def)
  next
    case (Cons r rs)
    have p: "queue_peek (lc_queue c) = Some r" using lq.peek_ok [OF w] Cons by simp
    let ?c1 = "if oks 0 then c\<lparr>lc_warned := False\<rparr> else c\<lparr>lc_warned := True, lc_dropped := lc_dropped c + 1\<rparr>"
    let ?c2 = "?c1\<lparr>lc_queue := snd (queue_dequeue (lc_queue ?c1))\<rparr>"
    have q2: "queue_list (lc_queue ?c2) = rs" using lq.deq_ok [OF w] Cons by simp
    have w2: "client_wf ?c2" using Suc.prems lq.deq_invar [OF w] by (simp add: client_wf_def)
    note IH = Suc.IH [OF w2, of "\<lambda>i. oks (Suc i)", unfolded q2]
    have e: "drain_records (Suc n) oks c =
        ((if oks 0 then [pack_log_record r] else []) @ fst (drain_records n (\<lambda>i. oks (Suc i)) ?c2),
         snd (drain_records n (\<lambda>i. oks (Suc i)) ?c2))"
      using p by (simp add: case_prod_beta Let_def)
    have d: "of_nat (length (take (Suc n) (r # rs)) - length (chosen oks (take (Suc n) (r # rs))))
        = (if oks 0 then 0 else 1) + (of_nat (length (take n rs) - length (chosen (\<lambda>i. oks (Suc i)) (take n rs))) :: u32)"
      using chosen_length [of "\<lambda>i. oks (Suc i)" "take n rs"] by (simp add: chosen_Cons Suc_diff_le)
    show ?thesis unfolding e Cons d using IH by (auto simp: chosen_Cons)
  qed
qed

lemma push_spec:
  fixes env l m s
  assumes "client_wf c"
  defines "r \<equiv> fst (build_log_record env l (Some (takeWhile (\<lambda>b. b \<noteq> 0) (lc_source c))) (Some m) s)"
  shows "queue_list (lc_queue (fst (log_client_push env l m c s)))
           = queue_list (lc_queue c) @ (if queue_room (lc_queue c) = 0 then [] else [r])"
    and "lc_dropped (fst (log_client_push env l m c s)) = lc_dropped c + (if queue_room (lc_queue c) = 0 then 1 else 0)"
    and "client_wf (fst (log_client_push env l m c s))"
proof -
  have w: "queue_wf (lc_queue c)" "0 \<le> lc_sock c" using assms(1) by (auto simp: client_wf_def)
  show "queue_list (lc_queue (fst (log_client_push env l m c s)))
           = queue_list (lc_queue c) @ (if queue_room (lc_queue c) = 0 then [] else [r])"
    using w lq.enq_ok [OF w(1), of r] lq.enq_full [OF w(1), of r]
    by (auto simp: log_client_push_def r_def Let_def case_prod_beta)
  show "lc_dropped (fst (log_client_push env l m c s)) = lc_dropped c + (if queue_room (lc_queue c) = 0 then 1 else 0)"
    using w lq.enq_ok [OF w(1), of r] lq.enq_full [OF w(1), of r]
    by (auto simp: log_client_push_def r_def Let_def case_prod_beta)
  show "client_wf (fst (log_client_push env l m c s))"
    using w lq.enq_invar [OF w(1), of r] by (auto simp: log_client_push_def client_wf_def r_def Let_def case_prod_beta)
qed

text \<open>Any interleaving of pushes and drains: the datagrams sent, the client and the counter after.\<close>

datatype log_event = Push log_env LogLevel "u8 list" | Drain nat "nat \<Rightarrow> bool"

primrec log_run :: "log_event list \<Rightarrow> LogClient \<Rightarrow> u32 \<Rightarrow> u8 list list \<times> LogClient \<times> u32" where
  "log_run [] c s = ([], c, s)"
| "log_run (e # es) c s =
     (case e of
        Push env l m \<Rightarrow> (let (c1, s1) = log_client_push env l m c s in log_run es c1 s1)
      | Drain n oks \<Rightarrow> (let (sent, c1) = log_client_drain n oks c; (sent', c2, s2) = log_run es c1 s in (sent @ sent', c2, s2)))"

text \<open>The records the pushes of a run build, whether they find room or not.\<close>

primrec built_records :: "u8 list \<Rightarrow> log_event list \<Rightarrow> u32 \<Rightarrow> LogRecord list" where
  "built_records src [] s = []"
| "built_records src (e # es) s =
     (case e of
        Push env l m \<Rightarrow>
          (let (r, s1) = build_log_record env l (Some (takeWhile (\<lambda>b. b \<noteq> 0) src)) (Some m) s in r # built_records src es s1)
      | Drain n oks \<Rightarrow> built_records src es s)"

lemma chosen_subseq: "subseq (chosen oks xs) xs"
proof (induction xs arbitrary: oks)
  case (Cons x xs)
  then show ?case by (auto simp: chosen_Cons intro: list_emb_Cons)
qed (simp add: chosen_def)

lemma push_source_seq:
  "0 \<le> lc_sock c \<Longrightarrow> lc_source (fst (log_client_push env l m c s)) = lc_source c"
  "0 \<le> lc_sock c \<Longrightarrow> snd (log_client_push env l m c s) = s + 1"
  by (simp_all add: log_client_push_def build_log_record_def Let_def case_prod_beta)

lemma drain_source: "lc_source (snd (drain_records n oks c)) = lc_source c"
proof (induction n arbitrary: oks c)
  case (Suc n)
  then show ?case by (auto simp: case_prod_beta Let_def split: option.splits)
qed simp

lemma log_run_account:
  assumes "client_wf c"
  shows "let (sent, c', s') = log_run es c s; q = queue_list (lc_queue c); built = built_records (lc_source c) es s
         in subseq (sent @ map pack_log_record (queue_list (lc_queue c'))) (map pack_log_record (q @ built))
          \<and> lc_dropped c' = lc_dropped c + of_nat (length q + length built - length sent - length (queue_list (lc_queue c')))
          \<and> length sent + length (queue_list (lc_queue c')) \<le> length q + length built"
  using assms
proof (induction es arbitrary: c s)
  case (Cons e es)
  have w: "queue_wf (lc_queue c)" "0 \<le> lc_sock c" using Cons.prems by (auto simp: client_wf_def)
  let ?q = "queue_list (lc_queue c)"
  show ?case
  proof (cases e)
    case (Push env l m)
    obtain c1 s1 where p: "log_client_push env l m c s = (c1, s1)" by (cases "log_client_push env l m c s")
    obtain r s' where r: "build_log_record env l (Some (takeWhile (\<lambda>b. b \<noteq> 0) (lc_source c))) (Some m) s = (r, s')"
      by (cases "build_log_record env l (Some (takeWhile (\<lambda>b. b \<noteq> 0) (lc_source c))) (Some m) s")
    have s': "s' = s1" using push_source_seq(2) [OF w(2), of env l m s] p r by (auto simp: build_log_record_def)
    let ?add = "if queue_room (lc_queue c) = 0 then [] else [r]"
    note ps = push_spec [OF Cons.prems, of env l m s, unfolded p r fst_conv]
    have src: "lc_source c1 = lc_source c" using push_source_seq(1) [OF w(2), of env l m s] p by simp
    obtain sent c2 s2 where run: "log_run es c1 s1 = (sent, c2, s2)" by (cases "log_run es c1 s1")
    let ?b = "built_records (lc_source c) es s1"
    have IH: "subseq (sent @ map pack_log_record (queue_list (lc_queue c2))) (map pack_log_record ((?q @ ?add) @ ?b))"
      "lc_dropped c2 = lc_dropped c1 + of_nat (length (?q @ ?add) + length ?b - length sent - length (queue_list (lc_queue c2)))"
      "length sent + length (queue_list (lc_queue c2)) \<le> length (?q @ ?add) + length ?b"
      using Cons.IH [OF ps(3), of s1] run src ps(1) by (simp_all add: Let_def)
    have "subseq (map pack_log_record ((?q @ ?add) @ ?b)) (map pack_log_record (?q @ r # ?b))"
      by (intro subseq_map) (auto intro!: list_emb_append_mono [OF subseq_order.refl] list_emb_Cons)
    then have S: "subseq (sent @ map pack_log_record (queue_list (lc_queue c2))) (map pack_log_record (?q @ r # ?b))"
      using IH(1) subseq_order.trans by blast
    have D: "lc_dropped c2 = lc_dropped c + of_nat (length ?q + length (r # ?b) - length sent - length (queue_list (lc_queue c2)))"
      using IH(2,3) ps(2) by (auto simp: Suc_diff_le split: if_splits)
    show ?thesis using S D IH(3) p r run s' Push by (auto split: if_splits)
  next
    case (Drain n oks)
    have dr: "log_client_drain n oks c = drain_records n oks c" using w(2) by (simp add: log_client_drain_def)
    obtain snt c1 where d: "drain_records n oks c = (snt, c1)" by (cases "drain_records n oks c")
    have sp: "snt = map pack_log_record (chosen oks (take n ?q))" "queue_list (lc_queue c1) = drop n ?q"
      "lc_dropped c1 = lc_dropped c + of_nat (length (take n ?q) - length (chosen oks (take n ?q)))" "client_wf c1"
      using drain_records_spec [OF Cons.prems, of n oks] d by auto
    have src: "lc_source c1 = lc_source c" using drain_source [of n oks c] d by simp
    obtain sent c2 s2 where run: "log_run es c1 s = (sent, c2, s2)" by (cases "log_run es c1 s")
    let ?b = "built_records (lc_source c) es s"
    have IH: "subseq (sent @ map pack_log_record (queue_list (lc_queue c2))) (map pack_log_record (drop n ?q @ ?b))"
      "lc_dropped c2 = lc_dropped c1 + of_nat (length (drop n ?q) + length ?b - length sent - length (queue_list (lc_queue c2)))"
      "length sent + length (queue_list (lc_queue c2)) \<le> length (drop n ?q) + length ?b"
      using Cons.IH [OF sp(4), of s] run src sp(2) by (simp_all add: Let_def)
    have "subseq (snt @ sent @ map pack_log_record (queue_list (lc_queue c2))) (map pack_log_record (take n ?q) @ map pack_log_record (drop n ?q @ ?b))"
      unfolding sp(1) by (intro list_emb_append_mono IH(1) subseq_map chosen_subseq)
    then have S: "subseq ((snt @ sent) @ map pack_log_record (queue_list (lc_queue c2))) (map pack_log_record (?q @ ?b))"
      by (metis append.assoc append_take_drop_id map_append)
    have len: "length snt \<le> length (take n ?q)" "length (take n ?q) + length (drop n ?q) = length ?q"
      unfolding sp(1) using chosen_length [of oks "take n ?q"] by simp_all
    have "lc_dropped c2 = lc_dropped c + of_nat ((length (take n ?q) - length snt)
        + (length (drop n ?q) + length ?b - length sent - length (queue_list (lc_queue c2))))"
      using IH(2) sp(1,3) by simp
    moreover have "(length (take n ?q) - length snt) + (length (drop n ?q) + length ?b - length sent - length (queue_list (lc_queue c2)))
        = length ?q + length ?b - length (snt @ sent) - length (queue_list (lc_queue c2))"
      using len IH(3) by simp
    ultimately have D: "lc_dropped c2 = lc_dropped c + of_nat (length ?q + length ?b - length (snt @ sent) - length (queue_list (lc_queue c2)))"
      by (simp only:)
    have H: "length (snt @ sent) + length (queue_list (lc_queue c2)) \<le> length ?q + length ?b"
      using IH(3) len by (simp only: length_append)
    have R: "log_run (e # es) c s = (snt @ sent, c2, s2)" "built_records (lc_source c) (e # es) s = ?b"
      using Drain dr d run by simp_all
    show ?thesis unfolding R Let_def prod.case using S D H by blast
  qed
qed simp

text \<open>
  Lemma (log_client_accounts): nothing is lost without being counted. Over any interleaving of pushes and
  drains, with any \<open>sendto\<close> failing, the datagrams sent followed by the records still queued are a
  selection, in order, of the records built, and the drop counter has gone up by exactly the number of
  records that are neither sent nor queued, whether the queue was full or the send failed.
\<close>

theorem log_client_accounts:
  assumes "0 \<le> sock"
  shows "let c = snd (log_client_init sock path name); (sent, c', s') = log_run es c s;
             built = built_records (lc_source c) es s; queued = queue_list (lc_queue c')
         in subseq (sent @ map pack_log_record queued) (map pack_log_record built)
          \<and> length sent + length queued \<le> length built
          \<and> log_client_get_dropped_count c' = of_nat (length built - length sent - length queued)"
proof -
  define c where "c = snd (log_client_init sock path name)"
  have c: "client_wf c" "queue_list (lc_queue c) = []" "lc_dropped c = 0"
    using assms queue_init_wf queue_init_list by (auto simp: c_def log_client_init_def client_wf_def Let_def)
  show ?thesis
    unfolding Let_def c_def [symmetric] using log_run_account [OF c(1), of es s] c(2,3)
    by (auto simp: Let_def log_client_get_dropped_count_def)
qed

theorem log_client_accounts_witness:
  "let c = snd (log_client_init 3 ''x'' [116]);
       es = [Push \<lparr>le_sec = 1, le_nsec = 2, le_pid = 3\<rparr> LOG_LEVEL_INFO [65], Drain 16 (\<lambda>_. False)];
       (sent, c', s') = log_run es c 0
   in length sent + length (queue_list (lc_queue c')) \<le> length (built_records (lc_source c) es 0)"
  using log_client_accounts [of 3 "''x''" "[116]" "[Push \<lparr>le_sec = 1, le_nsec = 2, le_pid = 3\<rparr> LOG_LEVEL_INFO [65], Drain 16 (\<lambda>_. False)]" 0]
  by (auto simp: Let_def simp del: log_run.simps built_records.simps)

section \<open>The daemon's count of lost records\<close>

text \<open>
  The specification: the last number seen from each process, and the numbers skipped when the next
  record of the same process arrives.
\<close>

definition last_seq_of :: "LogRecord list \<Rightarrow> u32 \<Rightarrow> u32 option" where
  "last_seq_of rs p =
     (let qs = filter (\<lambda>r. lr_pid r = p) rs in if qs = [] then None else Some (lr_seq (last qs)))"

definition skipped :: "LogRecord list \<Rightarrow> LogRecord \<Rightarrow> nat" where
  "skipped rs r =
     (case last_seq_of rs (lr_pid r) of None \<Rightarrow> 0
      | Some s \<Rightarrow> if lr_seq r > s then unat (lr_seq r) - unat s - 1 else 0)"

primrec lost_count :: "LogRecord list \<Rightarrow> LogRecord list \<Rightarrow> nat" where
  "lost_count seen [] = 0"
| "lost_count seen (r # rs) = skipped seen r + lost_count (seen @ [r]) rs"

lemma lost_count_snoc: "lost_count seen (rs @ [r]) = lost_count seen rs + skipped (seen @ rs) r"
  by (induction rs arbitrary: seen) simp_all

text \<open>The table holds, for each process seen, one slot with its last number.\<close>

definition tracks :: "LogRecord list \<Rightarrow> SenderTracker list \<Rightarrow> bool" where
  "tracks rs ts \<longleftrightarrow> distinct (map st_pid ts) \<and> set (map st_pid ts) = set (map lr_pid rs)
     \<and> (\<forall>t \<in> set ts. st_seen t \<and> last_seq_of rs (st_pid t) = Some (st_last_seq t))"

lemma last_seq_of_snoc: "last_seq_of (rs @ [r]) p = (if lr_pid r = p then Some (lr_seq r) else last_seq_of rs p)"
  by (simp add: last_seq_of_def)

lemma last_seq_of_None: "last_seq_of rs p = None \<longleftrightarrow> p \<notin> set (map lr_pid rs)"
  by (auto simp: last_seq_of_def Let_def filter_empty_conv)

lemma gap_word: "(if w \<noteq> s + 1 \<and> w > s then w - s - 1 else 0 :: u32) = of_nat (if w > s then unat w - unat s - 1 else 0)"
proof (cases "s < w")
  case True
  then have lt: "unat s < unat w" by (simp add: word_less_nat_alt)
  then have "w - s - 1 = of_nat (unat w - unat s - 1)" by (simp add: of_nat_diff)
  then show ?thesis using True by auto
qed simp

lemma find_tracker_known:
  assumes "tracks rs ts" and "p \<in> set (map lr_pid rs)"
  obtains i where "find_tracker junk ts p = (Some i, ts)" "i < length ts" "st_pid (ts ! i) = p"
proof -
  have "p \<in> st_pid ` set ts" using assms by (simp add: tracks_def)
  then have "\<exists>t \<in> set ts. st_pid t = p" by blast
  then have "List.find (\<lambda>i. st_pid (ts ! i) = p) [0..<length ts] \<noteq> None" by (auto simp: find_None_iff in_set_conv_nth)
  then obtain i where i: "List.find (\<lambda>i. st_pid (ts ! i) = p) [0..<length ts] = Some i" by blast
  then have "i < length ts \<and> st_pid (ts ! i) = p" by (auto simp: find_Some_iff)
  then show thesis using that i by (simp add: find_tracker_def)
qed

lemma find_tracker_new:
  assumes "tracks rs ts" and "p \<notin> set (map lr_pid rs)"
  shows "find_tracker junk ts p =
     (if length ts < MAX_TRACKED_SENDERS then (Some (length ts), ts @ [\<lparr>st_pid = p, st_last_seq = junk, st_seen = False\<rparr>]) else (None, ts))"
proof -
  have "p \<notin> st_pid ` set ts" using assms by (simp add: tracks_def)
  then have "List.find (\<lambda>i. st_pid (ts ! i) = p) [0..<length ts] = None" by (force simp: find_None_iff)
  then show ?thesis by (simp add: find_tracker_def)
qed

lemma tracks_card: "tracks rs ts \<Longrightarrow> length ts = card (set (map lr_pid rs))"
  by (metis distinct_card length_map tracks_def)

text \<open>One record: the table follows the specification, and the total grows by the numbers skipped.\<close>

lemma track_record_refines:
  assumes "tracks rs (ld_trackers d)" and "card (set (map lr_pid (rs @ [r]))) \<le> MAX_TRACKED_SENDERS"
  shows "tracks (rs @ [r]) (ld_trackers (track_record junk r d))
       \<and> ld_total (track_record junk r d) = ld_total d + of_nat (skipped rs r)"
proof (cases "lr_pid r \<in> set (map lr_pid rs)")
  case True
  let ?ts = "ld_trackers d"
  obtain i where i: "find_tracker junk ?ts (lr_pid r) = (Some i, ?ts)" "i < length ?ts" "st_pid (?ts ! i) = lr_pid r"
    using find_tracker_known [OF assms(1) True] by blast
  let ?t = "?ts ! i"
  have t: "st_seen ?t" "last_seq_of rs (lr_pid r) = Some (st_last_seq ?t)"
    using assms(1) i(2,3) nth_mem [OF i(2)] unfolding tracks_def by metis+
  let ?ts' = "?ts[i := ?t\<lparr>st_last_seq := lr_seq r, st_seen := True\<rparr>]"
  have pids: "map st_pid ?ts' = map st_pid ?ts" by (simp add: map_update i(2)) (metis i(2) list_update_id length_map nth_map)
  have others: "st_pid (?ts ! j) \<noteq> lr_pid r" if "j < length ?ts" "j \<noteq> i" for j
    using assms(1) i(2,3) that unfolding tracks_def distinct_conv_nth by (metis length_map nth_map)
  have all: "st_seen (?ts' ! j) \<and> last_seq_of (rs @ [r]) (st_pid (?ts' ! j)) = Some (st_last_seq (?ts' ! j))" if "j < length ?ts" for j
    using assms(1) i others [OF that] that by (cases "j = i") (auto simp: last_seq_of_snoc tracks_def)
  have "\<forall>t \<in> set ?ts'. st_seen t \<and> last_seq_of (rs @ [r]) (st_pid t) = Some (st_last_seq t)"
    using all by (metis (no_types, lifting) in_set_conv_nth length_list_update)
  moreover have "distinct (map st_pid ?ts')" "set (map st_pid ?ts') = set (map lr_pid (rs @ [r]))"
    unfolding pids using assms(1) True by (auto simp: tracks_def)
  ultimately have tr: "tracks (rs @ [r]) ?ts'" unfolding tracks_def by blast
  have "track_record junk r d = d\<lparr>ld_trackers := ?ts',
      ld_total := ld_total d + of_nat (skipped rs r), ld_period := ld_period d + of_nat (skipped rs r)\<rparr>"
    using i(1) t gap_word [of "lr_seq r" "st_last_seq ?t"] by (simp add: track_record_def skipped_def Let_def)
  then show ?thesis using tr by simp
next
  case False
  let ?ts = "ld_trackers d"
  have "card (set (map lr_pid (rs @ [r]))) = Suc (length ?ts)" using tracks_card [OF assms(1)] False by simp
  then have l: "length ?ts < 32" using assms(2) by simp
  let ?new = "\<lparr>st_pid = lr_pid r, st_last_seq = junk, st_seen = False\<rparr>"
  have f: "find_tracker junk ?ts (lr_pid r) = (Some (length ?ts), ?ts @ [?new])"
    using find_tracker_new [OF assms(1) False] l by simp
  have sk: "skipped rs r = 0" using False by (simp add: skipped_def last_seq_of_None [THEN iffD2])
  have e: "track_record junk r d = d\<lparr>ld_trackers := ?ts @ [\<lparr>st_pid = lr_pid r, st_last_seq = lr_seq r, st_seen = True\<rparr>]\<rparr>"
    using f by (simp add: track_record_def Let_def list_update_append)
  have "lr_pid r \<notin> st_pid ` set ?ts" using assms(1) False by (simp add: tracks_def)
  then show ?thesis using assms(1) False sk unfolding e
    by (auto simp: tracks_def last_seq_of_snoc)
qed

lemma tracks_fold:
  assumes "tracks seen (ld_trackers d)" and "card (set (map lr_pid (seen @ rs))) \<le> MAX_TRACKED_SENDERS"
  shows "tracks (seen @ rs) (ld_trackers (fold (track_record junk) rs d))
       \<and> ld_total (fold (track_record junk) rs d) = ld_total d + of_nat (lost_count seen rs)"
  using assms
proof (induction rs arbitrary: seen d)
  case (Cons r rs)
  have "card (set (map lr_pid (seen @ [r]))) \<le> card (set (map lr_pid (seen @ r # rs)))" by (intro card_mono) auto
  then have s: "tracks (seen @ [r]) (ld_trackers (track_record junk r d))"
    "ld_total (track_record junk r d) = ld_total d + of_nat (skipped seen r)"
    using track_record_refines [OF Cons.prems(1), of r junk] Cons.prems(2) by auto
  then show ?case using Cons.IH [of "seen @ [r]" "track_record junk r d"] Cons.prems(2) by simp
qed simp

text \<open>
  Lemma (lost_records_counted): for records from at most 32 processes, arriving in any interleaving, the
  daemon's table works like the map from each process to its last number, and its total is the number of
  sequence numbers skipped between successive records of the same process (modulo \<open>2^32\<close>).
\<close>

theorem lost_records_counted:
  assumes "card (set (map lr_pid rs)) \<le> MAX_TRACKED_SENDERS" and "ld_trackers d = []" and "ld_total d = 0"
  shows "ld_total (fold (track_record junk) rs d) = of_nat (lost_count [] rs)
       \<and> (\<forall>t \<in> set (ld_trackers (fold (track_record junk) rs d)). last_seq_of rs (st_pid t) = Some (st_last_seq t))"
proof -
  have "tracks [] (ld_trackers d)" using assms(2) by (simp add: tracks_def)
  from tracks_fold [OF this, of rs junk] show ?thesis using assms(1,3) by (simp add: tracks_def)
qed

theorem lost_records_counted_witness:
  "ld_total (fold (track_record 0) [zero_record, zero_record\<lparr>lr_seq := 5\<rparr>, zero_record\<lparr>lr_pid := 7, lr_seq := 2\<rparr>]
      \<lparr>ld_trackers = [], ld_total = 0, ld_period = 0, ld_last_summary = 0, ld_file = []\<rparr>) = 4"
  using lost_records_counted [of "[zero_record, zero_record\<lparr>lr_seq := 5\<rparr>, zero_record\<lparr>lr_pid := 7, lr_seq := 2\<rparr>]"
      "\<lparr>ld_trackers = [], ld_total = 0, ld_period = 0, ld_last_summary = 0, ld_file = []\<rparr>" 0]
  by (simp add: zero_record_def skipped_def last_seq_of_def Let_def del: fold_simps)

text \<open>
  Lemma (log_record_delivered): a record that a client builds travels as one datagram of 292 bytes, and the
  daemon unpacks exactly the record that was built, with source and message cut to 15 and 255 bytes.
\<close>

theorem log_record_delivered:
  "let r = fst (build_log_record env l (Some src) (Some msg) s); b = pack_log_record r
   in length b = LOG_WIRE_SIZE \<and> unpack_log_record b = r
    \<and> take (min (length src) 15) (lr_source r) = take 15 src \<and> take (min (length msg) 255) (lr_message r) = take 255 msg"
proof -
  have ok: "log_record_ok (fst (build_log_record env l (Some src) (Some msg) s))" by (rule build_log_record_ok)
  have c: "take (min (length x) (k - 1)) (copy_fixed (replicate k 0) (Some x)) = take (k - 1) x" for x k
    by (simp add: copy_fixed_def Let_def min_def)
  show ?thesis
    unfolding Let_def using pack_length [OF ok] log_wire.dec_enc [OF ok] c [of src 16] c [of msg 256]
    by (simp add: build_log_record_def)
qed

end
