(* ===== verification/Log_Daemon.thy ===== *)
theory Log_Daemon
  imports Logging
begin

text \<open>
  The program around the log daemon's table: \<open>main\<close> of \<open>tetrislogd/main.c\<close>, from the command line to the shut-down, with the log file on a disk.

  A disk maps paths to file numbers and has the lines of each file, in the order in which the files were made. The signals, the results of the
  system calls and what \<open>recvfrom\<close> finds are the arguments of a pass; between passes somebody else may move the log file away, as a
  log rotation does.
\<close>

section \<open>Files\<close>

record disk =
  dk_dir :: "string \<Rightarrow> nat option"
  dk_files :: "string list list"

text \<open>\<open>fopen\<close> with mode \<open>"a"\<close>.\<close>

definition open_append :: "string \<Rightarrow> disk \<Rightarrow> nat \<times> disk" where
  "open_append path dk =
     (case dk_dir dk path of
        Some i \<Rightarrow> (i, dk)
      | None \<Rightarrow> (length (dk_files dk), dk\<lparr>dk_dir := (dk_dir dk)(path \<mapsto> length (dk_files dk)), dk_files := dk_files dk @ [[]]\<rparr>))"

definition append_line :: "nat \<Rightarrow> string \<Rightarrow> disk \<Rightarrow> disk" where
  "append_line i line dk = dk\<lparr>dk_files := (dk_files dk)[i := dk_files dk ! i @ [line]]\<rparr>"

definition move_file :: "string \<Rightarrow> string \<Rightarrow> disk \<Rightarrow> disk" where
  "move_file old new dk = dk\<lparr>dk_dir := ((dk_dir dk)(new := dk_dir dk old))(old := None)\<rparr>"

section \<open>Start\<close>

text \<open>The flags: every argument but the last is looked at, and the one behind it is the value.\<close>

definition path_flag :: "string list \<Rightarrow> nat \<Rightarrow> string \<times> string \<Rightarrow> string \<times> string" where
  "path_flag argv i p =
     (if argv ! i = ''--log-path'' then (take 255 (argv ! (i + 1)), snd p)
      else if argv ! i = ''--log-ipc'' then (fst p, take 255 (argv ! (i + 1)))
      else p)"

definition logd_paths :: "string list option \<Rightarrow> string list \<Rightarrow> string \<times> string" where
  "logd_paths rc argv = fold (path_flag argv) [1..<length argv - 1] (load_config rc)"

record Logd =
  dm_daemon :: LogDaemon
  dm_disk :: disk
  dm_file :: nat
  dm_reopen :: bool

definition logd_start :: "string list option \<Rightarrow> string list \<Rightarrow> int \<Rightarrow> int \<Rightarrow> bool \<Rightarrow> int \<Rightarrow> disk \<Rightarrow> (string \<times> Logd) option" where
  "logd_start rc argv sock bind_r fopen_ok now dk =
     (case logd_paths rc argv of (log_path, log_ipc) \<Rightarrow>
        if length log_ipc \<ge> 108 then None
        else if sock < 0 then None
        else if bind_r < 0 then None
        else if \<not> fopen_ok then None
        else (case open_append log_path dk of (i, dk') \<Rightarrow>
                Some (log_path, \<lparr>dm_daemon = \<lparr>ld_trackers = [], ld_total = 0, ld_period = 0, ld_last_summary = now, ld_file = []\<rparr>,
                                 dm_disk = dk', dm_file = i, dm_reopen = False\<rparr>)))"

section \<open>The event loop\<close>

record wake =
  wk_hup :: bool
  wk_fopen :: bool
  wk_activity :: int
  wk_eintr :: bool
  wk_ready :: bool
  wk_dgram :: "u8 list"
  wk_now :: int

text \<open>A datagram is cut to the buffer by \<open>recvfrom\<close>; a line goes to the file that is open.\<close>

definition log_line :: "(LogRecord \<Rightarrow> string option) \<Rightarrow> u8 list \<Rightarrow> string" where
  "log_line local_time buffer = format_log_line (local_time (unpack_log_record buffer)) (unpack_log_record buffer) 384"

definition logd_datagram :: "u32 \<Rightarrow> (LogRecord \<Rightarrow> string option) \<Rightarrow> u8 list \<Rightarrow> Logd \<Rightarrow> Logd" where
  "logd_datagram junk local_time dgram s =
     (let buffer = take LOG_WIRE_SIZE dgram
      in s\<lparr>dm_daemon := handle_datagram junk local_time buffer (dm_daemon s),
           dm_disk := (if length buffer = LOG_WIRE_SIZE then append_line (dm_file s) (log_line local_time buffer) (dm_disk s) else dm_disk s)\<rparr>)"

text \<open>A pass goes on to the next one, leaves the loop, or leaves it with a null pointer for the file.\<close>

datatype pass_end = Again Logd | Leave Logd | Leave_closed Logd

definition logd_pass :: "string \<Rightarrow> u32 \<Rightarrow> (LogRecord \<Rightarrow> string option) \<Rightarrow> wake \<Rightarrow> Logd \<Rightarrow> pass_end" where
  "logd_pass log_path junk local_time w s0 =
     (let s = s0\<lparr>dm_reopen := dm_reopen s0 \<or> wk_hup w\<rparr>
      in if dm_reopen s \<and> \<not> wk_fopen w then Leave_closed s
         else
           let s1 = (if dm_reopen s
                     then (case open_append log_path (dm_disk s) of (i, dk) \<Rightarrow> s\<lparr>dm_file := i, dm_disk := dk, dm_reopen := False\<rparr>)
                     else s)
           in if wk_activity w < 0 then (if wk_eintr w then Again s1 else Leave s1)
              else
                let s2 = (if wk_activity w > 0 \<and> wk_ready w then logd_datagram junk local_time (wk_dgram w) s1 else s1)
                in Again (s2\<lparr>dm_daemon := periodic_summary (wk_now w) (dm_daemon s2)\<rparr>))"

text \<open>
  How the program stands after the passes so far: still in the loop, at its end with the count that is printed, or stopped by \<open>fclose\<close> of
  a null pointer. A move of the log file is an event of its own.
\<close>

datatype logd_event = Wake bool wake | Rotate string

datatype logd_end = Listening Logd | Ended u32 Logd | Crashed Logd

fun logd_loop :: "string \<Rightarrow> u32 \<Rightarrow> (LogRecord \<Rightarrow> string option) \<Rightarrow> logd_event list \<Rightarrow> Logd \<Rightarrow> logd_end" where
  "logd_loop log_path junk local_time [] s = Listening s"
| "logd_loop log_path junk local_time (Rotate new # es) s =
     logd_loop log_path junk local_time es (s\<lparr>dm_disk := move_file log_path new (dm_disk s)\<rparr>)"
| "logd_loop log_path junk local_time (Wake running w # es) s =
     (if \<not> running then Ended (ld_total (dm_daemon s)) s
      else case logd_pass log_path junk local_time w s of
             Again s' \<Rightarrow> logd_loop log_path junk local_time es s'
           | Leave s' \<Rightarrow> Ended (ld_total (dm_daemon s')) s'
           | Leave_closed s' \<Rightarrow> Crashed s')"

fun end_state :: "logd_end \<Rightarrow> Logd" where
  "end_state (Listening s) = s"
| "end_state (Ended n s) = s"
| "end_state (Crashed s) = s"

section \<open>Invariant\<close>

text \<open>
  The files that exist since the daemon began, one after the other, hold the lines that it wrote. The open file is the newest one, and
  the log path leads to it or nowhere.
\<close>

definition logd_wf :: "string \<Rightarrow> nat \<Rightarrow> Logd \<Rightarrow> bool" where
  "logd_wf log_path k s \<longleftrightarrow> Suc (dm_file s) = length (dk_files (dm_disk s)) \<and> k \<le> dm_file s
     \<and> concat (drop k (dk_files (dm_disk s))) = ld_file (dm_daemon s)
     \<and> (dk_dir (dm_disk s) log_path = None \<or> dk_dir (dm_disk s) log_path = Some (dm_file s))"

lemma open_append_wf:
  assumes "logd_wf log_path k s" and "open_append log_path (dm_disk s) = (i, dk)"
  shows "logd_wf log_path k (s\<lparr>dm_file := i, dm_disk := dk, dm_reopen := b\<rparr>)"
  using assms by (auto simp: logd_wf_def open_append_def split: option.splits)

lemma append_last_concat:
  assumes "Suc i = length fs" and "k \<le> i"
  shows "concat (drop k (fs[i := fs ! i @ [x]])) = concat (drop k fs) @ [x]"
proof -
  obtain gs f where fs: "fs = gs @ [f]" "length gs = i" using assms(1) by (metis length_Suc_conv_rev)
  show ?thesis using assms(2) unfolding fs(2) [symmetric] unfolding fs(1) by simp
qed

lemma track_record_file [simp]: "ld_file (track_record junk r d) = ld_file d"
  by (simp add: track_record_def Let_def split: prod.split option.split)

lemma logd_datagram_wf:
  assumes "logd_wf log_path k s"
  shows "logd_wf log_path k (logd_datagram junk lt b s)"
  using assms append_last_concat [of "dm_file s" "dk_files (dm_disk s)" k "log_line lt (take LOG_WIRE_SIZE b)"]
  by (simp add: logd_wf_def logd_datagram_def append_line_def handle_datagram_def log_line_def Let_def)

lemma periodic_summary_file [simp]: "ld_file (periodic_summary now d) = ld_file d"
  by (simp add: periodic_summary_def)

definition reopened :: "string \<Rightarrow> wake \<Rightarrow> Logd \<Rightarrow> Logd" where
  "reopened log_path w s = (if dm_reopen s \<or> wk_hup w
     then (case open_append log_path (dm_disk s) of (i, dk) \<Rightarrow> s\<lparr>dm_file := i, dm_disk := dk, dm_reopen := False\<rparr>)
     else s\<lparr>dm_reopen := False\<rparr>)"

lemma logd_pass_reopened:
  assumes "\<not> ((dm_reopen s \<or> wk_hup w) \<and> \<not> wk_fopen w)"
  shows "logd_pass log_path junk lt w s = (let s1 = reopened log_path w s in if wk_activity w < 0 then (if wk_eintr w then Again s1 else Leave s1)
    else let s2 = (if wk_activity w > 0 \<and> wk_ready w then logd_datagram junk lt (wk_dgram w) s1 else s1)
         in Again (s2\<lparr>dm_daemon := periodic_summary (wk_now w) (dm_daemon s2)\<rparr>))"
  using assms by (auto simp: logd_pass_def reopened_def Let_def split: prod.split)

lemma logd_pass_wf:
  assumes "logd_wf log_path k s"
  shows "case logd_pass log_path junk lt w s of Again s' \<Rightarrow> logd_wf log_path k s' | Leave s' \<Rightarrow> logd_wf log_path k s' | Leave_closed s' \<Rightarrow> logd_wf log_path k s'"
proof -
  have r: "logd_wf log_path k (s\<lparr>dm_reopen := b\<rparr>)" for b using assms by (simp add: logd_wf_def)
  have w: "logd_wf log_path k (reopened log_path w s)" unfolding reopened_def using r open_append_wf [OF assms] by (auto split: prod.split)
  have p: "logd_wf log_path k (s'\<lparr>dm_daemon := periodic_summary (wk_now w) (dm_daemon s')\<rparr>)" if "logd_wf log_path k s'" for s'
    using that by (simp add: logd_wf_def)
  show ?thesis
  proof (cases "(dm_reopen s \<or> wk_hup w) \<and> \<not> wk_fopen w")
    case False
    show ?thesis unfolding logd_pass_reopened [OF False] Let_def using w logd_datagram_wf [OF w] p by simp
  qed (use r in \<open>auto simp: logd_pass_def Let_def\<close>)
qed

lemma move_file_wf: "logd_wf log_path k s \<Longrightarrow> logd_wf log_path k (s\<lparr>dm_disk := move_file log_path new (dm_disk s)\<rparr>)"
  by (simp add: logd_wf_def move_file_def)

lemma logd_loop_wf:
  assumes "logd_wf log_path k s"
  shows "logd_wf log_path k (end_state (logd_loop log_path junk lt es s))"
  using assms
proof (induction log_path junk lt es s rule: logd_loop.induct)
  case (3 log_path junk lt running w es s)
  then show ?case using logd_pass_wf [OF 3(2), of junk lt w] by (auto split: pass_end.splits)
qed (simp_all add: move_file_wf)

text \<open>The datagrams that are read, and the lines that they become: a datagram is logged as far as the buffer goes, unless it is too short to fill it.\<close>

fun received :: "logd_event list \<Rightarrow> u8 list list" where
  "received [] = []"
| "received (Rotate new # es) = received es"
| "received (Wake running w # es) = (if wk_activity w > 0 \<and> wk_ready w then [wk_dgram w] else []) @ received es"

definition logged :: "(LogRecord \<Rightarrow> string option) \<Rightarrow> logd_event list \<Rightarrow> string list" where
  "logged local_time es = map (\<lambda>b. log_line local_time (take LOG_WIRE_SIZE b)) (filter (\<lambda>b. LOG_WIRE_SIZE \<le> length b) (received es))"

lemma logd_pass_lines:
  assumes "logd_pass log_path junk lt w s = Again s'"
  shows "ld_file (dm_daemon s') = ld_file (dm_daemon s) @ logged lt [Wake r w]"
  using assms by (auto simp: logd_pass_def logd_datagram_def handle_datagram_def log_line_def logged_def Let_def split: if_splits prod.splits)

lemma logd_loop_wake:
  assumes "logd_loop log_path junk lt (Wake r w # es) s = Listening s'"
  obtains s1 where "r" and "logd_pass log_path junk lt w s = Again s1" and "logd_loop log_path junk lt es s1 = Listening s'"
  using assms by (auto split: if_splits pass_end.splits)

lemma logd_loop_lines:
  assumes "logd_loop log_path junk lt es s = Listening s'"
  shows "ld_file (dm_daemon s') = ld_file (dm_daemon s) @ logged lt es"
  using assms
proof (induction es arbitrary: s)
  case (Cons e es)
  show ?case
  proof (cases e)
    case (Wake r w)
    obtain s1 where s1: "logd_pass log_path junk lt w s = Again s1" "logd_loop log_path junk lt es s1 = Listening s'"
      using logd_loop_wake [OF Cons.prems [unfolded Wake]] .
    show ?thesis using Cons.IH [OF s1(2)] logd_pass_lines [OF s1(1), of r] by (simp add: Wake logged_def)
  next
    case (Rotate new)
    then show ?thesis using Cons.IH Cons.prems by (fastforce simp: logged_def)
  qed
qed (simp add: logged_def)

lemma logd_loop_append:
  "logd_loop log_path junk lt (es @ fs) s = Listening s' \<Longrightarrow> \<exists>s1. logd_loop log_path junk lt es s = Listening s1 \<and> logd_loop log_path junk lt fs s1 = Listening s'"
proof (induction es arbitrary: s)
  case (Cons e es)
  then show ?case by (cases e) (auto split: if_splits pass_end.splits)
qed simp

text \<open>After a reopening, as long as nobody moves the file again: the path leads to the open file, which has everything that was written since.\<close>

definition since_reopen :: "string \<Rightarrow> string list list \<Rightarrow> string list \<Rightarrow> Logd \<Rightarrow> bool" where
  "since_reopen log_path old written s \<longleftrightarrow> dm_file s = length old \<and> dk_dir (dm_disk s) log_path = Some (length old) \<and> \<not> dm_reopen s
     \<and> (\<exists>f. dk_files (dm_disk s) = old @ [f] \<and> ld_file (dm_daemon s) = written @ f)"

lemma logd_datagram_since: "since_reopen log_path old written s \<Longrightarrow> since_reopen log_path old written (logd_datagram junk lt b s)"
  by (auto simp: since_reopen_def logd_datagram_def append_line_def handle_datagram_def log_line_def Let_def)

lemma logd_pass_since:
  assumes "since_reopen log_path old written (reopened log_path w s)" and "logd_pass log_path junk lt w s = Again s'"
  shows "since_reopen log_path old written s'"
proof -
  have "\<not> ((dm_reopen s \<or> wk_hup w) \<and> \<not> wk_fopen w)" using assms(2) by (auto simp: logd_pass_def Let_def)
  note e = logd_pass_reopened [OF this, of log_path junk lt]
  have "since_reopen log_path old written (x\<lparr>dm_daemon := periodic_summary (wk_now w) (dm_daemon x)\<rparr>)" if "since_reopen log_path old written x" for x
    using that by (simp add: since_reopen_def)
  then show ?thesis using assms logd_datagram_since [OF assms(1)] unfolding e by (auto simp: Let_def split: if_splits)
qed

lemma reopened_since: "since_reopen log_path old written s \<Longrightarrow> since_reopen log_path old written (reopened log_path w s)"
  by (simp add: since_reopen_def reopened_def open_append_def)

lemma logd_loop_since:
  assumes "since_reopen log_path old written s" and "logd_loop log_path junk lt es s = Listening s'" and "\<forall>new. Rotate new \<notin> set es"
  shows "since_reopen log_path old written s'"
  using assms
proof (induction es arbitrary: s)
  case (Cons e es)
  then obtain r w where e: "e = Wake r w" by (cases e) auto
  obtain s1 where s1: "logd_pass log_path junk lt w s = Again s1" "logd_loop log_path junk lt es s1 = Listening s'"
    using logd_loop_wake [OF Cons.prems(2) [unfolded e]] .
  show ?case using Cons.IH [OF logd_pass_since [OF reopened_since [OF Cons.prems(1)] s1(1)] s1(2)] Cons.prems(3) by simp
qed simp

text \<open>The reopening itself: the moved file is as it was, and an empty one takes its place.\<close>

lemma reopen_since:
  assumes "logd_pass log_path junk lt w (s\<lparr>dm_disk := move_file log_path new (dm_disk s)\<rparr>) = Again s'" and "wk_hup w"
  shows "since_reopen log_path (dk_files (dm_disk s)) (ld_file (dm_daemon s)) s'"
proof (rule logd_pass_since [OF _ assms(1)])
  show "since_reopen log_path (dk_files (dm_disk s)) (ld_file (dm_daemon s)) (reopened log_path w (s\<lparr>dm_disk := move_file log_path new (dm_disk s)\<rparr>))"
    using assms(2) by (simp add: reopened_def since_reopen_def open_append_def move_file_def)
qed

section \<open>Properties\<close>

text \<open>
  C38 (rotation_keeps_lines): no log line is lost or doubled when the log file is rotated, and the signal to reopen makes the daemon go on in a new file. Start the daemon where no log file exists, and let
  somebody move the log file away however often and whenever. As long as the daemon listens, the files that came into being since it started, put one behind the other, are the lines of all datagrams of at
  least 292 bytes in the order of their arrival, each cut to 292 bytes. When the file is moved away and the signal comes next, then until the next move the log path leads to a file with exactly the lines
  since the signal, and the files before it have exactly the lines before.
\<close>

theorem rotation_keeps_lines:
  assumes "logd_start rc argv sock bind_r True now dk = Some (log_path, s)" and "dk_dir dk log_path = None"
    and "logd_loop log_path junk lt es s = Listening s'"
  defines "n \<equiv> length (dk_files dk)" and "fs \<equiv> dk_files (dm_disk s')"
  shows "concat (drop n fs) = logged lt es
     \<and> (\<forall>es1 new w es2. es = es1 @ Rotate new # Wake True w # es2 \<and> wk_hup w \<and> (\<forall>new. Rotate new \<notin> set es2) \<longrightarrow>
          dk_dir (dm_disk s') log_path = Some (length fs - 1) \<and> last fs = logged lt (Wake True w # es2) \<and> concat (drop n (butlast fs)) = logged lt es1)"
proof
  have s: "s = \<lparr>dm_daemon = \<lparr>ld_trackers = [], ld_total = 0, ld_period = 0, ld_last_summary = now, ld_file = []\<rparr>,
      dm_disk = snd (open_append log_path dk), dm_file = fst (open_append log_path dk), dm_reopen = False\<rparr>"
    using assms(1) by (auto simp: logd_start_def split: prod.splits if_splits)
  then have w: "logd_wf log_path n s" using assms(2) by (simp add: logd_wf_def open_append_def n_def)
  have kept: "concat (drop n (dk_files (dm_disk x))) = logged lt es' \<and> n < length (dk_files (dm_disk x)) \<and> ld_file (dm_daemon x) = logged lt es'"
    if "logd_loop log_path junk lt es' s = Listening x" for es' x
    using logd_loop_wf [OF w, of junk lt es'] logd_loop_lines [OF that] that s by (auto simp: logd_wf_def)
  show "concat (drop n fs) = logged lt es" using kept [OF assms(3)] by (simp add: fs_def)
  show "\<forall>es1 new w es2. es = es1 @ Rotate new # Wake True w # es2 \<and> wk_hup w \<and> (\<forall>new. Rotate new \<notin> set es2) \<longrightarrow>
      dk_dir (dm_disk s') log_path = Some (length fs - 1) \<and> last fs = logged lt (Wake True w # es2) \<and> concat (drop n (butlast fs)) = logged lt es1"
  proof (intro allI impI, elim conjE)
    fix es1 new w es2
    assume e: "es = es1 @ Rotate new # Wake True w # es2" "wk_hup w" "\<forall>new. Rotate new \<notin> set es2"
    obtain s1 where s1: "logd_loop log_path junk lt es1 s = Listening s1" "logd_loop log_path junk lt (Rotate new # Wake True w # es2) s1 = Listening s'"
      using logd_loop_append assms(3) unfolding e(1) by blast
    obtain s2 where s2: "logd_pass log_path junk lt w (s1\<lparr>dm_disk := move_file log_path new (dm_disk s1)\<rparr>) = Again s2" "logd_loop log_path junk lt es2 s2 = Listening s'"
      using s1(2) by (auto split: pass_end.splits)
    have j: "since_reopen log_path (dk_files (dm_disk s1)) (ld_file (dm_daemon s1)) s'"
      by (rule logd_loop_since [OF reopen_since [OF s2(1) e(2)] s2(2) e(3)])
    then obtain f where f: "fs = dk_files (dm_disk s1) @ [f]" "ld_file (dm_daemon s') = ld_file (dm_daemon s1) @ f"
        "dk_dir (dm_disk s') log_path = Some (length (dk_files (dm_disk s1)))" by (auto simp: since_reopen_def fs_def)
    have "ld_file (dm_daemon s') = ld_file (dm_daemon s1) @ logged lt (Rotate new # Wake True w # es2)" by (rule logd_loop_lines [OF s1(2)])
    then have "f = logged lt (Wake True w # es2)" using f(2) by (simp add: logged_def)
    then show "dk_dir (dm_disk s') log_path = Some (length fs - 1) \<and> last fs = logged lt (Wake True w # es2) \<and> concat (drop n (butlast fs)) = logged lt es1"
      using f kept [OF s1(1)] by simp
  qed
qed

definition empty_disk :: disk where "empty_disk = \<lparr>dk_dir = (\<lambda>_. None), dk_files = []\<rparr>"

definition quiet_wake :: wake where
  "quiet_wake = \<lparr>wk_hup = False, wk_fopen = True, wk_activity = 0, wk_eintr = False, wk_ready = False, wk_dgram = [], wk_now = 0\<rparr>"

definition record_wake :: wake where
  "record_wake = quiet_wake\<lparr>wk_activity := 1, wk_ready := True, wk_dgram := replicate 292 0\<rparr>"

theorem rotation_keeps_lines_witness:
  "\<exists>log_path s s'. logd_start None [] 3 0 True 0 empty_disk = Some (log_path, s)
     \<and> logd_loop log_path 0 (\<lambda>_. None) [Wake True record_wake, Rotate ''old.log'', Wake True (record_wake\<lparr>wk_hup := True\<rparr>)] s = Listening s'
     \<and> last (dk_files (dm_disk s')) = [log_line (\<lambda>_. None) (replicate 292 0)]
     \<and> concat (butlast (dk_files (dm_disk s'))) = [log_line (\<lambda>_. None) (replicate 292 0)]"
proof -
  let ?w = "record_wake\<lparr>wk_hup := True\<rparr>"
  let ?es = "[Wake True record_wake] @ Rotate ''old.log'' # Wake True ?w # []"
  obtain log_path s where s: "logd_start None [] 3 0 True 0 empty_disk = Some (log_path, s)"
    by (simp add: logd_start_def logd_paths_def load_config_def open_append_def empty_disk_def)
  obtain s' where s': "logd_loop log_path 0 (\<lambda>_. None) ?es s = Listening s'"
    by (simp add: logd_pass_def record_wake_def quiet_wake_def Let_def split: prod.split)
  have d: "dk_dir empty_disk log_path = None" "length (dk_files empty_disk) = 0" by (simp_all add: empty_disk_def)
  have l: "logged (\<lambda>_. None) [Wake True ?w] = [log_line (\<lambda>_. None) (replicate 292 0)]" "logged (\<lambda>_. None) [Wake True record_wake] = [log_line (\<lambda>_. None) (replicate 292 0)]"
    by (simp_all add: logged_def record_wake_def quiet_wake_def)
  have "wk_hup ?w" "\<forall>new. Rotate new \<notin> set []" by simp_all
  then have "last (dk_files (dm_disk s')) = logged (\<lambda>_. None) [Wake True ?w] \<and> concat (drop 0 (butlast (dk_files (dm_disk s')))) = logged (\<lambda>_. None) [Wake True record_wake]"
    using rotation_keeps_lines [OF s d(1) s'] unfolding d(2) by blast
  then show ?thesis using s s' unfolding l by auto
qed

text \<open>A file that cannot be reopened ends the program in \<open>fclose\<close> of a null pointer, with the socket file still there.\<close>

lemma reopen_failure_crashes:
  assumes "wk_hup w" and "\<not> wk_fopen w"
  shows "\<exists>s'. logd_loop log_path junk lt (Wake True w # es) s = Crashed s'"
  using assms by (simp add: logd_pass_def Let_def)

text \<open>A datagram that is too long is cut and logged; only short ones are ignored.\<close>

lemma oversized_datagram_logged:
  assumes "LOG_WIRE_SIZE < length b"
  shows "ld_file (dm_daemon (logd_datagram junk lt b s)) = ld_file (dm_daemon s) @ [log_line lt (take LOG_WIRE_SIZE b)]"
  using assms by (simp add: logd_datagram_def handle_datagram_def log_line_def Let_def)

lemma logd_paths_fit:
  assumes "logd_start rc argv sock bind_r fopen_ok now dk = Some (log_path, s)"
  shows "length (snd (logd_paths rc argv)) < 108"
  using assms by (auto simp: logd_start_def split: prod.splits if_splits)

end
