(* ===== verification/Event_Bus.thy ===== *)
theory Event_Bus
  imports Prelude
begin

text \<open>
  The event bus of \<open>corestack/src/lib/libeventbus.c\<close>, on which the bomb simulation announces explosions. A
  slot's linked list of nodes is the list of its listeners, head first. A listener is a function pointer:
  it is compared by identity, and what calling it does is the argument \<open>call\<close>, a function on the rest of the
  program's state. \<open>slots\<close> is NULL before \<open>event_bus_init\<close> and after \<open>event_bus_free\<close>; an access outside
  the allocated slots is undefined in C and is the value \<open>None\<close> here.
\<close>

record 'fn event_bus =
  slots :: "'fn list list option"
  num_events :: int

definition event_bus_init :: "int \<Rightarrow> 'fn event_bus \<Rightarrow> 'fn event_bus" where
  "event_bus_init n bus = bus\<lparr>num_events := n, slots := Some (replicate (nat n) [])\<rparr>"

definition event_bus_free :: "'fn event_bus \<Rightarrow> 'fn event_bus" where
  "event_bus_free bus = bus\<lparr>slots := None, num_events := 0\<rparr>"

definition slot_of :: "int \<Rightarrow> 'fn event_bus \<Rightarrow> 'fn list option" where
  "slot_of event_type bus = (case slots bus of
     None \<Rightarrow> None
   | Some ss \<Rightarrow> if 0 \<le> event_type \<and> event_type < int (length ss) then Some (ss ! nat event_type) else None)"

definition set_slot :: "int \<Rightarrow> 'fn list \<Rightarrow> 'fn event_bus \<Rightarrow> 'fn event_bus" where
  "set_slot event_type l bus = bus\<lparr>slots := map_option (\<lambda>ss. ss[nat event_type := l]) (slots bus)\<rparr>"

definition event_bus_listen :: "int \<Rightarrow> 'fn \<Rightarrow> 'fn event_bus \<Rightarrow> 'fn event_bus option" where
  "event_bus_listen event_type listener bus = (case slot_of event_type bus of
     None \<Rightarrow> None
   | Some l \<Rightarrow> Some (set_slot event_type (listener # l) bus))"

text \<open>The walk with a pointer to the link: the first node with the listener is unlinked.\<close>

fun unlink_first :: "'fn \<Rightarrow> 'fn list \<Rightarrow> 'fn list" where
  "unlink_first listener [] = []"
| "unlink_first listener (f # rest) = (if f = listener then rest else f # unlink_first listener rest)"

definition event_bus_stop_listening :: "int \<Rightarrow> 'fn \<Rightarrow> 'fn event_bus \<Rightarrow> 'fn event_bus option" where
  "event_bus_stop_listening event_type listener bus = (case slot_of event_type bus of
     None \<Rightarrow> None
   | Some l \<Rightarrow> Some (set_slot event_type (unlink_first listener l) bus))"

fun call_listeners :: "('fn \<Rightarrow> 'args \<Rightarrow> 's \<Rightarrow> 's) \<Rightarrow> 'args \<Rightarrow> 'fn list \<Rightarrow> 's \<Rightarrow> 's" where
  "call_listeners call args [] s = s"
| "call_listeners call args (f # rest) s = call_listeners call args rest (call f args s)"

definition event_bus_trigger ::
  "('fn \<Rightarrow> 'args \<Rightarrow> 's \<Rightarrow> 's) \<Rightarrow> int \<Rightarrow> 'args \<Rightarrow> 'fn event_bus \<Rightarrow> 's \<Rightarrow> 's option" where
  "event_bus_trigger call event_type args bus s = (case slot_of event_type bus of
     None \<Rightarrow> None
   | Some l \<Rightarrow> Some (call_listeners call args l s))"

section \<open>Lemmas\<close>

lemma call_listeners_fold: "call_listeners call args l s = fold (\<lambda>f. call f args) l s"
  by (induction l arbitrary: s) simp_all

lemma unlink_first_remove1: "unlink_first f l = remove1 f l"
  by (induction l) auto

lemma slot_of_set_slot:
  assumes "slot_of e bus = Some l"
  shows "slot_of e' (set_slot e l' bus) = (if e' = e then Some l' else slot_of e' bus)"
proof -
  obtain ss where "slots bus = Some ss" "0 \<le> e" "e < int (length ss)"
    using assms by (auto simp: slot_of_def split: option.splits if_splits)
  then show ?thesis by (auto simp: slot_of_def set_slot_def nth_list_update)
qed

lemma slot_of_init: "slot_of e (event_bus_init n bus) = (if 0 \<le> e \<and> e < n then Some [] else None)"
  by (simp add: slot_of_def event_bus_init_def)

text \<open>A run of registrations and removals; \<open>Inl\<close> registers, \<open>Inr\<close> removes.\<close>

fun bus_calls :: "(int \<times> ('fn + 'fn)) list \<Rightarrow> 'fn event_bus \<Rightarrow> 'fn event_bus option" where
  "bus_calls [] bus = Some bus"
| "bus_calls ((e, Inl f) # cs) bus = (case event_bus_listen e f bus of None \<Rightarrow> None | Some b \<Rightarrow> bus_calls cs b)"
| "bus_calls ((e, Inr f) # cs) bus = (case event_bus_stop_listening e f bus of None \<Rightarrow> None | Some b \<Rightarrow> bus_calls cs b)"

text \<open>The contract: per event, a stack of registrations from which a removal takes the latest.\<close>

fun registered :: "(int \<times> ('fn + 'fn)) list \<Rightarrow> int \<Rightarrow> 'fn list \<Rightarrow> 'fn list" where
  "registered [] e l = l"
| "registered ((e', Inl f) # cs) e l = registered cs e (if e' = e then f # l else l)"
| "registered ((e', Inr f) # cs) e l = registered cs e (if e' = e then remove1 f l else l)"

lemma bus_calls_refines:
  assumes "\<And>e. 0 \<le> e \<and> e < n \<Longrightarrow> slot_of e bus = Some (st e)" and "list_all (\<lambda>c. 0 \<le> fst c \<and> fst c < n) cs"
  shows "\<exists>bus'. bus_calls cs bus = Some bus' \<and> (\<forall>e. 0 \<le> e \<and> e < n \<longrightarrow> slot_of e bus' = Some (registered cs e (st e)))"
  using assms
proof (induction cs arbitrary: bus st)
  case (Cons c cs)
  obtain e op where c: "c = (e, op)" by (cases c)
  have r: "0 \<le> e \<and> e < n" "list_all (\<lambda>c. 0 \<le> fst c \<and> fst c < n) cs" using Cons.prems(2) c by auto
  have s: "slot_of e bus = Some (st e)" using Cons.prems(1) r by simp
  define l where "l = (case op of Inl f \<Rightarrow> f # st e | Inr f \<Rightarrow> remove1 f (st e))"
  have "\<And>e'. 0 \<le> e' \<and> e' < n \<Longrightarrow> slot_of e' (set_slot e l bus) = Some (if e' = e then l else st e')"
    using Cons.prems(1) slot_of_set_slot [OF s] by simp
  from Cons.IH [OF this r(2)] show ?case using s c
    by (cases op) (auto simp: l_def event_bus_listen_def event_bus_stop_listening_def unlink_first_remove1
        if_distrib cong: if_cong)
qed auto

text \<open>
  Lemma (event_bus_refines_stacks): after \<open>event_bus_init(n)\<close>, any sequence of registrations and removals on
  events below \<open>n\<close> stays within the allocated slots, and triggering an event then calls exactly the listeners
  still registered for that event, the latest registration first, each as often as it is registered.
\<close>

theorem event_bus_refines_stacks:
  assumes "0 \<le> e" "e < n" and "list_all (\<lambda>c. 0 \<le> fst c \<and> fst c < n) cs"
  shows "\<exists>bus'. bus_calls cs (event_bus_init n bus) = Some bus'
       \<and> event_bus_trigger call e args bus' s = Some (fold (\<lambda>f. call f args) (registered cs e []) s)"
proof -
  obtain bus' where "bus_calls cs (event_bus_init n bus) = Some bus'" "slot_of e bus' = Some (registered cs e [])"
    using bus_calls_refines [of n "event_bus_init n bus" "\<lambda>_. []" cs] assms by (auto simp: slot_of_init)
  then show ?thesis by (simp add: event_bus_trigger_def call_listeners_fold)
qed

theorem event_bus_refines_stacks_witness:
  "\<exists>bus'. bus_calls [(0, Inl (1 :: int)), (0, Inl 2), (1, Inl 3), (0, Inl 2), (0, Inr 2)]
       (event_bus_init 2 \<lparr>slots = None, num_events = 0\<rparr>) = Some bus'
     \<and> event_bus_trigger (\<lambda>f a l. l @ [(f, a)]) 0 (9 :: int) bus' [] = Some [(2, 9), (1, 9)]"
  using event_bus_refines_stacks [of 0 2 "[(0, Inl (1 :: int)), (0, Inl 2), (1, Inl 3), (0, Inl 2), (0, Inr 2)]"
      "\<lparr>slots = None, num_events = 0\<rparr>" "\<lambda>f a l. l @ [(f, a)]" 9 "[]"] by simp

end
