(* ===== verification/Tetris_Client.thy ===== *)
theory Tetris_Client
  imports Room Event_Bus
begin

text \<open>
  The terminal client, \<open>tetrisu\<close>: \<open>main.c\<close> (set-up and the game loop's handling of messages),
  \<open>input_handler.c\<close> (keys to actions) and \<open>events.c\<close> (the kill feed's listener). The keys waiting in the
  terminal when the loop reads it are a list of character codes; \<open>kbhit()\<close> says that the list is not empty.
  The texts sent are collected in order. Drawing and the terminal mode are left out.

  A payload that is decoded into an uninitialised struct starts from the argument \<open>stale\<close>. Undefined
  behaviour, the parser writing past the header table, a decoder reading past a short snapshot or writing
  past the roster array, or a trigger outside the event bus, is \<open>None\<close>.
\<close>

section \<open>State\<close>

datatype listener = On_attack_generated

abbreviation (input) EVENT_ATTACK_GENERATED :: int where "EVENT_ATTACK_GENERATED \<equiv> 0"
abbreviation (input) EVENT_COUNT :: int where "EVENT_COUNT \<equiv> 1"

record TetrisClient =
  cl_connected :: bool
  cl_state :: GameState
  cl_lobby :: Roster
  cl_feed :: KillFeed
  cl_bus :: "listener event_bus"

definition on_attack_generated :: "AttackPayload \<Rightarrow> KillFeed \<Rightarrow> KillFeed" where
  "on_attack_generated a f = add_kill_feed (ap_source a) (ap_target a) (ap_lines a) f"

fun call_listener :: "listener \<Rightarrow> AttackPayload \<Rightarrow> KillFeed \<Rightarrow> KillFeed" where
  "call_listener On_attack_generated = on_attack_generated"

text \<open>The set-up once the match starts; \<open>pid\<close> is what \<open>brclient_get_id\<close> yields, if it succeeds.\<close>

definition client_start ::
  "(u32 \<Rightarrow> rng) \<Rightarrow> u32 \<Rightarrow> u32 option \<Rightarrow> TetrisClient \<Rightarrow> rng \<Rightarrow> (TetrisClient \<times> rng) option" where
  "client_start prng now pid c r =
     (let (s, r1) = start_game prng now (cl_state c) r;
          s1 = (case pid of Some p \<Rightarrow> s\<lparr>gs_player_id := p\<rparr> | None \<Rightarrow> s\<lparr>game_over := 1\<rparr>)
      in case event_bus_listen EVENT_ATTACK_GENERATED On_attack_generated (event_bus_init EVENT_COUNT (cl_bus c)) of
           None \<Rightarrow> None
         | Some b \<Rightarrow> Some (c\<lparr>cl_state := s1, cl_bus := b\<rparr>, r1))"

section \<open>Input\<close>

definition send_action :: "string \<Rightarrow> bool \<Rightarrow> GameState \<Rightarrow> PlayerAction \<Rightarrow> (ht_error + string) list" where
  "send_action date connected s action =
     (if \<not> connected then []
      else [and_then (req_create_action (gs_player_id s) REQ_ACTION \<lparr>ip_action = u32_of_action action\<rparr> date zero_msg)
              convert_to_hypertext])"

text \<open>The letter behind an escape and a bracket, and the plain keys; \<open>None\<close> has no binding.\<close>

definition arrow_action :: "nat \<Rightarrow> PlayerAction option" where
  "arrow_action k =
     (if k = code (CHR ''A'') then Some ACTION_ROTATE_CW else if k = code (CHR ''D'') then Some ACTION_MOVE_LEFT
      else if k = code (CHR ''C'') then Some ACTION_MOVE_RIGHT else if k = code (CHR ''B'') then Some ACTION_SOFT_DROP
      else None)"

definition key_action :: "nat \<Rightarrow> PlayerAction option" where
  "key_action k =
     (if k = code (CHR ''x'') \<or> k = code (CHR ''X'') then Some ACTION_ROTATE_CW
      else if k = code (CHR ''z'') \<or> k = code (CHR ''Z'') then Some ACTION_ROTATE_CCW
      else if k = code (CHR ''t'') \<or> k = code (CHR ''T'') then Some ACTION_CYCLE_TARGET_MODE
      else if k = code (CHR ''r'') \<or> k = code (CHR ''R'') then Some ACTION_CYCLE_TARGET
      else if k = code (CHR '' '') then Some ACTION_HARD_DROP
      else if k = code (CHR ''h'') \<or> k = code (CHR ''H'') then Some ACTION_HOLD
      else if k = code (CHR ''q'') \<or> k = code (CHR ''Q'') then Some ACTION_QUIT
      else None)"

definition send_bound :: "string \<Rightarrow> bool \<Rightarrow> GameState \<Rightarrow> PlayerAction option \<Rightarrow> (ht_error + string) list" where
  "send_bound date connected s ao = (case ao of None \<Rightarrow> [] | Some a \<Rightarrow> send_action date connected s a)"

text \<open>The loop: the texts sent, the state, and the keys not read because the player has quit.\<close>

fun process_inputs :: "string \<Rightarrow> bool \<Rightarrow> nat list \<Rightarrow> GameState \<Rightarrow> (ht_error + string) list \<times> GameState \<times> nat list" where
  "process_inputs date conn [] s = ([], s, [])"
| "process_inputs date conn (key # ks) s =
     (if key = 27
      then (case ks of
              [] \<Rightarrow> ([], s, [])
            | c # ks1 \<Rightarrow>
                if c = code (CHR ''['')
                then (case ks1 of
                        [] \<Rightarrow> ([], s, [])
                      | l # ks2 \<Rightarrow>
                          let (ms, s', rest) = process_inputs date conn ks2 s
                          in (send_bound date conn s (arrow_action l) @ ms, s', rest))
                else process_inputs date conn ks1 s)
      else if key_action key = Some ACTION_QUIT
      then (send_action date conn s ACTION_QUIT, s\<lparr>game_over := 1\<rparr>, ks)
      else let (ms, s', rest) = process_inputs date conn ks s
           in (send_bound date conn s (key_action key) @ ms, s', rest))"

section \<open>Messages of the server\<close>

definition install_roster :: "RosterPayload \<Rightarrow> Roster \<Rightarrow> Roster" where
  "install_roster p ro =
     (let n = (if unat (rp_count p) > MAX_LOBBY_PLAYERS then MAX_LOBBY_PLAYERS else unat (rp_count p));
          ro1 = ro\<lparr>ro_count := n\<rparr>
      in fold (\<lambda>i r. r\<lparr>ro_ids := (ro_ids r)[i := rp_ids p ! i], ro_eliminated := (ro_eliminated r)[i := False]\<rparr>) [0..<n] ro1)"

definition client_handle_msg :: "StatePayload \<Rightarrow> AttackPayload \<Rightarrow> string \<Rightarrow> TetrisClient \<Rightarrow> TetrisClient option" where
  "client_handle_msg stale_st stale_at buffer c =
     (case parse_hypertext buffer of
        Inl HT_OVERRUN \<Rightarrow> None
      | Inl HT_FAIL \<Rightarrow> Some c
      | Inr parsed \<Rightarrow>
          let (method, sender_id, bdy) = req_extract_info parsed in
          if method = REQ_STATE
          then (case payload_decode_state bdy stale_st of
                  None \<Rightarrow> None
                | Some incoming \<Rightarrow>
                    Some (if sp_player_id incoming = gs_player_id (cl_state c)
                          then c\<lparr>cl_state := apply_state_payload incoming (cl_state c)\<rparr> else c))
          else if method = REQ_ROSTER
          then (case payload_decode_roster bdy \<lparr>rp_count = 0, rp_ids = replicate MAX_LOBBY_SIZE 0\<rparr> of
                  None \<Rightarrow> None
                | Some p \<Rightarrow> Some (c\<lparr>cl_lobby := install_roster p (cl_lobby c)\<rparr>))
          else if method = REQ_ATTACK
          then (case event_bus_trigger call_listener EVENT_ATTACK_GENERATED (payload_decode_attack bdy stale_at) (cl_bus c) (cl_feed c) of
                  None \<Rightarrow> None
                | Some f \<Rightarrow> Some (c\<lparr>cl_feed := f\<rparr>))
          else Some c)"

fun client_drain :: "StatePayload \<Rightarrow> AttackPayload \<Rightarrow> string list \<Rightarrow> TetrisClient \<Rightarrow> TetrisClient option" where
  "client_drain st at [] c = Some c"
| "client_drain st at (b # bs) c = (case client_handle_msg st at b c of None \<Rightarrow> None | Some c' \<Rightarrow> client_drain st at bs c')"

text \<open>One pass of the game loop: the keys, then every message that has arrived.\<close>

definition client_frame ::
  "string \<Rightarrow> StatePayload \<Rightarrow> AttackPayload \<Rightarrow> nat list \<Rightarrow> string list \<Rightarrow> TetrisClient \<Rightarrow> ((ht_error + string) list \<times> TetrisClient option)" where
  "client_frame date st at keys msgs c =
     (let (sent, s, _) = process_inputs date (cl_connected c) keys (cl_state c)
      in (sent, client_drain st at msgs (c\<lparr>cl_state := s\<rparr>)))"

text \<open>The client that a fresh connection leads to: the attack listener is registered once.\<close>

definition client_ready :: "TetrisClient \<Rightarrow> bool" where
  "client_ready c \<longleftrightarrow> cl_connected c \<and> slot_of EVENT_ATTACK_GENERATED (cl_bus c) = Some [On_attack_generated]
     \<and> roster_wf (cl_lobby c) \<and> length (bag (cl_state c)) = 14"

section \<open>Lemmas\<close>

lemma client_start_ready:
  assumes "cl_connected c" and "roster_wf (cl_lobby c)" and "client_start prng now pid c r = Some (c', r')"
  shows "client_ready c'"
proof -
  have "length (bag (fst (start_game prng now (cl_state c) r))) = 14"
    using start_game_wf [of prng now "cl_state c" r] by (auto simp: state_wf_def bag_wf_def)
  then show ?thesis using assms
    by (auto simp: client_ready_def client_start_def event_bus_listen_def slot_of_init slot_of_set_slot Let_def
        split: prod.splits option.splits)
qed

text \<open>The actions that the pending keys ask for, before any quitting: the specification of the loop.\<close>

fun keys_actions :: "nat list \<Rightarrow> PlayerAction list" where
  "keys_actions [] = []"
| "keys_actions (k # ks) =
     (if k = 27
      then (case ks of
              c # ks1 \<Rightarrow> if c = code (CHR ''['')
                         then (case ks1 of l # ks2 \<Rightarrow> (case arrow_action l of None \<Rightarrow> [] | Some a \<Rightarrow> [a]) @ keys_actions ks2 | [] \<Rightarrow> [])
                         else keys_actions ks1
            | [] \<Rightarrow> [])
      else case key_action k of
             None \<Rightarrow> keys_actions ks
           | Some a \<Rightarrow> if a = ACTION_QUIT then [ACTION_QUIT] else a # keys_actions ks)"

text \<open>The shapes of the pending keys that the loop tells apart.\<close>

lemma keys_induct [case_names none esc esc_bracket arrow esc_other plain]:
  assumes "P []" and "P [27]" and "P [27, code (CHR ''['')]"
    and "\<And>l ks. P ks \<Longrightarrow> P (27 # code (CHR ''['') # l # ks)"
    and "\<And>c ks. c \<noteq> code (CHR ''['') \<Longrightarrow> P ks \<Longrightarrow> P (27 # c # ks)"
    and "\<And>k ks. k \<noteq> 27 \<Longrightarrow> P ks \<Longrightarrow> P (k # ks)"
  shows "P (ks :: nat list)"
proof (induction "length ks" arbitrary: ks rule: less_induct)
  case less
  show ?case
  proof (cases ks)
    case (Cons k ks1)
    note c1 = Cons
    show ?thesis
    proof (cases "k = 27")
      case True
      show ?thesis
      proof (cases ks1)
        case (Cons c ks2)
        note c2 = Cons
        show ?thesis
        proof (cases "c = code (CHR ''['')")
          case True
          then show ?thesis using c1 c2 \<open>k = 27\<close> assms(3,4) less by (cases ks2) simp_all
        next
          case False
          then show ?thesis using c1 c2 \<open>k = 27\<close> assms(5) less by simp
        qed
      qed (use c1 True assms(2) in simp)
    next
      case False
      then show ?thesis using c1 assms(6) less by simp
    qed
  qed (use assms(1) in simp)
qed

lemma process_inputs_unfold:
  "process_inputs d b [27] s = ([], s, [])"
  "process_inputs d b [27, code (CHR ''['')] s = ([], s, [])"
  "process_inputs d b (27 # code (CHR ''['') # l # ks) s =
     (let (ms, s', rest) = process_inputs d b ks s in (send_bound d b s (arrow_action l) @ ms, s', rest))"
  "c \<noteq> code (CHR ''['') \<Longrightarrow> process_inputs d b (27 # c # ks) s = process_inputs d b ks s"
  "k \<noteq> 27 \<Longrightarrow> process_inputs d b (k # ks) s =
     (if key_action k = Some ACTION_QUIT then (send_action d b s ACTION_QUIT, s\<lparr>game_over := 1\<rparr>, ks)
      else let (ms, s', rest) = process_inputs d b ks s in (send_bound d b s (key_action k) @ ms, s', rest))"
  by (subst process_inputs.simps; simp del: process_inputs.simps)+

lemma keys_actions_unfold:
  "keys_actions [27] = []"
  "keys_actions [27, code (CHR ''['')] = []"
  "keys_actions (27 # code (CHR ''['') # l # ks) = (case arrow_action l of None \<Rightarrow> [] | Some a \<Rightarrow> [a]) @ keys_actions ks"
  "c \<noteq> code (CHR ''['') \<Longrightarrow> keys_actions (27 # c # ks) = keys_actions ks"
  "k \<noteq> 27 \<Longrightarrow> keys_actions (k # ks) = (case key_action k of None \<Rightarrow> keys_actions ks
     | Some a \<Rightarrow> if a = ACTION_QUIT then [ACTION_QUIT] else a # keys_actions ks)"
  by (subst keys_actions.simps; simp del: keys_actions.simps)+

declare process_inputs.simps(2) [simp del] keys_actions.simps(2) [simp del]

lemma process_inputs_sends:
  "fst (process_inputs date True ks s) = concat (map (send_action date True s) (keys_actions ks))"
  by (induction ks rule: keys_induct)
    (simp_all add: process_inputs_unfold keys_actions_unfold send_bound_def case_prod_beta split: option.split)

lemma bound_actions_known: "arrow_action k = Some a \<Longrightarrow> a \<noteq> ACTION_OTHER w" "key_action k = Some a \<Longrightarrow> a \<noteq> ACTION_OTHER w"
  by (auto simp: arrow_action_def key_action_def split: if_splits)

lemma keys_actions_known: "\<forall>a \<in> set (keys_actions ks). \<forall>w. a \<noteq> ACTION_OTHER w"
  by (induction ks rule: keys_induct)
    (auto simp: keys_actions_unfold dest: bound_actions_known bound_actions_known [OF sym] split: option.split)

lemma send_action_handled:
  assumes "value_legal date" and "length date < 30" and "\<And>w. a \<noteq> ACTION_OTHER w"
  shows "\<exists>ht. send_action date True s a = [Inr ht]
            \<and> (\<forall>stale ss r. handle_client_msg stale ht ss r = Some (handle_input (gs_player_id s) a ss r))"
proof -
  obtain m ht bdy where m: "req_create_action (gs_player_id s) REQ_ACTION \<lparr>ip_action = u32_of_action a\<rparr> date zero_msg = Inr m"
    "convert_to_hypertext m = Inr ht" "parse_hypertext ht = Inr m" "req_extract_info m = (REQ_ACTION, gs_player_id s, bdy)"
    "\<forall>q. payload_decode_input bdy q = \<lparr>ip_action = u32_of_action a\<rparr>"
    using action_message_chain [OF assms(1,2)] by blast
  have "handle_client_msg stale ht ss r = Some (handle_input (gs_player_id s) a ss r)" for stale ss r
    using m(3-5) action_roundtrip [OF assms(3)] by (simp add: handle_client_msg_def client_request_def)
  then show ?thesis using m(1,2) by (auto simp: send_action_def and_then_def)
qed

section \<open>Properties\<close>

text \<open>
  Lemma (keys_reach_board): the keys a player presses reach the player's own board. Every action the keys ask
  for is sent as one text, none of them fails to be built, and a room that drains these texts performs
  exactly these actions, in order, on behalf of the player's id.
\<close>

theorem keys_reach_board:
  assumes "cl_connected c" and "value_legal date" and "length date < 30"
  shows "\<exists>hts. fst (client_frame date st at keys msgs c) = map Inr hts \<and> length hts = length (keys_actions keys)
       \<and> (length hts \<le> MAX_MSGS_PER_TICK \<longrightarrow>
            (\<forall>stale ss r. drain_clients stale hts ss r
               = Some (fold (\<lambda>a (ss, r). handle_input (gs_player_id (cl_state c)) a ss r) (keys_actions keys) (ss, r))))"
proof -
  let ?s = "cl_state c"
  have *: "\<exists>hts. concat (map (send_action date True ?s) as) = map Inr hts \<and> length hts = length as
     \<and> (\<forall>stale sr. handle_texts stale hts sr = Some (fold (\<lambda>a (ss, r). handle_input (gs_player_id ?s) a ss r) as sr))"
    if "\<forall>a \<in> set as. \<forall>w. a \<noteq> ACTION_OTHER w" for as
    using that
  proof (induction as)
    case (Cons a as)
    obtain ht where h: "send_action date True ?s a = [Inr ht]"
      "\<And>stale ss r. handle_client_msg stale ht ss r = Some (handle_input (gs_player_id ?s) a ss r)"
      using send_action_handled [OF assms(2,3)] Cons.prems by (metis list.set_intros(1))
    obtain hts where t: "concat (map (send_action date True ?s) as) = map Inr hts" "length hts = length as"
      "\<And>stale sr. handle_texts stale hts sr = Some (fold (\<lambda>a (ss, r). handle_input (gs_player_id ?s) a ss r) as sr)"
      using Cons by auto
    have "handle_texts stale (ht # hts) sr
        = Some (fold (\<lambda>a (ss, r). handle_input (gs_player_id ?s) a ss r) (a # as) sr)" for stale sr
      by (simp add: h(2) t(3) case_prod_beta)
    then show ?case using h(1) t(1,2) by (intro exI [of _ "ht # hts"]) simp
  qed simp
  obtain hts where "concat (map (send_action date True ?s) (keys_actions keys)) = map Inr hts"
    "length hts = length (keys_actions keys)"
    "\<forall>stale sr. handle_texts stale hts sr = Some (fold (\<lambda>a (ss, r). handle_input (gs_player_id ?s) a ss r) (keys_actions keys) sr)"
    using * [OF keys_actions_known] by blast
  moreover have "fst (client_frame date st at keys msgs c) = concat (map (send_action date True ?s) (keys_actions keys))"
    using process_inputs_sends [of date keys ?s] assms(1) by (simp add: client_frame_def case_prod_beta)
  ultimately show ?thesis unfolding drain_clients_def by (intro exI [of _ hts]) simp
qed

definition demo_client :: TetrisClient where
  "demo_client = \<lparr>cl_connected = True, cl_state = zero_state\<lparr>gs_player_id := 9\<rparr>, cl_lobby = \<lparr>ro_ids = [0, 0], ro_eliminated = [False, False], ro_count = 0\<rparr>,
     cl_feed = zero_feed, cl_bus = \<lparr>slots = Some [[On_attack_generated]], num_events = 1\<rparr>\<rparr>"

abbreviation (input) demo_date :: string where "demo_date \<equiv> ''Mon, 06 Apr 2026 10:00:00 GMT''"

lemma demo_date_ok: "value_legal demo_date" "length demo_date < 30"
  by (simp_all add: value_legal_def no_char_def)

lemma demo_client_ready: "client_ready demo_client"
  by (simp add: client_ready_def demo_client_def slot_of_def roster_wf_def zero_state_def)

lemma demo_keys: "keys_actions [104, 27, 91, 68, 32] = [ACTION_HOLD, ACTION_MOVE_LEFT, ACTION_HARD_DROP]"
  by (simp add: keys_actions.simps key_action_def arrow_action_def code_def)

theorem keys_reach_board_witness:
  "\<forall>st at. \<exists>hts. fst (client_frame demo_date st at [104, 27, 91, 68, 32] [] demo_client) = map Inr hts \<and> length hts = 3
     \<and> (\<forall>stale ss r. drain_clients stale hts ss r
        = Some (fold (\<lambda>a (ss, r). handle_input 9 a ss r) [ACTION_HOLD, ACTION_MOVE_LEFT, ACTION_HARD_DROP] (ss, r)))"
proof (intro allI)
  fix st at
  have c: "cl_connected demo_client" "gs_player_id (cl_state demo_client) = 9" by (simp_all add: demo_client_def)
  show "\<exists>hts. fst (client_frame demo_date st at [104, 27, 91, 68, 32] [] demo_client) = map Inr hts \<and> length hts = 3
     \<and> (\<forall>stale ss r. drain_clients stale hts ss r
        = Some (fold (\<lambda>a (ss, r). handle_input 9 a ss r) [ACTION_HOLD, ACTION_MOVE_LEFT, ACTION_HARD_DROP] (ss, r)))"
    using keys_reach_board [OF c(1) demo_date_ok, of st at "[104, 27, 91, 68, 32]" "[]"] unfolding demo_keys c(2) by auto
qed

text \<open>
  Lemma (snapshot_reaches_mirror): the snapshot that a room sends for a player is read by every client. The
  client with that player's id shows the server's board afterwards: the same cells, falling piece, hold box,
  counters, target and outcome, and the next three pieces of the server's bag as previews. Every other client
  is left as it was.
\<close>

theorem snapshot_reaches_mirror:
  assumes "snapshot_ok (sl_state sl)" and "gs_player_id (sl_state sl) = sl_player_id sl" and "client_ready c"
    and "value_legal date" and "length date < 30"
  shows "\<exists>ht c'. state_message date stale sl = Inr ht \<and> client_handle_msg st at ht c = Some c'
    \<and> (let s = sl_state sl; m = cl_state c'
       in if gs_player_id (cl_state c) = sl_player_id sl
          then grid m = grid s \<and> current m = current s \<and> held_type m = held_type s \<and> has_held m = has_held s
             \<and> score m = score s \<and> level m = level s \<and> lines_cleared m = lines_cleared s
             \<and> pending_garbage m = pending_garbage s \<and> target_player_id m = target_player_id s
             \<and> game_over m = game_over s \<and> gs_winner_id m = gs_winner_id s
             \<and> take 3 (bag m) = map (\<lambda>i. bag s ! nat ((bag_index s + int i) mod 14)) [0..<3]
             \<and> c' = c\<lparr>cl_state := m\<rparr>
          else c' = c)"
proof -
  let ?p = "build_state_payload (sl_state sl) stale"
  have ok: "state_payload_ok ?p" by (rule build_state_payload_ok [OF assms(1)])
  obtain m ht bdy where h: "req_create_state (sl_player_id sl) ?p date zero_msg = Inr m" "convert_to_hypertext m = Inr ht"
    "parse_hypertext ht = Inr m" "req_extract_info m = (REQ_STATE, sl_player_id sl, bdy)" "\<forall>q. payload_decode_state bdy q = Some ?p"
    using state_message_chain [OF ok assms(4,5)] by blast
  have pid: "sp_player_id ?p = sl_player_id sl" using assms(2) by (simp add: build_state_payload_def)
  have e: "client_handle_msg st at ht c = Some (if sl_player_id sl = gs_player_id (cl_state c)
      then c\<lparr>cl_state := apply_state_payload ?p (cl_state c)\<rparr> else c)"
    using h(3-5) pid by (simp add: client_handle_msg_def)
  have "payload_decode_state (payload_encode_state ?p) st = Some ?p" by (rule state_decodes [OF ok])
  with snapshot_mirrors [OF assms(1), of "cl_state c" stale st] assms(3)
  have "let m = apply_state_payload ?p (cl_state c); s = sl_state sl
     in grid m = grid s \<and> current m = current s \<and> held_type m = held_type s \<and> has_held m = has_held s
          \<and> score m = score s \<and> level m = level s \<and> lines_cleared m = lines_cleared s
          \<and> pending_garbage m = pending_garbage s \<and> target_player_id m = target_player_id s
          \<and> game_over m = game_over s \<and> gs_winner_id m = gs_winner_id s
          \<and> take 3 (bag m) = map (\<lambda>i. bag s ! nat ((bag_index s + int i) mod 14)) [0..<3]"
    unfolding client_ready_def Let_def by (simp del: upt_rec_numeral)
  moreover have "state_message date stale sl = Inr ht" using h(1,2) by (simp add: state_message_def and_then_def)
  ultimately show ?thesis using e by (auto simp: Let_def simp del: upt_rec_numeral)
qed

theorem snapshot_reaches_mirror_witness:
  "\<forall>stale st at. \<exists>ht c'. state_message demo_date stale (zero_slot\<lparr>sl_state := sample_state, sl_player_id := 9\<rparr>) = Inr ht
     \<and> client_handle_msg st at ht demo_client = Some c' \<and> score (cl_state c') = 300 \<and> current (cl_state c') = current sample_state"
proof (intro allI)
  fix stale st at
  let ?sl = "zero_slot\<lparr>sl_state := sample_state, sl_player_id := 9\<rparr>"
  have a: "snapshot_ok (sl_state ?sl)" "gs_player_id (sl_state ?sl) = sl_player_id ?sl" "score sample_state = 300"
    "gs_player_id (cl_state demo_client) = sl_player_id ?sl"
    using sample_state_ok by (simp_all add: sample_state_def demo_client_def)
  show "\<exists>ht c'. state_message demo_date stale ?sl = Inr ht
     \<and> client_handle_msg st at ht demo_client = Some c' \<and> score (cl_state c') = 300 \<and> current (cl_state c') = current sample_state"
    using snapshot_reaches_mirror [OF a(1,2) demo_client_ready demo_date_ok, of stale st at] a(3,4)
    by (auto simp: Let_def simp del: upt_rec_numeral)
qed

lemma client_attack_msg:
  assumes "slot_of EVENT_ATTACK_GENERATED (cl_bus c) = Some [On_attack_generated]" and "value_legal date" and "length date < 30"
  shows "\<exists>ht. broadcast_feed date s t n = To_clients (Inr ht)
            \<and> client_handle_msg st at ht c = Some (c\<lparr>cl_feed := add_kill_feed s t n (cl_feed c)\<rparr>)"
proof -
  let ?p = "\<lparr>ap_source = s, ap_target = t, ap_lines = n\<rparr>"
  obtain m ht bdy where h: "req_create_attack s ?p date zero_msg = Inr m" "convert_to_hypertext m = Inr ht"
    "parse_hypertext ht = Inr m" "req_extract_info m = (REQ_ATTACK, s, bdy)" "\<forall>q. payload_decode_attack bdy q = ?p"
    using attack_message_chain [OF assms(2,3)] by blast
  then show ?thesis using assms(1)
    by (simp add: broadcast_feed_def and_then_def client_handle_msg_def event_bus_trigger_def on_attack_generated_def)
qed

text \<open>
  Lemma (attacks_reach_feed): the attacks a room broadcasts are shown. A client that receives the texts of any
  number of attacks accepts them all, and its kill feed then lists the last four of them in order; nothing
  else of the client changes.
\<close>

theorem attacks_reach_feed:
  assumes "client_ready c" and "cl_feed c = zero_feed" and "value_legal date" and "length date < 30"
  shows "\<exists>hts c'. map (\<lambda>e. broadcast_feed date (kf_source e) (kf_target e) (kf_lines e)) es = map (\<lambda>h. To_clients (Inr h)) hts
    \<and> client_drain st at hts c = Some c' \<and> draw_kill_feed (cl_feed c') = last_n 4 es \<and> c' = c\<lparr>cl_feed := cl_feed c'\<rparr>"
proof -
  let ?add = "\<lambda>e. add_kill_feed (kf_source e) (kf_target e) (kf_lines e)"
  have "\<exists>hts. map (\<lambda>e. broadcast_feed date (kf_source e) (kf_target e) (kf_lines e)) es = map (\<lambda>h. To_clients (Inr h)) hts
     \<and> client_drain st at hts c = Some (c\<lparr>cl_feed := fold ?add es (cl_feed c)\<rparr>)"
    if "slot_of EVENT_ATTACK_GENERATED (cl_bus c) = Some [On_attack_generated]" for c :: TetrisClient
    using that
  proof (induction es arbitrary: c)
    case (Cons e es)
    obtain ht where h: "broadcast_feed date (kf_source e) (kf_target e) (kf_lines e) = To_clients (Inr ht)"
      "client_handle_msg st at ht c = Some (c\<lparr>cl_feed := ?add e (cl_feed c)\<rparr>)"
      using client_attack_msg [OF Cons.prems assms(3,4)] by blast
    obtain hts where "map (\<lambda>e. broadcast_feed date (kf_source e) (kf_target e) (kf_lines e)) es = map (\<lambda>h. To_clients (Inr h)) hts"
      "client_drain st at hts (c\<lparr>cl_feed := ?add e (cl_feed c)\<rparr>) = Some (c\<lparr>cl_feed := fold ?add (e # es) (cl_feed c)\<rparr>)"
      using Cons.IH [of "c\<lparr>cl_feed := ?add e (cl_feed c)\<rparr>"] Cons.prems by auto
    then show ?case using h by (intro exI [of _ "ht # hts"]) simp
  qed simp
  from this [of c] show ?thesis using assms(1,2) kill_feed_last_four [of es] by (auto simp: client_ready_def)
qed

theorem attacks_reach_feed_witness:
  "\<forall>st at. \<exists>hts c'. map (\<lambda>e. broadcast_feed demo_date (kf_source e) (kf_target e) (kf_lines e)) [\<lparr>kf_source = 1, kf_target = 2, kf_lines = 4\<rparr>]
      = map (\<lambda>h. To_clients (Inr h)) hts
    \<and> client_drain st at hts demo_client = Some c' \<and> draw_kill_feed (cl_feed c') = [\<lparr>kf_source = 1, kf_target = 2, kf_lines = 4\<rparr>]"
proof (intro allI)
  fix st at
  have f: "cl_feed demo_client = zero_feed" by (simp add: demo_client_def)
  show "\<exists>hts c'. map (\<lambda>e. broadcast_feed demo_date (kf_source e) (kf_target e) (kf_lines e)) [\<lparr>kf_source = 1, kf_target = 2, kf_lines = 4\<rparr>]
      = map (\<lambda>h. To_clients (Inr h)) hts
    \<and> client_drain st at hts demo_client = Some c' \<and> draw_kill_feed (cl_feed c') = [\<lparr>kf_source = 1, kf_target = 2, kf_lines = 4\<rparr>]"
    using attacks_reach_feed [OF demo_client_ready f demo_date_ok, of "[\<lparr>kf_source = 1, kf_target = 2, kf_lines = 4\<rparr>]" st at]
    by (auto simp: last_n_def simp del: list.map)
qed

lemma install_roster_ids:
  assumes "roster_wf ro" and "unat (rp_count p) \<le> MAX_LOBBY_PLAYERS" and "length (rp_ids p) = MAX_LOBBY_PLAYERS"
  shows "take (unat (rp_count p)) (ro_ids (install_roster p ro)) = take (unat (rp_count p)) (rp_ids p)
       \<and> take (unat (rp_count p)) (ro_eliminated (install_roster p ro)) = replicate (unat (rp_count p)) False
       \<and> ro_count (install_roster p ro) = unat (rp_count p)"
proof -
  let ?n = "unat (rp_count p)"
  have *: "n \<le> MAX_LOBBY_PLAYERS \<Longrightarrow>
      fold (\<lambda>i r. r\<lparr>ro_ids := (ro_ids r)[i := rp_ids p ! i], ro_eliminated := (ro_eliminated r)[i := False]\<rparr>) [0..<n] r
      = r\<lparr>ro_ids := fold (\<lambda>i a. a[i := rp_ids p ! i]) [0..<n] (ro_ids r),
          ro_eliminated := fold (\<lambda>i a. a[i := False]) [0..<n] (ro_eliminated r)\<rparr>" for n and r :: Roster
    by (induction n) simp_all
  have l: "?n \<le> length (ro_ids ro)" "?n \<le> length (ro_eliminated ro)" "\<not> ?n > MAX_LOBBY_PLAYERS"
    using assms by (simp_all add: roster_wf_def)
  have t: "map (\<lambda>i. rp_ids p ! i) [0..<?n] = take ?n (rp_ids p)"
    using assms(2,3) by (simp add: list_eq_iff_nth_eq)
  show ?thesis using l t assms(2,3)
    by (simp add: install_roster_def Let_def * [OF assms(2)] fold_update_upt map_replicate_const)
qed

text \<open>
  Lemma (roster_reaches_client): the roster that a room announces when its match begins is installed by the
  client: the number of players and their ids, nobody eliminated. A roster text that announces more players
  than the client's array holds is not refused: the decoder writes past the array before the count is looked
  at.
\<close>

theorem roster_reaches_client:
  assumes "client_ready c" and "value_legal date" and "length date < 30" and "unat (rp_count p) = length (rp_ids p)"
    and "length (rp_ids p) \<le> 100"
  shows "\<exists>ht. and_then (req_create_roster 0 p date zero_msg) convert_to_hypertext = Inr ht
    \<and> (if length (rp_ids p) \<le> MAX_LOBBY_SIZE
       then \<exists>c'. client_handle_msg st at ht c = Some c' \<and> ro_count (cl_lobby c') = length (rp_ids p)
              \<and> take (length (rp_ids p)) (ro_ids (cl_lobby c')) = rp_ids p
              \<and> take (length (rp_ids p)) (ro_eliminated (cl_lobby c')) = replicate (length (rp_ids p)) False
       else client_handle_msg st at ht c = None)"
proof -
  let ?z = "\<lparr>rp_count = 0, rp_ids = replicate MAX_LOBBY_SIZE 0\<rparr>"
  have len: "length (payload_encode_roster p) \<le> 1500" using roster_text_length [of p] assms(4,5) by simp
  obtain m ht where h: "req_create_roster 0 p date zero_msg = Inr m" "convert_to_hypertext m = Inr ht"
    "parse_hypertext ht = Inr m" "req_extract_info m = (REQ_ROSTER, 0, payload_encode_roster p)"
    using roster_message_chain [OF len assms(2,3)] by blast
  have d: "payload_decode_roster (payload_encode_roster p) ?z =
     (if length (rp_ids p) \<le> MAX_LOBBY_SIZE
      then Some \<lparr>rp_count = rp_count p, rp_ids = rp_ids p @ replicate (MAX_LOBBY_SIZE - length (rp_ids p)) 0\<rparr> else None)"
    using roster_decode [of p ?z] assms(4) by simp
  have e: "client_handle_msg st at ht c = (case payload_decode_roster (payload_encode_roster p) ?z of
       None \<Rightarrow> None | Some p \<Rightarrow> Some (c\<lparr>cl_lobby := install_roster p (cl_lobby c)\<rparr>))"
    using h(3,4) by (simp add: client_handle_msg_def)
  have "and_then (req_create_roster 0 p date zero_msg) convert_to_hypertext = Inr ht" using h(1,2) by (simp add: and_then_def)
  moreover have "take (length (rp_ids p)) (ro_ids (install_roster q (cl_lobby c))) = rp_ids p
      \<and> take (length (rp_ids p)) (ro_eliminated (install_roster q (cl_lobby c))) = replicate (length (rp_ids p)) False
      \<and> ro_count (install_roster q (cl_lobby c)) = length (rp_ids p)"
    if "length (rp_ids p) \<le> MAX_LOBBY_SIZE"
      "q = \<lparr>rp_count = rp_count p, rp_ids = rp_ids p @ replicate (MAX_LOBBY_SIZE - length (rp_ids p)) 0\<rparr>" for q
    using install_roster_ids [of "cl_lobby c" q] that assms(1,4) by (simp add: client_ready_def)
  ultimately show ?thesis using d e by auto
qed

theorem roster_reaches_client_witness:
  "\<forall>st at. (\<exists>ht c'. and_then (req_create_roster 0 \<lparr>rp_count = 2, rp_ids = [7, 9]\<rparr> demo_date zero_msg) convert_to_hypertext = Inr ht
      \<and> client_handle_msg st at ht demo_client = Some c' \<and> ro_count (cl_lobby c') = 2)
    \<and> (\<exists>ht. and_then (req_create_roster 0 \<lparr>rp_count = 3, rp_ids = [7, 9, 11]\<rparr> demo_date zero_msg) convert_to_hypertext = Inr ht
      \<and> client_handle_msg st at ht demo_client = None)"
proof (intro allI conjI)
  fix st at
  show "\<exists>ht c'. and_then (req_create_roster 0 \<lparr>rp_count = 2, rp_ids = [7, 9]\<rparr> demo_date zero_msg) convert_to_hypertext = Inr ht
      \<and> client_handle_msg st at ht demo_client = Some c' \<and> ro_count (cl_lobby c') = 2"
    using roster_reaches_client [OF demo_client_ready demo_date_ok, of "\<lparr>rp_count = 2, rp_ids = [7, 9]\<rparr>" st at] by auto
  show "\<exists>ht. and_then (req_create_roster 0 \<lparr>rp_count = 3, rp_ids = [7, 9, 11]\<rparr> demo_date zero_msg) convert_to_hypertext = Inr ht
    \<and> client_handle_msg st at ht demo_client = None"
    using roster_reaches_client [OF demo_client_ready demo_date_ok, of "\<lparr>rp_count = 3, rp_ids = [7, 9, 11]\<rparr>" st at] by simp
qed

end
