(* ===== verification/Tetris_Screen.thy ===== *)
theory Tetris_Screen
  imports Tetris_Client
begin

text \<open>
  What the terminal client shows: \<open>renderer.c\<close> (the board, the ghost piece, the garbage meter, the hold and
  preview boxes, the dashboard), the printing half of \<open>killfeed.c\<close>, and the rest of \<open>main.c\<close>: the prompt for
  the server's address, the wait for the match, the game loop with its drawing and the closing lines.

  \<open>draw_board\<close> is the text that one call prints. A read outside an array (the piece table, the bag, the names of
  the targeting modes) and a ghost loop that never ends are \<open>None\<close>. \<open>inet_pton\<close> is the argument \<open>valid_ip\<close>.
\<close>

section \<open>Pieces of text\<close>

definition ESC :: string where "ESC = [CHR 0x1B]"
definition NL :: string where "NL = [CHR 0x0A]"

text \<open>\<open>%-<n>d\<close>: the number, then blanks up to the width.\<close>

definition dec_left :: "nat \<Rightarrow> int \<Rightarrow> string" where
  "dec_left n v = dec_int v @ replicate (n - length (dec_int v)) CHR '' ''"

section \<open>The ghost piece\<close>

text \<open>The loop of the source, without a bound: a shape that covers no cell would fall for ever.\<close>

partial_function (option) ghost_loop :: "GameState \<Rightarrow> int \<Rightarrow> int option" where
  "ghost_loop s ghost_y =
     (if is_valid_pos s (p_type (current s)) (p_rot (current s)) (p_x (current s)) (ghost_y + 1)
      then ghost_loop s (ghost_y + 1) else Some ghost_y)"

section \<open>One row of the screen\<close>

text \<open>Whether the piece, its box placed at height \<open>oy\<close>, has a solid block at board position \<open>(x, y)\<close>.\<close>

definition piece_here :: "Piece \<Rightarrow> int \<Rightarrow> int \<Rightarrow> int \<Rightarrow> bool" where
  "piece_here p oy x y \<longleftrightarrow>
     x \<ge> p_x p \<and> x < p_x p + 4 \<and> y \<ge> oy \<and> y < oy + 4
     \<and> tetromino_cell (p_type p - 1) (get_rotation_index (x - p_x p) (y - oy) (p_rot p)) \<noteq> 0"

definition draw_cell :: "GameState \<Rightarrow> int \<Rightarrow> nat \<Rightarrow> nat \<Rightarrow> string" where
  "draw_cell s ghost_y y x =
     (if piece_here (current s) (p_y (current s)) (int x) (int y) then ''[]''
      else if grid s ! y ! x = 8 then ''><''
      else if grid s ! y ! x \<noteq> 0 then ''##''
      else if piece_here (current s) ghost_y (int x) (int y) then ''::''
      else '' .'')"

definition draw_meter :: "GameState \<Rightarrow> nat \<Rightarrow> string" where
  "draw_meter s y =
     ''<|> '' @ (if BOARD_HEIGHT - y \<le> unat (pending_garbage s) then '' '' @ ESC @ ''[0;31m#'' @ ESC @ ''[0m '' else [])
     @ '' <|>''"

text \<open>Row \<open>r\<close> of the box of a piece in its first rotation.\<close>

definition shape_row :: "int \<Rightarrow> int \<Rightarrow> string option" where
  "shape_row type r =
     (if piece_type_ok type
      then Some (concat (map (\<lambda>hx. if tetromino_cell (type - 1) (get_rotation_index hx r ROT_0) \<noteq> 0 then ''[]'' else ''  '') box4))
      else None)"

definition bag_at :: "GameState \<Rightarrow> int \<Rightarrow> int option" where
  "bag_at s i = (if 0 \<le> i \<and> i < int (length (bag s)) then Some (bag s ! nat i) else None)"

definition preview_row :: "GameState \<Rightarrow> string \<Rightarrow> int \<Rightarrow> int \<Rightarrow> string option" where
  "preview_row s pad i r = Option.bind (bag_at s i) (\<lambda>t. map_option (\<lambda>row. pad @ row) (shape_row t r))"

text \<open>What stands to the right of the wall. The remainder of C differs from \<open>mod\<close> on negative numbers only.\<close>

definition draw_side :: "GameState \<Rightarrow> nat \<Rightarrow> string option" where
  "draw_side s y =
     (if y = 0 then Some ''  HOLD BOX''
      else if 1 \<le> y \<and> y \<le> 4
      then (if held_type s \<noteq> 0 then map_option (\<lambda>row. ''  '' @ row) (shape_row (held_type s) (int y - 1))
            else Some (''  '' @ concat (map (\<lambda>hx. ''  '') box4)))
      else if y = 5 then Some ''  NEXT''
      else if 6 \<le> y \<and> y \<le> 9 then preview_row s '' '' (bag_index s) (int y - 6)
      else if 11 \<le> y \<and> y \<le> 14 then preview_row s ''  '' ((bag_index s + 1) mod 14) (int y - 11)
      else if 16 \<le> y \<and> y \<le> 19 then preview_row s ''  '' ((bag_index s + 2) mod 14) (int y - 16)
      else Some ''      '')"

definition draw_row :: "GameState \<Rightarrow> int \<Rightarrow> nat \<Rightarrow> string option" where
  "draw_row s ghost_y y =
     map_option (\<lambda>side. ''<|>'' @ concat (map (draw_cell s ghost_y y) [0..<BOARD_WIDTH]) @ draw_meter s y @ side)
       (draw_side s y)"

section \<open>The whole screen\<close>

definition mode_strings :: "string list" where
  "mode_strings = [''MANUAL'', ''RANDOM'', ''KILL-OUT'']"

definition mode_name :: "TargetingMode \<Rightarrow> string option" where
  "mode_name m =
     (if unat (u32_of_target_mode m) < length mode_strings then Some (mode_strings ! unat (u32_of_target_mode m)) else None)"

definition draw_dashboard :: "GameState \<Rightarrow> string option" where
  "draw_dashboard s = map_option (\<lambda>mode.
       ''<!>====================<!>'' @ NL
       @ '' Lvl: '' @ dec_left 2 (level s) @ ''   Score: '' @ dec_left 5 (score s) @ NL
       @ '' Lines: '' @ dec_left 3 (lines_cleared s) @ ''  T-Spins: '' @ dec_left 2 (t_spins s)
       @ ''  Tetrises: '' @ dec_left 2 (tetrises s) @ NL
       @ '' Status: '' @ (if b2b s then ESC @ ''[1;33m[B2B]'' @ ESC @ ''[0m '' else ''[---] '')
       @ (if combo s > 0 then ESC @ ''[1;32m'' @ dec_int (combo s) @ '' COMBO!'' @ ESC @ ''[0m'' @ NL else ''0 Combo'' @ NL)
       @ '' Target: P'' @ dec_int (sint (target_player_id s)) @ '' ('' @ mode @ '')'' @ NL
       @ ''--------------------------'' @ NL) (mode_name (target_mode s))"

definition CONTROLS :: string where
  "CONTROLS = '' Controls:'' @ NL
     @ ''   [Left/Right] Move     [Down] Soft Drop'' @ NL
     @ ''   [Up / X] Rotate CW    [Z] Rotate CCW'' @ NL
     @ ''   [Space] Hard Drop     [H] Hold Piece'' @ NL
     @ ''   [T] Cycle Target      [R] Swap Target'' @ NL
     @ ''   [Q] Quit Game'' @ NL"

definition feed_line :: "KillFeedEntry \<Rightarrow> string" where
  "feed_line e = ''  '' @ ESC @ ''[36mPlayer '' @ dec_nat (unat (kf_source e)) @ ESC @ ''[0m sent '' @ ESC @ ''[31m''
     @ dec_nat (unat (kf_lines e)) @ '' lines'' @ ESC @ ''[0m to '' @ ESC @ ''[33mPlayer '' @ dec_nat (unat (kf_target e))
     @ ESC @ ''[0m!''"

definition FEED_BLANK :: string where
  "FEED_BLANK = replicate 43 CHR '' ''"

definition FEED_RULE :: string where
  "FEED_RULE = ''  ========================================='' @ NL"

definition print_kill_feed :: "KillFeed \<Rightarrow> string" where
  "print_kill_feed f =
     FEED_BLANK @ NL @ NL @ ''  <!> BATTLE LOG <!>'' @ NL @ FEED_RULE
     @ concat (map (\<lambda>e. feed_line e @ NL) (draw_kill_feed f))
     @ concat (map (\<lambda>i. FEED_BLANK @ NL) [feed_count f..<KILL_FEED_MAX]) @ FEED_RULE"

definition SCREEN_TOP :: "string list" where
  "SCREEN_TOP = [ESC @ ''[1;1H===      TETRIS     ==='', ''                       '']"

definition draw_board :: "GameState \<Rightarrow> KillFeed \<Rightarrow> string option" where
  "draw_board s f =
     (if \<not> piece_type_ok (p_type (current s)) then None
      else Option.bind (ghost_loop s (p_y (current s))) (\<lambda>ghost_y.
           Option.bind (those (map (draw_row s ghost_y) [0..<BOARD_HEIGHT])) (\<lambda>rows.
           Option.bind (draw_dashboard s) (\<lambda>dash.
             Some (concat (map (\<lambda>l. l @ NL) (SCREEN_TOP @ rows)) @ dash @ CONTROLS @ print_kill_feed f)))))"

section \<open>The prompt for the server's address\<close>

text \<open>
  Standard input is the text still to be read. \<open>fgets\<close> with room for \<open>n\<close> characters stops behind a newline or
  when the room is used up; at the end of the input it fails.
\<close>

fun take_line :: "nat \<Rightarrow> string \<Rightarrow> string \<times> string" where
  "take_line 0 inp = ([], inp)"
| "take_line (Suc n) [] = ([], [])"
| "take_line (Suc n) (c # inp) =
     (if c = CHR 0x0A then ([c], inp) else let (l, rest) = take_line n inp in (c # l, rest))"

definition fgets :: "nat \<Rightarrow> string \<Rightarrow> (string \<times> string) option" where
  "fgets n inp = (if inp = [] then None else Some (take_line n inp))"

definition c_str :: "string \<Rightarrow> string" where
  "c_str buf = takeWhile (\<lambda>c. c \<noteq> CHR 0x00) buf"

definition discard_line :: "string \<Rightarrow> string" where
  "discard_line inp = drop 1 (dropWhile (\<lambda>c. c \<noteq> CHR 0x0A) inp)"

definition trim_newline :: "string \<Rightarrow> string" where
  "trim_newline s = (if length s > 0 \<and> s ! (length s - 1) = CHR 0x0A then take (length s - 1) s else s)"

abbreviation (input) SERVER_IP_ROOM :: nat where "SERVER_IP_ROOM \<equiv> 17"

lemma take_line_length: "length (snd (take_line n inp)) \<le> length inp"
  by (induction n inp rule: take_line.induct) (auto simp: case_prod_beta)

lemma take_line_less: "inp \<noteq> [] \<Longrightarrow> length (snd (take_line (Suc n) inp)) < length inp"
  by (cases inp) (auto simp: case_prod_beta le_imp_less_Suc take_line_length)

lemma discard_line_length: "length (discard_line inp) \<le> length inp"
  using length_dropWhile_le [of "\<lambda>c. c \<noteq> CHR 0x0A" inp] by (simp add: discard_line_def)

text \<open>The address and the input left; \<open>None\<close> is the input error that ends the program.\<close>

function prompt_address :: "(string \<Rightarrow> bool) \<Rightarrow> string \<Rightarrow> (string \<times> string) option" where
  "prompt_address valid_ip inp =
     (case fgets SERVER_IP_ROOM inp of
        None \<Rightarrow> None
      | Some (buf, rest) \<Rightarrow>
          let server_ip = c_str buf;
              rest1 = (if CHR 0x0A \<notin> set server_ip then discard_line rest else rest);
              ip = trim_newline server_ip
          in if ip = [] then Some (''127.0.0.1'', rest1)
             else if valid_ip ip then Some (ip, rest1)
             else prompt_address valid_ip rest1)"
  by pat_completeness auto
termination
proof (relation "measure (\<lambda>(v, inp). length inp)")
  fix valid_ip :: "string \<Rightarrow> bool" and inp x2 x y s rest1 ip
  assume f: "fgets SERVER_IP_ROOM inp = Some x2" "(x, y) = x2" and r: "rest1 = (if CHR 0x0A \<notin> set s then discard_line y else y)"
  have "length y < length inp"
    using f take_line_less [of inp 16] by (auto simp: fgets_def eval_nat_numeral split: if_splits)
  then show "((valid_ip, rest1), valid_ip, inp) \<in> measure (\<lambda>(v, inp). length inp)"
    using r discard_line_length [of y] by auto
qed simp

declare prompt_address.simps [simp del]

section \<open>The wait for the match\<close>

text \<open>\<open>in_game k\<close> says what the poll number \<open>k\<close> of the client's state yields; the result is false on a time-out.\<close>

abbreviation (input) LOBBY_WAIT_TIMEOUT_MS :: nat where "LOBBY_WAIT_TIMEOUT_MS \<equiv> 300000"

function wait_for_game :: "(nat \<Rightarrow> bool) \<Rightarrow> nat \<Rightarrow> nat \<Rightarrow> bool" where
  "wait_for_game in_game k waited_ms =
     (if in_game k then True
      else let waited_ms1 = waited_ms + 100
           in if waited_ms1 \<ge> LOBBY_WAIT_TIMEOUT_MS then False else wait_for_game in_game (Suc k) waited_ms1)"
  by pat_completeness auto
termination
  by (relation "measure (\<lambda>(g, k, w). LOBBY_WAIT_TIMEOUT_MS - w)") auto

declare wait_for_game.simps [simp del]

section \<open>The game loop and its end\<close>

text \<open>A frame is the keys that are waiting and the messages that have arrived; the screens come out in order.\<close>

fun client_loop ::
  "string \<Rightarrow> StatePayload \<Rightarrow> AttackPayload \<Rightarrow> (nat list \<times> string list) list \<Rightarrow> TetrisClient \<Rightarrow> (string list \<times> TetrisClient) option" where
  "client_loop date st at [] c = Some ([], c)"
| "client_loop date st at ((keys, msgs) # fs) c =
     (if game_over (cl_state c) \<noteq> 0 then Some ([], c)
      else case snd (client_frame date st at keys msgs c) of
             None \<Rightarrow> None
           | Some c1 \<Rightarrow>
               (case draw_board (cl_state c1) (cl_feed c1) of
                  None \<Rightarrow> None
                | Some scr \<Rightarrow> map_option (\<lambda>(scrs, c2). (scr # scrs, c2)) (client_loop date st at fs c1)))"

definition winner_line :: "GameState \<Rightarrow> string" where
  "winner_line s =
     (if gs_winner_id s \<noteq> 0
      then (if gs_winner_id s = gs_player_id s
            then NL @ ''*** CONGRATULATIONS! You won as P'' @ dec_nat (unat (gs_winner_id s)) @ ''! ***'' @ NL
            else NL @ ''*** Winner: P'' @ dec_nat (unat (gs_winner_id s)) @ '' ***'' @ NL)
      else NL @ ''*** No survivors. Match ended with no winner. ***'' @ NL)"

definition closing_screen :: "TetrisClient \<Rightarrow> string option" where
  "closing_screen c = map_option (\<lambda>scr.
       scr @ NL @ NL @ ''<!> ====================== <!>'' @ NL @ ''<!>       GAME OVER!       <!>'' @ NL
       @ ''<!> ====================== <!>'' @ NL @ winner_line (cl_state c) @ NL @ ''Press any key to exit...'' @ NL)
     (draw_board (cl_state c) (cl_feed c))"

section \<open>Lemmas\<close>

abbreviation cells_of :: "Piece \<Rightarrow> (int \<times> int) list" where
  "cells_of p \<equiv> piece_cells (p_type p) (p_rot p) (p_x p) (p_y p)"

lemma ghost_loop_drop:
  assumes "piece_wf (current s)"
  shows "ghost_loop s y = Some (p_y (current (snd (hard_drop_loop (move_to s (p_x (current s)) y) rows))))"
  using assms
proof (induction "nat (int BOARD_HEIGHT - y)" arbitrary: y rows rule: less_induct)
  case less
  let ?m = "move_to s (p_x (current s)) y"
  have wf: "piece_wf (current ?m)" using less.prems by (simp add: piece_wf_def)
  show ?case
  proof (cases "valid_at s (p_x (current s)) (y + 1)")
    case True
    have "y + 1 < int BOARD_HEIGHT" by (rule valid_below_bound [OF less.prems True])
    then have "ghost_loop s (y + 1) = Some (p_y (current (snd (hard_drop_loop (move_to s (p_x (current s)) (y + 1)) (rows + 1)))))"
      using less.hyps [of "y + 1"] less.prems by simp
    then show ?thesis using True hard_drop_loop_unfold [OF wf, of rows] by (subst ghost_loop.simps) simp
  next
    case False
    then show ?thesis using hard_drop_loop_unfold [OF wf, of rows] by (subst ghost_loop.simps) simp
  qed
qed

lemma ghost_is_hard_drop:
  "piece_wf (current s) \<Longrightarrow> ghost_loop s (p_y (current s)) = Some (p_y (current (snd (hard_drop s))))"
  using ghost_loop_drop [of s "p_y (current s)" 0] by (simp add: hard_drop_def)

lemma hard_drop_column:
  assumes "piece_wf (current s)"
  shows "current (snd (hard_drop s)) = (current s)\<lparr>p_y := p_y (current (snd (hard_drop s)))\<rparr>"
  using hard_drop_loop_lands [OF assms, of 0] by (auto simp: hard_drop_def)

lemma piece_here_cells: "piece_here p oy x y \<longleftrightarrow> (x, y) \<in> set (piece_cells (p_type p) (p_rot p) (p_x p) oy)"
proof -
  have b: "a \<in> set box4 \<longleftrightarrow> 0 \<le> a \<and> a < 4" for a :: int by (auto simp: box4_def)
  have "(x, y) \<in> set (piece_cells (p_type p) (p_rot p) (p_x p) oy) \<longleftrightarrow>
      x - p_x p \<in> set box4 \<and> y - oy \<in> set box4
      \<and> tetromino_cell (p_type p - 1) (get_rotation_index (x - p_x p) (y - oy) (p_rot p)) \<noteq> 0"
    by (force simp: piece_cells_def)
  then show ?thesis unfolding b piece_here_def by auto
qed

subsection \<open>Lines of a text\<close>

fun split_lines :: "string \<Rightarrow> string list" where
  "split_lines [] = [[]]"
| "split_lines (c # t) = (if c = CHR 0x0A then [] # split_lines t
     else case split_lines t of [] \<Rightarrow> [[c]] | l # ls \<Rightarrow> (c # l) # ls)"

definition one_line :: "string \<Rightarrow> bool" where
  "one_line l \<longleftrightarrow> CHR 0x0A \<notin> set l"

lemma one_line_simps [simp]:
  "one_line []" "one_line (c # l) \<longleftrightarrow> c \<noteq> CHR 0x0A \<and> one_line l" "one_line (a @ b) \<longleftrightarrow> one_line a \<and> one_line b"
  "one_line (concat ls) \<longleftrightarrow> (\<forall>l \<in> set ls. one_line l)" "one_line ESC"
  by (auto simp: one_line_def ESC_def)

lemma split_lines_line: "one_line l \<Longrightarrow> split_lines (l @ NL @ t) = l # split_lines t"
  by (induction l) (auto simp: NL_def)

lemma split_lines_concat: "\<forall>l \<in> set ls. one_line l \<Longrightarrow> split_lines (concat (map (\<lambda>l. l @ NL) ls) @ t) = ls @ split_lines t"
  by (induction ls) (auto simp: split_lines_line)

lemma drop_concat_pairs:
  "x < length ps \<Longrightarrow> \<forall>p \<in> set ps. length p = 2 \<Longrightarrow> take 2 (drop (2 * x) (concat ps @ t)) = ps ! x"
proof (induction ps arbitrary: x)
  case (Cons p ps)
  then show ?case by (cases x) auto
qed simp

section \<open>States that can be drawn\<close>

definition drawable :: "GameState \<Rightarrow> bool" where
  "drawable s \<longleftrightarrow> grid_wf (grid s) \<and> piece_wf (current s) \<and> (held_type s = 0 \<or> piece_type_ok (held_type s))
     \<and> length (bag s) = 14 \<and> 0 \<le> bag_index s \<and> bag_index s < 14
     \<and> (\<forall>i < 3. piece_type_ok (bag s ! nat ((bag_index s + int i) mod 14))) \<and> mode_name (target_mode s) \<noteq> None"

lemma drawable_of_wf: "state_wf s \<Longrightarrow> mode_name (target_mode s) \<noteq> None \<Longrightarrow> drawable s"
  by (auto simp: drawable_def state_wf_def bag_wf_def intro!: bag_wf_nth [of "bag s" "bag_index s"])

lemma shape_row_ok: "piece_type_ok t \<Longrightarrow> \<exists>l. shape_row t r = Some l \<and> one_line l"
  by (auto simp: shape_row_def box4_def)

lemma preview_ok:
  assumes "drawable s" and "i < 3" and "one_line pad"
  shows "\<exists>l. preview_row s pad ((bag_index s + int i) mod 14) r = Some l \<and> one_line l"
proof -
  have "bag_at s ((bag_index s + int i) mod 14) = Some (bag s ! nat ((bag_index s + int i) mod 14))"
    using assms(1) by (simp add: bag_at_def drawable_def)
  then show ?thesis using assms shape_row_ok [of "bag s ! nat ((bag_index s + int i) mod 14)" r]
    by (auto simp: preview_row_def drawable_def)
qed

lemma draw_side_ok:
  assumes "drawable s" and "y < BOARD_HEIGHT"
  shows "\<exists>l. draw_side s y = Some l \<and> one_line l"
proof -
  have i0: "bag_index s = (bag_index s + int 0) mod 14" using assms(1) by (simp add: drawable_def)
  have "\<exists>l. preview_row s '' '' (bag_index s) r = Some l \<and> one_line l" for r
    by (subst i0) (rule preview_ok [OF assms(1)], simp_all)
  moreover have "\<exists>l. preview_row s ''  '' ((bag_index s + 1) mod 14) r = Some l \<and> one_line l"
    "\<exists>l. preview_row s ''  '' ((bag_index s + 2) mod 14) r = Some l \<and> one_line l" for r
    using preview_ok [OF assms(1), of 1 "''  ''" r] preview_ok [OF assms(1), of 2 "''  ''" r] by simp_all
  moreover have "held_type s \<noteq> 0 \<Longrightarrow> \<exists>l. shape_row (held_type s) r = Some l \<and> one_line l" for r
    using assms(1) shape_row_ok by (auto simp: drawable_def)
  ultimately show ?thesis unfolding draw_side_def by (auto simp: box4_def; fastforce)
qed

lemma draw_cell_pair: "length (draw_cell s g y x) = 2" "one_line (draw_cell s g y x)"
  by (simp_all add: draw_cell_def)

lemma draw_row_ok:
  assumes "drawable s" and "y < BOARD_HEIGHT"
  shows "\<exists>side. draw_row s g y = Some (''<|>'' @ concat (map (draw_cell s g y) [0..<BOARD_WIDTH]) @ side) \<and> one_line side"
  using draw_side_ok [OF assms] by (auto simp: draw_row_def draw_meter_def)

lemma those_map_Some: "\<forall>x \<in> set xs. \<exists>y. f x = Some y \<and> P x y \<Longrightarrow> \<exists>ys. those (map f xs) = Some ys \<and> list_all2 P xs ys"
  by (induction xs) auto

lemma draw_board_lines:
  assumes "drawable s"
  shows "\<exists>rows rest. draw_board s f = Some (concat (map (\<lambda>l. l @ NL) (SCREEN_TOP @ rows)) @ rest) \<and> length rows = BOARD_HEIGHT
     \<and> (\<forall>y < BOARD_HEIGHT. \<exists>side. rows ! y = ''<|>'' @ concat (map (draw_cell s (p_y (current (snd (hard_drop s)))) y) [0..<BOARD_WIDTH]) @ side
          \<and> one_line side)"
proof -
  let ?g = "p_y (current (snd (hard_drop s)))"
  let ?P = "\<lambda>y l. \<exists>side. l = ''<|>'' @ concat (map (draw_cell s ?g y) [0..<BOARD_WIDTH]) @ side \<and> one_line side"
  have "\<forall>y \<in> set [0..<BOARD_HEIGHT]. \<exists>l. draw_row s ?g y = Some l \<and> ?P y l"
    using draw_row_ok [OF assms] by (metis atLeastLessThan_iff set_upt)
  then obtain rows where r: "those (map (draw_row s ?g) [0..<BOARD_HEIGHT]) = Some rows" "list_all2 ?P [0..<BOARD_HEIGHT] rows"
    using those_map_Some [of "[0..<BOARD_HEIGHT]" "draw_row s ?g" ?P] by blast
  have wf: "piece_wf (current s)" "piece_type_ok (p_type (current s))" using assms by (auto simp: drawable_def piece_wf_def)
  obtain dash where d: "draw_dashboard s = Some dash" using assms by (auto simp: drawable_def draw_dashboard_def)
  have "draw_board s f = Some (concat (map (\<lambda>l. l @ NL) (SCREEN_TOP @ rows)) @ dash @ CONTROLS @ print_kill_feed f)"
    using wf r(1) d ghost_is_hard_drop [OF wf(1)] by (simp add: draw_board_def del: upt_rec_numeral)
  moreover have "length rows = BOARD_HEIGHT" using list_all2_lengthD [OF r(2)] by simp
  moreover have "?P y (rows ! y)" if "y < BOARD_HEIGHT" for y
    using list_all2_nthD [OF r(2), of y] that by (simp del: upt_rec_numeral)
  ultimately show ?thesis by blast
qed

section \<open>Properties\<close>

text \<open>
  C24 (screen_shows_board): what stands on the screen is the game. Line \<open>y + 2\<close> of the text that is printed shows row
  \<open>y\<close> of the board, two characters for a cell behind the left wall: the falling piece where it is, garbage and
  locked blocks where the board has them, and among the empty cells those that the piece would take if it were
  dropped now, so that the ghost is where \<open>hard_drop\<close> puts the piece.
\<close>

theorem screen_shows_board:
  assumes "drawable s"
  shows "\<exists>scr. draw_board s f = Some scr
    \<and> (\<forall>x < BOARD_WIDTH. \<forall>y < BOARD_HEIGHT. take 2 (drop (3 + 2 * x) (split_lines scr ! (y + 2))) =
         (if (int x, int y) \<in> set (cells_of (current s)) then ''[]''
          else if grid s ! y ! x = 8 then ''><''
          else if grid s ! y ! x \<noteq> 0 then ''##''
          else if (int x, int y) \<in> set (cells_of (current (snd (hard_drop s)))) then ''::''
          else '' .''))"
proof -
  let ?g = "p_y (current (snd (hard_drop s)))"
  obtain rows rest where r: "draw_board s f = Some (concat (map (\<lambda>l. l @ NL) (SCREEN_TOP @ rows)) @ rest)" "length rows = BOARD_HEIGHT"
    "\<forall>y < BOARD_HEIGHT. \<exists>side. rows ! y = ''<|>'' @ concat (map (draw_cell s ?g y) [0..<BOARD_WIDTH]) @ side \<and> one_line side"
    using draw_board_lines [OF assms] by blast
  have "one_line l" if "l \<in> set rows" for l
    using that r(2,3) draw_cell_pair(2) by (fastforce simp: in_set_conv_nth)
  then have "\<forall>l \<in> set (SCREEN_TOP @ rows). one_line l" by (auto simp: SCREEN_TOP_def)
  then have lines: "split_lines (concat (map (\<lambda>l. l @ NL) (SCREEN_TOP @ rows)) @ rest) = SCREEN_TOP @ rows @ split_lines rest"
    using split_lines_concat [of "SCREEN_TOP @ rows" rest] by simp
  have "take 2 (drop (3 + 2 * x) ((SCREEN_TOP @ rows @ split_lines rest) ! (y + 2))) = draw_cell s ?g y x"
    if xy: "x < BOARD_WIDTH" "y < BOARD_HEIGHT" for x y
  proof -
    obtain side where side: "rows ! y = ''<|>'' @ concat (map (draw_cell s ?g y) [0..<BOARD_WIDTH]) @ side" using r(3) xy(2) by blast
    have wall: "drop (3 + n) (''<|>'' @ zs) = drop n zs" for n zs by (simp add: numeral_3_eq_3)
    have row: "(SCREEN_TOP @ rows @ split_lines rest) ! (y + 2) = rows ! y"
      using xy(2) r(2) by (simp add: SCREEN_TOP_def nth_append)
    have "take 2 (drop (2 * x) (concat (map (draw_cell s ?g y) [0..<BOARD_WIDTH]) @ side)) = map (draw_cell s ?g y) [0..<BOARD_WIDTH] ! x"
      using xy(1) draw_cell_pair(1) by (intro drop_concat_pairs) auto
    then show ?thesis unfolding row side wall using xy(1) by (simp del: upt_rec_numeral take_append drop_append)
  qed
  moreover have "cells_of (current (snd (hard_drop s))) = piece_cells (p_type (current s)) (p_rot (current s)) (p_x (current s)) ?g"
    using hard_drop_column [of s] assms by (metis (no_types, lifting) drawable_def Piece.select_convs(1-3) Piece.surjective Piece.update_convs(4))
  ultimately show ?thesis using r(1) lines by (simp add: draw_cell_def piece_here_cells)
qed

lemma sample_state_drawable: "drawable sample_state"
  using sample_state_ok
  by (intro drawable_of_wf) (simp_all add: snapshot_ok_def sample_state_def zero_state_def mode_name_def mode_strings_def)

theorem screen_shows_board_witness:
  "\<exists>scr. draw_board sample_state zero_feed = Some scr \<and> take 2 (drop 5 (split_lines scr ! 8)) = ''[]''
     \<and> take 2 (drop 3 (split_lines scr ! 2)) = '' .''"
proof -
  obtain scr where t: "draw_board sample_state zero_feed = Some scr"
    "\<forall>x < BOARD_WIDTH. \<forall>y < BOARD_HEIGHT. take 2 (drop (3 + 2 * x) (split_lines scr ! (y + 2))) =
         (if (int x, int y) \<in> set (cells_of (current sample_state)) then ''[]''
          else if grid sample_state ! y ! x = 8 then ''><''
          else if grid sample_state ! y ! x \<noteq> 0 then ''##''
          else if (int x, int y) \<in> set (cells_of (current (snd (hard_drop sample_state)))) then ''::''
          else '' .'')"
    using screen_shows_board [OF sample_state_drawable, of zero_feed] by blast
  have c: "(1, 6) \<in> set (cells_of (current sample_state))" "(0, 0) \<notin> set (cells_of (current sample_state))"
    by (simp_all add: sample_state_def piece_cells_def box4_def get_rotation_index_def tetromino_cell_def TETROMINOES_def)
  have wf: "piece_wf (current sample_state)" using sample_state_drawable by (simp add: drawable_def)
  let ?d = "current (snd (hard_drop sample_state))"
  have "p_y ?d \<ge> 5"
    using hard_drop_loop_lands [OF wf, of 0] by (auto simp: hard_drop_def sample_state_def)
  moreover have "piece_type_ok (p_type ?d)" "rotation_ok (p_rot ?d)"
    using wf hard_drop_column [OF wf] by (metis Piece.select_convs(1,2) Piece.surjective Piece.update_convs(4) piece_wf_def)+
  ultimately have g: "(0, 0) \<notin> set (cells_of ?d)"
    using piece_cells_four(3) [of "p_type ?d" "p_rot ?d" 0 0 "p_x ?d" "p_y ?d"] by auto
  have "take 2 (drop (3 + 2 * 1) (split_lines scr ! (6 + 2))) = ''[]''" using t(2) [rule_format, of 1 6] c(1) by simp
  moreover have "grid sample_state ! 0 ! 0 = 0" by (simp add: sample_state_def zero_state_def zero_cells_def)
  then have "take 2 (drop (3 + 2 * 0) (split_lines scr ! (0 + 2))) = '' .''" using t(2) [rule_format, of 0 0] c(2) g by simp
  ultimately show ?thesis using t(1) by (auto simp: eval_nat_numeral)
qed

lemma ghost_loop_cong:
  assumes "grid m = grid s" and "current m = current s" and "piece_wf (current s)"
  shows "ghost_loop m y = ghost_loop s y"
proof (induction "nat (int BOARD_HEIGHT - y)" arbitrary: y rule: less_induct)
  case less
  have v: "is_valid_pos m = is_valid_pos s" by (rule is_valid_pos_cong [OF assms(1)])
  show ?case
  proof (cases "valid_at s (p_x (current s)) (y + 1)")
    case True
    then have "ghost_loop m (y + 1) = ghost_loop s (y + 1)" using valid_below_bound [OF assms(3) True] less by simp
    then show ?thesis using True by (subst (1 2) ghost_loop.simps) (simp add: v assms(2))
  qed (subst (1 2) ghost_loop.simps, simp add: v assms(2))
qed

lemma draw_board_cong:
  assumes "grid m = grid s" "current m = current s" "held_type m = held_type s" "pending_garbage m = pending_garbage s"
    "level m = level s" "score m = score s" "lines_cleared m = lines_cleared s" "t_spins m = t_spins s" "tetrises m = tetrises s"
    "b2b m = b2b s" "combo m = combo s" "target_player_id m = target_player_id s"
    "u32_of_target_mode (target_mode m) = u32_of_target_mode (target_mode s)"
    "bag_at m (bag_index m) = bag_at s (bag_index s)"
    "bag_at m ((bag_index m + 1) mod 14) = bag_at s ((bag_index s + 1) mod 14)"
    "bag_at m ((bag_index m + 2) mod 14) = bag_at s ((bag_index s + 2) mod 14)"
    and "piece_wf (current s)"
  shows "draw_board m f = draw_board s f"
proof -
  have g: "ghost_loop m (p_y (current s)) = ghost_loop s (p_y (current s))"
    by (rule ghost_loop_cong) (use assms in auto)
  have c: "draw_cell m = draw_cell s" "draw_meter m = draw_meter s"
    by (intro ext; simp add: draw_cell_def draw_meter_def assms(1-4))+
  have "draw_side m = draw_side s" by (rule ext) (simp add: draw_side_def preview_row_def assms)
  then have r: "draw_row m = draw_row s" by (intro ext) (simp add: draw_row_def c)
  have "draw_dashboard m = draw_dashboard s" by (simp add: draw_dashboard_def mode_name_def assms)
  then show ?thesis by (simp add: draw_board_def r g assms(2) del: upt_rec_numeral)
qed

lemma apply_build_drawn:
  assumes "snapshot_ok s" and "length (bag c) = 14"
  shows "draw_board (apply_state_payload (build_state_payload s p) c) f = draw_board s f"
proof -
  let ?m = "apply_state_payload (build_state_payload s p) c"
  have w: "state_wf s" "piece_wf (current s)" "bag_wf (bag s) (bag_index s)" using assms(1) by (auto simp: snapshot_ok_def state_wf_def)
  have q: "the (payload_decode_state (payload_encode_state (build_state_payload s p)) (build_state_payload s p)) = build_state_payload s p"
    by (simp add: state_decodes [OF build_state_payload_ok [OF assms(1)]])
  note mirror = snapshot_mirrors [OF assms(1), of c p "build_state_payload s p", unfolded q Let_def]
  have m: "bag_index ?m = 0" "take 3 (bag ?m) = map (\<lambda>i. bag s ! nat ((bag_index s + int i) mod 14)) [0..<3]"
    using mirror assms(2) by (simp_all del: upt_rec_numeral)
  have len: "length (bag ?m) = 14" using assms(2) by (simp add: apply_state_payload_def)
  have b: "bag_at ?m (int i) = bag_at s ((bag_index s + int i) mod 14)" if "i < 3" for i
  proof -
    have "bag ?m ! i = take 3 (bag ?m) ! i" using that by simp
    also have "\<dots> = bag s ! nat ((bag_index s + int i) mod 14)" unfolding m(2) using that by (simp del: upt_rec_numeral)
    finally show ?thesis using that len w(3) by (simp add: bag_at_def bag_wf_def)
  qed
  have "bag_at ?m (bag_index ?m) = bag_at s (bag_index s)" using b [of 0] m(1) w(3) by (simp add: bag_wf_def)
  moreover have "bag_at ?m ((bag_index ?m + 1) mod 14) = bag_at s ((bag_index s + 1) mod 14)"
    "bag_at ?m ((bag_index ?m + 2) mod 14) = bag_at s ((bag_index s + 2) mod 14)"
    using b [of 1] b [of 2] m(1) by simp_all
  moreover have "u32_of_target_mode (target_mode ?m) = u32_of_target_mode (target_mode s)"
    by (simp add: apply_state_payload_def build_state_payload_def)
  ultimately show ?thesis using mirror assms(2) w(2) by (intro draw_board_cong) simp_all
qed

text \<open>
  C16 (snapshot_on_screen): the player sees the server's game. When a client has read the snapshot that a room sent for its
  player, the text it prints, board, ghost, meter, hold box, previews and dashboard, is character for character
  the text that the server's own state would give, whatever the client showed before.
\<close>

theorem snapshot_on_screen:
  assumes "snapshot_ok (sl_state sl)" and "gs_player_id (sl_state sl) = sl_player_id sl" and "client_ready c"
    and "gs_player_id (cl_state c) = sl_player_id sl" and "value_legal date" and "length date < 30"
  shows "\<exists>ht c'. state_message date stale sl = Inr ht \<and> client_handle_msg st at ht c = Some c'
    \<and> draw_board (cl_state c') (cl_feed c') = draw_board (sl_state sl) (cl_feed c)"
proof -
  let ?p = "build_state_payload (sl_state sl) stale"
  have ok: "state_payload_ok ?p" by (rule build_state_payload_ok [OF assms(1)])
  obtain m ht bdy where h: "req_create_state (sl_player_id sl) ?p date zero_msg = Inr m" "convert_to_hypertext m = Inr ht"
    "parse_hypertext ht = Inr m" "req_extract_info m = (REQ_STATE, sl_player_id sl, bdy)" "\<forall>q. payload_decode_state bdy q = Some ?p"
    using state_message_chain [OF ok assms(5,6)] by blast
  have "sp_player_id ?p = sl_player_id sl" using assms(2) by (simp add: build_state_payload_def)
  then have "client_handle_msg st at ht c = Some (c\<lparr>cl_state := apply_state_payload ?p (cl_state c)\<rparr>)"
    using h(3-5) assms(4) by (simp add: client_handle_msg_def)
  moreover have "state_message date stale sl = Inr ht" using h(1,2) by (simp add: state_message_def and_then_def)
  moreover have "draw_board (apply_state_payload ?p (cl_state c)) (cl_feed c) = draw_board (sl_state sl) (cl_feed c)"
    using assms(1,3) by (intro apply_build_drawn) (simp_all add: client_ready_def)
  ultimately show ?thesis by auto
qed

theorem snapshot_on_screen_witness:
  "\<forall>stale st at. \<exists>ht c'. state_message demo_date stale (zero_slot\<lparr>sl_state := sample_state, sl_player_id := 9\<rparr>) = Inr ht
     \<and> client_handle_msg st at ht demo_client = Some c'
     \<and> draw_board (cl_state c') (cl_feed c') = draw_board sample_state zero_feed"
proof (intro allI)
  fix stale st at
  let ?sl = "zero_slot\<lparr>sl_state := sample_state, sl_player_id := 9\<rparr>"
  have a: "snapshot_ok (sl_state ?sl)" "gs_player_id (sl_state ?sl) = sl_player_id ?sl"
    "gs_player_id (cl_state demo_client) = sl_player_id ?sl" "cl_feed demo_client = zero_feed"
    using sample_state_ok by (simp_all add: sample_state_def demo_client_def)
  show "\<exists>ht c'. state_message demo_date stale ?sl = Inr ht \<and> client_handle_msg st at ht demo_client = Some c'
     \<and> draw_board (cl_state c') (cl_feed c') = draw_board sample_state zero_feed"
    using snapshot_on_screen [OF a(1,2) demo_client_ready a(3) demo_date_ok, of stale st at] a(4) by simp
qed

text \<open>
  The texts that a room sends to a client, and texts that the parser refuses. A text with more headers than
  the parser's table holds is neither: it is not refused but written past the table.
\<close>

definition room_text :: "string \<Rightarrow> bool" where
  "room_text ht \<longleftrightarrow>
     (\<exists>date stale sl. state_message date stale sl = Inr ht \<and> snapshot_ok (sl_state sl) \<and> mode_name (target_mode (sl_state sl)) \<noteq> None
        \<and> value_legal date \<and> length date < 30)
     \<or> (\<exists>date s t n. broadcast_feed date s t n = To_clients (Inr ht) \<and> value_legal date \<and> length date < 30)
     \<or> (\<exists>date p. and_then (req_create_roster 0 p date zero_msg) convert_to_hypertext = Inr ht
        \<and> unat (rp_count p) = length (rp_ids p) \<and> length (rp_ids p) \<le> MAX_LOBBY_SIZE \<and> value_legal date \<and> length date < 30)
     \<or> parse_hypertext ht = Inl HT_FAIL"

definition client_sound :: "TetrisClient \<Rightarrow> bool" where
  "client_sound c \<longleftrightarrow> client_ready c \<and> drawable (cl_state c)"

lemma drawable_of_draw: "snapshot_ok s \<Longrightarrow> mode_name (target_mode s) \<noteq> None \<Longrightarrow> length (bag c) = 14
   \<Longrightarrow> drawable (apply_state_payload (build_state_payload s p) c)"
proof -
  assume a: "snapshot_ok s" "mode_name (target_mode s) \<noteq> None" "length (bag c) = 14"
  let ?m = "apply_state_payload (build_state_payload s p) c"
  have w: "state_wf s" "bag_wf (bag s) (bag_index s)" using a(1) by (auto simp: snapshot_ok_def state_wf_def)
  have q: "the (payload_decode_state (payload_encode_state (build_state_payload s p)) (build_state_payload s p)) = build_state_payload s p"
    by (simp add: state_decodes [OF build_state_payload_ok [OF a(1)]])
  note mirror = snapshot_mirrors [OF a(1), of c p "build_state_payload s p", unfolded q Let_def]
  have m: "bag_index ?m = 0" "take 3 (bag ?m) = map (\<lambda>i. bag s ! nat ((bag_index s + int i) mod 14)) [0..<3]"
    using mirror a(3) by (simp_all del: upt_rec_numeral)
  have "piece_type_ok (bag ?m ! i)" if "i < 3" for i
  proof -
    have "bag ?m ! i = take 3 (bag ?m) ! i" using that by simp
    also have "\<dots> = bag s ! nat ((bag_index s + int i) mod 14)" unfolding m(2) using that by (simp del: upt_rec_numeral)
    finally show ?thesis using bag_wf_nth [OF w(2)] by simp
  qed
  moreover have "mode_name (target_mode ?m) = mode_name (target_mode s)"
    by (simp add: mode_name_def apply_state_payload_def build_state_payload_def)
  moreover have "length (bag ?m) = 14" using a(3) by (simp add: apply_state_payload_def)
  ultimately show ?thesis using mirror m(1) a(2,3) w(1) by (simp add: drawable_def state_wf_def)
qed

lemma install_roster_wf:
  assumes "roster_wf ro"
  shows "roster_wf (install_roster p ro)"
proof -
  have "roster_wf r \<Longrightarrow> roster_wf (fold (\<lambda>i r. r\<lparr>ro_ids := (ro_ids r)[i := rp_ids p ! i], ro_eliminated := (ro_eliminated r)[i := False]\<rparr>) is r)"
    for r :: Roster and "is"
    by (induction "is" arbitrary: r) (simp_all add: roster_wf_def)
  then show ?thesis using assms by (simp add: install_roster_def Let_def roster_wf_def)
qed

lemma room_text_handled:
  assumes "client_sound c" and "room_text ht"
  shows "\<exists>c'. client_handle_msg st at ht c = Some c' \<and> client_sound c'"
  using assms(2) unfolding room_text_def
proof (elim disjE exE conjE)
  fix date stale sl
  assume a: "state_message date stale sl = Inr ht" "snapshot_ok (sl_state sl)" "mode_name (target_mode (sl_state sl)) \<noteq> None"
    "value_legal date" "length date < 30"
  let ?p = "build_state_payload (sl_state sl) stale"
  obtain m ht' bdy where h: "req_create_state (sl_player_id sl) ?p date zero_msg = Inr m" "convert_to_hypertext m = Inr ht'"
    "parse_hypertext ht' = Inr m" "req_extract_info m = (REQ_STATE, sl_player_id sl, bdy)" "\<forall>q. payload_decode_state bdy q = Some ?p"
    using state_message_chain [OF build_state_payload_ok [OF a(2)] a(4,5)] by blast
  have e: "ht' = ht" using a(1) h(1,2) by (simp add: state_message_def and_then_def)
  have "drawable (apply_state_payload ?p (cl_state c))"
    using drawable_of_draw [OF a(2,3)] assms(1) by (simp add: client_sound_def client_ready_def)
  moreover have "length (bag (apply_state_payload ?p (cl_state c))) = length (bag (cl_state c))" by (simp add: apply_state_payload_def)
  ultimately show ?thesis using h(3-5) assms(1) unfolding e
    by (simp add: client_handle_msg_def client_sound_def client_ready_def Let_def)
next
  fix date s t n
  assume "broadcast_feed date s t n = To_clients (Inr ht)" "value_legal date" "length date < 30"
  then have "client_handle_msg st at ht c = Some (c\<lparr>cl_feed := add_kill_feed s t n (cl_feed c)\<rparr>)"
    using client_attack_msg [of c date s t n st at] assms(1) by (auto simp: client_sound_def client_ready_def)
  then show ?thesis using assms(1) by (simp add: client_sound_def client_ready_def)
next
  fix date p
  assume a: "and_then (req_create_roster 0 p date zero_msg) convert_to_hypertext = Inr ht" "unat (rp_count p) = length (rp_ids p)"
    "length (rp_ids p) \<le> MAX_LOBBY_SIZE" "value_legal date" "length date < 30"
  have len: "length (payload_encode_roster p) \<le> 1500" using roster_text_length [of p] a(2,3) by simp
  obtain m ht' where h: "req_create_roster 0 p date zero_msg = Inr m" "convert_to_hypertext m = Inr ht'"
    "parse_hypertext ht' = Inr m" "req_extract_info m = (REQ_ROSTER, 0, payload_encode_roster p)"
    using roster_message_chain [OF len a(4,5)] by blast
  have e: "ht' = ht" using a(1) h(1,2) by (simp add: and_then_def)
  obtain q where "payload_decode_roster (payload_encode_roster p) \<lparr>rp_count = 0, rp_ids = replicate MAX_LOBBY_SIZE 0\<rparr> = Some q"
    using roster_decode [of p "\<lparr>rp_count = 0, rp_ids = replicate MAX_LOBBY_SIZE 0\<rparr>"] a(2,3) by auto
  then have "client_handle_msg st at ht c = Some (c\<lparr>cl_lobby := install_roster q (cl_lobby c)\<rparr>)"
    using h(3,4) unfolding e by (simp add: client_handle_msg_def)
  then show ?thesis using assms(1) install_roster_wf by (auto simp: client_sound_def client_ready_def)
next
  assume "parse_hypertext ht = Inl HT_FAIL"
  then show ?thesis using assms(1) by (simp add: client_handle_msg_def)
qed

lemma client_drain_sound:
  "client_sound c \<Longrightarrow> \<forall>ht \<in> set hts. room_text ht \<Longrightarrow> \<exists>c'. client_drain st at hts c = Some c' \<and> client_sound c'"
proof (induction hts arbitrary: c)
  case (Cons ht hts)
  then show ?case using room_text_handled [of c ht st at] by fastforce
qed simp

lemma process_inputs_state: "\<exists>g. fst (snd (process_inputs date b ks s)) = s\<lparr>game_over := g\<rparr>"
  by (induction ks rule: keys_induct) (auto simp: process_inputs_unfold case_prod_beta intro: exI [of _ "game_over s"])

lemma client_frame_sound:
  assumes "client_sound c" and "\<forall>ht \<in> set msgs. room_text ht"
  shows "\<exists>c'. snd (client_frame date st at keys msgs c) = Some c' \<and> client_sound c'"
proof -
  obtain g where g: "fst (snd (process_inputs date (cl_connected c) keys (cl_state c))) = (cl_state c)\<lparr>game_over := g\<rparr>"
    using process_inputs_state by blast
  have "client_sound (c\<lparr>cl_state := (cl_state c)\<lparr>game_over := g\<rparr>\<rparr>)"
    using assms(1) by (simp add: client_sound_def client_ready_def drawable_def)
  then show ?thesis using client_drain_sound [of _ msgs st at] assms(2) g by (simp add: client_frame_def case_prod_beta)
qed

lemma start_game_mode: "target_mode (fst (start_game prng now s r)) = TARGET_MANUAL"
  by (simp add: start_game_def spawn_new_piece_def refill_bag_def case_prod_beta Let_def zero_state_def)

text \<open>
  C25 (client_always_draws): a client that a match has started never stops short. However long the match is and whatever keys are
  pressed, when the texts that arrive are those a room sends (snapshots, attacks, rosters of at most two players)
  or texts that the parser refuses, every pass of the loop ends with a screen: no table is read outside its bounds,
  the ghost loop ends, every message is handled. The closing screen is printed too. The loop stops early only once
  the game is over. A text with more than sixteen headers is excluded: the parser would write past its table.
\<close>

theorem client_always_draws:
  assumes "cl_connected c" and "roster_wf (cl_lobby c)"
    and "client_start prng now pid c r = Some (c0, r')"
    and "\<forall>(keys, msgs) \<in> set fs. \<forall>ht \<in> set msgs. room_text ht"
  shows "\<exists>scrs c' scr. client_loop date st at fs c0 = Some (scrs, c') \<and> closing_screen c' = Some scr
     \<and> (length scrs = length fs \<or> game_over (cl_state c') \<noteq> 0)"
proof -
  have "drawable (fst (start_game prng now (cl_state c) r))"
    by (intro drawable_of_wf start_game_wf) (simp add: start_game_mode mode_name_def mode_strings_def)
  then have "drawable (cl_state c0)" using assms(3)
    by (auto simp: client_start_def Let_def case_prod_beta drawable_def split: option.splits prod.splits)
  then have s: "client_sound c0" using client_start_ready [OF assms(1-3)] by (simp add: client_sound_def)
  have "\<exists>scrs c'. client_loop date st at fs c = Some (scrs, c') \<and> client_sound c'
     \<and> (length scrs = length fs \<or> game_over (cl_state c') \<noteq> 0)"
    if "client_sound c" "\<forall>(keys, msgs) \<in> set fs. \<forall>ht \<in> set msgs. room_text ht" for c
    using that
  proof (induction fs arbitrary: c)
    case (Cons f fs)
    obtain keys msgs where f: "f = (keys, msgs)" by (cases f)
    show ?case
    proof (cases "game_over (cl_state c) = 0")
      case True
      obtain c1 where c1: "snd (client_frame date st at keys msgs c) = Some c1" "client_sound c1"
        using client_frame_sound [OF Cons.prems(1), of msgs date st at keys] Cons.prems(2) f by auto
      obtain scr where "draw_board (cl_state c1) (cl_feed c1) = Some scr"
        using draw_board_lines [of "cl_state c1" "cl_feed c1"] c1(2) by (auto simp: client_sound_def)
      then show ?thesis using Cons.IH [OF c1(2)] Cons.prems(2) c1(1) True f by auto
    qed (use Cons.prems f in simp)
  qed simp
  from this [OF s assms(4)] obtain scrs c' where l: "client_loop date st at fs c0 = Some (scrs, c')" "client_sound c'"
    "length scrs = length fs \<or> game_over (cl_state c') \<noteq> 0" by blast
  moreover obtain scr where "closing_screen c' = Some scr"
    using draw_board_lines [of "cl_state c'" "cl_feed c'"] l(2) by (auto simp: closing_screen_def client_sound_def)
  ultimately show ?thesis by blast
qed

theorem client_always_draws_witness:
  "\<forall>st at. \<exists>c0 r' scrs c' scr. client_start (\<lambda>_. sconst 0) 0 (Some 9) demo_client (sconst 0) = Some (c0, r')
     \<and> client_loop demo_date st at [([104], []), ([27, 91, 68], [''GARBLED'']), ([32], [])] c0 = Some (scrs, c')
     \<and> closing_screen c' = Some scr \<and> (length scrs = 3 \<or> game_over (cl_state c') \<noteq> 0)"
proof (intro allI)
  fix st at
  obtain c0 r' where c0: "client_start (\<lambda>_. sconst 0) 0 (Some 9) demo_client (sconst 0) = Some (c0, r')"
    by (auto simp: client_start_def event_bus_listen_def slot_of_init Let_def case_prod_beta)
  have d: "cl_connected demo_client" "roster_wf (cl_lobby demo_client)" by (simp_all add: demo_client_def roster_wf_def)
  have "parse_hypertext ''GARBLED'' = Inl HT_FAIL" by (simp add: parse_hypertext_def next_token_def strstr_split.simps)
  then have "\<forall>(keys :: nat list, msgs) \<in> set [([104], []), ([27, 91, 68], [''GARBLED'']), ([32], [])]. \<forall>ht \<in> set msgs. room_text ht"
    by (auto simp: room_text_def)
  from client_always_draws [OF d c0 this, of demo_date st at] c0
  show "\<exists>c0 r' scrs c' scr. client_start (\<lambda>_. sconst 0) 0 (Some 9) demo_client (sconst 0) = Some (c0, r')
     \<and> client_loop demo_date st at [([104], []), ([27, 91, 68], [''GARBLED'']), ([32], [])] c0 = Some (scrs, c')
     \<and> closing_screen c' = Some scr \<and> (length scrs = 3 \<or> game_over (cl_state c') \<noteq> 0)"
    by (simp add: numeral_3_eq_3 del: client_loop.simps)
qed

section \<open>Before the match\<close>

abbreviation text_of :: "string list \<Rightarrow> string" where
  "text_of ls \<equiv> concat (map (\<lambda>l. l @ NL) ls)"

definition plain_line :: "string \<Rightarrow> bool" where
  "plain_line l \<longleftrightarrow> CHR 0x0A \<notin> set l \<and> CHR 0x00 \<notin> set l"

lemma take_line_plain:
  "CHR 0x0A \<notin> set l \<Longrightarrow> take_line n (l @ NL @ t) = (if length l < n then (l @ NL, t) else (take n l, drop n l @ NL @ t))"
proof (induction n arbitrary: l)
  case (Suc n)
  then show ?case by (cases l) (auto simp: NL_def)
qed simp

lemma prompt_line:
  assumes "plain_line l"
  shows "prompt_address v (l @ NL @ t) =
     (if l = [] then Some (''127.0.0.1'', t) else if v (take SERVER_IP_ROOM l) then Some (take SERVER_IP_ROOM l, t)
      else prompt_address v t)"
proof (cases "length l < SERVER_IP_ROOM")
  case True
  have "c_str (l @ NL) = l @ NL" using assms by (auto simp: c_str_def plain_line_def NL_def takeWhile_eq_all_conv)
  moreover have "trim_newline (l @ NL) = l" "CHR 0x0A \<in> set (l @ NL)" by (simp_all add: trim_newline_def NL_def)
  moreover have "take_line SERVER_IP_ROOM (l @ NL @ t) = (l @ NL, t)" using take_line_plain assms True by (simp add: plain_line_def)
  ultimately show ?thesis using True by (subst prompt_address.simps) (simp add: fgets_def NL_def)
next
  case False
  let ?b = "take SERVER_IP_ROOM l"
  have n: "CHR 0x0A \<notin> set ?b" "CHR 0x0A \<notin> set (drop SERVER_IP_ROOM l)" "CHR 0x00 \<notin> set ?b" "?b \<noteq> []" "l \<noteq> []"
    using assms False by (auto simp: plain_line_def dest: in_set_takeD in_set_dropD)
  have "c_str ?b = ?b" using n(3) by (auto simp: c_str_def takeWhile_eq_all_conv)
  moreover have "?b ! (length ?b - 1) \<in> set ?b" using n(4) by (metis last_conv_nth last_in_set)
  then have "trim_newline ?b = ?b" using n(1) by (auto simp: trim_newline_def)
  moreover have "take_line SERVER_IP_ROOM (l @ NL @ t) = (?b, drop SERVER_IP_ROOM l @ NL @ t)"
    using take_line_plain assms False by (simp add: plain_line_def)
  moreover have "discard_line (drop SERVER_IP_ROOM l @ NL @ t) = t"
    using n(2) by (subst discard_line_def, subst dropWhile_append2) (auto simp: NL_def)
  ultimately show ?thesis using n False by (subst prompt_address.simps) (simp add: fgets_def Let_def)
qed

lemma prompt_lines:
  assumes "\<forall>l \<in> set ls. plain_line l"
  shows "prompt_address valid_ip (text_of ls) =
     (case dropWhile (\<lambda>l. l \<noteq> [] \<and> \<not> valid_ip (take SERVER_IP_ROOM l)) ls of
        [] \<Rightarrow> None
      | l # rest \<Rightarrow> Some (if l = [] then ''127.0.0.1'' else take SERVER_IP_ROOM l, text_of rest))"
  using assms
proof (induction ls)
  case Nil
  then show ?case by (subst prompt_address.simps) (simp add: fgets_def)
next
  case (Cons l ls)
  then show ?case using prompt_line [of l valid_ip "text_of ls"] by auto
qed

text \<open>
  Lemma (prompt_takes_first_address): the prompt, of \<open>tetrisu\<close> and of \<open>bombu\<close> alike, takes the first line of the input that is empty or an
  address and leaves the lines behind it unread. An empty line stands for the local host. A line that is too
  long for the buffer is judged by its first seventeen characters, and none of its rest is taken for a further
  answer. When no line will do the program stops at the end of the input.
\<close>

theorem prompt_takes_first_address:
  assumes "\<forall>l \<in> set ls. plain_line l"
  shows "prompt_address valid_ip (text_of ls) =
     (case dropWhile (\<lambda>l. l \<noteq> [] \<and> \<not> valid_ip (take SERVER_IP_ROOM l)) ls of
        [] \<Rightarrow> None
      | l # rest \<Rightarrow> Some (if l = [] then ''127.0.0.1'' else take SERVER_IP_ROOM l, text_of rest))"
  using assms by (rule prompt_lines)

theorem prompt_takes_first_address_witness:
  "prompt_address (\<lambda>ip. ip = ''10.0.0.7'') (text_of [''localhost'', ''999.999.999.999.999.999'', ''10.0.0.7'', ''x''])
     = Some (''10.0.0.7'', text_of [''x''])"
  using prompt_takes_first_address [of "[''localhost'', ''999.999.999.999.999.999'', ''10.0.0.7'', ''x'']" "\<lambda>ip. ip = ''10.0.0.7''"]
  by (simp add: plain_line_def)

lemma wait_for_game_iff:
  "waited \<le> LOBBY_WAIT_TIMEOUT_MS \<Longrightarrow> waited mod 100 = 0 \<Longrightarrow> waited < LOBBY_WAIT_TIMEOUT_MS \<Longrightarrow>
   wait_for_game g k waited \<longleftrightarrow> (\<exists>j < (LOBBY_WAIT_TIMEOUT_MS - waited) div 100. g (k + j))"
proof (induction g k waited rule: wait_for_game.induct)
  case (1 g k w)
  obtain n where n: "w = 100 * n" using "1.prems"(2) by auto
  show ?case
  proof (cases "g k")
    case True
    then show ?thesis using "1.prems" n by (subst wait_for_game.simps) (auto intro!: exI [of _ 0])
  next
    case False
    show ?thesis
    proof (cases "w + 100 \<ge> LOBBY_WAIT_TIMEOUT_MS")
      case True
      then have "(LOBBY_WAIT_TIMEOUT_MS - w) div 100 = 1" using "1.prems"(3) n by simp
      then show ?thesis using False True by (subst wait_for_game.simps) simp
    next
      case le: False
      have e: "(LOBBY_WAIT_TIMEOUT_MS - w) div 100 = Suc ((LOBBY_WAIT_TIMEOUT_MS - (w + 100)) div 100)" using le n by simp
      have "wait_for_game g (Suc k) (w + 100) \<longleftrightarrow> (\<exists>j < (LOBBY_WAIT_TIMEOUT_MS - (w + 100)) div 100. g (Suc k + j))"
        using "1.IH" [of "w + 100"] False le n by simp
      then show ?thesis using False le unfolding e
        by (subst wait_for_game.simps) (simp add: Ex_less_Suc2)
    qed
  qed
qed

lemma wait_is_five_minutes: "wait_for_game in_game 0 0 \<longleftrightarrow> (\<exists>j < 3000. in_game j)"
  using wait_for_game_iff [of 0 in_game 0] by simp

section \<open>The garbage meter shifts its row\<close>

text \<open>
  What a terminal shows of a line: colour sequences take no room. The screen is not cleared between frames, so a line
  replaces only as many characters as it has.
\<close>

function visible :: "string \<Rightarrow> string" where
  "visible [] = []"
| "visible (c # t) = (if c = CHR 0x1B then visible (drop 1 (dropWhile (\<lambda>c. c \<noteq> CHR ''m'') t)) else c # visible t)"
  by pat_completeness auto
termination
proof (relation "measure length")
  fix t :: string
  have "length (dropWhile (\<lambda>c. c \<noteq> CHR ''m'') t) \<le> length t" by (rule length_dropWhile_le)
  then show "(drop 1 (dropWhile (\<lambda>c. c \<noteq> CHR ''m'') t), c # t) \<in> measure length" for c by simp
qed simp_all

definition overwrite :: "string \<Rightarrow> string \<Rightarrow> string" where
  "overwrite shown new = new @ drop (length new) shown"

lemma visible_plain: "CHR 0x1B \<notin> set a \<Longrightarrow> visible (a @ b) = a @ visible b"
  by (induction a) auto

lemma draw_side_plain:
  assumes "draw_side s y = Some l"
  shows "CHR 0x1B \<notin> set l"
proof -
  have "CHR 0x1B \<notin> set row" if "shape_row t r = Some row" for t r row
    using that by (auto simp: shape_row_def box4_def split: if_splits)
  then show ?thesis using assms
    by (auto simp: draw_side_def preview_row_def box4_def bind_eq_Some_conv split: if_splits)
qed

text \<open>
  When the queued garbage has been received or cancelled, the row that carried its mark is three characters
  shorter than before, and the last three characters of the old row stay on the screen behind it.
\<close>

lemma meter_leaves_trail:
  assumes "drawable s" and "y < BOARD_HEIGHT" and "BOARD_HEIGHT - y \<le> unat (pending_garbage s)"
  shows "\<exists>before after. draw_row s g y = Some before \<and> draw_row (s\<lparr>pending_garbage := 0\<rparr>) g y = Some after
     \<and> length (visible before) = length (visible after) + 3
     \<and> overwrite (visible before) (visible after) = visible after @ last_n 3 (visible before)"
proof -
  obtain side where d: "draw_side s y = Some side" using draw_side_ok [OF assms(1,2)] by blast
  have "draw_side (s\<lparr>pending_garbage := 0\<rparr>) y = draw_side s y" by (simp add: draw_side_def preview_row_def bag_at_def)
  with d have d': "draw_side (s\<lparr>pending_garbage := 0\<rparr>) y = Some side" by simp
  let ?c = "''<|>'' @ concat (map (draw_cell s g y) [0..<BOARD_WIDTH])"
  have c: "draw_cell (s\<lparr>pending_garbage := 0\<rparr>) g y = draw_cell s g y" by (intro ext) (simp add: draw_cell_def)
  have p: "CHR 0x1B \<notin> set ?c" by (auto simp: draw_cell_def split: if_splits)
  have e: "draw_row s g y = Some (?c @ ''<|>  '' @ ESC @ ''[0;31m#'' @ ESC @ ''[0m  <|>'' @ side)"
    "draw_row (s\<lparr>pending_garbage := 0\<rparr>) g y = Some (?c @ ''<|>  <|>'' @ side)"
    using assms(2,3) by (simp_all add: draw_row_def d d' c draw_meter_def del: upt_rec_numeral)
  have v: "visible side = side" using visible_plain [OF draw_side_plain [OF d], of "[]"] by simp
  have b: "visible (?c @ ''<|>  '' @ ESC @ ''[0;31m#'' @ ESC @ ''[0m  <|>'' @ side) = ?c @ ''<|>  #  <|>'' @ side"
    "visible (?c @ ''<|>  <|>'' @ side) = ?c @ ''<|>  <|>'' @ side"
    unfolding visible_plain [OF p] using v by (simp_all add: ESC_def)
  have "length (visible (?c @ ''<|>  '' @ ESC @ ''[0;31m#'' @ ESC @ ''[0m  <|>'' @ side)) = length (visible (?c @ ''<|>  <|>'' @ side)) + 3"
    unfolding b by simp
  then obtain before after where "draw_row s g y = Some before" "draw_row (s\<lparr>pending_garbage := 0\<rparr>) g y = Some after"
    "length (visible before) = length (visible after) + 3"
    using e by blast
  then show ?thesis by (auto simp: overwrite_def last_n_def)
qed

end
