(* ===== verification/Terminal.thy ===== *)
theory Terminal
  imports Tetris_Client
begin

text \<open>
  The terminal of \<open>tetrisu\<close>: \<open>input.c\<close> (raw mode and \<open>kbhit\<close>) and the loop of \<open>input_handler.c\<close> with its calls of \<open>kbhit\<close> and \<open>getchar\<close>, which \<open>Tetris_Client\<close> has
  on the list of the waiting keys. A call of \<open>getchar\<close> that would wait is \<open>None\<close>; the keys that arrive while a frame is being handled count for the next one.
\<close>

section \<open>The terminal\<close>

record termios =
  ti_echo :: bool
  ti_icanon :: bool
  ti_rest :: nat

record terminal =
  tm_attr :: termios
  tm_nonblock :: bool
  tm_keys :: "nat list"
  tm_orig :: termios
  tm_cursor :: bool
  tm_atexit :: nat

definition disable_raw_mode :: "terminal \<Rightarrow> terminal" where
  "disable_raw_mode t = t\<lparr>tm_attr := tm_orig t, tm_cursor := True\<rparr>"

definition enable_raw_mode :: "terminal \<Rightarrow> terminal" where
  "enable_raw_mode t =
     (let t1 = t\<lparr>tm_orig := tm_attr t, tm_atexit := tm_atexit t + 1\<rparr>;
          raw = (tm_orig t1)\<lparr>ti_echo := False, ti_icanon := False\<rparr>
      in t1\<lparr>tm_attr := raw, tm_cursor := False\<rparr>)"

text \<open>\<open>getchar\<close>: the next key, or the end of the file when nothing waits and the descriptor does not block.\<close>

definition getchar :: "terminal \<Rightarrow> (nat option \<times> terminal) option" where
  "getchar t =
     (case tm_keys t of
        k # ks \<Rightarrow> Some (Some k, t\<lparr>tm_keys := ks\<rparr>)
      | [] \<Rightarrow> if tm_nonblock t then Some (None, t) else None)"

definition kbhit :: "terminal \<Rightarrow> (bool \<times> terminal) option" where
  "kbhit t =
     (let oldf = tm_nonblock t
      in Option.bind (getchar (t\<lparr>tm_nonblock := True\<rparr>)) (\<lambda>(ch, t1).
           let t2 = t1\<lparr>tm_nonblock := oldf\<rparr>
           in case ch of
                Some k \<Rightarrow> Some (True, t2\<lparr>tm_keys := k # tm_keys t2\<rparr>)
              | None \<Rightarrow> Some (False, t2)))"

section \<open>Reading the keys\<close>

definition letter_action :: "nat option \<Rightarrow> PlayerAction option" where
  "letter_action ch = (case ch of None \<Rightarrow> None | Some l \<Rightarrow> arrow_action l)"

partial_function (option) terminal_inputs :: "string \<Rightarrow> bool \<Rightarrow> terminal \<Rightarrow> GameState \<Rightarrow> ((ht_error + string) list \<times> GameState \<times> terminal) option" where
  "terminal_inputs date conn t s =
     Option.bind (kbhit t) (\<lambda>(hit, t1).
       if \<not> hit then Some ([], s, t1)
       else Option.bind (getchar t1) (\<lambda>(key, t2).
         if key = None then terminal_inputs date conn t2 s
         else if key = Some 27 then
           Option.bind (kbhit t2) (\<lambda>(hit2, t3).
             if \<not> hit2 then terminal_inputs date conn t3 s
             else Option.bind (getchar t3) (\<lambda>(c, t4).
               if c \<noteq> Some (code (CHR ''['')) then terminal_inputs date conn t4 s
               else Option.bind (kbhit t4) (\<lambda>(hit3, t5).
                 if \<not> hit3 then terminal_inputs date conn t5 s
                 else Option.bind (getchar t5) (\<lambda>(l, t6).
                   Option.bind (terminal_inputs date conn t6 s) (\<lambda>(ms, s', t').
                     Some (send_bound date conn s (letter_action l) @ ms, s', t'))))))
         else if key_action (the key) = Some ACTION_QUIT then Some (send_action date conn s ACTION_QUIT, s\<lparr>game_over := 1\<rparr>, t2)
         else Option.bind (terminal_inputs date conn t2 s) (\<lambda>(ms, s', t').
                Some (send_bound date conn s (key_action (the key)) @ ms, s', t'))))"

text \<open>The end of \<open>main\<close>: the wait for a key, one list of new keys for each look, and the key that ends the program; then the handler of \<open>atexit\<close> runs.\<close>

fun wait_key :: "nat list list \<Rightarrow> terminal \<Rightarrow> terminal option" where
  "wait_key arrivals t =
     Option.bind (kbhit t) (\<lambda>(hit, t1).
       if hit then map_option snd (getchar t1)
       else case arrivals of [] \<Rightarrow> None | ks # as \<Rightarrow> wait_key as (t1\<lparr>tm_keys := tm_keys t1 @ ks\<rparr>))"

definition program_exit :: "terminal \<Rightarrow> terminal" where
  "program_exit t = (disable_raw_mode ^^ tm_atexit t) t"

text \<open>The game: keys arrive, a frame reads them.\<close>

fun terminal_frames :: "string \<Rightarrow> bool \<Rightarrow> (nat list \<times> GameState) list \<Rightarrow> terminal \<Rightarrow> terminal option" where
  "terminal_frames date conn [] t = Some t"
| "terminal_frames date conn ((ks, s) # fs) t =
     Option.bind (terminal_inputs date conn (t\<lparr>tm_keys := tm_keys t @ ks\<rparr>) s) (\<lambda>(ms, s', t'). terminal_frames date conn fs t')"

section \<open>Lemmas\<close>

lemma kbhit_eq [simp]: "kbhit t = Some (tm_keys t \<noteq> [], t)"
  by (cases "tm_keys t") (simp_all add: kbhit_def getchar_def Let_def)

lemma getchar_eq: "tm_keys t = k # ks \<Longrightarrow> getchar t = Some (Some k, t\<lparr>tm_keys := ks\<rparr>)"
  by (simp add: getchar_def)

lemma terminal_inputs_list:
  "terminal_inputs date conn t s = (case process_inputs date conn (tm_keys t) s of (ms, s', rest) \<Rightarrow> Some (ms, s', t\<lparr>tm_keys := rest\<rparr>))"
proof (induction "tm_keys t" arbitrary: t rule: keys_induct)
  case none
  then show ?case by (subst terminal_inputs.simps) simp
next
  case esc
  note e = esc [symmetric]
  have "terminal_inputs date conn (t\<lparr>tm_keys := []\<rparr>) s = Some ([], s, t\<lparr>tm_keys := []\<rparr>)" by (subst terminal_inputs.simps) simp
  then show ?case by (subst terminal_inputs.simps) (simp add: e getchar_eq process_inputs_unfold)
next
  case esc_bracket
  note e = esc_bracket [symmetric]
  have "terminal_inputs date conn (t\<lparr>tm_keys := []\<rparr>) s = Some ([], s, t\<lparr>tm_keys := []\<rparr>)" by (subst terminal_inputs.simps) simp
  then show ?case by (subst terminal_inputs.simps) (simp add: e getchar_eq process_inputs_unfold)
next
  case (arrow l ks)
  note e = arrow(2) [symmetric]
  show ?case using arrow(1) [of "t\<lparr>tm_keys := ks\<rparr>"]
    by (subst terminal_inputs.simps) (simp add: e getchar_eq process_inputs_unfold letter_action_def case_prod_beta)
next
  case (esc_other c ks)
  note e = esc_other(3) [symmetric]
  show ?case using esc_other(1) esc_other(2) [of "t\<lparr>tm_keys := ks\<rparr>"]
    by (subst terminal_inputs.simps) (simp add: e getchar_eq process_inputs_unfold case_prod_beta)
next
  case (plain k ks)
  note e = plain(3) [symmetric]
  show ?case using plain(1) plain(2) [of "t\<lparr>tm_keys := ks\<rparr>"]
    by (subst terminal_inputs.simps) (simp add: e getchar_eq process_inputs_unfold case_prod_beta)
qed

section \<open>Properties\<close>

text \<open>
  C40 (terminal_loop_never_waits): the loop that reads the keyboard returns in every frame without waiting for a key, sends and does exactly what the keys that are waiting ask for, and leaves the terminal as it
  was but for the keys that it took; a key is never lost or read twice by \<open>kbhit\<close>.
\<close>

theorem terminal_loop_never_waits:
  "terminal_inputs date conn t s = (case process_inputs date conn (tm_keys t) s of (ms, s', rest) \<Rightarrow> Some (ms, s', t\<lparr>tm_keys := rest\<rparr>))"
  by (rule terminal_inputs_list)

text \<open>After the game the terminal has the settings that it had before, whatever was typed.\<close>

lemma terminal_frames_keys: "\<exists>ks. terminal_frames date conn fs t = Some (t\<lparr>tm_keys := ks\<rparr>)"
proof (induction fs arbitrary: t)
  case Nil
  have "terminal_frames date conn [] t = Some (t\<lparr>tm_keys := tm_keys t\<rparr>)" by simp
  then show ?case by blast
next
  case (Cons f fs)
  obtain ks s where f: "f = (ks, s)" by (cases f)
  obtain ms s' rest where p: "process_inputs date conn (tm_keys t @ ks) s = (ms, s', rest)" by (cases "process_inputs date conn (tm_keys t @ ks) s")
  have "terminal_inputs date conn (t\<lparr>tm_keys := tm_keys t @ ks\<rparr>) s = Some (ms, s', t\<lparr>tm_keys := rest\<rparr>)"
    using p by (simp add: terminal_inputs_list)
  then show ?case using Cons.IH [of "t\<lparr>tm_keys := rest\<rparr>"] by (simp add: f)
qed

lemma terminal_restored:
  assumes "terminal_frames date conn fs (enable_raw_mode t) = Some t'" and "tm_atexit t = 0"
  shows "tm_attr (program_exit t') = tm_attr t" and "tm_cursor (program_exit t')" and "tm_nonblock (program_exit t') = tm_nonblock t"
proof -
  obtain ks where "t' = (enable_raw_mode t)\<lparr>tm_keys := ks\<rparr>" using terminal_frames_keys [of date conn fs "enable_raw_mode t"] assms(1) by auto
  then show "tm_attr (program_exit t') = tm_attr t" "tm_cursor (program_exit t')" "tm_nonblock (program_exit t') = tm_nonblock t"
    using assms(2) by (simp_all add: program_exit_def enable_raw_mode_def disable_raw_mode_def Let_def)
qed

text \<open>The final wait ends with the first key.\<close>

lemma wait_key_ends:
  assumes "tm_keys t \<noteq> [] \<or> (\<exists>ks \<in> set as. ks \<noteq> [])"
  shows "\<exists>ks. wait_key as t = Some (t\<lparr>tm_keys := ks\<rparr>)"
  using assms
proof (induction as arbitrary: t)
  case Nil
  then show ?case by (cases "tm_keys t") (auto simp: getchar_def)
next
  case (Cons ks as)
  show ?case
  proof (cases "tm_keys t")
    case Nil
    have "\<exists>ks'. wait_key as (t\<lparr>tm_keys := ks\<rparr>) = Some (t\<lparr>tm_keys := ks'\<rparr>)"
      using Cons.IH [of "t\<lparr>tm_keys := ks\<rparr>"] Cons.prems Nil by auto
    moreover have "wait_key (ks # as) t = wait_key as (t\<lparr>tm_keys := ks\<rparr>)" by (subst wait_key.simps) (simp add: Nil del: wait_key.simps)
    ultimately show ?thesis by simp
  next
    case (Cons k ks')
    then show ?thesis by (auto simp: getchar_def)
  qed
qed

end
