(* ===== verification/Message.thy ===== *)
theory Message
  imports Bytes Queue
begin

text \<open>
  The wire format of the transport: \<open>libbattleroyale/message.c\<close> and \<open>message.h\<close>.

  A TCP connection is seen from both ends. On the reading side it is the list of the pieces in which the
  kernel hands over the stream: one \<open>recv\<close> returns a piece, or as much of it as was asked for, and an
  empty piece (or no piece at all) is the \<open>recv\<close> that returns 0 or an error. On the writing side it is
  the plan of how many bytes each successive \<open>send\<close> accepts, 0 standing for a \<open>send\<close> that fails, and the bytes
  that have gone out. Every way of cutting the stream into pieces is therefore an input of the model.

  The message type is the 32-bit number on the wire, because \<open>receive_message_tcp\<close> stores whatever number
  arrives in the enumeration. Allocation is taken to succeed, and the result pointers are never NULL (every caller
  passes the address of a local).
\<close>

section \<open>Messages\<close>

definition MSG_CONTENT_LENGTH :: nat where "MSG_CONTENT_LENGTH = 2048"

definition MSG_CERT :: u32 where "MSG_CERT = 0"
definition MSG_AUTH :: u32 where "MSG_AUTH = 1"
definition MSG_KEY :: u32 where "MSG_KEY = 2"
definition MSG_JOIN :: u32 where "MSG_JOIN = 3"
definition MSG_LEAVE :: u32 where "MSG_LEAVE = 4"
definition MSG_START :: u32 where "MSG_START = 5"
definition MSG_END :: u32 where "MSG_END = 6"
definition MSG_APP :: u32 where "MSG_APP = 7"
definition MSG_APP_ENC :: u32 where "MSG_APP_ENC = 8"

lemmas msg_types = MSG_CERT_def MSG_AUTH_def MSG_KEY_def MSG_JOIN_def MSG_LEAVE_def MSG_START_def
  MSG_END_def MSG_APP_def MSG_APP_ENC_def

record Message =
  source_id :: u32
  msg_len :: u32
  msg_type :: u32
  msg_content :: "u8 list"

definition message_wf :: "Message \<Rightarrow> bool" where
  "message_wf m \<longleftrightarrow> length (msg_content m) = MSG_CONTENT_LENGTH"

section \<open>Sockets\<close>

type_synonym rx = "u8 list list"

definition sock_recv :: "nat \<Rightarrow> rx \<Rightarrow> u8 list \<times> rx" where
  "sock_recv n s =
     (case s of
        [] \<Rightarrow> ([], [])
      | c # cs \<Rightarrow> if length c \<le> n then (c, cs) else (take n c, drop n c # cs))"

record tx =
  tx_plan :: "nat list"
  tx_wire :: "u8 list"

definition sock_send :: "u8 list \<Rightarrow> tx \<Rightarrow> nat \<times> tx" where
  "sock_send bs t =
     (case tx_plan t of
        [] \<Rightarrow> (0, t)
      | k # ks \<Rightarrow> let m = min k (length bs)
                in (m, t\<lparr>tx_plan := ks, tx_wire := tx_wire t @ take m bs\<rparr>))"

lemma sock_recv_length: "length (fst (sock_recv n s)) \<le> n"
  by (auto simp: sock_recv_def split: list.splits)

lemma sock_send_le: "fst (sock_send bs t) \<le> length bs"
  by (auto simp: sock_send_def Let_def split: list.splits)

section \<open>Reading and writing a given number of bytes\<close>

text \<open>The loop of \<open>read_bytes\<close>: \<open>buf\<close> holds the bytes received so far.\<close>

function read_loop :: "nat \<Rightarrow> u8 list \<Rightarrow> rx \<Rightarrow> u8 list option \<times> rx" where
  "read_loop n buf s =
     (if length buf < n then
        let (got, s') = sock_recv (n - length buf) s
        in if got = [] then (None, s') else read_loop n (buf @ got) s'
      else (Some buf, s))"
  by pat_completeness auto
termination
  by (relation "measure (\<lambda>(n, buf, s). n - length buf)") (auto intro!: diff_less_mono2)

declare read_loop.simps [simp del]

definition read_bytes :: "nat \<Rightarrow> rx \<Rightarrow> u8 list option \<times> rx" where
  "read_bytes n s = read_loop n [] s"

text \<open>The loop of \<open>send_bytes\<close>: the argument holds the bytes still to be sent.\<close>

function send_bytes :: "u8 list \<Rightarrow> tx \<Rightarrow> bool \<times> tx" where
  "send_bytes bs t =
     (if bs = [] then (True, t)
      else let (m, t') = sock_send bs t
           in if m = 0 then (False, t') else send_bytes (drop m bs) t')"
  by pat_completeness auto
termination
  by (relation "measure (\<lambda>(bs, t). length bs)") auto

declare send_bytes.simps [simp del]

section \<open>Messages over TCP\<close>

text \<open>
  \<open>receive_message_tcp\<close> fills the caller's structure field by field, so a connection that breaks in the middle
  leaves it half written; \<open>False\<close> is the result -1.
\<close>

definition receive_message_tcp :: "rx \<Rightarrow> Message \<Rightarrow> bool \<times> Message \<times> rx" where
  "receive_message_tcp s m =
     (case read_bytes 4 s of
        (None, s1) \<Rightarrow> (False, m, s1)
      | (Some b1, s1) \<Rightarrow> let m1 = m\<lparr>source_id := from_be32 b1\<rparr> in
     (case read_bytes 4 s1 of
        (None, s2) \<Rightarrow> (False, m1, s2)
      | (Some b2, s2) \<Rightarrow> let m2 = m1\<lparr>msg_len := from_be32 b2\<rparr> in
     (case read_bytes 4 s2 of
        (None, s3) \<Rightarrow> (False, m2, s3)
      | (Some b3, s3) \<Rightarrow> let m3 = m2\<lparr>msg_type := from_be32 b3\<rparr> in
     (case read_bytes MSG_CONTENT_LENGTH s3 of
        (None, s4) \<Rightarrow> (False, m3, s4)
      | (Some b4, s4) \<Rightarrow> (True, m3\<lparr>msg_content := b4\<rparr>, s4)))))"

definition send_message_tcp :: "Message \<Rightarrow> tx \<Rightarrow> bool \<times> tx" where
  "send_message_tcp m t =
     (case send_bytes (be32 (source_id m)) t of
        (False, t1) \<Rightarrow> (False, t1)
      | (True, t1) \<Rightarrow>
     (case send_bytes (be32 (msg_len m)) t1 of
        (False, t2) \<Rightarrow> (False, t2)
      | (True, t2) \<Rightarrow>
     (case send_bytes (be32 (msg_type m)) t2 of
        (False, t3) \<Rightarrow> (False, t3)
      | (True, t3) \<Rightarrow> send_bytes (msg_content m) t3)))"

section \<open>Messages over UDP\<close>

text \<open>
  A datagram is the memory image of the structure, in the byte order of the host (little-endian). The receive buffer is
  a local array: what a short datagram does not overwrite is what the stack held there.
\<close>

definition le32 :: "u32 \<Rightarrow> u8 list" where
  "le32 w = rev (be32 w)"

definition from_le32 :: "u8 list \<Rightarrow> u32" where
  "from_le32 bs = from_be32 (rev bs)"

definition message_image :: "Message \<Rightarrow> u8 list" where
  "message_image m = le32 (source_id m) @ le32 (msg_len m) @ le32 (msg_type m) @ msg_content m"

definition image_message :: "u8 list \<Rightarrow> Message" where
  "image_message bs =
     \<lparr>source_id = from_le32 (take 4 bs), msg_len = from_le32 (take 4 (drop 4 bs)),
      msg_type = from_le32 (take 4 (drop 8 bs)), msg_content = take MSG_CONTENT_LENGTH (drop 12 bs)\<rparr>"

definition receive_message_udp :: "u8 list \<Rightarrow> u8 list option \<Rightarrow> Message \<Rightarrow> bool \<times> Message" where
  "receive_message_udp stack dgram m =
     (case dgram of
        None \<Rightarrow> (False, m)
      | Some d \<Rightarrow> (True, image_message (mem_write 0 (take (12 + MSG_CONTENT_LENGTH) d) stack)))"

datatype udp_dest = Udp_broadcast u16 | Udp_host string u16

definition PORT_TCP :: u16 where "PORT_TCP = 6700"
definition PORT_UDP_UNI :: u16 where "PORT_UDP_UNI = 6701"
definition PORT_UDP_BROAD :: u16 where "PORT_UDP_BROAD = 6702"

text \<open>The result of \<open>sendto\<close> and of \<open>inet_pton\<close> are inputs; the result lists the datagrams sent.\<close>

definition send_broadcast_udp :: "bool \<Rightarrow> Message \<Rightarrow> bool \<times> (udp_dest \<times> u8 list) list" where
  "send_broadcast_udp sendto_ok m =
     (if sendto_ok then (True, [(Udp_broadcast PORT_UDP_BROAD, message_image m)]) else (False, []))"

definition send_unicast_udp ::
  "bool \<Rightarrow> bool \<Rightarrow> string \<Rightarrow> Message \<Rightarrow> bool \<times> (udp_dest \<times> u8 list) list" where
  "send_unicast_udp pton_ok sendto_ok ip m =
     (if \<not> pton_ok then (False, [])
      else if sendto_ok then (True, [(Udp_host ip PORT_UDP_UNI, message_image m)]) else (False, []))"

section \<open>The stream under the pieces\<close>

text \<open>A connection on which no \<open>recv\<close> fails before the end of the stream.\<close>

definition live :: "rx \<Rightarrow> bool" where
  "live s \<longleftrightarrow> [] \<notin> set s"

lemma live_nil [simp]: "live []"
  by (simp add: live_def)

lemma sock_recv_live:
  assumes "live s" and "0 < n" and "sock_recv n s = (got, s')"
  shows "live s' \<and> concat s = got @ concat s' \<and> (got = [] \<longleftrightarrow> s = [])"
  using assms by (cases s) (auto simp: sock_recv_def live_def split: if_splits)

lemma read_loop_live:
  assumes "live s" and "length buf \<le> n"
  shows "live (snd (read_loop n buf s)) \<and>
         (if n \<le> length buf + length (concat s)
          then fst (read_loop n buf s) = Some (take n (buf @ concat s))
             \<and> concat (snd (read_loop n buf s)) = drop n (buf @ concat s)
          else fst (read_loop n buf s) = None \<and> snd (read_loop n buf s) = [])"
  using assms
proof (induction n buf s rule: read_loop.induct)
  case (1 n buf s)
  show ?case
  proof (cases "length buf < n")
    case False
    then show ?thesis using 1(2,3) by (simp add: read_loop.simps [of n buf s])
  next
    case True
    obtain got s' where r: "sock_recv (n - length buf) s = (got, s')" by fastforce
    have l: "live s'" "concat s = got @ concat s'" "got = [] \<longleftrightarrow> s = []"
      using sock_recv_live [OF 1(2) _ r] True by auto
    have len: "length got \<le> n - length buf" using sock_recv_length [of "n - length buf" s] r by simp
    show ?thesis
    proof (cases "got = []")
      case g: True
      then have "s' = []" using l r by (simp add: sock_recv_def)
      then have "read_loop n buf s = (None, [])" using g True r by (simp add: read_loop.simps [of n buf s])
      then show ?thesis using g True l by simp
    next
      case g: False
      have b: "length (buf @ got) \<le> n" using len True by simp
      have e: "read_loop n buf s = read_loop n (buf @ got) s'"
        using g True r by (simp add: read_loop.simps [of n buf s])
      from 1(1) [OF True r [symmetric] refl g l(1) b] show ?thesis unfolding e l(2) by (simp add: add.assoc)
    qed
  qed
qed

lemma read_bytes_ok:
  assumes "live s" and "concat s = bs @ rest" and "length bs = n"
  obtains s' where "read_bytes n s = (Some bs, s')" and "live s'" and "concat s' = rest"
proof -
  have "fst (read_bytes n s) = Some bs \<and> live (snd (read_bytes n s)) \<and> concat (snd (read_bytes n s)) = rest"
    using read_loop_live [OF assms(1), of "[]" n] assms(2,3) by (auto simp: read_bytes_def split: if_splits)
  then show ?thesis using that [of "snd (read_bytes n s)"] by (metis prod.collapse)
qed

lemma read_bytes_short:
  assumes "live s" and "length (concat s) < n"
  shows "read_bytes n s = (None, [])"
  using read_loop_live [OF assms(1), of "[]" n] assms(2)
  by (auto simp: read_bytes_def prod_eq_iff split: if_splits)

section \<open>What goes out\<close>

lemma send_bytes_wire:
  "\<exists>k \<le> length bs. tx_wire (snd (send_bytes bs t)) = tx_wire t @ take k bs
      \<and> (fst (send_bytes bs t) \<longrightarrow> k = length bs)"
proof (induction bs t rule: send_bytes.induct)
  case (1 bs t)
  show ?case
  proof (cases "bs = []")
    case True
    then show ?thesis by (simp add: send_bytes.simps)
  next
    case False
    obtain m t' where s: "sock_send bs t = (m, t')" by fastforce
    have w: "tx_wire t' = tx_wire t @ take m bs" and m: "m \<le> length bs"
      using s sock_send_le [of bs t] by (auto simp: sock_send_def Let_def split: list.splits)
    show ?thesis
    proof (cases "m = 0")
      case True
      then show ?thesis using s False w by (auto simp: send_bytes.simps [of bs t] intro!: exI [of _ 0])
    next
      case m0: False
      from 1 [OF False s [symmetric] refl m0] obtain k where k: "k \<le> length bs - m"
        and kw: "tx_wire (snd (send_bytes (drop m bs) t')) = tx_wire t' @ take k (drop m bs)"
        and kf: "fst (send_bytes (drop m bs) t') \<longrightarrow> k = length bs - m" by auto
      have "take m bs @ take k (drop m bs) = take (m + k) bs" by (simp add: take_add)
      moreover have e: "send_bytes bs t = send_bytes (drop m bs) t'"
        using False s m0 by (simp add: send_bytes.simps [of bs t])
      ultimately show ?thesis unfolding e kw w using k kf m by (intro exI [of _ "m + k"]) auto
    qed
  qed
qed

lemma send_bytes_ok: "send_bytes bs t = (True, t') \<Longrightarrow> tx_wire t' = tx_wire t @ bs"
  using send_bytes_wire [of bs t] by auto

text \<open>A plan that refuses nothing and is long enough carries everything.\<close>

lemma send_bytes_live:
  assumes "0 \<notin> set (tx_plan t)" and "length bs \<le> length (tx_plan t)"
  shows "fst (send_bytes bs t) \<and> 0 \<notin> set (tx_plan (snd (send_bytes bs t)))
       \<and> length (tx_plan t) \<le> length (tx_plan (snd (send_bytes bs t))) + length bs"
  using assms
proof (induction bs t rule: send_bytes.induct)
  case (1 bs t)
  show ?case
  proof (cases "bs = []")
    case True
    then show ?thesis using 1(2) by (simp add: send_bytes.simps)
  next
    case False
    then obtain k ks where p: "tx_plan t = k # ks" using 1(3) by (cases "tx_plan t") auto
    define m where "m = min k (length bs)"
    define t' where "t' = t\<lparr>tx_plan := ks, tx_wire := tx_wire t @ take m bs\<rparr>"
    have s: "sock_send bs t = (m, t')" by (simp add: sock_send_def p m_def t'_def Let_def)
    have m0: "m \<noteq> 0" using False 1(2) p by (auto simp: m_def)
    have e: "send_bytes bs t = send_bytes (drop m bs) t'"
      using False s m0 by (simp add: send_bytes.simps [of bs t])
    have g: "0 \<notin> set (tx_plan t')" "length (drop m bs) \<le> length (tx_plan t')"
      using 1(2,3) p m0 by (auto simp: t'_def)
    from 1(1) [OF False s [symmetric] refl m0 g] show ?thesis unfolding e
      using p m0 min.cobounded2 [of k "length bs"] by (auto simp: t'_def m_def [symmetric])
  qed
qed

lemma send_message_wire:
  "send_message_tcp m t = (True, t') \<Longrightarrow>
   tx_wire t' = tx_wire t @ be32 (source_id m) @ be32 (msg_len m) @ be32 (msg_type m) @ msg_content m"
  by (auto simp: send_message_tcp_def dest!: send_bytes_ok split: prod.splits bool.splits)

lemma send_bytes_liveE:
  assumes "0 \<notin> set (tx_plan t)" and "length bs + r \<le> length (tx_plan t)"
  obtains t' where "send_bytes bs t = (True, t')" and "0 \<notin> set (tx_plan t')" and "r \<le> length (tx_plan t')"
proof -
  have "length bs \<le> length (tx_plan t)" using assms(2) by simp
  note l = send_bytes_live [OF assms(1) this]
  then have "send_bytes bs t = (True, snd (send_bytes bs t))" by (simp add: prod_eq_iff)
  moreover have "r \<le> length (tx_plan (snd (send_bytes bs t)))" using l assms(2) by linarith
  ultimately show ?thesis using l by (intro that [of "snd (send_bytes bs t)"]) blast+
qed

lemma send_message_liveE:
  assumes "message_wf m" and "0 \<notin> set (tx_plan t)" and "2060 + r \<le> length (tx_plan t)"
  obtains t' where "send_message_tcp m t = (True, t')" and "0 \<notin> set (tx_plan t')" and "r \<le> length (tx_plan t')"
proof -
  have "length (be32 (source_id m)) + (2056 + r) \<le> length (tx_plan t)" using assms(3) by simp
  from send_bytes_liveE [OF assms(2) this] obtain t1 where
    1: "send_bytes (be32 (source_id m)) t = (True, t1)" "0 \<notin> set (tx_plan t1)" "2056 + r \<le> length (tx_plan t1)"
    by blast
  have "length (be32 (msg_len m)) + (2052 + r) \<le> length (tx_plan t1)" using 1(3) by simp
  from send_bytes_liveE [OF 1(2) this] obtain t2 where
    2: "send_bytes (be32 (msg_len m)) t1 = (True, t2)" "0 \<notin> set (tx_plan t2)" "2052 + r \<le> length (tx_plan t2)"
    by blast
  have "length (be32 (msg_type m)) + (2048 + r) \<le> length (tx_plan t2)" using 2(3) by simp
  from send_bytes_liveE [OF 2(2) this] obtain t3 where
    3: "send_bytes (be32 (msg_type m)) t2 = (True, t3)" "0 \<notin> set (tx_plan t3)" "2048 + r \<le> length (tx_plan t3)"
    by blast
  have "length (msg_content m) + r \<le> length (tx_plan t3)"
    using 3(3) assms(1) by (simp add: message_wf_def MSG_CONTENT_LENGTH_def)
  from send_bytes_liveE [OF 3(2) this] obtain t4 where
    4: "send_bytes (msg_content m) t3 = (True, t4)" "0 \<notin> set (tx_plan t4)" "r \<le> length (tx_plan t4)"
    by blast
  have "send_message_tcp m t = (True, t4)" by (simp add: send_message_tcp_def 1(1) 2(1) 3(1) 4(1))
  then show ?thesis using 4(2,3) by (rule that)
qed

section \<open>Framing\<close>

text \<open>
  A reader of a framed stream takes exactly the bytes of one item and leaves the rest, whatever the pieces. The laws give what
  the users rely on: a sequence of items is read back item by item.
\<close>

fun recv_many :: "(rx \<Rightarrow> 'a option \<times> rx) \<Rightarrow> nat \<Rightarrow> rx \<Rightarrow> 'a list option \<times> rx" where
  "recv_many recv 0 s = (Some [], s)"
| "recv_many recv (Suc n) s =
     (case recv s of
        (None, s') \<Rightarrow> (None, s')
      | (Some x, s') \<Rightarrow> (case recv_many recv n s' of (r, s'') \<Rightarrow> (map_option (Cons x) r, s'')))"

locale framed =
  fixes enc :: "'a \<Rightarrow> u8 list" and recv :: "rx \<Rightarrow> 'a option \<times> rx" and ok :: "'a \<Rightarrow> bool" and width :: nat
  assumes enc_width: "ok x \<Longrightarrow> length (enc x) = width"
    and recv_enc: "ok x \<Longrightarrow> live s \<Longrightarrow> concat s = enc x @ rest \<Longrightarrow>
          fst (recv s) = Some x \<and> live (snd (recv s)) \<and> concat (snd (recv s)) = rest"
    and recv_short: "live s \<Longrightarrow> length (concat s) < width \<Longrightarrow> recv s = (None, [])"
begin

lemma recv_many_enc:
  "\<forall>x \<in> set xs. ok x \<Longrightarrow> live s \<Longrightarrow> concat s = concat (map enc xs) @ rest \<Longrightarrow>
   fst (recv_many recv (length xs) s) = Some xs \<and> live (snd (recv_many recv (length xs) s))
   \<and> concat (snd (recv_many recv (length xs) s)) = rest"
proof (induction xs arbitrary: s)
  case (Cons x xs)
  obtain y s' where r: "recv s = (y, s')" by fastforce
  have "y = Some x" "live s'" "concat s' = concat (map enc xs) @ rest"
    using recv_enc [of x s "concat (map enc xs) @ rest"] Cons.prems r by auto
  with Cons.IH [of s'] Cons.prems(1) r show ?case by (auto split: prod.splits)
qed simp

text \<open>The cut of the stream into pieces does not matter.\<close>

lemma recv_pieces:
  "ok x \<Longrightarrow> live s \<Longrightarrow> live s' \<Longrightarrow> concat s = enc x @ rest \<Longrightarrow> concat s' = enc x @ rest' \<Longrightarrow>
   fst (recv s) = fst (recv s')"
  using recv_enc by metis

end

text \<open>A 32-bit number in network byte order: the port from the master, the player id from the room.\<close>

definition read_u32 :: "rx \<Rightarrow> u32 option \<times> rx" where
  "read_u32 s = (case read_bytes 4 s of (r, s') \<Rightarrow> (map_option from_be32 r, s'))"

interpretation word: framed be32 read_u32 "\<lambda>_. True" 4
proof (unfold_locales, goal_cases)
  case (2 x s rest)
  from read_bytes_ok [OF 2(2,3) be32_length] obtain s' where
    "read_bytes 4 s = (Some (be32 x), s')" "live s'" "concat s' = rest" .
  then show ?case by (simp add: read_u32_def)
next
  case (3 s) then show ?case by (simp add: read_u32_def read_bytes_short)
qed simp

definition encode_message :: "Message \<Rightarrow> u8 list" where
  "encode_message m = be32 (source_id m) @ be32 (msg_len m) @ be32 (msg_type m) @ msg_content m"

definition recv_message :: "Message \<Rightarrow> rx \<Rightarrow> Message option \<times> rx" where
  "recv_message m0 s = (case receive_message_tcp s m0 of (ok, m, s') \<Rightarrow> (if ok then Some m else None, s'))"

lemma receive_message_enc:
  assumes "message_wf m" and "live s" and "concat s = encode_message m @ rest"
  obtains s' where "receive_message_tcp s m0 = (True, m, s')" and "live s'" and "concat s' = rest"
proof -
  have "concat s = be32 (source_id m) @ (be32 (msg_len m) @ be32 (msg_type m) @ msg_content m @ rest)"
    using assms(3) by (simp add: encode_message_def)
  from read_bytes_ok [OF assms(2) this be32_length] obtain s1 where
    1: "read_bytes 4 s = (Some (be32 (source_id m)), s1)" "live s1"
       "concat s1 = be32 (msg_len m) @ (be32 (msg_type m) @ msg_content m @ rest)" by auto
  from read_bytes_ok [OF 1(2,3) be32_length] obtain s2 where
    2: "read_bytes 4 s1 = (Some (be32 (msg_len m)), s2)" "live s2"
       "concat s2 = be32 (msg_type m) @ (msg_content m @ rest)" by auto
  from read_bytes_ok [OF 2(2,3) be32_length] obtain s3 where
    3: "read_bytes 4 s2 = (Some (be32 (msg_type m)), s3)" "live s3" "concat s3 = msg_content m @ rest" by auto
  from read_bytes_ok [OF 3(2,3)] assms(1) obtain s4 where
    4: "read_bytes MSG_CONTENT_LENGTH s3 = (Some (msg_content m), s4)" "live s4" "concat s4 = rest"
    by (auto simp: message_wf_def)
  have "receive_message_tcp s m0 = (True, m, s4)"
    by (simp add: receive_message_tcp_def 1(1) 2(1) 3(1) 4(1))
  then show ?thesis using 4(2,3) by (rule that)
qed

lemma read_bytes_cases:
  assumes "live s" and "length (concat s) < n + k"
  obtains (short) "read_bytes n s = (None, [])"
    | (more) b s' where "read_bytes n s = (Some b, s')" and "live s'" and "length (concat s') < k"
proof (cases "length (concat s) < n")
  case True
  then show ?thesis using read_bytes_short assms(1) short by blast
next
  case False
  then have "length (take n (concat s)) = n" by simp
  from read_bytes_ok [OF assms(1) append_take_drop_id [symmetric] this] obtain s' where
    "read_bytes n s = (Some (take n (concat s)), s')" "live s'" "concat s' = drop n (concat s)" .
  then show ?thesis using assms(2) False by (intro more [of "take n (concat s)" s']) auto
qed

lemma receive_message_short:
  assumes "live s" and "length (concat s) < 2060"
  shows "\<exists>m. receive_message_tcp s m0 = (False, m, [])"
proof -
  have a: "length (concat s) < 4 + 2056" using assms(2) by simp
  from assms(1) a show ?thesis
  proof (cases rule: read_bytes_cases)
    case short then show ?thesis by (simp add: receive_message_tcp_def)
  next
    case 1: (more b1 s1)
    have b: "length (concat s1) < 4 + 2052" using 1(3) by simp
    from 1(2) b show ?thesis
    proof (cases rule: read_bytes_cases)
      case short then show ?thesis by (simp add: receive_message_tcp_def 1(1))
    next
      case 2: (more b2 s2)
      have c: "length (concat s2) < 4 + 2048" using 2(3) by simp
      from 2(2) c show ?thesis
      proof (cases rule: read_bytes_cases)
        case short then show ?thesis by (simp add: receive_message_tcp_def 1(1) 2(1))
      next
        case 3: (more b3 s3)
        have "read_bytes MSG_CONTENT_LENGTH s3 = (None, [])"
          using read_bytes_short [OF 3(2)] 3(3) by (simp add: MSG_CONTENT_LENGTH_def)
        then show ?thesis by (simp add: receive_message_tcp_def 1(1) 2(1) 3(1))
      qed
    qed
  qed
qed

interpretation msg: framed encode_message "recv_message m0" message_wf 2060
proof (unfold_locales, goal_cases)
  case (1 x) then show ?case by (simp add: encode_message_def message_wf_def MSG_CONTENT_LENGTH_def)
next
  case (2 x s rest)
  from receive_message_enc [OF 2] obtain s' where
    "receive_message_tcp s m0 = (True, x, s')" "live s'" "concat s' = rest" .
  then show ?case by (simp add: recv_message_def)
next
  case (3 s)
  then show ?case using receive_message_short [OF 3, of m0] by (auto simp: recv_message_def)
qed

section \<open>Datagrams\<close>

lemma le32_length [simp]: "length (le32 w) = 4"
  by (simp add: le32_def)

lemma from_le32_le32 [simp]: "from_le32 (le32 w) = w"
  by (simp add: from_le32_def le32_def)

lemma message_image_length: "message_wf m \<Longrightarrow> length (message_image m) = 2060"
  by (simp add: message_image_def message_wf_def MSG_CONTENT_LENGTH_def)

lemma image_message_image: "message_wf m \<Longrightarrow> image_message (message_image m) = m"
  by (simp add: image_message_def message_image_def message_wf_def)

lemma image_message_wf: "length bs = 2060 \<Longrightarrow> message_wf (image_message bs)"
  by (simp add: image_message_def message_wf_def MSG_CONTENT_LENGTH_def)

text \<open>A whole datagram overwrites everything the stack held.\<close>

lemma datagram_roundtrip:
  "message_wf m \<Longrightarrow> length stack = 2060 \<Longrightarrow> receive_message_udp stack (Some (message_image m)) m0 = (True, m)"
  using message_image_length [of m]
  by (simp add: receive_message_udp_def mem_write_def MSG_CONTENT_LENGTH_def image_message_image)

lemma receive_udp_wf:
  "length stack = 2060 \<Longrightarrow> message_wf m0 \<Longrightarrow> message_wf (snd (receive_message_udp stack d m0))"
  by (auto simp: receive_message_udp_def MSG_CONTENT_LENGTH_def intro!: image_message_wf split: option.splits)

section \<open>Properties\<close>

fun send_messages :: "Message list \<Rightarrow> tx \<Rightarrow> bool \<times> tx" where
  "send_messages [] t = (True, t)"
| "send_messages (m # ms) t =
     (case send_message_tcp m t of
        (False, t') \<Rightarrow> (False, t')
      | (True, t') \<Rightarrow> send_messages ms t')"

lemma send_messages_wire:
  "send_messages ms t = (True, t') \<Longrightarrow> tx_wire t' = tx_wire t @ concat (map encode_message ms)"
  by (induction ms arbitrary: t)
    (auto simp: encode_message_def dest!: send_message_wire split: prod.splits bool.splits)

lemma send_messages_live:
  "\<forall>m \<in> set ms. message_wf m \<Longrightarrow> 0 \<notin> set (tx_plan t) \<Longrightarrow> 2060 * length ms \<le> length (tx_plan t)
   \<Longrightarrow> \<exists>t'. send_messages ms t = (True, t')"
proof (induction ms arbitrary: t)
  case (Cons m ms)
  have wf: "message_wf m" and wfs: "\<forall>m \<in> set ms. message_wf m" using Cons.prems(1) by auto
  have n: "2060 + 2060 * length ms \<le> length (tx_plan t)" using Cons.prems(3) by simp
  from send_message_liveE [OF wf Cons.prems(2) n] obtain t1 where
    1: "send_message_tcp m t = (True, t1)" "0 \<notin> set (tx_plan t1)" "2060 * length ms \<le> length (tx_plan t1)" .
  from Cons.IH [OF wfs 1(2,3)] 1(1) show ?case by auto
qed simp

text \<open>
  C13 (messages_framed): whatever number of bytes each \<open>send\<close> accepts (as long as none is refused) and however the
  stream is cut into pieces on the other side, the messages written one after the other by
  \<open>send_message_tcp\<close> are all sent, and \<open>receive_message_tcp\<close> reads back the same messages in the same order, field for field, and
  leaves the bytes that follow them unread.
\<close>

theorem messages_framed:
  assumes "\<forall>m \<in> set ms. message_wf m"
    and "0 \<notin> set (tx_plan t)" and "2060 * length ms \<le> length (tx_plan t)"
  shows "\<exists>t' out. send_messages ms t = (True, t') \<and> tx_wire t' = tx_wire t @ out
     \<and> (\<forall>s rest m0. live s \<and> concat s = out @ rest \<longrightarrow>
           fst (recv_many (recv_message m0) (length ms) s) = Some ms
         \<and> concat (snd (recv_many (recv_message m0) (length ms) s)) = rest)"
proof -
  from send_messages_live [OF assms] obtain t' where t': "send_messages ms t = (True, t')" by blast
  show ?thesis
    by (intro exI [of _ t'] exI [of _ "concat (map encode_message ms)"])
      (use t' send_messages_wire [OF t'] msg.recv_many_enc [OF assms(1)] in blast)
qed

theorem messages_framed_witness:
  "\<exists>t' out. send_messages [\<lparr>source_id = 1, msg_len = 3, msg_type = 7, msg_content = replicate 2048 9\<rparr>]
        \<lparr>tx_plan = replicate 2060 5, tx_wire = []\<rparr> = (True, t') \<and> tx_wire t' = out
     \<and> (\<forall>s rest m0. live s \<and> concat s = out @ rest \<longrightarrow>
           fst (recv_many (recv_message m0) 1 s)
             = Some [\<lparr>source_id = 1, msg_len = 3, msg_type = 7, msg_content = replicate 2048 9\<rparr>]
         \<and> concat (snd (recv_many (recv_message m0) 1 s)) = rest)"
  using messages_framed [of "[\<lparr>source_id = 1, msg_len = 3, msg_type = 7, msg_content = replicate 2048 9\<rparr>]"
      "\<lparr>tx_plan = replicate 2060 5, tx_wire = []\<rparr>"]
  by (simp add: message_wf_def MSG_CONTENT_LENGTH_def del: recv_many.simps send_messages.simps)

text \<open>
  Lemma (cut_message_refused): a connection that ends, or whose peer stops, before the last byte of a message makes
  \<open>receive_message_tcp\<close> return -1 and consume what was there; a part of a message is never taken for a message.
\<close>

theorem cut_message_refused:
  assumes "message_wf m" and "k < length (encode_message m)" and "live s" and "concat s = take k (encode_message m)"
  shows "fst (receive_message_tcp s m0) = False \<and> snd (snd (receive_message_tcp s m0)) = []"
proof -
  have "length (concat s) < 2060" using assms msg.enc_width [OF assms(1)] by simp
  from receive_message_short [OF assms(3) this, of m0] show ?thesis by auto
qed

theorem cut_message_refused_witness:
  "fst (receive_message_tcp [[0, 0, 0], [1, 0, 0, 0, 0, 0]]
     \<lparr>source_id = 0, msg_len = 0, msg_type = 0, msg_content = []\<rparr>) = False"
  using cut_message_refused [of "\<lparr>source_id = 1, msg_len = 0, msg_type = 0, msg_content = replicate 2048 0\<rparr>" 9
      "[[0, 0, 0], [1, 0, 0, 0, 0, 0]]" "\<lparr>source_id = 0, msg_len = 0, msg_type = 0, msg_content = []\<rparr>"]
  by (simp add: message_wf_def MSG_CONTENT_LENGTH_def live_def encode_message_def be32_def)

end
