(* ===== verification/Client_List.thy ===== *)
theory Client_List
  imports Message
begin

text \<open>
  Endpoints and the server's list of clients: \<open>libbattleroyale/common.c\<close> and \<open>clientll.c\<close>.

  The chain of nodes is the list of the endpoints stored in them. An endpoint owns the \<open>Sockets\<close> structure its \<open>socks\<close>
  pointer leads to; \<open>None\<close> is the NULL pointer, and an operation that would follow it is itself \<open>None\<close>. The operations
  that close descriptors return the list of descriptors they closed.
\<close>

section \<open>Sockets and endpoints\<close>

record Sockets =
  tcp :: int
  udp_uni :: int
  udp_broad :: int

datatype EndpointState = IDLE | LOBBY | GAME | END

record Endpoint =
  ep_id :: u32
  ep_state :: EndpointState
  ep_socks :: "Sockets option"
  ep_sesskey :: "u8 list"

definition check_sockets :: "Sockets \<Rightarrow> int" where
  "check_sockets s =
     (if \<not> tcp s > 0 then 0 else if \<not> udp_uni s > 0 then 0 else if \<not> udp_broad s > 0 then 0 else 1)"

definition close_sockets :: "Sockets \<Rightarrow> int \<times> Sockets \<times> int list" where
  "close_sockets s =
     (if check_sockets s = 0 then (-1, s, [])
      else (0, \<lparr>tcp = -1, udp_uni = -1, udp_broad = -1\<rparr>, [tcp s, udp_uni s, udp_broad s]))"

definition free_sockets :: "Sockets option \<Rightarrow> (int \<times> Sockets option \<times> int list) option" where
  "free_sockets p =
     (case p of
        None \<Rightarrow> None
      | Some s \<Rightarrow> (case close_sockets s of
          (r, s', closed) \<Rightarrow> Some (if r \<noteq> 0 then (-1, Some s', closed) else (0, None, closed))))"

text \<open>The three results of \<open>socket()\<close> are inputs.\<close>

definition create_sockets :: "int \<Rightarrow> int \<Rightarrow> int \<Rightarrow> (Sockets option \<times> int list)" where
  "create_sockets t u b =
     (if t < 0 then (None, [])
      else if u < 0 then (None, [t])
      else if b < 0 then (None, [t, u])
      else (Some \<lparr>tcp = t, udp_uni = u, udp_broad = b\<rparr>, []))"

text \<open>\<open>sesskey\<close> is not set by \<open>create_endpoint\<close>: it is whatever the fresh memory holds.\<close>

definition create_endpoint :: "u8 list \<Rightarrow> int \<Rightarrow> int \<Rightarrow> int \<Rightarrow> Endpoint option \<times> int list" where
  "create_endpoint mem t u b =
     (case create_sockets t u b of
        (None, closed) \<Rightarrow> (None, closed)
      | (Some s, closed) \<Rightarrow> (Some \<lparr>ep_id = 0, ep_state = IDLE, ep_socks = Some s, ep_sesskey = mem\<rparr>, closed))"

definition free_endpoint :: "Endpoint \<Rightarrow> (int \<times> Endpoint option \<times> int list) option" where
  "free_endpoint e =
     (case free_sockets (ep_socks e) of
        None \<Rightarrow> None
      | Some (r, p, closed) \<Rightarrow>
          Some (if r < 0 then (-1, Some (e\<lparr>ep_socks := p\<rparr>), closed) else (0, None, closed)))"

section \<open>The list\<close>

record ClientLinkedList =
  ll_nodes :: "Endpoint list"
  ll_count :: u32

definition initalise_list :: ClientLinkedList where
  "initalise_list = \<lparr>ll_nodes = [], ll_count = 0\<rparr>"

definition UINT32_MAX :: u32 where
  "UINT32_MAX = 4294967295"

text \<open>The walk to the last node, and the node hung behind it.\<close>

fun append_node :: "Endpoint list \<Rightarrow> Endpoint \<Rightarrow> Endpoint list" where
  "append_node [] e = [e]"
| "append_node [last_slot] e = [last_slot, e]"
| "append_node (slot # slot' # rest) e = slot # append_node (slot' # rest) e"

definition add_to_list :: "ClientLinkedList \<Rightarrow> Endpoint \<Rightarrow> int \<times> ClientLinkedList" where
  "add_to_list l e =
     (if ll_count l = UINT32_MAX then (-1, l)
      else (0, l\<lparr>ll_nodes := append_node (ll_nodes l) e, ll_count := ll_count l + 1\<rparr>))"

text \<open>
  The search behind the head: \<open>checking\<close> is the node before the candidate, and it is \<open>checking\<close>'s sockets that are
  freed when the candidate is unlinked.
\<close>

fun remove_next :: "Endpoint \<Rightarrow> Endpoint list \<Rightarrow> u32 \<Rightarrow> (bool \<times> Endpoint list \<times> int list) option" where
  "remove_next checking [] i = Some (False, [checking], [])"
| "remove_next checking (next # rest) i =
     (if ep_id next = i then
        (case free_sockets (ep_socks checking) of
           None \<Rightarrow> None
         | Some (_, p, closed) \<Rightarrow> Some (True, checking\<lparr>ep_socks := p\<rparr> # rest, closed))
      else
        (case remove_next next rest i of
           None \<Rightarrow> None
         | Some (found, ns, closed) \<Rightarrow> Some (found, checking # ns, closed)))"

definition remove_from_list :: "ClientLinkedList \<Rightarrow> u32 \<Rightarrow> (int \<times> ClientLinkedList \<times> int list) option" where
  "remove_from_list l i =
     (case ll_nodes l of
        [] \<Rightarrow> Some (-1, l, [])
      | head # rest \<Rightarrow>
          if ep_id head = i then
            (case free_sockets (ep_socks head) of
               None \<Rightarrow> None
             | Some (_, _, closed) \<Rightarrow> Some (0, l\<lparr>ll_nodes := rest, ll_count := ll_count l - 1\<rparr>, closed))
          else
            (case remove_next head rest i of
               None \<Rightarrow> None
             | Some (True, ns, closed) \<Rightarrow> Some (0, l\<lparr>ll_nodes := ns, ll_count := ll_count l - 1\<rparr>, closed)
             | Some (False, ns, closed) \<Rightarrow> Some (-1, l, closed)))"

fun find_node :: "Endpoint list \<Rightarrow> u32 \<Rightarrow> Endpoint option" where
  "find_node [] i = None"
| "find_node (checking # rest) i = (if ep_id checking = i then Some checking else find_node rest i)"

definition get_from_list :: "ClientLinkedList \<Rightarrow> u32 \<Rightarrow> Endpoint option" where
  "get_from_list l i = find_node (ll_nodes l) i"

text \<open>
  \<open>get_id_array\<close> allocates \<open>count\<close> entries and writes one per node; \<open>None\<close> is a write past the array.
\<close>

definition get_id_array :: "ClientLinkedList \<Rightarrow> (int \<times> u32 list) option" where
  "get_id_array l =
     (if ll_nodes l = [] then Some (-1, [])
      else if unat (ll_count l) < length (ll_nodes l) then None
      else Some (0, map ep_id (ll_nodes l)))"

fun free_nodes :: "Endpoint list \<Rightarrow> (int \<times> int list) option" where
  "free_nodes [] = Some (0, [])"
| "free_nodes (current # rest) =
     (case ep_socks current of
        None \<Rightarrow> None
      | Some s \<Rightarrow> (case close_sockets s of
          (r, _, closed) \<Rightarrow>
            if r < 0 then Some (-1, [])
            else map_option (\<lambda>(r', closed'). (r', closed @ closed')) (free_nodes rest)))"

definition free_list :: "ClientLinkedList \<Rightarrow> (int \<times> int list) option" where
  "free_list l = (if ll_nodes l = [] then Some (0, []) else free_nodes (ll_nodes l))"

section \<open>Lemmas\<close>

definition list_wf :: "ClientLinkedList \<Rightarrow> bool" where
  "list_wf l \<longleftrightarrow> unat (ll_count l) = length (ll_nodes l)"

lemma append_node_eq [simp]: "append_node ns e = ns @ [e]"
  by (induction ns e rule: append_node.induct) simp_all

lemma find_node_find: "find_node ns i = find (\<lambda>e. ep_id e = i) ns"
  by (induction ns) simp_all

lemma initalise_list_wf: "list_wf initalise_list"
  by (simp add: list_wf_def initalise_list_def)

lemma add_to_list_ok:
  assumes "list_wf l" and "length (ll_nodes l) < 4294967295"
  shows "fst (add_to_list l e) = 0 \<and> ll_nodes (snd (add_to_list l e)) = ll_nodes l @ [e] \<and> list_wf (snd (add_to_list l e))"
proof -
  have "ll_count l \<noteq> UINT32_MAX" using assms by (auto simp: list_wf_def UINT32_MAX_def)
  moreover have "unat (ll_count l + 1) = Suc (length (ll_nodes l))"
    using assms by (simp add: list_wf_def unat_word_ariths)
  ultimately show ?thesis by (simp add: add_to_list_def list_wf_def)
qed

lemma add_to_list_full: "list_wf l \<Longrightarrow> length (ll_nodes l) = 4294967295 \<Longrightarrow> add_to_list l e = (-1, l)"
proof -
  assume a: "list_wf l" "length (ll_nodes l) = 4294967295"
  then have "ll_count l = UINT32_MAX" by (simp add: list_wf_def UINT32_MAX_def word_unat_eq_iff)
  then show ?thesis by (simp add: add_to_list_def)
qed

section \<open>The interface of the client registry\<close>

text \<open>What the server relies on: clients are appended, and a lookup by id finds the first client with that id.\<close>

fun add_all :: "('l \<Rightarrow> 'c \<Rightarrow> int \<times> 'l) \<Rightarrow> 'l \<Rightarrow> 'c list \<Rightarrow> 'l" where
  "add_all add l [] = l"
| "add_all add l (c # cs) = add_all add (snd (add l c)) cs"

locale registry =
  fixes add :: "'l \<Rightarrow> 'c \<Rightarrow> int \<times> 'l" and get :: "'l \<Rightarrow> u32 \<Rightarrow> 'c option" and key :: "'c \<Rightarrow> u32"
    and clients :: "'l \<Rightarrow> 'c list" and invar :: "'l \<Rightarrow> bool" and capacity :: nat
  assumes add_ok: "invar l \<Longrightarrow> length (clients l) < capacity \<Longrightarrow>
        fst (add l c) = 0 \<and> clients (snd (add l c)) = clients l @ [c] \<and> invar (snd (add l c))"
    and add_full: "invar l \<Longrightarrow> length (clients l) = capacity \<Longrightarrow> add l c = (-1, l)"
    and get_first: "invar l \<Longrightarrow> get l i = find (\<lambda>c. key c = i) (clients l)"
begin

lemma add_all_clients:
  "invar l \<Longrightarrow> length (clients l) + length cs \<le> capacity \<Longrightarrow>
   clients (add_all add l cs) = clients l @ cs \<and> invar (add_all add l cs)"
proof (induction cs arbitrary: l)
  case (Cons c cs)
  then show ?case using add_ok [of l c] by simp
qed simp

lemma find_distinct:
  "distinct (map key cs) \<Longrightarrow> c \<in> set cs \<Longrightarrow> find (\<lambda>x. key x = key c) cs = Some c"
  by (induction cs) (auto simp: image_iff)

lemma all_found:
  assumes "invar l" and "clients l = []" and "distinct (map key cs)" and "length cs \<le> capacity" and "c \<in> set cs"
  shows "get (add_all add l cs) (key c) = Some c"
  using add_all_clients [OF assms(1), of cs] assms by (simp add: get_first find_distinct)

text \<open>A new client whose id is not in use is found, and the others are still found.\<close>

lemma get_add:
  assumes "invar l" and "length (clients l) < capacity" and "key c \<notin> key ` set (clients l)"
  shows "get (snd (add l c)) i = (if i = key c then Some c else get l i)"
proof -
  have app: "find (\<lambda>x. key x = i) (xs @ [c]) = (case find (\<lambda>x. key x = i) xs of
      None \<Rightarrow> if key c = i then Some c else None | Some x \<Rightarrow> Some x)" for xs
    by (induction xs) auto
  have "find (\<lambda>x. key x = key c) (clients l) = None" using assms(3) by (auto simp: find_None_iff image_iff)
  then show ?thesis using add_ok [OF assms(1,2), of c] assms(1) app [of "clients l"]
    by (auto simp: get_first split: option.splits)
qed

end

interpretation cl: registry add_to_list get_from_list ep_id ll_nodes list_wf 4294967295
  by unfold_locales (use add_to_list_ok add_to_list_full in \<open>auto simp: get_from_list_def find_node_find\<close>)

section \<open>Removal and release\<close>

definition owned :: "Endpoint \<Rightarrow> int list" where
  "owned e = (case ep_socks e of None \<Rightarrow> [] | Some s \<Rightarrow> [tcp s, udp_uni s, udp_broad s])"

definition has_sockets :: "Endpoint \<Rightarrow> bool" where
  "has_sockets e \<longleftrightarrow> (\<exists>s. ep_socks e = Some s \<and> check_sockets s = 1)"

lemma free_sockets_ok: "has_sockets e \<Longrightarrow> free_sockets (ep_socks e) = Some (0, None, owned e)"
  by (auto simp: has_sockets_def free_sockets_def close_sockets_def owned_def)

lemma remove_next_found:
  assumes "has_sockets (last (c # pre))" and "ep_id v = i" and "i \<notin> ep_id ` set pre"
  shows "remove_next c (pre @ v # post) i =
    Some (True, butlast (c # pre) @ (last (c # pre))\<lparr>ep_socks := None\<rparr> # post, owned (last (c # pre)))"
  using assms
proof (induction pre arbitrary: c)
  case Nil
  then show ?case by (simp add: free_sockets_ok)
next
  case (Cons d pre)
  then show ?case using Cons.IH [of d] by auto
qed

lemma remove_head:
  "ll_nodes l = v # post \<Longrightarrow> has_sockets v \<Longrightarrow>
   remove_from_list l (ep_id v) = Some (0, l\<lparr>ll_nodes := post, ll_count := ll_count l - 1\<rparr>, owned v)"
  by (simp add: remove_from_list_def free_sockets_ok)

lemma remove_missing:
  assumes "i \<notin> ep_id ` set (ll_nodes l)"
  shows "remove_from_list l i = Some (-1, l, [])"
proof -
  have "i \<notin> ep_id ` set ns \<Longrightarrow> remove_next c ns i = Some (False, c # ns, [])" for c ns
    by (induction ns arbitrary: c) auto
  then show ?thesis using assms by (auto simp: remove_from_list_def split: list.splits)
qed

lemma free_nodes_ok:
  "\<forall>e \<in> set ns. has_sockets e \<Longrightarrow> free_nodes ns = Some (0, concat (map owned ns))"
  by (induction ns) (auto simp: has_sockets_def close_sockets_def owned_def)

lemma free_nodes_stops:
  "\<forall>e \<in> set pre. has_sockets e \<Longrightarrow> ep_socks v = Some s \<Longrightarrow> check_sockets s = 0
   \<Longrightarrow> free_nodes (pre @ v # post) = Some (-1, concat (map owned pre))"
  by (induction pre) (auto simp: has_sockets_def close_sockets_def owned_def)

section \<open>Properties\<close>

text \<open>
  Lemma (remove_closes_neighbour): removing a client that is not the head takes exactly that client out of the list and
  counts it out, but the descriptors that are closed are those of the client before it, whose \<open>socks\<close> pointer is left NULL;
  none of the removed client's own descriptors is closed.
\<close>

theorem remove_closes_neighbour:
  assumes "ll_nodes l = pre @ u # v # post" and "ep_id v \<notin> ep_id ` set (pre @ [u])" and "has_sockets u"
  shows "remove_from_list l (ep_id v) =
    Some (0, l\<lparr>ll_nodes := pre @ u\<lparr>ep_socks := None\<rparr> # post, ll_count := ll_count l - 1\<rparr>, owned u)"
proof (cases pre)
  case Nil
  then show ?thesis using assms remove_next_found [of u "[]" v "ep_id v" post] by (auto simp: remove_from_list_def)
next
  case (Cons h pre')
  have r: "remove_next h ((pre' @ [u]) @ v # post) (ep_id v)
      = Some (True, (h # pre') @ u\<lparr>ep_socks := None\<rparr> # post, owned u)"
    using assms Cons remove_next_found [of h "pre' @ [u]" v "ep_id v" post] by (simp add: butlast_append)
  have e: "pre' @ u # v # post = (pre' @ [u]) @ v # post" by simp
  have "ep_id h \<noteq> ep_id v" using assms(2) Cons by auto
  then show ?thesis using assms(1) Cons r unfolding remove_from_list_def e by simp
qed

theorem remove_closes_neighbour_witness:
  "remove_from_list
     \<lparr>ll_nodes = [\<lparr>ep_id = 1, ep_state = IDLE, ep_socks = Some \<lparr>tcp = 5, udp_uni = 6, udp_broad = 7\<rparr>, ep_sesskey = []\<rparr>,
                  \<lparr>ep_id = 2, ep_state = IDLE, ep_socks = Some \<lparr>tcp = 8, udp_uni = 9, udp_broad = 10\<rparr>, ep_sesskey = []\<rparr>],
      ll_count = 2\<rparr> 2
   = Some (0, \<lparr>ll_nodes = [\<lparr>ep_id = 1, ep_state = IDLE, ep_socks = None, ep_sesskey = []\<rparr>], ll_count = 1\<rparr>, [5, 6, 7])"
  using remove_closes_neighbour [of
     "\<lparr>ll_nodes = [\<lparr>ep_id = 1, ep_state = IDLE, ep_socks = Some \<lparr>tcp = 5, udp_uni = 6, udp_broad = 7\<rparr>, ep_sesskey = []\<rparr>,
                  \<lparr>ep_id = 2, ep_state = IDLE, ep_socks = Some \<lparr>tcp = 8, udp_uni = 9, udp_broad = 10\<rparr>, ep_sesskey = []\<rparr>],
      ll_count = 2\<rparr>" "[]"
     "\<lparr>ep_id = 1, ep_state = IDLE, ep_socks = Some \<lparr>tcp = 5, udp_uni = 6, udp_broad = 7\<rparr>, ep_sesskey = []\<rparr>"
     "\<lparr>ep_id = 2, ep_state = IDLE, ep_socks = Some \<lparr>tcp = 8, udp_uni = 9, udp_broad = 10\<rparr>, ep_sesskey = []\<rparr>" "[]"]
  by (simp add: has_sockets_def check_sockets_def owned_def)

end
