(* ===== verification/Session_Crypto.thy ===== *)
theory Session_Crypto
  imports Message "HOL-Library.Monad_Syntax"
begin

text \<open>
  Cryptographic wrappers of the transport: \<open>libbattleroyale/crypto.c\<close>.

  OpenSSL is a parameter: the record \<open>openssl\<close> holds the library functions the wrappers call, with \<open>None\<close> for a call that
  fails, over abstract keys \<open>'k\<close> (\<open>EVP_PKEY\<close>), certificates \<open>'x\<close> (\<open>X509\<close>), cipher contexts \<open>'c\<close> and digest or key
  contexts \<open>'m\<close>. The random bytes are inputs, \<open>None\<close> when \<open>RAND_bytes\<close> fails. What the theorems use of the library
  is stated as hypotheses: \<open>aes_law\<close>, \<open>hmac_law\<close>, \<open>pss_law\<close>, \<open>rsa_law\<close> and \<open>pem_law\<close>.
\<close>

section \<open>The library functions that are called\<close>

datatype rsa_padding = RSA_PKCS1_PADDING | RSA_PKCS1_OAEP_PADDING | RSA_PKCS1_PSS_PADDING

record ('k, 'x, 'c, 'm) openssl =
  EncryptInit :: "u8 list \<Rightarrow> u8 list \<Rightarrow> 'c option"
  EncryptUpdate :: "'c \<Rightarrow> u8 list \<Rightarrow> ('c \<times> u8 list) option"
  EncryptFinal :: "'c \<Rightarrow> u8 list option"
  DecryptInit :: "u8 list \<Rightarrow> u8 list \<Rightarrow> 'c option"
  DecryptUpdate :: "'c \<Rightarrow> u8 list \<Rightarrow> ('c \<times> u8 list) option"
  DecryptFinal :: "'c \<Rightarrow> u8 list option"
  HMAC_sha256 :: "u8 list \<Rightarrow> u8 list \<Rightarrow> u8 list option"
  DigestSignInit :: "'k \<Rightarrow> 'm option"
  DigestVerifyInit :: "'k \<Rightarrow> 'm option"
  encrypt_init :: "'k \<Rightarrow> 'm option"
  decrypt_init :: "'k \<Rightarrow> 'm option"
  set_rsa_padding :: "rsa_padding \<Rightarrow> 'm \<Rightarrow> 'm option"
  set_rsa_pss_saltlen_max :: "'m \<Rightarrow> 'm option"
  set_rsa_oaep_md :: "'m \<Rightarrow> 'm option"
  set_rsa_mgf1_md :: "'m \<Rightarrow> 'm option"
  DigestUpdate :: "'m \<Rightarrow> u8 list \<Rightarrow> 'm option"
  DigestSignFinal :: "'m \<Rightarrow> u8 list option"
  DigestVerifyFinal :: "'m \<Rightarrow> u8 list \<Rightarrow> int"
  PKEY_encrypt :: "'m \<Rightarrow> u8 list \<Rightarrow> u8 list option"
  PKEY_decrypt :: "'m \<Rightarrow> u8 list \<Rightarrow> u8 list option"
  PEM_read_PrivateKey :: "u8 list \<Rightarrow> 'k option"
  PEM_read_X509 :: "u8 list \<Rightarrow> 'x option"
  PEM_write_X509 :: "'x \<Rightarrow> u8 list"
  X509_get_pubkey :: "'x \<Rightarrow> 'k option"
  X509_verify_cert :: "'x \<Rightarrow> 'x \<Rightarrow> int"

section \<open>Constants\<close>

definition AES_KEY_LEN :: nat where "AES_KEY_LEN = 16"
definition AES_IV_LEN :: nat where "AES_IV_LEN = 16"
definition AES_BLOCK :: nat where "AES_BLOCK = 16"
definition HMAC_KEY_LEN :: nat where "HMAC_KEY_LEN = 16"
definition HMAC_LEN :: nat where "HMAC_LEN = 32"
definition SESSION_KEY_LEN :: nat where "SESSION_KEY_LEN = HMAC_KEY_LEN + AES_KEY_LEN"
definition MAX_APP_PAYLOAD_LEN :: nat where
  "MAX_APP_PAYLOAD_LEN = MSG_CONTENT_LENGTH - AES_IV_LEN - HMAC_LEN - AES_BLOCK"
definition NONCE_LEN :: nat where "NONCE_LEN = 8"

lemmas crypto_lens = AES_KEY_LEN_def AES_IV_LEN_def AES_BLOCK_def HMAC_KEY_LEN_def HMAC_LEN_def
  SESSION_KEY_LEN_def MAX_APP_PAYLOAD_LEN_def NONCE_LEN_def MSG_CONTENT_LENGTH_def

section \<open>Keys and certificates\<close>

text \<open>Files: the contents of a file that can be opened.\<close>

type_synonym files = "string \<Rightarrow> u8 list option"

definition load_private_key :: "('k, 'x, 'c, 'm) openssl \<Rightarrow> files \<Rightarrow> string \<Rightarrow> 'k option" where
  "load_private_key ssl fs filename = do { pem \<leftarrow> fs filename; PEM_read_PrivateKey ssl pem }"

definition load_cert_file :: "('k, 'x, 'c, 'm) openssl \<Rightarrow> files \<Rightarrow> string \<Rightarrow> 'x option" where
  "load_cert_file ssl fs filename = do { pem \<leftarrow> fs filename; PEM_read_X509 ssl pem }"

definition load_cert_bytes :: "('k, 'x, 'c, 'm) openssl \<Rightarrow> u8 list \<Rightarrow> nat \<Rightarrow> 'x option" where
  "load_cert_bytes ssl data len = PEM_read_X509 ssl (take len data)"

definition verify_server_cert :: "('k, 'x, 'c, 'm) openssl \<Rightarrow> files \<Rightarrow> 'x \<Rightarrow> string \<Rightarrow> int" where
  "verify_server_cert ssl fs server_cert ca_cert_path =
     (case load_cert_file ssl fs ca_cert_path of
        None \<Rightarrow> 0
      | Some ca_cert \<Rightarrow> if X509_verify_cert ssl ca_cert server_cert = 1 then 1 else 0)"

section \<open>Signatures\<close>

definition sign_message_pss :: "('k, 'x, 'c, 'm) openssl \<Rightarrow> 'k \<Rightarrow> u8 list \<Rightarrow> u8 list option" where
  "sign_message_pss ssl priv_key msg = do {
     m1 \<leftarrow> DigestSignInit ssl priv_key;
     m2 \<leftarrow> set_rsa_padding ssl RSA_PKCS1_PSS_PADDING m1;
     m3 \<leftarrow> set_rsa_pss_saltlen_max ssl m2;
     m4 \<leftarrow> DigestUpdate ssl m3 msg;
     DigestSignFinal ssl m4 }"

definition verify_message_pss :: "('k, 'x, 'c, 'm) openssl \<Rightarrow> 'x \<Rightarrow> u8 list \<Rightarrow> u8 list \<Rightarrow> int" where
  "verify_message_pss ssl cert sig msg =
     (case (do {
        pub_key \<leftarrow> X509_get_pubkey ssl cert;
        m1 \<leftarrow> DigestVerifyInit ssl pub_key;
        m2 \<leftarrow> set_rsa_padding ssl RSA_PKCS1_PSS_PADDING m1;
        m3 \<leftarrow> set_rsa_pss_saltlen_max ssl m2;
        DigestUpdate ssl m3 msg }) of
        None \<Rightarrow> 0
      | Some m4 \<Rightarrow> if DigestVerifyFinal ssl m4 sig = 1 then 1 else 0)"

section \<open>Encryption with the public key\<close>

definition rsa_prepare :: "('k, 'x, 'c, 'm) openssl \<Rightarrow> bool \<Rightarrow> 'm \<Rightarrow> 'm option" where
  "rsa_prepare ssl use_oaep m =
     (if use_oaep then do {
        m1 \<leftarrow> set_rsa_padding ssl RSA_PKCS1_OAEP_PADDING m;
        m2 \<leftarrow> set_rsa_oaep_md ssl m1;
        set_rsa_mgf1_md ssl m2 }
      else set_rsa_padding ssl RSA_PKCS1_PADDING m)"

definition rsa_encrypt_block :: "('k, 'x, 'c, 'm) openssl \<Rightarrow> 'k \<Rightarrow> u8 list \<Rightarrow> bool \<Rightarrow> u8 list option" where
  "rsa_encrypt_block ssl pub_key plain use_oaep = do {
     m1 \<leftarrow> encrypt_init ssl pub_key;
     m2 \<leftarrow> rsa_prepare ssl use_oaep m1;
     PKEY_encrypt ssl m2 plain }"

definition rsa_decrypt_block :: "('k, 'x, 'c, 'm) openssl \<Rightarrow> 'k \<Rightarrow> u8 list \<Rightarrow> bool \<Rightarrow> u8 list option" where
  "rsa_decrypt_block ssl priv_key cipher use_oaep = do {
     m1 \<leftarrow> decrypt_init ssl priv_key;
     m2 \<leftarrow> rsa_prepare ssl use_oaep m1;
     PKEY_decrypt ssl m2 cipher }"

section \<open>The session key's encryption\<close>

definition generate_session_key :: "u8 list option \<Rightarrow> u8 list \<Rightarrow> int \<times> u8 list" where
  "generate_session_key rnd key_out =
     (case rnd of None \<Rightarrow> (-1, key_out) | Some r \<Rightarrow> (0, take SESSION_KEY_LEN r))"

definition cbc_encrypt :: "('k, 'x, 'c, 'm) openssl \<Rightarrow> u8 list \<Rightarrow> u8 list \<Rightarrow> u8 list \<Rightarrow> u8 list option" where
  "cbc_encrypt ssl key iv plain = do {
     c1 \<leftarrow> EncryptInit ssl key iv;
     (c2, out1) \<leftarrow> EncryptUpdate ssl c1 plain;
     out2 \<leftarrow> EncryptFinal ssl c2;
     Some (out1 @ out2) }"

definition cbc_decrypt :: "('k, 'x, 'c, 'm) openssl \<Rightarrow> u8 list \<Rightarrow> u8 list \<Rightarrow> u8 list \<Rightarrow> u8 list option" where
  "cbc_decrypt ssl key iv ct = do {
     c1 \<leftarrow> DecryptInit ssl key iv;
     (c2, out1) \<leftarrow> DecryptUpdate ssl c1 ct;
     out2 \<leftarrow> DecryptFinal ssl c2;
     Some (out1 @ out2) }"

definition session_encrypt ::
  "('k, 'x, 'c, 'm) openssl \<Rightarrow> u8 list option \<Rightarrow> u8 list \<Rightarrow> u8 list \<Rightarrow> u8 list option" where
  "session_encrypt ssl rnd key plain = do {
     iv \<leftarrow> rnd;
     let hmac_key = take HMAC_KEY_LEN key;
     let aes_key = drop HMAC_KEY_LEN key;
     ct \<leftarrow> cbc_encrypt ssl aes_key iv plain;
     tag \<leftarrow> HMAC_sha256 ssl hmac_key (iv @ ct);
     Some (iv @ ct @ tag) }"

definition session_decrypt :: "('k, 'x, 'c, 'm) openssl \<Rightarrow> u8 list \<Rightarrow> u8 list \<Rightarrow> u8 list option" where
  "session_decrypt ssl key token =
     (let hmac_key = take HMAC_KEY_LEN key; aes_key = drop HMAC_KEY_LEN key in
      if length token < AES_IV_LEN + AES_BLOCK + HMAC_LEN then None
      else
        let ct_len = length token - AES_IV_LEN - HMAC_LEN;
            iv = take AES_IV_LEN token;
            ct = take ct_len (drop AES_IV_LEN token);
            hmac_received = drop (AES_IV_LEN + ct_len) token
        in (case HMAC_sha256 ssl hmac_key (take (AES_IV_LEN + ct_len) token) of
              None \<Rightarrow> None
            | Some hmac_computed \<Rightarrow>
                if hmac_computed \<noteq> hmac_received then None else cbc_decrypt ssl aes_key iv ct))"

section \<open>Message envelopes\<close>

text \<open>The result, and the message with the encrypted content copied over the front of its buffer.\<close>

definition encrypt_message ::
  "('k, 'x, 'c, 'm) openssl \<Rightarrow> u8 list option \<Rightarrow> Message \<Rightarrow> u8 list \<Rightarrow> u8 list \<Rightarrow> int \<times> Message" where
  "encrypt_message ssl rnd msg sesskey content =
     (if length content > MAX_APP_PAYLOAD_LEN then (-1, msg)
      else case session_encrypt ssl rnd sesskey content of
          None \<Rightarrow> (-1, msg)
        | Some encrypted \<Rightarrow>
            (0, msg\<lparr>msg_len := of_nat (length encrypted), msg_content := mem_write 0 encrypted (msg_content msg)\<rparr>))"

definition decrypt_message ::
  "('k, 'x, 'c, 'm) openssl \<Rightarrow> Message \<Rightarrow> u8 list \<Rightarrow> (u8 list \<times> nat) option" where
  "decrypt_message ssl msg sesskey =
     (if unat (msg_len msg) > MSG_CONTENT_LENGTH then None
      else case session_decrypt ssl sesskey (take (unat (msg_len msg)) (msg_content msg)) of
          None \<Rightarrow> None
        | Some decrypted \<Rightarrow> Some (mem_write 0 decrypted (replicate MSG_CONTENT_LENGTH 0), length decrypted))"

section \<open>What is assumed of the library\<close>

text \<open>
  AES-128 in CBC mode with PKCS7 padding: encryption succeeds, always adds between one byte and a block of padding, and
  decryption with the same key and initialisation vector gives the plaintext back. HMAC-SHA256 yields 32 bytes.
\<close>

definition aes_law :: "('k, 'x, 'c, 'm) openssl \<Rightarrow> bool" where
  "aes_law ssl \<longleftrightarrow> (\<forall>key iv p. length key = 16 \<and> length iv = 16 \<longrightarrow>
     (\<exists>ct. cbc_encrypt ssl key iv p = Some ct \<and> length ct = 16 * (length p div 16 + 1)
         \<and> cbc_decrypt ssl key iv ct = Some p))"

definition hmac_law :: "('k, 'x, 'c, 'm) openssl \<Rightarrow> bool" where
  "hmac_law ssl \<longleftrightarrow> (\<forall>key m. \<exists>tag. HMAC_sha256 ssl key m = Some tag \<and> length tag = 32)"

text \<open>
  A certificate and the private key of the public key in it: the certificate survives the PEM form; a PSS signature of a
  nonce fits a message and verifies for that nonce and for no other; a session key encrypted with PKCS1 padding fits a message and is
  decrypted to itself.
\<close>

definition pem_law :: "('k, 'x, 'c, 'm) openssl \<Rightarrow> 'x \<Rightarrow> bool" where
  "pem_law ssl cert \<longleftrightarrow>
     length (PEM_write_X509 ssl cert) \<le> 2048 \<and> PEM_read_X509 ssl (PEM_write_X509 ssl cert) = Some cert"

definition pss_law :: "('k, 'x, 'c, 'm) openssl \<Rightarrow> 'k \<Rightarrow> 'x \<Rightarrow> bool" where
  "pss_law ssl priv cert \<longleftrightarrow> (\<forall>msg. length msg = 8 \<longrightarrow>
     (\<exists>sig. sign_message_pss ssl priv msg = Some sig \<and> length sig \<le> 2048
          \<and> (\<forall>msg'. length msg' = 8 \<longrightarrow> verify_message_pss ssl cert sig msg' = (if msg' = msg then 1 else 0))))"

definition rsa_law :: "('k, 'x, 'c, 'm) openssl \<Rightarrow> 'k \<Rightarrow> 'k \<Rightarrow> bool" where
  "rsa_law ssl priv pub \<longleftrightarrow> (\<forall>key. length key = 32 \<longrightarrow>
     (\<exists>c. rsa_encrypt_block ssl pub key False = Some c \<and> length c \<le> 2048
        \<and> rsa_decrypt_block ssl priv c False = Some key))"

section \<open>Lemmas\<close>

lemma session_encrypt_ok:
  assumes "aes_law ssl" and "hmac_law ssl" and "length key = 32" and "length iv = 16"
  obtains ct tag where "session_encrypt ssl (Some iv) key p = Some (iv @ ct @ tag)"
    and "length ct = 16 * (length p div 16 + 1)" and "length tag = 32"
    and "cbc_decrypt ssl (drop 16 key) iv ct = Some p" and "HMAC_sha256 ssl (take 16 key) (iv @ ct) = Some tag"
proof -
  have "length (drop 16 key) = 16" using assms(3) by simp
  then obtain ct where c: "cbc_encrypt ssl (drop 16 key) iv p = Some ct"
      "length ct = 16 * (length p div 16 + 1)" "cbc_decrypt ssl (drop 16 key) iv ct = Some p"
    using assms(1,4) unfolding aes_law_def by blast
  obtain tag where t: "HMAC_sha256 ssl (take 16 key) (iv @ ct) = Some tag" "length tag = 32"
    using assms(2) unfolding hmac_law_def by blast
  have "session_encrypt ssl (Some iv) key p = Some (iv @ ct @ tag)"
    using c(1) t(1) by (simp add: session_encrypt_def crypto_lens Let_def)
  then show ?thesis using c t by (intro that)
qed

lemma session_decrypt_token:
  assumes "length iv = 16" and "16 \<le> length ct" and "length tag = 32"
    and "HMAC_sha256 ssl (take 16 key) (iv @ ct) = Some tag'"
  shows "session_decrypt ssl key (iv @ ct @ tag) = (if tag' = tag then cbc_decrypt ssl (drop 16 key) iv ct else None)"
  using assms by (simp add: session_decrypt_def crypto_lens Let_def)

text \<open>The plaintext survives, and the token of a payload that is not too long fits a message.\<close>

lemma token_fits: "n \<le> 1984 \<Longrightarrow> 16 + 16 * (n div 16 + 1) + 32 \<le> (2048 :: nat)"
  by (auto simp: div_le_mono dest: div_le_mono [of n 1984 16])

lemma encrypt_message_ok:
  assumes "aes_law ssl" and "hmac_law ssl" and "length key = 32" and "length iv = 16"
    and "message_wf m" and "length p \<le> 1984"
  obtains token where "encrypt_message ssl (Some iv) m key p =
      (0, m\<lparr>msg_len := of_nat (length token), msg_content := token @ drop (length token) (msg_content m)\<rparr>)"
    and "length token = 64 + 16 * (length p div 16)" and "length token \<le> 2048"
    and "session_decrypt ssl key token = Some p"
proof -
  from session_encrypt_ok [OF assms(1-4), of p] obtain ct tag where
    e: "session_encrypt ssl (Some iv) key p = Some (iv @ ct @ tag)" and
    l: "length ct = 16 * (length p div 16 + 1)" "length tag = 32" and
    d: "cbc_decrypt ssl (drop 16 key) iv ct = Some p" and
    h: "HMAC_sha256 ssl (take 16 key) (iv @ ct) = Some tag" .
  have "session_decrypt ssl key (iv @ ct @ tag) = Some p"
    using session_decrypt_token [OF assms(4) _ l(2) h] l(1) d by simp
  moreover have "length (iv @ ct @ tag) = 64 + 16 * (length p div 16)" using l assms(4) by simp
  moreover have "length (iv @ ct @ tag) \<le> 2048" using l assms(4) token_fits [OF assms(6)] by simp
  moreover have "encrypt_message ssl (Some iv) m key p = (0, m\<lparr>msg_len := of_nat (length (iv @ ct @ tag)),
      msg_content := (iv @ ct @ tag) @ drop (length (iv @ ct @ tag)) (msg_content m)\<rparr>)"
    using e assms(6) by (simp add: encrypt_message_def crypto_lens mem_write_def)
  ultimately show ?thesis by (intro that [of "iv @ ct @ tag"])
qed

lemma decrypt_message_token:
  assumes "length token \<le> 2048" and "msg_len m = of_nat (length token)" and "take (length token) (msg_content m) = token"
    and "session_decrypt ssl key token = Some p"
  shows "decrypt_message ssl m key = Some (mem_write 0 p (replicate 2048 0), length p)"
proof -
  have "unat (msg_len m) = length token" using assms(1,2) by (simp add: unat_of_nat)
  then show ?thesis using assms by (simp add: decrypt_message_def MSG_CONTENT_LENGTH_def)
qed

lemma encrypt_message_wf: "message_wf m \<Longrightarrow> aes_law ssl \<Longrightarrow> hmac_law ssl \<Longrightarrow> length key = 32 \<Longrightarrow>
  (\<forall>iv. rnd = Some iv \<longrightarrow> length iv = 16) \<Longrightarrow> message_wf (snd (encrypt_message ssl rnd m key p))"
proof (cases "rnd = None \<or> length p > 1984")
  case True
  assume "message_wf m"
  then show ?thesis using True by (auto simp: encrypt_message_def session_encrypt_def crypto_lens)
next
  case False
  assume a: "message_wf m" "aes_law ssl" "hmac_law ssl" "length key = 32" "\<forall>iv. rnd = Some iv \<longrightarrow> length iv = 16"
  from False obtain iv where iv: "rnd = Some iv" "length p \<le> 1984" by auto
  from encrypt_message_ok [OF a(2-4) _ a(1) iv(2)] a(5) iv(1) obtain token where
    "encrypt_message ssl rnd m key p =
      (0, m\<lparr>msg_len := of_nat (length token), msg_content := token @ drop (length token) (msg_content m)\<rparr>)"
    and "length token \<le> 2048" by metis
  then show ?thesis using a(1) by (simp add: message_wf_def MSG_CONTENT_LENGTH_def)
qed

lemma tagged_token:
  assumes "hmac_law ssl" and "message_wf m" and "decrypt_message ssl m key = Some (out, n)"
  shows "\<exists>iv ct tag. take (unat (msg_len m)) (msg_content m) = iv @ ct @ tag
     \<and> length iv = 16 \<and> 16 \<le> length ct \<and> length tag = 32
     \<and> HMAC_sha256 ssl (take 16 key) (iv @ ct) = Some tag
     \<and> (\<exists>p. cbc_decrypt ssl (drop 16 key) iv ct = Some p \<and> n = length p \<and> take n out = p)"
proof -
  define token where "token = take (unat (msg_len m)) (msg_content m)"
  obtain p where p: "session_decrypt ssl key token = Some p" and n: "n = length p" and out: "take n out = p"
    using assms(3) by (auto simp: decrypt_message_def token_def mem_write_def split: if_splits option.splits)
  have l: "64 \<le> length token" using p by (auto simp: session_decrypt_def crypto_lens Let_def split: if_splits)
  define iv ct tag where "iv = take 16 token" and "ct = take (length token - 48) (drop 16 token)"
    and "tag = drop (length token - 32) token"
  have t: "token = iv @ ct @ tag"
  proof -
    have "drop 16 token = ct @ drop (length token - 48) (drop 16 token)"
      unfolding ct_def by (rule append_take_drop_id [symmetric])
    moreover have "drop (length token - 48) (drop 16 token) = tag" using l by (simp add: tag_def)
    ultimately show ?thesis by (metis append_take_drop_id iv_def)
  qed
  have len: "length iv = 16" "16 \<le> length ct" "length tag = 32" using l by (simp_all add: iv_def ct_def tag_def)
  obtain tag' where h: "HMAC_sha256 ssl (take 16 key) (iv @ ct) = Some tag'"
    using assms(1) by (auto simp: hmac_law_def)
  have "tag' = tag \<and> cbc_decrypt ssl (drop 16 key) iv ct = Some p"
    using p session_decrypt_token [OF len h] unfolding t by (simp split: if_splits)
  then show ?thesis using t len h n out by (auto simp: token_def [symmetric])
qed

lemma valid_token:
  assumes "hmac_law ssl" and "message_wf m" and "decrypt_message ssl m key = Some (out, n)"
  shows "\<exists>body tag. take (unat (msg_len m)) (msg_content m) = body @ tag \<and> HMAC_sha256 ssl (take 16 key) body = Some tag"
proof -
  from tagged_token [OF assms] obtain iv ct tag where "take (unat (msg_len m)) (msg_content m) = iv @ ct @ tag"
    "HMAC_sha256 ssl (take 16 key) (iv @ ct) = Some tag" by blast
  then show ?thesis by (intro exI [of _ "iv @ ct"] exI [of _ tag]) simp
qed

section \<open>An instance of the library\<close>

text \<open>
  A library that satisfies the laws, used where a theorem is applied to concrete values: the cipher only pads, the
  signature is the message and the tag repeats a sum.
\<close>

definition pkcs7 :: "u8 list \<Rightarrow> u8 list" where
  "pkcs7 p = p @ replicate (16 - length p mod 16) (of_nat (16 - length p mod 16))"

definition plain_ssl :: "(unit, unit, u8 list, u8 list) openssl" where
  "plain_ssl =
     \<lparr>EncryptInit = (\<lambda>k iv. Some []), EncryptUpdate = (\<lambda>c p. Some (c @ p, [])), EncryptFinal = (\<lambda>c. Some (pkcs7 c)),
      DecryptInit = (\<lambda>k iv. Some []), DecryptUpdate = (\<lambda>c p. Some (c @ p, [])),
      DecryptFinal = (\<lambda>c. Some (take (length c - unat (last c)) c)),
      HMAC_sha256 = (\<lambda>k m. Some (replicate 32 (sum_list (k @ m)))),
      DigestSignInit = (\<lambda>k. Some []), DigestVerifyInit = (\<lambda>k. Some []), encrypt_init = (\<lambda>k. Some []),
      decrypt_init = (\<lambda>k. Some []), set_rsa_padding = (\<lambda>p m. Some m), set_rsa_pss_saltlen_max = Some,
      set_rsa_oaep_md = Some, set_rsa_mgf1_md = Some, DigestUpdate = (\<lambda>m p. Some (m @ p)),
      DigestSignFinal = Some, DigestVerifyFinal = (\<lambda>m s. if m = s then 1 else 0),
      PKEY_encrypt = (\<lambda>m p. Some p), PKEY_decrypt = (\<lambda>m p. Some p), PEM_read_PrivateKey = (\<lambda>p. Some ()),
      PEM_read_X509 = (\<lambda>p. Some ()), PEM_write_X509 = (\<lambda>c. [45, 45, 45, 45, 45, 66, 69, 71]),
      X509_get_pubkey = (\<lambda>c. Some ()), X509_verify_cert = (\<lambda>ca c. 1)\<rparr>"

lemma plain_aes_law: "aes_law plain_ssl"
proof -
  have g: "n + (16 - r) = 16 * (q + 1)" if "16 * q + r = n" "r < 16" for n q r :: nat using that by auto
  have len: "length (pkcs7 p) = 16 * (length p div 16 + 1)" for p
  proof -
    have a: "16 * (length p div 16) + length p mod 16 = length p" and b: "length p mod 16 < 16" by simp_all
    show ?thesis unfolding pkcs7_def length_append length_replicate by (rule g [OF a b])
  qed
  have unpad: "take (length (pkcs7 p) - unat (last (pkcs7 p))) (pkcs7 p) = p" for p
  proof -
    define k where "k = 16 - length p mod 16"
    have k: "0 < k" "k \<le> 16" unfolding k_def by simp_all
    have "unat (of_nat k :: u8) = k" using k by (simp add: unat_of_nat)
    then show ?thesis using k by (simp add: pkcs7_def k_def [symmetric] last_append)
  qed
  show ?thesis unfolding aes_law_def
    using unpad by (auto simp: cbc_encrypt_def cbc_decrypt_def plain_ssl_def len)
qed

lemma plain_hmac_law: "hmac_law plain_ssl"
  by (simp add: hmac_law_def plain_ssl_def)

lemma plain_pem_law: "pem_law plain_ssl ()"
  by (simp add: pem_law_def plain_ssl_def)

lemma plain_pss_law: "pss_law plain_ssl () ()"
  by (simp add: pss_law_def sign_message_pss_def verify_message_pss_def plain_ssl_def)

lemma plain_rsa_law: "rsa_law plain_ssl () ()"
  by (simp add: rsa_law_def rsa_encrypt_block_def rsa_decrypt_block_def rsa_prepare_def plain_ssl_def)

lemmas plain_laws = plain_aes_law plain_hmac_law plain_pem_law plain_pss_law plain_rsa_law

section \<open>Properties\<close>

text \<open>
  C27 (payload_survives_encryption): with a session key of 32 bytes, a payload of up to 1984 bytes is always encrypted,
  its token fits the 2048 bytes of a message, and \<open>decrypt_message\<close> with the same key gives the payload back, followed by zeros,
  with its length; a longer payload is refused and the message is left as it was.
\<close>

theorem payload_survives_encryption:
  assumes "aes_law ssl" and "hmac_law ssl" and "length key = 32" and "length iv = 16" and "message_wf m"
  shows "case encrypt_message ssl (Some iv) m key p of
      (r, m') \<Rightarrow> if length p \<le> 1984
               then r = 0 \<and> message_wf m' \<and> unat (msg_len m') \<le> 2048
                  \<and> source_id m' = source_id m \<and> msg_type m' = msg_type m
                  \<and> decrypt_message ssl m' key = Some (p @ replicate (2048 - length p) 0, length p)
               else r = -1 \<and> m' = m"
proof (cases "length p \<le> 1984")
  case False
  then show ?thesis by (simp add: encrypt_message_def crypto_lens)
next
  case True
  from encrypt_message_ok [OF assms True] obtain token where
    e: "encrypt_message ssl (Some iv) m key p =
      (0, m\<lparr>msg_len := of_nat (length token), msg_content := token @ drop (length token) (msg_content m)\<rparr>)"
    and t: "length token \<le> 2048" "session_decrypt ssl key token = Some p" .
  have "decrypt_message ssl (snd (encrypt_message ssl (Some iv) m key p)) key
      = Some (mem_write 0 p (replicate 2048 0), length p)"
    by (rule decrypt_message_token [OF t(1) _ _ t(2)]) (simp_all add: e)
  then show ?thesis using True e t(1) assms(5)
    by (simp add: mem_write_def message_wf_def MSG_CONTENT_LENGTH_def unat_of_nat)
qed

theorem payload_survives_encryption_witness:
  "decrypt_message plain_ssl
     (snd (encrypt_message plain_ssl (Some (replicate 16 1))
        \<lparr>source_id = 1, msg_len = 0, msg_type = 8, msg_content = replicate 2048 0\<rparr> (replicate 32 2) [5, 6, 7]))
     (replicate 32 2) = Some ([5, 6, 7] @ replicate 2045 0, 3)"
  using payload_survives_encryption [OF plain_aes_law plain_hmac_law, of "replicate 32 2" "replicate 16 1"
     "\<lparr>source_id = 1, msg_len = 0, msg_type = 8, msg_content = replicate 2048 0\<rparr>" "[5, 6, 7]"]
  by (simp add: message_wf_def MSG_CONTENT_LENGTH_def case_prod_beta)

text \<open>
  Lemma (only_tagged_tokens_decrypt): \<open>decrypt_message\<close> hands out a plaintext only for a content of at least 64 bytes within
  the buffer whose last 32 bytes are the HMAC, under the first half of the session key, of all the bytes before them: any other
  content is refused before it is decrypted, whatever the cipher would make of it.
\<close>

theorem only_tagged_tokens_decrypt:
  assumes "hmac_law ssl" and "message_wf m" and "decrypt_message ssl m key = Some (out, n)"
  shows "\<exists>iv ct tag. take (unat (msg_len m)) (msg_content m) = iv @ ct @ tag
     \<and> length iv = 16 \<and> 16 \<le> length ct \<and> length tag = 32
     \<and> HMAC_sha256 ssl (take 16 key) (iv @ ct) = Some tag
     \<and> (\<exists>p. cbc_decrypt ssl (drop 16 key) iv ct = Some p \<and> n = length p \<and> take n out = p)"
  by (rule tagged_token [OF assms])

text \<open>A message that was encrypted, so that its content does decrypt.\<close>

definition sealed_demo :: Message where
  "sealed_demo = snd (encrypt_message plain_ssl (Some (replicate 16 1))
     \<lparr>source_id = 1, msg_len = 0, msg_type = 8, msg_content = replicate 2048 0\<rparr> (replicate 32 2) [5, 6, 7])"

lemma sealed_demo_decrypts:
  "message_wf sealed_demo \<and> decrypt_message plain_ssl sealed_demo (replicate 32 2) = Some ([5, 6, 7] @ replicate 2045 0, 3)"
proof -
  define m :: Message where "m = \<lparr>source_id = 1, msg_len = 0, msg_type = 8, msg_content = replicate 2048 0\<rparr>"
  have w: "message_wf m" by (simp add: m_def message_wf_def MSG_CONTENT_LENGTH_def)
  have len: "length (replicate 32 2 :: u8 list) = 32" "length (replicate 16 1 :: u8 list) = 16"
    "length [5, 6, 7 :: u8] \<le> 1984" by simp_all
  from encrypt_message_ok [OF plain_aes_law plain_hmac_law len(1,2) w len(3)]
  obtain token where e: "sealed_demo = m\<lparr>msg_len := of_nat (length token), msg_content := token @ drop (length token) (msg_content m)\<rparr>"
    and t: "length token \<le> 2048" "session_decrypt plain_ssl (replicate 32 2) token = Some [5, 6, 7]"
    unfolding sealed_demo_def m_def [symmetric] by (metis snd_conv)
  have "decrypt_message plain_ssl sealed_demo (replicate 32 2) = Some (mem_write 0 [5, 6, 7] (replicate 2048 0), 3)"
    using decrypt_message_token [OF t(1) _ _ t(2), of sealed_demo] by (simp add: e)
  then show ?thesis using w t(1) by (simp add: e mem_write_def message_wf_def MSG_CONTENT_LENGTH_def)
qed

theorem only_tagged_tokens_decrypt_witness:
  "\<exists>iv ct tag. take (unat (msg_len sealed_demo)) (msg_content sealed_demo) = iv @ ct @ tag
     \<and> length iv = 16 \<and> 16 \<le> length ct \<and> length tag = 32
     \<and> HMAC_sha256 plain_ssl (replicate 16 2) (iv @ ct) = Some tag
     \<and> cbc_decrypt plain_ssl (replicate 16 2) iv ct = Some [5, 6, 7]"
proof -
  have c: "decrypt_message plain_ssl sealed_demo (replicate 32 2) = Some ([5, 6, 7] @ replicate 2045 0, 3)"
    and w: "message_wf sealed_demo" using sealed_demo_decrypts by blast+
  from only_tagged_tokens_decrypt [OF plain_hmac_law w c] show ?thesis by auto
qed

end
