(* ===== verification/Connection.thy ===== *)
theory Connection
  imports Client_List Session_Crypto
begin

text \<open>
  Connections by file descriptor, and the two loops with which the ends of the handshake wait for a message of a given
  type: the server's (\<open>server.c\<close>), which gives up when a read fails, and the client's (\<open>client.c\<close>), which does
  not look at the result of the read. Also the part that the listening loops of both ends share: what becomes of a message that was
  read, and the queue in which it is handed to the application.
\<close>

record conn =
  c_rx :: rx
  c_tx :: tx

type_synonym net = "int \<Rightarrow> conn"

definition fd_send_bytes :: "int \<Rightarrow> u8 list \<Rightarrow> net \<Rightarrow> bool \<times> net" where
  "fd_send_bytes fd bs net =
     (case send_bytes bs (c_tx (net fd)) of (r, t) \<Rightarrow> (r, net(fd := (net fd)\<lparr>c_tx := t\<rparr>)))"

definition fd_send :: "int \<Rightarrow> Message \<Rightarrow> net \<Rightarrow> bool \<times> net" where
  "fd_send fd m net =
     (case send_message_tcp m (c_tx (net fd)) of (r, t) \<Rightarrow> (r, net(fd := (net fd)\<lparr>c_tx := t\<rparr>)))"

definition fd_recv :: "int \<Rightarrow> Message \<Rightarrow> net \<Rightarrow> bool \<times> Message \<times> net" where
  "fd_recv fd m net =
     (case receive_message_tcp (c_rx (net fd)) m of
        (r, m', s) \<Rightarrow> (r, m', net(fd := (net fd)\<lparr>c_rx := s\<rparr>)))"

section \<open>Reads make progress\<close>

definition rx_size :: "rx \<Rightarrow> nat" where
  "rx_size s = length (concat s) + length s"

lemma sock_recv_size: "0 < n \<Longrightarrow> s \<noteq> [] \<Longrightarrow> rx_size (snd (sock_recv n s)) < rx_size s"
  by (cases s) (auto simp: sock_recv_def rx_size_def)

lemma sock_recv_size_le: "rx_size (snd (sock_recv n s)) \<le> rx_size s"
  by (cases s) (auto simp: sock_recv_def rx_size_def)

lemma read_loop_size_le: "rx_size (snd (read_loop n buf s)) \<le> rx_size s"
proof (induction n buf s rule: read_loop.induct)
  case (1 n buf s)
  obtain got s' where r: "sock_recv (n - length buf) s = (got, s')" by fastforce
  have le: "rx_size s' \<le> rx_size s" using sock_recv_size_le [of "n - length buf" s] r by simp
  show ?case
  proof (cases "length buf < n \<and> got \<noteq> []")
    case True
    then have "rx_size (snd (read_loop n (buf @ got) s')) \<le> rx_size s'"
      using 1 [OF _ r [symmetric] refl] by blast
    then show ?thesis using True r le by (simp add: read_loop.simps [of n buf s])
  next
    case False
    then show ?thesis using r le by (auto simp: read_loop.simps [of n buf s])
  qed
qed

lemma read_bytes_size_le: "read_bytes n s = (b, s') \<Longrightarrow> rx_size s' \<le> rx_size s"
  using read_loop_size_le [of n "[]" s] by (simp add: read_bytes_def)

lemma read_bytes_size:
  assumes "0 < n" and "s \<noteq> []" and "read_bytes n s = (b, s')"
  shows "rx_size s' < rx_size s"
proof -
  obtain got s1 where r: "sock_recv n s = (got, s1)" by fastforce
  have lt: "rx_size s1 < rx_size s" using sock_recv_size [OF assms(1,2)] r by simp
  have e: "read_bytes n s = (if got = [] then (None, s1) else read_loop n got s1)"
    using assms(1) r by (simp add: read_bytes_def read_loop.simps [of n "[]" s])
  have "s' = snd (read_bytes n s)" using assms(3) by simp
  then have "rx_size s' \<le> rx_size s1" unfolding e using read_loop_size_le [of n got s1] by simp
  then show ?thesis using lt by simp
qed

lemma receive_message_size:
  assumes "s \<noteq> []" and "receive_message_tcp s m = (r, m', s')"
  shows "rx_size s' < rx_size s"
proof -
  have le: "rx_size s4 \<le> rx_size s3" if "read_bytes n s3 = (b, s4)" for n s3 b s4
    using that by (rule read_bytes_size_le)
  obtain b1 s1 where 1: "read_bytes 4 s = (b1, s1)" by fastforce
  have lt: "rx_size s1 < rx_size s" by (rule read_bytes_size [OF _ assms(1) 1]) simp
  have "rx_size s' \<le> rx_size s1"
  proof (cases b1)
    case None
    then show ?thesis using assms(2) 1 by (simp add: receive_message_tcp_def)
  next
    case b1: (Some x1)
    obtain b2 s2 where 2: "read_bytes 4 s1 = (b2, s2)" by fastforce
    obtain b3 s3 where 3: "read_bytes 4 s2 = (b3, s3)" by fastforce
    obtain b4 s4 where 4: "read_bytes MSG_CONTENT_LENGTH s3 = (b4, s4)" by fastforce
    have "s' = s2 \<or> s' = s3 \<or> s' = s4"
      using assms(2) by (auto simp: receive_message_tcp_def 1 b1 2 3 4 Let_def split: option.splits)
    then show ?thesis using le [OF 2] le [OF 3] le [OF 4] by auto
  qed
  then show ?thesis using lt by simp
qed

lemma receive_message_end: "receive_message_tcp [] m = (False, m, [])"
  by (simp add: receive_message_tcp_def read_bytes_def read_loop.simps sock_recv_def)

section \<open>Waiting for a message of a type\<close>

text \<open>The server's loop: \<open>do { if (receive < 0) goto cleanup; } while (msg.msg_type != t)\<close>.\<close>

function await_type :: "u32 \<Rightarrow> rx \<Rightarrow> Message \<Rightarrow> Message option \<times> rx" where
  "await_type t s m =
     (case receive_message_tcp s m of
        (False, m', s') \<Rightarrow> (None, s')
      | (True, m', s') \<Rightarrow> if msg_type m' \<noteq> t then await_type t s' m' else (Some m', s'))"
  by pat_completeness auto
termination
proof (relation "measure (\<lambda>(t, s, m). rx_size s)", simp, goal_cases)
  case (1 t s m ok p m' s')
  then have "s \<noteq> []" using receive_message_end [of m] by auto
  then show ?case using receive_message_size [of s m] 1 by (metis case_prod_conv in_measure)
qed

text \<open>
  The client's loop: \<open>do { receive } while (msg.msg_type != t)\<close>. When the stream has ended and the message that was last
  stored is of another type, it never ends: \<open>None\<close>.
\<close>

function spin_type :: "u32 \<Rightarrow> rx \<Rightarrow> Message \<Rightarrow> (Message \<times> rx) option" where
  "spin_type t s m =
     (case receive_message_tcp s m of
        (_, m', s') \<Rightarrow>
          if msg_type m' = t then Some (m', s')
          else if s = [] then None
          else spin_type t s' m')"
  by pat_completeness auto
termination
proof (relation "measure (\<lambda>(t, s, m). rx_size s)", simp, goal_cases)
  case (1 t s m ok p m' s')
  then show ?case using receive_message_size [of s m] by (metis case_prod_conv in_measure)
qed

declare await_type.simps [simp del] spin_type.simps [simp del]

section \<open>What becomes of a message in the listening loops\<close>

text \<open>
  An application message is queued as it is; an encrypted one is decrypted with the key that \<open>keyof\<close> gives for its source,
  the plaintext is copied over the front of the content, and it is queued as a plain one. Everything else is dropped: \<open>None\<close>.
\<close>

definition open_app :: "('k, 'x, 'c, 'm) openssl \<Rightarrow> (u32 \<Rightarrow> u8 list option) \<Rightarrow> Message \<Rightarrow> Message option" where
  "open_app ssl keyof m =
     (if msg_type m = MSG_APP then Some m
      else if msg_type m = MSG_APP_ENC then
        (case keyof (source_id m) of
           None \<Rightarrow> None
         | Some key \<Rightarrow>
             (case decrypt_message ssl m key of
                None \<Rightarrow> None
              | Some (decrypted, n) \<Rightarrow>
                  Some (m\<lparr>msg_len := of_nat n, msg_content := mem_write 0 (take n decrypted) (msg_content m),
                          msg_type := MSG_APP\<rparr>)))
      else None)"

definition queue_app :: "Message option \<Rightarrow> Message queue \<Rightarrow> Message queue" where
  "queue_app r q = (case r of None \<Rightarrow> q | Some m \<Rightarrow> snd (queue_enqueue q m))"

text \<open>\<open>brserver_get_app_msg\<close> and \<open>brclient_get_app_msg\<close>: the content of the first message, if there is one.\<close>

definition get_app_msg :: "Message queue \<Rightarrow> u8 list option \<times> Message queue" where
  "get_app_msg q =
     (if \<not> queue_empty q then (map_option msg_content (queue_peek q), snd (queue_dequeue q)) else (None, q))"

section \<open>Lemmas\<close>

lemma await_type_enc:
  "\<forall>x \<in> set pre. message_wf x \<and> msg_type x \<noteq> t \<Longrightarrow> message_wf m \<Longrightarrow> msg_type m = t \<Longrightarrow> live s
   \<Longrightarrow> concat s = concat (map encode_message pre) @ encode_message m @ rest
   \<Longrightarrow> \<exists>s'. await_type t s m0 = (Some m, s') \<and> live s' \<and> concat s' = rest"
proof (induction pre arbitrary: s m0)
  case Nil
  then have c: "concat s = encode_message m @ rest" by simp
  from receive_message_enc [OF Nil(2,4) c, of m0] obtain s' where
    "receive_message_tcp s m0 = (True, m, s')" "live s'" "concat s' = rest" .
  then show ?case using Nil(3) by (simp add: await_type.simps [of t s])
next
  case (Cons x pre)
  have x: "message_wf x" "msg_type x \<noteq> t" and c: "concat s = encode_message x @ (concat (map encode_message pre) @ encode_message m @ rest)"
    using Cons.prems by auto
  from receive_message_enc [OF x(1) Cons.prems(4) c, of m0] obtain s1 where
    1: "receive_message_tcp s m0 = (True, x, s1)" "live s1"
       "concat s1 = concat (map encode_message pre) @ encode_message m @ rest" .
  have "\<forall>x \<in> set pre. message_wf x \<and> msg_type x \<noteq> t" using Cons.prems(1) by simp
  from Cons.IH [OF this Cons.prems(2,3) 1(2,3), of x] show ?case
    using 1(1) x(2) by (simp add: await_type.simps [of t s])
qed

lemma await_type_ended: "await_type t [] m = (None, [])"
  by (simp add: await_type.simps receive_message_end)

lemma spin_type_enc:
  "\<forall>x \<in> set pre. message_wf x \<and> msg_type x \<noteq> t \<Longrightarrow> message_wf m \<Longrightarrow> msg_type m = t \<Longrightarrow> live s
   \<Longrightarrow> concat s = concat (map encode_message pre) @ encode_message m @ rest
   \<Longrightarrow> \<exists>s'. spin_type t s m0 = Some (m, s') \<and> live s' \<and> concat s' = rest"
proof (induction pre arbitrary: s m0)
  case Nil
  then have c: "concat s = encode_message m @ rest" by simp
  from receive_message_enc [OF Nil(2,4) c, of m0] obtain s' where
    "receive_message_tcp s m0 = (True, m, s')" "live s'" "concat s' = rest" .
  then show ?case using Nil(3) by (simp add: spin_type.simps [of t s])
next
  case (Cons x pre)
  have x: "message_wf x" "msg_type x \<noteq> t" and c: "concat s = encode_message x @ (concat (map encode_message pre) @ encode_message m @ rest)"
    using Cons.prems by auto
  have ne: "s \<noteq> []" using c msg.enc_width [OF x(1)] by (cases s) auto
  from receive_message_enc [OF x(1) Cons.prems(4) c, of m0] obtain s1 where
    1: "receive_message_tcp s m0 = (True, x, s1)" "live s1"
       "concat s1 = concat (map encode_message pre) @ encode_message m @ rest" .
  have "\<forall>x \<in> set pre. message_wf x \<and> msg_type x \<noteq> t" using Cons.prems(1) by simp
  from Cons.IH [OF this Cons.prems(2,3) 1(2,3), of x] show ?case
    using 1(1) x(2) ne by (simp add: spin_type.simps [of t s])
qed

text \<open>A stream that ends before a message of the type arrives keeps the client's loop running for ever.\<close>

lemma spin_type_ended: "msg_type m \<noteq> t \<Longrightarrow> spin_type t [] m = None"
  by (simp add: spin_type.simps receive_message_end)

lemma open_app_type: "open_app ssl keyof m = Some m' \<Longrightarrow> msg_type m' = MSG_APP \<and> source_id m' = source_id m"
  by (auto simp: open_app_def split: if_splits option.splits)

lemma decrypt_message_length:
  assumes "decrypt_message ssl m key = Some (d, n)"
  shows "n \<le> length d"
  using assms by (auto simp: decrypt_message_def mem_write_def split: if_splits option.splits)

text \<open>A payload that was encrypted for the key under which it is opened comes out at the front of the content.\<close>

lemma open_app_encrypted:
  assumes "aes_law ssl" and "hmac_law ssl" and "length key = 32" and "length iv = 16" and "message_wf m"
    and "length p \<le> 1984" and "msg_type m = MSG_APP_ENC" and "keyof (source_id m) = Some key"
    and "encrypt_message ssl (Some iv) m key p = (r, m')"
  shows "\<exists>out. open_app ssl keyof m' = Some out \<and> take (length p) (msg_content out) = p
     \<and> msg_len out = of_nat (length p) \<and> source_id out = source_id m \<and> message_wf out \<and> msg_type out = MSG_APP"
proof -
  from encrypt_message_ok [OF assms(1-6)] assms(9) obtain token where
    m': "m' = m\<lparr>msg_len := of_nat (length token), msg_content := token @ drop (length token) (msg_content m)\<rparr>"
    and t: "length token = 64 + 16 * (length p div 16)" "length token \<le> 2048" "session_decrypt ssl key token = Some p"
    by (metis prod.inject)
  have d: "decrypt_message ssl m' key = Some (mem_write 0 p (replicate 2048 0), length p)"
    by (rule decrypt_message_token [OF t(2) _ _ t(3)]) (simp_all add: m')
  have ty: "msg_type m' = MSG_APP_ENC" "source_id m' = source_id m" using assms(7) by (simp_all add: m')
  have "length p div 16 * 16 + length p mod 16 = length p" by simp
  then have len: "length p \<le> length token" using t(1) mod_less_divisor [of 16 "length p"] by linarith
  show ?thesis using d ty assms(5,8) len t(2)
    by (simp add: open_app_def msg_types m' mem_write_def message_wf_def MSG_CONTENT_LENGTH_def)
qed

end
