(* ===== verification/BR_Server.thy ===== *)
theory BR_Server
  imports Connection
begin

text \<open>
  The server end of the transport: \<open>libbattleroyale/server.c\<close>.

  The record holds the \<open>Server\<close> structure and the static variables of the file. The background thread runs one of four
  loops according to the state; each loop's body is a definition, and what the kernel and the peers do in an iteration
  (results of \<open>poll\<close>, \<open>accept\<close>, \<open>bind\<close>, the datagram that arrived, the uninitialised memory that is read) are its
  arguments. The \<open>pc_flags\<close> that make a thread yield have no effect on the data and are left out, as are the log lines. \<open>None\<close> as
  the result of an operation is a NULL dereference.
\<close>

record ('k, 'x) Server =
  sv_self :: Endpoint
  sv_clients :: ClientLinkedList
  sv_tcp_port :: u16
  sv_udp_port :: u16
  sv_next_id :: u32
  sv_cert :: "'x option"
  sv_pkey :: "'k option"
  sv_messages :: "Message queue"
  sv_disconnected_ids :: "u32 list"
  sv_disconnected_count :: int

abbreviation sv_state :: "('k, 'x) Server \<Rightarrow> EndpointState" where
  "sv_state srv \<equiv> ep_state (sv_self srv)"

definition set_state :: "EndpointState \<Rightarrow> ('k, 'x) Server \<Rightarrow> ('k, 'x) Server" where
  "set_state st srv = srv\<lparr>sv_self := (sv_self srv)\<lparr>ep_state := st\<rparr>\<rparr>"

section \<open>Starting a server\<close>

text \<open>\<open>listen_on_tcp\<close>: the results of \<open>bind\<close> and \<open>listen\<close> are inputs; \<open>check_sockets\<close> is compared with \<open>< 0\<close>, which it never is.\<close>

definition listen_on_tcp :: "Sockets \<Rightarrow> int \<Rightarrow> int \<Rightarrow> int" where
  "listen_on_tcp socks bind_r listen_r =
     (if check_sockets socks < 0 then -1 else if bind_r < 0 then -1 else if listen_r \<noteq> 0 then -1 else 0)"

definition prepare_unicast_udp :: "int \<Rightarrow> int" where
  "prepare_unicast_udp bind_r = (if bind_r < 0 then -1 else 0)"

definition prepare_broadcast_udp :: "int \<Rightarrow> int" where
  "prepare_broadcast_udp setsockopt_r = (if setsockopt_r < 0 then -1 else 0)"

record os_results =
  os_tcp :: int
  os_udp_uni :: int
  os_udp_broad :: int
  os_bind_tcp :: int
  os_listen :: int
  os_setsockopt :: int
  os_bind_udp :: int
  os_thread :: int

text \<open>
  The call is the first of its process, so that the static variables have their initial values; the queue's array and the list of
  disconnects are arguments only for their length. The endpoint's key pointer is what the fresh memory holds.
\<close>

definition brserver_init_room ::
  "os_results \<Rightarrow> u8 list \<Rightarrow> Message queue \<Rightarrow> u32 list \<Rightarrow> u16 \<Rightarrow> u16 \<Rightarrow> u32 \<Rightarrow> int \<times> ('k, 'x) Server option" where
  "brserver_init_room os mem queue disc tcp_port udp_port id_base =
     (case create_endpoint mem (os_tcp os) (os_udp_uni os) (os_udp_broad os) of
        (None, _) \<Rightarrow> (-1, None)
      | (Some self, _) \<Rightarrow>
          (case ep_socks self of
             None \<Rightarrow> (-1, None)
           | Some socks \<Rightarrow>
               if listen_on_tcp socks (os_bind_tcp os) (os_listen os) < 0 then (-1, None)
               else if prepare_broadcast_udp (os_setsockopt os) < 0 \<or> prepare_unicast_udp (os_bind_udp os) < 0
               then (-1, None)
               else
                 (if os_thread os \<noteq> 0 then 1 else 0,
                  Some \<lparr>sv_self = self, sv_clients = initalise_list, sv_tcp_port = tcp_port, sv_udp_port = udp_port,
                        sv_next_id = id_base, sv_cert = None, sv_pkey = None, sv_messages = queue_init queue,
                        sv_disconnected_ids = disc, sv_disconnected_count = 0\<rparr>)))"

definition brserver_init :: "os_results \<Rightarrow> u8 list \<Rightarrow> Message queue \<Rightarrow> u32 list \<Rightarrow> int \<times> ('k, 'x) Server option" where
  "brserver_init os mem queue disc = brserver_init_room os mem queue disc PORT_TCP PORT_UDP_UNI 1"

section \<open>Changing the state\<close>

definition brserver_open :: "('k, 'x, 'c, 'm) openssl \<Rightarrow> files \<Rightarrow> ('k, 'x) Server \<Rightarrow> int \<times> ('k, 'x) Server" where
  "brserver_open ssl fs srv =
     (if sv_state srv = LOBBY then (0, srv)
      else
        let srv1 = srv\<lparr>sv_cert := load_cert_file ssl fs ''auth/server_signed.crt''\<rparr> in
        if sv_cert srv1 = None then (-1, srv1)
        else
          let srv2 = srv1\<lparr>sv_pkey := load_private_key ssl fs ''auth/private_key.pem''\<rparr> in
          if sv_pkey srv2 = None then (-1, srv2)
          else (0, set_state LOBBY srv2))"

definition brserver_start :: "('k, 'x) Server \<Rightarrow> int \<times> ('k, 'x) Server" where
  "brserver_start srv = (if sv_state srv \<noteq> LOBBY then (-1, srv) else (0, set_state GAME srv))"

definition brserver_end :: "('k, 'x) Server \<Rightarrow> int \<times> ('k, 'x) Server" where
  "brserver_end srv = (if sv_state srv \<noteq> GAME then (-1, srv) else (0, set_state END srv))"

section \<open>Sending to the clients\<close>

fun broadcast_loop :: "nat \<Rightarrow> Endpoint list \<Rightarrow> Message \<Rightarrow> net \<Rightarrow> (int \<times> net) option" where
  "broadcast_loop 0 current m net = Some (0, net)"
| "broadcast_loop (Suc i) [] m net = Some (-1, net)"
| "broadcast_loop (Suc i) (current # next) m net =
     (case ep_socks current of
        None \<Rightarrow> None
      | Some s \<Rightarrow> broadcast_loop i next m (snd (fd_send (tcp s) m net)))"

definition send_broadcast_tcp :: "('k, 'x) Server \<Rightarrow> Message \<Rightarrow> net \<Rightarrow> (int \<times> net) option" where
  "send_broadcast_tcp srv m net =
     broadcast_loop (unat (ll_count (sv_clients srv))) (ll_nodes (sv_clients srv)) m net"

text \<open>A message built with a designated initialiser: the fields not named are zero.\<close>

definition blank_message :: "u32 \<Rightarrow> u32 \<Rightarrow> Message" where
  "blank_message source t =
     \<lparr>source_id = source, msg_len = 0, msg_type = t, msg_content = replicate MSG_CONTENT_LENGTH 0\<rparr>"

definition brserver_send_to_target ::
  "('k, 'x, 'c, 'm) openssl \<Rightarrow> u8 list option \<Rightarrow> ('k, 'x) Server \<Rightarrow> u32 \<Rightarrow> u8 list \<Rightarrow> net \<Rightarrow> (int \<times> net) option" where
  "brserver_send_to_target ssl rnd srv target_id content net =
     (case get_from_list (sv_clients srv) target_id of
        None \<Rightarrow> Some (-1, net)
      | Some target_client \<Rightarrow>
          let msg = snd (encrypt_message ssl rnd (blank_message (ep_id (sv_self srv)) MSG_APP_ENC)
                          (ep_sesskey target_client) (take MAX_APP_PAYLOAD_LEN content))
          in (case ep_socks target_client of
                None \<Rightarrow> None
              | Some s \<Rightarrow> (case fd_send (tcp s) msg net of
                  (ok, net') \<Rightarrow> Some (if ok then 0 else -1, net'))))"

text \<open>
  The two functions that reach every client have no \<open>return\<close> at their end: the inner \<open>None\<close> is the value that is then undefined.
\<close>

definition brserver_send_to_all ::
  "('k, 'x) Server \<Rightarrow> u8 list \<Rightarrow> net \<Rightarrow> (int option \<times> net) option" where
  "brserver_send_to_all srv content net =
     (let m = (blank_message (ep_id (sv_self srv)) MSG_APP)\<lparr>msg_content := take MSG_CONTENT_LENGTH content\<rparr>
      in (case send_broadcast_tcp srv m net of
            None \<Rightarrow> None
          | Some (r, net') \<Rightarrow> Some (if r \<noteq> 0 then Some (-1) else None, net')))"

definition brserver_send_broadcast ::
  "bool \<Rightarrow> ('k, 'x) Server \<Rightarrow> u8 list \<Rightarrow> int option \<times> (udp_dest \<times> u8 list) list" where
  "brserver_send_broadcast sendto_ok srv content =
     (let m = (blank_message (ep_id (sv_self srv)) MSG_APP)\<lparr>msg_content := take MSG_CONTENT_LENGTH content\<rparr>
      in (case send_broadcast_udp sendto_ok m of
            (ok, out) \<Rightarrow> (if \<not> ok then Some (-1) else None, out)))"

section \<open>What the application asks\<close>

fun info_loop :: "nat \<Rightarrow> Endpoint list \<Rightarrow> u32 list" where
  "info_loop 0 client = []"
| "info_loop (Suc i) [] = []"
| "info_loop (Suc i) (client # next) = ep_id client # info_loop i next"

definition brserver_client_info :: "('k, 'x) Server \<Rightarrow> u32 \<times> u32 list" where
  "brserver_client_info srv =
     (ll_count (sv_clients srv), info_loop (unat (ll_count (sv_clients srv))) (ll_nodes (sv_clients srv)))"

definition brserver_get_app_msg :: "('k, 'x) Server \<Rightarrow> u8 list option \<times> ('k, 'x) Server" where
  "brserver_get_app_msg srv = (case get_app_msg (sv_messages srv) of (r, q) \<Rightarrow> (r, srv\<lparr>sv_messages := q\<rparr>))"

definition brserver_get_disconnected :: "('k, 'x) Server \<Rightarrow> u32 option \<times> ('k, 'x) Server" where
  "brserver_get_disconnected srv =
     (if sv_disconnected_count srv > 0 then
        (Some (sv_disconnected_ids srv ! 0),
         srv\<lparr>sv_disconnected_ids := fold (\<lambda>i ids. ids[i - 1 := ids ! i]) [1..<nat (sv_disconnected_count srv)]
                (sv_disconnected_ids srv),
             sv_disconnected_count := sv_disconnected_count srv - 1\<rparr>)
      else (None, srv))"

section \<open>The lobby loop\<close>

text \<open>
  The body of the loop for an accepted descriptor: the id is sent, the certificate, the signature of the client's nonce, and the
  session key is received. The client is registered at the end, or dropped; \<open>mem\<close> is the uninitialised part of its \<open>Sockets\<close> structure
  and \<open>msg0\<close> the uninitialised local message. \<open>None\<close> is a copy from a NULL pointer, when signing fails; a certificate or a signature that
  is copied past the end of \<open>msg_content\<close>; and a received length that makes the decryption read past it.
\<close>

definition fill_cert :: "('k, 'x, 'c, 'm) openssl \<Rightarrow> u32 \<Rightarrow> 'x \<Rightarrow> Message \<Rightarrow> Message" where
  "fill_cert ssl self_id cert msg0 =
     (let pem = PEM_write_X509 ssl cert
      in msg0\<lparr>source_id := self_id, msg_type := MSG_CERT, msg_len := of_nat (length pem),
              msg_content := mem_write 0 pem (msg_content msg0)\<rparr>)"

definition cert_message :: "('k, 'x, 'c, 'm) openssl \<Rightarrow> u32 \<Rightarrow> 'x \<Rightarrow> Message \<Rightarrow> Message option" where
  "cert_message ssl self_id cert msg0 =
     (if length (PEM_write_X509 ssl cert) > MSG_CONTENT_LENGTH then None else Some (fill_cert ssl self_id cert msg0))"

definition fill_signature :: "u32 \<Rightarrow> u8 list \<Rightarrow> Message \<Rightarrow> Message" where
  "fill_signature self_id sig msg =
     msg\<lparr>source_id := self_id, msg_type := MSG_AUTH, msg_len := of_nat (length sig),
         msg_content := mem_write 0 sig (msg_content msg)\<rparr>"

definition signature_message :: "u32 \<Rightarrow> u8 list \<Rightarrow> Message \<Rightarrow> Message option" where
  "signature_message self_id sig msg = (if length sig > MSG_CONTENT_LENGTH then None else Some (fill_signature self_id sig msg))"

definition register_client ::
  "('k, 'x, 'c, 'm) openssl \<Rightarrow> ('k, 'x) Server \<Rightarrow> u32 \<Rightarrow> Sockets \<Rightarrow> Message \<Rightarrow> ('k, 'x) Server option" where
  "register_client ssl srv new_id socks msg =
     (if unat (msg_len msg) > MSG_CONTENT_LENGTH then None
      else case sv_pkey srv of
        None \<Rightarrow> Some srv
      | Some pkey \<Rightarrow>
          (case rsa_decrypt_block ssl pkey (take (unat (msg_len msg)) (msg_content msg)) False of
             None \<Rightarrow> Some srv
           | Some client_sesskey \<Rightarrow>
               if length client_sesskey \<noteq> SESSION_KEY_LEN then Some srv
               else Some (srv\<lparr>sv_clients := snd (add_to_list (sv_clients srv)
                     \<lparr>ep_id = new_id, ep_state = IDLE, ep_socks = Some socks, ep_sesskey = client_sesskey\<rparr>)\<rparr>)))"

definition lobby_accept ::
  "('k, 'x, 'c, 'm) openssl \<Rightarrow> int \<Rightarrow> Sockets \<Rightarrow> Message \<Rightarrow> ('k, 'x) Server \<times> net \<Rightarrow> (('k, 'x) Server \<times> net) option" where
  "lobby_accept ssl client_fd mem msg0 st =
     (case st of (srv0, net0) \<Rightarrow>
      let new_id = sv_next_id srv0;
          srv = srv0\<lparr>sv_next_id := sv_next_id srv0 + 1\<rparr>;
          socks = mem\<lparr>tcp := client_fd\<rparr>;
          self_id = ep_id (sv_self srv)
      in (case fd_send_bytes client_fd (be32 new_id) net0 of
            (False, net1) \<Rightarrow> Some (srv, net1)
          | (True, net1) \<Rightarrow>
         (case (sv_cert srv, sv_pkey srv) of
            (Some cert, Some pkey) \<Rightarrow>
           (case cert_message ssl self_id cert msg0 of
              None \<Rightarrow> None
            | Some msg1 \<Rightarrow>
              let net2 = snd (fd_send client_fd msg1 net1)
              in (case await_type MSG_AUTH (c_rx (net2 client_fd)) msg1 of
                    (None, s) \<Rightarrow> Some (srv, net2(client_fd := (net2 client_fd)\<lparr>c_rx := s\<rparr>))
                  | (Some msg2, s) \<Rightarrow>
                 let net3 = net2(client_fd := (net2 client_fd)\<lparr>c_rx := s\<rparr>) in
                 (case sign_message_pss ssl pkey (take NONCE_LEN (msg_content msg2)) of
                    None \<Rightarrow> None
                  | Some sig \<Rightarrow>
                (case signature_message self_id sig msg2 of
                   None \<Rightarrow> None
                 | Some msg3 \<Rightarrow>
                 let net4 = snd (fd_send client_fd msg3 net3)
                 in (case await_type MSG_KEY (c_rx (net4 client_fd)) msg3 of
                       (None, s') \<Rightarrow> Some (srv, net4(client_fd := (net4 client_fd)\<lparr>c_rx := s'\<rparr>))
                     | (Some msg4, s') \<Rightarrow>
                         map_option (\<lambda>srv'. (srv', net4(client_fd := (net4 client_fd)\<lparr>c_rx := s'\<rparr>)))
                           (register_client ssl srv new_id socks msg4))))))
          | _ \<Rightarrow> None)))"

text \<open>One iteration: \<open>poll\<close>, \<open>accept\<close>, and the handshake with the client.\<close>

definition lobby_iteration ::
  "('k, 'x, 'c, 'm) openssl \<Rightarrow> int \<Rightarrow> int \<Rightarrow> Sockets \<Rightarrow> Message \<Rightarrow> ('k, 'x) Server \<times> net \<Rightarrow> (('k, 'x) Server \<times> net) option" where
  "lobby_iteration ssl poll_r accept_r mem msg0 st =
     (if poll_r \<le> 0 then Some st
      else if accept_r < 0 then Some st
      else lobby_accept ssl accept_r mem msg0 st)"

section \<open>The game loop\<close>

text \<open>
  Entering: a room without clients goes back to the lobby; otherwise the clients are told to start and the descriptors to
  poll are collected. The result is that array, or \<open>Inl\<close> when the function returned.
\<close>

definition enter_game ::
  "('k, 'x) Server \<times> net \<Rightarrow> ((unit + int list) \<times> ('k, 'x) Server \<times> net) option" where
  "enter_game st =
     (case st of (srv, net) \<Rightarrow>
      if ll_count (sv_clients srv) \<le> 0 then Some (Inl (), set_state LOBBY srv, net)
      else (case send_broadcast_tcp srv (blank_message (ep_id (sv_self srv)) MSG_START) net of
              None \<Rightarrow> None
            | Some (r, net') \<Rightarrow>
                if r < 0 then Some (Inl (), srv, net')
                else if \<forall>c \<in> set (ll_nodes (sv_clients srv)). ep_socks c \<noteq> None
                then Some (Inr (map (\<lambda>c. tcp (the (ep_socks c))) (ll_nodes (sv_clients srv))), srv, net')
                else None))"

definition sender_key :: "('k, 'x) Server \<Rightarrow> u32 \<Rightarrow> u8 list option" where
  "sender_key srv i = map_option ep_sesskey (get_from_list (sv_clients srv) i)"

definition server_receive ::
  "('k, 'x, 'c, 'm) openssl \<Rightarrow> Message \<Rightarrow> ('k, 'x) Server \<Rightarrow> ('k, 'x) Server" where
  "server_receive ssl msg srv =
     srv\<lparr>sv_messages := queue_app (open_app ssl (sender_key srv) msg) (sv_messages srv)\<rparr>"

text \<open>
  The inner loop over the polled descriptors: \<open>ready ! i\<close> says whether \<open>revents\<close> of the i-th is exactly \<open>POLLIN\<close>, and \<open>activity\<close> is what
  \<open>poll\<close> returned. A descriptor whose read fails is set to -1, which \<open>poll\<close> ignores from then on.
\<close>

fun tcp_loop ::
  "('k, 'x, 'c, 'm) openssl \<Rightarrow> nat \<Rightarrow> int \<Rightarrow> bool list \<Rightarrow> int list \<Rightarrow> nat \<Rightarrow> Message \<Rightarrow> ('k, 'x) Server \<times> net
   \<Rightarrow> Message \<times> int list \<times> ('k, 'x) Server \<times> net" where
  "tcp_loop ssl 0 activity ready fds i msg st = (msg, fds, st)"
| "tcp_loop ssl (Suc n) activity ready fds i msg st =
     (if \<not> activity > 0 then (msg, fds, st)
      else if \<not> (i < length ready \<and> ready ! i) then tcp_loop ssl n activity ready fds (Suc i) msg st
      else
        (case st of (srv, net) \<Rightarrow>
         (case fd_recv (fds ! i) msg net of
            (False, msg', net') \<Rightarrow> tcp_loop ssl n (activity - 1) ready (fds[i := -1]) (Suc i) msg' (srv, net')
          | (True, msg', net') \<Rightarrow>
              tcp_loop ssl n (activity - 1) ready fds (Suc i) msg' (server_receive ssl msg' srv, net'))))"

text \<open>
  One iteration of the game loop. \<open>udp\<close> is \<open>None\<close> when nothing is to be read on the unicast socket, otherwise the result of
  \<open>recvfrom\<close>; \<open>stack\<close> is what its buffer held. The first component is \<open>False\<close> when the loop is left by \<open>break\<close>.
\<close>

definition game_iteration ::
  "('k, 'x, 'c, 'm) openssl \<Rightarrow> int \<Rightarrow> bool list \<Rightarrow> u8 list option option \<Rightarrow> u8 list \<Rightarrow> Message
   \<Rightarrow> int list \<times> ('k, 'x) Server \<times> net \<Rightarrow> bool \<times> int list \<times> ('k, 'x) Server \<times> net" where
  "game_iteration ssl activity ready udp stack msg0 st =
     (case st of (fds, srv, net) \<Rightarrow>
      (case tcp_loop ssl (unat (ll_count (sv_clients srv))) activity ready fds 0 msg0 (srv, net) of
         (msg, fds', srv', net') \<Rightarrow>
           (case udp of
              None \<Rightarrow> (True, fds', srv', net')
            | Some dgram \<Rightarrow>
                (case receive_message_udp stack dgram msg of
                   (False, _) \<Rightarrow> (False, fds', srv', net')
                 | (True, msg') \<Rightarrow> (True, fds', server_receive ssl msg' srv', net')))))"

section \<open>The end\<close>

definition free_server :: "('k, 'x) Server \<Rightarrow> (int \<times> int list) option" where
  "free_server srv =
     (case free_list (sv_clients srv) of
        None \<Rightarrow> None
      | Some (r, closed) \<Rightarrow>
          if r \<noteq> 0 then Some (-1, closed)
          else (case free_endpoint (sv_self srv) of
                  None \<Rightarrow> None
                | Some (r', _, closed') \<Rightarrow> Some (if r' < 0 then -1 else 0, closed @ closed')))"

definition server_end_state :: "('k, 'x) Server \<times> net \<Rightarrow> (int list \<times> net) option" where
  "server_end_state st =
     (case st of (srv, net) \<Rightarrow>
      (case send_broadcast_tcp srv (blank_message (ep_id (sv_self srv)) MSG_END) net of
         None \<Rightarrow> None
       | Some (_, net') \<Rightarrow> map_option (\<lambda>(_, closed). (closed, net')) (free_server srv)))"

section \<open>The server as a state machine\<close>

text \<open>
  A run interleaves the calls of the application with the iterations of the background thread (\<open>server_thread_func\<close>). The
  thread is about to dispatch on the state, or in the idle loop, the lobby loop or the game loop with its array of descriptors, or it has
  ended and the server is freed. It leaves a loop when it sees that the state has changed.
\<close>

datatype thread_at = At_dispatch | In_idle | In_lobby | In_game "int list" | At_exit

record ('k, 'x) run =
  r_srv :: "('k, 'x) Server"
  r_net :: net
  r_at :: thread_at

inductive br_step :: "('k, 'x, 'c, 'm) openssl \<Rightarrow> ('k, 'x) run \<Rightarrow> ('k, 'x) run \<Rightarrow> bool" for ssl where
  s_open: "r_at r \<noteq> At_exit \<Longrightarrow> br_step ssl r (r\<lparr>r_srv := snd (brserver_open ssl fs (r_srv r))\<rparr>)"
| s_start: "r_at r \<noteq> At_exit \<Longrightarrow> br_step ssl r (r\<lparr>r_srv := snd (brserver_start (r_srv r))\<rparr>)"
| s_end: "r_at r \<noteq> At_exit \<Longrightarrow> br_step ssl r (r\<lparr>r_srv := snd (brserver_end (r_srv r))\<rparr>)"
| s_get: "r_at r \<noteq> At_exit \<Longrightarrow> br_step ssl r (r\<lparr>r_srv := snd (brserver_get_app_msg (r_srv r))\<rparr>)"
| s_disconnected: "r_at r \<noteq> At_exit \<Longrightarrow> br_step ssl r (r\<lparr>r_srv := snd (brserver_get_disconnected (r_srv r))\<rparr>)"
| s_target: "r_at r \<noteq> At_exit \<Longrightarrow> brserver_send_to_target ssl rnd (r_srv r) i content (r_net r) = Some (c, net')
    \<Longrightarrow> br_step ssl r (r\<lparr>r_net := net'\<rparr>)"
| s_all: "r_at r \<noteq> At_exit \<Longrightarrow> brserver_send_to_all (r_srv r) content (r_net r) = Some (c', net')
    \<Longrightarrow> br_step ssl r (r\<lparr>r_net := net'\<rparr>)"
| t_idle: "r_at r = At_dispatch \<Longrightarrow> sv_state (r_srv r) = IDLE \<Longrightarrow> br_step ssl r (r\<lparr>r_at := In_idle\<rparr>)"
| t_leave_idle: "r_at r = In_idle \<Longrightarrow> sv_state (r_srv r) \<noteq> IDLE \<Longrightarrow> br_step ssl r (r\<lparr>r_at := At_dispatch\<rparr>)"
| t_lobby: "r_at r = At_dispatch \<Longrightarrow> sv_state (r_srv r) = LOBBY \<Longrightarrow> br_step ssl r (r\<lparr>r_at := In_lobby\<rparr>)"
| t_accept: "r_at r = In_lobby \<Longrightarrow> sv_state (r_srv r) = LOBBY
    \<Longrightarrow> lobby_iteration ssl poll_r accept_r mem msg0 (r_srv r, r_net r) = Some (srv', net')
    \<Longrightarrow> br_step ssl r (r\<lparr>r_srv := srv', r_net := net'\<rparr>)"
| t_leave_lobby: "r_at r = In_lobby \<Longrightarrow> sv_state (r_srv r) \<noteq> LOBBY \<Longrightarrow> br_step ssl r (r\<lparr>r_at := At_dispatch\<rparr>)"
| t_game: "r_at r = At_dispatch \<Longrightarrow> sv_state (r_srv r) = GAME
    \<Longrightarrow> enter_game (r_srv r, r_net r) = Some (Inr fds, srv', net')
    \<Longrightarrow> br_step ssl r (r\<lparr>r_srv := srv', r_net := net', r_at := In_game fds\<rparr>)"
| t_revert: "r_at r = At_dispatch \<Longrightarrow> sv_state (r_srv r) = GAME
    \<Longrightarrow> enter_game (r_srv r, r_net r) = Some (Inl (), srv', net')
    \<Longrightarrow> br_step ssl r (r\<lparr>r_srv := srv', r_net := net'\<rparr>)"
| t_listen: "r_at r = In_game fds \<Longrightarrow> sv_state (r_srv r) = GAME
    \<Longrightarrow> game_iteration ssl activity ready udp stack msg0 (fds, r_srv r, r_net r) = (go, fds', srv', net')
    \<Longrightarrow> br_step ssl r (r\<lparr>r_srv := srv', r_net := net', r_at := if go then In_game fds' else At_dispatch\<rparr>)"
| t_leave_game: "r_at r = In_game fds \<Longrightarrow> sv_state (r_srv r) \<noteq> GAME \<Longrightarrow> br_step ssl r (r\<lparr>r_at := At_dispatch\<rparr>)"
| t_end: "r_at r = At_dispatch \<Longrightarrow> sv_state (r_srv r) = END
    \<Longrightarrow> server_end_state (r_srv r, r_net r) = Some (closed, net')
    \<Longrightarrow> br_step ssl r (r\<lparr>r_net := net', r_at := At_exit\<rparr>)"

inductive br_run :: "('k, 'x, 'c, 'm) openssl \<Rightarrow> ('k, 'x) run \<Rightarrow> nat \<Rightarrow> ('k, 'x) run \<Rightarrow> bool" for ssl r0 where
  run_start: "br_run ssl r0 0 r0"
| run_step: "br_run ssl r0 n r \<Longrightarrow> br_step ssl r r' \<Longrightarrow> br_run ssl r0 (Suc n) r'"

section \<open>Invariant\<close>

text \<open>
  The ids handed out count up from the base, one per accepted connection; the clients that completed the handshake have some of
  them, in that order.
\<close>

definition ids_from :: "u32 \<Rightarrow> nat \<Rightarrow> ('k, 'x) Server \<Rightarrow> bool" where
  "ids_from id_base n srv \<longleftrightarrow> sv_next_id srv = id_base + of_nat n
     \<and> (\<exists>ks. sorted_wrt (<) ks \<and> (\<forall>k \<in> set ks. k < n)
           \<and> map ep_id (ll_nodes (sv_clients srv)) = map (\<lambda>k. id_base + of_nat k) ks)"

definition client_ok :: "Endpoint \<Rightarrow> bool" where
  "client_ok c \<longleftrightarrow> ep_socks c \<noteq> None \<and> length (ep_sesskey c) = SESSION_KEY_LEN"

definition server_wf :: "('k, 'x) Server \<Rightarrow> bool" where
  "server_wf srv \<longleftrightarrow>
     list_wf (sv_clients srv) \<and> queue_wf (sv_messages srv)
     \<and> (\<forall>c \<in> set (ll_nodes (sv_clients srv)). client_ok c)
     \<and> (\<forall>m \<in> set (queue_list (sv_messages srv)). msg_type m = MSG_APP)
     \<and> ep_socks (sv_self srv) \<noteq> None
     \<and> sv_disconnected_count srv = 0"

definition run_wf :: "('k, 'x) run \<Rightarrow> bool" where
  "run_wf r \<longleftrightarrow> server_wf (r_srv r)
     \<and> (\<forall>fds. r_at r = In_game fds \<longrightarrow> length fds = length (ll_nodes (sv_clients (r_srv r))))"

lemma set_state_simps [simp]:
  "sv_clients (set_state st srv) = sv_clients srv" "sv_messages (set_state st srv) = sv_messages srv"
  "sv_next_id (set_state st srv) = sv_next_id srv" "sv_cert (set_state st srv) = sv_cert srv"
  "sv_pkey (set_state st srv) = sv_pkey srv" "sv_state (set_state st srv) = st"
  "ep_socks (sv_self (set_state st srv)) = ep_socks (sv_self srv)" "ep_id (sv_self (set_state st srv)) = ep_id (sv_self srv)"
  "sv_disconnected_count (set_state st srv) = sv_disconnected_count srv"
  by (simp_all add: set_state_def)

lemma brserver_open_wf: "server_wf srv \<Longrightarrow> server_wf (snd (brserver_open ssl fs srv))"
  by (auto simp: brserver_open_def server_wf_def Let_def)

lemma brserver_start_wf: "server_wf srv \<Longrightarrow> server_wf (snd (brserver_start srv))"
  by (auto simp: brserver_start_def server_wf_def)

lemma brserver_end_wf: "server_wf srv \<Longrightarrow> server_wf (snd (brserver_end srv))"
  by (auto simp: brserver_end_def server_wf_def)

lemma get_app_msg_list:
  assumes "queue_wf q"
  shows "queue_wf (snd (get_app_msg q)) \<and> queue_list (snd (get_app_msg q)) = tl (queue_list q)
     \<and> fst (get_app_msg q) = (case queue_list q of [] \<Rightarrow> None | m # _ \<Rightarrow> Some (msg_content m))"
proof (cases "queue_list q = []")
  case True
  then show ?thesis using lq.empty_iff [OF assms] assms by (simp add: get_app_msg_def)
next
  case False
  then show ?thesis using lq.empty_iff [OF assms] lq.deq_ok [OF assms False] lq.deq_invar [OF assms] lq.peek_ok [OF assms]
    by (auto simp: get_app_msg_def split: list.splits)
qed

lemma ball_tl: "\<forall>x \<in> set xs. P x \<Longrightarrow> \<forall>x \<in> set (tl xs). P x"
  by (cases xs) simp_all

lemma brserver_get_app_msg_wf: "server_wf srv \<Longrightarrow> server_wf (snd (brserver_get_app_msg srv))"
  using get_app_msg_list [of "sv_messages srv"] ball_tl [of "queue_list (sv_messages srv)" "\<lambda>m. msg_type m = MSG_APP"]
  by (auto simp: brserver_get_app_msg_def server_wf_def split: prod.splits)

lemma brserver_get_disconnected_none: "server_wf srv \<Longrightarrow> brserver_get_disconnected srv = (None, srv)"
  by (simp add: brserver_get_disconnected_def server_wf_def)

lemma queue_app_list:
  assumes "queue_wf q"
  shows "queue_wf (queue_app r q) \<and>
    queue_list (queue_app r q) = queue_list q @ (case r of None \<Rightarrow> [] | Some m \<Rightarrow> if queue_room q = 0 then [] else [m])"
  using assms lq.enq_ok [OF assms] lq.enq_full [OF assms] lq.enq_invar [OF assms]
  by (auto simp: queue_app_def split: option.splits)

lemma server_receive_wf: "server_wf srv \<Longrightarrow> server_wf (server_receive ssl m srv)"
  using queue_app_list [of "sv_messages srv" "open_app ssl (sender_key srv) m"]
  by (auto simp: server_receive_def server_wf_def split: option.splits if_splits dest: open_app_type)

lemma server_receive_simps [simp]:
  "sv_clients (server_receive ssl m srv) = sv_clients srv" "sv_next_id (server_receive ssl m srv) = sv_next_id srv"
  "sv_self (server_receive ssl m srv) = sv_self srv"
  by (simp_all add: server_receive_def)

section \<open>The invariant is kept\<close>

text \<open>What an iteration of the game loop leaves alone.\<close>

definition same_room :: "('k, 'x) Server \<Rightarrow> ('k, 'x) Server \<Rightarrow> bool" where
  "same_room srv srv' \<longleftrightarrow> sv_clients srv' = sv_clients srv \<and> sv_self srv' = sv_self srv \<and> sv_next_id srv' = sv_next_id srv"

lemma same_room_refl [simp]: "same_room srv srv"
  by (simp add: same_room_def)

lemma same_room_trans: "same_room a b \<Longrightarrow> same_room b c \<Longrightarrow> same_room a c"
  by (simp add: same_room_def)

lemma server_receive_same [simp]: "same_room srv (server_receive ssl m srv)"
  by (simp add: same_room_def)

lemma tcp_loop_wf:
  assumes "server_wf srv" and "tcp_loop ssl n act ready fds i msg (srv, net) = (msg', fds', srv', net')"
  shows "server_wf srv' \<and> same_room srv srv' \<and> length fds' = length fds"
  using assms
proof (induction n arbitrary: act fds i msg srv net)
  case (Suc n)
  show ?case
  proof (cases "act > 0 \<and> i < length ready \<and> ready ! i")
    case False
    then show ?thesis using Suc by (auto split: if_splits)
  next
    case True
    obtain ok m1 net1 where r: "fd_recv (fds ! i) msg net = (ok, m1, net1)" by (metis prod_cases3)
    show ?thesis
    proof (cases ok)
      case ok: True
      have e: "tcp_loop ssl n (act - 1) ready fds (Suc i) m1 (server_receive ssl m1 srv, net1) = (msg', fds', srv', net')"
        using Suc.prems(2) True r ok by simp
      from Suc.IH [OF server_receive_wf [OF Suc.prems(1)] e] show ?thesis
        using same_room_trans [OF server_receive_same] by auto
    next
      case ok: False
      have e: "tcp_loop ssl n (act - 1) ready (fds[i := -1]) (Suc i) m1 (srv, net1) = (msg', fds', srv', net')"
        using Suc.prems(2) True r ok by simp
      from Suc.IH [OF Suc.prems(1) e] show ?thesis by simp
    qed
  qed
qed simp

lemma game_iteration_wf:
  assumes "server_wf srv" and "game_iteration ssl act ready udp stack msg0 (fds, srv, net) = (go, fds', srv', net')"
  shows "server_wf srv' \<and> same_room srv srv' \<and> length fds' = length fds"
proof -
  obtain msg fds1 srv1 net1 where
    t: "tcp_loop ssl (unat (ll_count (sv_clients srv))) act ready fds 0 msg0 (srv, net) = (msg, fds1, srv1, net1)"
    by (metis prod_cases4)
  have w: "server_wf srv1 \<and> same_room srv srv1 \<and> length fds1 = length fds" by (rule tcp_loop_wf [OF assms(1) t])
  have "srv' = srv1 \<or> (\<exists>m. srv' = server_receive ssl m srv1)" and "fds' = fds1"
    using assms(2) t by (auto simp: game_iteration_def split: option.splits prod.splits bool.splits)
  then show ?thesis using w server_receive_wf same_room_trans [OF _ server_receive_same] by blast
qed

lemma enter_game_cases:
  assumes "server_wf srv" and "enter_game (srv, net) = Some (res, srv', net')"
  shows "(res = Inl () \<and> srv' \<in> {srv, set_state LOBBY srv}) \<or>
         (srv' = srv \<and> (\<exists>fds. res = Inr fds \<and> length fds = length (ll_nodes (sv_clients srv))))"
  using assms(2) by (auto simp: enter_game_def split: if_splits option.splits prod.splits)

lemma broadcast_loop_ok:
  "\<forall>c \<in> set cs. ep_socks c \<noteq> None \<Longrightarrow> \<exists>net'. broadcast_loop (length cs) cs m net = Some (0, net')"
  by (induction cs arbitrary: net) auto

lemma send_broadcast_ok: "server_wf srv \<Longrightarrow> \<exists>net'. send_broadcast_tcp srv m net = Some (0, net')"
  by (auto simp: send_broadcast_tcp_def server_wf_def list_wf_def client_ok_def intro!: broadcast_loop_ok)

lemma enter_game_wf:
  assumes "server_wf srv"
  shows "\<exists>res net'. enter_game (srv, net) =
    (if ll_nodes (sv_clients srv) = [] then Some (Inl (), set_state LOBBY srv, net)
     else Some (Inr (map (\<lambda>c. tcp (the (ep_socks c))) (ll_nodes (sv_clients srv))), srv, net'))"
proof -
  obtain net' where b: "send_broadcast_tcp srv (blank_message (ep_id (sv_self srv)) MSG_START) net = Some (0, net')"
    using send_broadcast_ok [OF assms] by blast
  have c: "ll_count (sv_clients srv) \<le> 0 \<longleftrightarrow> ll_nodes (sv_clients srv) = []"
    using assms by (simp add: server_wf_def list_wf_def) (metis length_0_conv unat_eq_zero)
  show ?thesis using b c assms by (auto simp: enter_game_def server_wf_def client_ok_def)
qed

text \<open>The lobby adds at most one client, with the id just handed out and a key of the right length.\<close>

lemma register_client_cases:
  assumes "register_client ssl srv i socks m = Some srv'"
  shows "srv' = srv \<or>
   (\<exists>key. length key = SESSION_KEY_LEN \<and> srv' =
      srv\<lparr>sv_clients := snd (add_to_list (sv_clients srv)
            \<lparr>ep_id = i, ep_state = IDLE, ep_socks = Some socks, ep_sesskey = key\<rparr>)\<rparr>)"
  using assms by (auto simp: register_client_def split: option.splits if_splits)

lemma lobby_accept_cases:
  assumes "lobby_accept ssl fd mem msg0 (srv, net) = Some (srv', net')"
  shows "srv' = srv\<lparr>sv_next_id := sv_next_id srv + 1\<rparr> \<or>
    (\<exists>key. length key = SESSION_KEY_LEN \<and>
       srv' = srv\<lparr>sv_next_id := sv_next_id srv + 1, sv_clients := snd (add_to_list (sv_clients srv)
            \<lparr>ep_id = sv_next_id srv, ep_state = IDLE, ep_socks = Some (mem\<lparr>tcp := fd\<rparr>), ep_sesskey = key\<rparr>)\<rparr>)"
proof -
  define s1 where "s1 = srv\<lparr>sv_next_id := sv_next_id srv + 1\<rparr>"
  have "srv' = s1 \<or> (\<exists>m. register_client ssl s1 (sv_next_id srv) (mem\<lparr>tcp := fd\<rparr>) m = Some srv')"
    using assms by (auto simp: lobby_accept_def s1_def Let_def split: option.splits prod.splits bool.splits)
  then show ?thesis
  proof
    assume "\<exists>m. register_client ssl s1 (sv_next_id srv) (mem\<lparr>tcp := fd\<rparr>) m = Some srv'"
    then obtain m where "register_client ssl s1 (sv_next_id srv) (mem\<lparr>tcp := fd\<rparr>) m = Some srv'" by blast
    from register_client_cases [OF this] show ?thesis by (auto simp: s1_def)
  qed (simp add: s1_def)
qed

lemma add_to_list_nodes:
  assumes "list_wf l"
  shows "list_wf (snd (add_to_list l e)) \<and> ll_nodes (snd (add_to_list l e)) \<in> {ll_nodes l, ll_nodes l @ [e]}"
proof (cases "length (ll_nodes l) < 4294967295")
  case True
  then show ?thesis using add_to_list_ok [OF assms] by blast
next
  case False
  have "unat (ll_count l) < 2 ^ LENGTH(32)" by (rule unsigned_less)
  then have "length (ll_nodes l) < 4294967296" using assms by (simp add: list_wf_def)
  then have "length (ll_nodes l) = 4294967295" using False by simp
  then show ?thesis using add_to_list_full [OF assms] assms by simp
qed

lemma lobby_accept_wf:
  assumes "server_wf srv" and "lobby_accept ssl fd mem msg0 (srv, net) = Some (srv', net')"
  shows "server_wf srv'"
proof -
  have "\<exists>l. srv' = srv\<lparr>sv_next_id := sv_next_id srv + 1, sv_clients := l\<rparr> \<and> list_wf l \<and>
     (\<forall>c \<in> set (ll_nodes l). client_ok c)"
    using lobby_accept_cases [OF assms(2)]
  proof
    assume "srv' = srv\<lparr>sv_next_id := sv_next_id srv + 1\<rparr>"
    then show ?thesis using assms(1) by (intro exI [of _ "sv_clients srv"]) (auto simp: server_wf_def)
  next
    assume "\<exists>key. length key = SESSION_KEY_LEN \<and>
       srv' = srv\<lparr>sv_next_id := sv_next_id srv + 1, sv_clients := snd (add_to_list (sv_clients srv)
            \<lparr>ep_id = sv_next_id srv, ep_state = IDLE, ep_socks = Some (mem\<lparr>tcp := fd\<rparr>), ep_sesskey = key\<rparr>)\<rparr>"
    then obtain key where key: "length key = SESSION_KEY_LEN"
      and s0: "srv' = srv\<lparr>sv_next_id := sv_next_id srv + 1, sv_clients := snd (add_to_list (sv_clients srv)
            \<lparr>ep_id = sv_next_id srv, ep_state = IDLE, ep_socks = Some (mem\<lparr>tcp := fd\<rparr>), ep_sesskey = key\<rparr>)\<rparr>" by blast
    define c where "c = \<lparr>ep_id = sv_next_id srv, ep_state = IDLE, ep_socks = Some (mem\<lparr>tcp := fd\<rparr>), ep_sesskey = key\<rparr>"
    have c: "client_ok c" using key by (simp add: client_ok_def c_def)
    have s: "srv' = srv\<lparr>sv_next_id := sv_next_id srv + 1, sv_clients := snd (add_to_list (sv_clients srv) c)\<rparr>"
      using s0 by (simp add: c_def)
    show ?thesis using s c assms(1) add_to_list_nodes [of "sv_clients srv" c]
      by (intro exI [of _ "snd (add_to_list (sv_clients srv) c)"]) (auto simp: server_wf_def)
  qed
  then show ?thesis using assms(1) by (auto simp: server_wf_def)
qed

lemma lobby_accept_ids:
  assumes "list_wf (sv_clients srv)" and "ids_from b n srv" and "lobby_accept ssl fd mem msg0 (srv, net) = Some (srv', net')"
  shows "ids_from b (Suc n) srv'"
proof -
  from assms(2) obtain ks where nx: "sv_next_id srv = b + of_nat n" and ks: "sorted_wrt (<) ks" "\<forall>k \<in> set ks. k < n"
    "map ep_id (ll_nodes (sv_clients srv)) = map (\<lambda>k. b + of_nat k) ks" unfolding ids_from_def by blast
  have old: "\<exists>ks'. sorted_wrt (<) ks' \<and> (\<forall>k \<in> set ks'. k < Suc n) \<and>
      map ep_id (ll_nodes (sv_clients srv)) = map (\<lambda>k. b + of_nat k) ks'"
    using ks by (intro exI [of _ ks]) auto
  have new: "\<exists>ks'. sorted_wrt (<) ks' \<and> (\<forall>k \<in> set ks'. k < Suc n) \<and>
      map ep_id (ll_nodes (sv_clients srv) @ [c]) = map (\<lambda>k. b + of_nat k) ks'" if "ep_id c = sv_next_id srv" for c
    using ks nx that by (intro exI [of _ "ks @ [n]"]) (auto simp: sorted_wrt_append)
  have nx': "sv_next_id srv + 1 = b + of_nat (Suc n)" using nx by simp
  from lobby_accept_cases [OF assms(3)] show ?thesis
  proof
    assume "srv' = srv\<lparr>sv_next_id := sv_next_id srv + 1\<rparr>"
    then show ?thesis using nx' old by (simp add: ids_from_def)
  next
    assume "\<exists>key. length key = SESSION_KEY_LEN \<and>
       srv' = srv\<lparr>sv_next_id := sv_next_id srv + 1, sv_clients := snd (add_to_list (sv_clients srv)
            \<lparr>ep_id = sv_next_id srv, ep_state = IDLE, ep_socks = Some (mem\<lparr>tcp := fd\<rparr>), ep_sesskey = key\<rparr>)\<rparr>"
    then obtain key where "srv' = srv\<lparr>sv_next_id := sv_next_id srv + 1, sv_clients := snd (add_to_list (sv_clients srv)
            \<lparr>ep_id = sv_next_id srv, ep_state = IDLE, ep_socks = Some (mem\<lparr>tcp := fd\<rparr>), ep_sesskey = key\<rparr>)\<rparr>" by blast
    moreover define c where "c = \<lparr>ep_id = sv_next_id srv, ep_state = IDLE, ep_socks = Some (mem\<lparr>tcp := fd\<rparr>), ep_sesskey = key\<rparr>"
    ultimately have s: "sv_next_id srv' = sv_next_id srv + 1" "sv_clients srv' = snd (add_to_list (sv_clients srv) c)" by simp_all
    have "ep_id c = sv_next_id srv" by (simp add: c_def)
    from new [OF this] old add_to_list_nodes [OF assms(1), of c] show ?thesis
      using nx' s by (auto simp: ids_from_def)
  qed
qed

text \<open>The calls of the application leave the clients and the ids alone.\<close>

lemma app_calls_room [simp]:
  "sv_clients (snd (brserver_open ssl fs srv)) = sv_clients srv" "sv_next_id (snd (brserver_open ssl fs srv)) = sv_next_id srv"
  "sv_clients (snd (brserver_start srv)) = sv_clients srv" "sv_next_id (snd (brserver_start srv)) = sv_next_id srv"
  "sv_clients (snd (brserver_end srv)) = sv_clients srv" "sv_next_id (snd (brserver_end srv)) = sv_next_id srv"
  "sv_clients (snd (brserver_get_app_msg srv)) = sv_clients srv" "sv_next_id (snd (brserver_get_app_msg srv)) = sv_next_id srv"
  by (simp_all add: brserver_open_def brserver_start_def brserver_end_def brserver_get_app_msg_def Let_def split: prod.splits)

lemma run_wf_keep:
  assumes "server_wf srv'" and "sv_clients srv' = sv_clients srv" and "sv_next_id srv' = sv_next_id srv" and "ids_from b n srv"
    and "r_srv r' = srv'" and "\<And>fds. r_at r' = In_game fds \<Longrightarrow> length fds = length (ll_nodes (sv_clients srv))"
  shows "run_wf r' \<and> (\<exists>n' \<le> Suc n. ids_from b n' (r_srv r'))"
proof -
  have "ids_from b n (r_srv r')" using assms(2-5) by (simp add: ids_from_def)
  then show ?thesis using assms by (auto simp: run_wf_def intro!: exI [of _ n])
qed

lemma set_state_wf: "server_wf srv \<Longrightarrow> server_wf (set_state st srv)"
  by (simp add: server_wf_def)

text \<open>The steps keep the invariant, and hand out at most one id each.\<close>

lemma br_step_wf:
  assumes "br_step ssl r r'" and "run_wf r" and ids: "ids_from b n (r_srv r)"
  shows "run_wf r' \<and> (\<exists>n' \<le> Suc n. ids_from b n' (r_srv r'))"
proof -
  have w: "server_wf (r_srv r)" and f: "\<And>fds. r_at r = In_game fds \<Longrightarrow> length fds = length (ll_nodes (sv_clients (r_srv r)))"
    using assms(2) by (simp_all add: run_wf_def)
  from assms(1) show ?thesis
  proof cases
    case (s_open fs)
    show ?thesis by (rule run_wf_keep [OF brserver_open_wf [OF w, of ssl fs] _ _ ids]) (use s_open f in auto)
  next
    case s_start
    show ?thesis by (rule run_wf_keep [OF brserver_start_wf [OF w] _ _ ids]) (use s_start f in auto)
  next
    case s_end
    show ?thesis by (rule run_wf_keep [OF brserver_end_wf [OF w] _ _ ids]) (use s_end f in auto)
  next
    case s_get
    show ?thesis by (rule run_wf_keep [OF brserver_get_app_msg_wf [OF w] _ _ ids]) (use s_get f in auto)
  next
    case s_disconnected
    show ?thesis by (rule run_wf_keep [OF w _ _ ids])
      (use s_disconnected f brserver_get_disconnected_none [OF w] in auto)
  next
    case (t_accept poll_r accept_r mem msg0 srv' net')
    show ?thesis
    proof (cases "poll_r \<le> 0 \<or> accept_r < 0")
      case True
      show ?thesis by (rule run_wf_keep [OF w _ _ ids]) (use t_accept f True in \<open>auto simp: lobby_iteration_def split: if_splits\<close>)
    next
      case False
      then have a: "lobby_accept ssl accept_r mem msg0 (r_srv r, r_net r) = Some (srv', net')"
        using t_accept by (simp add: lobby_iteration_def)
      have "list_wf (sv_clients (r_srv r))" using w by (simp add: server_wf_def)
      from lobby_accept_wf [OF w a] lobby_accept_ids [OF this ids a] show ?thesis
        using t_accept by (auto simp: run_wf_def)
    qed
  next
    case (t_game fds srv' net')
    show ?thesis by (rule run_wf_keep [OF w _ _ ids])
      (use t_game enter_game_cases [OF w, of "r_net r"] in auto)
  next
    case (t_revert srv' net')
    then have "srv' \<in> {r_srv r, set_state LOBBY (r_srv r)}" using enter_game_cases [OF w, of "r_net r"] by blast
    then have "server_wf srv'" "sv_clients srv' = sv_clients (r_srv r)" "sv_next_id srv' = sv_next_id (r_srv r)"
      using w set_state_wf by auto
    from run_wf_keep [OF this ids, of r'] show ?thesis using t_revert by simp
  next
    case (t_listen fds activity ready udp stack msg0 go fds' srv' net')
    have "server_wf srv'" "sv_clients srv' = sv_clients (r_srv r)" "sv_next_id srv' = sv_next_id (r_srv r)"
      "length fds' = length fds"
      using game_iteration_wf [OF w t_listen(4)] by (simp_all add: same_room_def)
    from run_wf_keep [OF this(1-3) ids, of r'] this(4) show ?thesis using t_listen f by (auto split: if_splits)
  qed (rule run_wf_keep [OF w refl refl ids]; use f in \<open>auto simp: assms(2)\<close>)+
qed

lemma init_room_wf:
  assumes "brserver_init_room os mem queue disc tp up b = (res, Some srv)"
  shows "server_wf srv \<and> ids_from b 0 srv \<and> sv_state srv = IDLE"
proof -
  have "queue_wf (queue_init queue)" "queue_list (queue_init queue) = []" by (simp_all add: queue_init_wf queue_init_list)
  then show ?thesis using assms
    by (auto simp: brserver_init_room_def create_endpoint_def server_wf_def ids_from_def initalise_list_def list_wf_def
        split: option.splits prod.splits if_splits)
qed

definition run_init :: "('k, 'x) Server \<Rightarrow> net \<Rightarrow> ('k, 'x) run" where
  "run_init srv net = \<lparr>r_srv = srv, r_net = net, r_at = At_dispatch\<rparr>"

lemma br_run_wf:
  assumes "brserver_init_room os mem queue disc tp up b = (res, Some srv)" and "br_run ssl (run_init srv net) n r"
  shows "run_wf r \<and> (\<exists>n' \<le> n. ids_from b n' (r_srv r))"
  using assms(2)
proof (induction rule: br_run.induct)
  case run_start
  show ?case using init_room_wf [OF assms(1)] by (auto simp: run_wf_def run_init_def)
next
  case (run_step n r r')
  then obtain n' where n': "n' \<le> n" "ids_from b n' (r_srv r)" by blast
  from br_step_wf [OF run_step.hyps(2) _ n'(2)] run_step.IH n'(1) show ?case
    by (meson Suc_le_mono le_trans)
qed

lemma ids_from_distinct:
  assumes "ids_from b n srv" and "n \<le> 2 ^ 32"
  shows "distinct (map ep_id (ll_nodes (sv_clients srv)))"
proof -
  from assms(1) obtain ks where ks: "sorted_wrt (<) ks" "\<forall>k \<in> set ks. k < n"
    "map ep_id (ll_nodes (sv_clients srv)) = map (\<lambda>k. b + of_nat k) ks" unfolding ids_from_def by blast
  have "inj_on (\<lambda>k. b + of_nat k) (set ks)"
  proof (rule inj_onI)
    fix x y assume a: "x \<in> set ks" "y \<in> set ks" and e: "b + of_nat x = b + (of_nat y :: u32)"
    have "x < 2 ^ 32" "y < 2 ^ 32" using ks(2) a assms(2) by (meson less_le_trans)+
    moreover have "unat (of_nat x :: u32) = unat (of_nat y :: u32)" using e by simp
    ultimately show "x = y" by (simp add: unat_of_nat_u32)
  qed
  moreover have "distinct ks" using ks(1) strict_sorted_iff by blast
  ultimately show ?thesis using ks(3) by (simp add: distinct_map)
qed

section \<open>Properties\<close>

text \<open>A server that could be started, and a run of it.\<close>

definition good_os :: os_results where
  "good_os = \<lparr>os_tcp = 3, os_udp_uni = 4, os_udp_broad = 5, os_bind_tcp = 0, os_listen = 0, os_setsockopt = 0,
              os_bind_udp = 0, os_thread = 0\<rparr>"

definition fresh_server :: "(unit, unit) Server" where
  "fresh_server = the (snd (brserver_init_room good_os [] \<lparr>q_items = [], q_front = 0, q_rear = 0\<rparr> [] 6900 6910 1))"

lemma fresh_server_init:
  "brserver_init_room good_os [] \<lparr>q_items = [], q_front = 0, q_rear = 0\<rparr> [] 6900 6910 1 = (0, Some fresh_server)"
  by (simp add: fresh_server_def brserver_init_room_def create_endpoint_def create_sockets_def good_os_def
      listen_on_tcp_def check_sockets_def prepare_broadcast_udp_def prepare_unicast_udp_def)

definition quiet_net :: net where
  "quiet_net fd = \<lparr>c_rx = [], c_tx = \<lparr>tx_plan = [], tx_wire = []\<rparr>\<rparr>"

definition disk :: files where
  "disk name = Some []"

lemma fresh_server_opens:
  "br_run plain_ssl (run_init fresh_server quiet_net) 1
     (run_init (snd (brserver_open plain_ssl disk fresh_server)) quiet_net)"
proof -
  have "br_step plain_ssl (run_init fresh_server quiet_net)
     ((run_init fresh_server quiet_net)\<lparr>r_srv := snd (brserver_open plain_ssl disk (r_srv (run_init fresh_server quiet_net)))\<rparr>)"
    by (rule br_step.s_open) (simp add: run_init_def)
  with br_run.run_step [OF br_run.run_start this] show ?thesis by (simp add: run_init_def)
qed

text \<open>
  Lemma (disconnects_never_reported): in every run of a server, \<open>brserver_get_disconnected\<close> reports no client, however many connections broke
  during the game: a read that fails sets the polled descriptor to -1 and nothing is ever put on the list of disconnects.
\<close>

theorem disconnects_never_reported:
  assumes "brserver_init_room os mem queue disc tp up id_base = (res, Some srv)" and "br_run ssl (run_init srv net) n r"
  shows "brserver_get_disconnected (r_srv r) = (None, r_srv r)"
  using br_run_wf [OF assms] brserver_get_disconnected_none by (auto simp: run_wf_def)

theorem disconnects_never_reported_witness:
  "fst (brserver_get_disconnected (snd (brserver_open plain_ssl disk fresh_server))) = None"
  using disconnects_never_reported [OF fresh_server_init fresh_server_opens] by (simp add: run_init_def)

text \<open>
  Lemma (server_state_order): a step takes a server into the game only from the lobby and into the end only from the game, and
  the background thread is in the game loop only after it told the clients to start: it enters the loop by a step that found the state
  to be the game and at least one client registered.
\<close>

theorem server_state_order:
  assumes "br_step ssl r r'" and "run_wf r"
  shows "(sv_state (r_srv r') = GAME \<longrightarrow> sv_state (r_srv r) \<in> {LOBBY, GAME})
    \<and> (sv_state (r_srv r') = END \<longrightarrow> sv_state (r_srv r) \<in> {GAME, END})
    \<and> (\<forall>fds. r_at r' = In_game fds \<and> (\<forall>fds0. r_at r \<noteq> In_game fds0) \<longrightarrow>
         sv_state (r_srv r) = GAME \<and> ll_nodes (sv_clients (r_srv r)) \<noteq> []
         \<and> (\<exists>c. send_broadcast_tcp (r_srv r) (blank_message (ep_id (sv_self (r_srv r))) MSG_START) (r_net r)
                = Some (c, r_net r')))"
  using assms(1)
proof cases
  case (t_game fds srv' net')
  have w: "server_wf (r_srv r)" using assms(2) by (simp add: run_wf_def)
  have "ll_nodes (sv_clients (r_srv r)) \<noteq> []" using enter_game_wf [OF w, of "r_net r"] t_game(4) by (auto split: if_splits)
  moreover have "\<exists>c. send_broadcast_tcp (r_srv r) (blank_message (ep_id (sv_self (r_srv r))) MSG_START) (r_net r) = Some (c, net')"
    using t_game(4) by (auto simp: enter_game_def split: if_splits option.splits)
  ultimately show ?thesis using t_game enter_game_cases [OF w t_game(4)] by auto
next
  case (t_revert srv' net')
  have w: "server_wf (r_srv r)" using assms(2) by (simp add: run_wf_def)
  show ?thesis using t_revert enter_game_cases [OF w t_revert(4)] by auto
next
  case (t_accept poll_r accept_r mem msg0 srv' net')
  have "sv_self srv' = sv_self (r_srv r)"
  proof (cases "poll_r \<le> 0 \<or> accept_r < 0")
    case True
    then show ?thesis using t_accept(4) by (auto simp: lobby_iteration_def split: if_splits)
  next
    case False
    then have "lobby_accept ssl accept_r mem msg0 (r_srv r, r_net r) = Some (srv', net')"
      using t_accept(4) by (simp add: lobby_iteration_def)
    from lobby_accept_cases [OF this] show ?thesis by auto
  qed
  then show ?thesis using t_accept by simp
next
  case (t_listen fds activity ready udp stack msg0 go fds' srv' net')
  have "sv_self srv' = sv_self (r_srv r)"
    using game_iteration_wf [OF _ t_listen(4)] assms(2) by (simp add: run_wf_def same_room_def)
  then show ?thesis using t_listen by simp
qed (auto simp: brserver_open_def brserver_start_def brserver_end_def brserver_get_app_msg_def brserver_get_disconnected_def
       Let_def split: prod.splits)

theorem server_state_order_witness:
  "sv_state (snd (brserver_start fresh_server)) \<noteq> GAME"
proof -
  have w: "run_wf (run_init fresh_server quiet_net)"
    using init_room_wf [OF fresh_server_init] by (simp add: run_wf_def run_init_def)
  have i: "sv_state fresh_server = IDLE" using init_room_wf [OF fresh_server_init] by simp
  have "br_step plain_ssl (run_init fresh_server quiet_net)
     ((run_init fresh_server quiet_net)\<lparr>r_srv := snd (brserver_start (r_srv (run_init fresh_server quiet_net)))\<rparr>)"
    by (rule br_step.s_start) (simp add: run_init_def)
  from server_state_order [OF this w] i show ?thesis by (auto simp: run_init_def)
qed

text \<open>What a broadcast leaves on the connections.\<close>

lemma fd_send_live:
  assumes "message_wf m" and "0 \<notin> set (tx_plan (c_tx (net fd)))" and "2060 \<le> length (tx_plan (c_tx (net fd)))"
  obtains t where "fd_send fd m net = (True, net(fd := (net fd)\<lparr>c_tx := t\<rparr>))"
    and "tx_wire t = tx_wire (c_tx (net fd)) @ encode_message m"
proof -
  have "2060 + 0 \<le> length (tx_plan (c_tx (net fd)))" using assms(3) by simp
  from send_message_liveE [OF assms(1,2) this] obtain t where t: "send_message_tcp m (c_tx (net fd)) = (True, t)" by blast
  then show ?thesis using send_message_wire [OF t] by (intro that [of t]) (simp_all add: fd_send_def encode_message_def)
qed

lemma broadcast_loop_wire:
  assumes "message_wf m" and "\<forall>c \<in> set cs. ep_socks c \<noteq> None" and "distinct (map (\<lambda>c. tcp (the (ep_socks c))) cs)"
    and "\<forall>c \<in> set cs. 0 \<notin> set (tx_plan (c_tx (net (tcp (the (ep_socks c))))))
           \<and> 2060 \<le> length (tx_plan (c_tx (net (tcp (the (ep_socks c))))))"
  shows "\<exists>net'. broadcast_loop (length cs) cs m net = Some (0, net') \<and>
     (\<forall>c \<in> set cs. tx_wire (c_tx (net' (tcp (the (ep_socks c)))))
         = tx_wire (c_tx (net (tcp (the (ep_socks c))))) @ encode_message m) \<and>
     (\<forall>fd. fd \<notin> (\<lambda>c. tcp (the (ep_socks c))) ` set cs \<longrightarrow> net' fd = net fd)"
  using assms(2-)
proof (induction cs arbitrary: net)
  case (Cons c cs)
  define fd where "fd = tcp (the (ep_socks c))"
  obtain s where s: "ep_socks c = Some s" using Cons.prems(1) by auto
  have p: "0 \<notin> set (tx_plan (c_tx (net fd)))" "2060 \<le> length (tx_plan (c_tx (net fd)))" using Cons.prems(3) by (auto simp: fd_def)
  from fd_send_live [where fd = fd and net = net, OF assms(1) p] obtain t where t: "fd_send fd m net = (True, net(fd := (net fd)\<lparr>c_tx := t\<rparr>))"
    and tw: "tx_wire t = tx_wire (c_tx (net fd)) @ encode_message m" .
  define net1 where "net1 = net(fd := (net fd)\<lparr>c_tx := t\<rparr>)"
  have nin: "fd \<notin> (\<lambda>c. tcp (the (ep_socks c))) ` set cs" using Cons.prems(2) by (simp add: fd_def)
  have keep: "net1 (tcp (the (ep_socks d))) = net (tcp (the (ep_socks d)))" if "d \<in> set cs" for d
    using nin that by (auto simp: net1_def)
  have "\<exists>net'. broadcast_loop (length cs) cs m net1 = Some (0, net') \<and>
     (\<forall>c \<in> set cs. tx_wire (c_tx (net' (tcp (the (ep_socks c)))))
         = tx_wire (c_tx (net1 (tcp (the (ep_socks c))))) @ encode_message m) \<and>
     (\<forall>fd. fd \<notin> (\<lambda>c. tcp (the (ep_socks c))) ` set cs \<longrightarrow> net' fd = net1 fd)"
    by (rule Cons.IH) (use Cons.prems keep in auto)
  then obtain net' where n: "broadcast_loop (length cs) cs m net1 = Some (0, net')"
    and r: "\<forall>c \<in> set cs. tx_wire (c_tx (net' (tcp (the (ep_socks c)))))
         = tx_wire (c_tx (net1 (tcp (the (ep_socks c))))) @ encode_message m"
    and o: "\<forall>fd. fd \<notin> (\<lambda>c. tcp (the (ep_socks c))) ` set cs \<longrightarrow> net' fd = net1 fd" by blast
  have "broadcast_loop (length (c # cs)) (c # cs) m net = Some (0, net')"
    using n t s by (simp add: net1_def fd_def)
  moreover have "tx_wire (c_tx (net' fd)) = tx_wire (c_tx (net fd)) @ encode_message m"
    using o nin tw by (simp add: net1_def)
  ultimately show ?case using r o keep by (intro exI [of _ net']) (auto simp: fd_def net1_def)
qed simp

text \<open>
  Lemma (broadcast_reaches_all): \<open>brserver_send_to_all\<close> puts the application message, byte for byte, on the connection of every client
  that is registered, behind what was sent to it before, and touches no other connection.
\<close>

theorem broadcast_reaches_all:
  assumes "server_wf srv" and "distinct (map (\<lambda>c. tcp (the (ep_socks c))) (ll_nodes (sv_clients srv)))"
    and "length content = 2048"
    and "\<forall>c \<in> set (ll_nodes (sv_clients srv)). 0 \<notin> set (tx_plan (c_tx (net (tcp (the (ep_socks c))))))
           \<and> 2060 \<le> length (tx_plan (c_tx (net (tcp (the (ep_socks c))))))"
  shows "\<exists>res net'. brserver_send_to_all srv content net = Some (res, net') \<and>
     (\<forall>c \<in> set (ll_nodes (sv_clients srv)). tx_wire (c_tx (net' (tcp (the (ep_socks c)))))
        = tx_wire (c_tx (net (tcp (the (ep_socks c)))))
          @ encode_message \<lparr>source_id = ep_id (sv_self srv), msg_len = 0, msg_type = MSG_APP, msg_content = content\<rparr>) \<and>
     (\<forall>fd. fd \<notin> (\<lambda>c. tcp (the (ep_socks c))) ` set (ll_nodes (sv_clients srv)) \<longrightarrow> net' fd = net fd)"
proof -
  define m where "m = \<lparr>source_id = ep_id (sv_self srv), msg_len = 0, msg_type = MSG_APP, msg_content = content\<rparr>"
  have wf: "message_wf m" using assms(3) by (simp add: m_def message_wf_def MSG_CONTENT_LENGTH_def)
  have cl: "\<forall>c \<in> set (ll_nodes (sv_clients srv)). ep_socks c \<noteq> None" and
    n: "unat (ll_count (sv_clients srv)) = length (ll_nodes (sv_clients srv))"
    using assms(1) by (auto simp: server_wf_def client_ok_def list_wf_def)
  from broadcast_loop_wire [OF wf cl assms(2,4)] obtain net' where
    b: "send_broadcast_tcp srv m net = Some (0, net')" and
    r: "\<forall>c \<in> set (ll_nodes (sv_clients srv)). tx_wire (c_tx (net' (tcp (the (ep_socks c)))))
        = tx_wire (c_tx (net (tcp (the (ep_socks c))))) @ encode_message m" and
    o: "\<forall>fd. fd \<notin> (\<lambda>c. tcp (the (ep_socks c))) ` set (ll_nodes (sv_clients srv)) \<longrightarrow> net' fd = net fd"
    by (auto simp: send_broadcast_tcp_def n)
  have "brserver_send_to_all srv content net = Some (None, net')"
    using b assms(3) by (simp add: brserver_send_to_all_def blank_message_def m_def MSG_CONTENT_LENGTH_def)
  then show ?thesis using r o unfolding m_def by blast
qed

definition room_of_one :: "(unit, unit) Server" where
  "room_of_one = fresh_server\<lparr>sv_clients := snd (add_to_list initalise_list
     \<lparr>ep_id = 1, ep_state = IDLE, ep_socks = Some \<lparr>tcp = 9, udp_uni = 0, udp_broad = 0\<rparr>, ep_sesskey = replicate 32 2\<rparr>)\<rparr>"

lemma room_of_one_wf: "server_wf room_of_one"
  using init_room_wf [OF fresh_server_init] add_to_list_ok [OF initalise_list_wf]
  by (auto simp: room_of_one_def server_wf_def initalise_list_def client_ok_def crypto_lens)

lemma room_of_one_nodes:
  "ll_nodes (sv_clients room_of_one) =
     [\<lparr>ep_id = 1, ep_state = IDLE, ep_socks = Some \<lparr>tcp = 9, udp_uni = 0, udp_broad = 0\<rparr>, ep_sesskey = replicate 32 2\<rparr>]"
  by (simp add: room_of_one_def add_to_list_def initalise_list_def UINT32_MAX_def)

lemma room_of_one_self: "sv_self room_of_one = sv_self fresh_server" "ep_id (sv_self fresh_server) = 0"
  by (simp_all add: room_of_one_def fresh_server_def brserver_init_room_def create_endpoint_def create_sockets_def good_os_def
      listen_on_tcp_def check_sockets_def prepare_broadcast_udp_def prepare_unicast_udp_def)

definition open_net :: net where
  "open_net fd = \<lparr>c_rx = [], c_tx = \<lparr>tx_plan = replicate 2060 1, tx_wire = []\<rparr>\<rparr>"

theorem broadcast_reaches_all_witness:
  "\<exists>res net'. brserver_send_to_all room_of_one (replicate 2048 1) open_net = Some (res, net') \<and> net' 7 = open_net 7 \<and>
     tx_wire (c_tx (net' 9)) = encode_message \<lparr>source_id = 0, msg_len = 0, msg_type = 7, msg_content = replicate 2048 1\<rparr>"
proof -
  have "set (replicate 2060 (1 :: nat)) = {1}" by (subst set_replicate_conv_if) simp
  then show ?thesis
    using broadcast_reaches_all [OF room_of_one_wf, of "replicate 2048 1" open_net]
    by (auto simp: room_of_one_nodes room_of_one_self open_net_def msg_types)
qed

text \<open>
  Lemma (end_leaves_descriptors_open): the \<open>Sockets\<close> structure of a client is allocated in the lobby with only its TCP descriptor set. When
  the memory behind its unicast descriptor was not positive, the end of a game still tells the clients, but releases
  nothing: \<open>free_list\<close> stops at that client, and neither the descriptors from there on nor the server's own are closed.
\<close>

theorem end_leaves_descriptors_open:
  assumes "server_wf srv" and "ll_nodes (sv_clients srv) = c # cs" and "ep_socks c = Some (mem\<lparr>tcp := fd\<rparr>)" and "udp_uni mem \<le> 0"
  shows "\<exists>net'. send_broadcast_tcp srv (blank_message (ep_id (sv_self srv)) MSG_END) net = Some (0, net')
     \<and> free_server srv = Some (-1, []) \<and> server_end_state (srv, net) = Some ([], net')"
proof -
  obtain net' where b: "send_broadcast_tcp srv (blank_message (ep_id (sv_self srv)) MSG_END) net = Some (0, net')"
    using send_broadcast_ok [OF assms(1)] by blast
  have "check_sockets (mem\<lparr>tcp := fd\<rparr>) = 0" using assms(4) by (simp add: check_sockets_def)
  then have "free_server srv = Some (-1, [])"
    using assms(2,3) by (simp add: free_server_def free_list_def close_sockets_def)
  then show ?thesis using b by (simp add: server_end_state_def)
qed

theorem end_leaves_descriptors_open_witness:
  "\<exists>net'. server_end_state (room_of_one, open_net) = Some ([], net')"
  using end_leaves_descriptors_open [OF room_of_one_wf room_of_one_nodes, of 9 "\<lparr>tcp = 0, udp_uni = 0, udp_broad = 0\<rparr>" open_net]
  by auto

text \<open>
  Lemma (plain_messages_accepted): the server queues an unencrypted application message for the application as it arrived, whatever
  source it claims, registered or not; an encrypted one is queued only when a client is registered under the claimed source and the
  content carries a valid tag under that client's key.
\<close>

theorem plain_messages_accepted:
  assumes "hmac_law ssl" and "message_wf m" and "queue_wf (sv_messages srv)" and "0 < queue_room (sv_messages srv)"
  shows "(msg_type m = MSG_APP \<longrightarrow>
      queue_list (sv_messages (server_receive ssl m srv)) = queue_list (sv_messages srv) @ [m])
   \<and> (msg_type m = MSG_APP_ENC \<and> server_receive ssl m srv \<noteq> srv \<longrightarrow>
      (\<exists>c body tag. get_from_list (sv_clients srv) (source_id m) = Some c
         \<and> take (unat (msg_len m)) (msg_content m) = body @ tag
         \<and> HMAC_sha256 ssl (take 16 (ep_sesskey c)) body = Some tag))"
proof
  show "msg_type m = MSG_APP \<longrightarrow> queue_list (sv_messages (server_receive ssl m srv)) = queue_list (sv_messages srv) @ [m]"
    using lq.enq_ok [OF assms(3,4)] by (simp add: server_receive_def open_app_def queue_app_def)
  show "msg_type m = MSG_APP_ENC \<and> server_receive ssl m srv \<noteq> srv \<longrightarrow>
      (\<exists>c body tag. get_from_list (sv_clients srv) (source_id m) = Some c
         \<and> take (unat (msg_len m)) (msg_content m) = body @ tag
         \<and> HMAC_sha256 ssl (take 16 (ep_sesskey c)) body = Some tag)"
  proof (intro impI, elim conjE)
    assume t: "msg_type m = MSG_APP_ENC" and ne: "server_receive ssl m srv \<noteq> srv"
    have "open_app ssl (sender_key srv) m \<noteq> None" using ne by (cases "open_app ssl (sender_key srv) m")
      (simp_all add: server_receive_def queue_app_def)
    then obtain c out n where c: "get_from_list (sv_clients srv) (source_id m) = Some c"
      and d: "decrypt_message ssl m (ep_sesskey c) = Some (out, n)"
      using t by (auto simp: open_app_def sender_key_def msg_types split: option.splits)
    from valid_token [OF assms(1,2) d] show
      "\<exists>c body tag. get_from_list (sv_clients srv) (source_id m) = Some c
         \<and> take (unat (msg_len m)) (msg_content m) = body @ tag
         \<and> HMAC_sha256 ssl (take 16 (ep_sesskey c)) body = Some tag" using c by metis
  qed
qed

theorem plain_messages_accepted_witness:
  "queue_list (sv_messages (server_receive plain_ssl (image_message (replicate 4 5 @ replicate 4 0 @ [7, 0, 0, 0] @ replicate 2048 65))
      (fresh_server\<lparr>sv_messages := \<lparr>q_items = [blank_message 0 0], q_front = -1, q_rear = 0\<rparr>\<rparr>)))
   = [image_message (replicate 4 5 @ replicate 4 0 @ [7, 0, 0, 0] @ replicate 2048 65)]"
proof -
  define m where "m = image_message (replicate 4 5 @ replicate 4 0 @ [7, 0, 0, 0] @ replicate 2048 65)"
  have "message_wf m" unfolding m_def by (rule image_message_wf) simp
  moreover have "msg_type m = MSG_APP"
    by (simp add: m_def image_message_def from_le32_def from_be32_def MSG_APP_def)
  ultimately show ?thesis unfolding m_def [symmetric]
    using plain_messages_accepted [OF plain_hmac_law, of m
      "fresh_server\<lparr>sv_messages := \<lparr>q_items = [blank_message 0 0], q_front = -1, q_rear = 0\<rparr>\<rparr>"]
    by (simp add: queue_wf_def queue_room_def queue_list_def)
qed

end
