(* ===== verification/BR_Client.thy ===== *)
theory BR_Client
  imports Connection
begin

text \<open>
  The client end of the transport: \<open>libbattleroyale/client.c\<close>.

  The record holds the endpoint and the static variables of the file. What the kernel returns is an argument: for \<open>brclient_join\<close> the
  record \<open>join_env\<close>, whose \<open>j_conn\<close> is the connection that a \<open>connect\<close> to a port gives.
\<close>

record BRClient =
  cl_ep :: Endpoint
  cl_server_ip :: string
  cl_messages :: "Message queue"
  cl_static_key :: "u8 list"

abbreviation cl_state :: "BRClient \<Rightarrow> EndpointState" where
  "cl_state c \<equiv> ep_state (cl_ep c)"

definition set_cl_state :: "EndpointState \<Rightarrow> BRClient \<Rightarrow> BRClient" where
  "set_cl_state st c = c\<lparr>cl_ep := (cl_ep c)\<lparr>ep_state := st\<rparr>\<rparr>"

section \<open>Creation\<close>

text \<open>
  \<open>create_endpoint\<close> has already made sockets when \<open>create_sockets\<close> is called for the same pointer. The second component lists the
  descriptors that nothing refers to any more.
\<close>

definition brclient_init ::
  "u8 list \<Rightarrow> int \<times> int \<times> int \<Rightarrow> int \<times> int \<times> int \<Rightarrow> int \<Rightarrow> Message queue \<Rightarrow> u8 list
   \<Rightarrow> int \<times> BRClient option \<times> int list" where
  "brclient_init mem fds1 fds2 thread_r queue static_key =
     (case fds1 of (t1, u1, b1) \<Rightarrow> (case fds2 of (t2, u2, b2) \<Rightarrow>
      (case create_endpoint mem t1 u1 b1 of
         (None, _) \<Rightarrow> (-1, None, [])
       | (Some new_client, _) \<Rightarrow>
           (case create_sockets t2 u2 b2 of
              (None, _) \<Rightarrow> (-1, None, [t1, u1, b1])
            | (Some socks, _) \<Rightarrow>
                (if thread_r \<noteq> 0 then 1 else 0,
                 Some \<lparr>cl_ep = new_client\<lparr>ep_socks := Some socks, ep_id := 0, ep_state := IDLE\<rparr>,
                       cl_server_ip = [], cl_messages = queue_init queue, cl_static_key = static_key\<rparr>,
                 [t1, u1, b1])))))"

section \<open>Joining a room\<close>

text \<open>\<open>inet_pton\<close> returns 0 for a string that is no address; the code only looks for a negative result.\<close>

definition connect_on_tcp :: "int \<Rightarrow> int \<Rightarrow> int" where
  "connect_on_tcp pton_r connect_r = (if pton_r < 0 then -1 else if connect_r < 0 then -1 else connect_r)"

definition prepare_udp :: "int \<Rightarrow> int" where
  "prepare_udp bind_r = (if bind_r < 0 then -1 else 0)"

definition connect_udp_uni :: "int \<Rightarrow> int \<Rightarrow> int" where
  "connect_udp_uni pton_r connect_r = (if pton_r < 0 then -1 else if connect_r < 0 then -1 else 0)"

record join_env =
  j_pton :: int
  j_connect :: "u16 \<Rightarrow> int"
  j_conn :: "u16 \<Rightarrow> conn"
  j_socket :: int
  j_nonce :: "u8 list"
  j_behind_nonce :: "u8 list"
  j_key :: "u8 list option"
  j_bind_udp :: int
  j_connect_udp :: int
  j_msg0 :: Message

text \<open>
  The nonce is printed into the message with \<open>%s\<close>: the bytes up to the first zero, from the nonce and then from the memory behind it, and
  a zero, at most 2048 bytes in all. The rest of the content is left from the certificate.
\<close>

definition c_string :: "u8 list \<Rightarrow> u8 list" where
  "c_string bs = takeWhile (\<lambda>b. b \<noteq> 0) bs"

definition nonce_content :: "u8 list \<Rightarrow> u8 list \<Rightarrow> u8 list \<Rightarrow> u8 list" where
  "nonce_content nonce behind content = mem_write 0 (take 2047 (c_string (nonce @ behind)) @ [0]) content"

definition nonce_message :: "u32 \<Rightarrow> u8 list \<Rightarrow> u8 list \<Rightarrow> Message \<Rightarrow> Message" where
  "nonce_message i nonce behind msg =
     msg\<lparr>msg_type := MSG_AUTH, source_id := i, msg_content := nonce_content nonce behind (msg_content msg)\<rparr>"

definition key_message :: "u32 \<Rightarrow> u8 list \<Rightarrow> Message \<Rightarrow> Message" where
  "key_message i enc_key msg =
     msg\<lparr>source_id := i, msg_type := MSG_KEY, msg_len := of_nat (length enc_key),
         msg_content := mem_write 0 enc_key (msg_content msg)\<rparr>"

text \<open>
  The part on the room's connection, from the certificate on. \<open>None\<close> is a loop that never ends, or a received length that
  makes the certificate or the signature be read past the end of \<open>msg_content\<close>; otherwise the result of
  \<open>brclient_join\<close>, the client and the connection.
\<close>

definition join_finish :: "join_env \<Rightarrow> BRClient \<Rightarrow> conn \<Rightarrow> int \<times> BRClient \<times> conn" where
  "join_finish env c cn =
     (if prepare_udp (j_bind_udp env) < 0 then (-1, c, cn)
      else if connect_udp_uni (j_pton env) (j_connect_udp env) < 0 then (-1, c, cn)
      else (0, set_cl_state LOBBY c, cn))"

definition join_key ::
  "('k, 'x, 'c, 'm) openssl \<Rightarrow> join_env \<Rightarrow> 'x \<Rightarrow> Message \<Rightarrow> BRClient \<Rightarrow> conn \<Rightarrow> int \<times> BRClient \<times> conn" where
  "join_key ssl env cert msg c cn =
     (case X509_get_pubkey ssl cert of
        None \<Rightarrow> (-1, c, cn)
      | Some pubkey \<Rightarrow>
          (case generate_session_key (j_key env) (cl_static_key c) of
             (r, key) \<Rightarrow>
               if r < 0 then (-1, c, cn)
               else
                 let c1 = c\<lparr>cl_static_key := key, cl_ep := (cl_ep c)\<lparr>ep_sesskey := key\<rparr>\<rparr> in
                 (case rsa_encrypt_block ssl pubkey key False of
                    None \<Rightarrow> (-1, c1, cn)
                  | Some enc_key \<Rightarrow>
                      if length enc_key > MSG_CONTENT_LENGTH then (-1, c1, cn)
                      else join_finish env c1
                             (cn\<lparr>c_tx := snd (send_message_tcp (key_message (ep_id (cl_ep c)) enc_key msg) (c_tx cn))\<rparr>))))"

definition join_room ::
  "('k, 'x, 'c, 'm) openssl \<Rightarrow> join_env \<Rightarrow> BRClient \<Rightarrow> conn \<Rightarrow> (int \<times> BRClient \<times> conn) option" where
  "join_room ssl env c cn =
     (case spin_type MSG_CERT (c_rx cn) (j_msg0 env) of
        None \<Rightarrow> None
      | Some (msg1, s1) \<Rightarrow>
          if unat (msg_len msg1) > MSG_CONTENT_LENGTH then None
          else let cert = load_cert_bytes ssl (msg_content msg1) (unat (msg_len msg1));
              msg2 = nonce_message (ep_id (cl_ep c)) (j_nonce env) (j_behind_nonce env) msg1;
              t1 = snd (send_message_tcp msg2 (c_tx cn))
          in (case spin_type MSG_AUTH s1 msg2 of
                None \<Rightarrow> None
              | Some (msg3, s2) \<Rightarrow>
                  let cn1 = cn\<lparr>c_rx := s2, c_tx := t1\<rparr> in
                  (case cert of
                     None \<Rightarrow> Some (-1, c, cn1)
                   | Some x \<Rightarrow>
                       if unat (msg_len msg3) > MSG_CONTENT_LENGTH then None
                       else if verify_message_pss ssl x (take (unat (msg_len msg3)) (msg_content msg3)) (j_nonce env) = 0
                       then Some (-1, c, cn1)
                       else Some (join_key ssl env x msg3 c cn1))))"

definition brclient_join ::
  "('k, 'x, 'c, 'm) openssl \<Rightarrow> join_env \<Rightarrow> string \<Rightarrow> BRClient \<Rightarrow> (int \<times> BRClient \<times> conn option) option" where
  "brclient_join ssl env ip_address c0 =
     (let c = c0\<lparr>cl_server_ip := take 15 ip_address\<rparr> in
      if connect_on_tcp (j_pton env) (j_connect env PORT_TCP) < 0 then Some (-1, c, None)
      else (case read_u32 (c_rx (j_conn env PORT_TCP)) of
         (None, _) \<Rightarrow> Some (-1, c, None)
       | (Some port, _) \<Rightarrow>
           let room_port = ucast port :: u16;
               c1 = c\<lparr>cl_ep := (cl_ep c)\<lparr>ep_socks := map_option (\<lambda>s. s\<lparr>tcp := j_socket env\<rparr>) (ep_socks (cl_ep c))\<rparr>\<rparr>
           in if j_socket env < 0 then Some (-1, c1, None)
              else if connect_on_tcp (j_pton env) (j_connect env room_port) < 0 then Some (-1, c1, None)
              else
                let cn = j_conn env room_port in
                (case read_u32 (c_rx cn) of
                   (None, s) \<Rightarrow> Some (-1, c1, Some (cn\<lparr>c_rx := s\<rparr>))
                 | (Some i, s) \<Rightarrow>
                     map_option (\<lambda>(r, c', cn'). (r, c', Some cn'))
                       (join_room ssl env (c1\<lparr>cl_ep := (cl_ep c1)\<lparr>ep_id := i\<rparr>\<rparr>) (cn\<lparr>c_rx := s\<rparr>)))))"

section \<open>The background thread\<close>

text \<open>One iteration of \<open>client_lobby_state\<close>'s loop.\<close>

definition client_lobby_iteration :: "Message \<Rightarrow> BRClient \<times> conn \<Rightarrow> BRClient \<times> conn" where
  "client_lobby_iteration msg0 st =
     (case st of (c, cn) \<Rightarrow>
      (case receive_message_tcp (c_rx cn) msg0 of
         (False, _, s) \<Rightarrow> (c, cn\<lparr>c_rx := s\<rparr>)
       | (True, msg, s) \<Rightarrow> (if msg_type msg = MSG_START then set_cl_state GAME c else c, cn\<lparr>c_rx := s\<rparr>)))"

text \<open>A message read in the game: application messages are queued, \<open>MSG_END\<close> ends the game.\<close>

definition client_receive :: "('k, 'x, 'c, 'm) openssl \<Rightarrow> Message \<Rightarrow> BRClient \<Rightarrow> BRClient" where
  "client_receive ssl msg c =
     (let c' = c\<lparr>cl_messages := queue_app (open_app ssl (\<lambda>_. Some (ep_sesskey (cl_ep c))) msg) (cl_messages c)\<rparr>
      in if msg_type msg = MSG_END then set_cl_state END c' else c')"

text \<open>
  One iteration of \<open>client_game_state\<close>'s loop: the TCP descriptor, then the two UDP sockets. An argument is \<open>None\<close> when \<open>poll\<close>
  reports nothing to read there, otherwise what \<open>recvfrom\<close> gives. The number of active sockets counts down with each message, and
  the loop stops at zero; a descriptor whose read failed is not polled again (\<open>tcp_open\<close>).
\<close>

definition client_udp ::
  "('k, 'x, 'c, 'm) openssl \<Rightarrow> u8 list \<Rightarrow> u8 list option option \<Rightarrow> int \<times> Message \<times> BRClient \<Rightarrow> int \<times> Message \<times> BRClient" where
  "client_udp ssl stack dgram st =
     (case st of (activity, msg, c) \<Rightarrow>
      (case dgram of
         None \<Rightarrow> st
       | Some d \<Rightarrow>
           if \<not> activity > 0 then st
           else (case receive_message_udp stack d msg of
                   (False, _) \<Rightarrow> st
                 | (True, msg') \<Rightarrow> (activity - 1, msg', client_receive ssl msg' c))))"

definition client_game_iteration ::
  "('k, 'x, 'c, 'm) openssl \<Rightarrow> int \<Rightarrow> bool \<Rightarrow> u8 list option option \<Rightarrow> u8 list option option \<Rightarrow> u8 list \<Rightarrow> Message
   \<Rightarrow> bool \<times> BRClient \<times> conn \<Rightarrow> bool \<times> BRClient \<times> conn" where
  "client_game_iteration ssl activity tcp_ready uni broad stack msg0 st =
     (case st of (tcp_open, c, cn) \<Rightarrow>
      let (tcp_open', activity1, msg1, c1, cn1) =
            (if activity > 0 \<and> tcp_open \<and> tcp_ready then
               (case receive_message_tcp (c_rx cn) msg0 of
                  (False, m, s) \<Rightarrow> (False, activity, m, c, cn\<lparr>c_rx := s\<rparr>)
                | (True, m, s) \<Rightarrow> (True, activity - 1, m, client_receive ssl m c, cn\<lparr>c_rx := s\<rparr>))
             else (tcp_open, activity, msg0, c, cn));
          (activity2, msg2, c2) = client_udp ssl stack uni (activity1, msg1, c1);
          (activity3, msg3, c3) = client_udp ssl stack broad (activity2, msg2, c2)
      in (tcp_open', c3, cn1))"

definition client_end_state :: "BRClient \<Rightarrow> (int \<times> int list) option" where
  "client_end_state c = map_option (\<lambda>(r, _, closed). (r, closed)) (free_endpoint (cl_ep c))"

section \<open>What the application calls\<close>

definition brclient_get_state :: "BRClient option \<Rightarrow> int" where
  "brclient_get_state p =
     (case p of
        None \<Rightarrow> -1
      | Some c \<Rightarrow> (case cl_state c of IDLE \<Rightarrow> 0 | LOBBY \<Rightarrow> 1 | GAME \<Rightarrow> 2 | END \<Rightarrow> 3))"

definition app_envelope :: "('k, 'x, 'c, 'm) openssl \<Rightarrow> u8 list option \<Rightarrow> BRClient \<Rightarrow> u8 list \<Rightarrow> Message" where
  "app_envelope ssl rnd c content =
     snd (encrypt_message ssl rnd
            \<lparr>source_id = ep_id (cl_ep c), msg_len = 0, msg_type = MSG_APP_ENC, msg_content = replicate MSG_CONTENT_LENGTH 0\<rparr>
            (ep_sesskey (cl_ep c)) (take MAX_APP_PAYLOAD_LEN content))"

definition brclient_send_msg ::
  "('k, 'x, 'c, 'm) openssl \<Rightarrow> u8 list option \<Rightarrow> BRClient \<Rightarrow> u8 list \<Rightarrow> conn \<Rightarrow> int \<times> conn" where
  "brclient_send_msg ssl rnd c content cn =
     (case send_message_tcp (app_envelope ssl rnd c content) (c_tx cn) of
        (ok, t) \<Rightarrow> (if ok then 0 else -1, cn\<lparr>c_tx := t\<rparr>))"

definition brclient_send_msg_udp ::
  "('k, 'x, 'c, 'm) openssl \<Rightarrow> u8 list option \<Rightarrow> bool \<Rightarrow> bool \<Rightarrow> BRClient \<Rightarrow> u8 list \<Rightarrow> int \<times> (udp_dest \<times> u8 list) list" where
  "brclient_send_msg_udp ssl rnd pton_ok sendto_ok c content =
     (case send_unicast_udp pton_ok sendto_ok (cl_server_ip c) (app_envelope ssl rnd c content) of
        (ok, out) \<Rightarrow> (if ok then 0 else -1, out))"

definition brclient_get_app_msg :: "BRClient \<Rightarrow> u8 list option \<times> BRClient" where
  "brclient_get_app_msg c = (case get_app_msg (cl_messages c) of (r, q) \<Rightarrow> (r, c\<lparr>cl_messages := q\<rparr>))"

definition brclient_get_id :: "BRClient option \<Rightarrow> u32 option" where
  "brclient_get_id p = map_option (\<lambda>c. ep_id (cl_ep c)) p"

end
