(* ===== verification/Transport.thy ===== *)
theory Transport
  imports BR_Server BR_Client
begin

text \<open>
  The two ends of the transport together: the handshake, in which each end reads what the other writes, and the way of an
  application message from one end's call to the other end's queue.
\<close>

section \<open>The server's side of the handshake\<close>

lemma fill_cert_wf: "message_wf m \<Longrightarrow> length (PEM_write_X509 ssl cert) \<le> 2048 \<Longrightarrow> message_wf (fill_cert ssl i cert m)"
  by (simp add: fill_cert_def message_wf_def MSG_CONTENT_LENGTH_def Let_def)

lemma fill_signature_wf: "message_wf m \<Longrightarrow> length sig \<le> 2048 \<Longrightarrow> message_wf (fill_signature i sig m)"
  by (simp add: fill_signature_def message_wf_def MSG_CONTENT_LENGTH_def)

lemma key_message_wf: "message_wf m \<Longrightarrow> length k \<le> 2048 \<Longrightarrow> message_wf (key_message i k m)"
  by (simp add: key_message_def message_wf_def MSG_CONTENT_LENGTH_def)

lemma nonce_message_wf: "message_wf m \<Longrightarrow> message_wf (nonce_message i nonce behind m)"
  by (simp add: nonce_message_def nonce_content_def message_wf_def MSG_CONTENT_LENGTH_def)

lemma message_bytes_kept: "length bs \<le> 2048 \<Longrightarrow> message_wf m \<Longrightarrow> take (length bs) (mem_write 0 bs (msg_content m)) = bs"
  by (simp add: mem_write_def)

lemma unat_of_nat_2048: "n \<le> 2048 \<Longrightarrow> unat (of_nat n :: u32) = n"
  by (simp add: unat_of_nat)

lemma lobby_accept_ok:
  assumes "sv_cert srv = Some cert" and "sv_pkey srv = Some pkey"
    and "0 \<notin> set (tx_plan (c_tx (net fd)))" and "4124 \<le> length (tx_plan (c_tx (net fd)))"
    and "live (c_rx (net fd))" and "concat (c_rx (net fd)) = encode_message a @ encode_message k @ rest"
    and "message_wf a" and "msg_type a = MSG_AUTH" and "message_wf k" and "msg_type k = MSG_KEY"
    and "message_wf msg0" and "length (PEM_write_X509 ssl cert) \<le> 2048"
    and "sign_message_pss ssl pkey (take 8 (msg_content a)) = Some sig" and "length sig \<le> 2048"
    and "rsa_decrypt_block ssl pkey (take (unat (msg_len k)) (msg_content k)) False = Some key" and "length key = 32"
    and "unat (msg_len k) \<le> 2048"
  shows "\<exists>net'. lobby_accept ssl fd mem msg0 (srv, net) =
     Some (srv\<lparr>sv_next_id := sv_next_id srv + 1, sv_clients := snd (add_to_list (sv_clients srv)
            \<lparr>ep_id = sv_next_id srv, ep_state = IDLE, ep_socks = Some (mem\<lparr>tcp := fd\<rparr>), ep_sesskey = key\<rparr>)\<rparr>, net')
   \<and> tx_wire (c_tx (net' fd)) = tx_wire (c_tx (net fd)) @ be32 (sv_next_id srv)
       @ encode_message (fill_cert ssl (ep_id (sv_self srv)) cert msg0)
       @ encode_message (fill_signature (ep_id (sv_self srv)) sig a)
   \<and> live (c_rx (net' fd)) \<and> concat (c_rx (net' fd)) = rest"
proof -
  define m1 where "m1 = fill_cert ssl (ep_id (sv_self srv)) cert msg0"
  define m3 where "m3 = fill_signature (ep_id (sv_self srv)) sig a"
  have w1: "message_wf m1" and w3: "message_wf m3"
    using fill_cert_wf [OF assms(11,12)] fill_signature_wf [OF assms(7,14)] by (simp_all add: m1_def m3_def)
  have p0: "length (be32 (sv_next_id srv)) + 4120 \<le> length (tx_plan (c_tx (net fd)))" using assms(4) by simp
  from send_bytes_liveE [OF assms(3) p0] obtain t1 where
    t1: "send_bytes (be32 (sv_next_id srv)) (c_tx (net fd)) = (True, t1)" "0 \<notin> set (tx_plan t1)" "4120 \<le> length (tx_plan t1)" .
  have p1: "2060 + 2060 \<le> length (tx_plan t1)" using t1(3) by simp
  from send_message_liveE [OF w1 t1(2) p1] obtain t2 where
    t2: "send_message_tcp m1 t1 = (True, t2)" "0 \<notin> set (tx_plan t2)" "2060 \<le> length (tx_plan t2)" .
  have p2: "2060 + 0 \<le> length (tx_plan t2)" using t2(3) by simp
  from send_message_liveE [OF w3 t2(2) p2] obtain t3 where t3: "send_message_tcp m3 t2 = (True, t3)" by blast
  have ca: "concat (c_rx (net fd)) = concat (map encode_message []) @ encode_message a @ (encode_message k @ rest)"
    using assms(6) by simp
  from await_type_enc [OF _ assms(7,8,5) ca, of m1] obtain s1 where
    s1: "await_type MSG_AUTH (c_rx (net fd)) m1 = (Some a, s1)" "live s1" "concat s1 = encode_message k @ rest" by auto
  have ck: "concat s1 = concat (map encode_message []) @ encode_message k @ rest" using s1(3) by simp
  from await_type_enc [OF _ assms(9,10) s1(2) ck, of m3] obtain s2 where
    s2: "await_type MSG_KEY s1 m3 = (Some k, s2)" "live s2" "concat s2 = rest" by auto
  have w: "tx_wire t3 = tx_wire (c_tx (net fd)) @ be32 (sv_next_id srv) @ encode_message m1 @ encode_message m3"
    using send_bytes_ok [OF t1(1)] send_message_wire [OF t2(1)] send_message_wire [OF t3]
    by (simp add: encode_message_def)
  show ?thesis
    using t1(1) t2(1) t3 s1(1) s2 w assms(1,2,12-17)
    by (simp add: lobby_accept_def fd_send_bytes_def fd_send_def Let_def cert_message_def signature_message_def
        m1_def [symmetric] m3_def [symmetric] register_client_def crypto_lens MSG_CONTENT_LENGTH_def)
qed

section \<open>The client's side\<close>

lemma join_room_ok:
  assumes "0 \<notin> set (tx_plan (c_tx cn))" and "4120 \<le> length (tx_plan (c_tx cn))"
    and "live (c_rx cn)" and "concat (c_rx cn) = encode_message m1 @ encode_message m3 @ rest"
    and "message_wf m1" and "msg_type m1 = MSG_CERT" and "message_wf m3" and "msg_type m3 = MSG_AUTH"
    and "load_cert_bytes ssl (msg_content m1) (unat (msg_len m1)) = Some cert"
    and "verify_message_pss ssl cert (take (unat (msg_len m3)) (msg_content m3)) (j_nonce env) = 1"
    and "X509_get_pubkey ssl cert = Some pub" and "j_key env = Some key" and "length key = 32"
    and "rsa_encrypt_block ssl pub key False = Some enc_key" and "length enc_key \<le> 2048"
    and "0 \<le> j_bind_udp env" and "0 \<le> j_pton env" and "0 \<le> j_connect_udp env"
    and "unat (msg_len m1) \<le> 2048" and "unat (msg_len m3) \<le> 2048"
  shows "\<exists>c' cn'. join_room ssl env c cn = Some (0, c', cn')
    \<and> cl_state c' = LOBBY \<and> ep_sesskey (cl_ep c') = key \<and> ep_id (cl_ep c') = ep_id (cl_ep c)
    \<and> tx_wire (c_tx cn') = tx_wire (c_tx cn)
        @ encode_message (nonce_message (ep_id (cl_ep c)) (j_nonce env) (j_behind_nonce env) m1)
        @ encode_message (key_message (ep_id (cl_ep c)) enc_key m3)
    \<and> live (c_rx cn') \<and> concat (c_rx cn') = rest"
proof -
  define m2 where "m2 = nonce_message (ep_id (cl_ep c)) (j_nonce env) (j_behind_nonce env) m1"
  define m4 where "m4 = key_message (ep_id (cl_ep c)) enc_key m3"
  have w2: "message_wf m2" and w4: "message_wf m4"
    using nonce_message_wf [OF assms(5)] key_message_wf [OF assms(7,15)] by (simp_all add: m2_def m4_def)
  have p1: "2060 + 2060 \<le> length (tx_plan (c_tx cn))" using assms(2) by simp
  from send_message_liveE [OF w2 assms(1) p1] obtain t1 where
    t1: "send_message_tcp m2 (c_tx cn) = (True, t1)" "0 \<notin> set (tx_plan t1)" "2060 \<le> length (tx_plan t1)" .
  have p2: "2060 + 0 \<le> length (tx_plan t1)" using t1(3) by simp
  from send_message_liveE [OF w4 t1(2) p2] obtain t2 where t2: "send_message_tcp m4 t1 = (True, t2)" by blast
  have c1: "concat (c_rx cn) = concat (map encode_message []) @ encode_message m1 @ (encode_message m3 @ rest)"
    using assms(4) by simp
  from spin_type_enc [OF _ assms(5,6,3) c1, of "j_msg0 env"] obtain s1 where
    s1: "spin_type MSG_CERT (c_rx cn) (j_msg0 env) = Some (m1, s1)" "live s1" "concat s1 = encode_message m3 @ rest" by auto
  have c2: "concat s1 = concat (map encode_message []) @ encode_message m3 @ rest" using s1(3) by simp
  from spin_type_enc [OF _ assms(7,8) s1(2) c2, of m2] obtain s2 where
    s2: "spin_type MSG_AUTH s1 m2 = Some (m3, s2)" "live s2" "concat s2 = rest" by auto
  have w: "tx_wire t2 = tx_wire (c_tx cn) @ encode_message m2 @ encode_message m4"
    using send_message_wire [OF t1(1)] send_message_wire [OF t2] by (simp add: encode_message_def)
  have g: "generate_session_key (Some key) k0 = (0, key)" for k0
    using assms(13) by (simp add: generate_session_key_def crypto_lens)
  show ?thesis
    using s1(1) s2 t1(1) t2 w assms(9-20)
    by (simp add: join_room_def join_key_def join_finish_def Let_def m2_def [symmetric] m4_def [symmetric] g
        MSG_CONTENT_LENGTH_def prepare_udp_def connect_udp_uni_def set_cl_state_def)
qed

section \<open>The nonce on its way\<close>

lemma takeWhile_none: "0 \<notin> set xs \<Longrightarrow> takeWhile (\<lambda>b :: u8. b \<noteq> 0) (xs @ ys) = xs @ takeWhile (\<lambda>b. b \<noteq> 0) ys"
  by (induction xs) auto

lemma nonce_sent:
  assumes "length nonce = 8" and "0 \<notin> set (take 7 nonce)"
  shows "take 8 (nonce_content nonce behind content) = nonce"
proof -
  define z where "z = nonce ! 7"
  have n: "nonce = take 7 nonce @ [z]" using assms(1) take_Suc_conv_app_nth [of 7 nonce] by (simp add: z_def)
  show ?thesis
  proof (cases "z = 0")
    case True
    have "c_string (nonce @ behind) = take 7 nonce"
      unfolding c_string_def by (subst n) (simp add: takeWhile_none [OF assms(2)] True)
    then show ?thesis using assms(1) True n by (simp add: nonce_content_def mem_write_def)
  next
    case False
    have "0 \<notin> set (take 7 nonce @ [z])" using assms(2) False by simp
    then have "0 \<notin> set nonce" by (subst n)
    then show ?thesis using assms(1) by (simp add: nonce_content_def mem_write_def c_string_def takeWhile_none)
  qed
qed

lemma nonce_cut:
  assumes "nonce = a @ 0 # b" and "0 \<notin> set a" and "length nonce = 8" and "length content = 2048"
  shows "take 8 (nonce_content nonce behind content) = a @ 0 # take (length b) (drop (Suc (length a)) content)"
proof -
  have "c_string (nonce @ behind) = a" using assms(1,2) by (simp add: c_string_def takeWhile_none)
  moreover have "8 - length a = Suc (length b)" "length a \<le> 8" using assms(1,3) by simp_all
  ultimately show ?thesis using assms(4) by (simp add: nonce_content_def mem_write_def)
qed

section \<open>The handshake\<close>

definition key_pair :: "('k, 'x, 'c, 'm) openssl \<Rightarrow> 'k \<Rightarrow> 'x \<Rightarrow> 'k \<Rightarrow> bool" where
  "key_pair ssl pkey cert pub \<longleftrightarrow>
     pem_law ssl cert \<and> pss_law ssl pkey cert \<and> X509_get_pubkey ssl cert = Some pub \<and> rsa_law ssl pkey pub"

definition writable :: "nat \<Rightarrow> tx \<Rightarrow> bool" where
  "writable n t \<longleftrightarrow> 0 \<notin> set (tx_plan t) \<and> n \<le> length (tx_plan t)"

definition reaches_room :: "join_env \<Rightarrow> u16 \<Rightarrow> bool" where
  "reaches_room env port \<longleftrightarrow>
     0 \<le> j_pton env \<and> 0 \<le> j_connect env PORT_TCP \<and> 0 \<le> j_connect env port \<and> 0 \<le> j_socket env
     \<and> 0 \<le> j_bind_udp env \<and> 0 \<le> j_connect_udp env \<and> length (j_nonce env) = 8
     \<and> live (c_rx (j_conn env PORT_TCP)) \<and> concat (c_rx (j_conn env PORT_TCP)) = be32 (ucast port)"

text \<open>The messages of the two ends.\<close>

definition hs_cert :: "('k, 'x, 'c, 'm) openssl \<Rightarrow> ('k, 'x) Server \<Rightarrow> 'x \<Rightarrow> Message \<Rightarrow> Message" where
  "hs_cert ssl srv cert msg0 = fill_cert ssl (ep_id (sv_self srv)) cert msg0"

definition hs_nonce :: "('k, 'x, 'c, 'm) openssl \<Rightarrow> ('k, 'x) Server \<Rightarrow> 'x \<Rightarrow> Message \<Rightarrow> join_env \<Rightarrow> Message" where
  "hs_nonce ssl srv cert msg0 env =
     nonce_message (sv_next_id srv) (j_nonce env) (j_behind_nonce env) (hs_cert ssl srv cert msg0)"

definition hs_signature ::
  "('k, 'x, 'c, 'm) openssl \<Rightarrow> ('k, 'x) Server \<Rightarrow> 'x \<Rightarrow> 'k \<Rightarrow> Message \<Rightarrow> join_env \<Rightarrow> Message" where
  "hs_signature ssl srv cert pkey msg0 env =
     fill_signature (ep_id (sv_self srv))
       (the (sign_message_pss ssl pkey (take 8 (msg_content (hs_nonce ssl srv cert msg0 env)))))
       (hs_nonce ssl srv cert msg0 env)"

definition hs_key ::
  "('k, 'x, 'c, 'm) openssl \<Rightarrow> ('k, 'x) Server \<Rightarrow> 'x \<Rightarrow> 'k \<Rightarrow> 'k \<Rightarrow> u8 list \<Rightarrow> Message \<Rightarrow> join_env \<Rightarrow> Message" where
  "hs_key ssl srv cert pkey pub key msg0 env =
     key_message (sv_next_id srv) (the (rsa_encrypt_block ssl pub key False)) (hs_signature ssl srv cert pkey msg0 env)"

definition server_bytes ::
  "('k, 'x, 'c, 'm) openssl \<Rightarrow> ('k, 'x) Server \<Rightarrow> 'x \<Rightarrow> 'k \<Rightarrow> Message \<Rightarrow> join_env \<Rightarrow> u8 list" where
  "server_bytes ssl srv cert pkey msg0 env =
     be32 (sv_next_id srv) @ encode_message (hs_cert ssl srv cert msg0)
     @ encode_message (hs_signature ssl srv cert pkey msg0 env)"

definition client_bytes ::
  "('k, 'x, 'c, 'm) openssl \<Rightarrow> ('k, 'x) Server \<Rightarrow> 'x \<Rightarrow> 'k \<Rightarrow> 'k \<Rightarrow> u8 list \<Rightarrow> Message \<Rightarrow> join_env \<Rightarrow> u8 list" where
  "client_bytes ssl srv cert pkey pub key msg0 env =
     encode_message (hs_nonce ssl srv cert msg0 env) @ encode_message (hs_key ssl srv cert pkey pub key msg0 env)"

lemmas hs_defs = hs_cert_def hs_nonce_def hs_signature_def hs_key_def

text \<open>Facts about the messages.\<close>

lemma hs_messages:
  assumes "key_pair ssl pkey cert pub" and "message_wf msg0" and "length (j_nonce env) = 8" and "length key = 32"
  shows "message_wf (hs_cert ssl srv cert msg0)" "msg_type (hs_cert ssl srv cert msg0) = MSG_CERT"
    "load_cert_bytes ssl (msg_content (hs_cert ssl srv cert msg0)) (unat (msg_len (hs_cert ssl srv cert msg0))) = Some cert"
    "message_wf (hs_nonce ssl srv cert msg0 env)" "msg_type (hs_nonce ssl srv cert msg0 env) = MSG_AUTH"
    "\<exists>sig. sign_message_pss ssl pkey (take 8 (msg_content (hs_nonce ssl srv cert msg0 env))) = Some sig \<and> length sig \<le> 2048
       \<and> take (unat (msg_len (hs_signature ssl srv cert pkey msg0 env))) (msg_content (hs_signature ssl srv cert pkey msg0 env)) = sig
       \<and> verify_message_pss ssl cert sig (j_nonce env)
           = (if j_nonce env = take 8 (msg_content (hs_nonce ssl srv cert msg0 env)) then 1 else 0)"
    "message_wf (hs_signature ssl srv cert pkey msg0 env)" "msg_type (hs_signature ssl srv cert pkey msg0 env) = MSG_AUTH"
    "message_wf (hs_key ssl srv cert pkey pub key msg0 env)" "msg_type (hs_key ssl srv cert pkey pub key msg0 env) = MSG_KEY"
    "rsa_decrypt_block ssl pkey (take (unat (msg_len (hs_key ssl srv cert pkey pub key msg0 env)))
       (msg_content (hs_key ssl srv cert pkey pub key msg0 env))) False = Some key"
    "\<exists>enc. rsa_encrypt_block ssl pub key False = Some enc \<and> length enc \<le> 2048"
    "unat (msg_len (hs_cert ssl srv cert msg0)) \<le> 2048" "unat (msg_len (hs_signature ssl srv cert pkey msg0 env)) \<le> 2048"
    "unat (msg_len (hs_key ssl srv cert pkey pub key msg0 env)) \<le> 2048"
proof -
  have pem: "length (PEM_write_X509 ssl cert) \<le> 2048" "PEM_read_X509 ssl (PEM_write_X509 ssl cert) = Some cert"
    using assms(1) by (auto simp: key_pair_def pem_law_def)
  show 1: "message_wf (hs_cert ssl srv cert msg0)" using fill_cert_wf [OF assms(2) pem(1)] by (simp add: hs_cert_def)
  show "msg_type (hs_cert ssl srv cert msg0) = MSG_CERT" by (simp add: hs_cert_def fill_cert_def Let_def)
  show "load_cert_bytes ssl (msg_content (hs_cert ssl srv cert msg0)) (unat (msg_len (hs_cert ssl srv cert msg0))) = Some cert"
    using pem assms(2) by (simp add: hs_cert_def fill_cert_def Let_def load_cert_bytes_def unat_of_nat_2048 message_bytes_kept)
  show 2: "message_wf (hs_nonce ssl srv cert msg0 env)" using nonce_message_wf [OF 1] by (simp add: hs_nonce_def)
  show "msg_type (hs_nonce ssl srv cert msg0 env) = MSG_AUTH" by (simp add: hs_nonce_def nonce_message_def)
  have "length (take 8 (msg_content (hs_nonce ssl srv cert msg0 env))) = 8"
    using 2 by (simp add: message_wf_def MSG_CONTENT_LENGTH_def)
  then obtain sig where s: "sign_message_pss ssl pkey (take 8 (msg_content (hs_nonce ssl srv cert msg0 env))) = Some sig"
    "length sig \<le> 2048" "\<forall>msg'. length msg' = 8 \<longrightarrow> verify_message_pss ssl cert sig msg'
       = (if msg' = take 8 (msg_content (hs_nonce ssl srv cert msg0 env)) then 1 else 0)"
    using assms(1) unfolding key_pair_def pss_law_def by blast
  have hs: "hs_signature ssl srv cert pkey msg0 env = fill_signature (ep_id (sv_self srv)) sig (hs_nonce ssl srv cert msg0 env)"
    using s(1) by (simp add: hs_signature_def)
  show "\<exists>sig. sign_message_pss ssl pkey (take 8 (msg_content (hs_nonce ssl srv cert msg0 env))) = Some sig \<and> length sig \<le> 2048
       \<and> take (unat (msg_len (hs_signature ssl srv cert pkey msg0 env))) (msg_content (hs_signature ssl srv cert pkey msg0 env)) = sig
       \<and> verify_message_pss ssl cert sig (j_nonce env)
           = (if j_nonce env = take 8 (msg_content (hs_nonce ssl srv cert msg0 env)) then 1 else 0)"
    using s assms(3) 2 by (intro exI [of _ sig]) (simp add: hs fill_signature_def unat_of_nat_2048 message_bytes_kept)
  show 3: "message_wf (hs_signature ssl srv cert pkey msg0 env)" using fill_signature_wf [OF 2 s(2)] hs by simp
  show "msg_type (hs_signature ssl srv cert pkey msg0 env) = MSG_AUTH" by (simp add: hs fill_signature_def)
  obtain enc where e: "rsa_encrypt_block ssl pub key False = Some enc" "length enc \<le> 2048" "rsa_decrypt_block ssl pkey enc False = Some key"
    using assms(1,4) unfolding key_pair_def rsa_law_def by blast
  have hk: "hs_key ssl srv cert pkey pub key msg0 env = key_message (sv_next_id srv) enc (hs_signature ssl srv cert pkey msg0 env)"
    using e(1) by (simp add: hs_key_def)
  show "message_wf (hs_key ssl srv cert pkey pub key msg0 env)" using key_message_wf [OF 3 e(2)] hk by simp
  show "msg_type (hs_key ssl srv cert pkey pub key msg0 env) = MSG_KEY" by (simp add: hk key_message_def)
  show "rsa_decrypt_block ssl pkey (take (unat (msg_len (hs_key ssl srv cert pkey pub key msg0 env)))
       (msg_content (hs_key ssl srv cert pkey pub key msg0 env))) False = Some key"
    using e 3 by (simp add: hk key_message_def unat_of_nat_2048 message_bytes_kept)
  show "\<exists>enc. rsa_encrypt_block ssl pub key False = Some enc \<and> length enc \<le> 2048" using e by blast
  show "unat (msg_len (hs_cert ssl srv cert msg0)) \<le> 2048" using pem(1) by (simp add: hs_cert_def fill_cert_def Let_def unat_of_nat_2048)
  show "unat (msg_len (hs_signature ssl srv cert pkey msg0 env)) \<le> 2048" using s(2) by (simp add: hs fill_signature_def unat_of_nat_2048)
  show "unat (msg_len (hs_key ssl srv cert pkey pub key msg0 env)) \<le> 2048" using e(2) by (simp add: hk key_message_def unat_of_nat_2048)
qed

lemma ucast_port: "ucast (ucast (p :: u16) :: u32) = p"
  by (rule bit_word_eqI) (simp add: bit_simps)

lemma brclient_join_reaches:
  assumes "reaches_room env port" and "live (c_rx (j_conn env port))" and "concat (c_rx (j_conn env port)) = be32 i @ rest"
  shows "\<exists>s c1. live s \<and> concat s = rest \<and> ep_id (cl_ep c1) = i \<and>
     brclient_join ssl env ip c0 = map_option (\<lambda>(r, c', cn'). (r, c', Some cn'))
       (join_room ssl env c1 ((j_conn env port)\<lparr>c_rx := s\<rparr>))"
proof -
  have m: "live (c_rx (j_conn env PORT_TCP))" "concat (c_rx (j_conn env PORT_TCP)) = be32 (ucast port) @ []"
    using assms(1) by (simp_all add: reaches_room_def)
  obtain s0 where s0: "read_u32 (c_rx (j_conn env PORT_TCP)) = (Some (ucast port), s0)"
    using word.recv_enc [OF _ m] by (metis prod.collapse)
  obtain s where s: "read_u32 (c_rx (j_conn env port)) = (Some i, s)" "live s" "concat s = rest"
    using word.recv_enc [OF _ assms(2,3)] by (metis prod.collapse)
  have c: "\<not> connect_on_tcp (j_pton env) (j_connect env PORT_TCP) < 0" "\<not> connect_on_tcp (j_pton env) (j_connect env port) < 0"
    "\<not> j_socket env < 0"
    using assms(1) by (simp_all add: reaches_room_def connect_on_tcp_def)
  show ?thesis
    by (rule exI [of _ s], rule exI [of _ "c0\<lparr>cl_server_ip := take 15 ip,
        cl_ep := (cl_ep c0)\<lparr>ep_socks := map_option (\<lambda>s. s\<lparr>tcp := j_socket env\<rparr>) (ep_socks (cl_ep c0)), ep_id := i\<rparr>\<rparr>"])
      (use c s s0 in \<open>simp add: brclient_join_def Let_def ucast_port\<close>)
qed

section \<open>Properties\<close>

lemma handshake_completes:
  assumes "key_pair ssl pkey cert pub" and "sv_cert srv = Some cert" and "sv_pkey srv = Some pkey" and "message_wf msg0"
    and "list_wf (sv_clients srv)" and "length (ll_nodes (sv_clients srv)) < 4294967295"
    and "sv_next_id srv \<notin> ep_id ` set (ll_nodes (sv_clients srv))"
    and "reaches_room env port" and "0 \<notin> set (take 7 (j_nonce env))" and "j_key env = Some key" and "length key = 32"
    and "writable 4124 (c_tx (net fd))" and "tx_wire (c_tx (net fd)) = []" and "live (c_rx (net fd))"
    and "writable 4120 (c_tx (j_conn env port))" and "tx_wire (c_tx (j_conn env port)) = []" and "live (c_rx (j_conn env port))"
    and "concat (c_rx (j_conn env port)) = server_bytes ssl srv cert pkey msg0 env"
    and "concat (c_rx (net fd)) = client_bytes ssl srv cert pkey pub key msg0 env"
  shows "\<exists>srv' net' c' cn' e.
      lobby_accept ssl fd mem msg0 (srv, net) = Some (srv', net') \<and> brclient_join ssl env ip c0 = Some (0, c', Some cn')
    \<and> tx_wire (c_tx (net' fd)) = server_bytes ssl srv cert pkey msg0 env
    \<and> tx_wire (c_tx cn') = client_bytes ssl srv cert pkey pub key msg0 env
    \<and> cl_state c' = LOBBY \<and> ep_id (cl_ep c') = sv_next_id srv \<and> ep_sesskey (cl_ep c') = key
    \<and> get_from_list (sv_clients srv') (ep_id (cl_ep c')) = Some e \<and> ep_sesskey e = key \<and> ep_id e = sv_next_id srv"
proof -
  have n8: "length (j_nonce env) = 8" using assms(8) by (simp add: reaches_room_def)
  note hs = hs_messages(1-11) [where srv = srv, OF assms(1,4) n8 assms(11)] hs_messages(12) [OF assms(1,4) n8 assms(11)]
    hs_messages(13-15) [where srv = srv, OF assms(1,4) n8 assms(11)]
  have nonce: "take 8 (msg_content (hs_nonce ssl srv cert msg0 env)) = j_nonce env"
    using nonce_sent [OF n8 assms(9)] by (simp add: hs_nonce_def nonce_message_def)
  from hs(6) obtain sig where sig: "sign_message_pss ssl pkey (take 8 (msg_content (hs_nonce ssl srv cert msg0 env))) = Some sig"
    "length sig \<le> 2048" "take (unat (msg_len (hs_signature ssl srv cert pkey msg0 env)))
       (msg_content (hs_signature ssl srv cert pkey msg0 env)) = sig" and
    v: "verify_message_pss ssl cert sig (j_nonce env)
       = (if j_nonce env = take 8 (msg_content (hs_nonce ssl srv cert msg0 env)) then 1 else 0)" by blast
  have hsig: "hs_signature ssl srv cert pkey msg0 env = fill_signature (ep_id (sv_self srv)) sig (hs_nonce ssl srv cert msg0 env)"
    using sig(1) by (simp add: hs_signature_def)
  obtain enc where enc: "rsa_encrypt_block ssl pub key False = Some enc" "length enc \<le> 2048" using hs(12) by blast
  have hkey: "hs_key ssl srv cert pkey pub key msg0 env = key_message (sv_next_id srv) enc (hs_signature ssl srv cert pkey msg0 env)"
    using enc(1) by (simp add: hs_key_def)
  define e where "e = \<lparr>ep_id = sv_next_id srv, ep_state = IDLE, ep_socks = Some (mem\<lparr>tcp := fd\<rparr>), ep_sesskey = key\<rparr>"
  have pem: "length (PEM_write_X509 ssl cert) \<le> 2048" and pub: "X509_get_pubkey ssl cert = Some pub"
    using assms(1) by (simp_all add: key_pair_def pem_law_def)
  have srx: "concat (c_rx (net fd)) = encode_message (hs_nonce ssl srv cert msg0 env)
      @ encode_message (hs_key ssl srv cert pkey pub key msg0 env) @ []" using assms(19) by (simp add: client_bytes_def)
  have stx: "0 \<notin> set (tx_plan (c_tx (net fd)))" "4124 \<le> length (tx_plan (c_tx (net fd)))"
    using assms(12) by (simp_all add: writable_def)
  from lobby_accept_ok [where net = net and fd = fd and mem = mem,
      OF assms(2,3) stx assms(14) srx hs(4,5,9,10) assms(4) pem sig(1,2) hs(11) assms(11) hs(15)]
  obtain net' where sv: "lobby_accept ssl fd mem msg0 (srv, net) = Some (srv\<lparr>sv_next_id := sv_next_id srv + 1,
      sv_clients := snd (add_to_list (sv_clients srv) e)\<rparr>, net')"
    and sw: "tx_wire (c_tx (net' fd)) = server_bytes ssl srv cert pkey msg0 env"
    by (auto simp: e_def assms(13) server_bytes_def hs_cert_def hsig)
  have crx: "concat (c_rx (j_conn env port)) = be32 (sv_next_id srv) @ (encode_message (hs_cert ssl srv cert msg0)
      @ encode_message (hs_signature ssl srv cert pkey msg0 env) @ [])" using assms(18) by (simp add: server_bytes_def)
  from brclient_join_reaches [OF assms(8,17) crx, of ssl ip c0] obtain s c1 where
    s: "live s" "concat s = encode_message (hs_cert ssl srv cert msg0) @ encode_message (hs_signature ssl srv cert pkey msg0 env) @ []"
    and c1: "ep_id (cl_ep c1) = sv_next_id srv"
    and j: "brclient_join ssl env ip c0 = map_option (\<lambda>(r, c', cn'). (r, c', Some cn'))
       (join_room ssl env c1 ((j_conn env port)\<lparr>c_rx := s\<rparr>))" by blast
  define cn where "cn = (j_conn env port)\<lparr>c_rx := s\<rparr>"
  have ctx: "0 \<notin> set (tx_plan (c_tx cn))" "4120 \<le> length (tx_plan (c_tx cn))" "live (c_rx cn)"
    "concat (c_rx cn) = encode_message (hs_cert ssl srv cert msg0) @ encode_message (hs_signature ssl srv cert pkey msg0 env) @ []"
    using assms(15) s by (simp_all add: cn_def writable_def)
  have ver: "verify_message_pss ssl cert (take (unat (msg_len (hs_signature ssl srv cert pkey msg0 env)))
      (msg_content (hs_signature ssl srv cert pkey msg0 env))) (j_nonce env) = 1" using sig(3) v nonce by simp
  have os: "0 \<le> j_bind_udp env" "0 \<le> j_pton env" "0 \<le> j_connect_udp env" using assms(8) by (simp_all add: reaches_room_def)
  from join_room_ok [OF ctx hs(1,2,7,8,3) ver pub assms(10,11) enc os hs(13,14), of c1] obtain c' cn' where
    cl: "join_room ssl env c1 cn = Some (0, c', cn')" "cl_state c' = LOBBY" "ep_sesskey (cl_ep c') = key"
      "ep_id (cl_ep c') = sv_next_id srv"
    and cw: "tx_wire (c_tx cn') = client_bytes ssl srv cert pkey pub key msg0 env"
    by (auto simp: c1 cn_def assms(16) client_bytes_def hs_nonce_def hkey)
  have "get_from_list (snd (add_to_list (sv_clients srv) e)) (sv_next_id srv) = Some e"
    using cl.get_add [OF assms(5,6), of e] assms(7) by (simp add: e_def)
  then show ?thesis using sv sw cl cw j unfolding cn_def [symmetric] by (auto simp: e_def)
qed

text \<open>
  C6 (handshake_agrees): a client that joins and the room that accepts it understand each other. With a certificate whose private key the
  server has, when each end reads exactly what the other end writes, in whatever pieces, the server registers the
  client and \<open>brclient_join\<close> returns 0: the client is in the lobby under the id the server gave it, and looking this id up in the server's list
  gives the session key that the client holds. The nonce must have no zero byte among its first seven.
\<close>

theorem handshake_agrees:
  assumes "key_pair ssl pkey cert pub" and "sv_cert srv = Some cert" and "sv_pkey srv = Some pkey" and "message_wf msg0"
    and "list_wf (sv_clients srv)" and "length (ll_nodes (sv_clients srv)) < 4294967295"
    and "sv_next_id srv \<notin> ep_id ` set (ll_nodes (sv_clients srv))"
    and "reaches_room env port" and "0 \<notin> set (take 7 (j_nonce env))" and "j_key env = Some key" and "length key = 32"
    and "writable 4124 (c_tx (net fd))" and "tx_wire (c_tx (net fd)) = []" and "live (c_rx (net fd))"
    and "writable 4120 (c_tx (j_conn env port))" and "tx_wire (c_tx (j_conn env port)) = []" and "live (c_rx (j_conn env port))"
    and "concat (c_rx (j_conn env port)) = server_bytes ssl srv cert pkey msg0 env"
    and "concat (c_rx (net fd)) = client_bytes ssl srv cert pkey pub key msg0 env"
  shows "\<exists>srv' net' c' cn' e.
      lobby_accept ssl fd mem msg0 (srv, net) = Some (srv', net') \<and> brclient_join ssl env ip c0 = Some (0, c', Some cn')
    \<and> tx_wire (c_tx (net' fd)) = server_bytes ssl srv cert pkey msg0 env
    \<and> tx_wire (c_tx cn') = client_bytes ssl srv cert pkey pub key msg0 env
    \<and> cl_state c' = LOBBY \<and> ep_id (cl_ep c') = sv_next_id srv \<and> ep_sesskey (cl_ep c') = key
    \<and> get_from_list (sv_clients srv') (ep_id (cl_ep c')) = Some e \<and> ep_sesskey e = key \<and> ep_id e = sv_next_id srv"
  using assms by (rule handshake_completes)

text \<open>A room and a client for it.\<close>

definition open_server :: "(unit, unit) Server" where
  "open_server = snd (brserver_open plain_ssl disk fresh_server)"

definition zero_message :: Message where
  "zero_message = blank_message 0 0"

definition demo_env0 :: join_env where
  "demo_env0 = \<lparr>j_pton = 1, j_connect = (\<lambda>_. 0), j_conn = (\<lambda>_. \<lparr>c_rx = [], c_tx = \<lparr>tx_plan = [], tx_wire = []\<rparr>\<rparr>), j_socket = 4,
     j_nonce = [1, 2, 3, 4, 5, 6, 7, 8], j_behind_nonce = [], j_key = Some (replicate 32 2), j_bind_udp = 0, j_connect_udp = 0,
     j_msg0 = zero_message\<rparr>"

definition wide_tx :: tx where
  "wide_tx = \<lparr>tx_plan = replicate 4124 3, tx_wire = []\<rparr>"

definition demo_env :: join_env where
  "demo_env = demo_env0\<lparr>j_conn := (\<lambda>p. if p = PORT_TCP then \<lparr>c_rx = [be32 6900], c_tx = wide_tx\<rparr>
     else \<lparr>c_rx = [server_bytes plain_ssl open_server () () zero_message demo_env0], c_tx = wide_tx\<rparr>)\<rparr>"

definition demo_net :: net where
  "demo_net fd = \<lparr>c_rx = [client_bytes plain_ssl open_server () () () (replicate 32 2) zero_message demo_env0], c_tx = wide_tx\<rparr>"

lemma open_server_simps:
  "sv_cert open_server = Some ()" "sv_pkey open_server = Some ()" "sv_clients open_server = initalise_list"
  "sv_next_id open_server = 1"
  by (simp_all add: open_server_def fresh_server_def brserver_init_room_def create_endpoint_def create_sockets_def good_os_def
      listen_on_tcp_def check_sockets_def prepare_broadcast_udp_def prepare_unicast_udp_def brserver_open_def Let_def
      load_cert_file_def load_private_key_def disk_def plain_ssl_def set_state_def)

lemma demo_bytes:
  "server_bytes plain_ssl open_server () () zero_message demo_env = server_bytes plain_ssl open_server () () zero_message demo_env0"
  "client_bytes plain_ssl open_server () () () k zero_message demo_env
     = client_bytes plain_ssl open_server () () () k zero_message demo_env0"
  by (simp_all add: server_bytes_def client_bytes_def hs_defs demo_env_def)

lemma plain_key_pair: "key_pair plain_ssl () () ()"
  using plain_laws by (simp add: key_pair_def) (simp add: plain_ssl_def)

lemma zero_message_wf: "message_wf zero_message"
  by (simp add: zero_message_def blank_message_def message_wf_def)

lemma wide_tx_writable: "n \<le> 4124 \<Longrightarrow> writable n wide_tx" "tx_wire wide_tx = []"
proof -
  have "set (replicate 4124 (3 :: nat)) = {3}" by (subst set_replicate_conv_if) simp
  then show "n \<le> 4124 \<Longrightarrow> writable n wide_tx" by (simp add: writable_def wide_tx_def)
qed (simp add: wide_tx_def)

lemma demo_env_simps: "c_tx (j_conn demo_env 6900) = wide_tx"
  "c_rx (j_conn demo_env 6900) = [server_bytes plain_ssl open_server () () zero_message demo_env0]"
  "j_nonce demo_env = [1, 2, 3, 4, 5, 6, 7, 8]" "j_key demo_env = Some (replicate 32 2)"
  by (simp_all add: demo_env_def demo_env0_def PORT_TCP_def)

lemma demo_reaches: "reaches_room demo_env 6900"
  by (simp add: reaches_room_def demo_env_def demo_env0_def PORT_TCP_def live_def be32_def)

lemma demo_live: "live (c_rx (j_conn demo_env 6900))" "live (c_rx (demo_net 9))"
  by (simp_all add: demo_env_simps demo_net_def live_def server_bytes_def client_bytes_def encode_message_def be32_def)

lemma demo_premises:
  "list_wf (sv_clients open_server)" "length (ll_nodes (sv_clients open_server)) < 4294967295"
  "sv_next_id open_server \<notin> ep_id ` set (ll_nodes (sv_clients open_server))"
  "0 \<notin> set (take 7 (j_nonce demo_env))" "length (replicate 32 2 :: u8 list) = 32"
  "writable 4124 (c_tx (demo_net 9))" "tx_wire (c_tx (demo_net 9)) = []"
  "writable 4120 (c_tx (j_conn demo_env 6900))" "tx_wire (c_tx (j_conn demo_env 6900)) = []"
  "concat (c_rx (j_conn demo_env 6900)) = server_bytes plain_ssl open_server () () zero_message demo_env"
  "concat (c_rx (demo_net 9)) = client_bytes plain_ssl open_server () () () (replicate 32 2) zero_message demo_env"
  using initalise_list_wf unfolding open_server_simps
  by (simp_all add: initalise_list_def demo_env_simps demo_net_def wide_tx_writable demo_bytes)

theorem handshake_agrees_witness:
  "\<exists>srv' net' c' cn' e.
      lobby_accept plain_ssl 9 \<lparr>tcp = 0, udp_uni = 0, udp_broad = 0\<rparr> zero_message (open_server, demo_net) = Some (srv', net')
    \<and> brclient_join plain_ssl demo_env ''127.0.0.1'' \<lparr>cl_ep = sv_self fresh_server, cl_server_ip = [],
         cl_messages = \<lparr>q_items = [], q_front = 0, q_rear = 0\<rparr>, cl_static_key = []\<rparr> = Some (0, c', Some cn')
    \<and> get_from_list (sv_clients srv') (ep_id (cl_ep c')) = Some e \<and> ep_sesskey e = ep_sesskey (cl_ep c')"
  using handshake_agrees [where net = demo_net and fd = 9, OF plain_key_pair open_server_simps(1,2) zero_message_wf demo_premises(1-3)
      demo_reaches demo_premises(4) demo_env_simps(4) demo_premises(5-7) demo_live(2) demo_premises(8,9) demo_live(1) demo_premises(10,11)] by metis

text \<open>The room after this client has joined.\<close>

lemma demo_joined:
  obtains srv net where
    "lobby_accept plain_ssl 9 \<lparr>tcp = 0, udp_uni = 0, udp_broad = 0\<rparr> zero_message (open_server, demo_net) = Some (srv, net)"
    and "length (ll_nodes (sv_clients srv)) = 1" and "sv_self srv = sv_self open_server"
proof -
  let ?mem = "\<lparr>tcp = 0, udp_uni = 0, udp_broad = 0\<rparr> :: Sockets"
  obtain srv net i e where j: "lobby_accept plain_ssl 9 ?mem zero_message (open_server, demo_net) = Some (srv, net)"
      "get_from_list (sv_clients srv) i = Some e"
    using handshake_completes [where net = demo_net and fd = 9 and mem = ?mem, OF plain_key_pair open_server_simps(1,2) zero_message_wf demo_premises(1-3)
      demo_reaches demo_premises(4) demo_env_simps(4) demo_premises(5-7) demo_live(2) demo_premises(8,9) demo_live(1) demo_premises(10,11)] by metis
  have n0: "ll_nodes (sv_clients open_server) = []" by (simp add: open_server_simps initalise_list_def)
  from lobby_accept_cases [OF j(1)] obtain key where
    srv: "srv = open_server\<lparr>sv_next_id := sv_next_id open_server + 1, sv_clients := snd (add_to_list (sv_clients open_server)
            \<lparr>ep_id = sv_next_id open_server, ep_state = IDLE, ep_socks = Some (?mem\<lparr>tcp := 9\<rparr>), ep_sesskey = key\<rparr>)\<rparr>"
    using j(2) n0 by (auto simp: get_from_list_def)
  then have "length (ll_nodes (sv_clients srv)) = 1" using add_to_list_ok [OF demo_premises(1,2)] n0 by simp
  then show thesis using that j(1) srv by simp
qed

text \<open>
  C35 (zero_in_nonce_refused): a nonce is cut at its first zero byte when it is printed into the message, and the server signs what
  the certificate left behind the cut. Whenever the zero is not the last byte and these leftovers differ from the rest of the nonce,
  \<open>brclient_join\<close> refuses the honest server that answers with its signature.
\<close>

theorem zero_in_nonce_refused:
  assumes "key_pair ssl pkey cert pub" and "message_wf msg0" and "reaches_room env port"
    and "j_nonce env = a @ 0 # b" and "0 \<notin> set a"
    and "b \<noteq> take (length b) (drop (Suc (length a)) (msg_content (hs_cert ssl srv cert msg0)))"
    and "live (c_rx (j_conn env port))" and "concat (c_rx (j_conn env port)) = server_bytes ssl srv cert pkey msg0 env"
  shows "\<exists>c' cn'. brclient_join ssl env ip c0 = Some (-1, c', Some cn')"
proof -
  have n8: "length (j_nonce env) = 8" using assms(3) by (simp add: reaches_room_def)
  have k: "length (replicate 32 0 :: u8 list) = 32" by simp
  note hs = hs_messages(1-8,13,14) [where srv = srv, OF assms(1,2) n8 k]
  define m1 m2 m3 where "m1 = hs_cert ssl srv cert msg0" and "m2 = hs_nonce ssl srv cert msg0 env"
    and "m3 = hs_signature ssl srv cert pkey msg0 env"
  have w1: "length (msg_content m1) = 2048" using hs(1) by (simp add: message_wf_def MSG_CONTENT_LENGTH_def m1_def)
  have "take 8 (msg_content m2) = a @ 0 # take (length b) (drop (Suc (length a)) (msg_content m1))"
    using nonce_cut [OF assms(4,5) n8 w1] by (simp add: m2_def hs_nonce_def nonce_message_def m1_def)
  then have ne: "j_nonce env \<noteq> take 8 (msg_content m2)" using assms(4,6) by (simp add: m1_def)
  have ver: "verify_message_pss ssl cert (take (unat (msg_len m3)) (msg_content m3)) (j_nonce env) = 0"
    using hs(6) ne unfolding m2_def m3_def by auto
  have crx: "concat (c_rx (j_conn env port)) = be32 (sv_next_id srv) @ (encode_message m1 @ encode_message m3)"
    using assms(8) by (simp add: server_bytes_def m1_def m3_def)
  from brclient_join_reaches [OF assms(3,7) crx, of ssl ip c0] obtain s c1 where
    s: "live s" "concat s = encode_message m1 @ encode_message m3" and c1: "ep_id (cl_ep c1) = sv_next_id srv"
    and j: "brclient_join ssl env ip c0 = map_option (\<lambda>(r, c', cn'). (r, c', Some cn'))
       (join_room ssl env c1 ((j_conn env port)\<lparr>c_rx := s\<rparr>))" by blast
  have c2: "concat s = concat (map encode_message []) @ encode_message m1 @ encode_message m3" using s(2) by simp
  from spin_type_enc [OF _ hs(1,2) [folded m1_def] s(1) c2, of "j_msg0 env"] obtain s1 where
    s1: "spin_type MSG_CERT s (j_msg0 env) = Some (m1, s1)" "live s1" "concat s1 = encode_message m3" by auto
  have c3: "concat s1 = concat (map encode_message []) @ encode_message m3 @ []" using s1(3) by simp
  from spin_type_enc [OF _ hs(7,8) [folded m3_def] s1(2) c3,
      of "nonce_message (ep_id (cl_ep c1)) (j_nonce env) (j_behind_nonce env) m1"] obtain s2 where
    s2: "spin_type MSG_AUTH s1 (nonce_message (ep_id (cl_ep c1)) (j_nonce env) (j_behind_nonce env) m1) = Some (m3, s2)" by auto
  show ?thesis unfolding j using s1(1) s2 ver hs(3,9) [folded m1_def] hs(10) [folded m3_def]
    by (simp add: join_room_def Let_def MSG_CONTENT_LENGTH_def)
qed

text \<open>A nonce that starts with a zero, where the certificate begins with dashes.\<close>

definition zero_env0 :: join_env where
  "zero_env0 = demo_env0\<lparr>j_nonce := [0, 2, 3, 4, 5, 6, 7, 8]\<rparr>"

definition zero_env :: join_env where
  "zero_env = zero_env0\<lparr>j_conn := (\<lambda>p. if p = PORT_TCP then \<lparr>c_rx = [be32 6900], c_tx = wide_tx\<rparr>
     else \<lparr>c_rx = [server_bytes plain_ssl open_server () () zero_message zero_env0], c_tx = wide_tx\<rparr>)\<rparr>"

theorem zero_in_nonce_refused_witness:
  "\<exists>c' cn'. brclient_join plain_ssl zero_env ''127.0.0.1'' \<lparr>cl_ep = sv_self fresh_server, cl_server_ip = [],
      cl_messages = \<lparr>q_items = [], q_front = 0, q_rear = 0\<rparr>, cl_static_key = []\<rparr> = Some (-1, c', Some cn')"
proof -
  have r: "reaches_room zero_env 6900"
    by (simp add: reaches_room_def zero_env_def zero_env0_def demo_env0_def PORT_TCP_def live_def be32_def)
  have n: "j_nonce zero_env = [] @ 0 # [2, 3, 4, 5, 6, 7, 8]" "0 \<notin> set ([] :: u8 list)"
    by (simp_all add: zero_env_def zero_env0_def)
  have c: "[2, 3, 4, 5, 6, 7, 8] \<noteq> take (length [2, 3, 4, 5, 6, 7, 8 :: u8])
      (drop (Suc (length ([] :: u8 list))) (msg_content (hs_cert plain_ssl open_server () zero_message)))"
    by (simp add: hs_cert_def fill_cert_def plain_ssl_def mem_write_def Let_def)
  have l: "live (c_rx (j_conn zero_env 6900))"
    "concat (c_rx (j_conn zero_env 6900)) = server_bytes plain_ssl open_server () () zero_message zero_env"
    by (simp_all add: zero_env_def zero_env0_def PORT_TCP_def live_def server_bytes_def hs_defs be32_def)
  show ?thesis by (rule zero_in_nonce_refused [OF plain_key_pair zero_message_wf r n c l])
qed

text \<open>
  Lemma (certificate_not_checked): whether the server's certificate was issued by the certificate authority has no influence on
  \<open>brclient_join\<close>: the outcome is the same for every verdict of the chain verification. Any server that owns the key in the
  certificate it sends is accepted.
\<close>

theorem certificate_not_checked:
  "brclient_join (ssl\<lparr>X509_verify_cert := verdict\<rparr>) env ip c = brclient_join ssl env ip c"
proof -
  have "load_cert_bytes (ssl\<lparr>X509_verify_cert := verdict\<rparr>) = load_cert_bytes ssl"
    "verify_message_pss (ssl\<lparr>X509_verify_cert := verdict\<rparr>) = verify_message_pss ssl"
    "rsa_encrypt_block (ssl\<lparr>X509_verify_cert := verdict\<rparr>) = rsa_encrypt_block ssl"
    by (intro ext, simp add: load_cert_bytes_def verify_message_pss_def rsa_encrypt_block_def rsa_prepare_def
        cong: option.case_cong if_cong)+
  note eqs = this
  have jk: "join_key (ssl\<lparr>X509_verify_cert := verdict\<rparr>) = join_key ssl"
    unfolding join_key_def [abs_def] eqs by simp
  have "join_room (ssl\<lparr>X509_verify_cert := verdict\<rparr>) env c cn = join_room ssl env c cn" for c cn
    unfolding join_room_def eqs jk by (rule refl)
  then have eq: "join_room (ssl\<lparr>X509_verify_cert := verdict\<rparr>) env = join_room ssl env" by (intro ext)
  show ?thesis unfolding brclient_join_def eq by (rule refl)
qed

section \<open>Application messages\<close>

lemma tcp_loop_idle: "tcp_loop ssl n 0 ready fds i msg st = (msg, fds, st)"
  by (cases n) simp_all

lemma tcp_loop_one:
  assumes "k < length ready" and "\<forall>j < length ready. ready ! j \<longleftrightarrow> j = k"
  shows "i \<le> k \<Longrightarrow> k < i + n \<Longrightarrow> fd_recv (fds ! k) msg net = (True, m, net') \<Longrightarrow>
    tcp_loop ssl n 1 ready fds i msg (srv, net) = (m, fds, server_receive ssl m srv, net')"
proof (induction n arbitrary: i)
  case (Suc n)
  show ?case
  proof (cases "i = k")
    case True
    then show ?thesis using assms Suc.prems by (simp add: tcp_loop_idle)
  next
    case False
    then have "\<not> (i < length ready \<and> ready ! i)" using assms by auto
    then show ?thesis using Suc.IH [of "Suc i"] Suc.prems False by simp
  qed
qed simp

lemma max_payload: "MAX_APP_PAYLOAD_LEN = 1984"
  by (simp add: crypto_lens)

lemma app_envelope_wf:
  assumes "aes_law ssl" and "hmac_law ssl" and "length (ep_sesskey (cl_ep c)) = 32" and "length iv = 16"
  shows "message_wf (app_envelope ssl (Some iv) c content)"
  using assms by (auto simp: app_envelope_def message_wf_def intro!: encrypt_message_wf [unfolded message_wf_def])

text \<open>An iteration that finds the bytes of a client's send hands exactly that envelope to \<open>server_receive\<close>, over TCP in any pieces and over UDP.\<close>

lemma client_send_received:
  assumes "message_wf m" and "m = app_envelope ssl (Some iv) c content"
    and "writable 2060 (c_tx cn)" and "brclient_send_msg ssl (Some iv) c content cn = (r, cn')"
    and "list_wf (sv_clients srv)" and "k < length (ll_nodes (sv_clients srv))" and "length ready = length (ll_nodes (sv_clients srv))"
    and "\<forall>j < length ready. ready ! j \<longleftrightarrow> j = k" and "fds ! k = fd" and "live (c_rx (net fd))"
    and "tx_wire (c_tx cn) @ concat (c_rx (net fd)) = tx_wire (c_tx cn') @ rest"
  shows "r = 0 \<and> (\<exists>net'. game_iteration ssl 1 ready None stack msg0 (fds, srv, net) = (True, fds, server_receive ssl m srv, net') \<and> concat (c_rx (net' fd)) = rest)"
proof -
  have w: "0 \<notin> set (tx_plan (c_tx cn))" "2060 + 0 \<le> length (tx_plan (c_tx cn))" using assms(3) by (simp_all add: writable_def)
  from send_message_liveE [OF assms(1) w] obtain t where t: "send_message_tcp m (c_tx cn) = (True, t)" by blast
  have sent: "r = 0" "cn' = cn\<lparr>c_tx := t\<rparr>" using assms(2,4) t by (simp_all add: brclient_send_msg_def)
  have wire: "concat (c_rx (net fd)) = encode_message m @ rest"
    using assms(11) send_message_wire [OF t] by (simp add: sent encode_message_def)
  from receive_message_enc [OF assms(1,10) wire, of msg0] obtain s where
    s: "receive_message_tcp (c_rx (net fd)) msg0 = (True, m, s)" "live s" "concat s = rest" .
  define net' where "net' = net(fd := (net fd)\<lparr>c_rx := s\<rparr>)"
  have rc: "fd_recv (fds ! k) msg0 net = (True, m, net')" using s(1) assms(9) by (simp add: fd_recv_def net'_def)
  have n: "unat (ll_count (sv_clients srv)) = length (ll_nodes (sv_clients srv))" using assms(5) by (simp add: list_wf_def)
  have g: "game_iteration ssl 1 ready None stack msg0 (fds, srv, net) = (True, fds, server_receive ssl m srv, net')"
    using tcp_loop_one [OF _ assms(8) _ _ rc, of 0 "length (ll_nodes (sv_clients srv))" ssl srv] assms(6,7)
    by (simp add: game_iteration_def n)
  then show ?thesis using sent(1) s(3) by (simp add: net'_def)
qed

lemma client_udp_received:
  assumes "message_wf m" and "m = app_envelope ssl (Some iv) c content"
    and "brclient_send_msg_udp ssl (Some iv) True True c content = (r, sent)" and "length stack = 2060"
  shows "r = 0 \<and> (\<exists>dgram. sent = [(Udp_host (cl_server_ip c) PORT_UDP_UNI, dgram)]
     \<and> game_iteration ssl 0 ready (Some (Some dgram)) stack msg0 (fds, srv, net) = (True, fds, server_receive ssl m srv, net))"
  using assms by (auto simp: brclient_send_msg_udp_def send_unicast_udp_def game_iteration_def tcp_loop_idle datagram_roundtrip)

text \<open>The room opens the envelope of a client that it knows.\<close>

lemma envelope_opened:
  assumes "aes_law ssl" and "hmac_law ssl" and "length (ep_sesskey (cl_ep c)) = 32" and "length iv = 16" and "length content = 2048"
    and "get_from_list (sv_clients srv) (ep_id (cl_ep c)) = Some e" and "ep_sesskey e = ep_sesskey (cl_ep c)"
  obtains out where "open_app ssl (sender_key srv) (app_envelope ssl (Some iv) c content) = Some out" and "take 1984 (msg_content out) = take 1984 content"
proof -
  define p where "p = take 1984 content"
  let ?m = "app_envelope ssl (Some iv) c content"
  have pl: "length p \<le> 1984" "length p = 1984" using assms(5) by (simp_all add: p_def)
  obtain b where b: "encrypt_message ssl (Some iv) \<lparr>source_id = ep_id (cl_ep c), msg_len = 0, msg_type = MSG_APP_ENC,
      msg_content = replicate MSG_CONTENT_LENGTH 0\<rparr> (ep_sesskey (cl_ep c)) p = (b, ?m)"
    unfolding p_def app_envelope_def max_payload by (metis prod.collapse)
  have b0: "message_wf \<lparr>source_id = ep_id (cl_ep c), msg_len = 0, msg_type = MSG_APP_ENC, msg_content = replicate MSG_CONTENT_LENGTH 0\<rparr>"
    by (simp add: message_wf_def)
  have key: "sender_key srv (source_id \<lparr>source_id = ep_id (cl_ep c), msg_len = 0, msg_type = MSG_APP_ENC,
      msg_content = replicate MSG_CONTENT_LENGTH 0\<rparr>) = Some (ep_sesskey (cl_ep c))"
    using assms(6,7) by (simp add: sender_key_def)
  from open_app_encrypted [where keyof = "sender_key srv", OF assms(1-4) b0 pl(1) _ key b] obtain out where
    "open_app ssl (sender_key srv) ?m = Some out" "take 1984 (msg_content out) = p" using pl(2) by auto
  then show thesis using that by (simp add: p_def)
qed

lemma client_send_delivered:
  assumes "aes_law ssl" and "hmac_law ssl" and "length (ep_sesskey (cl_ep c)) = 32" and "length iv = 16" and "length content = 2048"
    and "writable 2060 (c_tx cn)" and "brclient_send_msg ssl (Some iv) c content cn = (r, cn')"
    and "get_from_list (sv_clients srv) (ep_id (cl_ep c)) = Some e" and "ep_sesskey e = ep_sesskey (cl_ep c)"
    and "list_wf (sv_clients srv)" and "k < length (ll_nodes (sv_clients srv))" and "length ready = length (ll_nodes (sv_clients srv))"
    and "\<forall>j < length ready. ready ! j \<longleftrightarrow> j = k" and "fds ! k = fd" and "live (c_rx (net fd))"
    and "tx_wire (c_tx cn) @ concat (c_rx (net fd)) = tx_wire (c_tx cn') @ rest"
    and "queue_wf (sv_messages srv)" and "queue_list (sv_messages srv) = []" and "0 < queue_room (sv_messages srv)"
  shows "r = 0 \<and> (\<exists>srv' net' out. game_iteration ssl 1 ready None stack msg0 (fds, srv, net) = (True, fds, srv', net')
     \<and> concat (c_rx (net' fd)) = rest
     \<and> fst (brserver_get_app_msg srv') = Some out \<and> take 1984 out = take 1984 content
     \<and> queue_list (sv_messages (snd (brserver_get_app_msg srv'))) = [])"
proof -
  let ?m = "app_envelope ssl (Some iv) c content"
  have wm: "message_wf ?m" by (rule app_envelope_wf [OF assms(1-4)])
  obtain out where o: "open_app ssl (sender_key srv) ?m = Some out" "take 1984 (msg_content out) = take 1984 content"
    using envelope_opened [OF assms(1-5,8,9)] .
  note g = client_send_received [where net = net and fd = fd and fds = fds and k = k and stack = stack and ?msg0.0 = msg0, OF wm refl assms(6,7,10-16)]
  have q: "queue_wf (queue_app (Some out) (sv_messages srv))" "queue_list (queue_app (Some out) (sv_messages srv)) = [out]"
    using queue_app_list [OF assms(17), of "Some out"] assms(18,19) by simp_all
  have "fst (brserver_get_app_msg (server_receive ssl ?m srv)) = Some (msg_content out)
      \<and> queue_list (sv_messages (snd (brserver_get_app_msg (server_receive ssl ?m srv)))) = []"
    using get_app_msg_list [OF q(1)] q(2) o(1) by (auto simp: brserver_get_app_msg_def server_receive_def split: prod.splits)
  then show ?thesis using g o(2) by blast
qed

text \<open>
  C8 (client_message_delivered): what a client sends with \<open>brclient_send_msg\<close> is what the room reads with
  \<open>brserver_get_app_msg\<close>. If the room has registered the client's id with the client's session key, its queue is empty, and the bytes the client
  wrote arrive on the client's descriptor in any pieces, then the send succeeds, one iteration of the game
  loop takes the message, and the application gets a buffer whose first 1984 bytes are those of the content, and the queue is empty again.
\<close>

theorem client_message_delivered:
  assumes "aes_law ssl" and "hmac_law ssl" and "length (ep_sesskey (cl_ep c)) = 32" and "length iv = 16" and "length content = 2048"
    and "writable 2060 (c_tx cn)" and "brclient_send_msg ssl (Some iv) c content cn = (r, cn')"
    and "get_from_list (sv_clients srv) (ep_id (cl_ep c)) = Some e" and "ep_sesskey e = ep_sesskey (cl_ep c)"
    and "list_wf (sv_clients srv)" and "k < length (ll_nodes (sv_clients srv))" and "length ready = length (ll_nodes (sv_clients srv))"
    and "\<forall>j < length ready. ready ! j \<longleftrightarrow> j = k" and "fds ! k = fd" and "live (c_rx (net fd))"
    and "tx_wire (c_tx cn) @ concat (c_rx (net fd)) = tx_wire (c_tx cn') @ rest"
    and "queue_wf (sv_messages srv)" and "queue_list (sv_messages srv) = []" and "0 < queue_room (sv_messages srv)"
  shows "r = 0 \<and> (\<exists>srv' net' out. game_iteration ssl 1 ready None stack msg0 (fds, srv, net) = (True, fds, srv', net')
     \<and> concat (c_rx (net' fd)) = rest
     \<and> fst (brserver_get_app_msg srv') = Some out \<and> take 1984 out = take 1984 content
     \<and> queue_list (sv_messages (snd (brserver_get_app_msg srv'))) = [])"
  using assms by (rule client_send_delivered)

definition demo_player :: BRClient where
  "demo_player = \<lparr>cl_ep = \<lparr>ep_id = 1, ep_state = GAME, ep_socks = Some \<lparr>tcp = 4, udp_uni = 5, udp_broad = 6\<rparr>,
      ep_sesskey = replicate 32 2\<rparr>, cl_server_ip = ''127.0.0.1'',
      cl_messages = \<lparr>q_items = [zero_message], q_front = -1, q_rear = 0\<rparr>, cl_static_key = replicate 32 2\<rparr>"

definition demo_room :: "(unit, unit) Server" where
  "demo_room = room_of_one\<lparr>sv_messages := \<lparr>q_items = [zero_message], q_front = -1, q_rear = 0\<rparr>\<rparr>"

lemma demo_room_simps:
  "sv_clients demo_room = sv_clients room_of_one" "queue_wf (sv_messages demo_room)" "queue_list (sv_messages demo_room) = []"
  "0 < queue_room (sv_messages demo_room)" "list_wf (sv_clients demo_room)"
  "get_from_list (sv_clients demo_room) 1 = Some \<lparr>ep_id = 1, ep_state = IDLE,
     ep_socks = Some \<lparr>tcp = 9, udp_uni = 0, udp_broad = 0\<rparr>, ep_sesskey = replicate 32 2\<rparr>"
  using room_of_one_wf
  by (simp_all add: demo_room_def queue_wf_def queue_list_def queue_room_def server_wf_def get_from_list_def room_of_one_nodes)

text \<open>The demonstration client sends something to the room that knows it.\<close>

lemma demo_registered:
  "get_from_list (sv_clients demo_room) (ep_id (cl_ep demo_player)) = Some \<lparr>ep_id = 1, ep_state = IDLE,
     ep_socks = Some \<lparr>tcp = 9, udp_uni = 0, udp_broad = 0\<rparr>, ep_sesskey = replicate 32 2\<rparr>"
  "ep_sesskey \<lparr>ep_id = 1, ep_state = IDLE, ep_socks = Some \<lparr>tcp = 9, udp_uni = 0, udp_broad = 0\<rparr>,
     ep_sesskey = replicate 32 2\<rparr> = ep_sesskey (cl_ep demo_player)"
  "0 < length (ll_nodes (sv_clients demo_room))" "length [True] = length (ll_nodes (sv_clients demo_room))"
  "\<forall>j < length [True]. [True] ! j \<longleftrightarrow> j = 0" "[9 :: int] ! 0 = 9" "length (ep_sesskey (cl_ep demo_player)) = 32"
  "length (replicate 16 1 :: u8 list) = 16"
  using demo_room_simps(6) by (simp_all add: demo_room_simps(1) room_of_one_nodes demo_player_def)

definition demo_wire :: "u8 list \<Rightarrow> net" where
  "demo_wire content fd = \<lparr>c_rx = [encode_message (app_envelope plain_ssl (Some (replicate 16 1)) demo_player content)], c_tx = wide_tx\<rparr>"

lemma demo_sent:
  obtains cn' where "brclient_send_msg plain_ssl (Some (replicate 16 1)) demo_player content \<lparr>c_rx = [], c_tx = wide_tx\<rparr> = (0, cn')"
    and "live (c_rx (demo_wire content 9))" and "writable 2060 (c_tx \<lparr>c_rx = [], c_tx = wide_tx\<rparr>)"
    and "tx_wire (c_tx \<lparr>c_rx = [], c_tx = wide_tx\<rparr>) @ concat (c_rx (demo_wire content 9)) = tx_wire (c_tx cn') @ []"
proof -
  define m where "m = app_envelope plain_ssl (Some (replicate 16 1)) demo_player content"
  define cn where "cn = \<lparr>c_rx = [], c_tx = wide_tx\<rparr>"
  have w: "writable 2060 (c_tx cn)" by (simp add: cn_def wide_tx_writable)
  have wm: "message_wf m" unfolding m_def by (rule app_envelope_wf [OF plain_aes_law plain_hmac_law demo_registered(7,8)])
  have w': "0 \<notin> set (tx_plan (c_tx cn))" "2060 + 0 \<le> length (tx_plan (c_tx cn))" using w by (simp_all add: writable_def)
  from send_message_liveE [OF wm w'] obtain t where t: "send_message_tcp m (c_tx cn) = (True, t)" by blast
  have s: "brclient_send_msg plain_ssl (Some (replicate 16 1)) demo_player content cn = (0, cn\<lparr>c_tx := t\<rparr>)"
    using t by (simp add: brclient_send_msg_def m_def)
  have "encode_message m \<noteq> []" by (simp add: encode_message_def be32_def)
  then have "live (c_rx (demo_wire content 9))" "tx_wire (c_tx cn) @ concat (c_rx (demo_wire content 9)) = tx_wire (c_tx (cn\<lparr>c_tx := t\<rparr>)) @ []"
    using send_message_wire [OF t] by (simp_all add: demo_wire_def live_def encode_message_def m_def)
  with s w show thesis unfolding cn_def by (intro that)
qed

theorem client_message_delivered_witness:
  "\<exists>srv' net' out. game_iteration plain_ssl 1 [True] None (replicate 2060 0) zero_message ([9], demo_room, demo_wire (replicate 2048 65))
      = (True, [9], srv', net')
    \<and> fst (brserver_get_app_msg srv') = Some out \<and> take 1984 out = replicate 1984 65"
proof -
  obtain cn' where c: "brclient_send_msg plain_ssl (Some (replicate 16 1)) demo_player (replicate 2048 65) \<lparr>c_rx = [], c_tx = wide_tx\<rparr> = (0, cn')"
    "live (c_rx (demo_wire (replicate 2048 65) 9))" "writable 2060 (c_tx \<lparr>c_rx = [], c_tx = wide_tx\<rparr>)"
    "tx_wire (c_tx \<lparr>c_rx = [], c_tx = wide_tx\<rparr>) @ concat (c_rx (demo_wire (replicate 2048 65) 9)) = tx_wire (c_tx cn') @ []"
    by (rule demo_sent)
  have t: "take 1984 (replicate 2048 (65 :: u8)) = replicate 1984 65" and l: "length (replicate 2048 65 :: u8 list) = 2048" by (simp_all add: min_def)
  show ?thesis
    using client_message_delivered [where net = "demo_wire (replicate 2048 65)" and fd = 9, OF plain_aes_law plain_hmac_law demo_registered(7,8) l c(3,1)
        demo_registered(1,2) demo_room_simps(5) demo_registered(3-6) c(2,4) demo_room_simps(2-4), of "replicate 2060 0" zero_message]
    unfolding t by blast
qed

lemma send_to_target_ok:
  assumes "aes_law ssl" and "hmac_law ssl" and "length (ep_sesskey e) = 32" and "length iv = 16"
    and "get_from_list (sv_clients srv) i = Some e" and "ep_socks e = Some socks" and "writable 2060 (c_tx (net (tcp socks)))"
  obtains b m net' where "brserver_send_to_target ssl (Some iv) srv i content net = Some (0, net')"
    and "encrypt_message ssl (Some iv) (blank_message (ep_id (sv_self srv)) MSG_APP_ENC) (ep_sesskey e) (take 1984 content) = (b, m)"
    and "message_wf m" and "tx_wire (c_tx (net' (tcp socks))) = tx_wire (c_tx (net (tcp socks))) @ encode_message m"
proof -
  define m0 where "m0 = blank_message (ep_id (sv_self srv)) MSG_APP_ENC"
  obtain b m where e: "encrypt_message ssl (Some iv) m0 (ep_sesskey e) (take 1984 content) = (b, m)" by fastforce
  have w0: "message_wf m0" by (simp add: m0_def blank_message_def message_wf_def)
  have wm: "message_wf m" using encrypt_message_wf [OF w0 assms(1-3), of "Some iv" "take 1984 content"] assms(4) e by simp
  have p: "0 \<notin> set (tx_plan (c_tx (net (tcp socks))))" "2060 \<le> length (tx_plan (c_tx (net (tcp socks))))"
    using assms(7) by (simp_all add: writable_def)
  from fd_send_live [where fd = "tcp socks" and net = net, OF wm p] obtain t where
    t: "fd_send (tcp socks) m net = (True, net(tcp socks := (net (tcp socks))\<lparr>c_tx := t\<rparr>))"
    and tw: "tx_wire t = tx_wire (c_tx (net (tcp socks))) @ encode_message m" .
  define net' where "net' = net(tcp socks := (net (tcp socks))\<lparr>c_tx := t\<rparr>)"
  have send: "brserver_send_to_target ssl (Some iv) srv i content net = Some (0, net')"
    using t assms(5,6) e by (simp add: brserver_send_to_target_def m0_def [symmetric] max_payload Let_def net'_def)
  have "tx_wire (c_tx (net' (tcp socks))) = tx_wire (c_tx (net (tcp socks))) @ encode_message m"
    using tw by (simp add: net'_def)
  from that [OF send e [unfolded m0_def] wm this] show ?thesis .
qed

text \<open>
  Lemma (room_message_delivered): what the room sends with \<open>brserver_send_to_target\<close> to a registered client is what this client reads with
  \<open>brclient_get_app_msg\<close>. If the client holds the session key under which it is registered, its queue is empty, and the bytes
  written for it arrive in any pieces, then the send succeeds, one iteration of the client's game loop takes the message,
  and the application gets a buffer whose first 1984 bytes are those of the content.
\<close>

theorem room_message_delivered:
  assumes "aes_law ssl" and "hmac_law ssl" and "length (ep_sesskey e) = 32" and "length iv = 16" and "length content = 2048"
    and "get_from_list (sv_clients srv) i = Some e" and "ep_socks e = Some socks" and "writable 2060 (c_tx (net (tcp socks)))"
    and "ep_sesskey (cl_ep c) = ep_sesskey e" and "live (c_rx cn)"
    and "tx_wire (c_tx (net (tcp socks))) @ concat (c_rx cn)
           = tx_wire (c_tx (snd (the (brserver_send_to_target ssl (Some iv) srv i content net)) (tcp socks))) @ rest"
    and "queue_wf (cl_messages c)" and "queue_list (cl_messages c) = []" and "0 < queue_room (cl_messages c)"
  shows "\<exists>net' c' cn' out. brserver_send_to_target ssl (Some iv) srv i content net = Some (0, net')
     \<and> client_game_iteration ssl 1 True None None stack msg0 (True, c, cn) = (True, c', cn')
     \<and> concat (c_rx cn') = rest \<and> fst (brclient_get_app_msg c') = Some out \<and> take 1984 out = take 1984 content"
proof -
  have len: "length (take 1984 content) \<le> 1984" "length (take 1984 content) = 1984" using assms(5) by simp_all
  from send_to_target_ok [where net = net, OF assms(1-4,6-8)] obtain b m net' where
    send: "brserver_send_to_target ssl (Some iv) srv i content net = Some (0, net')"
    and e: "encrypt_message ssl (Some iv) (blank_message (ep_id (sv_self srv)) MSG_APP_ENC) (ep_sesskey e) (take 1984 content) = (b, m)"
    and wm: "message_wf m" and tw: "tx_wire (c_tx (net' (tcp socks))) = tx_wire (c_tx (net (tcp socks))) @ encode_message m" .
  have w0: "message_wf (blank_message (ep_id (sv_self srv)) MSG_APP_ENC)"
    "msg_type (blank_message (ep_id (sv_self srv)) MSG_APP_ENC) = MSG_APP_ENC"
    by (simp_all add: blank_message_def message_wf_def)
  have wire: "concat (c_rx cn) = encode_message m @ rest" using assms(11) send tw by simp
  have key: "(\<lambda>_. Some (ep_sesskey (cl_ep c))) (source_id (blank_message (ep_id (sv_self srv)) MSG_APP_ENC)) = Some (ep_sesskey e)"
    using assms(9) by simp
  from open_app_encrypted [where keyof = "\<lambda>_. Some (ep_sesskey (cl_ep c))", OF assms(1-4) w0(1) len(1) w0(2) key e] obtain out where
    o: "open_app ssl (\<lambda>_. Some (ep_sesskey (cl_ep c))) m = Some out" "take 1984 (msg_content out) = take 1984 content"
    using len(2) by auto
  have ty: "msg_type m \<noteq> MSG_END" using o(1) by (auto simp: open_app_def msg_types split: if_splits)
  from receive_message_enc [OF wm assms(10) wire, of msg0] obtain s where
    s: "receive_message_tcp (c_rx cn) msg0 = (True, m, s)" "concat s = rest" .
  have q: "queue_wf (queue_app (Some out) (cl_messages c))" "queue_list (queue_app (Some out) (cl_messages c)) = [out]"
    using queue_app_list [OF assms(12), of "Some out"] assms(13,14) by simp_all
  have it: "client_game_iteration ssl 1 True None None stack msg0 (True, c, cn) = (True, client_receive ssl m c, cn\<lparr>c_rx := s\<rparr>)"
    using s(1) by (simp add: client_game_iteration_def client_udp_def)
  have "fst (brclient_get_app_msg (client_receive ssl m c)) = Some (msg_content out)"
    using get_app_msg_list [OF q(1)] q(2) o(1) ty by (auto simp: brclient_get_app_msg_def client_receive_def Let_def split: prod.splits)
  then show ?thesis using send it o(2) s(2) by auto
qed

definition wide_net :: net where
  "wide_net fd = \<lparr>c_rx = [], c_tx = wide_tx\<rparr>"

theorem room_message_delivered_witness:
  "\<exists>net' c' cn' out. brserver_send_to_target plain_ssl (Some (replicate 16 1)) demo_room 1 (replicate 2048 65) wide_net = Some (0, net')
     \<and> client_game_iteration plain_ssl 1 True None None (replicate 2060 0) zero_message
         (True, demo_player, \<lparr>c_rx = [tx_wire (c_tx (net' 9))], c_tx = wide_tx\<rparr>) = (True, c', cn')
     \<and> fst (brclient_get_app_msg c') = Some out \<and> take 1984 out = replicate 1984 65"
proof -
  define e where "e = \<lparr>ep_id = 1, ep_state = IDLE, ep_socks = Some \<lparr>tcp = 9, udp_uni = 0, udp_broad = 0\<rparr>, ep_sesskey = replicate 32 2\<rparr>"
  have g: "get_from_list (sv_clients demo_room) 1 = Some e" using demo_room_simps(6) by (simp add: e_def)
  have k: "length (ep_sesskey e) = 32" "length (replicate 16 1 :: u8 list) = 16" "length (replicate 2048 65 :: u8 list) = 2048"
    "ep_socks e = Some \<lparr>tcp = 9, udp_uni = 0, udp_broad = 0\<rparr>" "ep_sesskey (cl_ep demo_player) = ep_sesskey e"
    by (simp_all add: e_def demo_player_def)
  have w: "writable 2060 (c_tx (wide_net (tcp \<lparr>tcp = 9, udp_uni = 0, udp_broad = 0\<rparr>)))" by (simp add: wide_net_def wide_tx_writable)
  from send_to_target_ok [where net = wide_net, OF plain_aes_law plain_hmac_law k(1,2) g k(4) w] obtain b m net' where
    send: "brserver_send_to_target plain_ssl (Some (replicate 16 1)) demo_room 1 (replicate 2048 65) wide_net = Some (0, net')"
    and tw0: "tx_wire (c_tx (net' (tcp \<lparr>tcp = 9, udp_uni = 0, udp_broad = 0\<rparr>)))
      = tx_wire (c_tx (wide_net (tcp \<lparr>tcp = 9, udp_uni = 0, udp_broad = 0\<rparr>))) @ encode_message m" by metis
  have tw: "tx_wire (c_tx (net' 9)) = encode_message m" using tw0 by (simp add: wide_net_def wide_tx_writable)
  define cn where "cn = \<lparr>c_rx = [tx_wire (c_tx (net' 9))], c_tx = wide_tx\<rparr>"
  have l: "live (c_rx cn)" by (simp add: cn_def live_def tw encode_message_def be32_def)
  have c: "tx_wire (c_tx (wide_net (tcp \<lparr>tcp = 9, udp_uni = 0, udp_broad = 0\<rparr>))) @ concat (c_rx cn)
      = tx_wire (c_tx (snd (the (brserver_send_to_target plain_ssl (Some (replicate 16 1)) demo_room 1 (replicate 2048 65) wide_net))
          (tcp \<lparr>tcp = 9, udp_uni = 0, udp_broad = 0\<rparr>))) @ []"
    by (simp add: send cn_def wide_net_def wide_tx_writable)
  have q: "queue_wf (cl_messages demo_player)" "queue_list (cl_messages demo_player) = []" "0 < queue_room (cl_messages demo_player)"
    by (simp_all add: demo_player_def queue_wf_def queue_list_def queue_room_def)
  have t: "take 1984 (replicate 2048 (65 :: u8)) = replicate 1984 65" by (simp add: min_def)
  show ?thesis
    using room_message_delivered [where net = wide_net, OF plain_aes_law plain_hmac_law k(1-3) g k(4) w k(5) l c q,
        of "replicate 2060 0" zero_message] send
    unfolding cn_def t by auto
qed

end
