(* ===== verification/Server_App.thy ===== *)
theory Server_App
  imports Transport "HOL-Library.Sublist"
begin

text \<open>
  What the two game servers, \<open>tetrisd/room.c\<close> and \<open>bombd/main.c\<close>, do alike with a room of the transport: ask it for its clients, empty its message queue, and send.
  The room's thread runs beside these calls; a call sees some state of the room.
\<close>

section \<open>Calls\<close>

text \<open>\<open>brserver_client_info\<close> writes one id per client into the caller's array, whatever its length.\<close>

definition client_info_into :: "('k, 'x) Server \<Rightarrow> u32 list \<Rightarrow> (u32 \<times> u32 list) option" where
  "client_info_into server client_ids =
     (case brserver_client_info server of (n, ids) \<Rightarrow>
        if length ids \<le> length client_ids then Some (n, ids @ drop (length ids) client_ids) else None)"

fun drain_msgs :: "nat \<Rightarrow> ('k, 'x) Server \<Rightarrow> u8 list list \<times> ('k, 'x) Server" where
  "drain_msgs 0 server = ([], server)"
| "drain_msgs (Suc left) server =
     (case brserver_get_app_msg server of
        (None, server') \<Rightarrow> ([], server')
      | (Some m, server') \<Rightarrow> (case drain_msgs left server' of (ms, server'') \<Rightarrow> (m # ms, server'')))"

section \<open>Clients\<close>

lemma info_loop_all: "info_loop (length cs) cs = map ep_id cs"
  by (induction cs) simp_all

lemma client_info_wf: "server_wf srv \<Longrightarrow> brserver_client_info srv = (ll_count (sv_clients srv), map ep_id (ll_nodes (sv_clients srv)))"
  by (simp add: brserver_client_info_def server_wf_def list_wf_def info_loop_all)

lemma client_info_into_wf:
  assumes "server_wf srv"
  shows "client_info_into srv ids =
     (if length (ll_nodes (sv_clients srv)) \<le> length ids
      then Some (ll_count (sv_clients srv), map ep_id (ll_nodes (sv_clients srv)) @ drop (length (ll_nodes (sv_clients srv))) ids) else None)"
  using client_info_wf [OF assms] by (simp add: client_info_into_def)

text \<open>In a run of the room, clients are only added, behind those that are there.\<close>

lemma lobby_accept_grows:
  assumes "list_wf (sv_clients srv)" and "lobby_accept ssl fd mem msg0 (srv, net) = Some (srv', net')"
  shows "prefix (ll_nodes (sv_clients srv)) (ll_nodes (sv_clients srv'))"
proof -
  have "prefix (ll_nodes (sv_clients srv)) (ll_nodes (snd (add_to_list (sv_clients srv) e)))" for e
    using add_to_list_nodes [OF assms(1), of e] by auto
  then show ?thesis using lobby_accept_cases [OF assms(2)] by auto
qed

lemma br_step_grows:
  assumes "br_step ssl r r'" and "run_wf r"
  shows "prefix (ll_nodes (sv_clients (r_srv r))) (ll_nodes (sv_clients (r_srv r')))"
proof -
  have w: "server_wf (r_srv r)" using assms(2) by (simp add: run_wf_def)
  from assms(1) show ?thesis
  proof cases
    case s_disconnected
    then show ?thesis using brserver_get_disconnected_none [OF w] by simp
  next
    case (t_accept poll_r accept_r mem msg0 srv' net')
    have "list_wf (sv_clients (r_srv r))" using w by (simp add: server_wf_def)
    then show ?thesis using t_accept lobby_accept_grows [of "r_srv r"] by (auto simp: lobby_iteration_def split: if_splits)
  next
    case (t_game fds srv' net')
    then show ?thesis using enter_game_cases [OF w, of "r_net r"] by auto
  next
    case (t_revert srv' net')
    then show ?thesis using enter_game_cases [OF w, of "r_net r"] by auto
  next
    case (t_listen fds activity ready udp stack msg0 go fds' srv' net')
    then show ?thesis using game_iteration_wf [OF w t_listen(4)] by (simp add: same_room_def)
  qed simp_all
qed

lemma br_run_grows:
  assumes "br_run ssl r n r'" and "run_wf r" and "ids_from b k (r_srv r)"
  shows "prefix (ll_nodes (sv_clients (r_srv r))) (ll_nodes (sv_clients (r_srv r'))) \<and> run_wf r' \<and> (\<exists>k'. ids_from b k' (r_srv r'))"
  using assms
proof (induction rule: br_run.induct)
  case (run_step n r1 r2)
  then obtain k' where "prefix (ll_nodes (sv_clients (r_srv r))) (ll_nodes (sv_clients (r_srv r1)))" "run_wf r1" "ids_from b k' (r_srv r1)" by auto
  then show ?case using br_step_grows [OF run_step.hyps(2)] br_step_wf [OF run_step.hyps(2)] by (blast intro: prefix_order.trans)
qed auto

section \<open>Messages\<close>

lemma drain_msgs_list:
  "queue_wf (sv_messages srv) \<Longrightarrow> \<exists>q. drain_msgs k srv = (map msg_content (take k (queue_list (sv_messages srv))), srv\<lparr>sv_messages := q\<rparr>) \<and> queue_wf q"
proof (induction k arbitrary: srv)
  case 0
  then show ?case by (auto intro!: exI [of _ "sv_messages srv"])
next
  case (Suc k)
  obtain r q where g: "get_app_msg (sv_messages srv) = (r, q)" by fastforce
  have gl: "queue_wf q" "queue_list q = tl (queue_list (sv_messages srv))"
      "r = (case queue_list (sv_messages srv) of [] \<Rightarrow> None | m # _ \<Rightarrow> Some (msg_content m))"
    using get_app_msg_list [OF Suc.prems] g by auto
  obtain q' where "drain_msgs k (srv\<lparr>sv_messages := q\<rparr>) = (map msg_content (take k (queue_list q)), srv\<lparr>sv_messages := q'\<rparr>)" "queue_wf q'"
    using Suc.IH [of "srv\<lparr>sv_messages := q\<rparr>"] gl(1) by auto
  then show ?case using gl g by (cases "queue_list (sv_messages srv)") (auto simp: brserver_get_app_msg_def)
qed

abbreviation (input) drained :: "nat \<Rightarrow> ('k, 'x) Server \<Rightarrow> u8 list list" where "drained n server \<equiv> fst (drain_msgs n server)"

lemma drain_msgs_length: "length (drained n server) \<le> n"
  by (induction n arbitrary: server) (auto split: option.split prod.split simp: case_prod_beta)

lemma drain_msgs_wf: "server_wf server \<Longrightarrow> server_wf (snd (drain_msgs n server))"
proof (induction n arbitrary: server)
  case (Suc n)
  show ?case using brserver_get_app_msg_wf [OF Suc.prems] Suc.IH
    by (cases "brserver_get_app_msg server") (auto split: option.split simp: case_prod_beta)
qed simp

text \<open>A message to all clients of a well-formed room is sent.\<close>

lemma send_to_all_ok:
  assumes "server_wf server"
  shows "\<exists>r net'. brserver_send_to_all server content net = Some (r, net')"
proof -
  obtain net1 where "send_broadcast_tcp server ((blank_message (ep_id (sv_self server)) MSG_APP)\<lparr>msg_content := take MSG_CONTENT_LENGTH content\<rparr>) net = Some (0, net1)"
    using send_broadcast_ok [OF assms] by blast
  then show ?thesis by (simp add: brserver_send_to_all_def)
qed

lemma drain_msgs_rest:
  "queue_wf (sv_messages srv) \<Longrightarrow> queue_list (sv_messages (snd (drain_msgs k srv))) = drop k (queue_list (sv_messages srv))"
proof (induction k arbitrary: srv)
  case (Suc k)
  obtain r q where g: "get_app_msg (sv_messages srv) = (r, q)" by fastforce
  have "queue_wf q" "queue_list q = tl (queue_list (sv_messages srv))"
      "r = (case queue_list (sv_messages srv) of [] \<Rightarrow> None | m # _ \<Rightarrow> Some (msg_content m))"
    using get_app_msg_list [OF Suc.prems] g by auto
  then show ?case using Suc.IH [of "srv\<lparr>sv_messages := q\<rparr>"] g
    by (cases "queue_list (sv_messages srv)") (auto simp: brserver_get_app_msg_def case_prod_beta)
qed simp

lemma drain_msgs_none:
  assumes "queue_wf (sv_messages srv)" and "queue_list (sv_messages srv) = []"
  shows "drain_msgs k srv = ([], srv)"
proof (cases k)
  case (Suc j)
  have "get_app_msg (sv_messages srv) = (None, sv_messages srv)" using lq.empty_iff [OF assms(1)] assms(2) by (simp add: get_app_msg_def)
  then show ?thesis by (simp add: Suc brserver_get_app_msg_def)
qed simp

text \<open>The envelope of a client that the room knows is the only message that is drained, when the queue was empty.\<close>

lemma envelope_drained:
  assumes "aes_law ssl" and "hmac_law ssl" and "length (ep_sesskey (cl_ep c)) = 32" and "length iv = 16" and "length content = 2048"
    and "get_from_list (sv_clients srv) (ep_id (cl_ep c)) = Some e" and "ep_sesskey e = ep_sesskey (cl_ep c)"
    and "queue_wf (sv_messages srv)" and "queue_list (sv_messages srv) = []" and "0 < queue_room (sv_messages srv)" and "0 < left"
  obtains out q where "drain_msgs left (server_receive ssl (app_envelope ssl (Some iv) c content) srv) = ([out], srv\<lparr>sv_messages := q\<rparr>)"
    and "queue_wf q" and "queue_list q = []" and "take 1984 out = take 1984 content"
proof -
  let ?s = "server_receive ssl (app_envelope ssl (Some iv) c content) srv"
  obtain out where o: "open_app ssl (sender_key srv) (app_envelope ssl (Some iv) c content) = Some out" "take 1984 (msg_content out) = take 1984 content"
    using envelope_opened [OF assms(1-7)] .
  have m: "?s = srv\<lparr>sv_messages := queue_app (Some out) (sv_messages srv)\<rparr>" using o(1) by (simp add: server_receive_def)
  have q: "queue_wf (sv_messages ?s)" "queue_list (sv_messages ?s) = [out]"
    using queue_app_list [OF assms(8), of "Some out"] assms(9,10) unfolding m by simp_all
  obtain q' where d: "drain_msgs left ?s = ([msg_content out], ?s\<lparr>sv_messages := q'\<rparr>)" "queue_wf q'"
    using drain_msgs_list [OF q(1), of left] q(2) assms(11) by (cases left) auto
  have "queue_list q' = []" using drain_msgs_rest [OF q(1), of left] q(2) d(1) assms(11) by (cases left) auto
  with that [OF _ d(2)] d(1) o(2) show thesis by (simp add: m)
qed

text \<open>What a client sent is the only message that is drained.\<close>

lemma client_send_drained:
  assumes "aes_law ssl" and "hmac_law ssl" and "length (ep_sesskey (cl_ep c)) = 32" and "length iv = 16" and "length content = 2048"
    and "writable 2060 (c_tx cn)" and "brclient_send_msg ssl (Some iv) c content cn = (r, cn')"
    and "get_from_list (sv_clients srv) (ep_id (cl_ep c)) = Some e" and "ep_sesskey e = ep_sesskey (cl_ep c)"
    and "server_wf srv" and "k < length (ll_nodes (sv_clients srv))" and "length ready = length (ll_nodes (sv_clients srv))"
    and "\<forall>j < length ready. ready ! j \<longleftrightarrow> j = k" and "fds ! k = fd" and "live (c_rx (net fd))"
    and "tx_wire (c_tx cn) @ concat (c_rx (net fd)) = tx_wire (c_tx cn') @ rest"
    and "queue_list (sv_messages srv) = []" and "0 < queue_room (sv_messages srv)" and "0 < left"
  obtains srv' net' out srv'' where "game_iteration ssl 1 ready None stack msg0 (fds, srv, net) = (True, fds, srv', net')"
    and "drain_msgs left srv' = ([out], srv'')" and "take 1984 out = take 1984 content"
proof -
  have wf: "list_wf (sv_clients srv)" "queue_wf (sv_messages srv)" using assms(10) by (simp_all add: server_wf_def)
  note sent = client_send_delivered [where net = net and fd = fd and fds = fds and k = k,
      OF assms(1-9) wf(1) assms(11-16) wf(2) assms(17,18)]
  then obtain srv' net' out where
    g: "game_iteration ssl 1 ready None stack msg0 (fds, srv, net) = (True, fds, srv', net')"
      "fst (brserver_get_app_msg srv') = Some out" "take 1984 out = take 1984 content"
      "queue_list (sv_messages (snd (brserver_get_app_msg srv'))) = []" by blast
  have q: "queue_wf (sv_messages srv')" using game_iteration_wf [OF assms(10) g(1)] by (simp add: server_wf_def)
  have "map msg_content (queue_list (sv_messages srv')) = [out]"
    using get_app_msg_list [OF q] g(2,4) by (auto simp: brserver_get_app_msg_def split: list.splits prod.splits)
  moreover from drain_msgs_list [OF q] obtain q' where
    "drain_msgs left srv' = (map msg_content (take left (queue_list (sv_messages srv'))), srv'\<lparr>sv_messages := q'\<rparr>)" by blast
  ultimately have "drain_msgs left srv' = ([out], srv'\<lparr>sv_messages := q'\<rparr>)" using assms(19) by (simp add: take_map [symmetric])
  from that [OF g(1) this g(3)] show thesis .
qed

text \<open>The run of the transport in which the demonstration client joins.\<close>

lemma demo_lobby:
  obtains net r where "br_run plain_ssl (run_init fresh_server demo_net) 3 r" and "sv_state (r_srv r) = LOBBY"
    and "length (ll_nodes (sv_clients (r_srv r))) = 1"
proof -
  obtain srv net where j: "lobby_accept plain_ssl 9 \<lparr>tcp = 0, udp_uni = 0, udp_broad = 0\<rparr> zero_message (open_server, demo_net) = Some (srv, net)"
      "length (ll_nodes (sv_clients srv)) = 1" "sv_self srv = sv_self open_server"
    by (rule demo_joined)
  have st: "sv_state open_server = LOBBY"
    by (simp add: open_server_def fresh_server_def brserver_init_room_def create_endpoint_def create_sockets_def good_os_def
      listen_on_tcp_def check_sockets_def prepare_broadcast_udp_def prepare_unicast_udp_def brserver_open_def Let_def set_state_def
      load_cert_file_def load_private_key_def plain_ssl_def disk_def)
  let ?r0 = "run_init fresh_server demo_net" and ?r1 = "run_init open_server demo_net"
  have "br_step plain_ssl ?r0 (?r0\<lparr>r_srv := snd (brserver_open plain_ssl disk (r_srv ?r0))\<rparr>)" by (rule br_step.s_open) (simp add: run_init_def)
  then have 1: "br_step plain_ssl ?r0 ?r1" by (simp add: run_init_def open_server_def)
  have 2: "br_step plain_ssl ?r1 (?r1\<lparr>r_at := In_lobby\<rparr>)" by (rule br_step.t_lobby) (simp_all add: run_init_def st)
  let ?r2 = "?r1\<lparr>r_at := In_lobby\<rparr>"
  have "BR_Server.lobby_iteration plain_ssl 1 9 \<lparr>tcp = 0, udp_uni = 0, udp_broad = 0\<rparr> zero_message (r_srv ?r2, r_net ?r2) = Some (srv, net)"
    using j(1) by (simp add: run_init_def BR_Server.lobby_iteration_def)
  with st have 3: "br_step plain_ssl ?r2 (?r2\<lparr>r_srv := srv, r_net := net\<rparr>)" by (intro br_step.t_accept) (simp_all add: run_init_def)
  have "br_run plain_ssl ?r0 3 ((?r1\<lparr>r_at := In_lobby\<rparr>)\<lparr>r_srv := srv, r_net := net\<rparr>)"
    using br_run.run_step [OF br_run.run_step [OF br_run.run_step [OF br_run.run_start 1] 2] 3] by (simp add: numeral_3_eq_3)
  then show thesis by (rule that) (use st j(2,3) in simp_all)
qed

section \<open>Properties\<close>

text \<open>
  C4 (server_sound): in every run of a server that was started, of at most \<open>2\<^sup>32\<close> steps without undefined behaviour, whatever the application
  calls, the kernel returns and the peers send, the number of clients is the length of their list, every client has its sockets and a
  session key of 32 bytes, the clients' ids count up from the base of the room, so that no two are the same, the queue is intact
  and holds application messages in the clear only, and the game loop's array has one descriptor per client.
\<close>

theorem server_sound:
  assumes "brserver_init_room os mem queue disc tp up id_base = (res, Some srv)"
    and "br_run ssl (run_init srv net) n r" and "n \<le> 2 ^ 32"
  shows "unat (ll_count (sv_clients (r_srv r))) = length (ll_nodes (sv_clients (r_srv r)))
    \<and> (\<forall>c \<in> set (ll_nodes (sv_clients (r_srv r))). ep_socks c \<noteq> None \<and> length (ep_sesskey c) = 32)
    \<and> (\<exists>accepted ks. accepted \<le> n \<and> sv_next_id (r_srv r) = id_base + of_nat accepted \<and> sorted_wrt (<) ks \<and> (\<forall>k \<in> set ks. k < accepted)
         \<and> map ep_id (ll_nodes (sv_clients (r_srv r))) = map (\<lambda>k. id_base + of_nat k) ks)
    \<and> distinct (map ep_id (ll_nodes (sv_clients (r_srv r))))
    \<and> queue_wf (sv_messages (r_srv r)) \<and> (\<forall>m \<in> set (queue_list (sv_messages (r_srv r))). msg_type m = MSG_APP)
    \<and> (\<forall>fds. r_at r = In_game fds \<longrightarrow> length fds = length (ll_nodes (sv_clients (r_srv r))))"
proof -
  from br_run_wf [OF assms(1,2)] obtain n' where w: "run_wf r" and n': "n' \<le> n" "ids_from id_base n' (r_srv r)" by blast
  have "distinct (map ep_id (ll_nodes (sv_clients (r_srv r))))"
    by (rule ids_from_distinct [OF n'(2)]) (use n'(1) assms(3) in simp)
  moreover have "\<exists>accepted ks. accepted \<le> n \<and> sv_next_id (r_srv r) = id_base + of_nat accepted \<and> sorted_wrt (<) ks \<and> (\<forall>k \<in> set ks. k < accepted)
         \<and> map ep_id (ll_nodes (sv_clients (r_srv r))) = map (\<lambda>k. id_base + of_nat k) ks"
    using n' unfolding ids_from_def by blast
  ultimately show ?thesis using w by (auto simp: run_wf_def server_wf_def list_wf_def client_ok_def crypto_lens)
qed

theorem server_sound_witness:
  "\<exists>r. br_run plain_ssl (run_init fresh_server demo_net) 3 r \<and> length (ll_nodes (sv_clients (r_srv r))) = 1
     \<and> unat (ll_count (sv_clients (r_srv r))) = 1 \<and> length (ep_sesskey (hd (ll_nodes (sv_clients (r_srv r))))) = 32
     \<and> distinct (map ep_id (ll_nodes (sv_clients (r_srv r))))"
proof -
  obtain r where r: "br_run plain_ssl (run_init fresh_server demo_net) 3 r" "length (ll_nodes (sv_clients (r_srv r))) = 1" by (rule demo_lobby)
  then have "hd (ll_nodes (sv_clients (r_srv r))) \<in> set (ll_nodes (sv_clients (r_srv r)))" by (cases "ll_nodes (sv_clients (r_srv r))") auto
  then show ?thesis using server_sound [OF fresh_server_init r(1)] r by auto
qed

end
