(* ===== verification/Room_Net.thy ===== *)
theory Room_Net
  imports Tetris_Client Server_App Logging
begin

text \<open>
  The Tetris room on the transport: the parts of \<open>room_worker_run\<close> in \<open>tetrisd/room.c\<close> that call \<open>libbattleroyale\<close> and the log client. The set-up before the lobby, the lobby
  loop that asks the room for its clients, the tick loop that reads the texts out of the room's message buffers and writes texts into them, and the end.

  As in \<open>Bomb_Net\<close>, the room's thread runs beside the worker: each call sees a state of the room, which is an argument. A text lies in
  a buffer of 2048 bytes and ends with a zero byte; what is behind it, and what a failed conversion leaves, is the stack's. Reading a text from a buffer
  without a zero byte runs over its end and is \<open>None\<close>, as is a text with more headers than the parser has room for and a write behind \<open>client_ids[MAX_LOBBY_SIZE]\<close>.
\<close>

section \<open>Texts in buffers\<close>

definition text_bytes :: "string \<Rightarrow> u8 list" where
  "text_bytes t = map (\<lambda>c. of_nat (code c)) t"

definition hypertext_buffer :: "u8 list \<Rightarrow> ht_error + string \<Rightarrow> u8 list" where
  "hypertext_buffer stack ht = (case ht of Inl _ \<Rightarrow> stack | Inr t \<Rightarrow> text_bytes t @ 0 # drop (length t + 1) stack)"

definition buffer_text :: "u8 list \<Rightarrow> string option" where
  "buffer_text b = (if 0 \<in> set b then Some (map (\<lambda>x. char_of (unat x)) (takeWhile (\<lambda>x. x \<noteq> 0) b)) else None)"

section \<open>Set-up\<close>

text \<open>\<open>room_log_msg\<close>, without the copy on the terminal.\<close>

definition room_log_msg :: "log_env \<Rightarrow> LogLevel \<Rightarrow> string \<Rightarrow> LogClient \<times> u32 \<Rightarrow> LogClient \<times> u32" where
  "room_log_msg env lev message lg = log_client_push env lev (text_bytes (take (LOG_MSG_LENGTH - 1) message)) (fst lg) (snd lg)"

definition room_log_init :: "int \<Rightarrow> int \<Rightarrow> LogClient" where
  "room_log_init sock room_index = snd (log_client_init sock ''var/run/tetrislog.sock'' (text_bytes (take 31 (''tetrisd-r'' @ dec_int room_index))))"

definition room_udp_port :: "int \<Rightarrow> u16" where
  "room_udp_port room_index = word_of_int (6910 + room_index)"

text \<open>\<open>None\<close> is \<open>exit(1)\<close>; the master is told that the room is ready once its port is bound.\<close>

definition room_setup ::
  "('k, 'x, 'c, 'm) openssl \<Rightarrow> files \<Rightarrow> os_results \<Rightarrow> u8 list \<Rightarrow> Message queue \<Rightarrow> u32 list \<Rightarrow> u16 \<Rightarrow> u32 \<Rightarrow> int
    \<Rightarrow> (('k, 'x) Server \<times> HubMsg list) option" where
  "room_setup ssl fs os mem queue disc tcp_port id_base room_index =
     (case brserver_init_room os mem queue disc tcp_port (room_udp_port room_index) id_base of
        (_, None) \<Rightarrow> None
      | (res, Some server) \<Rightarrow>
          if res < 0 then None
          else (case brserver_open ssl fs server of
                  (r, server') \<Rightarrow> if r < 0 then None else Some (server', [HUB_READY])))"

section \<open>The lobby\<close>

type_synonym ('k, 'x) look = "('k, 'x) Server \<times> int \<times> HubMsg list \<times> bool"

datatype room_lobby_end = Lobby_waits "u32 list" LobbyState | Lobby_abandoned | Lobby_over nat "u32 list" LobbyState

definition lobby_start :: LobbyState where
  "lobby_start = \<lparr>lb_reported = 0, lb_expected = 0, lb_start_ordered = False, lb_order_time = 0,
     lb_global = \<lparr>hr_count = 0, hr_ids = replicate HUB_MAX_PLAYERS 0, hr_alive = replicate HUB_MAX_PLAYERS False\<rparr>\<rparr>"

text \<open>Each entry is a pass: the room as it is seen, the clock, what the master sent, and whether the master is gone.\<close>

fun room_lobby :: "('k, 'x) look list \<Rightarrow> u32 list \<Rightarrow> LobbyState \<Rightarrow> (HubMsg list \<times> room_lobby_end) option" where
  "room_lobby [] ids lb = Some ([], Lobby_waits ids lb)"
| "room_lobby ((server, now, hubs, gone) # es) ids lb =
     (case client_info_into server ids of
        None \<Rightarrow> None
      | Some (lobby_size, ids') \<Rightarrow>
          (case Room.lobby_iteration now (take (unat lobby_size) ids') hubs lb of
             (reports, lb', over) \<Rightarrow>
               if gone then Some (reports, Lobby_abandoned)
               else if over then Some (reports, Lobby_over (unat lobby_size) ids' lb')
               else map_option (\<lambda>(sent, e). (reports @ sent, e)) (room_lobby es ids' lb')))"

definition room_start ::
  "(u32 \<Rightarrow> rng) \<Rightarrow> (nat \<Rightarrow> u32) \<Rightarrow> string \<Rightarrow> ('k, 'x) Server \<Rightarrow> nat \<Rightarrow> u32 list \<Rightarrow> HubRoster \<Rightarrow> rng
    \<Rightarrow> (RoomState \<times> rng \<times> ('k, 'x) Server) option" where
  "room_start prng now date server lobby_size client_ids g r =
     (if lobby_size = 0 then None
      else case brserver_start server of (res, server') \<Rightarrow>
             map_option (\<lambda>(rs, r'). (rs, r', server')) (room_begin prng now date client_ids lobby_size (0 \<le> res) g r))"

section \<open>The tick loop\<close>

fun room_drain :: "InputPayload \<Rightarrow> nat \<Rightarrow> ('k, 'x) Server \<Rightarrow> GameSession \<times> rng \<Rightarrow> ((GameSession \<times> rng) \<times> ('k, 'x) Server) option" where
  "room_drain stale 0 server sr = Some (sr, server)"
| "room_drain stale (Suc left) server sr =
     (case brserver_get_app_msg server of
        (None, server') \<Rightarrow> Some (sr, server')
      | (Some buffer, server') \<Rightarrow>
          (case buffer_text buffer of
             None \<Rightarrow> None
           | Some t \<Rightarrow>
               (case handle_client_msg stale t (fst sr) (snd sr) of None \<Rightarrow> None | Some sr' \<Rightarrow> room_drain stale left server' sr')))"

fun send_texts :: "u8 list \<Rightarrow> ('k, 'x) Server \<Rightarrow> room_out list \<Rightarrow> net \<Rightarrow> net option" where
  "send_texts stack server [] net = Some net"
| "send_texts stack server (To_master m # os) net = send_texts stack server os net"
| "send_texts stack server (To_clients ht # os) net =
     (case brserver_send_to_all server (hypertext_buffer stack ht) net of None \<Rightarrow> None | Some (_, net') \<Rightarrow> send_texts stack server os net')"

text \<open>One iteration: the queue of the room is emptied, then the rest of \<open>room_iteration\<close>, \<open>room_tick\<close>, whose texts go out.\<close>

definition room_pass ::
  "string \<Rightarrow> InputPayload \<Rightarrow> StatePayload \<Rightarrow> u8 list \<Rightarrow> HubMsg list \<Rightarrow> bool \<Rightarrow> ('k, 'x) Server \<times> net \<Rightarrow> RoomState \<times> rng
    \<Rightarrow> ((('k, 'x) Server \<times> net) \<times> RoomState \<times> rng) option" where
  "room_pass date si st stack hubs gone sn rr =
     (case room_drain si MAX_MSGS_PER_TICK (fst sn) (rm_session (fst rr), snd rr) of
        None \<Rightarrow> None
      | Some ((ss, r1), server) \<Rightarrow>
          (case room_tick date st hubs gone ((fst rr)\<lparr>rm_session := ss\<rparr>) r1 of
             (rs', r') \<Rightarrow>
               map_option (\<lambda>net'. ((server, net'), rs', r'))
                 (send_texts stack server (drop (length (rm_out (fst rr))) (rm_out rs')) (snd sn))))"

text \<open>The loop, with what the thread of the room and the master do in between, until the match is over.\<close>

type_synonym ('k, 'x) tick = "('k, 'x) Server \<times> net \<times> HubMsg list \<times> bool"

fun room_loop ::
  "string \<Rightarrow> InputPayload \<Rightarrow> StatePayload \<Rightarrow> u8 list \<Rightarrow> ('k, 'x) tick list \<Rightarrow> RoomState \<times> rng \<Rightarrow> (RoomState \<times> rng) option" where
  "room_loop date si st stack [] rr = Some rr"
| "room_loop date si st stack ((server, net, hubs, gone) # es) rr =
     (if rm_match_over (fst rr) then Some rr
      else case room_pass date si st stack hubs gone (server, net) rr of
             None \<Rightarrow> None
           | Some (_, rr') \<Rightarrow> room_loop date si st stack es rr')"

text \<open>Room over: the last snapshots, then the transport is ended.\<close>

definition room_close ::
  "string \<Rightarrow> StatePayload \<Rightarrow> u8 list \<Rightarrow> ('k, 'x) Server \<times> net \<Rightarrow> RoomState \<Rightarrow> ((('k, 'x) Server \<times> net) \<times> RoomState) option" where
  "room_close date st stack sn rs =
     (let rs' = room_over date st rs
      in map_option (\<lambda>net'. ((snd (brserver_end (fst sn)), net'), rs')) (send_texts stack (fst sn) (drop (length (rm_out rs)) (rm_out rs')) (snd sn)))"

section \<open>Lemmas on texts\<close>

definition sendable :: "string \<Rightarrow> bool" where
  "sendable t \<longleftrightarrow> CHR 0x00 \<notin> set t \<and> length t < 1984"

lemma byte_of_char: "of_nat (code c) = (0 :: u8) \<longleftrightarrow> c = CHR 0x00" "char_of (unat (of_nat (code c) :: u8)) = c"
proof -
  have lt: "code c < 256" unfolding code_def by simp
  then have u: "unat (of_nat (code c) :: u8) = code c" by (simp add: unsigned_of_nat take_bit_nat_eq_self)
  show "char_of (unat (of_nat (code c) :: u8)) = c" unfolding u by (simp add: code_def)
  have "of_nat (code c) = (0 :: u8) \<longleftrightarrow> code c = 0" unfolding unat_eq_0 [symmetric] u ..
  also have "\<dots> \<longleftrightarrow> c = CHR 0x00"
  proof
    assume "code c = 0"
    then have "c = char_of (0 :: nat)" unfolding code_def by (metis char_of_char)
    then show "c = CHR 0x00" by (simp add: char_of_def)
  qed (simp add: code_def)
  finally show "of_nat (code c) = (0 :: u8) \<longleftrightarrow> c = CHR 0x00" .
qed

lemma takeWhile_text: "CHR 0x00 \<notin> set t \<Longrightarrow> takeWhile (\<lambda>x. x \<noteq> 0) (text_bytes t @ 0 # rest) = text_bytes t"
  by (induction t) (auto simp: text_bytes_def byte_of_char)

lemma text_bytes_text: "map (\<lambda>x. char_of (unat x)) (text_bytes t) = t"
  by (simp add: text_bytes_def comp_def byte_of_char)

text \<open>A buffer that begins like the one of a short text has this text.\<close>

lemma buffer_text_prefix:
  assumes "sendable t" and "length stack = 2048" and "take 1984 b = take 1984 (hypertext_buffer stack (Inr t))"
  shows "buffer_text b = Some t"
proof -
  have l: "length (text_bytes t) = length t" "length t < 1984" using assms(1) by (simp_all add: text_bytes_def sendable_def)
  define rest where "rest = take (1983 - length t) (drop (length t + 1) stack) @ drop 1984 b"
  have "take 1984 b = text_bytes t @ 0 # take (1983 - length t) (drop (length t + 1) stack)"
    using assms(3) l by (simp add: hypertext_buffer_def take_Cons')
  then have b: "b = text_bytes t @ 0 # rest" using append_take_drop_id [of 1984 b] by (simp add: rest_def)
  have "takeWhile (\<lambda>x. x \<noteq> 0) b = text_bytes t" "0 \<in> set b"
    unfolding b using assms(1) takeWhile_text by (simp_all add: sendable_def)
  then show ?thesis by (simp add: buffer_text_def text_bytes_text)
qed

lemma hypertext_buffer_length: "length t < length stack \<Longrightarrow> length (hypertext_buffer stack (Inr t)) = length stack"
  by (simp add: hypertext_buffer_def text_bytes_def)

text \<open>The texts of the protocol are short and have no zero byte.\<close>

abbreviation (input) nul_free :: "string \<Rightarrow> bool" where "nul_free t \<equiv> CHR 0x00 \<notin> set t"

lemma dec_nat_nul: "nul_free (dec_nat n)" "nul_free (dec_int v)"
  using dec_nat_chars [of "CHR 0x00"] by (auto simp: dec_int_def is_digit_def code_def)

lemma print_items_nul: "D_lit (CHR 0x00) \<notin> set ds \<Longrightarrow> nul_free (print_items ds vs)"
  by (induction ds vs rule: print_items.induct) (auto simp: dec_nat_nul)

lemma sprintf_nul: "D_lit (CHR 0x00) \<notin> set (parse_format fmt) \<Longrightarrow> nul_free (sprintf fmt vs)"
  by (simp add: sprintf_def print_items_nul)

lemma request_sendable:
  assumes "value_legal ctype" and "length ctype \<le> 30" and "value_legal date" and "length date < 30" and "length bdy \<le> 1500"
    and "method_to_string meth = Some ms" and "nul_free ctype" and "nul_free date" and "nul_free bdy"
    and "build_request meth ctype bdy pid date zero_msg = Inr m" and "convert_to_hypertext m = Inr ht"
  shows "sendable ht"
proof -
  have m: "m = \<lparr>token1 = ms, token2 = sprintf ''/room/%u/player/%u'' [0, uint pid], token3 = CURRENT_VER,
            headers = request_headers ctype bdy pid date, body = bdy\<rparr>"
    using build_request_eq [OF assms(1,3) _ assms(6), of bdy pid] assms(5,10) by simp
  have u: "unat pid < 2 ^ 32" by (rule order_less_le_trans [OF unsigned_less]) simp
  have "length (dec_nat (unat pid)) \<le> 10" "length (dec_nat (length bdy)) \<le> 10" using u assms(5) by (intro dec_u32_length, simp)+
  then have len: "length (message_text m) < 1984"
    using assms(2,4,5) method_text [OF assms(6)] path_text [of pid] by (simp add: m message_text_def request_headers_def header_text_def)
  have "nul_free ms" using assms(6) by (cases meth) (auto simp: method_to_string_def HTTTP_METHODS_def)
  moreover have "nul_free (sprintf ''/room/%u/player/%u'' [0, uint pid])" by (rule sprintf_nul) simp
  ultimately have "nul_free (message_text m)" using assms(7-9)
    by (simp add: m message_text_def request_headers_def header_text_def HT_END_LINE_def dec_nat_nul)
  then show ?thesis using convert_fits [of m] len assms(11) by (auto simp: sendable_def dest: in_set_takeD)
qed

lemma action_sendable:
  assumes "value_legal date" and "length date < 30" and "nul_free date" and "send_action date True s a = [Inr ht]"
  shows "sendable ht"
proof -
  let ?b = "payload_encode_input \<lparr>ip_action = u32_of_action a\<rparr>"
  have n: "nul_free ?b" unfolding payload_encode_input_def by (rule sprintf_nul) simp
  have t: "method_to_string REQ_ACTION = Some ''ACTION''" by (simp add: method_to_string_def HTTTP_METHODS_def)
  have l: "length ?b \<le> 1500" by (rule order_trans [OF body_lengths(1)]) simp
  obtain m where b: "build_request REQ_ACTION ''application/input-payload'' ?b (gs_player_id s) date zero_msg = Inr m" "convert_to_hypertext m = Inr ht"
    using assms(4) by (auto simp: send_action_def req_create_action_def and_then_def split: sum.splits)
  show ?thesis by (rule request_sendable [OF content_types(1) _ assms(1,2) l t _ assms(3) n b]) simp_all
qed

lemma state_body_nul:
  assumes "state_payload_ok p"
  shows "nul_free (payload_encode_state p)"
proof -
  have "cell_char (sp_board p ! i ! j) \<noteq> CHR 0x00" if "i < 20" "j < 10" for i j
  proof -
    have "unat (sp_board p ! i ! j) < 208" using assms that by (auto simp: state_payload_ok_def grid_wf_def list_all_length)
    then have "code (cell_char (sp_board p ! i ! j)) = 48 + unat (sp_board p ! i ! j)" by (simp add: cell_char_def code_def)
    then show ?thesis by (auto simp: code_def)
  qed
  moreover have "nul_free (sprintf STATE_FORMAT (state_fields p))" by (rule sprintf_nul) simp
  ultimately show ?thesis unfolding payload_encode_state_def by (fastforce simp del: upt_rec_numeral)
qed

lemma state_sendable:
  assumes "snapshot_ok (sl_state sl)" and "value_legal date" and "length date < 30" and "nul_free date" and "state_message date stale sl = Inr ht"
  shows "sendable ht"
proof -
  let ?p = "build_state_payload (sl_state sl) stale"
  have ok: "state_payload_ok ?p" by (rule build_state_payload_ok [OF assms(1)])
  have t: "method_to_string REQ_STATE = Some ''STATE''" by (simp add: method_to_string_def HTTTP_METHODS_def)
  have l: "length (payload_encode_state ?p) \<le> 1500" using state_body_length [OF ok] by simp
  obtain m where b: "build_request REQ_STATE ''application/state-payload'' (payload_encode_state ?p) (sl_player_id sl) date zero_msg = Inr m"
      "convert_to_hypertext m = Inr ht"
    using assms(5) by (auto simp: state_message_def req_create_state_def and_then_def split: sum.splits)
  show ?thesis by (rule request_sendable [OF content_types(2) _ assms(2,3) l t _ assms(4) state_body_nul [OF ok] b]) simp_all
qed

section \<open>The loop on the transport is the loop on texts\<close>

lemma room_drain_texts:
  "room_drain stale n server sr =
     (case those (map buffer_text (drained n server)) of
        None \<Rightarrow> None
      | Some ts \<Rightarrow> map_option (\<lambda>sr'. (sr', snd (drain_msgs n server))) (handle_texts stale ts sr))"
  by (induction n arbitrary: server sr) (auto simp: case_prod_beta comp_def option.map_comp split: option.split)

lemma send_texts_ok: "server_wf server \<Longrightarrow> \<exists>net'. send_texts stack server os net = Some net'"
proof (induction os arbitrary: net)
  case (Cons x os)
  show ?case
  proof (cases x)
    case (To_clients ht)
    obtain r net1 where "brserver_send_to_all server (hypertext_buffer stack ht) net = Some (r, net1)" using send_to_all_ok [OF Cons.prems] by blast
    then show ?thesis using Cons.IH [OF Cons.prems, of net1] To_clients by simp
  qed (use Cons in simp)
qed simp

lemma those_length: "those xs = Some ys \<Longrightarrow> length ys = length xs"
  by (induction xs arbitrary: ys) (auto split: option.splits)

lemma room_pass_texts:
  assumes "server_wf server" and "those (map buffer_text (drained MAX_MSGS_PER_TICK server)) = Some ts" and "\<forall>t \<in> set ts. text_fits t"
  shows "\<exists>sn' rr'. room_pass date si st stack hubs gone (server, net) (rs, r) = Some (sn', rr') \<and> room_iteration date si st ts hubs gone rs r = Some rr'"
proof -
  have l: "length ts \<le> MAX_MSGS_PER_TICK" using those_length [OF assms(2)] drain_msgs_length [of MAX_MSGS_PER_TICK server] by simp
  obtain ss r1 where f: "handle_texts si ts (rm_session rs, r) = Some (ss, r1)"
    using handle_texts_fit [of si ts "(rm_session rs, r)"] assms(3) by fastforce
  show ?thesis using send_texts_ok [OF drain_msgs_wf [OF assms(1)], of stack] l f
    by (fastforce simp: room_pass_def room_drain_texts assms(2) room_iteration_def drain_clients_def split: prod.split)
qed

lemma those_the: "\<forall>x \<in> set xs. f x \<noteq> None \<Longrightarrow> those (map f xs) = Some (map (the \<circ> f) xs)"
  by (induction xs) auto

text \<open>What reaches the session in a pass: the texts that the room's queue holds.\<close>

definition arrivals_at :: "('k, 'x) tick \<Rightarrow> arrivals" where
  "arrivals_at e = (case e of (server, net, hubs, gone) \<Rightarrow>
     (map (the \<circ> buffer_text \<circ> msg_content) (take MAX_MSGS_PER_TICK (queue_list (sv_messages server))), hubs, gone))"

definition texts_end :: "('k, 'x) tick \<Rightarrow> bool" where
  "texts_end e = (case e of (server, net, hubs, gone) \<Rightarrow> server_wf server
     \<and> (\<forall>m \<in> set (take MAX_MSGS_PER_TICK (queue_list (sv_messages server))). \<exists>t. buffer_text (msg_content m) = Some t \<and> text_fits t))"

lemma room_pass_arrivals:
  assumes "texts_end (server, net, hubs, gone)"
  shows "\<exists>sn' ts rr'. arrivals_at (server, net, hubs, gone) = (ts, hubs, gone)
     \<and> room_pass date si st stack hubs gone (server, net) (rs, r) = Some (sn', rr') \<and> room_iteration date si st ts hubs gone rs r = Some rr'"
proof -
  let ?q = "take MAX_MSGS_PER_TICK (queue_list (sv_messages server))"
  have w: "server_wf server" and z: "\<forall>m \<in> set ?q. \<exists>t. buffer_text (msg_content m) = Some t \<and> text_fits t" using assms by (simp_all add: texts_end_def)
  have "queue_wf (sv_messages server)" using w by (simp add: server_wf_def)
  from drain_msgs_list [OF this, of MAX_MSGS_PER_TICK]
  have d: "drained MAX_MSGS_PER_TICK server = map msg_content ?q" by auto
  have n: "\<forall>b \<in> set (drained MAX_MSGS_PER_TICK server). buffer_text b \<noteq> None" using z unfolding d by fastforce
  have t: "\<forall>t \<in> set (map (the \<circ> buffer_text) (drained MAX_MSGS_PER_TICK server)). text_fits t" using z unfolding d by fastforce
  from room_pass_texts [OF w those_the [OF n] t] show ?thesis by (fastforce simp: arrivals_at_def d comp_assoc)
qed

section \<open>Properties\<close>

text \<open>
  Lemma (room_loop_on_texts): on the transport, the tick loop of a room does what it does on texts. Take the states of the room that the passes of the loop find, well-formed, the messages that a pass takes
  ended by a zero byte and with no more headers than the parser holds: every send of the loop succeeds, and it leaves session and outputs as the run on the texts of
  these messages does, up to the pass in which the match is over.
\<close>

lemma room_loop_on_texts:
  assumes "\<forall>e \<in> set es. texts_end e"
  shows "\<exists>k \<le> length es. \<exists>rr'. room_loop date si st stack es (rs, r) = Some rr' \<and> room_run date si st (map arrivals_at (take k es)) rs r = Some rr'
     \<and> (k < length es \<longrightarrow> rm_match_over (fst rr'))"
  using assms
proof (induction es arbitrary: rs r)
  case (Cons e es)
  obtain server net hubs gone where e: "e = (server, net, hubs, gone)" by (cases e)
  show ?case
  proof (cases "rm_match_over rs")
    case True
    then show ?thesis by (intro exI [of _ 0]) (simp add: e)
  next
    case False
    have t: "texts_end (server, net, hubs, gone)" using Cons.prems by (simp add: e)
    obtain sn' ts rs1 r1 where p: "arrivals_at e = (ts, hubs, gone)" "room_iteration date si st ts hubs gone rs r = Some (rs1, r1)"
        "room_pass date si st stack hubs gone (server, net) (rs, r) = Some (sn', rs1, r1)"
      using room_pass_arrivals [OF t, of date si st stack rs r] unfolding e by auto
    obtain k rr' where k: "k \<le> length es" "room_loop date si st stack es (rs1, r1) = Some rr'" "room_run date si st (map arrivals_at (take k es)) rs1 r1 = Some rr'"
        "k < length es \<longrightarrow> rm_match_over (fst rr')" using Cons.IH [of rs1 r1] Cons.prems by auto
    show ?thesis by (rule exI [of _ "Suc k"]) (use k p False in \<open>simp add: e\<close>)
  qed
qed simp

text \<open>
  C9 (key_over_transport): a key that a player presses reaches the player's board through the encrypted connection. Take keys that ask for one action, sent by a client whom the room knows under
  the same key, its bytes arriving in any pieces while the room's queue is empty: the room's game loop takes the message, and the next pass of the
  worker performs exactly this action for the player's id.
\<close>

theorem key_over_transport:
  assumes "aes_law ssl" and "hmac_law ssl" and "length (ep_sesskey (cl_ep c)) = 32" and "length iv = 16" and "length stack = 2048"
    and "value_legal date" and "length date < 30" and "CHR 0x00 \<notin> set date" and "keys_actions keys = [a]"
    and "fst (process_inputs date True keys s) = [ht]"
    and "writable 2060 (c_tx cn)" and "brclient_send_msg ssl (Some iv) c (hypertext_buffer stack ht) cn = (res, cn')"
    and "get_from_list (sv_clients srv) (ep_id (cl_ep c)) = Some e" and "ep_sesskey e = ep_sesskey (cl_ep c)"
    and "server_wf srv" and "k < length (ll_nodes (sv_clients srv))" and "length ready = length (ll_nodes (sv_clients srv))"
    and "\<forall>j < length ready. ready ! j \<longleftrightarrow> j = k" and "fds ! k = fd" and "live (c_rx (net fd))"
    and "tx_wire (c_tx cn) @ concat (c_rx (net fd)) = tx_wire (c_tx cn') @ rest"
    and "queue_list (sv_messages srv) = []" and "0 < queue_room (sv_messages srv)"
  shows "\<exists>srv' net' srv''. game_iteration ssl 1 ready None buf msg0 (fds, srv, net) = (True, fds, srv', net')
     \<and> room_drain stale MAX_MSGS_PER_TICK srv' (ss, r) = Some (handle_input (gs_player_id s) a ss r, srv'')"
proof -
  have known: "\<And>w. a \<noteq> ACTION_OTHER w" using keys_actions_known [of keys] assms(9) by simp
  from send_action_handled [OF assms(6,7) known] obtain t where t: "send_action date True s a = [Inr t]"
      "\<And>stale ss r. handle_client_msg stale t ss r = Some (handle_input (gs_player_id s) a ss r)" by blast
  have ht: "ht = Inr t" using process_inputs_sends [of date keys s] assms(9,10) t(1) by simp
  have send: "sendable t" by (rule action_sendable [OF assms(6-8) t(1)])
  have len: "length (hypertext_buffer stack ht) = 2048" using hypertext_buffer_length [of t stack] assms(5) send by (simp add: ht sendable_def)
  have pos: "0 < MAX_MSGS_PER_TICK" by simp
  obtain srv' net' out srv'' where g: "game_iteration ssl 1 ready None buf msg0 (fds, srv, net) = (True, fds, srv', net')"
      and d: "drain_msgs MAX_MSGS_PER_TICK srv' = ([out], srv'')" and out: "take 1984 out = take 1984 (hypertext_buffer stack ht)"
    using client_send_drained [where net = net and fd = fd and fds = fds and k = k, OF assms(1-4) len assms(11-23) pos] .
  have "buffer_text out = Some t" by (rule buffer_text_prefix [OF send assms(5)]) (use out ht in simp)
  then have "room_drain stale MAX_MSGS_PER_TICK srv' (ss, r) = Some (handle_input (gs_player_id s) a ss r, srv'')"
    unfolding room_drain_texts d by (simp add: t(2))
  with g show ?thesis by blast
qed

theorem key_over_transport_witness:
  "\<exists>ht srv' net' srv''. fst (process_inputs demo_date True [32] (zero_state\<lparr>gs_player_id := 9\<rparr>)) = [ht]
     \<and> game_iteration plain_ssl 1 [True] None (replicate 2060 0) zero_message ([9], demo_room, demo_wire (hypertext_buffer (replicate 2048 0) ht)) = (True, [9], srv', net')
     \<and> room_drain \<lparr>ip_action = 0\<rparr> MAX_MSGS_PER_TICK srv' (full_session, sconst 0) = Some (handle_input 9 ACTION_HARD_DROP full_session (sconst 0), srv'')"
proof -
  let ?s = "zero_state\<lparr>gs_player_id := 9\<rparr>" and ?cn = "\<lparr>c_rx = [], c_tx = wide_tx\<rparr>"
  have a: "keys_actions [32] = [ACTION_HARD_DROP]" by (simp add: keys_actions.simps key_action_def code_def)
  obtain t where t: "send_action demo_date True ?s ACTION_HARD_DROP = [Inr t]" using send_action_handled [OF demo_date_ok, of ACTION_HARD_DROP ?s] by auto
  have p: "fst (process_inputs demo_date True [32] ?s) = [Inr t]" using process_inputs_sends [of demo_date "[32]" ?s] a t by simp
  let ?b = "hypertext_buffer (replicate 2048 0) (Inr t)"
  have l: "length (replicate 2048 0 :: u8 list) = 2048" and n: "CHR 0x00 \<notin> set demo_date" by simp_all
  obtain cn' where c: "brclient_send_msg plain_ssl (Some (replicate 16 1)) demo_player ?b ?cn = (0, cn')" "live (c_rx (demo_wire ?b 9))"
    "writable 2060 (c_tx ?cn)" "tx_wire (c_tx ?cn) @ concat (c_rx (demo_wire ?b 9)) = tx_wire (c_tx cn') @ []" by (rule demo_sent)
  have wf: "server_wf demo_room" using room_of_one_wf demo_room_simps(2,3) by (simp add: server_wf_def demo_room_def)
  have "gs_player_id ?s = 9" by simp
  then show ?thesis
    using key_over_transport [where net = "demo_wire ?b" and fd = 9, OF plain_aes_law plain_hmac_law demo_registered(7,8) l demo_date_ok n a p c(3,1)
        demo_registered(1,2) wf demo_registered(3-6) c(2,4) demo_room_simps(3,4)] p by metis
qed

text \<open>What a client's mirror has of a board.\<close>

definition mirrors :: "GameState \<Rightarrow> GameState \<Rightarrow> bool" where
  "mirrors s m \<longleftrightarrow> grid m = grid s \<and> current m = current s \<and> held_type m = held_type s \<and> has_held m = has_held s
     \<and> score m = score s \<and> level m = level s \<and> lines_cleared m = lines_cleared s \<and> pending_garbage m = pending_garbage s
     \<and> target_player_id m = target_player_id s \<and> game_over m = game_over s \<and> gs_winner_id m = gs_winner_id s
     \<and> take 3 (bag m) = map (\<lambda>i. bag s ! nat ((bag_index s + int i) mod 14)) [0..<3]"

lemma plain_message_delivered:
  assumes "length content = 2048" and "live (c_rx cn)"
    and "concat (c_rx cn) = encode_message \<lparr>source_id = i, msg_len = 0, msg_type = MSG_APP, msg_content = content\<rparr> @ rest"
    and "queue_wf (cl_messages c)" and "queue_list (cl_messages c) = []" and "0 < queue_room (cl_messages c)"
  obtains c' cn' where "client_game_iteration ssl 1 True None None buf msg0 (True, c, cn) = (True, c', cn')"
    and "fst (brclient_get_app_msg c') = Some content" and "concat (c_rx cn') = rest"
proof -
  let ?m = "\<lparr>source_id = i, msg_len = 0, msg_type = MSG_APP, msg_content = content\<rparr>"
  have wm: "message_wf ?m" using assms(1) by (simp add: message_wf_def MSG_CONTENT_LENGTH_def)
  obtain s where s: "receive_message_tcp (c_rx cn) msg0 = (True, ?m, s)" "concat s = rest" using receive_message_enc [OF wm assms(2,3)] .
  have o: "open_app ssl k ?m = Some ?m" for k by (simp add: open_app_def)
  have cm: "cl_messages (client_receive ssl ?m c) = queue_app (Some ?m) (cl_messages c)" by (simp add: client_receive_def o set_cl_state_def Let_def)
  have it: "client_game_iteration ssl 1 True None None buf msg0 (True, c, cn) = (True, client_receive ssl ?m c, cn\<lparr>c_rx := s\<rparr>)"
    using s(1) by (simp add: client_game_iteration_def client_udp_def)
  have q: "queue_wf (queue_app (Some ?m) (cl_messages c))" "queue_list (queue_app (Some ?m) (cl_messages c)) = [?m]"
    using queue_app_list [OF assms(4), of "Some ?m"] assms(5,6) by simp_all
  have "fst (brclient_get_app_msg (client_receive ssl ?m c)) = Some content"
    using get_app_msg_list [OF q(1)] q(2) unfolding brclient_get_app_msg_def cm by (auto split: prod.splits)
  from that [OF it this] show thesis using s(2) by simp
qed

text \<open>
  C10 (snapshot_over_transport): the board that the room sends is the board that the player sees. Take a room with writable connections that sends the snapshot of a slot to its clients, and a
  client of it whose queue is empty and whom the bytes reach in any pieces: the client's game loop takes the message, the text that the application reads
  from it makes the mirror of the slot's player show the server's board, and leaves every other player's client as it was.
\<close>

theorem snapshot_over_transport:
  assumes "server_wf srv" and "distinct (map (\<lambda>e. tcp (the (ep_socks e))) (ll_nodes (sv_clients srv)))"
    and "\<forall>e \<in> set (ll_nodes (sv_clients srv)). writable 2060 (c_tx (net (tcp (the (ep_socks e)))))"
    and "e \<in> set (ll_nodes (sv_clients srv))" and "fd = tcp (the (ep_socks e))" and "length stack = 2048"
    and "snapshot_ok (sl_state sl)" and "gs_player_id (sl_state sl) = sl_player_id sl"
    and "value_legal date" and "length date < 30" and "CHR 0x00 \<notin> set date"
    and "send_texts stack srv [To_clients (state_message date stale sl)] net = Some net'"
    and "live (c_rx cn)" and "tx_wire (c_tx (net fd)) @ concat (c_rx cn) = tx_wire (c_tx (net' fd)) @ rest"
    and "queue_wf (cl_messages c)" and "queue_list (cl_messages c) = []" and "0 < queue_room (cl_messages c)" and "client_ready p"
  shows "\<exists>c' cn' b t p'. client_game_iteration ssl 1 True None None buf msg0 (True, c, cn) = (True, c', cn')
     \<and> fst (brclient_get_app_msg c') = Some b \<and> buffer_text b = Some t \<and> client_handle_msg st at t p = Some p'
     \<and> (if gs_player_id (Tetris_Client.cl_state p) = sl_player_id sl
        then mirrors (sl_state sl) (Tetris_Client.cl_state p') \<and> p' = p\<lparr>Tetris_Client.cl_state := Tetris_Client.cl_state p'\<rparr> else p' = p)"
proof -
  obtain t p' where m: "state_message date stale sl = Inr t" "client_handle_msg st at t p = Some p'"
      "if gs_player_id (Tetris_Client.cl_state p) = sl_player_id sl
       then mirrors (sl_state sl) (Tetris_Client.cl_state p') \<and> p' = p\<lparr>Tetris_Client.cl_state := Tetris_Client.cl_state p'\<rparr> else p' = p"
    using snapshot_reaches_mirror [OF assms(7,8,18,9,10), of stale st at] unfolding mirrors_def Let_def by metis
  have send: "sendable t" by (rule state_sendable [OF assms(7,9-11) m(1)])
  let ?b = "hypertext_buffer stack (Inr t)"
  have len: "length ?b = 2048" using hypertext_buffer_length [of t stack] assms(6) send by (simp add: sendable_def)
  have w: "\<forall>e \<in> set (ll_nodes (sv_clients srv)). 0 \<notin> set (tx_plan (c_tx (net (tcp (the (ep_socks e))))))
      \<and> 2060 \<le> length (tx_plan (c_tx (net (tcp (the (ep_socks e))))))" using assms(3) by (simp add: writable_def)
  let ?m = "\<lparr>source_id = ep_id (sv_self srv), msg_len = 0, msg_type = MSG_APP, msg_content = ?b\<rparr>"
  have "tx_wire (c_tx (net' fd)) = tx_wire (c_tx (net fd)) @ encode_message ?m"
    using broadcast_reaches_all [OF assms(1,2) len w] assms(4,5,12) m(1) by (auto split: option.splits)
  then have wire: "concat (c_rx cn) = encode_message ?m @ rest" using assms(14) by simp
  obtain c' cn' where "client_game_iteration ssl 1 True None None buf msg0 (True, c, cn) = (True, c', cn')" "fst (brclient_get_app_msg c') = Some ?b"
    using plain_message_delivered [OF len assms(13) wire assms(15-17)] .
  moreover have "buffer_text ?b = Some t" by (rule buffer_text_prefix [OF send assms(6) refl])
  ultimately show ?thesis using m(2,3) by blast
qed

text \<open>The demonstration room sends something to its client.\<close>

lemma demo_room_sends:
  assumes "length content = 2048"
  obtains res net' where "brserver_send_to_all demo_room content wide_net = Some (res, net')" and "tx_wire (c_tx (net' 9)) \<noteq> []"
proof -
  have wf: "server_wf demo_room" using room_of_one_wf demo_room_simps(2,3) by (simp add: server_wf_def demo_room_def)
  have "\<forall>e \<in> set (ll_nodes (sv_clients demo_room)). 0 \<notin> set (tx_plan (c_tx (wide_net (tcp (the (ep_socks e))))))
      \<and> 2060 \<le> length (tx_plan (c_tx (wide_net (tcp (the (ep_socks e))))))"
    using wide_tx_writable(1) [of 2060] by (simp add: wide_net_def writable_def)
  from broadcast_reaches_all [OF wf _ assms this] show thesis using that
    by (fastforce simp: demo_room_simps(1) room_of_one_nodes encode_message_def be32_def)
qed

theorem snapshot_over_transport_witness:
  "\<exists>net' c' cn' b t p'. send_texts (replicate 2048 0) demo_room [To_clients (state_message demo_date (build_state_payload zero_state undefined)
         (zero_slot\<lparr>sl_state := sample_state, sl_player_id := 9\<rparr>))] wide_net = Some net'
     \<and> client_game_iteration plain_ssl 1 True None None [] zero_message
         (True, demo_player, \<lparr>c_rx = [tx_wire (c_tx (net' 9))], c_tx = wide_tx\<rparr>) = (True, c', cn')
     \<and> fst (brclient_get_app_msg c') = Some b \<and> buffer_text b = Some t
     \<and> client_handle_msg (build_state_payload zero_state undefined) \<lparr>ap_source = 0, ap_target = 0, ap_lines = 0\<rparr> t demo_client = Some p'
     \<and> mirrors sample_state (Tetris_Client.cl_state p')"
proof -
  let ?sl = "zero_slot\<lparr>sl_state := sample_state, sl_player_id := 9\<rparr>" and ?st = "build_state_payload zero_state undefined" and ?stack = "replicate 2048 0 :: u8 list"
  let ?at = "\<lparr>ap_source = 0, ap_target = 0, ap_lines = 0\<rparr>"
  have a: "snapshot_ok (sl_state ?sl)" "gs_player_id (sl_state ?sl) = sl_player_id ?sl" "gs_player_id (Tetris_Client.cl_state demo_client) = sl_player_id ?sl"
    "length ?stack = 2048" "CHR 0x00 \<notin> set demo_date"
    using sample_state_ok by (simp_all add: sample_state_def demo_client_def)
  obtain t where t: "state_message demo_date ?st ?sl = Inr t" using snapshot_reaches_mirror [OF a(1,2) demo_client_ready demo_date_ok, of ?st ?st ?at] by blast
  have "sendable t" by (rule state_sendable [OF a(1) demo_date_ok a(5) t])
  then have "length (hypertext_buffer ?stack (Inr t)) = 2048" using hypertext_buffer_length [of t ?stack] by (simp add: sendable_def)
  from demo_room_sends [OF this] obtain res net' where n: "brserver_send_to_all demo_room (hypertext_buffer ?stack (Inr t)) wide_net = Some (res, net')"
    "tx_wire (c_tx (net' 9)) \<noteq> []" .
  have s: "send_texts ?stack demo_room [To_clients (state_message demo_date ?st ?sl)] wide_net = Some net'" using n(1) t by simp
  let ?cn = "\<lparr>c_rx = [tx_wire (c_tx (net' 9))], c_tx = wide_tx\<rparr>"
  have l: "live (c_rx ?cn)" using n(2) by (simp add: live_def)
  have wf: "server_wf demo_room" using room_of_one_wf demo_room_simps(2,3) by (simp add: server_wf_def demo_room_def)
  have d: "distinct (map (\<lambda>e. tcp (the (ep_socks e))) (ll_nodes (sv_clients demo_room)))" by (simp add: demo_room_simps(1) room_of_one_nodes)
  have w: "\<forall>e \<in> set (ll_nodes (sv_clients demo_room)). writable 2060 (c_tx (wide_net (tcp (the (ep_socks e)))))" by (simp add: wide_net_def wide_tx_writable)
  obtain e where e: "e \<in> set (ll_nodes (sv_clients demo_room))" "9 = tcp (the (ep_socks e))" by (simp add: demo_room_simps(1) room_of_one_nodes)
  have b: "tx_wire (c_tx (wide_net 9)) @ concat (c_rx ?cn) = tx_wire (c_tx (net' 9)) @ []" by (simp add: wide_net_def wide_tx_writable)
  have q: "queue_wf (cl_messages demo_player)" "queue_list (cl_messages demo_player) = []" "0 < queue_room (cl_messages demo_player)"
    by (simp_all add: demo_player_def queue_wf_def queue_list_def queue_room_def)
  have sl: "sl_state ?sl = sample_state" by simp
  obtain c' cn' b t p' where h: "client_game_iteration plain_ssl 1 True None None [] zero_message (True, demo_player, ?cn) = (True, c', cn')"
      "fst (brclient_get_app_msg c') = Some b" "buffer_text b = Some t" "client_handle_msg ?st ?at t demo_client = Some p'"
      "if gs_player_id (Tetris_Client.cl_state demo_client) = sl_player_id ?sl
       then mirrors (sl_state ?sl) (Tetris_Client.cl_state p') \<and> p' = demo_client\<lparr>Tetris_Client.cl_state := Tetris_Client.cl_state p'\<rparr> else p' = demo_client"
    using snapshot_over_transport [where srv = demo_room and net = wide_net and st = ?st and at = ?at and ssl = plain_ssl and ?msg0.0 = zero_message and buf = "[]",
        OF wf d w e a(4,1,2) demo_date_ok a(5) s l b q demo_client_ready] by blast
  have "mirrors sample_state (Tetris_Client.cl_state p')" using h(5) unfolding a(3) sl by simp
  with s h(1-4) show ?thesis by blast
qed

text \<open>A message without a zero byte makes the worker read over the end of its buffer.\<close>

lemma unterminated_text_overruns:
  assumes "queue_wf (sv_messages server)" and "queue_list (sv_messages server) = m # ms" and "0 \<notin> set (msg_content m)"
  shows "room_pass date si st stack hubs gone (server, net) rr = None"
proof -
  have "drained MAX_MSGS_PER_TICK server = map msg_content (take MAX_MSGS_PER_TICK (m # ms))"
    using drain_msgs_list [OF assms(1), of MAX_MSGS_PER_TICK] assms(2) by auto
  moreover have "take MAX_MSGS_PER_TICK (m # ms) = m # take 63 ms" by (simp add: take_Cons')
  ultimately have "those (map buffer_text (drained MAX_MSGS_PER_TICK server)) = None" using assms(3) by (simp add: buffer_text_def)
  then show ?thesis by (simp add: room_pass_def room_drain_texts)
qed

section \<open>From the lobby to the match\<close>

text \<open>The states of the room that the passes of the lobby loop look at, one after the other in a run of the transport.\<close>

inductive seen_in_run :: "('k, 'x, 'c, 'm) openssl \<Rightarrow> ('k, 'x) run \<Rightarrow> nat \<Rightarrow> ('k, 'x) look list \<Rightarrow> bool" for ssl where
  seen_nil: "seen_in_run ssl r 0 []"
| seen_look: "br_run ssl r n r' \<Longrightarrow> seen_in_run ssl r' k es \<Longrightarrow> seen_in_run ssl r (n + k) ((r_srv r', now, hubs, gone) # es)"

lemma lobby_hub_reported: "lb_reported (fold (lobby_hub now) hubs lb) = lb_reported lb"
  by (induction hubs arbitrary: lb) (simp_all add: lobby_hub_def split: HubMsg.split)

text \<open>A pass reports the clients that are new.\<close>

lemma lobby_pass_reports:
  assumes "lb_reported lb \<le> length ids" and "Room.lobby_iteration now ids hubs lb = (reports, lb', over)"
  shows "reports = map HUB_JOINED (drop (lb_reported lb) ids)" and "lb_reported lb' = length ids" and "over \<Longrightarrow> lb_start_ordered lb'"
proof -
  have "map (\<lambda>i. ids ! i) [lb_reported lb..<length ids] = drop (lb_reported lb) ids"
    by (rule nth_equalityI) simp_all
  from arg_cong [OF this, of "map HUB_JOINED"]
  have "map (\<lambda>i. HUB_JOINED (ids ! i)) [lb_reported lb..<length ids] = map HUB_JOINED (drop (lb_reported lb) ids)" by (simp add: comp_def)
  then show "reports = map HUB_JOINED (drop (lb_reported lb) ids)" "lb_reported lb' = length ids" "over \<Longrightarrow> lb_start_ordered lb'"
    using assms by (auto simp: Room.lobby_iteration_def lobby_hub_reported Let_def)
qed

lemma br_run_ids:
  assumes "br_run ssl r n r'" and "run_wf r" and "ids_from b j (r_srv r)"
  shows "run_wf r' \<and> (\<exists>j' \<le> j + n. ids_from b j' (r_srv r'))"
  using assms
proof (induction rule: br_run.induct)
  case (run_step n r1 r2)
  then obtain j' where j': "run_wf r1" "j' \<le> j + n" "ids_from b j' (r_srv r1)" by auto
  from br_step_wf [OF run_step.hyps(2) j'(1,3)] obtain n' where "run_wf r2" "n' \<le> Suc j'" "ids_from b n' (r_srv r2)" by blast
  then show ?case using j'(2) by (auto intro!: exI [of _ n'])
qed auto

definition few_clients :: "('k, 'x) look \<Rightarrow> bool" where
  "few_clients e \<longleftrightarrow> length (ll_nodes (sv_clients (fst e))) \<le> MAX_LOBBY_SIZE"

text \<open>The ids of the clients that a pass finds in the room, in the order in which they joined.\<close>

definition clients_seen :: "('k, 'x) look \<Rightarrow> u32 list" where
  "clients_seen e = map ep_id (ll_nodes (sv_clients (fst e)))"

text \<open>All reports so far, and how the loop left off after the passes \<open>es\<close>.\<close>

definition lobby_result_ok :: "('k, 'x) look list \<Rightarrow> HubMsg list \<Rightarrow> room_lobby_end \<Rightarrow> bool" where
  "lobby_result_ok es sent result =
     (case result of
        Lobby_waits ids lb \<Rightarrow> sent = map HUB_JOINED (if es = [] then take (lb_reported lb) ids else clients_seen (last es))
      | Lobby_abandoned \<Rightarrow> (\<exists>e \<in> set es. snd (snd (snd e)) \<and> sent = map HUB_JOINED (clients_seen e))
      | Lobby_over n ids lb \<Rightarrow> (\<exists>e \<in> set es. sent = map HUB_JOINED (clients_seen e) \<and> n = length (clients_seen e) \<and> take n ids = clients_seen e)
          \<and> n \<le> length ids \<and> length ids = MAX_LOBBY_SIZE \<and> lb_start_ordered lb)"

lemma room_lobby_ok:
  assumes "seen_in_run ssl r N es" and "run_wf r" and "ids_from b j (r_srv r)" and "j + N \<le> 2 ^ 32" and "\<forall>e \<in> set es. few_clients e"
    and "length ids = MAX_LOBBY_SIZE" and "lb_reported lb \<le> length (ll_nodes (sv_clients (r_srv r)))"
    and "take (lb_reported lb) ids = take (lb_reported lb) (map ep_id (ll_nodes (sv_clients (r_srv r))))"
  shows "\<exists>sent result. room_lobby es ids lb = Some (sent, result) \<and> lobby_result_ok es (map HUB_JOINED (take (lb_reported lb) ids) @ sent) result
     \<and> (\<forall>e \<in> set es. distinct (clients_seen e))"
  using assms
proof (induction arbitrary: j ids lb rule: seen_in_run.induct)
  case (seen_nil r)
  then show ?case by (simp add: lobby_result_ok_def)
next
  case (seen_look r n r' k es now hubs gone)
  let ?k = "lb_reported lb" and ?new = "map ep_id (ll_nodes (sv_clients (r_srv r')))"
  let ?n = "length ?new" and ?ids = "?new @ drop (length ?new) ids"
  obtain j' where w: "run_wf r'" and j': "j' \<le> j + n" "ids_from b j' (r_srv r')" using br_run_ids [OF seen_look.hyps(1) seen_look.prems(1,2)] by blast
  have wf: "server_wf (r_srv r')" using w by (simp add: run_wf_def)
  have cnt: "unat (ll_count (sv_clients (r_srv r'))) = ?n" using wf by (simp add: server_wf_def list_wf_def)
  have few: "?n \<le> MAX_LOBBY_SIZE" using seen_look.prems(4) by (simp add: few_clients_def)
  have info: "client_info_into (r_srv r') ids = Some (ll_count (sv_clients (r_srv r')), ?ids)" using client_info_into_wf [OF wf] few seen_look.prems(5) by simp
  have grow: "prefix (map ep_id (ll_nodes (sv_clients (r_srv r)))) ?new"
    using br_run_grows [OF seen_look.hyps(1) seen_look.prems(1,2)] by (blast intro: map_mono_prefix)
  then have k: "?k \<le> ?n" "take ?k ids = take ?k ?new" using seen_look.prems(6,7) by (auto simp: prefix_def dest: arg_cong [of _ _ length])
  have dist: "distinct ?new" by (rule ids_from_distinct [OF j'(2)]) (use j'(1) seen_look.prems(3) in simp)
  have tk: "take ?n ?ids = ?new" by simp
  obtain reports lb' over where it: "Room.lobby_iteration now ?new hubs lb = (reports, lb', over)" by (cases "Room.lobby_iteration now ?new hubs lb")
  note rep = lobby_pass_reports [OF k(1) it]
  have sent: "map HUB_JOINED (take ?k ids) @ reports = map HUB_JOINED ?new" unfolding k(2) rep(1) map_append [symmetric] by simp
  have len: "length ?ids = MAX_LOBBY_SIZE" using few seen_look.prems(5) by simp
  have "\<exists>sent result. room_lobby es ?ids lb' = Some (sent, result) \<and> lobby_result_ok es (map HUB_JOINED (take (lb_reported lb') ?ids) @ sent) result
      \<and> (\<forall>e \<in> set es. distinct (clients_seen e))"
    by (rule seen_look.IH [OF w j'(2)]) (use j'(1) seen_look.prems(3,4) len rep(2) in auto)
  then obtain sent' result where ih: "room_lobby es ?ids lb' = Some (sent', result)" "lobby_result_ok es (map HUB_JOINED ?new @ sent') result"
      "\<forall>e \<in> set es. distinct (clients_seen e)"
    using rep(2) tk by auto
  let ?e = "(r_srv r', now, hubs, gone)"
  have e: "room_lobby (?e # es) ids lb =
      Some (if gone then (reports, Lobby_abandoned) else if over then (reports, Lobby_over ?n ?ids lb') else (reports @ sent', result))"
    using info it cnt tk ih(1) by simp
  have s: "clients_seen ?e = ?new" by (simp add: clients_seen_def)
  have "lobby_result_ok (?e # es) (map HUB_JOINED ?new) (Lobby_over ?n ?ids lb')" if over
    unfolding lobby_result_ok_def using that rep(3) len few tk s by simp
  moreover have "lobby_result_ok (?e # es) (map HUB_JOINED ?new) Lobby_abandoned" if gone
    unfolding lobby_result_ok_def using that s by simp
  moreover have "lobby_result_ok (?e # es) (map HUB_JOINED ?new @ sent') result"
  proof (cases "es = []")
    case True
    then show ?thesis using ih(1) rep(2) s by (auto simp: lobby_result_ok_def)
  next
    case False
    then show ?thesis using ih(2) by (auto simp: lobby_result_ok_def split: room_lobby_end.splits)
  qed
  ultimately show ?case unfolding e using dist ih(3) s by (auto simp: append_assoc [symmetric] sent simp del: append_assoc)
qed

lemma init_session_take: "init_session prng now (take n ids) n r = init_session prng now ids n r"
proof -
  have "fold (init_slot prng now (take n ids)) [0..<min n MAX_LOBBY_SIZE] sr = fold (init_slot prng now ids) [0..<min n MAX_LOBBY_SIZE] sr" for sr
    by (rule fold_cong) (auto simp: init_slot_def fun_eq_iff)
  then show ?thesis by (simp add: init_session_def)
qed

lemma room_start_ok:
  assumes "0 < n" and "n \<le> length ids" and "length ids = MAX_LOBBY_SIZE" and "distinct (take n ids)" and "sv_state server = LOBBY"
  shows "\<exists>rs r'. room_start prng now date server n ids g r = Some (rs, r', set_state GAME server) \<and> session_wf (rm_session rs)
     \<and> ss_count (rm_session rs) = n \<and> count_alive_players (rm_session rs) = n \<and> (\<forall>i < n. sl_player_id (ss_players (rm_session rs) ! i) = ids ! i)"
proof -
  have l: "length (take n ids) = n" "1 \<le> n" "n \<le> MAX_LOBBY_SIZE" using assms(1-3) by simp_all
  note w = fresh_session_wf [OF l assms(4), where prng = prng and now = now and r = r, unfolded init_session_take]
  obtain rs r' where b: "room_begin prng now date ids n True g r = Some (rs, r')" "rm_session rs = fst (init_session prng now ids n r)"
    using assms(1) by (cases "init_session prng now ids n r") (simp add: room_begin_def Let_def)
  then show ?thesis using w assms(1,5) by (simp add: room_start_def brserver_start_def)
qed

text \<open>
  C11 (room_seats_players): every client that joins a room is reported to the master once and plays. Take a run of the room's transport from its start, of at most \<open>2\<^sup>32\<close> steps, with never more than two
  clients whenever the lobby loop looks. The loop never writes behind its array, and after its last pass it has reported exactly the clients that this pass found in the room, in the
  order in which they joined, none twice. It goes on to the match only after the master's order, and gives up only when the master is gone; the match has one living player for
  each client that the last pass found, seated in joining order.
\<close>

theorem room_seats_players:
  assumes "brserver_init_room os mem queue disc tp up id_base = (res, Some srv)" and "seen_in_run ssl (run_init srv net) N es" and "N \<le> 2 ^ 32"
    and "\<forall>e \<in> set es. few_clients e"
  shows "\<exists>sent result. room_lobby es (replicate MAX_LOBBY_SIZE 0) lobby_start = Some (sent, result) \<and> distinct sent
     \<and> (case result of
          Lobby_waits ids lb \<Rightarrow> sent = (if es = [] then [] else map HUB_JOINED (clients_seen (last es)))
        | Lobby_abandoned \<Rightarrow> (\<exists>(server, now, hubs, gone) \<in> set es. gone \<and> sent = map HUB_JOINED (map ep_id (ll_nodes (sv_clients server))))
        | Lobby_over n ids lb \<Rightarrow> lb_start_ordered lb
            \<and> (\<exists>e \<in> set es. sent = map HUB_JOINED (clients_seen e) \<and> n = length (clients_seen e)
                 \<and> (\<forall>server. 0 < n \<and> sv_state server = LOBBY \<longrightarrow>
                      (\<exists>rs r'. room_start prng now date server n ids (lb_global lb) r = Some (rs, r', set_state GAME (server :: ('k, 'x) Server))
                         \<and> session_wf (rm_session rs) \<and> ss_count (rm_session rs) = n \<and> count_alive_players (rm_session rs) = n
                         \<and> (\<forall>i < n. sl_player_id (ss_players (rm_session rs) ! i) = clients_seen e ! i)))))"
  (is "\<exists>sent result. _ \<and> _ \<and> ?Q sent result")
proof -
  have w: "run_wf (run_init srv net)" "ids_from id_base 0 (r_srv (run_init srv net))"
    using init_room_wf [OF assms(1)] by (simp_all add: run_wf_def run_init_def)
  obtain sent result where l: "room_lobby es (replicate MAX_LOBBY_SIZE 0) lobby_start = Some (sent, result)" "lobby_result_ok es sent result"
      "\<forall>e \<in> set es. distinct (clients_seen e)"
    using room_lobby_ok [OF assms(2) w _ assms(4), of "replicate MAX_LOBBY_SIZE 0" lobby_start] assms(3) by (auto simp: lobby_start_def)
  have j: "distinct (map HUB_JOINED (clients_seen e))" if "e \<in> set es" for e using l(3) that by (simp add: distinct_map inj_on_def)
  have waits0: "sent = []" if "es = []" using that l(1) by simp
  have d: "distinct sent" using l(2) j waits0 by (cases "es = []") (auto simp: lobby_result_ok_def split: room_lobby_end.splits)
  have "\<exists>rs r'. room_start prng now date server n ids (lb_global lb) r = Some (rs, r', set_state GAME server)
      \<and> session_wf (rm_session rs) \<and> ss_count (rm_session rs) = n \<and> count_alive_players (rm_session rs) = n
      \<and> (\<forall>i < n. sl_player_id (ss_players (rm_session rs) ! i) = clients_seen e ! i)"
    if "result = Lobby_over n ids lb" "e \<in> set es" "take n ids = clients_seen e" "0 < n" "sv_state server = LOBBY" for n ids lb e and server :: "('k, 'x) Server"
  proof -
    have b: "n \<le> length ids" "length ids = MAX_LOBBY_SIZE" using l(2) that(1) by (simp_all add: lobby_result_ok_def)
    have ids: "clients_seen e ! i = ids ! i" if "i < n" for i using that by (simp add: \<open>take n ids = clients_seen e\<close> [symmetric])
    have "distinct (take n ids)" using l(3) that(2,3) by simp
    from room_start_ok [OF that(4) b this that(5)] show ?thesis by (metis ids)
  qed
  note started = this
  show ?thesis
  proof (intro exI conjI, rule l(1), rule d, cases result)
    case (Lobby_waits ids lb)
    then show "?Q sent result" using l(2) waits0 by (simp add: lobby_result_ok_def)
  next
    case Lobby_abandoned
    then show "?Q sent result" using l(2) unfolding lobby_result_ok_def case_prod_beta clients_seen_def by simp
  next
    case (Lobby_over n ids lb)
    then obtain e where e: "e \<in> set es" "sent = map HUB_JOINED (clients_seen e)" "n = length (clients_seen e)" "take n ids = clients_seen e" "lb_start_ordered lb"
      using l(2) by (auto simp: lobby_result_ok_def)
    show "?Q sent result" unfolding Lobby_over room_lobby_end.case
      by (intro conjI bexI [OF _ e(1)] allI impI e(2,3,5), elim conjE, rule started [OF Lobby_over e(1,4)])
  qed
qed

theorem room_seats_players_witness:
  "\<exists>(server :: (unit, unit) Server) sent ids lb rs r'.
     room_lobby [(server, 7, [HUB_START 1], False)] (replicate MAX_LOBBY_SIZE 0) lobby_start = Some (sent, Lobby_over 1 ids lb)
     \<and> length (ll_nodes (sv_clients server)) = 1 \<and> sent = [HUB_JOINED (ep_id (ll_nodes (sv_clients server) ! 0))]
     \<and> room_start (\<lambda>_. sconst 3) (\<lambda>_. 0) [] server 1 ids (lb_global lb) (sconst 0) = Some (rs, r', set_state GAME server)
     \<and> sl_player_id (ss_players (rm_session rs) ! 0) = ep_id (ll_nodes (sv_clients server) ! 0)"
proof -
  obtain r where r: "br_run plain_ssl (run_init fresh_server demo_net) 3 r" "sv_state (r_srv r) = LOBBY" "length (ll_nodes (sv_clients (r_srv r))) = 1"
    by (rule demo_lobby)
  let ?es = "[(r_srv r, 7, [HUB_START 1], False)]"
  have s: "seen_in_run plain_ssl (run_init fresh_server demo_net) (3 + 0) ?es" by (rule seen_look [OF r(1) seen_nil])
  have f: "\<forall>e \<in> set ?es. few_clients e" using r(3) by (simp add: few_clients_def)
  have wf: "server_wf (r_srv r)" using br_run_wf [OF fresh_server_init r(1)] by (auto simp: run_wf_def)
  then have c: "unat (ll_count (sv_clients (r_srv r))) = 1" using r(3) by (simp add: server_wf_def list_wf_def)
  obtain sent ids lb where e: "room_lobby ?es (replicate MAX_LOBBY_SIZE 0) lobby_start = Some (sent, Lobby_over 1 ids lb)"
    using client_info_into_wf [OF wf, of "replicate MAX_LOBBY_SIZE 0"] r(3) c
    by (auto simp: Room.lobby_iteration_def lobby_hub_def lobby_start_def)
  have l: "length (clients_seen (hd ?es)) = 1" using r(3) by (simp add: clients_seen_def)
  then have sn: "clients_seen (hd ?es) = [ep_id (ll_nodes (sv_clients (r_srv r)) ! 0)]"
    using r(3) by (cases "ll_nodes (sv_clients (r_srv r))") (auto simp: clients_seen_def)
  have "sent = map HUB_JOINED (clients_seen (hd ?es)) \<and> (\<exists>rs r'. room_start (\<lambda>_. sconst 3) (\<lambda>_. 0) [] (r_srv r) 1 ids (lb_global lb) (sconst 0) = Some (rs, r', set_state GAME (r_srv r))
      \<and> sl_player_id (ss_players (rm_session rs) ! 0) = clients_seen (hd ?es) ! 0)"
    using room_seats_players [OF fresh_server_init s _ f, of "\<lambda>_. sconst 3" "\<lambda>_. 0" "[]" "sconst 0"] e r(2) by fastforce
  then obtain rs r' where "sent = map HUB_JOINED (clients_seen (hd ?es))"
      "room_start (\<lambda>_. sconst 3) (\<lambda>_. 0) [] (r_srv r) 1 ids (lb_global lb) (sconst 0) = Some (rs, r', set_state GAME (r_srv r))"
      "sl_player_id (ss_players (rm_session rs) ! 0) = clients_seen (hd ?es) ! 0" by blast
  then have "sent = [HUB_JOINED (ep_id (ll_nodes (sv_clients (r_srv r)) ! 0))]"
      "sl_player_id (ss_players (rm_session rs) ! 0) = ep_id (ll_nodes (sv_clients (r_srv r)) ! 0)" unfolding sn by simp_all
  then show ?thesis using e r(3) \<open>room_start _ _ _ _ _ _ _ _ = _\<close> by blast
qed

section \<open>Set-up and end\<close>

text \<open>The master hears that a room is ready only when its ports are bound and its lobby is open; no two rooms have the same UDP port.\<close>

lemma room_ready_when_open:
  assumes "room_setup ssl fs os mem queue disc tcp_port id_base room_index = Some (server, sent)"
  shows "sent = [HUB_READY] \<and> sv_state server = LOBBY \<and> sv_tcp_port server = tcp_port \<and> sv_udp_port server = room_udp_port room_index
     \<and> 0 \<le> os_bind_tcp os \<and> 0 \<le> os_listen os \<and> 0 \<le> os_bind_udp os"
  using assms by (auto simp: room_setup_def brserver_init_room_def brserver_open_def listen_on_tcp_def prepare_unicast_udp_def
      prepare_broadcast_udp_def set_state_def Let_def split: option.splits prod.splits if_splits)

lemma room_udp_ports_differ:
  assumes "0 \<le> i" and "i < int MAX_ROOMS" and "0 \<le> j" and "j < int MAX_ROOMS" and "room_udp_port i = room_udp_port j"
  shows "i = j"
proof -
  have "(6910 + i) mod 65536 = (6910 + j) mod 65536"
    using arg_cong [OF assms(5), of uint] unfolding room_udp_port_def uint_word_of_int by (simp only: len_num1 len_num0 len_bit0 len_bit1) simp
  then show ?thesis using assms(1-4) by simp
qed

lemma room_close_ends:
  assumes "server_wf server" and "sv_state server = GAME"
  shows "\<exists>server' net' rs'. room_close date st stack (server, net) rs = Some ((server', net'), rs') \<and> sv_state server' = END \<and> rs' = room_over date st rs"
  using send_texts_ok [OF assms(1), of stack "drop (length (rm_out rs)) (rm_out (room_over date st rs))" net] assms(2)
  by (auto simp: room_close_def brserver_end_def Let_def)

end
