(* ===== verification/Client_Run.thy ===== *)
theory Client_Run
  imports Transport "HOL-Library.Sublist"
begin

text \<open>
  The transport's client as it runs: the background thread of \<open>client.c\<close> (\<open>client_thread_func\<close>, which dispatches to one loop per state)
  beside the calls of the application, as a step relation. A step is one iteration of a loop of the thread, a move of the thread into
  or out of a loop, or one call. The application joins once, before anything else, while the thread waits in the idle loop; it passes no endpoint that
  the thread has freed (\<open>brclient_get_app_msg\<close> takes none).

  Two components of the run are history: the messages that the game loop has received, and the contents that \<open>brclient_get_app_msg\<close> has returned.
\<close>

datatype client_at = C_dispatch | C_idle | C_lobby | C_game bool | C_exit

record crun =
  cr_cl :: BRClient
  cr_conn :: conn
  cr_at :: client_at
  cr_seen :: "Message list"
  cr_got :: "u8 list list"

section \<open>What an iteration of the game loop receives\<close>

definition udp_seen :: "u8 list \<Rightarrow> u8 list option option \<Rightarrow> int \<times> Message \<Rightarrow> (int \<times> Message) \<times> Message list" where
  "udp_seen stack dgram st =
     (case dgram of
        None \<Rightarrow> (st, [])
      | Some d \<Rightarrow>
          if \<not> fst st > 0 then (st, [])
          else (case receive_message_udp stack d (snd st) of
                  (False, _) \<Rightarrow> (st, [])
                | (True, m) \<Rightarrow> ((fst st - 1, m), [m])))"

definition game_seen ::
  "int \<Rightarrow> bool \<Rightarrow> u8 list option option \<Rightarrow> u8 list option option \<Rightarrow> u8 list \<Rightarrow> Message \<Rightarrow> bool \<Rightarrow> conn \<Rightarrow> Message list" where
  "game_seen activity tcp_ready uni broad stack msg0 tcp_open cn =
     (let (st1, l1) =
            (if activity > 0 \<and> tcp_open \<and> tcp_ready then
               (case receive_message_tcp (c_rx cn) msg0 of
                  (False, m, s) \<Rightarrow> ((activity, m), [])
                | (True, m, s) \<Rightarrow> ((activity - 1, m), [m]))
             else ((activity, msg0), []));
          (st2, l2) = udp_seen stack uni st1;
          (st3, l3) = udp_seen stack broad st2
      in l1 @ l2 @ l3)"

lemma client_udp_seen:
  "client_udp ssl stack d (a, m, c) =
     (case udp_seen stack d (a, m) of ((a', m'), l) \<Rightarrow> (a', m', fold (client_receive ssl) l c))"
  by (auto simp: client_udp_def udp_seen_def split: option.split prod.split bool.split)

lemma game_iteration_seen:
  assumes "client_game_iteration ssl activity ready uni broad stack msg0 (o1, c, cn) = (o2, c', cn')"
  shows "c' = fold (client_receive ssl) (game_seen activity ready uni broad stack msg0 o1 cn) c"
  using assms
  by (auto simp: client_game_iteration_def game_seen_def client_udp_seen Let_def split: prod.splits if_splits bool.splits)

section \<open>Runs\<close>

inductive cl_step :: "('k, 'x, 'c, 'm) openssl \<Rightarrow> crun \<Rightarrow> crun \<Rightarrow> bool" for ssl where
  a_join: "cr_at r = C_dispatch \<or> cr_at r = C_idle \<Longrightarrow> cl_state (cr_cl r) = IDLE \<Longrightarrow> brclient_join ssl env ip (cr_cl r) = Some (res, c', cn)
    \<Longrightarrow> cl_step ssl r (r\<lparr>cr_cl := c', cr_conn := case cn of None \<Rightarrow> cr_conn r | Some cn' \<Rightarrow> cn'\<rparr>)"
| a_send: "cr_at r \<noteq> C_exit \<Longrightarrow> brclient_send_msg ssl rnd (cr_cl r) content (cr_conn r) = (res, cn')
    \<Longrightarrow> cl_step ssl r (r\<lparr>cr_conn := cn'\<rparr>)"
| a_get: "brclient_get_app_msg (cr_cl r) = (got, c')
    \<Longrightarrow> cl_step ssl r (r\<lparr>cr_cl := c', cr_got := cr_got r @ (case got of None \<Rightarrow> [] | Some b \<Rightarrow> [b])\<rparr>)"
| t_idle: "cr_at r = C_dispatch \<Longrightarrow> cl_state (cr_cl r) = IDLE \<Longrightarrow> cl_step ssl r (r\<lparr>cr_at := C_idle\<rparr>)"
| t_leave_idle: "cr_at r = C_idle \<Longrightarrow> cl_state (cr_cl r) \<noteq> IDLE \<Longrightarrow> cl_step ssl r (r\<lparr>cr_at := C_dispatch\<rparr>)"
| t_lobby: "cr_at r = C_dispatch \<Longrightarrow> cl_state (cr_cl r) = LOBBY \<Longrightarrow> cl_step ssl r (r\<lparr>cr_at := C_lobby\<rparr>)"
| t_wait: "cr_at r = C_lobby \<Longrightarrow> cl_state (cr_cl r) = LOBBY \<Longrightarrow> client_lobby_iteration msg0 (cr_cl r, cr_conn r) = (c', cn')
    \<Longrightarrow> cl_step ssl r (r\<lparr>cr_cl := c', cr_conn := cn'\<rparr>)"
| t_leave_lobby: "cr_at r = C_lobby \<Longrightarrow> cl_state (cr_cl r) \<noteq> LOBBY \<Longrightarrow> cl_step ssl r (r\<lparr>cr_at := C_dispatch\<rparr>)"
| t_game: "cr_at r = C_dispatch \<Longrightarrow> cl_state (cr_cl r) = GAME \<Longrightarrow> cl_step ssl r (r\<lparr>cr_at := C_game True\<rparr>)"
| t_listen: "cr_at r = C_game tcp_open \<Longrightarrow> cl_state (cr_cl r) = GAME
    \<Longrightarrow> client_game_iteration ssl activity ready uni broad stack msg0 (tcp_open, cr_cl r, cr_conn r) = (tcp_open', c', cn')
    \<Longrightarrow> cl_step ssl r (r\<lparr>cr_cl := c', cr_conn := cn', cr_at := C_game tcp_open',
          cr_seen := cr_seen r @ game_seen activity ready uni broad stack msg0 tcp_open (cr_conn r)\<rparr>)"
| t_leave_game: "cr_at r = C_game tcp_open \<Longrightarrow> cl_state (cr_cl r) \<noteq> GAME \<Longrightarrow> cl_step ssl r (r\<lparr>cr_at := C_dispatch\<rparr>)"
| t_end: "cr_at r = C_dispatch \<Longrightarrow> cl_state (cr_cl r) = END \<Longrightarrow> client_end_state (cr_cl r) = Some res \<Longrightarrow> cl_step ssl r (r\<lparr>cr_at := C_exit\<rparr>)"

inductive cl_run :: "('k, 'x, 'c, 'm) openssl \<Rightarrow> crun \<Rightarrow> nat \<Rightarrow> crun \<Rightarrow> bool" for ssl r0 where
  run_start: "cl_run ssl r0 0 r0"
| run_step: "cl_run ssl r0 n r \<Longrightarrow> cl_step ssl r r' \<Longrightarrow> cl_run ssl r0 (Suc n) r'"

text \<open>The client that \<open>brclient_init\<close> makes.\<close>

definition crun_init :: "BRClient \<Rightarrow> conn \<Rightarrow> crun" where
  "crun_init c cn = \<lparr>cr_cl = c, cr_conn = cn, cr_at = C_dispatch, cr_seen = [], cr_got = []\<rparr>"

section \<open>Invariant\<close>

text \<open>The contents that the messages carry for the application, in the order in which they were received.\<close>

definition contents :: "('k, 'x, 'c, 'm) openssl \<Rightarrow> u8 list \<Rightarrow> Message list \<Rightarrow> u8 list list" where
  "contents ssl key ms = map msg_content (List.map_filter (open_app ssl (\<lambda>_. Some key)) ms)"

lemma contents_simps [simp]:
  "contents ssl key [] = []" "contents ssl key (ms @ ms') = contents ssl key ms @ contents ssl key ms'"
  "contents ssl key [m] = (case open_app ssl (\<lambda>_. Some key) m of None \<Rightarrow> [] | Some m' \<Rightarrow> [msg_content m'])"
  by (simp_all add: contents_def List.map_filter_def split: option.split)

definition inbox_ok :: "('k, 'x, 'c, 'm) openssl \<Rightarrow> u8 list list \<Rightarrow> Message list \<Rightarrow> BRClient \<Rightarrow> bool" where
  "inbox_ok ssl got seen c \<longleftrightarrow>
     (let q = cl_messages c; all = contents ssl (ep_sesskey (cl_ep c)) seen; have = got @ map msg_content (queue_list q)
      in queue_wf q \<and> (\<forall>m \<in> set (queue_list q). msg_type m = MSG_APP) \<and> subseq have all
         \<and> q_rear q \<le> int (length all) \<and> (length all \<le> length (q_items q) \<longrightarrow> have = all))"

lemma client_receive_simps [simp]:
  "ep_sesskey (cl_ep (client_receive ssl m c)) = ep_sesskey (cl_ep c)"
  "cl_messages (client_receive ssl m c) = queue_app (open_app ssl (\<lambda>_. Some (ep_sesskey (cl_ep c))) m) (cl_messages c)"
  "cl_state (client_receive ssl m c) = (if msg_type m = MSG_END then END else cl_state c)"
  by (simp_all add: client_receive_def set_cl_state_def Let_def)

lemma client_receive_inbox:
  assumes "inbox_ok ssl got seen c"
  shows "inbox_ok ssl got (seen @ [m]) (client_receive ssl m c)"
proof (cases "open_app ssl (\<lambda>_. Some (ep_sesskey (cl_ep c))) m")
  case None
  then show ?thesis using assms by (simp add: inbox_ok_def queue_app_def Let_def)
next
  case (Some m')
  let ?q = "cl_messages c" and ?all = "contents ssl (ep_sesskey (cl_ep c)) seen"
  have q: "queue_wf ?q" "q_rear ?q \<le> int (length ?all)" and s: "subseq (got @ map msg_content (queue_list ?q)) ?all"
    using assms by (simp_all add: inbox_ok_def Let_def)
  show ?thesis
  proof (cases "queue_full ?q")
    case True
    then have "length (q_items ?q) \<le> length ?all" using q(2) by (simp add: queue_full_def)
    then show ?thesis using True Some assms list_emb_append_mono [OF s list_emb_Nil [of "(=)" "[msg_content m']"]]
      by (auto simp: inbox_ok_def queue_app_def queue_enqueue_def Let_def)
  next
    case False
    then obtain q' where e: "queue_enqueue ?q m' = (True, q')" by (simp add: queue_enqueue_def)
    have l: "queue_list q' = queue_list ?q @ [m']" by (rule queue_enqueue_list [OF q(1) e])
    have r: "queue_wf q'" "q_rear q' = q_rear ?q + 1" "length (q_items q') = length (q_items ?q)"
      using queue_enqueue_wf [OF q(1), of m'] e False by (auto simp: queue_enqueue_def)
    have "subseq ((got @ map msg_content (queue_list ?q)) @ [msg_content m']) (?all @ [msg_content m'])" using s by (intro list_emb_append_mono) simp_all
    then show ?thesis using Some e l r assms open_app_type [OF Some] by (auto simp: inbox_ok_def queue_app_def Let_def)
  qed
qed

lemma client_receive_fold:
  assumes "inbox_ok ssl got seen c"
  shows "inbox_ok ssl got (seen @ ms) (fold (client_receive ssl) ms c)" and "cl_state c = GAME \<Longrightarrow> cl_state (fold (client_receive ssl) ms c) \<in> {GAME, END}"
proof -
  show "inbox_ok ssl got (seen @ ms) (fold (client_receive ssl) ms c)"
    using assms
  proof (induction ms arbitrary: seen c)
    case (Cons m ms)
    then show ?case using Cons.IH [OF client_receive_inbox [OF Cons.prems]] by simp
  qed simp
  have "cl_state c \<in> {GAME, END} \<Longrightarrow> cl_state (fold (client_receive ssl) ms c) \<in> {GAME, END}"
    by (induction ms arbitrary: c) auto
  then show "cl_state c = GAME \<Longrightarrow> cl_state (fold (client_receive ssl) ms c) \<in> {GAME, END}" by simp
qed

lemma get_inbox:
  assumes "inbox_ok ssl got seen c" and "brclient_get_app_msg c = (b, c')"
  shows "inbox_ok ssl (got @ (case b of None \<Rightarrow> [] | Some x \<Rightarrow> [x])) seen c'" and "cl_ep c' = cl_ep c"
proof -
  let ?q = "cl_messages c"
  have wf: "queue_wf ?q" and app: "\<forall>m \<in> set (queue_list ?q). msg_type m = MSG_APP" using assms(1) by (simp_all add: inbox_ok_def Let_def)
  have c': "c' = c\<lparr>cl_messages := snd (get_app_msg ?q)\<rparr>" "b = fst (get_app_msg ?q)"
    using assms(2) by (auto simp: brclient_get_app_msg_def split: prod.splits)
  then show "cl_ep c' = cl_ep c" by simp
  note g = get_app_msg_list [OF wf]
  have r: "q_rear (snd (get_app_msg ?q)) \<le> q_rear ?q" "q_items (snd (get_app_msg ?q)) = q_items ?q"
    using wf by (auto simp: get_app_msg_def queue_dequeue_def queue_wf_def Let_def)
  have "(got @ (case b of None \<Rightarrow> [] | Some x \<Rightarrow> [x])) @ map msg_content (queue_list (snd (get_app_msg ?q))) = got @ map msg_content (queue_list ?q)"
    using g unfolding c'(2) by (cases "queue_list ?q") simp_all
  then show "inbox_ok ssl (got @ (case b of None \<Rightarrow> [] | Some x \<Rightarrow> [x])) seen c'"
    using assms(1) g r ball_tl [OF app] unfolding inbox_ok_def c'(1) Let_def by auto
qed

text \<open>Joining leaves the queue alone and moves the client to the lobby or not at all.\<close>

definition joined :: "BRClient \<Rightarrow> BRClient \<Rightarrow> bool" where
  "joined c c' \<longleftrightarrow> cl_messages c' = cl_messages c \<and> (cl_state c' = cl_state c \<or> cl_state c' = LOBBY)"

lemma join_key_joined: "join_key ssl env cert msg c cn = (res, c', cn') \<Longrightarrow> joined c c'"
  by (auto simp: join_key_def join_finish_def joined_def set_cl_state_def Let_def split: option.splits prod.splits if_splits)

lemma joined_refl: "joined c c"
  by (simp add: joined_def)

lemma join_room_joined:
  assumes "join_room ssl env c cn = Some (res, c', cn')"
  shows "joined c c'"
  using assms by (auto simp: join_room_def Let_def joined_refl dest!: join_key_joined split: option.splits prod.splits if_splits)

lemma brclient_join_joined:
  assumes "brclient_join ssl env ip c = Some (res, c', cn)"
  shows "joined c c'"
  using assms
  by (auto simp: brclient_join_def Let_def joined_def dest!: join_room_joined [unfolded joined_def] split: if_splits prod.splits option.splits)

definition crun_wf :: "('k, 'x, 'c, 'm) openssl \<Rightarrow> crun \<Rightarrow> bool" where
  "crun_wf ssl r \<longleftrightarrow> inbox_ok ssl (cr_got r) (cr_seen r) (cr_cl r)
     \<and> (cl_state (cr_cl r) \<in> {IDLE, LOBBY} \<longrightarrow> cr_seen r = [])
     \<and> (cr_at r = C_lobby \<longrightarrow> cl_state (cr_cl r) \<in> {LOBBY, GAME})
     \<and> (\<forall>tcp_open. cr_at r = C_game tcp_open \<longrightarrow> cl_state (cr_cl r) \<in> {GAME, END})
     \<and> (cr_at r = C_exit \<longrightarrow> cl_state (cr_cl r) = END)"

lemma inbox_empty: "inbox_ok ssl got [] c \<Longrightarrow> cl_messages c' = cl_messages c \<Longrightarrow> inbox_ok ssl got [] c'"
  by (simp add: inbox_ok_def Let_def)

lemma lobby_iteration_keeps:
  assumes "client_lobby_iteration msg0 (c, cn) = (c', cn')" and "cl_state c = LOBBY"
  shows "cl_messages c' = cl_messages c \<and> ep_sesskey (cl_ep c') = ep_sesskey (cl_ep c) \<and> cl_state c' \<in> {LOBBY, GAME}"
  using assms by (auto simp: client_lobby_iteration_def set_cl_state_def split: prod.splits bool.splits if_splits)

abbreviation state_code :: "crun \<Rightarrow> int" where
  "state_code r \<equiv> brclient_get_state (Some (cr_cl r))"

lemma state_code_of: "brclient_get_state (Some c) = (case cl_state c of IDLE \<Rightarrow> 0 | LOBBY \<Rightarrow> 1 | GAME \<Rightarrow> 2 | END \<Rightarrow> 3)"
  by (simp add: brclient_get_state_def)

lemma cl_step_keeps:
  assumes "cl_step ssl r r'" and "crun_wf ssl r"
  shows "crun_wf ssl r' \<and> state_code r \<le> state_code r'"
  using assms
proof (induction rule: cl_step.induct)
  case (a_join r env ip res c' cn)
  have j: "joined (cr_cl r) c'" by (rule brclient_join_joined [OF a_join(3)])
  have "cr_seen r = []" and i: "inbox_ok ssl (cr_got r) [] (cr_cl r)" using a_join(2,4) by (auto simp: crun_wf_def)
  have "inbox_ok ssl (cr_got r) [] c'" by (rule inbox_empty [OF i]) (use j in \<open>simp add: joined_def\<close>)
  then show ?case using a_join(1,2) j \<open>cr_seen r = []\<close> by (auto simp: crun_wf_def joined_def state_code_of)
next
  case (a_get r got c')
  have w: "inbox_ok ssl (cr_got r) (cr_seen r) (cr_cl r)" using a_get(2) by (simp add: crun_wf_def)
  show ?case using get_inbox [OF w a_get(1)] a_get(2) by (simp add: crun_wf_def state_code_of)
next
  case (t_wait r msg0 c' cn')
  note l = lobby_iteration_keeps [OF t_wait(3,2)]
  have "cr_seen r = []" and i: "inbox_ok ssl (cr_got r) [] (cr_cl r)" using t_wait(2,4) by (auto simp: crun_wf_def)
  have "inbox_ok ssl (cr_got r) [] c'" by (rule inbox_empty [OF i]) (use l in simp)
  then show ?case using t_wait(1,2) l \<open>cr_seen r = []\<close> by (auto simp: crun_wf_def state_code_of)
next
  case (t_listen r tcp_open activity ready uni broad stack msg0 tcp_open' c' cn')
  have w: "inbox_ok ssl (cr_got r) (cr_seen r) (cr_cl r)" using t_listen(4) by (simp add: crun_wf_def)
  let ?ms = "game_seen activity ready uni broad stack msg0 tcp_open (cr_conn r)"
  have "inbox_ok ssl (cr_got r) (cr_seen r @ ?ms) c'" "cl_state c' \<in> {GAME, END}"
    using client_receive_fold [OF w, of ?ms] t_listen(2) game_iteration_seen [OF t_listen(3)] by simp_all
  then show ?case using t_listen(2) by (auto simp: crun_wf_def state_code_of)
qed (auto simp: crun_wf_def)

lemma cl_run_keeps:
  assumes "cl_run ssl r0 n r" and "crun_wf ssl r0"
  shows "crun_wf ssl r \<and> state_code r0 \<le> state_code r"
  using assms by (induction rule: cl_run.induct) (use cl_step_keeps in fastforce)+

lemma crun_init_wf:
  assumes "queue_wf (cl_messages c)" and "queue_list (cl_messages c) = []" and "q_rear (cl_messages c) = 0"
  shows "crun_wf ssl (crun_init c cn)"
  using assms by (simp add: crun_wf_def crun_init_def inbox_ok_def Let_def)

section \<open>Entering the game\<close>

lemma lobby_iteration_enc:
  assumes "message_wf m" and "live (c_rx cn)" and "concat (c_rx cn) = encode_message m @ rest" and "cl_state c = LOBBY"
  obtains cn' where "client_lobby_iteration msg0 (c, cn) = (if msg_type m = MSG_START then set_cl_state GAME c else c, cn')"
    and "live (c_rx cn')" and "concat (c_rx cn') = rest"
proof -
  obtain s where "receive_message_tcp (c_rx cn) msg0 = (True, m, s)" "live s" "concat s = rest" using receive_message_enc [OF assms(1-3)] .
  then show thesis using that [of "cn\<lparr>c_rx := s\<rparr>"] by (simp add: client_lobby_iteration_def)
qed

lemma cl_run_cons: "cl_step ssl r r1 \<Longrightarrow> cl_run ssl r1 n r2 \<Longrightarrow> cl_run ssl r (Suc n) r2"
  by (rotate_tac, induction rule: cl_run.induct) (auto intro: cl_run.intros)

lemma lobby_waits:
  assumes "\<forall>m \<in> set ms. message_wf m \<and> msg_type m \<noteq> MSG_START" and "message_wf st" and "msg_type st = MSG_START"
    and "cr_at r = C_lobby" and "cl_state (cr_cl r) = LOBBY" and "live (c_rx (cr_conn r))"
    and "concat (c_rx (cr_conn r)) = concat (map encode_message ms) @ encode_message st @ rest"
  shows "\<exists>cn'. cl_run ssl r (length ms + 1) (r\<lparr>cr_cl := set_cl_state GAME (cr_cl r), cr_conn := cn'\<rparr>) \<and> concat (c_rx cn') = rest \<and> live (c_rx cn')"
  using assms
proof (induction ms arbitrary: r)
  case Nil
  then obtain cn' where "client_lobby_iteration st (cr_cl r, cr_conn r) = (set_cl_state GAME (cr_cl r), cn')" "live (c_rx cn')" "concat (c_rx cn') = rest"
    using lobby_iteration_enc [of st "cr_conn r" rest "cr_cl r" st] by auto
  then show ?case using Nil cl_run.run_step [OF cl_run.run_start cl_step.t_wait] by fastforce
next
  case (Cons m ms)
  obtain cn1 where i: "client_lobby_iteration m (cr_cl r, cr_conn r) = (cr_cl r, cn1)" "live (c_rx cn1)"
      "concat (c_rx cn1) = concat (map encode_message ms) @ encode_message st @ rest"
    using lobby_iteration_enc [of m "cr_conn r" "concat (map encode_message ms) @ encode_message st @ rest" "cr_cl r" m] Cons.prems by auto
  let ?r = "r\<lparr>cr_cl := cr_cl r, cr_conn := cn1\<rparr>"
  have s: "cl_step ssl r ?r" using Cons.prems i(1) by (intro cl_step.t_wait) auto
  obtain cn' where "cl_run ssl ?r (length ms + 1) (?r\<lparr>cr_cl := set_cl_state GAME (cr_cl ?r), cr_conn := cn'\<rparr>)" "concat (c_rx cn') = rest" "live (c_rx cn')"
    using Cons.IH [of ?r] Cons.prems i by auto
  then show ?case using cl_run_cons [OF s] by fastforce
qed

section \<open>Properties\<close>

text \<open>
  C12 (client_inbox_in_order): whatever the network delivers and however the calls of the application interleave with the thread of the transport, the application gets the contents of
  the messages that the client received in the game, in the order in which they came, each at most once and none besides; and when no more of them have come in the whole run than the
  queue has places, none is lost: those handed out and those waiting are all of them. The client's state only moves forward.
\<close>

theorem client_inbox_in_order:
  assumes "cl_run ssl (crun_init c cn) n r" and "queue_wf (cl_messages c)" and "queue_list (cl_messages c) = []" and "q_rear (cl_messages c) = 0"
  shows "subseq (cr_got r @ map msg_content (queue_list (cl_messages (cr_cl r)))) (contents ssl (ep_sesskey (cl_ep (cr_cl r))) (cr_seen r))
     \<and> (length (contents ssl (ep_sesskey (cl_ep (cr_cl r))) (cr_seen r)) \<le> length (q_items (cl_messages (cr_cl r))) \<longrightarrow>
          cr_got r @ map msg_content (queue_list (cl_messages (cr_cl r))) = contents ssl (ep_sesskey (cl_ep (cr_cl r))) (cr_seen r))
     \<and> brclient_get_state (Some c) \<le> brclient_get_state (Some (cr_cl r))"
proof -
  have "crun_wf ssl r \<and> state_code (crun_init c cn) \<le> state_code r" by (rule cl_run_keeps [OF assms(1) crun_init_wf [OF assms(2-4)]])
  then show ?thesis by (simp add: crun_wf_def inbox_ok_def Let_def crun_init_def)
qed

text \<open>A message of the room on the way to a client in the game.\<close>

definition demo_message :: "u32 \<Rightarrow> Message" where
  "demo_message t = zero_message\<lparr>msg_type := t\<rparr>"

definition demo_line :: "u32 \<Rightarrow> conn" where
  "demo_line t = \<lparr>c_rx = [encode_message (demo_message t)], c_tx = wide_tx\<rparr>"

lemma demo_line_read:
  "message_wf (demo_message t)" "live (c_rx (demo_line t))" "concat (c_rx (demo_line t)) = encode_message (demo_message t) @ []"
  using zero_message_wf by (simp_all add: demo_message_def demo_line_def live_def message_wf_def encode_message_def be32_def)

theorem client_inbox_in_order_witness:
  "\<exists>r. cl_run plain_ssl (crun_init demo_player (demo_line MSG_APP)) 2 r \<and> cr_seen r = [demo_message MSG_APP]
     \<and> cr_got r @ map msg_content (queue_list (cl_messages (cr_cl r))) = [msg_content (demo_message MSG_APP)]"
proof -
  let ?r0 = "crun_init demo_player (demo_line MSG_APP)" and ?m = "demo_message MSG_APP"
  obtain s where s: "receive_message_tcp (c_rx (demo_line MSG_APP)) ?m = (True, ?m, s)" using receive_message_enc [OF demo_line_read] by metis
  let ?r1 = "?r0\<lparr>cr_at := C_game True\<rparr>"
  obtain c' cn' where i: "client_game_iteration plain_ssl 1 True None None [] ?m (True, demo_player, demo_line MSG_APP) = (True, c', cn')"
    using s by (simp add: client_game_iteration_def client_udp_def)
  have g: "game_seen 1 True None None [] ?m True (demo_line MSG_APP) = [?m]" using s by (simp add: game_seen_def udp_seen_def)
  have st: "cl_state demo_player = GAME" by (simp add: demo_player_def)
  let ?r2 = "?r1\<lparr>cr_cl := c', cr_conn := cn', cr_at := C_game True, cr_seen := cr_seen ?r1 @ game_seen 1 True None None [] ?m True (cr_conn ?r1)\<rparr>"
  have 1: "cl_step plain_ssl ?r0 ?r1" by (rule cl_step.t_game) (simp_all add: crun_init_def st)
  have 2: "cl_step plain_ssl ?r1 ?r2" by (rule cl_step.t_listen) (use i st in \<open>simp_all add: crun_init_def\<close>)
  have run: "cl_run plain_ssl ?r0 2 ?r2" using cl_run.run_step [OF cl_run.run_step [OF cl_run.run_start 1] 2] by (simp add: numeral_2_eq_2)
  have q: "queue_wf (cl_messages demo_player)" "queue_list (cl_messages demo_player) = []" "q_rear (cl_messages demo_player) = 0"
    by (simp_all add: demo_player_def queue_wf_def queue_list_def)
  have seen: "cr_seen ?r2 = [?m]" using g by (simp add: crun_init_def)
  have len: "length (q_items (cl_messages (cr_cl ?r2))) = 1"
    using game_iteration_seen [OF i] by (simp add: g queue_app_def queue_enqueue_def demo_player_def split: option.split)
  have "contents plain_ssl (ep_sesskey (cl_ep (cr_cl ?r2))) (cr_seen ?r2) = [msg_content ?m]" unfolding seen by (simp add: open_app_def demo_message_def)
  then show ?thesis using client_inbox_in_order [OF run q] run seen len by (intro exI [of _ ?r2]) simp
qed

text \<open>The start message is unread and the client waits, or it is read and the client is in the game.\<close>

lemma read_bytes_suffix: "live s \<Longrightarrow> read_bytes n s = (b, s') \<Longrightarrow> live s' \<and> suffix (concat s') (concat s)"
  using read_loop_live [of s "[]" n] by (auto simp: read_bytes_def suffix_drop split: if_splits)

lemma receive_message_suffix:
  assumes "live s" and "receive_message_tcp s m0 = (ok, m, s')"
  shows "live s' \<and> suffix (concat s') (concat s)"
proof -
  obtain b1 s1 where 1: "read_bytes 4 s = (b1, s1)" by fastforce
  obtain b2 s2 where 2: "read_bytes 4 s1 = (b2, s2)" by fastforce
  obtain b3 s3 where 3: "read_bytes 4 s2 = (b3, s3)" by fastforce
  obtain b4 s4 where 4: "read_bytes MSG_CONTENT_LENGTH s3 = (b4, s4)" by fastforce
  have s1: "live s1 \<and> suffix (concat s1) (concat s)" by (rule read_bytes_suffix [OF assms(1) 1])
  then have s2: "live s2 \<and> suffix (concat s2) (concat s)" using read_bytes_suffix [OF _ 2] suffix_order.trans by blast
  then have s3: "live s3 \<and> suffix (concat s3) (concat s)" using read_bytes_suffix [OF _ 3] suffix_order.trans by blast
  then have s4: "live s4 \<and> suffix (concat s4) (concat s)" using read_bytes_suffix [OF _ 4] suffix_order.trans by blast
  have "s' \<in> {s1, s2, s3, s4}" using assms(2) by (auto simp: receive_message_tcp_def 1 2 3 4 Let_def split: option.splits)
  then show ?thesis using s1 s2 s3 s4 by blast
qed

definition start_awaited :: "Message list \<Rightarrow> Message \<Rightarrow> u8 list \<Rightarrow> crun \<Rightarrow> bool" where
  "start_awaited ms st rest r \<longleftrightarrow> live (c_rx (cr_conn r))
     \<and> (cr_at r = C_lobby \<and> cl_state (cr_cl r) = LOBBY
          \<and> (\<exists>k \<le> length ms. concat (c_rx (cr_conn r)) = concat (map encode_message (drop k ms)) @ encode_message st @ rest)
        \<or> cl_state (cr_cl r) \<in> {GAME, END} \<and> suffix (concat (c_rx (cr_conn r))) rest)"

lemma game_iteration_rx:
  assumes "client_game_iteration ssl activity ready uni broad stack msg0 (o1, c, cn) = (o2, c', cn')" and "live (c_rx cn)" and "cl_state c = GAME"
  shows "live (c_rx cn') \<and> suffix (concat (c_rx cn')) (concat (c_rx cn)) \<and> cl_state c' \<in> {GAME, END}"
proof -
  have "cl_state d \<in> {GAME, END} \<Longrightarrow> cl_state (fold (client_receive ssl) l d) \<in> {GAME, END}" for l d by (induction l arbitrary: d) auto
  then have "cl_state c' \<in> {GAME, END}" using game_iteration_seen [OF assms(1)] assms(3) by simp
  moreover have "c_rx cn' = c_rx cn \<or> (\<exists>ok m. receive_message_tcp (c_rx cn) msg0 = (ok, m, c_rx cn'))"
    using assms(1) by (auto simp: client_game_iteration_def Let_def split: prod.splits if_splits bool.splits)
  ultimately show ?thesis using receive_message_suffix [OF assms(2)] assms(2) by auto
qed

lemma start_awaited_step:
  assumes "cl_step ssl r r'" and "start_awaited ms st rest r"
    and m: "\<forall>m \<in> set ms. message_wf m \<and> msg_type m \<noteq> MSG_START" "message_wf st" "msg_type st = MSG_START"
  shows "start_awaited ms st rest r'"
  using assms(1,2)
proof (induction rule: cl_step.induct)
  case (a_send r rnd content res cn')
  then show ?case by (auto simp: start_awaited_def brclient_send_msg_def split: prod.splits)
next
  case (a_get r got c')
  have "cl_ep c' = cl_ep (cr_cl r)" using a_get(1) by (auto simp: brclient_get_app_msg_def split: prod.splits)
  then show ?case using a_get(2) by (auto simp: start_awaited_def)
next
  case (t_wait r msg0 c' cn')
  then obtain k where k: "k \<le> length ms" "concat (c_rx (cr_conn r)) = concat (map encode_message (drop k ms)) @ encode_message st @ rest"
    and l: "live (c_rx (cr_conn r))" by (auto simp: start_awaited_def)
  show ?case
  proof (cases "k = length ms")
    case True
    then have "concat (c_rx (cr_conn r)) = encode_message st @ rest" using k(2) by simp
    from lobby_iteration_enc [OF m(2) l this t_wait(2), of msg0] obtain cn1 where
      "client_lobby_iteration msg0 (cr_cl r, cr_conn r) = (if msg_type st = MSG_START then set_cl_state GAME (cr_cl r) else cr_cl r, cn1)"
      "live (c_rx cn1)" "concat (c_rx cn1) = rest" .
    then show ?thesis using m(3) t_wait(3) by (simp add: start_awaited_def set_cl_state_def)
  next
    case False
    then have d: "drop k ms = ms ! k # drop (Suc k) ms" "ms ! k \<in> set ms" using k(1) by (auto simp: Cons_nth_drop_Suc)
    have w: "message_wf (ms ! k)" "msg_type (ms ! k) \<noteq> MSG_START" using m(1) d(2) by auto
    have "concat (c_rx (cr_conn r)) = encode_message (ms ! k) @ concat (map encode_message (drop (Suc k) ms)) @ encode_message st @ rest" using k(2) d(1) by simp
    from lobby_iteration_enc [OF w(1) l this t_wait(2), of msg0] obtain cn1 where
      "client_lobby_iteration msg0 (cr_cl r, cr_conn r) = (if msg_type (ms ! k) = MSG_START then set_cl_state GAME (cr_cl r) else cr_cl r, cn1)"
      "live (c_rx cn1)" "concat (c_rx cn1) = concat (map encode_message (drop (Suc k) ms)) @ encode_message st @ rest" .
    then have "c' = cr_cl r" "live (c_rx cn')" "concat (c_rx cn') = concat (map encode_message (drop (Suc k) ms)) @ encode_message st @ rest"
      using w(2) t_wait(3) by simp_all
    moreover have "Suc k \<le> length ms" using False k(1) by simp
    ultimately show ?thesis using t_wait(1,2) unfolding start_awaited_def by auto
  qed
next
  case (t_listen r tcp_open activity ready uni broad stack msg0 tcp_open' c' cn')
  have s: "live (c_rx (cr_conn r))" "suffix (concat (c_rx (cr_conn r))) rest" using t_listen(1,2,4) by (auto simp: start_awaited_def)
  note i = game_iteration_rx [OF t_listen(3) s(1) t_listen(2)]
  then have "suffix (concat (c_rx cn')) rest" using s(2) suffix_order.trans by blast
  then show ?case using i by (auto simp: start_awaited_def)
qed (auto simp: start_awaited_def)

lemma start_awaited_run:
  "cl_run ssl r n r' \<Longrightarrow> start_awaited ms st rest r \<Longrightarrow> \<forall>m \<in> set ms. message_wf m \<and> msg_type m \<noteq> MSG_START \<Longrightarrow> message_wf st
   \<Longrightarrow> msg_type st = MSG_START \<Longrightarrow> start_awaited ms st rest r'"
  by (induction rule: cl_run.induct) (blast intro: start_awaited_step)+

text \<open>
  C37 (client_enters_game): take a client in the lobby that the room sends any messages other than the start, then the start and anything after it, its stream cut into pieces in any
  way. In every run, whatever the application calls in between, the client is in the lobby as long as the start message is unread, whatever else it has read, and in the game or past it once
  it is read, with at most what came after it unread; and the thread gets there: some run of it is in the game loop with exactly what came after the start unread, its id and key kept.
\<close>

theorem client_enters_game:
  assumes "\<forall>m \<in> set ms. message_wf m \<and> msg_type m \<noteq> MSG_START" and "message_wf st" and "msg_type st = MSG_START"
    and "cr_at r = C_lobby" and "cl_state (cr_cl r) = LOBBY" and "live (c_rx (cr_conn r))"
    and "concat (c_rx (cr_conn r)) = concat (map encode_message ms) @ encode_message st @ rest"
  shows "(\<forall>n r'. cl_run ssl r n r' \<longrightarrow>
       brclient_get_state (Some (cr_cl r')) = 1
         \<and> (\<exists>k \<le> length ms. concat (c_rx (cr_conn r')) = concat (map encode_message (drop k ms)) @ encode_message st @ rest)
       \<or> 2 \<le> brclient_get_state (Some (cr_cl r')) \<and> suffix (concat (c_rx (cr_conn r'))) rest)
     \<and> (\<exists>r'. cl_run ssl r (length ms + 3) r' \<and> cr_at r' = C_game True \<and> brclient_get_state (Some (cr_cl r')) = 2 \<and> concat (c_rx (cr_conn r')) = rest
       \<and> ep_id (cl_ep (cr_cl r')) = ep_id (cl_ep (cr_cl r)) \<and> ep_sesskey (cl_ep (cr_cl r')) = ep_sesskey (cl_ep (cr_cl r)))"
proof
  have "start_awaited ms st rest r" using assms(4-7) by (auto simp: start_awaited_def intro!: exI [of _ 0])
  then have "start_awaited ms st rest r'" if "cl_run ssl r n r'" for n r' using start_awaited_run [OF that _ assms(1-3)] by blast
  then show "\<forall>n r'. cl_run ssl r n r' \<longrightarrow> brclient_get_state (Some (cr_cl r')) = 1
         \<and> (\<exists>k \<le> length ms. concat (c_rx (cr_conn r')) = concat (map encode_message (drop k ms)) @ encode_message st @ rest)
       \<or> 2 \<le> brclient_get_state (Some (cr_cl r')) \<and> suffix (concat (c_rx (cr_conn r'))) rest"
    by (fastforce simp: start_awaited_def state_code_of)
  obtain cn' where run: "cl_run ssl r (length ms + 1) (r\<lparr>cr_cl := set_cl_state GAME (cr_cl r), cr_conn := cn'\<rparr>)" (is "cl_run ssl r _ ?r1")
      and cn': "concat (c_rx cn') = rest" using lobby_waits [OF assms] by blast
  let ?r2 = "?r1\<lparr>cr_at := C_dispatch\<rparr>" and ?r3 = "?r1\<lparr>cr_at := C_dispatch\<rparr>\<lparr>cr_at := C_game True\<rparr>"
  have "cl_step ssl ?r1 ?r2" by (rule cl_step.t_leave_lobby) (use assms(4) in \<open>simp_all add: set_cl_state_def\<close>)
  moreover have "cl_step ssl ?r2 ?r3" by (rule cl_step.t_game) (simp_all add: set_cl_state_def)
  ultimately have "cl_run ssl r (Suc (Suc (length ms + 1))) ?r3" using run by (blast intro: cl_run.run_step)
  then show "\<exists>r'. cl_run ssl r (length ms + 3) r' \<and> cr_at r' = C_game True \<and> brclient_get_state (Some (cr_cl r')) = 2 \<and> concat (c_rx (cr_conn r')) = rest
       \<and> ep_id (cl_ep (cr_cl r')) = ep_id (cl_ep (cr_cl r)) \<and> ep_sesskey (cl_ep (cr_cl r')) = ep_sesskey (cl_ep (cr_cl r))"
    using cn' by (intro exI [of _ ?r3]) (simp add: state_code_of set_cl_state_def eval_nat_numeral)
qed

text \<open>An application message, then the start.\<close>

definition demo_wait :: crun where
  "demo_wait = (crun_init (set_cl_state LOBBY demo_player)
     \<lparr>c_rx = [encode_message (demo_message MSG_APP) @ encode_message (demo_message MSG_START)], c_tx = wide_tx\<rparr>)\<lparr>cr_at := C_lobby\<rparr>"

theorem client_enters_game_witness:
  "(brclient_get_state (Some (cr_cl demo_wait)) = 1 \<or> concat (c_rx (cr_conn demo_wait)) = [])
   \<and> (\<exists>r'. cl_run plain_ssl demo_wait 4 r' \<and> cr_at r' = C_game True \<and> brclient_get_state (Some (cr_cl r')) = 2 \<and> concat (c_rx (cr_conn r')) = [])"
proof -
  have m: "\<forall>m \<in> set [demo_message MSG_APP]. message_wf m \<and> msg_type m \<noteq> MSG_START"
    using demo_line_read(1) by (simp add: demo_message_def MSG_APP_def MSG_START_def)
  have s: "msg_type (demo_message MSG_START) = MSG_START" by (simp add: demo_message_def)
  have l: "live (c_rx (cr_conn demo_wait))" by (simp add: demo_wait_def crun_init_def live_def encode_message_def be32_def)
  have r: "cr_at demo_wait = C_lobby" "cl_state (cr_cl demo_wait) = LOBBY"
      "concat (c_rx (cr_conn demo_wait)) = concat (map encode_message [demo_message MSG_APP]) @ encode_message (demo_message MSG_START) @ []"
    by (simp_all add: demo_wait_def crun_init_def set_cl_state_def)
  note e = client_enters_game [OF m demo_line_read(1) s r(1,2) l r(3), of plain_ssl]
  have four: "length [demo_message MSG_APP] + 3 = 4" by simp
  show ?thesis
  proof
    show "brclient_get_state (Some (cr_cl demo_wait)) = 1 \<or> concat (c_rx (cr_conn demo_wait)) = []"
      using e [THEN conjunct1] cl_run.run_start [of plain_ssl demo_wait] unfolding suffix_Nil by blast
    show "\<exists>r'. cl_run plain_ssl demo_wait 4 r' \<and> cr_at r' = C_game True \<and> brclient_get_state (Some (cr_cl r')) = 2 \<and> concat (c_rx (cr_conn r')) = []"
      using e [THEN conjunct2] unfolding four by blast
  qed
qed

end
