(* ===== verification/Float32.thy ===== *)
theory Float32
  imports Complex_Main Prelude
begin

text \<open>
  The C type \<open>float\<close> of the bomb game: a finite single-precision number is the rational it stands for, and an arithmetic operation is the exact one followed
  by rounding to 24 significant bits, to nearest with ties to even, with the fixed spacing \<open>2^-149\<close> below the normal range. The
  numbers of the game are positions on a map and timers, far from overflow, so infinities and NaN do not occur and are left out.
\<close>

type_synonym f32 = rat

definition round_even :: "rat \<Rightarrow> int" where
  "round_even y =
     (let f = \<lfloor>y\<rfloor>; r = y - of_int f
      in if r < 1 / 2 then f else if r > 1 / 2 then f + 1 else if even f then f else f + 1)"

text \<open>The number of binary digits, and the exponent of the leading bit of a positive number.\<close>

function bit_len :: "int \<Rightarrow> int" where
  "bit_len n = (if n \<le> 0 then 0 else bit_len (n div 2) + 1)"
  by pat_completeness auto
termination by (relation "measure nat") auto

declare bit_len.simps [simp del]

definition lead_exp :: "rat \<Rightarrow> int" where
  "lead_exp x =
     (let (n, d) = quotient_of x; e0 = bit_len n - bit_len d
      in if x < 2 powi e0 then e0 - 1 else e0)"

definition ulp :: "rat \<Rightarrow> rat" where
  "ulp x = 2 powi (max (lead_exp x - 23) (-149))"

definition f32_round :: "rat \<Rightarrow> f32" where
  "f32_round x = (if x = 0 then 0 else of_int (round_even (x / ulp \<bar>x\<bar>)) * ulp \<bar>x\<bar>)"

definition f_add :: "f32 \<Rightarrow> f32 \<Rightarrow> f32" where "f_add x y = f32_round (x + y)"
definition f_sub :: "f32 \<Rightarrow> f32 \<Rightarrow> f32" where "f_sub x y = f32_round (x - y)"
definition f_mul :: "f32 \<Rightarrow> f32 \<Rightarrow> f32" where "f_mul x y = f32_round (x * y)"
definition f_div :: "f32 \<Rightarrow> f32 \<Rightarrow> f32" where "f_div x y = f32_round (x / y)"

text \<open>A decimal constant of the source, and the conversion to \<open>int\<close>, which drops the fraction.\<close>

definition f_lit :: "rat \<Rightarrow> f32" where "f_lit x = f32_round x"

definition f_to_int :: "f32 \<Rightarrow> int" where
  "f_to_int x = (if 0 \<le> x then \<lfloor>x\<rfloor> else \<lceil>x\<rceil>)"

text \<open>The conversion of an \<open>int\<close>.\<close>

definition f_of_int :: "int \<Rightarrow> f32" where "f_of_int k = f32_round (of_int k)"

text \<open>The 32 bits that represent a number: sign, exponent with bias 127, and the 23 bits after the leading one.\<close>

definition f32_bits :: "f32 \<Rightarrow> u32" where
  "f32_bits x =
     (if x = 0 then 0
      else
        let a = \<bar>x\<bar>; e = lead_exp a; m = \<lfloor>a / ulp a\<rfloor>
        in word_of_int ((if x < 0 then 2 ^ 31 else 0) + (if e < -126 then m else (e + 127) * 2 ^ 23 + (m - 2 ^ 23))))"

text \<open>The number that 32 bits stand for; the exponent 255 is that of the infinities and of NaN.\<close>

definition f32_of_bits :: "u32 \<Rightarrow> f32 option" where
  "f32_of_bits b =
     (let k = uint b; e = (k div 2 ^ 23) mod 2 ^ 8; m = k mod 2 ^ 23;
          a = (if e = 0 then of_int m * 2 powi (-149) else of_int (2 ^ 23 + m) * 2 powi (e - 150))
      in if e = 255 then None else Some (if k div 2 ^ 31 = 1 then - a else a))"

section \<open>The rounding error\<close>

lemma round_even_error: "\<bar>of_int (round_even y) - y\<bar> \<le> 1 / 2"
proof -
  define r where "r = y - of_int \<lfloor>y\<rfloor>"
  have r: "0 \<le> r" "r < 1" unfolding r_def by linarith+
  have y: "y = of_int \<lfloor>y\<rfloor> + r" by (simp add: r_def)
  have e: "round_even y = (if r < 1 / 2 then \<lfloor>y\<rfloor> else if r > 1 / 2 then \<lfloor>y\<rfloor> + 1 else if even \<lfloor>y\<rfloor> then \<lfloor>y\<rfloor> else \<lfloor>y\<rfloor> + 1)"
    unfolding round_even_def Let_def r_def by (rule refl)
  consider "round_even y = \<lfloor>y\<rfloor>" "r \<le> 1 / 2" | "round_even y = \<lfloor>y\<rfloor> + 1" "1 / 2 \<le> r"
    unfolding e using r by (cases "r < 1 / 2"; cases "r > 1 / 2"; cases "even \<lfloor>y\<rfloor>") auto
  then show ?thesis
  proof cases
    case 1
    then have "of_int (round_even y) - y = - r" using y by simp
    then show ?thesis using 1 r by simp
  next
    case 2
    then have "of_int (round_even y) - y = 1 - r" using y by simp
    then show ?thesis using 2 r by simp
  qed
qed

lemma round_even_int [simp]: "round_even (of_int k) = k"
  by (simp add: round_even_def)

lemma bit_len_bounds:
  assumes "0 < n"
  shows "0 < bit_len n \<and> 2 powi (bit_len n - 1) \<le> (of_int n :: rat) \<and> (of_int n :: rat) < 2 powi (bit_len n)"
  using assms
proof (induction n rule: bit_len.induct)
  case (1 n)
  show ?case
  proof (cases "n = 1")
    case True
    have "bit_len 1 = 1" by (simp add: bit_len.simps)
    with True show ?thesis by simp
  next
    case False
    define m where "m = n div 2"
    have m: "0 < m" "2 * m \<le> n" "n < 2 * m + 2" using False 1 by (auto simp: m_def)
    have bl: "bit_len n = bit_len m + 1" using 1 by (simp add: bit_len.simps [of n] m_def)
    have ih: "0 < bit_len m" "2 powi (bit_len m - 1) \<le> (of_int m :: rat)" "(of_int m :: rat) < 2 powi (bit_len m)"
      using 1 m(1) by (auto simp: m_def)
    have p: "(2 :: rat) powi (bit_len m) = of_int (2 ^ nat (bit_len m))"
      using ih(1) by (simp add: power_int_def)
    then have "m + 1 \<le> 2 ^ nat (bit_len m)" using ih(3) by (metis of_int_less_iff zless_imp_add1_zle)
    then have up: "(of_int (m + 1) :: rat) \<le> 2 powi (bit_len m)" unfolding p by (rule of_int_le_iff [THEN iffD2])
    have d: "(2 :: rat) powi (bit_len m) = 2 * 2 powi (bit_len m - 1)" "(2 :: rat) powi (bit_len m + 1) = 2 * 2 powi (bit_len m)"
      using power_int_add [of "2 :: rat" "bit_len m - 1" 1] power_int_add [of "2 :: rat" "bit_len m" 1] by simp_all
    have n': "(of_int (2 * m) :: rat) \<le> of_int n" "(of_int n :: rat) < of_int (2 * m + 2)"
      using m by (simp_all only: of_int_le_iff of_int_less_iff)
    show ?thesis unfolding bl using ih up d n' by auto
  qed
qed

lemma lead_exp_le:
  assumes "0 < x"
  shows "2 powi (lead_exp x) \<le> x"
proof -
  obtain n d where q: "quotient_of x = (n, d)" by fastforce
  have d: "0 < d" using quotient_of_denom_pos [OF q] .
  have xe: "x = of_int n / of_int d" using quotient_of_div [OF q] .
  have n: "0 < n" using assms d xe by (simp add: zero_less_divide_iff)
  define e0 where "e0 = bit_len n - bit_len d"
  have le: "lead_exp x = (if x < 2 powi e0 then e0 - 1 else e0)" by (simp add: lead_exp_def q e0_def Let_def)
  have "2 powi (e0 - 1) = (2 :: rat) powi (bit_len n - 1) / 2 powi (bit_len d)"
    by (simp add: e0_def power_int_diff)
  also have "\<dots> \<le> of_int n / of_int d"
    using bit_len_bounds [OF n] bit_len_bounds [OF d] d n by (intro frac_le) simp_all
  finally have "2 powi (e0 - 1) \<le> x" by (simp add: xe)
  then show ?thesis using le by (simp split: if_splits)
qed

lemma lead_exp_less:
  assumes "0 < x"
  shows "x < 2 powi (lead_exp x + 1)"
proof -
  obtain n d where q: "quotient_of x = (n, d)" by fastforce
  have d: "0 < d" using quotient_of_denom_pos [OF q] .
  have xe: "x = of_int n / of_int d" using quotient_of_div [OF q] .
  have n: "0 < n" using assms d xe by (simp add: zero_less_divide_iff)
  define e0 where "e0 = bit_len n - bit_len d"
  have le: "lead_exp x = (if x < 2 powi e0 then e0 - 1 else e0)" by (simp add: lead_exp_def q e0_def Let_def)
  have "of_int n / of_int d < (2 :: rat) powi (bit_len n) / 2 powi (bit_len d - 1)"
    using bit_len_bounds [OF n] bit_len_bounds [OF d] n by (intro frac_less) simp_all
  also have "\<dots> = 2 powi (e0 + 1)" by (simp add: e0_def power_int_diff power_int_add)
  finally show ?thesis using le xe by simp
qed

lemma power_two_int_less:
  assumes "(2 :: rat) powi a < 2 powi b"
  shows "a < b"
  using assms power_int_increasing [of b a "2 :: rat"] by (meson leD leI one_le_numeral)

lemma ulp_pos: "0 < ulp x"
  by (simp add: ulp_def)

lemma power_two_int_le:
  assumes "(2 :: rat) powi a \<le> 2 powi b"
  shows "a \<le> b"
  using assms power_int_strict_increasing [of b a "2 :: rat"] by (meson leD leI one_less_numeral_iff semiring_norm(76))

lemma ulp_small:
  assumes "0 < x" and "x \<le> 2 ^ k"
  shows "ulp x \<le> 2 ^ k / 2 ^ 23"
proof -
  have "2 powi (lead_exp x) \<le> (2 :: rat) powi int k"
    using lead_exp_le [OF assms(1)] assms(2) by (simp add: power_int_of_nat)
  then have "lead_exp x \<le> int k" by (rule power_two_int_le)
  then have "max (lead_exp x - 23) (-149) \<le> int k - 23" by simp
  then have "ulp x \<le> 2 powi (int k - 23)" unfolding ulp_def by (intro power_int_increasing) simp_all
  then show ?thesis by (simp add: power_int_diff power_int_of_nat)
qed

lemma f32_round_error:
  assumes "\<bar>x\<bar> \<le> 2 ^ k"
  shows "\<bar>f32_round x - x\<bar> \<le> 2 ^ k / 2 ^ 24"
proof (cases "x = 0")
  case False
  define u where "u = ulp \<bar>x\<bar>"
  have u: "0 < u" "u \<le> 2 ^ k / 2 ^ 23" using ulp_pos ulp_small [of "\<bar>x\<bar>" k] False assms by (simp_all add: u_def)
  have "f32_round x - x = (of_int (round_even (x / u)) - x / u) * u"
    using False u(1) by (simp add: f32_round_def u_def [symmetric] left_diff_distrib)
  then have "\<bar>f32_round x - x\<bar> = \<bar>of_int (round_even (x / u)) - x / u\<bar> * u" using u(1) by (simp add: abs_mult)
  also have "\<dots> \<le> 1 / 2 * u" using round_even_error u(1) by (intro mult_right_mono) simp_all
  also have "\<dots> \<le> 1 / 2 * (2 ^ k / 2 ^ 23)" using u(2) by simp
  finally show ?thesis by simp
qed (simp add: f32_round_def)

text \<open>Rounding is monotone.\<close>

lemma round_even_mono:
  assumes "x \<le> y"
  shows "round_even x \<le> round_even y"
proof (cases "\<lfloor>x\<rfloor> = \<lfloor>y\<rfloor>")
  case True
  then have "x - of_int \<lfloor>x\<rfloor> \<le> y - of_int \<lfloor>y\<rfloor>" using assms by simp
  then show ?thesis unfolding round_even_def Let_def using True by auto
next
  case False
  then have "\<lfloor>x\<rfloor> + 1 \<le> \<lfloor>y\<rfloor>" using floor_mono [OF assms] by simp
  moreover have "round_even x \<le> \<lfloor>x\<rfloor> + 1" "\<lfloor>y\<rfloor> \<le> round_even y" unfolding round_even_def Let_def by auto
  ultimately show ?thesis by simp
qed

lemma lead_exp_mono:
  assumes "0 < x" and "x \<le> y"
  shows "lead_exp x \<le> lead_exp y"
proof -
  have "(2 :: rat) powi lead_exp x \<le> x" using lead_exp_le [OF assms(1)] .
  also have "\<dots> < 2 powi (lead_exp y + 1)" using lead_exp_less [of y] assms by simp
  finally have "lead_exp x < lead_exp y + 1" by (rule power_two_int_less)
  then show ?thesis by simp
qed

lemma f32_round_nonneg: "0 \<le> x \<Longrightarrow> 0 \<le> f32_round x"
  using round_even_mono [of 0 "x / ulp \<bar>x\<bar>"] ulp_pos [of "\<bar>x\<bar>"] round_even_int [of 0] by (simp add: f32_round_def)

lemma f32_round_mono:
  assumes "0 \<le> x" and "x \<le> y"
  shows "f32_round x \<le> f32_round y"
proof (cases "x = 0")
  case True
  then show ?thesis using assms f32_round_nonneg [of y] by (simp add: f32_round_def)
next
  case False
  define p q where "p = max (lead_exp x - 23) (-149)" and "q = max (lead_exp y - 23) (-149)"
  have x: "0 < x" "0 < y" using False assms by simp_all
  have r: "f32_round x = of_int (round_even (x / 2 powi p)) * 2 powi p" "f32_round y = of_int (round_even (y / 2 powi q)) * 2 powi q"
    using x by (simp_all add: f32_round_def ulp_def p_def q_def)
  have pq: "p \<le> q" using lead_exp_mono [OF x(1) assms(2)] by (simp add: p_def q_def)
  show ?thesis
  proof (cases "p = q")
    case True
    have "round_even (x / 2 powi q) \<le> round_even (y / 2 powi q)" using assms(2) by (intro round_even_mono divide_right_mono) simp_all
    then show ?thesis unfolding r True by (intro mult_right_mono) simp_all
  next
    case False
    then have ey: "q = lead_exp y - 23" "p + 24 \<le> lead_exp y" "lead_exp x + 1 \<le> p + 24" using pq by (auto simp: p_def q_def)
    have "x \<le> 2 powi (p + 24)" using lead_exp_less [OF x(1)] power_int_increasing [OF ey(3), of "2 :: rat"] by simp
    then have "x / 2 powi p \<le> of_int (2 ^ 24)" by (simp add: power_int_add pos_divide_le_eq mult.commute)
    then have "round_even (x / 2 powi p) \<le> 2 ^ 24" using round_even_mono round_even_int by metis
    then have "(of_int (round_even (x / 2 powi p)) :: rat) \<le> of_int (2 ^ 24)" by (simp only: of_int_le_iff)
    then have "f32_round x \<le> of_int (2 ^ 24) * 2 powi p" unfolding r by (intro mult_right_mono) simp_all
    also have "\<dots> = 2 powi (p + 24)" by (simp add: power_int_add)
    also have "\<dots> \<le> 2 powi (lead_exp y)" using power_int_increasing [OF ey(2), of "2 :: rat"] by simp
    also have z: "\<dots> = of_int (2 ^ 23) * 2 powi q" by (simp add: ey(1) power_int_diff)
    also have "\<dots> \<le> f32_round y"
    proof -
      have "of_int (2 ^ 23) \<le> y / 2 powi q" using lead_exp_le [OF x(2)] unfolding z by (simp add: pos_le_divide_eq)
      then have "2 ^ 23 \<le> round_even (y / 2 powi q)" using round_even_mono round_even_int by metis
      then have "(of_int (2 ^ 23) :: rat) \<le> of_int (round_even (y / 2 powi q))" by (simp only: of_int_le_iff)
      then show ?thesis unfolding r by (intro mult_right_mono) simp_all
    qed
    finally show ?thesis .
  qed
qed

text \<open>A multiple of a power of two with at most 24 significant bits is not changed by rounding.\<close>

lemma f32_round_grid:
  assumes "y = of_int m * 2 powi q" and "-149 \<le> q" and "\<bar>m\<bar> < 2 ^ 24"
  shows "f32_round y = y"
proof (cases "m = 0")
  case False
  define p where "p = max (lead_exp \<bar>y\<bar> - 23) (-149)"
  have ay: "\<bar>y\<bar> = of_int \<bar>m\<bar> * 2 powi q" "0 < \<bar>y\<bar>" using False by (simp_all add: assms(1) abs_mult)
  have "(of_int \<bar>m\<bar> :: rat) < of_int (2 ^ 24)" using assms(3) by (simp only: of_int_less_iff)
  then have "\<bar>y\<bar> < of_int (2 ^ 24) * 2 powi q" unfolding ay(1) by (intro mult_strict_right_mono) simp_all
  also have "\<dots> = 2 powi (q + 24)" by (simp add: power_int_add)
  finally have "(2 :: rat) powi (lead_exp \<bar>y\<bar>) < 2 powi (q + 24)" using lead_exp_le [OF ay(2)] by (rule order.strict_trans1 [rotated])
  then have "lead_exp \<bar>y\<bar> < q + 24" by (rule power_two_int_less)
  then have "p \<le> q" using assms(2) by (simp add: p_def)
  then have d: "(2 :: rat) powi q / 2 powi p = of_int (2 ^ nat (q - p))" using power_int_diff [of "2 :: rat" q p] by (simp add: power_int_def [of _ "q - p"])
  have "y / 2 powi p = of_int m * (2 powi q / 2 powi p)" by (simp add: assms(1))
  also have "\<dots> = of_int (m * 2 ^ nat (q - p))" unfolding d by simp
  finally have z: "y / 2 powi p = of_int (m * 2 ^ nat (q - p))" .
  have "f32_round y = of_int (round_even (y / 2 powi p)) * 2 powi p" using ay(2) by (simp add: f32_round_def ulp_def p_def)
  also have "\<dots> = y" unfolding z round_even_int unfolding z [symmetric] by simp
  finally show ?thesis .
qed (simp add: assms(1) f32_round_def)

text \<open>Integers below \<open>2^24\<close> are single-precision numbers, and so is every result of an operation.\<close>

lemma f32_round_int: "\<bar>k\<bar> < 2 ^ 24 \<Longrightarrow> f32_round (of_int k) = of_int k"
  using f32_round_grid [of "of_int k" k 0] by simp

lemma f32_round_idem [simp]: "f32_round (f32_round x) = f32_round x"
proof (cases "x = 0")
  case False
  define q where "q = max (lead_exp \<bar>x\<bar> - 23) (-149)"
  define m where "m = round_even (x / 2 powi q)"
  have ax: "0 < \<bar>x\<bar>" using False by simp
  have r: "f32_round x = of_int m * 2 powi q" using False by (simp add: f32_round_def ulp_def q_def m_def)
  have "lead_exp \<bar>x\<bar> + 1 \<le> q + 24" by (simp add: q_def)
  then have "(2 :: rat) powi (lead_exp \<bar>x\<bar> + 1) \<le> 2 powi (q + 24)" by (rule power_int_increasing) simp
  then have "\<bar>x\<bar> < 2 powi (q + 24)" using lead_exp_less [OF ax] by (rule order.strict_trans2 [rotated])
  then have "\<bar>x / 2 powi q\<bar> < of_int (2 ^ 24)" by (simp add: power_int_add pos_divide_less_eq abs_divide)
  then have "\<bar>of_int m :: rat\<bar> < of_int (2 ^ 24) + 1" using round_even_error [of "x / 2 powi q"] unfolding m_def by linarith
  then have m: "\<bar>m\<bar> \<le> 2 ^ 24" by (simp flip: of_int_abs)
  show ?thesis
  proof (cases "\<bar>m\<bar> < 2 ^ 24")
    case True
    then show ?thesis using f32_round_grid [OF r] by (simp add: q_def)
  next
    case False
    then have m2: "m = 2 * (m div 2)" "\<bar>m div 2\<bar> < 2 ^ 24" using m by (cases "m = 2 ^ 24", simp_all, cases "m = - (2 ^ 24)", simp_all)
    have h: "of_int m * 2 powi q = of_int (m div 2) * (2 :: rat) powi (q + 1)" by (subst m2(1)) (simp add: power_int_add)
    show ?thesis using f32_round_grid [OF r [unfolded h]] m2(2) by (simp add: q_def)
  qed
qed (simp add: f32_round_def)

section \<open>The representation\<close>

text \<open>The numbers that a \<open>float\<close> holds.\<close>

definition is_f32 :: "rat \<Rightarrow> bool" where
  "is_f32 x \<longleftrightarrow> f32_round x = x \<and> \<bar>x\<bar> < 2 powi 128"

lemma decode_fields:
  assumes "0 \<le> e" and "e < 2 ^ 8" and "0 \<le> m" and "m < 2 ^ 23" and "k = (if neg then 2 ^ 31 else 0) + e * 2 ^ 23 + m"
  shows "f32_of_bits (word_of_int k) =
     (let a = (if e = 0 then of_int m * 2 powi (-149) else of_int (2 ^ 23 + m) * 2 powi (e - 150))
      in if e = 255 then None else Some (if neg then - a else a))"
proof -
  have k: "0 \<le> k" "k < 2 ^ 32" using assms by (auto simp: assms(5))
  have u: "uint (word_of_int k :: u32) = k" using k by (simp add: uint_word_of_int)
  have "k = m + ((if neg then 2 ^ 8 else 0) + e) * 2 ^ 23" unfolding assms(5) by simp
  then have q: "k div 2 ^ 23 = (if neg then 2 ^ 8 else 0) + e" and "k mod 2 ^ 23 = m" using assms(3,4) by (simp_all only: div_mult_self1 mod_mult_self1 div_pos_pos_trivial mod_pos_pos_trivial)
  then have f: "k mod 2 ^ 23 = m" "(k div 2 ^ 23) mod 2 ^ 8 = e" using assms(1,2) by auto
  have "k div 2 ^ 31 = (k div 2 ^ 23) div 2 ^ 8" by (simp add: zdiv_zmult2_eq [symmetric])
  then have "(k div 2 ^ 31 = 1) = neg" unfolding q using assms(1,2) by auto
  then show ?thesis unfolding f32_of_bits_def u f Let_def by simp
qed

lemma is_f32_int: "\<bar>k\<bar> < 2 ^ 24 \<Longrightarrow> is_f32 (of_int k)"
proof -
  assume k: "\<bar>k\<bar> < 2 ^ 24"
  then have "(of_int \<bar>k\<bar> :: rat) < of_int (2 ^ 24)" by (simp only: of_int_less_iff)
  then show ?thesis using f32_round_int [OF k] by (simp add: is_f32_def)
qed

text \<open>A number survives the way through its bits.\<close>

lemma f32_of_bits_bits:
  assumes "is_f32 x"
  shows "f32_of_bits (f32_bits x) = Some x"
proof (cases "x = 0")
  case True
  then show ?thesis by (simp add: f32_bits_def f32_of_bits_def)
next
  case False
  define a where "a = \<bar>x\<bar>"
  define e where "e = lead_exp a"
  define m where "m = \<lfloor>a / ulp a\<rfloor>"
  have a: "0 < a" "a < 2 powi 128" using False assms by (simp_all add: a_def is_f32_def)
  have b: "2 powi e \<le> a" "a < 2 powi (e + 1)" unfolding e_def using a(1) by (rule lead_exp_le, rule lead_exp_less)
  have "(2 :: rat) powi e < 2 powi 128" using a(2) b(1) by (rule order.strict_trans1 [rotated])
  then have e128: "e < 128" by (rule power_two_int_less)
  have "x = of_int (round_even (x / ulp a)) * ulp a" using assms False by (simp add: is_f32_def f32_round_def a_def)
  then have "a = of_int \<bar>round_even (x / ulp a)\<bar> * ulp a" using ulp_pos [of a] by (metis a_def abs_mult abs_of_pos of_int_abs)
  then have am: "a = of_int m * ulp a" unfolding m_def using ulp_pos [of a] by (metis floor_of_int nonzero_mult_div_cancel_right less_irrefl)
  have m0: "0 < m" using am a(1) ulp_pos [of a] by (metis mult_le_0_iff not_less of_int_le_0_iff less_imp_le)
  have bits: "f32_bits x = word_of_int ((if x < 0 then 2 ^ 31 else 0) + (if e < -126 then m else (e + 127) * 2 ^ 23 + (m - 2 ^ 23)))"
    using False by (simp add: f32_bits_def Let_def a_def [symmetric] e_def m_def)
  have sgn: "(if x < 0 then - a else a) = x" by (simp add: a_def)
  show ?thesis
  proof (cases "e < -126")
    case True
    then have u: "ulp a = 2 powi (-149)" by (simp add: ulp_def e_def [symmetric])
    have "a < 2 powi (-126)" using b(2) True power_int_increasing [of "e + 1" "-126" "2 :: rat"] by simp
    also have "(2 :: rat) powi (-126) = of_int (2 ^ 23) * 2 powi (-149)" by (simp add: power_int_minus)
    finally have "of_int m * ulp a < of_int (2 ^ 23) * ulp a" using am u by simp
    then have "m < 2 ^ 23" using ulp_pos [of a] by (metis mult_less_cancel_right_pos of_int_less_iff)
    note f = decode_fields [of 0 m "(if x < 0 then 2 ^ 31 else 0) + m" "x < 0", OF _ _ less_imp_le [OF m0] this]
    show ?thesis using f True am [unfolded u, symmetric] unfolding bits Let_def by (simp only: sgn if_True if_False mult_zero_left add_0_right zero_neq_numeral simp_thms) (simp add: sgn)
  next
    case False
    then have u: "ulp a = 2 powi (e - 23)" by (simp add: ulp_def e_def [symmetric])
    have p: "(2 :: rat) powi e = of_int (2 ^ 23) * 2 powi (e - 23)" "(2 :: rat) powi (e + 1) = of_int (2 ^ 24) * 2 powi (e - 23)"
      by (simp_all add: power_int_diff power_int_add)
    have "2 ^ 23 \<le> m" "m < 2 ^ 24"
      using b am unfolding u p by (metis mult_le_cancel_right_pos of_int_le_iff u ulp_pos, metis mult_less_cancel_right_pos of_int_less_iff u ulp_pos)
    then have mm: "0 \<le> m - 2 ^ 23" "m - 2 ^ 23 < 2 ^ 23" by simp_all
    have ee: "0 \<le> e + 127" "e + 127 < 2 ^ 8" "e + 127 \<noteq> 0" "e + 127 \<noteq> 255" using False e128 by simp_all
    note f = decode_fields [OF ee(1,2) mm, of "(if x < 0 then 2 ^ 31 else 0) + ((e + 127) * 2 ^ 23 + (m - 2 ^ 23))" "x < 0"]
    show ?thesis using f False ee(3,4) am [unfolded u, symmetric] unfolding bits Let_def by (simp add: algebra_simps) (simp add: a_def)
  qed
qed

section \<open>Timers\<close>

text \<open>A timer from which a step is subtracted once per tick.\<close>

primrec countdown :: "f32 \<Rightarrow> nat \<Rightarrow> f32 \<Rightarrow> f32" where
  "countdown dt 0 t = t"
| "countdown dt (Suc n) t = f_sub (countdown dt n t) dt"

lemma countdown_error:
  assumes "0 \<le> t" and "t \<le> 1" and e: "e = 1 / 2 ^ 24" and "e \<le> dt" and "of_nat n * (dt + e) \<le> 1 + t"
  shows "\<bar>countdown dt n t - (t - of_nat n * dt)\<bar> \<le> of_nat n * e"
  using assms(5)
proof (induction n)
  case (Suc n)
  define c where "c = countdown dt n t"
  have e0: "0 < e" by (simp add: e)
  have s: "of_nat n * (dt + e) + (dt + e) \<le> 1 + t" using Suc.prems by (simp only: of_nat_Suc distrib_right mult_1 add.commute)
  then have "of_nat n * (dt + e) \<le> 1 + t" using e0 assms(4) by linarith
  from Suc.IH [OF this] have ih: "\<bar>c - (t - of_nat n * dt)\<bar> \<le> of_nat n * e" by (simp add: c_def)
  have nn: "of_nat n * e \<le> of_nat n * dt" using assms(4) by (intro mult_left_mono) simp_all
  have d: "of_nat n * (dt + e) = of_nat n * dt + of_nat n * e" by (rule distrib_left)
  have "-1 \<le> c - dt" "c - dt \<le> 1" using ih s e0 nn d assms(1,2,4) by linarith+
  then have "\<bar>c - dt\<bar> \<le> 2 ^ 0" by simp
  then have "\<bar>f_sub c dt - (c - dt)\<bar> \<le> e" unfolding f_sub_def e using f32_round_error [of "c - dt" 0] by simp
  then have "\<bar>f_sub c dt - (t - (of_nat n * dt + dt))\<bar> \<le> of_nat n * e + e" using ih by linarith
  moreover have "of_nat (Suc n) * dt = of_nat n * dt + dt" "of_nat (Suc n) * e = of_nat n * e + e"
    by (simp_all only: of_nat_Suc distrib_right mult_1 add.commute)
  ultimately show ?case by (simp only: countdown.simps c_def)
qed simp

lemma countdown_bounds:
  assumes "0 \<le> t" and "t \<le> 1" and "e = 1 / 2 ^ 24" and "e \<le> dt" and "of_nat n * (dt + e) \<le> 1 + t"
  shows "t - of_nat n * (dt + e) \<le> countdown dt n t" and "countdown dt n t \<le> t - of_nat n * (dt - e)"
proof -
  have d: "of_nat n * (dt + e) = of_nat n * dt + of_nat n * e" "of_nat n * (dt - e) = of_nat n * dt - of_nat n * e"
    by (rule distrib_left, rule right_diff_distrib)
  show "t - of_nat n * (dt + e) \<le> countdown dt n t" "countdown dt n t \<le> t - of_nat n * (dt - e)"
    using countdown_error [OF assms] unfolding d by linarith+
qed

end
