(* ===== verification/Bomb_Map.thy ===== *)
theory Bomb_Map
  imports Float32 "HOL-Library.Monad_Syntax"
begin

text \<open>
  The map of the bomb game and its generation: \<open>libbombbrain/map.c\<close>.

  The map is a list of rows, \<open>map[x][y]\<close> is \<open>tiles ! x ! y\<close>; an access outside the array is \<open>None\<close>. The number -1 with which
  \<open>map_generate\<close> marks the tiles it has not decided yet is \<open>None\<close> in the map under construction. The square roots are taken of
  small integers, where the double-precision \<open>ceil(sqrt(n))\<close> and \<open>round(sqrt(n))\<close> are the exact ones: the root of a number that is not a
  square is farther from an integer, or from a half, than the rounding error.
\<close>

datatype TileType = EMPTY | PLAYER | BOMB | EXPLOSION | POWERUP_FIRE | POWERUP_BOMB | BREAKABLE | WALL

type_synonym grid = "TileType list list"

section \<open>Access\<close>

definition in_grid :: "'a list list \<Rightarrow> int \<Rightarrow> int \<Rightarrow> bool" where
  "in_grid g x y \<longleftrightarrow> 0 \<le> x \<and> nat x < length g \<and> 0 \<le> y \<and> nat y < length (g ! nat x)"

definition grid_get :: "'a list list \<Rightarrow> int \<Rightarrow> int \<Rightarrow> 'a option" where
  "grid_get g x y = (if in_grid g x y then Some (g ! nat x ! nat y) else None)"

definition grid_put :: "'a list list \<Rightarrow> int \<Rightarrow> int \<Rightarrow> 'a \<Rightarrow> 'a list list option" where
  "grid_put g x y v = (if in_grid g x y then Some (g[nat x := (g ! nat x)[nat y := v]]) else None)"

text \<open>A sequence of assignments.\<close>

fun puts :: "((int \<times> int) \<times> 'a) list \<Rightarrow> 'a list list \<Rightarrow> 'a list list option" where
  "puts [] g = Some g"
| "puts (((x, y), v) # ws) g = (case grid_put g x y v of None \<Rightarrow> None | Some g' \<Rightarrow> puts ws g')"

definition tile_is_solid :: "grid \<Rightarrow> int \<Rightarrow> int \<Rightarrow> bool option" where
  "tile_is_solid g x y = map_option (\<lambda>t. t = WALL \<or> t = BREAKABLE) (grid_get g x y)"

section \<open>The size\<close>

definition MIN_MAP_WIDTH :: int where "MIN_MAP_WIDTH = 10"
definition EMPTY_CHANCE :: nat where "EMPTY_CHANCE = 20"
definition WALL_CHANCE :: nat where "WALL_CHANCE = 30"

text \<open>The least number whose square is at least \<open>n\<close>, and the number nearest to the root of \<open>n\<close>.\<close>

fun ceil_sqrt_from :: "nat \<Rightarrow> nat \<Rightarrow> nat \<Rightarrow> nat" where
  "ceil_sqrt_from 0 k n = k"
| "ceil_sqrt_from (Suc fuel) k n = (if n \<le> k * k then k else ceil_sqrt_from fuel (Suc k) n)"

definition ceil_sqrt :: "nat \<Rightarrow> nat" where
  "ceil_sqrt n = ceil_sqrt_from n 0 n"

definition round_sqrt :: "nat \<Rightarrow> nat" where
  "round_sqrt n = (let c = ceil_sqrt n in if 0 < c \<and> n \<le> (c - 1) * c then c - 1 else c)"

definition calc_map_size :: "int \<Rightarrow> int" where
  "calc_map_size num_players =
     (let s = int (ceil_sqrt (nat (25 * num_players))) in if s > MIN_MAP_WIDTH then s else MIN_MAP_WIDTH)"

section \<open>Where the players start\<close>

text \<open>
  The spawns in the order in which they are assigned. The inner loop of a strip is not bounded by the number of players, the
  outer one is.
\<close>

definition corners :: "int \<Rightarrow> (int \<times> int) list" where
  "corners inner_size = [(1, 1), (inner_size, inner_size), (1, inner_size), (inner_size, 1)]"

definition ceil_div :: "int \<Rightarrow> int \<Rightarrow> int" where
  "ceil_div a b = (a + b - 1) div b"

definition strip :: "int \<Rightarrow> int \<Rightarrow> int \<Rightarrow> int \<Rightarrow> (int \<times> int) list" where
  "strip inner_size num_strips s players_in_strip =
     (let y0 = (s * inner_size) div num_strips;
          y1 = ((s + 1) * inner_size) div num_strips;
          row = 2 + (if y0 + y1 < 1 then 0 else (y0 + y1 - 1) div 2)
      in map (\<lambda>i. let x0 = (i * inner_size) div players_in_strip;
                       x1 = ((i + 1) * inner_size) div players_in_strip
                   in (row, 2 + (if x0 + x1 < 1 then 0 else (x0 + x1 - 1) div 2))) [0..players_in_strip - 1])"

fun strips_loop :: "nat \<Rightarrow> int \<Rightarrow> int \<Rightarrow> int \<Rightarrow> int \<Rightarrow> int \<Rightarrow> (int \<times> int) list" where
  "strips_loop 0 s inner_size num_strips num_players player = []"
| "strips_loop (Suc n) s inner_size num_strips num_players player =
     (if \<not> player < num_players then []
      else
        let players_left = num_players - player;
            strips_left = num_strips - s;
            players_in_strip = ceil_div players_left strips_left
        in strip inner_size num_strips s players_in_strip
           @ strips_loop n (s + 1) inner_size num_strips num_players (player + players_in_strip))"

definition calc_player_spawns :: "int \<Rightarrow> int \<Rightarrow> (int \<times> int) list" where
  "calc_player_spawns num_players inner_size =
     (if num_players \<le> 4 then take (nat num_players) (corners inner_size)
      else
        let inner = (if inner_size - 2 < 1 then 1 else inner_size - 2);
            players_left = num_players - 4;
            n0 = int (round_sqrt (nat players_left));
            num_strips = (if n0 < 1 then 1 else n0)
        in corners inner_size @ strips_loop (nat num_strips) 0 inner num_strips num_players 4)"

section \<open>Generation\<close>

type_synonym draft = "TileType option list list"

definition map_borders :: "int \<Rightarrow> draft \<Rightarrow> draft option" where
  "map_borders map_size =
     puts (concat (map (\<lambda>i. [((0, i), Some WALL), ((map_size - 1, i), Some WALL), ((i, 0), Some WALL), ((i, map_size - 1), Some WALL)])
                       [0..map_size - 1]))"

definition clear_spawn :: "int \<Rightarrow> int \<times> int \<Rightarrow> ((int \<times> int) \<times> TileType option) list" where
  "clear_spawn map_size p = (case p of (x, y) \<Rightarrow>
     [((x, y), Some PLAYER)]
     @ (if x > 1 then [((x - 1, y), Some EMPTY)] else [])
     @ (if x < map_size - 2 then [((x + 1, y), Some EMPTY)] else [])
     @ (if y > 1 then [((x, y - 1), Some EMPTY)] else [])
     @ (if y < map_size - 2 then [((x, y + 1), Some EMPTY)] else []))"

definition random_tile :: "int \<Rightarrow> int \<Rightarrow> int \<Rightarrow> nat \<Rightarrow> TileType" where
  "random_tile inner_size i j rng =
     (if rng < EMPTY_CHANCE then EMPTY
      else if rng < EMPTY_CHANCE + WALL_CHANCE \<and> i > 1 \<and> i < inner_size - 1 \<and> j > 1 \<and> j < inner_size - 1 then WALL
      else BREAKABLE)"

definition fill_tile :: "int \<Rightarrow> int \<Rightarrow> int \<Rightarrow> TileType option \<Rightarrow> rng \<Rightarrow> TileType \<times> rng" where
  "fill_tile inner_size i j t r =
     (case t of
        Some v \<Rightarrow> (v, r)
      | None \<Rightarrow> (case rand r of (n, r') \<Rightarrow> (random_tile inner_size i j (n mod 100), r')))"

fun fill_row :: "int \<Rightarrow> int \<Rightarrow> int \<Rightarrow> TileType option list \<Rightarrow> rng \<Rightarrow> TileType list \<times> rng" where
  "fill_row inner_size i j [] r = ([], r)"
| "fill_row inner_size i j (t # ts) r =
     (case fill_tile inner_size i j t r of (v, r1) \<Rightarrow>
      (case fill_row inner_size i (j + 1) ts r1 of (vs, r2) \<Rightarrow> (v # vs, r2)))"

fun fill_rows :: "int \<Rightarrow> int \<Rightarrow> draft \<Rightarrow> rng \<Rightarrow> grid \<times> rng" where
  "fill_rows inner_size i [] r = ([], r)"
| "fill_rows inner_size i (row # rows) r =
     (case fill_row inner_size i 0 row r of (v, r1) \<Rightarrow>
      (case fill_rows inner_size (i + 1) rows r1 of (vs, r2) \<Rightarrow> (v # vs, r2)))"

text \<open>The random numbers are those after \<open>srand(time(NULL))\<close>. The result is the map, its size being the length of the map.\<close>

definition map_generate :: "int \<Rightarrow> rng \<Rightarrow> (grid \<times> rng) option" where
  "map_generate num_players r = do {
     let map_size = calc_map_size num_players + 2;
     let inner_size = map_size - 2;
     g1 \<leftarrow> map_borders map_size (replicate (nat map_size) (replicate (nat map_size) None));
     g2 \<leftarrow> puts (concat (map (clear_spawn map_size) (calc_player_spawns num_players inner_size))) g1;
     Some (fill_rows inner_size 0 g2 r) }"

section \<open>Properties of the accesses\<close>

definition square :: "int \<Rightarrow> 'a list list \<Rightarrow> bool" where
  "square n g \<longleftrightarrow> length g = nat n \<and> (\<forall>row \<in> set g. length row = nat n)"

definition on_map :: "int \<Rightarrow> int \<times> int \<Rightarrow> bool" where
  "on_map n p \<longleftrightarrow> 0 \<le> fst p \<and> fst p < n \<and> 0 \<le> snd p \<and> snd p < n"

lemma square_in_grid: "square n g \<Longrightarrow> in_grid g x y \<longleftrightarrow> on_map n (x, y)"
  by (auto simp: square_def in_grid_def on_map_def)

lemma grid_get_square: "square n g \<Longrightarrow> on_map n (x, y) \<Longrightarrow> \<exists>t. grid_get g x y = Some t"
  by (simp add: grid_get_def square_in_grid)

lemma grid_get_SomeD: "square n g \<Longrightarrow> grid_get g x y = Some t \<Longrightarrow> on_map n (x, y)"
  by (simp add: grid_get_def square_in_grid split: if_splits)

lemma grid_put_square:
  assumes "square n g" and "on_map n (x, y)"
  obtains g' where "grid_put g x y v = Some g'" and "square n g'"
    and "\<And>a b. grid_get g' a b = (if (a, b) = (x, y) then Some v else grid_get g a b)"
proof
  let ?g = "g[nat x := (g ! nat x)[nat y := v]]"
  have i: "in_grid g x y" using assms square_in_grid by blast
  then show "grid_put g x y v = Some ?g" by (simp add: grid_put_def)
  show sq: "square n ?g" using assms i by (auto simp: square_def in_grid_def dest!: set_update_subset_insert [THEN subsetD])
  show "grid_get ?g a b = (if (a, b) = (x, y) then Some v else grid_get g a b)" for a b
    using i by (auto simp: grid_get_def in_grid_def nth_list_update nat_eq_iff split: if_splits)
qed

lemma puts_append: "puts (us @ ws) g = (case puts us g of None \<Rightarrow> None | Some g' \<Rightarrow> puts ws g')"
  by (induction us g rule: puts.induct) (simp_all split: option.splits)

text \<open>Assignments that agree on every place they write to can be read off as one function.\<close>

lemma puts_consistent:
  assumes "square n g" and "\<And>p v. (p, v) \<in> set ws \<Longrightarrow> v = f p \<and> on_map n p"
  obtains g' where "puts ws g = Some g'" and "square n g'"
    and "\<And>a b. grid_get g' a b = (if (a, b) \<in> fst ` set ws then Some (f (a, b)) else grid_get g a b)"
  using assms
proof (induction ws arbitrary: g thesis)
  case (Cons w ws)
  obtain x y v where w: "w = ((x, y), v)" by (metis prod.exhaust)
  have xy: "v = f (x, y)" "on_map n (x, y)" using Cons.prems(3) [of "(x, y)" v] w by auto
  obtain g1 where g1: "grid_put g x y v = Some g1" "square n g1"
    "\<And>a b. grid_get g1 a b = (if (a, b) = (x, y) then Some v else grid_get g a b)"
    using grid_put_square [OF Cons.prems(2) xy(2)] by metis
  obtain g' where g': "puts ws g1 = Some g'" "square n g'"
    "\<And>a b. grid_get g' a b = (if (a, b) \<in> fst ` set ws then Some (f (a, b)) else grid_get g1 a b)"
    using Cons.IH [OF _ g1(2)] Cons.prems(3) by (metis list.set_intros(2))
  show thesis
  proof (rule Cons.prems(1))
    show "puts (w # ws) g = Some g'" by (simp add: w g1(1) g'(1))
    show "square n g'" by (rule g'(2))
    show "grid_get g' a b = (if (a, b) \<in> fst ` set (w # ws) then Some (f (a, b)) else grid_get g a b)" for a b
      unfolding g'(3) g1(3) using xy(1) w by auto
  qed
qed simp

section \<open>Filling the map\<close>

definition filled :: "int \<Rightarrow> int \<Rightarrow> int \<Rightarrow> TileType option \<Rightarrow> TileType \<Rightarrow> bool" where
  "filled inner_size i j d t \<longleftrightarrow> (case d of Some v \<Rightarrow> t = v | None \<Rightarrow> \<exists>k. t = random_tile inner_size i j k)"

lemma fill_tile_filled: "filled inner_size i j d (fst (fill_tile inner_size i j d r))"
  by (auto simp: filled_def fill_tile_def rand_def split: option.splits)

lemma fill_row_filled:
  "length (fst (fill_row inner_size i j ds r)) = length ds \<and>
   (\<forall>k < length ds. filled inner_size i (j + int k) (ds ! k) (fst (fill_row inner_size i j ds r) ! k))"
proof (induction ds arbitrary: j r)
  case (Cons d ds)
  obtain v r1 where v: "fill_tile inner_size i j d r = (v, r1)" by fastforce
  have "filled inner_size i j d v" using fill_tile_filled [of inner_size i j d r] by (simp add: v)
  then show ?case using Cons.IH [of "j + 1" r1] by (auto simp: v nth_Cons add.assoc split: prod.splits nat.splits)
qed simp

lemma fill_rows_filled:
  "length (fst (fill_rows inner_size i g r)) = length g \<and>
   (\<forall>k < length g. length (fst (fill_rows inner_size i g r) ! k) = length (g ! k) \<and>
      (\<forall>l < length (g ! k). filled inner_size (i + int k) (int l) (g ! k ! l) (fst (fill_rows inner_size i g r) ! k ! l)))"
proof (induction g arbitrary: i r)
  case (Cons ds g)
  obtain v r1 where v: "fill_row inner_size i 0 ds r = (v, r1)" by fastforce
  have "length v = length ds \<and> (\<forall>k < length ds. filled inner_size i (int k) (ds ! k) (v ! k))"
    using fill_row_filled [of inner_size i 0 ds r] by (simp add: v)
  then show ?case using Cons.IH [of "i + 1" r1] by (auto simp: v nth_Cons add.assoc split: prod.splits nat.splits)
qed simp

lemma fill_rows_square:
  assumes "square n g"
  obtains g' r' where "fill_rows inner_size 0 g r = (g', r')" and "square n g'"
    and "\<And>x y d. grid_get g x y = Some d \<Longrightarrow> \<exists>t. grid_get g' x y = Some t \<and> filled inner_size x y d t"
proof -
  obtain g' r' where e: "fill_rows inner_size 0 g r = (g', r')" by fastforce
  have f: "length g' = length g" "\<And>k. k < length g \<Longrightarrow> length (g' ! k) = length (g ! k)"
    "\<And>k l. k < length g \<Longrightarrow> l < length (g ! k) \<Longrightarrow> filled inner_size (int k) (int l) (g ! k ! l) (g' ! k ! l)"
    using fill_rows_filled [of inner_size 0 g r] by (simp_all add: e)
  have "square n g'" using assms f(1,2) by (auto simp: square_def all_set_conv_all_nth)
  moreover have "\<exists>t. grid_get g' x y = Some t \<and> filled inner_size x y d t" if "grid_get g x y = Some d" for x y d
    using that f by (auto simp: grid_get_def in_grid_def split: if_splits) (metis int_nat_eq)
  ultimately show thesis using that e by blast
qed

section \<open>The generated map\<close>

definition inner :: "int \<Rightarrow> int \<times> int \<Rightarrow> bool" where
  "inner n p \<longleftrightarrow> 0 < fst p \<and> fst p < n - 1 \<and> 0 < snd p \<and> snd p < n - 1"

definition apart :: "int \<times> int \<Rightarrow> int \<times> int \<Rightarrow> bool" where
  "apart p q \<longleftrightarrow> 2 < \<bar>fst p - fst q\<bar> + \<bar>snd p - snd q\<bar>"

fun pairwise_apart :: "(int \<times> int) list \<Rightarrow> bool" where
  "pairwise_apart [] \<longleftrightarrow> True"
| "pairwise_apart (p # ps) \<longleftrightarrow> list_all (apart p) ps \<and> pairwise_apart ps"

text \<open>As many places as players, inside the borders and more than two steps apart: checked for every lobby size the server admits.\<close>

definition spawns_ok :: "int \<Rightarrow> bool" where
  "spawns_ok num_players \<longleftrightarrow>
     (let n = calc_map_size num_players + 2; ps = calc_player_spawns num_players (n - 2)
      in 3 \<le> n \<and> length ps = nat num_players \<and> list_all (inner n) ps \<and> pairwise_apart ps)"

lemma spawns_ok_all: "list_all spawns_ok [1..25]"
  by code_simp

lemma pairwise_apartD: "pairwise_apart ps \<Longrightarrow> p \<in> set ps \<Longrightarrow> q \<in> set ps \<Longrightarrow> p \<noteq> q \<Longrightarrow> apart p q"
  by (induction ps) (auto simp: list_all_iff apart_def abs_minus_commute)

lemma pairwise_apart_distinct: "pairwise_apart ps \<Longrightarrow> distinct ps"
  by (induction ps) (auto simp: list_all_iff apart_def)

definition near :: "int \<times> int \<Rightarrow> int \<times> int \<Rightarrow> bool" where
  "near p q \<longleftrightarrow> \<bar>fst p - fst q\<bar> + \<bar>snd p - snd q\<bar> \<le> 1"

definition map_wf :: "int \<Rightarrow> grid \<Rightarrow> bool" where
  "map_wf n g \<longleftrightarrow> 3 \<le> n \<and> square n g \<and> (\<forall>x y. on_map n (x, y) \<and> \<not> inner n (x, y) \<longrightarrow> grid_get g x y = Some WALL)"

lemma map_wf_square [dest]: "map_wf n g \<Longrightarrow> square n g"
  by (simp add: map_wf_def)

text \<open>The condition on the border by enumeration, for concrete maps.\<close>

lemma map_wf_check:
  "map_wf n g \<longleftrightarrow> 3 \<le> n \<and> square n g \<and>
     list_all (\<lambda>x. list_all (\<lambda>y. inner n (x, y) \<or> grid_get g x y = Some WALL) [0..n - 1]) [0..n - 1]"
  unfolding map_wf_def list_all_iff on_map_def set_upto fst_conv snd_conv by (meson atLeastAtMost_iff zle_diff1_eq)

lemma inner_on_map: "inner n p \<Longrightarrow> on_map n p"
  by (simp add: inner_def on_map_def)

text \<open>A tile that is read and is not a wall lies inside the borders.\<close>

lemma free_tile_inner:
  assumes "map_wf n g" and "grid_get g x y = Some t" and "t \<noteq> WALL"
  shows "inner n (x, y)"
proof (rule ccontr)
  assume "\<not> inner n (x, y)"
  moreover have "on_map n (x, y)" using grid_get_SomeD [OF map_wf_square [OF assms(1)] assms(2)] .
  ultimately have "grid_get g x y = Some WALL" using assms(1) by (simp add: map_wf_def)
  then show False using assms(2,3) by simp
qed

lemma map_borders_square:
  assumes "3 \<le> n" and "square n g"
  obtains g' where "map_borders n g = Some g'" and "square n g'"
    and "\<And>x y. grid_get g' x y = (if on_map n (x, y) \<and> \<not> inner n (x, y) then Some (Some WALL) else grid_get g x y)"
proof -
  define ws where "ws = concat (map (\<lambda>i. [((0, i), Some WALL), ((n - 1, i), Some WALL), ((i, 0), Some WALL), ((i, n - 1), Some WALL)]) [0..n - 1])"
  have f: "fst ` set ws = {p. on_map n p \<and> \<not> inner n p}"
    using assms(1) by (force simp: ws_def on_map_def inner_def image_iff)
  have c: "v = Some WALL \<and> on_map n p" if "(p, v) \<in> set ws" for p v
    using that assms(1) by (auto simp: ws_def on_map_def)
  obtain g' where "puts ws g = Some g'" "square n g'"
    "\<And>a b. grid_get g' a b = (if (a, b) \<in> fst ` set ws then Some (Some WALL) else grid_get g a b)"
    using puts_consistent [OF assms(2), of ws "\<lambda>_. Some WALL"] c by metis
  then show thesis using that unfolding f by (simp add: map_borders_def ws_def)
qed

lemma clear_spawn_writes:
  assumes "inner n p" and "(q, v) \<in> set (clear_spawn n p)"
  shows "inner n q" and "near p q" and "v = (if q = p then Some PLAYER else Some EMPTY)"
  using assms by (auto simp: clear_spawn_def inner_def near_def split: prod.splits if_splits)

lemma clear_spawn_covers:
  assumes "inner n p" and "inner n q" and "near p q"
  shows "q \<in> fst ` set (clear_spawn n p)"
proof -
  obtain x y a b where p: "p = (x, y)" "q = (a, b)" by fastforce
  have "q = (x, y) \<or> q = (x - 1, y) \<or> q = (x + 1, y) \<or> q = (x, y - 1) \<or> q = (x, y + 1)"
    using assms(3) by (auto simp: p near_def)
  then show ?thesis using assms(1,2) by (auto simp: p clear_spawn_def inner_def image_iff)
qed

lemma clear_spawns_square:
  assumes "square n g" and "list_all (inner n) ps" and "pairwise_apart ps"
  obtains g' where "puts (concat (map (clear_spawn n) ps)) g = Some g'" and "square n g'"
    and "\<And>x y. grid_get g' x y =
           (if \<exists>p \<in> set ps. inner n (x, y) \<and> near p (x, y) then Some (Some (if (x, y) \<in> set ps then PLAYER else EMPTY)) else grid_get g x y)"
proof -
  define ws where "ws = concat (map (clear_spawn n) ps)"
  define f where "f = (\<lambda>q. Some (if q \<in> set ps then PLAYER else EMPTY))"
  have i: "\<And>p. p \<in> set ps \<Longrightarrow> inner n p" using assms(2) by (simp add: list_all_iff)
  have c: "v = f q \<and> on_map n q" if qv: "(q, v) \<in> set ws" for q v
  proof -
    obtain p where p: "p \<in> set ps" "(q, v) \<in> set (clear_spawn n p)" using qv by (auto simp: ws_def)
    have w: "inner n q" "near p q" "v = (if q = p then Some PLAYER else Some EMPTY)" using clear_spawn_writes [OF i [OF p(1)] p(2)] .
    have "q \<in> set ps \<longleftrightarrow> q = p" using pairwise_apartD [OF assms(3) p(1), of q] w(2) p(1) by (auto simp: apart_def near_def)
    then show ?thesis using w inner_on_map by (simp add: f_def)
  qed
  have s: "fst ` set ws = {q. \<exists>p \<in> set ps. inner n q \<and> near p q}"
  proof (intro set_eqI iffI)
    fix q assume "q \<in> fst ` set ws"
    then obtain p v where "p \<in> set ps" "(q, v) \<in> set (clear_spawn n p)" by (auto simp: ws_def)
    then show "q \<in> {q. \<exists>p \<in> set ps. inner n q \<and> near p q}" using clear_spawn_writes i by blast
  next
    fix q assume "q \<in> {q. \<exists>p \<in> set ps. inner n q \<and> near p q}"
    then obtain p where "p \<in> set ps" "q \<in> fst ` set (clear_spawn n p)" using clear_spawn_covers i by blast
    then show "q \<in> fst ` set ws" by (force simp: ws_def)
  qed
  obtain g' where "puts ws g = Some g'" "square n g'"
    "\<And>a b. grid_get g' a b = (if (a, b) \<in> fst ` set ws then Some (f (a, b)) else grid_get g a b)"
    using puts_consistent [OF assms(1), of ws f] c by metis
  then show thesis by (intro that [of g']) (simp_all only: s [unfolded ws_def] ws_def f_def mem_Collect_eq)
qed

lemma map_generate_facts:
  assumes "1 \<le> num_players" and "num_players \<le> 25"
  defines "n \<equiv> calc_map_size num_players + 2"
  defines "ps \<equiv> calc_player_spawns num_players (n - 2)"
  shows "\<exists>g r'. map_generate num_players r = Some (g, r') \<and> map_wf n g
     \<and> {p. grid_get g (fst p) (snd p) = Some PLAYER} = set ps \<and> distinct ps \<and> length ps = nat num_players
     \<and> (\<forall>p \<in> set ps. \<forall>q. inner n q \<and> near p q \<and> q \<noteq> p \<longrightarrow> grid_get g (fst q) (snd q) = Some EMPTY)
     \<and> (\<forall>x y. inner n (x, y) \<and> (x = 1 \<or> y = 1) \<longrightarrow> grid_get g x y \<noteq> Some WALL)"
proof -
  have "num_players \<in> set [1..25]" using assms by simp
  then have "spawns_ok num_players" using spawns_ok_all by (simp only: list_all_iff)
  then have ok: "3 \<le> n" "length ps = nat num_players" "list_all (inner n) ps" "pairwise_apart ps"
    by (simp_all add: spawns_ok_def Let_def n_def ps_def)
  let ?g0 = "replicate (nat n) (replicate (nat n) None) :: draft"
  have sq0: "square n ?g0" and g0: "\<And>x y. grid_get ?g0 x y = (if on_map n (x, y) then Some None else None)"
    by (auto simp: square_def grid_get_def in_grid_def on_map_def)
  obtain g1 where g1: "map_borders n ?g0 = Some g1" "square n g1"
    "\<And>x y. grid_get g1 x y = (if on_map n (x, y) \<and> \<not> inner n (x, y) then Some (Some WALL) else grid_get ?g0 x y)"
    using map_borders_square [OF ok(1) sq0] by metis
  obtain g2 where g2: "puts (concat (map (clear_spawn n) ps)) g1 = Some g2" "square n g2"
    "\<And>x y. grid_get g2 x y =
       (if \<exists>p \<in> set ps. inner n (x, y) \<and> near p (x, y) then Some (Some (if (x, y) \<in> set ps then PLAYER else EMPTY)) else grid_get g1 x y)"
    using clear_spawns_square [OF g1(2) ok(3,4)] by metis
  obtain g r' where g: "fill_rows (n - 2) 0 g2 r = (g, r')" "square n g"
    "\<And>x y d. grid_get g2 x y = Some d \<Longrightarrow> \<exists>t. grid_get g x y = Some t \<and> filled (n - 2) x y d t"
    using fill_rows_square [OF g2(2)] by metis
  have run: "map_generate num_players r = Some (g, r')"
    using g1(1) g2(1) g(1) by (simp add: map_generate_def Let_def n_def [symmetric] ps_def)
  have ins: "\<And>p. p \<in> set ps \<Longrightarrow> inner n p" using ok(3) by (simp add: list_all_iff)
  have refl: "\<And>p. near p p" by (simp add: near_def)
  have border: "grid_get g x y = Some WALL" if "on_map n (x, y)" "\<not> inner n (x, y)" for x y
    using g(3) [of x y "Some WALL"] that by (simp add: g2(3) g1(3) filled_def)
  have spawn: "grid_get g x y = Some PLAYER" if "(x, y) \<in> set ps" for x y
  proof -
    have "grid_get g2 x y = Some (Some PLAYER)" using that ins [OF that] refl [of "(x, y)"] unfolding g2(3) by auto
    from g(3) [OF this] show ?thesis by (auto simp: filled_def)
  qed
  have free: "grid_get g x y = Some EMPTY" if "p \<in> set ps" "inner n (x, y)" "near p (x, y)" "(x, y) \<notin> set ps" for p x y
  proof -
    have "grid_get g2 x y = Some (Some EMPTY)" using that unfolding g2(3) by auto
    from g(3) [OF this] show ?thesis by (auto simp: filled_def)
  qed
  have rest: "\<exists>k. grid_get g x y = Some (random_tile (n - 2) x y k)" if "inner n (x, y)" "\<not> (\<exists>p \<in> set ps. near p (x, y))" for x y
  proof -
    have "grid_get g2 x y = Some None" using that inner_on_map [of n "(x, y)"] unfolding g2(3) g1(3) g0 by auto
    from g(3) [OF this] show ?thesis by (auto simp: filled_def)
  qed
  have only: "(x, y) \<in> set ps" if t: "grid_get g x y = Some PLAYER" for x y
  proof (rule ccontr)
    assume a: "(x, y) \<notin> set ps"
    have on: "on_map n (x, y)" using grid_get_SomeD [OF g(2) t] .
    show False
      using border [OF on] free [of _ x y] rest [of x y] a t
      by (cases "inner n (x, y)"; cases "\<exists>p \<in> set ps. near p (x, y)") (auto simp: random_tile_def split: if_splits)
  qed
  have other: "q \<notin> set ps" if "p \<in> set ps" "near p q" "q \<noteq> p" for p q
    using pairwise_apartD [OF ok(4) that(1), of q] that by (auto simp: apart_def near_def)
  have edge: "grid_get g x y \<noteq> Some WALL" if i: "inner n (x, y)" and e: "x = 1 \<or> y = 1" for x y
    using free [of _ x y] rest [of x y] spawn [of x y] i e
    by (cases "\<exists>p \<in> set ps. near p (x, y)"; cases "(x, y) \<in> set ps") (auto simp: random_tile_def split: if_splits)
  have "{p. grid_get g (fst p) (snd p) = Some PLAYER} = set ps" using spawn only by auto
  moreover have "map_wf n g" using ok(1) g(2) border by (simp add: map_wf_def)
  moreover have "grid_get g (fst q) (snd q) = Some EMPTY" if "p \<in> set ps" "inner n q" "near p q" "q \<noteq> p" for p q
    using free [of p "fst q" "snd q"] other [of p q] that by simp
  ultimately show ?thesis using run edge pairwise_apart_distinct [OF ok(4)] ok(2) by blast
qed

text \<open>
  Lemma (map_generate_sound): For every lobby of one to twenty-five players and every sequence of random numbers, the generation of the map stays inside
  its arrays and yields a square map that is walled in, with exactly one starting place per player; every tile beside a starting place
  and inside the border is free, so that no player starts enclosed, and no wall stands in the row or column next to the border at the top or left.
\<close>

theorem map_generate_sound:
  assumes "1 \<le> num_players" and "num_players \<le> 25"
  defines "n \<equiv> calc_map_size num_players + 2"
  defines "ps \<equiv> calc_player_spawns num_players (n - 2)"
  shows "\<exists>g r'. map_generate num_players r = Some (g, r') \<and> map_wf n g
     \<and> {p. grid_get g (fst p) (snd p) = Some PLAYER} = set ps \<and> distinct ps \<and> length ps = nat num_players
     \<and> (\<forall>p \<in> set ps. \<forall>q. inner n q \<and> near p q \<and> q \<noteq> p \<longrightarrow> grid_get g (fst q) (snd q) = Some EMPTY)
     \<and> (\<forall>x y. inner n (x, y) \<and> (x = 1 \<or> y = 1) \<longrightarrow> grid_get g x y \<noteq> Some WALL)"
  unfolding n_def ps_def by (rule map_generate_facts [OF assms(1,2)])

theorem map_generate_sound_witness:
  "\<exists>g r'. map_generate 3 (sconst 7) = Some (g, r') \<and> map_wf (calc_map_size 3 + 2) g"
  using map_generate_sound [of 3 "sconst 7"] by auto

end
