(* ===== verification/Bomb_Control.thy ===== *)
theory Bomb_Control
  imports Bomb_Map Queue
begin

text \<open>
  Bombs, explosions, powerups and inventories of the bomb game: \<open>libbombbrain/bomb_control.c\<close>, \<open>powerup_control.c\<close> and \<open>inventory.c\<close>.

  The global variables of these files and of \<open>map.c\<close> are the record \<open>Arena\<close>: the map and its size, the map of the powerups to spawn
  (\<open>None\<close> for the null pointer), the two queues and the random numbers to come. The events that \<open>trigger_explosion\<close> fires are appended to
  \<open>ar_events\<close>; the server registers no listener for them. The positions of an explosion are stored in an array of \<open>4 * spread\<close> entries,
  whose size is kept as \<open>xi_capacity\<close>. Every access outside an array, or through a null pointer, is \<open>None\<close>.
\<close>

type_synonym Vector2 = "f32 \<times> f32"

section \<open>State\<close>

record InventoryStock =
  st_remaining_bombs :: int
  st_num_bombs :: int
  st_num_fires :: int
  st_bomb_replenish_timer :: f32

record BombInfo =
  bi_position :: Vector2
  bi_spread :: int
  bi_timer :: f32

record ExplosionInfo =
  xi_center :: Vector2
  xi_spread_amt :: "int list"
  xi_capacity :: int
  xi_positions :: "Vector2 list"
  xi_timer :: f32

record Arena =
  ar_size :: int
  ar_map :: grid
  ar_pending :: "grid option"
  ar_bombs :: "BombInfo queue"
  ar_explodes :: "ExplosionInfo queue"
  ar_events :: "(int \<times> int) list"
  ar_rng :: rng

definition BOMB_TIMER :: f32 where "BOMB_TIMER = 1"
definition EXPLODE_LIFETIME :: f32 where "EXPLODE_LIFETIME = f_lit (5 / 10)"
definition BOMB_REPLENISH_TIME :: f32 where "BOMB_REPLENISH_TIME = 1"
definition POWERUP_CHANCE :: nat where "POWERUP_CHANCE = 50"

definition write_tile :: "int \<Rightarrow> int \<Rightarrow> TileType \<Rightarrow> Arena \<Rightarrow> Arena option" where
  "write_tile x y t a = map_option (\<lambda>m. a\<lparr>ar_map := m\<rparr>) (grid_put (ar_map a) x y t)"

section \<open>Inventory\<close>

definition consume_bomb :: "InventoryStock \<Rightarrow> InventoryStock" where
  "consume_bomb stock = stock\<lparr>st_remaining_bombs := st_remaining_bombs stock - 1, st_bomb_replenish_timer := BOMB_REPLENISH_TIME\<rparr>"

definition inventory_update :: "InventoryStock \<Rightarrow> f32 \<Rightarrow> InventoryStock" where
  "inventory_update stock delta_time =
     (if st_remaining_bombs stock \<ge> st_num_bombs stock then stock
      else
        let stock' = stock\<lparr>st_bomb_replenish_timer := f_sub (st_bomb_replenish_timer stock) delta_time\<rparr>
        in if st_bomb_replenish_timer stock' > 0 then stock'
           else stock'\<lparr>st_remaining_bombs := st_remaining_bombs stock' + 1, st_bomb_replenish_timer := BOMB_REPLENISH_TIME\<rparr>)"

section \<open>Powerups\<close>

definition powerup_init :: "Arena \<Rightarrow> Arena" where
  "powerup_init a = a\<lparr>ar_pending := Some (replicate (nat (ar_size a)) (replicate (nat (ar_size a)) EMPTY))\<rparr>"

definition randomise_powerup :: "int \<Rightarrow> int \<Rightarrow> Arena \<Rightarrow> Arena option" where
  "randomise_powerup x y a =
     (case rand (ar_rng a) of (n, r1) \<Rightarrow>
        if n mod 100 > POWERUP_CHANCE then Some (a\<lparr>ar_rng := r1\<rparr>)
        else (case rand r1 of (k, r2) \<Rightarrow>
          (case ar_pending a of
             None \<Rightarrow> None
           | Some p \<Rightarrow> map_option (\<lambda>p'. a\<lparr>ar_rng := r2, ar_pending := Some p'\<rparr>)
                         (grid_put p x y (if k mod 2 = 0 then POWERUP_FIRE else POWERUP_BOMB)))))"

fun spawn_pending :: "Vector2 list \<Rightarrow> Arena \<Rightarrow> Arena option" where
  "spawn_pending [] a = Some a"
| "spawn_pending (v # vs) a =
     (let x = f_to_int (fst v); y = f_to_int (snd v)
      in case ar_pending a of
           None \<Rightarrow> None
         | Some p \<Rightarrow> do {
             t \<leftarrow> grid_get p x y;
             if t = EMPTY then spawn_pending vs a
             else do {
               a1 \<leftarrow> write_tile x y t a;
               p' \<leftarrow> grid_put p x y EMPTY;
               spawn_pending vs (a1\<lparr>ar_pending := Some p'\<rparr>) } })"

definition spawn_pending_powerups :: "ExplosionInfo \<Rightarrow> Arena \<Rightarrow> Arena option" where
  "spawn_pending_powerups explosion a =
     (case ar_pending a of None \<Rightarrow> Some a | Some _ \<Rightarrow> spawn_pending (xi_positions explosion) a)"

section \<open>Explosions\<close>

definition handle_spread :: "int \<Rightarrow> int \<Rightarrow> ExplosionInfo \<Rightarrow> Arena \<Rightarrow> (ExplosionInfo \<times> Arena) option" where
  "handle_spread x y explosion a = do {
     tile \<leftarrow> grid_get (ar_map a) x y;
     a1 \<leftarrow> (if tile = BREAKABLE then randomise_powerup x y a else Some a);
     a2 \<leftarrow> write_tile x y EXPLOSION a1;
     if int (length (xi_positions explosion)) < xi_capacity explosion
     then Some (explosion\<lparr>xi_positions := xi_positions explosion @ [(f_of_int x, f_of_int y)]\<rparr>, a2)
     else None }"

datatype direction = Dir_up | Dir_down | Dir_left | Dir_right

fun dir_index :: "direction \<Rightarrow> nat" where
  "dir_index Dir_up = 0" | "dir_index Dir_down = 1" | "dir_index Dir_left = 2" | "dir_index Dir_right = 3"

fun dir_tile :: "direction \<Rightarrow> int \<Rightarrow> int \<Rightarrow> int \<Rightarrow> int \<times> int" where
  "dir_tile Dir_up x y i = (x, y - i)"
| "dir_tile Dir_down x y i = (x, y + i)"
| "dir_tile Dir_left x y i = (x - i, y)"
| "dir_tile Dir_right x y i = (x + i, y)"

fun dir_ends :: "direction \<Rightarrow> int \<Rightarrow> int \<times> int \<Rightarrow> bool" where
  "dir_ends Dir_up n p = (snd p \<le> 0)"
| "dir_ends Dir_down n p = (snd p \<ge> n)"
| "dir_ends Dir_left n p = (fst p \<le> 0)"
| "dir_ends Dir_right n p = (fst p \<ge> n)"

text \<open>One of the four loops of \<open>trigger_explosion\<close>, from step \<open>i\<close> on.\<close>

function spread_loop :: "direction \<Rightarrow> int \<Rightarrow> int \<Rightarrow> int \<Rightarrow> int \<Rightarrow> ExplosionInfo \<Rightarrow> Arena \<Rightarrow> (ExplosionInfo \<times> Arena) option" where
  "spread_loop d x y spread i explosion a =
     (if \<not> i \<le> spread then Some (explosion, a)
      else
        let p = dir_tile d x y i
        in if dir_ends d (ar_size a) p then Some (explosion, a)
           else (case grid_get (ar_map a) (fst p) (snd p) of
                   None \<Rightarrow> None
                 | Some t \<Rightarrow>
                     if t = WALL then Some (explosion, a)
                     else (case handle_spread (fst p) (snd p) (explosion\<lparr>xi_spread_amt := (xi_spread_amt explosion)[dir_index d := i]\<rparr>) a of
                             None \<Rightarrow> None
                           | Some (explosion', a') \<Rightarrow> spread_loop d x y spread (i + 1) explosion' a')))"
  by pat_completeness auto
termination by (relation "measure (\<lambda>(d, x, y, spread, i, e, a). nat (spread + 1 - i))") auto

declare spread_loop.simps [simp del]

definition trigger_explosion :: "BombInfo \<Rightarrow> Arena \<Rightarrow> Arena option" where
  "trigger_explosion bomb a =
     (let x = f_to_int (fst (bi_position bomb)); y = f_to_int (snd (bi_position bomb));
          a0 = a\<lparr>ar_events := ar_events a @ [(x, y)]\<rparr>;
          e0 = \<lparr>xi_center = bi_position bomb, xi_spread_amt = [0, 0, 0, 0], xi_capacity = 4 * bi_spread bomb, xi_positions = [],
                xi_timer = EXPLODE_LIFETIME\<rparr>
      in do {
        (e1, a1) \<leftarrow> spread_loop Dir_up x y (bi_spread bomb) 1 e0 a0;
        (e2, a2) \<leftarrow> spread_loop Dir_down x y (bi_spread bomb) 1 e1 a1;
        (e3, a3) \<leftarrow> spread_loop Dir_left x y (bi_spread bomb) 1 e2 a2;
        (e4, a4) \<leftarrow> spread_loop Dir_right x y (bi_spread bomb) 1 e3 a3;
        Some (a4\<lparr>ar_explodes := snd (queue_enqueue (ar_explodes a4) e4)\<rparr>) })"

text \<open>An explosion leaves the queue of bombs alone, so that the loop of \<open>tick_bombs\<close> ends.\<close>

lemma bind_SomeE: "Option.bind m f = Some y \<Longrightarrow> (\<And>x. m = Some x \<Longrightarrow> f x = Some y \<Longrightarrow> P) \<Longrightarrow> P"
  by (cases m) simp_all

lemma write_tile_fields:
  "write_tile x y t a = Some a' \<Longrightarrow> ar_bombs a' = ar_bombs a \<and> ar_explodes a' = ar_explodes a \<and> ar_size a' = ar_size a
     \<and> ar_pending a' = ar_pending a \<and> ar_events a' = ar_events a"
  by (auto simp: write_tile_def)

lemma randomise_powerup_fields:
  "randomise_powerup x y a = Some a' \<Longrightarrow> ar_bombs a' = ar_bombs a \<and> ar_explodes a' = ar_explodes a \<and> ar_size a' = ar_size a
     \<and> ar_map a' = ar_map a \<and> ar_events a' = ar_events a"
  by (auto simp: randomise_powerup_def rand_def split: if_splits option.splits)

lemma handle_spread_fields:
  "handle_spread x y e a = Some (e', a') \<Longrightarrow> ar_bombs a' = ar_bombs a \<and> ar_explodes a' = ar_explodes a \<and> ar_size a' = ar_size a
     \<and> ar_events a' = ar_events a"
  by (auto simp: handle_spread_def elim!: bind_SomeE dest!: write_tile_fields randomise_powerup_fields split: if_splits)

lemma spread_loop_fields:
  "spread_loop d x y spread i e a = Some (e', a') \<Longrightarrow> ar_bombs a' = ar_bombs a \<and> ar_explodes a' = ar_explodes a \<and> ar_size a' = ar_size a
     \<and> ar_events a' = ar_events a"
proof (induction d x y spread i e a rule: spread_loop.induct)
  case (1 d x y spread i e a)
  show ?case
  proof (cases "e' = e \<and> a' = a")
    case False
    then obtain t e1 a1 where s: "i \<le> spread" "\<not> dir_ends d (ar_size a) (dir_tile d x y i)"
        "grid_get (ar_map a) (fst (dir_tile d x y i)) (snd (dir_tile d x y i)) = Some t" "t \<noteq> WALL"
        "handle_spread (fst (dir_tile d x y i)) (snd (dir_tile d x y i)) (e\<lparr>xi_spread_amt := (xi_spread_amt e)[dir_index d := i]\<rparr>) a = Some (e1, a1)"
        "spread_loop d x y spread (i + 1) e1 a1 = Some (e', a')"
      using 1(2) by (subst (asm) spread_loop.simps) (auto simp: Let_def split: if_splits option.splits)
    show ?thesis using 1(1) [OF _ refl s(2,3,4,5) refl s(6)] s(1) handle_spread_fields [OF s(5)] by auto
  qed simp
qed

lemma trigger_explosion_bombs: "trigger_explosion bomb a = Some a' \<Longrightarrow> ar_bombs a' = ar_bombs a"
  by (auto simp: trigger_explosion_def Let_def elim!: bind_SomeE dest!: spread_loop_fields)

section \<open>Bombs\<close>

definition init_bombs :: "Arena \<Rightarrow> Arena" where
  "init_bombs a = a\<lparr>ar_bombs := queue_init (ar_bombs a), ar_explodes := queue_init (ar_explodes a)\<rparr>"

text \<open>
  The removal of the bomb at index \<open>i\<close>, whose timer is up. The pointer \<open>bomb\<close> of the code stays at index \<open>i\<close>: the last bomb of the queue is
  copied over the removed one, and the bomb handed to \<open>trigger_explosion\<close> is what the slot holds after that.
\<close>

definition expire_bomb :: "int \<Rightarrow> Arena \<Rightarrow> Arena option" where
  "expire_bomb i a =
     (let q = ar_bombs a; bomb = q_items q ! nat i
      in case write_tile (f_to_int (fst (bi_position bomb))) (f_to_int (snd (bi_position bomb))) EMPTY a of
           None \<Rightarrow> None
         | Some a1 \<Rightarrow>
             let rear = q_rear q - 1;
                 items = (q_items q)[nat i := q_items q ! nat rear]
             in trigger_explosion (items ! nat i) (a1\<lparr>ar_bombs := q\<lparr>q_items := items, q_rear := rear\<rparr>\<rparr>))"

lemma expire_bomb_queue:
  "expire_bomb i a = Some a' \<Longrightarrow>
   ar_bombs a' = (ar_bombs a)\<lparr>q_items := (q_items (ar_bombs a))[nat i := q_items (ar_bombs a) ! nat (q_rear (ar_bombs a) - 1)],
                               q_rear := q_rear (ar_bombs a) - 1\<rparr>"
  by (auto simp: expire_bomb_def Let_def split: option.splits dest!: trigger_explosion_bombs)

text \<open>The countdown of the bomb at index \<open>i\<close>, and the loop of \<open>tick_bombs\<close> from index \<open>i\<close> on.\<close>

definition count_bomb :: "f32 \<Rightarrow> int \<Rightarrow> Arena \<Rightarrow> Arena" where
  "count_bomb delta_time i a =
     (let q = ar_bombs a; bomb = q_items q ! nat i
      in a\<lparr>ar_bombs := q\<lparr>q_items := (q_items q)[nat i := bomb\<lparr>bi_timer := f_sub (bi_timer bomb) delta_time\<rparr>]\<rparr>\<rparr>)"

lemma count_bomb_rear [simp]:
  "q_rear (ar_bombs (count_bomb delta_time i a)) = q_rear (ar_bombs a)" "q_front (ar_bombs (count_bomb delta_time i a)) = q_front (ar_bombs a)"
  by (simp_all add: count_bomb_def Let_def)

function tick_bombs_loop :: "f32 \<Rightarrow> int \<Rightarrow> Arena \<Rightarrow> Arena option" where
  "tick_bombs_loop delta_time i a =
     (if \<not> i < q_rear (ar_bombs a) then Some a
      else if \<not> (0 \<le> i \<and> nat i < length (q_items (ar_bombs a))) then None
      else
        let a1 = count_bomb delta_time i a
        in if bi_timer (q_items (ar_bombs a1) ! nat i) \<le> 0
           then (case expire_bomb i a1 of None \<Rightarrow> None | Some a2 \<Rightarrow> tick_bombs_loop delta_time i a2)
           else tick_bombs_loop delta_time (i + 1) a1)"
  by pat_completeness auto
termination
  by (relation "measure (\<lambda>(delta_time, i, a). nat (q_rear (ar_bombs a) - i))") (auto dest!: expire_bomb_queue)

declare tick_bombs_loop.simps [simp del]

definition tick_bombs :: "f32 \<Rightarrow> Arena \<Rightarrow> Arena option" where
  "tick_bombs delta_time a =
     (if queue_empty (ar_bombs a) then Some a else tick_bombs_loop delta_time (q_front (ar_bombs a) + 1) a)"

definition place_bomb :: "Vector2 \<Rightarrow> InventoryStock \<Rightarrow> Arena \<Rightarrow> (bool \<times> InventoryStock \<times> Arena) option" where
  "place_bomb pos stock a =
     (let x = f_to_int (fst pos); y = f_to_int (snd pos)
      in case grid_get (ar_map a) x y of
           None \<Rightarrow> None
         | Some tile \<Rightarrow>
             if tile \<noteq> EMPTY \<and> tile \<noteq> PLAYER then Some (False, stock, a)
             else if st_remaining_bombs stock \<le> 0 then Some (False, stock, a)
             else (case write_tile x y BOMB a of
                     None \<Rightarrow> None
                   | Some a1 \<Rightarrow>
                       let new_bomb = \<lparr>bi_position = pos, bi_spread = st_num_fires stock, bi_timer = BOMB_TIMER\<rparr>
                       in Some (True, consume_bomb stock, a1\<lparr>ar_bombs := snd (queue_enqueue (ar_bombs a1) new_bomb)\<rparr>)))"

fun clear_positions :: "Vector2 list \<Rightarrow> Arena \<Rightarrow> Arena option" where
  "clear_positions [] a = Some a"
| "clear_positions (v # vs) a =
     (case write_tile (f_to_int (fst v)) (f_to_int (snd v)) EMPTY a of None \<Rightarrow> None | Some a' \<Rightarrow> clear_positions vs a')"

text \<open>What \<open>tick_explosions\<close> does to the map when an explosion is over.\<close>

definition end_explosion :: "ExplosionInfo \<Rightarrow> Arena \<Rightarrow> Arena option" where
  "end_explosion e a = do {
     a1 \<leftarrow> write_tile (f_to_int (fst (xi_center e))) (f_to_int (snd (xi_center e))) EMPTY a;
     a2 \<leftarrow> clear_positions (xi_positions e) a1;
     spawn_pending_powerups e a2 }"

lemma clear_positions_fields:
  "clear_positions vs a = Some a' \<Longrightarrow> ar_bombs a' = ar_bombs a \<and> ar_explodes a' = ar_explodes a \<and> ar_size a' = ar_size a \<and> ar_pending a' = ar_pending a"
  by (induction vs arbitrary: a) (auto split: option.splits dest!: write_tile_fields)

lemma spawn_pending_fields:
  "spawn_pending vs a = Some a' \<Longrightarrow> ar_bombs a' = ar_bombs a \<and> ar_explodes a' = ar_explodes a \<and> ar_size a' = ar_size a"
proof (induction vs arbitrary: a)
  case (Cons v vs)
  from Cons.prems show ?case
    by (auto simp: Let_def split: option.splits if_splits elim!: bind_SomeE dest!: Cons.IH write_tile_fields)
qed simp

lemma end_explosion_fields:
  "end_explosion e a = Some a' \<Longrightarrow> ar_bombs a' = ar_bombs a \<and> ar_explodes a' = ar_explodes a \<and> ar_size a' = ar_size a"
  by (auto simp: end_explosion_def spawn_pending_powerups_def elim!: bind_SomeE split: option.splits
      dest!: write_tile_fields clear_positions_fields spawn_pending_fields)

definition expire_explosion :: "int \<Rightarrow> Arena \<Rightarrow> Arena option" where
  "expire_explosion i a =
     (let q = ar_explodes a
      in case end_explosion (q_items q ! nat i) a of
           None \<Rightarrow> None
         | Some a1 \<Rightarrow>
             Some (a1\<lparr>ar_explodes := q\<lparr>q_items := (q_items q)[nat i := q_items q ! nat (q_rear q - 1)], q_rear := q_rear q - 1\<rparr>\<rparr>))"

definition count_explosion :: "f32 \<Rightarrow> int \<Rightarrow> Arena \<Rightarrow> Arena" where
  "count_explosion delta_time i a =
     (let q = ar_explodes a; e = q_items q ! nat i
      in a\<lparr>ar_explodes := q\<lparr>q_items := (q_items q)[nat i := e\<lparr>xi_timer := f_sub (xi_timer e) delta_time\<rparr>]\<rparr>\<rparr>)"

lemma count_explosion_rear [simp]:
  "q_rear (ar_explodes (count_explosion delta_time i a)) = q_rear (ar_explodes a)"
  "q_front (ar_explodes (count_explosion delta_time i a)) = q_front (ar_explodes a)"
  by (simp_all add: count_explosion_def Let_def)

lemma expire_explosion_queue:
  "expire_explosion i a = Some a' \<Longrightarrow>
   ar_explodes a' = (ar_explodes a)\<lparr>q_items := (q_items (ar_explodes a))[nat i := q_items (ar_explodes a) ! nat (q_rear (ar_explodes a) - 1)],
                               q_rear := q_rear (ar_explodes a) - 1\<rparr>"
  by (auto simp: expire_explosion_def Let_def split: option.splits)

function tick_explosions_loop :: "f32 \<Rightarrow> int \<Rightarrow> Arena \<Rightarrow> Arena option" where
  "tick_explosions_loop delta_time i a =
     (if \<not> i < q_rear (ar_explodes a) then Some a
      else if \<not> (0 \<le> i \<and> nat i < length (q_items (ar_explodes a))) then None
      else
        let a1 = count_explosion delta_time i a
        in if xi_timer (q_items (ar_explodes a1) ! nat i) \<le> 0
           then (case expire_explosion i a1 of None \<Rightarrow> None | Some a2 \<Rightarrow> tick_explosions_loop delta_time i a2)
           else tick_explosions_loop delta_time (i + 1) a1)"
  by pat_completeness auto
termination
  by (relation "measure (\<lambda>(delta_time, i, a). nat (q_rear (ar_explodes a) - i))") (auto dest!: expire_explosion_queue)

declare tick_explosions_loop.simps [simp del]

definition tick_explosions :: "f32 \<Rightarrow> Arena \<Rightarrow> Arena option" where
  "tick_explosions delta_time a =
     (if queue_empty (ar_explodes a) then Some a else tick_explosions_loop delta_time (q_front (ar_explodes a) + 1) a)"

end
