(* ===== verification/Bomb_Arena.thy ===== *)
theory Bomb_Arena
  imports Bomb_Control
begin

text \<open>
  The invariant of the bomb arena and its preservation by every operation of \<open>Bomb_Control\<close>: the map stays walled in, no operation reads or writes
  outside an array, walls are never removed and no wall or breakable tile ever appears. The contract every operation on the arena keeps is the
  locale \<open>arena_op\<close>.
\<close>

section \<open>The invariant\<close>

definition solid :: "TileType \<Rightarrow> bool" where
  "solid t \<longleftrightarrow> t = WALL \<or> t = BREAKABLE"

definition tile_pos :: "Vector2 \<Rightarrow> int \<times> int" where
  "tile_pos v = (f_to_int (fst v), f_to_int (snd v))"

definition tile_at :: "Arena \<Rightarrow> int \<times> int \<Rightarrow> TileType option" where
  "tile_at a p = grid_get (ar_map a) (fst p) (snd p)"

definition free_at :: "Arena \<Rightarrow> int \<times> int \<Rightarrow> bool" where
  "free_at a p \<longleftrightarrow> (\<exists>t. tile_at a p = Some t \<and> t \<noteq> WALL)"

definition bomb_ok :: "Arena \<Rightarrow> BombInfo \<Rightarrow> bool" where
  "bomb_ok a b \<longleftrightarrow> free_at a (tile_pos (bi_position b)) \<and> 0 \<le> bi_spread b"

definition expl_ok :: "Arena \<Rightarrow> ExplosionInfo \<Rightarrow> bool" where
  "expl_ok a e \<longleftrightarrow> free_at a (tile_pos (xi_center e)) \<and> (\<forall>v \<in> set (xi_positions e). free_at a (tile_pos v))
     \<and> int (length (xi_positions e)) \<le> xi_capacity e \<and> length (xi_spread_amt e) = 4"

definition pending_ok :: "int \<Rightarrow> Arena \<Rightarrow> bool" where
  "pending_ok n a \<longleftrightarrow> (\<exists>p. ar_pending a = Some p \<and> square n p \<and> (\<forall>x y t. grid_get p x y = Some t \<longrightarrow> \<not> solid t))"

definition core_wf :: "int \<Rightarrow> Arena \<Rightarrow> bool" where
  "core_wf n a \<longleftrightarrow> ar_size a = n \<and> n < 2 ^ 24 \<and> map_wf n (ar_map a) \<and> pending_ok n a"

definition queues_ok :: "Arena \<Rightarrow> bool" where
  "queues_ok a \<longleftrightarrow> queue_wf (ar_bombs a) \<and> queue_wf (ar_explodes a)
     \<and> (\<forall>b \<in> set (queue_list (ar_bombs a)). bomb_ok a b) \<and> (\<forall>e \<in> set (queue_list (ar_explodes a)). expl_ok a e)"

definition arena_wf :: "int \<Rightarrow> Arena \<Rightarrow> bool" where
  "arena_wf n a \<longleftrightarrow> core_wf n a \<and> queues_ok a"

text \<open>How the map may change: the same tiles exist, walls stay, and what is solid was there before.\<close>

definition evolves :: "Arena \<Rightarrow> Arena \<Rightarrow> bool" where
  "evolves a a' \<longleftrightarrow> (\<forall>p. (tile_at a' p = None) = (tile_at a p = None) \<and> (tile_at a p = Some WALL \<longrightarrow> tile_at a' p = Some WALL)
     \<and> (\<forall>t. tile_at a' p = Some t \<and> solid t \<longrightarrow> tile_at a p = Some t))"

lemma evolves_refl [simp, intro]: "evolves a a"
  by (simp add: evolves_def)

lemma evolves_trans [trans]: "evolves a b \<Longrightarrow> evolves b c \<Longrightarrow> evolves a c"
  unfolding evolves_def by metis

lemma evolves_same_map: "ar_map a' = ar_map a \<Longrightarrow> evolves a a'"
  by (simp add: evolves_def tile_at_def)

lemma free_at_evolves: "free_at a p \<Longrightarrow> evolves a a' \<Longrightarrow> free_at a' p"
  unfolding free_at_def evolves_def solid_def by (metis option.exhaust option.inject)

lemma free_at_same_map: "ar_map a' = ar_map a \<Longrightarrow> free_at a' p = free_at a p"
  by (simp add: free_at_def tile_at_def)

lemma free_at_inner: "core_wf n a \<Longrightarrow> free_at a p \<Longrightarrow> inner n p"
  unfolding free_at_def core_wf_def tile_at_def using free_tile_inner [of n "ar_map a" "fst p" "snd p"] by auto

lemma tile_pos_of_int: "on_map n (x, y) \<Longrightarrow> n < 2 ^ 24 \<Longrightarrow> tile_pos (f_of_int x, f_of_int y) = (x, y)"
  by (simp add: tile_pos_def f_of_int_def f32_round_int f_to_int_def on_map_def)

lemma queues_ok_evolves:
  assumes "queues_ok a" and "evolves a a'" and "ar_bombs a' = ar_bombs a" and "ar_explodes a' = ar_explodes a"
  shows "queues_ok a'"
  using assms free_at_evolves [OF _ assms(2)] by (auto simp: queues_ok_def bomb_ok_def expl_ok_def)

lemma grid_get_replicate: "grid_get (replicate k (replicate m v)) x y = Some t \<Longrightarrow> t = v"
  by (auto simp: grid_get_def in_grid_def split: if_splits)

lemma powerup_init_pending: "0 \<le> n \<Longrightarrow> ar_size a = n \<Longrightarrow> pending_ok n (powerup_init a)"
  by (auto simp: pending_ok_def powerup_init_def square_def solid_def dest!: grid_get_replicate)

section \<open>Writing one tile\<close>

lemma write_tile_safe:
  assumes "core_wf n a" and "free_at a (x, y)" and "\<not> solid t"
  obtains a' where "write_tile x y t a = Some a'" and "core_wf n a'" and "evolves a a'"
    and "\<And>p. tile_at a' p = (if p = (x, y) then Some t else tile_at a p)"
proof -
  have mw: "map_wf n (ar_map a)" "square n (ar_map a)" using assms(1) by (auto simp: core_wf_def)
  have i: "inner n (x, y)" using free_at_inner [OF assms(1,2)] .
  obtain m where m: "grid_put (ar_map a) x y t = Some m" "square n m"
    "\<And>u v. grid_get m u v = (if (u, v) = (x, y) then Some t else grid_get (ar_map a) u v)"
    using grid_put_square [OF mw(2) inner_on_map [OF i]] by metis
  let ?a = "a\<lparr>ar_map := m\<rparr>"
  have w: "write_tile x y t a = Some ?a" by (simp add: write_tile_def m(1))
  have ta: "tile_at ?a p = (if p = (x, y) then Some t else tile_at a p)" for p by (auto simp: tile_at_def m(3))
  have "map_wf n m" using mw(1) m(2) i by (auto simp: map_wf_def m(3))
  then have c: "core_wf n ?a" using assms(1) by (simp add: core_wf_def pending_ok_def)
  have e: "evolves a ?a"
    unfolding evolves_def
  proof
    fix p
    show "(tile_at ?a p = None) = (tile_at a p = None) \<and> (tile_at a p = Some WALL \<longrightarrow> tile_at ?a p = Some WALL)
        \<and> (\<forall>s. tile_at ?a p = Some s \<and> solid s \<longrightarrow> tile_at a p = Some s)"
      unfolding ta using assms(2,3) by (auto simp: free_at_def)
  qed
  show thesis by (rule that [OF w c e ta])
qed

section \<open>Explosions\<close>

lemma randomise_powerup_safe:
  assumes "core_wf n a" and "on_map n (x, y)"
  obtains a' where "randomise_powerup x y a = Some a'" and "core_wf n a'" and "ar_map a' = ar_map a"
proof -
  obtain p where p: "ar_pending a = Some p" "square n p" "\<And>x y t. grid_get p x y = Some t \<Longrightarrow> \<not> solid t"
    using assms(1) by (auto simp: core_wf_def pending_ok_def)
  define t where "t = (if shd (stl (ar_rng a)) mod 2 = 0 then POWERUP_FIRE else POWERUP_BOMB)"
  obtain p' where p': "grid_put p x y t = Some p'" "square n p'"
    "\<And>u v. grid_get p' u v = (if (u, v) = (x, y) then Some t else grid_get p u v)"
    using grid_put_square [OF p(2) assms(2)] by metis
  have ns: "\<not> solid s" if "grid_get p' u v = Some s" for u v s
    using that p(3) by (auto simp: p'(3) t_def solid_def split: if_splits)
  let ?a = "if shd (ar_rng a) mod 100 > POWERUP_CHANCE then a\<lparr>ar_rng := stl (ar_rng a)\<rparr>
            else a\<lparr>ar_rng := stl (stl (ar_rng a)), ar_pending := Some p'\<rparr>"
  have "randomise_powerup x y a = Some ?a" using p(1) p'(1) by (simp add: randomise_powerup_def rand_def t_def)
  moreover have "core_wf n ?a" using assms(1) p'(2) ns by (auto simp: core_wf_def pending_ok_def)
  ultimately show thesis by (intro that [of ?a]) simp_all
qed

lemma handle_spread_safe:
  assumes "core_wf n a" and "free_at a (x, y)" and "int (length (xi_positions e)) < xi_capacity e"
  obtains a' where "handle_spread x y e a = Some (e\<lparr>xi_positions := xi_positions e @ [(f_of_int x, f_of_int y)]\<rparr>, a')"
    and "core_wf n a'" and "evolves a a'" and "\<And>p. tile_at a' p = (if p = (x, y) then Some EXPLOSION else tile_at a p)"
proof -
  have on: "on_map n (x, y)" using inner_on_map [OF free_at_inner [OF assms(1,2)]] .
  obtain t where t: "grid_get (ar_map a) x y = Some t" using assms(2) by (auto simp: free_at_def tile_at_def)
  obtain a1 where a1: "(if t = BREAKABLE then randomise_powerup x y a else Some a) = Some a1" "core_wf n a1" "ar_map a1 = ar_map a"
    using randomise_powerup_safe [OF assms(1) on] assms(1) by (metis (full_types))
  have f1: "free_at a1 (x, y)" using assms(2) free_at_same_map [OF a1(3)] by simp
  obtain a2 where a2: "write_tile x y EXPLOSION a1 = Some a2" "core_wf n a2" "evolves a1 a2"
    "\<And>p. tile_at a2 p = (if p = (x, y) then Some EXPLOSION else tile_at a1 p)"
    using write_tile_safe [OF a1(2) f1, of EXPLOSION] by (auto simp: solid_def)
  have "evolves a a2" using evolves_trans [OF evolves_same_map [OF a1(3)] a2(3)] .
  moreover have "tile_at a1 p = tile_at a p" for p using a1(3) by (simp add: tile_at_def)
  moreover have "handle_spread x y e a = Some (e\<lparr>xi_positions := xi_positions e @ [(f_of_int x, f_of_int y)]\<rparr>, a2)"
    using t a1(1) a2(1) assms(3) by (simp add: handle_spread_def)
  ultimately show thesis using a2(2,4) that by metis
qed

lemma dir_tile_on_map: "on_map n (x, y) \<Longrightarrow> 1 \<le> i \<Longrightarrow> \<not> dir_ends d n (dir_tile d x y i) \<Longrightarrow> on_map n (dir_tile d x y i)"
  by (cases d) (auto simp: on_map_def)

text \<open>One direction of an explosion: it writes only to tiles that are not walls, and there is room for their positions.\<close>

definition flame_ok :: "Arena \<Rightarrow> ExplosionInfo \<Rightarrow> bool" where
  "flame_ok a e \<longleftrightarrow> (\<forall>v \<in> set (xi_positions e). free_at a (tile_pos v))"

lemma spread_loop_safe:
  assumes "core_wf n a" and "on_map n (x, y)" and "1 \<le> i" and "flame_ok a e" and "0 \<le> spread"
    and "int (length (xi_positions e)) + max 0 (spread + 1 - i) \<le> xi_capacity e"
  obtains e' a' where "spread_loop d x y spread i e a = Some (e', a')" and "core_wf n a'" and "evolves a a'" and "flame_ok a' e'"
    and "xi_center e' = xi_center e" and "xi_capacity e' = xi_capacity e" and "length (xi_spread_amt e') = length (xi_spread_amt e)"
    and "int (length (xi_positions e')) \<le> int (length (xi_positions e)) + max 0 (spread + 1 - i)"
  using assms
proof (induction "nat (spread + 1 - i)" arbitrary: i e a thesis)
  case 0
  then have "\<not> i \<le> spread" by simp
  then have "spread_loop d x y spread i e a = Some (e, a)" by (subst spread_loop.simps) simp
  then show ?case using 0 by simp
next
  case (Suc k)
  let ?p = "dir_tile d x y i"
  let ?e = "e\<lparr>xi_spread_amt := (xi_spread_amt e)[dir_index d := i]\<rparr>"
  have le: "i \<le> spread" using Suc.hyps(2) by simp
  have n: "ar_size a = n" "n < 2 ^ 24" "square n (ar_map a)" using Suc.prems(2) by (auto simp: core_wf_def)
  have stop: ?case if "spread_loop d x y spread i e a = Some (e, a)"
    using that Suc.prems by simp
  show ?case
  proof (cases "dir_ends d n ?p")
    case True
    then have "spread_loop d x y spread i e a = Some (e, a)" using le n(1) by (subst spread_loop.simps) (simp add: Let_def)
    then show ?thesis by (rule stop)
  next
    case inside: False
    have on: "on_map n ?p" using dir_tile_on_map [OF Suc.prems(3,4) inside] .
    obtain t where t: "grid_get (ar_map a) (fst ?p) (snd ?p) = Some t" using grid_get_square [OF n(3), of "fst ?p" "snd ?p"] on by auto
    show ?thesis
    proof (cases "t = WALL")
      case True
      then have "spread_loop d x y spread i e a = Some (e, a)" using le n(1) t inside by (subst spread_loop.simps) (simp add: Let_def)
      then show ?thesis by (rule stop)
    next
      case False
      have fr: "free_at a (fst ?p, snd ?p)" using t False by (simp add: free_at_def tile_at_def)
      have room: "int (length (xi_positions ?e)) < xi_capacity ?e" using Suc.prems(7) le by simp
      let ?e1 = "?e\<lparr>xi_positions := xi_positions ?e @ [(f_of_int (fst ?p), f_of_int (snd ?p))]\<rparr>"
      obtain a1 where a1: "handle_spread (fst ?p) (snd ?p) ?e a = Some (?e1, a1)" "core_wf n a1" "evolves a a1"
        using handle_spread_safe [OF Suc.prems(2) fr room] by blast
      have tp: "tile_pos (f_of_int (fst ?p), f_of_int (snd ?p)) = ?p" using tile_pos_of_int [of n "fst ?p" "snd ?p"] on n(2) by simp
      have fl: "flame_ok a1 ?e1"
        using Suc.prems(5) fr free_at_evolves [OF _ a1(3)] tp by (auto simp: flame_ok_def)
      have k: "k = nat (spread + 1 - (i + 1))" using Suc.hyps(2) by simp
      have cap: "int (length (xi_positions ?e1)) + max 0 (spread + 1 - (i + 1)) \<le> xi_capacity ?e1" using Suc.prems(7) le by simp
      obtain e' a' where r: "spread_loop d x y spread (i + 1) ?e1 a1 = Some (e', a')" "core_wf n a'" "evolves a1 a'" "flame_ok a' e'"
          "xi_center e' = xi_center ?e1" "xi_capacity e' = xi_capacity ?e1" "length (xi_spread_amt e') = length (xi_spread_amt ?e1)"
          "int (length (xi_positions e')) \<le> int (length (xi_positions ?e1)) + max 0 (spread + 1 - (i + 1))"
        by (rule Suc.hyps(1) [OF k _ a1(2) Suc.prems(3) _ fl Suc.prems(6) cap]) (assumption, use Suc.prems(4) in linarith)
      have step: "spread_loop d x y spread i e a = Some (e', a')"
        using le n(1) t inside False a1(1) r(1) by (subst spread_loop.simps) (simp add: Let_def)
      show ?thesis
        by (rule Suc.prems(1) [OF step r(2) evolves_trans [OF a1(3) r(3)] r(4)]) (use r(5-8) le in simp_all)
    qed
  qed
qed

lemma queue_enqueue_set: "queue_wf q \<Longrightarrow> set (queue_list (snd (queue_enqueue q v))) \<subseteq> insert v (set (queue_list q))"
  using queue_enqueue_list [of q v "snd (queue_enqueue q v)"] by (cases "queue_full q") (auto simp: queue_enqueue_def)

lemma arena_wf_same:
  assumes "queues_ok a" and "core_wf n a'" and "evolves a a'" and "ar_bombs a' = ar_bombs a" and "ar_explodes a' = ar_explodes a"
  shows "arena_wf n a'"
  using assms queues_ok_evolves by (simp add: arena_wf_def)

text \<open>After \<open>k\<close> of the four directions.\<close>

definition stage :: "int \<Rightarrow> BombInfo \<Rightarrow> int \<Rightarrow> ExplosionInfo \<Rightarrow> Arena \<Rightarrow> bool" where
  "stage n b k e a \<longleftrightarrow> core_wf n a \<and> flame_ok a e \<and> xi_center e = bi_position b \<and> xi_capacity e = 4 * bi_spread b
     \<and> length (xi_spread_amt e) = 4 \<and> int (length (xi_positions e)) \<le> k * bi_spread b"

lemma stage_step:
  assumes "stage n b k e a" and "on_map n (x, y)" and "0 \<le> bi_spread b" and "k \<le> 3"
  obtains e' a' where "spread_loop d x y (bi_spread b) 1 e a = Some (e', a')" and "stage n b (k + 1) e' a'" and "evolves a a'"
proof -
  have c: "core_wf n a" "flame_ok a e" "int (length (xi_positions e)) \<le> k * bi_spread b" "xi_capacity e = 4 * bi_spread b"
    using assms(1) by (simp_all add: stage_def)
  have "k * bi_spread b \<le> 3 * bi_spread b" using assms(3,4) by (intro mult_right_mono) simp_all
  then have "int (length (xi_positions e)) + max 0 (bi_spread b + 1 - 1) \<le> xi_capacity e" using c(3,4) assms(3) by simp
  then obtain e' a' where r: "spread_loop d x y (bi_spread b) 1 e a = Some (e', a')" "core_wf n a'" "evolves a a'" "flame_ok a' e'"
      "xi_center e' = xi_center e" "xi_capacity e' = xi_capacity e" "length (xi_spread_amt e') = length (xi_spread_amt e)"
      "int (length (xi_positions e')) \<le> int (length (xi_positions e)) + max 0 (bi_spread b + 1 - 1)"
    using spread_loop_safe [OF c(1) assms(2) order_refl c(2) assms(3)] by blast
  have "stage n b (k + 1) e' a'" using assms(1,3) c(3) r by (simp add: stage_def distrib_right)
  then show thesis using that r(1,3) by blast
qed

lemma trigger_explosion_safe:
  assumes "arena_wf n a" and "bomb_ok a b"
  obtains a' where "trigger_explosion b a = Some a'" and "arena_wf n a'" and "evolves a a'" and "ar_bombs a' = ar_bombs a"
proof -
  let ?x = "fst (tile_pos (bi_position b))" and ?y = "snd (tile_pos (bi_position b))" and ?s = "bi_spread b"
  let ?a0 = "a\<lparr>ar_events := ar_events a @ [(?x, ?y)]\<rparr>"
  let ?e0 = "\<lparr>xi_center = bi_position b, xi_spread_amt = [0, 0, 0, 0], xi_capacity = 4 * ?s, xi_positions = [], xi_timer = EXPLODE_LIFETIME\<rparr>"
  have c0: "core_wf n ?a0" "evolves a ?a0" using assms(1) by (simp_all add: arena_wf_def core_wf_def pending_ok_def evolves_same_map)
  have s: "0 \<le> ?s" and fr: "free_at a (tile_pos (bi_position b))" using assms(2) by (simp_all add: bomb_ok_def)
  have on: "on_map n (?x, ?y)" using inner_on_map [OF free_at_inner [OF _ fr]] assms(1) by (simp add: arena_wf_def)
  have s0: "stage n b 0 ?e0 ?a0" using c0(1) by (simp add: stage_def flame_ok_def)
  obtain e1 a1 where r1: "spread_loop Dir_up ?x ?y ?s 1 ?e0 ?a0 = Some (e1, a1)" "stage n b (0 + 1) e1 a1" "evolves ?a0 a1"
    by (rule stage_step [OF s0 on s]) (simp, rule that)
  obtain e2 a2 where r2: "spread_loop Dir_down ?x ?y ?s 1 e1 a1 = Some (e2, a2)" "stage n b (0 + 1 + 1) e2 a2" "evolves a1 a2"
    by (rule stage_step [OF r1(2) on s]) (simp, rule that)
  obtain e3 a3 where r3: "spread_loop Dir_left ?x ?y ?s 1 e2 a2 = Some (e3, a3)" "stage n b (0 + 1 + 1 + 1) e3 a3" "evolves a2 a3"
    by (rule stage_step [OF r2(2) on s]) (simp, rule that)
  obtain e4 a4 where r4: "spread_loop Dir_right ?x ?y ?s 1 e3 a3 = Some (e4, a4)" "stage n b (0 + 1 + 1 + 1 + 1) e4 a4" "evolves a3 a4"
    by (rule stage_step [OF r3(2) on s]) (simp, rule that)
  have ev: "evolves a a4" using c0(2) r1(3) r2(3) r3(3) r4(3) evolves_trans by blast
  let ?a = "a4\<lparr>ar_explodes := snd (queue_enqueue (ar_explodes a4) e4)\<rparr>"
  have run: "trigger_explosion b a = Some ?a"
    using r1(1) r2(1) r3(1) r4(1) by (simp add: trigger_explosion_def Let_def tile_pos_def)
  have q: "ar_bombs a4 = ar_bombs a" "ar_explodes a4 = ar_explodes a"
    using r1(1) r2(1) r3(1) r4(1) by (auto dest!: spread_loop_fields)
  have w4: "arena_wf n a4" using arena_wf_same [of a n a4, OF _ _ ev q] assms(1) r4(2) unfolding arena_wf_def stage_def by blast
  have e4: "expl_ok a4 e4" using r4(2) free_at_evolves [OF fr ev] by (simp add: stage_def expl_ok_def flame_ok_def)
  have same: "free_at ?a p = free_at a4 p" for p by (rule free_at_same_map) simp
  have "queues_ok ?a"
    using w4 e4 queue_enqueue_wf [of "ar_explodes a4" e4] queue_enqueue_set [of "ar_explodes a4" e4]
    by (auto simp: arena_wf_def queues_ok_def bomb_ok_def expl_ok_def same)
  moreover have "core_wf n ?a" using r4(2) by (simp add: stage_def core_wf_def pending_ok_def)
  moreover have "evolves a ?a" using evolves_trans [OF ev evolves_same_map] by simp
  ultimately show thesis using run q by (intro that [of ?a]) (simp_all add: arena_wf_def)
qed

section \<open>The loops over the queues\<close>

lemma queue_wf_set: "queue_wf q \<Longrightarrow> v \<in> set (queue_list q) \<longleftrightarrow> (\<exists>k. q_front q < k \<and> k < q_rear q \<and> v = q_items q ! nat k)"
proof -
  assume w: "queue_wf q"
  show ?thesis
  proof
    assume "v \<in> set (queue_list q)"
    then obtain j where j: "j < length (queue_list q)" "v = queue_list q ! j" by (auto simp: in_set_conv_nth)
    then have "v = q_items q ! nat (q_front q + 1 + int j)" using w by (auto simp: queue_list_def queue_wf_def nat_add_distrib)
    moreover have "q_front q + 1 + int j < q_rear q" using j(1) queue_list_length [OF w] by linarith
    ultimately show "\<exists>k. q_front q < k \<and> k < q_rear q \<and> v = q_items q ! nat k" by (intro exI [of _ "q_front q + 1 + int j"]) simp
  next
    assume "\<exists>k. q_front q < k \<and> k < q_rear q \<and> v = q_items q ! nat k"
    then obtain k where k: "q_front q < k" "k < q_rear q" "v = q_items q ! nat k" by blast
    define j where "j = nat (k - q_front q - 1)"
    have "j < length (queue_list q)" using k queue_list_length [OF w] by (auto simp: j_def)
    moreover have "queue_list q ! j = v" using k w by (auto simp: j_def queue_list_def queue_wf_def nat_add_distrib [symmetric])
    ultimately show "v \<in> set (queue_list q)" by (metis nth_mem)
  qed
qed

text \<open>Overwriting a slot, and removing a slot by moving the last element into it, bring in no element from outside the queue.\<close>

lemma queue_update_set:
  assumes "queue_wf q" and "q_front q < i" and "i < q_rear q"
  shows "queue_wf (q\<lparr>q_items := (q_items q)[nat i := v]\<rparr>)"
    and "set (queue_list (q\<lparr>q_items := (q_items q)[nat i := v]\<rparr>)) \<subseteq> insert v (set (queue_list q))"
proof -
  show w: "queue_wf (q\<lparr>q_items := (q_items q)[nat i := v]\<rparr>)" using assms by (simp add: queue_wf_def)
  show "set (queue_list (q\<lparr>q_items := (q_items q)[nat i := v]\<rparr>)) \<subseteq> insert v (set (queue_list q))"
    using assms by (auto simp: queue_wf_set [OF w] queue_wf_set [OF assms(1)] nth_list_update queue_wf_def) blast
qed

lemma queue_remove_set:
  assumes "queue_wf q" and "q_front q < i" and "i < q_rear q"
  defines "q' \<equiv> q\<lparr>q_items := (q_items q)[nat i := q_items q ! nat (q_rear q - 1)], q_rear := q_rear q - 1\<rparr>"
  shows "queue_wf q'" and "set (queue_list q') \<subseteq> set (queue_list q)"
proof -
  show w: "queue_wf q'" using assms by (simp add: queue_wf_def q'_def)
  have "q_items q ! nat (q_rear q - 1) \<in> set (queue_list q)"
    unfolding queue_wf_set [OF assms(1)] using assms(2,3) by (intro exI [of _ "q_rear q - 1"]) simp
  moreover have "q_items q ! nat k \<in> set (queue_list q)" if "q_front q < k" "k < q_rear q - 1" for k
    unfolding queue_wf_set [OF assms(1)] using that by (intro exI [of _ k]) simp
  moreover have "q_items q' ! nat k = (if nat k = nat i then q_items q ! nat (q_rear q - 1) else q_items q ! nat k)"
    if "k < q_rear q - 1" for k
    using that assms(1-3) by (auto simp: q'_def nth_list_update queue_wf_def)
  ultimately show "set (queue_list q') \<subseteq> set (queue_list q)"
    unfolding subset_iff queue_wf_set [OF w] by (auto simp: q'_def)
qed

lemma arena_wf_bombs:
  assumes "arena_wf n a" and "queue_wf q" and "\<And>b. b \<in> set (queue_list q) \<Longrightarrow> bomb_ok a b"
  shows "arena_wf n (a\<lparr>ar_bombs := q\<rparr>)"
  using assms by (simp add: arena_wf_def core_wf_def pending_ok_def queues_ok_def bomb_ok_def expl_ok_def free_at_def tile_at_def)

lemma arena_wf_explodes:
  assumes "arena_wf n a" and "queue_wf q" and "\<And>e. e \<in> set (queue_list q) \<Longrightarrow> expl_ok a e"
  shows "arena_wf n (a\<lparr>ar_explodes := q\<rparr>)"
  using assms by (simp add: arena_wf_def core_wf_def pending_ok_def queues_ok_def bomb_ok_def expl_ok_def free_at_def tile_at_def)

lemma bomb_ok_evolves: "bomb_ok a b \<Longrightarrow> evolves a a' \<Longrightarrow> bomb_ok a' b"
  by (auto simp: bomb_ok_def dest: free_at_evolves)

lemma expl_ok_evolves: "expl_ok a e \<Longrightarrow> evolves a a' \<Longrightarrow> expl_ok a' e"
  by (auto simp: expl_ok_def dest: free_at_evolves)

lemma arena_wf_write:
  assumes "arena_wf n a" and "free_at a (x, y)" and "\<not> solid t"
  obtains a' where "write_tile x y t a = Some a'" and "arena_wf n a'" and "evolves a a'"
    and "\<And>p. tile_at a' p = (if p = (x, y) then Some t else tile_at a p)"
proof -
  obtain a' where a': "write_tile x y t a = Some a'" "core_wf n a'" "evolves a a'"
    "\<And>p. tile_at a' p = (if p = (x, y) then Some t else tile_at a p)"
    using write_tile_safe [of n a x y t] assms by (auto simp: arena_wf_def)
  moreover have "arena_wf n a'"
    using arena_wf_same [of a n a'] assms(1) a' write_tile_fields [OF a'(1)] by (simp add: arena_wf_def)
  ultimately show thesis using that by blast
qed

text \<open>One round of the loop over the bombs.\<close>

lemma expire_bomb_safe:
  assumes "arena_wf n a" and "q_front (ar_bombs a) < i" and "i < q_rear (ar_bombs a)"
  shows "\<exists>a'. expire_bomb i a = Some a' \<and> arena_wf n a' \<and> evolves a a'"
proof -
  let ?q = "ar_bombs a"
  let ?b = "q_items ?q ! nat i"
  let ?items = "(q_items ?q)[nat i := q_items ?q ! nat (q_rear ?q - 1)]"
  let ?q' = "?q\<lparr>q_items := ?items, q_rear := q_rear ?q - 1\<rparr>"
  have w: "queue_wf ?q" and all: "\<And>b. b \<in> set (queue_list ?q) \<Longrightarrow> bomb_ok a b" using assms(1) by (simp_all add: arena_wf_def queues_ok_def)
  have mem: "?b \<in> set (queue_list ?q)" "q_items ?q ! nat (q_rear ?q - 1) \<in> set (queue_list ?q)"
    unfolding queue_wf_set [OF w] using assms(2,3) by (blast, intro exI [of _ "q_rear ?q - 1"], simp)
  have fr: "free_at a (f_to_int (fst (bi_position ?b)), f_to_int (snd (bi_position ?b)))"
    using all [OF mem(1)] by (simp add: bomb_ok_def tile_pos_def)
  obtain a1 where a1: "write_tile (f_to_int (fst (bi_position ?b))) (f_to_int (snd (bi_position ?b))) EMPTY a = Some a1"
      "arena_wf n a1" "evolves a a1"
    by (rule arena_wf_write [OF assms(1) fr, of EMPTY]) (simp add: solid_def, rule that)
  let ?a2 = "a1\<lparr>ar_bombs := ?q'\<rparr>"
  have q': "queue_wf ?q'" "set (queue_list ?q') \<subseteq> set (queue_list ?q)" using queue_remove_set [OF w assms(2,3)] .
  have ok1: "\<And>b. b \<in> set (queue_list ?q) \<Longrightarrow> bomb_ok a1 b" using all bomb_ok_evolves [OF _ a1(3)] by blast
  have w2: "arena_wf n ?a2" using arena_wf_bombs [OF a1(2) q'(1)] ok1 q'(2) by blast
  have "?items ! nat i = q_items ?q ! nat (q_rear ?q - 1)" using assms(2,3) w by (intro nth_list_update_eq) (auto simp: queue_wf_def)
  then have ok2: "bomb_ok ?a2 (?items ! nat i)" using ok1 [OF mem(2)] by (simp add: bomb_ok_def free_at_def tile_at_def)
  obtain a' where a': "trigger_explosion (?items ! nat i) ?a2 = Some a'" "arena_wf n a'" "evolves ?a2 a'"
    using trigger_explosion_safe [OF w2 ok2] by blast
  have "expire_bomb i a = Some a'" using a1(1) a'(1) by (simp add: expire_bomb_def Let_def)
  moreover have "evolves a ?a2" using evolves_trans [OF a1(3) evolves_same_map] by simp
  ultimately show ?thesis using a'(2) evolves_trans [OF _ a'(3)] by blast
qed

lemma count_bomb_safe:
  assumes "arena_wf n a" and "q_front (ar_bombs a) < i" and "i < q_rear (ar_bombs a)"
  shows "arena_wf n (count_bomb delta_time i a)" and "evolves a (count_bomb delta_time i a)"
proof -
  let ?q = "ar_bombs a"
  have w: "queue_wf ?q" and all: "\<And>b. b \<in> set (queue_list ?q) \<Longrightarrow> bomb_ok a b" using assms(1) by (simp_all add: arena_wf_def queues_ok_def)
  have "q_items ?q ! nat i \<in> set (queue_list ?q)" unfolding queue_wf_set [OF w] using assms(2,3) by blast
  then have "bomb_ok a ((q_items ?q ! nat i)\<lparr>bi_timer := t\<rparr>)" for t using all by (simp add: bomb_ok_def)
  then show "arena_wf n (count_bomb delta_time i a)"
    unfolding count_bomb_def Let_def
    using arena_wf_bombs [OF assms(1) queue_update_set(1) [OF w assms(2,3)]] queue_update_set(2) [OF w assms(2,3)] all by blast
  show "evolves a (count_bomb delta_time i a)" by (rule evolves_same_map) (simp add: count_bomb_def Let_def)
qed

lemma tick_bombs_loop_safe:
  assumes "arena_wf n a" and "q_front (ar_bombs a) < i"
  shows "\<exists>a'. tick_bombs_loop delta_time i a = Some a' \<and> arena_wf n a' \<and> evolves a a'"
  using assms
proof (induction delta_time i a rule: tick_bombs_loop.induct)
  case (1 delta_time i a)
  show ?case
  proof (cases "i < q_rear (ar_bombs a)")
    case lt: True
    let ?a1 = "count_bomb delta_time i a"
    have rng: "0 \<le> i \<and> nat i < length (q_items (ar_bombs a))"
      using lt 1(3,4) by (auto simp: arena_wf_def queues_ok_def queue_wf_def)
    note s1 = count_bomb_safe [OF 1(3,4) lt, of delta_time]
    show ?thesis
    proof (cases "bi_timer (q_items (ar_bombs ?a1) ! nat i) \<le> 0")
      case False
      have "tick_bombs_loop delta_time i a = tick_bombs_loop delta_time (i + 1) ?a1"
        using lt rng False by (subst tick_bombs_loop.simps) (simp add: Let_def)
      moreover have "\<exists>a'. tick_bombs_loop delta_time (i + 1) ?a1 = Some a' \<and> arena_wf n a' \<and> evolves ?a1 a'"
        using 1(2) [OF _ _ refl False s1(1)] lt rng 1(4) by simp
      ultimately show ?thesis using evolves_trans [OF s1(2)] by auto
    next
      case True
      obtain a2 where a2: "expire_bomb i ?a1 = Some a2" "arena_wf n a2" "evolves ?a1 a2"
        using expire_bomb_safe [OF s1(1)] 1(4) lt by auto
      have "tick_bombs_loop delta_time i a = tick_bombs_loop delta_time i a2"
        using lt rng True a2(1) by (subst tick_bombs_loop.simps) (simp add: Let_def)
      moreover have "q_front (ar_bombs a2) < i" using expire_bomb_queue [OF a2(1)] 1(4) by simp
      then have "\<exists>a'. tick_bombs_loop delta_time i a2 = Some a' \<and> arena_wf n a' \<and> evolves a2 a'"
        using 1(1) [OF _ _ refl True a2(1,2)] lt rng by simp
      ultimately show ?thesis using evolves_trans [OF evolves_trans [OF s1(2) a2(3)]] by auto
    qed
  next
    case False
    then have "tick_bombs_loop delta_time i a = Some a" by (subst tick_bombs_loop.simps) simp
    then show ?thesis using 1(3) by simp
  qed
qed

text \<open>The end of an explosion.\<close>

lemma clear_positions_safe:
  assumes "core_wf n a" and "\<forall>v \<in> set vs. free_at a (tile_pos v)"
  shows "\<exists>a'. clear_positions vs a = Some a' \<and> core_wf n a' \<and> evolves a a'"
  using assms
proof (induction vs arbitrary: a)
  case (Cons v vs)
  have fr: "free_at a (f_to_int (fst v), f_to_int (snd v))" using Cons.prems(2) by (simp add: tile_pos_def)
  obtain a1 where a1: "write_tile (f_to_int (fst v)) (f_to_int (snd v)) EMPTY a = Some a1" "core_wf n a1" "evolves a a1"
    by (rule write_tile_safe [OF Cons.prems(1) fr, of EMPTY]) (simp add: solid_def, rule that)
  have "\<forall>v \<in> set vs. free_at a1 (tile_pos v)" using Cons.prems(2) free_at_evolves [OF _ a1(3)] by auto
  from Cons.IH [OF a1(2) this] show ?case using a1 evolves_trans by (auto intro: evolves_trans)
qed simp

lemma spawn_pending_safe:
  assumes "core_wf n a" and "\<forall>v \<in> set vs. free_at a (tile_pos v)"
  shows "\<exists>a'. spawn_pending vs a = Some a' \<and> core_wf n a' \<and> evolves a a'"
  using assms
proof (induction vs arbitrary: a)
  case (Cons v vs)
  let ?x = "f_to_int (fst v)" and ?y = "f_to_int (snd v)"
  have fr: "free_at a (?x, ?y)" using Cons.prems(2) by (simp add: tile_pos_def)
  obtain p where p: "ar_pending a = Some p" "square n p" "\<And>x y t. grid_get p x y = Some t \<Longrightarrow> \<not> solid t"
    using Cons.prems(1) by (auto simp: core_wf_def pending_ok_def)
  have on: "on_map n (?x, ?y)" using inner_on_map [OF free_at_inner [OF Cons.prems(1) fr]] .
  obtain t where t: "grid_get p ?x ?y = Some t" using grid_get_square [OF p(2) on] by blast
  show ?case
  proof (cases "t = EMPTY")
    case True
    then have "spawn_pending (v # vs) a = spawn_pending vs a" using p(1) t by (simp add: Let_def)
    then show ?thesis using Cons.IH [OF Cons.prems(1)] Cons.prems(2) by simp
  next
    case False
    obtain a1 where a1: "write_tile ?x ?y t a = Some a1" "core_wf n a1" "evolves a a1"
      by (rule write_tile_safe [OF Cons.prems(1) fr p(3) [OF t]]) (rule that)
    obtain p' where p': "grid_put p ?x ?y EMPTY = Some p'" "square n p'"
      "\<And>u v. grid_get p' u v = (if (u, v) = (?x, ?y) then Some EMPTY else grid_get p u v)"
      using grid_put_square [OF p(2) on] by metis
    let ?a2 = "a1\<lparr>ar_pending := Some p'\<rparr>"
    have "\<And>x y t. grid_get p' x y = Some t \<Longrightarrow> \<not> solid t" using p(3) by (auto simp: p'(3) solid_def split: if_splits)
    then have c2: "core_wf n ?a2" using a1(2) p'(2) by (auto simp: core_wf_def pending_ok_def)
    have e2: "evolves a ?a2" using evolves_trans [OF a1(3) evolves_same_map] by simp
    have "\<forall>v \<in> set vs. free_at ?a2 (tile_pos v)" using Cons.prems(2) free_at_evolves [OF _ e2] by auto
    from Cons.IH [OF c2 this] obtain a' where "spawn_pending vs ?a2 = Some a'" "core_wf n a'" "evolves ?a2 a'" by blast
    then show ?thesis using p(1) t False a1(1) p'(1) evolves_trans [OF e2] by (simp add: Let_def)
  qed
qed simp

lemma expire_explosion_safe:
  assumes "arena_wf n a" and "q_front (ar_explodes a) < i" and "i < q_rear (ar_explodes a)"
  shows "\<exists>a'. expire_explosion i a = Some a' \<and> arena_wf n a' \<and> evolves a a'"
proof -
  let ?q = "ar_explodes a"
  let ?e = "q_items ?q ! nat i"
  let ?q' = "?q\<lparr>q_items := (q_items ?q)[nat i := q_items ?q ! nat (q_rear ?q - 1)], q_rear := q_rear ?q - 1\<rparr>"
  have w: "queue_wf ?q" and all: "\<And>e. e \<in> set (queue_list ?q) \<Longrightarrow> expl_ok a e" and c: "core_wf n a"
    using assms(1) by (simp_all add: arena_wf_def queues_ok_def)
  have "?e \<in> set (queue_list ?q)" unfolding queue_wf_set [OF w] using assms(2,3) by blast
  then have e: "free_at a (f_to_int (fst (xi_center ?e)), f_to_int (snd (xi_center ?e)))" "\<forall>v \<in> set (xi_positions ?e). free_at a (tile_pos v)"
    using all by (auto simp: expl_ok_def tile_pos_def)
  obtain a1 where a1: "write_tile (f_to_int (fst (xi_center ?e))) (f_to_int (snd (xi_center ?e))) EMPTY a = Some a1" "core_wf n a1" "evolves a a1"
    by (rule write_tile_safe [OF c e(1), of EMPTY]) (simp add: solid_def, rule that)
  obtain a2 where a2: "clear_positions (xi_positions ?e) a1 = Some a2" "core_wf n a2" "evolves a1 a2"
    using clear_positions_safe [OF a1(2)] e(2) free_at_evolves [OF _ a1(3)] by blast
  obtain a3 where a3: "spawn_pending (xi_positions ?e) a2 = Some a3" "core_wf n a3" "evolves a2 a3"
    using spawn_pending_safe [OF a2(2)] e(2) free_at_evolves [OF _ evolves_trans [OF a1(3) a2(3)]] by blast
  have ee: "end_explosion ?e a = Some a3"
    using a1(1) a2(1,2) a3(1) by (auto simp: end_explosion_def spawn_pending_powerups_def core_wf_def pending_ok_def)
  have ev: "evolves a a3" using a1(3) a2(3) a3(3) evolves_trans by blast
  have w3: "arena_wf n a3" using arena_wf_same [of a n a3] assms(1) a3(2) ev end_explosion_fields [OF ee] by (simp add: arena_wf_def)
  have "\<And>e. e \<in> set (queue_list ?q') \<Longrightarrow> expl_ok a3 e"
    using queue_remove_set(2) [OF w assms(2,3)] all expl_ok_evolves [OF _ ev] by blast
  then have "arena_wf n (a3\<lparr>ar_explodes := ?q'\<rparr>)" using arena_wf_explodes [OF w3 queue_remove_set(1) [OF w assms(2,3)]] by blast
  moreover have "evolves a (a3\<lparr>ar_explodes := ?q'\<rparr>)" using evolves_trans [OF ev evolves_same_map] by simp
  ultimately show ?thesis using ee by (simp add: expire_explosion_def Let_def)
qed

lemma count_explosion_safe:
  assumes "arena_wf n a" and "q_front (ar_explodes a) < i" and "i < q_rear (ar_explodes a)"
  shows "arena_wf n (count_explosion delta_time i a)" and "evolves a (count_explosion delta_time i a)"
proof -
  let ?q = "ar_explodes a"
  have w: "queue_wf ?q" and all: "\<And>e. e \<in> set (queue_list ?q) \<Longrightarrow> expl_ok a e" using assms(1) by (simp_all add: arena_wf_def queues_ok_def)
  have "q_items ?q ! nat i \<in> set (queue_list ?q)" unfolding queue_wf_set [OF w] using assms(2,3) by blast
  then have "expl_ok a ((q_items ?q ! nat i)\<lparr>xi_timer := t\<rparr>)" for t using all by (simp add: expl_ok_def)
  then show "arena_wf n (count_explosion delta_time i a)"
    unfolding count_explosion_def Let_def
    using arena_wf_explodes [OF assms(1) queue_update_set(1) [OF w assms(2,3)]] queue_update_set(2) [OF w assms(2,3)] all by blast
  show "evolves a (count_explosion delta_time i a)" by (rule evolves_same_map) (simp add: count_explosion_def Let_def)
qed

lemma tick_explosions_loop_safe:
  assumes "arena_wf n a" and "q_front (ar_explodes a) < i"
  shows "\<exists>a'. tick_explosions_loop delta_time i a = Some a' \<and> arena_wf n a' \<and> evolves a a'"
  using assms
proof (induction delta_time i a rule: tick_explosions_loop.induct)
  case (1 delta_time i a)
  show ?case
  proof (cases "i < q_rear (ar_explodes a)")
    case lt: True
    let ?a1 = "count_explosion delta_time i a"
    have rng: "0 \<le> i \<and> nat i < length (q_items (ar_explodes a))"
      using lt 1(3,4) by (auto simp: arena_wf_def queues_ok_def queue_wf_def)
    note s1 = count_explosion_safe [OF 1(3,4) lt, of delta_time]
    show ?thesis
    proof (cases "xi_timer (q_items (ar_explodes ?a1) ! nat i) \<le> 0")
      case False
      have "tick_explosions_loop delta_time i a = tick_explosions_loop delta_time (i + 1) ?a1"
        using lt rng False by (subst tick_explosions_loop.simps) (simp add: Let_def)
      moreover have "\<exists>a'. tick_explosions_loop delta_time (i + 1) ?a1 = Some a' \<and> arena_wf n a' \<and> evolves ?a1 a'"
        using 1(2) [OF _ _ refl False s1(1)] lt rng 1(4) by simp
      ultimately show ?thesis using evolves_trans [OF s1(2)] by auto
    next
      case True
      obtain a2 where a2: "expire_explosion i ?a1 = Some a2" "arena_wf n a2" "evolves ?a1 a2"
        using expire_explosion_safe [OF s1(1)] 1(4) lt by auto
      have "tick_explosions_loop delta_time i a = tick_explosions_loop delta_time i a2"
        using lt rng True a2(1) by (subst tick_explosions_loop.simps) (simp add: Let_def)
      moreover have "q_front (ar_explodes a2) < i" using expire_explosion_queue [OF a2(1)] 1(4) by simp
      then have "\<exists>a'. tick_explosions_loop delta_time i a2 = Some a' \<and> arena_wf n a' \<and> evolves a2 a'"
        using 1(1) [OF _ _ refl True a2(1,2)] lt rng by simp
      ultimately show ?thesis using evolves_trans [OF evolves_trans [OF s1(2) a2(3)]] by auto
    qed
  next
    case False
    then have "tick_explosions_loop delta_time i a = Some a" by (subst tick_explosions_loop.simps) simp
    then show ?thesis using 1(3) by simp
  qed
qed

section \<open>The contract of an operation on the arena\<close>

text \<open>
  An operation keeps the contract when, under a condition on the size of the map, it ends without an access outside an array, keeps the
  invariant, and changes the map only in the ways \<open>evolves\<close> allows. Two such operations in sequence are one again, and so is a repetition.
\<close>

fun repeat_op :: "(Arena \<Rightarrow> Arena option) \<Rightarrow> nat \<Rightarrow> Arena \<Rightarrow> Arena option" where
  "repeat_op f 0 a = Some a"
| "repeat_op f (Suc k) a = (case f a of None \<Rightarrow> None | Some a' \<Rightarrow> repeat_op f k a')"

locale arena_op =
  fixes f :: "Arena \<Rightarrow> Arena option" and pre :: "int \<Rightarrow> bool"
  assumes safe: "arena_wf n a \<Longrightarrow> pre n \<Longrightarrow> \<exists>a'. f a = Some a' \<and> arena_wf n a' \<and> evolves a a'"
begin

lemma repeat_safe: "arena_wf n a \<Longrightarrow> pre n \<Longrightarrow> \<exists>a'. repeat_op f k a = Some a' \<and> arena_wf n a' \<and> evolves a a'"
proof (induction k arbitrary: a)
  case (Suc k)
  obtain a1 where a1: "f a = Some a1" "arena_wf n a1" "evolves a a1" using safe [OF Suc.prems] by blast
  show ?case using Suc.IH [OF a1(2) Suc.prems(2)] a1(1) evolves_trans [OF a1(3)] by auto
qed simp

lemma total: "arena_wf n a \<Longrightarrow> pre n \<Longrightarrow> f a \<noteq> None"
  using safe by blast

lemma keeps_walls: "arena_wf n a \<Longrightarrow> pre n \<Longrightarrow> f a = Some a' \<Longrightarrow> (tile_at a' p = Some WALL) = (tile_at a p = Some WALL)"
  using safe [of n a] unfolding evolves_def solid_def by (metis option.inject)

end

locale arena_ops = first: arena_op f pre + second: arena_op g pre
  for f :: "Arena \<Rightarrow> Arena option" and g and pre
begin

lemma seq_safe: "arena_wf n a \<Longrightarrow> pre n \<Longrightarrow> \<exists>a'. Option.bind (f a) g = Some a' \<and> arena_wf n a' \<and> evolves a a'"
  using first.safe [of n a] second.safe evolves_trans by fastforce

end

sublocale arena_ops \<subseteq> seq: arena_op "\<lambda>a. Option.bind (f a) g" pre
  by unfold_locales (rule seq_safe)

lemma tick_bombs_safe: "arena_wf n a \<Longrightarrow> \<exists>a'. tick_bombs delta_time a = Some a' \<and> arena_wf n a' \<and> evolves a a'"
  using tick_bombs_loop_safe [of n a "q_front (ar_bombs a) + 1"] by (auto simp: tick_bombs_def)

lemma tick_explosions_safe: "arena_wf n a \<Longrightarrow> \<exists>a'. tick_explosions delta_time a = Some a' \<and> arena_wf n a' \<and> evolves a a'"
  using tick_explosions_loop_safe [of n a "q_front (ar_explodes a) + 1"] by (auto simp: tick_explosions_def)

lemma place_bomb_safe:
  assumes "arena_wf n a" and "on_map n (tile_pos pos)" and "0 \<le> st_num_fires stock"
  obtains ok stock' a' where "place_bomb pos stock a = Some (ok, stock', a')" and "arena_wf n a'" and "evolves a a'"
    and "stock' = (if ok then consume_bomb stock else stock)" and "ok \<Longrightarrow> 0 < st_remaining_bombs stock"
proof -
  let ?x = "f_to_int (fst pos)" and ?y = "f_to_int (snd pos)"
  have sq: "square n (ar_map a)" using assms(1) by (auto simp: arena_wf_def core_wf_def)
  obtain t where t: "grid_get (ar_map a) ?x ?y = Some t" using grid_get_square [OF sq] assms(2) by (auto simp: tile_pos_def)
  show thesis
  proof (cases "(t = EMPTY \<or> t = PLAYER) \<and> 0 < st_remaining_bombs stock")
    case True
    have fr: "free_at a (?x, ?y)" using True t by (auto simp: free_at_def tile_at_def)
    obtain a1 where a1: "write_tile ?x ?y BOMB a = Some a1" "arena_wf n a1" "evolves a a1"
      by (rule arena_wf_write [OF assms(1) fr, of BOMB]) (simp add: solid_def, rule that)
    have qa: "queue_wf (ar_bombs a1)" using a1(2) by (simp add: arena_wf_def queues_ok_def)
    let ?b = "\<lparr>bi_position = pos, bi_spread = st_num_fires stock, bi_timer = BOMB_TIMER\<rparr>"
    have "bomb_ok a1 ?b" using free_at_evolves [OF fr a1(3)] assms(3) by (simp add: bomb_ok_def tile_pos_def)
    then have "\<And>b. b \<in> set (queue_list (snd (queue_enqueue (ar_bombs a1) ?b))) \<Longrightarrow> bomb_ok a1 b"
      using a1(2) queue_enqueue_set [of "ar_bombs a1" ?b] by (auto simp: arena_wf_def queues_ok_def)
    then have "arena_wf n (a1\<lparr>ar_bombs := snd (queue_enqueue (ar_bombs a1) ?b)\<rparr>)"
      by (intro arena_wf_bombs [OF a1(2) queue_enqueue_wf [OF qa]])
    moreover have "evolves a (a1\<lparr>ar_bombs := snd (queue_enqueue (ar_bombs a1) ?b)\<rparr>)" using evolves_trans [OF a1(3) evolves_same_map] by simp
    ultimately show ?thesis using True t a1(1) by (intro that [of True "consume_bomb stock"]) (auto simp: place_bomb_def Let_def)
  next
    case False
    then show ?thesis using t assms(1) by (intro that [of False stock a]) (auto simp: place_bomb_def Let_def)
  qed
qed

interpretation bombs: arena_op "tick_bombs delta_time" "\<lambda>_. True" for delta_time
  by unfold_locales (rule tick_bombs_safe)

interpretation tick: arena_ops "tick_bombs delta_time" "tick_explosions delta_time" "\<lambda>_. True" for delta_time
  by unfold_locales (rule tick_explosions_safe)

interpretation place: arena_op "\<lambda>a. map_option (\<lambda>r. snd (snd r)) (place_bomb pos stock a)"
  "\<lambda>n. on_map n (tile_pos pos) \<and> 0 \<le> st_num_fires stock" for pos stock
proof unfold_locales
  fix n a
  assume "arena_wf n a" and "on_map n (tile_pos pos) \<and> 0 \<le> st_num_fires stock"
  then obtain ok stock' a' where "place_bomb pos stock a = Some (ok, stock', a')" "arena_wf n a'" "evolves a a'"
    using place_bomb_safe by metis
  then show "\<exists>a'. map_option (\<lambda>r. snd (snd r)) (place_bomb pos stock a) = Some a' \<and> arena_wf n a' \<and> evolves a a'" by simp
qed

end
