(* ===== verification/Bomb_Blast.thy ===== *)
theory Bomb_Blast
  imports Bomb_Arena
begin

text \<open>
  What a tick does to the bombs and what an explosion does to the map: the queue of bombs refines a multiset that loses the bombs whose time is up,
  a fuse lasts 63 ticks, the flames reach exactly the tiles up to the next wall, and the place of the explosion is that of the last bomb in the queue.
\<close>

section \<open>The queue as a list\<close>

lemma queue_list_nth: "queue_wf q \<Longrightarrow> j < length (queue_list q) \<Longrightarrow> queue_list q ! j = q_items q ! nat (q_front q + 1 + int j)"
  by (auto simp: queue_list_def queue_wf_def nat_add_distrib)

lemma queue_list_update:
  assumes "queue_wf q" and "q_front q < i" and "i < q_rear q"
  shows "queue_list (q\<lparr>q_items := (q_items q)[nat i := v]\<rparr>) = (queue_list q)[nat (i - q_front q - 1) := v]"
proof (rule nth_equalityI)
  let ?q = "q\<lparr>q_items := (q_items q)[nat i := v]\<rparr>"
  have w: "queue_wf ?q" using queue_update_set(1) [OF assms] .
  show len: "length (queue_list ?q) = length ((queue_list q)[nat (i - q_front q - 1) := v])"
    by (simp add: queue_list_def)
  fix j assume j: "j < length (queue_list ?q)"
  then have j': "j < length (queue_list q)" using len by simp
  have "queue_list ?q ! j = (q_items q)[nat i := v] ! nat (q_front q + 1 + int j)" using queue_list_nth [OF w j] by simp
  moreover have "nat i = nat (q_front q + 1 + int j) \<longleftrightarrow> j = nat (i - q_front q - 1)" using assms by (auto simp: queue_wf_def)
  moreover have "nat i < length (q_items q)" using assms by (auto simp: queue_wf_def)
  ultimately show "queue_list ?q ! j = (queue_list q)[nat (i - q_front q - 1) := v] ! j"
    using j' queue_list_nth [OF assms(1) j'] by (auto simp: nth_list_update)
qed

lemma queue_list_last:
  assumes "queue_wf q" and "q_front q + 1 < q_rear q"
  shows "last (queue_list q) = q_items q ! nat (q_rear q - 1)" and "queue_list q \<noteq> []"
proof -
  have len: "int (length (queue_list q)) = q_rear q - q_front q - 1" using queue_list_length [OF assms(1)] .
  then show ne: "queue_list q \<noteq> []" using assms(2) by auto
  have e: "q_front q + 1 + int (length (queue_list q) - 1) = q_rear q - 1" using len ne by (simp add: of_nat_diff Suc_leI)
  have "last (queue_list q) = queue_list q ! (length (queue_list q) - 1)" using ne by (rule last_conv_nth)
  also have "\<dots> = q_items q ! nat (q_rear q - 1)" using queue_list_nth [OF assms(1), of "length (queue_list q) - 1"] ne unfolding e by simp
  finally show "last (queue_list q) = q_items q ! nat (q_rear q - 1)" .
qed

lemma queue_list_remove:
  assumes "queue_wf q" and "q_front q < i" and "i < q_rear q"
  shows "queue_list (q\<lparr>q_items := (q_items q)[nat i := q_items q ! nat (q_rear q - 1)], q_rear := q_rear q - 1\<rparr>)
         = butlast ((queue_list q)[nat (i - q_front q - 1) := last (queue_list q)])"
proof -
  let ?u = "q\<lparr>q_items := (q_items q)[nat i := q_items q ! nat (q_rear q - 1)]\<rparr>"
  have u: "queue_wf ?u" using queue_update_set(1) [OF assms] .
  have "queue_list (?u\<lparr>q_rear := q_rear q - 1\<rparr>) = butlast (queue_list ?u)"
  proof -
    have "take (nat (q_rear q - 1)) (q_items ?u) = butlast (take (nat (q_rear q)) (q_items ?u))"
    proof -
      have "nat (q_rear q) \<le> length (q_items ?u)" using u by (auto simp: queue_wf_def)
      then have "butlast (take (nat (q_rear q)) (q_items ?u)) = take (nat (q_rear q) - 1) (q_items ?u)" by (rule butlast_take)
      moreover have "nat (q_rear q - 1) = nat (q_rear q) - 1" by simp
      ultimately show ?thesis by simp
    qed
    then show ?thesis by (simp add: queue_list_def butlast_drop)
  qed
  then show ?thesis using queue_list_update [OF assms, of "q_items q ! nat (q_rear q - 1)"] queue_list_last(1) [OF assms(1)] assms(2,3) by simp
qed

section \<open>One tick of the bombs\<close>

definition burn :: "f32 \<Rightarrow> BombInfo \<Rightarrow> BombInfo" where
  "burn delta_time b = b\<lparr>bi_timer := f_sub (bi_timer b) delta_time\<rparr>"

definition survivors :: "f32 \<Rightarrow> BombInfo multiset \<Rightarrow> BombInfo multiset" where
  "survivors delta_time M = filter_mset (\<lambda>b. 0 < bi_timer b) (image_mset (burn delta_time) M)"

lemma count_bomb_list:
  assumes "queue_wf (ar_bombs a)" and "queue_list (ar_bombs a) = pre @ b # bs" and "int (length pre) = i - q_front (ar_bombs a) - 1"
  shows "queue_list (ar_bombs (count_bomb delta_time i a)) = pre @ burn delta_time b # bs"
    and "q_items (ar_bombs (count_bomb delta_time i a)) ! nat i = burn delta_time b"
    and "q_front (ar_bombs a) < i" and "i < q_rear (ar_bombs a)"
proof -
  let ?q = "ar_bombs a"
  have len: "int (length pre) + 1 + int (length bs) = q_rear ?q - q_front ?q - 1" using queue_list_length [OF assms(1)] assms(2) by simp
  then show r: "q_front ?q < i" "i < q_rear ?q" using assms(3) by linarith+
  have "queue_list ?q ! length pre = q_items ?q ! nat (q_front ?q + 1 + int (length pre))"
    using queue_list_nth [OF assms(1), of "length pre"] assms(2) by simp
  moreover have "q_front ?q + 1 + int (length pre) = i" using assms(3) by simp
  ultimately have b: "q_items ?q ! nat i = b" using assms(2) by simp
  have "nat (i - q_front ?q - 1) = length pre" using assms(3) by simp
  then show "queue_list (ar_bombs (count_bomb delta_time i a)) = pre @ burn delta_time b # bs"
    using queue_list_update [OF assms(1) r, of "burn delta_time b"] assms(2) b by (simp add: count_bomb_def Let_def burn_def)
  show "q_items (ar_bombs (count_bomb delta_time i a)) ! nat i = burn delta_time b"
    unfolding count_bomb_def Let_def burn_def b using r assms(1) by (simp, intro nth_list_update_eq) (auto simp: queue_wf_def)
qed

lemma expire_bomb_list:
  assumes "queue_wf (ar_bombs a)" and "queue_list (ar_bombs a) = pre @ b # bs" and "int (length pre) = i - q_front (ar_bombs a) - 1"
    and "expire_bomb i a = Some a'"
  shows "queue_list (ar_bombs a') = pre @ (if bs = [] then [] else last bs # butlast bs)"
proof -
  let ?q = "ar_bombs a"
  have r: "q_front ?q < i" "i < q_rear ?q" using count_bomb_list(3,4) [OF assms(1-3)] .
  have "nat (i - q_front ?q - 1) = length pre" using assms(3) by simp
  then show ?thesis
    using queue_list_remove [OF assms(1) r] assms(2) expire_bomb_queue [OF assms(4)]
    by (cases bs rule: rev_cases) (auto simp: butlast_append)
qed

lemma tick_bombs_loop_survivors:
  assumes "arena_wf n a" and "queue_list (ar_bombs a) = pre @ bs" and "int (length pre) = i - q_front (ar_bombs a) - 1"
    and "tick_bombs_loop delta_time i a = Some a'"
  shows "mset (queue_list (ar_bombs a')) = mset pre + survivors delta_time (mset bs)"
  using assms
proof (induction "length bs" arbitrary: i a pre bs)
  case 0
  have "int (length (queue_list (ar_bombs a))) = q_rear (ar_bombs a) - q_front (ar_bombs a) - 1"
    using 0(2) by (intro queue_list_length) (simp add: arena_wf_def queues_ok_def)
  then have "\<not> i < q_rear (ar_bombs a)" using 0 by simp
  then have "a' = a" using 0(5) by (subst (asm) tick_bombs_loop.simps) simp
  then show ?case using 0 by (simp add: survivors_def)
next
  case (Suc k)
  obtain b rest where bs: "bs = b # rest" using Suc.hyps(2) by (cases bs) auto
  let ?q = "ar_bombs a" and ?a1 = "count_bomb delta_time i a"
  have w: "queue_wf ?q" using Suc.prems(1) by (simp add: arena_wf_def queues_ok_def)
  note c = count_bomb_list(1,2) [where delta_time = delta_time, OF w Suc.prems(2) [unfolded bs] Suc.prems(3)]
    count_bomb_list(3,4) [OF w Suc.prems(2) [unfolded bs] Suc.prems(3)]
  have rng: "0 \<le> i \<and> nat i < length (q_items ?q)" using c(3,4) w by (auto simp: queue_wf_def)
  have w1: "arena_wf n ?a1" using count_bomb_safe(1) [OF Suc.prems(1) c(3,4)] .
  have wq1: "queue_wf (ar_bombs ?a1)" using w1 by (simp add: arena_wf_def queues_ok_def)
  show ?case
  proof (cases "bi_timer (burn delta_time b) \<le> 0")
    case False
    have "tick_bombs_loop delta_time (i + 1) ?a1 = Some a'"
      using Suc.prems(4) c rng False by (subst (asm) tick_bombs_loop.simps) (simp add: Let_def)
    from Suc.hyps(1) [of rest ?a1 "pre @ [burn delta_time b]" "i + 1", OF _ w1 _ _ this] show ?thesis
      using c(1) Suc.hyps(2) Suc.prems(3) False by (simp add: bs survivors_def)
  next
    case True
    obtain a2 where a2: "expire_bomb i ?a1 = Some a2" "arena_wf n a2"
      using expire_bomb_safe [OF w1] c(3,4) by auto
    have run: "tick_bombs_loop delta_time i a2 = Some a'"
      using Suc.prems(4) c rng True a2(1) by (subst (asm) tick_bombs_loop.simps) (simp add: Let_def)
    let ?bs = "if rest = [] then [] else last rest # butlast rest"
    have l2: "queue_list (ar_bombs a2) = pre @ ?bs" using expire_bomb_list [OF wq1 c(1) _ a2(1)] Suc.prems(3) by simp
    have f2: "int (length pre) = i - q_front (ar_bombs a2) - 1" using expire_bomb_queue [OF a2(1)] Suc.prems(3) by simp
    have m: "mset ?bs = mset rest" "length ?bs = length rest"
      by (simp_all, metis add_mset_add_single append_butlast_last_id mset.simps(1) mset.simps(2) mset_append)
    show ?thesis
      using Suc.hyps(1) [of ?bs a2 pre i, OF _ a2(2) l2 f2 run] Suc.hyps(2) m True by (simp add: bs survivors_def)
  qed
qed

lemma tick_bombs_survivors:
  assumes "arena_wf n a"
  obtains a' where "tick_bombs delta_time a = Some a'" and "arena_wf n a'" and "evolves a a'"
    and "mset (queue_list (ar_bombs a')) = survivors delta_time (mset (queue_list (ar_bombs a)))"
proof -
  obtain a' where a': "tick_bombs delta_time a = Some a'" "arena_wf n a'" "evolves a a'" using tick_bombs_safe [OF assms] by blast
  have w: "queue_wf (ar_bombs a)" using assms by (simp add: arena_wf_def queues_ok_def)
  have "mset (queue_list (ar_bombs a')) = survivors delta_time (mset (queue_list (ar_bombs a)))"
  proof (cases "queue_empty (ar_bombs a)")
    case True
    then show ?thesis using a'(1) queue_empty_iff [OF w] by (simp add: tick_bombs_def survivors_def)
  next
    case False
    then have "tick_bombs_loop delta_time (q_front (ar_bombs a) + 1) a = Some a'" using a'(1) by (simp add: tick_bombs_def)
    from tick_bombs_loop_survivors [OF assms _ _ this, of "[]" "queue_list (ar_bombs a)"] show ?thesis by simp
  qed
  then show thesis using that a' by blast
qed

section \<open>The length of a fuse\<close>

text \<open>The step of the server, \<open>(float)TICK_MICROSECONDS / 1000000.0f\<close>.\<close>

definition TICK_DELTA :: f32 where "TICK_DELTA = f_div (f_of_int 16000) (f_lit 1000000)"

lemma TICK_DELTA_value: "TICK_DELTA = 8589935 / 536870912"
  by code_simp

lemma fuse_lit: "k \<le> 62 \<Longrightarrow> 0 < countdown TICK_DELTA k BOMB_TIMER"
proof -
  assume k: "k \<le> 62"
  define e :: rat where "e = 1 / 2 ^ 24"
  have "of_nat k * (TICK_DELTA + e) \<le> of_nat 62 * (TICK_DELTA + e)"
    using k by (intro mult_right_mono) (simp_all add: TICK_DELTA_value e_def)
  also have "\<dots> < 1" by (simp add: TICK_DELTA_value e_def)
  finally have lt: "of_nat k * (TICK_DELTA + e) < 1" .
  have "BOMB_TIMER - of_nat k * (TICK_DELTA + e) \<le> countdown TICK_DELTA k BOMB_TIMER"
    using lt by (intro countdown_bounds(1)) (simp_all add: BOMB_TIMER_def TICK_DELTA_value e_def)
  then show ?thesis using lt by (simp add: BOMB_TIMER_def)
qed

lemma fuse_out: "countdown TICK_DELTA 63 BOMB_TIMER \<le> 0"
proof -
  define e :: rat where "e = 1 / 2 ^ 24"
  have "countdown TICK_DELTA 63 BOMB_TIMER \<le> BOMB_TIMER - of_nat 63 * (TICK_DELTA - e)"
    by (rule countdown_bounds(2)) (simp_all add: BOMB_TIMER_def TICK_DELTA_value e_def)
  also have "\<dots> \<le> 0" by (simp add: BOMB_TIMER_def TICK_DELTA_value e_def)
  finally show ?thesis .
qed

text \<open>A bomb of age \<open>j\<close> has burnt for \<open>j\<close> ticks.\<close>

definition bomb_age :: "nat \<Rightarrow> BombInfo \<Rightarrow> bool" where
  "bomb_age j b \<longleftrightarrow> j \<le> 62 \<and> bi_timer b = countdown TICK_DELTA j BOMB_TIMER"

lemma survivors_age:
  assumes "\<And>b. b \<in># M \<Longrightarrow> \<exists>j \<ge> k. bomb_age j b" and "b \<in># survivors TICK_DELTA M"
  shows "\<exists>j \<ge> Suc k. bomb_age j b"
proof -
  obtain b0 where b0: "b0 \<in># M" "b = burn TICK_DELTA b0" "0 < bi_timer b" using assms(2) by (auto simp: survivors_def)
  obtain j where j: "k \<le> j" "bomb_age j b0" using assms(1) [OF b0(1)] by blast
  have t: "bi_timer b = countdown TICK_DELTA (Suc j) BOMB_TIMER" using j(2) b0(2) by (simp add: bomb_age_def burn_def)
  have "j \<noteq> 62" using t b0(3) fuse_out countdown.simps(2) [of TICK_DELTA 62 BOMB_TIMER] by (auto simp: numeral_eq_Suc)
  then show ?thesis using j t by (intro exI [of _ "Suc j"]) (simp add: bomb_age_def)
qed

lemma survivors_keep:
  assumes "b \<in># M" and "bomb_age j b" and "Suc j \<le> 62"
  shows "b\<lparr>bi_timer := countdown TICK_DELTA (Suc j) BOMB_TIMER\<rparr> \<in># survivors TICK_DELTA M"
proof -
  have "burn TICK_DELTA b = b\<lparr>bi_timer := countdown TICK_DELTA (Suc j) BOMB_TIMER\<rparr>" using assms(2) by (simp add: burn_def bomb_age_def)
  moreover have "0 < countdown TICK_DELTA (Suc j) BOMB_TIMER" by (rule fuse_lit [OF assms(3)])
  ultimately show ?thesis using assms(1) by (force simp: survivors_def)
qed

lemma repeat_bombs_survivors:
  assumes "arena_wf n a"
  shows "\<exists>a'. repeat_op (tick_bombs delta_time) k a = Some a' \<and> arena_wf n a'
     \<and> mset (queue_list (ar_bombs a')) = (survivors delta_time ^^ k) (mset (queue_list (ar_bombs a)))"
  using assms
proof (induction k arbitrary: a)
  case (Suc k)
  obtain a1 where a1: "tick_bombs delta_time a = Some a1" "arena_wf n a1"
    "mset (queue_list (ar_bombs a1)) = survivors delta_time (mset (queue_list (ar_bombs a)))"
    using tick_bombs_survivors [OF Suc.prems] by blast
  show ?case using Suc.IH [OF a1(2)] a1(1,3) by (simp add: funpow_swap1)
qed simp

lemma survivors_iter_age:
  assumes "\<And>b. b \<in># M \<Longrightarrow> \<exists>j. bomb_age j b" and "b \<in># (survivors TICK_DELTA ^^ k) M"
  shows "\<exists>j \<ge> k. bomb_age j b"
  using assms(2)
proof (induction k arbitrary: b)
  case (Suc k)
  then show ?case using survivors_age [of "(survivors TICK_DELTA ^^ k) M" k b] by simp
qed (use assms(1) in auto)

lemma survivors_iter_keep:
  assumes "b \<in># M" and "bi_timer b = BOMB_TIMER" and "k \<le> 62"
  shows "b\<lparr>bi_timer := countdown TICK_DELTA k BOMB_TIMER\<rparr> \<in># (survivors TICK_DELTA ^^ k) M"
  using assms(3)
proof (induction k)
  case 0
  have "b\<lparr>bi_timer := BOMB_TIMER\<rparr> = b" by (simp add: assms(2) [symmetric])
  then show ?case using assms(1) by simp
next
  case (Suc k)
  have "bomb_age k (b\<lparr>bi_timer := countdown TICK_DELTA k BOMB_TIMER\<rparr>)" using Suc.prems by (simp add: bomb_age_def)
  from survivors_keep [OF Suc.IH this] Suc.prems show ?case by simp
qed

text \<open>
  C30 (bomb_fuse): A bomb that has just been placed keeps ticking for 62 ticks of the server, with the timer counted down in single precision, and
  after 63 ticks every bomb that was in the queue has left it, whatever the bombs' ages.
\<close>

theorem bomb_fuse:
  assumes "arena_wf n a" and "\<forall>b \<in> set (queue_list (ar_bombs a)). \<exists>j. bomb_age j b"
  shows "(\<forall>k b. k \<le> 62 \<and> b \<in> set (queue_list (ar_bombs a)) \<and> bi_timer b = BOMB_TIMER \<longrightarrow>
            (\<exists>a'. repeat_op (tick_bombs TICK_DELTA) k a = Some a'
               \<and> b\<lparr>bi_timer := countdown TICK_DELTA k BOMB_TIMER\<rparr> \<in> set (queue_list (ar_bombs a'))))
     \<and> (\<exists>a'. repeat_op (tick_bombs TICK_DELTA) 63 a = Some a' \<and> queue_empty (ar_bombs a'))"
proof (intro conjI allI impI)
  fix k :: nat and b
  assume b: "k \<le> 62 \<and> b \<in> set (queue_list (ar_bombs a)) \<and> bi_timer b = BOMB_TIMER"
  obtain a' where a': "repeat_op (tick_bombs TICK_DELTA) k a = Some a'"
      "mset (queue_list (ar_bombs a')) = (survivors TICK_DELTA ^^ k) (mset (queue_list (ar_bombs a)))"
    using repeat_bombs_survivors [OF assms(1)] by blast
  have "b\<lparr>bi_timer := countdown TICK_DELTA k BOMB_TIMER\<rparr> \<in># mset (queue_list (ar_bombs a'))"
    unfolding a'(2) using b by (intro survivors_iter_keep) simp_all
  then show "\<exists>a'. repeat_op (tick_bombs TICK_DELTA) k a = Some a'
      \<and> b\<lparr>bi_timer := countdown TICK_DELTA k BOMB_TIMER\<rparr> \<in> set (queue_list (ar_bombs a'))" using a'(1) by simp
next
  obtain a' where a': "repeat_op (tick_bombs TICK_DELTA) 63 a = Some a'" "arena_wf n a'"
      "mset (queue_list (ar_bombs a')) = (survivors TICK_DELTA ^^ 63) (mset (queue_list (ar_bombs a)))"
    using repeat_bombs_survivors [OF assms(1)] by blast
  have "b \<notin># mset (queue_list (ar_bombs a'))" for b
    using survivors_iter_age [of "mset (queue_list (ar_bombs a))" b 63] assms(2) unfolding a'(3) by (auto simp: bomb_age_def)
  then have "queue_list (ar_bombs a') = []" by (cases "queue_list (ar_bombs a')") auto
  then have "queue_empty (ar_bombs a')" using queue_empty_iff a'(2) by (auto simp: arena_wf_def queues_ok_def)
  then show "\<exists>a'. repeat_op (tick_bombs TICK_DELTA) 63 a = Some a' \<and> queue_empty (ar_bombs a')" using a'(1) by blast
qed

section \<open>The reach of an explosion\<close>

text \<open>The tiles in one direction, from step \<open>i\<close> on, up to the next wall.\<close>

definition ray :: "direction \<Rightarrow> int \<Rightarrow> int \<Rightarrow> int \<Rightarrow> int \<Rightarrow> Arena \<Rightarrow> (int \<times> int) set" where
  "ray d x y i s a = {dir_tile d x y j | j. i \<le> j \<and> j \<le> s \<and> (\<forall>m. i \<le> m \<and> m \<le> j \<longrightarrow> tile_at a (dir_tile d x y m) \<noteq> Some WALL)}"

definition flames :: "Arena \<Rightarrow> BombInfo \<Rightarrow> (int \<times> int) set" where
  "flames a b = (\<Union>d. ray d (fst (tile_pos (bi_position b))) (snd (tile_pos (bi_position b))) 1 (bi_spread b) a)"

lemma ray_stop: "\<not> (i \<le> s \<and> tile_at a (dir_tile d x y i) \<noteq> Some WALL) \<Longrightarrow> ray d x y i s a = {}"
  by (fastforce simp: ray_def)

lemma ray_step:
  assumes "i \<le> s" and "tile_at a (dir_tile d x y i) \<noteq> Some WALL"
  shows "ray d x y i s a = insert (dir_tile d x y i) (ray d x y (i + 1) s a)"
proof (intro set_eqI iffI)
  fix p assume "p \<in> ray d x y i s a"
  then obtain j where j: "p = dir_tile d x y j" "i \<le> j" "j \<le> s" "\<And>m. i \<le> m \<Longrightarrow> m \<le> j \<Longrightarrow> tile_at a (dir_tile d x y m) \<noteq> Some WALL"
    by (auto simp: ray_def)
  show "p \<in> insert (dir_tile d x y i) (ray d x y (i + 1) s a)"
  proof (cases "j = i")
    case False
    then have "p \<in> ray d x y (i + 1) s a" using j by (auto simp: ray_def intro!: exI [of _ j])
    then show ?thesis by simp
  qed (simp add: j(1))
next
  fix p assume "p \<in> insert (dir_tile d x y i) (ray d x y (i + 1) s a)"
  then consider "p = dir_tile d x y i" | "p \<in> ray d x y (i + 1) s a" by blast
  then show "p \<in> ray d x y i s a"
  proof cases
    case 1
    then show ?thesis using assms unfolding ray_def mem_Collect_eq by (intro exI [of _ i]) (auto simp: antisym)
  next
    case 2
    then obtain j where j: "p = dir_tile d x y j" "i + 1 \<le> j" "j \<le> s" "\<And>m. i + 1 \<le> m \<Longrightarrow> m \<le> j \<Longrightarrow> tile_at a (dir_tile d x y m) \<noteq> Some WALL"
      by (auto simp: ray_def)
    have "tile_at a (dir_tile d x y m) \<noteq> Some WALL" if "i \<le> m" "m \<le> j" for m
      using that assms(2) j(4) [of m] by (cases "m = i") auto
    then show ?thesis using j by (auto simp: ray_def intro!: exI [of _ j])
  qed
qed

lemma ray_walls:
  assumes "\<And>p. (tile_at a' p = Some WALL) = (tile_at a p = Some WALL)"
  shows "ray d x y i s a' = ray d x y i s a"
  by (simp add: ray_def assms)

lemma dir_tile_next:
  assumes "inner n (dir_tile d x y (i - 1))"
  shows "on_map n (dir_tile d x y i)" and "dir_ends d n (dir_tile d x y i) \<Longrightarrow> \<not> inner n (dir_tile d x y i)"
  using assms by (cases d; force simp: inner_def on_map_def)+

lemma spread_loop_reach:
  assumes "core_wf n a" and "inner n (dir_tile d x y (i - 1))" and "spread_loop d x y spread i e a = Some (e', a')"
  shows "\<forall>p. tile_at a' p = (if p \<in> ray d x y i spread a then Some EXPLOSION else tile_at a p)"
  using assms
proof (induction d x y spread i e a rule: spread_loop.induct)
  case (1 d x y spread i e a)
  let ?p = "dir_tile d x y i"
  let ?e = "e\<lparr>xi_spread_amt := (xi_spread_amt e)[dir_index d := i]\<rparr>"
  have n: "ar_size a = n" "square n (ar_map a)" "map_wf n (ar_map a)" using 1(2) by (auto simp: core_wf_def)
  obtain t where t: "tile_at a ?p = Some t"
    using grid_get_square [OF n(2), of "fst ?p" "snd ?p"] dir_tile_next(1) [OF 1(3)] by (auto simp: tile_at_def)
  have ends: "t = WALL" if "dir_ends d n ?p"
    using free_tile_inner [OF n(3), of "fst ?p" "snd ?p" t] dir_tile_next(2) [OF 1(3) that] t by (auto simp: tile_at_def)
  show ?case
  proof (cases "i \<le> spread \<and> t \<noteq> WALL")
    case False
    then have "a' = a" using 1(4) t ends n(1) by (subst (asm) spread_loop.simps) (auto simp: Let_def tile_at_def split: if_splits)
    then show ?thesis using False t ray_stop [of i spread a d x y] by auto
  next
    case True
    have fr: "free_at a (fst ?p, snd ?p)" using True t by (simp add: free_at_def)
    have ne: "\<not> dir_ends d n ?p" using ends True by blast
    obtain e1 a1 where h: "handle_spread (fst ?p) (snd ?p) ?e a = Some (e1, a1)" "spread_loop d x y spread (i + 1) e1 a1 = Some (e', a')"
      using 1(4) t True n(1) ne by (subst (asm) spread_loop.simps) (auto simp: Let_def tile_at_def split: option.splits)
    have room: "int (length (xi_positions ?e)) < xi_capacity ?e"
      using h(1) by (auto simp: handle_spread_def elim!: bind_SomeE split: if_splits)
    obtain a2 where a2: "handle_spread (fst ?p) (snd ?p) ?e a = Some (?e\<lparr>xi_positions := xi_positions ?e @ [(f_of_int (fst ?p), f_of_int (snd ?p))]\<rparr>, a2)"
        "core_wf n a2" "evolves a a2" "\<And>q. tile_at a2 q = (if q = (fst ?p, snd ?p) then Some EXPLOSION else tile_at a q)"
      using handle_spread_safe [OF 1(2) fr room] by blast
    have a1: "a1 = a2" using a2(1) h(1) by simp
    have inn: "inner n (dir_tile d x y (i + 1 - 1))" using free_at_inner [OF 1(2) fr] by simp
    have ih: "\<forall>p. tile_at a' p = (if p \<in> ray d x y (i + 1) spread a2 then Some EXPLOSION else tile_at a2 p)"
      using 1(1) [OF _ refl _ _ _ h(1) refl a2(2) [folded a1] inn h(2)] True n(1) ne t a1 by (simp add: tile_at_def)
    have "ray d x y (i + 1) spread a2 = ray d x y (i + 1) spread a"
      using t True by (intro ray_walls) (auto simp: a2(4))
    then show ?thesis using ih ray_step [of i spread a d x y] True t by (auto simp: a2(4))
  qed
qed

lemma direction_UNIV: "(UNIV :: direction set) = {Dir_up, Dir_down, Dir_left, Dir_right}"
  using direction.exhaust by auto

lemma trigger_stages:
  assumes "arena_wf n a" and "bomb_ok a b" and "tile_pos (bi_position b) = (x, y)"
  obtains e1 a1 e2 a2 e3 a3 e4 a4 where
    "spread_loop Dir_up x y (bi_spread b) 1 \<lparr>xi_center = bi_position b, xi_spread_amt = [0, 0, 0, 0], xi_capacity = 4 * bi_spread b,
       xi_positions = [], xi_timer = EXPLODE_LIFETIME\<rparr> (a\<lparr>ar_events := ar_events a @ [(x, y)]\<rparr>) = Some (e1, a1)"
    and "spread_loop Dir_down x y (bi_spread b) 1 e1 a1 = Some (e2, a2)" and "spread_loop Dir_left x y (bi_spread b) 1 e2 a2 = Some (e3, a3)"
    and "spread_loop Dir_right x y (bi_spread b) 1 e3 a3 = Some (e4, a4)"
    and "trigger_explosion b a = Some (a4\<lparr>ar_explodes := snd (queue_enqueue (ar_explodes a4) e4)\<rparr>)"
    and "core_wf n (a\<lparr>ar_events := ar_events a @ [(x, y)]\<rparr>)" and "core_wf n a1" and "core_wf n a2" and "core_wf n a3"
    and "\<And>d. inner n (dir_tile d x y (1 - 1))"
    and "\<And>d. ray d x y 1 (bi_spread b) (a\<lparr>ar_events := ar_events a @ [(x, y)]\<rparr>) = ray d x y 1 (bi_spread b) a"
    and "\<And>d. ray d x y 1 (bi_spread b) a1 = ray d x y 1 (bi_spread b) a" and "\<And>d. ray d x y 1 (bi_spread b) a2 = ray d x y 1 (bi_spread b) a"
    and "\<And>d. ray d x y 1 (bi_spread b) a3 = ray d x y 1 (bi_spread b) a"
proof -
  let ?s = "bi_spread b" and ?a0 = "a\<lparr>ar_events := ar_events a @ [(x, y)]\<rparr>"
  let ?e0 = "\<lparr>xi_center = bi_position b, xi_spread_amt = [0, 0, 0, 0], xi_capacity = 4 * ?s, xi_positions = [], xi_timer = EXPLODE_LIFETIME\<rparr>"
  have inn: "inner n (dir_tile d x y (1 - 1))" for d
    using free_at_inner [of n a] assms by (cases d) (auto simp: bomb_ok_def arena_wf_def)
  have on: "on_map n (x, y)" using inner_on_map [OF inn [of Dir_up]] by simp
  have s: "0 \<le> ?s" using assms(2) by (simp add: bomb_ok_def)
  have s0: "stage n b 0 ?e0 ?a0" using assms(1) by (simp add: stage_def flame_ok_def arena_wf_def core_wf_def pending_ok_def)
  obtain e1 a1 where r1: "spread_loop Dir_up x y ?s 1 ?e0 ?a0 = Some (e1, a1)" "stage n b (0 + 1) e1 a1"
    by (rule stage_step [OF s0 on s]) (simp, rule that)
  obtain e2 a2 where r2: "spread_loop Dir_down x y ?s 1 e1 a1 = Some (e2, a2)" "stage n b (0 + 1 + 1) e2 a2"
    by (rule stage_step [OF r1(2) on s]) (simp, rule that)
  obtain e3 a3 where r3: "spread_loop Dir_left x y ?s 1 e2 a2 = Some (e3, a3)" "stage n b (0 + 1 + 1 + 1) e3 a3"
    by (rule stage_step [OF r2(2) on s]) (simp, rule that)
  obtain e4 a4 where r4: "spread_loop Dir_right x y ?s 1 e3 a3 = Some (e4, a4)" "stage n b (0 + 1 + 1 + 1 + 1) e4 a4"
    by (rule stage_step [OF r3(2) on s]) (simp, rule that)
  have cw: "core_wf n ?a0" "core_wf n a1" "core_wf n a2" "core_wf n a3" using s0 r1(2) r2(2) r3(2) by (simp_all add: stage_def)
  note p1 = spread_loop_reach [OF cw(1) inn r1(1)] and p2 = spread_loop_reach [OF cw(2) inn r2(1)] and p3 = spread_loop_reach [OF cw(3) inn r3(1)]
  have rw: "ray d x y 1 ?s a' = ray d x y 1 ?s a''" if "\<forall>p. tile_at a' p = (if p \<in> ray d' x y 1 ?s a'' then Some EXPLOSION else tile_at a'' p)" for d d' a' a''
  proof (rule ray_walls)
    fix p
    have "tile_at a'' p \<noteq> Some WALL" if "p \<in> ray d' x y 1 ?s a''" using that by (auto simp: ray_def)
    then show "(tile_at a' p = Some WALL) = (tile_at a'' p = Some WALL)" using spec [OF that, of p] by (simp split: if_splits)
  qed
  have w0: "ray d x y 1 ?s ?a0 = ray d x y 1 ?s a" for d by (rule ray_walls) (simp add: tile_at_def)
  have w1: "ray d x y 1 ?s a1 = ray d x y 1 ?s a" for d using rw [OF p1] w0 by simp
  have w2: "ray d x y 1 ?s a2 = ray d x y 1 ?s a" for d using rw [OF p2] w1 by simp
  have w3: "ray d x y 1 ?s a3 = ray d x y 1 ?s a" for d using rw [OF p3] w2 by simp
  have "trigger_explosion b a = Some (a4\<lparr>ar_explodes := snd (queue_enqueue (ar_explodes a4) e4)\<rparr>)"
    using r1(1) r2(1) r3(1) r4(1) assms(3) by (simp add: trigger_explosion_def Let_def tile_pos_def)
  from that [OF r1(1) r2(1) r3(1) r4(1) this cw inn w0 w1 w2 w3] show thesis .
qed

text \<open>
  C28 (explosion_reach): An explosion turns exactly those tiles into flames that lie within its spread in one of the four directions with no wall in
  between; breakable tiles do not stop it, walls are never burnt, and no other tile changes.
\<close>

theorem explosion_reach:
  assumes "arena_wf n a" and "bomb_ok a b"
  shows "\<exists>a'. trigger_explosion b a = Some a' \<and> (\<forall>p. tile_at a' p = (if p \<in> flames a b then Some EXPLOSION else tile_at a p))"
proof -
  obtain x y where xy: "tile_pos (bi_position b) = (x, y)" by fastforce
  let ?s = "bi_spread b" and ?a0 = "a\<lparr>ar_events := ar_events a @ [(x, y)]\<rparr>"
  let ?r = "\<lambda>d. ray d x y 1 ?s a"
  show ?thesis
  proof (rule trigger_stages [OF assms xy])
    fix e1 a1 e2 a2 e3 a3 e4 a4
    assume l: "spread_loop Dir_up x y ?s 1 \<lparr>xi_center = bi_position b, xi_spread_amt = [0, 0, 0, 0], xi_capacity = 4 * ?s,
         xi_positions = [], xi_timer = EXPLODE_LIFETIME\<rparr> ?a0 = Some (e1, a1)"
        "spread_loop Dir_down x y ?s 1 e1 a1 = Some (e2, a2)" "spread_loop Dir_left x y ?s 1 e2 a2 = Some (e3, a3)"
        "spread_loop Dir_right x y ?s 1 e3 a3 = Some (e4, a4)"
      and t: "trigger_explosion b a = Some (a4\<lparr>ar_explodes := snd (queue_enqueue (ar_explodes a4) e4)\<rparr>)"
      and cw: "core_wf n ?a0" "core_wf n a1" "core_wf n a2" "core_wf n a3" and inn: "\<And>d. inner n (dir_tile d x y (1 - 1))"
      and w: "\<And>d. ray d x y 1 ?s ?a0 = ?r d" "\<And>d. ray d x y 1 ?s a1 = ?r d" "\<And>d. ray d x y 1 ?s a2 = ?r d" "\<And>d. ray d x y 1 ?s a3 = ?r d"
    note p = spread_loop_reach [OF cw(1) inn l(1), unfolded w] spread_loop_reach [OF cw(2) inn l(2), unfolded w]
      spread_loop_reach [OF cw(3) inn l(3), unfolded w] spread_loop_reach [OF cw(4) inn l(4), unfolded w]
    have fl: "flames a b = ?r Dir_up \<union> ?r Dir_down \<union> ?r Dir_left \<union> ?r Dir_right"
      unfolding flames_def direction_UNIV xy by auto
    have t0: "tile_at ?a0 p = tile_at a p" for p by (simp add: tile_at_def)
    have "tile_at a4 p = (if p \<in> flames a b then Some EXPLOSION else tile_at a p)" for p
      using spec [OF p(1), of p] spec [OF p(2), of p] spec [OF p(3), of p] spec [OF p(4), of p] unfolding fl t0 Un_iff by presburger
    moreover have "tile_at (a4\<lparr>ar_explodes := q\<rparr>) p = tile_at a4 p" for p q by (simp add: tile_at_def)
    ultimately show ?thesis using t by simp
  qed
qed

section \<open>Which bomb explodes\<close>

lemma trigger_explosion_event: "trigger_explosion b a = Some a' \<Longrightarrow> ar_events a' = ar_events a @ [tile_pos (bi_position b)]"
  by (auto simp: trigger_explosion_def Let_def tile_pos_def elim!: bind_SomeE dest!: spread_loop_fields)

lemma expire_bomb_event:
  assumes "queue_wf (ar_bombs a)" and "q_front (ar_bombs a) < i" and "i < q_rear (ar_bombs a)" and "expire_bomb i a = Some a'"
  shows "ar_events a' = ar_events a @ [tile_pos (bi_position (last (queue_list (ar_bombs a))))]"
proof -
  let ?q = "ar_bombs a"
  have "nat i < length (q_items ?q)" using assms(1-3) by (auto simp: queue_wf_def)
  moreover have "q_items ?q ! nat (q_rear ?q - 1) = last (queue_list ?q)" using queue_list_last(1) [OF assms(1)] assms(2,3) by simp
  ultimately show ?thesis
    using assms(4) by (auto simp: expire_bomb_def Let_def split: option.splits dest!: trigger_explosion_event write_tile_fields)
qed

lemma tick_bombs_loop_quiet:
  assumes "arena_wf n a" and "queue_list (ar_bombs a) = pre @ bs" and "int (length pre) = i - q_front (ar_bombs a) - 1"
    and "\<forall>b \<in> set bs. 0 < bi_timer (burn delta_time b)" and "tick_bombs_loop delta_time i a = Some a'"
  shows "ar_events a' = ar_events a"
  using assms
proof (induction bs arbitrary: i a pre)
  case Nil
  have "int (length (queue_list (ar_bombs a))) = q_rear (ar_bombs a) - q_front (ar_bombs a) - 1"
    using Nil(1) by (intro queue_list_length) (simp add: arena_wf_def queues_ok_def)
  then have "\<not> i < q_rear (ar_bombs a)" using Nil by simp
  then show ?case using Nil(5) by (subst (asm) tick_bombs_loop.simps) simp
next
  case (Cons b bs)
  let ?a1 = "count_bomb delta_time i a"
  have w: "queue_wf (ar_bombs a)" using Cons.prems(1) by (simp add: arena_wf_def queues_ok_def)
  note c = count_bomb_list(1,2) [where delta_time = delta_time, OF w Cons.prems(2,3)] count_bomb_list(3,4) [OF w Cons.prems(2,3)]
  have rng: "0 \<le> i \<and> nat i < length (q_items (ar_bombs a))" using c(3,4) w by (auto simp: queue_wf_def)
  have run: "tick_bombs_loop delta_time (i + 1) ?a1 = Some a'"
    using Cons.prems(4,5) c rng by (subst (asm) tick_bombs_loop.simps) (simp add: Let_def)
  have l: "queue_list (ar_bombs ?a1) = (pre @ [burn delta_time b]) @ bs" using c(1) by simp
  have k: "int (length (pre @ [burn delta_time b])) = i + 1 - q_front (ar_bombs ?a1) - 1" using Cons.prems(3) by simp
  have "ar_events a' = ar_events ?a1"
    using Cons.IH [OF count_bomb_safe(1) [OF Cons.prems(1) c(3,4)] l k _ run] Cons.prems(4) by simp
  then show ?case by (simp add: count_bomb_def Let_def)
qed

text \<open>
  Lemma (wrong_bomb_explodes): When the time of the oldest bomb is up and other bombs are still burning, the explosion takes place where the youngest bomb
  lies, with the youngest bomb's spread; the oldest bomb is gone without an explosion and the youngest stays in the queue to explode again.
\<close>

theorem wrong_bomb_explodes:
  assumes "arena_wf n a" and "queue_list (ar_bombs a) = b # bs @ [c]" and "bi_timer (burn delta_time b) \<le> 0"
    and "\<forall>x \<in> set (bs @ [c]). 0 < bi_timer (burn delta_time x)"
  shows "\<exists>a'. tick_bombs delta_time a = Some a' \<and> ar_events a' = ar_events a @ [tile_pos (bi_position c)]
     \<and> mset (queue_list (ar_bombs a')) = image_mset (burn delta_time) (mset (bs @ [c]))"
proof -
  let ?i = "q_front (ar_bombs a) + 1"
  let ?a1 = "count_bomb delta_time ?i a"
  obtain a' where a': "tick_bombs delta_time a = Some a'"
      "mset (queue_list (ar_bombs a')) = survivors delta_time (mset (queue_list (ar_bombs a)))"
    using tick_bombs_survivors [OF assms(1)] by blast
  have w: "queue_wf (ar_bombs a)" using assms(1) by (simp add: arena_wf_def queues_ok_def)
  have l0: "queue_list (ar_bombs a) = [] @ b # bs @ [c]" "int (length []) = ?i - q_front (ar_bombs a) - 1" using assms(2) by simp_all
  note s = count_bomb_list(1,2) [where delta_time = delta_time, OF w l0] count_bomb_list(3,4) [OF w l0]
  have rng: "0 \<le> ?i \<and> nat ?i < length (q_items (ar_bombs a))" using s(3,4) w by (auto simp: queue_wf_def)
  have w1: "arena_wf n ?a1" using count_bomb_safe(1) [OF assms(1) s(3,4)] .
  then have q1: "queue_wf (ar_bombs ?a1)" by (simp add: arena_wf_def queues_ok_def)
  obtain a2 where a2: "expire_bomb ?i ?a1 = Some a2" "arena_wf n a2" using expire_bomb_safe [OF w1, of ?i] s(3,4) by auto
  have ne: "\<not> queue_empty (ar_bombs a)" using queue_empty_iff [OF w] assms(2) by simp
  then have run: "tick_bombs_loop delta_time ?i a = Some a'" using a'(1) by (simp add: tick_bombs_def)
  have run2: "tick_bombs_loop delta_time ?i a2 = Some a'"
    using run s rng assms(3) a2(1) by (subst (asm) tick_bombs_loop.simps) (simp add: Let_def)
  have l1: "queue_list (ar_bombs ?a1) = [] @ burn delta_time b # bs @ [c]" using s(1) by simp
  have l2: "queue_list (ar_bombs a2) = [] @ c # bs" using expire_bomb_list [OF q1 l1 _ a2(1)] by simp
  have f2: "int (length []) = ?i - q_front (ar_bombs a2) - 1" using expire_bomb_queue [OF a2(1)] by simp
  have "ar_events a' = ar_events a2" using tick_bombs_loop_quiet [OF a2(2) l2 f2 _ run2] assms(4) by simp
  also have "\<dots> = ar_events ?a1 @ [tile_pos (bi_position c)]" using expire_bomb_event [OF q1 _ _ a2(1)] s(3,4) l1 by simp
  also have "ar_events ?a1 = ar_events a" by (simp add: count_bomb_def Let_def)
  finally have ev: "ar_events a' = ar_events a @ [tile_pos (bi_position c)]" .
  have "survivors delta_time (mset (queue_list (ar_bombs a))) = image_mset (burn delta_time) (mset (bs @ [c]))"
    using assms(3,4) unfolding assms(2) survivors_def by (auto simp: filter_mset_eq_conv)
  then show ?thesis using a' ev by simp
qed

section \<open>An arena to try it on\<close>

definition demo_bomb :: "int \<Rightarrow> int \<Rightarrow> f32 \<Rightarrow> BombInfo" where
  "demo_bomb x y t = \<lparr>bi_position = (of_int x, of_int y), bi_spread = 1, bi_timer = t\<rparr>"

definition demo_arena :: "BombInfo list \<Rightarrow> Arena" where
  "demo_arena bs = powerup_init
     \<lparr>ar_size = 5,
      ar_map = [[WALL, WALL, WALL, WALL, WALL], [WALL, EMPTY, EMPTY, BREAKABLE, WALL], [WALL, EMPTY, WALL, EMPTY, WALL],
                [WALL, EMPTY, EMPTY, EMPTY, WALL], [WALL, WALL, WALL, WALL, WALL]],
      ar_pending = None,
      ar_bombs = \<lparr>q_items = bs @ [demo_bomb 1 1 0], q_front = -1, q_rear = int (length bs)\<rparr>,
      ar_explodes = \<lparr>q_items = replicate 3 \<lparr>xi_center = (1, 1), xi_spread_amt = [0, 0, 0, 0], xi_capacity = 0, xi_positions = [], xi_timer = 0\<rparr>,
                     q_front = -1, q_rear = 0\<rparr>,
      ar_events = [], ar_rng = sconst 0\<rparr>"

lemma demo_arena_wf:
  assumes "list_all (\<lambda>b. tile_pos (bi_position b) \<in> {(1, 1), (3, 3), (1, 3)} \<and> 0 \<le> bi_spread b) bs"
  shows "arena_wf 5 (demo_arena bs)"
proof -
  have m: "map_wf 5 (ar_map (demo_arena bs))" unfolding map_wf_check demo_arena_def powerup_init_def by (simp; code_simp)
  have f: "free_at (demo_arena bs) p" if "p \<in> {(1, 1), (3, 3), (1, 3)}" for p
    using that by (auto simp: free_at_def tile_at_def demo_arena_def powerup_init_def grid_get_def in_grid_def)
  have "pending_ok 5 (demo_arena bs)" unfolding demo_arena_def by (rule powerup_init_pending) simp_all
  then have "core_wf 5 (demo_arena bs)" using m by (simp add: core_wf_def) (simp add: demo_arena_def powerup_init_def)
  moreover have "queue_list (ar_bombs (demo_arena bs)) = bs" "queue_wf (ar_bombs (demo_arena bs))"
    "queue_list (ar_explodes (demo_arena bs)) = []" "queue_wf (ar_explodes (demo_arena bs))"
    by (simp_all add: demo_arena_def powerup_init_def queue_list_def queue_wf_def)
  ultimately show ?thesis using assms f by (auto simp: arena_wf_def queues_ok_def bomb_ok_def list_all_iff)
qed

lemma demo_arena_list [simp]: "queue_list (ar_bombs (demo_arena bs)) = bs"
  by (simp add: demo_arena_def powerup_init_def queue_list_def)

lemma demo_arena_events: "ar_events (demo_arena bs) = []"
  by (simp add: demo_arena_def powerup_init_def)

lemma demo_bomb_pos: "tile_pos (bi_position (demo_bomb x y t)) = (x, y)" "0 \<le> bi_spread (demo_bomb x y t)"
  by (simp_all add: demo_bomb_def tile_pos_def f_to_int_def)

theorem bomb_fuse_witness:
  "\<exists>a'. repeat_op (tick_bombs TICK_DELTA) 63 (demo_arena [demo_bomb 1 1 BOMB_TIMER]) = Some a' \<and> queue_empty (ar_bombs a')"
proof -
  have "bomb_age 0 (demo_bomb 1 1 BOMB_TIMER)" by (simp add: bomb_age_def demo_bomb_def)
  moreover have "arena_wf 5 (demo_arena [demo_bomb 1 1 BOMB_TIMER])" by (rule demo_arena_wf) (simp add: demo_bomb_pos)
  ultimately show ?thesis using bomb_fuse [of 5 "demo_arena [demo_bomb 1 1 BOMB_TIMER]"] by auto
qed

theorem explosion_reach_witness:
  "\<exists>a'. trigger_explosion (demo_bomb 1 1 0) (demo_arena []) = Some a' \<and> tile_at a' (1, 2) = Some EXPLOSION \<and> tile_at a' (0, 1) = Some WALL"
proof -
  have w: "arena_wf 5 (demo_arena [])" by (rule demo_arena_wf) simp
  have b: "bomb_ok (demo_arena []) (demo_bomb 1 1 0)"
    by (simp add: bomb_ok_def demo_bomb_pos free_at_def tile_at_def demo_arena_def powerup_init_def grid_get_def in_grid_def)
  have t: "tile_at (demo_arena []) (1, 2) = Some EMPTY" "tile_at (demo_arena []) (0, 1) = Some WALL"
    by (simp_all add: tile_at_def demo_arena_def powerup_init_def grid_get_def in_grid_def)
  have "(1, 2) \<in> ray Dir_down 1 1 1 1 (demo_arena [])" using t(1) by (auto simp: ray_def intro!: exI [of _ 1] dest: antisym)
  then have "(1, 2) \<in> flames (demo_arena []) (demo_bomb 1 1 0)" unfolding flames_def demo_bomb_pos by (auto simp: demo_bomb_def)
  moreover have "(0, 1) \<notin> flames (demo_arena []) (demo_bomb 1 1 0)" using t(2) by (auto simp: flames_def ray_def)
  ultimately show ?thesis using explosion_reach [OF w b] t(2) by auto
qed

theorem wrong_bomb_explodes_witness:
  "\<exists>a'. tick_bombs TICK_DELTA (demo_arena [demo_bomb 1 1 0, demo_bomb 3 3 BOMB_TIMER]) = Some a' \<and> ar_events a' = [(3, 3)]"
proof -
  have "arena_wf 5 (demo_arena [demo_bomb 1 1 0, demo_bomb 3 3 BOMB_TIMER])" by (rule demo_arena_wf) (simp add: demo_bomb_pos)
  moreover have "bi_timer (burn TICK_DELTA (demo_bomb 1 1 0)) \<le> 0" "0 < bi_timer (burn TICK_DELTA (demo_bomb 3 3 BOMB_TIMER))"
    by code_simp+
  ultimately show ?thesis
    using wrong_bomb_explodes [of 5 "demo_arena [demo_bomb 1 1 0, demo_bomb 3 3 BOMB_TIMER]" "demo_bomb 1 1 0" "[]" "demo_bomb 3 3 BOMB_TIMER" TICK_DELTA]
    by (force simp: demo_bomb_pos demo_arena_events)
qed

end
