(* ===== verification/Bomb_Protocol.thy ===== *)
theory Bomb_Protocol
  imports Bytes
begin

text \<open>
  The packets of the bomb game, \<open>bomberman/src/lib/libbombprotocol/protocol.c\<close>: a four-byte tag and the
  payload's fields in network byte order, in the first 512 bytes of a buffer. A \<open>float\<close> is its 32 raw bits,
  which is how the code converts it (\<open>write_net_float\<close>, \<open>read_net_float\<close>); an \<open>int32_t\<close> is its 32 bits.
  The pack functions take the buffer with its old bytes, the unpack functions the payload with its old fields.
\<close>

type_synonym float_bits = u32
type_synonym i32 = u32

abbreviation (input) BOMBD_MAX_PLAYERS :: nat where "BOMBD_MAX_PLAYERS \<equiv> 25"
abbreviation (input) BOMBD_MAX_BOMBS :: nat where "BOMBD_MAX_BOMBS \<equiv> 100"
abbreviation (input) BOMBD_MAX_MAP_DIM :: nat where "BOMBD_MAX_MAP_DIM \<equiv> 20"
abbreviation (input) STATE_PACKET_MAX_PLAYERS :: u32 where "STATE_PACKET_MAX_PLAYERS \<equiv> 8"
abbreviation (input) STATE_PACKET_MAX_BOMBS :: u32 where "STATE_PACKET_MAX_BOMBS \<equiv> 16"
abbreviation (input) BOMB_PACKET_SIZE :: nat where "BOMB_PACKET_SIZE \<equiv> 512"

section \<open>Tags and payloads\<close>

datatype BombPacketType = PACKET_MOVE | PACKET_BOMB_PLACE | PACKET_ROSTER | PACKET_MAP_INIT | PACKET_TILE_UPDATE
  | PACKET_STATE | PACKET_EXPLOSION | PACKET_GAME_OVER

fun packet_tag :: "BombPacketType \<Rightarrow> u32" where
  "packet_tag PACKET_MOVE = 0"
| "packet_tag PACKET_BOMB_PLACE = 1"
| "packet_tag PACKET_ROSTER = 2"
| "packet_tag PACKET_MAP_INIT = 3"
| "packet_tag PACKET_TILE_UPDATE = 4"
| "packet_tag PACKET_STATE = 5"
| "packet_tag PACKET_EXPLOSION = 6"
| "packet_tag PACKET_GAME_OVER = 7"

record MovePayload =
  mv_player_id :: u32
  mv_dx :: i32
  mv_dy :: i32
  mv_sprinting :: u32

record BombPlacePayload =
  bp_player_id :: u32

record RosterPayload =
  ro_count :: u32
  ro_ids :: "u32 list"

record MapInitPayload =
  mi_map_size :: u32
  mi_tiles :: "u8 list"

record TileUpdatePayload =
  tu_x :: u32
  tu_y :: u32
  tu_tile :: u32

record PlayerStateEntry =
  ps_player_id :: u32
  ps_x :: float_bits
  ps_y :: float_bits
  ps_direction :: u32
  ps_is_moving :: u32
  ps_alive :: u32
  ps_num_bombs :: u32
  ps_remaining_bombs :: u32
  ps_num_fires :: u32

record BombStateEntry =
  bs_x :: float_bits
  bs_y :: float_bits
  bs_timer :: float_bits

record BombStatePayload =
  sp_player_count :: u32
  sp_players :: "PlayerStateEntry list"
  sp_bomb_count :: u32
  sp_bombs :: "BombStateEntry list"

record ExplosionPayload =
  ex_center_x :: float_bits
  ex_center_y :: float_bits
  ex_spread_amt :: "u32 list"

record GameOverPayload =
  go_winner_id :: u32

section \<open>Packing\<close>

definition write_tag :: "u8 list \<Rightarrow> BombPacketType \<Rightarrow> u8 list" where
  "write_tag buffer type = mem_write 0 (be32 (packet_tag type)) (mem_write 0 (replicate BOMB_PACKET_SIZE 0) buffer)"

definition read_bomb_packet_tag :: "u8 list \<Rightarrow> u32" where
  "read_bomb_packet_tag buffer = net32 0 buffer"

definition pack_move :: "u8 list \<Rightarrow> MovePayload \<Rightarrow> u8 list" where
  "pack_move buffer p =
     mem_write 4 (be32s [mv_player_id p, mv_dx p, mv_dy p, mv_sprinting p]) (write_tag buffer PACKET_MOVE)"

definition unpack_move :: "u8 list \<Rightarrow> MovePayload" where
  "unpack_move buffer = \<lparr>mv_player_id = net32 4 buffer, mv_dx = net32 8 buffer, mv_dy = net32 12 buffer,
     mv_sprinting = net32 16 buffer\<rparr>"

definition pack_bomb_place :: "u8 list \<Rightarrow> BombPlacePayload \<Rightarrow> u8 list" where
  "pack_bomb_place buffer p = mem_write 4 (be32s [bp_player_id p]) (write_tag buffer PACKET_BOMB_PLACE)"

definition unpack_bomb_place :: "u8 list \<Rightarrow> BombPlacePayload" where
  "unpack_bomb_place buffer = \<lparr>bp_player_id = net32 4 buffer\<rparr>"

definition pack_roster :: "u8 list \<Rightarrow> RosterPayload \<Rightarrow> u8 list" where
  "pack_roster buffer p =
     mem_write 4 (be32s (ro_count p # map (\<lambda>i. ro_ids p ! i) [0..<BOMBD_MAX_PLAYERS])) (write_tag buffer PACKET_ROSTER)"

definition unpack_roster :: "u8 list \<Rightarrow> RosterPayload" where
  "unpack_roster buffer = \<lparr>ro_count = net32 4 buffer, ro_ids = map (\<lambda>i. net32 (8 + 4 * i) buffer) [0..<BOMBD_MAX_PLAYERS]\<rparr>"

text \<open>\<open>tiles[20][20]\<close> in memory order; one byte per tile, no conversion.\<close>

definition pack_map_init :: "u8 list \<Rightarrow> MapInitPayload \<Rightarrow> u8 list" where
  "pack_map_init buffer p =
     mem_write 4 (be32 (mi_map_size p) @ take (BOMBD_MAX_MAP_DIM * BOMBD_MAX_MAP_DIM) (mi_tiles p)) (write_tag buffer PACKET_MAP_INIT)"

definition unpack_map_init :: "u8 list \<Rightarrow> MapInitPayload" where
  "unpack_map_init buffer =
     \<lparr>mi_map_size = net32 4 buffer, mi_tiles = take (BOMBD_MAX_MAP_DIM * BOMBD_MAX_MAP_DIM) (drop 8 buffer)\<rparr>"

definition pack_tile_update :: "u8 list \<Rightarrow> TileUpdatePayload \<Rightarrow> u8 list" where
  "pack_tile_update buffer p = mem_write 4 (be32s [tu_x p, tu_y p, tu_tile p]) (write_tag buffer PACKET_TILE_UPDATE)"

definition unpack_tile_update :: "u8 list \<Rightarrow> TileUpdatePayload" where
  "unpack_tile_update buffer = \<lparr>tu_x = net32 4 buffer, tu_y = net32 8 buffer, tu_tile = net32 12 buffer\<rparr>"

text \<open>The state packet is written entry by entry; \<open>out\<close> is the write pointer.\<close>

definition player_entry_fields :: "PlayerStateEntry \<Rightarrow> u32 list" where
  "player_entry_fields e = [ps_player_id e, ps_x e, ps_y e, ps_direction e, ps_is_moving e, ps_alive e, ps_num_bombs e,
     ps_remaining_bombs e, ps_num_fires e]"

definition bomb_entry_fields :: "BombStateEntry \<Rightarrow> u32 list" where
  "bomb_entry_fields b = [bs_x b, bs_y b, bs_timer b]"

definition write_out :: "u32 list \<Rightarrow> nat \<times> u8 list \<Rightarrow> nat \<times> u8 list" where
  "write_out ws = (\<lambda>(out, buffer). (out + 4 * length ws, mem_write out (be32s ws) buffer))"

definition pack_state :: "u8 list \<Rightarrow> BombStatePayload \<Rightarrow> u8 list" where
  "pack_state buffer p =
     (let player_count = (if sp_player_count p > STATE_PACKET_MAX_PLAYERS then STATE_PACKET_MAX_PLAYERS else sp_player_count p);
          bomb_count = (if sp_bomb_count p > STATE_PACKET_MAX_BOMBS then STATE_PACKET_MAX_BOMBS else sp_bomb_count p);
          s = write_out [player_count] (4, write_tag buffer PACKET_STATE);
          s = fold (\<lambda>i. write_out (player_entry_fields (sp_players p ! i))) [0..<unat player_count] s;
          s = write_out [bomb_count] s;
          s = fold (\<lambda>i. write_out (bomb_entry_fields (sp_bombs p ! i))) [0..<unat bomb_count] s
      in snd s)"

definition read_player_entry :: "nat \<Rightarrow> u8 list \<Rightarrow> PlayerStateEntry" where
  "read_player_entry inp buffer =
     \<lparr>ps_player_id = net32 inp buffer, ps_x = net32 (inp + 4) buffer, ps_y = net32 (inp + 8) buffer,
      ps_direction = net32 (inp + 12) buffer, ps_is_moving = net32 (inp + 16) buffer, ps_alive = net32 (inp + 20) buffer,
      ps_num_bombs = net32 (inp + 24) buffer, ps_remaining_bombs = net32 (inp + 28) buffer,
      ps_num_fires = net32 (inp + 32) buffer\<rparr>"

definition read_bomb_entry :: "nat \<Rightarrow> u8 list \<Rightarrow> BombStateEntry" where
  "read_bomb_entry inp buffer =
     \<lparr>bs_x = net32 inp buffer, bs_y = net32 (inp + 4) buffer, bs_timer = net32 (inp + 8) buffer\<rparr>"

text \<open>Reading entry by entry; \<open>inp\<close> is the read pointer.\<close>

definition read_entries :: "(nat \<Rightarrow> u8 list \<Rightarrow> 'e) \<Rightarrow> nat \<Rightarrow> u8 list \<Rightarrow> nat \<Rightarrow> nat \<times> 'e list \<Rightarrow> nat \<times> 'e list" where
  "read_entries rd sz buffer n = fold (\<lambda>i (inp, es). (inp + sz, es[i := rd inp buffer])) [0..<n]"

definition unpack_state :: "u8 list \<Rightarrow> BombStatePayload \<Rightarrow> BombStatePayload" where
  "unpack_state buffer p =
     (let player_count = (if net32 4 buffer > STATE_PACKET_MAX_PLAYERS then STATE_PACKET_MAX_PLAYERS else net32 4 buffer);
          (inp, players) = read_entries read_player_entry 36 buffer (unat player_count) (8, sp_players p);
          bomb_count = (if net32 inp buffer > STATE_PACKET_MAX_BOMBS then STATE_PACKET_MAX_BOMBS else net32 inp buffer);
          (_, bombs) = read_entries read_bomb_entry 12 buffer (unat bomb_count) (inp + 4, sp_bombs p)
      in \<lparr>sp_player_count = player_count, sp_players = players, sp_bomb_count = bomb_count, sp_bombs = bombs\<rparr>)"

definition pack_explosion :: "u8 list \<Rightarrow> ExplosionPayload \<Rightarrow> u8 list" where
  "pack_explosion buffer p =
     mem_write 4 (be32s (ex_center_x p # ex_center_y p # map (\<lambda>i. ex_spread_amt p ! i) [0..<4])) (write_tag buffer PACKET_EXPLOSION)"

definition unpack_explosion :: "u8 list \<Rightarrow> ExplosionPayload" where
  "unpack_explosion buffer =
     \<lparr>ex_center_x = net32 4 buffer, ex_center_y = net32 8 buffer, ex_spread_amt = map (\<lambda>i. net32 (12 + 4 * i) buffer) [0..<4]\<rparr>"

definition pack_game_over :: "u8 list \<Rightarrow> GameOverPayload \<Rightarrow> u8 list" where
  "pack_game_over buffer p = mem_write 4 (be32s [go_winner_id p]) (write_tag buffer PACKET_GAME_OVER)"

definition unpack_game_over :: "u8 list \<Rightarrow> GameOverPayload" where
  "unpack_game_over buffer = \<lparr>go_winner_id = net32 4 buffer\<rparr>"

section \<open>Lemmas\<close>

lemma write_tag_length [simp]: "BOMB_PACKET_SIZE \<le> length buffer \<Longrightarrow> length (write_tag buffer t) = length buffer"
  by (simp add: write_tag_def)

lemma write_tag_read: "BOMB_PACKET_SIZE \<le> length buffer \<Longrightarrow> net32 0 (write_tag buffer t) = packet_tag t"
  by (simp add: write_tag_def net32_def mem_write_def)

lemma write_tag_drop: "BOMB_PACKET_SIZE \<le> length buffer \<Longrightarrow> drop BOMB_PACKET_SIZE (write_tag buffer t) = drop BOMB_PACKET_SIZE buffer"
  by (simp add: write_tag_def mem_write_drop)

lemmas codec_defs = pack_move_def unpack_move_def pack_bomb_place_def unpack_bomb_place_def pack_tile_update_def
  unpack_tile_update_def pack_game_over_def unpack_game_over_def

interpretation move: codec "pack_move buffer" "\<lambda>b _. unpack_move b" "\<lambda>_. BOMB_PACKET_SIZE \<le> length buffer" for buffer
  by unfold_locales (simp add: codec_defs net32_mem_write)

interpretation bomb_place: codec "pack_bomb_place buffer" "\<lambda>b _. unpack_bomb_place b" "\<lambda>_. BOMB_PACKET_SIZE \<le> length buffer" for buffer
  by unfold_locales (simp add: codec_defs net32_mem_write)

interpretation roster: codec "pack_roster buffer" "\<lambda>b _. unpack_roster b"
  "\<lambda>p. BOMB_PACKET_SIZE \<le> length buffer \<and> length (ro_ids p) = BOMBD_MAX_PLAYERS" for buffer
proof (unfold_locales, elim conjE)
  fix x y :: RosterPayload
  assume a: "BOMB_PACKET_SIZE \<le> length buffer" and l: "length (ro_ids x) = BOMBD_MAX_PLAYERS"
  have "map (\<lambda>i. net32 (8 + 4 * i) (pack_roster buffer x)) [0..<BOMBD_MAX_PLAYERS] = ro_ids x"
    by (rule nth_equalityI) (use a l in \<open>simp_all add: pack_roster_def net32_mem_write del: upt_rec_numeral\<close>)
  moreover have "net32 4 (pack_roster buffer x) = ro_count x"
    using a by (simp add: pack_roster_def net32_mem_write del: upt_rec_numeral)
  ultimately show "unpack_roster (pack_roster buffer x) = x" by (simp add: unpack_roster_def del: upt_rec_numeral)
qed

interpretation map_init: codec "pack_map_init buffer" "\<lambda>b _. unpack_map_init b"
  "\<lambda>p. BOMB_PACKET_SIZE \<le> length buffer \<and> length (mi_tiles p) = BOMBD_MAX_MAP_DIM * BOMBD_MAX_MAP_DIM" for buffer
  by unfold_locales (auto simp: pack_map_init_def unpack_map_init_def net32_def mem_write_def)

interpretation tile_update: codec "pack_tile_update buffer" "\<lambda>b _. unpack_tile_update b" "\<lambda>_. BOMB_PACKET_SIZE \<le> length buffer" for buffer
  by unfold_locales (simp add: codec_defs net32_mem_write)

interpretation explosion: codec "pack_explosion buffer" "\<lambda>b _. unpack_explosion b"
  "\<lambda>p. BOMB_PACKET_SIZE \<le> length buffer \<and> length (ex_spread_amt p) = 4" for buffer
proof (unfold_locales, elim conjE)
  fix x y :: ExplosionPayload
  assume a: "BOMB_PACKET_SIZE \<le> length buffer" and l: "length (ex_spread_amt x) = 4"
  have "map (\<lambda>i. net32 (12 + 4 * i) (pack_explosion buffer x)) [0..<4] = ex_spread_amt x"
    by (rule nth_equalityI) (use a l in \<open>simp_all add: pack_explosion_def net32_mem_write del: upt_rec_numeral\<close>)
  moreover have "net32 4 (pack_explosion buffer x) = ex_center_x x" "net32 8 (pack_explosion buffer x) = ex_center_y x"
    using a by (simp_all add: pack_explosion_def net32_mem_write del: upt_rec_numeral)
  ultimately show "unpack_explosion (pack_explosion buffer x) = x" by (simp add: unpack_explosion_def del: upt_rec_numeral)
qed

interpretation game_over: codec "pack_game_over buffer" "\<lambda>b _. unpack_game_over b" "\<lambda>_. BOMB_PACKET_SIZE \<le> length buffer" for buffer
  by unfold_locales (simp add: codec_defs net32_mem_write)

section \<open>The state packet\<close>

text \<open>The words of the packet behind the tag: the loops write them one behind the other.\<close>

definition clamp_players :: "BombStatePayload \<Rightarrow> nat" where
  "clamp_players p = min 8 (unat (sp_player_count p))"

definition clamp_bombs :: "BombStatePayload \<Rightarrow> nat" where
  "clamp_bombs p = min 16 (unat (sp_bomb_count p))"

definition state_words :: "BombStatePayload \<Rightarrow> u32 list" where
  "state_words p =
     [of_nat (clamp_players p)] @ concat (map (\<lambda>i. player_entry_fields (sp_players p ! i)) [0..<clamp_players p])
     @ [of_nat (clamp_bombs p)] @ concat (map (\<lambda>i. bomb_entry_fields (sp_bombs p ! i)) [0..<clamp_bombs p])"

lemma fields_length [simp]: "length (player_entry_fields e) = 9" "length (bomb_entry_fields b) = 3"
  by (simp_all add: player_entry_fields_def bomb_entry_fields_def)

lemma state_words_length: "length (state_words p) = 2 + 9 * clamp_players p + 3 * clamp_bombs p"
  by (simp add: state_words_def length_concat_map [where m = 9] length_concat_map [where m = 3])

lemma state_words_fit: "4 * length (state_words p) \<le> 488"
  by (simp add: state_words_length clamp_players_def clamp_bombs_def)

lemma clamp_word:
  "(if (w :: u32) > 8 then 8 else w) = of_nat (min 8 (unat w))"
  "(if (w :: u32) > 16 then 16 else w) = of_nat (min 16 (unat w))"
  by (auto simp: word_less_nat_alt min_def)

lemma unat_clamp [simp]:
  "unat (of_nat (clamp_players p) :: u32) = clamp_players p"
  "unat (of_nat (clamp_bombs p) :: u32) = clamp_bombs p"
  by (simp_all add: clamp_players_def clamp_bombs_def unat_of_nat_u32 del: of_nat_min)

lemma write_out_step:
  "off \<le> length buf \<Longrightarrow> write_out ws (off + 4 * length a, mem_write off (be32s a) buf)
     = (off + 4 * length (a @ ws), mem_write off (be32s (a @ ws)) buf)"
  using mem_write_append [of off buf "be32s a" "be32s ws"] by (simp add: write_out_def be32s_append)

lemma write_out_fold:
  "off \<le> length buf \<Longrightarrow> fold (\<lambda>x. write_out (f x)) xs (off + 4 * length a, mem_write off (be32s a) buf)
     = (off + 4 * length (a @ concat (map f xs)), mem_write off (be32s (a @ concat (map f xs))) buf)"
proof (induction xs arbitrary: a)
  case (Cons x xs)
  then show ?case using write_out_step [of off buf "f x" a] Cons.IH [of "a @ f x"] by simp
qed simp

lemma pack_state_words:
  assumes "BOMB_PACKET_SIZE \<le> length buffer"
  shows "pack_state buffer p = mem_write 4 (be32s (state_words p)) (write_tag buffer PACKET_STATE)"
proof -
  let ?b = "write_tag buffer PACKET_STATE" and ?n = "clamp_players p" and ?m = "clamp_bombs p"
  have l: "4 \<le> length ?b" using assms by simp
  have 1: "write_out [w] (4, ?b) = (4 + 4 * length [w], mem_write 4 (be32s [w]) ?b)" for w
    by (simp add: write_out_def)
  show ?thesis
    unfolding pack_state_def Let_def clamp_word clamp_players_def [symmetric] clamp_bombs_def [symmetric] unat_clamp 1
      write_out_fold [OF l] write_out_step [OF l] state_words_def by simp
qed

lemma read_entries_map:
  "n \<le> length es \<Longrightarrow> read_entries rd sz buffer n (inp, es)
     = (inp + sz * n, map (\<lambda>i. rd (inp + sz * i) buffer) [0..<n] @ drop n es)"
proof (induction n)
  case (Suc n)
  then show ?case by (simp add: read_entries_def list_update_append Cons_nth_drop_Suc [symmetric])
qed (simp add: read_entries_def)

text \<open>A field of the packet: word \<open>k\<close> of the payload is read at offset \<open>4 + 4k\<close>.\<close>

lemma state_word_read:
  assumes "BOMB_PACKET_SIZE \<le> length buffer" and "k < length (state_words p)"
  shows "net32 (4 + 4 * k) (pack_state buffer p) = state_words p ! k"
  using assms net32_mem_write [of 4 "4 + 4 * k" "state_words p" "write_tag buffer PACKET_STATE"]
  by (simp add: pack_state_words)

lemma state_words_player:
  assumes "i < clamp_players p" and "k < 9"
  shows "state_words p ! (1 + 9 * i + k) = player_entry_fields (sp_players p ! i) ! k"
proof -
  let ?c = "concat (map (\<lambda>i. player_entry_fields (sp_players p ! i)) [0..<clamp_players p])"
  have "length ?c = 9 * clamp_players p" by (simp add: length_concat_map [where m = 9])
  then have "9 * i + k < length ?c" using assms by linarith
  then have "state_words p ! (1 + 9 * i + k) = ?c ! (9 * i + k)" by (simp add: state_words_def nth_append)
  also have "\<dots> = player_entry_fields (sp_players p ! i) ! k"
    using nth_concat_map [of "\<lambda>i. player_entry_fields (sp_players p ! i)" 9 i "[0..<clamp_players p]" k] assms by simp
  finally show ?thesis .
qed

lemma state_words_bomb:
  assumes "i < clamp_bombs p" and "k < 3"
  shows "state_words p ! (2 + 9 * clamp_players p + 3 * i + k) = bomb_entry_fields (sp_bombs p ! i) ! k"
proof -
  let ?a = "of_nat (clamp_players p) # concat (map (\<lambda>i. player_entry_fields (sp_players p ! i)) [0..<clamp_players p]) @ [of_nat (clamp_bombs p) :: u32]"
  let ?c = "concat (map (\<lambda>i. bomb_entry_fields (sp_bombs p ! i)) [0..<clamp_bombs p])"
  have s: "state_words p = ?a @ ?c" by (simp add: state_words_def)
  have a: "length ?a = 2 + 9 * clamp_players p" by (simp add: length_concat_map [where m = 9])
  have "state_words p ! (length ?a + (3 * i + k)) = ?c ! (3 * i + k)" unfolding s by (rule nth_append_length_plus)
  then have "state_words p ! (2 + 9 * clamp_players p + 3 * i + k) = ?c ! (3 * i + k)"
    unfolding a by (simp add: add.assoc)
  also have "\<dots> = bomb_entry_fields (sp_bombs p ! i) ! k"
    using nth_concat_map [of "\<lambda>i. bomb_entry_fields (sp_bombs p ! i)" 3 i "[0..<clamp_bombs p]" k] assms by simp
  finally show ?thesis .
qed

lemma state_words_counts:
  "state_words p ! 0 = of_nat (clamp_players p)"
  "state_words p ! (1 + 9 * clamp_players p) = of_nat (clamp_bombs p)"
proof -
  show "state_words p ! 0 = of_nat (clamp_players p)" by (simp add: state_words_def)
  let ?c = "concat (map (\<lambda>i. player_entry_fields (sp_players p ! i)) [0..<clamp_players p])"
  have "length ?c = 9 * clamp_players p" by (simp add: length_concat_map [where m = 9])
  then show "state_words p ! (1 + 9 * clamp_players p) = of_nat (clamp_bombs p)"
    by (simp add: state_words_def nth_append)
qed

lemma read_player_packed:
  assumes "BOMB_PACKET_SIZE \<le> length buffer" and "i < clamp_players p"
  shows "read_player_entry (8 + 36 * i) (pack_state buffer p) = sp_players p ! i"
proof -
  have f: "net32 (8 + 36 * i + 4 * k) (pack_state buffer p) = player_entry_fields (sp_players p ! i) ! k" if "k < 9" for k
  proof -
    have "1 + 9 * i + k < length (state_words p)" using assms(2) that unfolding state_words_length by linarith
    moreover have "8 + 36 * i + 4 * k = 4 + 4 * (1 + 9 * i + k)" by simp
    ultimately show ?thesis using state_word_read [OF assms(1)] state_words_player [OF assms(2) that] by metis
  qed
  show ?thesis
    using f [of 0] f [of 1] f [of 2] f [of 3] f [of 4] f [of 5] f [of 6] f [of 7] f [of 8]
    by (simp add: read_player_entry_def player_entry_fields_def)
qed

lemma read_bomb_packed:
  assumes "BOMB_PACKET_SIZE \<le> length buffer" and "i < clamp_bombs p"
  shows "read_bomb_entry (12 + 36 * clamp_players p + 12 * i) (pack_state buffer p) = sp_bombs p ! i"
proof -
  have f: "net32 (12 + 36 * clamp_players p + 12 * i + 4 * k) (pack_state buffer p) = bomb_entry_fields (sp_bombs p ! i) ! k"
    if "k < 3" for k
  proof -
    have "2 + 9 * clamp_players p + 3 * i + k < length (state_words p)" using assms(2) that unfolding state_words_length by linarith
    moreover have "12 + 36 * clamp_players p + 12 * i + 4 * k = 4 + 4 * (2 + 9 * clamp_players p + 3 * i + k)" by simp
    ultimately show ?thesis using state_word_read [OF assms(1)] state_words_bomb [OF assms(2) that] by metis
  qed
  show ?thesis using f [of 0] f [of 1] f [of 2] by (simp add: read_bomb_entry_def bomb_entry_fields_def)
qed

lemma state_counts_read:
  assumes "BOMB_PACKET_SIZE \<le> length buffer"
  shows "net32 4 (pack_state buffer p) = of_nat (clamp_players p)"
    "net32 (8 + 36 * clamp_players p) (pack_state buffer p) = of_nat (clamp_bombs p)"
proof -
  show "net32 4 (pack_state buffer p) = of_nat (clamp_players p)"
    using state_word_read [OF assms, of 0 p] state_words_counts(1) by (simp add: state_words_length)
  have "8 + 36 * clamp_players p = 4 + 4 * (1 + 9 * clamp_players p)" by simp
  then show "net32 (8 + 36 * clamp_players p) (pack_state buffer p) = of_nat (clamp_bombs p)"
    using state_word_read [OF assms, of "1 + 9 * clamp_players p" p] state_words_counts(2) [of p]
    by (simp add: state_words_length del: One_nat_def)
qed

definition state_payload_ok :: "BombStatePayload \<Rightarrow> bool" where
  "state_payload_ok p \<longleftrightarrow> length (sp_players p) = BOMBD_MAX_PLAYERS \<and> length (sp_bombs p) = BOMBD_MAX_BOMBS"

lemma map_nth_upt_take: "n \<le> length xs \<Longrightarrow> map (\<lambda>i. xs ! i) [0..<n] = take n xs"
  by (simp add: list_eq_iff_nth_eq)

lemma clamp_idem:
  "(if (of_nat (clamp_players p) :: u32) > 8 then 8 else of_nat (clamp_players p)) = (of_nat (clamp_players p) :: u32)"
  "(if (of_nat (clamp_bombs p) :: u32) > 16 then 16 else of_nat (clamp_bombs p)) = (of_nat (clamp_bombs p) :: u32)"
  unfolding clamp_word unat_clamp by (simp_all add: clamp_players_def clamp_bombs_def)

lemma unpack_pack_state:
  assumes b: "BOMB_PACKET_SIZE \<le> length buffer" and p: "state_payload_ok p" and old: "state_payload_ok old"
  shows "unpack_state (pack_state buffer p) old =
    \<lparr>sp_player_count = of_nat (clamp_players p),
     sp_players = take (clamp_players p) (sp_players p) @ drop (clamp_players p) (sp_players old),
     sp_bomb_count = of_nat (clamp_bombs p),
     sp_bombs = take (clamp_bombs p) (sp_bombs p) @ drop (clamp_bombs p) (sp_bombs old)\<rparr>"
proof -
  let ?n = "clamp_players p" and ?m = "clamp_bombs p" and ?B = "pack_state buffer p"
  have le: "?n \<le> length (sp_players old)" "?n \<le> length (sp_players p)" "?m \<le> length (sp_bombs old)" "?m \<le> length (sp_bombs p)"
    using p old by (simp_all add: state_payload_ok_def clamp_players_def clamp_bombs_def)
  have pl: "map (\<lambda>i. read_player_entry (8 + 36 * i) ?B) [0..<?n] = take ?n (sp_players p)"
    unfolding map_nth_upt_take [OF le(2), symmetric] by (simp add: read_player_packed [OF b])
  have bo: "map (\<lambda>i. read_bomb_entry (8 + 36 * ?n + 4 + 12 * i) ?B) [0..<?m] = take ?m (sp_bombs p)"
    unfolding map_nth_upt_take [OF le(4), symmetric] using read_bomb_packed [OF b] by (simp add: add.commute add.left_commute)
  have e1: "read_entries read_player_entry 36 ?B ?n (8, sp_players old)
      = (8 + 36 * ?n, take ?n (sp_players p) @ drop ?n (sp_players old))"
    unfolding read_entries_map [OF le(1)] pl ..
  have e2: "read_entries read_bomb_entry 12 ?B ?m (8 + 36 * ?n + 4, sp_bombs old)
      = (8 + 36 * ?n + 4 + 12 * ?m, take ?m (sp_bombs p) @ drop ?m (sp_bombs old))"
    unfolding read_entries_map [OF le(3)] bo ..
  show ?thesis
    unfolding unpack_state_def Let_def state_counts_read(1) [OF b] clamp_idem unat_clamp e1 case_prod_conv
      state_counts_read(2) [OF b] e2 by simp
qed

section \<open>Properties\<close>

lemma packet_frame:
  assumes "BOMB_PACKET_SIZE \<le> length buffer" and "length bs \<le> 508"
  shows "drop BOMB_PACKET_SIZE (mem_write 4 bs (write_tag buffer t)) = drop BOMB_PACKET_SIZE buffer
       \<and> read_bomb_packet_tag (mem_write 4 bs (write_tag buffer t)) = packet_tag t"
  using assms by (simp add: mem_write_drop write_tag_drop read_bomb_packet_tag_def net32_before write_tag_read)

text \<open>
  Lemma (bomb_packets_framed): every pack function writes inside the first 512 bytes of the caller's buffer,
  whatever the payload, and the tag it writes is the one that a receiver reads to choose the unpack function.
\<close>

theorem bomb_packets_framed:
  assumes "BOMB_PACKET_SIZE \<le> length buffer"
  shows "list_all (\<lambda>b. drop BOMB_PACKET_SIZE b = drop BOMB_PACKET_SIZE buffer) [pack_move buffer mv, pack_bomb_place buffer bp, pack_roster buffer ro,
           pack_map_init buffer mi, pack_tile_update buffer tu, pack_state buffer sp, pack_explosion buffer ex,
           pack_game_over buffer go]
       \<and> map read_bomb_packet_tag [pack_move buffer mv, pack_bomb_place buffer bp, pack_roster buffer ro,
           pack_map_init buffer mi, pack_tile_update buffer tu, pack_state buffer sp, pack_explosion buffer ex,
           pack_game_over buffer go] = [0, 1, 2, 3, 4, 5, 6, 7]"
proof -
  have "length (be32s (state_words sp)) \<le> 508" using state_words_fit [of sp] by simp
  note st = packet_frame [OF assms this, of PACKET_STATE, folded pack_state_words [OF assms]]
  show ?thesis using assms st
    by (simp add: pack_roster_def pack_explosion_def pack_map_init_def codec_defs packet_frame
        del: upt_rec_numeral)
qed

theorem bomb_packets_framed_witness:
  "read_bomb_packet_tag (pack_move (replicate 2048 7) \<lparr>mv_player_id = 1, mv_dx = -1, mv_dy = 0, mv_sprinting = 1\<rparr>) = 0
   \<and> drop 512 (pack_game_over (replicate 2048 7) \<lparr>go_winner_id = 3\<rparr>) = replicate 1536 7"
  using bomb_packets_framed [of "replicate 2048 7" "\<lparr>mv_player_id = 1, mv_dx = -1, mv_dy = 0, mv_sprinting = 1\<rparr>"
      "\<lparr>bp_player_id = 1\<rparr>" "\<lparr>ro_count = 0, ro_ids = []\<rparr>" "\<lparr>mi_map_size = 12, mi_tiles = []\<rparr>"
      "\<lparr>tu_x = 1, tu_y = 1, tu_tile = 0\<rparr>" "\<lparr>sp_player_count = 0, sp_players = [], sp_bomb_count = 0, sp_bombs = []\<rparr>"
      "\<lparr>ex_center_x = 0, ex_center_y = 0, ex_spread_amt = [0, 0, 0, 0]\<rparr>" "\<lparr>go_winner_id = 3\<rparr>"] by simp

text \<open>
  Lemma (bomb_packets_roundtrip): each of the seven fixed packets is read back with every field it was packed
  from, whatever the buffer held before; tile codes travel as bytes and floats as their bits.
\<close>

theorem bomb_packets_roundtrip:
  assumes "BOMB_PACKET_SIZE \<le> length buffer" and "length (ro_ids ro) = BOMBD_MAX_PLAYERS"
    and "length (mi_tiles mi) = BOMBD_MAX_MAP_DIM * BOMBD_MAX_MAP_DIM" and "length (ex_spread_amt ex) = 4"
  shows "unpack_move (pack_move buffer mv) = mv \<and> unpack_bomb_place (pack_bomb_place buffer bp) = bp
       \<and> unpack_roster (pack_roster buffer ro) = ro \<and> unpack_map_init (pack_map_init buffer mi) = mi
       \<and> unpack_tile_update (pack_tile_update buffer tu) = tu \<and> unpack_explosion (pack_explosion buffer ex) = ex
       \<and> unpack_game_over (pack_game_over buffer go) = go"
  using assms by (simp add: move.dec_enc bomb_place.dec_enc roster.dec_enc map_init.dec_enc tile_update.dec_enc
      explosion.dec_enc game_over.dec_enc)

theorem bomb_packets_roundtrip_witness:
  "unpack_explosion (pack_explosion (replicate 2048 0) \<lparr>ex_center_x = 1065353216, ex_center_y = 0, ex_spread_amt = [1, 2, 0, 1]\<rparr>)
     = \<lparr>ex_center_x = 1065353216, ex_center_y = 0, ex_spread_amt = [1, 2, 0, 1]\<rparr>"
  using bomb_packets_roundtrip [of "replicate 2048 0" "\<lparr>ro_count = 2, ro_ids = replicate 25 0\<rparr>"
      "\<lparr>mi_map_size = 12, mi_tiles = replicate 400 0\<rparr>"
      "\<lparr>ex_center_x = 1065353216, ex_center_y = 0, ex_spread_amt = [1, 2, 0, 1]\<rparr>"
      "\<lparr>mv_player_id = 1, mv_dx = -1, mv_dy = 0, mv_sprinting = 1\<rparr>" "\<lparr>bp_player_id = 1\<rparr>"
      "\<lparr>tu_x = 1, tu_y = 1, tu_tile = 0\<rparr>" "\<lparr>go_winner_id = 3\<rparr>"] by simp

text \<open>
  Lemma (state_packet_first_entries): a state packet delivers the first eight players and the first sixteen
  bombs exactly and the counts cut to these bounds; the receiver's further entries keep their old values.
\<close>

theorem state_packet_first_entries:
  assumes "BOMB_PACKET_SIZE \<le> length buffer" and "state_payload_ok p" and "state_payload_ok old"
    and "n = min 8 (unat (sp_player_count p))" and "m = min 16 (unat (sp_bomb_count p))"
  shows "unpack_state (pack_state buffer p) old =
    \<lparr>sp_player_count = of_nat n, sp_players = take n (sp_players p) @ drop n (sp_players old),
     sp_bomb_count = of_nat m, sp_bombs = take m (sp_bombs p) @ drop m (sp_bombs old)\<rparr>"
  unfolding assms(4,5) using unpack_pack_state [OF assms(1-3)] unfolding clamp_players_def clamp_bombs_def .

definition sample_state :: "u32 \<Rightarrow> BombStatePayload" where
  "sample_state k = \<lparr>sp_player_count = k, sp_players = replicate 25 \<lparr>ps_player_id = k, ps_x = 0, ps_y = 0, ps_direction = 0,
     ps_is_moving = 0, ps_alive = 1, ps_num_bombs = 2, ps_remaining_bombs = 2, ps_num_fires = 1\<rparr>,
     sp_bomb_count = 0, sp_bombs = replicate 100 \<lparr>bs_x = 0, bs_y = 0, bs_timer = 0\<rparr>\<rparr>"

theorem state_packet_first_entries_witness:
  "sp_player_count (unpack_state (pack_state (replicate 2048 0) (sample_state 9)) (sample_state 1)) = 8
   \<and> map ps_player_id (sp_players (unpack_state (pack_state (replicate 2048 0) (sample_state 9)) (sample_state 1)))
       = replicate 8 9 @ replicate 17 1"
  using state_packet_first_entries [of "replicate 2048 0" "sample_state 9" "sample_state 1" 8 0]
  by (simp add: sample_state_def state_payload_ok_def)

lemma net32_take: "n + 4 \<le> m \<Longrightarrow> net32 n (take m buffer) = net32 n buffer"
  by (simp add: net32_def drop_take)

lemma read_entries_take:
  assumes "inp + sz * n \<le> m" and "\<And>k. k + sz \<le> m \<Longrightarrow> rd k (take m buffer) = rd k buffer"
  shows "read_entries rd sz (take m buffer) n (inp, es) = read_entries rd sz buffer n (inp, es)
       \<and> fst (read_entries rd sz buffer n (inp, es)) = inp + sz * n
       \<and> length (snd (read_entries rd sz buffer n (inp, es))) = length es"
  using assms(1)
proof (induction n)
  case (Suc n)
  then have "rd (inp + sz * n) (take m buffer) = rd (inp + sz * n) buffer" by (intro assms(2)) simp
  with Suc show ?case by (auto simp: read_entries_def case_prod_beta)
qed (simp add: read_entries_def)

lemma clamped_unat:
  "unat (if (w :: u32) > 8 then 8 else w) \<le> 8" "unat (if (v :: u32) > 16 then 16 else v) \<le> 16"
  by (auto simp: word_less_nat_alt)

text \<open>
  Lemma (unpack_state_in_bounds): whatever the 512 bytes of a state packet are, the receiver reads none beyond
  them, and the counts it stores are within the packet's bounds, so the payload's arrays keep their sizes.
\<close>

theorem unpack_state_in_bounds:
  "unpack_state (take BOMB_PACKET_SIZE buffer) p = unpack_state buffer p
   \<and> unat (sp_player_count (unpack_state buffer p)) \<le> 8 \<and> unat (sp_bomb_count (unpack_state buffer p)) \<le> 16
   \<and> length (sp_players (unpack_state buffer p)) = length (sp_players p)
   \<and> length (sp_bombs (unpack_state buffer p)) = length (sp_bombs p)"
proof -
  let ?T = "take BOMB_PACKET_SIZE buffer"
  define pc where "pc = (if net32 4 buffer > 8 then 8 else net32 4 buffer)"
  have p8: "unat pc \<le> 8" unfolding pc_def by (rule clamped_unat)
  obtain inp ps where pl: "read_entries read_player_entry 36 buffer (unat pc) (8, sp_players p) = (inp, ps)" by fastforce
  have plT: "read_entries read_player_entry 36 ?T (unat pc) (8, sp_players p) = (inp, ps)"
    and inp: "inp = 8 + 36 * unat pc" and lps: "length ps = length (sp_players p)"
    using read_entries_take [of 8 36 "unat pc" BOMB_PACKET_SIZE read_player_entry buffer "sp_players p"] p8 pl
    by (simp_all add: read_player_entry_def net32_take)
  define bc where "bc = (if net32 inp buffer > 16 then 16 else net32 inp buffer)"
  have b16: "unat bc \<le> 16" unfolding bc_def by (rule clamped_unat)
  obtain j bs where bo: "read_entries read_bomb_entry 12 buffer (unat bc) (inp + 4, sp_bombs p) = (j, bs)" by fastforce
  have boT: "read_entries read_bomb_entry 12 ?T (unat bc) (inp + 4, sp_bombs p) = (j, bs)" and lbs: "length bs = length (sp_bombs p)"
    using read_entries_take [of "inp + 4" 12 "unat bc" BOMB_PACKET_SIZE read_bomb_entry buffer "sp_bombs p"] p8 b16 inp bo
    by (simp_all add: read_bomb_entry_def net32_take)
  have n: "net32 4 ?T = net32 4 buffer" "net32 inp ?T = net32 inp buffer" using inp p8 by (simp_all add: net32_take)
  have u: "unpack_state buffer p = \<lparr>sp_player_count = pc, sp_players = ps, sp_bomb_count = bc, sp_bombs = bs\<rparr>"
    unfolding unpack_state_def Let_def pc_def [symmetric] pl case_prod_conv bc_def [symmetric] bo by simp
  have "unpack_state ?T p = unpack_state buffer p"
    unfolding u unfolding unpack_state_def Let_def n pc_def [symmetric] plT case_prod_conv n bc_def [symmetric] boT by simp
  then show ?thesis using u p8 b16 lps lbs by simp
qed

end
