(* ===== verification/Bomb_Session.thy ===== *)
theory Bomb_Session
  imports Bomb_Blast Bomb_Protocol
begin

text \<open>
  The authoritative match of the bomb server: collisions (\<open>libbombbrain/collision.c\<close>) and the session (\<open>bombd/session.c\<close>).

  The vector functions of raymath belong to raylib and are the record \<open>raymath\<close>, with what their documentation says of them as \<open>raymath_law\<close>:
  sum and product are computed component by component, and a normalised vector has length one up to rounding. A pointer to a player is
  the index of its slot.
\<close>

section \<open>Collisions\<close>

record raymath =
  rm_add :: "Vector2 \<Rightarrow> Vector2 \<Rightarrow> Vector2"
  rm_normalize :: "Vector2 \<Rightarrow> Vector2"
  rm_scale :: "Vector2 \<Rightarrow> f32 \<Rightarrow> Vector2"

definition raymath_law :: "raymath \<Rightarrow> bool" where
  "raymath_law rm \<longleftrightarrow>
     (\<forall>v w. rm_add rm v w = (f_add (fst v) (fst w), f_add (snd v) (snd w)))
     \<and> (\<forall>v s. rm_scale rm v s = (f_mul (fst v) s, f_mul (snd v) s))
     \<and> (\<forall>v. \<bar>fst (rm_normalize rm v)\<bar> \<le> 1 + 1 / 2 ^ 20 \<and> \<bar>snd (rm_normalize rm v)\<bar> \<le> 1 + 1 / 2 ^ 20)"

record BoundBox =
  bx_position :: Vector2
  bx_size :: Vector2

text \<open>The four bounds are integers stored in the \<open>float\<close> fields of a \<open>Vector4\<close>.\<close>

definition get_all_overlapping_tiles :: "f32 \<Rightarrow> f32 \<Rightarrow> Vector2 \<Rightarrow> f32 \<times> f32 \<times> f32 \<times> f32" where
  "get_all_overlapping_tiles x y sz =
     (let left = \<lfloor>x\<rfloor>; right = \<lceil>f_sub (f_add x (fst sz)) (f_lit (1 / 1000))\<rceil>;
          top = \<lfloor>y\<rfloor>; bottom = \<lceil>f_sub (f_add y (snd sz)) (f_lit (1 / 1000))\<rceil>
      in (f_of_int left, f_of_int right, f_of_int top, f_of_int bottom))"

text \<open>The tiles of the nested loops \<open>for ty ... for tx\<close> over these bounds.\<close>

definition box_tiles :: "f32 \<Rightarrow> f32 \<Rightarrow> Vector2 \<Rightarrow> (int \<times> int) list" where
  "box_tiles x y sz =
     (case get_all_overlapping_tiles x y sz of (tx0, tx1, ty0, ty1) \<Rightarrow>
        concat (map (\<lambda>ty. map (\<lambda>tx. (tx, ty)) [f_to_int tx0..f_to_int tx1 - 1]) [f_to_int ty0..f_to_int ty1 - 1]))"

fun any_solid :: "grid \<Rightarrow> (int \<times> int) list \<Rightarrow> bool option" where
  "any_solid g [] = Some False"
| "any_solid g (p # ps) =
     (case tile_is_solid g (fst p) (snd p) of None \<Rightarrow> None | Some b \<Rightarrow> if b then Some True else any_solid g ps)"

definition aabb_collided :: "grid \<Rightarrow> f32 \<Rightarrow> f32 \<Rightarrow> Vector2 \<Rightarrow> bool option" where
  "aabb_collided g x y sz = any_solid g (box_tiles x y sz)"

definition move_box :: "raymath \<Rightarrow> grid \<Rightarrow> BoundBox \<Rightarrow> Vector2 \<Rightarrow> BoundBox option" where
  "move_box rm g box move_amt =
     (let new_pos = rm_add rm (bx_position box) move_amt
      in case aabb_collided g (fst new_pos) (snd (bx_position box)) (bx_size box) of
           None \<Rightarrow> None
         | Some c1 \<Rightarrow>
             let x = (if c1 then fst (bx_position box) else fst new_pos)
             in case aabb_collided g x (snd new_pos) (bx_size box) of
                  None \<Rightarrow> None
                | Some c2 \<Rightarrow>
                    Some (box\<lparr>bx_position := (x, if c2 then snd (bx_position box) else snd new_pos)\<rparr>))"

definition get_center_box :: "BoundBox \<Rightarrow> Vector2" where
  "get_center_box box =
     (f_of_int \<lfloor>f_add (fst (bx_position box)) (f_mul (fst (bx_size box)) (f_lit (5 / 10)))\<rfloor>,
      f_of_int \<lfloor>f_add (snd (bx_position box)) (f_mul (snd (bx_size box)) (f_lit (5 / 10)))\<rfloor>)"

section \<open>The session\<close>

datatype Facing = FACING_UP | FACING_DOWN | FACING_LEFT | FACING_RIGHT

record BombPlayer =
  pl_player_id :: u32
  pl_active :: bool
  pl_alive :: bool
  pl_box :: BoundBox
  pl_direction :: Facing
  pl_is_moving :: bool
  pl_inventory :: InventoryStock
  pl_move_dx :: int
  pl_move_dy :: int
  pl_sprinting :: bool

record BombSession =
  se_players :: "BombPlayer list"
  se_count :: int
  se_dirty :: bool

definition SIM_PLAYER_SPEED :: f32 where "SIM_PLAYER_SPEED = f_lit 3"
definition SIM_PLAYER_SPRINT_SPEED :: f32 where "SIM_PLAYER_SPRINT_SPEED = f_lit (55 / 10)"
definition SIM_PLAYER_BOX_OFFSET :: Vector2 where "SIM_PLAYER_BOX_OFFSET = (f_lit (35 / 100), f_lit (10 / 100))"
definition SIM_PLAYER_BOX_SIZE :: Vector2 where "SIM_PLAYER_BOX_SIZE = (f_lit (42 / 100), f_lit (85 / 100))"

definition zero_player :: BombPlayer where
  "zero_player = \<lparr>pl_player_id = 0, pl_active = False, pl_alive = False, pl_box = \<lparr>bx_position = (0, 0), bx_size = (0, 0)\<rparr>,
     pl_direction = FACING_UP, pl_is_moving = False,
     pl_inventory = \<lparr>st_remaining_bombs = 0, st_num_bombs = 0, st_num_fires = 0, st_bomb_replenish_timer = 0\<rparr>,
     pl_move_dx = 0, pl_move_dy = 0, pl_sprinting = False\<rparr>"

text \<open>The scan for the tiles that \<open>map_generate\<close> marked, row by row, until \<open>max_spawns\<close> are found.\<close>

definition map_places :: "int \<Rightarrow> (int \<times> int) list" where
  "map_places n = concat (map (\<lambda>i. map (Pair i) [0..n - 1]) [0..n - 1])"

fun collect_spawns :: "(int \<times> int) list \<Rightarrow> nat \<Rightarrow> grid \<Rightarrow> ((int \<times> int) list \<times> grid) option" where
  "collect_spawns [] max_spawns g = Some ([], g)"
| "collect_spawns ((i, j) # ps) max_spawns g =
     (case max_spawns of
        0 \<Rightarrow> Some ([], g)
      | Suc k \<Rightarrow>
          (case grid_get g i j of
             None \<Rightarrow> None
           | Some t \<Rightarrow>
               if t = PLAYER
               then (case grid_put g i j EMPTY of
                       None \<Rightarrow> None
                     | Some g' \<Rightarrow> map_option (\<lambda>(qs, g''). ((i, j) # qs, g'')) (collect_spawns ps k g'))
               else collect_spawns ps (Suc k) g))"

definition init_player :: "raymath \<Rightarrow> (int \<times> int) list \<Rightarrow> u32 list \<Rightarrow> nat \<Rightarrow> BombPlayer" where
  "init_player rm spawns client_ids i =
     (let tile = (if i < length spawns then spawns ! i else (1, 1))
      in zero_player\<lparr>pl_player_id := client_ids ! i, pl_active := True, pl_alive := True,
           pl_box := \<lparr>bx_position = rm_add rm (f_of_int (fst tile), f_of_int (snd tile)) SIM_PLAYER_BOX_OFFSET, bx_size = SIM_PLAYER_BOX_SIZE\<rparr>,
           pl_direction := FACING_DOWN, pl_is_moving := False,
           pl_inventory := \<lparr>st_remaining_bombs = 2, st_num_bombs = 2, st_num_fires = 1, st_bomb_replenish_timer = 0\<rparr>\<rparr>)"

text \<open>The arena passed in holds the static queues of the program; its random numbers are those after \<open>srand\<close>.\<close>

definition init_session :: "raymath \<Rightarrow> u32 list \<Rightarrow> u32 \<Rightarrow> Arena \<Rightarrow> (BombSession \<times> Arena) option" where
  "init_session rm client_ids player_count a0 =
     (let n = min (unat player_count) BOMBD_MAX_PLAYERS
      in case map_generate (int n) (ar_rng a0) of
           None \<Rightarrow> None
         | Some (g, r) \<Rightarrow>
             let a1 = powerup_init (init_bombs (a0\<lparr>ar_size := calc_map_size (int n) + 2, ar_map := g, ar_rng := r\<rparr>))
             in case collect_spawns (map_places (ar_size a1)) n g of
                  None \<Rightarrow> None
                | Some (spawns, g') \<Rightarrow>
                    Some (\<lparr>se_players = map (init_player rm spawns client_ids) [0..<n] @ replicate (BOMBD_MAX_PLAYERS - n) zero_player,
                           se_count = int n, se_dirty = True\<rparr>, a1\<lparr>ar_map := g'\<rparr>))"

definition find_bomb_player :: "BombSession \<Rightarrow> u32 \<Rightarrow> nat option" where
  "find_bomb_player s player_id =
     List.find (\<lambda>i. pl_active (se_players s ! i) \<and> pl_player_id (se_players s ! i) = player_id) [0..<nat (se_count s)]"

definition apply_move :: "nat option \<Rightarrow> MovePayload \<Rightarrow> BombSession \<Rightarrow> BombSession" where
  "apply_move player move s =
     (case player of
        None \<Rightarrow> s
      | Some i \<Rightarrow>
          if \<not> pl_alive (se_players s ! i) then s
          else s\<lparr>se_players := (se_players s)[i := (se_players s ! i)\<lparr>pl_move_dx := sint (mv_dx move), pl_move_dy := sint (mv_dy move),
                   pl_sprinting := (mv_sprinting move \<noteq> 0)\<rparr>]\<rparr>)"

definition apply_bomb_place :: "nat option \<Rightarrow> BombSession \<times> Arena \<Rightarrow> (BombSession \<times> Arena) option" where
  "apply_bomb_place player sa =
     (case player of
        None \<Rightarrow> Some sa
      | Some i \<Rightarrow>
          (case sa of (s, a) \<Rightarrow>
             let p = se_players s ! i
             in if \<not> pl_alive p then Some (s, a)
                else (case place_bomb (get_center_box (pl_box p)) (pl_inventory p) a of
                        None \<Rightarrow> None
                      | Some (_, stock, a') \<Rightarrow> Some (s\<lparr>se_players := (se_players s)[i := p\<lparr>pl_inventory := stock\<rparr>]\<rparr>, a'))))"

text \<open>The movement of one player: the held direction, the walls, the direction faced.\<close>

definition facing :: "int \<Rightarrow> int \<Rightarrow> Facing \<Rightarrow> Facing" where
  "facing dx dy d = (if dy > 0 then FACING_UP else if dy < 0 then FACING_DOWN else if dx < 0 then FACING_LEFT
                     else if dx > 0 then FACING_RIGHT else d)"

definition player_move :: "raymath \<Rightarrow> f32 \<Rightarrow> grid \<Rightarrow> BombPlayer \<Rightarrow> (BombPlayer \<times> bool) option" where
  "player_move rm delta_time g p =
     (let moving = (pl_move_dx p \<noteq> 0 \<or> pl_move_dy p \<noteq> 0);
          speed = (if pl_sprinting p then SIM_PLAYER_SPRINT_SPEED else SIM_PLAYER_SPEED);
          move_vec = rm_normalize rm (f_of_int (pl_move_dx p), - f_of_int (pl_move_dy p))
      in case (if moving then move_box rm g (pl_box p) (rm_scale rm move_vec (f_mul speed delta_time)) else Some (pl_box p)) of
           None \<Rightarrow> None
         | Some box \<Rightarrow>
             Some (p\<lparr>pl_box := box, pl_direction := (if moving then facing (pl_move_dx p) (pl_move_dy p) (pl_direction p) else pl_direction p),
                     pl_is_moving := moving\<rparr>,
                   moving \<or> pl_is_moving p \<noteq> moving))"

definition on_arena :: "int \<Rightarrow> int \<times> int \<Rightarrow> bool" where
  "on_arena map_size p \<longleftrightarrow> \<not> (fst p < 0 \<or> snd p < 0 \<or> fst p \<ge> map_size \<or> snd p \<ge> map_size)"

fun pickups :: "(int \<times> int) list \<Rightarrow> InventoryStock \<times> bool \<times> Arena \<Rightarrow> (InventoryStock \<times> bool \<times> Arena) option" where
  "pickups [] st = Some st"
| "pickups (p # ps) (stock, dirty, a) =
     (if \<not> on_arena (ar_size a) p then pickups ps (stock, dirty, a)
      else (case grid_get (ar_map a) (fst p) (snd p) of
              None \<Rightarrow> None
            | Some t \<Rightarrow>
                if t = POWERUP_FIRE
                then (case write_tile (fst p) (snd p) EMPTY a of
                        None \<Rightarrow> None
                      | Some a' \<Rightarrow> pickups ps (stock\<lparr>st_num_fires := st_num_fires stock + 1\<rparr>, True, a'))
                else if t = POWERUP_BOMB
                then (case write_tile (fst p) (snd p) EMPTY a of
                        None \<Rightarrow> None
                      | Some a' \<Rightarrow> pickups ps (stock\<lparr>st_num_bombs := st_num_bombs stock + 1, st_remaining_bombs := st_remaining_bombs stock + 1\<rparr>, True, a'))
                else pickups ps (stock, dirty, a)))"

definition player_tiles :: "BombPlayer \<Rightarrow> (int \<times> int) list" where
  "player_tiles p = box_tiles (fst (bx_position (pl_box p))) (snd (bx_position (pl_box p))) (bx_size (pl_box p))"

definition player_tick :: "raymath \<Rightarrow> f32 \<Rightarrow> nat \<Rightarrow> BombSession \<times> Arena \<Rightarrow> (BombSession \<times> Arena) option" where
  "player_tick rm delta_time i sa =
     (case sa of (s, a) \<Rightarrow>
        let p = se_players s ! i
        in if \<not> pl_active p \<or> \<not> pl_alive p then Some (s, a)
           else (case player_move rm delta_time (ar_map a) p of
                   None \<Rightarrow> None
                 | Some (p1, moved) \<Rightarrow>
                     (case pickups (player_tiles p1) (pl_inventory p1, se_dirty s \<or> moved, a) of
                        None \<Rightarrow> None
                      | Some (stock, dirty, a') \<Rightarrow>
                          Some (s\<lparr>se_players := (se_players s)[i := p1\<lparr>pl_inventory := inventory_update stock delta_time\<rparr>], se_dirty := dirty\<rparr>, a'))))"

fun for_players :: "(nat \<Rightarrow> 's \<Rightarrow> 's option) \<Rightarrow> nat list \<Rightarrow> 's \<Rightarrow> 's option" where
  "for_players f [] s = Some s"
| "for_players f (i # is) s = (case f i s of None \<Rightarrow> None | Some s' \<Rightarrow> for_players f is s')"

definition apply_movement_and_pickups :: "raymath \<Rightarrow> f32 \<Rightarrow> BombSession \<times> Arena \<Rightarrow> (BombSession \<times> Arena) option" where
  "apply_movement_and_pickups rm delta_time sa = for_players (player_tick rm delta_time) [0..<nat (se_count (fst sa))] sa"

text \<open>The loops over the tiles stop as soon as the player is dead.\<close>

fun burnt :: "int \<Rightarrow> grid \<Rightarrow> (int \<times> int) list \<Rightarrow> bool option" where
  "burnt map_size g [] = Some False"
| "burnt map_size g (p # ps) =
     (if \<not> on_arena map_size p then burnt map_size g ps
      else (case grid_get g (fst p) (snd p) of None \<Rightarrow> None | Some t \<Rightarrow> if t = EXPLOSION then Some True else burnt map_size g ps))"

definition kill_player :: "nat \<Rightarrow> BombSession \<times> Arena \<Rightarrow> (BombSession \<times> Arena) option" where
  "kill_player i sa =
     (case sa of (s, a) \<Rightarrow>
        let p = se_players s ! i
        in if \<not> pl_active p \<or> \<not> pl_alive p then Some (s, a)
           else (case burnt (ar_size a) (ar_map a) (player_tiles p) of
                   None \<Rightarrow> None
                 | Some dead \<Rightarrow>
                     Some (if dead then s\<lparr>se_players := (se_players s)[i := p\<lparr>pl_alive := False\<rparr>], se_dirty := True\<rparr> else s, a)))"

definition kill_players_in_explosions :: "BombSession \<times> Arena \<Rightarrow> (BombSession \<times> Arena) option" where
  "kill_players_in_explosions sa = for_players kill_player [0..<nat (se_count (fst sa))] sa"

text \<open>The third component is what the callback \<open>on_explosion\<close> is called with, in order.\<close>

definition new_explosions :: "int \<Rightarrow> Arena \<Rightarrow> ExplosionInfo list" where
  "new_explosions before a = map (\<lambda>i. q_items (ar_explodes a) ! nat i) [before..q_rear (ar_explodes a) - 1]"

definition tick_session :: "raymath \<Rightarrow> f32 \<Rightarrow> BombSession \<times> Arena \<Rightarrow> (BombSession \<times> Arena \<times> ExplosionInfo list) option" where
  "tick_session rm delta_time sa =
     (case apply_movement_and_pickups rm delta_time sa of
        None \<Rightarrow> None
      | Some (s1, a1) \<Rightarrow>
          (case tick_bombs delta_time a1 of
             None \<Rightarrow> None
           | Some a2 \<Rightarrow>
               (case tick_explosions delta_time a2 of
                  None \<Rightarrow> None
                | Some a3 \<Rightarrow>
                    map_option (\<lambda>(s', a'). (s', a', new_explosions (q_rear (ar_explodes a1)) a2)) (kill_players_in_explosions (s1, a3)))))"

definition count_alive_players :: "BombSession \<Rightarrow> int" where
  "count_alive_players s =
     int (length (filter (\<lambda>p. pl_active p \<and> pl_alive p) (map (\<lambda>i. se_players s ! i) [0..<nat (se_count s)])))"

end
