(* ===== verification/Bomb_Match.thy ===== *)
theory Bomb_Match
  imports Bomb_Session
begin

text \<open>
  The invariant of a match of the bomb game: every player's box keeps clear of walls and breakable tiles, every access to the map stays inside
  its arrays, and the inventories stay within their bounds, over any interleaving of inputs and ticks.
\<close>

section \<open>Boxes and tiles\<close>

lemma f_add_error: "\<bar>x + y\<bar> \<le> 32 \<Longrightarrow> \<bar>f_add x y - (x + y)\<bar> \<le> 1 / 524288"
  using f32_round_error [of "x + y" 5] by (simp add: f_add_def)

lemma f_sub_error: "\<bar>x - y\<bar> \<le> 32 \<Longrightarrow> \<bar>f_sub x y - (x - y)\<bar> \<le> 1 / 524288"
  using f32_round_error [of "x - y" 5] by (simp add: f_sub_def)

lemma f_mul_error: "\<bar>x * y\<bar> \<le> 1 \<Longrightarrow> \<bar>f_mul x y - (x * y)\<bar> \<le> 1 / 16777216"
  using f32_round_error [of "x * y" 0] by (simp add: f_mul_def)

lemma f_to_of_int: "\<bar>k\<bar> < 2 ^ 24 \<Longrightarrow> f_to_int (f_of_int k) = k"
  by (simp add: f_to_int_def f_of_int_def f32_round_int)

definition box_edge :: "f32 \<Rightarrow> f32 \<Rightarrow> int" where
  "box_edge x w = \<lceil>f_sub (f_add x w) (f_lit (1 / 1000))\<rceil>"

lemma epsilon_value: "f_lit (1 / 1000) = 8589935 / 8589934592"
  by code_simp

lemma box_edge_bounds:
  assumes "0 \<le> x" and "x \<le> 31" and "0 \<le> w" and "w \<le> 9 / 10"
  shows "x + w - 11 / 10000 \<le> of_int (box_edge x w)" and "of_int (box_edge x w) < x + w - 9 / 10000 + 1"
proof -
  have a: "\<bar>f_add x w - (x + w)\<bar> \<le> 1 / 524288" using assms by (intro f_add_error) simp
  have "\<bar>f_add x w - f_lit (1 / 1000)\<bar> \<le> 32" using a assms unfolding epsilon_value by linarith
  then have s: "\<bar>f_sub (f_add x w) (f_lit (1 / 1000)) - (f_add x w - f_lit (1 / 1000))\<bar> \<le> 1 / 524288" by (rule f_sub_error)
  have c: "f_sub (f_add x w) (f_lit (1 / 1000)) \<le> of_int (box_edge x w)" "of_int (box_edge x w) < f_sub (f_add x w) (f_lit (1 / 1000)) + 1"
    unfolding box_edge_def by linarith+
  show "x + w - 11 / 10000 \<le> of_int (box_edge x w)" using a s c unfolding epsilon_value by linarith
  show "of_int (box_edge x w) < x + w - 9 / 10000 + 1" using a s c unfolding epsilon_value by linarith
qed

lemma box_size_value: "SIM_PLAYER_BOX_SIZE = (14092861 / 33554432, 14260634 / 16777216)"
  by code_simp

lemma box_tiles_set:
  assumes "0 \<le> x" and "x \<le> 31" and "0 \<le> y" and "y \<le> 31"
  shows "set (box_tiles x y SIM_PLAYER_BOX_SIZE) =
           {\<lfloor>x\<rfloor>..<box_edge x (fst SIM_PLAYER_BOX_SIZE)} \<times> {\<lfloor>y\<rfloor>..<box_edge y (snd SIM_PLAYER_BOX_SIZE)}"
proof -
  have small: "\<bar>\<lfloor>z\<rfloor>\<bar> < 2 ^ 24" "\<bar>box_edge z w\<bar> < 2 ^ 24" if "0 \<le> z" "z \<le> 31" "0 \<le> w" "w \<le> 9 / 10" for z w :: rat
  proof -
    have "0 \<le> \<lfloor>z\<rfloor>" "\<lfloor>z\<rfloor> \<le> 31" using that by linarith+
    then show "\<bar>\<lfloor>z\<rfloor>\<bar> < 2 ^ 24" by simp
    have "(of_int (-1) :: rat) < of_int (box_edge z w)" "of_int (box_edge z w) < (of_int 33 :: rat)"
      using box_edge_bounds [OF that] that by simp_all
    then have "-1 < box_edge z w" "box_edge z w < 33" by (simp_all only: of_int_less_iff)
    then show "\<bar>box_edge z w\<bar> < 2 ^ 24" by simp
  qed
  have w: "0 \<le> fst SIM_PLAYER_BOX_SIZE" "fst SIM_PLAYER_BOX_SIZE \<le> 9 / 10" "0 \<le> snd SIM_PLAYER_BOX_SIZE" "snd SIM_PLAYER_BOX_SIZE \<le> 9 / 10"
    by (simp_all add: box_size_value)
  show ?thesis
    unfolding box_tiles_def get_all_overlapping_tiles_def Let_def prod.case box_edge_def [symmetric]
      f_to_of_int [OF small(1) [OF assms(1,2) w(1,2)]] f_to_of_int [OF small(2) [OF assms(1,2) w(1,2)]]
      f_to_of_int [OF small(1) [OF assms(3,4) w(1,2)]] f_to_of_int [OF small(2) [OF assms(3,4) w(3,4)]]
    by auto
qed

lemma any_solid_False: "any_solid g ps = Some False \<longleftrightarrow> (\<forall>p \<in> set ps. tile_is_solid g (fst p) (snd p) = Some False)"
  by (induction ps) (auto split: option.splits)

lemma any_solid_total: "square n g \<Longrightarrow> \<forall>p \<in> set ps. on_map n p \<Longrightarrow> any_solid g ps \<noteq> None"
proof (induction ps)
  case (Cons p ps)
  obtain t where "grid_get g (fst p) (snd p) = Some t" using grid_get_square [OF Cons.prems(1), of "fst p" "snd p"] Cons.prems(2) by auto
  then show ?case using Cons by (auto simp: tile_is_solid_def)
qed simp

text \<open>A box that keeps clear of solid tiles lies inside the border.\<close>

definition box_ok :: "int \<Rightarrow> grid \<Rightarrow> BoundBox \<Rightarrow> bool" where
  "box_ok n g box \<longleftrightarrow> bx_size box = SIM_PLAYER_BOX_SIZE
     \<and> 0 \<le> fst (bx_position box) \<and> fst (bx_position box) \<le> 31 \<and> 0 \<le> snd (bx_position box) \<and> snd (bx_position box) \<le> 31
     \<and> aabb_collided g (fst (bx_position box)) (snd (bx_position box)) (bx_size box) = Some False"

definition fits :: "int \<Rightarrow> f32 \<Rightarrow> f32 \<Rightarrow> bool" where
  "fits n z w \<longleftrightarrow> 1 \<le> \<lfloor>z\<rfloor> \<and> box_edge z w \<le> n - 1"

lemma box_edge_above: "0 \<le> z \<Longrightarrow> z \<le> 31 \<Longrightarrow> 4 / 10 \<le> w \<Longrightarrow> w \<le> 9 / 10 \<Longrightarrow> \<lfloor>z\<rfloor> < box_edge z w"
proof -
  assume a: "0 \<le> z" "z \<le> 31" "4 / 10 \<le> w" "w \<le> 9 / 10"
  then have "z < of_int (box_edge z w)" using box_edge_bounds(1) [of z w] by linarith
  then show ?thesis by (simp add: floor_less_iff)
qed

lemma box_size_bounds:
  "4 / 10 \<le> fst SIM_PLAYER_BOX_SIZE" "fst SIM_PLAYER_BOX_SIZE \<le> 9 / 10" "4 / 10 \<le> snd SIM_PLAYER_BOX_SIZE" "snd SIM_PLAYER_BOX_SIZE \<le> 9 / 10"
  by (simp_all add: box_size_value)

lemma box_ok_fits:
  assumes "map_wf n g" and "box_ok n g box"
  shows "fits n (fst (bx_position box)) (fst SIM_PLAYER_BOX_SIZE)" and "fits n (snd (bx_position box)) (snd SIM_PLAYER_BOX_SIZE)"
proof -
  let ?x = "fst (bx_position box)" and ?y = "snd (bx_position box)"
  let ?r = "box_edge ?x (fst SIM_PLAYER_BOX_SIZE)" and ?b = "box_edge ?y (snd SIM_PLAYER_BOX_SIZE)"
  have r: "0 \<le> ?x" "?x \<le> 31" "0 \<le> ?y" "?y \<le> 31" using assms(2) by (simp_all add: box_ok_def)
  have free: "inner n p" if "p \<in> {\<lfloor>?x\<rfloor>..<?r} \<times> {\<lfloor>?y\<rfloor>..<?b}" for p
  proof -
    have "p \<in> set (box_tiles ?x ?y SIM_PLAYER_BOX_SIZE)" using that box_tiles_set [OF r] by simp
    then have "tile_is_solid g (fst p) (snd p) = Some False"
      using assms(2) by (simp add: box_ok_def aabb_collided_def any_solid_False)
    then show ?thesis using free_tile_inner [OF assms(1), of "fst p" "snd p"] by (auto simp: tile_is_solid_def)
  qed
  have lt: "\<lfloor>?x\<rfloor> < ?r" "\<lfloor>?y\<rfloor> < ?b" using r box_size_bounds by (simp_all add: box_edge_above)
  have "inner n (\<lfloor>?x\<rfloor>, \<lfloor>?y\<rfloor>)" "inner n (?r - 1, ?b - 1)" using lt by (auto intro!: free)
  then show "fits n ?x (fst SIM_PLAYER_BOX_SIZE)" "fits n ?y (snd SIM_PLAYER_BOX_SIZE)" by (auto simp: fits_def inner_def)
qed

text \<open>A step of at most 0.6 tiles from a place that fits reads only tiles of the map.\<close>

lemma step_on_map:
  assumes "fits n z w" and "n \<le> 30" and "0 \<le> z" and "z \<le> 31" and "\<bar>d\<bar> \<le> 3 / 5" and "4 / 10 \<le> w" and "w \<le> 9 / 10"
  shows "0 \<le> f_add z d" and "f_add z d \<le> 31" and "0 \<le> \<lfloor>f_add z d\<rfloor>" and "box_edge (f_add z d) w \<le> n"
proof -
  have z: "1 \<le> z" "z < of_int n - 1"
  proof -
    show "1 \<le> z" using assms(1) by (simp add: fits_def le_floor_iff)
    have "\<lfloor>z\<rfloor> < n - 1" using box_edge_above [of z w] assms by (simp add: fits_def)
    then show "z < of_int n - 1" by (simp add: floor_less_iff)
  qed
  have n: "of_int n \<le> (30 :: rat)" using assms(2) by simp
  have e: "\<bar>f_add z d - (z + d)\<bar> \<le> 1 / 524288" using z n assms(5) by (intro f_add_error) linarith
  show lo: "0 \<le> f_add z d" and hi: "f_add z d \<le> 31" using e z n assms(5) by linarith+
  then show "0 \<le> \<lfloor>f_add z d\<rfloor>" by simp
  have old: "z + w - 11 / 10000 \<le> of_int (box_edge z w)" using box_edge_bounds(1) [of z w] assms by simp
  have new: "of_int (box_edge (f_add z d) w) < f_add z d + w - 9 / 10000 + 1" using box_edge_bounds(2) [OF lo hi, of w] assms by simp
  have "of_int (box_edge z w) \<le> (of_int n - 1 :: rat)" 
    using assms(1) unfolding fits_def by (metis of_int_1 of_int_diff of_int_le_iff)
  then have "of_int (box_edge (f_add z d) w) < (of_int (n + 1) :: rat)"
    using old new e assms(5) unfolding of_int_add of_int_1 by linarith
  then show "box_edge (f_add z d) w \<le> n" by simp
qed

lemma aabb_total:
  assumes "square n g" and "0 \<le> x" and "x \<le> 31" and "0 \<le> y" and "y \<le> 31" and "0 \<le> \<lfloor>x\<rfloor>" and "0 \<le> \<lfloor>y\<rfloor>"
    and "box_edge x (fst SIM_PLAYER_BOX_SIZE) \<le> n" and "box_edge y (snd SIM_PLAYER_BOX_SIZE) \<le> n"
  obtains c where "aabb_collided g x y SIM_PLAYER_BOX_SIZE = Some c"
proof -
  have "\<forall>p \<in> set (box_tiles x y SIM_PLAYER_BOX_SIZE). on_map n p"
    unfolding box_tiles_set [OF assms(2-5)] using assms(6-9) by (auto simp: on_map_def simp del: zero_le_floor)
  then show thesis using any_solid_total [OF assms(1)] that by (auto simp: aabb_collided_def)
qed

lemma move_box_safe:
  assumes "map_wf n g" and "n \<le> 30" and "box_ok n g box" and "raymath_law rm" and "\<bar>fst amt\<bar> \<le> 3 / 5" and "\<bar>snd amt\<bar> \<le> 3 / 5"
  obtains box' where "move_box rm g box amt = Some box'" and "box_ok n g box'"
proof -
  let ?x = "fst (bx_position box)" and ?y = "snd (bx_position box)"
  let ?x' = "f_add ?x (fst amt)" and ?y' = "f_add ?y (snd amt)"
  have sq: "square n g" using assms(1) by auto
  have r: "0 \<le> ?x" "?x \<le> 31" "0 \<le> ?y" "?y \<le> 31" and sz: "bx_size box = SIM_PLAYER_BOX_SIZE"
    and ok: "aabb_collided g ?x ?y SIM_PLAYER_BOX_SIZE = Some False"
    using assms(3) by (auto simp: box_ok_def)
  note fit = box_ok_fits [OF assms(1,3)]
  note sx = step_on_map [OF fit(1) assms(2) r(1,2) assms(5) box_size_bounds(1,2)]
  note sy = step_on_map [OF fit(2) assms(2) r(3,4) assms(6) box_size_bounds(3,4)]
  have fy: "0 \<le> \<lfloor>?y\<rfloor>" "box_edge ?y (snd SIM_PLAYER_BOX_SIZE) \<le> n" and fx: "0 \<le> \<lfloor>?x\<rfloor>" "box_edge ?x (fst SIM_PLAYER_BOX_SIZE) \<le> n"
    using fit by (auto simp: fits_def)
  obtain c1 where c1: "aabb_collided g ?x' ?y SIM_PLAYER_BOX_SIZE = Some c1" using aabb_total [OF sq sx(1,2) r(3,4) sx(3) fy(1) sx(4) fy(2)] .
  define x2 where "x2 = (if c1 then ?x else ?x')"
  have x2: "0 \<le> x2" "x2 \<le> 31" "0 \<le> \<lfloor>x2\<rfloor>" "box_edge x2 (fst SIM_PLAYER_BOX_SIZE) \<le> n"
    using sx fx r by (auto simp: x2_def)
  have k2: "aabb_collided g x2 ?y SIM_PLAYER_BOX_SIZE = Some False" using ok c1 by (cases c1) (simp_all add: x2_def)
  obtain c2 where c2: "aabb_collided g x2 ?y' SIM_PLAYER_BOX_SIZE = Some c2" using aabb_total [OF sq x2(1,2) sy(1,2) x2(3) sy(3) x2(4) sy(4)] .
  let ?box = "box\<lparr>bx_position := (x2, if c2 then ?y else ?y')\<rparr>"
  have "rm_add rm (bx_position box) amt = (?x', ?y')" using assms(4) unfolding raymath_law_def by blast
  then have "move_box rm g box amt = Some ?box"
    using c1 c2 by (cases c1) (simp_all add: move_box_def sz x2_def)
  moreover have "box_ok n g ?box" using k2 c2 x2 r sy sz by (cases c2) (simp_all add: box_ok_def)
  ultimately show thesis using that by blast
qed

lemma box_ok_evolves:
  assumes "box_ok n (ar_map a) box" and "evolves a a'"
  shows "box_ok n (ar_map a') box"
proof -
  have "tile_is_solid (ar_map a') (fst p) (snd p) = Some False" if sol: "tile_is_solid (ar_map a) (fst p) (snd p) = Some False" for p
  proof -
    obtain t where t: "tile_at a p = Some t" "\<not> solid t" 
      using sol by (cases "grid_get (ar_map a) (fst p) (snd p)") (auto simp: tile_is_solid_def tile_at_def solid_def)
    have ev: "(tile_at a' p = None) = (tile_at a p = None)" "\<And>s. tile_at a' p = Some s \<Longrightarrow> solid s \<Longrightarrow> tile_at a p = Some s"
      using assms(2) unfolding evolves_def by blast+
    obtain t' where t': "tile_at a' p = Some t'" using ev(1) t(1) by (cases "tile_at a' p") auto
    have "\<not> solid t'" using ev(2) [OF t'] t by auto
    then show ?thesis using t' by (simp add: tile_is_solid_def tile_at_def solid_def)
  qed
  then show ?thesis using assms(1) unfolding box_ok_def aabb_collided_def any_solid_False by blast
qed

lemma center_on_map:
  assumes "map_wf n g" and "n \<le> 30" and "box_ok n g box"
  shows "on_map n (tile_pos (get_center_box box))"
proof -
  have half: "f_mul (fst SIM_PLAYER_BOX_SIZE) (f_lit (5 / 10)) = 14092861 / 67108864" "f_mul (snd SIM_PLAYER_BOX_SIZE) (f_lit (5 / 10)) = 14260634 / 33554432"
    by code_simp+
  have c: "0 \<le> \<lfloor>f_add z h\<rfloor>" "\<lfloor>f_add z h\<rfloor> < n" if "fits n z w" "0 \<le> z" "z \<le> 31" "4 / 10 \<le> w" "w \<le> 9 / 10" "0 \<le> h" "h \<le> 3 / 5" for z w h
  proof -
    note s = step_on_map [OF that(1) assms(2) that(2,3), of h, OF _ that(4,5)]
    have h: "\<bar>h\<bar> \<le> 3 / 5" using that(6,7) by simp
    show "0 \<le> \<lfloor>f_add z h\<rfloor>" using s(3) [OF h] .
    have "\<lfloor>f_add z h\<rfloor> < box_edge (f_add z h) w" using s(1,2) [OF h] that(4,5) by (intro box_edge_above)
    then show "\<lfloor>f_add z h\<rfloor> < n" using s(4) [OF h] by simp
  qed
  have small: "\<bar>k\<bar> < 2 ^ 24" if "0 \<le> k" "k < n" for k using that assms(2) by simp
  have r: "0 \<le> fst (bx_position box)" "fst (bx_position box) \<le> 31" "0 \<le> snd (bx_position box)" "snd (bx_position box) \<le> 31"
    and sz: "bx_size box = SIM_PLAYER_BOX_SIZE" using assms(3) by (auto simp: box_ok_def)
  note cx = c [OF box_ok_fits(1) [OF assms(1,3)] r(1,2) box_size_bounds(1,2), of "14092861 / 67108864"]
  note cy = c [OF box_ok_fits(2) [OF assms(1,3)] r(3,4) box_size_bounds(3,4), of "14260634 / 33554432"]
  have e: "tile_pos (get_center_box box) = (\<lfloor>f_add (fst (bx_position box)) (14092861 / 67108864)\<rfloor>, \<lfloor>f_add (snd (bx_position box)) (14260634 / 33554432)\<rfloor>)"
    unfolding get_center_box_def sz half tile_pos_def fst_conv snd_conv using cx cy small by (simp only: f_to_of_int)
  show ?thesis unfolding e on_map_def fst_conv snd_conv using cx cy by simp
qed

section \<open>The start of a match\<close>

lemma spawn_box_ok:
  assumes "inner n (tx, ty)" and "n \<le> 30" and "raymath_law rm" and "grid_get g tx ty = Some t" and "\<not> solid t"
  defines "pos \<equiv> rm_add rm (f_of_int tx, f_of_int ty) SIM_PLAYER_BOX_OFFSET"
  shows "box_ok n g \<lparr>bx_position = pos, bx_size = SIM_PLAYER_BOX_SIZE\<rparr>"
    and "set (box_tiles (fst pos) (snd pos) SIM_PLAYER_BOX_SIZE) = {(tx, ty)}"
proof -
  have off: "SIM_PLAYER_BOX_OFFSET = (11744051 / 33554432, 13421773 / 134217728)" by code_simp
  have one: "0 \<le> f_add (of_int k) h \<and> f_add (of_int k) h \<le> 31 \<and> \<lfloor>f_add (of_int k) h\<rfloor> = k \<and> box_edge (f_add (of_int k) h) w = k + 1"
    if k: "0 < k" "k < n - 1" and h: "1 / 100 \<le> h" "h \<le> 9 / 10" and w: "0 \<le> w" "w \<le> 9 / 10" "6 / 10 \<le> h + w" "h + w \<le> 99 / 100" for k h w
  proof -
    have kr: "1 \<le> (of_int k :: rat)" "(of_int k :: rat) \<le> 29" using k assms(2) by simp_all
    have e: "\<bar>f_add (of_int k) h - (of_int k + h)\<bar> \<le> 1 / 524288" using kr h by (intro f_add_error) linarith
    have r: "0 \<le> f_add (of_int k) h" "f_add (of_int k) h \<le> 31" using e kr h by linarith+
    have "of_int k \<le> f_add (of_int k) h" "f_add (of_int k) h < of_int k + 1" using e h by linarith+
    then have fl: "\<lfloor>f_add (of_int k) h\<rfloor> = k" by (simp add: floor_eq_iff)
    note b = box_edge_bounds [OF r w(1,2)]
    have "(of_int k :: rat) < of_int (box_edge (f_add (of_int k) h) w)" "of_int (box_edge (f_add (of_int k) h) w) < (of_int (k + 2) :: rat)"
      using b e w by (simp_all, linarith+)
    then have "k < box_edge (f_add (of_int k) h) w" "box_edge (f_add (of_int k) h) w < k + 2" by (simp_all only: of_int_less_iff)
    then show ?thesis using r fl by simp
  qed
  have f: "f_of_int tx = of_int tx" "f_of_int ty = of_int ty"
    using assms(1,2) by (auto simp: f_of_int_def inner_def intro!: f32_round_int)
  have pos: "pos = (f_add (of_int tx) (fst SIM_PLAYER_BOX_OFFSET), f_add (of_int ty) (snd SIM_PLAYER_BOX_OFFSET))"
    using assms(3) unfolding raymath_law_def pos_def f by (metis fst_conv snd_conv)
  have x: "0 \<le> f_add (of_int tx) (fst SIM_PLAYER_BOX_OFFSET) \<and> f_add (of_int tx) (fst SIM_PLAYER_BOX_OFFSET) \<le> 31
      \<and> \<lfloor>f_add (of_int tx) (fst SIM_PLAYER_BOX_OFFSET)\<rfloor> = tx \<and> box_edge (f_add (of_int tx) (fst SIM_PLAYER_BOX_OFFSET)) (fst SIM_PLAYER_BOX_SIZE) = tx + 1"
    using assms(1) by (intro one) (simp_all add: inner_def off box_size_value)
  have y: "0 \<le> f_add (of_int ty) (snd SIM_PLAYER_BOX_OFFSET) \<and> f_add (of_int ty) (snd SIM_PLAYER_BOX_OFFSET) \<le> 31
      \<and> \<lfloor>f_add (of_int ty) (snd SIM_PLAYER_BOX_OFFSET)\<rfloor> = ty \<and> box_edge (f_add (of_int ty) (snd SIM_PLAYER_BOX_OFFSET)) (snd SIM_PLAYER_BOX_SIZE) = ty + 1"
    using assms(1) by (intro one) (simp_all add: inner_def off box_size_value)
  have tiles: "set (box_tiles (f_add (of_int tx) (fst SIM_PLAYER_BOX_OFFSET)) (f_add (of_int ty) (snd SIM_PLAYER_BOX_OFFSET)) SIM_PLAYER_BOX_SIZE) = {(tx, ty)}"
    using box_tiles_set x y by auto
  then have "aabb_collided g (f_add (of_int tx) (fst SIM_PLAYER_BOX_OFFSET)) (f_add (of_int ty) (snd SIM_PLAYER_BOX_OFFSET)) SIM_PLAYER_BOX_SIZE = Some False"
    using assms(4,5) unfolding aabb_collided_def any_solid_False by (simp add: tile_is_solid_def solid_def)
  then show "box_ok n g \<lparr>bx_position = pos, bx_size = SIM_PLAYER_BOX_SIZE\<rparr>" unfolding pos box_ok_def using x y by simp
  show "set (box_tiles (fst pos) (snd pos) SIM_PLAYER_BOX_SIZE) = {(tx, ty)}" unfolding pos fst_conv snd_conv by (rule tiles)
qed

text \<open>The scan finds the marked tiles in its order, clears them, and changes nothing else.\<close>

lemma collect_spawns_sound:
  assumes "square n g" and "\<forall>p \<in> set ps. on_map n p" and "distinct ps"
  shows "\<exists>g'. collect_spawns ps k g = Some (take k (filter (\<lambda>p. grid_get g (fst p) (snd p) = Some PLAYER) ps), g') \<and> square n g'
     \<and> (\<forall>x y. grid_get g' x y = (if (x, y) \<in> set (take k (filter (\<lambda>p. grid_get g (fst p) (snd p) = Some PLAYER) ps)) then Some EMPTY else grid_get g x y))"
  using assms
proof (induction ps arbitrary: k g)
  case (Cons p ps)
  obtain i j where p: "p = (i, j)" by fastforce
  show ?case
  proof (cases k)
    case 0
    then show ?thesis using Cons.prems(1) by (simp add: p)
  next
    case (Suc m)
    obtain t where t: "grid_get g i j = Some t" using grid_get_square [OF Cons.prems(1), of i j] Cons.prems(2) p by auto
    show ?thesis
    proof (cases "t = PLAYER")
      case True
      obtain g1 where g1: "grid_put g i j EMPTY = Some g1" "square n g1" "\<And>a b. grid_get g1 a b = (if (a, b) = (i, j) then Some EMPTY else grid_get g a b)"
        using grid_put_square [OF Cons.prems(1), of i j EMPTY] Cons.prems(2) p by auto
      have same: "filter (\<lambda>p. grid_get g1 (fst p) (snd p) = Some PLAYER) ps = filter (\<lambda>p. grid_get g (fst p) (snd p) = Some PLAYER) ps"
        using Cons.prems(3) p by (intro filter_cong refl) (auto simp: g1(3))
      obtain g' where g': "collect_spawns ps m g1 = Some (take m (filter (\<lambda>p. grid_get g (fst p) (snd p) = Some PLAYER) ps), g')" "square n g'"
        "\<And>x y. grid_get g' x y = (if (x, y) \<in> set (take m (filter (\<lambda>p. grid_get g (fst p) (snd p) = Some PLAYER) ps)) then Some EMPTY else grid_get g1 x y)"
        using Cons.IH [OF g1(2), of m] Cons.prems(2,3) unfolding same by auto
      show ?thesis using t True g1(1) g' Suc by (auto simp: p g1(3))
    next
      case False
      then show ?thesis using Cons.IH [OF Cons.prems(1), of "Suc m"] Cons.prems(2,3) t Suc by (simp add: p)
    qed
  qed
qed simp

lemma map_places_set: "set (map_places n) = {p. on_map n p}" and map_places_distinct: "distinct (map_places n)"
proof -
  show "set (map_places n) = {p. on_map n p}" by (auto simp: map_places_def on_map_def)
  show "distinct (map_places n)"
    unfolding map_places_def by (rule distinct_concat) (auto simp: distinct_map inj_on_def dest: arg_cong [where f = set])
qed

section \<open>The invariant of a match\<close>

definition inventory_ok :: "InventoryStock \<Rightarrow> bool" where
  "inventory_ok st \<longleftrightarrow> 0 \<le> st_remaining_bombs st \<and> st_remaining_bombs st \<le> st_num_bombs st \<and> 1 \<le> st_num_fires st"

definition player_ok :: "int \<Rightarrow> grid \<Rightarrow> BombPlayer \<Rightarrow> bool" where
  "player_ok n g p \<longleftrightarrow> box_ok n g (pl_box p) \<and> inventory_ok (pl_inventory p)"

definition match_wf :: "int \<Rightarrow> BombSession \<times> Arena \<Rightarrow> bool" where
  "match_wf n sa \<longleftrightarrow> arena_wf n (snd sa) \<and> n \<le> 30 \<and> 0 \<le> se_count (fst sa) \<and> nat (se_count (fst sa)) \<le> length (se_players (fst sa))
     \<and> (\<forall>i < nat (se_count (fst sa)). player_ok n (ar_map (snd sa)) (se_players (fst sa) ! i))"

text \<open>What no step changes: the players, their slots, and that the dead stay dead.\<close>

definition continues :: "BombSession \<times> Arena \<Rightarrow> BombSession \<times> Arena \<Rightarrow> bool" where
  "continues sa sa' \<longleftrightarrow> evolves (snd sa) (snd sa') \<and> se_count (fst sa') = se_count (fst sa)
     \<and> length (se_players (fst sa')) = length (se_players (fst sa))
     \<and> (\<forall>i < length (se_players (fst sa)). pl_player_id (se_players (fst sa') ! i) = pl_player_id (se_players (fst sa) ! i)
          \<and> pl_active (se_players (fst sa') ! i) = pl_active (se_players (fst sa) ! i)
          \<and> (pl_alive (se_players (fst sa') ! i) \<longrightarrow> pl_alive (se_players (fst sa) ! i)))"

lemma continues_refl [simp, intro]: "continues sa sa"
  by (simp add: continues_def)

lemma continues_trans: "continues r s \<Longrightarrow> continues s t \<Longrightarrow> continues r t"
  unfolding continues_def by (auto intro: evolves_trans)

lemma match_step_player:
  assumes "match_wf n (s, a)" and "i < nat (se_count s)" and "arena_wf n a'" and "evolves a a'"
    and "player_ok n (ar_map a') p'"
    and "pl_player_id p' = pl_player_id (se_players s ! i)" and "pl_active p' = pl_active (se_players s ! i)"
    and "pl_alive p' \<Longrightarrow> pl_alive (se_players s ! i)"
  shows "match_wf n (s\<lparr>se_players := (se_players s)[i := p'], se_dirty := d\<rparr>, a')"
    and "continues (s, a) (s\<lparr>se_players := (se_players s)[i := p'], se_dirty := d\<rparr>, a')"
proof -
  have il: "i < length (se_players s)" using assms(1,2) by (simp add: match_wf_def)
  have "player_ok n (ar_map a') (se_players s ! j)" if "j < nat (se_count s)" for j
    using assms(1) that box_ok_evolves [OF _ assms(4)] by (auto simp: match_wf_def player_ok_def)
  then show "match_wf n (s\<lparr>se_players := (se_players s)[i := p'], se_dirty := d\<rparr>, a')"
    using assms(1,2,3,5) by (auto simp: match_wf_def nth_list_update)
  show "continues (s, a) (s\<lparr>se_players := (se_players s)[i := p'], se_dirty := d\<rparr>, a')"
    using assms(4,6-8) il by (auto simp: continues_def nth_list_update)
qed

lemma inventory_update_ok: "inventory_ok st \<Longrightarrow> inventory_ok (inventory_update st dt)"
  by (auto simp: inventory_ok_def inventory_update_def Let_def)

lemma consume_bomb_ok: "inventory_ok st \<Longrightarrow> 0 < st_remaining_bombs st \<Longrightarrow> inventory_ok (consume_bomb st)"
  by (auto simp: inventory_ok_def consume_bomb_def)

text \<open>The length of a step: at most a quarter of a tile per tick, at either speed.\<close>

definition stride_ok :: "f32 \<Rightarrow> bool" where
  "stride_ok dt \<longleftrightarrow> \<bar>f_mul SIM_PLAYER_SPEED dt\<bar> \<le> 1 / 4 \<and> \<bar>f_mul SIM_PLAYER_SPRINT_SPEED dt\<bar> \<le> 1 / 4"

lemma TICK_stride: "stride_ok TICK_DELTA"
  by code_simp

lemma scaled_step:
  assumes "raymath_law rm" and "\<bar>s\<bar> \<le> 1 / 4"
  shows "\<bar>fst (rm_scale rm (rm_normalize rm v) s)\<bar> \<le> 3 / 5" and "\<bar>snd (rm_scale rm (rm_normalize rm v) s)\<bar> \<le> 3 / 5"
proof -
  have c: "\<bar>f_mul c s\<bar> \<le> 3 / 5" if "\<bar>c\<bar> \<le> 1 + 1 / 2 ^ 20" for c
  proof -
    have "\<bar>c * s\<bar> \<le> (1 + 1 / 2 ^ 20) * (1 / 4)" unfolding abs_mult using that assms(2) by (intro mult_mono) simp_all
    also have "\<dots> \<le> 1 / 2" by simp
    finally have h: "\<bar>c * s\<bar> \<le> 1 / 2" .
    then have "\<bar>f_mul c s - c * s\<bar> \<le> 1 / 16777216" by (intro f_mul_error) simp
    then show ?thesis using h by linarith
  qed
  show "\<bar>fst (rm_scale rm (rm_normalize rm v) s)\<bar> \<le> 3 / 5" "\<bar>snd (rm_scale rm (rm_normalize rm v) s)\<bar> \<le> 3 / 5"
    using assms(1) c unfolding raymath_law_def by (metis fst_conv, metis snd_conv)
qed

lemma player_move_safe:
  assumes "map_wf n g" and "n \<le> 30" and "player_ok n g p" and "raymath_law rm" and "stride_ok dt"
  obtains p' moved where "player_move rm dt g p = Some (p', moved)" and "player_ok n g p'" and "pl_inventory p' = pl_inventory p"
    and "pl_player_id p' = pl_player_id p" and "pl_active p' = pl_active p" and "pl_alive p' = pl_alive p"
proof -
  let ?speed = "if pl_sprinting p then SIM_PLAYER_SPRINT_SPEED else SIM_PLAYER_SPEED"
  let ?amt = "rm_scale rm (rm_normalize rm (f_of_int (pl_move_dx p), - f_of_int (pl_move_dy p))) (f_mul ?speed dt)"
  have "\<bar>f_mul ?speed dt\<bar> \<le> 1 / 4" using assms(5) by (simp add: stride_ok_def)
  then have "\<bar>fst ?amt\<bar> \<le> 3 / 5" "\<bar>snd ?amt\<bar> \<le> 3 / 5" using scaled_step [OF assms(4)] by blast+
  then obtain box where box: "move_box rm g (pl_box p) ?amt = Some box" "box_ok n g box"
    using move_box_safe [OF assms(1,2) _ assms(4)] assms(3) by (metis player_ok_def)
  show thesis
  proof (cases "pl_move_dx p \<noteq> 0 \<or> pl_move_dy p \<noteq> 0")
    case True
    then show ?thesis using box assms(3)
      by (intro that [of "p\<lparr>pl_box := box, pl_direction := facing (pl_move_dx p) (pl_move_dy p) (pl_direction p), pl_is_moving := True\<rparr>" True])
        (auto simp: player_move_def Let_def player_ok_def)
  next
    case False
    then show ?thesis using assms(3)
      by (intro that [of "p\<lparr>pl_is_moving := False\<rparr>" "pl_is_moving p"]) (auto simp: player_move_def Let_def player_ok_def)
  qed
qed

lemma pickups_safe:
  assumes "arena_wf n a" and "inventory_ok stock"
  shows "\<exists>stock' d' a'. pickups ps (stock, d, a) = Some (stock', d', a') \<and> arena_wf n a' \<and> evolves a a' \<and> inventory_ok stock'"
  using assms
proof (induction ps arbitrary: stock d a)
  case (Cons p ps)
  have sz: "ar_size a = n" "square n (ar_map a)" using Cons.prems(1) by (auto simp: arena_wf_def core_wf_def)
  show ?case
  proof (cases "on_arena n p")
    case False
    then show ?thesis using Cons.IH [OF Cons.prems] by (simp add: sz)
  next
    case True
    then have on: "on_map n (fst p, snd p)" by (auto simp: on_arena_def on_map_def)
    obtain t where t: "grid_get (ar_map a) (fst p) (snd p) = Some t" using grid_get_square [OF sz(2) on] by blast
    show ?thesis
    proof (cases "t = POWERUP_FIRE \<or> t = POWERUP_BOMB")
      case False
      then show ?thesis using Cons.IH [OF Cons.prems] True t by (simp add: sz)
    next
      case pu: True
      have fr: "free_at a (fst p, snd p)" using t pu by (auto simp: free_at_def tile_at_def)
      obtain a1 where a1: "write_tile (fst p) (snd p) EMPTY a = Some a1" "arena_wf n a1" "evolves a a1"
        by (rule arena_wf_write [OF Cons.prems(1) fr, of EMPTY]) (simp add: solid_def, rule that)
      let ?s1 = "if t = POWERUP_FIRE then stock\<lparr>st_num_fires := st_num_fires stock + 1\<rparr>
                 else stock\<lparr>st_num_bombs := st_num_bombs stock + 1, st_remaining_bombs := st_remaining_bombs stock + 1\<rparr>"
      have "inventory_ok ?s1" using Cons.prems(2) by (auto simp: inventory_ok_def)
      from Cons.IH [OF a1(2) this, of True] obtain stock' d' a' where
        r: "pickups ps (?s1, True, a1) = Some (stock', d', a')" "arena_wf n a'" "evolves a1 a'" "inventory_ok stock'" by blast
      then show ?thesis using t pu True a1(1) evolves_trans [OF a1(3)] by (auto simp: sz)
    qed
  qed
qed simp

lemma player_tick_safe:
  assumes "match_wf n sa" and "i < nat (se_count (fst sa))" and "raymath_law rm" and "stride_ok dt"
  shows "\<exists>sa'. player_tick rm dt i sa = Some sa' \<and> match_wf n sa' \<and> continues sa sa'"
proof -
  obtain s a where sa: "sa = (s, a)" by fastforce
  let ?p = "se_players s ! i"
  show ?thesis
  proof (cases "pl_active ?p \<and> pl_alive ?p")
    case False
    then show ?thesis using assms(1) by (auto simp: player_tick_def sa)
  next
    case True
    have w: "arena_wf n a" "n \<le> 30" "player_ok n (ar_map a) ?p" "map_wf n (ar_map a)"
      using assms(1,2) by (auto simp: match_wf_def sa arena_wf_def core_wf_def)
    obtain p1 moved where p1: "player_move rm dt (ar_map a) ?p = Some (p1, moved)" "player_ok n (ar_map a) p1" "pl_inventory p1 = pl_inventory ?p"
        "pl_player_id p1 = pl_player_id ?p" "pl_active p1 = pl_active ?p" "pl_alive p1 = pl_alive ?p"
      using player_move_safe [OF w(4,2,3) assms(3,4)] .
    have "inventory_ok (pl_inventory p1)" using p1(2) by (simp add: player_ok_def)
    from pickups_safe [OF w(1) this, of "player_tiles p1" "se_dirty s \<or> moved"] obtain stock d a' where
      pk: "pickups (player_tiles p1) (pl_inventory p1, se_dirty s \<or> moved, a) = Some (stock, d, a')" "arena_wf n a'" "evolves a a'" "inventory_ok stock" by blast
    let ?p' = "p1\<lparr>pl_inventory := inventory_update stock dt\<rparr>"
    have ok: "player_ok n (ar_map a') ?p'"
      using p1(2) box_ok_evolves [OF _ pk(3)] inventory_update_ok [OF pk(4)] by (simp add: player_ok_def)
    have "player_tick rm dt i sa = Some (s\<lparr>se_players := (se_players s)[i := ?p'], se_dirty := d\<rparr>, a')"
      using True p1(1) pk(1) by (simp add: player_tick_def sa Let_def)
    moreover have "match_wf n (s\<lparr>se_players := (se_players s)[i := ?p'], se_dirty := d\<rparr>, a')"
      "continues (s, a) (s\<lparr>se_players := (se_players s)[i := ?p'], se_dirty := d\<rparr>, a')"
      using match_step_player [of n s a i a' ?p' d] assms(1,2) pk(2,3) ok p1(4-6) by (simp_all add: sa)
    ultimately show ?thesis by (simp add: sa)
  qed
qed

lemma burnt_total: "square n g \<Longrightarrow> \<exists>b. burnt n g ps = Some b"
proof (induction ps)
  case (Cons p ps)
  show ?case
  proof (cases "on_arena n p")
    case True
    then obtain t where "grid_get g (fst p) (snd p) = Some t"
      using grid_get_square [OF Cons.prems, of "fst p" "snd p"] by (auto simp: on_arena_def on_map_def)
    then show ?thesis using Cons True by auto
  qed (use Cons in simp)
qed auto

lemma kill_player_safe:
  assumes "match_wf n sa" and "i < nat (se_count (fst sa))"
  shows "\<exists>sa'. kill_player i sa = Some sa' \<and> match_wf n sa' \<and> continues sa sa'"
proof -
  obtain s a where sa: "sa = (s, a)" by fastforce
  let ?p = "se_players s ! i"
  have w: "arena_wf n a" "player_ok n (ar_map a) ?p" "ar_size a = n" "square n (ar_map a)"
    using assms by (auto simp: match_wf_def sa arena_wf_def core_wf_def)
  obtain b where b: "burnt n (ar_map a) (player_tiles ?p) = Some b" using burnt_total [OF w(4)] by blast
  have "player_ok n (ar_map a) (?p\<lparr>pl_alive := False\<rparr>)" using w(2) by (simp add: player_ok_def)
  then have "match_wf n (s\<lparr>se_players := (se_players s)[i := ?p\<lparr>pl_alive := False\<rparr>], se_dirty := True\<rparr>, a)"
    "continues (s, a) (s\<lparr>se_players := (se_players s)[i := ?p\<lparr>pl_alive := False\<rparr>], se_dirty := True\<rparr>, a)"
    using match_step_player [of n s a i a "?p\<lparr>pl_alive := False\<rparr>" True] assms w(1) by (simp_all add: sa)
  then show ?thesis using assms(1) b w(3) by (auto simp: kill_player_def sa Let_def)
qed

lemma for_players_safe:
  assumes "\<And>i sa. i \<in> set is \<Longrightarrow> match_wf n sa \<Longrightarrow> se_count (fst sa) = c \<Longrightarrow> \<exists>sa'. f i sa = Some sa' \<and> match_wf n sa' \<and> continues sa sa'"
    and "match_wf n sa" and "se_count (fst sa) = c"
  shows "\<exists>sa'. for_players f is sa = Some sa' \<and> match_wf n sa' \<and> continues sa sa'"
  using assms
proof (induction "is" arbitrary: sa)
  case (Cons i "is")
  obtain sa1 where s1: "f i sa = Some sa1" "match_wf n sa1" "continues sa sa1" using Cons.prems(1) [of i sa] Cons.prems(2,3) by auto
  have c: "se_count (fst sa1) = c" using s1(3) Cons.prems(3) by (simp add: continues_def)
  obtain sa' where "for_players f is sa1 = Some sa'" "match_wf n sa'" "continues sa1 sa'"
    using Cons.IH [OF _ s1(2) c] Cons.prems(1) by auto
  then show ?case using s1(1) continues_trans [OF s1(3)] by auto
qed simp

lemma match_wf_arena:
  assumes "match_wf n (s, a)" and "arena_wf n a'" and "evolves a a'"
  shows "match_wf n (s, a')" and "continues (s, a) (s, a')"
  using assms box_ok_evolves [OF _ assms(3)] by (auto simp: match_wf_def continues_def player_ok_def)

lemma tick_session_safe:
  assumes "match_wf n sa" and "raymath_law rm" and "stride_ok dt"
  shows "\<exists>s' a' es. tick_session rm dt sa = Some (s', a', es) \<and> match_wf n (s', a') \<and> continues sa (s', a')"
proof -
  obtain s1 a1 where r1: "apply_movement_and_pickups rm dt sa = Some (s1, a1)" "match_wf n (s1, a1)" "continues sa (s1, a1)"
  proof -
    have "\<exists>sa'. for_players (player_tick rm dt) [0..<nat (se_count (fst sa))] sa = Some sa' \<and> match_wf n sa' \<and> continues sa sa'"
      by (rule for_players_safe [OF player_tick_safe _ refl]) (use assms in auto)
    then show thesis using that by (auto simp: apply_movement_and_pickups_def)
  qed
  have w1: "arena_wf n a1" using r1(2) by (simp add: match_wf_def)
  obtain a2 where a2: "tick_bombs dt a1 = Some a2" "arena_wf n a2" "evolves a1 a2" using tick_bombs_safe [OF w1] by blast
  obtain a3 where a3: "tick_explosions dt a2 = Some a3" "arena_wf n a3" "evolves a2 a3" using tick_explosions_safe [OF a2(2)] by blast
  note m3 = match_wf_arena [OF r1(2) a3(2) evolves_trans [OF a2(3) a3(3)]]
  obtain s4 a4 where r4: "kill_players_in_explosions (s1, a3) = Some (s4, a4)" "match_wf n (s4, a4)" "continues (s1, a3) (s4, a4)"
  proof -
    have "\<exists>sa'. for_players kill_player [0..<nat (se_count (fst (s1, a3)))] (s1, a3) = Some sa' \<and> match_wf n sa' \<and> continues (s1, a3) sa'"
      by (rule for_players_safe [OF kill_player_safe m3(1) refl]) auto
    then show thesis using that by (auto simp: kill_players_in_explosions_def)
  qed
  have "continues sa (s4, a4)" using continues_trans [OF r1(3) continues_trans [OF m3(2) r4(3)]] .
  then show ?thesis using r1(1) a2(1) a3(1) r4(1,2) by (simp add: tick_session_def)
qed

lemma find_bomb_player_range: "find_bomb_player s x = Some i \<Longrightarrow> i < nat (se_count s)"
  by (auto simp: find_bomb_player_def find_Some_iff)

lemma apply_move_safe:
  assumes "match_wf n (s, a)"
  shows "match_wf n (apply_move (find_bomb_player s x) move s, a)" and "continues (s, a) (apply_move (find_bomb_player s x) move s, a)"
proof -
  have step: "match_wf n (apply_move (Some i) move s, a) \<and> continues (s, a) (apply_move (Some i) move s, a)" if "i < nat (se_count s)" for i
  proof -
    let ?p = "se_players s ! i"
    let ?p' = "?p\<lparr>pl_move_dx := sint (mv_dx move), pl_move_dy := sint (mv_dy move), pl_sprinting := (mv_sprinting move \<noteq> 0)\<rparr>"
    have w: "arena_wf n a" "player_ok n (ar_map a) ?p'" using assms that by (auto simp: match_wf_def player_ok_def)
    have e: "s\<lparr>se_players := l, se_dirty := se_dirty s\<rparr> = s\<lparr>se_players := l\<rparr>" for l by simp
    show ?thesis
      using match_step_player [of n s a i a ?p' "se_dirty s", OF assms that w(1) evolves_refl w(2)] assms
      unfolding e by (auto simp: apply_move_def)
  qed
  show "match_wf n (apply_move (find_bomb_player s x) move s, a)" "continues (s, a) (apply_move (find_bomb_player s x) move s, a)"
    using step find_bomb_player_range [of s x] assms by (cases "find_bomb_player s x"; force simp: apply_move_def)+
qed

lemma apply_bomb_place_safe:
  assumes "match_wf n (s, a)"
  shows "\<exists>sa'. apply_bomb_place (find_bomb_player s x) (s, a) = Some sa' \<and> match_wf n sa' \<and> continues (s, a) sa'"
proof (cases "find_bomb_player s x")
  case None
  then show ?thesis using assms by (simp add: apply_bomb_place_def)
next
  case (Some i)
  let ?p = "se_players s ! i"
  have i: "i < nat (se_count s)" using find_bomb_player_range [OF Some] .
  have w: "arena_wf n a" "n \<le> 30" "map_wf n (ar_map a)" "player_ok n (ar_map a) ?p"
    using assms i by (auto simp: match_wf_def arena_wf_def core_wf_def)
  have on: "on_map n (tile_pos (get_center_box (pl_box ?p)))" using center_on_map [OF w(3,2)] w(4) by (simp add: player_ok_def)
  have inv: "inventory_ok (pl_inventory ?p)" using w(4) by (simp add: player_ok_def)
  then have f: "0 \<le> st_num_fires (pl_inventory ?p)" by (simp add: inventory_ok_def)
  obtain ok stock a' where pb: "place_bomb (get_center_box (pl_box ?p)) (pl_inventory ?p) a = Some (ok, stock, a')" "arena_wf n a'" "evolves a a'"
      "stock = (if ok then consume_bomb (pl_inventory ?p) else pl_inventory ?p)" "ok \<Longrightarrow> 0 < st_remaining_bombs (pl_inventory ?p)"
    by (rule place_bomb_safe [OF w(1) on f]) (rule that; assumption?)
  have "inventory_ok stock" using pb(4,5) inv consume_bomb_ok by (cases ok) simp_all
  then have ok: "player_ok n (ar_map a') (?p\<lparr>pl_inventory := stock\<rparr>)" using w(4) box_ok_evolves [OF _ pb(3)] by (simp add: player_ok_def)
  have e: "s\<lparr>se_players := l, se_dirty := se_dirty s\<rparr> = s\<lparr>se_players := l\<rparr>" for l by simp
  note m = match_step_player [of n s a i a' "?p\<lparr>pl_inventory := stock\<rparr>" "se_dirty s", OF assms i pb(2,3) ok, unfolded e]
  show ?thesis using m pb(1) assms by (auto simp: apply_bomb_place_def Some Let_def)
qed

section \<open>Runs\<close>

datatype match_input = Move_packet MovePayload | Bomb_packet BombPlacePayload | Tick

fun match_step :: "raymath \<Rightarrow> match_input \<Rightarrow> BombSession \<times> Arena \<Rightarrow> (BombSession \<times> Arena) option" where
  "match_step rm (Move_packet m) (s, a) = Some (apply_move (find_bomb_player s (mv_player_id m)) m s, a)"
| "match_step rm (Bomb_packet b) (s, a) = apply_bomb_place (find_bomb_player s (bp_player_id b)) (s, a)"
| "match_step rm Tick (s, a) = map_option (\<lambda>(s', a', _). (s', a')) (tick_session rm TICK_DELTA (s, a))"

fun match_run :: "raymath \<Rightarrow> match_input list \<Rightarrow> BombSession \<times> Arena \<Rightarrow> (BombSession \<times> Arena) option" where
  "match_run rm [] sa = Some sa"
| "match_run rm (t # ts) sa = (case match_step rm t sa of None \<Rightarrow> None | Some sa' \<Rightarrow> match_run rm ts sa')"

lemma match_step_safe:
  assumes "match_wf n sa" and "raymath_law rm"
  shows "\<exists>sa'. match_step rm t sa = Some sa' \<and> match_wf n sa' \<and> continues sa sa'"
proof -
  obtain s a where sa: "sa = (s, a)" by fastforce
  show ?thesis
  proof (cases t)
    case (Move_packet m)
    then show ?thesis using apply_move_safe [of n s a] assms(1) by (simp add: sa)
  next
    case (Bomb_packet b)
    then show ?thesis using apply_bomb_place_safe [of n s a] assms(1) by (simp add: sa)
  next
    case Tick
    then show ?thesis using tick_session_safe [OF assms TICK_stride] by (auto simp: sa)
  qed
qed

lemma match_run_safe:
  assumes "match_wf n sa" and "raymath_law rm"
  shows "\<exists>sa'. match_run rm ts sa = Some sa' \<and> match_wf n sa' \<and> continues sa sa'"
  using assms(1)
proof (induction ts arbitrary: sa)
  case (Cons t ts)
  obtain sa1 where s1: "match_step rm t sa = Some sa1" "match_wf n sa1" "continues sa sa1" using match_step_safe [OF Cons.prems assms(2)] by blast
  then show ?case using Cons.IH [OF s1(2)] continues_trans [OF s1(3)] by auto
qed simp

lemma map_sizes: "1 \<le> k \<Longrightarrow> k \<le> 25 \<Longrightarrow> calc_map_size k + 2 \<le> 27"
proof -
  assume k: "1 \<le> k" "k \<le> 25"
  have "list_all (\<lambda>k. calc_map_size k + 2 \<le> 27) [1..25]" by code_simp
  moreover have "k \<in> set [1..25]" using k by simp
  ultimately show ?thesis by (simp only: list_all_iff)
qed

text \<open>The players and their places when the match starts.\<close>

lemma init_session_sound:
  assumes "raymath_law rm" and "0 < unat player_count"
  defines "k \<equiv> min (unat player_count) 25"
  defines "n \<equiv> calc_map_size (int k) + 2"
  obtains s a where "init_session rm client_ids player_count a0 = Some (s, a)" and "match_wf n (s, a)" and "se_count s = int k"
    and "\<And>i. i < k \<Longrightarrow> pl_player_id (se_players s ! i) = client_ids ! i \<and> pl_active (se_players s ! i) \<and> pl_alive (se_players s ! i)"
    and "distinct (map (\<lambda>i. set (player_tiles (se_players s ! i))) [0..<k])"
proof -
  have k: "1 \<le> int k" "int k \<le> 25" using assms(2) by (simp_all add: k_def)
  have n: "n \<le> 30" using map_sizes [OF k] by (simp add: n_def)
  obtain g r where gen: "map_generate (int k) (ar_rng a0) = Some (g, r)" "map_wf n g"
      "{p. grid_get g (fst p) (snd p) = Some PLAYER} = set (calc_player_spawns (int k) (n - 2))" "distinct (calc_player_spawns (int k) (n - 2))"
      "length (calc_player_spawns (int k) (n - 2)) = k"
    using map_generate_facts [OF k, of "ar_rng a0"] by (auto simp: n_def)
  define sp where "sp = filter (\<lambda>p. grid_get g (fst p) (snd p) = Some PLAYER) (map_places n)"
  have sq: "square n g" using gen(2) by auto
  have sp_set: "set sp = {p. grid_get g (fst p) (snd p) = Some PLAYER}"
    using grid_get_SomeD [OF sq] by (auto simp: sp_def map_places_set)
  have sp_d: "distinct sp" by (simp add: sp_def map_places_distinct)
  have sp_len: "length sp = k" using distinct_card [OF sp_d] distinct_card [OF gen(4)] gen(3,5) sp_set by simp
  have "\<forall>p \<in> set (map_places n). on_map n p" by (simp add: map_places_set)
  from collect_spawns_sound [OF sq this map_places_distinct, of k, folded sp_def] obtain g' where
    col: "collect_spawns (map_places n) k g = Some (sp, g')" "square n g'"
      "\<And>x y. grid_get g' x y = (if (x, y) \<in> set sp then Some EMPTY else grid_get g x y)"
    using sp_len by auto
  let ?a1 = "powerup_init (init_bombs (a0\<lparr>ar_size := n, ar_map := g, ar_rng := r\<rparr>))"
  let ?a = "?a1\<lparr>ar_map := g'\<rparr>"
  let ?s = "\<lparr>se_players = map (init_player rm sp client_ids) [0..<k] @ replicate (25 - k) zero_player, se_count = int k, se_dirty = True\<rparr>"
  have sz: "ar_size ?a1 = n" by (simp add: powerup_init_def init_bombs_def)
  have run: "init_session rm client_ids player_count a0 = Some (?s, ?a)"
    unfolding init_session_def Let_def k_def [symmetric] n_def [symmetric] gen(1) option.case prod.case sz col(1) by simp
  have inn: "inner n p" if "p \<in> set sp" for p
    using that free_tile_inner [OF gen(2), of "fst p" "snd p" PLAYER] sp_set by auto
  have mw: "map_wf n g'" using gen(2) col(2) inn by (auto simp: map_wf_def col(3))
  have pend: "pending_ok n ?a"
    using powerup_init_pending [of n "init_bombs (a0\<lparr>ar_size := n, ar_map := g, ar_rng := r\<rparr>)"] gen(2)
    by (simp add: pending_ok_def map_wf_def init_bombs_def)
  have aw: "arena_wf n ?a"
    using mw pend sz n by (simp add: arena_wf_def core_wf_def queues_ok_def powerup_init_def init_bombs_def queue_init_wf queue_init_list)
  have pl: "se_players ?s ! i = init_player rm sp client_ids i" if "i < k" for i using that by (simp add: nth_append)
  have tile: "box_ok n g' (pl_box (init_player rm sp client_ids i)) \<and> set (player_tiles (init_player rm sp client_ids i)) = {sp ! i}" if i: "i < k" for i
  proof -
    have m: "sp ! i \<in> set sp" using i sp_len by simp
    have "inner n (fst (sp ! i), snd (sp ! i))" "grid_get g' (fst (sp ! i)) (snd (sp ! i)) = Some EMPTY" "\<not> solid EMPTY"
      using inn [OF m] m by (simp_all add: col(3) solid_def)
    then show ?thesis using spawn_box_ok [OF _ n assms(1)] i sp_len by (simp add: init_player_def Let_def player_tiles_def)
  qed
  have wf: "match_wf n (?s, ?a)"
    using aw n tile pl k by (auto simp: match_wf_def player_ok_def init_player_def Let_def inventory_ok_def)
  show thesis
  proof (rule that [OF run wf])
    show "se_count ?s = int k" by simp
    show "\<And>i. i < k \<Longrightarrow> pl_player_id (se_players ?s ! i) = client_ids ! i \<and> pl_active (se_players ?s ! i) \<and> pl_alive (se_players ?s ! i)"
      using pl by (simp add: init_player_def Let_def)
    have "map (\<lambda>i. set (player_tiles (se_players ?s ! i))) [0..<k] = map (\<lambda>p. {p}) sp"
      using pl tile sp_len by (intro nth_equalityI) auto
    then show "distinct (map (\<lambda>i. set (player_tiles (se_players ?s ! i))) [0..<k])" using sp_d by (simp add: distinct_map inj_on_def)
  qed
qed

text \<open>
  C2 (bomb_match_sound): A match started for any number of clients puts the first twenty-five of them on distinct free tiles, and any sequence of
  movement packets, bomb packets and ticks then runs without an access outside the map or the arrays of an explosion: walls never fall and nothing solid
  appears, no player's box ever overlaps a wall or a breakable tile, the inventories stay within their bounds, the players keep their slots and the dead stay dead.
\<close>

theorem bomb_match_sound:
  assumes "raymath_law rm" and "0 < unat player_count"
  shows "\<exists>s a. init_session rm client_ids player_count a0 = Some (s, a)
     \<and> distinct (map (\<lambda>i. set (player_tiles (se_players s ! i))) [0..<nat (se_count s)])
     \<and> (\<exists>n. \<forall>inputs. \<exists>s' a'. match_run rm inputs (s, a) = Some (s', a') \<and> match_wf n (s', a') \<and> continues (s, a) (s', a'))"
proof -
  obtain s a where s: "init_session rm client_ids player_count a0 = Some (s, a)"
      "match_wf (calc_map_size (int (min (unat player_count) 25)) + 2) (s, a)" "se_count s = int (min (unat player_count) 25)"
      "distinct (map (\<lambda>i. set (player_tiles (se_players s ! i))) [0..<min (unat player_count) 25])"
    using init_session_sound [OF assms] by metis
  then show ?thesis using match_run_safe [OF s(2) assms(1)] by (auto simp: split_paired_Ex)
qed

definition demo_raymath :: raymath where
  "demo_raymath = \<lparr>rm_add = (\<lambda>v w. (f_add (fst v) (fst w), f_add (snd v) (snd w))),
     rm_normalize = (\<lambda>v. if snd v = 0 then (sgn (fst v), 0) else if fst v = 0 then (0, sgn (snd v))
                          else (sgn (fst v) * (11863283 / 16777216), sgn (snd v) * (11863283 / 16777216))),
     rm_scale = (\<lambda>v s. (f_mul (fst v) s, f_mul (snd v) s))\<rparr>"

lemma demo_raymath_law: "raymath_law demo_raymath"
  by (auto simp: raymath_law_def demo_raymath_def sgn_if abs_mult)

theorem bomb_match_sound_witness:
  "\<exists>s a. init_session demo_raymath [7, 9] 2 (demo_arena []) = Some (s, a)
     \<and> (\<exists>s' a'. match_run demo_raymath [Bomb_packet \<lparr>bp_player_id = 7\<rparr>, Tick, Tick] (s, a) = Some (s', a'))"
proof -
  have "0 < unat (2 :: u32)" by simp
  from bomb_match_sound [OF demo_raymath_law this, of "[7, 9]" "demo_arena []"] show ?thesis by blast
qed

section \<open>Who dies\<close>

lemma burnt_iff: "square n g \<Longrightarrow> burnt n g ps = Some (\<exists>p \<in> set ps. grid_get g (fst p) (snd p) = Some EXPLOSION)"
proof (induction ps)
  case (Cons p ps)
  show ?case
  proof (cases "on_arena n p")
    case True
    then obtain t where "grid_get g (fst p) (snd p) = Some t"
      using grid_get_square [OF Cons.prems, of "fst p" "snd p"] by (auto simp: on_arena_def on_map_def)
    then show ?thesis using Cons True by auto
  next
    case False
    then have "grid_get g (fst p) (snd p) \<noteq> Some EXPLOSION" using grid_get_SomeD [OF Cons.prems, of "fst p" "snd p"] by (auto simp: on_arena_def on_map_def)
    then show ?thesis using Cons False by auto
  qed
qed simp

definition touches_flame :: "Arena \<Rightarrow> BombPlayer \<Rightarrow> bool" where
  "touches_flame a p \<longleftrightarrow> (\<exists>q \<in> set (player_tiles p). tile_at a q = Some EXPLOSION)"

definition after_flames :: "Arena \<Rightarrow> BombPlayer \<Rightarrow> BombPlayer" where
  "after_flames a p = (if pl_active p \<and> pl_alive p \<and> touches_flame a p then p\<lparr>pl_alive := False\<rparr> else p)"

lemma kill_player_exact:
  assumes "square n (ar_map a)" and "ar_size a = n" and "i < length (se_players s)"
  shows "\<exists>d. kill_player i (s, a) = Some (s\<lparr>se_players := (se_players s)[i := after_flames a (se_players s ! i)], se_dirty := d\<rparr>, a)"
proof -
  have b: "burnt (ar_size a) (ar_map a) (player_tiles (se_players s ! i)) = Some (touches_flame a (se_players s ! i))"
    using burnt_iff [OF assms(1)] assms(2) by (simp add: touches_flame_def tile_at_def)
  have e: "s = s\<lparr>se_players := (se_players s)[i := se_players s ! i], se_dirty := se_dirty s\<rparr>" by simp
  show ?thesis
  proof (cases "pl_active (se_players s ! i) \<and> pl_alive (se_players s ! i) \<and> touches_flame a (se_players s ! i)")
    case True
    then show ?thesis using b by (auto simp: kill_player_def Let_def after_flames_def intro!: exI [of _ True])
  next
    case False
    then have "kill_player i (s, a) = Some (s, a)" using b by (auto simp: kill_player_def Let_def)
    moreover have "after_flames a (se_players s ! i) = se_players s ! i" using False by (auto simp: after_flames_def)
    ultimately show ?thesis using e by metis
  qed
qed

lemma kill_loop_exact:
  assumes "square n (ar_map a)" and "ar_size a = n" and "\<forall>i \<in> set is. i < length (se_players s)" and "distinct is"
  shows "\<exists>s'. for_players kill_player is (s, a) = Some (s', a) \<and> se_count s' = se_count s
     \<and> length (se_players s') = length (se_players s)
     \<and> (\<forall>j < length (se_players s). se_players s' ! j = (if j \<in> set is then after_flames a (se_players s ! j) else se_players s ! j))"
  using assms(3,4)
proof (induction "is" arbitrary: s)
  case (Cons i "is")
  obtain d where k: "kill_player i (s, a) = Some (s\<lparr>se_players := (se_players s)[i := after_flames a (se_players s ! i)], se_dirty := d\<rparr>, a)"
    using kill_player_exact [OF assms(1,2), of i s] Cons.prems(1) by auto
  let ?s1 = "s\<lparr>se_players := (se_players s)[i := after_flames a (se_players s ! i)], se_dirty := d\<rparr>"
  obtain s' where s': "for_players kill_player is (?s1, a) = Some (s', a)" "se_count s' = se_count ?s1" "length (se_players s') = length (se_players ?s1)"
      "\<forall>j < length (se_players ?s1). se_players s' ! j = (if j \<in> set is then after_flames a (se_players ?s1 ! j) else se_players ?s1 ! j)"
    using Cons.IH [of ?s1] Cons.prems by auto
  then show ?case using k Cons.prems by (auto simp: nth_list_update)
qed simp

lemma kill_players_exact:
  assumes "match_wf n (s, a)"
  obtains s' where "kill_players_in_explosions (s, a) = Some (s', a)" and "se_count s' = se_count s"
    and "\<And>j. j < nat (se_count s) \<Longrightarrow> se_players s' ! j = after_flames a (se_players s ! j)"
proof -
  have w: "square n (ar_map a)" "ar_size a = n" "\<forall>i \<in> set [0..<nat (se_count s)]. i < length (se_players s)"
    using assms by (auto simp: match_wf_def arena_wf_def core_wf_def)
  obtain s' where s': "for_players kill_player [0..<nat (se_count s)] (s, a) = Some (s', a)" "se_count s' = se_count s"
    "\<forall>j < length (se_players s). se_players s' ! j = (if j \<in> set [0..<nat (se_count s)] then after_flames a (se_players s ! j) else se_players s ! j)"
    using kill_loop_exact [OF w] by auto
  then show thesis using that [of s'] w(3) by (simp add: kill_players_in_explosions_def)
qed

lemma player_move_alive: "player_move rm dt g p = Some (p', moved) \<Longrightarrow> pl_alive p' = pl_alive p \<and> pl_active p' = pl_active p"
  by (auto simp: player_move_def Let_def split: option.splits)

lemma player_tick_alive:
  assumes "player_tick rm dt i sa = Some sa'"
  shows "pl_alive (se_players (fst sa') ! j) = pl_alive (se_players (fst sa) ! j) \<and> pl_active (se_players (fst sa') ! j) = pl_active (se_players (fst sa) ! j)"
proof -
  obtain s a where sa: "sa = (s, a)" by fastforce
  show ?thesis
    using assms by (cases "i < length (se_players s)")
      (auto simp: player_tick_def sa Let_def nth_list_update list_update_beyond not_less split: if_splits option.splits prod.splits dest!: player_move_alive)
qed

lemma move_players_alive:
  "for_players (player_tick rm dt) is sa = Some sa' \<Longrightarrow>
   pl_alive (se_players (fst sa') ! j) = pl_alive (se_players (fst sa) ! j) \<and> pl_active (se_players (fst sa') ! j) = pl_active (se_players (fst sa) ! j)"
  by (induction "is" arbitrary: sa) (auto split: option.splits dest!: player_tick_alive)

text \<open>
  C29 (flames_kill): After a tick of the match exactly those players are alive who were alive before and whose box overlaps no burning tile
  of the map as it is after the tick.
\<close>

theorem flames_kill:
  assumes "match_wf n (s, a)" and "raymath_law rm" and "stride_ok dt"
  shows "\<exists>s' a' es. tick_session rm dt (s, a) = Some (s', a', es) \<and> se_count s' = se_count s
     \<and> (\<forall>i < nat (se_count s). pl_active (se_players s ! i) \<longrightarrow>
          pl_alive (se_players s' ! i) = (pl_alive (se_players s ! i) \<and> \<not> touches_flame a' (se_players s' ! i)))"
proof -
  have "\<exists>sa'. for_players (player_tick rm dt) [0..<nat (se_count (fst (s, a)))] (s, a) = Some sa' \<and> match_wf n sa' \<and> continues (s, a) sa'"
    by (rule for_players_safe [OF player_tick_safe _ refl]) (use assms in auto)
  then obtain s1 a1 where r1: "for_players (player_tick rm dt) [0..<nat (se_count s)] (s, a) = Some (s1, a1)" "match_wf n (s1, a1)" "continues (s, a) (s1, a1)"
    by auto
  have w1: "arena_wf n a1" using r1(2) by (simp add: match_wf_def)
  obtain a2 where a2: "tick_bombs dt a1 = Some a2" "arena_wf n a2" "evolves a1 a2" using tick_bombs_safe [OF w1] by blast
  obtain a3 where a3: "tick_explosions dt a2 = Some a3" "arena_wf n a3" "evolves a2 a3" using tick_explosions_safe [OF a2(2)] by blast
  have m3: "match_wf n (s1, a3)" using match_wf_arena [OF r1(2) a3(2) evolves_trans [OF a2(3) a3(3)]] by simp
  obtain s' where s': "kill_players_in_explosions (s1, a3) = Some (s', a3)" "se_count s' = se_count s1"
      "\<And>j. j < nat (se_count s1) \<Longrightarrow> se_players s' ! j = after_flames a3 (se_players s1 ! j)"
    by (rule kill_players_exact [OF m3]) (rule that; assumption?; blast)
  have c: "se_count s1 = se_count s" using r1(3) by (simp add: continues_def)
  have run: "tick_session rm dt (s, a) = Some (s', a3, new_explosions (q_rear (ar_explodes a1)) a2)"
    using r1(1) a2(1) a3(1) s'(1) by (simp add: tick_session_def apply_movement_and_pickups_def)
  have t: "touches_flame a3 (after_flames a3 p) = touches_flame a3 p" for p
    by (simp add: after_flames_def touches_flame_def player_tiles_def)
  have "pl_alive (se_players s' ! i) = (pl_alive (se_players s ! i) \<and> \<not> touches_flame a3 (se_players s' ! i))"
    if "i < nat (se_count s)" "pl_active (se_players s ! i)" for i
    using s'(3) [of i] that move_players_alive [OF r1(1), of i] unfolding c by (simp add: t) (auto simp: after_flames_def)
  then show ?thesis using run s'(2) c by auto
qed

theorem flames_kill_witness:
  "\<exists>s a s' a' es. init_session demo_raymath [7, 9] 2 (demo_arena []) = Some (s, a) \<and> se_count s = 2
     \<and> tick_session demo_raymath TICK_DELTA (s, a) = Some (s', a', es)
     \<and> pl_alive (se_players s' ! 1) = (\<not> touches_flame a' (se_players s' ! 1))"
proof -
  have two: "0 < unat (2 :: u32)" "min (unat (2 :: u32)) 25 = 2" by simp_all
  obtain s a where s: "init_session demo_raymath [7, 9] 2 (demo_arena []) = Some (s, a)" "match_wf (calc_map_size (int 2) + 2) (s, a)" "se_count s = int 2"
      "\<And>i. i < 2 \<Longrightarrow> pl_player_id (se_players s ! i) = [7, 9] ! i \<and> pl_active (se_players s ! i) \<and> pl_alive (se_players s ! i)"
    using init_session_sound [OF demo_raymath_law two(1), of "[7, 9]" "demo_arena []"] unfolding two(2) by metis
  from flames_kill [OF s(2) demo_raymath_law TICK_stride] obtain s' a' es where
    r: "tick_session demo_raymath TICK_DELTA (s, a) = Some (s', a', es)"
      "\<forall>i < nat (se_count s). pl_active (se_players s ! i) \<longrightarrow>
         pl_alive (se_players s' ! i) = (pl_alive (se_players s ! i) \<and> \<not> touches_flame a' (se_players s' ! i))"
    by blast
  have "pl_alive (se_players s' ! 1) = (\<not> touches_flame a' (se_players s' ! 1))" using r(2) s(3) s(4) [of 1] by simp
  then show ?thesis using s(1,3) r(1) by auto
qed

end
