(* ===== verification/Bombd.thy ===== *)
theory Bombd
  imports Bomb_Match
begin

text \<open>
  The bomb server's main program, \<open>bombd/main.c\<close>: the set-up of a match and the authoritative tick loop. The messages that
  \<open>brserver_get_app_msg\<close> hands out and the ids of \<open>brserver_get_disconnected\<close> are arguments of an iteration; what is sent is a list, in order, of
  buffers for all clients over TCP (\<open>brserver_send_to_all\<close>) and of UDP broadcasts (\<open>brserver_send_broadcast\<close>).
\<close>

datatype server_out = To_all "u8 list" | Broadcast "u8 list"

abbreviation zero_buffer :: "u8 list" where "zero_buffer \<equiv> replicate 2048 0"

fun tile_code :: "TileType \<Rightarrow> u8" where
  "tile_code EMPTY = 0"
| "tile_code PLAYER = 1"
| "tile_code BOMB = 2"
| "tile_code EXPLOSION = 3"
| "tile_code POWERUP_FIRE = 4"
| "tile_code POWERUP_BOMB = 5"
| "tile_code BREAKABLE = 6"
| "tile_code WALL = 7"

definition MASTER_PORT :: nat where "MASTER_PORT = 6700"
definition ROOM_TCP_PORT :: nat where "ROOM_TCP_PORT = 6810"
definition ROOM_UDP_PORT :: nat where "ROOM_UDP_PORT = 6701"

definition send_redirect :: "u8 list" where
  "send_redirect = be32 (of_nat ROOM_TCP_PORT)"

section \<open>Broadcasts\<close>

definition broadcast_tile_update :: "int \<Rightarrow> int \<Rightarrow> u8 \<Rightarrow> server_out" where
  "broadcast_tile_update x y tile =
     To_all (pack_tile_update zero_buffer \<lparr>tu_x = word_of_int x, tu_y = word_of_int y, tu_tile = ucast tile\<rparr>)"

text \<open>The nested loops over the part of the map that fits the packet, row by row.\<close>

definition dim_places :: "int \<Rightarrow> (int \<times> int) list" where
  "dim_places map_size = map_places (min map_size (int BOMBD_MAX_MAP_DIM))"

fun diff_tiles :: "(int \<times> int) list \<Rightarrow> grid \<Rightarrow> u8 list list \<Rightarrow> (server_out list \<times> u8 list list) option" where
  "diff_tiles [] g prev_map = Some ([], prev_map)"
| "diff_tiles ((i, j) # ps) g prev_map =
     (case (grid_get g i j, grid_get prev_map i j) of
        (Some t, Some old) \<Rightarrow>
          let current = tile_code t
          in if current \<noteq> old
             then (case grid_put prev_map i j current of
                     None \<Rightarrow> None
                   | Some prev' \<Rightarrow> map_option (\<lambda>(os, p). (broadcast_tile_update i j current # os, p)) (diff_tiles ps g prev'))
             else diff_tiles ps g prev_map
      | _ \<Rightarrow> None)"

definition diff_and_broadcast_map :: "Arena \<Rightarrow> u8 list list \<Rightarrow> (server_out list \<times> u8 list list) option" where
  "diff_and_broadcast_map a prev_map = diff_tiles (dim_places (ar_size a)) (ar_map a) prev_map"

fun facing_code :: "Facing \<Rightarrow> u32" where
  "facing_code FACING_UP = 0" | "facing_code FACING_DOWN = 1" | "facing_code FACING_LEFT = 2" | "facing_code FACING_RIGHT = 3"

definition player_entry :: "BombPlayer \<Rightarrow> PlayerStateEntry" where
  "player_entry p = \<lparr>ps_player_id = pl_player_id p, ps_x = f32_bits (fst (bx_position (pl_box p))), ps_y = f32_bits (snd (bx_position (pl_box p))),
     ps_direction = facing_code (pl_direction p), ps_is_moving = (if pl_is_moving p then 1 else 0), ps_alive = (if pl_alive p then 1 else 0),
     ps_num_bombs = word_of_int (st_num_bombs (pl_inventory p)), ps_remaining_bombs = word_of_int (st_remaining_bombs (pl_inventory p)),
     ps_num_fires = word_of_int (st_num_fires (pl_inventory p))\<rparr>"

definition zero_entry :: PlayerStateEntry where
  "zero_entry = \<lparr>ps_player_id = 0, ps_x = 0, ps_y = 0, ps_direction = 0, ps_is_moving = 0, ps_alive = 0, ps_num_bombs = 0, ps_remaining_bombs = 0,
     ps_num_fires = 0\<rparr>"

definition bomb_entry :: "BombInfo \<Rightarrow> BombStateEntry" where
  "bomb_entry b = \<lparr>bs_x = f32_bits (fst (bi_position b)), bs_y = f32_bits (snd (bi_position b)), bs_timer = f32_bits (bi_timer b)\<rparr>"

text \<open>The loops fill the first entries of the zeroed arrays of the payload.\<close>

definition state_payload :: "BombSession \<Rightarrow> Arena \<Rightarrow> BombStatePayload" where
  "state_payload s a =
     (let bombs = take BOMBD_MAX_BOMBS (queue_list (ar_bombs a))
      in \<lparr>sp_player_count = word_of_int (se_count s),
          sp_players = map (\<lambda>i. player_entry (se_players s ! i)) [0..<nat (se_count s)] @ replicate (BOMBD_MAX_PLAYERS - nat (se_count s)) zero_entry,
          sp_bomb_count = of_nat (length bombs),
          sp_bombs = map bomb_entry bombs @ replicate (BOMBD_MAX_BOMBS - length bombs) \<lparr>bs_x = 0, bs_y = 0, bs_timer = 0\<rparr>\<rparr>)"

definition broadcast_state :: "BombSession \<Rightarrow> Arena \<Rightarrow> server_out" where
  "broadcast_state s a = To_all (pack_state zero_buffer (state_payload s a))"

definition on_explosion_triggered :: "ExplosionInfo \<Rightarrow> server_out" where
  "on_explosion_triggered e =
     Broadcast (pack_explosion zero_buffer
       \<lparr>ex_center_x = f32_bits (fst (xi_center e)), ex_center_y = f32_bits (snd (xi_center e)),
        ex_spread_amt = map (\<lambda>i. word_of_int (xi_spread_amt e ! i)) [0..<4]\<rparr>)"

section \<open>Set-up\<close>

definition roster_packet :: "u32 \<Rightarrow> u32 list \<Rightarrow> server_out" where
  "roster_packet lobby_size client_ids =
     (let k = min (unat lobby_size) BOMBD_MAX_PLAYERS
      in To_all (pack_roster zero_buffer \<lparr>ro_count = lobby_size, ro_ids = take k client_ids @ replicate (BOMBD_MAX_PLAYERS - k) 0\<rparr>))"

fun copy_tiles :: "(int \<times> int) list \<Rightarrow> grid \<Rightarrow> u8 list list \<Rightarrow> u8 list list option" where
  "copy_tiles [] g m = Some m"
| "copy_tiles ((i, j) # ps) g m =
     (case grid_get g i j of
        None \<Rightarrow> None
      | Some t \<Rightarrow> (case grid_put m i j (tile_code t) of None \<Rightarrow> None | Some m' \<Rightarrow> copy_tiles ps g m'))"

definition zero_tiles :: "u8 list list" where
  "zero_tiles = replicate BOMBD_MAX_MAP_DIM (replicate BOMBD_MAX_MAP_DIM 0)"

record bombd =
  bd_session :: BombSession
  bd_arena :: Arena
  bd_prev_map :: "u8 list list"

definition bombd_setup :: "raymath \<Rightarrow> u32 \<Rightarrow> u32 list \<Rightarrow> Arena \<Rightarrow> (bombd \<times> server_out list) option" where
  "bombd_setup rm lobby_size client_ids a0 =
     (case init_session rm client_ids lobby_size a0 of
        None \<Rightarrow> None
      | Some (s, a) \<Rightarrow>
          (case copy_tiles (dim_places (ar_size a)) (ar_map a) zero_tiles of
             None \<Rightarrow> None
           | Some tiles \<Rightarrow>
               Some (\<lparr>bd_session = s, bd_arena = a, bd_prev_map = tiles\<rparr>,
                     [roster_packet lobby_size client_ids,
                      To_all (pack_map_init zero_buffer \<lparr>mi_map_size = word_of_int (ar_size a), mi_tiles = concat tiles\<rparr>)])))"

section \<open>The tick loop\<close>

definition MAX_MSGS_PER_TICK :: nat where "MAX_MSGS_PER_TICK = 128"

definition handle_packet :: "u8 list \<Rightarrow> BombSession \<times> Arena \<Rightarrow> (BombSession \<times> Arena) option" where
  "handle_packet msg sa =
     (case sa of (s, a) \<Rightarrow>
        let tag = read_bomb_packet_tag msg
        in if tag = packet_tag PACKET_MOVE
           then let move = unpack_move msg in Some (apply_move (find_bomb_player s (mv_player_id move)) move s, a)
           else if tag = packet_tag PACKET_BOMB_PLACE
           then apply_bomb_place (find_bomb_player s (bp_player_id (unpack_bomb_place msg))) (s, a)
           else Some (s, a))"

fun handle_packets :: "u8 list list \<Rightarrow> BombSession \<times> Arena \<Rightarrow> (BombSession \<times> Arena) option" where
  "handle_packets [] sa = Some sa"
| "handle_packets (m # ms) sa = (case handle_packet m sa of None \<Rightarrow> None | Some sa' \<Rightarrow> handle_packets ms sa')"

definition handle_disconnect :: "u32 \<Rightarrow> BombSession \<Rightarrow> BombSession" where
  "handle_disconnect gone_id s =
     (case find_bomb_player s gone_id of
        None \<Rightarrow> s
      | Some i \<Rightarrow>
          if pl_alive (se_players s ! i)
          then s\<lparr>se_players := (se_players s)[i := (se_players s ! i)\<lparr>pl_alive := False\<rparr>], se_dirty := True\<rparr>
          else s)"

text \<open>The end of the match: \<open>None\<close> while it goes on, else the winner's id, 0 for none.\<close>

definition match_result :: "BombSession \<Rightarrow> u32 option" where
  "match_result s =
     (let alive = count_alive_players s
      in if se_count s > 1 \<and> alive \<le> 1
         then Some (case List.find (\<lambda>i. pl_alive (se_players s ! i)) [0..<nat (se_count s)] of
                      None \<Rightarrow> 0
                    | Some i \<Rightarrow> pl_player_id (se_players s ! i))
         else if se_count s = 1 \<and> alive = 0 then Some 0
         else None)"

definition bombd_tick :: "raymath \<Rightarrow> u8 list list \<Rightarrow> u32 list \<Rightarrow> bombd \<Rightarrow> (bombd \<times> server_out list \<times> u32 option) option" where
  "bombd_tick rm msgs gone d =
     (case handle_packets (take MAX_MSGS_PER_TICK msgs) (bd_session d, bd_arena d) of
        None \<Rightarrow> None
      | Some (s1, a1) \<Rightarrow>
          (case tick_session rm TICK_DELTA (fold handle_disconnect gone s1, a1) of
             None \<Rightarrow> None
           | Some (s2, a2, explosions) \<Rightarrow>
               (case diff_and_broadcast_map a2 (bd_prev_map d) of
                  None \<Rightarrow> None
                | Some (updates, prev) \<Rightarrow>
                    let dirty = (se_dirty s2 \<or> \<not> queue_empty (ar_bombs a2));
                        s3 = s2\<lparr>se_dirty := False\<rparr>
                    in Some (\<lparr>bd_session = s3, bd_arena = a2, bd_prev_map = prev\<rparr>,
                             map on_explosion_triggered explosions @ updates @ (if dirty then [broadcast_state s2 a2] else []),
                             match_result s3))))"

text \<open>The loop runs until the match is over; the last packet announces the winner.\<close>

fun bombd_run :: "raymath \<Rightarrow> (u8 list list \<times> u32 list) list \<Rightarrow> bombd \<Rightarrow> (bombd \<times> server_out list \<times> u32 option) option" where
  "bombd_run rm [] d = Some (d, [], None)"
| "bombd_run rm ((msgs, gone) # ts) d =
     (case bombd_tick rm msgs gone d of
        None \<Rightarrow> None
      | Some (d', out, Some winner) \<Rightarrow>
          Some (d', out @ [To_all (pack_game_over zero_buffer \<lparr>go_winner_id = winner\<rparr>)], Some winner)
      | Some (d', out, None) \<Rightarrow> map_option (\<lambda>(d'', out', w). (d'', out @ out', w)) (bombd_run rm ts d'))"

section \<open>The server's copy of the map\<close>

text \<open>The copy holds the codes of the tiles of the map as far as the packets reach.\<close>

abbreviation dims :: "int \<Rightarrow> int" where "dims n \<equiv> min n 20"

definition synced :: "int \<Rightarrow> grid \<Rightarrow> u8 list list \<Rightarrow> bool" where
  "synced n g prev \<longleftrightarrow> square 20 prev \<and> (\<forall>i j. on_map (dims n) (i, j) \<longrightarrow> grid_get prev i j = map_option tile_code (grid_get g i j))"

lemma on_map_dims: "on_map (dims n) p \<Longrightarrow> on_map n p" "on_map (dims n) p \<Longrightarrow> on_map 20 p"
  by (auto simp: on_map_def)

lemma dim_places_set: "set (dim_places n) = {p. on_map (dims n) p}"
  by (simp add: dim_places_def map_places_set)

lemma copy_tiles_sound:
  assumes "square n g" and "square 20 m" and "\<forall>p \<in> set ps. on_map (dims n) p"
  shows "\<exists>m'. copy_tiles ps g m = Some m' \<and> square 20 m'
     \<and> (\<forall>i j. grid_get m' i j = (if (i, j) \<in> set ps then map_option tile_code (grid_get g i j) else grid_get m i j))"
  using assms(2,3)
proof (induction ps arbitrary: m)
  case (Cons p ps)
  obtain i j where p: "p = (i, j)" by fastforce
  have on: "on_map n (i, j)" "on_map 20 (i, j)" using Cons.prems(2) p on_map_dims by auto
  obtain t where t: "grid_get g i j = Some t" using grid_get_square [OF assms(1) on(1)] by blast
  obtain m1 where m1: "grid_put m i j (tile_code t) = Some m1" "square 20 m1"
      "\<And>a b. grid_get m1 a b = (if (a, b) = (i, j) then Some (tile_code t) else grid_get m a b)"
    using grid_put_square [OF Cons.prems(1) on(2)] by metis
  show ?case using Cons.IH [OF m1(2)] Cons.prems(2) m1 t by (auto simp: p)
qed simp

text \<open>An update is the place and the new code; the loop announces exactly the assignments that it makes.\<close>

definition update_packet :: "(int \<times> int) \<times> u8 \<Rightarrow> server_out" where
  "update_packet u = broadcast_tile_update (fst (fst u)) (snd (fst u)) (snd u)"

lemma diff_tiles_sound:
  assumes "square n g" and "square 20 m" and "\<forall>p \<in> set ps. on_map (dims n) p"
  shows "\<exists>us m'. diff_tiles ps g m = Some (map update_packet us, m') \<and> square 20 m' \<and> puts us m = Some m'
     \<and> (\<forall>u \<in> set us. on_map (dims n) (fst u))
     \<and> (\<forall>i j. grid_get m' i j = (if (i, j) \<in> set ps then map_option tile_code (grid_get g i j) else grid_get m i j))"
  using assms(2,3)
proof (induction ps arbitrary: m)
  case Nil
  then show ?case by (auto intro!: exI [of _ "[]"])
next
  case (Cons p ps)
  obtain i j where p: "p = (i, j)" by fastforce
  have on: "on_map n (i, j)" "on_map 20 (i, j)" and d: "on_map (dims n) (i, j)" using Cons.prems(2) p on_map_dims by auto
  obtain t where t: "grid_get g i j = Some t" using grid_get_square [OF assms(1) on(1)] by blast
  obtain old where old: "grid_get m i j = Some old" using grid_get_square [OF Cons.prems(1) on(2)] by blast
  obtain m1 where m1: "grid_put m i j (tile_code t) = Some m1" "square 20 m1"
      "\<And>a b. grid_get m1 a b = (if (a, b) = (i, j) then Some (tile_code t) else grid_get m a b)"
    using grid_put_square [OF Cons.prems(1) on(2)] by metis
  have ps: "\<forall>p \<in> set ps. on_map (dims n) p" using Cons.prems(2) by simp
  show ?case
  proof (cases "tile_code t = old")
    case True
    obtain us m' where r: "diff_tiles ps g m = Some (map update_packet us, m')" "square 20 m'" "puts us m = Some m'"
        "\<forall>u \<in> set us. on_map (dims n) (fst u)"
        "\<forall>i j. grid_get m' i j = (if (i, j) \<in> set ps then map_option tile_code (grid_get g i j) else grid_get m i j)"
      using Cons.IH [OF Cons.prems(1) ps] by blast
    moreover have "diff_tiles (p # ps) g m = Some (map update_packet us, m')" using r(1) t old True by (simp add: p)
    ultimately show ?thesis using t old True by (intro exI conjI) (assumption | auto simp: p)+
  next
    case False
    obtain us m' where r: "diff_tiles ps g m1 = Some (map update_packet us, m')" "square 20 m'" "puts us m1 = Some m'"
        "\<forall>u \<in> set us. on_map (dims n) (fst u)"
        "\<forall>i j. grid_get m' i j = (if (i, j) \<in> set ps then map_option tile_code (grid_get g i j) else grid_get m1 i j)"
      using Cons.IH [OF m1(2) ps] by blast
    let ?us = "((i, j), tile_code t) # us"
    have "diff_tiles (p # ps) g m = Some (map update_packet ?us, m')" using r(1) t old False m1(1) by (simp add: p update_packet_def)
    moreover have "puts ?us m = Some m'" using m1(1) r(3) by simp
    moreover have "\<forall>u \<in> set ?us. on_map (dims n) (fst u)" using r(4) d by simp
    moreover have "\<forall>a b. grid_get m' a b = (if (a, b) \<in> set (p # ps) then map_option tile_code (grid_get g a b) else grid_get m a b)"
      using r(5) m1(3) t by (auto simp: p)
    ultimately show ?thesis using r(2) by blast
  qed
qed

lemma diff_map_sound:
  assumes "arena_wf n a" and "square 20 m"
  obtains us m' where "diff_and_broadcast_map a m = Some (map update_packet us, m')" and "synced n (ar_map a) m'"
    and "puts us m = Some m'" and "\<forall>u \<in> set us. on_map (dims n) (fst u)"
proof -
  have sq: "square n (ar_map a)" "ar_size a = n" using assms(1) by (auto simp: arena_wf_def core_wf_def)
  have "\<forall>p \<in> set (dim_places n). on_map (dims n) p" by (simp add: dim_places_set)
  from diff_tiles_sound [OF sq(1) assms(2) this] obtain us m' where
    r: "diff_tiles (dim_places n) (ar_map a) m = Some (map update_packet us, m')" "square 20 m'" "puts us m = Some m'"
      "\<forall>u \<in> set us. on_map (dims n) (fst u)"
      "\<forall>i j. grid_get m' i j = (if (i, j) \<in> set (dim_places n) then map_option tile_code (grid_get (ar_map a) i j) else grid_get m i j)"
    by blast
  show thesis
  proof (rule that [OF _ _ r(3,4)])
    show "diff_and_broadcast_map a m = Some (map update_packet us, m')" using r(1) sq(2) by (simp add: diff_and_broadcast_map_def)
    show "synced n (ar_map a) m'" using r(2,5) by (simp add: synced_def dim_places_set)
  qed
qed

section \<open>The tick keeps the match well formed\<close>

lemma handle_packet_safe:
  assumes "match_wf n sa" and "raymath_law rm"
  shows "\<exists>sa'. handle_packet m sa = Some sa' \<and> match_wf n sa' \<and> continues sa sa'"
proof -
  obtain s a where sa: "sa = (s, a)" by fastforce
  show ?thesis
    using match_step_safe [OF assms, of "Move_packet (unpack_move m)"] match_step_safe [OF assms, of "Bomb_packet (unpack_bomb_place m)"] assms(1)
    by (auto simp: handle_packet_def sa Let_def)
qed

lemma handle_packets_safe:
  assumes "match_wf n sa" and "raymath_law rm"
  shows "\<exists>sa'. handle_packets ms sa = Some sa' \<and> match_wf n sa' \<and> continues sa sa'"
  using assms(1)
proof (induction ms arbitrary: sa)
  case (Cons m ms)
  obtain sa1 where s1: "handle_packet m sa = Some sa1" "match_wf n sa1" "continues sa sa1"
    using handle_packet_safe [OF Cons.prems assms(2)] by blast
  then show ?case using Cons.IH [OF s1(2)] continues_trans [OF s1(3)] by auto
qed simp

lemma handle_disconnect_safe:
  assumes "match_wf n (s, a)"
  shows "match_wf n (handle_disconnect g s, a) \<and> continues (s, a) (handle_disconnect g s, a)"
proof (cases "find_bomb_player s g")
  case (Some i)
  have i: "i < nat (se_count s)" using find_bomb_player_range [OF Some] .
  have "arena_wf n a" "player_ok n (ar_map a) ((se_players s ! i)\<lparr>pl_alive := False\<rparr>)"
    using assms i by (auto simp: match_wf_def player_ok_def)
  from match_step_player [OF assms i this(1) evolves_refl this(2), of True] show ?thesis
    using assms Some by (simp add: handle_disconnect_def)
qed (use assms in \<open>simp add: handle_disconnect_def\<close>)

lemma handle_disconnects_safe:
  "match_wf n (s, a) \<Longrightarrow> match_wf n (fold handle_disconnect gs s, a) \<and> continues (s, a) (fold handle_disconnect gs s, a)"
proof (induction gs arbitrary: s)
  case (Cons g gs)
  note h = handle_disconnect_safe [OF Cons.prems, of g]
  show ?case using Cons.IH [OF conjunct1 [OF h]] continues_trans [OF conjunct2 [OF h]] by simp
qed simp

text \<open>The invariant of the tick loop, and the messages that one iteration sends.\<close>

definition bombd_wf :: "int \<Rightarrow> bombd \<Rightarrow> bool" where
  "bombd_wf n d \<longleftrightarrow> match_wf n (bd_session d, bd_arena d) \<and> synced n (ar_map (bd_arena d)) (bd_prev_map d)"

lemma bombd_tick_safe:
  assumes "bombd_wf n d" and "raymath_law rm"
  obtains d' es us st where
    "bombd_tick rm msgs gone d = Some (d', map on_explosion_triggered es @ map update_packet us @ st, match_result (bd_session d'))"
    and "bombd_wf n d'" and "continues (bd_session d, bd_arena d) (bd_session d', bd_arena d')"
    and "puts us (bd_prev_map d) = Some (bd_prev_map d')" and "\<forall>u \<in> set us. on_map (dims n) (fst u)"
    and "st = [] \<or> st = [broadcast_state (bd_session d') (bd_arena d')]"
proof -
  have w: "match_wf n (bd_session d, bd_arena d)" and sq: "square 20 (bd_prev_map d)" using assms(1) by (simp_all add: bombd_wf_def synced_def)
  obtain s1 a1 where r1: "handle_packets (take MAX_MSGS_PER_TICK msgs) (bd_session d, bd_arena d) = Some (s1, a1)" "match_wf n (s1, a1)"
      "continues (bd_session d, bd_arena d) (s1, a1)"
    using handle_packets_safe [OF w assms(2)] by (metis surj_pair)
  define s2 where "s2 = fold handle_disconnect gone s1"
  have r2: "match_wf n (s2, a1)" "continues (s1, a1) (s2, a1)" using handle_disconnects_safe [OF r1(2)] by (simp_all add: s2_def)
  obtain s3 a3 es where r3: "tick_session rm TICK_DELTA (s2, a1) = Some (s3, a3, es)" "match_wf n (s3, a3)" "continues (s2, a1) (s3, a3)"
    using tick_session_safe [OF r2(1) assms(2) TICK_stride] by blast
  have aw: "arena_wf n a3" using r3(2) by (simp add: match_wf_def)
  obtain us m' where df: "diff_and_broadcast_map a3 (bd_prev_map d) = Some (map update_packet us, m')" "synced n (ar_map a3) m'"
      "puts us (bd_prev_map d) = Some m'" "\<forall>u \<in> set us. on_map (dims n) (fst u)"
    using diff_map_sound [OF aw sq] by blast
  let ?s = "s3\<lparr>se_dirty := False\<rparr>"
  have same: "broadcast_state ?s a3 = broadcast_state s3 a3" by (simp add: broadcast_state_def state_payload_def)
  have "continues (bd_session d, bd_arena d) (s3, a3)" using continues_trans [OF r1(3) continues_trans [OF r2(2) r3(3)]] .
  then have c: "continues (bd_session d, bd_arena d) (?s, a3)" by (simp add: continues_def)
  have m: "match_wf n (?s, a3)" using r3(2) by (simp add: match_wf_def)
  let ?d = "\<lparr>bd_session = ?s, bd_arena = a3, bd_prev_map = m'\<rparr>"
  let ?st = "if se_dirty s3 \<or> \<not> queue_empty (ar_bombs a3) then [broadcast_state s3 a3] else []"
  have run: "bombd_tick rm msgs gone d = Some (?d, map on_explosion_triggered es @ map update_packet us @ ?st, match_result ?s)"
    using r1(1) r3(1) df(1) by (simp add: bombd_tick_def s2_def Let_def)
  show thesis
    by (rule that [of ?d es us ?st]) (use run m c df same in \<open>simp_all add: bombd_wf_def\<close>)
qed

section \<open>The end of the match\<close>

definition alive_ids :: "BombSession \<Rightarrow> u32 list" where
  "alive_ids s = map pl_player_id (filter pl_alive (take (nat (se_count s)) (se_players s)))"

definition verdict :: "BombSession \<Rightarrow> u32 option" where
  "verdict s =
     (if 2 \<le> length (alive_ids s) \<or> se_count s = 1 \<and> alive_ids s \<noteq> [] then None
      else Some (case alive_ids s of [] \<Rightarrow> 0 | x # _ \<Rightarrow> x))"

lemma find_snoc: "List.find P (xs @ [x]) = (case List.find P xs of None \<Rightarrow> (if P x then Some x else None) | Some y \<Rightarrow> Some y)"
  by (induction xs) auto

lemma find_first:
  "n \<le> length xs \<Longrightarrow> map_option (\<lambda>i. f (xs ! i)) (List.find (\<lambda>i. P (xs ! i)) [0..<n]) =
     (case map f (filter P (take n xs)) of [] \<Rightarrow> None | y # _ \<Rightarrow> Some y)"
proof (induction n)
  case (Suc n)
  then show ?case by (auto simp: take_Suc_conv_app_nth find_snoc split: option.splits list.splits)
qed simp

lemma match_result_verdict:
  assumes "0 < se_count s" and "nat (se_count s) \<le> length (se_players s)" and "\<And>i. i < nat (se_count s) \<Longrightarrow> pl_active (se_players s ! i)"
  shows "match_result s = verdict s"
proof -
  let ?k = "nat (se_count s)"
  have e: "map (\<lambda>i. se_players s ! i) [0..<?k] = take ?k (se_players s)" using map_nth_upt_take [OF assms(2)] .
  have act: "\<forall>p \<in> set (take ?k (se_players s)). pl_active p" using assms(2,3) by (auto simp: in_set_conv_nth)
  have "filter (\<lambda>p. pl_active p \<and> pl_alive p) (take ?k (se_players s)) = filter pl_alive (take ?k (se_players s))"
    by (rule filter_cong [OF refl]) (use act in blast)
  then have al: "count_alive_players s = int (length (alive_ids s))" by (simp add: count_alive_players_def alive_ids_def e)
  have "map_option (\<lambda>i. pl_player_id (se_players s ! i)) (List.find (\<lambda>i. pl_alive (se_players s ! i)) [0..<?k])
      = (case alive_ids s of [] \<Rightarrow> None | y # _ \<Rightarrow> Some y)"
    unfolding alive_ids_def by (rule find_first [OF assms(2)])
  then have win: "(case List.find (\<lambda>i. pl_alive (se_players s ! i)) [0..<?k] of None \<Rightarrow> 0 | Some i \<Rightarrow> pl_player_id (se_players s ! i))
      = (case alive_ids s of [] \<Rightarrow> 0 | x # _ \<Rightarrow> x)"
    by (auto split: option.splits list.splits)
  have "length (alive_ids s) \<le> ?k" by (auto simp: alive_ids_def intro: le_trans [OF length_filter_le])
  then show ?thesis using assms(1) unfolding match_result_def verdict_def Let_def al win by auto
qed

text \<open>All slots that count are in use: they are filled at the start and never given up.\<close>

definition manned :: "BombSession \<Rightarrow> bool" where
  "manned s \<longleftrightarrow> 0 < se_count s \<and> nat (se_count s) \<le> length (se_players s) \<and> (\<forall>i < nat (se_count s). pl_active (se_players s ! i))"

lemma manned_continues: "manned s \<Longrightarrow> continues (s, a) (s', a') \<Longrightarrow> manned s'"
  by (auto simp: manned_def continues_def)

lemma bombd_setup_sound:
  assumes "raymath_law rm" and "0 < unat lobby_size"
  defines "k \<equiv> min (unat lobby_size) 25"
  defines "n \<equiv> calc_map_size (int k) + 2"
  obtains s a tiles where
    "bombd_setup rm lobby_size client_ids a0 = Some (\<lparr>bd_session = s, bd_arena = a, bd_prev_map = tiles\<rparr>,
       [roster_packet lobby_size client_ids, To_all (pack_map_init zero_buffer \<lparr>mi_map_size = word_of_int n, mi_tiles = concat tiles\<rparr>)])"
    and "bombd_wf n \<lparr>bd_session = s, bd_arena = a, bd_prev_map = tiles\<rparr>" and "manned s" and "se_count s = int k"
    and "\<And>i. i < k \<Longrightarrow> pl_player_id (se_players s ! i) = client_ids ! i \<and> pl_alive (se_players s ! i)"
proof -
  obtain s a where s: "init_session rm client_ids lobby_size a0 = Some (s, a)" "match_wf n (s, a)" "se_count s = int k"
      "\<And>i. i < k \<Longrightarrow> pl_player_id (se_players s ! i) = client_ids ! i \<and> pl_active (se_players s ! i) \<and> pl_alive (se_players s ! i)"
    using init_session_sound [OF assms(1,2)] unfolding k_def n_def by metis
  have sq: "square n (ar_map a)" "ar_size a = n" using s(2) by (auto simp: match_wf_def arena_wf_def core_wf_def)
  have z: "square 20 zero_tiles" by (simp add: square_def zero_tiles_def)
  have "\<forall>p \<in> set (dim_places n). on_map (dims n) p" by (simp add: dim_places_set)
  from copy_tiles_sound [OF sq(1) z this] obtain tiles where
    t: "copy_tiles (dim_places n) (ar_map a) zero_tiles = Some tiles" "square 20 tiles"
      "\<forall>i j. grid_get tiles i j = (if (i, j) \<in> set (dim_places n) then map_option tile_code (grid_get (ar_map a) i j) else grid_get zero_tiles i j)"
    by blast
  have man: "manned s" using s(2,3,4) assms(2) by (auto simp: manned_def match_wf_def k_def)
  show thesis
    by (rule that [of s a tiles, OF _ _ man s(3)]) (use s t sq in \<open>simp_all add: bombd_setup_def bombd_wf_def synced_def dim_places_set\<close>)
qed

lemma bombd_run_safe:
  assumes "bombd_wf n d" and "raymath_law rm" and "manned (bd_session d)" and "verdict (bd_session d) = None"
  shows "\<exists>d' out. bombd_run rm ts d = Some (d', out, verdict (bd_session d')) \<and> bombd_wf n d'
     \<and> continues (bd_session d, bd_arena d) (bd_session d', bd_arena d')"
  using assms(1,3,4)
proof (induction ts arbitrary: d)
  case Nil
  then show ?case by auto
next
  case (Cons t ts)
  obtain msgs gone where t: "t = (msgs, gone)" by fastforce
  obtain d1 o1 where d1: "bombd_tick rm msgs gone d = Some (d1, o1, match_result (bd_session d1))" "bombd_wf n d1"
      "continues (bd_session d, bd_arena d) (bd_session d1, bd_arena d1)"
    using bombd_tick_safe [OF Cons.prems(1) assms(2), of msgs gone] by metis
  have man: "manned (bd_session d1)" using manned_continues [OF Cons.prems(2) d1(3)] .
  then have v: "match_result (bd_session d1) = verdict (bd_session d1)" by (intro match_result_verdict) (auto simp: manned_def)
  show ?case
  proof (cases "verdict (bd_session d1)")
    case None
    obtain d' out where r: "bombd_run rm ts d1 = Some (d', out, verdict (bd_session d'))" "bombd_wf n d'"
        "continues (bd_session d1, bd_arena d1) (bd_session d', bd_arena d')"
      using Cons.IH [OF d1(2) man None] by blast
    have "bombd_run rm (t # ts) d = Some (d', o1 @ out, verdict (bd_session d'))" using d1(1) v None r(1) by (simp add: t)
    then show ?thesis using r(2) continues_trans [OF d1(3) r(3)] by blast
  next
    case (Some w)
    then have "bombd_run rm (t # ts) d = Some (d1, o1 @ [To_all (pack_game_over zero_buffer \<lparr>go_winner_id = w\<rparr>)], verdict (bd_session d1))"
      using d1(1) v by (simp add: t)
    then show ?thesis using d1(2,3) by blast
  qed
qed

lemma all_alive_verdict:
  assumes "manned s" and "\<And>i. i < nat (se_count s) \<Longrightarrow> pl_alive (se_players s ! i)"
  shows "verdict s = None"
proof -
  have "\<forall>p \<in> set (take (nat (se_count s)) (se_players s)). pl_alive p" using assms by (auto simp: in_set_conv_nth manned_def)
  then have "length (alive_ids s) = nat (se_count s)" using assms(1) by (simp add: alive_ids_def manned_def)
  then show ?thesis using assms(1) by (cases "alive_ids s") (auto simp: verdict_def manned_def)
qed

text \<open>The match from its set-up on.\<close>

lemma match_decided:
  assumes "raymath_law rm" and "0 < unat lobby_size"
  shows "\<exists>d0 out0. bombd_setup rm lobby_size client_ids a0 = Some (d0, out0)
     \<and> alive_ids (bd_session d0) = map ((!) client_ids) [0..<min (unat lobby_size) 25]
     \<and> (\<forall>ts. \<exists>d out w. bombd_run rm ts d0 = Some (d, out, w) \<and> set (alive_ids (bd_session d)) \<subseteq> set (alive_ids (bd_session d0))
          \<and> (w = None \<longleftrightarrow> 2 \<le> length (alive_ids (bd_session d)) \<or> unat lobby_size = 1 \<and> alive_ids (bd_session d) \<noteq> [])
          \<and> (\<forall>x. w = Some x \<longrightarrow> alive_ids (bd_session d) = [x] \<or> alive_ids (bd_session d) = [] \<and> x = 0))"
proof -
  let ?k = "min (unat lobby_size) 25"
  obtain s a tiles where s: "bombd_setup rm lobby_size client_ids a0 = Some (\<lparr>bd_session = s, bd_arena = a, bd_prev_map = tiles\<rparr>,
       [roster_packet lobby_size client_ids, To_all (pack_map_init zero_buffer \<lparr>mi_map_size = word_of_int (calc_map_size (int ?k) + 2), mi_tiles = concat tiles\<rparr>)])"
      "bombd_wf (calc_map_size (int ?k) + 2) \<lparr>bd_session = s, bd_arena = a, bd_prev_map = tiles\<rparr>" "manned s" "se_count s = int ?k"
      "\<And>i. i < ?k \<Longrightarrow> pl_player_id (se_players s ! i) = client_ids ! i \<and> pl_alive (se_players s ! i)"
    by (rule bombd_setup_sound [OF assms, of client_ids a0]) (rule that)
  let ?d0 = "\<lparr>bd_session = s, bd_arena = a, bd_prev_map = tiles\<rparr>"
  have len: "?k \<le> length (se_players s)" using s(3,4) by (simp add: manned_def)
  have v: "verdict s = None" using all_alive_verdict [OF s(3)] s(4,5) by simp
  have "filter pl_alive (take ?k (se_players s)) = take ?k (se_players s)" using s(5) len by (auto simp: filter_id_conv in_set_conv_nth)
  then have ids: "alive_ids s = map ((!) client_ids) [0..<?k]"
    using s(4,5) len by (auto simp: alive_ids_def list_eq_iff_nth_eq simp del: min.bounded_iff)
  have main: "\<exists>d out w. bombd_run rm ts ?d0 = Some (d, out, w) \<and> set (alive_ids (bd_session d)) \<subseteq> set (alive_ids s)
          \<and> (w = None \<longleftrightarrow> 2 \<le> length (alive_ids (bd_session d)) \<or> unat lobby_size = 1 \<and> alive_ids (bd_session d) \<noteq> [])
          \<and> (\<forall>x. w = Some x \<longrightarrow> alive_ids (bd_session d) = [x] \<or> alive_ids (bd_session d) = [] \<and> x = 0)" for ts
  proof -
    obtain d out where r: "bombd_run rm ts ?d0 = Some (d, out, verdict (bd_session d))" "continues (s, a) (bd_session d, bd_arena d)"
      using bombd_run_safe [OF s(2) assms(1), of ts] s(3) v by auto
    have cnt: "se_count (bd_session d) = int ?k" using r(2) s(4) by (simp add: continues_def)
    have one: "se_count (bd_session d) = 1 \<longleftrightarrow> unat lobby_size = 1" using cnt by auto
    have sub: "set (alive_ids (bd_session d)) \<subseteq> set (alive_ids s)"
    proof
      fix x
      assume "x \<in> set (alive_ids (bd_session d))"
      then obtain p where p: "p \<in> set (take ?k (se_players (bd_session d)))" "pl_alive p" "x = pl_player_id p" using cnt by (auto simp: alive_ids_def)
      then obtain i where i: "i < ?k" "p = se_players (bd_session d) ! i" by (auto simp: in_set_conv_nth)
      have "i < length (se_players s)" using i(1) len by linarith
      then have "x = pl_player_id (se_players s ! i)" using r(2) p(3) i(2) by (simp add: continues_def)
      then have "x = client_ids ! i" using s(5) i(1) by simp
      then show "x \<in> set (alive_ids s)" unfolding ids using i(1) by auto
    qed
    have two: "2 \<le> length (alive_ids (bd_session d)) \<or> alive_ids (bd_session d) = [] \<or> (\<exists>x. alive_ids (bd_session d) = [x])"
      by (cases "alive_ids (bd_session d)" rule: remdups_adj.cases) auto
    show ?thesis using r(1) sub two one by (auto simp: verdict_def)
  qed
  show ?thesis using s(1) ids main by auto
qed

text \<open>
  Lemma (bomb_match_decided): The bomb server sets up a match for any lobby, and whatever packets and disconnections its ticks are fed, the loop
  never accesses an array outside its bounds and goes on exactly as long as two players live, or the only player of a match of one;
  it ends with the id of the last living player, or 0 when nobody lives.
\<close>

theorem bomb_match_decided:
  assumes "raymath_law rm" and "0 < unat lobby_size"
  shows "\<exists>d0 out0. bombd_setup rm lobby_size client_ids a0 = Some (d0, out0)
     \<and> alive_ids (bd_session d0) = map ((!) client_ids) [0..<min (unat lobby_size) 25]
     \<and> (\<forall>ts. \<exists>d out w. bombd_run rm ts d0 = Some (d, out, w) \<and> set (alive_ids (bd_session d)) \<subseteq> set (alive_ids (bd_session d0))
          \<and> (w = None \<longleftrightarrow> 2 \<le> length (alive_ids (bd_session d)) \<or> unat lobby_size = 1 \<and> alive_ids (bd_session d) \<noteq> [])
          \<and> (\<forall>x. w = Some x \<longrightarrow> alive_ids (bd_session d) = [x] \<or> alive_ids (bd_session d) = [] \<and> x = 0))"
  by (rule match_decided [OF assms])

theorem bomb_match_decided_witness:
  "\<exists>d0 out0 d out w. bombd_setup demo_raymath 2 [7, 9] (demo_arena []) = Some (d0, out0) \<and> alive_ids (bd_session d0) = [7, 9]
     \<and> bombd_run demo_raymath [([], []), ([], [9])] d0 = Some (d, out, w) \<and> (w = None \<longleftrightarrow> 2 \<le> length (alive_ids (bd_session d)))"
proof -
  have two: "0 < unat (2 :: u32)" "unat (2 :: u32) = 2" "map ((!) [7, 9]) [0..<min 2 25] = [7 :: u32, 9]" by (simp_all add: upt_rec)
  from bomb_match_decided [OF demo_raymath_law two(1), of "[7, 9]" "demo_arena []", unfolded two(2,3)] obtain d0 out0 where
    s: "bombd_setup demo_raymath 2 [7, 9] (demo_arena []) = Some (d0, out0)" "alive_ids (bd_session d0) = [7, 9]"
      and r: "\<And>ts. \<exists>d out w. bombd_run demo_raymath ts d0 = Some (d, out, w) \<and> (w = None \<longleftrightarrow> 2 \<le> length (alive_ids (bd_session d)))"
    by fastforce
  from r [of "[([], []), ([], [9])]"] show ?thesis using s by blast
qed

end
