(* ===== verification/Bomb_Net.thy ===== *)
theory Bomb_Net
  imports Bombd Server_App
begin

text \<open>
  The bomb server on the transport: the rest of \<open>bombd/main.c\<close>, where it calls \<open>libbattleroyale\<close>. The lobby loop polls the master's
  listening socket and the terminal and asks the room for its clients; then the room is started and the match set up; each iteration of the
  tick loop empties the room's message queue and hands what the tick produced to the room's senders.

  The room's background thread runs beside these calls: every call sees a state of the room, which is an argument here; the theorems take
  it from a run of \<open>BR_Server.br_run\<close>. A write behind the array \<open>client_ids[BOMBD_MAX_PLAYERS]\<close> is \<open>None\<close>.
\<close>

section \<open>The lobby\<close>

record Lobby =
  lo_size :: u32
  lo_ids :: "u32 list"
  lo_stdin_open :: bool
  lo_start_requested :: bool
  lo_redirected :: "(int \<times> u8 list) list"

definition lobby_init :: Lobby where
  "lobby_init = \<lparr>lo_size = 0, lo_ids = replicate BOMBD_MAX_PLAYERS 0, lo_stdin_open = True, lo_start_requested = False, lo_redirected = []\<rparr>"

text \<open>
  What the kernel reports in one iteration: the result of \<open>poll\<close>, whether the listening socket is readable and what \<open>accept\<close> returns,
  whether the terminal is readable and what \<open>read\<close> yields (\<open>None\<close> is an end of file or an error).
\<close>

record lobby_poll =
  lp_poll :: int
  lp_listen :: bool
  lp_accept :: int
  lp_stdin :: bool
  lp_read :: "string option"

definition bombd_lobby_pass :: "('k, 'x) Server \<Rightarrow> lobby_poll \<Rightarrow> Lobby \<Rightarrow> Lobby option" where
  "bombd_lobby_pass server ev lo =
     (if lp_poll ev < 0 then Some lo
      else
        let lo1 = (if lp_listen ev \<and> lp_accept ev \<ge> 0 then lo\<lparr>lo_redirected := lo_redirected lo @ [(lp_accept ev, send_redirect)]\<rparr> else lo);
            lo2 = (if lo_stdin_open lo1 \<and> lp_stdin ev
                   then (case lp_read ev of
                           None \<Rightarrow> lo1\<lparr>lo_stdin_open := False\<rparr>
                         | Some inp \<Rightarrow> if CHR 0x0A \<in> set (take 64 inp) then lo1\<lparr>lo_start_requested := True\<rparr> else lo1)
                   else lo1)
        in case client_info_into server (lo_ids lo2) of
             None \<Rightarrow> None
           | Some (n, ids) \<Rightarrow>
               let lo3 = lo2\<lparr>lo_size := n, lo_ids := ids\<rparr>
               in Some (if unat n \<ge> BOMBD_MAX_PLAYERS then lo3\<lparr>lo_start_requested := True\<rparr> else lo3))"

datatype lobby_end = Waiting Lobby | Stopped Lobby | Starting Lobby

text \<open>Each entry is one pass: the signal flag as the loop's condition sees it, the room, and what the kernel reports.\<close>

fun lobby_loop :: "(bool \<times> ('k, 'x) Server \<times> lobby_poll) list \<Rightarrow> Lobby \<Rightarrow> lobby_end option" where
  "lobby_loop [] lo = Some (if lo_start_requested lo then Starting lo else Waiting lo)"
| "lobby_loop ((stop_requested, server, ev) # es) lo =
     (if stop_requested then Some (Stopped lo)
      else if lo_start_requested lo then Some (Starting lo)
      else case bombd_lobby_pass server ev lo of None \<Rightarrow> None | Some lo' \<Rightarrow> lobby_loop es lo')"

section \<open>The start of the match\<close>

datatype ('k, 'x) match_start = Shut_down | No_players | Not_started | Match bombd "server_out list" "('k, 'x) Server"

definition bombd_begin :: "raymath \<Rightarrow> bool \<Rightarrow> ('k, 'x) Server \<Rightarrow> Lobby \<Rightarrow> Arena \<Rightarrow> ('k, 'x) match_start option" where
  "bombd_begin rm stop_requested server lo a0 =
     (if stop_requested then Some Shut_down
      else case client_info_into server (lo_ids lo) of
             None \<Rightarrow> None
           | Some (lobby_size, client_ids) \<Rightarrow>
               if lobby_size = 0 then Some No_players
               else (case brserver_start server of (res, server') \<Rightarrow>
                       if res < 0 then Some Not_started
                       else map_option (\<lambda>(d, out). Match d out server') (bombd_setup rm lobby_size client_ids a0)))"

section \<open>The tick loop on the transport\<close>

text \<open>The count of waiting disconnects bounds the number of passes: each takes one away.\<close>

fun drain_gone :: "nat \<Rightarrow> ('k, 'x) Server \<Rightarrow> u32 list \<times> ('k, 'x) Server" where
  "drain_gone 0 server = ([], server)"
| "drain_gone (Suc left) server =
     (case brserver_get_disconnected server of
        (None, server') \<Rightarrow> ([], server')
      | (Some i, server') \<Rightarrow> (case drain_gone left server' of (is, server'') \<Rightarrow> (i # is, server'')))"

text \<open>Handing over what a tick produced: the TCP sends change the connections, the broadcasts are datagrams.\<close>

fun send_outs :: "('k, 'x) Server \<Rightarrow> server_out list \<Rightarrow> net \<times> (udp_dest \<times> u8 list) list \<Rightarrow> (net \<times> (udp_dest \<times> u8 list) list) option" where
  "send_outs server [] (net, dgrams) = Some (net, dgrams)"
| "send_outs server (To_all buffer # os) (net, dgrams) =
     (case brserver_send_to_all server buffer net of None \<Rightarrow> None | Some (_, net') \<Rightarrow> send_outs server os (net', dgrams))"
| "send_outs server (Broadcast buffer # os) (net, dgrams) =
     send_outs server os (net, dgrams @ snd (brserver_send_broadcast True server buffer))"

definition bombd_pass ::
  "raymath \<Rightarrow> ('k, 'x) Server \<times> net \<Rightarrow> bombd \<Rightarrow> ((('k, 'x) Server \<times> net) \<times> (udp_dest \<times> u8 list) list \<times> bombd \<times> u32 option) option" where
  "bombd_pass rm sn d =
     (case drain_msgs MAX_MSGS_PER_TICK (fst sn) of (msgs, server1) \<Rightarrow>
        case drain_gone (nat (sv_disconnected_count server1)) server1 of (gone, server2) \<Rightarrow>
        case bombd_tick rm msgs gone d of
          None \<Rightarrow> None
        | Some (d', out, winner) \<Rightarrow>
            map_option (\<lambda>(net', dgrams). ((server2, net'), dgrams, d', winner)) (send_outs server2 out (snd sn, [])))"

section \<open>Lemmas\<close>

lemma find_first_id:
  assumes "distinct ids" and "i < n" and "n \<le> length ids"
    and "\<And>j. j < n \<Longrightarrow> pl_active (se_players s ! j) \<and> pl_player_id (se_players s ! j) = ids ! j" and "se_count s = int n"
  shows "find_bomb_player s (ids ! i) = Some i"
proof -
  have "ids ! j = ids ! i \<longleftrightarrow> j = i" if "j < n" for j using assms(1,2,3) that by (simp add: nth_eq_iff_index_eq)
  then show ?thesis using assms(2,4,5) by (auto simp: find_bomb_player_def find_Some_iff intro!: exI [of _ i])
qed

lemma roster_packet_ids:
  assumes "unat n = length ids" and "length ids \<le> BOMBD_MAX_PLAYERS" and "ids @ rest = client_ids"
  shows "\<exists>b. roster_packet n client_ids = To_all b \<and> unpack_roster b = \<lparr>ro_count = n, ro_ids = ids @ replicate (BOMBD_MAX_PLAYERS - length ids) 0\<rparr>"
proof -
  let ?p = "\<lparr>ro_count = n, ro_ids = ids @ replicate (BOMBD_MAX_PLAYERS - length ids) 0\<rparr>"
  have "unpack_roster (pack_roster zero_buffer ?p) = ?p" using assms(2) by (intro roster.dec_enc) simp
  moreover have "roster_packet n client_ids = To_all (pack_roster zero_buffer ?p)"
    using assms by (auto simp: roster_packet_def Let_def min_def)
  ultimately show ?thesis by blast
qed

text \<open>A room in the lobby with at most 25 clients starts its match.\<close>

lemma bombd_begin_ok:
  assumes "server_wf srv" and "sv_state srv = LOBBY" and "ll_nodes (sv_clients srv) = cs" and "cs \<noteq> []" and "length cs \<le> 25" and "length (lo_ids lo) = 25"
    and "bombd_setup rm (ll_count (sv_clients srv)) (map ep_id cs @ drop (length cs) (lo_ids lo)) a0 = Some (d, out)"
  shows "bombd_begin rm False srv lo a0 = Some (Match d out (set_state GAME srv))" and "unat (ll_count (sv_clients srv)) = length cs"
proof -
  show cnt: "unat (ll_count (sv_clients srv)) = length cs" using assms(1,3) by (simp add: server_wf_def list_wf_def)
  have "ll_count (sv_clients srv) \<noteq> 0" using cnt assms(4) by auto
  then show "bombd_begin rm False srv lo a0 = Some (Match d out (set_state GAME srv))"
    using client_info_into_wf [OF assms(1)] assms(2,3,5-7) by (simp add: bombd_begin_def brserver_start_def)
qed

section \<open>Properties\<close>

text \<open>
  C14 (clients_are_seated): every client that has joined the room plays. Take any state of the room that a run of the transport reaches, in the lobby
  and with at least one and at most 25 clients: the match is set up and the room is in the game, the session has one living player
  for each client, in the order in which they joined and found under the id that the transport gave the client, and the first packet that is
  sent tells everybody these ids.
\<close>

theorem clients_are_seated:
  assumes "brserver_init_room os mem queue disc tp up id_base = (res, Some srv)"
    and "br_run ssl (run_init srv net) n r" and "n \<le> 2 ^ 32" and "sv_state (r_srv r) = LOBBY"
    and "ll_nodes (sv_clients (r_srv r)) = cs" and "cs \<noteq> []" and "length cs \<le> 25" and "length (lo_ids lo) = 25" and "raymath_law rm"
  shows "\<exists>d b out srv'. bombd_begin rm False (r_srv r) lo a0 = Some (Match d (To_all b # out) srv') \<and> sv_state srv' = GAME
     \<and> se_count (bd_session d) = int (length cs)
     \<and> (\<forall>i < length cs. find_bomb_player (bd_session d) (ep_id (cs ! i)) = Some i \<and> pl_alive (se_players (bd_session d) ! i))
     \<and> unat (ro_count (unpack_roster b)) = length cs \<and> take (length cs) (ro_ids (unpack_roster b)) = map ep_id cs"
proof -
  let ?n = "ll_count (sv_clients (r_srv r))" and ?ids = "map ep_id cs @ drop (length cs) (lo_ids lo)"
  from br_run_wf [OF assms(1,2)] obtain n' where w: "run_wf r" and n': "n' \<le> n" "ids_from id_base n' (r_srv r)" by blast
  have wf: "server_wf (r_srv r)" using w by (simp add: run_wf_def)
  have dist: "distinct (map ep_id cs)" using ids_from_distinct [OF n'(2)] n'(1) assms(3,5) by simp
  have cnt: "unat ?n = length cs" using wf assms(5) by (simp add: server_wf_def list_wf_def)
  have pos: "0 < unat ?n" "min (unat ?n) 25 = length cs" using cnt assms(6,7) by simp_all
  obtain s a tiles where s: "bombd_setup rm ?n ?ids a0 = Some (\<lparr>bd_session = s, bd_arena = a, bd_prev_map = tiles\<rparr>,
       [roster_packet ?n ?ids, To_all (pack_map_init zero_buffer \<lparr>mi_map_size = word_of_int (calc_map_size (int (length cs)) + 2), mi_tiles = concat tiles\<rparr>)])"
    "manned s" "se_count s = int (length cs)"
    "\<And>i. i < length cs \<Longrightarrow> pl_player_id (se_players s ! i) = ?ids ! i \<and> pl_alive (se_players s ! i)"
    by (rule bombd_setup_sound [OF assms(9) pos(1), of ?ids a0, unfolded pos(2)]) (rule that)
  obtain b where b: "roster_packet ?n ?ids = To_all b"
      "unpack_roster b = \<lparr>ro_count = ?n, ro_ids = map ep_id cs @ replicate (25 - length (map ep_id cs)) 0\<rparr>"
    using roster_packet_ids [of ?n "map ep_id cs" "drop (length cs) (lo_ids lo)"] cnt assms(7) by auto
  have f: "find_bomb_player s (map ep_id cs ! i) = Some i" if i: "i < length cs" for i
    by (rule find_first_id [OF dist i]) (use s(2-4) in \<open>auto simp: manned_def nth_append\<close>)
  note begin_ok = bombd_begin_ok(1) [OF wf assms(4-8) s(1)]
  show ?thesis using begin_ok f s(3,4) b cnt by auto
qed

theorem clients_are_seated_witness:
  "\<exists>(srv :: (unit, unit) Server) d b out srv'. bombd_begin demo_raymath False srv lobby_init (demo_arena []) = Some (Match d (To_all b # out) srv')
     \<and> se_count (bd_session d) = 1 \<and> unat (ro_count (unpack_roster b)) = 1"
proof -
  obtain r where r: "br_run plain_ssl (run_init fresh_server demo_net) 3 r" "sv_state (r_srv r) = LOBBY"
    "length (ll_nodes (sv_clients (r_srv r))) = 1" by (rule demo_lobby)
  have c: "ll_nodes (sv_clients (r_srv r)) \<noteq> []" "length (ll_nodes (sv_clients (r_srv r))) \<le> 25" "length (lo_ids lobby_init) = 25"
    using r(3) by (auto simp: lobby_init_def)
  have "(3 :: nat) \<le> 2 ^ 32" by simp
  from clients_are_seated [OF fresh_server_init r(1) this r(2) refl c demo_raymath_law, of "demo_arena []"] r(3) show ?thesis by simp blast
qed

text \<open>
  The array in \<open>main\<close> has room for 25 ids and the room accepts clients as long as the lobby is open: when 26 have joined before the loop
  asks, in one pass or between two, the ids are written behind the array.
\<close>

lemma lobby_overrun:
  assumes "server_wf srv" and "25 < length (ll_nodes (sv_clients srv))" and "length (lo_ids lo) = 25" and "0 \<le> lp_poll ev"
  shows "bombd_lobby_pass srv ev lo = None" and "bombd_begin rm False srv lo a0 = None"
  using assms client_info_into_wf [OF assms(1)]
  by (auto simp: bombd_lobby_pass_def bombd_begin_def Let_def split: option.splits)

text \<open>The connections that a sequence of passes accepts on the master's port.\<close>

type_synonym ('k, 'x) lobby_look = "bool \<times> ('k, 'x) Server \<times> lobby_poll"

definition accepted :: "('k, 'x) lobby_look list \<Rightarrow> int list" where
  "accepted es = concat (map (\<lambda>(stop, srv, ev). if 0 \<le> lp_poll ev \<and> lp_listen ev \<and> 0 \<le> lp_accept ev then [lp_accept ev] else []) es)"

text \<open>The terminal was closed in one of the passes, and what makes a pass ask for the start: a full lobby, or a line from a terminal that was not closed before.\<close>

definition terminal_closed :: "('k, 'x) lobby_look list \<Rightarrow> bool" where
  "terminal_closed es \<longleftrightarrow> (\<exists>(stop, srv, ev) \<in> set es. 0 \<le> lp_poll ev \<and> lp_stdin ev \<and> lp_read ev = None)"

definition wants_start :: "('k, 'x) lobby_look list \<Rightarrow> ('k, 'x) lobby_look \<Rightarrow> bool" where
  "wants_start before e = (case e of (stop, srv, ev) \<Rightarrow> 0 \<le> lp_poll ev \<and> (length (ll_nodes (sv_clients srv)) = 25
     \<or> \<not> terminal_closed before \<and> lp_stdin ev \<and> (\<exists>inp. lp_read ev = Some inp \<and> CHR 0x0A \<in> set (take 64 inp))))"

definition nobody_asks :: "('k, 'x) lobby_look list \<Rightarrow> bool" where
  "nobody_asks es \<longleftrightarrow> (\<forall>j < length es. \<not> wants_start (take j es) (es ! j))"

lemma nobody_asks_snoc: "nobody_asks (es @ [e]) \<longleftrightarrow> nobody_asks es \<and> \<not> wants_start es e"
  by (auto simp: nobody_asks_def less_Suc_eq nth_append)

definition redirects :: "('k, 'x) lobby_look list \<Rightarrow> (int \<times> u8 list) list" where
  "redirects es = map (\<lambda>fd. (fd, be32 (ucast (6810 :: u16)))) (accepted es)"

text \<open>The loop's variables after the passes \<open>es\<close>.\<close>

definition lobby_after :: "('k, 'x) lobby_look list \<Rightarrow> Lobby \<Rightarrow> bool" where
  "lobby_after es lo \<longleftrightarrow> length (lo_ids lo) = 25 \<and> lo_redirected lo = redirects es \<and> (lo_stdin_open lo \<longleftrightarrow> \<not> terminal_closed es)
     \<and> (\<forall>e \<in> set es. \<not> fst e) \<and> nobody_asks (butlast es) \<and> (lo_start_requested lo \<longleftrightarrow> \<not> nobody_asks es)"

lemma lobby_pass_after:
  assumes "lobby_after es lo" and "\<not> lo_start_requested lo" and "server_wf srv" and "length (ll_nodes (sv_clients srv)) \<le> 25"
  obtains lo' where "bombd_lobby_pass srv ev lo = Some lo'" and "lobby_after (es @ [(False, srv, ev)]) lo'"
proof -
  let ?e = "(False, srv, ev)"
  have a: "length (lo_ids lo) = 25" "lo_redirected lo = redirects es" "lo_stdin_open lo \<longleftrightarrow> \<not> terminal_closed es"
      "\<forall>e \<in> set es. \<not> fst e" "nobody_asks es" using assms(1,2) by (auto simp: lobby_after_def)
  have n: "unat (ll_count (sv_clients srv)) = length (ll_nodes (sv_clients srv))" using assms(3) by (simp add: server_wf_def list_wf_def)
  note info = client_info_into_wf [OF assms(3), of "lo_ids lo"]
  have "bombd_lobby_pass srv ev lo \<noteq> None"
    using assms(4) a(1) info by (auto simp: bombd_lobby_pass_def Let_def split: option.splits if_splits)
  then obtain lo' where p1: "bombd_lobby_pass srv ev lo = Some lo'" by blast
  have p: "bombd_lobby_pass srv ev lo = Some lo'" "length (lo_ids lo') = 25"
      "lo_redirected lo' = lo_redirected lo @ (if 0 \<le> lp_poll ev \<and> lp_listen ev \<and> 0 \<le> lp_accept ev then [(lp_accept ev, send_redirect)] else [])"
      "lo_stdin_open lo' \<longleftrightarrow> lo_stdin_open lo \<and> \<not> (0 \<le> lp_poll ev \<and> lp_stdin ev \<and> lp_read ev = None)"
      "lo_start_requested lo' \<longleftrightarrow> wants_start es ?e"
    using p1 assms(2,4) a(1,3) n info
    by (auto simp: bombd_lobby_pass_def wants_start_def Let_def split: option.splits if_splits)
  have r: "lo_redirected lo' = redirects (es @ [?e])"
    using p(3) a(2) by (simp add: redirects_def accepted_def send_redirect_def ROOM_TCP_PORT_def)
  have t: "terminal_closed (es @ [?e]) \<longleftrightarrow> terminal_closed es \<or> 0 \<le> lp_poll ev \<and> lp_stdin ev \<and> lp_read ev = None"
    by (auto simp: terminal_closed_def)
  show thesis by (rule that [OF p(1)]) (use p(2,4,5) a(3-5) r t in \<open>simp add: lobby_after_def nobody_asks_snoc\<close>)
qed

lemma lobby_loop_after:
  assumes "lobby_after pre lo" and "\<forall>(stop, srv, ev) \<in> set es. server_wf srv \<and> length (ll_nodes (sv_clients srv)) \<le> 25"
  shows "\<exists>k \<le> length (pre @ es). \<exists>lo'. lobby_after (take k (pre @ es)) lo'
     \<and> (lobby_loop es lo = Some (Waiting lo') \<and> k = length (pre @ es) \<and> \<not> lo_start_requested lo'
        \<or> lobby_loop es lo = Some (Stopped lo') \<and> k < length (pre @ es) \<and> fst ((pre @ es) ! k)
        \<or> lobby_loop es lo = Some (Starting lo') \<and> lo_start_requested lo')"
  using assms
proof (induction es arbitrary: pre lo)
  case Nil
  then show ?case by (intro exI [of _ "length pre"]) auto
next
  case (Cons e es)
  obtain stop srv ev where e: "e = (stop, srv, ev)" by (cases e)
  show ?case
  proof (cases "stop \<or> lo_start_requested lo")
    case True
    then show ?thesis using Cons.prems(1) by (intro exI [of _ "length pre"]) (auto simp: e)
  next
    case False
    have w: "server_wf srv" "length (ll_nodes (sv_clients srv)) \<le> 25" using Cons.prems(2) by (auto simp: e)
    obtain lo' where lo': "bombd_lobby_pass srv ev lo = Some lo'" "lobby_after (pre @ [e]) lo'"
      using lobby_pass_after [OF Cons.prems(1) _ w, of ev] False by (auto simp: e)
    have "lobby_loop (e # es) lo = lobby_loop es lo'" using lo'(1) False by (simp add: e)
    then show ?thesis using Cons.IH [OF lo'(2)] Cons.prems(2) by simp
  qed
qed

text \<open>
  C33 (lobby_loop_sound): the lobby loop of the bomb server, as long as no more than 25 clients are in the room whenever it looks. It never writes
  outside its array. It runs on over its passes as long as none of them asks for the start and the signal has not come; a pass asks for it when it finds the lobby full or reads a line from the
  terminal, which counts until the terminal is closed. When it is still waiting, no pass has asked; it stops exactly at the signal; and it starts the match right after the pass that asked. In all
  three cases everybody who connected to the master's port in the passes that were run has been sent the port of the room, in the form in which \<open>brclient_join\<close> expects it.
\<close>

theorem lobby_loop_sound:
  assumes "\<forall>(stop, srv, ev) \<in> set es. server_wf srv \<and> length (ll_nodes (sv_clients srv)) \<le> 25"
  shows "\<exists>k \<le> length es. \<exists>lo.
     (lobby_loop es lobby_init = Some (Waiting lo) \<and> k = length es \<and> nobody_asks (take k es)
      \<or> lobby_loop es lobby_init = Some (Stopped lo) \<and> k < length es \<and> fst (es ! k)
      \<or> lobby_loop es lobby_init = Some (Starting lo) \<and> \<not> nobody_asks (take k es))
     \<and> (\<forall>(stop, srv, ev) \<in> set (take k es). \<not> stop) \<and> nobody_asks (butlast (take k es))
     \<and> lo_redirected lo = map (\<lambda>fd. (fd, be32 (ucast (6810 :: u16)))) (accepted (take k es))"
proof -
  have "lobby_after ([] :: ('a, 'b) lobby_look list) lobby_init"
    by (simp add: lobby_after_def lobby_init_def redirects_def accepted_def terminal_closed_def nobody_asks_def)
  from lobby_loop_after [OF this assms] obtain k lo where k: "k \<le> length es" "lobby_after (take k es) lo"
     "lobby_loop es lobby_init = Some (Waiting lo) \<and> k = length es \<and> \<not> lo_start_requested lo
      \<or> lobby_loop es lobby_init = Some (Stopped lo) \<and> k < length es \<and> fst (es ! k)
      \<or> lobby_loop es lobby_init = Some (Starting lo) \<and> lo_start_requested lo" by auto
  have a: "\<forall>(stop, srv, ev) \<in> set (take k es). \<not> stop" "nobody_asks (butlast (take k es))"
      "lo_redirected lo = map (\<lambda>fd. (fd, be32 (ucast (6810 :: u16)))) (accepted (take k es))" "lo_start_requested lo \<longleftrightarrow> \<not> nobody_asks (take k es)"
    using k(2) unfolding lobby_after_def redirects_def by auto
  then show ?thesis using k(1,3) by (intro exI [of _ k] exI [of _ lo] conjI) auto
qed

theorem lobby_loop_sound_witness:
  "\<exists>lo. lobby_loop [(False, room_of_one, \<lparr>lp_poll = 1, lp_listen = True, lp_accept = 12, lp_stdin = True, lp_read = Some [CHR 0x0A]\<rparr>)] lobby_init
     = Some (Starting lo) \<and> lo_redirected lo = [(12, be32 6810)]"
proof -
  let ?e = "(False, room_of_one, \<lparr>lp_poll = 1, lp_listen = True, lp_accept = 12, lp_stdin = True, lp_read = Some [CHR 0x0A]\<rparr>)"
  have w: "\<forall>(stop, srv, ev) \<in> set [?e]. server_wf srv \<and> length (ll_nodes (sv_clients srv)) \<le> 25"
    using room_of_one_wf by (simp add: room_of_one_nodes)
  have n: "\<not> nobody_asks [?e]" "accepted [?e] = [12]" "\<not> lo_start_requested lobby_init"
    by (simp_all add: nobody_asks_def wants_start_def terminal_closed_def accepted_def lobby_init_def)
  obtain k lo where k: "k \<le> 1" "lobby_loop [?e] lobby_init = Some (Waiting lo) \<and> k = 1 \<and> nobody_asks (take k [?e])
      \<or> lobby_loop [?e] lobby_init = Some (Stopped lo) \<and> k < 1 \<and> fst ([?e] ! k)
      \<or> lobby_loop [?e] lobby_init = Some (Starting lo) \<and> \<not> nobody_asks (take k [?e])"
      "lo_redirected lo = map (\<lambda>fd. (fd, be32 (ucast (6810 :: u16)))) (accepted (take k [?e]))"
    using lobby_loop_sound [OF w] by (auto simp del: lobby_loop.simps)
  have "nobody_asks (take 0 [?e])" by (simp add: nobody_asks_def)
  then have one: "k = 1" using k(1,2) by (cases k) auto
  then show ?thesis using k(2,3) n by (intro exI [of _ lo]) auto
qed

section \<open>An input on its way to the session\<close>

lemma net32_prefix: "take 1984 a = take 1984 b \<Longrightarrow> off + 4 \<le> 1984 \<Longrightarrow> net32 off a = net32 off b"
proof -
  assume a: "take 1984 a = take 1984 b" "off + 4 \<le> 1984"
  have "take 4 (drop off x) = take 4 (drop off (take 1984 x))" for x :: "u8 list"
    using a(2) by (simp add: drop_take min.absorb1)
  then show ?thesis using a(1) unfolding net32_def by metis
qed

lemma handle_packet_prefix:
  assumes "take 1984 a = take 1984 b"
  shows "handle_packet a sa = handle_packet b sa"
proof -
  note p = net32_prefix [OF assms]
  have "net32 0 a = net32 0 b" "net32 4 a = net32 4 b" "net32 8 a = net32 8 b" "net32 12 a = net32 12 b" "net32 16 a = net32 16 b"
    by (rule p, simp)+
  then have "read_bomb_packet_tag a = read_bomb_packet_tag b" "unpack_move a = unpack_move b" "unpack_bomb_place a = unpack_bomb_place b"
    by (simp_all add: read_bomb_packet_tag_def unpack_move_def unpack_bomb_place_def)
  then show ?thesis by (cases sa) (simp add: handle_packet_def Let_def)
qed

text \<open>A pass that drains one packet is the pass with nothing to drain, on the session to which the packet was done.\<close>

lemma bombd_pass_one:
  assumes "drain_msgs MAX_MSGS_PER_TICK srv' = ([out], srv\<lparr>sv_messages := q\<rparr>)" and "queue_wf q" and "queue_list q = []" and "sv_disconnected_count srv = 0"
    and "take 1984 out = take 1984 content"
  shows "bombd_pass rm (srv', net) d = (case handle_packet content (bd_session d, bd_arena d) of
     None \<Rightarrow> None | Some (s, a) \<Rightarrow> bombd_pass rm (srv\<lparr>sv_messages := q\<rparr>, net) (d\<lparr>bd_session := s, bd_arena := a\<rparr>))"
proof -
  have e: "drain_msgs MAX_MSGS_PER_TICK (srv\<lparr>sv_messages := q\<rparr>) = ([], srv\<lparr>sv_messages := q\<rparr>)" using assms(2,3) by (intro drain_msgs_none) simp_all
  have one: "take MAX_MSGS_PER_TICK [out] = [out]" by (simp add: MAX_MSGS_PER_TICK_def)
  show ?thesis using assms(1,4) e handle_packet_prefix [OF assms(5)]
    by (auto simp: bombd_pass_def bombd_tick_def one split: option.split)
qed

end
