(* ===== verification/Bomb_App.thy ===== *)
theory Bomb_App
  imports Bombd "HOL-Library.Multiset"
begin

text \<open>
  The networked client of the bomb game, \<open>bombapp/network.c\<close>: the mirror of the match that it draws, and the input packets it sends.

  The static variables of the file and the shared render state (the map, the bomb and explosion queues) are the record \<open>bombapp\<close>. Received
  floats are kept as their 32 bits, since the client only draws them; the sprite sheets of a \<open>Bomberman\<close> belong to the drawing and are left out.
  Triggered events are collected in a list; the arguments of the explosion event are the centre before its conversion to \<open>int\<close>. A step returns
  \<open>None\<close> where the code would access an array outside its bounds. Memory allocation succeeds.
\<close>

section \<open>State\<close>

type_synonym bits2 = "float_bits \<times> float_bits"

record Bomberman =
  bm_direction :: int
  bm_is_moving :: bool
  bm_position :: bits2
  bm_size :: Vector2
  bm_inventory :: InventoryStock

record app_bomb =
  ab_position :: bits2
  ab_spread :: int
  ab_timer :: float_bits

record app_explosion =
  ae_center :: bits2
  ae_spread_amt :: "int list"
  ae_timer :: f32

datatype app_event = EVENT_BOMB_EXPLODED float_bits float_bits | EVENT_PLAYER_DIED | EVENT_MATCH_WON

record bombapp =
  ba_local_id :: u32
  ba_players :: "Bomberman list"
  ba_player_ids :: "u32 list"
  ba_slot_used :: "bool list"
  ba_player_alive :: "bool list"
  ba_player_count :: int
  ba_has_map :: bool
  ba_game_over :: bool
  ba_winner_id :: u32
  ba_spectator_cam_pos :: bits2
  ba_map :: "u32 list list option"
  ba_map_size :: int
  ba_bombs :: "app_bomb queue"
  ba_explodes :: "app_explosion queue"
  ba_events :: "app_event list"

definition event_bus_trigger_app :: "app_event \<Rightarrow> bombapp \<Rightarrow> bombapp" where
  "event_bus_trigger_app e c = c\<lparr>ba_events := ba_events c @ [e]\<rparr>"

section \<open>Player slots\<close>

definition bomberman_create_default :: "raymath \<Rightarrow> Vector2 \<Rightarrow> Bomberman" where
  "bomberman_create_default rm position =
     (let p = rm_add rm position SIM_PLAYER_BOX_OFFSET
      in \<lparr>bm_direction = 1, bm_is_moving = False, bm_position = (f32_bits (fst p), f32_bits (snd p)), bm_size = SIM_PLAYER_BOX_SIZE,
          bm_inventory = \<lparr>st_remaining_bombs = 2, st_num_bombs = 2, st_num_fires = 1, st_bomb_replenish_timer = 0\<rparr>\<rparr>)"

text \<open>The sprite of the frame is chosen by the direction, an index into four sheets.\<close>

definition bomberman_update :: "f32 \<Rightarrow> Bomberman \<Rightarrow> Bomberman option" where
  "bomberman_update frame_time bm =
     (if 0 \<le> bm_direction bm \<and> bm_direction bm < 4
      then Some (bm\<lparr>bm_inventory := inventory_update (bm_inventory bm) frame_time\<rparr>) else None)"

definition player_slot :: "u32 \<Rightarrow> bombapp \<Rightarrow> nat option" where
  "player_slot player_id c = List.find (\<lambda>i. ba_slot_used c ! i \<and> ba_player_ids c ! i = player_id) [0..<BOMBD_MAX_PLAYERS]"

definition find_or_add_slot :: "raymath \<Rightarrow> u32 \<Rightarrow> bombapp \<Rightarrow> nat option \<times> bombapp" where
  "find_or_add_slot rm player_id c =
     (case player_slot player_id c of
        Some i \<Rightarrow> (Some i, c)
      | None \<Rightarrow>
          (case List.find (\<lambda>i. \<not> ba_slot_used c ! i) [0..<BOMBD_MAX_PLAYERS] of
             None \<Rightarrow> (None, c)
           | Some i \<Rightarrow>
               (Some i, c\<lparr>ba_slot_used := (ba_slot_used c)[i := True], ba_player_ids := (ba_player_ids c)[i := player_id],
                          ba_player_alive := (ba_player_alive c)[i := True],
                          ba_players := (ba_players c)[i := bomberman_create_default rm (f_of_int 1, f_of_int 1)],
                          ba_player_count := (if int i \<ge> ba_player_count c then int i + 1 else ba_player_count c)\<rparr>)))"

definition network_local_slot :: "bombapp \<Rightarrow> nat option" where
  "network_local_slot c = player_slot (ba_local_id c) c"

definition apply_roster :: "raymath \<Rightarrow> RosterPayload \<Rightarrow> bombapp \<Rightarrow> bombapp" where
  "apply_roster rm roster c =
     fold (\<lambda>i c. snd (find_or_add_slot rm (ro_ids roster ! i) c)) [0..<min (unat (ro_count roster)) BOMBD_MAX_PLAYERS] c"

section \<open>The map\<close>

text \<open>\<open>tiles[i][j]\<close> of the payload is byte \<open>20 i + j\<close>.\<close>

definition app_tile :: "u8 list \<Rightarrow> int \<Rightarrow> int \<Rightarrow> u32" where
  "app_tile tiles i j =
     (if i < int BOMBD_MAX_MAP_DIM \<and> j < int BOMBD_MAX_MAP_DIM then ucast (tiles ! (BOMBD_MAX_MAP_DIM * nat i + nat j)) else 0)"

text \<open>A size from \<open>2\<^sup>31\<close> on is negative as an \<open>int\<close>: as a \<open>size_t\<close> it is more than \<open>malloc\<close> can give, and the map is the null pointer.\<close>

definition apply_map_init :: "MapInitPayload \<Rightarrow> bombapp \<Rightarrow> bombapp" where
  "apply_map_init p c =
     (let size = sint (mi_map_size p)
      in c\<lparr>ba_map_size := size, ba_map := (if size < 0 then None else Some (map (\<lambda>i. map (app_tile (mi_tiles p) i) [0..size - 1]) [0..size - 1])),
           ba_has_map := True\<rparr>)"

text \<open>The guard compares the coordinates as signed numbers, the access uses them as unsigned ones.\<close>

definition apply_tile_update :: "TileUpdatePayload \<Rightarrow> bombapp \<Rightarrow> bombapp option" where
  "apply_tile_update p c =
     (case ba_map c of
        None \<Rightarrow> Some c
      | Some tiles \<Rightarrow>
          if sint (tu_x p) < ba_map_size c \<and> sint (tu_y p) < ba_map_size c
          then map_option (\<lambda>m. c\<lparr>ba_map := Some m\<rparr>) (grid_put tiles (uint (tu_x p)) (uint (tu_y p)) (tu_tile p))
          else Some c)"

section \<open>State, explosions and the end\<close>

definition apply_entry :: "raymath \<Rightarrow> PlayerStateEntry \<Rightarrow> bombapp \<Rightarrow> bombapp" where
  "apply_entry rm entry c0 =
     (case find_or_add_slot rm (ps_player_id entry) c0 of
        (None, c) \<Rightarrow> c
      | (Some slot, c) \<Rightarrow>
          let bm = ba_players c ! slot;
              stock = (bm_inventory bm)\<lparr>st_num_bombs := sint (ps_num_bombs entry), st_remaining_bombs := sint (ps_remaining_bombs entry),
                                         st_num_fires := sint (ps_num_fires entry)\<rparr>;
              c = c\<lparr>ba_players := (ba_players c)[slot := bm\<lparr>bm_position := (ps_x entry, ps_y entry), bm_direction := sint (ps_direction entry),
                      bm_is_moving := (ps_is_moving entry \<noteq> 0), bm_inventory := stock\<rparr>]\<rparr>;
              now_alive = (ps_alive entry \<noteq> 0);
              c = (if ba_player_alive c ! slot \<and> \<not> now_alive \<and> ps_player_id entry = ba_local_id c
                   then (event_bus_trigger_app EVENT_PLAYER_DIED c)\<lparr>ba_spectator_cam_pos := (ps_x entry, ps_y entry)\<rparr> else c)
          in c\<lparr>ba_player_alive := (ba_player_alive c)[slot := now_alive]\<rparr>)"

definition app_bomb_of :: "BombStateEntry \<Rightarrow> app_bomb" where
  "app_bomb_of b = \<lparr>ab_position = (bs_x b, bs_y b), ab_spread = 0, ab_timer = bs_timer b\<rparr>"

definition apply_state :: "raymath \<Rightarrow> BombStatePayload \<Rightarrow> bombapp \<Rightarrow> bombapp" where
  "apply_state rm p c =
     (let c = fold (\<lambda>i. apply_entry rm (sp_players p ! i)) [0..<min (unat (sp_player_count p)) BOMBD_MAX_PLAYERS] c
      in c\<lparr>ba_bombs := fold (\<lambda>i q. snd (queue_enqueue q (app_bomb_of (sp_bombs p ! i)))) [0..<min (unat (sp_bomb_count p)) BOMBD_MAX_BOMBS]
                            (queue_init (ba_bombs c))\<rparr>)"

definition apply_explosion :: "ExplosionPayload \<Rightarrow> bombapp \<Rightarrow> bombapp" where
  "apply_explosion p c =
     event_bus_trigger_app (EVENT_BOMB_EXPLODED (ex_center_x p) (ex_center_y p))
       (c\<lparr>ba_explodes := snd (queue_enqueue (ba_explodes c)
            \<lparr>ae_center = (ex_center_x p, ex_center_y p), ae_spread_amt = map (\<lambda>i. sint (ex_spread_amt p ! i)) [0..<4], ae_timer = EXPLODE_LIFETIME\<rparr>)\<rparr>)"

text \<open>The loop over the queue's array; an expired item is replaced by the last one, which is looked at next.\<close>

fun network_tick_loop :: "nat \<Rightarrow> f32 \<Rightarrow> int \<Rightarrow> app_explosion queue \<Rightarrow> app_explosion queue" where
  "network_tick_loop 0 delta_time i q = q"
| "network_tick_loop (Suc fuel) delta_time i q =
     (if \<not> i < q_rear q then q
      else
        let e = q_items q ! nat i;
            e' = e\<lparr>ae_timer := f_sub (ae_timer e) delta_time\<rparr>;
            items = (q_items q)[nat i := e']
        in if ae_timer e' \<le> 0
           then network_tick_loop fuel delta_time i (q\<lparr>q_items := items[nat i := items ! nat (q_rear q - 1)], q_rear := q_rear q - 1\<rparr>)
           else network_tick_loop fuel delta_time (i + 1) (q\<lparr>q_items := items\<rparr>))"

definition network_tick_explosions :: "f32 \<Rightarrow> bombapp \<Rightarrow> bombapp" where
  "network_tick_explosions delta_time c =
     (let q = ba_explodes c
      in if queue_empty q then c
         else c\<lparr>ba_explodes := network_tick_loop (nat (q_rear q)) delta_time (q_front q + 1) q\<rparr>)"

definition apply_game_over :: "GameOverPayload \<Rightarrow> bombapp \<Rightarrow> bombapp" where
  "apply_game_over p c =
     (let c = c\<lparr>ba_game_over := True, ba_winner_id := go_winner_id p\<rparr>
      in if ba_winner_id c \<noteq> 0 \<and> ba_winner_id c = ba_local_id c then event_bus_trigger_app EVENT_MATCH_WON c else c)"

section \<open>Polling\<close>

text \<open>\<open>junk\<close> is the uninitialised \<open>StatePayload\<close> that \<open>unpack_state\<close> fills.\<close>

definition network_message :: "raymath \<Rightarrow> BombStatePayload \<Rightarrow> u8 list \<Rightarrow> bombapp \<Rightarrow> bombapp option" where
  "network_message rm junk buffer c =
     (let tag = read_bomb_packet_tag buffer
      in if tag = packet_tag PACKET_ROSTER then Some (apply_roster rm (unpack_roster buffer) c)
         else if tag = packet_tag PACKET_MAP_INIT then Some (apply_map_init (unpack_map_init buffer) c)
         else if tag = packet_tag PACKET_TILE_UPDATE then apply_tile_update (unpack_tile_update buffer) c
         else if tag = packet_tag PACKET_STATE then Some (apply_state rm (unpack_state buffer junk) c)
         else if tag = packet_tag PACKET_EXPLOSION then Some (apply_explosion (unpack_explosion buffer) c)
         else if tag = packet_tag PACKET_GAME_OVER then Some (apply_game_over (unpack_game_over buffer) c)
         else Some c)"

fun network_poll :: "raymath \<Rightarrow> BombStatePayload \<Rightarrow> u8 list list \<Rightarrow> bombapp \<Rightarrow> bombapp option" where
  "network_poll rm junk [] c = Some c"
| "network_poll rm junk (b # bs) c = (case network_message rm junk b c of None \<Rightarrow> None | Some c' \<Rightarrow> network_poll rm junk bs c')"

text \<open>
  The wait for the map: one list of messages for each poll, at most a hundred polls of 50 ms. \<open>Map_here\<close> and \<open>Map_timeout\<close> are the two results of the function; it
  still waits when the polls given are used up.
\<close>

datatype map_wait = Map_here | Map_timeout | Map_waits

fun network_wait_for_map :: "raymath \<Rightarrow> BombStatePayload \<Rightarrow> nat \<Rightarrow> u8 list list list \<Rightarrow> bombapp \<Rightarrow> (map_wait \<times> bombapp) option" where
  "network_wait_for_map rm junk waited_ms polls c =
     (if ba_has_map c then Some (Map_here, c)
      else (case polls of
              [] \<Rightarrow> Some (Map_waits, c)
            | msgs # polls' \<Rightarrow>
                (case network_poll rm junk msgs c of
                   None \<Rightarrow> None
                 | Some c' \<Rightarrow>
                     if ba_has_map c' then Some (Map_here, c')
                     else if waited_ms + 50 \<ge> 5000 then Some (Map_timeout, c')
                     else network_wait_for_map rm junk (waited_ms + 50) polls' c')))"

section \<open>Input\<close>

record app_keys =
  k_up :: bool
  k_down :: bool
  k_left :: bool
  k_right :: bool
  k_sprint :: bool
  k_bomb_pressed :: bool

text \<open>What is sent: the movement over UDP, a bomb over TCP; a dead player sends nothing.\<close>

datatype client_out = Send_udp "u8 list" | Send_tcp "u8 list"

definition key_axis :: "bool \<Rightarrow> bool \<Rightarrow> i32" where
  "key_axis pos neg = (if pos then 1 else if neg then -1 else 0)"

definition network_send_input :: "app_keys \<Rightarrow> bombapp \<Rightarrow> client_out list" where
  "network_send_input k c =
     (case network_local_slot c of
        None \<Rightarrow> []
      | Some slot \<Rightarrow>
          if \<not> ba_player_alive c ! slot then []
          else Send_udp (pack_move zero_buffer \<lparr>mv_player_id = ba_local_id c, mv_dx = key_axis (k_right k) (k_left k),
                           mv_dy = key_axis (k_up k) (k_down k), mv_sprinting = (if k_sprint k then 1 else 0)\<rparr>)
               # (if k_bomb_pressed k then [Send_tcp (pack_bomb_place zero_buffer \<lparr>bp_player_id = ba_local_id c\<rparr>)] else []))"

definition network_get_camera_target :: "bombapp \<Rightarrow> bits2" where
  "network_get_camera_target c =
     (case network_local_slot c of
        Some slot \<Rightarrow> if ba_player_alive c ! slot then bm_position (ba_players c ! slot) else ba_spectator_cam_pos c
      | None \<Rightarrow> ba_spectator_cam_pos c)"

section \<open>A frame of the networked game\<close>

fun update_players :: "f32 \<Rightarrow> nat list \<Rightarrow> Bomberman list \<Rightarrow> Bomberman list option" where
  "update_players ft [] ps = Some ps"
| "update_players ft (i # is) ps = (case bomberman_update ft (ps ! i) of None \<Rightarrow> None | Some bm \<Rightarrow> update_players ft is (ps[i := bm]))"

definition update_loop :: "raymath \<Rightarrow> BombStatePayload \<Rightarrow> f32 \<Rightarrow> u8 list list \<Rightarrow> app_keys \<Rightarrow> bombapp \<Rightarrow> (bombapp \<times> client_out list) option" where
  "update_loop rm junk ft msgs k c =
     (case network_poll rm junk msgs c of
        None \<Rightarrow> None
      | Some c1 \<Rightarrow>
          let c2 = network_tick_explosions ft c1;
              out = (if ba_game_over c2 then [] else network_send_input k c2)
          in map_option (\<lambda>ps. (c2\<lparr>ba_players := ps\<rparr>, out)) (update_players ft [0..<nat (ba_player_count c2)] (ba_players c2)))"

section \<open>What the datagrams cannot touch\<close>

text \<open>
  Explosions arrive as datagrams: they may be lost, doubled, late or forged. The core of the client's state is everything but the queue of
  explosion animations and the record of events.
\<close>

definition core :: "bombapp \<Rightarrow> bombapp" where
  "core c = c\<lparr>ba_explodes := \<lparr>q_items = [], q_front = -1, q_rear = 0\<rparr>, ba_events := []\<rparr>"

lemma core_core [simp]: "core (core c) = core c"
  by (simp add: core_def)

lemma core_fields [simp]:
  "ba_local_id (core c) = ba_local_id c" "ba_players (core c) = ba_players c" "ba_player_ids (core c) = ba_player_ids c"
  "ba_slot_used (core c) = ba_slot_used c" "ba_player_alive (core c) = ba_player_alive c" "ba_player_count (core c) = ba_player_count c"
  "ba_game_over (core c) = ba_game_over c" "ba_winner_id (core c) = ba_winner_id c" "ba_map (core c) = ba_map c"
  "ba_map_size (core c) = ba_map_size c" "ba_bombs (core c) = ba_bombs c" "ba_has_map (core c) = ba_has_map c"
  "ba_spectator_cam_pos (core c) = ba_spectator_cam_pos c"
  by (simp_all add: core_def)

lemma core_updates:
  "core (c\<lparr>ba_players := ps\<rparr>) = (core c)\<lparr>ba_players := ps\<rparr>" "core (c\<lparr>ba_player_alive := al\<rparr>) = (core c)\<lparr>ba_player_alive := al\<rparr>"
  "core (c\<lparr>ba_slot_used := us\<rparr>) = (core c)\<lparr>ba_slot_used := us\<rparr>" "core (c\<lparr>ba_player_ids := is\<rparr>) = (core c)\<lparr>ba_player_ids := is\<rparr>"
  "core (c\<lparr>ba_player_count := n\<rparr>) = (core c)\<lparr>ba_player_count := n\<rparr>" "core (c\<lparr>ba_map := m\<rparr>) = (core c)\<lparr>ba_map := m\<rparr>"
  "core (c\<lparr>ba_map_size := z\<rparr>) = (core c)\<lparr>ba_map_size := z\<rparr>" "core (c\<lparr>ba_has_map := h\<rparr>) = (core c)\<lparr>ba_has_map := h\<rparr>"
  "core (c\<lparr>ba_game_over := g\<rparr>) = (core c)\<lparr>ba_game_over := g\<rparr>" "core (c\<lparr>ba_winner_id := w\<rparr>) = (core c)\<lparr>ba_winner_id := w\<rparr>"
  "core (c\<lparr>ba_bombs := b\<rparr>) = (core c)\<lparr>ba_bombs := b\<rparr>" "core (c\<lparr>ba_spectator_cam_pos := p\<rparr>) = (core c)\<lparr>ba_spectator_cam_pos := p\<rparr>"
  "core (event_bus_trigger_app e c) = core c" "core (c\<lparr>ba_explodes := q\<rparr>) = core c"
  by (simp_all add: core_def event_bus_trigger_app_def)

lemma trigger_fields [simp]:
  "ba_player_alive (event_bus_trigger_app e c) = ba_player_alive c" "ba_players (event_bus_trigger_app e c) = ba_players c"
  "ba_map (event_bus_trigger_app e c) = ba_map c" "ba_map_size (event_bus_trigger_app e c) = ba_map_size c"
  "ba_slot_used (event_bus_trigger_app e c) = ba_slot_used c" "ba_player_ids (event_bus_trigger_app e c) = ba_player_ids c"
  "ba_local_id (event_bus_trigger_app e c) = ba_local_id c" "ba_bombs (event_bus_trigger_app e c) = ba_bombs c"
  "ba_game_over (event_bus_trigger_app e c) = ba_game_over c" "ba_winner_id (event_bus_trigger_app e c) = ba_winner_id c"
  by (simp_all add: event_bus_trigger_app_def)

lemma player_slot_core [simp]: "player_slot x (core c) = player_slot x c"
  by (simp add: player_slot_def)

lemma find_or_add_core: "find_or_add_slot rm x (core c) = map_prod id core (find_or_add_slot rm x c)"
  by (simp add: find_or_add_slot_def core_updates split: option.splits)

lemma apply_entry_core: "core (apply_entry rm e (core c)) = core (apply_entry rm e c)"
  by (simp add: apply_entry_def find_or_add_core core_updates Let_def split: prod.splits option.splits)

lemma fold_core:
  assumes "\<And>x c. core (f x (core c)) = core (f x c)"
  shows "core (fold f xs (core c)) = core (fold f xs c)"
proof (induction xs arbitrary: c)
  case (Cons x xs)
  have "core (fold f xs (f x (core c))) = core (fold f xs (core (f x (core c))))" by (rule Cons.IH [symmetric])
  also have "\<dots> = core (fold f xs (f x c))" unfolding assms by (rule Cons.IH)
  finally show ?case by simp
qed simp

lemma apply_roster_core: "core (apply_roster rm r (core c)) = core (apply_roster rm r c)"
  unfolding apply_roster_def by (rule fold_core) (simp add: find_or_add_core)

lemma apply_state_core: "core (apply_state rm p (core c)) = core (apply_state rm p c)"
proof -
  let ?f = "fold (\<lambda>i. apply_entry rm (sp_players p ! i)) [0..<min (unat (sp_player_count p)) BOMBD_MAX_PLAYERS]"
  have f: "core (?f (core c)) = core (?f c)" by (rule fold_core) (rule apply_entry_core)
  have "ba_bombs (?f (core c)) = ba_bombs (?f c)" using f core_fields(11) by metis
  then show ?thesis by (simp add: apply_state_def Let_def core_updates f del: upt_rec_numeral)
qed

lemma network_message_core:
  assumes "read_bomb_packet_tag b \<noteq> packet_tag PACKET_EXPLOSION"
  shows "map_option core (network_message rm junk b (core c)) = map_option core (network_message rm junk b c)"
proof -
  have t: "map_option core (apply_tile_update p (core c)) = map_option core (apply_tile_update p c)" for p
    by (auto simp: apply_tile_update_def core_updates option.map_comp o_def split: option.splits)
  have m: "core (apply_map_init p (core c)) = core (apply_map_init p c)" for p by (simp add: apply_map_init_def core_updates Let_def)
  have g: "core (apply_game_over p (core c)) = core (apply_game_over p c)" for p by (simp add: apply_game_over_def core_updates Let_def)
  show ?thesis using assms unfolding network_message_def Let_def by (simp add: apply_roster_core apply_state_core t m g)
qed

lemma network_message_explosion:
  assumes "read_bomb_packet_tag b = packet_tag PACKET_EXPLOSION"
  obtains c' where "network_message rm junk b c = Some c'" and "core c' = core c"
proof -
  have "network_message rm junk b c = Some (apply_explosion (unpack_explosion b) c)" using assms by (simp add: network_message_def)
  moreover have "core (apply_explosion (unpack_explosion b) c) = core c" by (simp add: apply_explosion_def core_updates)
  ultimately show thesis by (rule that)
qed

definition reliable :: "u8 list list \<Rightarrow> u8 list list" where
  "reliable bs = filter (\<lambda>b. read_bomb_packet_tag b \<noteq> packet_tag PACKET_EXPLOSION) bs"

lemma network_poll_reliable:
  "core c1 = core c2 \<Longrightarrow> map_option core (network_poll rm junk bs c1) = map_option core (network_poll rm junk (reliable bs) c2)"
proof (induction bs arbitrary: c1 c2)
  case (Cons b bs)
  show ?case
  proof (cases "read_bomb_packet_tag b = packet_tag PACKET_EXPLOSION")
    case True
    obtain c' where c': "network_message rm junk b c1 = Some c'" "core c' = core c1" using network_message_explosion [OF True] .
    then have "core c' = core c2" using Cons.prems by simp
    then show ?thesis using c'(1) True Cons.IH [of c' c2] by (simp add: reliable_def)
  next
    case False
    have e: "map_option core (network_message rm junk b c1) = map_option core (network_message rm junk b c2)"
      using network_message_core [OF False, of rm junk c1] network_message_core [OF False, of rm junk c2] Cons.prems by simp
    have r: "reliable (b # bs) = b # reliable bs" using False by (simp add: reliable_def)
    show ?thesis
    proof (cases "network_message rm junk b c1")
      case None
      then show ?thesis using e r by simp
    next
      case (Some d1)
      then obtain d2 where d2: "network_message rm junk b c2 = Some d2" "core d1 = core d2" using e by (cases "network_message rm junk b c2") auto
      then show ?thesis using Some r Cons.IH [OF d2(2)] by simp
    qed
  qed
qed (simp add: reliable_def)

section \<open>The client's map\<close>

text \<open>The buffers that reach every client over its connection, in order.\<close>

fun tcp_part :: "server_out list \<Rightarrow> u8 list list" where
  "tcp_part [] = []"
| "tcp_part (To_all b # os) = b # tcp_part os"
| "tcp_part (Broadcast b # os) = tcp_part os"

lemma tcp_part_append [simp]: "tcp_part (os @ os') = tcp_part os @ tcp_part os'"
  by (induction os rule: tcp_part.induct) simp_all

lemma network_poll_append: "network_poll rm junk (bs @ bs') c = (case network_poll rm junk bs c of None \<Rightarrow> None | Some c' \<Rightarrow> network_poll rm junk bs' c')"
  by (induction bs arbitrary: c) (simp_all split: option.splits)

text \<open>The tiles the client holds: those of the server's copy as far as the packets reach, and empty ones beyond.\<close>

definition shadow :: "int \<Rightarrow> u8 list list \<Rightarrow> bombapp \<Rightarrow> bool" where
  "shadow n prev c \<longleftrightarrow> ba_map_size c = n \<and> (\<exists>cm. ba_map c = Some cm \<and> square n cm
     \<and> (\<forall>i j. on_map n (i, j) \<longrightarrow> grid_get cm i j = (if i < 20 \<and> j < 20 then map_option ucast (grid_get prev i j) else Some 0)))"

text \<open>What the roster and the states leave alone.\<close>

definition view :: "bombapp \<Rightarrow> u32 list list option \<times> int \<times> bool \<times> u32 \<times> u32" where
  "view c = (ba_map c, ba_map_size c, ba_game_over c, ba_winner_id c, ba_local_id c)"

definition ending :: "bombapp \<Rightarrow> bool \<times> u32 \<times> u32" where
  "ending c = (ba_game_over c, ba_winner_id c, ba_local_id c)"

lemma view_shadow: "view c' = view c \<Longrightarrow> shadow n prev c' = shadow n prev c \<and> ending c' = ending c"
  by (simp add: view_def shadow_def ending_def)

lemma view_updates [simp]:
  "view (c\<lparr>ba_players := ps\<rparr>) = view c" "view (c\<lparr>ba_player_alive := al\<rparr>) = view c" "view (c\<lparr>ba_slot_used := us\<rparr>) = view c"
  "view (c\<lparr>ba_player_ids := is\<rparr>) = view c" "view (c\<lparr>ba_player_count := n\<rparr>) = view c" "view (c\<lparr>ba_bombs := b\<rparr>) = view c"
  "view (c\<lparr>ba_spectator_cam_pos := p\<rparr>) = view c" "view (event_bus_trigger_app e c) = view c"
  by (simp_all add: view_def)

lemma find_or_add_view: "view (snd (find_or_add_slot rm x c)) = view c"
  by (simp add: find_or_add_slot_def split: option.splits)

lemma apply_entry_view: "view (apply_entry rm e c) = view c"
  using find_or_add_view [of rm "ps_player_id e" c] by (auto simp: apply_entry_def Let_def split: prod.splits option.splits)

lemma fold_keeps: "(\<And>x c. g (f x c) = g c) \<Longrightarrow> g (fold f xs c) = g c"
  by (induction xs arbitrary: c) simp_all

lemma apply_roster_view: "view (apply_roster rm r c) = view c"
  unfolding apply_roster_def by (rule fold_keeps) (rule find_or_add_view)

lemma apply_state_view: "view (apply_state rm p c) = view c"
proof -
  let ?f = "fold (\<lambda>i. apply_entry rm (sp_players p ! i)) [0..<min (unat (sp_player_count p)) BOMBD_MAX_PLAYERS]"
  have "view (?f c) = view c" by (rule fold_keeps) (rule apply_entry_view)
  then show ?thesis by (simp add: apply_state_def Let_def del: upt_rec_numeral)
qed

lemma packet_tags:
  "read_bomb_packet_tag (pack_roster zero_buffer ro) = 2" "read_bomb_packet_tag (pack_map_init zero_buffer mi) = 3"
  "read_bomb_packet_tag (pack_tile_update zero_buffer tu) = 4" "read_bomb_packet_tag (pack_state zero_buffer sp) = 5"
  "read_bomb_packet_tag (pack_game_over zero_buffer go) = 7"
proof -
  have "length (be32s (state_words sp)) \<le> 508" using state_words_fit [of sp] by simp
  from packet_frame [of zero_buffer, OF _ this, of PACKET_STATE] show "read_bomb_packet_tag (pack_state zero_buffer sp) = 5"
    by (simp add: pack_state_words)
qed (simp_all add: pack_roster_def pack_map_init_def codec_defs packet_frame del: upt_rec_numeral)

lemma network_message_packets:
  "network_message rm junk (pack_roster zero_buffer ro) c = Some (apply_roster rm (unpack_roster (pack_roster zero_buffer ro)) c)"
  "network_message rm junk (pack_map_init zero_buffer mi) c = Some (apply_map_init (unpack_map_init (pack_map_init zero_buffer mi)) c)"
  "network_message rm junk (pack_tile_update zero_buffer tu) c = apply_tile_update tu c"
  "network_message rm junk (pack_state zero_buffer sp) c = Some (apply_state rm (unpack_state (pack_state zero_buffer sp) junk) c)"
  "network_message rm junk (pack_game_over zero_buffer go) c = Some (apply_game_over go c)"
  by (simp_all add: network_message_def packet_tags tile_update.dec_enc game_over.dec_enc)

lemma small_word:
  assumes "0 \<le> k" and "k < 1000"
  shows "uint (word_of_int k :: u32) = k" and "sint (word_of_int k :: u32) = k"
proof -
  have n: "unat (word_of_int k :: u32) = nat k" using assms by (simp add: unat_word_of_int_u32)
  then show "sint (word_of_int k :: u32) = k" using sint_u32_small [of "word_of_int k"] assms by simp
  show "uint (word_of_int k :: u32) = k" using n assms by (simp add: uint_nat)
qed

lemma tile_update_shadow:
  assumes "shadow n prev c" and "n \<le> 30" and "on_map (dims n) (i, j)" and "grid_put prev i j v = Some prev'" and "square 20 prev"
  shows "\<exists>c'. apply_tile_update \<lparr>tu_x = word_of_int i, tu_y = word_of_int j, tu_tile = ucast v\<rparr> c = Some c' \<and> shadow n prev' c' \<and> ending c' = ending c"
proof -
  have ij: "0 \<le> i" "i < n" "i < 20" "0 \<le> j" "j < n" "j < 20" using assms(3) by (auto simp: on_map_def)
  note u = small_word
  obtain cm where cm: "ba_map c = Some cm" "square n cm" "ba_map_size c = n"
      "\<And>a b. on_map n (a, b) \<Longrightarrow> grid_get cm a b = (if a < 20 \<and> b < 20 then map_option ucast (grid_get prev a b) else Some 0)"
    using assms(1) by (auto simp: shadow_def)
  obtain cm' where cm': "grid_put cm i j (ucast v) = Some cm'" "square n cm'"
      "\<And>a b. grid_get cm' a b = (if (a, b) = (i, j) then Some (ucast v) else grid_get cm a b)"
    using grid_put_square [OF cm(2), of i j] ij by (auto simp: on_map_def)
  have "on_map 20 (i, j)" using ij by (simp add: on_map_def)
  then have p': "grid_get prev' a b = (if (a, b) = (i, j) then Some v else grid_get prev a b)" for a b
    using grid_put_square [OF assms(5), of i j v] assms(4) by (metis option.inject)
  have "apply_tile_update \<lparr>tu_x = word_of_int i, tu_y = word_of_int j, tu_tile = ucast v\<rparr> c = Some (c\<lparr>ba_map := Some cm'\<rparr>)"
    using cm(1,3) cm'(1) ij u by (simp add: apply_tile_update_def)
  moreover have "shadow n prev' (c\<lparr>ba_map := Some cm'\<rparr>)" "ending (c\<lparr>ba_map := Some cm'\<rparr>) = ending c"
    using cm cm'(2,3) p' ij by (auto simp: shadow_def ending_def)
  ultimately show ?thesis by blast
qed

lemma tile_updates_shadow:
  assumes "shadow n prev c" and "n \<le> 30" and "\<forall>u \<in> set us. on_map (dims n) (fst u)" and "puts us prev = Some prev'" and "square 20 prev"
  shows "\<exists>c'. network_poll rm junk (tcp_part (map update_packet us)) c = Some c' \<and> shadow n prev' c' \<and> ending c' = ending c"
  using assms(1,3-5)
proof (induction us arbitrary: prev c)
  case (Cons u us)
  obtain i j v where u: "u = ((i, j), v)" by (metis prod.exhaust)
  have on: "on_map (dims n) (i, j)" using Cons.prems(2) u by simp
  obtain p1 where p1: "grid_put prev i j v = Some p1" "puts us p1 = Some prev'" using Cons.prems(3) u by (auto split: option.splits)
  have sq: "square 20 p1" using grid_put_square [OF Cons.prems(4) on_map_dims(2) [OF on], of v] p1(1) by (metis option.inject)
  obtain c1 where c1: "apply_tile_update \<lparr>tu_x = word_of_int i, tu_y = word_of_int j, tu_tile = ucast v\<rparr> c = Some c1" "shadow n p1 c1" "ending c1 = ending c"
    using tile_update_shadow [OF Cons.prems(1) assms(2) on p1(1) Cons.prems(4)] by blast
  have "network_poll rm junk (tcp_part (map update_packet (u # us))) c = network_poll rm junk (tcp_part (map update_packet us)) c1"
    using c1(1) by (simp add: u update_packet_def broadcast_tile_update_def network_message_packets)
  then show ?case using Cons.IH [OF c1(2) _ p1(2) sq] Cons.prems(2) c1(3) by simp
qed simp

lemma concat_uniform:
  assumes "\<forall>row \<in> set g. length row = m"
  shows "length (concat g) = m * length g" and "i < length g \<Longrightarrow> k < m \<Longrightarrow> concat g ! (m * i + k) = g ! i ! k"
proof -
  show "length (concat g) = m * length g" using assms by (induction g) auto
  show "i < length g \<Longrightarrow> k < m \<Longrightarrow> concat g ! (m * i + k) = g ! i ! k"
    using assms
  proof (induction g arbitrary: i)
    case (Cons row g)
    then show ?case by (cases i) (auto simp: nth_append)
  qed simp
qed

lemma nth_concat_square: "square n g \<Longrightarrow> on_map n (i, j) \<Longrightarrow> concat g ! (nat n * nat i + nat j) = g ! nat i ! nat j"
  by (rule concat_uniform(2)) (auto simp: square_def on_map_def)

lemma map_init_shadow:
  assumes "square 20 prev" and "0 \<le> n" and "n \<le> 30"
  shows "\<exists>c'. network_message rm junk (pack_map_init zero_buffer \<lparr>mi_map_size = word_of_int n, mi_tiles = concat prev\<rparr>) c = Some c'
     \<and> shadow n prev c' \<and> ending c' = ending c"
proof -
  let ?p = "\<lparr>mi_map_size = word_of_int n, mi_tiles = concat prev\<rparr>"
  have len: "length (concat prev) = 400" using assms(1) concat_uniform(1) [of prev 20] by (simp add: square_def)
  have dec: "unpack_map_init (pack_map_init zero_buffer ?p) = ?p" by (rule map_init.dec_enc) (simp add: len)
  have sz: "sint (word_of_int n :: u32) = n" using small_word(2) [of n] assms(2,3) by simp
  let ?cm = "map (\<lambda>i. map (app_tile (concat prev) i) [0..n - 1]) [0..n - 1]"
  have sq: "square n ?cm" by (simp add: square_def)
  have "grid_get ?cm i j = (if i < 20 \<and> j < 20 then map_option ucast (grid_get prev i j) else Some 0)" if "on_map n (i, j)" for i j
  proof -
    have ij: "0 \<le> i" "i < n" "0 \<le> j" "j < n" using that by (auto simp: on_map_def)
    then have g: "grid_get ?cm i j = Some (app_tile (concat prev) i j)" using square_in_grid [OF sq] that by (simp add: grid_get_def)
    show ?thesis
    proof (cases "i < 20 \<and> j < 20")
      case True
      then have on: "on_map 20 (i, j)" using ij by (simp add: on_map_def)
      then have "grid_get prev i j = Some (prev ! nat i ! nat j)" using square_in_grid [OF assms(1)] by (simp add: grid_get_def)
      then show ?thesis using g True nth_concat_square [OF assms(1) on] by (simp add: app_tile_def)
    qed (use g in \<open>auto simp: app_tile_def\<close>)
  qed
  then have "shadow n prev (apply_map_init ?p c)" using sq sz assms(2) by (simp add: shadow_def apply_map_init_def)
  moreover have "ending (apply_map_init ?p c) = ending c" by (simp add: ending_def apply_map_init_def Let_def)
  ultimately show ?thesis using dec by (simp add: network_message_packets)
qed

lemma tcp_part_explosions: "tcp_part (map on_explosion_triggered es) = []"
  by (induction es) (simp_all add: on_explosion_triggered_def)

lemma reliable_append: "reliable (bs @ bs') = reliable bs @ reliable bs'"
  by (simp add: reliable_def)

lemma updates_reliable: "reliable (tcp_part (map update_packet us)) = tcp_part (map update_packet us)"
  by (induction us) (simp_all add: update_packet_def broadcast_tile_update_def reliable_def packet_tags)

text \<open>One iteration of the server and what the client makes of it.\<close>

lemma tick_shadow:
  assumes "bombd_wf n d" and "raymath_law rm" and "shadow n (bd_prev_map d) c"
  obtains d' out c' where "bombd_tick rm msgs gone d = Some (d', out, match_result (bd_session d'))" and "bombd_wf n d'"
    and "network_poll rm junk (tcp_part out) c = Some c'" and "shadow n (bd_prev_map d') c'" and "ending c' = ending c"
    and "continues (bd_session d, bd_arena d) (bd_session d', bd_arena d')" and "reliable (tcp_part out) = tcp_part out"
proof -
  have n: "n \<le> 30" and sq: "square 20 (bd_prev_map d)" using assms(1) by (simp_all add: bombd_wf_def match_wf_def synced_def)
  obtain d' es us st where
    t: "bombd_tick rm msgs gone d = Some (d', map on_explosion_triggered es @ map update_packet us @ st, match_result (bd_session d'))"
      "bombd_wf n d'" "continues (bd_session d, bd_arena d) (bd_session d', bd_arena d')"
      "puts us (bd_prev_map d) = Some (bd_prev_map d')" "\<forall>u \<in> set us. on_map (dims n) (fst u)"
      "st = [] \<or> st = [broadcast_state (bd_session d') (bd_arena d')]"
    using bombd_tick_safe [OF assms(1,2), of msgs gone] by metis
  obtain c1 where c1: "network_poll rm junk (tcp_part (map update_packet us)) c = Some c1" "shadow n (bd_prev_map d') c1" "ending c1 = ending c"
    using tile_updates_shadow [OF assms(3) n t(5,4) sq] by blast
  have "\<exists>c2. network_poll rm junk (tcp_part st) c1 = Some c2 \<and> view c2 = view c1"
    using t(6) by (auto simp: broadcast_state_def network_message_packets apply_state_view)
  then obtain c2 where c2: "network_poll rm junk (tcp_part st) c1 = Some c2" "view c2 = view c1" by blast
  have "network_poll rm junk (tcp_part (map on_explosion_triggered es @ map update_packet us @ st)) c = Some c2"
    using c1(1) c2(1) by (simp add: tcp_part_explosions network_poll_append)
  moreover have "reliable (tcp_part (map on_explosion_triggered es @ map update_packet us @ st)) = tcp_part (map on_explosion_triggered es @ map update_packet us @ st)"
    using t(6) by (auto simp: tcp_part_explosions reliable_append updates_reliable broadcast_state_def) (simp_all add: reliable_def packet_tags)
  ultimately show thesis using that [OF t(1,2) _ _ _ t(3)] c1(2,3) view_shadow [OF c2(2)] by simp
qed

lemma run_shadow:
  assumes "bombd_wf n d" and "raymath_law rm" and "shadow n (bd_prev_map d) c"
  shows "\<exists>d' out w c'. bombd_run rm ts d = Some (d', out, w) \<and> bombd_wf n d' \<and> network_poll rm junk (tcp_part out) c = Some c'
     \<and> shadow n (bd_prev_map d') c' \<and> reliable (tcp_part out) = tcp_part out
     \<and> (case w of None \<Rightarrow> ba_game_over c' = ba_game_over c | Some x \<Rightarrow> ba_game_over c' \<and> ba_winner_id c' = x)"
  using assms(1,3)
proof (induction ts arbitrary: d c)
  case Nil
  then show ?case by (auto simp: reliable_def)
next
  case (Cons t ts)
  obtain msgs gone where t: "t = (msgs, gone)" by fastforce
  obtain d1 o1 c1 where d1: "bombd_tick rm msgs gone d = Some (d1, o1, match_result (bd_session d1))" "bombd_wf n d1"
      "network_poll rm junk (tcp_part o1) c = Some c1" "shadow n (bd_prev_map d1) c1" "ending c1 = ending c" "reliable (tcp_part o1) = tcp_part o1"
    using tick_shadow [OF Cons.prems(1) assms(2) Cons.prems(2), of msgs gone junk] by metis
  show ?case
  proof (cases "match_result (bd_session d1)")
    case None
    obtain d' out w c' where r: "bombd_run rm ts d1 = Some (d', out, w)" "bombd_wf n d'" "network_poll rm junk (tcp_part out) c1 = Some c'"
        "shadow n (bd_prev_map d') c'" "case w of None \<Rightarrow> ba_game_over c' = ba_game_over c1 | Some x \<Rightarrow> ba_game_over c' \<and> ba_winner_id c' = x"
        "reliable (tcp_part out) = tcp_part out"
      using Cons.IH [OF d1(2,4)] by blast
    have "bombd_run rm (t # ts) d = Some (d', o1 @ out, w)" using d1(1) None r(1) by (simp add: t)
    moreover have "network_poll rm junk (tcp_part (o1 @ out)) c = Some c'" using d1(3) r(3) by (simp add: network_poll_append)
    moreover have "case w of None \<Rightarrow> ba_game_over c' = ba_game_over c | Some x \<Rightarrow> ba_game_over c' \<and> ba_winner_id c' = x"
      using r(5) d1(5) by (simp add: ending_def split: option.splits)
    moreover have "reliable (tcp_part (o1 @ out)) = tcp_part (o1 @ out)" using d1(6) r(6) by (simp add: reliable_append)
    ultimately show ?thesis using r(2,4) by blast
  next
    case (Some x)
    let ?b = "pack_game_over zero_buffer \<lparr>go_winner_id = x\<rparr>" and ?c = "apply_game_over \<lparr>go_winner_id = x\<rparr> c1"
    have "bombd_run rm (t # ts) d = Some (d1, o1 @ [To_all ?b], Some x)" using d1(1) Some by (simp add: t)
    moreover have "network_poll rm junk (tcp_part (o1 @ [To_all ?b])) c = Some ?c"
      using d1(3) by (simp add: network_poll_append network_message_packets)
    moreover have "shadow n (bd_prev_map d1) ?c" using d1(4) by (simp add: shadow_def apply_game_over_def Let_def)
    moreover have "ba_game_over ?c \<and> ba_winner_id ?c = x" by (simp add: apply_game_over_def Let_def)
    moreover have "reliable (tcp_part (o1 @ [To_all ?b])) = tcp_part (o1 @ [To_all ?b])"
      using d1(6) by (simp add: reliable_append) (simp add: reliable_def packet_tags)
    ultimately show ?thesis using d1(2) by (intro exI conjI) (assumption | simp)+
  qed
qed

text \<open>The tiles as the client sees them: the codes of the server's tiles within the twenty rows and columns of the packets.\<close>

definition mirrors :: "grid \<Rightarrow> bombapp \<Rightarrow> bool" where
  "mirrors g c \<longleftrightarrow> ba_map_size c = int (length g) \<and> (\<exists>cm. ba_map c = Some cm \<and> square (int (length g)) cm
     \<and> (\<forall>i j t. grid_get g i j = Some t \<longrightarrow> grid_get cm i j = Some (if i < 20 \<and> j < 20 then ucast (tile_code t) else 0)))"

lemma synced_mirrors:
  assumes "square n g" and "0 \<le> n" and "synced n g prev" and "shadow n prev c"
  shows "mirrors g c"
proof -
  have n: "int (length g) = n" using assms(1,2) by (simp add: square_def)
  obtain cm where cm: "ba_map_size c = n" "ba_map c = Some cm" "square n cm"
      "\<forall>i j. on_map n (i, j) \<longrightarrow> grid_get cm i j = (if i < 20 \<and> j < 20 then map_option ucast (grid_get prev i j) else Some 0)"
    using assms(4) by (auto simp: shadow_def)
  have "grid_get cm i j = Some (if i < 20 \<and> j < 20 then ucast (tile_code t) else 0)" if "grid_get g i j = Some t" for i j t
  proof -
    have on: "on_map n (i, j)" using grid_get_SomeD [OF assms(1) that] .
    have "grid_get prev i j = Some (tile_code t)" if "i < 20" "j < 20"
      using assms(3) on that \<open>grid_get g i j = Some t\<close> by (simp add: synced_def on_map_def)
    then show ?thesis using cm(4) on by simp
  qed
  then show ?thesis using cm n by (simp add: mirrors_def)
qed

lemma mirrors_core:
  assumes "core c = core c'"
  shows "mirrors g c = mirrors g c'"
proof -
  have "ba_map c = ba_map c'" "ba_map_size c = ba_map_size c'" using arg_cong [OF assms, of ba_map] arg_cong [OF assms, of ba_map_size] by simp_all
  then show ?thesis by (simp add: mirrors_def)
qed

lemma client_follows:
  assumes "raymath_law rm" and "0 < unat lobby_size"
  defines "n \<equiv> calc_map_size (int (min (unat lobby_size) 25)) + 2"
  shows "\<exists>d0 out0. bombd_setup rm lobby_size client_ids a0 = Some (d0, out0)
     \<and> (\<forall>ts. \<exists>d out w. bombd_run rm ts d0 = Some (d, out, w) \<and> map_wf n (ar_map (bd_arena d))
          \<and> reliable (tcp_part (out0 @ out)) = tcp_part (out0 @ out)
          \<and> (\<forall>rcv c. reliable rcv = tcp_part (out0 @ out) \<longrightarrow>
               (\<exists>c'. network_poll rm junk rcv c = Some c' \<and> mirrors (ar_map (bd_arena d)) c'
                 \<and> (case w of None \<Rightarrow> ba_game_over c' = ba_game_over c | Some x \<Rightarrow> ba_game_over c' \<and> ba_winner_id c' = x))))"
proof -
  obtain s a tiles where s: "bombd_setup rm lobby_size client_ids a0 = Some (\<lparr>bd_session = s, bd_arena = a, bd_prev_map = tiles\<rparr>,
       [roster_packet lobby_size client_ids, To_all (pack_map_init zero_buffer \<lparr>mi_map_size = word_of_int n, mi_tiles = concat tiles\<rparr>)])"
      "bombd_wf n \<lparr>bd_session = s, bd_arena = a, bd_prev_map = tiles\<rparr>"
    by (rule bombd_setup_sound [OF assms(1,2), of client_ids a0, folded n_def]) (rule that)
  let ?d0 = "\<lparr>bd_session = s, bd_arena = a, bd_prev_map = tiles\<rparr>"
  let ?mi = "pack_map_init zero_buffer \<lparr>mi_map_size = word_of_int n, mi_tiles = concat tiles\<rparr>"
  let ?out0 = "[roster_packet lobby_size client_ids, To_all ?mi]"
  have n: "0 \<le> n" "n \<le> 30" "square 20 tiles" using s(2) by (auto simp: bombd_wf_def match_wf_def synced_def n_def calc_map_size_def Let_def MIN_MAP_WIDTH_def)
  have start: "\<exists>c1. network_poll rm junk (tcp_part ?out0) c = Some c1 \<and> shadow n tiles c1 \<and> ending c1 = ending c" for c
  proof -
    obtain ro where ro: "roster_packet lobby_size client_ids = To_all (pack_roster zero_buffer ro)" by (auto simp: roster_packet_def Let_def)
    let ?c = "apply_roster rm (unpack_roster (pack_roster zero_buffer ro)) c"
    have e: "ending ?c = ending c" using view_shadow [OF apply_roster_view] by blast
    obtain c1 where "network_message rm junk ?mi ?c = Some c1" "shadow n tiles c1" "ending c1 = ending ?c"
      using map_init_shadow [OF n(3,1,2)] by blast
    then show ?thesis using e by (simp add: ro network_message_packets(1))
  qed
  have "\<exists>d out w. bombd_run rm ts ?d0 = Some (d, out, w) \<and> map_wf n (ar_map (bd_arena d))
          \<and> reliable (tcp_part (?out0 @ out)) = tcp_part (?out0 @ out)
          \<and> (\<forall>rcv c. reliable rcv = tcp_part (?out0 @ out) \<longrightarrow>
               (\<exists>c'. network_poll rm junk rcv c = Some c' \<and> mirrors (ar_map (bd_arena d)) c'
                 \<and> (case w of None \<Rightarrow> ba_game_over c' = ba_game_over c | Some x \<Rightarrow> ba_game_over c' \<and> ba_winner_id c' = x)))" for ts
  proof -
    obtain cx where cx: "shadow n tiles cx" using start by blast
    obtain d out w where r: "bombd_run rm ts ?d0 = Some (d, out, w)" "bombd_wf n d" "reliable (tcp_part out) = tcp_part out"
      using run_shadow [OF s(2) assms(1), of cx ts junk] cx by auto
    have mw: "map_wf n (ar_map (bd_arena d))" using r(2) by (simp add: bombd_wf_def match_wf_def arena_wf_def core_wf_def)
    have "\<exists>c'. network_poll rm junk rcv c = Some c' \<and> mirrors (ar_map (bd_arena d)) c'
                 \<and> (case w of None \<Rightarrow> ba_game_over c' = ba_game_over c | Some x \<Rightarrow> ba_game_over c' \<and> ba_winner_id c' = x)"
      if rcv: "reliable rcv = tcp_part (?out0 @ out)" for rcv c
    proof -
      obtain c1 where c1: "network_poll rm junk (tcp_part ?out0) c = Some c1" "shadow n tiles c1" "ending c1 = ending c" using start by blast
      obtain c2 where c2: "network_poll rm junk (tcp_part out) c1 = Some c2" "shadow n (bd_prev_map d) c2"
          "case w of None \<Rightarrow> ba_game_over c2 = ba_game_over c1 | Some x \<Rightarrow> ba_game_over c2 \<and> ba_winner_id c2 = x"
        using run_shadow [OF s(2) assms(1), of c1 ts junk] c1(2) r(1) by auto
      have "network_poll rm junk (reliable rcv) c = Some c2" unfolding rcv tcp_part_append network_poll_append c1(1) using c2(1) by simp
      then obtain c3 where c3: "network_poll rm junk rcv c = Some c3" "core c3 = core c2"
        using network_poll_reliable [OF refl, of rm junk rcv c] by (cases "network_poll rm junk rcv c") auto
      have "mirrors (ar_map (bd_arena d)) c2"
        using synced_mirrors [OF map_wf_square [OF mw] n(1) _ c2(2)] r(2) by (simp add: bombd_wf_def)
      then have m3: "mirrors (ar_map (bd_arena d)) c3" using mirrors_core [OF c3(2)] by simp
      have "ba_game_over c3 = ba_game_over c2" "ba_winner_id c3 = ba_winner_id c2"
        using arg_cong [OF c3(2), of ba_game_over] arg_cong [OF c3(2), of ba_winner_id] by simp_all
      then have "case w of None \<Rightarrow> ba_game_over c3 = ba_game_over c | Some x \<Rightarrow> ba_game_over c3 \<and> ba_winner_id c3 = x"
        using c2(3) c1(3) by (simp add: ending_def split: option.splits)
      then show ?thesis using c3(1) m3 by blast
    qed
    moreover have "reliable (tcp_part (?out0 @ out)) = tcp_part (?out0 @ out)"
      using r(3) unfolding tcp_part_append reliable_append by (simp add: roster_packet_def Let_def reliable_def packet_tags)
    ultimately show ?thesis using r(1) mw by blast
  qed
  then show ?thesis using s(1) by blast
qed

section \<open>The client's players and bombs\<close>

text \<open>The client's slots hold these players, in this order, and no others.\<close>

definition seated :: "u32 list \<Rightarrow> bombapp \<Rightarrow> bool" where
  "seated ids c \<longleftrightarrow> distinct ids \<and> length ids \<le> 25 \<and> length (ba_players c) = 25 \<and> length (ba_player_ids c) = 25
     \<and> length (ba_slot_used c) = 25 \<and> length (ba_player_alive c) = 25
     \<and> (\<forall>i < 25. ba_slot_used c ! i = (i < length ids)) \<and> (\<forall>i < length ids. ba_player_ids c ! i = ids ! i)"

lemma find_upt_first: "i < n \<Longrightarrow> P i \<Longrightarrow> (\<And>j. j < i \<Longrightarrow> \<not> P j) \<Longrightarrow> List.find P [0..<n] = Some i"
  unfolding find_Some_iff by (rule exI [of _ i]) auto

lemma seated_known:
  assumes "seated ids c" and "i < length ids"
  shows "player_slot (ids ! i) c = Some i" and "find_or_add_slot rm (ids ! i) c = (Some i, c)"
proof -
  have i: "i < 25" "ba_slot_used c ! i \<and> ba_player_ids c ! i = ids ! i" using assms by (auto simp: seated_def)
  have u: "j = i" if "j < 25" "ba_slot_used c ! j \<and> ba_player_ids c ! j = ids ! i" for j
    using assms that by (auto simp: seated_def nth_eq_iff_index_eq)
  have "player_slot (ids ! i) c = Some i" unfolding player_slot_def
  proof (rule find_upt_first)
    show "i < 25" "ba_slot_used c ! i \<and> ba_player_ids c ! i = ids ! i" by (rule i)+
    fix j
    assume "j < i"
    then show "\<not> (ba_slot_used c ! j \<and> ba_player_ids c ! j = ids ! i)" using i(1) u [of j] by auto
  qed
  then show "player_slot (ids ! i) c = Some i" "find_or_add_slot rm (ids ! i) c = (Some i, c)" by (simp_all add: find_or_add_slot_def)
qed

lemma seated_new:
  assumes "seated ids c" and "x \<notin> set ids" and "length ids < 25"
  shows "seated (ids @ [x]) (snd (find_or_add_slot rm x c))"
proof -
  let ?k = "length ids"
  have "player_slot x c = None"
    unfolding player_slot_def find_None_iff using assms(1,2) by (auto simp: seated_def simp del: upt_rec_numeral)
  moreover have "List.find (\<lambda>i. \<not> ba_slot_used c ! i) [0..<BOMBD_MAX_PLAYERS] = Some ?k"
    by (rule find_upt_first) (use assms(1,3) in \<open>auto simp: seated_def\<close>)
  ultimately have f: "snd (find_or_add_slot rm x c) = c\<lparr>ba_slot_used := (ba_slot_used c)[?k := True], ba_player_ids := (ba_player_ids c)[?k := x],
                          ba_player_alive := (ba_player_alive c)[?k := True],
                          ba_players := (ba_players c)[?k := bomberman_create_default rm (f_of_int 1, f_of_int 1)],
                          ba_player_count := (if int ?k \<ge> ba_player_count c then int ?k + 1 else ba_player_count c)\<rparr>"
    by (simp add: find_or_add_slot_def)
  show ?thesis unfolding f using assms by (auto simp: seated_def nth_list_update nth_append less_Suc_eq)
qed

lemma seated_fold:
  assumes "seated ids c" and "distinct (ids @ xs)" and "length (ids @ xs) \<le> 25"
  shows "seated (ids @ xs) (fold (\<lambda>x c. snd (find_or_add_slot rm x c)) xs c)"
  using assms
proof (induction xs arbitrary: ids c)
  case (Cons x xs)
  show ?case using Cons.IH [OF seated_new [OF Cons.prems(1), of x rm]] Cons.prems by simp
qed simp

lemma roster_seats:
  assumes "seated [] c" and "distinct (take k ids)" and "k = min (unat lobby_size) 25" and "k \<le> length ids"
  shows "\<exists>b c'. roster_packet lobby_size ids = To_all b \<and> network_message rm junk b c = Some c' \<and> seated (take k ids) c'"
proof -
  let ?ro = "\<lparr>ro_count = lobby_size, ro_ids = take k ids @ replicate (25 - k) 0\<rparr>"
  have len: "length (ro_ids ?ro) = 25" using assms(3,4) by simp
  have dec: "unpack_roster (pack_roster zero_buffer ?ro) = ?ro" by (rule roster.dec_enc) (use len in simp)
  have ids: "map (\<lambda>i. ro_ids ?ro ! i) [0..<k] = take k ids"
    using assms(4) by (auto simp: list_eq_iff_nth_eq nth_append)
  have "apply_roster rm ?ro c = fold (\<lambda>x c. snd (find_or_add_slot rm x c)) (map (\<lambda>i. ro_ids ?ro ! i) [0..<k]) c"
    unfolding apply_roster_def fold_map assms(3) by (simp add: comp_def del: upt_rec_numeral)
  then have "seated (take k ids) (apply_roster rm ?ro c)"
    using seated_fold [OF assms(1), of "take k ids" rm] assms(2,3) unfolding ids by simp
  then show ?thesis using dec assms(3) by (simp add: roster_packet_def Let_def network_message_packets(1))
qed

text \<open>A player as the client draws it.\<close>

definition shows_player :: "BombPlayer \<Rightarrow> Bomberman \<Rightarrow> bool" where
  "shows_player p bm \<longleftrightarrow> bm_position bm = (f32_bits (fst (bx_position (pl_box p))), f32_bits (snd (bx_position (pl_box p))))
     \<and> bm_direction bm = (case pl_direction p of FACING_UP \<Rightarrow> 0 | FACING_DOWN \<Rightarrow> 1 | FACING_LEFT \<Rightarrow> 2 | FACING_RIGHT \<Rightarrow> 3)
     \<and> bm_is_moving bm = pl_is_moving p \<and> st_num_bombs (bm_inventory bm) = st_num_bombs (pl_inventory p)
     \<and> st_remaining_bombs (bm_inventory bm) = st_remaining_bombs (pl_inventory p) \<and> st_num_fires (bm_inventory bm) = st_num_fires (pl_inventory p)"

definition int_range :: "int \<Rightarrow> bool" where
  "int_range k \<longleftrightarrow> -(2 ^ 31) \<le> k \<and> k < 2 ^ 31"

definition stock_range :: "InventoryStock \<Rightarrow> bool" where
  "stock_range st \<longleftrightarrow> int_range (st_num_bombs st) \<and> int_range (st_remaining_bombs st) \<and> int_range (st_num_fires st)"

lemma sint_word_of_int_range: "int_range k \<Longrightarrow> sint (word_of_int k :: u32) = k"
  by (simp add: int_range_def signed_of_int signed_take_bit_int_eq_self)

lemma apply_entry_seated:
  assumes "seated ids c" and "i < length ids" and "ps_player_id e = ids ! i"
  obtains bm c' where "apply_entry rm e c = c'" and "ba_players c' = (ba_players c)[i := bm]" and "ba_player_alive c' = (ba_player_alive c)[i := ps_alive e \<noteq> 0]"
    and "ba_player_ids c' = ba_player_ids c" and "ba_slot_used c' = ba_slot_used c" and "ba_local_id c' = ba_local_id c" and "ba_bombs c' = ba_bombs c"
    and "bm_position bm = (ps_x e, ps_y e)" and "bm_direction bm = sint (ps_direction e)" and "bm_is_moving bm = (ps_is_moving e \<noteq> 0)"
    and "st_num_bombs (bm_inventory bm) = sint (ps_num_bombs e)" and "st_remaining_bombs (bm_inventory bm) = sint (ps_remaining_bombs e)"
    and "st_num_fires (bm_inventory bm) = sint (ps_num_fires e)"
    and "ba_events c' = ba_events c @ (if ba_player_alive c ! i \<and> ps_alive e = 0 \<and> ids ! i = ba_local_id c then [EVENT_PLAYER_DIED] else [])"
proof -
  note f = seated_known(2) [OF assms(1,2)]
  show thesis
    by (rule that [OF refl, of "(ba_players c ! i)\<lparr>bm_position := (ps_x e, ps_y e), bm_direction := sint (ps_direction e),
          bm_is_moving := (ps_is_moving e \<noteq> 0), bm_inventory := (bm_inventory (ba_players c ! i))\<lparr>st_num_bombs := sint (ps_num_bombs e),
          st_remaining_bombs := sint (ps_remaining_bombs e), st_num_fires := sint (ps_num_fires e)\<rparr>\<rparr>"])
      (simp_all add: apply_entry_def f Let_def event_bus_trigger_app_def assms(3))
qed

lemma apply_entry_shows:
  assumes "seated ids c" and "i < length ids" and "pl_player_id p = ids ! i" and "stock_range (pl_inventory p)"
  obtains c' where "apply_entry rm (player_entry p) c = c'" and "seated ids c'" and "shows_player p (ba_players c' ! i)" and "ba_player_alive c' ! i = pl_alive p"
    and "\<And>j. j \<noteq> i \<Longrightarrow> ba_players c' ! j = ba_players c ! j \<and> ba_player_alive c' ! j = ba_player_alive c ! j"
    and "ba_local_id c' = ba_local_id c" and "ba_bombs c' = ba_bombs c"
    and "ba_events c' = ba_events c @ (if ba_player_alive c ! i \<and> \<not> pl_alive p \<and> ids ! i = ba_local_id c then [EVENT_PLAYER_DIED] else [])"
proof -
  let ?e = "player_entry p"
  have id: "ps_player_id ?e = ids ! i" using assms(3) by (simp add: player_entry_def)
  obtain bm c' where c': "apply_entry rm ?e c = c'" "ba_players c' = (ba_players c)[i := bm]" "ba_player_alive c' = (ba_player_alive c)[i := ps_alive ?e \<noteq> 0]"
      "ba_player_ids c' = ba_player_ids c" "ba_slot_used c' = ba_slot_used c" "ba_local_id c' = ba_local_id c" "ba_bombs c' = ba_bombs c"
    and bm: "bm_position bm = (ps_x ?e, ps_y ?e)" "bm_direction bm = sint (ps_direction ?e)" "bm_is_moving bm = (ps_is_moving ?e \<noteq> 0)"
      "st_num_bombs (bm_inventory bm) = sint (ps_num_bombs ?e)" "st_remaining_bombs (bm_inventory bm) = sint (ps_remaining_bombs ?e)"
      "st_num_fires (bm_inventory bm) = sint (ps_num_fires ?e)"
    and ev: "ba_events c' = ba_events c @ (if ba_player_alive c ! i \<and> ps_alive ?e = 0 \<and> ids ! i = ba_local_id c then [EVENT_PLAYER_DIED] else [])"
    by (rule apply_entry_seated [OF assms(1,2) id, of rm]) (rule that)
  have l: "i < length (ba_players c)" "i < length (ba_player_alive c)" using assms(1,2) by (auto simp: seated_def)
  have d: "sint (facing_code (pl_direction p)) = (case pl_direction p of FACING_UP \<Rightarrow> 0 | FACING_DOWN \<Rightarrow> 1 | FACING_LEFT \<Rightarrow> 2 | FACING_RIGHT \<Rightarrow> 3)"
    by (cases "pl_direction p") simp_all
  have al: "(ps_alive ?e \<noteq> 0) = pl_alive p" by (simp add: player_entry_def)
  have sh: "shows_player p bm" using bm d assms(4) by (simp add: shows_player_def player_entry_def stock_range_def sint_word_of_int_range)
  show thesis
  proof (rule that [OF c'(1)])
    show "seated ids c'" using assms(1) by (simp add: seated_def c')
    show "shows_player p (ba_players c' ! i)" "ba_player_alive c' ! i = pl_alive p" using sh l al by (simp_all add: c')
    show "\<And>j. j \<noteq> i \<Longrightarrow> ba_players c' ! j = ba_players c ! j \<and> ba_player_alive c' ! j = ba_player_alive c ! j" by (simp add: c')
    show "ba_local_id c' = ba_local_id c" "ba_bombs c' = ba_bombs c" by (rule c')+
    show "ba_events c' = ba_events c @ (if ba_player_alive c ! i \<and> \<not> pl_alive p \<and> ids ! i = ba_local_id c then [EVENT_PLAYER_DIED] else [])"
      using ev al by auto
  qed
qed

lemma apply_entries_show:
  assumes "seated ids c" and "m \<le> length ids" and "\<And>i. i < m \<Longrightarrow> pl_player_id (ps i) = ids ! i \<and> stock_range (pl_inventory (ps i))"
  shows "\<exists>c'. fold (\<lambda>i. apply_entry rm (player_entry (ps i))) [0..<m] c = c' \<and> seated ids c'
     \<and> (\<forall>i < m. shows_player (ps i) (ba_players c' ! i) \<and> ba_player_alive c' ! i = pl_alive (ps i))
     \<and> (\<forall>i \<ge> m. ba_player_alive c' ! i = ba_player_alive c ! i) \<and> ba_local_id c' = ba_local_id c \<and> ba_bombs c' = ba_bombs c
     \<and> ba_events c' = ba_events c @ (if \<exists>i < m. ba_player_alive c ! i \<and> \<not> pl_alive (ps i) \<and> ids ! i = ba_local_id c then [EVENT_PLAYER_DIED] else [])"
  using assms(2,3)
proof (induction m)
  case 0
  then show ?case using assms(1) by simp
next
  case (Suc m)
  obtain c1 where c1: "fold (\<lambda>i. apply_entry rm (player_entry (ps i))) [0..<m] c = c1" "seated ids c1"
      "\<forall>i < m. shows_player (ps i) (ba_players c1 ! i) \<and> ba_player_alive c1 ! i = pl_alive (ps i)"
      "\<forall>i \<ge> m. ba_player_alive c1 ! i = ba_player_alive c ! i" "ba_local_id c1 = ba_local_id c" "ba_bombs c1 = ba_bombs c"
      "ba_events c1 = ba_events c @ (if \<exists>i < m. ba_player_alive c ! i \<and> \<not> pl_alive (ps i) \<and> ids ! i = ba_local_id c then [EVENT_PLAYER_DIED] else [])"
    using Suc.IH Suc.prems by auto
  have m: "m < length ids" using Suc.prems(1) by simp
  obtain c2 where c2: "apply_entry rm (player_entry (ps m)) c1 = c2" "seated ids c2" "shows_player (ps m) (ba_players c2 ! m)"
      "ba_player_alive c2 ! m = pl_alive (ps m)"
      "\<And>j. j \<noteq> m \<Longrightarrow> ba_players c2 ! j = ba_players c1 ! j \<and> ba_player_alive c2 ! j = ba_player_alive c1 ! j"
      "ba_local_id c2 = ba_local_id c1" "ba_bombs c2 = ba_bombs c1"
      "ba_events c2 = ba_events c1 @ (if ba_player_alive c1 ! m \<and> \<not> pl_alive (ps m) \<and> ids ! m = ba_local_id c1 then [EVENT_PLAYER_DIED] else [])"
    by (rule apply_entry_shows [OF c1(2) m, of "ps m" rm]) (use Suc.prems(2) [of m] in simp, use Suc.prems(2) [of m] in simp, rule that)
  have d: "distinct ids" using assms(1) by (simp add: seated_def)
  have once: "\<not> (\<exists>i < m. ids ! i = ba_local_id c)" if "ids ! m = ba_local_id c"
    using that d m by (auto simp: nth_eq_iff_index_eq simp flip: that)
  have "ba_events c2 = ba_events c @ (if \<exists>i < Suc m. ba_player_alive c ! i \<and> \<not> pl_alive (ps i) \<and> ids ! i = ba_local_id c then [EVENT_PLAYER_DIED] else [])"
    using c1(4,5,7) c2(8) once by (auto simp: less_Suc_eq)
  moreover have "\<forall>i < Suc m. shows_player (ps i) (ba_players c2 ! i) \<and> ba_player_alive c2 ! i = pl_alive (ps i)"
    using c1(3) c2(3,4,5) by (metis less_Suc_eq)
  moreover have "\<forall>i \<ge> Suc m. ba_player_alive c2 ! i = ba_player_alive c ! i" using c1(4) c2(5) by (metis Suc_leD Suc_n_not_le_n)
  ultimately show ?case using c1(1,5,6) c2(1,2,6,7) by simp
qed

lemma enqueue_fold:
  assumes "queue_wf q" and "q_rear q + int (length xs) \<le> q_max_size q"
  shows "queue_list (fold (\<lambda>x q. snd (queue_enqueue q x)) xs q) = queue_list q @ xs"
  using assms
proof (induction xs arbitrary: q)
  case (Cons x xs)
  let ?q = "snd (queue_enqueue q x)"
  have ok: "queue_enqueue q x = (True, ?q)" and r: "q_rear ?q = q_rear q + 1" "q_max_size ?q = q_max_size q"
    using Cons.prems(2) by (auto simp: queue_enqueue_def queue_full_def)
  have "queue_list ?q = queue_list q @ [x]" using queue_enqueue_list [OF Cons.prems(1) ok] .
  then show ?case using Cons.IH [OF queue_enqueue_wf [OF Cons.prems(1)], of x] Cons.prems(2) r by simp
qed simp

section \<open>Properties\<close>

text \<open>
  C5 (client_mirrors_map): A client that receives what the bomb server sends over its connection, in order and with any explosion datagrams lost, doubled,
  delayed or forged in between, never accesses its map outside its bounds and ends with the server's map: the code of every tile within the
  twenty rows and columns that the packets carry. It knows that the match is over, and the winner, exactly when the server has announced it.
\<close>

theorem client_mirrors_map:
  assumes "raymath_law rm" and "0 < unat lobby_size"
  shows "\<exists>d0 out0. bombd_setup rm lobby_size client_ids a0 = Some (d0, out0)
     \<and> (\<forall>ts. \<exists>d out w. bombd_run rm ts d0 = Some (d, out, w) \<and> reliable (tcp_part (out0 @ out)) = tcp_part (out0 @ out)
          \<and> (\<forall>rcv c. reliable rcv = tcp_part (out0 @ out) \<longrightarrow>
               (\<exists>c'. network_poll rm junk rcv c = Some c' \<and> mirrors (ar_map (bd_arena d)) c'
                 \<and> (case w of None \<Rightarrow> ba_game_over c' = ba_game_over c | Some x \<Rightarrow> ba_game_over c' \<and> ba_winner_id c' = x))))"
  using client_follows [OF assms, of client_ids a0 junk] by meson

definition fresh_app :: "u32 \<Rightarrow> bombapp" where
  "fresh_app player_id =
     (let bm = \<lparr>bm_direction = 0, bm_is_moving = False, bm_position = (0, 0), bm_size = (0, 0),
                bm_inventory = \<lparr>st_remaining_bombs = 0, st_num_bombs = 0, st_num_fires = 0, st_bomb_replenish_timer = 0\<rparr>\<rparr>;
          b = \<lparr>ab_position = (0, 0), ab_spread = 0, ab_timer = 0\<rparr>;
          e = \<lparr>ae_center = (0, 0), ae_spread_amt = [], ae_timer = 0\<rparr>
      in \<lparr>ba_local_id = player_id, ba_players = replicate 25 bm, ba_player_ids = replicate 25 0, ba_slot_used = replicate 25 False,
          ba_player_alive = replicate 25 False, ba_player_count = 0, ba_has_map = False, ba_game_over = False, ba_winner_id = 0,
          ba_spectator_cam_pos = (0, 0), ba_map = None, ba_map_size = 0, ba_bombs = \<lparr>q_items = replicate 500 b, q_front = -1, q_rear = 0\<rparr>,
          ba_explodes = \<lparr>q_items = replicate 500 e, q_front = -1, q_rear = 0\<rparr>, ba_events = []\<rparr>)"

theorem client_mirrors_map_witness:
  "\<exists>d0 out0 d out w c'. bombd_setup demo_raymath 2 [7, 9] (demo_arena []) = Some (d0, out0)
     \<and> bombd_run demo_raymath [([], []), ([], [9])] d0 = Some (d, out, w)
     \<and> network_poll demo_raymath (sample_state 1) (tcp_part (out0 @ out)) (fresh_app 7) = Some c' \<and> mirrors (ar_map (bd_arena d)) c'"
proof -
  have two: "0 < unat (2 :: u32)" by simp
  from client_mirrors_map [OF demo_raymath_law two, of "[7, 9]" "demo_arena []" "sample_state 1"] show ?thesis by meson
qed

text \<open>
  Lemma (large_map_cut): From thirteen players on the map is larger than the packets, and every client's map has an empty tile where
  the server's has the far border wall.
\<close>

theorem large_map_cut:
  assumes "raymath_law rm" and "13 \<le> unat lobby_size"
  shows "\<exists>d0 out0. bombd_setup rm lobby_size client_ids a0 = Some (d0, out0)
     \<and> (\<forall>ts. \<exists>d out w k. bombd_run rm ts d0 = Some (d, out, w) \<and> 20 \<le> k \<and> grid_get (ar_map (bd_arena d)) k 0 = Some WALL
          \<and> (\<forall>rcv c. reliable rcv = tcp_part (out0 @ out) \<longrightarrow>
               (\<exists>c' cm. network_poll rm junk rcv c = Some c' \<and> ba_map c' = Some cm \<and> grid_get cm k 0 = Some 0)))"
proof -
  let ?k = "min (unat lobby_size) 25"
  define n where "n = calc_map_size (int ?k) + 2"
  have "list_all (\<lambda>k. 21 \<le> calc_map_size k + 2) [13..25]" by code_simp
  moreover have "int ?k \<in> set [13..25]" unfolding set_upto using assms(2) by simp
  ultimately have n: "21 \<le> n" unfolding n_def by (metis list_all_iff)
  have pos: "0 < unat lobby_size" using assms(2) by simp
  obtain d0 out0 where s: "bombd_setup rm lobby_size client_ids a0 = Some (d0, out0)"
    and r: "\<And>ts. \<exists>d out w. bombd_run rm ts d0 = Some (d, out, w) \<and> map_wf n (ar_map (bd_arena d))
          \<and> reliable (tcp_part (out0 @ out)) = tcp_part (out0 @ out)
          \<and> (\<forall>rcv c. reliable rcv = tcp_part (out0 @ out) \<longrightarrow> (\<exists>c'. network_poll rm junk rcv c = Some c' \<and> mirrors (ar_map (bd_arena d)) c'))"
    using client_follows [OF assms(1) pos, of client_ids a0 junk] unfolding n_def by meson
  have "\<exists>d out w k. bombd_run rm ts d0 = Some (d, out, w) \<and> 20 \<le> k \<and> grid_get (ar_map (bd_arena d)) k 0 = Some WALL
          \<and> (\<forall>rcv c. reliable rcv = tcp_part (out0 @ out) \<longrightarrow>
               (\<exists>c' cm. network_poll rm junk rcv c = Some c' \<and> ba_map c' = Some cm \<and> grid_get cm k 0 = Some 0))" for ts
  proof -
    obtain d out w where d: "bombd_run rm ts d0 = Some (d, out, w)" "map_wf n (ar_map (bd_arena d))"
        "\<And>rcv c. reliable rcv = tcp_part (out0 @ out) \<Longrightarrow> \<exists>c'. network_poll rm junk rcv c = Some c' \<and> mirrors (ar_map (bd_arena d)) c'"
      using r [of ts] by auto
    have wall: "grid_get (ar_map (bd_arena d)) (n - 1) 0 = Some WALL" using d(2) n by (simp add: map_wf_def on_map_def inner_def)
    have "\<exists>c' cm. network_poll rm junk rcv c = Some c' \<and> ba_map c' = Some cm \<and> grid_get cm (n - 1) 0 = Some 0"
      if rcv: "reliable rcv = tcp_part (out0 @ out)" for rcv c
    proof -
      obtain c' where c': "network_poll rm junk rcv c = Some c'" "mirrors (ar_map (bd_arena d)) c'" using d(3) [OF rcv] by blast
      obtain cm where cm: "ba_map c' = Some cm"
          "\<And>i j t. grid_get (ar_map (bd_arena d)) i j = Some t \<Longrightarrow> grid_get cm i j = Some (if i < 20 \<and> j < 20 then ucast (tile_code t) else 0)"
        using c'(2) by (auto simp: mirrors_def)
      have "grid_get cm (n - 1) 0 = Some 0" using cm(2) [OF wall] n by simp
      then show ?thesis using c'(1) cm(1) by blast
    qed
    moreover have "20 \<le> n - 1" using n by simp
    ultimately show ?thesis using d(1) wall by blast
  qed
  then show ?thesis using s by blast
qed

theorem large_map_cut_witness:
  "\<exists>d0 out0 d out w k. bombd_setup demo_raymath 13 [1, 2, 3, 4, 5, 6, 7, 8, 9, 10, 11, 12, 13] (demo_arena []) = Some (d0, out0)
     \<and> bombd_run demo_raymath [([], [])] d0 = Some (d, out, w) \<and> 20 \<le> k \<and> grid_get (ar_map (bd_arena d)) k 0 = Some WALL"
proof -
  have big: "13 \<le> unat (13 :: u32)" by simp
  from large_map_cut [OF demo_raymath_law big, of "[1, 2, 3, 4, 5, 6, 7, 8, 9, 10, 11, 12, 13]" "demo_arena []"] show ?thesis by meson
qed

text \<open>
  C31 (state_reaches_client): In a match of at most eight players, the state packet that the server broadcasts makes a client that has the roster show
  every player as the server has it, position, direction, inventory and life, and the first sixteen ticking bombs; the event of the local player's death
  fires exactly when the packet is the first to report it.
\<close>

theorem state_reaches_client:
  assumes "seated ids c" and "length ids \<le> 8" and "se_count s = int (length ids)"
    and "\<forall>i < length ids. pl_player_id (se_players s ! i) = ids ! i \<and> stock_range (pl_inventory (se_players s ! i))"
    and "state_payload_ok junk" and "16 \<le> length (q_items (ba_bombs c))"
  shows "\<exists>b c'. broadcast_state s a = To_all b \<and> network_message rm junk b c = Some c' \<and> seated ids c'
     \<and> (\<forall>i < length ids. shows_player (se_players s ! i) (ba_players c' ! i) \<and> ba_player_alive c' ! i = pl_alive (se_players s ! i))
     \<and> queue_list (ba_bombs c') = map (\<lambda>b. app_bomb_of (bomb_entry b)) (take 16 (queue_list (ar_bombs a)))
     \<and> ba_events c' = ba_events c @ (if \<exists>i < length ids. ba_player_alive c ! i \<and> \<not> pl_alive (se_players s ! i) \<and> ids ! i = ba_local_id c
                                      then [EVENT_PLAYER_DIED] else [])"
proof -
  let ?n = "length ids" and ?p = "state_payload s a" and ?bs = "take 100 (queue_list (ar_bombs a))"
  define m where "m = min 16 (length ?bs)"
  have ok: "state_payload_ok ?p" using assms(2,3) by (simp add: state_payload_ok_def state_payload_def Let_def)
  have cp: "clamp_players ?p = ?n" using assms(2,3) by (simp add: clamp_players_def state_payload_def Let_def unat_of_nat_u32)
  have cb: "clamp_bombs ?p = m" by (simp add: clamp_bombs_def state_payload_def Let_def m_def unat_of_nat_u32)
  have u: "unpack_state (pack_state zero_buffer ?p) junk =
    \<lparr>sp_player_count = of_nat ?n, sp_players = take ?n (sp_players ?p) @ drop ?n (sp_players junk),
     sp_bomb_count = of_nat m, sp_bombs = take m (sp_bombs ?p) @ drop m (sp_bombs junk)\<rparr>"
    using unpack_pack_state [OF _ ok assms(5), of zero_buffer] unfolding cp cb by simp
  have lens: "?n \<le> length (sp_players ?p)" "m \<le> length (sp_bombs ?p)"
    using ok assms(2) by (simp_all add: state_payload_ok_def m_def)
  let ?q = "unpack_state (pack_state zero_buffer ?p) junk"
  have pl: "sp_players ?q ! i = player_entry (se_players s ! i)" if "i < ?n" for i
    using that lens(1) assms(2,3) unfolding u by (simp add: nth_append state_payload_def Let_def)
  have bo: "map (\<lambda>i. app_bomb_of (sp_bombs ?q ! i)) [0..<m] = map (\<lambda>b. app_bomb_of (bomb_entry b)) (take 16 (queue_list (ar_bombs a)))"
    using lens(2) unfolding u by (auto simp: list_eq_iff_nth_eq nth_append state_payload_def Let_def m_def)
  have cnt: "min (unat (sp_player_count ?q)) 25 = ?n" "min (unat (sp_bomb_count ?q)) 100 = m"
    using assms(2) unfolding u by (simp_all add: unat_of_nat_u32 m_def del: of_nat_min)
  obtain c1 where c1: "fold (\<lambda>i. apply_entry rm (player_entry (se_players s ! i))) [0..<?n] c = c1" "seated ids c1"
      "\<forall>i < ?n. shows_player (se_players s ! i) (ba_players c1 ! i) \<and> ba_player_alive c1 ! i = pl_alive (se_players s ! i)"
      "ba_bombs c1 = ba_bombs c"
      "ba_events c1 = ba_events c @ (if \<exists>i < ?n. ba_player_alive c ! i \<and> \<not> pl_alive (se_players s ! i) \<and> ids ! i = ba_local_id c then [EVENT_PLAYER_DIED] else [])"
    using apply_entries_show [OF assms(1) order_refl, of "\<lambda>i. se_players s ! i" rm] assms(4) by auto
  have "fold (\<lambda>i. apply_entry rm (sp_players ?q ! i)) [0..<?n] c = c1"
    using c1(1) pl by (metis (no_types, lifting) atLeastLessThan_iff fold_cong set_upt)
  then have st: "apply_state rm ?q c = c1\<lparr>ba_bombs := fold (\<lambda>i q. snd (queue_enqueue q (app_bomb_of (sp_bombs ?q ! i)))) [0..<m] (queue_init (ba_bombs c))\<rparr>"
    unfolding apply_state_def Let_def cnt using c1(4) by simp
  have "fold (\<lambda>i q. snd (queue_enqueue q (app_bomb_of (sp_bombs ?q ! i)))) [0..<m] (queue_init (ba_bombs c))
      = fold (\<lambda>x q. snd (queue_enqueue q x)) (map (\<lambda>i. app_bomb_of (sp_bombs ?q ! i)) [0..<m]) (queue_init (ba_bombs c))"
    by (simp add: fold_map comp_def)
  moreover have "queue_list (fold (\<lambda>x q. snd (queue_enqueue q x)) (map (\<lambda>i. app_bomb_of (sp_bombs ?q ! i)) [0..<m]) (queue_init (ba_bombs c)))
      = map (\<lambda>i. app_bomb_of (sp_bombs ?q ! i)) [0..<m]"
    using enqueue_fold [OF queue_init_wf, of "ba_bombs c" "map (\<lambda>i. app_bomb_of (sp_bombs ?q ! i)) [0..<m]"] assms(6)
    by (simp add: queue_init_list) (simp add: queue_init_def m_def)
  ultimately have bombs: "queue_list (ba_bombs (apply_state rm ?q c)) = map (\<lambda>b. app_bomb_of (bomb_entry b)) (take 16 (queue_list (ar_bombs a)))"
    unfolding st bo by simp
  have "seated ids (apply_state rm ?q c)" using c1(2) unfolding st by (simp add: seated_def)
  then show ?thesis
    using c1(3,5) bombs unfolding broadcast_state_def by (intro exI [of _ "pack_state zero_buffer ?p"] exI [of _ "apply_state rm ?q c"])
      (simp add: network_message_packets(4) st)
qed

definition demo_app :: bombapp where
  "demo_app = (fresh_app 9)\<lparr>ba_slot_used := True # True # replicate 23 False, ba_player_ids := 7 # 9 # replicate 23 0,
     ba_player_alive := True # True # replicate 23 False\<rparr>"

definition demo_session :: BombSession where
  "demo_session = \<lparr>se_players = [zero_player\<lparr>pl_player_id := 7, pl_active := True, pl_alive := True\<rparr>, zero_player\<lparr>pl_player_id := 9, pl_active := True\<rparr>],
     se_count = 2, se_dirty = True\<rparr>"

theorem state_reaches_client_witness:
  "\<exists>b c'. broadcast_state demo_session (demo_arena []) = To_all b \<and> network_message demo_raymath (sample_state 1) b demo_app = Some c'
     \<and> ba_player_alive c' ! 0 \<and> \<not> ba_player_alive c' ! 1 \<and> ba_events c' = [EVENT_PLAYER_DIED]"
proof -
  have seat: "seated [7, 9] demo_app"
    by (auto simp: seated_def demo_app_def fresh_app_def Let_def nth_Cons' less_Suc_eq numeral_eq_Suc)
  have pl: "\<forall>i < length [7, 9 :: u32]. pl_player_id (se_players demo_session ! i) = [7, 9] ! i \<and> stock_range (pl_inventory (se_players demo_session ! i))"
    by (auto simp: demo_session_def zero_player_def stock_range_def int_range_def less_Suc_eq)
  have ok: "length [7, 9 :: u32] \<le> 8" "se_count demo_session = int (length [7, 9 :: u32])" "state_payload_ok (sample_state 1)"
      "16 \<le> length (q_items (ba_bombs demo_app))"
    by (simp_all add: demo_session_def sample_state_def state_payload_ok_def demo_app_def fresh_app_def Let_def)
  have ev: "ba_events demo_app = []" "ba_local_id demo_app = 9" "ba_player_alive demo_app ! 1"
    by (simp_all add: demo_app_def fresh_app_def Let_def)
  have al: "pl_alive (se_players demo_session ! 0)" "\<not> pl_alive (se_players demo_session ! 1)"
    by (simp_all add: demo_session_def zero_player_def)
  have ex: "\<exists>i < length [7, 9 :: u32]. ba_player_alive demo_app ! i \<and> \<not> pl_alive (se_players demo_session ! i) \<and> [7, 9] ! i = ba_local_id demo_app"
    using ev al by (intro exI [of _ 1]) simp
  obtain b c' where r: "broadcast_state demo_session (demo_arena []) = To_all b" "network_message demo_raymath (sample_state 1) b demo_app = Some c'"
      "\<forall>i < length [7, 9 :: u32]. ba_player_alive c' ! i = pl_alive (se_players demo_session ! i)"
      "ba_events c' = ba_events demo_app @ (if \<exists>i < length [7, 9 :: u32]. ba_player_alive demo_app ! i \<and> \<not> pl_alive (se_players demo_session ! i) \<and> [7, 9] ! i = ba_local_id demo_app
          then [EVENT_PLAYER_DIED] else [])"
    using state_reaches_client [OF seat ok(1,2) pl ok(3,4), of "demo_arena []" demo_raymath] by blast
  have "ba_events c' = [EVENT_PLAYER_DIED]" using r(4) ex ev(1) by auto
  then show ?thesis using r(1,2) r(3) al by auto
qed

section \<open>Explosion animations\<close>

definition age :: "f32 \<Rightarrow> app_explosion \<Rightarrow> app_explosion" where
  "age dt e = e\<lparr>ae_timer := f_sub (ae_timer e) dt\<rparr>"

lemma mset_replace_last:
  assumes "k < length xs"
  shows "mset (drop k (butlast (xs[k := last xs]))) = mset (drop (Suc k) xs)" and "take k (butlast (xs[k := last xs])) = take k xs"
proof -
  obtain a x b where xs: "xs = a @ x # b" "k = length a" using assms id_take_nth_drop [of k xs] by (metis length_take min.absorb4)
  show "mset (drop k (butlast (xs[k := last xs]))) = mset (drop (Suc k) xs)"
  proof (cases "b = []")
    case True
    then show ?thesis using xs by (simp add: butlast_append)
  next
    case False
    then have "mset (last b # butlast b) = mset b" using append_butlast_last_id [OF False] by (metis mset.simps(2) mset_append union_commute add_mset_add_single mset.simps(1))
    then show ?thesis using xs False by (simp add: butlast_append)
  qed
  show "take k (butlast (xs[k := last xs])) = take k xs" using xs by (auto simp: butlast_append)
qed

lemma network_tick_loop_ages:
  assumes "queue_wf q" and "q_front q < i" and "i \<le> q_rear q" and "q_rear q - i \<le> int fuel"
  shows "let k = nat (i - q_front q - 1); q' = network_tick_loop fuel dt i q
         in queue_wf q' \<and> mset (queue_list q') =
              mset (take k (queue_list q)) + mset (filter (\<lambda>e. 0 < ae_timer e) (map (age dt) (drop k (queue_list q))))"
  using assms
proof (induction fuel arbitrary: i q)
  case 0
  have "length (queue_list q) = nat (i - q_front q - 1)" using 0 queue_list_length [OF 0(1)] by simp
  then show ?case using 0 by (simp add: Let_def)
next
  case (Suc fuel)
  let ?L = "queue_list q" and ?k = "nat (i - q_front q - 1)"
  have len: "int (length ?L) = q_rear q - q_front q - 1" using queue_list_length [OF Suc.prems(1)] .
  show ?case
  proof (cases "i < q_rear q")
    case False
    then have "length ?L \<le> ?k" using len Suc.prems(3) by simp
    then show ?thesis using False Suc.prems(1) by (simp add: Let_def)
  next
    case True
    have k: "?k < length ?L" using len True Suc.prems(2) by simp
    define e where "e = age dt (q_items q ! nat i)"
    define q1 where "q1 = q\<lparr>q_items := (q_items q)[nat i := e]\<rparr>"
    have q1: "q_front q1 = q_front q" "q_rear q1 = q_rear q" by (simp_all add: q1_def)
    have e: "e = age dt (?L ! ?k)" using queue_list_nth [OF Suc.prems(1) k] Suc.prems(2) by (simp add: e_def)
    have w1: "queue_wf q1" using queue_update_set(1) [OF Suc.prems(1,2) True] by (simp add: q1_def)
    have L1: "queue_list q1 = ?L[?k := e]" using queue_list_update [OF Suc.prems(1,2) True] by (simp add: q1_def)
    have split: "filter (\<lambda>e. 0 < ae_timer e) (map (age dt) (drop ?k ?L))
        = (if 0 < ae_timer e then [e] else []) @ filter (\<lambda>e. 0 < ae_timer e) (map (age dt) (drop (Suc ?k) ?L))"
      using k e by (simp add: Cons_nth_drop_Suc [symmetric])
    show ?thesis
    proof (cases "ae_timer e \<le> 0")
      case False
      have step: "network_tick_loop (Suc fuel) dt i q = network_tick_loop fuel dt (i + 1) q1"
        using True False by (simp add: Let_def age_def e_def q1_def)
      have s: "nat (i + 1 - q_front q1 - 1) = Suc ?k" using Suc.prems(2) q1 by simp
      have t: "mset (take (Suc ?k) (queue_list q1)) = mset (take ?k ?L) + {#e#}"
        using k unfolding L1 by (simp add: take_Suc_conv_app_nth)
      have d: "drop (Suc ?k) (queue_list q1) = drop (Suc ?k) ?L" unfolding L1 by simp
      have "q_front q1 < i + 1" "i + 1 \<le> q_rear q1" "q_rear q1 - (i + 1) \<le> int fuel" using Suc.prems(2,4) True q1 by simp_all
      from Suc.IH [OF w1 this, unfolded s Let_def t d] show ?thesis using False unfolding step Let_def split by simp
    next
      case expired: True
      define q2 where "q2 = q1\<lparr>q_items := (q_items q1)[nat i := q_items q1 ! nat (q_rear q1 - 1)], q_rear := q_rear q1 - 1\<rparr>"
      have q2: "q_front q2 = q_front q" "q_rear q2 = q_rear q - 1" by (simp_all add: q2_def q1)
      have step: "network_tick_loop (Suc fuel) dt i q = network_tick_loop fuel dt i q2"
        using True expired by (simp add: Let_def age_def e_def q1_def q2_def)
      have i1: "q_front q1 < i" "i < q_rear q1" using Suc.prems(2) True q1 by simp_all
      have w2: "queue_wf q2" using w1 Suc.prems(2) True by (auto simp: queue_wf_def q2_def q1)
      have L2: "queue_list q2 = butlast ((queue_list q1)[?k := last (queue_list q1)])" using queue_list_remove [OF w1 i1] by (simp add: q2_def q1)
      have k1: "?k < length (queue_list q1)" using k unfolding L1 by simp
      have m: "mset (drop ?k (queue_list q2)) = mset (drop (Suc ?k) ?L)" "take ?k (queue_list q2) = take ?k ?L"
        unfolding L2 mset_replace_last [OF k1] using L1 by simp_all
      have f: "mset (filter (\<lambda>e. 0 < ae_timer e) (map (age dt) (drop ?k (queue_list q2))))
          = mset (filter (\<lambda>e. 0 < ae_timer e) (map (age dt) (drop (Suc ?k) ?L)))"
        unfolding mset_filter mset_map m(1) ..
      have s: "nat (i - q_front q2 - 1) = ?k" using q2 by simp
      have "q_front q2 < i" "i \<le> q_rear q2" "q_rear q2 - i \<le> int fuel" using Suc.prems(2,4) True q2 by simp_all
      from Suc.IH [OF w2 this, unfolded s Let_def f m(2)] show ?thesis using expired unfolding step Let_def split by simp
    qed
  qed
qed

text \<open>
  Lemma (animations_age_once): A frame of the client ages every explosion animation exactly once and drops exactly those whose time is up, wherever
  they stand in the queue and however many end together; it never touches the map.
\<close>

theorem animations_age_once:
  assumes "queue_wf (ba_explodes c)"
  shows "let c' = network_tick_explosions dt c
         in mset (queue_list (ba_explodes c')) = mset (filter (\<lambda>e. 0 < ae_timer e) (map (age dt) (queue_list (ba_explodes c))))
            \<and> queue_wf (ba_explodes c') \<and> ba_map c' = ba_map c"
proof (cases "queue_empty (ba_explodes c)")
  case True
  then show ?thesis using assms queue_empty_iff [OF assms] by (simp add: network_tick_explosions_def Let_def)
next
  case False
  let ?q = "ba_explodes c"
  have "q_front ?q < q_front ?q + 1" "q_front ?q + 1 \<le> q_rear ?q" "q_rear ?q - (q_front ?q + 1) \<le> int (nat (q_rear ?q))"
    using assms by (auto simp: queue_wf_def)
  from network_tick_loop_ages [OF assms this, of dt] show ?thesis using False by (simp add: network_tick_explosions_def Let_def)
qed

theorem animations_age_once_witness:
  "\<exists>e. mset (queue_list (ba_explodes (network_tick_explosions TICK_DELTA
         (apply_explosion \<lparr>ex_center_x = 0, ex_center_y = 0, ex_spread_amt = [1, 1, 0, 2]\<rparr> demo_app)))) = {#age TICK_DELTA e#}
     \<and> ae_spread_amt e = [1, 1, 0, 2] \<and> ae_timer e = EXPLODE_LIFETIME"
proof -
  let ?c = "apply_explosion \<lparr>ex_center_x = 0, ex_center_y = 0, ex_spread_amt = [1, 1, 0, 2]\<rparr> demo_app"
  let ?e = "\<lparr>ae_center = (0, 0), ae_spread_amt = [1, 1, 0, 2], ae_timer = EXPLODE_LIFETIME\<rparr>"
  have w: "queue_wf (ba_explodes demo_app)" "queue_list (ba_explodes demo_app) = []" "\<not> queue_full (ba_explodes demo_app)"
    by (simp_all add: demo_app_def fresh_app_def Let_def queue_wf_def queue_list_def queue_full_def)
  have q: "ba_explodes ?c = snd (queue_enqueue (ba_explodes demo_app) ?e)"
    by (simp add: apply_explosion_def event_bus_trigger_app_def upt_rec)
  have l: "queue_list (ba_explodes ?c) = [?e]"
    using queue_enqueue_list [OF w(1), of ?e "snd (queue_enqueue (ba_explodes demo_app) ?e)"] w(2,3) unfolding q by (simp add: queue_enqueue_def)
  have t: "0 < ae_timer (age TICK_DELTA ?e)" unfolding age_def by code_simp
  have "queue_wf (ba_explodes ?c)" unfolding q by (rule queue_enqueue_wf [OF w(1)])
  from animations_age_once [OF this, of TICK_DELTA, unfolded Let_def l]
  have "mset (queue_list (ba_explodes (network_tick_explosions TICK_DELTA ?c))) = {#age TICK_DELTA ?e#}" using t by simp
  then show ?thesis by (intro exI [of _ ?e]) simp
qed

section \<open>Input\<close>

lemma move_packet_handled:
  "handle_packet (pack_move zero_buffer m) (s, a) = Some (apply_move (find_bomb_player s (mv_player_id m)) m s, a)"
proof -
  have "read_bomb_packet_tag (pack_move zero_buffer m) = 0" by (simp add: codec_defs packet_frame)
  then show ?thesis by (simp add: handle_packet_def Let_def move.dec_enc)
qed

lemma bomb_packet_handled:
  "handle_packet (pack_bomb_place zero_buffer b) (s, a) = apply_bomb_place (find_bomb_player s (bp_player_id b)) (s, a)"
proof -
  have "read_bomb_packet_tag (pack_bomb_place zero_buffer b) = 1" by (simp add: codec_defs packet_frame)
  then show ?thesis by (simp add: handle_packet_def Let_def bomb_place.dec_enc)
qed

lemma sint_key_axis: "sint (key_axis p q) = (if p then 1 else if q then -1 else 0)"
  by (simp add: key_axis_def)

text \<open>
  Lemma (keys_reach_player): The packets that a living player's client sends in a frame make the server hold, for that player alone, the movement of the pressed
  keys and the sprint key, and place a bomb for that player when the bomb key was pressed; the client of a dead player sends nothing.
\<close>

theorem keys_reach_player:
  assumes "network_local_slot c = Some slot" and "find_bomb_player s (ba_local_id c) = Some i" and "pl_alive (se_players s ! i)"
  shows "if ba_player_alive c ! slot
     then \<exists>b rest. network_send_input k c = Send_udp b # rest
       \<and> handle_packet b (s, a) = Some (s\<lparr>se_players := (se_players s)[i := (se_players s ! i)
            \<lparr>pl_move_dx := (if k_right k then 1 else if k_left k then -1 else 0), pl_move_dy := (if k_up k then 1 else if k_down k then -1 else 0),
             pl_sprinting := k_sprint k\<rparr>]\<rparr>, a)
       \<and> (if k_bomb_pressed k then \<exists>b'. rest = [Send_tcp b'] \<and> handle_packet b' (s, a) = apply_bomb_place (Some i) (s, a) else rest = [])
     else network_send_input k c = []"
  using assms by (simp add: network_send_input_def move_packet_handled bomb_packet_handled apply_move_def sint_key_axis)

theorem keys_reach_player_witness:
  "\<exists>b b'. network_send_input \<lparr>k_up = False, k_down = True, k_left = False, k_right = True, k_sprint = False, k_bomb_pressed = True\<rparr>
            (demo_app\<lparr>ba_local_id := 7\<rparr>) = [Send_udp b, Send_tcp b']
     \<and> (\<exists>s'. handle_packet b (demo_session, demo_arena []) = Some (s', demo_arena []) \<and> pl_move_dx (se_players s' ! 0) = 1 \<and> pl_move_dy (se_players s' ! 0) = -1)"
proof -
  have seat: "seated [7, 9] (demo_app\<lparr>ba_local_id := 7\<rparr>)"
    by (auto simp: seated_def demo_app_def fresh_app_def Let_def nth_Cons' less_Suc_eq numeral_eq_Suc)
  have slot: "network_local_slot (demo_app\<lparr>ba_local_id := 7\<rparr>) = Some 0" using seated_known(1) [OF seat, of 0] by (simp add: network_local_slot_def)
  have find: "find_bomb_player demo_session (ba_local_id (demo_app\<lparr>ba_local_id := 7\<rparr>)) = Some 0"
    by (simp add: find_bomb_player_def demo_session_def upt_rec)
  have al: "pl_alive (se_players demo_session ! 0)" "ba_player_alive (demo_app\<lparr>ba_local_id := 7\<rparr>) ! 0"
    by (simp_all add: demo_session_def demo_app_def)
  from keys_reach_player [OF slot find al(1), of "\<lparr>k_up = False, k_down = True, k_left = False, k_right = True, k_sprint = False, k_bomb_pressed = True\<rparr>" "demo_arena []"]
  show ?thesis using al(2) by (auto simp: demo_session_def)
qed

end
