(* ===== verification/Bomb_Main.thy ===== *)
theory Bomb_Main
  imports Bomb_Net Bomb_App C_Text
begin

text \<open>
  \<open>main\<close> of \<open>bombd/main.c\<close> as a whole, around the lobby and the passes of \<open>Bomb_Net\<close>: the address that is shown, the listening socket and the room, the start of the match, the tick loop until the match is decided or
  the operator stops it, and the end. The room's thread runs beside it: every pass finds some state of the room and of its connections, which is part of the input.
  Results of system calls are arguments. The event bus that \<open>main\<close> creates has no listener.
\<close>

section \<open>Start\<close>

text \<open>An interface of the machine: whether it has an IPv4 address, whether it is the loopback, and the text of \<open>inet_ntop\<close>.\<close>

record interface =
  if_inet :: bool
  if_loopback :: bool
  if_text :: "string option"

fun find_lan_ip :: "interface list \<Rightarrow> string" where
  "find_lan_ip [] = ''''"
| "find_lan_ip (ifa # ifs) =
     (if \<not> if_inet ifa \<or> if_loopback ifa then find_lan_ip ifs
      else case if_text ifa of None \<Rightarrow> find_lan_ip ifs | Some t \<Rightarrow> t)"

definition address_lines :: "interface list \<Rightarrow> string" where
  "address_lines ifs =
     (let host_ip = find_lan_ip ifs
      in (if host_ip \<noteq> '''' then ''[bombd] Players on this network should enter: '' @ host_ip @ [CHR 0x0A]
          else ''[bombd] No non-loopback IPv4 found, local play only (127.0.0.1).'' @ [CHR 0x0A])
         @ ''[bombd] Players on this machine can use the default 127.0.0.1'' @ [CHR 0x0A])"

text \<open>The descriptor that listens, and the descriptors closed on the way.\<close>

definition master_listen :: "int \<Rightarrow> int \<Rightarrow> int \<Rightarrow> int \<times> int list" where
  "master_listen fd bind_r listen_r =
     (if fd < 0 then (-1, []) else if bind_r < 0 \<or> listen_r < 0 then (-1, [fd]) else (fd, []))"

text \<open>The program ends with an exit code and the descriptors that it has closed, or the room is open.\<close>

datatype ('k, 'x) opened = No_room int "int list" | Room_open int "('k, 'x) Server"

definition bombd_open ::
  "('k, 'x, 'c, 'm) openssl \<Rightarrow> files \<Rightarrow> os_results \<Rightarrow> u8 list \<Rightarrow> Message queue \<Rightarrow> u32 list \<Rightarrow> int \<Rightarrow> int \<Rightarrow> int \<Rightarrow> ('k, 'x) opened" where
  "bombd_open ssl fs os mem queue disc fd bind_r listen_r =
     (case master_listen fd bind_r listen_r of (listen_fd, gone) \<Rightarrow>
        if listen_fd < 0 then No_room (-1) gone
        else (case brserver_init_room os mem queue disc (of_nat ROOM_TCP_PORT) (of_nat ROOM_UDP_PORT) 1 of
               (_, None) \<Rightarrow> No_room (-1) [listen_fd]
             | (res, Some server) \<Rightarrow>
                 if res < 0 then No_room (-1) [listen_fd]
                 else (case brserver_open ssl fs server of
                         (r, server') \<Rightarrow> if r < 0 then No_room (-1) [listen_fd] else Room_open listen_fd server')))"

section \<open>The match\<close>

text \<open>The loop: each entry has the signal flag as the condition sees it, the room and its connections.\<close>

type_synonym ('k, 'x) pass = "bool \<times> ('k, 'x) Server \<times> net"

datatype loop_end = Goes_on bombd | Loop_over bombd u32

fun match_loop :: "raymath \<Rightarrow> ('k, 'x) pass list \<Rightarrow> bombd \<Rightarrow> loop_end option" where
  "match_loop rm [] d = Some (Goes_on d)"
| "match_loop rm ((stop_requested, server, net) # es) d =
     (if stop_requested then Some (Loop_over d 0)
      else case bombd_pass rm (server, net) d of
             None \<Rightarrow> None
           | Some (_, _, d', None) \<Rightarrow> match_loop rm es d'
           | Some (_, _, d', Some winner) \<Rightarrow> Some (Loop_over d' winner))"

definition match_end :: "u32 \<Rightarrow> ('k, 'x) pass \<Rightarrow> (('k, 'x) Server \<times> net) option" where
  "match_end winner_id e =
     (case e of (stop_requested, server, net) \<Rightarrow>
        map_option (\<lambda>(_, net'). (if stop_requested then server else snd (brserver_end server), net'))
          (brserver_send_to_all server (pack_game_over zero_buffer \<lparr>go_winner_id = winner_id\<rparr>) net))"

definition result_line :: "u32 \<Rightarrow> string" where
  "result_line winner_id =
     CHR 0x0A # (if winner_id \<noteq> 0 then ''[bombd] MATCH OVER! Winner: P'' @ dec_nat (unat winner_id) else ''[bombd] MATCH OVER! No survivors.'') @ [CHR 0x0A]"

datatype ('k, 'x) outcome = Exits int | Plays bombd | Ends bombd u32 "('k, 'x) Server" net

text \<open>From the end of the lobby: the room then, the passes of the loop, and the room at the end of the match.\<close>

definition bombd_match ::
  "raymath \<Rightarrow> ('k, 'x) pass \<Rightarrow> Lobby \<Rightarrow> Arena \<Rightarrow> ('k, 'x) pass list \<Rightarrow> ('k, 'x) pass \<Rightarrow> ('k, 'x) outcome option" where
  "bombd_match rm e lo a0 es e_end =
     (case e of (stop_requested, server, net) \<Rightarrow>
        case bombd_begin rm stop_requested server lo a0 of
          None \<Rightarrow> None
        | Some Shut_down \<Rightarrow> Some (Exits 0)
        | Some No_players \<Rightarrow> Some (Exits (-1))
        | Some Not_started \<Rightarrow> Some (Exits (-1))
        | Some (Match d out server') \<Rightarrow>
            (case send_outs server' out (net, []) of
               None \<Rightarrow> None
             | Some _ \<Rightarrow>
                 (case match_loop rm es d of
                    None \<Rightarrow> None
                  | Some (Goes_on d') \<Rightarrow> Some (Plays d')
                  | Some (Loop_over d' winner) \<Rightarrow>
                      map_option (\<lambda>(server, net). Ends d' winner server net) (match_end winner e_end))))"

section \<open>The loop on the transport is the loop on packets\<close>

lemma send_outs_ok: "server_wf server \<Longrightarrow> \<exists>r. send_outs server os nd = Some r"
proof (induction os arbitrary: nd)
  case (Cons x os)
  obtain net dg where nd: "nd = (net, dg)" by fastforce
  show ?case
  proof (cases x)
    case (To_all b)
    obtain r net1 where "brserver_send_to_all server b net = Some (r, net1)" using send_to_all_ok [OF Cons.prems] by blast
    then show ?thesis using Cons To_all by (simp add: nd)
  qed (use Cons in \<open>simp add: nd\<close>)
qed auto

text \<open>What a pass gives the session: the packets that wait; nobody is reported as gone.\<close>

definition inputs_at :: "('k, 'x) pass \<Rightarrow> u8 list list \<times> u32 list" where
  "inputs_at e = (case e of (stop, server, net) \<Rightarrow> (drained MAX_MSGS_PER_TICK server, []))"

lemma inputs_at_simp [simp]: "inputs_at (stop, server, net) = (drained MAX_MSGS_PER_TICK server, [])"
  by (simp add: inputs_at_def)

lemma bombd_pass_tick:
  assumes "server_wf server" and "bombd_tick rm (drained MAX_MSGS_PER_TICK server) [] d = Some (d', out, w)"
  shows "\<exists>sn dg. bombd_pass rm (server, net) d = Some (sn, dg, d', w)"
proof -
  obtain ms s1 where m: "drain_msgs MAX_MSGS_PER_TICK server = (ms, s1)" by fastforce
  have w1: "server_wf s1" using drain_msgs_wf [OF assms(1), of MAX_MSGS_PER_TICK] m by simp
  then have "sv_disconnected_count s1 = 0" by (simp add: server_wf_def)
  moreover obtain r where "send_outs s1 out (net, []) = Some r" using send_outs_ok [OF w1] by blast
  ultimately show ?thesis using assms(2) m by (cases r) (auto simp: bombd_pass_def)
qed

lemma match_loop_run:
  assumes "\<forall>(stop, server, net) \<in> set es. server_wf server"
    and "\<And>k. \<exists>r. bombd_run rm (map inputs_at (take k es)) d = Some r"
  shows "\<exists>k \<le> length es. \<exists>d' out w. bombd_run rm (map inputs_at (take k es)) d = Some (d', out, w)
     \<and> (match_loop rm es d = Some (Goes_on d') \<and> k = length es \<and> w = None \<and> (\<forall>(stop, server, net) \<in> set es. \<not> stop)
        \<or> match_loop rm es d = Some (Loop_over d' 0) \<and> w = None \<and> (\<exists>(stop, server, net) \<in> set es. stop)
        \<or> (\<exists>x. match_loop rm es d = Some (Loop_over d' x) \<and> w = Some x))"
  using assms
proof (induction es arbitrary: d)
  case (Cons e es)
  obtain stop server net where e: "e = (stop, server, net)" by (cases e)
  show ?case
  proof (cases stop)
    case True
    then show ?thesis by (intro exI [of _ 0]) (simp add: e)
  next
    case False
    let ?in = "drained MAX_MSGS_PER_TICK server"
    obtain d1 o1 w1 where t: "bombd_tick rm ?in [] d = Some (d1, o1, w1)" using Cons.prems(2) [of 1]
      by (cases "bombd_tick rm ?in [] d") (auto simp: e)
    obtain sn dg where p: "bombd_pass rm (server, net) d = Some (sn, dg, d1, w1)" using bombd_pass_tick [OF _ t, of net] Cons.prems(1) by (auto simp: e)
    show ?thesis
    proof (cases w1)
      case (Some x)
      then show ?thesis using p t False by (intro exI [of _ 1]) (simp add: e)
    next
      case None
      have "\<exists>r. bombd_run rm (map inputs_at (take k es)) d1 = Some r" for k
        using Cons.prems(2) [of "Suc k"] t None by (auto simp: e)
      moreover have "\<forall>(stop, server, net) \<in> set es. server_wf server" using Cons.prems(1) by simp
      ultimately obtain k d' out w where k: "k \<le> length es" "bombd_run rm (map inputs_at (take k es)) d1 = Some (d', out, w)"
        "match_loop rm es d1 = Some (Goes_on d') \<and> k = length es \<and> w = None \<and> (\<forall>(stop, server, net) \<in> set es. \<not> stop)
        \<or> match_loop rm es d1 = Some (Loop_over d' 0) \<and> w = None \<and> (\<exists>(stop, server, net) \<in> set es. stop)
        \<or> (\<exists>x. match_loop rm es d1 = Some (Loop_over d' x) \<and> w = Some x)" using Cons.IH [of d1] by blast
      then show ?thesis using p t False None by (intro exI [of _ "Suc k"]) (auto simp: e)
    qed
  qed
qed auto

section \<open>An input on its way to the session\<close>

text \<open>
  C15 (move_reaches_session): the movement that a player's keys ask for is done to that player, through the encrypted datagram that carries it. Take the movement packet that the client program sends in a frame, sent with
  \<open>brclient_send_msg_udp\<close> by a client that the room knows under the same key, and a room whose queue is empty: one datagram goes out to the room's port; the iteration of the room's game loop that receives
  it queues it; and the next pass of the server's tick loop is the pass with an empty queue on the session in which the player with the client's id has the movement of the pressed keys.
\<close>

theorem move_reaches_session:
  assumes "aes_law ssl" and "hmac_law ssl" and "length (ep_sesskey (cl_ep c)) = 32" and "length iv = 16"
    and "Send_udp content \<in> set (network_send_input k app)" and "brclient_send_msg_udp ssl (Some iv) True True c content = (res, sent)"
    and "get_from_list (sv_clients srv) (ep_id (cl_ep c)) = Some e" and "ep_sesskey e = ep_sesskey (cl_ep c)"
    and "server_wf srv" and "queue_list (sv_messages srv) = []" and "0 < queue_room (sv_messages srv)" and "length stack = 2060"
  shows "\<exists>dgram srv' q. res = 0 \<and> sent = [(Udp_host (cl_server_ip c) (of_nat ROOM_UDP_PORT), dgram)]
     \<and> game_iteration ssl 0 ready (Some (Some dgram)) stack msg0 (fds, srv, net) = (True, fds, srv', net) \<and> queue_list q = []
     \<and> bombd_pass rm (srv', net) d = bombd_pass rm (srv\<lparr>sv_messages := q\<rparr>, net) (d\<lparr>bd_session :=
          apply_move (find_bomb_player (bd_session d) (ba_local_id app))
            \<lparr>mv_player_id = ba_local_id app, mv_dx = key_axis (k_right k) (k_left k), mv_dy = key_axis (k_up k) (k_down k), mv_sprinting = (if k_sprint k then 1 else 0)\<rparr>
            (bd_session d)\<rparr>)"
proof -
  let ?mv = "\<lparr>mv_player_id = ba_local_id app, mv_dx = key_axis (k_right k) (k_left k), mv_dy = key_axis (k_up k) (k_down k), mv_sprinting = (if k_sprint k then 1 else 0)\<rparr>"
  have ct: "content = pack_move zero_buffer ?mv" using assms(5) by (auto simp: network_send_input_def split: option.splits if_splits)
  have len: "length content = 2048" by (simp add: ct codec_defs packet_frame)
  have wf: "queue_wf (sv_messages srv)" "sv_disconnected_count srv = 0" using assms(9) by (simp_all add: server_wf_def)
  have pos: "0 < MAX_MSGS_PER_TICK" by (simp add: MAX_MSGS_PER_TICK_def)
  let ?s = "server_receive ssl (app_envelope ssl (Some iv) c content) srv"
  obtain out q where d: "drain_msgs MAX_MSGS_PER_TICK ?s = ([out], srv\<lparr>sv_messages := q\<rparr>)" "queue_wf q" "queue_list q = []" "take 1984 out = take 1984 content"
    using envelope_drained [OF assms(1-4) len assms(7,8) wf(1) assms(10,11) pos] .
  have port: "of_nat ROOM_UDP_PORT = PORT_UDP_UNI" by (simp add: ROOM_UDP_PORT_def PORT_UDP_UNI_def)
  from client_udp_received [OF app_envelope_wf [OF assms(1-4)] refl assms(6,12), of ready msg0 fds srv net] obtain dgram where
    g: "res = 0" "sent = [(Udp_host (cl_server_ip c) (of_nat ROOM_UDP_PORT), dgram)]"
       "game_iteration ssl 0 ready (Some (Some dgram)) stack msg0 (fds, srv, net) = (True, fds, ?s, net)" unfolding port by blast
  have "bombd_pass rm (?s, net) d = bombd_pass rm (srv\<lparr>sv_messages := q\<rparr>, net)
      (d\<lparr>bd_session := apply_move (find_bomb_player (bd_session d) (ba_local_id app)) ?mv (bd_session d)\<rparr>)"
    using bombd_pass_one [OF d(1-3) wf(2) d(4), of rm net d] by (simp add: ct move_packet_handled)
  with g d(3) show ?thesis by blast
qed

text \<open>Keys that move right and place a bomb, on the client of player 7.\<close>

definition demo_keys :: app_keys where
  "demo_keys = \<lparr>k_up = False, k_down = False, k_left = False, k_right = True, k_sprint = False, k_bomb_pressed = True\<rparr>"

lemma demo_input:
  obtains b b' where "network_send_input demo_keys (demo_app\<lparr>ba_local_id := 7\<rparr>) = [Send_udp b, Send_tcp b']"
proof -
  have "seated [7, 9] (demo_app\<lparr>ba_local_id := 7\<rparr>)"
    by (auto simp: seated_def demo_app_def fresh_app_def Let_def nth_Cons' less_Suc_eq numeral_eq_Suc)
  from seated_known(1) [OF this, of 0] have "network_local_slot (demo_app\<lparr>ba_local_id := 7\<rparr>) = Some 0" by (simp add: network_local_slot_def)
  moreover have "ba_player_alive (demo_app\<lparr>ba_local_id := 7\<rparr>) ! 0" by (simp add: demo_app_def)
  ultimately show thesis using that by (simp add: network_send_input_def demo_keys_def)
qed

theorem move_reaches_session_witness:
  "\<exists>content dgram srv' q. Send_udp content \<in> set (network_send_input demo_keys (demo_app\<lparr>ba_local_id := 7\<rparr>))
     \<and> brclient_send_msg_udp plain_ssl (Some (replicate 16 1)) True True demo_player content = (0, [(Udp_host ''127.0.0.1'' 6701, dgram)])
     \<and> game_iteration plain_ssl 0 [False] (Some (Some dgram)) (replicate 2060 0) zero_message ([9], demo_room, wide_net) = (True, [9], srv', wide_net)
     \<and> bombd_pass demo_raymath (srv', wide_net) \<lparr>bd_session = demo_session, bd_arena = demo_arena [], bd_prev_map = []\<rparr>
       = bombd_pass demo_raymath (demo_room\<lparr>sv_messages := q\<rparr>, wide_net) \<lparr>bd_session = apply_move (Some 0)
           \<lparr>mv_player_id = 7, mv_dx = 1, mv_dy = 0, mv_sprinting = 0\<rparr> demo_session, bd_arena = demo_arena [], bd_prev_map = []\<rparr>"
proof -
  obtain b b' where "network_send_input demo_keys (demo_app\<lparr>ba_local_id := 7\<rparr>) = [Send_udp b, Send_tcp b']" by (rule demo_input)
  then have u: "Send_udp b \<in> set (network_send_input demo_keys (demo_app\<lparr>ba_local_id := 7\<rparr>))" by simp
  have wf: "server_wf demo_room" using room_of_one_wf demo_room_simps(2,3) by (simp add: server_wf_def demo_room_def)
  have st: "length (replicate 2060 (0 :: u8)) = 2060" by simp
  have f: "find_bomb_player demo_session 7 = Some 0" by (simp add: find_bomb_player_def demo_session_def upt_rec)
  have ip: "cl_server_ip demo_player = ''127.0.0.1''" "(of_nat ROOM_UDP_PORT :: u16) = 6701" by (simp_all add: demo_player_def ROOM_UDP_PORT_def)
  obtain res sent where s: "brclient_send_msg_udp plain_ssl (Some (replicate 16 1)) True True demo_player b = (res, sent)" by fastforce
  from move_reaches_session [OF plain_aes_law plain_hmac_law demo_registered(7,8) u s demo_registered(1,2) wf demo_room_simps(3,4) st, of "[False]" zero_message "[9]" wide_net
      demo_raymath "\<lparr>bd_session = demo_session, bd_arena = demo_arena [], bd_prev_map = []\<rparr>"] u s
  show ?thesis unfolding ip by (simp add: f demo_keys_def key_axis_def) blast
qed

text \<open>
  C36 (bomb_reaches_session): the bomb that a player asks for is placed for that player, through the encrypted connection. Take the bomb packet that the client program sends in a frame, sent with \<open>brclient_send_msg\<close> by a client that
  the room knows under the same key, its bytes arriving in any pieces while the room's queue is empty: the iteration of the room's game loop that reads them queues it, and the next pass of the server's
  tick loop is the pass with an empty queue on the match in which the player with the client's id has placed a bomb.
\<close>

theorem bomb_reaches_session:
  assumes "aes_law ssl" and "hmac_law ssl" and "length (ep_sesskey (cl_ep c)) = 32" and "length iv = 16"
    and "Send_tcp content \<in> set (network_send_input k app)"
    and "writable 2060 (c_tx cn)" and "brclient_send_msg ssl (Some iv) c content cn = (res, cn')"
    and "get_from_list (sv_clients srv) (ep_id (cl_ep c)) = Some e" and "ep_sesskey e = ep_sesskey (cl_ep c)"
    and "server_wf srv" and "i < length (ll_nodes (sv_clients srv))" and "length ready = length (ll_nodes (sv_clients srv))"
    and "\<forall>j < length ready. ready ! j \<longleftrightarrow> j = i" and "fds ! i = fd" and "live (c_rx (net fd))"
    and "tx_wire (c_tx cn) @ concat (c_rx (net fd)) = tx_wire (c_tx cn') @ rest"
    and "queue_list (sv_messages srv) = []" and "0 < queue_room (sv_messages srv)"
  shows "\<exists>srv' net' q. res = 0 \<and> game_iteration ssl 1 ready None stack msg0 (fds, srv, net) = (True, fds, srv', net') \<and> queue_list q = []
     \<and> bombd_pass rm (srv', net') d = (case apply_bomb_place (find_bomb_player (bd_session d) (ba_local_id app)) (bd_session d, bd_arena d) of
          None \<Rightarrow> None
        | Some (s, a) \<Rightarrow> bombd_pass rm (srv\<lparr>sv_messages := q\<rparr>, net') (d\<lparr>bd_session := s, bd_arena := a\<rparr>))"
proof -
  have ct: "content = pack_bomb_place zero_buffer \<lparr>bp_player_id = ba_local_id app\<rparr>" using assms(5) by (auto simp: network_send_input_def split: option.splits if_splits)
  have len: "length content = 2048" by (simp add: ct codec_defs packet_frame)
  have wf: "queue_wf (sv_messages srv)" "sv_disconnected_count srv = 0" "list_wf (sv_clients srv)" using assms(10) by (simp_all add: server_wf_def)
  have pos: "0 < MAX_MSGS_PER_TICK" by (simp add: MAX_MSGS_PER_TICK_def)
  let ?s = "server_receive ssl (app_envelope ssl (Some iv) c content) srv"
  obtain out q where d: "drain_msgs MAX_MSGS_PER_TICK ?s = ([out], srv\<lparr>sv_messages := q\<rparr>)" "queue_wf q" "queue_list q = []" "take 1984 out = take 1984 content"
    using envelope_drained [OF assms(1-4) len assms(8,9) wf(1) assms(17,18) pos] .
  obtain net' where g: "res = 0" "game_iteration ssl 1 ready None stack msg0 (fds, srv, net) = (True, fds, ?s, net')"
    using client_send_received [where net = net and fd = fd and fds = fds and k = i and stack = stack and ?msg0.0 = msg0,
        OF app_envelope_wf [OF assms(1-4)] refl assms(6,7) wf(3) assms(11-16)] by blast
  have "bombd_pass rm (?s, net') d = (case apply_bomb_place (find_bomb_player (bd_session d) (ba_local_id app)) (bd_session d, bd_arena d) of
          None \<Rightarrow> None | Some (s, a) \<Rightarrow> bombd_pass rm (srv\<lparr>sv_messages := q\<rparr>, net') (d\<lparr>bd_session := s, bd_arena := a\<rparr>))"
    using bombd_pass_one [OF d(1-3) wf(2) d(4), of rm net' d] by (simp add: ct bomb_packet_handled)
  with g d(3) show ?thesis by blast
qed

theorem bomb_reaches_session_witness:
  "\<exists>content srv' net' q. Send_tcp content \<in> set (network_send_input demo_keys (demo_app\<lparr>ba_local_id := 7\<rparr>))
     \<and> game_iteration plain_ssl 1 [True] None (replicate 2060 0) zero_message ([9], demo_room, demo_wire content) = (True, [9], srv', net')
     \<and> bombd_pass demo_raymath (srv', net') \<lparr>bd_session = demo_session, bd_arena = demo_arena [], bd_prev_map = []\<rparr>
       = (case apply_bomb_place (Some 0) (demo_session, demo_arena []) of None \<Rightarrow> None
          | Some (s, a) \<Rightarrow> bombd_pass demo_raymath (demo_room\<lparr>sv_messages := q\<rparr>, net')
              (\<lparr>bd_session = demo_session, bd_arena = demo_arena [], bd_prev_map = []\<rparr>\<lparr>bd_session := s, bd_arena := a\<rparr>))"
proof -
  obtain b b' where "network_send_input demo_keys (demo_app\<lparr>ba_local_id := 7\<rparr>) = [Send_udp b, Send_tcp b']" by (rule demo_input)
  then have u: "Send_tcp b' \<in> set (network_send_input demo_keys (demo_app\<lparr>ba_local_id := 7\<rparr>))" by simp
  let ?cn = "\<lparr>c_rx = [], c_tx = wide_tx\<rparr>"
  obtain cn' where c: "brclient_send_msg plain_ssl (Some (replicate 16 1)) demo_player b' ?cn = (0, cn')" "live (c_rx (demo_wire b' 9))"
    "writable 2060 (c_tx ?cn)" "tx_wire (c_tx ?cn) @ concat (c_rx (demo_wire b' 9)) = tx_wire (c_tx cn') @ []" by (rule demo_sent)
  have wf: "server_wf demo_room" using room_of_one_wf demo_room_simps(2,3) by (simp add: server_wf_def demo_room_def)
  have f: "find_bomb_player demo_session 7 = Some 0" by (simp add: find_bomb_player_def demo_session_def upt_rec)
  from bomb_reaches_session [where net = "demo_wire b'" and fd = 9 and stack = "replicate 2060 0" and ?msg0.0 = zero_message and rm = demo_raymath
      and d = "\<lparr>bd_session = demo_session, bd_arena = demo_arena [], bd_prev_map = []\<rparr>",
      OF plain_aes_law plain_hmac_law demo_registered(7,8) u c(3,1) demo_registered(1,2) wf demo_registered(3-6) c(2,4) demo_room_simps(3,4)]
  obtain srv' net' q where g: "game_iteration plain_ssl 1 [True] None (replicate 2060 0) zero_message ([9], demo_room, demo_wire b') = (True, [9], srv', net')"
      and p: "bombd_pass demo_raymath (srv', net') \<lparr>bd_session = demo_session, bd_arena = demo_arena [], bd_prev_map = []\<rparr>
       = (case apply_bomb_place (Some 0) (demo_session, demo_arena []) of None \<Rightarrow> None
          | Some (s, a) \<Rightarrow> bombd_pass demo_raymath (demo_room\<lparr>sv_messages := q\<rparr>, net')
              (\<lparr>bd_session = demo_session, bd_arena = demo_arena [], bd_prev_map = []\<rparr>\<lparr>bd_session := s, bd_arena := a\<rparr>))"
    by (auto simp: f)
  show ?thesis using u g p by blast
qed

section \<open>Properties\<close>

text \<open>
  C20 (bomb_server_decides): the bomb server as a program, from the end of the lobby. Take a room with at least one and at most 25 clients, and let the passes of the loop find any well-formed states of it, with any packets waiting: nothing is
  accessed outside its bounds and every send succeeds. The match is open while two players live, or the only one of a match of one. The program plays on only while the match is open and
  nobody stopped it. It ends an open match only when the operator stopped it, and then announces 0; otherwise it ends once the match is decided, and the winner that it announces is the only client that is
  still alive, or 0 when nobody is. The room is told to end unless the program is being stopped.
\<close>

theorem bomb_server_decides:
  assumes "server_wf srv" and "sv_state srv = LOBBY" and "ll_nodes (sv_clients srv) = cs" and "cs \<noteq> []" and "length cs \<le> 25" and "length (lo_ids lo) = 25"
    and "raymath_law rm" and "\<forall>(stop, server, net) \<in> set es. server_wf server" and "server_wf srv_end" and "sv_state srv_end = GAME"
  shows "\<exists>result. bombd_match rm (False, srv, net) lo a0 es (stop_end, srv_end, net_end) = Some result
     \<and> (case result of
          Exits n \<Rightarrow> False
        | Plays d \<Rightarrow> (\<forall>(stop, server, net) \<in> set es. \<not> stop)
            \<and> (2 \<le> length (alive_ids (bd_session d)) \<or> length cs = 1 \<and> alive_ids (bd_session d) \<noteq> [])
        | Ends d winner server net' \<Rightarrow> (sv_state server = END \<longleftrightarrow> \<not> stop_end) \<and> set (alive_ids (bd_session d)) \<subseteq> ep_id ` set cs
            \<and> (if 2 \<le> length (alive_ids (bd_session d)) \<or> length cs = 1 \<and> alive_ids (bd_session d) \<noteq> []
               then winner = 0 \<and> (\<exists>(stop, server, net) \<in> set es. stop)
               else alive_ids (bd_session d) = [winner] \<or> alive_ids (bd_session d) = [] \<and> winner = 0))"
proof -
  let ?n = "ll_count (sv_clients srv)" and ?ids = "map ep_id cs @ drop (length cs) (lo_ids lo)"
  have cnt: "unat ?n = length cs" using assms(1,3) by (simp add: server_wf_def list_wf_def)
  have "0 < unat ?n" using cnt assms(4) by simp
  from match_decided [OF assms(7) this, of ?ids a0] obtain d0 out0 where s: "bombd_setup rm ?n ?ids a0 = Some (d0, out0)"
      "alive_ids (bd_session d0) = map ((!) ?ids) [0..<min (unat ?n) 25]"
    and run: "\<And>ts. \<exists>d out w. bombd_run rm ts d0 = Some (d, out, w) \<and> set (alive_ids (bd_session d)) \<subseteq> set (alive_ids (bd_session d0))
          \<and> (w = None \<longleftrightarrow> 2 \<le> length (alive_ids (bd_session d)) \<or> unat ?n = 1 \<and> alive_ids (bd_session d) \<noteq> [])
          \<and> (\<forall>x. w = Some x \<longrightarrow> alive_ids (bd_session d) = [x] \<or> alive_ids (bd_session d) = [] \<and> x = 0)" by blast
  have ids: "set (alive_ids (bd_session d0)) \<subseteq> ep_id ` set cs" using s(2) cnt assms(5) by (auto simp: nth_append)
  note b = bombd_begin_ok(1) [OF assms(1-6) s(1)]
  have "server_wf (set_state GAME srv)" using assms(1) by (simp add: server_wf_def)
  then obtain r0 where o: "send_outs (set_state GAME srv) out0 (net, []) = Some r0" using send_outs_ok by blast
  have g: "\<And>w. \<exists>r net1. brserver_send_to_all srv_end (pack_game_over zero_buffer \<lparr>go_winner_id = w\<rparr>) net_end = Some (r, net1)"
    using send_to_all_ok [OF assms(9)] by blast
  have fin: "\<exists>net'. match_end w (stop_end, srv_end, net_end) = Some (if stop_end then srv_end else set_state END srv_end, net')" for w
    using g [of w] assms(10) by (auto simp: match_end_def brserver_end_def)
  have m: "bombd_match rm (False, srv, net) lo a0 es (stop_end, srv_end, net_end) =
      (case match_loop rm es d0 of None \<Rightarrow> None | Some (Goes_on d') \<Rightarrow> Some (Plays d')
       | Some (Loop_over d' winner) \<Rightarrow> map_option (\<lambda>(server, net). Ends d' winner server net) (match_end winner (stop_end, srv_end, net_end)))"
    using b o by (simp add: bombd_match_def)
  have st: "sv_state (if stop_end then srv_end else set_state END srv_end) = END \<longleftrightarrow> \<not> stop_end" using assms(10) by simp
  have "\<exists>r. bombd_run rm (map inputs_at (take k es)) d0 = Some r" for k using run by blast
  from match_loop_run [OF assms(8) this] obtain k d' out w where k: "bombd_run rm (map inputs_at (take k es)) d0 = Some (d', out, w)"
      and c: "match_loop rm es d0 = Some (Goes_on d') \<and> k = length es \<and> w = None \<and> (\<forall>(stop, server, net) \<in> set es. \<not> stop)
        \<or> match_loop rm es d0 = Some (Loop_over d' 0) \<and> w = None \<and> (\<exists>(stop, server, net) \<in> set es. stop)
        \<or> (\<exists>x. match_loop rm es d0 = Some (Loop_over d' x) \<and> w = Some x)" by blast
  have al: "set (alive_ids (bd_session d')) \<subseteq> ep_id ` set cs"
      "w = None \<longleftrightarrow> 2 \<le> length (alive_ids (bd_session d')) \<or> length cs = 1 \<and> alive_ids (bd_session d') \<noteq> []"
      "\<And>x. w = Some x \<Longrightarrow> alive_ids (bd_session d') = [x] \<or> alive_ids (bd_session d') = [] \<and> x = 0"
    using run [of "map inputs_at (take k es)"] k ids cnt by auto
  from c show ?thesis
  proof (elim disjE exE conjE)
    assume "match_loop rm es d0 = Some (Goes_on d')" "w = None" "\<forall>(stop, server, net) \<in> set es. \<not> stop"
    then show ?thesis using m al(2) by simp
  next
    assume l: "match_loop rm es d0 = Some (Loop_over d' 0)" "w = None" "\<exists>(stop, server, net) \<in> set es. stop"
    obtain net' where "match_end 0 (stop_end, srv_end, net_end) = Some (if stop_end then srv_end else set_state END srv_end, net')" using fin by blast
    then show ?thesis using m l al(1,2) st by simp
  next
    fix x
    assume l: "match_loop rm es d0 = Some (Loop_over d' x)" "w = Some x"
    obtain net' where "match_end x (stop_end, srv_end, net_end) = Some (if stop_end then srv_end else set_state END srv_end, net')" using fin by blast
    then show ?thesis using m l al(1,2) al(3) [OF l(2)] st by simp blast
  qed
qed

theorem bomb_server_decides_witness:
  "\<exists>(srv :: (unit, unit) Server) d w srv' net'. bombd_match demo_raymath (False, srv, demo_net) lobby_init (demo_arena []) [(False, srv, demo_net), (True, srv, demo_net)]
       (False, set_state GAME srv, demo_net) = Some (Ends d w srv' net') \<and> sv_state srv' = END"
proof -
  obtain r where r: "br_run plain_ssl (run_init fresh_server demo_net) 3 r" "sv_state (r_srv r) = LOBBY"
    "length (ll_nodes (sv_clients (r_srv r))) = 1" by (rule demo_lobby)
  let ?s = "r_srv r" and ?es = "[(False, r_srv r, demo_net), (True, r_srv r, demo_net)]"
  have w: "server_wf ?s" using br_run_wf [OF fresh_server_init r(1)] by (auto simp: run_wf_def)
  then have g: "server_wf (set_state GAME ?s)" "sv_state (set_state GAME ?s) = GAME" by (simp_all add: server_wf_def)
  have c: "ll_nodes (sv_clients ?s) \<noteq> []" "length (ll_nodes (sv_clients ?s)) \<le> 25" "length (lo_ids lobby_init) = 25"
    using r(3) by (auto simp: lobby_init_def)
  have es: "\<forall>(stop, server, net) \<in> set ?es. server_wf server" using w by simp
  from bomb_server_decides [OF w r(2) refl c demo_raymath_law es g(1,2), of demo_net "demo_arena []" False demo_net] show ?thesis
  proof (elim exE conjE, goal_cases)
    case (1 result)
    then show ?case by (cases result) (simp, simp, intro exI [of _ ?s], auto)
  qed
qed

text \<open>The match that the operator stops: every client is told that nobody has won, and the line that the program prints then is that of a match without survivors, although players live.\<close>

lemma stopped_match_announces_nobody:
  assumes "server_wf server"
  shows "match_loop rm ((True, server, net) # es) d = Some (Loop_over d 0)" and "result_line 0 = CHR 0x0A # ''[bombd] MATCH OVER! No survivors.'' @ [CHR 0x0A]"
    and "\<exists>net'. match_end 0 (True, server, net) = Some (server, net') \<and> (\<exists>r. brserver_send_to_all server (pack_game_over zero_buffer \<lparr>go_winner_id = 0\<rparr>) net = Some (r, net'))"
  using send_to_all_ok [OF assms, of "pack_game_over zero_buffer \<lparr>go_winner_id = 0\<rparr>" net] by (auto simp: match_end_def result_line_def)

text \<open>The start leaves no descriptor of the listening socket open when it fails.\<close>

lemma bombd_open_closes:
  assumes "bombd_open ssl fs os mem queue disc fd bind_r listen_r = No_room n gone" and "0 \<le> fd"
  shows "n = -1" and "gone = [fd]"
  using assms by (auto simp: bombd_open_def master_listen_def split: prod.splits option.splits if_splits)

end
