(* ===== verification/Bomb_Screen.thy ===== *)
theory Bomb_Screen
  imports Bomb_App C_Text
begin

text \<open>
  What the bomb client draws: \<open>tiles.c\<close>, \<open>bomb_render.c\<close>, \<open>spritesheet.c\<close> and \<open>draw_loop\<close> of \<open>bombapp/main.c\<close>.

  The textures that raylib loads are handles, their sizes an argument \<open>tex_size\<close>; a call of \<open>DrawTexturePro\<close> is a record of its arguments and drawing
  yields the list of these calls. The vector functions are those of the record \<open>raymath\<close>. The \<open>double\<close> addition of the sprite clock is the argument
  \<open>dadd\<close>. An index outside an array and a number that does not fit the byte it is converted to are \<open>None\<close>.
\<close>

section \<open>Sprites\<close>

datatype texture = No_texture | Tile_Grass | Tile_Breakable | Tile_Unbreakable | Powerup_Fire | Powerup_Bomb | Bomb_png
  | Explode_Core | Explode_Mid | Explode_Cap | Sheet nat

type_synonym color = "int \<times> int \<times> int \<times> int"

definition WHITE :: color where "WHITE = (255, 255, 255, 255)"

record Rectangle =
  re_x :: f32
  re_y :: f32
  re_width :: f32
  re_height :: f32

record draw_call =
  dr_texture :: texture
  dr_source :: Rectangle
  dr_dest :: Rectangle
  dr_origin :: Vector2
  dr_rotation :: f32
  dr_tint :: color

definition TILE_SIZE :: f32 where "TILE_SIZE = 120"
definition PICKUP_SIZE :: f32 where "PICKUP_SIZE = 80"

definition draw_static_sprite :: "(texture \<Rightarrow> int \<times> int) \<Rightarrow> texture \<Rightarrow> Vector2 \<Rightarrow> f32 \<Rightarrow> f32 \<Rightarrow> color \<Rightarrow> draw_call" where
  "draw_static_sprite tex_size tex pos sz rotation tint =
     (let w = f_of_int (fst (tex_size tex)); h = f_of_int (snd (tex_size tex));
          src = \<lparr>re_x = f_mul (fst pos) w, re_y = f_mul (snd pos) h, re_width = w, re_height = h\<rparr>;
          margin = f_mul (f_sub TILE_SIZE sz) (f_lit (5 / 10));
          dest = \<lparr>re_x = f_add (f_mul (fst pos) TILE_SIZE) margin, re_y = f_add (f_mul (snd pos) TILE_SIZE) margin,
                  re_width = sz, re_height = sz\<rparr>;
          half = (f_mul w (f_lit (5 / 10)), f_mul h (f_lit (5 / 10)))
      in \<lparr>dr_texture = tex, dr_source = src,
          dr_dest = (if rotation \<noteq> 0 then dest\<lparr>re_x := f_add (re_x dest) (fst half), re_y := f_add (re_y dest) (snd half)\<rparr> else dest),
          dr_origin = (if rotation \<noteq> 0 then half else (0, 0)), dr_rotation = rotation, dr_tint = tint\<rparr>)"

section \<open>Tiles\<close>

text \<open>The array of textures after \<open>tiles_init\<close>, indexed by the tile's code; five entries are loaded.\<close>

definition tile_textures :: "texture list" where
  "tile_textures = [Tile_Grass, No_texture, No_texture, No_texture, Powerup_Fire, Powerup_Bomb, Tile_Breakable, Tile_Unbreakable]"

text \<open>The sprites of one tile with their sizes: the index is used before it is compared.\<close>

definition tile_sprites :: "u32 \<Rightarrow> (texture \<times> f32) list option" where
  "tile_sprites t =
     (if unat t < length tile_textures
      then let ground = (if t < ucast (tile_code BREAKABLE) then tile_textures ! unat (ucast (tile_code EMPTY) :: u32) else tile_textures ! unat t)
           in Some ((ground, TILE_SIZE) # (if t = ucast (tile_code POWERUP_FIRE) \<or> t = ucast (tile_code POWERUP_BOMB)
                                           then [(tile_textures ! unat t, PICKUP_SIZE)] else []))
      else None)"

definition draw_tile :: "(texture \<Rightarrow> int \<times> int) \<Rightarrow> int \<times> int \<Rightarrow> (texture \<times> f32) list \<Rightarrow> draw_call list" where
  "draw_tile tex_size p sprites =
     map (\<lambda>(tex, sz). draw_static_sprite tex_size tex (f_of_int (fst p), f_of_int (snd p)) sz 0 WHITE) sprites"

fun draw_tiles :: "(texture \<Rightarrow> int \<times> int) \<Rightarrow> u32 list list \<Rightarrow> (int \<times> int) list \<Rightarrow> draw_call list option" where
  "draw_tiles tex_size cm [] = Some []"
| "draw_tiles tex_size cm ((i, j) # ps) =
     (case Option.bind (grid_get cm i j) tile_sprites of
        None \<Rightarrow> None
      | Some sprites \<Rightarrow> map_option (\<lambda>cs. draw_tile tex_size (i, j) sprites @ cs) (draw_tiles tex_size cm ps))"

definition tiles_draw :: "(texture \<Rightarrow> int \<times> int) \<Rightarrow> bombapp \<Rightarrow> draw_call list option" where
  "tiles_draw tex_size c = (case ba_map c of None \<Rightarrow> None | Some cm \<Rightarrow> draw_tiles tex_size cm (map_places (ba_map_size c)))"

section \<open>Bombs and explosions\<close>

definition bomb_tint :: "f32 \<Rightarrow> color option" where
  "bomb_tint timer =
     (let red = f_to_int (f_mul (f_div timer BOMB_TIMER) 255)
      in if 0 \<le> red \<and> red \<le> 255 then Some (255, red, red, 255) else None)"

definition draw_bomb :: "(texture \<Rightarrow> int \<times> int) \<Rightarrow> Vector2 \<Rightarrow> f32 \<Rightarrow> draw_call option" where
  "draw_bomb tex_size position timer = map_option (draw_static_sprite tex_size Bomb_png position PICKUP_SIZE 0) (bomb_tint timer)"

definition spread_vec :: "nat \<Rightarrow> Vector2" where
  "spread_vec dir = (if dir = 0 then (0, -1) else if dir = 1 then (0, 1) else if dir = 2 then (-1, 0) else (1, 0))"

definition spread_rotation :: "nat \<Rightarrow> f32" where
  "spread_rotation dir = (if dir = 0 then 90 else if dir = 1 then 270 else if dir = 3 then 180 else 0)"

text \<open>The sprites of an explosion: texture, position in tiles, rotation.\<close>

definition explosion_sprites :: "raymath \<Rightarrow> Vector2 \<Rightarrow> int list \<Rightarrow> (texture \<times> Vector2 \<times> f32) list" where
  "explosion_sprites rm center spread_amt =
     (Explode_Core, center, 0)
     # concat (map (\<lambda>dir.
         map (\<lambda>spread. (if spread = spread_amt ! dir - 1 then Explode_Cap else Explode_Mid,
                         rm_add rm center (rm_scale rm (spread_vec dir) (f_of_int (spread + 1))), spread_rotation dir))
           [0..spread_amt ! dir - 1]) [0..<4])"

text \<open>Of a bomb the position and the timer are read, of an explosion the center and the reach; the queues of the simulation and those of a client hold both.\<close>

definition bombs_draw :: "raymath \<Rightarrow> (texture \<Rightarrow> int \<times> int) \<Rightarrow> (Vector2 \<times> f32) list \<Rightarrow> (Vector2 \<times> int list) list \<Rightarrow> draw_call list option" where
  "bombs_draw rm tex_size bombs explosions =
     map_option (\<lambda>cs. cs @ concat (map (\<lambda>(center, amt). map (\<lambda>(tex, pos, rot). draw_static_sprite tex_size tex pos TILE_SIZE rot WHITE)
                                                    (explosion_sprites rm center amt)) explosions))
       (those (map (\<lambda>(position, timer). draw_bomb tex_size position timer) bombs))"

section \<open>Sprite sheets\<close>

record Spritesheet =
  ss_texture :: texture
  ss_should_loop :: bool
  ss_columns :: int
  ss_scale :: f32
  ss_tile_width :: int
  ss_tile_height :: int
  ss_last_frame :: int
  ss_curr_frame :: int
  ss_time_per_frame :: rat
  ss_time_elapsed :: rat

record SpritesheetAsset =
  as_cols :: int
  as_rows :: int
  as_scale :: f32
  as_fps :: int
  as_should_loop :: bool

definition spritesheet_init :: "(texture \<Rightarrow> int \<times> int) \<Rightarrow> texture \<Rightarrow> SpritesheetAsset \<Rightarrow> Spritesheet" where
  "spritesheet_init tex_size tex asset =
     \<lparr>ss_texture = tex, ss_should_loop = as_should_loop asset, ss_columns = as_cols asset, ss_scale = as_scale asset,
      ss_tile_width = fst (tex_size tex) div as_cols asset, ss_tile_height = snd (tex_size tex) div as_rows asset,
      ss_last_frame = as_cols asset * as_rows asset, ss_curr_frame = 0, ss_time_per_frame = f_div 1 (f_of_int (as_fps asset)), ss_time_elapsed = 0\<rparr>"

definition spritesheet_restart :: "Spritesheet \<Rightarrow> Spritesheet" where
  "spritesheet_restart s = s\<lparr>ss_curr_frame := 0, ss_time_elapsed := 0\<rparr>"

definition spritesheet_update :: "(rat \<Rightarrow> rat \<Rightarrow> rat) \<Rightarrow> f32 \<Rightarrow> Spritesheet \<Rightarrow> Spritesheet" where
  "spritesheet_update dadd frame_time s =
     (let s1 = s\<lparr>ss_time_elapsed := dadd (ss_time_elapsed s) frame_time\<rparr>
      in if ss_time_elapsed s1 < ss_time_per_frame s1 then s1
         else let s2 = s1\<lparr>ss_curr_frame := ss_curr_frame s1 + 1, ss_time_elapsed := 0\<rparr>
              in if ss_curr_frame s2 \<ge> ss_last_frame s2
                 then (if ss_should_loop s2 then s2\<lparr>ss_curr_frame := 0\<rparr> else s2\<lparr>ss_curr_frame := ss_last_frame s2 - 1\<rparr>)
                 else s2)"

text \<open>The part of the texture that a frame shows; the frame is not negative, so that C's division is \<open>div\<close>.\<close>

definition frame_source :: "Spritesheet \<Rightarrow> int \<times> int \<times> int \<times> int" where
  "frame_source s =
     (let col = ss_curr_frame s mod ss_columns s; row = ss_curr_frame s div ss_columns s
      in (col * ss_tile_width s, row * ss_tile_height s, ss_tile_width s, ss_tile_height s))"

definition spritesheet_draw :: "Spritesheet \<Rightarrow> Vector2 \<Rightarrow> Vector2 \<Rightarrow> f32 \<Rightarrow> color \<Rightarrow> draw_call" where
  "spritesheet_draw s position origin_scale rotation tint =
     (case frame_source s of (x, y, w, h) \<Rightarrow>
        \<lparr>dr_texture = ss_texture s, dr_source = \<lparr>re_x = f_of_int x, re_y = f_of_int y, re_width = f_of_int w, re_height = f_of_int h\<rparr>,
         dr_dest = \<lparr>re_x = f_mul (fst position) TILE_SIZE, re_y = f_mul (snd position) TILE_SIZE,
                    re_width = f_mul (f_of_int w) (ss_scale s), re_height = f_mul (f_of_int h) (ss_scale s)\<rparr>,
         dr_origin = (f_mul (f_of_int w) (fst origin_scale), f_mul (f_of_int h) (snd origin_scale)), dr_rotation = rotation, dr_tint = tint\<rparr>)"

section \<open>Drawing the state of a client\<close>

text \<open>A client holds positions and timers as the bits that it received; a value that is not a number cannot be drawn.\<close>

definition app_vec :: "bits2 \<Rightarrow> Vector2 option" where
  "app_vec p = (case (f32_of_bits (fst p), f32_of_bits (snd p)) of (Some x, Some y) \<Rightarrow> Some (x, y) | _ \<Rightarrow> None)"

definition drawn_bomb :: "app_bomb \<Rightarrow> (Vector2 \<times> f32) option" where
  "drawn_bomb b = (case (app_vec (ab_position b), f32_of_bits (ab_timer b)) of (Some p, Some t) \<Rightarrow> Some (p, t) | _ \<Rightarrow> None)"

definition drawn_explosion :: "app_explosion \<Rightarrow> (Vector2 \<times> int list) option" where
  "drawn_explosion e = map_option (\<lambda>center. (center, ae_spread_amt e)) (app_vec (ae_center e))"

definition network_bombs_draw :: "raymath \<Rightarrow> (texture \<Rightarrow> int \<times> int) \<Rightarrow> bombapp \<Rightarrow> draw_call list option" where
  "network_bombs_draw rm tex_size c =
     (case (those (map drawn_bomb (queue_list (ba_bombs c))), those (map drawn_explosion (queue_list (ba_explodes c)))) of
        (Some bs, Some es) \<Rightarrow> bombs_draw rm tex_size bs es
      | _ \<Rightarrow> None)"

text \<open>The sheets of a player are given by whether it walks and by its direction; the sheet of the frame was chosen by the update before.\<close>

definition bomberman_draw :: "(bool \<Rightarrow> nat \<Rightarrow> Spritesheet) \<Rightarrow> Bomberman \<Rightarrow> color \<Rightarrow> draw_call option" where
  "bomberman_draw sheets bm tint =
     (if 0 \<le> bm_direction bm \<and> bm_direction bm < 4
      then map_option (\<lambda>p. spritesheet_draw (sheets (bm_is_moving bm) (nat (bm_direction bm))) p (f_lit (5 / 10), f_lit (2 / 10)) 0 tint)
             (app_vec (bm_position bm))
      else None)"

section \<open>Texts\<close>

definition inventory_text :: "InventoryStock \<Rightarrow> string" where
  "inventory_text st = ''Bombs: '' @ dec_int (st_remaining_bombs st) @ ''/'' @ dec_int (st_num_bombs st) @ '' | Fire: '' @ dec_int (st_num_fires st)"

text \<open>The large text in the middle of the screen, if there is one.\<close>

definition status_text :: "bombapp \<Rightarrow> string option" where
  "status_text c =
     (if ba_game_over c
      then let winner = ba_winner_id c
           in Some (if winner = 0 then ''NO SURVIVORS'' else if winner = ba_local_id c then ''YOU WIN!''
                    else ''P'' @ dec_nat (unat winner) @ '' WINS!'')
      else case network_local_slot c of
             Some slot \<Rightarrow> if \<not> ba_player_alive c ! slot then Some ''You died!'' else None
           | None \<Rightarrow> None)"

text \<open>The slots whose sprites are drawn, with their tints.\<close>

definition drawn_players :: "bombapp \<Rightarrow> (nat \<times> color) list" where
  "drawn_players c =
     map (\<lambda>i. (i, if Some i = network_local_slot c then WHITE else (190, 210, 255, 255)))
       (filter (\<lambda>i. ba_player_alive c ! i) [0..<nat (ba_player_count c)])"

definition players_draw :: "(nat \<Rightarrow> bool \<Rightarrow> nat \<Rightarrow> Spritesheet) \<Rightarrow> bombapp \<Rightarrow> draw_call list option" where
  "players_draw sheets c = those (map (\<lambda>(i, tint). bomberman_draw (sheets i) (ba_players c ! i) tint) (drawn_players c))"

text \<open>A frame: the sprites in the order in which they are drawn, and the texts over them.\<close>

definition draw_loop :: "raymath \<Rightarrow> (texture \<Rightarrow> int \<times> int) \<Rightarrow> (nat \<Rightarrow> bool \<Rightarrow> nat \<Rightarrow> Spritesheet) \<Rightarrow> bombapp \<Rightarrow> (draw_call list \<times> string list) option" where
  "draw_loop rm tex_size sheets c =
     (case (tiles_draw tex_size c, network_bombs_draw rm tex_size c, players_draw sheets c) of
        (Some ts, Some bs, Some ps) \<Rightarrow>
          Some (ts @ bs @ ps,
                (case network_local_slot c of None \<Rightarrow> [] | Some slot \<Rightarrow> [inventory_text (bm_inventory (ba_players c ! slot))])
                @ (case status_text c of None \<Rightarrow> [] | Some t \<Rightarrow> [t]))
      | _ \<Rightarrow> None)"

section \<open>The map on the screen\<close>

text \<open>What a tile looks like: grass, stone or crate, with a pickup lying on the grass.\<close>

fun tile_picture :: "TileType \<Rightarrow> (texture \<times> f32) list" where
  "tile_picture WALL = [(Tile_Unbreakable, TILE_SIZE)]"
| "tile_picture BREAKABLE = [(Tile_Breakable, TILE_SIZE)]"
| "tile_picture POWERUP_FIRE = [(Tile_Grass, TILE_SIZE), (Powerup_Fire, PICKUP_SIZE)]"
| "tile_picture POWERUP_BOMB = [(Tile_Grass, TILE_SIZE), (Powerup_Bomb, PICKUP_SIZE)]"
| "tile_picture _ = [(Tile_Grass, TILE_SIZE)]"

lemma tile_sprites_code: "tile_sprites (ucast (tile_code t)) = Some (tile_picture t)"
  by (cases t) (simp_all add: tile_sprites_def tile_textures_def)

lemma tile_sprites_unknown: "8 \<le> unat t \<Longrightarrow> tile_sprites t = None"
  by (simp add: tile_sprites_def tile_textures_def)

text \<open>The packets carry twenty rows and columns; beyond them a client sees empty tiles.\<close>

definition seen_tile :: "grid \<Rightarrow> int \<Rightarrow> int \<Rightarrow> TileType" where
  "seen_tile g i j = (if i < 20 \<and> j < 20 then the (grid_get g i j) else EMPTY)"

definition map_picture :: "(texture \<Rightarrow> int \<times> int) \<Rightarrow> grid \<Rightarrow> draw_call list" where
  "map_picture tex_size g =
     concat (map (\<lambda>(i, j). draw_tile tex_size (i, j) (tile_picture (seen_tile g i j))) (map_places (int (length g))))"

text \<open>What a player reads at the end.\<close>

definition verdict :: "u32 \<Rightarrow> u32 \<Rightarrow> string" where
  "verdict winner me = (if winner = 0 then ''NO SURVIVORS'' else if winner = me then ''YOU WIN!'' else ''P'' @ dec_nat (unat winner) @ '' WINS!'')"

lemma draw_tiles_all:
  assumes "\<And>i j. (i, j) \<in> set ps \<Longrightarrow> grid_get cm i j = Some (ucast (tile_code (f i j)))"
  shows "draw_tiles ts cm ps = Some (concat (map (\<lambda>(i, j). draw_tile ts (i, j) (tile_picture (f i j))) ps))"
  using assms
proof (induction ps)
  case (Cons p ps)
  then show ?case by (cases p) (simp add: tile_sprites_code)
qed simp

lemma mirrored_map_drawn:
  assumes "mirrors g c" and "square (int (length g)) g"
  shows "tiles_draw ts c = Some (map_picture ts g)"
proof -
  obtain cm where cm: "ba_map c = Some cm"
      "\<And>i j t. grid_get g i j = Some t \<Longrightarrow> grid_get cm i j = Some (if i < 20 \<and> j < 20 then ucast (tile_code t) else 0)"
    using assms(1) by (auto simp: mirrors_def)
  have "grid_get cm i j = Some (ucast (tile_code (seen_tile g i j)))" if "(i, j) \<in> set (map_places (int (length g)))" for i j
  proof -
    have "on_map (int (length g)) (i, j)" using that by (simp add: map_places_set)
    then obtain t where "grid_get g i j = Some t" using grid_get_square [OF assms(2)] by blast
    then show ?thesis using cm(2) by (simp add: seen_tile_def)
  qed
  then show ?thesis using assms(1) cm(1) draw_tiles_all by (simp add: tiles_draw_def mirrors_def map_picture_def)
qed

section \<open>Flames on the screen\<close>

lemma spread_loop_amount:
  assumes "core_wf n a" and "inner n (dir_tile d x y (i - 1))" and "spread_loop d x y spread i e a = Some (e', a')"
    and "length (xi_spread_amt e) = 4" and "xi_spread_amt e ! dir_index d = i - 1"
  shows "\<exists>k. i - 1 \<le> k \<and> xi_spread_amt e' = (xi_spread_amt e)[dir_index d := k] \<and> xi_center e' = xi_center e
     \<and> ray d x y i spread a = dir_tile d x y ` {i..k}"
  using assms
proof (induction d x y spread i e a rule: spread_loop.induct)
  case (1 d x y spread i e a)
  let ?p = "dir_tile d x y i"
  let ?e = "e\<lparr>xi_spread_amt := (xi_spread_amt e)[dir_index d := i]\<rparr>"
  have n: "ar_size a = n" "square n (ar_map a)" "map_wf n (ar_map a)" using 1(2) by (auto simp: core_wf_def)
  obtain t where t: "tile_at a ?p = Some t"
    using grid_get_square [OF n(2), of "fst ?p" "snd ?p"] dir_tile_next(1) [OF 1(3)] by (auto simp: tile_at_def)
  have ends: "t = WALL" if "dir_ends d n ?p"
    using free_tile_inner [OF n(3), of "fst ?p" "snd ?p" t] dir_tile_next(2) [OF 1(3) that] t by (auto simp: tile_at_def)
  show ?case
  proof (cases "i \<le> spread \<and> t \<noteq> WALL")
    case False
    then have "e' = e" using 1(4) t ends n(1) by (subst (asm) spread_loop.simps) (auto simp: Let_def tile_at_def split: if_splits)
    moreover have "(xi_spread_amt e)[dir_index d := i - 1] = xi_spread_amt e" using 1(6) by (metis list_update_id)
    moreover have "ray d x y i spread a = {}" using False t ray_stop [of i spread a d x y] by auto
    ultimately show ?thesis by (intro exI [of _ "i - 1"]) simp
  next
    case True
    have fr: "free_at a (fst ?p, snd ?p)" using True t by (simp add: free_at_def)
    have ne: "\<not> dir_ends d n ?p" using ends True by blast
    obtain e1 a1 where h: "handle_spread (fst ?p) (snd ?p) ?e a = Some (e1, a1)" "spread_loop d x y spread (i + 1) e1 a1 = Some (e', a')"
      using 1(4) t True n(1) ne by (subst (asm) spread_loop.simps) (auto simp: Let_def tile_at_def split: option.splits)
    have room: "int (length (xi_positions ?e)) < xi_capacity ?e"
      using h(1) by (auto simp: handle_spread_def elim!: bind_SomeE split: if_splits)
    obtain a2 where a2: "handle_spread (fst ?p) (snd ?p) ?e a = Some (?e\<lparr>xi_positions := xi_positions ?e @ [(f_of_int (fst ?p), f_of_int (snd ?p))]\<rparr>, a2)"
        "core_wf n a2" "evolves a a2" "\<And>q. tile_at a2 q = (if q = (fst ?p, snd ?p) then Some EXPLOSION else tile_at a q)"
      using handle_spread_safe [OF 1(2) fr room] by blast
    have a1: "a1 = a2" "xi_spread_amt e1 = (xi_spread_amt e)[dir_index d := i]" "xi_center e1 = xi_center e" using a2(1) h(1) by auto
    have d4: "dir_index d < 4" by (cases d) simp_all
    have inn: "inner n (dir_tile d x y (i + 1 - 1))" using free_at_inner [OF 1(2) fr] by simp
    have l: "length (xi_spread_amt e1) = 4" "xi_spread_amt e1 ! dir_index d = i + 1 - 1" using a1(2) 1(5) d4 by simp_all
    have "\<exists>k. i + 1 - 1 \<le> k \<and> xi_spread_amt e' = (xi_spread_amt e1)[dir_index d := k] \<and> xi_center e' = xi_center e1
        \<and> ray d x y (i + 1) spread a1 = dir_tile d x y ` {i + 1..k}"
      by (rule 1(1) [OF _ refl _ _ _ h(1) refl a2(2) [folded a1(1)] inn h(2) l]) (use True n(1) ne t in \<open>auto simp: tile_at_def\<close>)
    then obtain k where k: "i \<le> k" "xi_spread_amt e' = (xi_spread_amt e1)[dir_index d := k]" "xi_center e' = xi_center e1"
        "ray d x y (i + 1) spread a1 = dir_tile d x y ` {i + 1..k}" by auto
    have "ray d x y (i + 1) spread a1 = ray d x y (i + 1) spread a"
      using t True by (intro ray_walls) (auto simp: a1(1) a2(4))
    then have "ray d x y i spread a = insert ?p (dir_tile d x y ` {i + 1..k})" using ray_step [of i spread a d x y] True t k(4) by simp
    moreover have "{i..k} = insert i {i + 1..k}" using k(1) by auto
    ultimately show ?thesis using k(1-3) a1(2,3) by (intro exI [of _ k]) simp
  qed
qed

lemma f_of_int_id: "\<bar>k\<bar> < 2 ^ 24 \<Longrightarrow> f_of_int k = of_int k"
  by (simp add: f_of_int_def f32_round_int)

lemma f_to_int_of_int [simp]: "f_to_int (of_int k) = k"
  by (simp add: f_to_int_def)

lemma f_add_int: "\<bar>j + k\<bar> < 2 ^ 24 \<Longrightarrow> f_add (of_int j) (of_int k) = of_int (j + k)"
  unfolding f_add_def of_int_add [symmetric] by (rule f32_round_int)

lemma f_mul_int: "\<bar>j * k\<bar> < 2 ^ 24 \<Longrightarrow> f_mul (of_int j) (of_int k) = of_int (j * k)"
  unfolding f_mul_def of_int_mult [symmetric] by (rule f32_round_int)

lemma spread_position:
  assumes "raymath_law rm" and "\<bar>x\<bar> \<le> 2 ^ 23" and "\<bar>y\<bar> \<le> 2 ^ 23" and "0 \<le> k" and "k < 2 ^ 23"
  shows "tile_pos (rm_add rm (of_int x, of_int y) (rm_scale rm (spread_vec (dir_index d)) (f_of_int k))) = dir_tile d x y k"
proof -
  have k: "f_of_int k = of_int k" "f_mul 0 (of_int k) = of_int 0" "f_mul 1 (of_int k) = of_int k" "f_mul (-1) (of_int k) = of_int (- k)"
    using f_of_int_id [of k] f_mul_int [of 0 k] f_mul_int [of 1 k] f_mul_int [of "-1" k] assms(4,5) by simp_all
  have a: "f_add (of_int x) (of_int 0) = of_int x" "f_add (of_int y) (of_int 0) = of_int y"
    "f_add (of_int x) (of_int k) = of_int (x + k)" "f_add (of_int x) (of_int (- k)) = of_int (x - k)"
    "f_add (of_int y) (of_int k) = of_int (y + k)" "f_add (of_int y) (of_int (- k)) = of_int (y - k)"
    using f_add_int [of x 0] f_add_int [of y 0] f_add_int [of x k] f_add_int [of x "- k"] f_add_int [of y k] f_add_int [of y "- k"] assms(2-5)
    by simp_all
  have i: "f_to_int (of_int j + of_int k) = j + k" "f_to_int (of_int j - of_int k) = j - k" for j k :: int
    using f_to_int_of_int [of "j + k"] f_to_int_of_int [of "j - k"] by simp_all
  show ?thesis using assms(1) by (cases d) (simp_all add: raymath_law_def spread_vec_def tile_pos_def k a [simplified] i)
qed

lemma map_upto_shift: "map (\<lambda>i. f (i + 1)) [0..m - 1] = map f [1..m]"
  by (rule nth_equalityI) (auto simp: nth_upto algebra_simps)

lemma explosion_tiles:
  assumes "raymath_law rm" and "\<bar>x\<bar> \<le> 2 ^ 23" and "\<bar>y\<bar> \<le> 2 ^ 23" and "\<And>d. amt ! dir_index d < 2 ^ 23"
  shows "map (\<lambda>(tex, pos, rot). tile_pos pos) (explosion_sprites rm (of_int x, of_int y) amt) =
     (x, y) # concat (map (\<lambda>d. map (dir_tile d x y) [1..amt ! dir_index d]) [Dir_up, Dir_down, Dir_left, Dir_right])"
proof -
  have one: "map (\<lambda>spread. tile_pos (rm_add rm (of_int x, of_int y) (rm_scale rm (spread_vec (dir_index d)) (f_of_int (spread + 1)))))
        [0..amt ! dir_index d - 1] = map (dir_tile d x y) [1..amt ! dir_index d]" for d
    unfolding map_upto_shift [of "\<lambda>k. tile_pos (rm_add rm (of_int x, of_int y) (rm_scale rm (spread_vec (dir_index d)) (f_of_int k)))"]
    using assms(4) [of d] by (intro map_cong refl spread_position [OF assms(1-3)]) auto
  have dirs: "[0..<4] = map dir_index [Dir_up, Dir_down, Dir_left, Dir_right]" by (simp add: upt_rec)
  have c: "tile_pos (of_int x, of_int y) = (x, y)" by (simp add: tile_pos_def)
  show ?thesis unfolding explosion_sprites_def dirs
    by (simp add: c map_concat comp_def one [symmetric] del: dir_index.simps)
qed

lemma dir_tile_inj: "dir_tile d x y j = dir_tile d' x y k \<Longrightarrow> 1 \<le> j \<Longrightarrow> 1 \<le> k \<Longrightarrow> d = d' \<and> j = k"
  by (cases d; cases d') auto

lemma dir_tile_center: "(x, y) = dir_tile d x y j \<Longrightarrow> 1 \<le> j \<Longrightarrow> False"
  by (cases d) auto

lemma explosion_drawn:
  assumes "arena_wf n a" and "n \<le> 30" and "bomb_ok a b" and "bi_position b = (of_int x, of_int y)" and "bi_spread b < 2 ^ 23" and "raymath_law rm"
  shows "\<exists>a' e. trigger_explosion b a = Some a' \<and> ar_explodes a' = snd (queue_enqueue (ar_explodes a) e)
     \<and> xi_center e = (of_int x, of_int y) \<and> \<bar>x\<bar> < 2 ^ 24 \<and> \<bar>y\<bar> < 2 ^ 24
     \<and> length (xi_spread_amt e) = 4 \<and> (\<forall>k \<in> set (xi_spread_amt e). 0 \<le> k \<and> k < 2 ^ 23)
     \<and> distinct (map (\<lambda>(tex, pos, rot). tile_pos pos) (explosion_sprites rm (xi_center e) (xi_spread_amt e)))
     \<and> set (map (\<lambda>(tex, pos, rot). tile_pos pos) (explosion_sprites rm (xi_center e) (xi_spread_amt e))) = insert (x, y) (flames a b)"
proof -
  let ?s = "bi_spread b" and ?a0 = "a\<lparr>ar_events := ar_events a @ [(x, y)]\<rparr>"
  let ?r = "\<lambda>d. ray d x y 1 ?s a"
  have xy: "tile_pos (bi_position b) = (x, y)" by (simp add: assms(4) tile_pos_def)
  show ?thesis
  proof (rule trigger_stages [OF assms(1,3) xy])
    fix e1 a1 e2 a2 e3 a3 e4 a4
    assume l: "spread_loop Dir_up x y ?s 1 \<lparr>xi_center = bi_position b, xi_spread_amt = [0, 0, 0, 0], xi_capacity = 4 * ?s,
         xi_positions = [], xi_timer = EXPLODE_LIFETIME\<rparr> ?a0 = Some (e1, a1)"
        "spread_loop Dir_down x y ?s 1 e1 a1 = Some (e2, a2)" "spread_loop Dir_left x y ?s 1 e2 a2 = Some (e3, a3)"
        "spread_loop Dir_right x y ?s 1 e3 a3 = Some (e4, a4)"
      and t: "trigger_explosion b a = Some (a4\<lparr>ar_explodes := snd (queue_enqueue (ar_explodes a4) e4)\<rparr>)"
      and cw: "core_wf n ?a0" "core_wf n a1" "core_wf n a2" "core_wf n a3" and inn: "\<And>d. inner n (dir_tile d x y (1 - 1))"
      and w: "\<And>d. ray d x y 1 ?s ?a0 = ?r d" "\<And>d. ray d x y 1 ?s a1 = ?r d" "\<And>d. ray d x y 1 ?s a2 = ?r d" "\<And>d. ray d x y 1 ?s a3 = ?r d"
    obtain k1 where k1: "xi_spread_amt e1 = [k1, 0, 0, 0]" "xi_center e1 = bi_position b" "?r Dir_up = dir_tile Dir_up x y ` {1..k1}" "0 \<le> k1"
      using spread_loop_amount [OF cw(1) inn l(1)] unfolding w by auto
    obtain k2 where k2: "xi_spread_amt e2 = [k1, k2, 0, 0]" "xi_center e2 = bi_position b" "?r Dir_down = dir_tile Dir_down x y ` {1..k2}" "0 \<le> k2"
      using spread_loop_amount [OF cw(2) inn l(2)] k1(1,2) unfolding w by auto
    obtain k3 where k3: "xi_spread_amt e3 = [k1, k2, k3, 0]" "xi_center e3 = bi_position b" "?r Dir_left = dir_tile Dir_left x y ` {1..k3}" "0 \<le> k3"
      using spread_loop_amount [OF cw(3) inn l(3)] k2(1,2) unfolding w by (auto simp: numeral_2_eq_2)
    obtain k4 where k4: "xi_spread_amt e4 = [k1, k2, k3, k4]" "xi_center e4 = bi_position b" "?r Dir_right = dir_tile Dir_right x y ` {1..k4}" "0 \<le> k4"
      using spread_loop_amount [OF cw(4) inn l(4)] k3(1,2) unfolding w by (auto simp: numeral_3_eq_3)
    have amt: "?r d = dir_tile d x y ` {1..xi_spread_amt e4 ! dir_index d}" for d
      using k1(3) k2(3) k3(3) k4(1,3) by (cases d) (simp_all add: numeral_2_eq_2 numeral_3_eq_3)
    have small: "xi_spread_amt e4 ! dir_index d < 2 ^ 23" for d
    proof (rule ccontr)
      assume n: "\<not> ?thesis"
      then have "dir_tile d x y (xi_spread_amt e4 ! dir_index d) \<in> ?r d" unfolding amt by (intro imageI) simp
      then have "xi_spread_amt e4 ! dir_index d \<le> ?s" using dir_tile_inj n unfolding ray_def by fastforce
      then show False using n assms(5) by simp
    qed
    have c: "\<bar>x\<bar> \<le> 2 ^ 23" "\<bar>y\<bar> \<le> 2 ^ 23" using inn [of Dir_up] assms(2) by (simp_all add: inner_def)
    have ex: "ar_explodes a4 = ar_explodes a" using l spread_loop_fields by fastforce
    note ts = explosion_tiles [OF assms(6) c small, folded assms(4), folded k4(2)]
    have "distinct (map (\<lambda>(tex, pos, rot). tile_pos pos) (explosion_sprites rm (xi_center e4) (xi_spread_amt e4)))" unfolding ts
      by (auto simp: distinct_map inj_on_def dest: dir_tile_inj dir_tile_center simp del: dir_tile.simps dir_index.simps)
    moreover have "set (map (\<lambda>(tex, pos, rot). tile_pos pos) (explosion_sprites rm (xi_center e4) (xi_spread_amt e4))) = insert (x, y) (flames a b)"
      unfolding ts flames_def direction_UNIV xy by (simp add: amt Un_assoc del: dir_index.simps)
    moreover have "\<forall>k \<in> set (xi_spread_amt e4). 0 \<le> k \<and> k < 2 ^ 23"
      using k1(4) k2(4) k3(4) k4(4) small [of Dir_up] small [of Dir_down] small [of Dir_left] small [of Dir_right]
      by (simp add: k4(1) numeral_2_eq_2 numeral_3_eq_3)
    moreover have "xi_center e4 = (of_int x, of_int y)" "\<bar>x\<bar> < 2 ^ 24" "\<bar>y\<bar> < 2 ^ 24" "length (xi_spread_amt e4) = 4"
      using k4(1,2) c by (simp_all add: assms(4))
    moreover have "ar_explodes (a4\<lparr>ar_explodes := snd (queue_enqueue (ar_explodes a4) e4)\<rparr>) = snd (queue_enqueue (ar_explodes a) e4)" by (simp add: ex)
    ultimately show ?thesis using t by blast
  qed
qed

lemma pack_explosion_tag: "read_bomb_packet_tag (pack_explosion zero_buffer p) = packet_tag PACKET_EXPLOSION"
  by (simp add: pack_explosion_def packet_frame del: upt_rec_numeral)

lemma explosion_delivered:
  assumes "xi_center e = (of_int x, of_int y)" and "\<bar>x\<bar> < 2 ^ 24" and "\<bar>y\<bar> < 2 ^ 24" and "length (xi_spread_amt e) = 4"
    and "\<forall>k \<in> set (xi_spread_amt e). 0 \<le> k \<and> k < 2 ^ 23"
  obtains m f c' where "on_explosion_triggered e = Broadcast m" "network_message rm junk m c = Some c'"
    "ba_explodes c' = snd (queue_enqueue (ba_explodes c) f)" "drawn_explosion f = Some (xi_center e, xi_spread_amt e)"
proof -
  define p where "p = \<lparr>ex_center_x = f32_bits (fst (xi_center e)), ex_center_y = f32_bits (snd (xi_center e)),
        ex_spread_amt = map (\<lambda>i. word_of_int (xi_spread_amt e ! i)) [0..<4]\<rparr>"
  define f where "f = \<lparr>ae_center = (ex_center_x p, ex_center_y p), ae_spread_amt = map (\<lambda>i. sint (ex_spread_amt p ! i)) [0..<4], ae_timer = EXPLODE_LIFETIME\<rparr>"
  have u: "unpack_explosion (pack_explosion zero_buffer p) = p" by (rule explosion.dec_enc) (simp add: p_def)
  have "ae_spread_amt f = xi_spread_amt e"
  proof (rule nth_equalityI)
    fix i assume "i < length (ae_spread_amt f)"
    then have i: "i < 4" by (simp add: f_def)
    then have "xi_spread_amt e ! i \<in> set (xi_spread_amt e)" using assms(4) by simp
    then have "int_range (xi_spread_amt e ! i)" using assms(5) by (fastforce simp: int_range_def)
    then show "ae_spread_amt f ! i = xi_spread_amt e ! i" using i by (simp add: f_def p_def sint_word_of_int_range del: upt_rec_numeral)
  qed (simp add: f_def assms(4))
  moreover have "app_vec (ae_center f) = Some (xi_center e)"
    using f32_of_bits_bits [OF is_f32_int [OF assms(2)]] f32_of_bits_bits [OF is_f32_int [OF assms(3)]] by (simp add: app_vec_def f_def p_def assms(1))
  ultimately have "drawn_explosion f = Some (xi_center e, xi_spread_amt e)" by (simp add: drawn_explosion_def)
  moreover have "network_message rm junk (pack_explosion zero_buffer p) c = Some (apply_explosion p c)"
    using u by (simp add: network_message_def pack_explosion_tag)
  moreover have "ba_explodes (apply_explosion p c) = snd (queue_enqueue (ba_explodes c) f)"
    by (simp add: apply_explosion_def event_bus_trigger_app_def f_def)
  ultimately show thesis using that [of "pack_explosion zero_buffer p"] by (simp add: on_explosion_triggered_def p_def)
qed

section \<open>Properties\<close>

text \<open>
  C17 (flames_on_screen): the flames that a player sees are the flames that burn. The packet of an explosion makes a client queue an animation that is drawn as one sprite
  on the tile of the bomb and one on every tile that the simulation set on fire, no tile twice and none besides.
\<close>

theorem flames_on_screen:
  assumes "arena_wf n a" and "n \<le> 30" and "bomb_ok a b" and "bi_position b = (of_int x, of_int y)" and "bi_spread b < 2 ^ 23" and "raymath_law rm"
  shows "\<exists>a' e m. trigger_explosion b a = Some a' \<and> ar_explodes a' = snd (queue_enqueue (ar_explodes a) e) \<and> on_explosion_triggered e = Broadcast m
     \<and> (\<exists>f c' center amt. network_message rm junk m c = Some c' \<and> ba_explodes c' = snd (queue_enqueue (ba_explodes c) f)
          \<and> drawn_explosion f = Some (center, amt) \<and> distinct (map (\<lambda>(tex, pos, rot). tile_pos pos) (explosion_sprites rm center amt))
          \<and> set (map (\<lambda>(tex, pos, rot). tile_pos pos) (explosion_sprites rm center amt)) = insert (x, y) (flames a b))"
proof -
  obtain a' e where e: "trigger_explosion b a = Some a'" "ar_explodes a' = snd (queue_enqueue (ar_explodes a) e)"
      "xi_center e = (of_int x, of_int y)" "\<bar>x\<bar> < 2 ^ 24" "\<bar>y\<bar> < 2 ^ 24" "length (xi_spread_amt e) = 4"
      "\<forall>k \<in> set (xi_spread_amt e). 0 \<le> k \<and> k < 2 ^ 23"
      "distinct (map (\<lambda>(tex, pos, rot). tile_pos pos) (explosion_sprites rm (xi_center e) (xi_spread_amt e)))"
      "set (map (\<lambda>(tex, pos, rot). tile_pos pos) (explosion_sprites rm (xi_center e) (xi_spread_amt e))) = insert (x, y) (flames a b)"
    using explosion_drawn [OF assms] by blast
  obtain m f c' where "on_explosion_triggered e = Broadcast m" "network_message rm junk m c = Some c'"
      "ba_explodes c' = snd (queue_enqueue (ba_explodes c) f)" "drawn_explosion f = Some (xi_center e, xi_spread_amt e)"
    using explosion_delivered [OF e(3-7)] .
  then show ?thesis using e(1,2,8,9) by blast
qed

theorem flames_on_screen_witness:
  "\<exists>a' e m f c' center amt. trigger_explosion (demo_bomb 1 1 0) (demo_arena []) = Some a' \<and> on_explosion_triggered e = Broadcast m
     \<and> network_message demo_raymath (sample_state 1) m demo_app = Some c' \<and> drawn_explosion f = Some (center, amt)
     \<and> (1, 1) \<in> set (map (\<lambda>(tex, pos, rot). tile_pos pos) (explosion_sprites demo_raymath center amt))"
proof -
  have w: "arena_wf 5 (demo_arena [])" by (rule demo_arena_wf) simp
  have b: "bomb_ok (demo_arena []) (demo_bomb 1 1 0)"
    by (simp add: bomb_ok_def demo_bomb_pos free_at_def tile_at_def demo_arena_def powerup_init_def grid_get_def in_grid_def)
  have p: "bi_position (demo_bomb 1 1 0) = (of_int 1, of_int 1)" "bi_spread (demo_bomb 1 1 0) < 2 ^ 23" by (simp_all add: demo_bomb_def)
  have n: "(5 :: int) \<le> 30" by simp
  obtain a' e m f c' center amt where r: "trigger_explosion (demo_bomb 1 1 0) (demo_arena []) = Some a'" "on_explosion_triggered e = Broadcast m"
      "network_message demo_raymath (sample_state 1) m demo_app = Some c'" "drawn_explosion f = Some (center, amt)"
      "set (map (\<lambda>(tex, pos, rot). tile_pos pos) (explosion_sprites demo_raymath center amt)) = insert (1, 1) (flames (demo_arena []) (demo_bomb 1 1 0))"
    using flames_on_screen [OF w n b p demo_raymath_law, of "sample_state 1" demo_app] by blast
  have "(1, 1) \<in> set (map (\<lambda>(tex, pos, rot). tile_pos pos) (explosion_sprites demo_raymath center amt))" unfolding r(5) by (rule insertI1)
  with r(1-4) show ?thesis by blast
qed

text \<open>
  C19 (map_on_screen): a client that has received what the bomb server sent over its connection draws the server's map within its first twenty rows and columns: every
  tile there with the sprites of its kind, a pickup on the grass. Beyond the twentieth row and column it draws grass, whatever the server's map has there. When the server has announced the winner, the screen names it.
\<close>

theorem map_on_screen:
  assumes "raymath_law rm" and "0 < unat lobby_size"
  shows "\<exists>d0 out0. bombd_setup rm lobby_size client_ids a0 = Some (d0, out0)
     \<and> (\<forall>ts. \<exists>d out w. bombd_run rm ts d0 = Some (d, out, w) \<and> reliable (tcp_part (out0 @ out)) = tcp_part (out0 @ out)
          \<and> (\<forall>rcv c. reliable rcv = tcp_part (out0 @ out) \<longrightarrow>
               (\<exists>c'. network_poll rm junk rcv c = Some c' \<and> tiles_draw tex_size c' = Some (map_picture tex_size (ar_map (bd_arena d)))
                 \<and> (\<forall>x. w = Some x \<longrightarrow> status_text c' = Some (verdict x (ba_local_id c'))))))"
proof -
  let ?n = "calc_map_size (int (min (unat lobby_size) 25)) + 2"
  obtain d0 out0 where s: "bombd_setup rm lobby_size client_ids a0 = Some (d0, out0)"
    and r: "\<And>ts. \<exists>d out w. bombd_run rm ts d0 = Some (d, out, w) \<and> map_wf ?n (ar_map (bd_arena d))
          \<and> reliable (tcp_part (out0 @ out)) = tcp_part (out0 @ out)
          \<and> (\<forall>rcv c. reliable rcv = tcp_part (out0 @ out) \<longrightarrow> (\<exists>c'. network_poll rm junk rcv c = Some c' \<and> mirrors (ar_map (bd_arena d)) c'
               \<and> (case w of None \<Rightarrow> ba_game_over c' = ba_game_over c | Some x \<Rightarrow> ba_game_over c' \<and> ba_winner_id c' = x)))"
    using client_follows [OF assms, of client_ids a0 junk] by meson
  have m: "tiles_draw tex_size c' = Some (map_picture tex_size g)" if "map_wf ?n g" "mirrors g c'" for g c'
    using mirrored_map_drawn [OF that(2)] map_wf_square [OF that(1)] by (simp add: square_def)
  have v: "\<forall>x. w = Some x \<longrightarrow> status_text c' = Some (verdict x (ba_local_id c'))"
    if "case w of None \<Rightarrow> ba_game_over c' = ba_game_over c | Some x \<Rightarrow> ba_game_over c' \<and> ba_winner_id c' = x" for w c c'
    using that by (auto simp: status_text_def verdict_def Let_def)
  have "\<exists>d out w. bombd_run rm ts d0 = Some (d, out, w) \<and> reliable (tcp_part (out0 @ out)) = tcp_part (out0 @ out)
          \<and> (\<forall>rcv c. reliable rcv = tcp_part (out0 @ out) \<longrightarrow>
               (\<exists>c'. network_poll rm junk rcv c = Some c' \<and> tiles_draw tex_size c' = Some (map_picture tex_size (ar_map (bd_arena d)))
                 \<and> (\<forall>x. w = Some x \<longrightarrow> status_text c' = Some (verdict x (ba_local_id c')))))" for ts
  proof -
    obtain d out w where d: "bombd_run rm ts d0 = Some (d, out, w)" "map_wf ?n (ar_map (bd_arena d))" "reliable (tcp_part (out0 @ out)) = tcp_part (out0 @ out)"
      "\<And>rcv c. reliable rcv = tcp_part (out0 @ out) \<Longrightarrow> \<exists>c'. network_poll rm junk rcv c = Some c' \<and> mirrors (ar_map (bd_arena d)) c'
               \<and> (case w of None \<Rightarrow> ba_game_over c' = ba_game_over c | Some x \<Rightarrow> ba_game_over c' \<and> ba_winner_id c' = x)"
      using r [of ts] by blast
    have "\<exists>c'. network_poll rm junk rcv c = Some c' \<and> tiles_draw tex_size c' = Some (map_picture tex_size (ar_map (bd_arena d)))
                 \<and> (\<forall>x. w = Some x \<longrightarrow> status_text c' = Some (verdict x (ba_local_id c')))" if rcv: "reliable rcv = tcp_part (out0 @ out)" for rcv c
    proof -
      obtain c' where c': "network_poll rm junk rcv c = Some c'" "mirrors (ar_map (bd_arena d)) c'"
          "case w of None \<Rightarrow> ba_game_over c' = ba_game_over c | Some x \<Rightarrow> ba_game_over c' \<and> ba_winner_id c' = x"
        using d(4) [OF rcv] by blast
      show ?thesis using c'(1) m [OF d(2) c'(2)] v [OF c'(3)] by blast
    qed
    then show ?thesis using d(1,3) by blast
  qed
  then show ?thesis using s by blast
qed

theorem map_on_screen_witness:
  "\<exists>d0 out0 d out w c'. bombd_setup demo_raymath 2 [7, 9] (demo_arena []) = Some (d0, out0)
     \<and> bombd_run demo_raymath [([], []), ([], [9])] d0 = Some (d, out, w)
     \<and> network_poll demo_raymath (sample_state 1) (tcp_part (out0 @ out)) (fresh_app 7) = Some c'
     \<and> tiles_draw (\<lambda>_. (16, 16)) c' = Some (map_picture (\<lambda>_. (16, 16)) (ar_map (bd_arena d)))"
proof -
  have two: "0 < unat (2 :: u32)" by simp
  from map_on_screen [OF demo_raymath_law two, of "[7, 9]" "demo_arena []" "sample_state 1" "\<lambda>_. (16, 16)"] show ?thesis by meson
qed

text \<open>The calls on a sprite sheet.\<close>

datatype sheet_call = Sheet_update f32 | Sheet_restart

fun sheet_step :: "(rat \<Rightarrow> rat \<Rightarrow> rat) \<Rightarrow> sheet_call \<Rightarrow> Spritesheet \<Rightarrow> Spritesheet" where
  "sheet_step dadd (Sheet_update t) s = spritesheet_update dadd t s"
| "sheet_step dadd Sheet_restart s = spritesheet_restart s"

definition sheet_wf :: "SpritesheetAsset \<Rightarrow> int \<times> int \<Rightarrow> Spritesheet \<Rightarrow> bool" where
  "sheet_wf asset extent s \<longleftrightarrow> ss_columns s = as_cols asset \<and> ss_last_frame s = as_cols asset * as_rows asset
     \<and> ss_tile_width s = fst extent div as_cols asset \<and> ss_tile_height s = snd extent div as_rows asset
     \<and> 0 \<le> ss_curr_frame s \<and> ss_curr_frame s < as_cols asset * as_rows asset"

lemma sheet_step_wf:
  assumes "sheet_wf asset extent s"
  shows "sheet_wf asset extent (sheet_step dadd call s)"
  using assms by (cases call) (auto simp: sheet_wf_def spritesheet_update_def spritesheet_restart_def Let_def)

lemma sheet_run_wf: "sheet_wf asset extent s \<Longrightarrow> sheet_wf asset extent (fold (sheet_step dadd) calls s)"
  by (induction calls arbitrary: s) (simp_all add: sheet_step_wf)

lemma cell_inside:
  fixes k :: int
  assumes "0 \<le> k" and "k < n" and "0 \<le> extent"
  shows "0 \<le> k * (extent div n) \<and> k * (extent div n) + extent div n \<le> extent"
proof -
  have "k * (extent div n) + extent div n = (k + 1) * (extent div n)" by (simp add: distrib_right)
  also have "\<dots> \<le> n * (extent div n)" using assms by (intro mult_right_mono) (simp_all add: pos_imp_zdiv_nonneg_iff)
  also have "\<dots> \<le> extent" using assms by (simp add: mult.commute [of n] div_mult_mod_eq [of extent n] minus_mod_eq_div_mult [symmetric])
  finally show ?thesis using assms by (simp add: pos_imp_zdiv_nonneg_iff)
qed

text \<open>
  Lemma (frame_in_texture): whatever the frame times and however often an animation is restarted, the frame that a sprite sheet shows is one of the cells of its texture:
  the part that is cut out lies within the picture.
\<close>

theorem frame_in_texture:
  assumes "0 < as_cols asset" and "0 < as_rows asset" and "0 \<le> fst (tex_size tex)" and "0 \<le> snd (tex_size tex)"
  shows "case frame_source (fold (sheet_step dadd) calls (spritesheet_init tex_size tex asset)) of (x, y, w, h) \<Rightarrow>
     0 \<le> x \<and> x + w \<le> fst (tex_size tex) \<and> 0 \<le> y \<and> y + h \<le> snd (tex_size tex)"
proof -
  let ?s = "fold (sheet_step dadd) calls (spritesheet_init tex_size tex asset)" and ?c = "as_cols asset"
  have "sheet_wf asset (tex_size tex) (spritesheet_init tex_size tex asset)"
    using assms(1,2) by (simp add: sheet_wf_def spritesheet_init_def)
  then have w: "sheet_wf asset (tex_size tex) ?s" by (rule sheet_run_wf)
  define k where "k = ss_curr_frame ?s"
  have k: "0 \<le> k" "k < ?c * as_rows asset" using w by (simp_all add: sheet_wf_def k_def)
  have "0 \<le> k mod ?c" "k mod ?c < ?c" "0 \<le> k div ?c" using assms(1) k(1) by (simp_all add: pos_imp_zdiv_nonneg_iff)
  moreover have "k div ?c < as_rows asset"
  proof (rule ccontr)
    assume "\<not> ?thesis"
    then have "?c * as_rows asset \<le> ?c * (k div ?c)" using assms(1) by (intro mult_left_mono) simp_all
    also have "\<dots> \<le> k" using assms(1) k(1) by (metis minus_mod_eq_mult_div pos_mod_sign diff_le_eq le_add_same_cancel1)
    finally show False using k(2) by simp
  qed
  ultimately show ?thesis using w cell_inside [of "k mod ?c" ?c "fst (tex_size tex)"] cell_inside [of "k div ?c" "as_rows asset" "snd (tex_size tex)"] assms
    by (simp add: frame_source_def Let_def sheet_wf_def k_def)
qed

theorem frame_in_texture_witness:
  "case frame_source (fold (sheet_step (+)) [Sheet_update 1, Sheet_update 1, Sheet_restart, Sheet_update 1]
       (spritesheet_init (\<lambda>_. (96, 32)) (Sheet 0) \<lparr>as_cols = 3, as_rows = 1, as_scale = 2, as_fps = 10, as_should_loop = True\<rparr>)) of (x, y, w, h) \<Rightarrow>
     0 \<le> x \<and> x + w \<le> 96 \<and> 0 \<le> y \<and> y + h \<le> 32"
  using frame_in_texture [of "\<lparr>as_cols = 3, as_rows = 1, as_scale = 2, as_fps = 10, as_should_loop = True\<rparr>" "\<lambda>_. (96, 32)" "Sheet 0" "(+)"
    "[Sheet_update 1, Sheet_update 1, Sheet_restart, Sheet_update 1]"] by (simp only: SpritesheetAsset.simps fst_conv snd_conv zero_less_numeral zero_le_numeral zero_less_one)

end
