(* ===== verification/Bomb_View.thy ===== *)
theory Bomb_View
  imports Bomb_Screen
begin

text \<open>
  Where the bomb client looks and how it gets into a match: the camera of \<open>bombapp/camera.c\<close>, the free flight of a dead player and the connection of \<open>bombapp/network.c\<close>.

  The projection \<open>GetWorldToScreen2D\<close> belongs to raylib and is an argument; \<open>projection_law\<close> is what its documentation says of a camera
  without rotation and zoom, for points within 10000 pixels and up to an error of \<open>E\<close> pixels. \<open>Vector2One\<close> is the vector of two ones.
\<close>

section \<open>The camera\<close>

record Camera2D =
  cam_target :: Vector2
  cam_offset :: Vector2
  cam_rotation :: f32
  cam_zoom :: f32

record view =
  vw_camera :: Camera2D
  vw_screen :: Vector2
  vw_min :: Vector2
  vw_max :: Vector2

definition camera_init :: "raymath \<Rightarrow> Vector2 \<Rightarrow> int \<Rightarrow> Vector2 \<Rightarrow> view" where
  "camera_init rm screen_size map_size target_pos =
     \<lparr>vw_camera = \<lparr>cam_target = rm_scale rm target_pos TILE_SIZE, cam_offset = rm_scale rm screen_size (f_lit (1 / 2)), cam_rotation = 0, cam_zoom = 1\<rparr>,
      vw_screen = screen_size,
      vw_min = rm_scale rm (1, 1) (f_mul (- 1) TILE_SIZE),
      vw_max = rm_scale rm (1, 1) (f_mul (f_of_int (map_size + 1)) TILE_SIZE)\<rparr>"

definition clamp_offset :: "f32 \<Rightarrow> f32 \<Rightarrow> f32 \<Rightarrow> f32 \<Rightarrow> f32" where
  "clamp_offset screen map_min map_max offset =
     (if map_max < screen then f_sub screen (f_sub map_max (f_mul screen (f_lit (1 / 2))))
      else if map_min > 0 then f_sub (f_mul screen (f_lit (1 / 2))) map_min
      else offset)"

definition camera_update :: "raymath \<Rightarrow> (Vector2 \<Rightarrow> Camera2D \<Rightarrow> Vector2) \<Rightarrow> Vector2 \<Rightarrow> view \<Rightarrow> view" where
  "camera_update rm world_to_screen target_pos v =
     (let cam = (vw_camera v)\<lparr>cam_target := rm_scale rm target_pos TILE_SIZE, cam_offset := rm_scale rm (vw_screen v) (f_lit (1 / 2))\<rparr>;
          map_min = world_to_screen (vw_min v) cam;
          map_max = world_to_screen (vw_max v) cam
      in v\<lparr>vw_camera := cam\<lparr>cam_offset :=
             (clamp_offset (fst (vw_screen v)) (fst map_min) (fst map_max) (fst (cam_offset cam)),
              clamp_offset (snd (vw_screen v)) (snd map_min) (snd map_max) (snd (cam_offset cam)))\<rparr>\<rparr>)"

section \<open>The flight of a dead player\<close>

definition key_speed :: "bool \<Rightarrow> bool \<Rightarrow> f32" where
  "key_speed pos neg = f_sub (if pos then 1 else 0) (if neg then 1 else 0)"

definition clamp_coord :: "f32 \<Rightarrow> f32 \<Rightarrow> f32" where
  "clamp_coord max_coord x = (if x < 1 then 1 else if x > max_coord then max_coord else x)"

definition update_spectator_camera :: "raymath \<Rightarrow> f32 \<Rightarrow> app_keys \<Rightarrow> int \<Rightarrow> Vector2 \<Rightarrow> Vector2" where
  "update_spectator_camera rm frame_time k map_size pos =
     (let dx = key_speed (k_right k) (k_left k); dy = key_speed (k_down k) (k_up k);
          pos1 = (if dx \<noteq> 0 \<or> dy \<noteq> 0 then rm_add rm pos (rm_scale rm (rm_normalize rm (dx, dy)) (f_mul 6 frame_time)) else pos);
          max_coord = f_sub (f_of_int map_size) 1
      in (clamp_coord max_coord (fst pos1), clamp_coord max_coord (snd pos1)))"

definition local_alive :: "bombapp \<Rightarrow> bool" where
  "local_alive c = (case network_local_slot c of None \<Rightarrow> False | Some slot \<Rightarrow> ba_player_alive c ! slot)"

text \<open>
  The camera's part of a frame: a client whose player does not live flies, unless the match is over, and the camera looks at the player or at the place that it flew to.
  \<open>None\<close> when the position is not a number.
\<close>

definition spectate :: "raymath \<Rightarrow> f32 \<Rightarrow> app_keys \<Rightarrow> bombapp \<Rightarrow> bombapp option" where
  "spectate rm frame_time k c =
     (if ba_game_over c \<or> local_alive c then Some c
      else map_option (\<lambda>pos. let p = update_spectator_camera rm frame_time k (ba_map_size c) pos
                              in c\<lparr>ba_spectator_cam_pos := (f32_bits (fst p), f32_bits (snd p))\<rparr>) (app_vec (ba_spectator_cam_pos c)))"

definition view_frame :: "raymath \<Rightarrow> (Vector2 \<Rightarrow> Camera2D \<Rightarrow> Vector2) \<Rightarrow> f32 \<Rightarrow> app_keys \<Rightarrow> bombapp \<Rightarrow> view \<Rightarrow> (bombapp \<times> view) option" where
  "view_frame rm w2s frame_time k c v =
     (case spectate rm frame_time k c of
        None \<Rightarrow> None
      | Some c' \<Rightarrow> map_option (\<lambda>target. (c', camera_update rm w2s target v)) (app_vec (network_get_camera_target c')))"

text \<open>The main loop: each frame has its time, the messages that are waiting and the keys.\<close>

type_synonym app_input = "f32 \<times> u8 list list \<times> app_keys"

fun app_run :: "raymath \<Rightarrow> BombStatePayload \<Rightarrow> (Vector2 \<Rightarrow> Camera2D \<Rightarrow> Vector2) \<Rightarrow> app_input list \<Rightarrow> bombapp \<times> view \<Rightarrow> (bombapp \<times> view) option" where
  "app_run rm junk w2s [] cv = Some cv"
| "app_run rm junk w2s ((frame_time, msgs, k) # fs) cv =
     (case update_loop rm junk frame_time msgs k (fst cv) of
        None \<Rightarrow> None
      | Some (c, out) \<Rightarrow> (case view_frame rm w2s frame_time k c (snd cv) of None \<Rightarrow> None | Some cv' \<Rightarrow> app_run rm junk w2s fs cv'))"

section \<open>Joining a match\<close>

abbreviation (input) NETWORK_LOBBY_WAIT_TIMEOUT_MS :: nat where "NETWORK_LOBBY_WAIT_TIMEOUT_MS \<equiv> 300000"

text \<open>The wait for the game: \<open>states\<close> is what \<open>brclient_get_state\<close> returns at the call with that number.\<close>

function lobby_wait :: "(nat \<Rightarrow> int) \<Rightarrow> nat \<Rightarrow> nat \<Rightarrow> bool" where
  "lobby_wait states k waited_ms =
     (if states k = 2 then True
      else if waited_ms + 100 \<ge> NETWORK_LOBBY_WAIT_TIMEOUT_MS then False
      else lobby_wait states (Suc k) (waited_ms + 100))"
  by pat_completeness auto
termination by (relation "measure (\<lambda>(s, k, w). NETWORK_LOBBY_WAIT_TIMEOUT_MS - w)") auto

declare lobby_wait.simps [simp del]

definition network_connect :: "int \<Rightarrow> int \<Rightarrow> (nat \<Rightarrow> int) \<Rightarrow> int \<times> u32 \<Rightarrow> bombapp \<Rightarrow> bool \<times> bombapp" where
  "network_connect init_r join_r states get_id c =
     (if init_r < 0 then (False, c)
      else if join_r < 0 then (False, c)
      else if \<not> lobby_wait states 0 0 then (False, c)
      else if fst get_id < 0 then (False, c)
      else (True, c\<lparr>ba_local_id := snd get_id\<rparr>))"

section \<open>What the camera shows\<close>

definition on_grid :: "Vector2 \<Rightarrow> bool" where
  "on_grid p \<longleftrightarrow> \<bar>fst p\<bar> \<le> 10000 \<and> \<bar>snd p\<bar> \<le> 10000"

definition projection_law :: "(Vector2 \<Rightarrow> Camera2D \<Rightarrow> Vector2) \<Rightarrow> rat \<Rightarrow> bool" where
  "projection_law w2s E \<longleftrightarrow>
     (\<forall>p cam. cam_rotation cam = 0 \<and> cam_zoom cam = 1 \<and> on_grid p \<and> on_grid (cam_target cam) \<and> on_grid (cam_offset cam) \<longrightarrow>
        \<bar>fst (w2s p cam) - (fst p - fst (cam_target cam) + fst (cam_offset cam))\<bar> \<le> E
        \<and> \<bar>snd (w2s p cam) - (snd p - snd (cam_target cam) + snd (cam_offset cam))\<bar> \<le> E)"

lemma f_ops_near:
  assumes "\<bar>x\<bar> \<le> 65536"
  shows "\<bar>f32_round x - x\<bar> \<le> 1 / 256"
  using f32_round_error [of x 16] assms by simp

lemma f_half: "f_lit (1 / 2) = 1 / 2"
  unfolding f_lit_def by (rule f32_round_grid [of _ 1 "- 1"]) (simp_all add: power_int_def)

lemma half_screen:
  assumes "0 \<le> W" and "W \<le> 8192"
  shows "f_mul (of_int W) (1 / 2) = of_int W / 2"
proof -
  have "f32_round (of_int W * (1 / 2)) = of_int W * (1 / 2)" by (rule f32_round_grid [of _ W "- 1"]) (use assms in \<open>simp_all add: power_int_def\<close>)
  then show ?thesis by (simp add: f_mul_def)
qed

text \<open>One axis: with a map that is wider than the screen, what is seen ends where the map's margin ends.\<close>

lemma clamp_offset_shows:
  fixes t mn mx m1 M1 E :: rat and W :: int
  assumes "0 \<le> W" and "W \<le> 8192" and "\<bar>t\<bar> \<le> 10000" and "\<bar>mn\<bar> \<le> 10000" and "\<bar>mx\<bar> \<le> 10000" and "0 \<le> E" and "E \<le> 1"
    and "of_int W \<le> mx - mn" and "\<bar>m1 - (mn - t + of_int W / 2)\<bar> \<le> E" and "\<bar>M1 - (mx - t + of_int W / 2)\<bar> \<le> E"
  shows "mn - (E + 1 / 64) \<le> t - clamp_offset (of_int W) m1 M1 (of_int W / 2)
     \<and> t - clamp_offset (of_int W) m1 M1 (of_int W / 2) + of_int W \<le> mx + (E + 1 / 64)"
proof -
  have w: "0 \<le> (of_int W :: rat)" "(of_int W :: rat) \<le> 8192" using assms(1,2) by (simp_all add: of_int_le_iff [of W 8192, where ?'a = rat, simplified])
  have h: "f_mul (of_int W) (f_lit (1 / 2)) = of_int W / 2" unfolding f_half by (rule half_screen [OF assms(1,2)])
  have a: "\<bar>f_sub M1 (of_int W / 2) - (M1 - of_int W / 2)\<bar> \<le> 1 / 256" unfolding f_sub_def
    by (rule f_ops_near) (use assms w in linarith)
  have b: "\<bar>f_sub (of_int W) (f_sub M1 (of_int W / 2)) - (of_int W - f_sub M1 (of_int W / 2))\<bar> \<le> 1 / 256" unfolding f_sub_def [of "of_int W"]
    by (rule f_ops_near) (use assms w a in linarith)
  have c: "\<bar>f_sub (of_int W / 2) m1 - (of_int W / 2 - m1)\<bar> \<le> 1 / 256" unfolding f_sub_def
    by (rule f_ops_near) (use assms w in linarith)
  define off where "off = clamp_offset (of_int W) m1 M1 (of_int W / 2)"
  note lin = a [unfolded abs_le_iff] b [unfolded abs_le_iff] c [unfolded abs_le_iff] assms(9,10) [unfolded abs_le_iff]
  consider "M1 < of_int W" "off = f_sub (of_int W) (f_sub M1 (of_int W / 2))" | "0 < m1" "off = f_sub (of_int W / 2) m1"
    | "of_int W \<le> M1" "m1 \<le> 0" "off = of_int W / 2"
    unfolding off_def clamp_offset_def h by (cases "M1 < of_int W"; cases "0 < m1") auto
  then have "mn - (E + 1 / 64) \<le> t - off \<and> t - off + of_int W \<le> mx + (E + 1 / 64)"
    using lin assms(6,8) by cases linarith+
  then show ?thesis by (simp add: off_def)
qed

text \<open>The part of the world that is on the screen lies within the map and its margin of one tile, up to \<open>s\<close> pixels.\<close>

definition sees_only :: "view \<Rightarrow> rat \<Rightarrow> bool" where
  "sees_only v s \<longleftrightarrow> (let cam = vw_camera v in
     fst (vw_min v) - s \<le> fst (cam_target cam) - fst (cam_offset cam) \<and> fst (cam_target cam) - fst (cam_offset cam) + fst (vw_screen v) \<le> fst (vw_max v) + s
     \<and> snd (vw_min v) - s \<le> snd (cam_target cam) - snd (cam_offset cam) \<and> snd (cam_target cam) - snd (cam_offset cam) + snd (vw_screen v) \<le> snd (vw_max v) + s)"

definition view_of :: "int \<Rightarrow> int \<Rightarrow> int \<Rightarrow> view \<Rightarrow> bool" where
  "view_of n W H v \<longleftrightarrow> vw_screen v = (of_int W, of_int H) \<and> vw_min v = (-120, -120) \<and> vw_max v = (of_int ((n + 1) * 120), of_int ((n + 1) * 120))
     \<and> cam_rotation (vw_camera v) = 0 \<and> cam_zoom (vw_camera v) = 1"

lemma camera_init_view:
  assumes "raymath_law rm" and "0 \<le> n" and "n \<le> 64"
  shows "view_of n W H (camera_init rm (of_int W, of_int H) n target)"
proof -
  have i: "f32_round (of_int k) = of_int k" if "\<bar>k\<bar> \<le> 8000" for k :: int using that by (intro f32_round_int) simp
  have "f32_round (- 120) = - 120" "f32_round 120 = 120" using i [of "-120"] i [of 120] by simp_all
  moreover have "f32_round (of_int (n + 1)) = of_int (n + 1)" "f32_round (of_int (n + 1) * 120) = of_int ((n + 1) * 120)"
    using i [of "n + 1"] i [of "(n + 1) * 120"] assms(2,3) by simp_all
  ultimately show ?thesis using assms(1)
    by (simp add: view_of_def camera_init_def raymath_law_def f_mul_def f_of_int_def TILE_SIZE_def)
qed

lemma scaled_target:
  assumes "raymath_law rm" and "0 \<le> x" and "x \<le> 64"
  shows "\<bar>f_mul x TILE_SIZE\<bar> \<le> 10000"
proof -
  have "\<bar>f32_round (x * 120) - x * 120\<bar> \<le> 1 / 256" by (rule f_ops_near) (use assms(2,3) in simp)
  from this [unfolded abs_le_iff] have "\<bar>f32_round (x * 120)\<bar> \<le> 10000" unfolding abs_le_iff using assms(2,3) by linarith
  then show ?thesis by (simp add: f_mul_def TILE_SIZE_def)
qed

lemma camera_update_sees:
  assumes "raymath_law rm" and "projection_law w2s E" and "0 \<le> E" and "E \<le> 1" and "0 \<le> W" and "W \<le> 8192" and "0 \<le> H" and "H \<le> 8192"
    and "0 \<le> n" and "n \<le> 64" and "W \<le> (n + 2) * 120" and "H \<le> (n + 2) * 120" and "view_of n W H v"
    and "0 \<le> fst p" and "fst p \<le> 64" and "0 \<le> snd p" and "snd p \<le> 64"
  shows "view_of n W H (camera_update rm w2s p v) \<and> sees_only (camera_update rm w2s p v) (E + 1 / 64)"
proof -
  let ?t = "rm_scale rm p TILE_SIZE" and ?h = "rm_scale rm (vw_screen v) (f_lit (1 / 2))"
  define cam where "cam = (vw_camera v)\<lparr>cam_target := ?t, cam_offset := ?h\<rparr>"
  note vw = assms(13) [unfolded view_of_def]
  have h: "?h = (of_int W / 2, of_int H / 2)" using vw assms(1,5-8) half_screen by (simp add: raymath_law_def f_half)
  have t: "\<bar>fst ?t\<bar> \<le> 10000" "\<bar>snd ?t\<bar> \<le> 10000" using scaled_target [OF assms(1)] assms(1,14-17) by (cases p; simp add: raymath_law_def)+
  have rz: "cam_rotation cam = 0 \<and> cam_zoom cam = 1" using vw by (simp add: cam_def)
  have g: "on_grid (cam_target cam)" using t by (simp add: on_grid_def cam_def)
  have "0 \<le> (of_int W :: rat)" "(of_int W :: rat) \<le> 8192" "0 \<le> (of_int H :: rat)" "(of_int H :: rat) \<le> 8192"
    using assms(5-8) by (simp_all add: of_int_le_iff [of _ 8192, where ?'a = rat, simplified])
  then have g': "on_grid (cam_offset cam)" using h by (simp add: on_grid_def cam_def)
  have e: "\<bar>fst (w2s q cam) - (fst q - fst ?t + of_int W / 2)\<bar> \<le> E" "\<bar>snd (w2s q cam) - (snd q - snd ?t + of_int H / 2)\<bar> \<le> E" if "on_grid q" for q
    using assms(2) [unfolded projection_law_def, rule_format, of cam q] rz that g g' h by (simp_all add: cam_def)
  have n: "(0 :: rat) \<le> of_int n" "(of_int n :: rat) \<le> 64" using assms(9,10) by (simp_all add: of_int_le_iff [of n 64, where ?'a = rat, simplified])
  have big: "(of_int W :: rat) \<le> of_int ((n + 1) * 120) - (- 120)" "(of_int H :: rat) \<le> of_int ((n + 1) * 120) - (- 120)"
    using of_int_le_iff [of W "(n + 2) * 120", where ?'a = rat] of_int_le_iff [of H "(n + 2) * 120", where ?'a = rat] assms(11,12) by (simp_all add: algebra_simps)
  have mx: "\<bar>of_int ((n + 1) * 120) :: rat\<bar> \<le> 10000" "\<bar>- 120 :: rat\<bar> \<le> 10000" using n by (simp_all add: abs_le_iff)
  have q: "on_grid (vw_min v)" "on_grid (vw_max v)" using mx vw by (simp_all add: on_grid_def)
  have x: "- 120 - (E + 1 / 64) \<le> fst ?t - clamp_offset (of_int W) (fst (w2s (vw_min v) cam)) (fst (w2s (vw_max v) cam)) (of_int W / 2)
      \<and> fst ?t - clamp_offset (of_int W) (fst (w2s (vw_min v) cam)) (fst (w2s (vw_max v) cam)) (of_int W / 2) + of_int W \<le> of_int ((n + 1) * 120) + (E + 1 / 64)"
    using clamp_offset_shows [OF assms(5,6) t(1) mx(2,1) assms(3,4) big(1)] e(1) [OF q(1)] e(1) [OF q(2)] vw by simp
  have y: "- 120 - (E + 1 / 64) \<le> snd ?t - clamp_offset (of_int H) (snd (w2s (vw_min v) cam)) (snd (w2s (vw_max v) cam)) (of_int H / 2)
      \<and> snd ?t - clamp_offset (of_int H) (snd (w2s (vw_min v) cam)) (snd (w2s (vw_max v) cam)) (of_int H / 2) + of_int H \<le> of_int ((n + 1) * 120) + (E + 1 / 64)"
    using clamp_offset_shows [OF assms(7,8) t(2) mx(2,1) assms(3,4) big(2)] e(2) [OF q(1)] e(2) [OF q(2)] vw by simp
  have u: "camera_update rm w2s p v = v\<lparr>vw_camera := cam\<lparr>cam_offset :=
      (clamp_offset (of_int W) (fst (w2s (vw_min v) cam)) (fst (w2s (vw_max v) cam)) (of_int W / 2),
       clamp_offset (of_int H) (snd (w2s (vw_min v) cam)) (snd (w2s (vw_max v) cam)) (of_int H / 2))\<rparr>\<rparr>"
    using vw h unfolding camera_update_def Let_def cam_def [symmetric] by (simp add: cam_def)
  have c: "cam_target cam = ?t" by (simp add: cam_def)
  show ?thesis unfolding u using x y vw rz c by (simp add: view_of_def sees_only_def)
qed

text \<open>What 32 bits stand for is not changed by rounding.\<close>

lemma f32_of_bits_rounded:
  assumes "f32_of_bits b = Some x"
  shows "f32_round x = x"
proof -
  define e where "e = (uint b div 2 ^ 23) mod 2 ^ 8"
  define m where "m = uint b mod 2 ^ 23"
  have m: "0 \<le> m" "m < 2 ^ 23" and e: "0 \<le> e" by (simp_all add: m_def e_def)
  define k where "k = (if e = 0 then m else 2 ^ 23 + m)"
  define q where "q = (if e = 0 then -149 else e - 150)"
  have "x = of_int k * 2 powi q \<or> x = of_int (- k) * 2 powi q"
    using assms unfolding f32_of_bits_def Let_def e_def [symmetric] m_def [symmetric] k_def q_def by (auto split: if_splits)
  moreover have "-149 \<le> q" "\<bar>k\<bar> < 2 ^ 24" "\<bar>- k\<bar> < 2 ^ 24" using m e by (auto simp: k_def q_def)
  ultimately show ?thesis using f32_round_grid by blast
qed

lemma spectator_in_map:
  assumes "raymath_law rm" and "2 \<le> n" and "n \<le> 64" and "app_vec bits = Some p" and "q = update_spectator_camera rm ft k n p"
  shows "1 \<le> fst q \<and> fst q \<le> of_int (n - 1) \<and> 1 \<le> snd q \<and> snd q \<le> of_int (n - 1)" and "app_vec (f32_bits (fst q), f32_bits (snd q)) = Some q"
proof -
  have i: "f32_round (of_int k) = of_int k" if "\<bar>k\<bar> \<le> 8000" for k :: int using that by (intro f32_round_int) simp
  have m: "f_sub (f_of_int n) 1 = of_int (n - 1)" using i [of n] i [of "n - 1"] assms(2,3) by (simp add: f_sub_def f_of_int_def)
  have n1: "(1 :: rat) \<le> of_int (n - 1)" "(of_int (n - 1) :: rat) \<le> 64" using assms(2,3) by simp_all
  have c: "1 \<le> clamp_coord (of_int (n - 1)) x" "clamp_coord (of_int (n - 1)) x \<le> of_int (n - 1)" for x using n1(1) by (simp_all add: clamp_coord_def)
  have r: "f32_round (clamp_coord (of_int (n - 1)) x) = clamp_coord (of_int (n - 1)) x" if "f32_round x = x" for x
    using that i [of "n - 1"] i [of 1] assms(2,3) by (simp add: clamp_coord_def)
  have "is_f32 x" if "1 \<le> x" "x \<le> of_int (n - 1)" "f32_round x = x" for x :: rat
    using that n1(2) by (simp add: is_f32_def power_int_def)
  then have rt: "f32_of_bits (f32_bits (clamp_coord (of_int (n - 1)) x)) = Some (clamp_coord (of_int (n - 1)) x)" if "f32_round x = x" for x
    using f32_of_bits_bits r [OF that] c by blast
  have p: "f32_round (fst p) = fst p" "f32_round (snd p) = snd p"
    using assms(4) f32_of_bits_rounded by (auto simp: app_vec_def split: option.splits)
  show "1 \<le> fst q \<and> fst q \<le> of_int (n - 1) \<and> 1 \<le> snd q \<and> snd q \<le> of_int (n - 1)"
    using c unfolding assms(5) by (simp add: update_spectator_camera_def m Let_def)
  have "f32_round (fst (rm_add rm v w)) = fst (rm_add rm v w)" "f32_round (snd (rm_add rm v w)) = snd (rm_add rm v w)" for v w
    using assms(1) by (cases v; cases w; simp add: raymath_law_def f_add_def)+
  note add = this
  define p1 where "p1 = (if key_speed (k_right k) (k_left k) \<noteq> 0 \<or> key_speed (k_down k) (k_up k) \<noteq> 0
    then rm_add rm p (rm_scale rm (rm_normalize rm (key_speed (k_right k) (k_left k), key_speed (k_down k) (k_up k))) (f_mul 6 ft)) else p)"
  have r1: "f32_round (fst p1) = fst p1" "f32_round (snd p1) = snd p1" using p add by (simp_all add: p1_def)
  have q1: "q = (clamp_coord (of_int (n - 1)) (fst p1), clamp_coord (of_int (n - 1)) (snd p1))"
    unfolding assms(5) update_spectator_camera_def m Let_def p1_def ..
  show "app_vec (f32_bits (fst q), f32_bits (snd q)) = Some q" using rt [OF r1(1)] rt [OF r1(2)] by (simp add: q1 app_vec_def)
qed

text \<open>What the camera was set up with stays.\<close>

lemma camera_update_view [simp]: "view_of n W H (camera_update rm w2s p v) = view_of n W H v"
  by (simp add: view_of_def camera_update_def Let_def)

lemma view_frame_view: "view_frame rm w2s ft k c v = Some (c', v') \<Longrightarrow> view_of n W H v' = view_of n W H v"
  by (auto simp: view_frame_def split: option.splits)

lemma app_run_view: "app_run rm junk w2s fs cv = Some cv' \<Longrightarrow> view_of n W H (snd cv') = view_of n W H (snd cv)"
  by (induction rm junk w2s fs cv rule: app_run.induct) (auto split: option.splits prod.splits dest: view_frame_view)

lemma app_run_append: "app_run rm junk w2s (fs @ gs) cv = Option.bind (app_run rm junk w2s fs cv) (app_run rm junk w2s gs)"
  by (induction rm junk w2s fs cv rule: app_run.induct) (auto split: option.splits)

section \<open>Properties\<close>

text \<open>
  C39 (spectator_sees_map): a dead player flies over the map and nowhere else. Take a map of 2 to 64 tiles a side and a screen of at most 8192 pixels each way. After any run of the main loop, in a frame in
  which the local player does not live, the match goes on, the client has a map of that size and the spectator's place is a pair of numbers: whatever keys are held and however long the frame is, the frame
  is well defined and the camera looks at a place a tile inside the border, which is where the next frame goes on from. If moreover the screen is no larger than the map with its margin of one tile each side
  (120 pixels a tile), what is drawn ends at that margin on every side, up to the error E of the projection (at most a pixel) and a 64th of a pixel. For a larger screen nothing is said of what is drawn.
\<close>

theorem spectator_sees_map:
  assumes "raymath_law rm" and "projection_law w2s E" and "0 \<le> E" and "E \<le> 1" and "2 \<le> n" and "n \<le> 64"
    and "0 \<le> W" and "W \<le> 8192" and "0 \<le> H" and "H \<le> 8192"
    and "app_run rm junk w2s fs (c0, camera_init rm (of_int W, of_int H) n start) = Some (c, v)"
    and "update_loop rm junk ft msgs k c = Some (c1, out)" and "\<not> local_alive c1" and "\<not> ba_game_over c1" and "ba_map_size c1 = n"
    and "app_vec (ba_spectator_cam_pos c1) \<noteq> None"
  shows "\<exists>c' v' p. app_run rm junk w2s (fs @ [(ft, msgs, k)]) (c0, camera_init rm (of_int W, of_int H) n start) = Some (c', v')
     \<and> app_vec (ba_spectator_cam_pos c') = Some p \<and> 1 \<le> fst p \<and> fst p \<le> of_int (n - 1) \<and> 1 \<le> snd p \<and> snd p \<le> of_int (n - 1)
     \<and> cam_target (vw_camera v') = rm_scale rm p TILE_SIZE
     \<and> (W \<le> (n + 2) * 120 \<and> H \<le> (n + 2) * 120 \<longrightarrow> sees_only v' (E + 1 / 64))"
proof -
  obtain p0 where p0: "app_vec (ba_spectator_cam_pos c1) = Some p0" using assms(16) by auto
  define q where "q = update_spectator_camera rm ft k n p0"
  note q = spectator_in_map [OF assms(1,5,6) p0 q_def]
  have n: "0 \<le> n" "(of_int (n - 1) :: rat) \<le> 64" using assms(5,6) by simp_all
  have bq: "0 \<le> fst q" "fst q \<le> 64" "0 \<le> snd q" "snd q \<le> 64" using q(1) n(2) by linarith+
  let ?c = "c1\<lparr>ba_spectator_cam_pos := (f32_bits (fst q), f32_bits (snd q))\<rparr>" and ?v = "camera_update rm w2s q v"
  have s: "spectate rm ft k c1 = Some ?c" using assms(13-15) p0 by (simp add: spectate_def q_def Let_def)
  have "network_local_slot ?c = network_local_slot c1" by (simp add: network_local_slot_def player_slot_def)
  then have t: "network_get_camera_target ?c = (f32_bits (fst q), f32_bits (snd q))"
    using assms(13) by (auto simp: network_get_camera_target_def local_alive_def split: option.splits)
  have w: "view_of n W H v" using app_run_view [OF assms(11)] camera_init_view [OF assms(1) n(1) assms(6)] by simp
  have u: "sees_only ?v (E + 1 / 64)" if "W \<le> (n + 2) * 120" and "H \<le> (n + 2) * 120"
    using camera_update_sees [OF assms(1-4,7,8,9,10) n(1) assms(6) that w bq] by simp
  have "app_run rm junk w2s (fs @ [(ft, msgs, k)]) (c0, camera_init rm (of_int W, of_int H) n start) = Some (?c, ?v)"
    using app_run_append assms(11,12) s t q(2) by (simp add: view_frame_def)
  moreover have "cam_target (vw_camera ?v) = rm_scale rm q TILE_SIZE" by (simp add: camera_update_def Let_def)
  ultimately show ?thesis using q u by (intro exI conjI) (assumption | simp)+
qed

text \<open>The exact projection, and a client whose player is dead.\<close>

definition plain_projection :: "Vector2 \<Rightarrow> Camera2D \<Rightarrow> Vector2" where
  "plain_projection p cam = (fst p - fst (cam_target cam) + fst (cam_offset cam), snd p - snd (cam_target cam) + snd (cam_offset cam))"

definition no_keys :: app_keys where
  "no_keys = \<lparr>k_up = False, k_down = False, k_left = False, k_right = False, k_sprint = False, k_bomb_pressed = False\<rparr>"

theorem spectator_sees_map_witness:
  "\<exists>c' v' p. app_run demo_raymath (sample_state 1) plain_projection [(1 / 64, [], no_keys\<lparr>k_right := True\<rparr>)]
       ((fresh_app 7)\<lparr>ba_map_size := 20\<rparr>, camera_init demo_raymath (1920, 1080) 20 (1, 1)) = Some (c', v')
     \<and> app_vec (ba_spectator_cam_pos c') = Some p \<and> 1 \<le> fst p \<and> fst p \<le> 19 \<and> sees_only v' (0 + 1 / 64)"
proof -
  let ?c = "(fresh_app 7)\<lparr>ba_map_size := 20\<rparr>" and ?k = "no_keys\<lparr>k_right := True\<rparr>"
  have p: "projection_law plain_projection 0" by (simp add: projection_law_def plain_projection_def)
  have sl: "network_local_slot ?c = None" by (auto simp: network_local_slot_def player_slot_def fresh_app_def find_None_iff)
  have u: "update_loop demo_raymath (sample_state 1) (1 / 64) [] ?k ?c = Some (?c, [])"
    using sl by (simp add: update_loop_def network_tick_explosions_def network_send_input_def Let_def fresh_app_def queue_empty_def)
  have "app_vec (ba_spectator_cam_pos ?c) = Some (0, 0)" by (simp add: fresh_app_def app_vec_def f32_of_bits_def Let_def)
  then show ?thesis
    using spectator_sees_map [OF demo_raymath_law p, of 20 1920 1080 "sample_state 1" "[]" ?c "(1, 1)" ?c _ "1 / 64" "[]" ?k ?c "[]"] u sl
    by (auto simp: local_alive_def fresh_app_def)
qed

text \<open>The client waits for the match for five minutes, three thousand looks, and no longer.\<close>

lemma lobby_wait_iff:
  "waited mod 100 = 0 \<Longrightarrow> waited < NETWORK_LOBBY_WAIT_TIMEOUT_MS \<Longrightarrow>
   lobby_wait states k waited \<longleftrightarrow> (\<exists>j < (NETWORK_LOBBY_WAIT_TIMEOUT_MS - waited) div 100. states (k + j) = 2)"
proof (induction states k waited rule: lobby_wait.induct)
  case (1 states k w)
  obtain m where m: "w = 100 * m" using "1.prems"(1) by auto
  show ?case
  proof (cases "states k = 2 \<or> w + 100 \<ge> NETWORK_LOBBY_WAIT_TIMEOUT_MS")
    case True
    have "(NETWORK_LOBBY_WAIT_TIMEOUT_MS - w) div 100 = 1" if "w + 100 \<ge> NETWORK_LOBBY_WAIT_TIMEOUT_MS" using that "1.prems"(2) m by simp
    moreover have "0 < (NETWORK_LOBBY_WAIT_TIMEOUT_MS - w) div 100" using "1.prems"(2) m by simp
    ultimately show ?thesis using True by (subst lobby_wait.simps) (auto intro!: exI [of _ 0])
  next
    case False
    have e: "(NETWORK_LOBBY_WAIT_TIMEOUT_MS - w) div 100 = Suc ((NETWORK_LOBBY_WAIT_TIMEOUT_MS - (w + 100)) div 100)" using False m by auto
    have "lobby_wait states (Suc k) (w + 100) \<longleftrightarrow> (\<exists>j < (NETWORK_LOBBY_WAIT_TIMEOUT_MS - (w + 100)) div 100. states (Suc k + j) = 2)"
      using "1.IH" False m by simp
    then show ?thesis using False unfolding e by (subst lobby_wait.simps) (simp add: Ex_less_Suc2)
  qed
qed

lemma network_connect_iff:
  "fst (network_connect init_r join_r states get_id c) \<longleftrightarrow> 0 \<le> init_r \<and> 0 \<le> join_r \<and> (\<exists>j < 3000. states j = 2) \<and> 0 \<le> fst get_id"
  "snd (network_connect init_r join_r states get_id c) = (if fst (network_connect init_r join_r states get_id c) then c\<lparr>ba_local_id := snd get_id\<rparr> else c)"
  using lobby_wait_iff [of 0 states 0] by (auto simp: network_connect_def)

end
