(* ===== verification/Bomb_Audio.thy ===== *)
theory Bomb_Audio
  imports Bomb_App
begin

text \<open>
  The sound of the bomb client: \<open>audio.c\<close>.

  The streams and sounds belong to raylib; the calls that the client makes are collected in order. What raylib answers is an argument: whether the current stream is
  still playing, the time of the frame, and the looping flag that a loaded stream starts with. \<open>Vector2Subtract\<close> and \<open>Vector2Length\<close> are arguments as well.
\<close>

datatype BGM = BGM_TITLE | BGM_PREPARE | BGM_BATTLE | BGM_WIN | BGM_LOSE

datatype SFX = SFX_PLACEBOMB | SFX_BOMB | SFX_POWERUP_BOMB | SFX_POWERUP_FIRE

datatype audio_call = StopMusicStream BGM | PlayMusicStream BGM | UpdateMusicStream BGM | SetMusicVolume BGM f32
  | PlaySound SFX | SetSoundVolume SFX f32 | SetSoundPan SFX f32

text \<open>The pointer and the identifier of the current stream always agree and are one field, \<open>None\<close> before the first play.\<close>

record audio =
  au_curr_bgm :: "BGM option"
  au_fade_in_elapsed :: f32
  au_calls :: "audio_call list"

definition MUSIC_VOLUME :: f32 where "MUSIC_VOLUME = f_lit (7 / 10)"
definition SFX_VOLUME :: f32 where "SFX_VOLUME = 1"
definition BGM_FADE_IN_SECONDS :: f32 where "BGM_FADE_IN_SECONDS = f_lit (15 / 10)"

definition call :: "audio_call \<Rightarrow> audio \<Rightarrow> audio" where
  "call c s = s\<lparr>au_calls := au_calls s @ [c]\<rparr>"

definition audio_init :: audio where
  "audio_init = \<lparr>au_curr_bgm = None, au_fade_in_elapsed = -1,
     au_calls = map (\<lambda>b. SetMusicVolume b MUSIC_VOLUME) [BGM_TITLE, BGM_PREPARE, BGM_BATTLE, BGM_WIN, BGM_LOSE]
              @ map (\<lambda>x. SetSoundVolume x SFX_VOLUME) [SFX_PLACEBOMB, SFX_BOMB, SFX_POWERUP_BOMB, SFX_POWERUP_FIRE]\<rparr>"

text \<open>The flag of a stream after \<open>audio_init\<close>, given the flag with which raylib loads it.\<close>

definition looping :: "(BGM \<Rightarrow> bool) \<Rightarrow> BGM \<Rightarrow> bool" where
  "looping loaded b = (b \<noteq> BGM_WIN \<and> b \<noteq> BGM_LOSE \<and> loaded b)"

definition stop_current :: "audio \<Rightarrow> audio" where
  "stop_current s = (case au_curr_bgm s of None \<Rightarrow> s | Some b \<Rightarrow> call (StopMusicStream b) s)"

definition play_bgm :: "BGM \<Rightarrow> audio \<Rightarrow> audio" where
  "play_bgm b s =
     call (PlayMusicStream b) (call (SetMusicVolume b MUSIC_VOLUME) ((stop_current s)\<lparr>au_curr_bgm := Some b, au_fade_in_elapsed := -1\<rparr>))"

definition play_bgm_faded_in :: "BGM \<Rightarrow> audio \<Rightarrow> audio" where
  "play_bgm_faded_in b s =
     call (PlayMusicStream b) (call (SetMusicVolume b 0) ((stop_current s)\<lparr>au_curr_bgm := Some b, au_fade_in_elapsed := 0\<rparr>))"

definition fade_step :: "f32 \<Rightarrow> BGM \<Rightarrow> audio \<Rightarrow> audio" where
  "fade_step frame_time b s =
     (if 0 \<le> au_fade_in_elapsed s
      then let elapsed = f_add (au_fade_in_elapsed s) frame_time; t = f_div elapsed BGM_FADE_IN_SECONDS
           in if 1 \<le> t then call (SetMusicVolume b (f_mul 1 MUSIC_VOLUME)) (s\<lparr>au_fade_in_elapsed := -1\<rparr>)
              else call (SetMusicVolume b (f_mul t MUSIC_VOLUME)) (s\<lparr>au_fade_in_elapsed := elapsed\<rparr>)
      else s)"

definition audio_update :: "(BGM \<Rightarrow> bool) \<Rightarrow> bool \<Rightarrow> f32 \<Rightarrow> audio \<Rightarrow> audio" where
  "audio_update loaded is_playing frame_time s =
     (case au_curr_bgm s of
        None \<Rightarrow> s
      | Some b \<Rightarrow>
          let s' = fade_step frame_time b (call (UpdateMusicStream b) s)
          in if \<not> looping loaded b \<and> \<not> is_playing then play_bgm_faded_in BGM_BATTLE s' else s')"

definition play_sound :: "SFX \<Rightarrow> audio \<Rightarrow> audio" where
  "play_sound x s = call (PlaySound x) s"

definition clamp01 :: "f32 \<Rightarrow> f32" where
  "clamp01 v = (let v' = (if v > 1 then 1 else v) in if v' < 0 then 0 else v')"

definition set_sound_position :: "raymath \<Rightarrow> (Vector2 \<Rightarrow> Vector2 \<Rightarrow> Vector2) \<Rightarrow> (Vector2 \<Rightarrow> f32) \<Rightarrow> Vector2 \<Rightarrow> SFX \<Rightarrow> Vector2 \<Rightarrow> f32 \<Rightarrow> audio \<Rightarrow> audio" where
  "set_sound_position rm vsub vlen listener_target x sound_pos max_dist s =
     (let m = f_mul max_dist 120;
          dir = vsub (rm_scale rm sound_pos 120) listener_target;
          volume = f_div 1 (f_add 1 (f_div (vlen dir) m));
          pan = f_add (f_lit (5 / 10)) (f_mul (f_div (fst dir) m) (f_lit (5 / 10)))
      in call (SetSoundPan x (clamp01 pan)) (call (SetSoundVolume x (clamp01 volume)) s))"

text \<open>The listeners; the conversion of a centre that is not a number is undefined.\<close>

definition on_bomb_exploded :: "raymath \<Rightarrow> (Vector2 \<Rightarrow> Vector2 \<Rightarrow> Vector2) \<Rightarrow> (Vector2 \<Rightarrow> f32) \<Rightarrow> Vector2 \<Rightarrow> int \<Rightarrow> int \<Rightarrow> audio \<Rightarrow> audio" where
  "on_bomb_exploded rm vsub vlen target x y s =
     play_sound SFX_BOMB (set_sound_position rm vsub vlen target SFX_BOMB (f_of_int x, f_of_int y) 10 s)"

fun audio_event :: "raymath \<Rightarrow> (Vector2 \<Rightarrow> Vector2 \<Rightarrow> Vector2) \<Rightarrow> (Vector2 \<Rightarrow> f32) \<Rightarrow> Vector2 \<Rightarrow> app_event \<Rightarrow> audio \<Rightarrow> audio option" where
  "audio_event rm vsub vlen target (EVENT_BOMB_EXPLODED bx by) s =
     (case (f32_of_bits bx, f32_of_bits by) of
        (Some x, Some y) \<Rightarrow> Some (on_bomb_exploded rm vsub vlen target (f_to_int x) (f_to_int y) s)
      | _ \<Rightarrow> None)"
| "audio_event rm vsub vlen target EVENT_PLAYER_DIED s = Some (play_bgm BGM_LOSE s)"
| "audio_event rm vsub vlen target EVENT_MATCH_WON s = Some (play_bgm BGM_WIN s)"

section \<open>What is heard\<close>

text \<open>The streams that have been started and not stopped, and the volume to which a stream was set last.\<close>

fun sounding :: "audio_call list \<Rightarrow> BGM set \<Rightarrow> BGM set" where
  "sounding [] B = B"
| "sounding (PlayMusicStream b # cs) B = sounding cs (insert b B)"
| "sounding (StopMusicStream b # cs) B = sounding cs (B - {b})"
| "sounding (_ # cs) B = sounding cs B"

fun volume :: "audio_call list \<Rightarrow> BGM \<Rightarrow> f32 option \<Rightarrow> f32 option" where
  "volume [] b v = v"
| "volume (SetMusicVolume b' x # cs) b v = volume cs b (if b = b' then Some x else v)"
| "volume (_ # cs) b v = volume cs b v"

text \<open>What happens to the sound while the client runs: a frame, an event, a sound of the local player.\<close>

datatype audio_step = Frame bool f32 | Event app_event | Sound SFX

fun audio_do :: "raymath \<Rightarrow> (Vector2 \<Rightarrow> Vector2 \<Rightarrow> Vector2) \<Rightarrow> (Vector2 \<Rightarrow> f32) \<Rightarrow> (BGM \<Rightarrow> bool) \<Rightarrow> Vector2 \<Rightarrow> audio_step \<Rightarrow> audio \<Rightarrow> audio option" where
  "audio_do rm vsub vlen loaded target (Frame p ft) s = Some (audio_update loaded p ft s)"
| "audio_do rm vsub vlen loaded target (Event e) s = audio_event rm vsub vlen target e s"
| "audio_do rm vsub vlen loaded target (Sound x) s = Some (play_sound x s)"

text \<open>The run of the client: \<open>initalise\<close> starts the battle theme; each step has the position of the camera.\<close>

fun audio_steps :: "raymath \<Rightarrow> (Vector2 \<Rightarrow> Vector2 \<Rightarrow> Vector2) \<Rightarrow> (Vector2 \<Rightarrow> f32) \<Rightarrow> (BGM \<Rightarrow> bool) \<Rightarrow> (Vector2 \<times> audio_step) list \<Rightarrow> audio \<Rightarrow> audio option" where
  "audio_steps rm vsub vlen loaded [] s = Some s"
| "audio_steps rm vsub vlen loaded ((target, e) # es) s =
     (case audio_do rm vsub vlen loaded target e s of None \<Rightarrow> None | Some s' \<Rightarrow> audio_steps rm vsub vlen loaded es s')"

definition audio_start :: audio where
  "audio_start = play_bgm BGM_BATTLE audio_init"

lemma sounding_append: "sounding (cs @ ds) B = sounding ds (sounding cs B)"
  by (induction cs B rule: sounding.induct) simp_all

lemma volume_append: "volume (cs @ ds) b v = volume ds b (volume cs b v)"
  by (induction cs b v rule: volume.induct) simp_all

text \<open>
  One stream plays, the current one; the volumes are between silence and the setting; only the battle theme is faded in, and a stream that is not fading is at the
  volume of the setting.
\<close>

definition audio_wf :: "audio \<Rightarrow> bool" where
  "audio_wf s \<longleftrightarrow> sounding (au_calls s) {} = set_option (au_curr_bgm s)
     \<and> (\<forall>b v. SetMusicVolume b v \<in> set (au_calls s) \<longrightarrow> 0 \<le> v \<and> v \<le> MUSIC_VOLUME)
     \<and> (\<forall>x v. SetSoundVolume x v \<in> set (au_calls s) \<or> SetSoundPan x v \<in> set (au_calls s) \<longrightarrow> 0 \<le> v \<and> v \<le> 1)
     \<and> (0 \<le> au_fade_in_elapsed s \<longrightarrow> au_curr_bgm s = Some BGM_BATTLE)
     \<and> (\<forall>b. au_curr_bgm s = Some b \<and> au_fade_in_elapsed s < 0 \<longrightarrow> volume (au_calls s) b None = Some MUSIC_VOLUME)"

lemma MUSIC_VOLUME_round: "f32_round MUSIC_VOLUME = MUSIC_VOLUME" "0 < MUSIC_VOLUME" "f_mul 1 MUSIC_VOLUME = MUSIC_VOLUME"
proof -
  show r: "f32_round MUSIC_VOLUME = MUSIC_VOLUME" by (simp add: MUSIC_VOLUME_def f_lit_def)
  show "0 < MUSIC_VOLUME" by code_simp
  show "f_mul 1 MUSIC_VOLUME = MUSIC_VOLUME" using r by (simp add: f_mul_def)
qed

lemma faded_volume:
  assumes "0 \<le> t" and "t \<le> 1"
  shows "0 \<le> f_mul t MUSIC_VOLUME" and "f_mul t MUSIC_VOLUME \<le> MUSIC_VOLUME"
proof -
  have p: "0 \<le> t * MUSIC_VOLUME" using assms MUSIC_VOLUME_round(2) by simp
  then show "0 \<le> f_mul t MUSIC_VOLUME" by (simp add: f_mul_def f32_round_nonneg)
  have "t * MUSIC_VOLUME \<le> MUSIC_VOLUME" using assms(2) MUSIC_VOLUME_round(2) by simp
  then show "f_mul t MUSIC_VOLUME \<le> MUSIC_VOLUME" using f32_round_mono [OF p] MUSIC_VOLUME_round(1) by (metis f_mul_def)
qed

lemma clamp01_bounds: "0 \<le> clamp01 v \<and> clamp01 v \<le> 1"
  by (simp add: clamp01_def Let_def)

lemma stop_current_sounding:
  assumes "audio_wf s"
  shows "sounding (au_calls (stop_current s)) {} = {}"
  using assms by (simp add: audio_wf_def stop_current_def call_def sounding_append split: option.splits)

lemma play_wf:
  assumes "audio_wf s"
  shows "audio_wf (play_bgm b s)" and "audio_wf (play_bgm_faded_in BGM_BATTLE s)"
  using assms stop_current_sounding [OF assms] MUSIC_VOLUME_round(2)
  by (auto simp: audio_wf_def play_bgm_def play_bgm_faded_in_def call_def sounding_append volume_append stop_current_def split: option.splits)

lemma fade_seconds: "BGM_FADE_IN_SECONDS = 3 / 2"
  by code_simp

lemma fade_step_keeps:
  "au_curr_bgm (fade_step ft b s) = au_curr_bgm s" "sounding (au_calls (fade_step ft b s)) B = sounding (au_calls s) B"
  by (simp_all add: fade_step_def Let_def call_def sounding_append)

lemma fade_step_wf:
  assumes "audio_wf s" and "au_curr_bgm s = Some b" and "0 \<le> ft"
  shows "audio_wf (fade_step ft b s)"
proof (cases "0 \<le> au_fade_in_elapsed s")
  case True
  define e where "e = f_add (au_fade_in_elapsed s) ft"
  define t where "t = f_div e BGM_FADE_IN_SECONDS"
  have "0 \<le> e" using True assms(3) by (simp add: e_def f_add_def f32_round_nonneg)
  then have t: "0 \<le> t" by (simp add: t_def f_div_def fade_seconds f32_round_nonneg)
  have b: "b = BGM_BATTLE" using assms(1,2) True by (simp add: audio_wf_def)
  have d: "fade_step ft b s = (if 1 \<le> t then call (SetMusicVolume b MUSIC_VOLUME) (s\<lparr>au_fade_in_elapsed := -1\<rparr>)
      else call (SetMusicVolume b (f_mul t MUSIC_VOLUME)) (s\<lparr>au_fade_in_elapsed := e\<rparr>))"
    using True by (simp add: fade_step_def Let_def e_def t_def MUSIC_VOLUME_round(3))
  show ?thesis
  proof (cases "1 \<le> t")
    case True
    then show ?thesis using assms(1,2) MUSIC_VOLUME_round(2) unfolding d by (auto simp: audio_wf_def call_def sounding_append volume_append)
  next
    case False
    then show ?thesis using assms(1,2) \<open>0 \<le> e\<close> b faded_volume [OF t] unfolding d
      by (auto simp: audio_wf_def call_def sounding_append volume_append)
  qed
qed (simp add: assms(1) fade_step_def)

lemma call_wf:
  assumes "audio_wf s" and "sounding [c] = (\<lambda>B. B)" and "\<And>b v. c \<noteq> SetMusicVolume b v"
    and "\<And>x v. c = SetSoundVolume x v \<or> c = SetSoundPan x v \<Longrightarrow> 0 \<le> v \<and> v \<le> 1"
  shows "audio_wf (call c s)"
proof -
  have "volume [c] b v = v" for b v by (cases c) (use assms(3) in auto)
  then show ?thesis using assms(1,2,4) by (auto simp: audio_wf_def call_def sounding_append volume_append assms(3) [symmetric])
qed

lemma audio_update_wf:
  assumes "audio_wf s" and "0 \<le> ft"
  shows "audio_wf (audio_update loaded p ft s)"
proof (cases "au_curr_bgm s")
  case (Some b)
  have "audio_wf (call (UpdateMusicStream b) s)" by (rule call_wf [OF assms(1)]) (simp_all add: fun_eq_iff)
  then have "audio_wf (fade_step ft b (call (UpdateMusicStream b) s))" by (rule fade_step_wf) (simp_all add: call_def Some assms(2))
  then show ?thesis using play_wf(2) by (simp add: audio_update_def Some Let_def)
qed (simp add: audio_update_def assms(1))

lemma on_bomb_exploded_wf: "audio_wf s \<Longrightarrow> audio_wf (on_bomb_exploded rm vsub vlen target x y s)"
  unfolding on_bomb_exploded_def play_sound_def set_sound_position_def Let_def
  by (intro call_wf) (auto simp: fun_eq_iff clamp01_bounds)

lemma audio_do_wf:
  assumes "audio_do rm vsub vlen loaded target st s = Some s'" and "audio_wf s" and "\<And>p ft. st = Frame p ft \<Longrightarrow> 0 \<le> ft"
  shows "audio_wf s'"
proof (cases st)
  case (Event e)
  then show ?thesis using assms(1,2) by (cases e) (auto intro: play_wf(1) on_bomb_exploded_wf split: option.splits)
next
  case (Sound x)
  have "audio_wf (play_sound x s)" unfolding play_sound_def by (rule call_wf [OF assms(2)]) (simp_all add: fun_eq_iff)
  then show ?thesis using Sound assms(1) by simp
qed (use assms audio_update_wf in auto)

lemma audio_steps_wf:
  assumes "audio_steps rm vsub vlen loaded es s = Some s'" and "audio_wf s" and "\<And>t p ft. (t, Frame p ft) \<in> set es \<Longrightarrow> 0 \<le> ft"
  shows "audio_wf s'"
  using assms
proof (induction es arbitrary: s)
  case (Cons e es)
  obtain t st where e: "e = (t, st)" by fastforce
  then obtain s1 where s1: "audio_do rm vsub vlen loaded t st s = Some s1" "audio_steps rm vsub vlen loaded es s1 = Some s'"
    using Cons.prems(1) by (auto split: option.splits)
  have "audio_wf s1" using audio_do_wf [OF s1(1) Cons.prems(2)] Cons.prems(3) e by fastforce
  then show ?case using Cons.IH [OF s1(2)] Cons.prems(3) by fastforce
qed simp

lemma audio_start_wf: "audio_wf audio_start"
proof -
  have "audio_wf audio_init" using MUSIC_VOLUME_round(2) by (auto simp: audio_wf_def audio_init_def SFX_VOLUME_def)
  then show ?thesis unfolding audio_start_def by (rule play_wf)
qed

lemma call_curr [simp]: "au_curr_bgm (call c s) = au_curr_bgm s" "au_fade_in_elapsed (call c s) = au_fade_in_elapsed s"
  by (simp_all add: call_def)

lemma audio_do_curr:
  assumes "audio_do rm vsub vlen loaded target st s = Some s'" and "au_curr_bgm s \<noteq> None"
  shows "au_curr_bgm s' \<noteq> None"
proof (cases st)
  case (Event e)
  then show ?thesis using assms
    by (cases e) (auto simp: play_bgm_def on_bomb_exploded_def play_sound_def set_sound_position_def Let_def split: option.splits)
qed (use assms in \<open>auto simp: audio_update_def play_bgm_faded_in_def play_sound_def fade_step_keeps Let_def\<close>)

lemma audio_steps_curr: "audio_steps rm vsub vlen loaded es s = Some s' \<Longrightarrow> au_curr_bgm s \<noteq> None \<Longrightarrow> au_curr_bgm s' \<noteq> None"
proof (induction es arbitrary: s)
  case (Cons e es)
  then show ?case using audio_do_curr by (cases e) (fastforce split: option.splits)
qed simp

section \<open>The fade\<close>

definition frames :: "(BGM \<Rightarrow> bool) \<Rightarrow> (bool \<times> f32) list \<Rightarrow> audio \<Rightarrow> audio" where
  "frames loaded fs = fold (\<lambda>(p, ft). audio_update loaded p ft) fs"

lemma fade_progress:
  assumes "0 \<le> e" and "e < 3 / 2" and "1 / 1024 \<le> ft"
  shows "e + 1 / 2048 \<le> f_add e ft"
proof -
  have "\<bar>f_add e (1 / 1024) - (e + 1 / 1024)\<bar> \<le> 2 ^ 1 / 2 ^ 24"
    unfolding f_add_def using assms(1,2) by (intro f32_round_error) simp
  moreover have "f_add e (1 / 1024) \<le> f_add e ft" unfolding f_add_def using assms(1,3) by (intro f32_round_mono) simp_all
  moreover have "(2 :: rat) ^ 1 / 2 ^ 24 \<le> 1 / 2048" by simp
  ultimately show ?thesis by linarith
qed

lemma fade_unfinished:
  assumes "\<not> 1 \<le> f_div e BGM_FADE_IN_SECONDS"
  shows "e < 3 / 2"
proof (rule ccontr)
  assume "\<not> ?thesis"
  then have "1 \<le> e / (3 / 2)" by simp
  then have "f32_round 1 \<le> f_div e BGM_FADE_IN_SECONDS" unfolding f_div_def fade_seconds by (intro f32_round_mono) simp_all
  then show False using assms f32_round_int [of 1] by simp
qed

lemma frame_of_loop:
  assumes "au_curr_bgm s = Some b" and "looping loaded b"
  shows "audio_update loaded p ft s = fade_step ft b (call (UpdateMusicStream b) s)"
  using assms by (simp add: audio_update_def Let_def)

text \<open>A fade of a looping stream ends: every frame brings it forward by more than a 2048th of a second.\<close>

lemma fade_ends:
  assumes "audio_wf s" and "au_curr_bgm s = Some b" and "looping loaded b" and "\<forall>(p, ft) \<in> set fs. 1 / 1024 \<le> ft"
    and "au_fade_in_elapsed s < 0 \<or> au_fade_in_elapsed s < 3 / 2 \<and> 3 / 2 \<le> au_fade_in_elapsed s + of_nat (length fs) / 2048"
  shows "audio_wf (frames loaded fs s) \<and> au_curr_bgm (frames loaded fs s) = Some b \<and> au_fade_in_elapsed (frames loaded fs s) < 0"
  using assms
proof (induction fs arbitrary: s)
  case (Cons f fs)
  obtain p ft where f: "f = (p, ft)" by fastforce
  let ?u = "call (UpdateMusicStream b) s" and ?s = "audio_update loaded p ft s"
  have ft: "1 / 1024 \<le> ft" using Cons.prems(4) f by auto
  have s: "?s = fade_step ft b ?u" by (rule frame_of_loop [OF Cons.prems(2,3)])
  have w: "audio_wf ?s" by (rule audio_update_wf [OF Cons.prems(1)]) (use ft in simp)
  have c: "au_curr_bgm ?s = Some b" unfolding s by (simp add: fade_step_keeps Cons.prems(2))
  have "au_fade_in_elapsed ?s < 0 \<or> au_fade_in_elapsed ?s < 3 / 2 \<and> 3 / 2 \<le> au_fade_in_elapsed ?s + of_nat (length fs) / 2048"
  proof (cases "0 \<le> au_fade_in_elapsed s")
    case True
    let ?e = "f_add (au_fade_in_elapsed s) ft"
    have l: "au_fade_in_elapsed s < 3 / 2" "3 / 2 \<le> au_fade_in_elapsed s + of_nat (length (f # fs)) / 2048" using Cons.prems(5) True by auto
    show ?thesis
    proof (cases "1 \<le> f_div ?e BGM_FADE_IN_SECONDS")
      case False
      then have "au_fade_in_elapsed ?s = ?e" using True unfolding s by (simp add: fade_step_def Let_def)
      then show ?thesis using fade_unfinished [OF False] fade_progress [OF True l(1) ft] l(2) by (simp add: add_divide_distrib)
    qed (use True s in \<open>simp add: fade_step_def Let_def\<close>)
  qed (simp add: s fade_step_def)
  then have "audio_wf (frames loaded fs ?s) \<and> au_curr_bgm (frames loaded fs ?s) = Some b \<and> au_fade_in_elapsed (frames loaded fs ?s) < 0"
    using Cons.IH [OF w c Cons.prems(3)] Cons.prems(4) by simp
  then show ?case by (simp add: frames_def f)
qed (auto simp: frames_def)

section \<open>Properties\<close>

text \<open>
  Lemma (one_track_plays): whatever happens in a match, exactly one music stream has been started and not stopped, the current one; no volume leaves its range; and
  the current stream is at the volume of the setting unless it is the battle theme being faded in.
\<close>

theorem one_track_plays:
  assumes "audio_steps rm vsub vlen loaded es audio_start = Some s" and "\<forall>t p ft. (t, Frame p ft) \<in> set es \<longrightarrow> 0 \<le> ft"
  shows "\<exists>b. au_curr_bgm s = Some b \<and> sounding (au_calls s) {} = {b}
     \<and> (\<forall>b v. SetMusicVolume b v \<in> set (au_calls s) \<longrightarrow> 0 \<le> v \<and> v \<le> MUSIC_VOLUME)
     \<and> (\<forall>x v. SetSoundVolume x v \<in> set (au_calls s) \<or> SetSoundPan x v \<in> set (au_calls s) \<longrightarrow> 0 \<le> v \<and> v \<le> 1)
     \<and> (volume (au_calls s) b None = Some MUSIC_VOLUME \<or> b = BGM_BATTLE \<and> 0 \<le> au_fade_in_elapsed s)"
proof -
  have w: "audio_wf s" using audio_steps_wf [OF assms(1) audio_start_wf] assms(2) by blast
  have "au_curr_bgm audio_start \<noteq> None" by (simp add: audio_start_def play_bgm_def)
  then obtain b where "au_curr_bgm s = Some b" using audio_steps_curr [OF assms(1)] by blast
  then show ?thesis using w by (cases "0 \<le> au_fade_in_elapsed s") (auto simp: audio_wf_def)
qed

theorem one_track_plays_witness:
  "\<exists>s b. audio_steps demo_raymath (\<lambda>v w. v) fst (\<lambda>_. True) [((0, 0), Event EVENT_PLAYER_DIED), ((0, 0), Frame False (1 / 64))] audio_start = Some s
     \<and> sounding (au_calls s) {} = {b}"
proof -
  let ?es = "[((0, 0), Event EVENT_PLAYER_DIED), ((0, 0), Frame False (1 / 64))]"
  obtain s where s: "audio_steps demo_raymath (\<lambda>v w. v) fst (\<lambda>_. True) ?es audio_start = Some s" by simp
  show ?thesis using one_track_plays [OF s] s by auto
qed

text \<open>
  Lemma (battle_theme_returns): after the music of a defeat or a victory has ended, the next frame starts the battle theme, and 3072 frames of at least a
  1024th of a second later it is the only stream that plays, at the full volume of the setting.
\<close>

theorem battle_theme_returns:
  assumes "audio_steps rm vsub vlen loaded es audio_start = Some s" and "\<forall>t p ft. (t, Frame p ft) \<in> set es \<longrightarrow> 0 \<le> ft"
    and "au_curr_bgm s = Some b" and "b = BGM_WIN \<or> b = BGM_LOSE" and "loaded BGM_BATTLE" and "0 \<le> ft0"
    and "3072 \<le> length fs" and "\<forall>(p, ft) \<in> set fs. 1 / 1024 \<le> ft"
  shows "let s' = frames loaded fs (audio_update loaded False ft0 s)
     in au_curr_bgm s' = Some BGM_BATTLE \<and> sounding (au_calls s') {} = {BGM_BATTLE} \<and> volume (au_calls s') BGM_BATTLE None = Some MUSIC_VOLUME"
proof -
  let ?s0 = "audio_update loaded False ft0 s"
  have "audio_wf s" using audio_steps_wf [OF assms(1) audio_start_wf] assms(2) by blast
  then have w: "audio_wf ?s0" using assms(6) by (rule audio_update_wf)
  have s0: "au_curr_bgm ?s0 = Some BGM_BATTLE" "au_fade_in_elapsed ?s0 = 0"
    using assms(3,4) by (auto simp: audio_update_def looping_def play_bgm_faded_in_def Let_def)
  have lp: "looping loaded BGM_BATTLE" using assms(5) by (simp add: looping_def)
  have "(3072 :: rat) \<le> of_nat (length fs)" using assms(7) by (metis of_nat_le_iff of_nat_numeral)
  then have "audio_wf (frames loaded fs ?s0) \<and> au_curr_bgm (frames loaded fs ?s0) = Some BGM_BATTLE \<and> au_fade_in_elapsed (frames loaded fs ?s0) < 0"
    by (intro fade_ends [OF w s0(1) lp assms(8)]) (simp add: s0(2))
  then show ?thesis by (simp add: audio_wf_def Let_def)
qed

theorem battle_theme_returns_witness:
  "\<exists>s. audio_steps demo_raymath (\<lambda>v w. v) fst (\<lambda>_. True) [((0, 0), Event EVENT_PLAYER_DIED)] audio_start = Some s \<and> au_curr_bgm s = Some BGM_LOSE
     \<and> volume (au_calls (frames (\<lambda>_. True) (replicate 3072 (True, 1 / 64)) (audio_update (\<lambda>_. True) False (1 / 64) s))) BGM_BATTLE None = Some MUSIC_VOLUME"
proof -
  obtain s where s: "audio_steps demo_raymath (\<lambda>v w. v) fst (\<lambda>_. True) [((0, 0), Event EVENT_PLAYER_DIED)] audio_start = Some s" "au_curr_bgm s = Some BGM_LOSE"
    by (simp add: play_bgm_def)
  have "volume (au_calls (frames (\<lambda>_. True) (replicate 3072 (True, 1 / 64)) (audio_update (\<lambda>_. True) False (1 / 64) s))) BGM_BATTLE None = Some MUSIC_VOLUME"
    using battle_theme_returns [OF s(1) _ s(2), of "1 / 64" "replicate 3072 (True, 1 / 64)"] by (simp add: Let_def)
  with s show ?thesis by blast
qed

end
