(* ===== verification/Bomb_Client.thy ===== *)
theory Bomb_Client
  imports Bomb_View Bomb_Audio
begin

text \<open>
  The networked client of the bomb game as a program: \<open>initalise\<close> and the main loop of \<open>bombapp/main.c\<close> with sound, match and camera together. The listeners of \<open>audio.c\<close> are called
  while the messages of a frame are read; they touch nothing but the sound, so they are run on the events of the frame after the reading. The camera that they use
  is that of the frame before. Results of the transport, the keys, the frame times and whether raylib still plays the current stream are arguments.
\<close>

section \<open>The program\<close>

record program =
  pg_app :: bombapp
  pg_view :: view
  pg_audio :: audio

type_synonym vsub = "Vector2 \<Rightarrow> Vector2 \<Rightarrow> Vector2"
type_synonym vlen = "Vector2 \<Rightarrow> f32"

definition hear :: "raymath \<Rightarrow> vsub \<Rightarrow> vlen \<Rightarrow> (BGM \<Rightarrow> bool) \<Rightarrow> Vector2 \<Rightarrow> app_event list \<Rightarrow> audio \<Rightarrow> audio option" where
  "hear rm sub len loaded target es a = audio_steps rm sub len loaded (map (\<lambda>e. (target, Event e)) es) a"

text \<open>
  \<open>None\<close> is undefined behaviour. The start fails when no match could be joined or the map does not come in time, and still waits when the polls given are used up.
  The camera is zero until \<open>camera_init\<close>.
\<close>

datatype start_end = Start_waits | Start_fails | Started program

definition start_position :: "bombapp \<Rightarrow> Vector2 option" where
  "start_position c = (case network_local_slot c of Some slot \<Rightarrow> app_vec (bm_position (ba_players c ! slot)) | None \<Rightarrow> Some (1, 1))"

definition initalise ::
  "raymath \<Rightarrow> BombStatePayload \<Rightarrow> vsub \<Rightarrow> vlen \<Rightarrow> (BGM \<Rightarrow> bool) \<Rightarrow> Vector2 \<Rightarrow> int \<times> int \<times> (nat \<Rightarrow> int) \<times> int \<times> u32 \<Rightarrow> u8 list list list \<Rightarrow> bombapp
    \<Rightarrow> start_end option" where
  "initalise rm junk sub len loaded screen_size net_results polls c0 =
     (case net_results of (init_r, join_r, states, get_id) \<Rightarrow>
        case network_connect init_r join_r states get_id (c0\<lparr>ba_events := []\<rparr>) of
          (False, _) \<Rightarrow> Some Start_fails
        | (True, c1) \<Rightarrow>
            (case network_wait_for_map rm junk 0 polls c1 of
               None \<Rightarrow> None
             | Some (Map_waits, _) \<Rightarrow> Some Start_waits
             | Some (Map_timeout, _) \<Rightarrow> Some Start_fails
             | Some (Map_here, c2) \<Rightarrow>
                 (case (hear rm sub len loaded (0, 0) (ba_events c2) audio_init, start_position c2) of
                    (Some a, Some start_pos) \<Rightarrow>
                      Some (Started \<lparr>pg_app = c2, pg_view = camera_init rm screen_size (ba_map_size c2) start_pos, pg_audio = play_bgm BGM_BATTLE a\<rparr>)
                  | _ \<Rightarrow> None)))"

text \<open>A frame: whether the current stream still plays, the frame time, the messages and the keys.\<close>

type_synonym program_input = "bool \<times> app_input"

definition program_frame ::
  "raymath \<Rightarrow> BombStatePayload \<Rightarrow> (Vector2 \<Rightarrow> Camera2D \<Rightarrow> Vector2) \<Rightarrow> vsub \<Rightarrow> vlen \<Rightarrow> (BGM \<Rightarrow> bool) \<Rightarrow> program_input \<Rightarrow> program \<Rightarrow> program option" where
  "program_frame rm junk w2s sub len loaded i pg =
     (case i of (playing, frame_time, msgs, k) \<Rightarrow>
        case update_loop rm junk frame_time msgs k ((pg_app pg)\<lparr>ba_events := []\<rparr>) of
          None \<Rightarrow> None
        | Some (c, out) \<Rightarrow>
            (case (hear rm sub len loaded (cam_target (vw_camera (pg_view pg))) (ba_events c) (audio_update loaded playing frame_time (pg_audio pg)),
                   view_frame rm w2s frame_time k c (pg_view pg)) of
               (Some a, Some (c', v)) \<Rightarrow> Some \<lparr>pg_app = c', pg_view = v, pg_audio = a\<rparr>
             | _ \<Rightarrow> None))"

fun program_run ::
  "raymath \<Rightarrow> BombStatePayload \<Rightarrow> (Vector2 \<Rightarrow> Camera2D \<Rightarrow> Vector2) \<Rightarrow> vsub \<Rightarrow> vlen \<Rightarrow> (BGM \<Rightarrow> bool) \<Rightarrow> program_input list \<Rightarrow> program \<Rightarrow> program option" where
  "program_run rm junk w2s sub len loaded [] pg = Some pg"
| "program_run rm junk w2s sub len loaded (i # is) pg =
     (case program_frame rm junk w2s sub len loaded i pg of None \<Rightarrow> None | Some pg' \<Rightarrow> program_run rm junk w2s sub len loaded is pg')"

lemma program_frame_cases:
  assumes "program_frame rm junk w2s sub len loaded (p, ft, msgs, k) pg = Some pg'"
  obtains c out where "update_loop rm junk ft msgs k ((pg_app pg)\<lparr>ba_events := []\<rparr>) = Some (c, out)"
    and "hear rm sub len loaded (cam_target (vw_camera (pg_view pg))) (ba_events c) (audio_update loaded p ft (pg_audio pg)) = Some (pg_audio pg')"
    and "view_frame rm w2s ft k c (pg_view pg) = Some (pg_app pg', pg_view pg')"
  using assms by (auto simp: program_frame_def split: option.splits)

section \<open>What the frames leave of the messages\<close>

abbreviation (input) messages_of :: "program_input \<Rightarrow> u8 list list" where "messages_of i \<equiv> fst (snd (snd i))"

lemma view_extra [simp]: "Bomb_App.view (c\<lparr>ba_events := es\<rparr>) = Bomb_App.view c" "Bomb_App.view (c\<lparr>ba_explodes := q\<rparr>) = Bomb_App.view c"
  by (simp_all add: Bomb_App.view_def)

lemma network_message_view:
  assumes "Bomb_App.view c = Bomb_App.view d"
  shows "map_option Bomb_App.view (network_message rm junk b c) = map_option Bomb_App.view (network_message rm junk b d)"
proof -
  have e: "ba_map c = ba_map d" "ba_map_size c = ba_map_size d" "ba_game_over c = ba_game_over d" "ba_winner_id c = ba_winner_id d" "ba_local_id c = ba_local_id d"
    using assms by (simp_all add: Bomb_App.view_def)
  have "Bomb_App.view (apply_map_init p c) = Bomb_App.view (apply_map_init p d)" for p using e by (simp add: apply_map_init_def Bomb_App.view_def Let_def)
  moreover have "Bomb_App.view (apply_game_over p c) = Bomb_App.view (apply_game_over p d)" for p using e by (simp add: apply_game_over_def Bomb_App.view_def Let_def)
  moreover have "map_option Bomb_App.view (apply_tile_update p c) = map_option Bomb_App.view (apply_tile_update p d)" for p
    using e by (auto simp: apply_tile_update_def Bomb_App.view_def option.map_comp o_def split: option.split)
  moreover have "Bomb_App.view (apply_explosion p c) = Bomb_App.view c" for p c by (simp add: apply_explosion_def)
  ultimately show ?thesis using assms by (simp add: network_message_def Let_def apply_roster_view apply_state_view)
qed

lemma network_poll_view:
  assumes "Bomb_App.view c = Bomb_App.view d"
  shows "map_option Bomb_App.view (network_poll rm junk bs c) = map_option Bomb_App.view (network_poll rm junk bs d)"
  using assms
proof (induction bs arbitrary: c d)
  case (Cons b bs)
  note m = network_message_view [OF Cons.prems, of rm junk b]
  show ?case
  proof (cases "network_message rm junk b c")
    case None
    then show ?thesis using m by simp
  next
    case (Some c')
    then obtain d' where d': "network_message rm junk b d = Some d'" "Bomb_App.view c' = Bomb_App.view d'" using m by (cases "network_message rm junk b d") simp_all
    show ?thesis using Cons.IH [OF d'(2)] by (simp add: Some d'(1))
  qed
qed simp

lemma update_loop_view:
  assumes "update_loop rm junk ft msgs k c = Some (c', out)"
  shows "map_option Bomb_App.view (network_poll rm junk msgs c) = Some (Bomb_App.view c')"
proof -
  have "Bomb_App.view (network_tick_explosions ft d) = Bomb_App.view d" for d by (simp add: network_tick_explosions_def Let_def)
  then show ?thesis using assms by (auto simp: update_loop_def Let_def split: option.splits)
qed

lemma view_frame_app:
  assumes "view_frame rm w2s ft k c v = Some (c', v')"
  shows "Bomb_App.view c' = Bomb_App.view c"
  using assms by (auto simp: view_frame_def spectate_def Let_def split: option.splits if_splits)

lemma program_frame_view:
  assumes "program_frame rm junk w2s sub len loaded i pg = Some pg'"
  shows "map_option Bomb_App.view (network_poll rm junk (messages_of i) (pg_app pg)) = Some (Bomb_App.view (pg_app pg'))"
proof -
  obtain p ft msgs k where i: "i = (p, ft, msgs, k)" by (metis prod.exhaust)
  let ?c = "(pg_app pg)\<lparr>ba_events := []\<rparr>"
  obtain c out where c: "update_loop rm junk ft msgs k ?c = Some (c, out)" "view_frame rm w2s ft k c (pg_view pg) = Some (pg_app pg', pg_view pg')"
    using program_frame_cases [OF assms [unfolded i]] .
  show ?thesis using update_loop_view [OF c(1)] view_frame_app [OF c(2)] network_poll_view [of ?c "pg_app pg" rm junk msgs] by (simp add: i)
qed

lemma program_run_view:
  assumes "program_run rm junk w2s sub len loaded is pg = Some pg'"
  shows "map_option Bomb_App.view (network_poll rm junk (concat (map messages_of is)) (pg_app pg)) = Some (Bomb_App.view (pg_app pg'))"
  using assms
proof (induction "is" arbitrary: pg)
  case (Cons i "is")
  obtain pg1 where p: "program_frame rm junk w2s sub len loaded i pg = Some pg1" "program_run rm junk w2s sub len loaded is pg1 = Some pg'"
    using Cons.prems by (auto split: option.splits)
  obtain c where c: "network_poll rm junk (messages_of i) (pg_app pg) = Some c" "Bomb_App.view c = Bomb_App.view (pg_app pg1)"
    using program_frame_view [OF p(1)] by auto
  show ?case using c Cons.IH [OF p(2)] network_poll_view [OF c(2)] by (simp add: network_poll_append)
qed simp

section \<open>The sound of a run\<close>

lemma program_frame_audio:
  assumes "program_frame rm junk w2s sub len loaded i pg = Some pg'" and "audio_wf (pg_audio pg)" and "0 \<le> fst (snd i)"
  shows "audio_wf (pg_audio pg')"
proof -
  obtain p ft msgs k where i: "i = (p, ft, msgs, k)" by (metis prod.exhaust)
  obtain target es where "hear rm sub len loaded target es (audio_update loaded p ft (pg_audio pg)) = Some (pg_audio pg')"
    using program_frame_cases [OF assms(1) [unfolded i]] .
  then have "audio_steps rm sub len loaded ((target, Frame p ft) # map (\<lambda>e. (target, Event e)) es) (pg_audio pg) = Some (pg_audio pg')"
    by (simp add: hear_def)
  then show ?thesis by (rule audio_steps_wf [OF _ assms(2)]) (use assms(3) in \<open>auto simp: i\<close>)
qed

lemma program_run_audio:
  assumes "program_run rm junk w2s sub len loaded is pg = Some pg'" and "audio_wf (pg_audio pg)" and "\<forall>i \<in> set is. 0 \<le> fst (snd i)"
  shows "audio_wf (pg_audio pg')"
  using assms
proof (induction "is" arbitrary: pg)
  case (Cons i "is")
  obtain pg1 where p: "program_frame rm junk w2s sub len loaded i pg = Some pg1" "program_run rm junk w2s sub len loaded is pg1 = Some pg'"
    using Cons.prems(1) by (auto split: option.splits)
  show ?case using Cons.IH [OF p(2)] program_frame_audio [OF p(1) Cons.prems(2)] Cons.prems(3) by simp
qed simp

text \<open>Once a stream plays, the program is never silent again.\<close>

lemma program_run_curr:
  assumes "program_run rm junk w2s sub len loaded is pg = Some pg'" and "au_curr_bgm (pg_audio pg) \<noteq> None"
  shows "au_curr_bgm (pg_audio pg') \<noteq> None"
  using assms
proof (induction "is" arbitrary: pg)
  case (Cons i "is")
  obtain pg1 where p: "program_frame rm junk w2s sub len loaded i pg = Some pg1" "program_run rm junk w2s sub len loaded is pg1 = Some pg'"
    using Cons.prems(1) by (auto split: option.splits)
  obtain pl ft msgs k where i: "i = (pl, ft, msgs, k)" by (metis prod.exhaust)
  obtain target es where "hear rm sub len loaded target es (audio_update loaded pl ft (pg_audio pg)) = Some (pg_audio pg1)"
    using program_frame_cases [OF p(1) [unfolded i]] .
  then have "audio_steps rm sub len loaded ((target, Frame pl ft) # map (\<lambda>e. (target, Event e)) es) (pg_audio pg) = Some (pg_audio pg1)"
    by (simp add: hear_def)
  from audio_steps_curr [OF this Cons.prems(2)] show ?case by (rule Cons.IH [OF p(2)])
qed simp

text \<open>The frame in which a client reads that it has won starts the music of the victory.\<close>

lemma audio_steps_append:
  "audio_steps rm sub len loaded (es @ fs) a = (case audio_steps rm sub len loaded es a of None \<Rightarrow> None | Some a' \<Rightarrow> audio_steps rm sub len loaded fs a')"
  by (induction es arbitrary: a) (auto split: option.splits)

lemma network_poll_local: "network_poll rm junk bs c = Some c' \<Longrightarrow> ba_local_id c' = ba_local_id c"
proof (induction bs arbitrary: c)
  case (Cons b bs)
  have r: "ba_local_id (apply_roster rm ro c) = ba_local_id c" "ba_local_id (apply_state rm st c) = ba_local_id c" for ro st
    using apply_roster_view [of rm ro c] apply_state_view [of rm st c] by (simp_all add: Bomb_App.view_def)
  have "ba_local_id c1 = ba_local_id c" if "network_message rm junk b c = Some c1" for c1
    using that by (auto simp: r network_message_def apply_map_init_def apply_game_over_def apply_explosion_def apply_tile_update_def Let_def split: if_splits option.splits)
  then show ?case using Cons by (auto split: option.splits)
qed simp

lemma victory_is_heard:
  assumes "program_frame rm junk w2s sub len loaded (p, ft, msgs @ [pack_game_over zero_buffer \<lparr>go_winner_id = w\<rparr>], k) pg = Some pg'"
    and "w = ba_local_id (pg_app pg)" and "w \<noteq> 0"
  shows "au_curr_bgm (pg_audio pg') = Some BGM_WIN" and "status_text (pg_app pg') = Some ''YOU WIN!''"
proof -
  let ?c = "(pg_app pg)\<lparr>ba_events := []\<rparr>" and ?g = "pack_game_over zero_buffer \<lparr>go_winner_id = w\<rparr>"
  obtain c out where c: "update_loop rm junk ft (msgs @ [?g]) k ?c = Some (c, out)"
      "hear rm sub len loaded (cam_target (vw_camera (pg_view pg))) (ba_events c) (audio_update loaded p ft (pg_audio pg)) = Some (pg_audio pg')"
      "view_frame rm w2s ft k c (pg_view pg) = Some (pg_app pg', pg_view pg')" using program_frame_cases [OF assms(1)] .
  obtain c0 where c0: "network_poll rm junk msgs ?c = Some c0" using c(1) by (auto simp: update_loop_def network_poll_append split: option.splits)
  have l: "ba_local_id c0 = w" using network_poll_local [OF c0] assms(2) by simp
  have n: "network_poll rm junk (msgs @ [?g]) ?c = Some (event_bus_trigger_app EVENT_MATCH_WON (c0\<lparr>ba_game_over := True, ba_winner_id := w\<rparr>))"
    using c0 l assms(3) by (simp add: network_poll_append network_message_packets apply_game_over_def Let_def)
  have "ba_events c = ba_events c0 @ [EVENT_MATCH_WON]"
    using c(1) n by (auto simp: update_loop_def network_tick_explosions_def event_bus_trigger_app_def Let_def split: option.splits)
  then obtain a where a: "Some (play_bgm BGM_WIN a) = Some (pg_audio pg')" using c(2) by (auto simp: hear_def audio_steps_append split: option.splits)
  have "au_curr_bgm (play_bgm BGM_WIN a) = Some BGM_WIN" by (simp add: play_bgm_def)
  then show "au_curr_bgm (pg_audio pg') = Some BGM_WIN" using a by simp
  have "Bomb_App.view (pg_app pg') = Bomb_App.view (c0\<lparr>ba_game_over := True, ba_winner_id := w\<rparr>)"
    using update_loop_view [OF c(1)] view_frame_app [OF c(3)] n by simp
  then show "status_text (pg_app pg') = Some ''YOU WIN!''" using l assms(3) by (simp add: Bomb_App.view_def status_text_def)
qed

section \<open>The start\<close>

lemma wait_reads:
  assumes "network_wait_for_map rm junk t polls c = Some (Map_here, c')"
  shows "\<exists>j \<le> length polls. network_wait_for_map rm junk t (take j polls) c = Some (Map_here, c') \<and> network_poll rm junk (concat (take j polls)) c = Some c'"
  using assms
proof (induction polls arbitrary: t c)
  case (Cons msgs polls)
  show ?case
  proof (cases "ba_has_map c")
    case True
    then show ?thesis using Cons.prems by (intro exI [of _ 0]) simp
  next
    case False
    obtain c1 where c1: "network_poll rm junk msgs c = Some c1" using Cons.prems False by (auto split: option.splits)
    show ?thesis
    proof (cases "ba_has_map c1")
      case True
      then show ?thesis using Cons.prems False c1 by (intro exI [of _ 1]) simp
    next
      case no: False
      then have "network_wait_for_map rm junk (t + 50) polls c1 = Some (Map_here, c')" "\<not> 5000 \<le> t + 50" using Cons.prems False c1 by (auto split: if_splits)
      from Cons.IH [OF this(1)] this(2) obtain j where "j \<le> length polls" "network_wait_for_map rm junk (t + 50) (take j polls) c1 = Some (Map_here, c')"
        "network_poll rm junk (concat (take j polls)) c1 = Some c'" by blast
      then show ?thesis using False no c1 \<open>\<not> 5000 \<le> t + 50\<close> by (intro exI [of _ "Suc j"]) (simp add: network_poll_append)
    qed
  qed
qed (auto split: if_splits)

text \<open>The client has read the polls that it needed, and the battle theme plays.\<close>

lemma initalise_starts:
  assumes "initalise rm junk sub len loaded scr nr polls c0 = Some (Started pg)" and "\<forall>k < length polls. initalise rm junk sub len loaded scr nr (take k polls) c0 = Some Start_waits"
  obtains c1 where "network_poll rm junk (concat polls) c1 = Some (pg_app pg)" and "audio_wf (pg_audio pg)" and "au_curr_bgm (pg_audio pg) = Some BGM_BATTLE"
proof -
  obtain init_r join_r states get_id where nr: "nr = (init_r, join_r, states, get_id)" by (metis prod.exhaust)
  obtain c1 where c1: "network_connect init_r join_r states get_id (c0\<lparr>ba_events := []\<rparr>) = (True, c1)"
    using assms(1) by (auto simp: initalise_def nr split: prod.splits bool.splits)
  obtain a st where w: "network_wait_for_map rm junk 0 polls c1 = Some (Map_here, pg_app pg)"
      and a: "hear rm sub len loaded (0, 0) (ba_events (pg_app pg)) audio_init = Some a" "pg_audio pg = play_bgm BGM_BATTLE a" "start_position (pg_app pg) = Some st"
    using assms(1) c1 by (auto simp: initalise_def nr split: option.splits map_wait.splits)
  obtain j where j: "j \<le> length polls" "network_wait_for_map rm junk 0 (take j polls) c1 = Some (Map_here, pg_app pg)"
      "network_poll rm junk (concat (take j polls)) c1 = Some (pg_app pg)" using wait_reads [OF w] by blast
  have "initalise rm junk sub len loaded scr nr (take j polls) c0 \<noteq> Some Start_waits" using c1 j(2) a(1,3) by (simp add: initalise_def nr)
  then have "j = length polls" using assms(2) j(1) by (metis le_neq_implies_less)
  then have p: "network_poll rm junk (concat polls) c1 = Some (pg_app pg)" using j(3) by simp
  have "audio_wf audio_init" using MUSIC_VOLUME_round(2) by (auto simp: audio_wf_def audio_init_def SFX_VOLUME_def)
  then have "audio_wf a" using audio_steps_wf [OF a(1) [unfolded hear_def]] by auto
  then have "audio_wf (pg_audio pg)" unfolding a(2) by (rule play_wf)
  moreover have "au_curr_bgm (pg_audio pg) = Some BGM_BATTLE" by (simp add: a(2) play_bgm_def)
  ultimately show thesis using that p by blast
qed

section \<open>A client without players of its own\<close>

text \<open>The directions of the client's players are indices into the four sheets.\<close>

definition facing_ok :: "bombapp \<Rightarrow> bool" where
  "facing_ok c \<longleftrightarrow> (\<forall>bm \<in> set (ba_players c). 0 \<le> bm_direction bm \<and> bm_direction bm < 4) \<and> nat (ba_player_count c) \<le> length (ba_players c) \<and> length (ba_players c) = 25"

lemma apply_roster_facing: "facing_ok c \<Longrightarrow> facing_ok (apply_roster rm ro c)"
proof -
  have "facing_ok (snd (find_or_add_slot rm x c))" if "facing_ok c" for x c
    using that by (auto simp: find_or_add_slot_def facing_ok_def find_Some_iff bomberman_create_default_def Let_def dest!: subsetD [OF set_update_subset_insert] split: option.splits)
  then have "facing_ok (fold (\<lambda>i c. snd (find_or_add_slot rm (ro_ids ro ! i) c)) is c)" if "facing_ok c" for "is" c
    using that by (induction "is" arbitrary: c) simp_all
  then show "facing_ok c \<Longrightarrow> facing_ok (apply_roster rm ro c)" by (simp add: apply_roster_def)
qed

lemma update_players_ok:
  "\<forall>bm \<in> set ps. 0 \<le> bm_direction bm \<and> bm_direction bm < 4 \<Longrightarrow> \<forall>i \<in> set is. i < length ps \<Longrightarrow> \<exists>ps'. update_players ft is ps = Some ps'"
proof (induction "is" arbitrary: ps)
  case (Cons i "is")
  have i: "0 \<le> bm_direction (ps ! i) \<and> bm_direction (ps ! i) < 4" using Cons.prems by simp
  let ?ps = "ps[i := (ps ! i)\<lparr>bm_inventory := inventory_update (bm_inventory (ps ! i)) ft\<rparr>]"
  have "\<forall>bm \<in> set ?ps. 0 \<le> bm_direction bm \<and> bm_direction bm < 4" using Cons.prems(1) i by (auto dest!: subsetD [OF set_update_subset_insert])
  then show ?case using Cons.IH [of ?ps] Cons.prems(2) i by (simp add: bomberman_update_def)
qed simp

section \<open>Properties\<close>

text \<open>
  C18 (program_shows_match): the client as a program shows the match of the server. Let it join, wait for its map and then run its main loop, reading in any portions and between any explosion datagrams what the server sent since the match
  was set up; for as long as the client runs it then draws the tiles of the server's map within its first 20 rows and columns, and grass beyond them, and when the match has been decided it
  shows the verdict of the server. Exactly one music stream is heard, the current one.
\<close>

theorem program_shows_match:
  assumes "raymath_law rm" and "0 < unat lobby_size" and "initalise rm junk sub len loaded scr nr polls c0 = Some (Started pg)" and "\<forall>k < length polls. initalise rm junk sub len loaded scr nr (take k polls) c0 = Some Start_waits"
    and "\<forall>i \<in> set is. 0 \<le> fst (snd i)" and "program_run rm junk w2s sub len loaded is pg = Some pg'"
    and "bombd_setup rm lobby_size client_ids a0 = Some (d0, out0)" and "bombd_run rm ts d0 = Some (d, out, w)"
    and "reliable (concat polls @ concat (map messages_of is)) = tcp_part (out0 @ out)"
  shows "tiles_draw tex_size (pg_app pg') = Some (map_picture tex_size (ar_map (bd_arena d)))
     \<and> (\<forall>x. w = Some x \<longrightarrow> status_text (pg_app pg') = Some (verdict x (ba_local_id (pg_app pg'))))
     \<and> (\<exists>b. sounding (au_calls (pg_audio pg')) {} = {b} \<and> au_curr_bgm (pg_audio pg') = Some b)"
proof -
  let ?n = "calc_map_size (int (min (unat lobby_size) 25)) + 2"
  obtain c1 where c1: "network_poll rm junk (concat polls) c1 = Some (pg_app pg)" "audio_wf (pg_audio pg)" "au_curr_bgm (pg_audio pg) = Some BGM_BATTLE"
    using initalise_starts [OF assms(3,4)] .
  have run: "\<exists>d' out' w'. bombd_run rm ts d0 = Some (d', out', w') \<and> map_wf ?n (ar_map (bd_arena d'))
     \<and> (\<forall>rcv c. reliable rcv = tcp_part (out0 @ out') \<longrightarrow> (\<exists>c'. network_poll rm junk rcv c = Some c' \<and> mirrors (ar_map (bd_arena d')) c'
          \<and> (case w' of None \<Rightarrow> ba_game_over c' = ba_game_over c | Some x \<Rightarrow> ba_game_over c' \<and> ba_winner_id c' = x)))"
    using client_follows [OF assms(1,2), of client_ids a0 junk] unfolding assms(7) option.inject prod.inject by blast
  note f = run [unfolded assms(8) option.inject prod.inject]
  have "map_wf ?n (ar_map (bd_arena d))" and "\<exists>c'. network_poll rm junk (concat polls @ concat (map messages_of is)) c1 = Some c' \<and> mirrors (ar_map (bd_arena d)) c'
      \<and> (case w of None \<Rightarrow> ba_game_over c' = ba_game_over c1 | Some x \<Rightarrow> ba_game_over c' \<and> ba_winner_id c' = x)"
    using f assms(9) by blast+
  then obtain c' where
    c': "network_poll rm junk (concat polls @ concat (map messages_of is)) c1 = Some c'" "mirrors (ar_map (bd_arena d)) c'" "map_wf ?n (ar_map (bd_arena d))"
      "case w of None \<Rightarrow> ba_game_over c' = ba_game_over c1 | Some x \<Rightarrow> ba_game_over c' \<and> ba_winner_id c' = x"
    by blast
  have v: "Bomb_App.view (pg_app pg') = Bomb_App.view c'" using program_run_view [OF assms(6)] c'(1) c1(1) by (simp add: network_poll_append)
  then have "mirrors (ar_map (bd_arena d)) (pg_app pg')" using c'(2) by (simp add: Bomb_App.view_def mirrors_def)
  then have "tiles_draw tex_size (pg_app pg') = Some (map_picture tex_size (ar_map (bd_arena d)))"
    using mirrored_map_drawn map_wf_square [OF c'(3)] by (simp add: square_def)
  moreover have "status_text (pg_app pg') = Some (verdict x (ba_local_id (pg_app pg')))" if "w = Some x" for x
    using that c'(4) v by (simp add: Bomb_App.view_def status_text_def verdict_def Let_def)
  moreover have "audio_wf (pg_audio pg')" "au_curr_bgm (pg_audio pg') \<noteq> None"
    using program_run_audio [OF assms(6) c1(2) assms(5)] program_run_curr [OF assms(6)] c1(3) by simp_all
  ultimately show ?thesis by (auto simp: audio_wf_def)
qed

lemma quiet_frame:
  assumes "facing_ok (pg_app pg)" and "network_local_slot (pg_app pg) = None" and "app_vec (ba_spectator_cam_pos (pg_app pg)) = Some pos"
    and "2 \<le> ba_map_size (pg_app pg)" and "ba_map_size (pg_app pg) \<le> 64"
  shows "\<exists>pg'. program_frame demo_raymath junk w2s sub len loaded (p, ft, [], k) pg = Some pg'"
proof -
  let ?c = "(pg_app pg)\<lparr>ba_events := []\<rparr>"
  define c2 where "c2 = network_tick_explosions ft ?c"
  have c2: "ba_players c2 = ba_players (pg_app pg)" "ba_player_count c2 = ba_player_count (pg_app pg)" "network_local_slot c2 = None" "ba_events c2 = []"
      "ba_spectator_cam_pos c2 = ba_spectator_cam_pos (pg_app pg)" "ba_map_size c2 = ba_map_size (pg_app pg)"
    using assms(2) by (simp_all add: c2_def network_tick_explosions_def network_local_slot_def player_slot_def Let_def)
  obtain ps out where u: "update_loop demo_raymath junk ft [] k ?c = Some (c2\<lparr>ba_players := ps\<rparr>, out)"
    using update_players_ok [of "ba_players c2" "[0..<nat (ba_player_count c2)]" ft] assms(1) c2(1,2) by (auto simp: update_loop_def facing_ok_def Let_def c2_def [symmetric])
  let ?d = "c2\<lparr>ba_players := ps\<rparr>"
  have sl: "network_local_slot (?d\<lparr>ba_spectator_cam_pos := x\<rparr>) = None" "network_local_slot ?d = None" for x using c2(3) by (simp_all add: network_local_slot_def player_slot_def)
  have dead: "\<not> local_alive ?d" using sl(2) by (simp add: local_alive_def)
  have "\<exists>d' t. spectate demo_raymath ft k ?d = Some d' \<and> app_vec (network_get_camera_target d') = Some t"
  proof (cases "ba_game_over ?d")
    case True
    then show ?thesis using sl(2) c2(5) assms(3) by (simp add: spectate_def network_get_camera_target_def)
  next
    case False
    then show ?thesis using spectator_in_map(2) [OF demo_raymath_law assms(4,5,3) refl, of ft k] dead sl(1) c2(5,6) assms(3)
      by (simp add: spectate_def network_get_camera_target_def Let_def)
  qed
  then obtain d' t where "view_frame demo_raymath w2s ft k ?d (pg_view pg) = Some (d', camera_update demo_raymath w2s t (pg_view pg))" by (auto simp: view_frame_def)
  then show ?thesis using u c2(4) by (simp add: program_frame_def hear_def)
qed

text \<open>A client that watches a match of two others: it joins, reads roster and map, and runs a frame.\<close>

definition watcher :: bombapp where
  "watcher = (fresh_app 0)\<lparr>ba_spectator_cam_pos := (f32_bits 1, f32_bits 1)\<rparr>"

lemma watcher_start:
  assumes "bombd_setup demo_raymath 2 [7, 9] (demo_arena []) = Some (d0, out0)"
  obtains pg where "initalise demo_raymath (sample_state 1) (\<lambda>v w. v) fst (\<lambda>_. True) (1920, 1080) (0, 0, \<lambda>_. 2, 0, 3) [tcp_part out0] watcher = Some (Started pg)"
    and "facing_ok (pg_app pg)" and "network_local_slot (pg_app pg) = None" and "app_vec (ba_spectator_cam_pos (pg_app pg)) = Some (1, 1)"
    and "2 \<le> ba_map_size (pg_app pg)" and "ba_map_size (pg_app pg) \<le> 64"
proof -
  have two: "0 < unat (2 :: u32)" "min (unat (2 :: u32)) 25 = 2" by simp_all
  define m where "m = calc_map_size 2 + 2"
  have n: "2 \<le> m" "m \<le> 30" unfolding m_def by code_simp+
  obtain s a tiles where su: "bombd_setup demo_raymath 2 [7, 9] (demo_arena []) = Some (\<lparr>bd_session = s, bd_arena = a, bd_prev_map = tiles\<rparr>,
       [roster_packet 2 [7, 9], To_all (pack_map_init zero_buffer \<lparr>mi_map_size = word_of_int (calc_map_size (int 2) + 2), mi_tiles = concat tiles\<rparr>)])"
      "bombd_wf (calc_map_size (int 2) + 2) \<lparr>bd_session = s, bd_arena = a, bd_prev_map = tiles\<rparr>"
    by (rule bombd_setup_sound [OF demo_raymath_law two(1), of "[7, 9]" "demo_arena []", unfolded two(2)]) (rule that)
  have o: "out0 = [roster_packet 2 [7, 9], To_all (pack_map_init zero_buffer \<lparr>mi_map_size = word_of_int m, mi_tiles = concat tiles\<rparr>)]"
      "bombd_wf m \<lparr>bd_session = s, bd_arena = a, bd_prev_map = tiles\<rparr>" using su assms by (simp_all add: m_def)
  have "square 20 tiles" using o(2) by (simp add: bombd_wf_def synced_def)
  then have len: "length (concat tiles) = 400" using concat_uniform(1) [of tiles 20] by (simp add: square_def)
  let ?c = "watcher\<lparr>ba_local_id := 3\<rparr>" and ?mi = "unpack_map_init (pack_map_init zero_buffer \<lparr>mi_map_size = word_of_int m, mi_tiles = concat tiles\<rparr>)"
  obtain ro where ro: "roster_packet 2 [7, 9] = To_all (pack_roster zero_buffer ro)" by (auto simp: roster_packet_def Let_def)
  define c1 where "c1 = apply_roster demo_raymath (unpack_roster (pack_roster zero_buffer ro)) ?c"
  have m1: "network_message demo_raymath (sample_state 1) (pack_roster zero_buffer ro) ?c = Some c1" by (simp add: c1_def network_message_packets)
  have seat: "seated [] ?c" by (simp add: seated_def watcher_def fresh_app_def Let_def)
  have ids: "distinct (take 2 [7, 9 :: u32])" "take 2 [7, 9 :: u32] = [7, 9]" "2 = min (unat (2 :: u32)) 25" "2 \<le> length [7, 9 :: u32]" by simp_all
  obtain b c' where b: "roster_packet 2 [7, 9] = To_all b" "network_message demo_raymath (sample_state 1) b ?c = Some c'" "seated [7, 9] c'"
    using roster_seats [OF seat ids(1,3,4), of demo_raymath "sample_state 1", unfolded ids(2)] by blast
  have "b = pack_roster zero_buffer ro" using b(1) ro by (metis server_out.inject(1))
  then have st: "seated [7, 9] c1" using b(2,3) m1 by (metis option.inject)
  define c2 where "c2 = apply_map_init ?mi c1"
  have slot: "ba_events (snd (find_or_add_slot rm x d)) = ba_events d" "ba_spectator_cam_pos (snd (find_or_add_slot rm x d)) = ba_spectator_cam_pos d"
      "ba_local_id (snd (find_or_add_slot rm x d)) = ba_local_id d" for rm x d by (simp_all add: find_or_add_slot_def split: option.split)
  have "ba_events c1 = ba_events ?c" "ba_spectator_cam_pos c1 = ba_spectator_cam_pos ?c" "ba_local_id c1 = ba_local_id ?c"
    unfolding c1_def apply_roster_def by (rule fold_keeps, rule slot)+
  then have keep: "ba_events c1 = []" "ba_spectator_cam_pos c1 = (f32_bits 1, f32_bits 1)" "ba_local_id c1 = 3" by (simp_all add: watcher_def fresh_app_def Let_def)
  have p: "network_poll demo_raymath (sample_state 1) (tcp_part out0) ?c = Some c2" unfolding o(1) ro by (simp add: m1 network_message_packets(2) c2_def)
  have "facing_ok ?c" by (simp add: facing_ok_def watcher_def fresh_app_def Let_def)
  then have "facing_ok c1" unfolding c1_def by (rule apply_roster_facing)
  then have f: "facing_ok c2" by (simp add: facing_ok_def c2_def apply_map_init_def Let_def)
  have "ba_player_ids c1 ! i \<in> set [7, 9]" if "i < 25" "ba_slot_used c1 ! i" for i using st that unfolding seated_def by (metis nth_mem)
  then have "player_slot 3 c1 = None" unfolding player_slot_def find_None_iff by (fastforce simp del: upt_rec_numeral)
  then have sl: "network_local_slot c2 = None" using keep(3) by (simp add: network_local_slot_def player_slot_def c2_def apply_map_init_def Let_def)
  have "?mi = \<lparr>mi_map_size = word_of_int m, mi_tiles = concat tiles\<rparr>" by (rule map_init.dec_enc) (simp add: len)
  then have sz: "ba_map_size c2 = m" using small_word(2) [of m] n by (simp add: c2_def apply_map_init_def Let_def)
  have "is_f32 1" using f32_round_int [of 1] by (simp add: is_f32_def power_int_def)
  then have "f32_of_bits (f32_bits 1) = Some 1" by (rule f32_of_bits_bits)
  then have one: "app_vec (ba_spectator_cam_pos c2) = Some (1, 1)" using keep(2) by (simp add: c2_def apply_map_init_def Let_def app_vec_def)
  have ev: "ba_events c2 = []" "ba_has_map c2" using keep(1) by (simp_all add: c2_def apply_map_init_def Let_def)
  have "\<not> ba_has_map ?c" "network_connect 0 0 (\<lambda>_. 2) (0, 3) (watcher\<lparr>ba_events := []\<rparr>) = (True, ?c)"
    by (simp_all add: network_connect_def lobby_wait.simps watcher_def fresh_app_def Let_def)
  then have "initalise demo_raymath (sample_state 1) (\<lambda>v w. v) fst (\<lambda>_. True) (1920, 1080) (0, 0, \<lambda>_. 2, 0, 3) [tcp_part out0] watcher =
      Some (Started \<lparr>pg_app = c2, pg_view = camera_init demo_raymath (1920, 1080) (ba_map_size c2) (1, 1), pg_audio = play_bgm BGM_BATTLE audio_init\<rparr>)"
    using p ev sl by (simp add: initalise_def hear_def start_position_def)
  then show thesis by (rule that) (use f sl one sz n in simp_all)
qed

theorem program_shows_match_witness:
  "\<exists>d0 out0 pg pg'. bombd_setup demo_raymath 2 [7, 9] (demo_arena []) = Some (d0, out0)
     \<and> initalise demo_raymath (sample_state 1) (\<lambda>v w. v) fst (\<lambda>_. True) (1920, 1080) (0, 0, \<lambda>_. 2, 0, 3) [tcp_part out0] watcher = Some (Started pg)
     \<and> program_run demo_raymath (sample_state 1) plain_projection (\<lambda>v w. v) fst (\<lambda>_. True) [(True, 1 / 64, [], no_keys)] pg = Some pg'
     \<and> tiles_draw (\<lambda>_. (16, 16)) (pg_app pg') = Some (map_picture (\<lambda>_. (16, 16)) (ar_map (bd_arena d0)))"
proof -
  have two: "0 < unat (2 :: u32)" by simp
  obtain d0 out0 where s0: "bombd_setup demo_raymath 2 [7, 9] (demo_arena []) = Some (d0, out0)"
      and r0: "\<And>ts. \<exists>d out w. bombd_run demo_raymath ts d0 = Some (d, out, w) \<and> reliable (tcp_part (out0 @ out)) = tcp_part (out0 @ out)"
    using client_follows [OF demo_raymath_law two, of "[7, 9]" "demo_arena []" "sample_state 1"] by meson
  have s: "bombd_setup demo_raymath 2 [7, 9] (demo_arena []) = Some (d0, out0)" "reliable (tcp_part out0) = tcp_part out0" using s0 r0 [of "[]"] by auto
  let ?i = "\<lambda>polls. initalise demo_raymath (sample_state 1) (\<lambda>v w. v) fst (\<lambda>_. True) (1920, 1080) (0, 0, \<lambda>_. 2, 0, 3) polls watcher"
  obtain pg where pg: "?i [tcp_part out0] = Some (Started pg)" "facing_ok (pg_app pg)" "network_local_slot (pg_app pg) = None"
      "app_vec (ba_spectator_cam_pos (pg_app pg)) = Some (1, 1)" "2 \<le> ba_map_size (pg_app pg)" "ba_map_size (pg_app pg) \<le> 64"
    using watcher_start [OF s(1)] .
  have "?i [] = Some Start_waits" by (subst initalise_def) (simp add: network_connect_def lobby_wait.simps watcher_def fresh_app_def Let_def)
  then have m: "\<forall>k < length [tcp_part out0]. ?i (take k [tcp_part out0]) = Some Start_waits" by simp
  obtain pg' where p: "program_run demo_raymath (sample_state 1) plain_projection (\<lambda>v w. v) fst (\<lambda>_. True) [(True, 1 / 64, [], no_keys)] pg = Some pg'"
    using quiet_frame [OF pg(2-6), of "sample_state 1" plain_projection "\<lambda>v w. v" fst "\<lambda>_. True" True "1 / 64" no_keys] by auto
  have "bombd_run demo_raymath [] d0 = Some (d0, [], None)" by simp
  from program_shows_match [OF demo_raymath_law two pg(1) m _ p s(1) this, of "\<lambda>_. (16, 16)"] s(2) show ?thesis using s(1) pg(1) p by auto
qed

end
