(* ===== verification/Bomb_Solo.thy ===== *)
theory Bomb_Solo
  imports Bomb_Match Event_Bus
begin

text \<open>
  The game without a server: \<open>bombapp/player.c\<close>, \<open>bombapp/input.c\<close> and the standalone branch of \<open>bombapp/main.c\<close>. One player moves through the
  handlers that \<open>player_init\<close> registers on the event bus. The keys that raylib reports for a frame and the time of the frame are arguments;
  sounds, the camera and the drawing are left out.
\<close>

section \<open>The player's handlers\<close>

record solo =
  so_box :: BoundBox
  so_direction :: int
  so_is_moving :: bool
  so_inventory :: InventoryStock
  so_speed :: f32
  so_arena :: Arena

text \<open>The loop over the overlapping tiles; unlike its twin on the server it does not test that a tile is on the map.\<close>

fun consume_powerups :: "(int \<times> int) list \<Rightarrow> InventoryStock \<times> Arena \<Rightarrow> (InventoryStock \<times> Arena) option" where
  "consume_powerups [] st = Some st"
| "consume_powerups (p # ps) (stock, a) =
     (case grid_get (ar_map a) (fst p) (snd p) of
        None \<Rightarrow> None
      | Some POWERUP_FIRE \<Rightarrow>
          (case write_tile (fst p) (snd p) EMPTY a of
             None \<Rightarrow> None
           | Some a' \<Rightarrow> consume_powerups ps (stock\<lparr>st_num_fires := st_num_fires stock + 1\<rparr>, a'))
      | Some POWERUP_BOMB \<Rightarrow>
          (case write_tile (fst p) (snd p) EMPTY a of
             None \<Rightarrow> None
           | Some a' \<Rightarrow> consume_powerups ps (stock\<lparr>st_num_bombs := st_num_bombs stock + 1, st_remaining_bombs := st_remaining_bombs stock + 1\<rparr>, a'))
      | Some _ \<Rightarrow> consume_powerups ps (stock, a))"

definition solo_direction :: "int \<Rightarrow> int \<Rightarrow> int \<Rightarrow> int" where
  "solo_direction x y d = (if y > 0 then 0 else if y < 0 then 1 else if x < 0 then 2 else if x > 0 then 3 else d)"

definition on_move_performing :: "raymath \<Rightarrow> f32 \<Rightarrow> int \<Rightarrow> int \<Rightarrow> solo \<Rightarrow> solo option" where
  "on_move_performing rm frame_time x y so =
     (let move_vec = rm_normalize rm (f_of_int x, f_of_int (- y))
      in case move_box rm (ar_map (so_arena so)) (so_box so) (rm_scale rm move_vec (f_mul (so_speed so) frame_time)) of
           None \<Rightarrow> None
         | Some box \<Rightarrow>
             (case consume_powerups (box_tiles (fst (bx_position box)) (snd (bx_position box)) (bx_size box)) (so_inventory so, so_arena so) of
                None \<Rightarrow> None
              | Some (stock, a) \<Rightarrow>
                  Some (so\<lparr>so_box := box, so_direction := solo_direction x y (so_direction so), so_inventory := stock, so_arena := a,
                           so_is_moving := True\<rparr>)))"

definition on_move_released :: "solo \<Rightarrow> solo" where
  "on_move_released so = so\<lparr>so_is_moving := False\<rparr>"

definition on_sprint_toggled :: "bool \<Rightarrow> solo \<Rightarrow> solo" where
  "on_sprint_toggled toggled so = so\<lparr>so_speed := (if toggled then SIM_PLAYER_SPRINT_SPEED else SIM_PLAYER_SPEED)\<rparr>"

definition on_bomb_pressed :: "solo \<Rightarrow> solo option" where
  "on_bomb_pressed so =
     map_option (\<lambda>(_, stock, a). so\<lparr>so_inventory := stock, so_arena := a\<rparr>) (place_bomb (get_center_box (so_box so)) (so_inventory so) (so_arena so))"

section \<open>Input through the event bus\<close>

datatype solo_handler = On_move_performing | On_move_released | On_sprint_toggled | On_bomb_pressed

datatype solo_args = MoveEventArgs int int | SprintEventArgs bool | NULL_args

definition EVENT_INPUT_MOVE_PERFORMING :: int where "EVENT_INPUT_MOVE_PERFORMING = 0"
definition EVENT_INPUT_MOVE_RELEASED :: int where "EVENT_INPUT_MOVE_RELEASED = 1"
definition EVENT_INPUT_BOMB_PRESSED :: int where "EVENT_INPUT_BOMB_PRESSED = 2"
definition EVENT_INPUT_EXIT_PRESSED :: int where "EVENT_INPUT_EXIT_PRESSED = 3"
definition EVENT_INPUT_SPRINT_CHANGED :: int where "EVENT_INPUT_SPRINT_CHANGED = 4"
definition EVENT_COUNT :: int where "EVENT_COUNT = 8"

text \<open>What a call of a handler does; the arguments that it casts its pointer to are those that its event is triggered with.\<close>

fun call_solo :: "raymath \<Rightarrow> f32 \<Rightarrow> solo_handler \<Rightarrow> solo_args \<Rightarrow> solo option \<Rightarrow> solo option" where
  "call_solo rm ft On_move_performing (MoveEventArgs x y) so = Option.bind so (on_move_performing rm ft x y)"
| "call_solo rm ft On_move_released args so = map_option on_move_released so"
| "call_solo rm ft On_sprint_toggled (SprintEventArgs b) so = map_option (on_sprint_toggled b) so"
| "call_solo rm ft On_bomb_pressed args so = Option.bind so on_bomb_pressed"
| "call_solo rm ft _ _ so = None"

definition player_init :: "solo_handler event_bus \<Rightarrow> solo_handler event_bus option" where
  "player_init bus =
     Option.bind (Option.bind (Option.bind (event_bus_listen EVENT_INPUT_MOVE_PERFORMING On_move_performing bus)
       (event_bus_listen EVENT_INPUT_MOVE_RELEASED On_move_released))
       (event_bus_listen EVENT_INPUT_SPRINT_CHANGED On_sprint_toggled))
       (event_bus_listen EVENT_INPUT_BOMB_PRESSED On_bomb_pressed)"

record solo_keys =
  sk_up :: bool
  sk_down :: bool
  sk_left :: bool
  sk_right :: bool
  sk_sprint_pressed :: bool
  sk_sprint_up :: bool
  sk_bomb_pressed :: bool
  sk_exit_pressed :: bool

definition trigger_solo :: "raymath \<Rightarrow> f32 \<Rightarrow> solo_handler event_bus \<Rightarrow> int \<Rightarrow> solo_args \<Rightarrow> solo option \<Rightarrow> solo option" where
  "trigger_solo rm ft bus event args so = Option.bind (event_bus_trigger (call_solo rm ft) event args bus so) id"

definition key_dir :: "bool \<Rightarrow> bool \<Rightarrow> int" where
  "key_dir pos neg = (if pos then 1 else if neg then -1 else 0)"

definition input_update :: "raymath \<Rightarrow> f32 \<Rightarrow> solo_handler event_bus \<Rightarrow> solo_keys \<Rightarrow> solo option \<Rightarrow> solo option" where
  "input_update rm ft bus k so =
     (let so = (if sk_up k \<or> sk_down k \<or> sk_left k \<or> sk_right k
                then trigger_solo rm ft bus EVENT_INPUT_MOVE_PERFORMING (MoveEventArgs (key_dir (sk_right k) (sk_left k)) (key_dir (sk_up k) (sk_down k))) so
                else trigger_solo rm ft bus EVENT_INPUT_MOVE_RELEASED NULL_args so);
          so = (if sk_sprint_pressed k then trigger_solo rm ft bus EVENT_INPUT_SPRINT_CHANGED (SprintEventArgs True) so
                else if sk_sprint_up k then trigger_solo rm ft bus EVENT_INPUT_SPRINT_CHANGED (SprintEventArgs False) so
                else so);
          so = (if sk_bomb_pressed k then trigger_solo rm ft bus EVENT_INPUT_BOMB_PRESSED NULL_args so else so)
      in if sk_exit_pressed k then trigger_solo rm ft bus EVENT_INPUT_EXIT_PRESSED NULL_args so else so)"

section \<open>A frame\<close>

definition bombs_tick :: "f32 \<Rightarrow> Arena \<Rightarrow> Arena option" where
  "bombs_tick ft a = Option.bind (tick_bombs ft a) (tick_explosions ft)"

definition solo_update :: "f32 \<Rightarrow> solo \<Rightarrow> solo option" where
  "solo_update ft so =
     (if 0 \<le> so_direction so \<and> so_direction so < 4 then Some (so\<lparr>so_inventory := inventory_update (so_inventory so) ft\<rparr>) else None)"

definition solo_frame :: "raymath \<Rightarrow> f32 \<Rightarrow> solo_handler event_bus \<Rightarrow> solo_keys \<Rightarrow> solo \<Rightarrow> solo option" where
  "solo_frame rm ft bus k so =
     Option.bind (input_update rm ft bus k (map_option (\<lambda>a. so\<lparr>so_arena := a\<rparr>) (bombs_tick ft (so_arena so)))) (solo_update ft)"

fun solo_run :: "raymath \<Rightarrow> solo_handler event_bus \<Rightarrow> (f32 \<times> solo_keys) list \<Rightarrow> solo \<Rightarrow> solo option" where
  "solo_run rm bus [] so = Some so"
| "solo_run rm bus ((ft, k) # fs) so = (case solo_frame rm ft bus k so of None \<Rightarrow> None | Some so' \<Rightarrow> solo_run rm bus fs so')"

text \<open>The start: a map for ten players, the queues and the powerups, the player in the corner, the handlers. The speed is a zeroed global.\<close>

definition solo_start :: "raymath \<Rightarrow> Arena \<Rightarrow> solo_handler event_bus \<Rightarrow> (solo \<times> solo_handler event_bus) option" where
  "solo_start rm a0 bus =
     (case map_generate 10 (ar_rng a0) of
        None \<Rightarrow> None
      | Some (g, r) \<Rightarrow>
          (case player_init (event_bus_init EVENT_COUNT bus) of
             None \<Rightarrow> None
           | Some bus' \<Rightarrow>
               Some (\<lparr>so_box = \<lparr>bx_position = rm_add rm (f_of_int 1, f_of_int 1) SIM_PLAYER_BOX_OFFSET, bx_size = SIM_PLAYER_BOX_SIZE\<rparr>,
                      so_direction = 1, so_is_moving = False,
                      so_inventory = \<lparr>st_remaining_bombs = 2, st_num_bombs = 2, st_num_fires = 1, st_bomb_replenish_timer = 0\<rparr>,
                      so_speed = 0, so_arena = powerup_init (init_bombs (a0\<lparr>ar_size := calc_map_size 10 + 2, ar_map := g, ar_rng := r\<rparr>))\<rparr>, bus')))"

section \<open>The handlers agree with the server\<close>

lemma consume_powerups_pickups:
  "\<forall>p \<in> set ps. on_arena (ar_size a) p \<Longrightarrow>
   consume_powerups ps (stock, a) = map_option (\<lambda>(st, _, a'). (st, a')) (pickups ps (stock, d, a))"
proof (induction ps arbitrary: stock a d)
  case (Cons p ps)
  have keep: "\<forall>p \<in> set ps. on_arena (ar_size a') p" if "write_tile (fst p) (snd p) EMPTY a = Some a'" for a'
    using Cons.prems that by (auto dest!: write_tile_fields)
  show ?case
  proof (cases "grid_get (ar_map a) (fst p) (snd p)")
    case (Some t)
    show ?thesis using Cons.prems Cons.IH [OF keep] Cons.IH Some by (cases t) (auto split: option.splits)
  qed (use Cons.prems in simp)
qed simp

lemma box_tiles_on_map:
  assumes "map_wf n g" and "box_ok n g box" and "p \<in> set (box_tiles (fst (bx_position box)) (snd (bx_position box)) (bx_size box))"
  shows "on_arena n p"
proof -
  have "tile_is_solid g (fst p) (snd p) = Some False"
    using assms(2,3) by (simp add: box_ok_def aabb_collided_def any_solid_False)
  then obtain t where "grid_get g (fst p) (snd p) = Some t" by (auto simp: tile_is_solid_def)
  then show ?thesis using grid_get_SomeD [OF map_wf_square [OF assms(1)], of "fst p" "snd p"] by (simp add: on_arena_def on_map_def not_less)
qed

lemma f_of_int_minus: "f_of_int (- k) = - f_of_int k"
proof -
  have e: "round_even (- y) = - round_even y" for y
  proof (cases "y = of_int \<lfloor>y\<rfloor>")
    case True
    then have "round_even y = \<lfloor>y\<rfloor>" "round_even (- y) = - \<lfloor>y\<rfloor>" by (metis round_even_int, metis round_even_int of_int_minus)
    then show ?thesis by simp
  next
    case False
    have f: "\<lfloor>- y\<rfloor> = - \<lfloor>y\<rfloor> - 1" using False by linarith
    show ?thesis unfolding round_even_def Let_def f by (auto simp: algebra_simps)
  qed
  show ?thesis by (simp add: f_of_int_def f32_round_def e)
qed

text \<open>The standalone player and a player of a session in the same place.\<close>

fun facing_index :: "Facing \<Rightarrow> int" where
  "facing_index FACING_UP = 0" | "facing_index FACING_DOWN = 1" | "facing_index FACING_LEFT = 2" | "facing_index FACING_RIGHT = 3"

definition twin :: "solo \<Rightarrow> BombPlayer \<Rightarrow> Arena \<Rightarrow> bool" where
  "twin so p a \<longleftrightarrow> so_box so = pl_box p \<and> so_direction so = facing_index (pl_direction p) \<and> so_is_moving so = pl_is_moving p
     \<and> so_inventory so = pl_inventory p \<and> so_arena so = a"

lemma solo_direction_facing: "solo_direction x y (facing_index d) = facing_index (facing x y d)"
  by (simp add: solo_direction_def facing_def)

text \<open>
  C32 (solo_equals_server): the handler that moves the standalone player and the update that follows do to the player's place, direction and inventory and to
  the map what the movement-and-pickup stage of the server's tick (\<open>apply_movement_and_pickups\<close>) does to a player of a session who stands in the same place, faces the same way, carries the
  same inventory and holds the same movement at the same speed, for any frame time that covers at most a quarter of a tile. Flames are not compared: the stage of the server's tick that kills has no counterpart
  in the standalone game.
\<close>

theorem solo_equals_server:
  assumes "match_wf n (s, a)" and "i < nat (se_count s)" and "pl_active (se_players s ! i)" and "pl_alive (se_players s ! i)"
    and "raymath_law rm" and "stride_ok dt"
    and "twin so (se_players s ! i) a" and "so_speed so = (if pl_sprinting (se_players s ! i) then SIM_PLAYER_SPRINT_SPEED else SIM_PLAYER_SPEED)"
    and "x = pl_move_dx (se_players s ! i)" and "y = pl_move_dy (se_players s ! i)" and "x \<noteq> 0 \<or> y \<noteq> 0"
  shows "\<exists>so' s' a'. Option.bind (on_move_performing rm dt x y so) (solo_update dt) = Some so' \<and> player_tick rm dt i (s, a) = Some (s', a')
     \<and> twin so' (se_players s' ! i) a'"
proof -
  let ?p = "se_players s ! i"
  have w: "arena_wf n a" "n \<le> 30" "player_ok n (ar_map a) ?p" "map_wf n (ar_map a)" "i < length (se_players s)"
    using assms(1,2) by (auto simp: match_wf_def arena_wf_def core_wf_def)
  have sz: "ar_size a = n" using w(1) by (simp add: arena_wf_def core_wf_def)
  obtain p1 moved where p1: "player_move rm dt (ar_map a) ?p = Some (p1, moved)" "player_ok n (ar_map a) p1" "pl_inventory p1 = pl_inventory ?p"
    using player_move_safe [OF w(4,2,3) assms(5,6)] by metis
  obtain box where box: "move_box rm (ar_map a) (pl_box ?p) (rm_scale rm (rm_normalize rm (f_of_int x, f_of_int (- y))) (f_mul (so_speed so) dt)) = Some box"
      "p1 = ?p\<lparr>pl_box := box, pl_direction := facing x y (pl_direction ?p), pl_is_moving := True\<rparr>"
    using p1(1) assms(8-11) by (auto simp: player_move_def Let_def f_of_int_minus split: option.splits)
  have inv: "inventory_ok (pl_inventory p1)" and ok: "box_ok n (ar_map a) box" using p1(2) box(2) by (simp_all add: player_ok_def)
  from pickups_safe [OF w(1) inv, of "player_tiles p1" "se_dirty s \<or> moved"] obtain stock d a' where
    pk: "pickups (player_tiles p1) (pl_inventory p1, se_dirty s \<or> moved, a) = Some (stock, d, a')" by blast
  have t: "player_tiles p1 = box_tiles (fst (bx_position box)) (snd (bx_position box)) (bx_size box)" by (simp add: box(2) player_tiles_def)
  have "\<forall>q \<in> set (player_tiles p1). on_arena (ar_size a) q"
    using box_tiles_on_map [OF w(4) ok] unfolding t sz by blast
  from consume_powerups_pickups [OF this, of "pl_inventory p1" "se_dirty s \<or> moved"]
  have cons: "consume_powerups (player_tiles p1) (pl_inventory p1, a) = Some (stock, a')" by (simp add: pk)
  have tick: "player_tick rm dt i (s, a) = Some (s\<lparr>se_players := (se_players s)[i := p1\<lparr>pl_inventory := inventory_update stock dt\<rparr>], se_dirty := d\<rparr>, a')"
    using assms(3,4) p1(1) pk by (simp add: player_tick_def Let_def)
  have tw: "so_box so = pl_box ?p" "so_direction so = facing_index (pl_direction ?p)" "so_inventory so = pl_inventory ?p" "so_arena so = a"
    using assms(7) by (simp_all add: twin_def)
  let ?so = "so\<lparr>so_box := box, so_direction := facing_index (facing x y (pl_direction ?p)), so_inventory := stock, so_arena := a', so_is_moving := True\<rparr>"
  have move: "on_move_performing rm dt x y so = Some ?so"
    using box(1) cons p1(3) unfolding t by (simp add: on_move_performing_def Let_def tw solo_direction_facing)
  have dir: "0 \<le> facing_index f \<and> facing_index f < 4" for f by (cases f) simp_all
  have "Option.bind (on_move_performing rm dt x y so) (solo_update dt) = Some (?so\<lparr>so_inventory := inventory_update stock dt\<rparr>)"
    using move dir by (simp add: solo_update_def)
  moreover have "twin (?so\<lparr>so_inventory := inventory_update stock dt\<rparr>) (p1\<lparr>pl_inventory := inventory_update stock dt\<rparr>) a'"
    by (simp add: twin_def box(2))
  ultimately show ?thesis using tick w(5) by simp
qed

theorem solo_equals_server_witness:
  "\<exists>so s a so' s' a'. pl_move_dx (se_players s ! 0) = 1 \<and> twin so (se_players s ! 0) a
     \<and> Option.bind (on_move_performing demo_raymath TICK_DELTA 1 0 so) (solo_update TICK_DELTA) = Some so'
     \<and> player_tick demo_raymath TICK_DELTA 0 (s, a) = Some (s', a') \<and> twin so' (se_players s' ! 0) a'"
proof -
  have two: "0 < unat (2 :: u32)" "min (unat (2 :: u32)) 25 = 2" by simp_all
  define n where "n = calc_map_size (int 2) + 2"
  obtain s a where s: "init_session demo_raymath [7, 9] 2 (demo_arena []) = Some (s, a)" "match_wf n (s, a)" "se_count s = int 2"
      "\<And>i. i < 2 \<Longrightarrow> pl_player_id (se_players s ! i) = [7, 9] ! i \<and> pl_active (se_players s ! i) \<and> pl_alive (se_players s ! i)"
    using init_session_sound [OF demo_raymath_law two(1), of "[7, 9]" "demo_arena []"] unfolding two(2) n_def by metis
  let ?p = "(se_players s ! 0)\<lparr>pl_move_dx := 1, pl_move_dy := 0, pl_sprinting := False\<rparr>"
  let ?s = "s\<lparr>se_players := (se_players s)[0 := ?p], se_dirty := True\<rparr>"
  have len: "0 < length (se_players s)" and z: "0 < nat (se_count s)" using s(2,3) by (auto simp: match_wf_def)
  have "arena_wf n a" "player_ok n (ar_map a) ?p" using s(2) z by (auto simp: match_wf_def player_ok_def)
  then have m: "match_wf n (?s, a)" by (intro match_step_player(1) [OF s(2) z _ evolves_refl]) simp_all
  define so where "so = \<lparr>so_box = pl_box ?p, so_direction = facing_index (pl_direction ?p), so_is_moving = pl_is_moving ?p, so_inventory = pl_inventory ?p,
    so_speed = SIM_PLAYER_SPEED, so_arena = a\<rparr>"
  have p: "se_players ?s ! 0 = ?p" using len by simp
  have tw: "twin so (se_players ?s ! 0) a" unfolding p by (simp add: twin_def so_def)
  have "\<exists>so' s' a'. Option.bind (on_move_performing demo_raymath TICK_DELTA 1 0 so) (solo_update TICK_DELTA) = Some so'
     \<and> player_tick demo_raymath TICK_DELTA 0 (?s, a) = Some (s', a') \<and> twin so' (se_players s' ! 0) a'"
    by (rule solo_equals_server [OF m _ _ _ demo_raymath_law TICK_stride tw]) (use z s(4) [of 0] len in \<open>simp_all add: so_def\<close>)
  then obtain so' s' a' where "Option.bind (on_move_performing demo_raymath TICK_DELTA 1 0 so) (solo_update TICK_DELTA) = Some so'"
      "player_tick demo_raymath TICK_DELTA 0 (?s, a) = Some (s', a')" "twin so' (se_players s' ! 0) a'" by blast
  moreover have "pl_move_dx (se_players ?s ! 0) = 1" unfolding p by simp
  ultimately show ?thesis using tw by blast
qed

section \<open>The standalone game is safe\<close>

definition solo_wf :: "int \<Rightarrow> solo \<Rightarrow> bool" where
  "solo_wf n so \<longleftrightarrow> arena_wf n (so_arena so) \<and> n \<le> 30 \<and> box_ok n (ar_map (so_arena so)) (so_box so) \<and> inventory_ok (so_inventory so)
     \<and> 0 \<le> so_direction so \<and> so_direction so < 4 \<and> so_speed so \<in> {0, SIM_PLAYER_SPEED, SIM_PLAYER_SPRINT_SPEED}"

lemma move_performing_safe:
  assumes "solo_wf n so" and "raymath_law rm" and "stride_ok ft"
  shows "\<exists>so'. on_move_performing rm ft x y so = Some so' \<and> solo_wf n so'"
proof -
  let ?a = "so_arena so"
  have w: "arena_wf n ?a" "n \<le> 30" "box_ok n (ar_map ?a) (so_box so)" "inventory_ok (so_inventory so)" "map_wf n (ar_map ?a)" "ar_size ?a = n"
    using assms(1) by (auto simp: solo_wf_def arena_wf_def core_wf_def)
  have "\<bar>f_mul (so_speed so) ft\<bar> \<le> 1 / 4" using assms(1,3) by (auto simp: solo_wf_def stride_ok_def f_mul_def f32_round_def)
  note step = scaled_step [OF assms(2) this]
  let ?amt = "rm_scale rm (rm_normalize rm (f_of_int x, f_of_int (- y))) (f_mul (so_speed so) ft)"
  have "\<bar>fst ?amt\<bar> \<le> 3 / 5" "\<bar>snd ?amt\<bar> \<le> 3 / 5" using step by blast+
  then obtain box where box: "move_box rm (ar_map ?a) (so_box so) ?amt = Some box" "box_ok n (ar_map ?a) box"
    using move_box_safe [OF w(5,2,3) assms(2)] by metis
  let ?ts = "box_tiles (fst (bx_position box)) (snd (bx_position box)) (bx_size box)"
  obtain stock d a' where pk: "pickups ?ts (so_inventory so, False, ?a) = Some (stock, d, a')" "arena_wf n a'" "evolves ?a a'" "inventory_ok stock"
    using pickups_safe [OF w(1,4)] by blast
  have "\<forall>q \<in> set ?ts. on_arena (ar_size ?a) q"
    using box_tiles_on_map [OF w(5) box(2)] unfolding w(6) by blast
  from consume_powerups_pickups [OF this, of "so_inventory so" False]
  have cons: "consume_powerups ?ts (so_inventory so, ?a) = Some (stock, a')" by (simp add: pk(1))
  let ?so = "so\<lparr>so_box := box, so_direction := solo_direction x y (so_direction so), so_inventory := stock, so_arena := a', so_is_moving := True\<rparr>"
  have "on_move_performing rm ft x y so = Some ?so" using box(1) cons by (simp add: on_move_performing_def Let_def)
  moreover have "solo_wf n ?so" using assms(1) pk(2,4) box_ok_evolves [OF box(2) pk(3)] by (simp add: solo_wf_def solo_direction_def)
  ultimately show ?thesis by blast
qed

lemma bomb_pressed_safe:
  assumes "solo_wf n so"
  shows "\<exists>so'. on_bomb_pressed so = Some so' \<and> solo_wf n so'"
proof -
  have w: "arena_wf n (so_arena so)" "n \<le> 30" "box_ok n (ar_map (so_arena so)) (so_box so)" "map_wf n (ar_map (so_arena so))"
    and inv: "inventory_ok (so_inventory so)" using assms by (auto simp: solo_wf_def arena_wf_def core_wf_def)
  have f: "0 \<le> st_num_fires (so_inventory so)" using inv by (simp add: inventory_ok_def)
  obtain ok stock a' where pb: "place_bomb (get_center_box (so_box so)) (so_inventory so) (so_arena so) = Some (ok, stock, a')" "arena_wf n a'" "evolves (so_arena so) a'"
      "stock = (if ok then consume_bomb (so_inventory so) else so_inventory so)" "ok \<Longrightarrow> 0 < st_remaining_bombs (so_inventory so)"
    by (rule place_bomb_safe [OF w(1) center_on_map [OF w(4,2,3)] f]) (rule that; assumption?)
  have "inventory_ok stock" using pb(4,5) inv consume_bomb_ok by (cases ok) simp_all
  then have "solo_wf n (so\<lparr>so_inventory := stock, so_arena := a'\<rparr>)"
    using assms pb(2) box_ok_evolves [OF w(3) pb(3)] by (simp add: solo_wf_def)
  then show ?thesis using pb(1) by (simp add: on_bomb_pressed_def)
qed

definition bus_ready :: "solo_handler event_bus \<Rightarrow> bool" where
  "bus_ready bus \<longleftrightarrow> slot_of EVENT_INPUT_MOVE_PERFORMING bus = Some [On_move_performing] \<and> slot_of EVENT_INPUT_MOVE_RELEASED bus = Some [On_move_released]
     \<and> slot_of EVENT_INPUT_SPRINT_CHANGED bus = Some [On_sprint_toggled] \<and> slot_of EVENT_INPUT_BOMB_PRESSED bus = Some [On_bomb_pressed]
     \<and> slot_of EVENT_INPUT_EXIT_PRESSED bus = Some []"

lemmas input_events = EVENT_INPUT_MOVE_PERFORMING_def EVENT_INPUT_MOVE_RELEASED_def EVENT_INPUT_SPRINT_CHANGED_def EVENT_INPUT_BOMB_PRESSED_def
  EVENT_INPUT_EXIT_PRESSED_def EVENT_COUNT_def

lemma player_init_ready: "\<exists>bus'. player_init (event_bus_init EVENT_COUNT bus) = Some bus' \<and> bus_ready bus'"
  by (simp add: player_init_def event_bus_listen_def slot_of_init slot_of_set_slot bus_ready_def input_events)

lemma trigger_one: "slot_of e bus = Some [h] \<Longrightarrow> trigger_solo rm ft bus e args so = call_solo rm ft h args so"
  by (simp add: trigger_solo_def event_bus_trigger_def)

lemma input_update_safe:
  assumes "solo_wf n so" and "raymath_law rm" and "stride_ok ft" and "bus_ready bus"
  shows "\<exists>so'. input_update rm ft bus k (Some so) = Some so' \<and> solo_wf n so'"
proof -
  note b = assms(4) [unfolded bus_ready_def]
  have released: "solo_wf n (on_move_released s)" if "solo_wf n s" for s using that by (simp add: on_move_released_def solo_wf_def)
  have sprint: "solo_wf n (on_sprint_toggled t s)" if "solo_wf n s" for s t using that by (simp add: on_sprint_toggled_def solo_wf_def)
  obtain s1 where s1: "(if sk_up k \<or> sk_down k \<or> sk_left k \<or> sk_right k
      then trigger_solo rm ft bus EVENT_INPUT_MOVE_PERFORMING (MoveEventArgs (key_dir (sk_right k) (sk_left k)) (key_dir (sk_up k) (sk_down k))) (Some so)
      else trigger_solo rm ft bus EVENT_INPUT_MOVE_RELEASED NULL_args (Some so)) = Some s1" "solo_wf n s1"
    using move_performing_safe [OF assms(1-3), of "key_dir (sk_right k) (sk_left k)" "key_dir (sk_up k) (sk_down k)"] released [OF assms(1)] b
    by (cases "sk_up k \<or> sk_down k \<or> sk_left k \<or> sk_right k") (auto simp: trigger_one)
  obtain s2 where s2: "(if sk_sprint_pressed k then trigger_solo rm ft bus EVENT_INPUT_SPRINT_CHANGED (SprintEventArgs True) (Some s1)
      else if sk_sprint_up k then trigger_solo rm ft bus EVENT_INPUT_SPRINT_CHANGED (SprintEventArgs False) (Some s1) else Some s1) = Some s2" "solo_wf n s2"
    using that sprint [OF s1(2)] s1(2) b by (cases "sk_sprint_pressed k"; cases "sk_sprint_up k") (simp_all add: trigger_one)
  obtain s3 where s3: "(if sk_bomb_pressed k then trigger_solo rm ft bus EVENT_INPUT_BOMB_PRESSED NULL_args (Some s2) else Some s2) = Some s3" "solo_wf n s3"
    using bomb_pressed_safe [OF s2(2)] s2(2) b by (cases "sk_bomb_pressed k") (auto simp: trigger_one)
  have s4: "(if sk_exit_pressed k then trigger_solo rm ft bus EVENT_INPUT_EXIT_PRESSED NULL_args (Some s3) else Some s3) = Some s3"
    using b by (simp add: trigger_solo_def event_bus_trigger_def)
  have "input_update rm ft bus k (Some so) = Some s3" unfolding input_update_def Let_def s1(1) s2(1) s3(1) s4 ..
  then show ?thesis using s3(2) by blast
qed

lemma solo_frame_safe:
  assumes "solo_wf n so" and "raymath_law rm" and "stride_ok ft" and "bus_ready bus"
  shows "\<exists>so'. solo_frame rm ft bus k so = Some so' \<and> solo_wf n so'"
proof -
  obtain a where a: "bombs_tick ft (so_arena so) = Some a" "arena_wf n a" "evolves (so_arena so) a"
    using tick.seq_safe [of n "so_arena so" ft] assms(1) by (auto simp: bombs_tick_def solo_wf_def)
  have "solo_wf n (so\<lparr>so_arena := a\<rparr>)" using assms(1) a(2) box_ok_evolves [OF _ a(3)] by (simp add: solo_wf_def)
  then obtain s1 where s1: "input_update rm ft bus k (Some (so\<lparr>so_arena := a\<rparr>)) = Some s1" "solo_wf n s1"
    using input_update_safe [OF _ assms(2-4)] by blast
  have "solo_update ft s1 = Some (s1\<lparr>so_inventory := inventory_update (so_inventory s1) ft\<rparr>)" using s1(2) by (simp add: solo_update_def solo_wf_def)
  moreover have "solo_wf n (s1\<lparr>so_inventory := inventory_update (so_inventory s1) ft\<rparr>)" using s1(2) inventory_update_ok by (simp add: solo_wf_def)
  ultimately show ?thesis using a(1) s1(1) by (simp add: solo_frame_def)
qed

lemma solo_run_safe:
  "solo_wf n so \<Longrightarrow> raymath_law rm \<Longrightarrow> bus_ready bus \<Longrightarrow> \<forall>f \<in> set fs. stride_ok (fst f) \<Longrightarrow> \<exists>so'. solo_run rm bus fs so = Some so' \<and> solo_wf n so'"
proof (induction fs arbitrary: so)
  case (Cons f fs)
  obtain ft k where f: "f = (ft, k)" by fastforce
  obtain s1 where "solo_frame rm ft bus k so = Some s1" "solo_wf n s1"
    using solo_frame_safe [OF Cons.prems(1,2) _ Cons.prems(3), of ft k] Cons.prems(4) f by auto
  then show ?case using Cons.IH [OF _ Cons.prems(2,3)] Cons.prems(4) by (simp add: f)
qed simp

lemma first_corner: "(1, 1) \<in> set (calc_player_spawns 10 m)"
  by (simp add: calc_player_spawns_def corners_def Let_def)

lemma solo_start_safe:
  assumes "raymath_law rm"
  shows "\<exists>so bus'. solo_start rm a0 bus = Some (so, bus') \<and> solo_wf 18 so \<and> bus_ready bus'"
proof -
  have n: "calc_map_size 10 + 2 = 18" by code_simp
  obtain g r where gen: "map_generate 10 (ar_rng a0) = Some (g, r)" "map_wf 18 g"
      "{p. grid_get g (fst p) (snd p) = Some PLAYER} = set (calc_player_spawns 10 (18 - 2))"
    using map_generate_facts [of 10 "ar_rng a0"] unfolding n by auto
  have "(1, 1) \<in> {p. grid_get g (fst p) (snd p) = Some PLAYER}" unfolding gen(3) by (rule first_corner)
  then have c: "grid_get g 1 1 = Some PLAYER" by simp
  have "inner 18 (1, 1)" "\<not> solid PLAYER" by (simp_all add: inner_def solid_def)
  from spawn_box_ok(1) [OF this(1) _ assms c this(2)]
  have box: "box_ok 18 g \<lparr>bx_position = rm_add rm (f_of_int 1, f_of_int 1) SIM_PLAYER_BOX_OFFSET, bx_size = SIM_PLAYER_BOX_SIZE\<rparr>" by simp
  obtain bus' where b: "player_init (event_bus_init EVENT_COUNT bus) = Some bus'" "bus_ready bus'" using player_init_ready by blast
  let ?a = "powerup_init (init_bombs (a0\<lparr>ar_size := calc_map_size 10 + 2, ar_map := g, ar_rng := r\<rparr>))"
  have pend: "pending_ok 18 ?a"
    using powerup_init_pending [of 18 "init_bombs (a0\<lparr>ar_size := calc_map_size 10 + 2, ar_map := g, ar_rng := r\<rparr>)"] gen(2) n
    by (simp add: map_wf_def init_bombs_def)
  have aw: "arena_wf 18 ?a" using gen(2) pend n
    by (simp add: arena_wf_def core_wf_def queues_ok_def powerup_init_def init_bombs_def queue_init_wf queue_init_list)
  have m: "ar_map ?a = g" by (simp add: powerup_init_def init_bombs_def)
  show ?thesis using gen(1) b aw box m by (auto simp: solo_start_def solo_wf_def inventory_ok_def)
qed

text \<open>
  C34 (solo_game_safe): The standalone game starts, and no sequence of keys makes a frame access the map or an explosion outside its arrays as long as
  no frame lasts so long that the player covers more than a quarter of a tile; the player keeps clear of walls and breakable tiles.
\<close>

theorem solo_game_safe:
  assumes "raymath_law rm"
  shows "\<exists>so bus'. solo_start rm a0 bus = Some (so, bus')
     \<and> (\<forall>fs. (\<forall>f \<in> set fs. stride_ok (fst f)) \<longrightarrow> (\<exists>so'. solo_run rm bus' fs so = Some so' \<and> solo_wf 18 so'))"
proof -
  obtain so bus' where s: "solo_start rm a0 bus = Some (so, bus')" "solo_wf 18 so" "bus_ready bus'" using solo_start_safe [OF assms] by blast
  then show ?thesis using solo_run_safe [OF s(2) assms s(3)] by blast
qed

theorem solo_game_safe_witness:
  "\<exists>so bus' so'. solo_start demo_raymath (demo_arena []) \<lparr>slots = None, num_events = 0\<rparr> = Some (so, bus')
     \<and> solo_run demo_raymath bus' [(TICK_DELTA, \<lparr>sk_up = False, sk_down = True, sk_left = False, sk_right = True, sk_sprint_pressed = True,
          sk_sprint_up = False, sk_bomb_pressed = True, sk_exit_pressed = False\<rparr>)] so = Some so' \<and> solo_wf 18 so'"
proof -
  obtain so bus' where s: "solo_start demo_raymath (demo_arena []) \<lparr>slots = None, num_events = 0\<rparr> = Some (so, bus')"
    and r: "\<And>fs. \<forall>f \<in> set fs. stride_ok (fst f) \<Longrightarrow> \<exists>so'. solo_run demo_raymath bus' fs so = Some so' \<and> solo_wf 18 so'"
    using solo_game_safe [OF demo_raymath_law, of "demo_arena []" "\<lparr>slots = None, num_events = 0\<rparr>"] by blast
  show ?thesis using s r [of "[(TICK_DELTA, \<lparr>sk_up = False, sk_down = True, sk_left = False, sk_right = True, sk_sprint_pressed = True,
          sk_sprint_up = False, sk_bomb_pressed = True, sk_exit_pressed = False\<rparr>)]"] TICK_stride by auto
qed

text \<open>
  Lemma (long_frame_leaves_map): The bound on the frame time is needed: a frame of one second, with the left key held in the corner where the player starts,
  makes the collision test read a tile outside the map, whatever the map is.
\<close>

theorem long_frame_leaves_map:
  assumes "raymath_law rm" and "rm_normalize rm (-1, 0) = (-1, 0)" and "so_speed so = SIM_PLAYER_SPEED"
    and "so_box so = \<lparr>bx_position = rm_add rm (f_of_int 1, f_of_int 1) SIM_PLAYER_BOX_OFFSET, bx_size = SIM_PLAYER_BOX_SIZE\<rparr>"
  shows "on_move_performing rm 1 (-1) 0 so = None"
proof -
  let ?x = "f_add (f_add (f_of_int 1) (fst SIM_PLAYER_BOX_OFFSET)) (f_mul (-1) (f_mul SIM_PLAYER_SPEED 1))"
  let ?y = "f_add (f_of_int 1) (snd SIM_PLAYER_BOX_OFFSET)"
  have tiles: "hd (box_tiles ?x ?y SIM_PLAYER_BOX_SIZE) = (-2, 1) \<and> box_tiles ?x ?y SIM_PLAYER_BOX_SIZE \<noteq> []" by code_simp
  then obtain ts where ts: "box_tiles ?x ?y SIM_PLAYER_BOX_SIZE = (-2, 1) # ts" by (cases "box_tiles ?x ?y SIM_PLAYER_BOX_SIZE") auto
  have "tile_is_solid g (-2) 1 = None" for g by (simp add: tile_is_solid_def grid_get_def in_grid_def)
  then have out: "aabb_collided g ?x ?y SIM_PLAYER_BOX_SIZE = None" for g by (simp add: aabb_collided_def ts)
  have i: "f_of_int (-1) = -1" "f_of_int (- 0) = 0" by code_simp+
  have r: "\<And>v w. rm_add rm v w = (f_add (fst v) (fst w), f_add (snd v) (snd w))" "\<And>v s. rm_scale rm v s = (f_mul (fst v) s, f_mul (snd v) s)"
    using assms(1) unfolding raymath_law_def by blast+
  show ?thesis unfolding on_move_performing_def Let_def i assms(2-4) r move_box_def by (simp add: out)
qed

theorem long_frame_leaves_map_witness:
  "on_move_performing demo_raymath 1 (-1) 0
     \<lparr>so_box = \<lparr>bx_position = rm_add demo_raymath (f_of_int 1, f_of_int 1) SIM_PLAYER_BOX_OFFSET, bx_size = SIM_PLAYER_BOX_SIZE\<rparr>, so_direction = 1,
      so_is_moving = False, so_inventory = \<lparr>st_remaining_bombs = 2, st_num_bombs = 2, st_num_fires = 1, st_bomb_replenish_timer = 0\<rparr>,
      so_speed = SIM_PLAYER_SPEED, so_arena = demo_arena []\<rparr> = None"
  by (rule long_frame_leaves_map [OF demo_raymath_law]) (simp_all add: demo_raymath_def)

end
