(* ===== verification/Bomb_Launch.thy ===== *)
theory Bomb_Launch
  imports Tetris_Screen
begin

text \<open>
  The launcher \<open>bombu/main.c\<close> and the arguments of \<open>bombapp/main.c\<close>: the launcher prompts for the address as \<open>tetrisu\<close> does
  (\<open>Tetris_Screen.prompt_address\<close>, the same statements), looks up its own executable and replaces itself by the \<open>bombapp\<close> beside it,
  with the address as argument. The result of \<open>readlink\<close> is an argument, \<open>None\<close> when it fails; \<open>execv\<close> is the result.
\<close>

definition strip_slashes :: "string \<Rightarrow> string" where
  "strip_slashes p = rev (dropWhile (\<lambda>c. c = CHR ''/'') (rev p))"

text \<open>The directory part of a path, as the C library computes it.\<close>

definition dirname :: "string \<Rightarrow> string" where
  "dirname p =
     (let q = strip_slashes p
      in if p = [] then ''.'' else if q = [] then ''/''
         else let d = rev (dropWhile (\<lambda>c. c \<noteq> CHR ''/'') (rev q))
              in if d = [] then ''.'' else if strip_slashes d = [] then ''/'' else strip_slashes d)"

datatype launch = Input_error | Readlink_error | Execv string "string list"

definition bombapp_beside :: "string \<Rightarrow> string" where
  "bombapp_beside exe =
     (let self_path = c_str (take 4095 exe); dir = dirname (take 4095 self_path)
      in take 4159 (dir @ ''/bombapp''))"

definition bombu_main :: "(string \<Rightarrow> bool) \<Rightarrow> string option \<Rightarrow> string \<Rightarrow> launch" where
  "bombu_main valid_ip exe inp =
     (case prompt_address valid_ip inp of
        None \<Rightarrow> Input_error
      | Some (server_ip, _) \<Rightarrow>
          (case exe of
             None \<Rightarrow> Readlink_error
           | Some path \<Rightarrow> let bombapp_path = bombapp_beside path in Execv bombapp_path [bombapp_path, server_ip]))"

text \<open>How \<open>bombapp\<close> reads its arguments: whether it plays over the network, and the server's address.\<close>

definition bombapp_args :: "string list \<Rightarrow> bool \<times> string" where
  "bombapp_args argv = (if 2 \<le> length argv then (True, take 63 (argv ! 1)) else (False, []))"

lemma strip_slashes_none: "p \<noteq> [] \<Longrightarrow> last p \<noteq> CHR ''/'' \<Longrightarrow> strip_slashes p = p"
  by (cases p rule: rev_cases) (simp_all add: strip_slashes_def)

lemma dirname_dir:
  assumes "dir \<noteq> []" and "last dir \<noteq> CHR ''/''" and "file \<noteq> []" and "CHR ''/'' \<notin> set file"
  shows "dirname (dir @ ''/'' @ file) = dir"
proof -
  have "last file \<noteq> CHR ''/''" using assms(3,4) last_in_set by metis
  then have q: "strip_slashes (dir @ ''/'' @ file) = dir @ ''/'' @ file" using assms(3) by (intro strip_slashes_none) simp_all
  have "dropWhile (\<lambda>c. c \<noteq> CHR ''/'') (rev file @ ''/'' @ rev dir) = ''/'' @ rev dir"
    using assms(4) by (subst dropWhile_append2) auto
  moreover have "strip_slashes (dir @ ''/'') = dir"
    using strip_slashes_none [OF assms(1,2)] by (simp add: strip_slashes_def)
  ultimately show ?thesis using assms(1) by (simp add: dirname_def q [simplified] Let_def)
qed

lemma bombapp_beside_dir:
  assumes "dir \<noteq> []" and "last dir \<noteq> CHR ''/''" and "file \<noteq> []" and "CHR ''/'' \<notin> set file" and "CHR 0x00 \<notin> set (dir @ file)"
    and "length (dir @ ''/'' @ file) \<le> 4095"
  shows "bombapp_beside (dir @ ''/'' @ file) = dir @ ''/bombapp''"
proof -
  have "c_str (dir @ ''/'' @ file) = dir @ ''/'' @ file" using assms(5) by (auto simp: c_str_def takeWhile_eq_all_conv)
  then show ?thesis using assms(6) dirname_dir [OF assms(1-4)] by (simp add: bombapp_beside_def)
qed

section \<open>Properties\<close>

text \<open>
  Lemma (launcher_hands_over): the launcher starts the \<open>bombapp\<close> of its own directory, wherever that is, and \<open>bombapp\<close> plays over the network with exactly the
  address that the prompt accepted, the first empty line or address of the input.
\<close>

theorem launcher_hands_over:
  assumes "\<forall>l \<in> set ls. plain_line l" and "dropWhile (\<lambda>l. l \<noteq> [] \<and> \<not> valid_ip (take 17 l)) ls = l # rest"
    and "dir \<noteq> []" and "last dir \<noteq> CHR ''/''" and "file \<noteq> []" and "CHR ''/'' \<notin> set file" and "CHR 0x00 \<notin> set (dir @ file)"
    and "length (dir @ ''/'' @ file) \<le> 4095"
  shows "\<exists>argv. bombu_main valid_ip (Some (dir @ ''/'' @ file)) (text_of ls) = Execv (dir @ ''/bombapp'') argv
     \<and> bombapp_args argv = (True, if l = [] then ''127.0.0.1'' else take 17 l)"
proof -
  have "prompt_address valid_ip (text_of ls) = Some (if l = [] then ''127.0.0.1'' else take 17 l, text_of rest)"
    using prompt_lines [OF assms(1), of valid_ip] assms(2) by simp
  then show ?thesis using bombapp_beside_dir [OF assms(3-8)] by (simp add: bombu_main_def bombapp_args_def Let_def min_le_iff_disj)
qed

theorem launcher_hands_over_witness:
  "\<exists>argv. bombu_main (\<lambda>ip. ip = ''10.0.0.7'') (Some (''/opt/bin'' @ ''/'' @ ''bombu'')) (text_of [''host'', ''10.0.0.7'']) = Execv (''/opt/bin'' @ ''/bombapp'') argv
     \<and> bombapp_args argv = (True, ''10.0.0.7'')"
  using launcher_hands_over [of "[''host'', ''10.0.0.7'']" "\<lambda>ip. ip = ''10.0.0.7''" "''10.0.0.7''" "[]" "''/opt/bin''" "''bombu''"]
  by (simp add: plain_line_def)

end
