(* ===== verification/Spec2Isabelle.thy ===== *)
theory Spec2Isabelle
  imports Engine_Props Master_Main Log_Daemon Tetris_Screen Terminal Room_Net Client_Run Bomb_Main Bomb_Client Bomb_Solo Bomb_Launch
begin

text \<open>
  A verification development for CoreStack: two networked games, a battle royale of Tetris and a bomb game, over one transport library.

  \<^bold>\<open>The program.\<close> \<open>src/corestack\<close> is the shared library: a bounded queue (\<open>utils/queue.h\<close>), an event bus (\<open>libeventbus.c\<close>), text messages
  (\<open>libhypertext.c\<close>), the HTTTP requests of the Tetris protocol (\<open>libhtttp.c\<close>, \<open>payload.c\<close>) and the transport \<open>libbattleroyale\<close>: framed messages
  over TCP and datagrams, a handshake that ends in a session key, encrypted application messages, and a state machine for each end.
  \<open>src/tetris\<close> is the first game: the engine (\<open>libtetrisbrain\<close>), a worker process per room (\<open>tetrisd/game.c\<close>, \<open>room.c\<close>), the master process that deals
  clients into rooms and decides the match (\<open>tetrisd/main.c\<close>, \<open>hub.c\<close>), the log daemon with its client library, and the terminal client \<open>tetrisu\<close>.
  \<open>src/bomberman\<close> is the second: the simulation (\<open>libbombbrain\<close>), its packets (\<open>libbombprotocol\<close>), the authoritative server \<open>bombd\<close> and the
  graphical client \<open>bombapp\<close>.

  \<^bold>\<open>How the code is modelled.\<close> A struct is a record, an enum a datatype, an unsigned integer a word, a C \<open>int\<close> a HOL \<open>int\<close>; a list stands for an array and keeps its
  length. State is passed explicitly. Where C leaves a behaviour undefined (an access outside an array) or stops, the result is \<open>None\<close>, and errors that the
  code returns are values. So a text with more than sixteen headers (\<open>HT_OVERRUN\<close>) is \<open>None\<close> in room and client, a snapshot text of less than 200 characters in the client, a peer's \<open>msg_len\<close>
  beyond 2048 in both ends of the handshake, and a certificate or signature that does not fit a message in the server. A loop that waits for its environment says so: still waiting, timed out and done are different results. The random numbers of \<open>rand\<close> are an infinite stream taken as an argument, so a theorem holds for every seed. What the
  environment supplies is an argument: the bytes that a connection delivers and how it cuts them, the clock, the keys, the results of system calls. What a program
  prints is a string, and what it asks of raylib is the list of its calls. OpenSSL and
  the vector functions of raylib are records of functions with their documented laws as hypotheses (\<open>Session_Crypto\<close>, \<open>Bomb_Session.raymath_law\<close>),
  and each is instantiated by concrete functions in the witnesses. A \<open>float\<close> is the rational it stands for, with every operation rounded to 24
  bits (\<open>Float32\<close>).

  \<^bold>\<open>Shared theories.\<close> \<open>Prelude\<close>: integer types, the random source, index loops, the locale \<open>codec\<close> of round trips. \<open>Bytes\<close>: byte buffers in network order.
  \<open>C_Text\<close>: \<open>sprintf\<close>, \<open>sscanf\<close>, \<open>strtoul\<close>, \<open>strstr\<close>. \<open>Float32\<close>: single precision, its rounding (error, monotonicity)
  and its bits with their round trip. \<open>Queue\<close>: the macro queue; the locale
  \<open>bounded_fifo\<close> is its interface, and a queue that has been full reopens only when it is empty. \<open>Event_Bus\<close>: the bus refines a stack of listeners per event.

  \<^bold>\<open>Tetris.\<close> \<open>Tetris_State\<close>, \<open>Board_Control\<close>, \<open>Bag\<close>, \<open>Engine\<close>: data and operations of \<open>libtetrisbrain\<close>; \<open>Engine_Props\<close>: what a tick does (locking, clearing, the
  account of garbage lines, the lock delay, the seven bag). \<open>Targeting\<close>: targets and kill feed. \<open>Game\<close>: the match of a room, with the locale \<open>session_step\<close> for what
  every step of a match keeps. \<open>Payload\<close>, \<open>Hypertext\<close>, \<open>Htttp\<close>: the protocol texts and their round trips. \<open>Room\<close>: the worker's loop, which is undefined exactly on texts that overrun the headers, and every player's
  elimination is reported once. \<open>Room_Net\<close>: the same worker on the transport: set-up, lobby and tick loop on encrypted messages, the report of exactly the clients in the room, a key from a client to its board and a snapshot
  back. \<open>Master\<close>: the master as an inductive step relation; its invariant, the routing of garbage, the end of the match. \<open>Master_Main\<close>: \<open>main\<close> of the master, from the
  listening socket over the poll loop to the shut-down; every accepted connection is answered once. \<open>Logging\<close>:
  records, the client's queue and the daemon's count of lost records; \<open>Log_Daemon\<close>: the daemon's start, event loop and the rotation of its file: no line is lost, and the reopening makes a new file (datagrams of 292 bytes and more count, cut to 292, as \<open>recvfrom\<close> does it). \<open>Tetris_Client\<close>: keys reach the board of the worker and snapshots reach the
  mirror of the client, through builder, parser and decoder. \<open>Tetris_Screen\<close>: every text that \<open>tetrisu\<close> prints (\<open>renderer.c\<close>, the kill feed) and the
  program around the game loop (\<open>tetrisu/main.c\<close>); the screen shows the board cell by cell, what a client prints is what the server's state would give, and
  the loop never stops short. \<open>Terminal\<close>: \<open>tetrisu/input.c\<close>, raw mode and the look at the keyboard, and that reading the keys never waits.

  \<^bold>\<open>Transport.\<close> \<open>Message\<close>: framing over a stream cut into arbitrary pieces (locale \<open>framed\<close>). \<open>Client_List\<close>: endpoints and the linked list (locale \<open>registry\<close>).
  \<open>Session_Crypto\<close>: the wrappers of \<open>crypto.c\<close>. \<open>Connection\<close>, \<open>BR_Server\<close>, \<open>BR_Client\<close>: the two ends, the server's thread as an inductive step relation
  with its invariant. \<open>Transport\<close>: both ends together, handshake and delivery. \<open>Client_Run\<close>: the client's thread beside its application, nothing is
  reordered, and the start message alone takes it into the game. \<open>Server_App\<close>: what an application on the server's side sees, shared by \<open>Room_Net\<close> and \<open>Bomb_Net\<close>, and what every run of the server keeps (ids counted
  from the base of the room, keys, queue).

  \<^bold>\<open>The bomb game.\<close> \<open>Bomb_Protocol\<close>: packets. \<open>Bomb_Map\<close>: map generation. \<open>Bomb_Control\<close>: bombs, explosions, powerups, inventories; \<open>Bomb_Arena\<close>: their
  invariant (locales \<open>arena_op\<close>, \<open>arena_ops\<close>); \<open>Bomb_Blast\<close>: the fuse, the reach of an explosion. \<open>Bomb_Session\<close>: collisions and the
  session of \<open>bombd/session.c\<close>; \<open>Bomb_Match\<close>: the invariant of a match and who dies. \<open>Bombd\<close>: set-up, tick loop and broadcasts of \<open>bombd/main.c\<close>, the
  verdict. \<open>Bomb_Net\<close>: the same server on the transport: the lobby loop and the seating of the clients. \<open>Bomb_Main\<close>: \<open>main\<close> of \<open>bombd\<close>, from the listening
  socket to the end of the match, and the passage of a frame's input from the client program to the session: moves by datagram, bombs over the connection. \<open>Bomb_App\<close>: the networked client of \<open>bombapp/network.c\<close> and that its map, players and verdict follow the server's (the map within the 20 rows and columns of the packets). \<open>Bomb_Solo\<close>: the standalone game
  of \<open>bombapp/player.c\<close>, whose movement equals the movement-and-pickup stage of the server's tick (flames are not compared). \<open>Bomb_Screen\<close>: \<open>tiles.c\<close>, \<open>bomb_render.c\<close>, \<open>spritesheet.c\<close> and \<open>draw_loop\<close> as the list of
  draw calls: a client draws the server's map (grass beyond row and column 20), the flames that burn and the verdict. \<open>Bomb_View\<close>: joining a match, the camera and the flight of a dead player, who stays over the map, and where a drawing ends when the screen is no larger than the map with its margin. \<open>Bomb_Audio\<close>: \<open>audio.c\<close> as the list of calls, one stream at a time and the
  fade of the battle theme. \<open>Bomb_Client\<close>: \<open>bombapp/main.c\<close> with match, camera and sound together. \<open>Bomb_Launch\<close>: \<open>bombu/main.c\<close>.

  \<^bold>\<open>Fuel and bounds.\<close> Loops are structural recursions or functions with a termination proof where the code allows it. The loops that walk a queue while removing items take
  the queue's rear as fuel: every iteration advances the index or lowers the rear. \<open>ceil_sqrt\<close> takes its argument as fuel. Waiting loops consume the list of what
  the environment delivers. The step sizes of the bomb game assume at most a quarter of a tile per frame, which the server's fixed tick satisfies
  (\<open>Bomb_Match.TICK_stride\<close>). The ghost piece's loop is a \<open>partial_function\<close> that is shown to return.

  \<^bold>\<open>Not modelled.\<close> The window and the loading of textures and sounds, which are calls of raylib; the logging macros, which print, and the log lines that
  the loops of room and master push on the way (the log client itself is \<open>Logging\<close>, its set-up and close in a worker are in \<open>Room_Net\<close>); signal handlers, which appear as the flags that they set; socket options; failures of \<open>malloc\<close>; the
  scheduling hints of the transport's producer and consumer flags. The projection of a camera to the screen is an argument of \<open>Bomb_View\<close>.
\<close>

end
